(* ===== verification/Bee_Prelude.thy ===== *)
theory Bee_Prelude
  imports Main "HOL-Library.Word" "HOL-Library.AList" "HOL-Library.Monad_Syntax"
begin

text \<open>
  The prelude of the development: what every component theory shares.

  \<^item> How a C++ computation that may go wrong is modelled. A function whose body can run into
    undefined behaviour (a null or out-of-range access, a failed \<open>BOOST_ASSERT\<close>) returns an
    \<open>option\<close>, and \<open>None\<close> stands for exactly that; error codes are ordinary values.
  \<^item> \<open>size_t\<close> and fixed-width subtraction, with the wrap-around written out.
  \<^item> The error codes of \<open>BeeErrorCode\<close> and the error codes of \<open>boost::system\<close>.
  \<^item> The log levels, with the order the enum's numbering gives them.
  \<^item> Generic lemmas on lists, options, association lists and words.

  The host is little-endian with a 64-bit \<open>size_t\<close>, as every platform the build files name.
\<close>

named_theorems bee_defs \<open>definitions that evaluation and case analysis unfold\<close>
named_theorems bee_inv \<open>preservation of the components' invariants\<close>

unbundle bit_operations_syntax

section \<open>Machine integers\<close>

type_synonym byte = "8 word"
type_synonym u16 = "16 word"
type_synonym u32 = "32 word"
type_synonym u64 = "64 word"

definition size_mod :: nat where
  "size_mod = 2 ^ 64"

text \<open>\<open>a - b\<close> on \<open>size_t\<close>: the difference modulo \<open>2 ^ 64\<close>.\<close>

definition size_sub :: "nat \<Rightarrow> nat \<Rightarrow> nat" where
  "size_sub a b = (if b \<le> a then a - b else a + size_mod - b)"

lemma size_mod_pos [simp]: "0 < size_mod"
  by (simp add: size_mod_def)

lemma size_sub_le [simp]: "b \<le> a \<Longrightarrow> size_sub a b = a - b"
  by (simp add: size_sub_def)

lemma size_sub_wrap: "a < b \<Longrightarrow> size_sub a b = a + size_mod - b"
  by (simp add: size_sub_def)

text \<open>The value an \<open>int32_t\<close> expression has after a conversion from a wider integer.\<close>

definition int32_of :: "int \<Rightarrow> int" where
  "int32_of i = (let r = i mod 2 ^ 32 in if r < 2 ^ 31 then r else r - 2 ^ 32)"

lemma int32_of_small [simp]: "- (2 ^ 31) \<le> i \<Longrightarrow> i < 2 ^ 31 \<Longrightarrow> int32_of i = i"
proof -
  assume lo: "- (2 ^ 31) \<le> i" and hi: "i < 2 ^ 31"
  show ?thesis
  proof (cases "0 \<le> i")
    case True
    with hi have "i mod 2 ^ 32 = i" by simp
    with hi show ?thesis by (simp add: int32_of_def)
  next
    case False
    with lo have "(i + 2 ^ 32) mod 2 ^ 32 = i + 2 ^ 32" by (intro mod_pos_pos_trivial) auto
    then have "i mod 2 ^ 32 = i + 2 ^ 32" by simp
    with False lo show ?thesis by (simp add: int32_of_def Let_def)
  qed
qed

section \<open>Error codes\<close>

datatype (plugins only: code size) BeeErrorCode =
    kBeeErrorCode_Success
  | kBeeErrorCode_General_Error
  | kBeeErrorCode_Invalid_Param
  | kBeeErrorCode_Invalid_State
  | kBeeErrorCode_Null_Pointer
  | kBeeErrorCode_Insufficient_Session
  | kBeeErrorCode_Invalid_Session
  | kBeeErrorCode_Engine_Internal_Error
  | kBeeErrorCode_Engine_Script_Error
  | kBeeErrorCode_Engine_Not_Loaded
  | kBeeErrorCode_Engine_Reject
  | kBeeErrorCode_Give_Up
  | kBeeErrorCode_Not_Implemented
  | kBeeErrorCode_Timeout
  | kBeeErrorCode_Service_Not_Started
  | kBeeErrorCode_Session_Not_Opened
  | kBeeErrorCode_Not_Connected
  | kBeeErrorCode_Error_Http_Status
  | kBeeErrorCode_Error_Data
  | kBeeErrorCode_Error_State_Machine
  | kBeeErrorCode_State_Machine_Interrupted
  | kBeeErrorCode_State_Machine_Finished
  | kBeeErrorCode_Resolve_Fail
  | kBeeErrorCode_Connect_Fail
  | kBeeErrorCode_Tls_Shakehand_Fail
  | kBeeErrorCode_Write_Fail
  | kBeeErrorCode_Read_Fail
  | kBeeErrorCode_Read_Http_Header_Fail
  | kBeeErrorCode_Read_Http_Content_Fail
  | kBeeErrorCode_Read_Http_Chunk_Size_Fail
  | kBeeErrorCode_Read_Http_Chunk_Body_Fail
  | kBeeErrorCode_Crypto_Error
  | kBeeErrorCode_Decompress_Error
  | kBeeErrorCode_Signature_Error
  | kBeeErrorCode_Invalid_Protocol_Mark
  | kBeeErrorCode_Invalid_Message
  | kBeeErrorCode_Eof
  | kBeeErrorCode_Not_Enough_Memory
  | kBeeErrorCode_Lws_Error
  | kBeeErrorCode_Webrtc_Create_Peer_Connection_Fail
  | kBeeErrorCode_Webrtc_Open_Video_Capture_Fail
  | kBeeErrorCode_Webrtc_Create_Local_Stream_Fail
  | kBeeErrorCode_Webrtc_Add_Stream_Fail
  | kBeeErrorCode_Webrtc_Error_Media
  | kBeeErrorCode_OpenGL_Error
  | kBeeErrorCode_Push_Fail
  | kBeeErrorCode_Pull_Fail
  | kBeeErrorCode_Capture_Not_Set
  | kBeeErrorCode_Renderer_Not_Set
  | kBeeErrorCode_Member_Existed
  | kBeeErrorCode_Member_Not_Exist
  | kBeeErrorCode_Webrtc_Ice_Fail
  | kBeeErrorCode_Existed
  | kBeeErrorCode_Not_Found
  | kBeeErrorCode_Service_Not_Supported
  | kBeeErrorCode_Service_Not_Registered
  | kBeeErrorCode_Create_Device_Info_Failed
  | kBeeErrorCode_No_Camera
  | kBeeErrorCode_Open_Camera_Failed
  | kBeeErrorCode_No_Network
  | kBeeErrorCode_Network_Not_Allow
  | kBeeErrorCode_Count
  | kBeeErrorCode_Not_Compatible

text \<open>
  A \<open>boost::system::error_code\<close> as this program inspects it: no error, the two values it
  compares with (\<open>asio::error::eof\<close> and \<open>asio::error::timed_out\<close>), or any other value.
\<close>

datatype error_code = Ec_Ok | Ec_Eof | Ec_Timed_Out | Ec_Other int

definition ec_set :: "error_code \<Rightarrow> bool" where
  "ec_set ec \<longleftrightarrow> ec \<noteq> Ec_Ok"

lemma ec_set_simps [simp]:
  "\<not> ec_set Ec_Ok" "ec_set Ec_Eof" "ec_set Ec_Timed_Out" "ec_set (Ec_Other n)"
  by (simp_all add: ec_set_def)

section \<open>Log levels\<close>

datatype BeeLogLevel =
    kLogLevel_Fatal | kLogLevel_Error | kLogLevel_Warn | kLogLevel_Trace
  | kLogLevel_Info | kLogLevel_Debug | kLogLevel_All | kLogLevel_Count

fun log_level_value :: "BeeLogLevel \<Rightarrow> nat" where
  "log_level_value kLogLevel_Fatal = 0"
| "log_level_value kLogLevel_Error = 1"
| "log_level_value kLogLevel_Warn = 2"
| "log_level_value kLogLevel_Trace = 3"
| "log_level_value kLogLevel_Info = 4"
| "log_level_value kLogLevel_Debug = 5"
| "log_level_value kLogLevel_All = 6"
| "log_level_value kLogLevel_Count = 7"

lemma log_level_value_inj: "log_level_value a = log_level_value b \<Longrightarrow> a = b"
  by (cases a; cases b) simp_all

instantiation BeeLogLevel :: linorder
begin

definition less_eq_BeeLogLevel :: "BeeLogLevel \<Rightarrow> BeeLogLevel \<Rightarrow> bool" where
  "less_eq_BeeLogLevel a b \<longleftrightarrow> log_level_value a \<le> log_level_value b"

definition less_BeeLogLevel :: "BeeLogLevel \<Rightarrow> BeeLogLevel \<Rightarrow> bool" where
  "less_BeeLogLevel a b \<longleftrightarrow> log_level_value a < log_level_value b"

instance
  by standard
    (auto simp: less_eq_BeeLogLevel_def less_BeeLogLevel_def intro: log_level_value_inj)

end

section \<open>Lists, options, association lists\<close>

lemma take_drop_split: "k \<le> length xs \<Longrightarrow> take k xs @ drop k xs = xs"
  by simp

lemma nth_Cons_pos: "0 < n \<Longrightarrow> (x # xs) ! n = xs ! (n - 1)"
  by (cases n) simp_all

lemma map_of_update_same [simp]: "map_of (AList.update k v al) k = Some v"
  by (simp add: update_conv')

lemma map_of_update_other [simp]: "k \<noteq> k' \<Longrightarrow> map_of (AList.update k v al) k' = map_of al k'"
  by (simp add: update_conv')

lemma map_of_delete_same [simp]: "map_of (AList.delete k al) k = None"
  by (simp add: delete_conv')

lemma map_of_delete_other [simp]: "k \<noteq> k' \<Longrightarrow> map_of (AList.delete k al) k' = map_of al k'"
  by (simp add: delete_conv')

lemma fst_set_update [simp]: "fst ` set (AList.update k v al) = insert k (fst ` set al)"
  by (simp add: dom_update)

lemma fst_set_delete [simp]: "fst ` set (AList.delete k al) = fst ` set al - {k}"
proof -
  have "dom (map_of (AList.delete k al)) = dom ((map_of al)(k := None))"
    by (simp only: delete_conv')
  then show ?thesis
    by (simp add: dom_map_of_conv_image_fst)
qed

lemma map_of_None_iff: "map_of al k = None \<longleftrightarrow> k \<notin> fst ` set al"
  by (simp add: map_of_eq_None_iff)

text \<open>The first element of a list that satisfies a predicate, with the list split around it.\<close>

lemma split_first:
  "\<exists>x\<in>set xs. P x \<Longrightarrow> \<exists>ys x zs. xs = ys @ x # zs \<and> P x \<and> (\<forall>y\<in>set ys. \<not> P y)"
  by (metis split_list_first_prop)

end
