(* ===== verification/Bee_Strings.thy ===== *)
theory Bee_Strings
  imports Bee_Prelude "HOL-Library.Sublist"
begin

text \<open>
  The part of \<open>std::string\<close>, \<open><cstdlib>\<close>, \<open>boost::algorithm\<close> and
  \<open>boost::lexical_cast\<close> that the sources use, on \<open>string\<close> (a list of bytes).
  \<open>std::string::npos\<close> is \<open>None\<close>. The locale is the classic one, which the program
  never changes.
\<close>

section \<open>Searching\<close>

fun find_sub :: "string \<Rightarrow> string \<Rightarrow> nat option" where
  "find_sub sub [] = (if sub = [] then Some 0 else None)"
| "find_sub sub (c # cs) =
     (if prefix sub (c # cs) then Some 0 else map_option Suc (find_sub sub cs))"

text \<open>\<open>s.find(sub, pos)\<close>; \<open>s.find_first_of(c, pos)\<close> for one character is the same search.\<close>

definition str_find :: "string \<Rightarrow> string \<Rightarrow> nat \<Rightarrow> nat option" where
  "str_find s sub pos =
     (if pos \<le> length s then map_option ((+) pos) (find_sub sub (drop pos s)) else None)"

definition find_char :: "string \<Rightarrow> char \<Rightarrow> nat \<Rightarrow> nat option" where
  "find_char s c pos = str_find s [c] pos"

fun find_not :: "char \<Rightarrow> string \<Rightarrow> nat option" where
  "find_not c [] = None"
| "find_not c (x # xs) = (if x \<noteq> c then Some 0 else map_option Suc (find_not c xs))"

text \<open>\<open>s.find_first_not_of(c, pos)\<close>.\<close>

definition find_first_not_of :: "string \<Rightarrow> char \<Rightarrow> nat \<Rightarrow> nat option" where
  "find_first_not_of s c pos =
     (if pos \<le> length s then map_option ((+) pos) (find_not c (drop pos s)) else None)"

text \<open>\<open>s.substr(pos, n)\<close> and \<open>s.substr(pos)\<close>, for \<open>pos \<le> s.size()\<close>.\<close>

definition substr :: "string \<Rightarrow> nat \<Rightarrow> nat \<Rightarrow> string" where
  "substr s pos n = take n (drop pos s)"

definition substr_from :: "string \<Rightarrow> nat \<Rightarrow> string" where
  "substr_from s pos = drop pos s"

lemma find_sub_Some:
  "find_sub sub s = Some i \<Longrightarrow> i \<le> length s \<and> prefix sub (drop i s)"
  by (induction s arbitrary: i) (auto split: if_splits)

lemma find_sub_least: "find_sub sub s = Some i \<Longrightarrow> j < i \<Longrightarrow> \<not> prefix sub (drop j s)"
proof (induction s arbitrary: i j)
  case (Cons c cs)
  then show ?case by (cases j) (auto split: if_splits)
qed (auto split: if_splits)

lemma find_sub_None: "find_sub sub s = None \<Longrightarrow> j \<le> length s \<Longrightarrow> \<not> prefix sub (drop j s)"
proof (induction s arbitrary: j)
  case (Cons c cs)
  then show ?case by (cases j) (auto split: if_splits)
qed (auto split: if_splits)

lemma find_sub_char_notin: "c \<notin> set s \<Longrightarrow> find_sub [c] s = None"
  by (induction s) auto

lemma find_sub_char_append: "c \<notin> set a \<Longrightarrow> find_sub [c] (a @ c # b) = Some (length a)"
  by (induction a) auto

lemma find_char_append [simp]:
  "c \<notin> set a \<Longrightarrow> find_char (a @ c # b) c 0 = Some (length a)"
  by (simp add: find_char_def str_find_def find_sub_char_append)

lemma find_char_notin [simp]: "c \<notin> set s \<Longrightarrow> find_char s c p = None"
  by (auto simp: find_char_def str_find_def intro: find_sub_char_notin dest: in_set_dropD)

lemma find_char_skip:
  assumes "c \<notin> set a" and "p = length pre"
  shows "find_char (pre @ a @ c # b) c p = Some (length pre + length a)"
  using assms by (simp add: find_char_def str_find_def find_sub_char_append)

lemma find_char_skip_notin:
  assumes "c \<notin> set a" and "p = length pre"
  shows "find_char (pre @ a) c p = None"
  using assms by (simp add: find_char_def str_find_def find_sub_char_notin)

lemma str_find_bound: "str_find s sub p = Some i \<Longrightarrow> p \<le> i \<and> i + length sub \<le> length s"
  by (fastforce simp: str_find_def prefix_def split: if_splits
      dest!: find_sub_Some dest: arg_cong [where f = length])

lemma find_char_bound: "find_char s c p = Some i \<Longrightarrow> p \<le> i \<and> i < length s"
  using str_find_bound [of s "[c]" p i] by (simp add: find_char_def)

text \<open>
  The separator occurs first where the text before it ends, when no occurrence starts earlier:
  for a two-character separator, when its first character is not in that text.
\<close>

lemma find_sub2_append:
  assumes "x \<notin> set a"
  shows "find_sub [x, y] (a @ x # y # b) = Some (length a)"
  using assms by (induction a) auto

lemma find_sub2_notin: "x \<notin> set a \<Longrightarrow> find_sub [x, y] a = None"
  by (induction a) auto

lemma str_find2_skip:
  assumes "x \<notin> set a" and "p = length pre"
  shows "str_find (pre @ a @ x # y # b) [x, y] p = Some (length pre + length a)"
  using assms by (simp add: str_find_def find_sub2_append)

lemma find_first_not_of_skip:
  assumes "p = length pre" and "x \<noteq> c"
  shows "find_first_not_of (pre @ replicate n c @ x # b) c p = Some (length pre + n)"
proof -
  have "find_not c (replicate n c @ x # b) = Some n"
    using assms(2) by (induction n) auto
  then show ?thesis using assms(1) by (simp add: find_first_not_of_def)
qed

section \<open>Trimming and letter case\<close>

definition is_space :: "char \<Rightarrow> bool" where
  "is_space c \<longleftrightarrow> c = CHR '' '' \<or> c = CHR 0x09 \<or> c = CHR 0x0A \<or> c = CHR 0x0B \<or> c = CHR 0x0C
     \<or> c = CHR 0x0D"

definition trim :: "string \<Rightarrow> string" where
  "trim s = rev (dropWhile is_space (rev (dropWhile is_space s)))"

definition to_lower_char :: "char \<Rightarrow> char" where
  "to_lower_char c =
     (let n = of_char c :: nat in if 65 \<le> n \<and> n \<le> 90 then char_of (n + 32) else c)"

definition to_lower :: "string \<Rightarrow> string" where
  "to_lower s = map to_lower_char s"

text \<open>A text without blanks at either end (the empty text is one).\<close>

definition trimmed :: "string \<Rightarrow> bool" where
  "trimmed s \<longleftrightarrow> s = [] \<or> (\<not> is_space (hd s) \<and> \<not> is_space (last s))"

lemma trim_trimmed [simp]: "trimmed s \<Longrightarrow> trim s = s"
proof -
  assume t: "trimmed s"
  show ?thesis
  proof (cases s)
    case (Cons c cs)
    with t have "dropWhile is_space s = s" by (simp add: trimmed_def)
    moreover from t Cons have "dropWhile is_space (rev s) = rev s"
      by (cases "rev s") (auto simp: trimmed_def last_rev hd_rev [symmetric])
    ultimately show ?thesis by (simp add: trim_def)
  qed (simp add: trim_def)
qed

lemma trim_Cons_space [simp]: "is_space c \<Longrightarrow> trim (c # s) = trim s"
  by (simp add: trim_def)

lemma is_space_blank [simp]: "is_space (CHR '' '')"
  by (simp add: is_space_def)

section \<open>Numbers\<close>

definition digit_char :: "nat \<Rightarrow> char" where
  "digit_char n = char_of (48 + n)"

definition is_digit :: "char \<Rightarrow> bool" where
  "is_digit c \<longleftrightarrow> 48 \<le> (of_char c :: nat) \<and> (of_char c :: nat) \<le> 57"

text \<open>\<open>oss << n\<close> for an unsigned and for a signed integer.\<close>

fun show_nat :: "nat \<Rightarrow> string" where
  "show_nat n =
     (if n < 10 then [digit_char n] else show_nat (n div 10) @ [digit_char (n mod 10)])"

declare show_nat.simps [simp del]

definition show_int :: "int \<Rightarrow> string" where
  "show_int i = (if i < 0 then CHR ''-'' # show_nat (nat (- i)) else show_nat (nat i))"

definition digits_value :: "string \<Rightarrow> nat" where
  "digits_value s = foldl (\<lambda>a c. 10 * a + (of_char c - 48)) 0 s"

text \<open>The sign and the digits of a number's text: what \<open>boost::lexical_cast\<close> splits first.\<close>

definition split_sign :: "string \<Rightarrow> bool \<times> string" where
  "split_sign s = (case s of
       [] \<Rightarrow> (False, [])
     | c # cs \<Rightarrow> if c = CHR ''-'' then (True, cs)
                 else if c = CHR ''+'' then (False, cs) else (False, s))"

text \<open>\<open>boost::lexical_cast<int64_t>\<close>; \<open>None\<close> is \<open>bad_lexical_cast\<close>.\<close>

definition lexical_cast_int64 :: "string \<Rightarrow> int option" where
  "lexical_cast_int64 s =
     (let (neg, ds) = split_sign s; v = int (digits_value ds)
      in if ds = [] \<or> \<not> list_all is_digit ds then None
         else if neg then (if v \<le> 2 ^ 63 then Some (- v) else None)
         else if v < 2 ^ 63 then Some v else None)"

text \<open>
  \<open>boost::lexical_cast<unsigned int>\<close>: a minus sign is accepted and negates modulo
  \<open>2 ^ 32\<close>.
\<close>

definition lexical_cast_uint :: "string \<Rightarrow> nat option" where
  "lexical_cast_uint s =
     (let (neg, ds) = split_sign s; v = digits_value ds
      in if ds = [] \<or> \<not> list_all is_digit ds \<or> 2 ^ 32 \<le> v then None
         else Some (if neg \<and> v \<noteq> 0 then 2 ^ 32 - v else v))"

text \<open>\<open>atoi\<close>, for a number that an \<open>int\<close> holds.\<close>

definition atoi :: "string \<Rightarrow> int" where
  "atoi s = (let (neg, ds) = split_sign (dropWhile is_space s);
                 v = int (digits_value (takeWhile is_digit ds))
             in if neg then - v else v)"

lemma of_char_digit_char: "n < 10 \<Longrightarrow> of_char (digit_char n) = 48 + n"
  by (simp add: digit_char_def)

lemma is_digit_digit_char [simp]: "n < 10 \<Longrightarrow> is_digit (digit_char n)"
  by (simp add: is_digit_def of_char_digit_char)

lemma show_nat_digits [simp]: "list_all is_digit (show_nat n)"
proof (induction n rule: show_nat.induct)
  case (1 n)
  then show ?case by (subst show_nat.simps) simp
qed

lemma show_nat_nonempty [simp]: "show_nat n \<noteq> []"
  by (subst show_nat.simps) simp

lemma digits_value_append:
  "digits_value (a @ [c]) = 10 * digits_value a + (of_char c - 48)"
  by (simp add: digits_value_def)

lemma digits_value_show_nat [simp]: "digits_value (show_nat n) = n"
proof (induction n rule: show_nat.induct)
  case (1 n)
  show ?case
  proof (cases "n < 10")
    case True
    then show ?thesis
      by (subst show_nat.simps) (simp add: digits_value_def of_char_digit_char)
  next
    case False
    with 1 show ?thesis
      by (subst show_nat.simps) (simp add: digits_value_append of_char_digit_char)
  qed
qed

lemma digit_not_sign:
  "\<not> is_digit (CHR ''-'')" "\<not> is_digit (CHR ''+'')" "\<not> is_digit (CHR '','')"
  "\<not> is_digit (CHR '':'')" "\<not> is_digit (CHR ''/'')" "\<not> is_digit (CHR '' '')"
  "\<not> is_digit (CHR ''.'')"
  by (simp_all add: is_digit_def)

lemma digit_not_space: "is_digit c \<Longrightarrow> \<not> is_space c"
  by (auto simp: is_digit_def is_space_def)

lemma split_sign_digits:
  "list_all is_digit ds \<Longrightarrow> ds \<noteq> [] \<Longrightarrow> split_sign ds = (False, ds)"
  using digit_not_sign by (cases ds) (auto simp: split_sign_def)

lemma lexical_cast_int64_show [simp]:
  "n < 2 ^ 63 \<Longrightarrow> lexical_cast_int64 (show_nat n) = Some (int n)"
  by (simp add: lexical_cast_int64_def split_sign_digits)

lemma lexical_cast_int64_show_int:
  assumes "- (2 ^ 63) \<le> i" and "i < 2 ^ 63"
  shows "lexical_cast_int64 (show_int i) = Some i"
proof (cases "i < 0")
  case True
  have "lexical_cast_int64 (CHR ''-'' # show_nat (nat (- i))) = Some i"
    using True assms(1) by (simp add: lexical_cast_int64_def split_sign_def)
  with True show ?thesis by (simp add: show_int_def)
next
  case False
  with assms(2) have "nat i < 2 ^ 63" by (simp add: nat_less_iff)
  with False show ?thesis
    using lexical_cast_int64_show [of "nat i"] by (simp add: show_int_def)
qed

lemma lexical_cast_uint_show [simp]:
  "n < 2 ^ 32 \<Longrightarrow> lexical_cast_uint (show_nat n) = Some n"
  by (simp add: lexical_cast_uint_def split_sign_digits)

lemma lexical_cast_uint_range: "lexical_cast_uint s = Some n \<Longrightarrow> n < 2 ^ 32"
  by (auto simp: lexical_cast_uint_def Let_def split: prod.splits if_splits)

lemma lexical_cast_int64_range:
  "lexical_cast_int64 s = Some i \<Longrightarrow> - (2 ^ 63) \<le> i \<and> i < 2 ^ 63"
  by (auto simp: lexical_cast_int64_def Let_def split: prod.splits if_splits)

lemma lexical_cast_empty [simp]:
  "lexical_cast_int64 [] = None" "lexical_cast_uint [] = None"
  by (simp_all add: lexical_cast_int64_def lexical_cast_uint_def split_sign_def)

lemma show_nat_notin: "\<not> is_digit c \<Longrightarrow> c \<notin> set (show_nat n)"
  using show_nat_digits [of n] by (auto simp: list_all_iff)

lemma atoi_digits: "list_all is_digit ds \<Longrightarrow> ds \<noteq> [] \<Longrightarrow> atoi ds = int (digits_value ds)"
  by (cases ds)
    (auto simp: atoi_def digit_not_space split_sign_digits list_all_iff
      takeWhile_eq_all_conv [THEN iffD2])

lemma atoi_show_nat [simp]: "atoi (show_nat n) = int n"
  by (simp add: atoi_digits)

lemma trimmed_show_nat [simp]: "trimmed (show_nat n)"
  using show_nat_digits [of n] digit_not_space
  by (auto simp: trimmed_def list_all_iff)

section \<open>Texts of C\<close>

lemma byte_char [simp]: "of_char (char_of (unat (b :: byte))) = b"
proof -
  have c: "(of_char x :: byte) = of_nat (of_char x :: nat)" for x by (simp only: of_nat_of_char)
  have "of_char (char_of (unat b)) = unat b mod (256 :: nat)" by simp
  also have "\<dots> = unat b" by (rule mod_less, rule less_le_trans [OF unsigned_less]) simp
  finally show ?thesis unfolding c by simp
qed

text \<open>\<open>strlen\<close>: what stands before the first zero.\<close>

definition c_text :: "string \<Rightarrow> string" where
  "c_text = takeWhile (\<lambda>c. c \<noteq> CHR 0x00)"

lemma c_text_again [simp]: "c_text (c_text s) = c_text s"
  by (simp add: c_text_def)

lemma c_text_show [simp]: "c_text (show_nat n) = show_nat n"
proof -
  have "CHR 0x00 \<notin> set (show_nat n)" by (rule show_nat_notin) (simp add: is_digit_def)
  then show ?thesis by (simp add: c_text_def takeWhile_eq_all_conv) metis
qed

end
