(* ===== verification/Bee_IOBuffer.thy ===== *)
theory Bee_IOBuffer
  imports Bee_Prelude
begin

text \<open>
  \<open>IOBuffer\<close> (src/utility/iobuffer.h): an allocated array with a window of unread data.

  A cell of the array is \<open>None\<close> until something is stored in it, as \<open>new char[n]\<close> leaves
  it. A \<open>BOOST_ASSERT\<close> that fails, a \<open>memcpy\<close> past the array and \<open>buffer_[0]\<close> on a
  null \<open>shared_array\<close> (which boost asserts against) make an operation return \<open>None\<close>.
  The branches under \<open>if (false \<and> \<dots>)\<close> are dead and left out, and so is the sharing of the
  array between copies: a record value stands for one buffer object and its array.

  The lemmas say that every operation keeps the window inside the array and what it does to
  the window's content; the locale \<open>send_window\<close> is the part of that contract the TCP sender
  relies on.
\<close>

record 'b iobuffer =
  begin_offset :: nat
  end_offset :: nat
  cells :: "'b option list"
  buffer_capacity :: nat

definition IOBuffer_new :: "nat \<Rightarrow> 'b iobuffer" where
  "IOBuffer_new n =
     \<lparr>begin_offset = 0, end_offset = n, cells = replicate n None, buffer_capacity = n\<rparr>"

definition IOBuffer_of_string :: "'b list \<Rightarrow> 'b iobuffer" where
  "IOBuffer_of_string s =
     \<lparr>begin_offset = 0, end_offset = length s, cells = map Some s,
      buffer_capacity = length s\<rparr>"

definition IOBuffer_of_bytes :: "'b option list \<Rightarrow> 'b iobuffer" where
  "IOBuffer_of_bytes bs =
     \<lparr>begin_offset = 0, end_offset = length bs, cells = bs, buffer_capacity = length bs\<rparr>"

definition iob_clone :: "'b iobuffer \<Rightarrow> 'b iobuffer" where
  "iob_clone b =
     (let newbuf = IOBuffer_of_bytes (take (buffer_capacity b) (cells b))
      in newbuf\<lparr>begin_offset := begin_offset b, end_offset := end_offset b\<rparr>)"

definition iob_clear :: "'b iobuffer \<Rightarrow> 'b iobuffer" where
  "iob_clear b = b\<lparr>begin_offset := 0, end_offset := 0\<rparr>"

text \<open>The cells from \<open>data()\<close> on; \<open>None\<close> when there is no array to point into.\<close>

definition iob_data :: "'b iobuffer \<Rightarrow> 'b option list option" where
  "iob_data b = (if cells b = [] then None else Some (drop (begin_offset b) (cells b)))"

definition iob_empty :: "'b iobuffer \<Rightarrow> bool" where
  "iob_empty b \<longleftrightarrow> begin_offset b = end_offset b"

definition iob_size :: "'b iobuffer \<Rightarrow> nat" where
  "iob_size b = size_sub (end_offset b) (begin_offset b)"

definition iob_capacity :: "'b iobuffer \<Rightarrow> nat" where
  "iob_capacity b = buffer_capacity b"

definition iob_freespace :: "'b iobuffer \<Rightarrow> nat" where
  "iob_freespace b = size_sub (iob_capacity b) (end_offset b)"

definition iob_data_buffer :: "'b iobuffer \<Rightarrow> 'b iobuffer option" where
  "iob_data_buffer b =
     (case iob_data b of None \<Rightarrow> None
      | Some p \<Rightarrow> Some (IOBuffer_of_bytes (take (iob_size b) p)))"

text \<open>\<open>memmove(&buffer_[0], &buffer_[0] + begin_offset_, size())\<close>\<close>

definition move_front :: "'b iobuffer \<Rightarrow> 'b option list" where
  "move_front b =
     take (iob_size b) (drop (begin_offset b) (cells b)) @ drop (iob_size b) (cells b)"

text \<open>\<open>memcpy(&buffer_[0] + at, src, length src)\<close>: \<open>None\<close> past the array's end.\<close>

definition store_at :: "'b option list \<Rightarrow> nat \<Rightarrow> 'b option list \<Rightarrow> 'b option list option" where
  "store_at cs at src =
     (if cs = [] \<or> length cs < at + length src then None
      else Some (take at cs @ src @ drop (at + length src) cs))"

definition iob_resize :: "nat \<Rightarrow> 'b iobuffer \<Rightarrow> 'b iobuffer option" where
  "iob_resize n b =
     (if iob_capacity b < n then None
      else if begin_offset b + n \<le> iob_capacity b
        then Some (b\<lparr>end_offset := begin_offset b + n\<rparr>)
      else Some (b\<lparr>cells := move_front b, end_offset := n, begin_offset := 0\<rparr>))"

definition iob_fill :: "'b iobuffer \<Rightarrow> 'b iobuffer \<Rightarrow> (nat \<times> 'b iobuffer) option" where
  "iob_fill data b =
     (let free = size_sub (buffer_capacity b) (end_offset b);
          fill_len = min (iob_size data) free
      in case iob_data data of None \<Rightarrow> None
         | Some p \<Rightarrow>
           (case store_at (cells b) (end_offset b) (take fill_len p) of None \<Rightarrow> None
            | Some cs \<Rightarrow> Some (fill_len, b\<lparr>cells := cs, end_offset := end_offset b + fill_len\<rparr>)))"

definition iob_fill_at_most ::
    "'b option list \<Rightarrow> nat \<Rightarrow> nat \<Rightarrow> 'b iobuffer \<Rightarrow> (nat \<times> 'b iobuffer) option" where
  "iob_fill_at_most data len max_size b =
     (let free = size_sub max_size (end_offset b);
          fill_len = min len free
      in case store_at (cells b) (end_offset b) (take fill_len data) of None \<Rightarrow> None
         | Some cs \<Rightarrow> Some (fill_len, b\<lparr>cells := cs, end_offset := end_offset b + fill_len\<rparr>))"

definition iob_full :: "'b iobuffer \<Rightarrow> bool" where
  "iob_full b \<longleftrightarrow> buffer_capacity b = size_sub (end_offset b) (begin_offset b)"

definition iob_reach :: "nat \<Rightarrow> 'b iobuffer \<Rightarrow> bool" where
  "iob_reach max_size b \<longleftrightarrow> max_size \<le> size_sub (end_offset b) (begin_offset b)"

definition iob_consume :: "nat \<Rightarrow> 'b iobuffer \<Rightarrow> 'b iobuffer option" where
  "iob_consume count b =
     (if iob_size b < count then None
      else let b' = b\<lparr>begin_offset := begin_offset b + count\<rparr>
           in Some (if iob_empty b' then iob_clear b' else b'))"

definition iob_produce :: "nat \<Rightarrow> 'b iobuffer \<Rightarrow> 'b iobuffer option" where
  "iob_produce count b =
     (if iob_freespace b < count then None
      else Some (b\<lparr>end_offset := end_offset b + count\<rparr>))"

definition iob_align :: "'b iobuffer \<Rightarrow> 'b iobuffer" where
  "iob_align b =
     (if begin_offset b \<noteq> 0 then
        (if begin_offset b \<noteq> end_offset b
         then b\<lparr>cells := move_front b, end_offset := iob_size b, begin_offset := 0\<rparr>
         else iob_clear b)
      else b)"

text \<open>
  \<open>valid(ptr, len)\<close>: a pointer is an offset from the start of the array, \<open>None\<close> is
  \<open>NULL\<close>. The end it compares with is \<open>data() + buffer_capacity_\<close>.
\<close>

definition iob_valid :: "int option \<Rightarrow> nat \<Rightarrow> 'b iobuffer \<Rightarrow> bool option" where
  "iob_valid ptr len b =
     (if ptr = None \<or> len = 0 then Some False
      else if cells b = [] then None
      else let data_begin = the ptr; data_end = the ptr + int len;
               bgn = int (begin_offset b); fin = bgn + int (buffer_capacity b)
           in Some (data_begin \<ge> bgn \<and> data_end \<le> fin))"

section \<open>The invariant and the content\<close>

definition iob_wf :: "'b iobuffer \<Rightarrow> bool" where
  "iob_wf b \<longleftrightarrow> begin_offset b \<le> end_offset b \<and> end_offset b \<le> buffer_capacity b
     \<and> length (cells b) = buffer_capacity b"

definition iob_content :: "'b iobuffer \<Rightarrow> 'b option list" where
  "iob_content b = take (end_offset b - begin_offset b) (drop (begin_offset b) (cells b))"

lemmas iob_unfold =
  iob_wf_def iob_content_def iob_size_def iob_capacity_def iob_freespace_def iob_empty_def

lemma iob_wf_size: "iob_wf b \<Longrightarrow> iob_size b = length (iob_content b)"
  by (auto simp: iob_unfold min_def)

lemma iob_wf_empty: "iob_wf b \<Longrightarrow> iob_empty b \<longleftrightarrow> iob_content b = []"
  by (auto simp: iob_unfold)

lemma iob_new_wf [bee_inv]: "iob_wf (IOBuffer_new n)"
  and iob_of_string_wf [bee_inv]: "iob_wf (IOBuffer_of_string s)"
  and iob_of_bytes_wf [bee_inv]: "iob_wf (IOBuffer_of_bytes bs)"
  by (simp_all add: iob_wf_def IOBuffer_new_def IOBuffer_of_string_def IOBuffer_of_bytes_def)

lemma iob_new_content [simp]: "iob_content (IOBuffer_new n) = replicate n None"
  and iob_of_string_content [simp]: "iob_content (IOBuffer_of_string s) = map Some s"
  and iob_of_bytes_content [simp]: "iob_content (IOBuffer_of_bytes bs) = bs"
  by (simp_all add: iob_content_def IOBuffer_new_def IOBuffer_of_string_def
      IOBuffer_of_bytes_def)

lemma iob_clone_eq: "iob_wf b \<Longrightarrow> iob_clone b = b"
  by (cases b) (simp add: iob_clone_def IOBuffer_of_bytes_def iob_wf_def)

lemma iob_clear_wf [bee_inv]: "iob_wf b \<Longrightarrow> iob_wf (iob_clear b)"
  by (simp add: iob_wf_def iob_clear_def)

lemma iob_clear_content [simp]: "iob_content (iob_clear b) = []"
  by (simp add: iob_content_def iob_clear_def)

lemma iob_consume_ok:
  assumes "iob_wf b" and "n \<le> length (iob_content b)"
  shows "\<exists>b'. iob_consume n b = Some b' \<and> iob_wf b' \<and> iob_content b' = drop n (iob_content b)"
proof -
  have le: "n \<le> iob_size b" using assms by (simp add: iob_wf_size)
  show ?thesis
  proof (cases "begin_offset b + n = end_offset b")
    case True
    with assms le show ?thesis
      by (auto simp: iob_consume_def iob_unfold iob_clear_def Let_def)
  next
    case False
    with assms le show ?thesis
      by (auto simp: iob_consume_def iob_unfold Let_def drop_take add.commute)
  qed
qed

lemma iob_consume_fail: "iob_wf b \<Longrightarrow> iob_consume n b = None \<longleftrightarrow> length (iob_content b) < n"
  by (auto simp: iob_consume_def iob_wf_size Let_def)

lemma iob_produce_ok:
  assumes "iob_wf b" and "iob_produce n b = Some b'"
  shows "iob_wf b' \<and> take (length (iob_content b)) (iob_content b') = iob_content b
    \<and> length (iob_content b') = length (iob_content b) + n"
  using assms by (auto simp: iob_produce_def iob_unfold min_def split: if_splits)

lemma move_front_length: "iob_wf b \<Longrightarrow> length (move_front b) = buffer_capacity b"
  by (auto simp: move_front_def iob_unfold min_def)

lemma move_front_take: "iob_wf b \<Longrightarrow> take (iob_size b) (move_front b) = iob_content b"
  by (auto simp: move_front_def iob_unfold min_def)

lemma iob_align_wf [bee_inv]: "iob_wf b \<Longrightarrow> iob_wf (iob_align b)"
  by (auto simp: iob_align_def iob_wf_def move_front_length iob_clear_def iob_size_def)

lemma iob_align_content: "iob_wf b \<Longrightarrow> iob_content (iob_align b) = iob_content b"
  using move_front_take [of b]
  by (auto simp: iob_align_def iob_content_def iob_clear_def iob_size_def)

lemma iob_align_begin: "begin_offset (iob_align b) = 0"
  by (simp add: iob_align_def iob_clear_def)

lemma iob_resize_fail: "iob_resize n b = None \<longleftrightarrow> buffer_capacity b < n"
  by (simp add: iob_resize_def iob_capacity_def)

lemma iob_resize_ok:
  assumes "iob_wf b" and "iob_resize n b = Some b'"
  shows "iob_wf b' \<and> length (iob_content b') = n
    \<and> take n (iob_content b) = take (length (iob_content b)) (iob_content b')"
proof (cases "begin_offset b + n \<le> buffer_capacity b")
  case True
  with assms have b': "b' = b\<lparr>end_offset := begin_offset b + n\<rparr>"
    by (auto simp: iob_resize_def iob_capacity_def split: if_splits)
  with True assms(1) show ?thesis by (auto simp: iob_wf_def iob_content_def min_def)
next
  case False
  with assms have b': "b' = b\<lparr>cells := move_front b, end_offset := n, begin_offset := 0\<rparr>"
    and n: "n \<le> buffer_capacity b"
    by (auto simp: iob_resize_def iob_capacity_def split: if_splits)
  from False assms(1) have le: "length (iob_content b) \<le> n" by (simp add: iob_unfold)
  have c': "iob_content b' = take n (move_front b)" using b' by (simp add: iob_content_def)
  have len: "length (move_front b) = buffer_capacity b" by (rule move_front_length [OF assms(1)])
  have front: "take (length (iob_content b)) (move_front b) = iob_content b"
    using move_front_take [OF assms(1)] iob_wf_size [OF assms(1)] by simp
  have "take n (iob_content b) = iob_content b" using le by simp
  moreover have "take (length (iob_content b)) (take n (move_front b)) = iob_content b"
    using le front by (simp add: min_absorb1)
  moreover have "iob_wf b'" using b' n len assms(1) by (simp add: iob_wf_def)
  ultimately show ?thesis using c' n len by simp
qed

lemma store_at_Some:
  assumes "store_at cs i src = Some cs'"
  shows "length cs' = length cs \<and> i + length src \<le> length cs
    \<and> take i cs' = take i cs \<and> take (length src) (drop i cs') = src"
  using assms by (auto simp: store_at_def split: if_splits)

lemma take_append_window:
  assumes "b \<le> e" "e + k \<le> length cs'" "take e cs' = take e cs" "take k (drop e cs') = src"
  shows "take (e + k - b) (drop b cs') = take (e - b) (drop b cs) @ src"
proof -
  have "take (e + k - b) (drop b cs') = drop b (take (e + k) cs')"
    by (simp add: drop_take)
  also have "take (e + k) cs' = take e cs @ src"
    using assms(3,4) by (simp add: take_add)
  also have "drop b (take e cs @ src) = drop b (take e cs) @ src"
  proof -
    have "length (take e cs) = length (take e cs')" using assms(3) by simp
    with assms(1,2) have "b \<le> length (take e cs)" by simp
    then show ?thesis by simp
  qed
  finally show ?thesis by (simp add: drop_take)
qed

lemma iob_fill_ok:
  assumes "iob_wf b" "iob_wf d" "iob_fill d b = Some (k, b')"
  shows "iob_wf b' \<and> k = min (length (iob_content d)) (buffer_capacity b - end_offset b)
    \<and> iob_content b' = iob_content b @ take k (iob_content d)"
proof -
  let ?src = "take k (drop (begin_offset d) (cells d))"
  from assms have k: "k = min (iob_size d) (buffer_capacity b - end_offset b)"
    by (auto simp: iob_fill_def iob_wf_def Let_def split: option.splits)
  with assms obtain cs where st: "store_at (cells b) (end_offset b) ?src = Some cs"
    and b': "b' = b\<lparr>cells := cs, end_offset := end_offset b + k\<rparr>"
    by (auto simp: iob_fill_def iob_wf_def iob_data_def Let_def split: option.splits if_splits)
  have len: "length ?src = k"
    using assms(2) k by (auto simp: iob_wf_def iob_size_def)
  have src: "?src = take k (iob_content d)"
    using assms(2) k by (simp add: iob_content_def iob_size_def iob_wf_def min_def)
  note s = store_at_Some [OF st, unfolded len]
  have "iob_content b' = iob_content b @ ?src"
    using take_append_window [of "begin_offset b" "end_offset b" k cs "cells b" ?src] s assms(1) b'
    by (simp add: iob_content_def iob_wf_def)
  with s b' src k assms show ?thesis
    by (auto simp: iob_wf_def iob_wf_size)
qed

section \<open>The interface the TCP sender uses\<close>

text \<open>
  A sender drains a buffer from the front and asks whether anything is left. The laws say that
  draining succeeds as long as it stays inside the content and then removes exactly that prefix.
\<close>

locale send_window =
  fixes content :: "'q \<Rightarrow> 'a list"
    and consume :: "nat \<Rightarrow> 'q \<Rightarrow> 'q option"
    and is_empty :: "'q \<Rightarrow> bool"
    and inv :: "'q \<Rightarrow> bool"
  assumes consume_law: "inv q \<Longrightarrow> n \<le> length (content q) \<Longrightarrow>
      \<exists>q'. consume n q = Some q' \<and> inv q' \<and> content q' = drop n (content q)"
    and empty_law: "inv q \<Longrightarrow> is_empty q \<longleftrightarrow> content q = []"
begin

lemma consume_all:
  assumes "inv q" and "consume (length (content q)) q = Some q'"
  shows "inv q' \<and> content q' = [] \<and> is_empty q'"
  using consume_law [OF assms(1) order_refl] assms(2) empty_law by auto

lemma consume_part:
  assumes "inv q" "n < length (content q)" "consume n q = Some q'"
  shows "inv q' \<and> content q' = drop n (content q) \<and> \<not> is_empty q'"
  using consume_law [OF assms(1), of n] assms empty_law by auto

lemma consume_Some:
  assumes "inv q" "n \<le> length (content q)" "consume n q = Some q'"
  shows "inv q' \<and> content q' = drop n (content q)"
  using consume_law [OF assms(1,2)] assms(3) by auto

end

interpretation sw: send_window iob_content iob_consume iob_empty iob_wf
  by unfold_locales (simp_all add: iob_consume_ok iob_wf_empty)

end
