(* ===== verification/Bee_Simple_FSM.thy ===== *)
theory Bee_Simple_FSM
  imports Bee_Prelude
begin

text \<open>
  \<open>SimpleStateMachine\<close> (src/state/simple_state_machine.cpp): a table indexed by state and
  input, the current and the last state.

  \<open>switch_state\<close> checks the input against \<open>input_count_\<close> and reads
  \<open>state_machine_[current_state_][ev]\<close> unchecked: a current state outside the table makes
  the read undefined, which is \<open>None\<close> here. An entry is refused only when it is
  \<open>kInvalidSimpleState\<close>, which is -1.

  The locale \<open>table_machine\<close> is the contract a class built on this one has to meet (every
  table entry is -1 or one of its states); under it a machine never leaves its table, whatever
  events it is given.
\<close>

record simple_fsm =
  state_machine :: "int list list"
  state_count :: int
  input_count :: int
  current_state :: int
  last_state :: int

definition kInvalidSimpleState :: int where
  "kInvalidSimpleState = - 1"

definition SimpleStateMachine :: "int \<Rightarrow> int \<Rightarrow> simple_fsm" where
  "SimpleStateMachine sc ic =
     \<lparr>state_machine = (if sc > 0 \<and> ic > 0 then replicate (nat sc) (replicate (nat ic) 0) else []),
      state_count = sc, input_count = ic, current_state = 0, last_state = 0\<rparr>"

text \<open>\<open>state_machine_[s][ev]\<close> with \<open>std::vector\<close>'s unchecked index.\<close>

definition table_at :: "int list list \<Rightarrow> int \<Rightarrow> int \<Rightarrow> int option" where
  "table_at tab s ev =
     (if 0 \<le> s \<and> nat s < length tab \<and> 0 \<le> ev \<and> nat ev < length (tab ! nat s)
      then Some (tab ! nat s ! nat ev) else None)"

definition switch_state :: "int \<Rightarrow> simple_fsm \<Rightarrow> (bool \<times> simple_fsm) option" where
  "switch_state ev m =
     (if ev < 0 \<or> ev \<ge> input_count m then Some (False, m)
      else case table_at (state_machine m) (current_state m) ev of
        None \<Rightarrow> None
      | Some next_state \<Rightarrow>
          if next_state = kInvalidSimpleState then Some (False, m)
          else Some (True, m\<lparr>last_state := current_state m, current_state := next_state\<rparr>))"

definition rollback_state :: "simple_fsm \<Rightarrow> simple_fsm" where
  "rollback_state m = m\<lparr>current_state := last_state m\<rparr>"

definition set_state :: "int \<Rightarrow> simple_fsm \<Rightarrow> simple_fsm" where
  "set_state s m =
     (if s \<ge> 0 \<and> s < state_count m then m\<lparr>current_state := s, last_state := s\<rparr> else m)"

definition reset_state :: "simple_fsm \<Rightarrow> simple_fsm" where
  "reset_state m = m\<lparr>current_state := 0, last_state := 0\<rparr>"

section \<open>Filling the table\<close>

text \<open>The double loop with which the derived classes give every entry the same value.\<close>

definition fill_table :: "nat \<Rightarrow> nat \<Rightarrow> int \<Rightarrow> int list list" where
  "fill_table sc ic v = map (\<lambda>i. map (\<lambda>j. v) [0..<ic]) [0..<sc]"

definition set_entry :: "int list list \<Rightarrow> nat \<times> nat \<times> int \<Rightarrow> int list list" where
  "set_entry tab e = (case e of (i, j, v) \<Rightarrow> tab[i := (tab ! i)[j := v]])"

definition set_entries :: "(nat \<times> nat \<times> int) list \<Rightarrow> int list list \<Rightarrow> int list list" where
  "set_entries es tab = foldl set_entry tab es"

section \<open>Well-formed tables\<close>

definition fsm_shape :: "simple_fsm \<Rightarrow> bool" where
  "fsm_shape m \<longleftrightarrow> 0 < state_count m \<and> int (length (state_machine m)) = state_count m
     \<and> list_all (\<lambda>row. int (length row) = input_count m) (state_machine m)"

definition fsm_in_range :: "simple_fsm \<Rightarrow> bool" where
  "fsm_in_range m \<longleftrightarrow> 0 \<le> current_state m \<and> current_state m < state_count m
     \<and> 0 \<le> last_state m \<and> last_state m < state_count m"

definition fsm_closed :: "simple_fsm \<Rightarrow> bool" where
  "fsm_closed m \<longleftrightarrow> list_all (list_all (\<lambda>v. v = kInvalidSimpleState \<or> 0 \<le> v \<and> v < state_count m))
     (state_machine m)"

text \<open>The events a machine is given, one after the other; \<open>None\<close> when one reads off the table.\<close>

fun run_events :: "int list \<Rightarrow> simple_fsm \<Rightarrow> (bool list \<times> simple_fsm) option" where
  "run_events [] m = Some ([], m)"
| "run_events (ev # evs) m =
     (case switch_state ev m of None \<Rightarrow> None
      | Some (ok, m') \<Rightarrow>
          (case run_events evs m' of None \<Rightarrow> None | Some (oks, m'') \<Rightarrow> Some (ok # oks, m'')))"

lemma table_at_shape:
  assumes "fsm_shape m" "0 \<le> s" "s < state_count m" "0 \<le> ev" "ev < input_count m"
  shows "table_at (state_machine m) s ev = Some (state_machine m ! nat s ! nat ev)"
proof -
  have s: "nat s < length (state_machine m)" using assms by (simp add: fsm_shape_def nat_less_iff)
  then have "int (length (state_machine m ! nat s)) = input_count m"
    using assms(1) by (simp add: fsm_shape_def list_all_length)
  with s assms show ?thesis by (simp add: table_at_def nat_less_iff)
qed

lemma switch_state_frame:
  "switch_state ev m = Some (ok, m') \<Longrightarrow> state_machine m' = state_machine m
     \<and> state_count m' = state_count m \<and> input_count m' = input_count m"
  by (auto simp: switch_state_def split: if_splits option.splits)

lemma switch_state_refused:
  "switch_state ev m = Some (False, m') \<Longrightarrow> m' = m"
  by (auto simp: switch_state_def split: if_splits option.splits)

lemma switch_state_accepted:
  "switch_state ev m = Some (True, m') \<Longrightarrow>
     last_state m' = current_state m
     \<and> table_at (state_machine m) (current_state m) ev = Some (current_state m')
     \<and> current_state m' \<noteq> kInvalidSimpleState"
  by (auto simp: switch_state_def split: if_splits option.splits)

lemma rollback_after_switch:
  "switch_state ev m = Some (True, m') \<Longrightarrow> current_state (rollback_state m') = current_state m"
  by (drule switch_state_accepted) (simp add: rollback_state_def)

section \<open>The contract of a table\<close>

locale table_machine =
  fixes shape :: "simple_fsm \<Rightarrow> bool"
  assumes rows: "shape m \<Longrightarrow> fsm_shape m"
    and entries: "shape m \<Longrightarrow> fsm_closed m"
    and table_only: "shape m \<Longrightarrow> state_machine m' = state_machine m \<Longrightarrow>
      state_count m' = state_count m \<Longrightarrow> input_count m' = input_count m \<Longrightarrow> shape m'"
begin

lemma switch_total:
  assumes "shape m" "fsm_in_range m"
  shows "\<exists>ok m'. switch_state ev m = Some (ok, m') \<and> shape m' \<and> fsm_in_range m'"
proof (cases "ev < 0 \<or> ev \<ge> input_count m")
  case True
  with assms show ?thesis by (auto simp: switch_state_def)
next
  case False
  let ?v = "state_machine m ! nat (current_state m) ! nat ev"
  have at: "table_at (state_machine m) (current_state m) ev = Some ?v"
    using False assms rows [OF assms(1)] by (intro table_at_shape) (auto simp: fsm_in_range_def)
  then have "?v = kInvalidSimpleState \<or> 0 \<le> ?v \<and> ?v < state_count m"
    using entries [OF assms(1)]
    by (auto simp: fsm_closed_def table_at_def list_all_length split: if_splits)
  with False at assms show ?thesis
    by (auto simp: switch_state_def fsm_in_range_def intro: table_only)
qed

lemma run_total:
  assumes "shape m" "fsm_in_range m"
  shows "\<exists>oks m'. run_events evs m = Some (oks, m') \<and> shape m' \<and> fsm_in_range m'
    \<and> length oks = length evs"
  using assms
proof (induction evs arbitrary: m)
  case (Cons ev evs)
  from switch_total [OF Cons.prems, of ev] obtain ok m'
    where m': "switch_state ev m = Some (ok, m')" "shape m'" "fsm_in_range m'" by blast
  from Cons.IH [OF m'(2,3)] obtain oks m''
    where "run_events evs m' = Some (oks, m'')" "shape m''" "fsm_in_range m''"
      "length oks = length evs" by blast
  with m' show ?case by simp
qed simp

lemma set_reset_range:
  "shape m \<Longrightarrow> fsm_in_range m \<Longrightarrow> fsm_in_range (set_state s m) \<and> fsm_in_range (reset_state m)
    \<and> fsm_in_range (rollback_state m)"
  using rows [of m]
  by (auto simp: set_state_def reset_state_def rollback_state_def fsm_in_range_def fsm_shape_def)

end

text \<open>The contract holds of every machine whose table is rectangular and closed.\<close>

interpretation tm: table_machine "\<lambda>m. fsm_shape m \<and> fsm_closed m"
  by unfold_locales (auto simp: fsm_shape_def fsm_closed_def)

end
