(* ===== verification/Bee_Lua_Engine.thy ===== *)
theory Bee_Lua_Engine
  imports Bee_Strings
begin

text \<open>
  \<open>LuaEngine\<close> (src/lua/lua_engine.cpp): loading the script, handing it the system information,
  reading its capabilities, running a command, and the URL encoder it gives to scripts.

  The Lua virtual machine is liblua, which is not part of the program: what its calls answer is
  the parameter \<open>lua_api\<close>, one field for each call the engine makes. A table a script returns is
  a list of key/value pairs in the order \<open>lua_next\<close> visits them.

  \<open>None\<close> stands for undefined behaviour: \<open>lua_tostring\<close> on a numeric key converts the key in
  place and the next \<open>lua_next\<close> then fails outside any protected call.
\<close>

datatype lua_value =
    LNil
  | LBoolean bool
  | LInteger int
  | LFloat string  \<comment> \<open>carries the text \<open>lua_tostring\<close> gives it\<close>
  | LString string
  | LTable "(lua_value \<times> lua_value) list"
  | LFunction
  | LUserdata

record BeeCapability =
  svc_code :: int
  svc_desc :: string

datatype resume_result = LUA_OK | LUA_YIELD | LUA_ERR

record lua_api =
  api_load :: "string \<Rightarrow> string \<Rightarrow> bool"
    \<comment> \<open>\<open>luaL_loadbuffer\<close> of a script (text, chunk name) and the run of its main chunk succeed\<close>
  api_global :: "string \<Rightarrow> string \<Rightarrow> lua_value"
    \<comment> \<open>the value of a global of the loaded script\<close>
  api_set_sys_info :: "string \<Rightarrow> string list \<Rightarrow> bool"
    \<comment> \<open>\<open>lua_pcall\<close> of \<open>SetSysInfo\<close> succeeds\<close>
  api_get_capability :: "string \<Rightarrow> lua_value option"
    \<comment> \<open>the one result of \<open>lua_pcall\<close> of \<open>GetCapability\<close>, \<open>None\<close> when it fails\<close>
  api_resume :: "string \<Rightarrow> string \<Rightarrow> int \<Rightarrow> string \<Rightarrow> resume_result"
    \<comment> \<open>\<open>lua_resume\<close> of a global of the script with a service code and the arguments\<close>

record LuaEngine =
  L_open :: bool
  lua_name :: string
  lua_buff :: string
  bee_table_created :: bool

definition LuaEngine_new :: LuaEngine where
  "LuaEngine_new = \<lparr>L_open = False, lua_name = [], lua_buff = [], bee_table_created = False\<rparr>"

definition lua_engine_reset :: "LuaEngine \<Rightarrow> LuaEngine" where
  "lua_engine_reset e = e\<lparr>L_open := False, lua_name := [], lua_buff := []\<rparr>"

definition lua_isfunction :: "lua_value \<Rightarrow> bool" where
  "lua_isfunction v \<longleftrightarrow> v = LFunction"

text \<open>The bytes up to the first NUL, as a C string has them.\<close>

definition c_str :: "string \<Rightarrow> string" where
  "c_str s = takeWhile (\<lambda>c. c \<noteq> CHR 0x00) s"

section \<open>Reading the capabilities\<close>

text \<open>
  One pass of the inner loop: the pair under \<open>lua_next\<close>, the service code and description read
  so far. \<open>Some (Inl _)\<close> leaves the loop with \<open>valid2\<close> false.
\<close>

definition read_field ::
    "lua_value \<times> lua_value \<Rightarrow> int \<times> string \<Rightarrow> ((int \<times> string) + (int \<times> string)) option" where
  "read_field kv acc =
     (case kv of (k, v) \<Rightarrow> case acc of (code, desc) \<Rightarrow>
       (case k of
          LString name \<Rightarrow>
            if prefix ''svc'' name then
              (case v of LInteger i \<Rightarrow> Some (Inr (int32_of i, desc)) | _ \<Rightarrow> Some (Inl (code, desc)))
            else if prefix ''desc'' name then
              (case v of
                 LString d \<Rightarrow> Some (Inr (code, c_str d))
               | LInteger i \<Rightarrow> Some (Inr (code, show_int i))
               | LFloat txt \<Rightarrow> Some (Inr (code, txt))
               | _ \<Rightarrow> Some (Inl (code, desc)))
            else Some (Inr (code, desc))
        | LInteger i \<Rightarrow> None
        | LFloat txt \<Rightarrow> None
        | _ \<Rightarrow> Some (Inl (code, desc))))"

fun read_fields ::
    "(lua_value \<times> lua_value) list \<Rightarrow> int \<times> string \<Rightarrow> (bool \<times> int \<times> string) option" where
  "read_fields [] acc = Some (True, acc)"
| "read_fields (kv # kvs) acc =
     (case read_field kv acc of
        None \<Rightarrow> None
      | Some (Inl acc') \<Rightarrow> Some (False, acc')
      | Some (Inr acc') \<Rightarrow> read_fields kvs acc')"

text \<open>
  The outer loop: \<open>capability\<close> is filled as the entries come; the first entry that is not a table
  or holds an ill-typed field stops it with \<open>False\<close>. The keys of the outer table are not looked
  at.
\<close>

fun read_capabilities ::
    "(lua_value \<times> lua_value) list \<Rightarrow> BeeCapability list \<Rightarrow> (bool \<times> BeeCapability list) option" where
  "read_capabilities [] cap = Some (True, cap)"
| "read_capabilities ((k, v) # kvs) cap =
     (case v of
        LTable fs \<Rightarrow>
          (case read_fields fs (- 1, []) of
             None \<Rightarrow> None
           | Some (valid2, code, desc) \<Rightarrow>
               let cap' = (if code \<noteq> - 1 \<and> desc \<noteq> []
                           then cap @ [\<lparr>svc_code = code, svc_desc = desc\<rparr>] else cap)
               in if valid2 then read_capabilities kvs cap' else Some (False, cap'))
      | _ \<Rightarrow> Some (False, cap))"

definition lua_get_capability ::
    "lua_api \<Rightarrow> LuaEngine \<Rightarrow> BeeCapability list \<Rightarrow> (bool \<times> BeeCapability list) option" where
  "lua_get_capability api e cap =
     (let result =
        (if \<not> L_open e then Some (False, cap)
         else if \<not> lua_isfunction (api_global api (lua_buff e) ''GetCapability'') then Some (False, cap)
         else case api_get_capability api (lua_buff e) of
             None \<Rightarrow> Some (False, cap)
           | Some (LTable kvs) \<Rightarrow> read_capabilities kvs cap
           | Some _ \<Rightarrow> Some (False, cap))
      in case result of None \<Rightarrow> None
         | Some (ret, cap') \<Rightarrow> Some (if cap' = [] then False else ret, cap'))"

text \<open>
  \<open>lua_getglobal\<close> always pushes one value, so the stack height the code tests is always 1 and
  its early exit for scripts without \<open>SetSysInfo\<close> is never taken.
\<close>

definition lua_set_sys_info :: "lua_api \<Rightarrow> LuaEngine \<Rightarrow> string list \<Rightarrow> bool" where
  "lua_set_sys_info api e info =
     (if \<not> L_open e then False
      else if \<not> lua_isfunction (api_global api (lua_buff e) ''SetSysInfo'') then False
      else api_set_sys_info api (lua_buff e) info)"

text \<open>
  \<open>check_and_create_bee_table\<close> and \<open>store_session_to_lua\<close>, for the session that owns the engine
  (never null). The flag outlives the virtual machine: when it is set already, the table is looked
  up in a machine that may not have one, and \<open>lua_settable\<close> on anything else than a table is an
  error outside a protected call.
\<close>

definition lua_store_session :: "lua_api \<Rightarrow> LuaEngine \<Rightarrow> LuaEngine option" where
  "lua_store_session api e =
     (if bee_table_created e then
        (case api_global api (lua_buff e) ''BEE_TABLE'' of LTable _ \<Rightarrow> Some e | _ \<Rightarrow> None)
      else Some (e\<lparr>bee_table_created := True\<rparr>))"

definition lua_engine_open ::
    "lua_api \<Rightarrow> string \<Rightarrow> string \<Rightarrow> string list \<Rightarrow> BeeCapability list \<Rightarrow> LuaEngine
      \<Rightarrow> (BeeErrorCode \<times> BeeCapability list \<times> LuaEngine) option" where
  "lua_engine_open api name buff info cap e =
     (if name = [] \<or> buff = [] then Some (kBeeErrorCode_Invalid_Param, cap, lua_engine_reset e)
      else
        let e1 = (lua_engine_reset e)\<lparr>lua_name := name, lua_buff := buff, L_open := True\<rparr>
        in if \<not> api_load api buff name
           then Some (kBeeErrorCode_Engine_Script_Error, cap, lua_engine_reset e1)
           else case lua_store_session api e1 of None \<Rightarrow> None
           | Some e2 \<Rightarrow>
             if \<not> lua_set_sys_info api e2 info
             then Some (kBeeErrorCode_Engine_Script_Error, cap, lua_engine_reset e2)
             else (case lua_get_capability api e2 cap of
                 None \<Rightarrow> None
               | Some (False, cap') \<Rightarrow>
                   Some (kBeeErrorCode_Service_Not_Supported, cap', lua_engine_reset e2)
               | Some (True, cap') \<Rightarrow> Some (kBeeErrorCode_Success, cap', e2)))"

definition lua_engine_close :: "LuaEngine \<Rightarrow> LuaEngine" where
  "lua_engine_close e = lua_engine_reset e"

definition lua_engine_execute ::
    "lua_api \<Rightarrow> int \<Rightarrow> string \<Rightarrow> string \<Rightarrow> LuaEngine \<Rightarrow> BeeErrorCode" where
  "lua_engine_execute api code cmd args e =
     (if cmd = [] \<or> args = [] then kBeeErrorCode_Invalid_Param
      else if \<not> L_open e then kBeeErrorCode_Engine_Not_Loaded
      else case api_resume api (lua_buff e) (c_str cmd) code args of
          LUA_YIELD \<Rightarrow> kBeeErrorCode_Success
        | LUA_OK \<Rightarrow> kBeeErrorCode_Success
        | LUA_ERR \<Rightarrow> kBeeErrorCode_Engine_Script_Error)"

section \<open>URL encoding\<close>

text \<open>
  \<open>char\<close> is signed on the platforms built for, so a byte from 128 on compares as negative.
\<close>

definition signed_char :: "char \<Rightarrow> int" where
  "signed_char c = (let n = int (of_char c) in if n < 128 then n else n - 256)"

definition must_encode :: "char \<Rightarrow> bool" where
  "must_encode ch =
     (let c = signed_char ch
      in (c < 48 \<and> c \<noteq> 45 \<and> c \<noteq> 46) \<or> (c < 65 \<and> c > 57)
         \<or> (c > 90 \<and> c < 97 \<and> c \<noteq> 95) \<or> c > 122)"

definition hex_char :: "nat \<Rightarrow> char" where
  "hex_char n = ''0123456789ABCDEF'' ! n"

fun url_encode_loop :: "string \<Rightarrow> string" where
  "url_encode_loop [] = []"
| "url_encode_loop (ch # s) =
     (if must_encode ch
      then CHR ''%'' # hex_char (of_char ch div 16) # hex_char (of_char ch mod 16)
             # url_encode_loop s
      else ch # url_encode_loop s)"

text \<open>
  \<open>lua_url_encode\<close> on a non-empty input: the buffer holds \<open>3 * input_len\<close> bytes and a NUL is
  stored after the last one; \<open>None\<close> when that store falls outside the buffer.
\<close>

definition lua_url_encode :: "string \<Rightarrow> string option" where
  "lua_url_encode input =
     (let output = url_encode_loop input
      in if length output < 3 * length input then Some output else None)"

section \<open>Facts\<close>

lemma lua_engine_open_success:
  assumes "lua_engine_open api name buff info cap e = Some (kBeeErrorCode_Success, cap', e')"
  shows "L_open e' \<and> lua_buff e' = buff \<and> cap' \<noteq> []"
  using assms
  by (auto simp: lua_engine_open_def lua_get_capability_def lua_store_session_def Let_def
      lua_engine_reset_def split: if_splits option.splits bool.splits prod.splits lua_value.splits)

text \<open>A successful open hands out what the script's \<open>GetCapability\<close> answers, after what there was.\<close>

lemma lua_engine_open_caps:
  assumes "lua_engine_open api name buff info cap e = Some (kBeeErrorCode_Success, cap', e')"
  shows "\<exists>kvs. api_get_capability api buff = Some (LTable kvs) \<and> read_capabilities kvs cap = Some (True, cap')"
  using assms
  by (auto simp: lua_engine_open_def lua_get_capability_def lua_store_session_def Let_def
      lua_engine_reset_def split: if_splits option.splits bool.splits prod.splits lua_value.splits)

lemma read_capabilities_entries:
  "read_capabilities kvs cap = Some (ok, cap') \<Longrightarrow>
    \<exists>new. cap' = cap @ new \<and> (\<forall>c \<in> set new. svc_code c \<noteq> - 1 \<and> svc_desc c \<noteq> [])"
proof (induction kvs arbitrary: cap)
  case (Cons kv kvs)
  obtain k v where kv: "kv = (k, v)" by (cases kv)
  show ?case
  proof (cases "\<exists>fs. v = LTable fs")
    case True
    with Cons.prems kv obtain valid2 code desc where f:
      "(if valid2 then read_capabilities kvs (if code \<noteq> - 1 \<and> desc \<noteq> [] then cap @ [\<lparr>svc_code = code, svc_desc = desc\<rparr>] else cap)
        else Some (False, if code \<noteq> - 1 \<and> desc \<noteq> [] then cap @ [\<lparr>svc_code = code, svc_desc = desc\<rparr>] else cap)) = Some (ok, cap')"
      by (auto simp: Let_def split: option.splits)
    define new where "new = (if code \<noteq> - 1 \<and> desc \<noteq> [] then [\<lparr>svc_code = code, svc_desc = desc\<rparr>] else [])"
    have n: "(if code \<noteq> - 1 \<and> desc \<noteq> [] then cap @ [\<lparr>svc_code = code, svc_desc = desc\<rparr>] else cap) = cap @ new"
      "\<forall>c \<in> set new. svc_code c \<noteq> - 1 \<and> svc_desc c \<noteq> []" by (auto simp: new_def)
    show ?thesis
    proof (cases valid2)
      case valid: True
      with f n(1) Cons.IH [of "cap @ new"] obtain new' where
        "cap' = (cap @ new) @ new'" "\<forall>c \<in> set new'. svc_code c \<noteq> - 1 \<and> svc_desc c \<noteq> []" by auto
      with n(2) show ?thesis by (intro exI [of _ "new @ new'"]) auto
    qed (use f n in auto)
  next
    case False
    with Cons.prems kv show ?thesis by (auto split: lua_value.splits)
  qed
qed simp

lemma lua_engine_open_failure:
  assumes "lua_engine_open api name buff info cap e = Some (ec, cap', e')"
    and "ec \<noteq> kBeeErrorCode_Success"
  shows "\<not> L_open e'"
  using assms
  by (auto simp: lua_engine_open_def Let_def lua_engine_reset_def
      split: if_splits option.splits bool.splits prod.splits)

lemma lua_get_capability_frame_nonempty:
  "lua_get_capability api e cap = Some (True, cap') \<Longrightarrow> cap' \<noteq> []"
  by (auto simp: lua_get_capability_def Let_def split: if_splits option.splits prod.splits)

lemma length_url_encode_loop: "length (url_encode_loop s) \<le> 3 * length s"
  by (induction s) auto

lemma length_url_encode_all: "length (url_encode_loop s) = 3 * length s \<longleftrightarrow> list_all must_encode s"
proof (induction s)
  case (Cons c s)
  then show ?case using length_url_encode_loop [of s] by auto
qed simp

text \<open>
  A capability table whose entries have no numeric field names: the shape of the ones the scripts
  of the repository return. Reading such a table never gets stuck.
\<close>

definition numeric_key :: "lua_value \<Rightarrow> bool" where
  "numeric_key k \<longleftrightarrow> (case k of LInteger _ \<Rightarrow> True | LFloat _ \<Rightarrow> True | _ \<Rightarrow> False)"

definition string_keyed :: "(lua_value \<times> lua_value) list \<Rightarrow> bool" where
  "string_keyed kvs \<longleftrightarrow> list_all (\<lambda>kv. case snd kv of
       LTable fs \<Rightarrow> list_all (\<lambda>f. \<not> numeric_key (fst f)) fs | _ \<Rightarrow> True) kvs"

lemma read_fields_total:
  "list_all (\<lambda>f. \<not> numeric_key (fst f)) fs \<Longrightarrow> read_fields fs acc \<noteq> None"
proof (induction fs arbitrary: acc)
  case (Cons f fs)
  then have "read_field f acc \<noteq> None"
    by (cases f; cases acc; cases "fst f"; cases "snd f") (auto simp: read_field_def numeric_key_def)
  with Cons show ?case by (auto split: option.splits sum.splits)
qed simp

lemma read_capabilities_total: "string_keyed kvs \<Longrightarrow> read_capabilities kvs cap \<noteq> None"
proof (induction kvs cap rule: read_capabilities.induct)
  case (2 k v kvs cap)
  show ?case
  proof (cases v)
    case (LTable fs)
    with 2(2) have "read_fields fs (- 1, []) \<noteq> None"
      by (intro read_fields_total) (simp add: string_keyed_def)
    with LTable 2 show ?thesis
      by (auto simp: string_keyed_def Let_def split: option.splits prod.splits)
  qed simp_all
qed simp

definition caps_readable :: "lua_api \<Rightarrow> bool" where
  "caps_readable api \<longleftrightarrow>
     (\<forall>script kvs. api_get_capability api script = Some (LTable kvs) \<longrightarrow> string_keyed kvs)"

lemma lua_engine_open_total:
  assumes "caps_readable api" and "\<not> bee_table_created e"
  shows "lua_engine_open api name buff info cap e \<noteq> None"
proof -
  have r: "api_get_capability api script = Some (LTable kvs) \<Longrightarrow> read_capabilities kvs c = None
      \<Longrightarrow> False" for script kvs c
    using assms(1) read_capabilities_total unfolding caps_readable_def by metis
  have "lua_get_capability api e' c = None \<Longrightarrow> False" for e' c
    by (auto simp: lua_get_capability_def Let_def dest: r
        split: option.splits lua_value.splits prod.splits if_splits)
  with assms(2) show ?thesis
    by (auto simp: lua_engine_open_def lua_store_session_def lua_engine_reset_def Let_def
        split: option.splits bool.splits prod.splits)
qed

end
