(* ===== verification/Bee_Session.thy ===== *)
theory Bee_Session
  imports Bee_Simple_FSM Bee_Lua_Engine
begin

text \<open>
  \<open>BeeSession\<close> (src/session/bee_session.cpp) and \<open>SessionManager\<close>
  (src/session/session_manager.cpp): one scripted session with its state table, and the pool of
  sessions the entrance opens and closes.

  The pool's tables map session ids to pointers; a pointer is the index of the session in
  \<open>all_sessions_\<close>, \<open>None\<close> is a null one. \<open>unordered_map::begin()\<close> answers an
  unspecified element: \<open>begin_key\<close> is the parameter that names its key.

  The locale \<open>session_contract\<close> is what the manager relies on (an idle session opens or stays
  idle, a ready one closes); its lemmas keep the pool's invariant, and the interpretation
  discharges the laws for \<open>BeeSession\<close>.
\<close>

section \<open>BeeSession\<close>

abbreviation (input) kBeeSessionInput_Open :: int where "kBeeSessionInput_Open \<equiv> 0"
abbreviation (input) kBeeSessionInput_Opened :: int where "kBeeSessionInput_Opened \<equiv> 1"
abbreviation (input) kBeeSessionInput_Execute :: int where "kBeeSessionInput_Execute \<equiv> 2"
abbreviation (input) kBeeSessionInput_Close :: int where "kBeeSessionInput_Close \<equiv> 3"
abbreviation (input) kBeeSessionInput_Closed :: int where "kBeeSessionInput_Closed \<equiv> 4"
abbreviation (input) kBeeSessionInput_Count :: int where "kBeeSessionInput_Count \<equiv> 5"

abbreviation (input) kBeeSessionState_Idle :: int where "kBeeSessionState_Idle \<equiv> 0"
abbreviation (input) kBeeSessionState_Opening :: int where "kBeeSessionState_Opening \<equiv> 1"
abbreviation (input) kBeeSessionState_Ready :: int where "kBeeSessionState_Ready \<equiv> 2"
abbreviation (input) kBeeSessionState_Closing :: int where "kBeeSessionState_Closing \<equiv> 3"
abbreviation (input) kBeeSessionState_Count :: int where "kBeeSessionState_Count \<equiv> 4"
abbreviation (input) kBeeSessionState_Invalid :: int where "kBeeSessionState_Invalid \<equiv> 5"

type_synonym ios_ptr = "nat option"

record SystemParam =
  platform_type :: int
  net_type :: int
  app_name :: string
  app_version :: string
  bee_version :: string
  system_info :: string
  machine_code :: string
  log_path :: string
  log_level :: int
  log_max_line :: int
  log_volume_count :: int
  log_volume_size :: int
  session_count :: nat
  enable_statusd :: bool

record BeeService =
  svc_handle :: int
  svc_id :: int

record BeeSession =
  session_fsm :: simple_fsm
  session_ios :: ios_ptr
  session_id :: int
  session_engine :: "LuaEngine option"
  live_session_id :: string
  services :: "(int \<times> BeeService) list"
  capabilities :: "int set"

definition BeeSession_new :: "int \<Rightarrow> BeeSession" where
  "BeeSession_new i =
     \<lparr>session_fsm = SimpleStateMachine kBeeSessionState_Count kBeeSessionInput_Count,
      session_ios = None, session_id = i, session_engine = None, live_session_id = [],
      services = [], capabilities = {}\<rparr>"

definition session_table :: "int list list" where
  "session_table = set_entries
     [(0, 0, kBeeSessionState_Opening),
      (1, 1, kBeeSessionState_Ready),
      (1, 3, kBeeSessionState_Closing),
      (2, 2, kBeeSessionState_Ready),
      (2, 3, kBeeSessionState_Closing),
      (3, 4, kBeeSessionState_Idle)]
     (fill_table 4 5 kBeeSessionState_Invalid)"

definition session_init_state_machine :: "BeeSession \<Rightarrow> BeeSession" where
  "session_init_state_machine s =
     s\<lparr>session_fsm := (session_fsm s)\<lparr>state_machine := session_table\<rparr>\<rparr>"

definition session_switch :: "int \<Rightarrow> BeeSession \<Rightarrow> (bool \<times> BeeSession) option" where
  "session_switch ev s = map_option (\<lambda>(ok, m). (ok, s\<lparr>session_fsm := m\<rparr>))
     (switch_state ev (session_fsm s))"

definition kLiveSessionIdLen :: nat where
  "kLiveSessionIdLen = 32"

definition char_set :: string where
  "char_set = ''ABCDEFGHIJKLMNOPQRSTUVWXYZabcdefghijklmnopqrstuvwxyz0123456789''"

text \<open>\<open>rd i\<close> is the \<open>i\<close>-th number \<open>std::random_device\<close> answers.\<close>

definition generate_live_session_id :: "(nat \<Rightarrow> nat) \<Rightarrow> BeeSession \<Rightarrow> BeeSession" where
  "generate_live_session_id rd s =
     s\<lparr>live_session_id := map (\<lambda>i. char_set ! (rd i mod 62)) [0..<kLiveSessionIdLen]\<rparr>"

definition reset_live_session_id :: "BeeSession \<Rightarrow> BeeSession" where
  "reset_live_session_id s = s\<lparr>live_session_id := []\<rparr>"

text \<open>The eight arguments \<open>set_sys_info\<close> pushes; integers are their decimal text here, and
  \<open>ver\<close> is the macro \<open>BEE_VERSION\<close> of a header the build generates.\<close>

definition sys_info_args :: "string \<Rightarrow> SystemParam \<Rightarrow> string \<Rightarrow> string list" where
  "sys_info_args ver p live =
     [show_int (platform_type p), show_int (net_type p), c_str (app_name p),
      c_str (app_version p), ver, c_str (system_info p), c_str (machine_code p),
      c_str live]"

definition session_open ::
    "lua_api \<Rightarrow> (nat \<Rightarrow> nat) \<Rightarrow> string \<Rightarrow> ios_ptr \<Rightarrow> SystemParam \<Rightarrow> string \<Rightarrow> string
      \<Rightarrow> BeeCapability list \<Rightarrow> BeeSession
      \<Rightarrow> (BeeErrorCode \<times> BeeCapability list \<times> BeeSession) option" where
  "session_open api rd ver ios param name lua cap s =
     (let failed = (\<lambda>ret cap s. (ret, cap, s\<lparr>session_fsm := reset_state (session_fsm s)\<rparr>))
      in case session_switch kBeeSessionInput_Open s of
        None \<Rightarrow> None
      | Some (False, s1) \<Rightarrow> Some (failed kBeeErrorCode_Invalid_State cap s1)
      | Some (True, s1) \<Rightarrow>
          (let s2 = generate_live_session_id rd s1;
               engine = LuaEngine_new
           in case lua_engine_open api name lua
                (sys_info_args ver param (live_session_id s2)) cap engine of
                None \<Rightarrow> None
              | Some (ret, cap', engine') \<Rightarrow>
                  (let s3 = s2\<lparr>session_engine := Some engine'\<rparr>
                   in if ret \<noteq> kBeeErrorCode_Success then Some (failed ret cap' s3)
                      else case session_switch kBeeSessionInput_Opened s3 of
                          None \<Rightarrow> None
                        | Some (False, s4) \<Rightarrow> Some (failed kBeeErrorCode_Invalid_State cap' s4)
                        | Some (True, s4) \<Rightarrow>
                            Some (kBeeErrorCode_Success, cap',
                              s4\<lparr>session_ios := ios,
                                 capabilities := set (map svc_code cap')\<rparr>))))"

definition session_close :: "BeeSession \<Rightarrow> (BeeErrorCode \<times> BeeSession) option" where
  "session_close s =
     (case session_switch kBeeSessionInput_Close s of
        None \<Rightarrow> None
      | Some (False, s1) \<Rightarrow> Some (kBeeErrorCode_Invalid_State, s1)
      | Some (True, s1) \<Rightarrow>
          (let s2 = s1\<lparr>session_ios := None, session_engine := None\<rparr>
           in case session_switch kBeeSessionInput_Closed s2 of
                None \<Rightarrow> None
              | Some (_, s3) \<Rightarrow>
                  Some (kBeeErrorCode_Success,
                    (reset_live_session_id s3)\<lparr>services := [], capabilities := {}\<rparr>)))"

definition session_execute ::
    "lua_api \<Rightarrow> int \<Rightarrow> string \<Rightarrow> string \<Rightarrow> BeeSession \<Rightarrow> (BeeErrorCode \<times> BeeSession) option" where
  "session_execute api code cmd args s =
     (case session_engine s of
        None \<Rightarrow> Some (kBeeErrorCode_Session_Not_Opened, s)
      | Some e \<Rightarrow>
          if map_of (services s) code = None then Some (kBeeErrorCode_Service_Not_Registered, s)
          else case session_switch kBeeSessionInput_Execute s of
              None \<Rightarrow> None
            | Some (False, s1) \<Rightarrow> Some (kBeeErrorCode_Invalid_State, s1)
            | Some (True, s1) \<Rightarrow> Some (lua_engine_execute api code cmd args e, s1))"

text \<open>The call of \<open>handle_data\<close> that a notification makes, if any; \<open>data = None\<close> is NULL.\<close>

definition session_on_svc_notify ::
    "int \<Rightarrow> string option \<Rightarrow> BeeSession \<Rightarrow> (BeeService \<times> string) option" where
  "session_on_svc_notify code data s =
     (if code < 0 \<or> data = None \<or> data = Some [] then None
      else case map_of (services s) code of
          None \<Rightarrow> None
        | Some svc \<Rightarrow> Some (svc, the data))"

text \<open>\<open>unordered_map::emplace\<close> leaves an entry that is there.\<close>

definition emplace :: "'k \<Rightarrow> 'v \<Rightarrow> ('k \<times> 'v) list \<Rightarrow> ('k \<times> 'v) list" where
  "emplace k v al = (if map_of al k = None then (k, v) # al else al)"

definition session_reg_svc :: "BeeService option \<Rightarrow> BeeSession \<Rightarrow> BeeErrorCode \<times> BeeSession" where
  "session_reg_svc svc s =
     (case svc of
        None \<Rightarrow> (kBeeErrorCode_Null_Pointer, s)
      | Some v \<Rightarrow>
          if svc_id v < 0 then (kBeeErrorCode_Invalid_Param, s)
          else if svc_id v \<notin> capabilities s then (kBeeErrorCode_Service_Not_Supported, s)
          else (kBeeErrorCode_Success, s\<lparr>services := emplace (svc_id v) v (services s)\<rparr>))"

definition session_unreg_svc :: "BeeService option \<Rightarrow> BeeSession \<Rightarrow> BeeErrorCode \<times> BeeSession" where
  "session_unreg_svc svc s =
     (case svc of
        None \<Rightarrow> (kBeeErrorCode_Invalid_Param, s)
      | Some v \<Rightarrow>
          if svc_id v < 0 then (kBeeErrorCode_Invalid_Param, s)
          else if map_of (services s) (svc_id v) = None then (kBeeErrorCode_Not_Found, s)
          else (kBeeErrorCode_Success, s\<lparr>services := AList.delete (svc_id v) (services s)\<rparr>))"

section \<open>SessionManager\<close>

type_synonym SessionTable = "(int \<times> nat option) list"

record SessionManager =
  all_sessions :: "BeeSession list"
  idle_sessions :: SessionTable
  busy_sessions :: SessionTable
  mgr_initialized :: bool
  mgr_count :: nat

definition kDefaultSessionCount :: nat where
  "kDefaultSessionCount = 16"

definition SessionManager_new :: SessionManager where
  "SessionManager_new =
     \<lparr>all_sessions = [], idle_sessions = [], busy_sessions = [], mgr_initialized = False,
      mgr_count = 0\<rparr>"

definition session_manager_init :: "nat \<Rightarrow> SessionManager \<Rightarrow> bool \<times> SessionManager" where
  "session_manager_init count m =
     (if mgr_initialized m then (True, m)
      else let n = (if count = 0 then kDefaultSessionCount else count)
           in (True, m\<lparr>mgr_count := n,
                 all_sessions := map (\<lambda>i. session_init_state_machine
                                            (BeeSession_new (int32_of (int i)))) [0..<n],
                 idle_sessions := fold (\<lambda>i. AList.update (int32_of (int i)) (Some i)) [0..<n]
                                    (idle_sessions m),
                 mgr_initialized := True\<rparr>))"

text \<open>The loop over the busy table in \<open>uninit\<close>: close every session a pointer leads to.\<close>

fun close_all :: "SessionTable \<Rightarrow> BeeSession list \<Rightarrow> BeeSession list option" where
  "close_all [] ss = Some ss"
| "close_all ((k, p) # t) ss =
     (case p of
        None \<Rightarrow> close_all t ss
      | Some i \<Rightarrow>
          if length ss \<le> i then None
          else case session_close (ss ! i) of
              None \<Rightarrow> None
            | Some (_, s') \<Rightarrow> close_all t (ss[i := s']))"

definition session_manager_uninit :: "SessionManager \<Rightarrow> (bool \<times> SessionManager) option" where
  "session_manager_uninit m =
     (if \<not> mgr_initialized m then Some (True, m)
      else case close_all (busy_sessions m) (all_sessions m) of
          None \<Rightarrow> None
        | Some ss \<Rightarrow>
            Some (True, m\<lparr>all_sessions := [], idle_sessions := [], busy_sessions := [],
                          mgr_initialized := False\<rparr>))"

text \<open>
  The result: the session id (-1 on failure), the error code, the value the live session id
  is left with, the capabilities and the manager.
\<close>

definition open_idle_session ::
    "lua_api \<Rightarrow> (SessionTable \<Rightarrow> int) \<Rightarrow> (nat \<Rightarrow> nat) \<Rightarrow> string \<Rightarrow> ios_ptr \<Rightarrow> SystemParam
      \<Rightarrow> string \<Rightarrow> string \<Rightarrow> string \<Rightarrow> BeeCapability list \<Rightarrow> SessionManager
      \<Rightarrow> (int \<times> BeeErrorCode \<times> string \<times> BeeCapability list \<times> SessionManager) option" where
  "open_idle_session api begin_key rd ver ios param name lua live cap m =
     (if idle_sessions m = [] then
        Some (- 1, kBeeErrorCode_Insufficient_Session, live, cap, m)
      else let k = begin_key (idle_sessions m)
        in case map_of (idle_sessions m) k of
          None \<Rightarrow> None
        | Some None \<Rightarrow> Some (- 1, kBeeErrorCode_Null_Pointer, live, cap, m)
        | Some (Some i) \<Rightarrow>
          if length (all_sessions m) \<le> i then None
          else case session_open api rd ver ios param name lua cap (all_sessions m ! i) of
              None \<Rightarrow> None
            | Some (ec, cap', s') \<Rightarrow>
                (let m1 = m\<lparr>all_sessions := (all_sessions m)[i := s']\<rparr>
                 in if ec \<noteq> kBeeErrorCode_Success then Some (- 1, ec, live, cap', m1)
                    else Some (session_id s', ec, live_session_id s', cap',
                      m1\<lparr>busy_sessions := AList.update (session_id s') (Some i) (busy_sessions m),
                         idle_sessions := AList.delete k (idle_sessions m)\<rparr>)))"

definition close_busy_session :: "int \<Rightarrow> SessionManager \<Rightarrow> (bool \<times> SessionManager) option" where
  "close_busy_session sid m =
     (case map_of (busy_sessions m) sid of
        None \<Rightarrow> Some (False, m)
      | Some None \<Rightarrow> Some (False, m)
      | Some (Some i) \<Rightarrow>
          if length (all_sessions m) \<le> i then None
          else case session_close (all_sessions m ! i) of
              None \<Rightarrow> None
            | Some (ec, s') \<Rightarrow>
                (let m1 = m\<lparr>all_sessions := (all_sessions m)[i := s']\<rparr>
                 in if ec \<noteq> kBeeErrorCode_Success then Some (False, m1)
                    else Some (True,
                      m1\<lparr>idle_sessions := AList.update sid (Some i) (idle_sessions m),
                         busy_sessions := AList.delete sid (busy_sessions m)\<rparr>)))"

definition get_busy_session :: "int \<Rightarrow> SessionManager \<Rightarrow> nat option" where
  "get_busy_session sid m =
     (case map_of (busy_sessions m) sid of None \<Rightarrow> None | Some p \<Rightarrow> p)"

section \<open>One session's life\<close>

definition session_shape :: "BeeSession \<Rightarrow> bool" where
  "session_shape s \<longleftrightarrow> state_machine (session_fsm s) = session_table
     \<and> state_count (session_fsm s) = kBeeSessionState_Count
     \<and> input_count (session_fsm s) = kBeeSessionInput_Count"

text \<open>What a session looks like between two calls while it is in the idle or the busy table.\<close>

definition session_idle :: "int \<Rightarrow> BeeSession \<Rightarrow> bool" where
  "session_idle i s \<longleftrightarrow> session_shape s \<and> session_id s = i
     \<and> current_state (session_fsm s) = kBeeSessionState_Idle
     \<and> services s = [] \<and> capabilities s = {}"

definition session_ready :: "int \<Rightarrow> BeeSession \<Rightarrow> bool" where
  "session_ready i s \<longleftrightarrow> session_shape s \<and> session_id s = i
     \<and> current_state (session_fsm s) = kBeeSessionState_Ready
     \<and> (case session_engine s of None \<Rightarrow> False | Some e \<Rightarrow> L_open e)
     \<and> fst ` set (services s) \<subseteq> capabilities s"

lemmas session_unfold = session_shape_def session_idle_def session_ready_def

lemma session_table_eq:
  "session_table = [[1, 5, 5, 5, 5], [5, 2, 5, 3, 5], [5, 5, 2, 3, 5], [5, 5, 5, 5, 0]]"
  by (simp add: session_table_def set_entries_def set_entry_def fill_table_def upt_rec
      numeral_eq_Suc)

lemma session_switch_at:
  assumes "session_shape s" "0 \<le> current_state (session_fsm s)"
    "current_state (session_fsm s) < kBeeSessionState_Count" "0 \<le> ev" "ev < kBeeSessionInput_Count"
  shows "session_switch ev s = Some (True, s\<lparr>session_fsm := (session_fsm s)
     \<lparr>last_state := current_state (session_fsm s),
      current_state := session_table ! nat (current_state (session_fsm s)) ! nat ev\<rparr>\<rparr>)"
proof -
  let ?c = "nat (current_state (session_fsm s))"
  have c: "?c < length session_table" using assms by (simp add: session_table_eq)
  have row: "length (session_table ! i) = 5 \<and> list_all (\<lambda>v. 0 \<le> v) (session_table ! i)"
    if "i < length session_table" for i
  proof -
    have "list_all (\<lambda>row. length row = 5 \<and> list_all (\<lambda>v. 0 \<le> v) row) session_table"
      by (simp add: session_table_eq)
    with that show ?thesis by (simp add: list_all_length)
  qed
  have at: "table_at session_table (current_state (session_fsm s)) ev
      = Some (session_table ! ?c ! nat ev)"
    using row [OF c] c assms by (simp add: table_at_def)
  have "0 \<le> session_table ! ?c ! nat ev"
    using row [OF c] assms by (simp add: list_all_length)
  then have "session_table ! ?c ! nat ev \<noteq> kInvalidSimpleState"
    by (simp add: kInvalidSimpleState_def)
  with at assms show ?thesis
    by (simp add: session_switch_def switch_state_def session_shape_def)
qed

lemma session_switch_outside:
  assumes "session_shape s" "current_state (session_fsm s) = kBeeSessionState_Invalid"
    "0 \<le> ev" "ev < kBeeSessionInput_Count"
  shows "session_switch ev s = None"
  using assms
  by (simp add: session_switch_def switch_state_def table_at_def session_shape_def
      session_table_eq)

lemma session_new_idle:
  "session_idle i (session_init_state_machine (BeeSession_new i))"
  by (simp add: session_unfold session_init_state_machine_def BeeSession_new_def
      SimpleStateMachine_def)

lemma generate_live_simps [simp]:
  "session_fsm (generate_live_session_id rd s) = session_fsm s"
  "session_id (generate_live_session_id rd s) = session_id s"
  "services (generate_live_session_id rd s) = services s"
  "capabilities (generate_live_session_id rd s) = capabilities s"
  "session_engine (generate_live_session_id rd s) = session_engine s"
  "session_shape (generate_live_session_id rd s) = session_shape s"
  "length (live_session_id (generate_live_session_id rd s)) = kLiveSessionIdLen"
  by (simp_all add: generate_live_session_id_def session_shape_def)

lemma session_open_from_idle:
  assumes idle: "session_idle i s"
    and opn: "session_open api rd ver ios param name lua cap s = Some (ec, cap', s')"
  shows "if ec = kBeeErrorCode_Success
     then session_ready i s' \<and> session_ios s' = ios \<and> cap' \<noteq> []
       \<and> capabilities s' = set (map svc_code cap')
       \<and> live_session_id s' = live_session_id (generate_live_session_id rd s)
     else session_idle i s'"
proof -
  have sh: "session_shape s" and c: "current_state (session_fsm s) = 0"
    using idle by (simp_all add: session_idle_def)
  let ?f1 = "(session_fsm s)\<lparr>last_state := 0, current_state := 1\<rparr>"
  have sw: "session_switch 0 s = Some (True, s\<lparr>session_fsm := ?f1\<rparr>)"
    using session_switch_at [OF sh, of 0] c by (simp add: session_table_eq)
  define s2 where "s2 = generate_live_session_id rd (s\<lparr>session_fsm := ?f1\<rparr>)"
  have live: "live_session_id s2 = live_session_id (generate_live_session_id rd s)"
    by (simp add: s2_def generate_live_session_id_def)
  have sw2: "session_switch 1 (s2\<lparr>session_engine := Some e\<rparr>)
      = Some (True, s2\<lparr>session_engine := Some e, session_fsm := (session_fsm s)
          \<lparr>last_state := 1, current_state := 2\<rparr>\<rparr>)" for e
    using session_switch_at [of "s2\<lparr>session_engine := Some e\<rparr>" 1] sh
    by (simp add: session_shape_def session_table_eq s2_def)
  have keep: "session_shape s2" "session_id s2 = i" "services s2 = []" "capabilities s2 = {}"
    using idle by (simp_all add: s2_def session_idle_def session_shape_def)
  obtain r capr e where eng: "lua_engine_open api name lua
      (sys_info_args ver param (live_session_id s2)) cap LuaEngine_new = Some (r, capr, e)"
    using opn sw by (auto simp: session_open_def s2_def Let_def split: option.splits)
  show ?thesis
  proof (cases "r = kBeeErrorCode_Success")
    case True
    then have res: "ec = kBeeErrorCode_Success" "cap' = capr"
      "s' = s2\<lparr>session_engine := Some e, session_fsm := (session_fsm s)
          \<lparr>last_state := 1, current_state := 2\<rparr>, session_ios := ios,
          capabilities := set (map svc_code capr)\<rparr>"
      using opn eng sw2 [of e] by (auto simp: session_open_def sw s2_def [symmetric] Let_def)
    from lua_engine_open_success [OF eng [unfolded True]]
    have "L_open e" "capr \<noteq> []" by simp_all
    with res keep sh live show ?thesis by (simp add: session_ready_def session_shape_def)
  next
    case False
    then have res: "ec = r" "s' = s2\<lparr>session_engine := Some e,
        session_fsm := reset_state (session_fsm s2)\<rparr>"
      using opn eng by (auto simp: session_open_def sw s2_def [symmetric] Let_def)
    with False keep show ?thesis
      by (simp add: session_idle_def session_shape_def reset_state_def)
  qed
qed

text \<open>What a session that has been opened has: the script's engine and its capabilities.\<close>

definition serves :: "lua_api \<Rightarrow> string \<Rightarrow> BeeCapability list \<Rightarrow> BeeCapability list \<Rightarrow> BeeSession \<Rightarrow> bool" where
  "serves api lua cap cap' s \<longleftrightarrow>
     (\<exists>kvs. api_get_capability api lua = Some (LTable kvs) \<and> read_capabilities kvs cap = Some (True, cap'))
     \<and> cap' \<noteq> [] \<and> capabilities s = set (map svc_code cap')
     \<and> (\<exists>e. session_engine s = Some e \<and> L_open e \<and> lua_buff e = lua)"

lemma session_open_serves:
  assumes "session_open api rd ver ios param name lua cap s = Some (kBeeErrorCode_Success, cap', s')"
  shows "serves api lua cap cap' s'"
proof -
  from assms obtain s2 e s4 where
    eng: "lua_engine_open api name lua (sys_info_args ver param (live_session_id s2)) cap LuaEngine_new
      = Some (kBeeErrorCode_Success, cap', e)"
    and s4: "session_switch kBeeSessionInput_Opened (s2\<lparr>session_engine := Some e\<rparr>) = Some (True, s4)"
    and s': "s' = s4\<lparr>session_ios := ios, capabilities := set (map svc_code cap')\<rparr>"
    by (auto simp: session_open_def Let_def split: option.splits bool.splits if_splits prod.splits)
  from s4 have "session_engine s4 = Some e" by (auto simp: session_switch_def split: option.splits)
  with lua_engine_open_success [OF eng] lua_engine_open_caps [OF eng] s' show ?thesis by (simp add: serves_def)
qed

lemma session_open_total:
  assumes "session_idle i s" and "caps_readable api"
  shows "session_open api rd ver ios param name lua cap s \<noteq> None"
proof -
  have sh: "session_shape s" and c: "current_state (session_fsm s) = 0"
    using assms by (simp_all add: session_idle_def)
  let ?f1 = "(session_fsm s)\<lparr>last_state := 0, current_state := 1\<rparr>"
  have sw: "session_switch 0 s = Some (True, s\<lparr>session_fsm := ?f1\<rparr>)"
    using session_switch_at [OF sh, of 0] c by (simp add: session_table_eq)
  define s2 where "s2 = generate_live_session_id rd (s\<lparr>session_fsm := ?f1\<rparr>)"
  have "lua_engine_open api name lua (sys_info_args ver param (live_session_id s2)) cap
      LuaEngine_new \<noteq> None"
    using lua_engine_open_total [OF assms(2)] by (simp add: LuaEngine_new_def)
  then obtain r c e where eng: "lua_engine_open api name lua
      (sys_info_args ver param (live_session_id s2)) cap LuaEngine_new = Some (r, c, e)" by auto
  obtain t where "session_switch 1 (s2\<lparr>session_engine := Some e\<rparr>) = Some (True, t)"
    using session_switch_at [of "s2\<lparr>session_engine := Some e\<rparr>" 1] sh
    by (simp add: session_shape_def s2_def)
  with eng show ?thesis by (simp add: session_open_def sw s2_def [symmetric] Let_def)
qed

lemma session_close_from_ready:
  assumes "session_ready i s"
  shows "\<exists>s'. session_close s = Some (kBeeErrorCode_Success, s') \<and> session_idle i s'
    \<and> session_engine s' = None \<and> session_ios s' = None \<and> live_session_id s' = []"
proof -
  have sh: "session_shape s" and c: "current_state (session_fsm s) = 2"
    using assms by (simp_all add: session_ready_def)
  let ?s2 = "s\<lparr>session_fsm := (session_fsm s)\<lparr>last_state := 2, current_state := 3\<rparr>,
      session_ios := None, session_engine := None\<rparr>"
  have "session_switch 3 s = Some (True,
      s\<lparr>session_fsm := (session_fsm s)\<lparr>last_state := 2, current_state := 3\<rparr>\<rparr>)"
    using session_switch_at [OF sh, of 3] c by (simp add: session_table_eq)
  moreover have "session_switch 4 ?s2 = Some (True, ?s2\<lparr>session_fsm :=
      (session_fsm s)\<lparr>last_state := 3, current_state := 0\<rparr>\<rparr>)"
    using session_switch_at [of ?s2 4] sh by (simp add: session_shape_def session_table_eq)
  ultimately show ?thesis
    using sh assms
    by (simp add: session_close_def reset_live_session_id_def session_idle_def session_ready_def
        session_shape_def)
qed

lemma session_execute_ready:
  assumes "session_ready i s" and "session_execute api code cmd args s = Some (ec, s')"
  shows "session_ready i s'"
proof -
  have sh: "session_shape s" and c: "current_state (session_fsm s) = 2"
    using assms by (simp_all add: session_ready_def)
  have "session_switch 2 s = Some (True,
      s\<lparr>session_fsm := (session_fsm s)\<lparr>last_state := 2, current_state := 2\<rparr>\<rparr>)"
    using session_switch_at [OF sh, of 2] c by (simp add: session_table_eq)
  then show ?thesis
    using assms
    by (auto simp: session_execute_def session_ready_def session_shape_def
        split: option.splits if_splits) force+
qed

lemma session_execute_total:
  "session_ready i s \<Longrightarrow> session_execute api code cmd args s \<noteq> None"
  using session_switch_at [of s 2]
  by (auto simp: session_execute_def session_ready_def split: option.splits bool.splits)

lemma session_reg_svc_ready:
  "session_ready i s \<Longrightarrow> session_ready i (snd (session_reg_svc svc s))"
  by (auto simp: session_reg_svc_def session_ready_def session_shape_def emplace_def
      split: option.splits)

lemma session_unreg_svc_ready:
  "session_ready i s \<Longrightarrow> session_ready i (snd (session_unreg_svc svc s))"
  by (auto simp: session_unreg_svc_def session_ready_def session_shape_def split: option.splits)

section \<open>The contract the pool relies on\<close>

text \<open>
  The pool's invariant: the two tables partition the session ids, every pointer leads to the
  session of that id, and the sessions of the idle and the busy table satisfy \<open>idle\<close> and
  \<open>ready\<close>.
\<close>

definition pool_inv ::
    "(int \<Rightarrow> 's \<Rightarrow> bool) \<Rightarrow> (int \<Rightarrow> 's \<Rightarrow> bool) \<Rightarrow> 's list \<Rightarrow> SessionTable \<Rightarrow> SessionTable \<Rightarrow> bool" where
  "pool_inv idle ready ss it bt \<longleftrightarrow>
     distinct (map fst it) \<and> distinct (map fst bt)
     \<and> fst ` set it \<inter> fst ` set bt = {} \<and> fst ` set it \<union> fst ` set bt = int ` {..<length ss}
     \<and> (\<forall>k p. map_of it k = Some p \<longrightarrow> p = Some (nat k) \<and> idle k (ss ! nat k))
     \<and> (\<forall>k p. map_of bt k = Some p \<longrightarrow> p = Some (nat k) \<and> ready k (ss ! nat k))"

lemma pool_inv_key:
  assumes "pool_inv idle ready ss it bt" and "k \<in> fst ` set it \<union> fst ` set bt"
  shows "0 \<le> k \<and> nat k < length ss"
  using assms by (auto simp: pool_inv_def)

lemma map_of_key: "map_of al k = Some v \<Longrightarrow> k \<in> fst ` set al"
  by (force dest: map_of_SomeD)

lemma pool_inv_other:
  assumes "pool_inv idle ready ss it bt" "k \<in> fst ` set it \<union> fst ` set bt"
    "k' \<in> fst ` set it \<union> fst ` set bt" "k' \<noteq> k"
  shows "ss[nat k := s'] ! nat k' = ss ! nat k'"
proof -
  have "nat k' \<noteq> nat k"
    using pool_inv_key [OF assms(1,2)] pool_inv_key [OF assms(1,3)] assms(4) by linarith
  then show ?thesis by simp
qed

lemma pool_inv_idleD:
  "pool_inv idle ready ss it bt \<Longrightarrow> map_of it k = Some p \<Longrightarrow> p = Some (nat k) \<and> idle k (ss ! nat k)"
  unfolding pool_inv_def by blast

lemma pool_inv_busyD:
  "pool_inv idle ready ss it bt \<Longrightarrow> map_of bt k = Some p \<Longrightarrow> p = Some (nat k) \<and> ready k (ss ! nat k)"
  unfolding pool_inv_def by blast

text \<open>
  A new session state for one id, with the tables rearranged so that the id is in the table its
  state belongs to and every other entry is where it was.
\<close>

lemma pool_inv_step:
  assumes inv: "pool_inv idle ready ss it bt" and k: "k \<in> fst ` set it \<union> fst ` set bt"
    and shape: "distinct (map fst it')" "distinct (map fst bt')"
      "fst ` set it' \<inter> fst ` set bt' = {}" "fst ` set it' \<union> fst ` set bt' = fst ` set it \<union> fst ` set bt"
    and others: "\<And>k'. k' \<noteq> k \<Longrightarrow> map_of it' k' = map_of it k' \<and> map_of bt' k' = map_of bt k'"
    and at_k: "\<And>p. map_of it' k = Some p \<Longrightarrow> p = Some (nat k) \<and> idle k s'"
      "\<And>p. map_of bt' k = Some p \<Longrightarrow> p = Some (nat k) \<and> ready k s'"
  shows "pool_inv idle ready (ss[nat k := s']) it' bt'"
proof -
  have kk: "nat k < length ss" using pool_inv_key [OF inv k] by simp
  have "p = Some (nat j) \<and> idle j (ss[nat k := s'] ! nat j)" if j: "map_of it' j = Some p" for j p
  proof (cases "j = k")
    case True
    with j at_k(1) kk show ?thesis by simp
  next
    case False
    with j others have m: "map_of it j = Some p" by simp
    then show ?thesis
      using pool_inv_idleD [OF inv m] pool_inv_other [OF inv k _ False] map_of_key [OF m] by simp
  qed
  moreover have "p = Some (nat j) \<and> ready j (ss[nat k := s'] ! nat j)"
    if j: "map_of bt' j = Some p" for j p
  proof (cases "j = k")
    case True
    with j at_k(2) kk show ?thesis by simp
  next
    case False
    with j others have m: "map_of bt j = Some p" by simp
    then show ?thesis
      using pool_inv_busyD [OF inv m] pool_inv_other [OF inv k _ False] map_of_key [OF m] by simp
  qed
  moreover have "fst ` set it \<union> fst ` set bt = int ` {..<length ss}"
    using inv unfolding pool_inv_def by blast
  ultimately show ?thesis
    using shape unfolding pool_inv_def length_list_update by auto
qed

lemma pool_inv_shape:
  "pool_inv idle ready ss it bt \<Longrightarrow> distinct (map fst it) \<and> distinct (map fst bt)
     \<and> fst ` set it \<inter> fst ` set bt = {}"
  unfolding pool_inv_def by blast

locale session_contract =
  fixes idle ready :: "int \<Rightarrow> 's \<Rightarrow> bool"
    and opn cls :: "'s \<Rightarrow> (bool \<times> 's) option"
  assumes open_law: "idle i s \<Longrightarrow> opn s = Some (ok, s') \<Longrightarrow> if ok then ready i s' else idle i s'"
    and close_law: "ready i s \<Longrightarrow> \<exists>s'. cls s = Some (True, s') \<and> idle i s'"
begin

lemma pool_set_busy:
  assumes inv: "pool_inv idle ready ss it bt" and k: "map_of bt k = Some (Some i)"
    and s': "ready k s'"
  shows "pool_inv idle ready (ss[i := s']) it bt"
proof -
  have i: "i = nat k" using pool_inv_busyD [OF inv k] by simp
  have kin: "k \<in> fst ` set bt" by (rule map_of_key [OF k])
  then have "map_of it k = None"
    using pool_inv_shape [OF inv] by (auto simp: map_of_None_iff)
  then show ?thesis
    unfolding i using inv kin s' k i pool_inv_shape [OF inv] by (intro pool_inv_step) auto
qed

lemma pool_open:
  assumes inv: "pool_inv idle ready ss it bt" and k: "map_of it k = Some (Some i)"
    and o: "opn (ss ! i) = Some (ok, s')"
  shows "if ok then pool_inv idle ready (ss[i := s']) (AList.delete k it) (AList.update k (Some i) bt)
     else pool_inv idle ready (ss[i := s']) it bt"
proof -
  have i: "i = nat k" and idl: "idle k (ss ! i)" using pool_inv_idleD [OF inv k] by auto
  have kin: "k \<in> fst ` set it" by (rule map_of_key [OF k])
  then have nb: "map_of bt k = None"
    using pool_inv_shape [OF inv] by (auto simp: map_of_None_iff)
  note s' = open_law [OF idl o]
  show ?thesis
  proof (cases ok)
    case True
    have "pool_inv idle ready (ss[nat k := s']) (AList.delete k it) (AList.update k (Some i) bt)"
      using inv kin s' True i pool_inv_shape [OF inv]
      by (intro pool_inv_step [OF inv]) (auto simp: distinct_update distinct_delete)
    with True i show ?thesis by simp
  next
    case False
    have "pool_inv idle ready (ss[nat k := s']) it bt"
      using inv kin s' False i k nb pool_inv_shape [OF inv] by (intro pool_inv_step) auto
    with False i show ?thesis by simp
  qed
qed

lemma pool_close:
  assumes inv: "pool_inv idle ready ss it bt" and k: "map_of bt k = Some (Some i)"
  shows "\<exists>s'. cls (ss ! i) = Some (True, s') \<and> idle k s'
    \<and> pool_inv idle ready (ss[i := s']) (AList.update k (Some i) it) (AList.delete k bt)"
proof -
  have i: "i = nat k" and rdy: "ready k (ss ! i)" using pool_inv_busyD [OF inv k] by auto
  have kin: "k \<in> fst ` set bt" by (rule map_of_key [OF k])
  from close_law [OF rdy] obtain s' where s': "cls (ss ! i) = Some (True, s')" "idle k s'" by blast
  have "pool_inv idle ready (ss[nat k := s']) (AList.update k (Some i) it) (AList.delete k bt)"
    using inv kin s' i pool_inv_shape [OF inv]
    by (intro pool_inv_step [OF inv]) (auto simp: distinct_update distinct_delete)
  with s' i show ?thesis by auto
qed

end

interpretation bs: session_contract session_idle session_ready
    "\<lambda>s. map_option (\<lambda>(ec, cap', s'). (ec = kBeeErrorCode_Success, s'))
       (session_open api rd ver ios param name lua cap s)"
    "\<lambda>s. map_option (\<lambda>(ec, s'). (ec = kBeeErrorCode_Success, s')) (session_close s)"
  for api rd ver ios param name lua cap
proof
  fix i s ok s'
  assume "session_idle i s" and "map_option (\<lambda>(ec, cap', s'). (ec = kBeeErrorCode_Success, s'))
       (session_open api rd ver ios param name lua cap s) = Some (ok, s')"
  then show "if ok then session_ready i s' else session_idle i s'"
    using session_open_from_idle by (fastforce split: if_splits)
next
  fix i s
  assume "session_ready i s"
  then show "\<exists>s'. map_option (\<lambda>(ec, s'). (ec = kBeeErrorCode_Success, s')) (session_close s)
      = Some (True, s') \<and> session_idle i s'"
    using session_close_from_ready by fastforce
qed

section \<open>The manager keeps its pool\<close>

definition mgr_inv :: "SessionManager \<Rightarrow> bool" where
  "mgr_inv m \<longleftrightarrow>
     (if mgr_initialized m
      then length (all_sessions m) = mgr_count m \<and> 0 < mgr_count m
        \<and> pool_inv session_idle session_ready (all_sessions m) (idle_sessions m) (busy_sessions m)
      else all_sessions m = [] \<and> idle_sessions m = [] \<and> busy_sessions m = [])"

lemma init_table:
  assumes "n \<le> 2 ^ 31"
  defines "t \<equiv> fold (\<lambda>i. AList.update (int32_of (int i)) (Some i)) [0..<n] []"
  shows "distinct (map fst t) \<and> fst ` set t = int ` {..<n}
    \<and> (\<forall>k p. map_of t k = Some p \<longrightarrow> p = Some (nat k))"
  using assms(1) unfolding t_def
proof (induction n)
  case (Suc n)
  let ?t = "fold (\<lambda>i. AList.update (int32_of (int i)) (Some i)) [0..<n] []"
  have IH: "distinct (map fst ?t)" "fst ` set ?t = int ` {..<n}"
    "\<And>k p. map_of ?t k = Some p \<Longrightarrow> p = Some (nat k)"
    using Suc.IH Suc.prems by (simp, simp, meson Suc_leD Suc.IH Suc.prems)
  have n: "int32_of (int n) = int n" using Suc.prems by simp
  have "p = Some (nat k)" if "map_of (AList.update (int n) (Some n) ?t) k = Some p" for k p
    using that IH(3) by (cases "k = int n") auto
  moreover have "insert (int n) (int ` {..<n}) = int ` {..<Suc n}"
    by (simp add: lessThan_Suc)
  ultimately show ?case using IH(1,2) by (simp add: n distinct_update)
qed simp

lemma session_manager_init_inv:
  assumes "mgr_inv m" and "count \<le> 2 ^ 31"
  shows "mgr_inv (snd (session_manager_init count m))"
proof (cases "mgr_initialized m")
  case True
  with assms show ?thesis by (simp add: session_manager_init_def)
next
  case False
  define n where "n = (if count = 0 then kDefaultSessionCount else count)"
  have n: "n \<le> 2 ^ 31" "0 < n" using assms(2) by (auto simp: n_def kDefaultSessionCount_def)
  have empty: "idle_sessions m = []" "busy_sessions m = []"
    using assms(1) False by (simp_all add: mgr_inv_def)
  let ?ss = "map (\<lambda>i. session_init_state_machine (BeeSession_new (int32_of (int i)))) [0..<n]"
  let ?t = "fold (\<lambda>i. AList.update (int32_of (int i)) (Some i)) [0..<n] []"
  note t = init_table [OF n(1)]
  have "session_idle k (?ss ! nat k)" if k: "map_of ?t k = Some p" for k p
  proof -
    have "k \<in> int ` {..<n}" using t map_of_key [OF k] by simp
    then have "0 \<le> k" "nat k < n" by auto
    moreover from this n have "int32_of k = k" by (simp add: nat_less_iff)
    ultimately show ?thesis using session_new_idle [of k] by simp
  qed
  with t have "pool_inv session_idle session_ready ?ss ?t []"
    unfolding pool_inv_def by simp
  with n False empty show ?thesis
    by (simp add: session_manager_init_def mgr_inv_def Let_def n_def [symmetric])
qed

lemma mgr_new_inv: "mgr_inv SessionManager_new"
  by (simp add: mgr_inv_def SessionManager_new_def)

lemma pool_inv_in_range:
  assumes "pool_inv idle ready ss it bt" and "map_of it k = Some p \<or> map_of bt k = Some p"
  shows "\<exists>i. p = Some i \<and> i < length ss \<and> k = int i"
proof -
  have k: "k \<in> fst ` set it \<union> fst ` set bt" using assms(2) map_of_key by (metis UnCI)
  have "p = Some (nat k)"
    using pool_inv_idleD [OF assms(1)] pool_inv_busyD [OF assms(1)] assms(2) by blast
  with pool_inv_key [OF assms(1) k] show ?thesis by simp
qed

lemma close_all_total:
  assumes "distinct (map fst t)"
    and "\<And>k p. (k, p) \<in> set t \<Longrightarrow> 0 \<le> k \<and> p = Some (nat k) \<and> nat k < length ss
      \<and> session_ready k (ss ! nat k)"
  shows "close_all t ss \<noteq> None"
  using assms
proof (induction t arbitrary: ss)
  case (Cons kp t)
  obtain k p where kp: "kp = (k, p)" by fastforce
  have k: "0 \<le> k" "p = Some (nat k)" "nat k < length ss" "session_ready k (ss ! nat k)"
    using Cons.prems(2) [of k p] kp by auto
  from session_close_from_ready [OF k(4)] obtain s'
    where s': "session_close (ss ! nat k) = Some (kBeeErrorCode_Success, s')" by blast
  have "close_all t (ss[nat k := s']) \<noteq> None"
  proof (rule Cons.IH)
    show "distinct (map fst t)" using Cons.prems(1) by simp
  next
    fix j q assume jq: "(j, q) \<in> set t"
    then have jk: "j \<noteq> k" using Cons.prems(1) kp by force
    moreover have j: "0 \<le> j \<and> q = Some (nat j) \<and> nat j < length ss \<and> session_ready j (ss ! nat j)"
      using Cons.prems(2) [of j q] jq by simp
    ultimately show "0 \<le> j \<and> q = Some (nat j) \<and> nat j < length (ss[nat k := s'])
        \<and> session_ready j (ss[nat k := s'] ! nat j)"
      using k(1) jk by (simp add: nth_list_update_neq eq_nat_nat_iff)
  qed
  with k s' kp show ?case by simp
qed simp

lemma session_manager_uninit_inv:
  assumes "mgr_inv m"
  shows "\<exists>m'. session_manager_uninit m = Some (True, m') \<and> mgr_inv m' \<and> \<not> mgr_initialized m'"
proof (cases "mgr_initialized m")
  case True
  with assms have inv: "pool_inv session_idle session_ready (all_sessions m) (idle_sessions m)
      (busy_sessions m)" by (simp add: mgr_inv_def)
  have "close_all (busy_sessions m) (all_sessions m) \<noteq> None"
  proof (rule close_all_total)
    show "distinct (map fst (busy_sessions m))" using pool_inv_shape [OF inv] by simp
  next
    fix k p assume kp: "(k, p) \<in> set (busy_sessions m)"
    then have m: "map_of (busy_sessions m) k = Some p"
      using pool_inv_shape [OF inv] by simp
    from pool_inv_in_range [OF inv disjI2 [OF m]] obtain i
      where "p = Some i" "i < length (all_sessions m)" "k = int i" by blast
    with pool_inv_busyD [OF inv m]
    show "0 \<le> k \<and> p = Some (nat k) \<and> nat k < length (all_sessions m)
        \<and> session_ready k (all_sessions m ! nat k)" by auto
  qed
  then have "session_manager_uninit m = Some (True, m\<lparr>all_sessions := [], idle_sessions := [],
      busy_sessions := [], mgr_initialized := False\<rparr>)"
    using True by (auto simp: session_manager_uninit_def)
  then show ?thesis by (simp add: mgr_inv_def)
qed (use assms in \<open>simp add: session_manager_uninit_def\<close>)

lemma open_idle_session_step:
  assumes inv: "mgr_inv m" and init: "mgr_initialized m"
    and begin_in: "\<And>t. t \<noteq> [] \<Longrightarrow> begin_key t \<in> fst ` set t"
    and res: "open_idle_session api begin_key rd ver ios param name lua live cap m
      = Some (sid, ec, live', cap', m')"
  shows "mgr_inv m' \<and> mgr_initialized m'
    \<and> (if sid = - 1 then ec \<noteq> kBeeErrorCode_Success
         \<and> idle_sessions m' = idle_sessions m \<and> busy_sessions m' = busy_sessions m \<and> live' = live
       else ec = kBeeErrorCode_Success
         \<and> sid \<in> fst ` set (idle_sessions m) \<and> sid \<notin> fst ` set (busy_sessions m)
         \<and> fst ` set (idle_sessions m') = fst ` set (idle_sessions m) - {sid}
         \<and> get_busy_session sid m' = Some (nat sid)
         \<and> live' = live_session_id (generate_live_session_id rd (all_sessions m ! nat sid))
         \<and> serves api lua cap cap' (all_sessions m' ! nat sid))"
proof (cases "idle_sessions m = []")
  case True
  with res inv init show ?thesis by (auto simp: open_idle_session_def)
next
  case False
  let ?it = "idle_sessions m" and ?bt = "busy_sessions m" and ?ss = "all_sessions m"
  define k where "k = begin_key ?it"
  have p: "pool_inv session_idle session_ready ?ss ?it ?bt" and c: "length ?ss = mgr_count m"
    "0 < mgr_count m"
    using inv init by (simp_all add: mgr_inv_def)
  have kin: "k \<in> fst ` set ?it" using begin_in [OF False] by (simp add: k_def)
  then obtain q where mq: "map_of ?it k = Some q" by (metis map_of_None_iff option.exhaust)
  with pool_inv_in_range [OF p disjI1 [OF mq]] obtain i
    where i: "q = Some i" "i < length ?ss" "k = int i" by blast
  have idl: "session_idle k (?ss ! i)" using pool_inv_idleD [OF p mq] i by simp
  from res False mq i obtain s' where so: "session_open api rd ver ios param name lua cap (?ss ! i)
      = Some (ec, cap', s')"
    by (auto simp: open_idle_session_def k_def [symmetric] Let_def
        split: option.splits if_splits prod.splits)
  note from_idle = session_open_from_idle [OF idl so]
  have pool: "if ec = kBeeErrorCode_Success
      then pool_inv session_idle session_ready (?ss[i := s']) (AList.delete k ?it)
        (AList.update k (Some i) ?bt)
      else pool_inv session_idle session_ready (?ss[i := s']) ?it ?bt"
    using bs.pool_open [OF p, of k i api rd ver ios param name lua cap
        "ec = kBeeErrorCode_Success" s'] mq i so by simp
  show ?thesis
  proof (cases "ec = kBeeErrorCode_Success")
    case True
    with from_idle have s': "session_id s' = k" "live_session_id s' =
        live_session_id (generate_live_session_id rd (?ss ! i))" by (simp_all add: session_ready_def)
    with res False mq i so True have "sid = k" "live' = live_session_id s'"
      "m' = m\<lparr>all_sessions := ?ss[i := s'], busy_sessions := AList.update k (Some i) ?bt,
             idle_sessions := AList.delete k ?it\<rparr>"
      by (auto simp: open_idle_session_def k_def [symmetric] Let_def)
    moreover have "serves api lua cap cap' s'" using session_open_serves so True by simp
    ultimately show ?thesis using pool True c init i kin s' pool_inv_shape [OF p]
      by (auto simp: mgr_inv_def get_busy_session_def)
  next
    case False
    with res \<open>?it \<noteq> []\<close> mq i so have "sid = - 1" "live' = live"
      "m' = m\<lparr>all_sessions := ?ss[i := s']\<rparr>"
      by (simp_all add: open_idle_session_def k_def [symmetric] Let_def)
    with pool False c init show ?thesis by (simp add: mgr_inv_def)
  qed
qed

lemma open_idle_session_total:
  assumes inv: "mgr_inv m" and caps: "caps_readable api"
    and begin_in: "\<And>t. t \<noteq> [] \<Longrightarrow> begin_key t \<in> fst ` set t"
  shows "open_idle_session api begin_key rd ver ios param name lua live cap m \<noteq> None"
proof (cases "idle_sessions m = []")
  case False
  let ?it = "idle_sessions m"
  have p: "pool_inv session_idle session_ready (all_sessions m) ?it (busy_sessions m)"
    using inv False by (simp add: mgr_inv_def split: if_splits)
  obtain q where mq: "map_of ?it (begin_key ?it) = Some q"
    using begin_in [OF False] by (metis map_of_None_iff option.exhaust)
  with pool_inv_in_range [OF p disjI1 [OF mq]] obtain i
    where i: "q = Some i" "i < length (all_sessions m)" by blast
  have "session_idle (begin_key ?it) (all_sessions m ! i)"
    using pool_inv_idleD [OF p mq] i by simp
  then have "session_open api rd ver ios param name lua cap (all_sessions m ! i) \<noteq> None"
    by (rule session_open_total [OF _ caps])
  with mq i False show ?thesis
    by (auto simp: open_idle_session_def Let_def)
qed (simp add: open_idle_session_def)

lemma close_busy_session_step:
  assumes inv: "mgr_inv m"
  shows "\<exists>ok m'. close_busy_session sid m = Some (ok, m') \<and> mgr_inv m'
    \<and> mgr_initialized m' = mgr_initialized m
    \<and> ok = (get_busy_session sid m \<noteq> None)
    \<and> get_busy_session sid m' = None
    \<and> fst ` set (idle_sessions m') = fst ` set (idle_sessions m) \<union> (if ok then {sid} else {})
    \<and> fst ` set (busy_sessions m') = fst ` set (busy_sessions m) - {sid}"
proof (cases "map_of (busy_sessions m) sid")
  case None
  then have "close_busy_session sid m = Some (False, m)" "get_busy_session sid m = None"
    by (simp_all add: close_busy_session_def get_busy_session_def)
  moreover have "sid \<notin> fst ` set (busy_sessions m)" using None map_of_None_iff by metis
  ultimately show ?thesis using inv by (intro exI [of _ False] exI [of _ m]) simp
next
  case (Some q)
  let ?ss = "all_sessions m"
  have init: "mgr_initialized m" using inv Some by (auto simp: mgr_inv_def split: if_splits)
  have p: "pool_inv session_idle session_ready ?ss (idle_sessions m) (busy_sessions m)"
    using inv init by (simp add: mgr_inv_def)
  from pool_inv_in_range [OF p disjI2 [OF Some]] obtain i
    where i: "q = Some i" "i < length ?ss" "sid = int i" by blast
  from bs.pool_close [OF p, of sid i] Some i obtain s' where s':
    "session_close (?ss ! i) = Some (kBeeErrorCode_Success, s')"
    "pool_inv session_idle session_ready (?ss[i := s']) (AList.update sid (Some i) (idle_sessions m))
       (AList.delete sid (busy_sessions m))"
    by auto
  with Some i init inv show ?thesis
    by (auto simp: close_busy_session_def get_busy_session_def mgr_inv_def)
qed

text \<open>A change of a busy session that leaves it ready.\<close>

definition put_session :: "nat \<Rightarrow> BeeSession \<Rightarrow> SessionManager \<Rightarrow> SessionManager" where
  "put_session i s m = m\<lparr>all_sessions := (all_sessions m)[i := s]\<rparr>"

lemma get_busy_session_ready:
  assumes "mgr_inv m" and "get_busy_session sid m = Some i"
  shows "i < length (all_sessions m) \<and> session_ready sid (all_sessions m ! i)
    \<and> map_of (busy_sessions m) sid = Some (Some i) \<and> mgr_initialized m"
proof -
  have m: "map_of (busy_sessions m) sid = Some (Some i)"
    using assms(2) by (auto simp: get_busy_session_def split: option.splits)
  then have init: "mgr_initialized m" using assms(1) by (auto simp: mgr_inv_def split: if_splits)
  then have p: "pool_inv session_idle session_ready (all_sessions m) (idle_sessions m)
      (busy_sessions m)" using assms(1) by (simp add: mgr_inv_def)
  from pool_inv_in_range [OF p disjI2 [OF m]] pool_inv_busyD [OF p m] m init show ?thesis by auto
qed

lemma put_session_inv:
  assumes "mgr_inv m" "get_busy_session sid m = Some i" "session_ready sid s'"
  shows "mgr_inv (put_session i s' m)"
proof -
  note g = get_busy_session_ready [OF assms(1,2)]
  then have p: "pool_inv session_idle session_ready (all_sessions m) (idle_sessions m)
      (busy_sessions m)" using assms(1) by (simp add: mgr_inv_def)
  from bs.pool_set_busy [OF p, of sid i s'] g assms show ?thesis
    by (simp add: mgr_inv_def put_session_def)
qed

section \<open>Properties\<close>

text \<open>
  C2: opening a session from a well-formed, initialised pool, whose first idle entry is one of the idle
  table, never runs into undefined behaviour when the scripts' capability tables have no numeric field
  names, and either reports an error with id -1 and leaves both tables as they were, or answers the id
  of a session that was idle, that is now the busy session of this id, and a fresh live session id;
  the capabilities are then those there were, followed by those the script's \<open>GetCapability\<close> lists, at
  least one, each new one with a code and a description, and the session has the script loaded and their
  codes registered. The pool's invariant (the tables partition the ids, idle sessions are in the idle
  state, busy ones ready with their engine loaded) is kept either way.
\<close>

theorem open_idle_session_correct:
  assumes "mgr_inv m" and "mgr_initialized m" and "caps_readable api"
    and "\<And>t. t \<noteq> [] \<Longrightarrow> begin_key t \<in> fst ` set t"
  shows "\<exists>sid ec live' cap' m'.
     open_idle_session api begin_key rd ver ios param name lua live cap m
       = Some (sid, ec, live', cap', m')
     \<and> mgr_inv m' \<and> mgr_initialized m'
     \<and> (if sid = - 1 then ec \<noteq> kBeeErrorCode_Success
          \<and> idle_sessions m' = idle_sessions m \<and> busy_sessions m' = busy_sessions m \<and> live' = live
        else ec = kBeeErrorCode_Success
          \<and> sid \<in> fst ` set (idle_sessions m) \<and> sid \<notin> fst ` set (busy_sessions m)
          \<and> fst ` set (idle_sessions m') = fst ` set (idle_sessions m) - {sid}
          \<and> get_busy_session sid m' = Some (nat sid)
          \<and> live' = live_session_id (generate_live_session_id rd (all_sessions m ! nat sid))
          \<and> serves api lua cap cap' (all_sessions m' ! nat sid)
          \<and> (\<exists>new. cap' = cap @ new \<and> (\<forall>c \<in> set new. svc_code c \<noteq> - 1 \<and> svc_desc c \<noteq> [])))"
proof -
  from open_idle_session_total [OF assms(1,3,4)] obtain sid ec live' cap' m'
    where r: "open_idle_session api begin_key rd ver ios param name lua live cap m
       = Some (sid, ec, live', cap', m')" by (metis option.exhaust prod.exhaust)
  note st = open_idle_session_step [OF assms(1,2,4) r]
  have "serves api lua cap cap' s \<Longrightarrow> \<exists>new. cap' = cap @ new \<and> (\<forall>c \<in> set new. svc_code c \<noteq> - 1 \<and> svc_desc c \<noteq> [])" for s
    unfolding serves_def using read_capabilities_entries by blast
  with r st show ?thesis by (intro exI [of _ sid] exI [of _ ec] exI [of _ live'] exI [of _ cap'] exI [of _ m']) auto
qed

definition demo_api :: lua_api where
  "demo_api = \<lparr>api_load = \<lambda>_ _. True, api_global = \<lambda>_ _. LFunction,
     api_set_sys_info = \<lambda>_ _. True,
     api_get_capability = \<lambda>_. Some (LTable [(LInteger 1,
        LTable [(LString ''svc'', LInteger 7), (LString ''desc'', LString ''cam'')])]),
     api_resume = \<lambda>_ _ _ _. LUA_OK\<rparr>"

definition demo_param :: SystemParam where
  "demo_param = \<lparr>platform_type = 1, net_type = 0, app_name = ''a'', app_version = ''1'',
     bee_version = [], system_info = [], machine_code = ''m'', log_path = [], log_level = 4,
     log_max_line = 0, log_volume_count = 0, log_volume_size = 0, session_count = 2,
     enable_statusd = False\<rparr>"

definition demo_manager :: SessionManager where
  "demo_manager = snd (session_manager_init 2 SessionManager_new)"

lemma demo_api_readable: "caps_readable demo_api"
  by (simp add: caps_readable_def demo_api_def string_keyed_def numeric_key_def)

lemma demo_manager_inv: "mgr_inv demo_manager" "mgr_initialized demo_manager"
proof -
  show "mgr_inv demo_manager"
    unfolding demo_manager_def by (rule session_manager_init_inv [OF mgr_new_inv]) simp
  show "mgr_initialized demo_manager"
    by (simp add: demo_manager_def session_manager_init_def SessionManager_new_def Let_def)
qed

theorem open_idle_session_correct_witness:
  "\<exists>sid ec live' cap' m'.
     open_idle_session demo_api (\<lambda>t. fst (hd t)) (\<lambda>i. i) ''2.0'' (Some 0) demo_param ''n'' ''l'' [] []
       demo_manager = Some (sid, ec, live', cap', m')
     \<and> mgr_inv m'"
  using open_idle_session_correct [OF demo_manager_inv demo_api_readable,
      of "\<lambda>t. fst (hd t)" "\<lambda>i. i" "''2.0''" "Some 0" demo_param "''n''" "''l''" "[]" "[]"]
  by auto

text \<open>
  Closing never runs into undefined behaviour on a well-formed pool. It succeeds exactly when
  the id names a busy session; that session's id moves to the idle table, no other id moves, and
  the pool's invariant is kept.
\<close>

theorem close_busy_session_correct:
  assumes "mgr_inv m"
  shows "\<exists>ok m'. close_busy_session sid m = Some (ok, m') \<and> mgr_inv m'
    \<and> mgr_initialized m' = mgr_initialized m
    \<and> ok = (get_busy_session sid m \<noteq> None)
    \<and> get_busy_session sid m' = None
    \<and> fst ` set (idle_sessions m') = fst ` set (idle_sessions m) \<union> (if ok then {sid} else {})
    \<and> fst ` set (busy_sessions m') = fst ` set (busy_sessions m) - {sid}"
  using close_busy_session_step [OF assms] .

theorem close_busy_session_correct_witness:
  "\<exists>ok m'. close_busy_session 1 demo_manager = Some (ok, m') \<and> mgr_inv m'
    \<and> mgr_initialized m' = mgr_initialized demo_manager
    \<and> ok = (get_busy_session 1 demo_manager \<noteq> None)
    \<and> get_busy_session 1 m' = None
    \<and> fst ` set (idle_sessions m')
        = fst ` set (idle_sessions demo_manager) \<union> (if ok then {1} else {})
    \<and> fst ` set (busy_sessions m') = fst ` set (busy_sessions demo_manager) - {1}"
  by (rule close_busy_session_correct [OF demo_manager_inv(1)])

text \<open>
  The session's state table is filled with \<open>kBeeSessionState_Invalid\<close> (5) while
  \<open>switch_state\<close> refuses only \<open>kInvalidSimpleState\<close> (-1). So closing a session that was
  never opened is accepted, leads to the state 5 outside the table, and the next
  \<open>switch_state\<close> of the same \<open>close\<close> reads past the table; the pool never does this.
\<close>

theorem session_close_unopened:
  fixes i :: int
  defines "s \<equiv> session_init_state_machine (BeeSession_new i)"
  shows "session_close s = None
    \<and> (\<exists>s'. session_switch kBeeSessionInput_Close s = Some (True, s')
          \<and> current_state (session_fsm s') = kBeeSessionState_Invalid
          \<and> session_switch kBeeSessionInput_Closed s' = None)"
proof -
  have sh: "session_shape s" and c: "current_state (session_fsm s) = 0"
    using session_new_idle [of i] by (simp_all add: s_def session_idle_def)
  have sw: "session_switch 3 s = Some (True, s\<lparr>session_fsm := (session_fsm s)
      \<lparr>last_state := 0, current_state := 5\<rparr>\<rparr>)"
    using session_switch_at [OF sh, of 3] c by (simp add: session_table_eq)
  have out: "session_switch 4 t = None"
    if "session_fsm t = (session_fsm s)\<lparr>last_state := 0, current_state := 5\<rparr>" for t
    using sh that by (intro session_switch_outside) (simp_all add: session_shape_def)
  show ?thesis by (simp add: session_close_def sw out)
qed

text \<open>
  What executing a command on an open session answers, on every branch: an unregistered
  service code is refused before the script is touched, an empty command or argument is an
  invalid parameter, and otherwise the result is the script's; the session stays ready and only
  services the script declared as a capability ever run.
\<close>

theorem session_execute_correct:
  assumes "session_ready i s"
  shows "\<exists>e s'. session_engine s = Some e \<and> session_ready i s'
    \<and> services s' = services s \<and> capabilities s' = capabilities s
    \<and> session_execute api code cmd args s =
        Some (if code \<notin> fst ` set (services s) then kBeeErrorCode_Service_Not_Registered
              else if cmd = [] \<or> args = [] then kBeeErrorCode_Invalid_Param
              else if api_resume api (lua_buff e) (c_str cmd) code args = LUA_ERR
                then kBeeErrorCode_Engine_Script_Error
              else kBeeErrorCode_Success, s')
    \<and> (code \<in> fst ` set (services s) \<longrightarrow> code \<in> capabilities s)"
proof -
  have sh: "session_shape s" and c: "current_state (session_fsm s) = 2"
    and caps: "fst ` set (services s) \<subseteq> capabilities s"
    using assms by (simp_all add: session_ready_def)
  obtain e where e: "session_engine s = Some e" "L_open e"
    using assms by (auto simp: session_ready_def split: option.splits)
  let ?s' = "s\<lparr>session_fsm := (session_fsm s)\<lparr>last_state := 2, current_state := 2\<rparr>\<rparr>"
  have sw: "session_switch 2 s = Some (True, ?s')"
    using session_switch_at [OF sh, of 2] c by (simp add: session_table_eq)
  have rdy: "session_ready i ?s'"
    using assms by (simp add: session_ready_def session_shape_def)
  show ?thesis
  proof (cases "code \<in> fst ` set (services s)")
    case False
    then have "map_of (services s) code = None" by (simp add: map_of_None_iff)
    with False e assms show ?thesis
      by (intro exI [of _ e] exI [of _ s]) (simp add: session_execute_def)
  next
    case True
    then have "map_of (services s) code \<noteq> None" using map_of_None_iff by metis
    with True e sw rdy caps show ?thesis
      by (intro exI [of _ e] exI [of _ ?s'])
        (auto simp: session_execute_def lua_engine_execute_def split: resume_result.splits)
  qed
qed

definition demo_session :: BeeSession where
  "demo_session = \<lparr>session_fsm = \<lparr>state_machine = session_table, state_count = 4,
     input_count = 5, current_state = 2, last_state = 1\<rparr>, session_ios = None, session_id = 0,
     session_engine = Some \<lparr>L_open = True, lua_name = ''n'', lua_buff = ''l'',
       bee_table_created = True\<rparr>,
     live_session_id = [], services = [(7, \<lparr>svc_handle = 0, svc_id = 7\<rparr>)],
     capabilities = {7}\<rparr>"

lemma demo_session_ready: "session_ready 0 demo_session"
  by (simp add: demo_session_def session_ready_def session_shape_def)

theorem session_execute_correct_witness:
  "\<exists>s'. session_execute demo_api 7 ''c'' ''a'' demo_session = Some (kBeeErrorCode_Success, s')"
  using session_execute_correct [OF demo_session_ready, of demo_api 7 "''c''" "''a''"]
  by (auto simp: demo_api_def demo_session_def)

text \<open>
  A service that registers under one of the session's capabilities receives the notifications
  of its code, a second registration under the same code does not replace it, and once it is
  unregistered the notifications go nowhere and unregistering again finds nothing.
\<close>

theorem session_svc_routing:
  assumes "0 \<le> svc_id v" and "svc_id v \<in> capabilities s"
    and "svc_id v \<notin> fst ` set (services s)" and "data \<noteq> []"
  shows "fst (session_reg_svc (Some v) s) = kBeeErrorCode_Success
    \<and> session_on_svc_notify (svc_id v) (Some data) (snd (session_reg_svc (Some v) s)) = Some (v, data)
    \<and> session_on_svc_notify (svc_id v) (Some data)
        (snd (session_reg_svc (Some (v\<lparr>svc_handle := h\<rparr>)) (snd (session_reg_svc (Some v) s))))
        = Some (v, data)
    \<and> (let u = session_unreg_svc (Some v) (snd (session_reg_svc (Some v) s))
       in fst u = kBeeErrorCode_Success
        \<and> session_on_svc_notify (svc_id v) (Some data) (snd u) = None
        \<and> fst (session_unreg_svc (Some v) (snd u)) = kBeeErrorCode_Not_Found)"
proof -
  have none: "map_of (services s) (svc_id v) = None" using assms(3) by (simp add: map_of_None_iff)
  then have r: "session_reg_svc (Some v) s
      = (kBeeErrorCode_Success, s\<lparr>services := (svc_id v, v) # services s\<rparr>)"
    using assms(1,2) by (simp add: session_reg_svc_def emplace_def)
  have again: "session_reg_svc (Some (v\<lparr>svc_handle := h\<rparr>)) (s\<lparr>services := (svc_id v, v) # services s\<rparr>)
      = (kBeeErrorCode_Success, s\<lparr>services := (svc_id v, v) # services s\<rparr>)"
    using assms(1,2) by (simp add: session_reg_svc_def emplace_def)
  show ?thesis
    unfolding r snd_conv fst_conv again
    using assms(1,4) none by (simp add: session_on_svc_notify_def session_unreg_svc_def Let_def)
qed

theorem session_svc_routing_witness:
  "session_on_svc_notify 9 (Some ''x'')
     (snd (session_reg_svc (Some \<lparr>svc_handle = 0, svc_id = 9\<rparr>) (demo_session\<lparr>capabilities := {7, 9}\<rparr>)))
   = Some (\<lparr>svc_handle = 0, svc_id = 9\<rparr>, ''x'')"
  using session_svc_routing [of "\<lparr>svc_handle = 0, svc_id = 9\<rparr>" "demo_session\<lparr>capabilities := {7, 9}\<rparr>"
      "''x''" 0]
  by (simp add: demo_session_def)

end
