(* ===== verification/Bee_Timer.thy ===== *)
theory Bee_Timer
  imports Bee_Prelude
begin

text \<open>
  The timers of src/utility/timer.h: the elapsed-time counter \<open>MillisecTimer\<close> and
  \<open>AsyncWaitTimer\<close>, a callback on an asio deadline timer.

  What asio does with the wait is its documented behaviour: \<open>expires_from_now\<close> and
  \<open>cancel\<close> complete a pending wait at once (with an error code \<open>on_timer\<close> does not look
  at), and a completed wait's handler runs later from the event loop. \<open>armed\<close> is the delay of
  the pending wait and \<open>ready\<close> counts the handlers that are due. The callback's effects are
  not modelled here, only that it is called and with which number.
\<close>

section \<open>MillisecTimer\<close>

record MillisecTimer =
  tick_count :: u64

definition millisec_restart :: "u64 \<Rightarrow> MillisecTimer" where
  "millisec_restart now = \<lparr>tick_count = now\<rparr>"

definition millisec_forward :: "u64 \<Rightarrow> MillisecTimer \<Rightarrow> MillisecTimer" where
  "millisec_forward d t = t\<lparr>tick_count := tick_count t + d\<rparr>"

definition millisec_elapsed :: "u64 \<Rightarrow> MillisecTimer \<Rightarrow> u64" where
  "millisec_elapsed now_tick_count t =
     (if now_tick_count < tick_count t then 0xFFFFFFFF - tick_count t + now_tick_count
      else now_tick_count - tick_count t)"

section \<open>AsyncWaitTimer\<close>

record AsyncWaitTimer =
  total_times :: int
  dead_mill_seconds :: int
  invoke_times :: int
  has_wait_func :: bool
  is_cancel :: bool
  immediately :: bool
  armed :: "int option"
  ready :: nat

definition AsyncWaitTimer_create :: AsyncWaitTimer where
  "AsyncWaitTimer_create =
     \<lparr>total_times = - 1, dead_mill_seconds = 0, invoke_times = 0, has_wait_func = False,
      is_cancel = False, immediately = True, armed = None, ready = 0\<rparr>"

definition set_wait_millseconds :: "int \<Rightarrow> AsyncWaitTimer \<Rightarrow> AsyncWaitTimer" where
  "set_wait_millseconds ms t = t\<lparr>dead_mill_seconds := ms\<rparr>"

text \<open>\<open>sec * 1000\<close> in \<open>int32_t\<close>; overflow is undefined.\<close>

definition set_wait_seconds :: "int \<Rightarrow> AsyncWaitTimer \<Rightarrow> AsyncWaitTimer option" where
  "set_wait_seconds sec t =
     (if - (2 ^ 31) \<le> sec * 1000 \<and> sec * 1000 < 2 ^ 31
      then Some (t\<lparr>dead_mill_seconds := sec * 1000\<rparr>) else None)"

definition set_wait_times :: "int \<Rightarrow> AsyncWaitTimer \<Rightarrow> AsyncWaitTimer" where
  "set_wait_times n t = t\<lparr>total_times := n\<rparr>"

definition set_immediately :: "bool \<Rightarrow> AsyncWaitTimer \<Rightarrow> AsyncWaitTimer" where
  "set_immediately b t = t\<lparr>immediately := b\<rparr>"

definition clear_invoke_times :: "AsyncWaitTimer \<Rightarrow> AsyncWaitTimer" where
  "clear_invoke_times t = t\<lparr>invoke_times := 0\<rparr>"

text \<open>\<open>expires_from_now(d)\<close> followed by \<open>async_wait\<close>: a pending wait completes.\<close>

definition rearm :: "int \<Rightarrow> AsyncWaitTimer \<Rightarrow> AsyncWaitTimer" where
  "rearm d t = t\<lparr>ready := (if armed t = None then ready t else ready t + 1), armed := Some d\<rparr>"

definition re_async_wait :: "AsyncWaitTimer \<Rightarrow> AsyncWaitTimer" where
  "re_async_wait t =
     (if \<not> is_cancel t \<and> dead_mill_seconds t \<noteq> 0
      then rearm (if immediately t then 0 else dead_mill_seconds t) t else t)"

definition timer_async_wait :: "AsyncWaitTimer \<Rightarrow> AsyncWaitTimer" where
  "timer_async_wait t =
     (if \<not> is_cancel t \<and> dead_mill_seconds t \<noteq> 0
      then rearm (if immediately t then 0 else dead_mill_seconds t)
        (t\<lparr>has_wait_func := True, invoke_times := 0\<rparr>)
      else t)"

definition timer_cancel :: "AsyncWaitTimer \<Rightarrow> AsyncWaitTimer" where
  "timer_cancel t =
     t\<lparr>is_cancel := True, ready := (if armed t = None then ready t else ready t + 1), armed := None\<rparr>"

text \<open>\<open>on_timer\<close>: the number the callback gets, if it is called, and the timer after it.\<close>

definition on_timer :: "AsyncWaitTimer \<Rightarrow> int option \<times> AsyncWaitTimer" where
  "on_timer t =
     (if has_wait_func t \<and> \<not> is_cancel t then
        (let t1 = t\<lparr>invoke_times := invoke_times t + 1\<rparr>
         in (Some (invoke_times t),
             if total_times t1 < 0 \<or> (total_times t1 > 0 \<and> invoke_times t1 < total_times t1)
             then rearm (dead_mill_seconds t1) t1 else t1))
      else (None, t))"

text \<open>
  The timer under the event loop: the delay passes, a due handler runs (and calls back with a
  number), or the owner calls an operation.
\<close>

inductive timer_step :: "AsyncWaitTimer \<Rightarrow> int option \<Rightarrow> AsyncWaitTimer \<Rightarrow> bool" where
  expire: "armed t \<noteq> None \<Longrightarrow> timer_step t None (t\<lparr>armed := None, ready := ready t + 1\<rparr>)"
| handler: "ready t = Suc n \<Longrightarrow> on_timer (t\<lparr>ready := n\<rparr>) = (out, t') \<Longrightarrow> timer_step t out t'"
| cancel: "timer_step t None (timer_cancel t)"
| again: "timer_step t None (re_async_wait t)"

inductive_cases timer_stepE: "timer_step t out t'"

inductive timer_run :: "AsyncWaitTimer \<Rightarrow> int list \<Rightarrow> AsyncWaitTimer \<Rightarrow> bool" where
  stop: "timer_run t [] t"
| quiet: "timer_step t None t' \<Longrightarrow> timer_run t' outs t'' \<Longrightarrow> timer_run t outs t''"
| call: "timer_step t (Some n) t' \<Longrightarrow> timer_run t' outs t'' \<Longrightarrow> timer_run t (n # outs) t''"

text \<open>The steps of a timer whose owner only waits: no \<open>re_async_wait\<close>.\<close>

inductive timer_wait_step :: "AsyncWaitTimer \<Rightarrow> int option \<Rightarrow> AsyncWaitTimer \<Rightarrow> bool" where
  wait_expire: "armed t \<noteq> None \<Longrightarrow> timer_wait_step t None (t\<lparr>armed := None, ready := ready t + 1\<rparr>)"
| wait_handler: "ready t = Suc n \<Longrightarrow> on_timer (t\<lparr>ready := n\<rparr>) = (out, t') \<Longrightarrow> timer_wait_step t out t'"
| wait_cancel: "timer_wait_step t None (timer_cancel t)"

inductive_cases timer_wait_stepE: "timer_wait_step t out t'"

inductive timer_waits :: "AsyncWaitTimer \<Rightarrow> int list \<Rightarrow> AsyncWaitTimer \<Rightarrow> bool" where
  w_stop: "timer_waits t [] t"
| w_quiet: "timer_wait_step t None t' \<Longrightarrow> timer_waits t' outs t'' \<Longrightarrow> timer_waits t outs t''"
| w_call: "timer_wait_step t (Some n) t' \<Longrightarrow> timer_waits t' outs t'' \<Longrightarrow> timer_waits t (n # outs) t''"

section \<open>Facts\<close>

lemma re_async_wait_cancelled [simp]: "is_cancel t \<Longrightarrow> re_async_wait t = t"
  by (simp add: re_async_wait_def)

lemma on_timer_cancelled [simp]: "is_cancel t \<Longrightarrow> on_timer t = (None, t)"
  by (simp add: on_timer_def)

lemma timer_step_cancelled:
  "timer_step t out t' \<Longrightarrow> is_cancel t \<Longrightarrow> out = None \<and> is_cancel t'"
  by (erule timer_stepE) (auto simp: timer_cancel_def)

lemma timer_run_cancelled: "timer_run t outs t' \<Longrightarrow> is_cancel t \<Longrightarrow> outs = [] \<and> is_cancel t'"
  by (induction rule: timer_run.induct) (auto dest: timer_step_cancelled)

text \<open>
  Between two calls a bounded timer has at most one wait outstanding, pending or due, and none
  when its calls are used up.
\<close>

definition outstanding :: "AsyncWaitTimer \<Rightarrow> nat" where
  "outstanding t = ready t + (if armed t = None then 0 else 1)"

definition bounded_inv :: "AsyncWaitTimer \<Rightarrow> bool" where
  "bounded_inv t \<longleftrightarrow> 0 < total_times t \<and> 0 \<le> invoke_times t
     \<and> (is_cancel t \<or> (outstanding t \<le> 1 \<and> invoke_times t \<le> total_times t
          \<and> (invoke_times t = total_times t \<longrightarrow> outstanding t = 0)))"

lemma wait_step_bounded:
  assumes "timer_wait_step t out t'" and "bounded_inv t"
  shows "bounded_inv t' \<and> total_times t' = total_times t
    \<and> (case out of None \<Rightarrow> invoke_times t' = invoke_times t
       | Some n \<Rightarrow> n = invoke_times t \<and> invoke_times t' = n + 1 \<and> n < total_times t)"
  using assms
proof (cases rule: timer_wait_step.cases)
  case wait_expire
  then show ?thesis using assms(2) by (auto simp: bounded_inv_def outstanding_def)
next
  case (wait_handler n)
  then show ?thesis
    using assms(2)
    by (cases "is_cancel t")
      (auto simp: bounded_inv_def outstanding_def on_timer_def rearm_def Let_def
        split: if_splits)
next
  case wait_cancel
  then show ?thesis using assms(2) by (auto simp: bounded_inv_def timer_cancel_def)
qed

lemma waits_bounded:
  assumes "timer_waits t outs t'" and "bounded_inv t"
  shows "outs = map (\<lambda>i. invoke_times t + int i) [0..<length outs]
    \<and> invoke_times t + int (length outs) \<le> max (invoke_times t) (total_times t)"
  using assms
proof (induction rule: timer_waits.induct)
  case (w_quiet t t' outs t'')
  from wait_step_bounded [OF w_quiet.hyps(1) w_quiet.prems] w_quiet.IH show ?case by simp
next
  case (w_call t n t' outs t'')
  from wait_step_bounded [OF w_call.hyps(1) w_call.prems]
  have n: "n = invoke_times t" "invoke_times t' = n + 1" "n < total_times t" "bounded_inv t'"
    "total_times t' = total_times t" by auto
  with w_call.IH have outs: "outs = map (\<lambda>i. n + 1 + int i) [0..<length outs]"
    and le: "n + 1 + int (length outs) \<le> max (n + 1) (total_times t)" by auto
  have "n # outs = map (\<lambda>i. n + int i) [0..<length (n # outs)]"
    by (subst outs) (simp add: upt_conv_Cons map_Suc_upt [symmetric] comp_def algebra_simps del: upt_Suc map_Suc_upt)
  with n le show ?case by auto
qed simp

section \<open>Properties\<close>

text \<open>
  A timer with a positive number of repetitions, once started and left to the event loop,
  calls back with the numbers 0, 1, 2, \<dots> in order and never more often than set, however its
  expiries, handlers and a cancellation interleave.
\<close>

theorem timer_bounded_calls:
  assumes "0 < n" and "ms \<noteq> 0"
    and "timer_waits (timer_async_wait (set_wait_times n (set_immediately now
           (set_wait_millseconds ms AsyncWaitTimer_create)))) outs t'"
  shows "outs = map int [0..<length outs] \<and> int (length outs) \<le> n"
proof -
  let ?t = "timer_async_wait (set_wait_times n (set_immediately now
           (set_wait_millseconds ms AsyncWaitTimer_create)))"
  have "bounded_inv ?t" "invoke_times ?t = 0" "total_times ?t = n"
    using assms(1,2)
    by (simp_all add: bounded_inv_def outstanding_def timer_async_wait_def set_wait_times_def
        set_immediately_def set_wait_millseconds_def AsyncWaitTimer_create_def rearm_def)
  with waits_bounded [OF assms(3)] assms(1) show ?thesis by simp
qed

theorem timer_bounded_calls_witness:
  "map int [0..<length [0::int]] = [0] \<and> int (length [0::int]) \<le> 1"
proof -
  let ?t = "timer_async_wait (set_wait_times 1 (set_immediately True
           (set_wait_millseconds 5 AsyncWaitTimer_create)))"
  let ?t1 = "?t\<lparr>armed := None, ready := ready ?t + 1\<rparr>"
  have t: "?t = \<lparr>total_times = 1, dead_mill_seconds = 5, invoke_times = 0, has_wait_func = True,
      is_cancel = False, immediately = True, armed = Some 0, ready = 0\<rparr>"
    by (simp add: timer_async_wait_def set_wait_times_def set_immediately_def
        set_wait_millseconds_def AsyncWaitTimer_create_def rearm_def)
  have "timer_wait_step ?t None ?t1" by (rule wait_expire) (simp add: t)
  moreover have "timer_wait_step ?t1 (Some 0) (?t1\<lparr>ready := 0, invoke_times := 1\<rparr>)"
    by (rule wait_handler [where n = 0]) (simp_all add: t on_timer_def Let_def)
  ultimately have "timer_waits ?t [0] (?t1\<lparr>ready := 0, invoke_times := 1\<rparr>)"
    by (meson w_quiet w_call w_stop)
  from timer_bounded_calls [OF _ _ this] show ?thesis by simp
qed

text \<open>
  After \<open>cancel\<close> the callback is never called again, not even by a handler that was due
  when the timer was cancelled, and no later operation revives the timer.
\<close>

theorem timer_cancel_silent:
  assumes "timer_run (timer_cancel t) outs t'"
  shows "outs = []"
  using timer_run_cancelled [OF assms] by (simp add: timer_cancel_def)

theorem timer_cancel_silent_witness:
  "timer_run (timer_cancel AsyncWaitTimer_create) [] (timer_cancel AsyncWaitTimer_create)
     \<and> ([] :: int list) = []"
  using timer_cancel_silent [OF timer_run.stop] timer_run.stop by blast

text \<open>
  Re-arming a timer whose wait is pending completes that wait, and \<open>on_timer\<close> does not look
  at the completion's error code: the callback runs at once, before the new delay has passed.
\<close>

theorem timer_rearm_fires:
  assumes "\<not> is_cancel t" and "dead_mill_seconds t \<noteq> 0" and "has_wait_func t"
    and "armed t \<noteq> None"
  shows "\<exists>t1 t2. timer_step t None t1 \<and> t1 = re_async_wait t
    \<and> timer_step t1 (Some (invoke_times t)) t2"
proof -
  let ?t1 = "re_async_wait t"
  have r: "ready ?t1 = Suc (ready t)" and u: "has_wait_func ?t1" "\<not> is_cancel ?t1"
    "invoke_times ?t1 = invoke_times t"
    using assms by (simp_all add: re_async_wait_def rearm_def)
  obtain out t2 where o: "on_timer (?t1\<lparr>ready := ready t\<rparr>) = (out, t2)" by fastforce
  then have "out = Some (invoke_times t)" using u by (simp add: on_timer_def Let_def)
  with timer_step.handler [OF r o] timer_step.again [of t] show ?thesis by blast
qed

theorem timer_rearm_fires_witness:
  "\<exists>t1 t2. timer_step (timer_async_wait (set_wait_millseconds 5 AsyncWaitTimer_create)) None t1
    \<and> t1 = re_async_wait (timer_async_wait (set_wait_millseconds 5 AsyncWaitTimer_create))
    \<and> timer_step t1 (Some (invoke_times (timer_async_wait
          (set_wait_millseconds 5 AsyncWaitTimer_create)))) t2"
  by (rule timer_rearm_fires)
    (simp_all add: timer_async_wait_def set_wait_millseconds_def AsyncWaitTimer_create_def rearm_def)

end
