(* ===== verification/Bee_Promise.thy ===== *)
theory Bee_Promise
  imports Bee_Timer Bee_Lua_Engine
begin

text \<open>
  \<open>BeePromise\<close> and its subclasses (src/service/bee_promise.cpp, bee_promise.h): the object a
  caller waits on, or whose callback reports an asynchronous result.

  The classes are one record with the class's name in \<open>kind\<close>, on which the virtual methods
  dispatch. A \<open>std::promise\<close> is its value, once set, and whether its future was taken; setting
  it twice or taking the future twice throws, which is \<open>None\<close>. A callback is \<open>None\<close> when
  null, otherwise the opaque pointer it is called with; the calls are returned as a list.
\<close>

datatype promise_kind =
    BeePromise | BeeInitPromise | BeeAsyncInitPromise | BeeSessionPromise | BeeAsyncOpenPromise
  | BeePlayPromise | BeeReadPromise

record std_promise =
  value_set :: "BeeErrorCode option"
  future_taken :: bool

record promise =
  kind :: promise_kind
  p_session_id :: int
  honored :: bool
  sync :: bool
  p_promise :: "std_promise option"
  p_timer :: "AsyncWaitTimer option"
  p_ec2 :: int
  p_callback :: "int option"
  p_capability :: "BeeCapability list"
  p_message :: string
  read_len :: u32
  read_seq :: u32
  read_eof :: bool

text \<open>A call of \<open>BeeInitCallback\<close> or \<open>BeeOpenCallback\<close> with its arguments.\<close>

datatype promise_call = Init_Callback BeeErrorCode int int | Open_Callback int BeeErrorCode int

definition promise_new :: "promise_kind \<Rightarrow> promise" where
  "promise_new k =
     \<lparr>kind = k, p_session_id = - 1, honored = False,
      sync = (k \<noteq> BeeAsyncInitPromise \<and> k \<noteq> BeeAsyncOpenPromise),
      p_promise = None, p_timer = None,
      p_ec2 = (if k = BeePlayPromise then 0 else - 1),
      p_callback = None, p_capability = [], p_message = [], read_len = 0, read_seq = 0,
      read_eof = False\<rparr>"

definition promise_set_callback :: "int \<Rightarrow> promise \<Rightarrow> promise" where
  "promise_set_callback opaque p = p\<lparr>p_callback := Some opaque\<rparr>"

definition promise_set_session_id :: "int \<Rightarrow> promise \<Rightarrow> promise" where
  "promise_set_session_id i p = p\<lparr>p_session_id := i\<rparr>"

definition promise_set_ec2 :: "int \<Rightarrow> promise \<Rightarrow> promise" where
  "promise_set_ec2 e p = p\<lparr>p_ec2 := e\<rparr>"

definition promise_active :: "bool \<Rightarrow> int \<Rightarrow> promise \<Rightarrow> promise" where
  "promise_active ios timeout p =
     (let p1 = (if timeout > 0 \<and> ios
          then p\<lparr>p_timer := Some (timer_async_wait (set_immediately False (set_wait_times 1
                   (set_wait_millseconds timeout AsyncWaitTimer_create))))\<rparr>
          else p)
      in if sync p1 then p1\<lparr>p_promise := Some \<lparr>value_set = None, future_taken = False\<rparr>\<rparr> else p1)"

definition sync_honor :: "BeeErrorCode \<Rightarrow> promise \<Rightarrow> promise option" where
  "sync_honor ec1 p =
     (case p_promise p of
        None \<Rightarrow> Some p
      | Some c \<Rightarrow>
          if value_set c \<noteq> None then None
          else Some (p\<lparr>p_promise := Some (c\<lparr>value_set := Some ec1\<rparr>)\<rparr>))"

definition async_honor :: "BeeErrorCode \<Rightarrow> promise \<Rightarrow> promise_call list" where
  "async_honor ec1 p =
     (case p_callback p of
        None \<Rightarrow> []
      | Some opaque \<Rightarrow>
          (case kind p of
             BeeAsyncInitPromise \<Rightarrow> [Init_Callback ec1 (p_ec2 p) opaque]
           | BeeAsyncOpenPromise \<Rightarrow> [Open_Callback (p_session_id p) ec1 opaque]
           | _ \<Rightarrow> []))"

definition promise_honor ::
    "BeeErrorCode \<Rightarrow> bool \<Rightarrow> promise \<Rightarrow> (promise_call list \<times> promise) option" where
  "promise_honor ec1 reschedule p =
     (if sync p then
        (if \<not> honored p
         then (case sync_honor ec1 (p\<lparr>p_timer := None\<rparr>) of
                 None \<Rightarrow> None
               | Some p1 \<Rightarrow> Some ([], p1\<lparr>honored := True\<rparr>))
         else Some ([], p))
      else
        (let p1 = (case p_timer p of
               None \<Rightarrow> p
             | Some t \<Rightarrow> if reschedule then p\<lparr>p_timer := Some (re_async_wait t)\<rparr>
                          else p\<lparr>p_timer := None\<rparr>)
         in Some (async_honor ec1 p1, p1)))"

definition promise_give_up :: "promise \<Rightarrow> (promise_call list \<times> promise) option" where
  "promise_give_up p =
     (case kind p of
        BeeAsyncInitPromise \<Rightarrow>
          Some (case p_callback p of None \<Rightarrow> []
                | Some opaque \<Rightarrow> [Init_Callback kBeeErrorCode_Give_Up (- 1) opaque], p)
      | BeeAsyncOpenPromise \<Rightarrow>
          Some (case p_callback p of None \<Rightarrow> []
                | Some opaque \<Rightarrow> [Open_Callback (- 1) kBeeErrorCode_Give_Up opaque], p)
      | _ \<Rightarrow> promise_honor kBeeErrorCode_Give_Up False p)"

definition handle_timeout :: "promise \<Rightarrow> (promise_call list \<times> promise) option" where
  "handle_timeout p = promise_honor kBeeErrorCode_Timeout False p"

text \<open>
  \<open>wait\<close>: what it answers in the state the promise has when it may return. \<open>Blocked\<close> is a
  \<open>get()\<close> whose value is not there yet.
\<close>

datatype wait_result = Answer BeeErrorCode | Blocked | Thrown

definition promise_wait :: "promise \<Rightarrow> wait_result \<times> promise" where
  "promise_wait p =
     (if kind p = BeeAsyncInitPromise \<or> kind p = BeeAsyncOpenPromise
      then (Answer kBeeErrorCode_Success, p)
      else if sync p then
        (case p_promise p of
           None \<Rightarrow> (Answer kBeeErrorCode_Null_Pointer, p)
         | Some c \<Rightarrow>
             if future_taken c then (Thrown, p)
             else (case value_set c of None \<Rightarrow> Blocked | Some ec \<Rightarrow> Answer ec,
                   p\<lparr>p_promise := Some (c\<lparr>future_taken := True\<rparr>)\<rparr>))
      else (Answer kBeeErrorCode_Not_Implemented, p))"

text \<open>\<open>wait_for\<close>: \<open>p\<close> is the promise when the value is there or the time is over.\<close>

definition promise_wait_for :: "promise \<Rightarrow> wait_result \<times> promise" where
  "promise_wait_for p =
     (if sync p then
        (case p_promise p of
           None \<Rightarrow> (Answer kBeeErrorCode_Null_Pointer, p)
         | Some c \<Rightarrow>
             if future_taken c then (Thrown, p)
             else (Answer (if value_set c \<noteq> None then kBeeErrorCode_Success else kBeeErrorCode_Timeout),
                   p\<lparr>p_promise := Some (c\<lparr>future_taken := True\<rparr>)\<rparr>))
      else (Answer kBeeErrorCode_Not_Implemented, p))"

section \<open>Being honoured from several sides\<close>

text \<open>
  The event loop and the caller may honour one promise several times: a result, its timeout, a
  give-up.
\<close>

datatype promise_event = Ev_Honor BeeErrorCode bool | Ev_Give_Up | Ev_Timeout

definition event_code :: "promise_event \<Rightarrow> BeeErrorCode" where
  "event_code ev = (case ev of Ev_Honor ec _ \<Rightarrow> ec | Ev_Give_Up \<Rightarrow> kBeeErrorCode_Give_Up
     | Ev_Timeout \<Rightarrow> kBeeErrorCode_Timeout)"

definition promise_event :: "promise_event \<Rightarrow> promise \<Rightarrow> (promise_call list \<times> promise) option" where
  "promise_event ev p =
     (case ev of
        Ev_Honor ec r \<Rightarrow> promise_honor ec r p
      | Ev_Give_Up \<Rightarrow> promise_give_up p
      | Ev_Timeout \<Rightarrow> handle_timeout p)"

fun promise_events ::
    "promise_event list \<Rightarrow> promise \<Rightarrow> (promise_call list \<times> promise) option" where
  "promise_events [] p = Some ([], p)"
| "promise_events (ev # evs) p =
     (case promise_event ev p of
        None \<Rightarrow> None
      | Some (out, p') \<Rightarrow>
          (case promise_events evs p' of None \<Rightarrow> None
           | Some (outs, p'') \<Rightarrow> Some (out @ outs, p'')))"

definition sync_kind :: "promise_kind \<Rightarrow> bool" where
  "sync_kind k \<longleftrightarrow> k \<noteq> BeeAsyncInitPromise \<and> k \<noteq> BeeAsyncOpenPromise"

definition settled :: "BeeErrorCode \<Rightarrow> promise \<Rightarrow> bool" where
  "settled ec p \<longleftrightarrow> sync p \<and> sync_kind (kind p) \<and> honored p
     \<and> p_promise p = Some \<lparr>value_set = Some ec, future_taken = False\<rparr>"

lemma promise_event_sync:
  assumes "sync p" and "sync_kind (kind p)"
  shows "promise_event ev p = promise_honor (event_code ev)
    (case ev of Ev_Honor _ r \<Rightarrow> r | _ \<Rightarrow> False) p"
  using assms
  by (cases ev; cases "kind p")
    (simp_all add: promise_event_def event_code_def promise_give_up_def handle_timeout_def
      sync_kind_def)

lemma settled_stays: "settled ec p \<Longrightarrow> promise_events evs p = Some ([], p)"
proof (induction evs)
  case (Cons ev evs)
  then have "promise_event ev p = Some ([], p)"
    by (simp add: settled_def promise_event_sync promise_honor_def)
  with Cons show ?case by simp
qed simp

lemma honor_fresh:
  assumes "sync p" "sync_kind (kind p)" "\<not> honored p"
    "p_promise p = Some \<lparr>value_set = None, future_taken = False\<rparr>"
  shows "\<exists>p'. promise_honor ec r p = Some ([], p') \<and> settled ec p'"
  using assms by (simp add: promise_honor_def sync_honor_def settled_def)

text \<open>
  C28: a synchronous promise that was activated answers the first code it is honoured with,
  whatever honours it afterwards (a later result, its timeout, a give-up), without an exception
  and without calling a callback; before that, waiting blocks.
\<close>

theorem promise_first_honor_wins:
  assumes "sync_kind k" and "p = promise_active ios timeout (promise_new k)"
  shows "fst (promise_wait p) = Blocked
    \<and> (\<exists>p'. promise_events (ev # evs) p = Some ([], p')
         \<and> fst (promise_wait p') = Answer (event_code ev))"
proof -
  have p: "sync p" "sync_kind (kind p)" "\<not> honored p" "kind p = k"
    "p_promise p = Some \<lparr>value_set = None, future_taken = False\<rparr>"
    using assms by (simp_all add: promise_active_def promise_new_def sync_kind_def Let_def)
  have "\<exists>p'. promise_event ev p = Some ([], p') \<and> settled (event_code ev) p'"
    using honor_fresh [OF p(1,2,3,5)] by (simp add: promise_event_sync [OF p(1,2)])
  then obtain p' where p': "promise_event ev p = Some ([], p')" "settled (event_code ev) p'" by blast
  then have "promise_events (ev # evs) p = Some ([], p')" by (simp add: settled_stays)
  moreover have "fst (promise_wait p') = Answer (event_code ev)"
    using p'(2) by (auto simp: settled_def promise_wait_def sync_kind_def)
  moreover have "fst (promise_wait p) = Blocked"
    using p by (auto simp: promise_wait_def sync_kind_def)
  ultimately show ?thesis by blast
qed

theorem promise_first_honor_wins_witness:
  "\<exists>p'. promise_events [Ev_Honor kBeeErrorCode_Success False, Ev_Timeout]
      (promise_active True 100 (promise_new BeeSessionPromise)) = Some ([], p')
    \<and> fst (promise_wait p') = Answer kBeeErrorCode_Success"
  using promise_first_honor_wins [OF _ refl, of BeeSessionPromise True 100
      "Ev_Honor kBeeErrorCode_Success False" "[Ev_Timeout]"]
  by (simp add: sync_kind_def event_code_def)

text \<open>
  An asynchronous open promise calls its callback once for every honour, give-up or timeout,
  in order, each time with the code of that event and its session id (-1 for a give-up): nothing
  of a synchronous promise's once-only guard applies, and \<open>wait\<close> never blocks on it.
\<close>

theorem async_open_calls_each:
  assumes "p = promise_set_session_id i (promise_set_callback opaque
       (promise_active ios timeout (promise_new BeeAsyncOpenPromise)))"
  shows "\<exists>p'. promise_events evs p = Some (map (\<lambda>ev. Open_Callback
        (if ev = Ev_Give_Up then - 1 else i) (event_code ev) opaque) evs, p')
    \<and> fst (promise_wait p') = Answer kBeeErrorCode_Success"
proof -
  have gen: "\<exists>p'. promise_events evs q = Some (map (\<lambda>ev. Open_Callback
        (if ev = Ev_Give_Up then - 1 else i) (event_code ev) opaque) evs, p')
      \<and> kind p' = BeeAsyncOpenPromise"
    if "kind q = BeeAsyncOpenPromise" "\<not> sync q" "p_callback q = Some opaque" "p_session_id q = i"
    for q
    using that
  proof (induction evs arbitrary: q)
    case (Cons ev evs)
    have "\<exists>q'. promise_event ev q = Some ([Open_Callback
          (if ev = Ev_Give_Up then - 1 else i) (event_code ev) opaque], q')
        \<and> kind q' = BeeAsyncOpenPromise \<and> \<not> sync q' \<and> p_callback q' = Some opaque
        \<and> p_session_id q' = i"
      using Cons.prems
      by (cases ev; cases "p_timer q")
        (simp_all add: promise_event_def event_code_def promise_give_up_def handle_timeout_def
          promise_honor_def async_honor_def Let_def)
    then obtain q' where q': "promise_event ev q = Some ([Open_Callback
          (if ev = Ev_Give_Up then - 1 else i) (event_code ev) opaque], q')"
        "kind q' = BeeAsyncOpenPromise" "\<not> sync q'" "p_callback q' = Some opaque"
        "p_session_id q' = i" by blast
    from Cons.IH [OF q'(2-5)] q'(1) show ?case by auto
  qed simp
  have "kind p = BeeAsyncOpenPromise" "\<not> sync p" "p_callback p = Some opaque" "p_session_id p = i"
    unfolding assms
    by (simp_all add: promise_set_session_id_def promise_set_callback_def promise_active_def
        promise_new_def Let_def)
  from gen [OF this] show ?thesis by (auto simp: promise_wait_def)
qed

theorem async_open_calls_each_witness:
  "\<exists>p'. promise_events [Ev_Honor kBeeErrorCode_Success False]
      (promise_set_session_id 3 (promise_set_callback 9
         (promise_active True (- 1) (promise_new BeeAsyncOpenPromise))))
    = Some ([Open_Callback 3 kBeeErrorCode_Success 9], p')"
  using async_open_calls_each [OF refl, of "[Ev_Honor kBeeErrorCode_Success False]" 3 9 True "- 1"]
  by (auto simp: event_code_def)

end
