(* ===== verification/Bee_Entrance.thy ===== *)
theory Bee_Entrance
  imports Bee_Session Bee_Promise
begin

text \<open>
  \<open>BeeEntrance\<close> (src/service/bee_entrance.cpp) and the facade \<open>Bee\<close>
  (src/api/bee/base/bee.cpp): starting and stopping the service, the handlers that run on the
  service's event loop, and the calls that post them and wait for their promise.

  Other components are reached through what the entrance keeps of them: the session manager and
  the promises are their models; of the CA client it keeps whether there is one, of the statusd
  client whether there is one and whether it is logged in. The calls it makes on those and on the
  platform are the list of \<open>entrance_effect\<close>. A synchronous call is its handler followed by
  \<open>wait\<close>: the loop has one thread and runs the posted handlers in order.

  \<open>entrance_env\<close> holds what comes from outside: the scripting engine, the order of
  \<open>unordered_map\<close>, the random numbers, the version macro, the local script file (\<open>None\<close>
  when it cannot be opened).
\<close>

section \<open>State\<close>

abbreviation (input) kBeeSvcInput_DoInit :: int where "kBeeSvcInput_DoInit \<equiv> 0"
abbreviation (input) kBeeSvcInput_InitDone :: int where "kBeeSvcInput_InitDone \<equiv> 1"
abbreviation (input) kBeeSvcInput_Get_Core :: int where "kBeeSvcInput_Get_Core \<equiv> 2"
abbreviation (input) kBeeSvcInput_Got_Core :: int where "kBeeSvcInput_Got_Core \<equiv> 3"
abbreviation (input) kBeeSvcInput_Execute :: int where "kBeeSvcInput_Execute \<equiv> 4"
abbreviation (input) kBeeSvcInput_DoUninit :: int where "kBeeSvcInput_DoUninit \<equiv> 5"
abbreviation (input) kBeeSvcInput_UninitDone :: int where "kBeeSvcInput_UninitDone \<equiv> 6"
abbreviation (input) kBeeSvcInput_Count :: int where "kBeeSvcInput_Count \<equiv> 7"

abbreviation (input) kBeeSvcState_Idle :: int where "kBeeSvcState_Idle \<equiv> 0"
abbreviation (input) kBeeSvcState_Initializing :: int where "kBeeSvcState_Initializing \<equiv> 1"
abbreviation (input) kBeeSvcState_Initializd :: int where "kBeeSvcState_Initializd \<equiv> 2"
abbreviation (input) kBeeSvcState_Getting_Core :: int where "kBeeSvcState_Getting_Core \<equiv> 3"
abbreviation (input) kBeeSvcState_Ready :: int where "kBeeSvcState_Ready \<equiv> 4"
abbreviation (input) kBeeSvcState_Unitializing :: int where "kBeeSvcState_Unitializing \<equiv> 5"
abbreviation (input) kBeeSvcState_Count :: int where "kBeeSvcState_Count \<equiv> 6"

definition kLuaUpdateInterval :: int where
  "kLuaUpdateInterval = 300"

definition kStatusdCheckInterval :: int where
  "kStatusdCheckInterval = 10000"

definition drm_lua_name :: string where
  "drm_lua_name = ''new_live''"

definition local_drm_lua_name :: string where
  "local_drm_lua_name = ''local''"

record BeeSystemParam =
  bp_platform_type :: int
  bp_net_type :: int
  bp_app_name :: "string option"
  bp_app_version :: "string option"
  bp_system_info :: "string option"
  bp_machine_code :: "string option"
  bp_log_path :: "string option"
  bp_log_level :: int
  bp_log_max_line :: int
  bp_log_volume_count :: int
  bp_log_volume_size :: int
  bp_session_count :: nat
  bp_enable_statusd :: bool
  bp_video_encoder_hw :: bool
  bp_video_decoder_hw :: bool
  bp_custom_audio_source :: bool

datatype entrance_effect =
    Init_SSL | Clear_SSL
  | Log_Open string int int int int bool | Log_Close
  | Webrtc_Init bool bool bool | Webrtc_Uninit
  | Post_Close_CA | CA_Request int | CA_Stop
  | Statusd_Connect string | Statusd_Stop | Statusd_Set_Sid string bool
  | Statusd_Configure_Log int u64 | Statusd_Write_Log string
  | Cleanup_Crypto | Sink_Log string

record BeeEntrance =
  ent_fsm :: simple_fsm
  io_service :: bool
  session_mgr :: "SessionManager option"
  ca_client :: bool
  statusd_client :: "bool option"  \<comment> \<open>logged in or not\<close>
  init_promise :: "promise option"
  ent_lua :: string
  ent_lua_name :: string
  ent_lua_md5 :: string
  gslb_key :: string
  gslb_ts :: u64
  lua_update_timer :: "AsyncWaitTimer option"
  statusd_timer :: "AsyncWaitTimer option"
  sys_param :: SystemParam
  root_certificate_path :: string
  statusd_check_interval :: int
  current_live_session_id :: string
  ent_sink :: bool

record entrance_env =
  env_api :: lua_api
  env_begin :: "SessionTable \<Rightarrow> int"
  env_random :: "nat \<Rightarrow> nat"
  env_version :: string
  env_local_lua :: "string option"

definition SystemParam_default :: "string \<Rightarrow> SystemParam" where
  "SystemParam_default kBeeVersion =
     \<lparr>platform_type = 0, net_type = 0, app_name = [], app_version = [], bee_version = kBeeVersion,
      system_info = [], machine_code = [], log_path = [], log_level = 4, log_max_line = 0,
      log_volume_count = 0, log_volume_size = 0, session_count = 0, enable_statusd = False\<rparr>"

text \<open>The table \<open>init_state_machine\<close> fills; here \<open>kInvalidState\<close> is -1.\<close>

definition entrance_table :: "int list list" where
  "entrance_table = set_entries
     [(0, 0, kBeeSvcState_Initializing),
      (1, 1, kBeeSvcState_Initializd),
      (1, 5, kBeeSvcState_Unitializing),
      (2, 2, kBeeSvcState_Getting_Core),
      (2, 5, kBeeSvcState_Unitializing),
      (3, 3, kBeeSvcState_Ready),
      (3, 5, kBeeSvcState_Unitializing),
      (4, 4, kBeeSvcState_Ready),
      (4, 3, kBeeSvcState_Ready),
      (4, 5, kBeeSvcState_Unitializing),
      (5, 6, kBeeSvcState_Idle)]
     (fill_table 6 7 kInvalidSimpleState)"

text \<open>The object \<open>instance()\<close> makes: constructed, with its table filled.\<close>

definition BeeEntrance_new :: "string \<Rightarrow> BeeEntrance" where
  "BeeEntrance_new ver =
     \<lparr>ent_fsm = (SimpleStateMachine kBeeSvcState_Count kBeeSvcInput_Count)
        \<lparr>state_machine := entrance_table\<rparr>,
      io_service = False, session_mgr = None, ca_client = False, statusd_client = None,
      init_promise = None, ent_lua = [], ent_lua_name = drm_lua_name, ent_lua_md5 = [],
      gslb_key = [], gslb_ts = 0, lua_update_timer = None, statusd_timer = None,
      sys_param = SystemParam_default ver, root_certificate_path = [],
      statusd_check_interval = kStatusdCheckInterval, current_live_session_id = [],
      ent_sink = False\<rparr>"

definition ent_switch :: "int \<Rightarrow> BeeEntrance \<Rightarrow> (bool \<times> BeeEntrance) option" where
  "ent_switch ev e = map_option (\<lambda>(ok, m). (ok, e\<lparr>ent_fsm := m\<rparr>)) (switch_state ev (ent_fsm e))"

definition ent_reset :: "BeeEntrance \<Rightarrow> BeeEntrance" where
  "ent_reset e = e\<lparr>ent_fsm := reset_state (ent_fsm e)\<rparr>"

definition or_empty :: "string option \<Rightarrow> string" where
  "or_empty p = (case p of None \<Rightarrow> [] | Some s \<Rightarrow> s)"

definition save_param :: "BeeSystemParam \<Rightarrow> bool \<Rightarrow> BeeEntrance \<Rightarrow> BeeEntrance" where
  "save_param p sink e =
     e\<lparr>sys_param := (sys_param e)
         \<lparr>platform_type := bp_platform_type p, net_type := bp_net_type p,
          app_name := or_empty (bp_app_name p), app_version := or_empty (bp_app_version p),
          system_info := or_empty (bp_system_info p), machine_code := or_empty (bp_machine_code p),
          log_level := bp_log_level p, log_max_line := bp_log_max_line p,
          log_volume_count := bp_log_volume_count p, log_volume_size := bp_log_volume_size p,
          log_path := or_empty (bp_log_path p), session_count := bp_session_count p,
          enable_statusd := bp_enable_statusd p\<rparr>,
       ent_sink := sink\<rparr>"

definition load_default_lua :: "entrance_env \<Rightarrow> BeeEntrance \<Rightarrow> bool \<times> BeeEntrance" where
  "load_default_lua env e =
     (case env_local_lua env of None \<Rightarrow> (False, e) | Some s \<Rightarrow> (True, e\<lparr>ent_lua := s\<rparr>))"

definition check_ios :: "BeeEntrance \<Rightarrow> bool" where
  "check_ios e \<longleftrightarrow> io_service e"

section \<open>Timers\<close>

definition start_lua_update_timer :: "int \<Rightarrow> BeeEntrance \<Rightarrow> (bool \<times> BeeEntrance) option" where
  "start_lua_update_timer timeout e =
     (if io_service e then
        (case set_wait_seconds kLuaUpdateInterval AsyncWaitTimer_create of
           None \<Rightarrow> None
         | Some t \<Rightarrow> Some (True, e\<lparr>lua_update_timer :=
             Some (timer_async_wait (set_immediately True (set_wait_times (- 1) t)))\<rparr>))
      else Some (False, e))"

definition stop_lua_update_timer :: "BeeEntrance \<Rightarrow> BeeEntrance" where
  "stop_lua_update_timer e = e\<lparr>lua_update_timer := None\<rparr>"

definition handle_lua_update_timeout ::
    "int \<Rightarrow> BeeEntrance \<Rightarrow> entrance_effect list \<times> BeeEntrance" where
  "handle_lua_update_timeout timeout e =
     (if io_service e then ([CA_Request timeout], e\<lparr>ca_client := True\<rparr>) else ([], e))"

definition start_statusd_timer :: "bool \<Rightarrow> BeeEntrance \<Rightarrow> (bool \<times> BeeEntrance) option" where
  "start_statusd_timer now e =
     (let e1 = e\<lparr>statusd_timer := None\<rparr>
      in if \<not> enable_statusd (sys_param e1) then Some (False, e1)
         else if io_service e1 then
           (case set_wait_seconds (statusd_check_interval e1) AsyncWaitTimer_create of
              None \<Rightarrow> None
            | Some t \<Rightarrow> Some (True, e1\<lparr>statusd_timer :=
                Some (timer_async_wait (set_immediately now (set_wait_times (- 1) t)))\<rparr>))
         else Some (False, e1))"

definition stop_statusd_timer :: "BeeEntrance \<Rightarrow> BeeEntrance" where
  "stop_statusd_timer e = e\<lparr>statusd_timer := None\<rparr>"

definition is_statusd_logined :: "BeeEntrance \<Rightarrow> bool" where
  "is_statusd_logined e \<longleftrightarrow> statusd_client e = Some True"

definition close_statusd_client :: "BeeEntrance \<Rightarrow> entrance_effect list \<times> BeeEntrance" where
  "close_statusd_client e =
     (case statusd_client e of None \<Rightarrow> ([], e) | Some _ \<Rightarrow> ([Statusd_Stop], e\<lparr>statusd_client := None\<rparr>))"

definition handle_statusd_timeout :: "BeeEntrance \<Rightarrow> entrance_effect list \<times> BeeEntrance" where
  "handle_statusd_timeout e =
     (if \<not> io_service e \<or> \<not> enable_statusd (sys_param e) \<or> is_statusd_logined e then ([], e)
      else case close_statusd_client e of (out, e1) \<Rightarrow>
        (out @ [Statusd_Connect (machine_code (sys_param e1))], e1\<lparr>statusd_client := Some False\<rparr>))"

definition close_ca_client :: "BeeEntrance \<Rightarrow> entrance_effect list \<times> BeeEntrance" where
  "close_ca_client e = (if ca_client e then ([CA_Stop], e\<lparr>ca_client := False\<rparr>) else ([], e))"

definition configure_net_log :: "int \<Rightarrow> u64 \<Rightarrow> BeeEntrance \<Rightarrow> entrance_effect list" where
  "configure_net_log level time_base e =
     (if statusd_client e = None then [] else [Statusd_Configure_Log level time_base])"

definition write_net_log :: "string \<Rightarrow> BeeEntrance \<Rightarrow> entrance_effect list" where
  "write_net_log log e = (if is_statusd_logined e then [Statusd_Write_Log log] else [])"

definition on_log :: "string \<Rightarrow> BeeEntrance \<Rightarrow> entrance_effect list" where
  "on_log log e = (if ent_sink e then [Sink_Log log] else [])"

section \<open>Starting and stopping\<close>

text \<open>
  Honouring the promise of \<open>start\<close> and dropping it; it is a \<open>BeeInitPromise\<close>, which makes no
  callback.
\<close>

definition honor_init :: "BeeErrorCode \<Rightarrow> BeeEntrance \<Rightarrow> BeeEntrance option" where
  "honor_init ret e =
     (case init_promise e of
        None \<Rightarrow> Some e
      | Some p \<Rightarrow>
          (case promise_honor ret False p of
             None \<Rightarrow> None
           | Some _ \<Rightarrow> Some (e\<lparr>init_promise := None\<rparr>)))"

definition start_failed :: "BeeErrorCode \<Rightarrow> entrance_effect list \<Rightarrow> BeeEntrance
    \<Rightarrow> (BeeErrorCode \<times> entrance_effect list \<times> BeeEntrance) option" where
  "start_failed ret out e =
     (case honor_init ret e of None \<Rightarrow> None
      | Some e1 \<Rightarrow> Some (ret, out, stop_lua_update_timer e1))"

text \<open>
  \<open>start\<close> as compiled with \<open>FORCE_LOCAL_LUA\<close>, which the function itself defines. Its last
  part, from the loading of the script on, is \<open>start_core\<close>.
\<close>

definition start_core ::
    "entrance_env \<Rightarrow> BeeSystemParam \<Rightarrow> entrance_effect list \<Rightarrow> BeeEntrance
      \<Rightarrow> (BeeErrorCode \<times> entrance_effect list \<times> BeeEntrance) option" where
  "start_core env param out e6 =
     (case load_default_lua env e6 of
        (False, e7) \<Rightarrow> start_failed kBeeErrorCode_Engine_Script_Error out e7
      | (True, e7) \<Rightarrow>
        (case ent_switch kBeeSvcInput_Get_Core e7 of
           None \<Rightarrow> None
         | Some (False, e8) \<Rightarrow> start_failed kBeeErrorCode_Invalid_State out e8
         | Some (True, e8) \<Rightarrow>
           (case ent_switch kBeeSvcInput_Got_Core e8 of
              None \<Rightarrow> None
            | Some (False, e9) \<Rightarrow> start_failed kBeeErrorCode_Invalid_State out e9
            | Some (True, e9) \<Rightarrow>
                Some (kBeeErrorCode_Success,
                  out @ [Webrtc_Init (bp_video_encoder_hw param)
                    (bp_video_decoder_hw param) (bp_custom_audio_source param)], e9))))"

definition entrance_start ::
    "entrance_env \<Rightarrow> BeeSystemParam \<Rightarrow> bool \<Rightarrow> int \<Rightarrow> BeeEntrance
      \<Rightarrow> (BeeErrorCode \<times> entrance_effect list \<times> BeeEntrance) option" where
  "entrance_start env param sink timeout e =
     (let e1 = save_param param sink e;
          out = [Init_SSL, Log_Open (or_empty (bp_log_path param)) (bp_log_level param)
                   (bp_log_max_line param) (bp_log_volume_count param) (bp_log_volume_size param)
                   sink]
      in case ent_switch kBeeSvcInput_DoInit e1 of
           None \<Rightarrow> None
         | Some (False, e2) \<Rightarrow> start_failed kBeeErrorCode_Invalid_State out e2
         | Some (True, e2) \<Rightarrow>
           (let e3 = (case session_mgr e2 of
                  Some _ \<Rightarrow> e2
                | None \<Rightarrow> e2\<lparr>session_mgr := Some (snd (session_manager_init
                     (session_count (sys_param e2)) SessionManager_new))\<rparr>);
                e4 = e3\<lparr>io_service := True\<rparr>
            in case (if enable_statusd (sys_param e4)
                     then map_option snd (start_statusd_timer True e4) else Some e4) of
                 None \<Rightarrow> None
               | Some e5 \<Rightarrow>
            (case ent_switch kBeeSvcInput_InitDone e5 of
               None \<Rightarrow> None
             | Some (False, e6) \<Rightarrow> start_failed kBeeErrorCode_Invalid_State out e6
             | Some (True, e6) \<Rightarrow> start_core env param out (e6\<lparr>init_promise :=
                 Some (promise_active True timeout (promise_new BeeInitPromise))\<rparr>))))"

definition force_stop :: "BeeEntrance \<Rightarrow> (entrance_effect list \<times> BeeEntrance) option" where
  "force_stop e =
     (let e1 = stop_statusd_timer (stop_lua_update_timer e)
      in case (case session_mgr e1 of
             None \<Rightarrow> Some e1
           | Some m \<Rightarrow> map_option (\<lambda>_. e1\<lparr>session_mgr := None\<rparr>) (session_manager_uninit m)) of
           None \<Rightarrow> None
         | Some e2 \<Rightarrow>
             (let e3 = e2\<lparr>io_service := False\<rparr>;
                  (out1, e4) = close_ca_client e3;
                  (out2, e5) = close_statusd_client e4
              in Some ([Webrtc_Uninit] @ out1 @ out2 @ [Cleanup_Crypto, Log_Close], ent_reset e5)))"

definition entrance_stop ::
    "BeeEntrance \<Rightarrow> (BeeErrorCode \<times> entrance_effect list \<times> BeeEntrance) option" where
  "entrance_stop e =
     (case ent_switch kBeeSvcInput_DoUninit e of
        None \<Rightarrow> None
      | Some (False, e1) \<Rightarrow> Some (kBeeErrorCode_Invalid_State, [], e1)
      | Some (True, e1) \<Rightarrow>
          (case force_stop e1 of None \<Rightarrow> None
           | Some (out, e2) \<Rightarrow> Some (kBeeErrorCode_Success, out @ [Clear_SSL], e2)))"

section \<open>The script from the CA server\<close>

definition check_lua_md5 ::
    "string \<Rightarrow> BeeEntrance \<Rightarrow> (bool \<times> entrance_effect list \<times> BeeEntrance) option" where
  "check_lua_md5 md5 e =
     (if md5 = [] \<or> md5 \<noteq> ent_lua_md5 e then Some (False, [], e)
      else case ent_switch kBeeSvcInput_Got_Core e of
          None \<Rightarrow> None
        | Some (_, e1) \<Rightarrow>
            (case honor_init kBeeErrorCode_Success (e1\<lparr>init_promise :=
                 map_option (promise_set_ec2 0) (init_promise e1)\<rparr>) of
               None \<Rightarrow> None
             | Some e2 \<Rightarrow> if io_service e2 then Some (True, [Post_Close_CA], e2) else None))"

text \<open>\<open>ec2\<close> is the value of the \<open>error_code\<close>, 0 for none.\<close>

definition handle_ca_data ::
    "entrance_env \<Rightarrow> BeeErrorCode \<Rightarrow> int \<Rightarrow> string \<Rightarrow> string \<Rightarrow> string \<Rightarrow> u64 \<Rightarrow> BeeEntrance
      \<Rightarrow> (entrance_effect list \<times> BeeEntrance) option" where
  "handle_ca_data env ec1 ec2 lua md5 key ts e =
     (case
        (if ec1 = kBeeErrorCode_Success \<and> ec2 = 0 then
           (case ent_switch kBeeSvcInput_Got_Core e of
              None \<Rightarrow> None
            | Some (_, e1) \<Rightarrow> Some (ec1, ec2, e1\<lparr>ent_lua := lua, ent_lua_name := drm_lua_name,
                 ent_lua_md5 := md5, gslb_key := key, gslb_ts := ts\<rparr>))
         else if ent_lua e = [] then
           (case load_default_lua env e of
              (True, e1) \<Rightarrow>
                (case ent_switch kBeeSvcInput_Got_Core e1 of
                   None \<Rightarrow> None
                 | Some (_, e2) \<Rightarrow>
                     Some (kBeeErrorCode_Success, 0, e2\<lparr>ent_lua_name := local_drm_lua_name\<rparr>))
            | (False, e1) \<Rightarrow> Some (ec1, ec2, stop_lua_update_timer (ent_reset e1)))
         else Some (ec1, ec2, e)) of
        None \<Rightarrow> None
      | Some (ret1, ret2, e3) \<Rightarrow>
          (case honor_init ret1 (e3\<lparr>init_promise := map_option (promise_set_ec2 ret2) (init_promise e3)\<rparr>) of
             None \<Rightarrow> None
           | Some e4 \<Rightarrow> if io_service e4 then Some ([Post_Close_CA], e4) else None))"

section \<open>Handlers on the event loop\<close>

text \<open>
  A handler's result: the effects on other components, the calls of the promise's callback, the
  promise and the entrance. \<open>honor_with\<close> is the \<open>if (promise != NULL) promise->honor(ret)\<close>
  that ends each of them.
\<close>

type_synonym handled = "entrance_effect list \<times> promise_call list \<times> promise option \<times> BeeEntrance"

definition honor_with ::
    "BeeErrorCode \<Rightarrow> entrance_effect list \<Rightarrow> promise option \<Rightarrow> BeeEntrance \<Rightarrow> handled option" where
  "honor_with ret out promise e =
     (case promise of
        None \<Rightarrow> Some (out, [], None, e)
      | Some p \<Rightarrow>
          (case promise_honor ret False p of
             None \<Rightarrow> None
           | Some (calls, p') \<Rightarrow> Some (out, calls, Some p', e)))"

definition do_open_session ::
    "entrance_env \<Rightarrow> promise option \<Rightarrow> BeeEntrance \<Rightarrow> handled option" where
  "do_open_session env promise e =
     (case promise of
        None \<Rightarrow> Some ([], [], None, e)
      | Some p \<Rightarrow>
          (case ent_switch kBeeSvcInput_Execute e of
             None \<Rightarrow> None
           | Some (False, e1) \<Rightarrow> honor_with kBeeErrorCode_Invalid_State [] promise e1
           | Some (True, e1) \<Rightarrow>
             (case session_mgr e1 of
                None \<Rightarrow> honor_with kBeeErrorCode_Null_Pointer [] promise e1
              | Some m \<Rightarrow>
                if \<not> io_service e1 then None
                else (case open_idle_session (env_api env) (env_begin env) (env_random env)
                    (env_version env) (Some 0) (sys_param e1) drm_lua_name (ent_lua e1)
                    (current_live_session_id e1) [] m of
                    None \<Rightarrow> None
                  | Some (sid, ret, live, cap, m') \<Rightarrow>
                    (let e2 = e1\<lparr>session_mgr := Some m', current_live_session_id := live\<rparr>
                     in if sid = - 1 then honor_with ret [] promise e2
                        else honor_with ret
                          (if statusd_client e2 = None then [] else [Statusd_Set_Sid live True])
                          (Some (p\<lparr>p_session_id := sid, p_capability := cap\<rparr>)) e2)))))"

definition do_close_session :: "int \<Rightarrow> promise option \<Rightarrow> BeeEntrance \<Rightarrow> handled option" where
  "do_close_session handle promise e =
     (case ent_switch kBeeSvcInput_Execute e of
        None \<Rightarrow> None
      | Some (False, e1) \<Rightarrow> honor_with kBeeErrorCode_Invalid_State [] promise e1
      | Some (True, e1) \<Rightarrow>
        (case session_mgr e1 of
           None \<Rightarrow> honor_with kBeeErrorCode_Null_Pointer [] promise e1
         | Some m \<Rightarrow>
           (case close_busy_session handle m of
              None \<Rightarrow> None
            | Some (_, m') \<Rightarrow>
              honor_with kBeeErrorCode_Success
                (if statusd_client e1 = None then [] else [Statusd_Set_Sid [] False])
                promise (e1\<lparr>session_mgr := Some m', current_live_session_id := []\<rparr>))))"

definition do_execute ::
    "entrance_env \<Rightarrow> int \<Rightarrow> int \<Rightarrow> string \<Rightarrow> string \<Rightarrow> promise option \<Rightarrow> BeeEntrance \<Rightarrow> handled option" where
  "do_execute env handle code cmd args promise e =
     (case promise of
        None \<Rightarrow> Some ([], [], None, e)
      | Some p \<Rightarrow>
          (case ent_switch kBeeSvcInput_Execute e of
             None \<Rightarrow> None
           | Some (False, e1) \<Rightarrow> honor_with kBeeErrorCode_Invalid_State [] promise e1
           | Some (True, e1) \<Rightarrow>
             (case session_mgr e1 of
                None \<Rightarrow> honor_with kBeeErrorCode_Null_Pointer [] promise e1
              | Some m \<Rightarrow>
                (case get_busy_session handle m of
                   None \<Rightarrow> honor_with kBeeErrorCode_Invalid_Session [] promise e1
                 | Some i \<Rightarrow>
                   (case session_execute (env_api env) code cmd args (all_sessions m ! i) of
                      None \<Rightarrow> None
                    | Some (ret, s') \<Rightarrow>
                        honor_with ret [] promise
                          (e1\<lparr>session_mgr := Some (put_session i s' m)\<rparr>))))))"

text \<open>\<open>session_mgr_\<close> is dereferenced without a check here.\<close>

definition do_with_service ::
    "(BeeService option \<Rightarrow> BeeSession \<Rightarrow> BeeErrorCode \<times> BeeSession)
      \<Rightarrow> BeeService option \<Rightarrow> promise option \<Rightarrow> BeeEntrance \<Rightarrow> handled option" where
  "do_with_service oper svc promise e =
     (case svc of
        None \<Rightarrow> honor_with kBeeErrorCode_Invalid_Param [] promise e
      | Some v \<Rightarrow>
          (case session_mgr e of
             None \<Rightarrow> None
           | Some m \<Rightarrow>
             (case get_busy_session (svc_handle v) m of
                None \<Rightarrow> honor_with kBeeErrorCode_Invalid_Session [] promise e
              | Some i \<Rightarrow>
                (case oper svc (all_sessions m ! i) of
                   (ret, s') \<Rightarrow> honor_with ret [] promise
                     (e\<lparr>session_mgr := Some (put_session i s' m)\<rparr>)))))"

definition do_reg_svc :: "BeeService option \<Rightarrow> promise option \<Rightarrow> BeeEntrance \<Rightarrow> handled option" where
  "do_reg_svc svc promise e = do_with_service session_reg_svc svc promise e"

definition do_unreg_svc :: "BeeService option \<Rightarrow> promise option \<Rightarrow> BeeEntrance \<Rightarrow> handled option" where
  "do_unreg_svc svc promise e = do_with_service session_unreg_svc svc promise e"

section \<open>The calls of the application\<close>

text \<open>
  The result of a call: what it answers, the handle and the capabilities (of an open), the
  effects, the callback's calls and the entrance. \<open>handler\<close> runs on the event loop between the
  post and the wait.
\<close>

type_synonym api_result =
  "wait_result \<times> int \<times> BeeCapability list \<times> entrance_effect list \<times> promise_call list \<times> BeeEntrance"

definition post_and_wait ::
    "promise \<Rightarrow> (promise option \<Rightarrow> BeeEntrance \<Rightarrow> handled option) \<Rightarrow> BeeEntrance \<Rightarrow> api_result option" where
  "post_and_wait p handler e =
     (case handler (Some p) e of
        None \<Rightarrow> None
      | Some (_, _, None, _) \<Rightarrow> None
      | Some (out, calls, Some p', e') \<Rightarrow>
          Some (fst (promise_wait p'), p_session_id p', p_capability p', out, calls, e'))"

definition api_answer :: "BeeErrorCode \<Rightarrow> BeeEntrance \<Rightarrow> api_result" where
  "api_answer ec e = (Answer ec, - 1, [], [], [], e)"

definition sync_open_session :: "entrance_env \<Rightarrow> BeeEntrance \<Rightarrow> api_result option" where
  "sync_open_session env e =
     (if \<not> check_ios e then Some (api_answer kBeeErrorCode_Service_Not_Started e)
      else post_and_wait (promise_active True (- 1) (promise_new BeeSessionPromise))
        (do_open_session env) e)"

definition async_open_session ::
    "entrance_env \<Rightarrow> int option \<Rightarrow> BeeEntrance \<Rightarrow> api_result option" where
  "async_open_session env cb e =
     (case cb of
        None \<Rightarrow> Some (api_answer kBeeErrorCode_Invalid_Param e)
      | Some opaque \<Rightarrow>
          if \<not> check_ios e then Some (api_answer kBeeErrorCode_Service_Not_Started e)
          else post_and_wait (promise_set_callback opaque
              (promise_active True (- 1) (promise_new BeeAsyncOpenPromise)))
            (do_open_session env) e)"

definition close_session :: "int \<Rightarrow> BeeEntrance \<Rightarrow> api_result option" where
  "close_session handle e =
     (if \<not> check_ios e then Some (api_answer kBeeErrorCode_Service_Not_Started e)
      else post_and_wait (promise_active True (- 1) (promise_new BeeSessionPromise))
        (do_close_session handle) e)"

definition sync_execute ::
    "entrance_env \<Rightarrow> int \<Rightarrow> int \<Rightarrow> string \<Rightarrow> string \<Rightarrow> int \<Rightarrow> BeeEntrance \<Rightarrow> api_result option" where
  "sync_execute env handle code cmd args timeout e =
     (if \<not> check_ios e then Some (api_answer kBeeErrorCode_Service_Not_Started e)
      else if cmd = [] \<or> args = [] then Some (api_answer kBeeErrorCode_Invalid_Param e)
      else post_and_wait (promise_active True timeout
             (promise_set_session_id handle (promise_new BeeSessionPromise)))
        (do_execute env handle code cmd args) e)"

definition async_set_root_certificate ::
    "string option \<Rightarrow> BeeEntrance \<Rightarrow> api_result option" where
  "async_set_root_certificate cert e =
     (if \<not> check_ios e then Some (api_answer kBeeErrorCode_Service_Not_Started e)
      else case cert of
          None \<Rightarrow> Some (api_answer kBeeErrorCode_Invalid_Param e)
        | Some c \<Rightarrow> Some (api_answer kBeeErrorCode_Success (e\<lparr>root_certificate_path := c\<rparr>)))"

text \<open>\<open>io_service_\<close> is dereferenced without a check here.\<close>

definition entrance_reg_svc :: "BeeService option \<Rightarrow> BeeEntrance \<Rightarrow> api_result option" where
  "entrance_reg_svc svc e =
     (if \<not> io_service e then None
      else post_and_wait (promise_active True (- 1) (promise_new BeePromise)) (do_reg_svc svc) e)"

definition entrance_unreg_svc :: "BeeService option \<Rightarrow> BeeEntrance \<Rightarrow> api_result option" where
  "entrance_unreg_svc svc e =
     (if \<not> io_service e then None
      else post_and_wait (promise_active True (- 1) (promise_new BeePromise)) (do_unreg_svc svc) e)"

section \<open>The facade Bee and BeeService\<close>

text \<open>\<open>BeeEntrance::instance_\<close> is the option; \<open>instance()\<close> creates it when it is null.\<close>

definition entrance_instance :: "string \<Rightarrow> BeeEntrance option \<Rightarrow> BeeEntrance" where
  "entrance_instance ver inst = (case inst of None \<Rightarrow> BeeEntrance_new ver | Some e \<Rightarrow> e)"

definition Bee_initialize ::
    "entrance_env \<Rightarrow> BeeSystemParam \<Rightarrow> bool \<Rightarrow> int \<Rightarrow> BeeEntrance option
      \<Rightarrow> (BeeErrorCode \<times> BeeEntrance option) option" where
  "Bee_initialize env param sink timeout inst =
     (case entrance_start env param sink timeout (entrance_instance (env_version env) inst) of
        None \<Rightarrow> None
      | Some (ret, _, e) \<Rightarrow>
          if ret \<noteq> kBeeErrorCode_Success
          then (case force_stop e of None \<Rightarrow> None | Some _ \<Rightarrow> Some (ret, None))
          else Some (ret, Some e))"

definition Bee_uninitialize :: "BeeEntrance option \<Rightarrow> (BeeErrorCode \<times> BeeEntrance option) option" where
  "Bee_uninitialize inst =
     (case inst of
        None \<Rightarrow> Some (kBeeErrorCode_Success, None)
      | Some e \<Rightarrow>
          (case entrance_stop e of None \<Rightarrow> None | Some _ \<Rightarrow> Some (kBeeErrorCode_Success, None)))"

definition Bee_open_session ::
    "entrance_env \<Rightarrow> BeeEntrance option \<Rightarrow> (wait_result \<times> int \<times> BeeEntrance option) option" where
  "Bee_open_session env inst =
     (case inst of
        None \<Rightarrow> Some (Answer kBeeErrorCode_Service_Not_Started, - 1, None)
      | Some e \<Rightarrow> map_option (\<lambda>(r, sid, _, _, _, e'). (r, sid, Some e')) (sync_open_session env e))"

definition Bee_close_session ::
    "int \<Rightarrow> BeeEntrance option \<Rightarrow> (wait_result \<times> BeeEntrance option) option" where
  "Bee_close_session handle inst =
     (case inst of
        None \<Rightarrow> Some (Answer kBeeErrorCode_Service_Not_Started, None)
      | Some e \<Rightarrow> map_option (\<lambda>(r, _, _, _, _, e'). (r, Some e')) (close_session handle e))"

definition BeeService_reg ::
    "string \<Rightarrow> int \<Rightarrow> BeeService \<Rightarrow> BeeEntrance option
      \<Rightarrow> (wait_result \<times> BeeService \<times> BeeEntrance option) option" where
  "BeeService_reg ver handle v inst =
     (if handle < 0 then Some (Answer kBeeErrorCode_Invalid_Param, v, inst)
      else let v' = v\<lparr>svc_handle := handle\<rparr>
           in map_option (\<lambda>(r, _, _, _, _, e'). (r, v', Some e'))
                (entrance_reg_svc (Some v') (entrance_instance ver inst)))"

section \<open>The state table\<close>

definition entrance_fsm_ok :: "simple_fsm \<Rightarrow> bool" where
  "entrance_fsm_ok m \<longleftrightarrow> state_machine m = entrance_table
     \<and> state_count m = kBeeSvcState_Count \<and> input_count m = kBeeSvcInput_Count"

lemma entrance_table_eq:
  "entrance_table =
     [[1, -1, -1, -1, -1, -1, -1],
      [-1, 2, -1, -1, -1, 5, -1],
      [-1, -1, 3, -1, -1, 5, -1],
      [-1, -1, -1, 4, -1, 5, -1],
      [-1, -1, -1, 4, 4, 5, -1],
      [-1, -1, -1, -1, -1, -1, 0]]"
  by (simp add: entrance_table_def set_entries_def set_entry_def fill_table_def upt_rec
      numeral_eq_Suc kInvalidSimpleState_def)

interpretation ef: table_machine entrance_fsm_ok
  by unfold_locales
    (simp_all add: entrance_fsm_ok_def fsm_shape_def fsm_closed_def entrance_table_eq
      kInvalidSimpleState_def)

text \<open>What \<open>switch_state\<close> does in each state, read off the table once and for all.\<close>

definition ent_next :: "int \<Rightarrow> int \<Rightarrow> int" where
  "ent_next s ev = entrance_table ! nat s ! nat ev"

lemma ent_switch_at:
  assumes "entrance_fsm_ok (ent_fsm e)" "fsm_in_range (ent_fsm e)" "0 \<le> ev"
    "ev < kBeeSvcInput_Count"
  shows "ent_switch ev e = Some (if ent_next (current_state (ent_fsm e)) ev = kInvalidSimpleState
     then (False, e)
     else (True, e\<lparr>ent_fsm := (ent_fsm e)\<lparr>last_state := current_state (ent_fsm e),
            current_state := ent_next (current_state (ent_fsm e)) ev\<rparr>\<rparr>))"
proof -
  have "table_at (state_machine (ent_fsm e)) (current_state (ent_fsm e)) ev
      = Some (ent_next (current_state (ent_fsm e)) ev)"
    using assms ef.rows [OF assms(1)]
    by (subst table_at_shape) (auto simp: fsm_in_range_def entrance_fsm_ok_def ent_next_def)
  with assms show ?thesis
    by (auto simp: ent_switch_def switch_state_def entrance_fsm_ok_def)
qed

lemma ent_next_execute:
  assumes "0 \<le> s" "s < kBeeSvcState_Count"
  shows "ent_next s kBeeSvcInput_Execute = (if s = kBeeSvcState_Ready then kBeeSvcState_Ready else - 1)"
proof -
  have "s = 0 \<or> s = 1 \<or> s = 2 \<or> s = 3 \<or> s = 4 \<or> s = 5" using assms by linarith
  then show ?thesis by (elim disjE) (simp_all add: ent_next_def entrance_table_eq)
qed

lemma ent_next_init:
  assumes "0 \<le> s" "s < kBeeSvcState_Count"
  shows "ent_next s kBeeSvcInput_DoInit = (if s = kBeeSvcState_Idle then kBeeSvcState_Initializing else - 1)"
proof -
  have "s = 0 \<or> s = 1 \<or> s = 2 \<or> s = 3 \<or> s = 4 \<or> s = 5" using assms by linarith
  then show ?thesis by (elim disjE) (simp_all add: ent_next_def entrance_table_eq)
qed

lemma ent_next_uninit:
  assumes "0 \<le> s" "s < kBeeSvcState_Count"
  shows "ent_next s kBeeSvcInput_DoUninit
     = (if s \<in> {kBeeSvcState_Idle, kBeeSvcState_Unitializing} then - 1 else kBeeSvcState_Unitializing)"
proof -
  have "s = 0 \<or> s = 1 \<or> s = 2 \<or> s = 3 \<or> s = 4 \<or> s = 5" using assms by linarith
  then show ?thesis by (elim disjE) (simp_all add: ent_next_def entrance_table_eq)
qed

lemma ent_next_got_core:
  assumes "0 \<le> s" "s < kBeeSvcState_Count"
  shows "ent_next s kBeeSvcInput_Got_Core
     = (if s \<in> {kBeeSvcState_Getting_Core, kBeeSvcState_Ready} then kBeeSvcState_Ready else - 1)"
proof -
  have "s = 0 \<or> s = 1 \<or> s = 2 \<or> s = 3 \<or> s = 4 \<or> s = 5" using assms by linarith
  then show ?thesis by (elim disjE) (simp_all add: ent_next_def entrance_table_eq)
qed

lemmas ent_next_simps = ent_next_execute ent_next_init ent_next_uninit ent_next_got_core

section \<open>The invariant\<close>

text \<open>An init promise that may be honoured without \<open>set_value\<close> throwing.\<close>

definition honorable :: "promise \<Rightarrow> bool" where
  "honorable p \<longleftrightarrow> sync p \<and> (honored p \<or> (case p_promise p of None \<Rightarrow> True | Some c \<Rightarrow> value_set c = None))"

text \<open>
  The manager and the event loop come and go together, exist from \<open>Initializd\<close> on, and the
  manager keeps its own invariant.
\<close>

definition ent_inv :: "BeeEntrance \<Rightarrow> bool" where
  "ent_inv e \<longleftrightarrow> entrance_fsm_ok (ent_fsm e) \<and> fsm_in_range (ent_fsm e)
     \<and> io_service e = (session_mgr e \<noteq> None)
     \<and> (\<forall>m. session_mgr e = Some m \<longrightarrow> mgr_inv m \<and> mgr_initialized m)
     \<and> (current_state (ent_fsm e) \<in> {kBeeSvcState_Initializd, kBeeSvcState_Getting_Core, kBeeSvcState_Ready}
        \<longrightarrow> io_service e)
     \<and> (\<forall>p. init_promise e = Some p \<longrightarrow> honorable p)
     \<and> statusd_check_interval e = kStatusdCheckInterval"

lemma ent_inv_range: "ent_inv e \<Longrightarrow> 0 \<le> current_state (ent_fsm e) \<and> current_state (ent_fsm e) < 6"
  by (simp add: ent_inv_def fsm_in_range_def entrance_fsm_ok_def)

lemma ent_inv_new: "ent_inv (BeeEntrance_new ver)"
  by (simp add: ent_inv_def BeeEntrance_new_def entrance_fsm_ok_def fsm_in_range_def
      SimpleStateMachine_def)

lemma ent_inv_set_fsm:
  assumes "ent_inv e" "entrance_fsm_ok m" "fsm_in_range m"
    "current_state m \<in> {kBeeSvcState_Initializd, kBeeSvcState_Getting_Core, kBeeSvcState_Ready}
      \<Longrightarrow> io_service e"
  shows "ent_inv (e\<lparr>ent_fsm := m\<rparr>)"
  using assms unfolding ent_inv_def by simp

lemma ent_switch_inv:
  assumes "ent_inv e" "0 \<le> ev" "ev < kBeeSvcInput_Count"
    "ent_next (current_state (ent_fsm e)) ev \<in> {- 1, 0, 1, 5} \<or> io_service e"
  shows "\<exists>ok e'. ent_switch ev e = Some (ok, e') \<and> ent_inv e'
    \<and> session_mgr e' = session_mgr e \<and> io_service e' = io_service e
    \<and> init_promise e' = init_promise e"
proof -
  have ok: "entrance_fsm_ok (ent_fsm e)" "fsm_in_range (ent_fsm e)"
    using assms(1) by (simp_all add: ent_inv_def)
  note sw = ent_switch_at [OF ok assms(2,3)]
  show ?thesis
  proof (cases "ent_next (current_state (ent_fsm e)) ev = kInvalidSimpleState")
    case True
    with sw assms(1) show ?thesis by (intro exI [of _ False] exI [of _ e]) simp
  next
    case False
    let ?m = "(ent_fsm e)\<lparr>last_state := current_state (ent_fsm e),
            current_state := ent_next (current_state (ent_fsm e)) ev\<rparr>"
    have "\<exists>ok m'. switch_state ev (ent_fsm e) = Some (ok, m') \<and> fsm_in_range m'"
      using ef.switch_total [OF ok] by blast
    then obtain ok' m' where m': "switch_state ev (ent_fsm e) = Some (ok', m')" "fsm_in_range m'"
      by blast
    with sw False have "e\<lparr>ent_fsm := m'\<rparr> = e\<lparr>ent_fsm := ?m\<rparr>" by (simp add: ent_switch_def)
    then have "ent_fsm (e\<lparr>ent_fsm := m'\<rparr>) = ent_fsm (e\<lparr>ent_fsm := ?m\<rparr>)" by (rule arg_cong)
    with m'(2) have "fsm_in_range ?m" by simp
    moreover have "entrance_fsm_ok ?m" using ok(1) by (simp add: entrance_fsm_ok_def)
    ultimately have "ent_inv (e\<lparr>ent_fsm := ?m\<rparr>)"
      using assms(4) by (intro ent_inv_set_fsm [OF assms(1)]) auto
    with False sw show ?thesis by auto
  qed
qed

lemma honor_init_ok:
  assumes "\<And>p. init_promise e = Some p \<Longrightarrow> honorable p"
  shows "\<exists>e'. honor_init ret e = Some e' \<and> e' = e\<lparr>init_promise := None\<rparr>"
proof (cases "init_promise e")
  case None
  then show ?thesis by (simp add: honor_init_def)
next
  case (Some p)
  with assms [OF Some] have "promise_honor ret False p \<noteq> None"
    by (auto simp: honorable_def promise_honor_def sync_honor_def split: option.splits)
  with Some show ?thesis by (auto simp: honor_init_def)
qed

section \<open>The contract of a handler\<close>

text \<open>A promise the loop may honour: a synchronous one nobody honoured yet, or an open's.\<close>

definition fresh :: "promise \<Rightarrow> bool" where
  "fresh p \<longleftrightarrow> sync p \<and> sync_kind (kind p) \<and> \<not> honored p
     \<and> p_promise p = Some \<lparr>value_set = None, future_taken = False\<rparr>"

definition answerable :: "promise \<Rightarrow> bool" where
  "answerable p \<longleftrightarrow> fresh p \<or> (kind p = BeeAsyncOpenPromise \<and> \<not> sync p)"

lemma honor_with_answer:
  assumes "answerable p"
  shows "\<exists>calls p'. honor_with ret out (Some p) e = Some (out, calls, Some p', e)
    \<and> fst (promise_wait p') = Answer (if sync p then ret else kBeeErrorCode_Success)
    \<and> p_session_id p' = p_session_id p \<and> p_capability p' = p_capability p"
  using assms unfolding answerable_def
proof
  assume "fresh p"
  then show ?thesis
    by (auto simp: fresh_def honor_with_def promise_honor_def sync_honor_def promise_wait_def
        sync_kind_def)
next
  assume "kind p = BeeAsyncOpenPromise \<and> \<not> sync p"
  then show ?thesis
    by (auto simp: honor_with_def promise_honor_def promise_wait_def Let_def split: option.splits)
qed

text \<open>
  What a handler must do with the promise it was posted with: honour it, keeping the invariant.
\<close>

definition honours :: "(BeeEntrance \<Rightarrow> bool) \<Rightarrow> promise \<Rightarrow> handled option \<Rightarrow> bool" where
  "honours good p r \<longleftrightarrow> (case r of
       Some (out, calls, Some p', e') \<Rightarrow> good e'
         \<and> (\<exists>ret. fst (promise_wait p') = Answer (if sync p then ret else kBeeErrorCode_Success))
     | _ \<Rightarrow> False)"

lemma honours_honor_with:
  assumes "answerable p" and "good e"
  shows "honours good p (honor_with ret out (Some p) e)"
proof -
  from honor_with_answer [OF assms(1), of ret out e] obtain calls p'
    where "honor_with ret out (Some p) e = Some (out, calls, Some p', e)"
      "fst (promise_wait p') = Answer (if sync p then ret else kBeeErrorCode_Success)" by blast
  with assms(2) show ?thesis unfolding honours_def by auto
qed

locale loop_handler =
  fixes handler :: "promise option \<Rightarrow> BeeEntrance \<Rightarrow> handled option"
    and good :: "BeeEntrance \<Rightarrow> bool"
  assumes handles: "good e \<Longrightarrow> answerable p \<Longrightarrow> honours good p (handler (Some p) e)"
begin

lemma answered:
  assumes "good e" and "answerable p"
  shows "\<exists>ec rest e'. post_and_wait p handler e = Some (Answer ec, rest)
    \<and> snd (snd (snd (snd rest))) = e' \<and> good e'"
proof -
  from handles [OF assms] obtain ret out calls p' e'
    where "handler (Some p) e = Some (out, calls, Some p', e')" "good e'"
      "fst (promise_wait p') = Answer (if sync p then ret else kBeeErrorCode_Success)"
    by (auto simp: honours_def split: option.splits prod.splits)
  then show ?thesis by (auto simp: post_and_wait_def)
qed

end

definition env_ok :: "entrance_env \<Rightarrow> bool" where
  "env_ok env \<longleftrightarrow> caps_readable (env_api env)
     \<and> (\<forall>t. t \<noteq> [] \<longrightarrow> env_begin env t \<in> fst ` set t)"

lemma ent_execute_switch:
  assumes "ent_inv e"
  shows "\<exists>ok e1. ent_switch kBeeSvcInput_Execute e = Some (ok, e1) \<and> ent_inv e1
    \<and> session_mgr e1 = session_mgr e \<and> io_service e1 = io_service e
    \<and> ok = (current_state (ent_fsm e) = kBeeSvcState_Ready)
    \<and> (\<not> ok \<longrightarrow> e1 = e) \<and> statusd_client e1 = statusd_client e"
proof -
  have ok: "entrance_fsm_ok (ent_fsm e)" "fsm_in_range (ent_fsm e)"
    using assms by (simp_all add: ent_inv_def)
  have n: "ent_next (current_state (ent_fsm e)) 4
      = (if current_state (ent_fsm e) = 4 then 4 else - 1)"
    using ent_inv_range [OF assms] by (simp add: ent_next_simps)
  then have "ent_next (current_state (ent_fsm e)) 4 \<in> {- 1, 0, 1, 5} \<or> io_service e"
    using assms by (auto simp: ent_inv_def)
  from ent_switch_inv [OF assms _ _ this] ent_switch_at [OF ok, of 4] n show ?thesis
    by (auto simp: kInvalidSimpleState_def)
qed

lemma put_mgr_inv:
  "ent_inv e \<Longrightarrow> session_mgr e = Some m \<Longrightarrow> mgr_inv m' \<Longrightarrow> mgr_initialized m' \<Longrightarrow>
    ent_inv (e\<lparr>session_mgr := Some m'\<rparr>) \<and> ent_inv (e\<lparr>session_mgr := Some m', current_live_session_id := l\<rparr>)"
  by (auto simp: ent_inv_def)

lemma ent_inv_mgr:
  "ent_inv e \<Longrightarrow> session_mgr e = Some m \<Longrightarrow> mgr_inv m \<and> mgr_initialized m \<and> io_service e"
  by (simp add: ent_inv_def)

lemma answerable_update [simp]:
  "answerable (p\<lparr>p_session_id := i, p_capability := c\<rparr>) = answerable p"
  by (simp add: answerable_def fresh_def)

lemma honours_update:
  "honours good (p\<lparr>p_session_id := i, p_capability := c\<rparr>) r = honours good p r"
proof -
  have "sync (p\<lparr>p_session_id := i, p_capability := c\<rparr>) = sync p" by simp
  then show ?thesis unfolding honours_def by (rule arg_cong [where f = "\<lambda>b. case r of
      Some (out, calls, Some p', e') \<Rightarrow> good e'
         \<and> (\<exists>ret. fst (promise_wait p') = Answer (if b then ret else kBeeErrorCode_Success))
     | _ \<Rightarrow> False"])
qed

interpretation open_handler: loop_handler "do_open_session env" "\<lambda>e. ent_inv e \<and> env_ok env" for env
proof
  fix e p assume e: "ent_inv e \<and> env_ok env" and p: "answerable p"
  let ?inv = "\<lambda>e. ent_inv e \<and> env_ok env"
  from ent_execute_switch [of e] e obtain ok e1 where e1:
    "ent_switch 4 e = Some (ok, e1)" "ent_inv e1" by blast
  note hon = honours_honor_with [OF p, of ?inv]
  show "honours ?inv p (do_open_session env (Some p) e)"
  proof (cases "ok \<and> session_mgr e1 \<noteq> None")
    case False
    with e1 e hon [of e1] show ?thesis by (cases ok) (simp_all add: do_open_session_def)
  next
    case True
    then obtain m where m: "session_mgr e1 = Some m" by auto
    note mi = ent_inv_mgr [OF e1(2) m]
    have law: "\<And>t. t \<noteq> [] \<Longrightarrow> env_begin env t \<in> fst ` set t" and caps: "caps_readable (env_api env)"
      using e by (auto simp: env_ok_def)
    from open_idle_session_total [OF conjunct1 [OF mi] caps law]
    obtain sid ret live cap m' where o: "open_idle_session (env_api env) (env_begin env)
        (env_random env) (env_version env) (Some 0) (sys_param e1) drm_lua_name (ent_lua e1)
        (current_live_session_id e1) [] m = Some (sid, ret, live, cap, m')"
      by (metis option.exhaust prod.exhaust)
    have m': "mgr_inv m'" "mgr_initialized m'"
      using open_idle_session_step [OF _ _ law o] mi by simp_all
    let ?e2 = "e1\<lparr>session_mgr := Some m', current_live_session_id := live\<rparr>"
    have inv2: "?inv ?e2" using put_mgr_inv [OF e1(2) m m'] e by blast
    have "answerable (p\<lparr>p_session_id := sid, p_capability := cap\<rparr>)" using p by simp
    from honours_honor_with [OF this, of ?inv] inv2
    have "honours ?inv p (honor_with ret out (Some (p\<lparr>p_session_id := sid, p_capability := cap\<rparr>)) ?e2)"
      for out by (simp only: honours_update)
    with True e1(1) m mi o hon [OF inv2] show ?thesis
      by (cases "sid = - 1") (simp_all add: do_open_session_def Let_def)
  qed
qed

lemma close_keeps:
  "mgr_inv m \<Longrightarrow> \<exists>b m'. close_busy_session h m = Some (b, m') \<and> mgr_inv m'
     \<and> mgr_initialized m' = mgr_initialized m"
  using close_busy_session_step [of m h] by metis

interpretation close_handler: loop_handler "do_close_session handle" ent_inv for handle
proof
  fix e p assume e: "ent_inv e" and p: "answerable p"
  from ent_execute_switch [OF e] obtain ok e1 where e1:
    "ent_switch 4 e = Some (ok, e1)" "ent_inv e1" by blast
  note hon = honours_honor_with [OF p, of ent_inv]
  show "honours ent_inv p (do_close_session handle (Some p) e)"
  proof (cases "ok \<and> session_mgr e1 \<noteq> None")
    case False
    with e1 hon [of e1] show ?thesis by (cases ok) (simp_all add: do_close_session_def)
  next
    case True
    then obtain m where m: "session_mgr e1 = Some m" by auto
    note mi = ent_inv_mgr [OF e1(2) m]
    from close_keeps [OF conjunct1 [OF mi], of handle] mi obtain b m'
      where c: "close_busy_session handle m = Some (b, m')" "mgr_inv m'" "mgr_initialized m'"
      by auto
    have "ent_inv (e1\<lparr>session_mgr := Some m', current_live_session_id := []\<rparr>)"
      using put_mgr_inv [OF e1(2) m c(2,3)] by blast
    with hon True e1(1) m c(1) show ?thesis by (simp add: do_close_session_def)
  qed
qed

lemma put_session_initialized [simp]: "mgr_initialized (put_session i s m) = mgr_initialized m"
  by (simp add: put_session_def)

interpretation exec_handler: loop_handler "do_execute env handle code cmd args" ent_inv
  for env handle code cmd args
proof
  fix e p assume e: "ent_inv e" and p: "answerable p"
  from ent_execute_switch [OF e] obtain ok e1 where e1:
    "ent_switch 4 e = Some (ok, e1)" "ent_inv e1" by blast
  note hon = honours_honor_with [OF p, of ent_inv]
  show "honours ent_inv p (do_execute env handle code cmd args (Some p) e)"
  proof (cases "ok \<and> session_mgr e1 \<noteq> None")
    case False
    with e1 hon [of e1] show ?thesis by (cases ok) (simp_all add: do_execute_def)
  next
    case True
    then obtain m where m: "session_mgr e1 = Some m" by auto
    note mi = ent_inv_mgr [OF e1(2) m]
    show ?thesis
    proof (cases "get_busy_session handle m")
      case None
      with True e1 m hon show ?thesis by (simp add: do_execute_def)
    next
      case (Some i)
      note r = get_busy_session_ready [OF conjunct1 [OF mi] Some]
      obtain ret s' where x: "session_execute (env_api env) code cmd args (all_sessions m ! i)
          = Some (ret, s')"
        using session_execute_total r by (metis option.exhaust prod.exhaust)
      have "session_ready handle s'" using session_execute_ready [OF _ x] r by simp
      then have "mgr_inv (put_session i s' m)"
        using put_session_inv [OF _ Some] mi by simp
      then have "ent_inv (e1\<lparr>session_mgr := Some (put_session i s' m)\<rparr>)"
        using put_mgr_inv [OF e1(2) m] mi by simp
      with hon True e1(1) m Some x show ?thesis by (simp add: do_execute_def)
    qed
  qed
qed

lemma do_with_service_honours:
  assumes e: "ent_inv e \<and> io_service e" and p: "answerable p"
    and keeps: "\<And>i s. session_ready i s \<Longrightarrow> session_ready i (snd (oper svc s))"
  shows "honours (\<lambda>e. ent_inv e \<and> io_service e) p (do_with_service oper svc (Some p) e)"
proof -
  let ?inv = "\<lambda>e. ent_inv e \<and> io_service e"
  note hon = honours_honor_with [OF p, of ?inv]
  obtain m where m: "session_mgr e = Some m"
    using e by (cases "session_mgr e") (auto simp: ent_inv_def)
  note mi = ent_inv_mgr [OF conjunct1 [OF e] m]
  show ?thesis
  proof (cases svc)
    case None
    with hon e show ?thesis by (simp add: do_with_service_def)
  next
    case (Some v)
    show ?thesis
    proof (cases "get_busy_session (svc_handle v) m")
      case None
      with Some hon e m show ?thesis by (simp add: do_with_service_def)
    next
      case i: (Some i)
      note r = get_busy_session_ready [OF conjunct1 [OF mi] i]
      obtain ret s' where x: "oper svc (all_sessions m ! i) = (ret, s')" by fastforce
      with keeps [of "svc_handle v" "all_sessions m ! i"] r
      have "session_ready (svc_handle v) s'" by simp
      then have "mgr_inv (put_session i s' m)" using put_session_inv [OF _ i] mi by simp
      then have "?inv (e\<lparr>session_mgr := Some (put_session i s' m)\<rparr>)"
        using put_mgr_inv [OF conjunct1 [OF e] m] mi e by simp
      with hon Some m i x show ?thesis by (simp add: do_with_service_def)
    qed
  qed
qed

interpretation reg_handler: loop_handler "do_reg_svc svc" "\<lambda>e. ent_inv e \<and> io_service e" for svc
  by unfold_locales
    (simp add: do_reg_svc_def do_with_service_honours session_reg_svc_ready)

interpretation unreg_handler: loop_handler "do_unreg_svc svc" "\<lambda>e. ent_inv e \<and> io_service e" for svc
  by unfold_locales
    (simp add: do_unreg_svc_def do_with_service_honours session_unreg_svc_ready)

section \<open>Starting and stopping keep the invariant\<close>

lemma ent_switch_to:
  assumes "entrance_fsm_ok (ent_fsm e)" "current_state (ent_fsm e) = s" "0 \<le> last_state (ent_fsm e)"
    "last_state (ent_fsm e) < kBeeSvcState_Count" "0 \<le> s" "s < kBeeSvcState_Count" "0 \<le> ev"
    "ev < kBeeSvcInput_Count" "ent_next s ev = v" "v \<noteq> - 1"
  shows "ent_switch ev e = Some (True, e\<lparr>ent_fsm := (ent_fsm e)\<lparr>last_state := s, current_state := v\<rparr>\<rparr>)"
proof -
  have "fsm_in_range (ent_fsm e)"
    using assms by (simp add: fsm_in_range_def entrance_fsm_ok_def)
  from ent_switch_at [OF assms(1) this assms(7,8)] assms(2,9,10) show ?thesis
    by (simp add: kInvalidSimpleState_def)
qed

lemma ent_next_chain:
  "ent_next 0 0 = 1" "ent_next 1 1 = 2" "ent_next 2 2 = 3" "ent_next 3 3 = 4"
  by (simp_all add: ent_next_def entrance_table_eq)

lemma session_init_ok: "n \<le> 2 ^ 31 \<Longrightarrow> mgr_inv (snd (session_manager_init n SessionManager_new))
    \<and> mgr_initialized (snd (session_manager_init n SessionManager_new))"
  using session_manager_init_inv [OF mgr_new_inv]
  by (simp add: session_manager_init_def SessionManager_new_def Let_def)

lemma save_param_simps [simp]:
  "ent_fsm (save_param p sk e) = ent_fsm e" "io_service (save_param p sk e) = io_service e"
  "session_mgr (save_param p sk e) = session_mgr e" "init_promise (save_param p sk e) = init_promise e"
  "statusd_check_interval (save_param p sk e) = statusd_check_interval e"
  "session_count (sys_param (save_param p sk e)) = bp_session_count p"
  "enable_statusd (sys_param (save_param p sk e)) = bp_enable_statusd p"
  "ent_lua (save_param p sk e) = ent_lua e"
  by (simp_all add: save_param_def)

lemma statusd_timer_starts:
  assumes "io_service e" "statusd_check_interval e = kStatusdCheckInterval" "enable_statusd (sys_param e)"
  shows "\<exists>t. start_statusd_timer now e = Some (True, e\<lparr>statusd_timer := Some t\<rparr>)"
  using assms
  by (simp add: start_statusd_timer_def set_wait_seconds_def kStatusdCheckInterval_def) blast

lemma active_init_honorable: "honorable (promise_active True t (promise_new BeeInitPromise))"
  by (simp add: honorable_def promise_active_def promise_new_def Let_def)

lemma start_failed_ok:
  assumes "ent_inv e"
  shows "\<exists>e'. start_failed ret out e = Some (ret, out, e') \<and> ent_inv e' \<and> ent_fsm e' = ent_fsm e
    \<and> init_promise e' = None \<and> session_mgr e' = session_mgr e"
proof -
  have "\<And>p. init_promise e = Some p \<Longrightarrow> honorable p" using assms by (simp add: ent_inv_def)
  from honor_init_ok [of e ret, OF this] assms show ?thesis
    by (auto simp: start_failed_def stop_lua_update_timer_def ent_inv_def)
qed

lemma entrance_start_not_idle:
  assumes "ent_inv e" and "current_state (ent_fsm e) \<noteq> kBeeSvcState_Idle"
  shows "\<exists>out e'. entrance_start env p sk t e = Some (kBeeErrorCode_Invalid_State, out, e')
    \<and> ent_inv e' \<and> ent_fsm e' = ent_fsm e \<and> session_mgr e' = session_mgr e"
proof -
  let ?e1 = "save_param p sk e"
  have inv: "ent_inv ?e1" using assms(1) by (auto simp: ent_inv_def)
  have "ent_switch 0 ?e1 = Some (False, ?e1)"
    using ent_switch_at [of ?e1 0] inv assms ent_inv_range [OF assms(1)]
    by (simp add: ent_inv_def ent_next_simps kInvalidSimpleState_def)
  with start_failed_ok [OF inv] show ?thesis
    by (fastforce simp: entrance_start_def Let_def)
qed

text \<open>
  The first half of \<open>start\<close> on an idle entrance: up to \<open>Initializd\<close> with its promise made.
\<close>

lemma entrance_start_idle:
  assumes inv: "ent_inv e" and idle: "current_state (ent_fsm e) = kBeeSvcState_Idle"
    and n: "bp_session_count p \<le> 2 ^ 31"
  shows "\<exists>out e'. entrance_start env p sk t e
      = Some (if env_local_lua env = None then kBeeErrorCode_Engine_Script_Error
              else kBeeErrorCode_Success, out, e')
    \<and> ent_inv e' \<and> io_service e'
    \<and> current_state (ent_fsm e')
        = (if env_local_lua env = None then kBeeSvcState_Initializd else kBeeSvcState_Ready)
    \<and> (\<forall>l. env_local_lua env = Some l \<longrightarrow> ent_lua e' = l)"
proof -
  have fsm: "entrance_fsm_ok (ent_fsm e)" "0 \<le> last_state (ent_fsm e)"
    "last_state (ent_fsm e) < 6"
    and interval: "statusd_check_interval e = kStatusdCheckInterval"
    using inv by (auto simp: ent_inv_def fsm_in_range_def entrance_fsm_ok_def)
  define m0 where "m0 = snd (session_manager_init (bp_session_count p) SessionManager_new)"
  define e1 where "e1 = save_param p sk e"
  define e4 where "e4 = e1\<lparr>ent_fsm := (ent_fsm e)\<lparr>last_state := 0, current_state := 1\<rparr>,
    session_mgr := Some (case session_mgr e of None \<Rightarrow> m0 | Some m \<Rightarrow> m), io_service := True\<rparr>"
  have sw0: "ent_switch 0 e1 = Some (True, e1\<lparr>ent_fsm := (ent_fsm e)\<lparr>last_state := 0, current_state := 1\<rparr>\<rparr>)"
    using ent_switch_to [of e1 0 0 1] fsm idle by (simp add: e1_def ent_next_chain)
  obtain st where st: "(if enable_statusd (sys_param e4) then map_option snd (start_statusd_timer True e4)
      else Some e4) = Some (e4\<lparr>statusd_timer := st\<rparr>)"
  proof (cases "enable_statusd (sys_param e4)")
    case True
    from statusd_timer_starts [OF _ _ True] interval
    show ?thesis using that True by (fastforce simp: e4_def e1_def)
  next
    case False
    show ?thesis using that [of "statusd_timer e4"] False by simp
  qed
  define e6 where "e6 = e4\<lparr>statusd_timer := st,
     ent_fsm := (ent_fsm e)\<lparr>last_state := 1, current_state := 2\<rparr>,
     init_promise := Some (promise_active True t (promise_new BeeInitPromise))\<rparr>"
  have sw1: "ent_switch 1 (e4\<lparr>statusd_timer := st\<rparr>) = Some (True, e4\<lparr>statusd_timer := st,
      ent_fsm := (ent_fsm e)\<lparr>last_state := 1, current_state := 2\<rparr>\<rparr>)"
    using ent_switch_to [of "e4\<lparr>statusd_timer := st\<rparr>" 1 1 2] fsm
    by (simp add: e4_def ent_next_chain entrance_fsm_ok_def)
  have "mgr_inv (case session_mgr e of None \<Rightarrow> m0 | Some m \<Rightarrow> m)
      \<and> mgr_initialized (case session_mgr e of None \<Rightarrow> m0 | Some m \<Rightarrow> m)"
    using inv session_init_ok [OF n] by (cases "session_mgr e") (auto simp: ent_inv_def m0_def)
  then have inv6: "ent_inv e6"
    using fsm interval active_init_honorable
    by (simp add: ent_inv_def e6_def e4_def e1_def entrance_fsm_ok_def fsm_in_range_def)
  obtain out where start: "entrance_start env p sk t e = start_core env p out e6"
  proof -
    have mgr: "(case session_mgr e2 of Some _ \<Rightarrow> e2
        | None \<Rightarrow> e2\<lparr>session_mgr := Some (snd (session_manager_init (session_count (sys_param e2))
             SessionManager_new))\<rparr>)\<lparr>io_service := True\<rparr> = e4"
      if "e2 = e1\<lparr>ent_fsm := (ent_fsm e)\<lparr>last_state := 0, current_state := 1\<rparr>\<rparr>" for e2
      using that by (cases "session_mgr e") (simp_all add: e4_def e1_def m0_def)
    show ?thesis
      by (rule that, unfold entrance_start_def Let_def e1_def [symmetric] sw0 option.case
          prod.case bool.case mgr [OF refl] st sw1, simp add: e6_def)
  qed
  show ?thesis
  proof (cases "env_local_lua env")
    case None
    then have "start_core env p out e6 = start_failed kBeeErrorCode_Engine_Script_Error out e6"
      by (simp add: start_core_def load_default_lua_def)
    with start_failed_ok [OF inv6, of kBeeErrorCode_Engine_Script_Error out] obtain e'
      where e': "entrance_start env p sk t e = Some (kBeeErrorCode_Engine_Script_Error, out, e')"
        "ent_inv e'" "ent_fsm e' = ent_fsm e6" "session_mgr e' = session_mgr e6"
      using start by auto
    moreover from e' have "io_service e'" by (simp add: ent_inv_def e6_def e4_def)
    ultimately show ?thesis using None by (simp add: e6_def)
  next
    case (Some l')
    let ?e7 = "e6\<lparr>ent_lua := l'\<rparr>"
    let ?e8 = "?e7\<lparr>ent_fsm := (ent_fsm e)\<lparr>last_state := 2, current_state := 3\<rparr>\<rparr>"
    let ?e9 = "?e7\<lparr>ent_fsm := (ent_fsm e)\<lparr>last_state := 3, current_state := 4\<rparr>\<rparr>"
    have "ent_switch 2 ?e7 = Some (True, ?e8)"
      using ent_switch_to [of ?e7 2 2 3] fsm
      by (simp add: e6_def ent_next_chain entrance_fsm_ok_def)
    moreover have "ent_switch 3 ?e8 = Some (True, ?e9)"
      using ent_switch_to [of ?e8 3 3 4] fsm
      by (simp add: ent_next_chain entrance_fsm_ok_def)
    moreover have "ent_inv ?e9"
      using inv6 fsm by (simp add: ent_inv_def fsm_in_range_def entrance_fsm_ok_def e6_def e4_def)
    ultimately show ?thesis using Some start
      by (auto simp: load_default_lua_def start_core_def e6_def e4_def)
  qed
qed

lemma close_ca_result:
  obtains out where "close_ca_client e = (out, e\<lparr>ca_client := False\<rparr>)"
proof (cases "ca_client e")
  case False
  then have "e\<lparr>ca_client := False\<rparr> = e" by (cases e) simp
  with False that show ?thesis by (simp add: close_ca_client_def)
qed (use that in \<open>simp add: close_ca_client_def\<close>)

lemma close_statusd_result:
  obtains out where "close_statusd_client e = (out, e\<lparr>statusd_client := None\<rparr>)"
proof (cases "statusd_client e")
  case None
  then have "e\<lparr>statusd_client := None\<rparr> = e" by (cases e) simp
  with None that show ?thesis by (simp add: close_statusd_client_def)
qed (use that in \<open>simp add: close_statusd_client_def\<close>)

lemma force_stop_ok:
  assumes "ent_inv e"
  shows "\<exists>out e'. force_stop e = Some (out, e') \<and> ent_inv e'
    \<and> current_state (ent_fsm e') = kBeeSvcState_Idle
    \<and> \<not> io_service e' \<and> session_mgr e' = None \<and> \<not> ca_client e' \<and> statusd_client e' = None
    \<and> lua_update_timer e' = None \<and> statusd_timer e' = None"
proof -
  let ?e1 = "stop_statusd_timer (stop_lua_update_timer e)"
  have step: "(case session_mgr ?e1 of None \<Rightarrow> Some ?e1
      | Some m \<Rightarrow> map_option (\<lambda>_. ?e1\<lparr>session_mgr := None\<rparr>) (session_manager_uninit m))
      = Some (?e1\<lparr>session_mgr := None\<rparr>)"
  proof (cases "session_mgr e")
    case None
    then show ?thesis by (simp add: stop_statusd_timer_def stop_lua_update_timer_def)
  next
    case (Some m)
    then have "mgr_inv m" using assms by (simp add: ent_inv_def)
    from session_manager_uninit_inv [OF this] Some show ?thesis
      by (auto simp: stop_statusd_timer_def stop_lua_update_timer_def)
  qed
  obtain out1 where ca: "close_ca_client (?e1\<lparr>session_mgr := None, io_service := False\<rparr>)
      = (out1, ?e1\<lparr>session_mgr := None, io_service := False, ca_client := False\<rparr>)"
    by (rule close_ca_result)
  obtain out2 where sd: "close_statusd_client (?e1\<lparr>session_mgr := None, io_service := False,
        ca_client := False\<rparr>)
      = (out2, ?e1\<lparr>session_mgr := None, io_service := False, ca_client := False,
           statusd_client := None\<rparr>)"
    by (rule close_statusd_result)
  let ?e5 = "?e1\<lparr>session_mgr := None, io_service := False, ca_client := False,
           statusd_client := None\<rparr>"
  have f: "force_stop e = Some ([Webrtc_Uninit] @ out1 @ out2 @ [Cleanup_Crypto, Log_Close],
      ent_reset ?e5)"
    by (simp add: force_stop_def step ca sd Let_def)
  have "ent_inv (ent_reset ?e5)"
    using assms
    by (simp add: ent_inv_def ent_reset_def reset_state_def stop_statusd_timer_def
        stop_lua_update_timer_def entrance_fsm_ok_def fsm_in_range_def)
  with f show ?thesis
    by (simp add: ent_reset_def reset_state_def stop_statusd_timer_def stop_lua_update_timer_def)
qed

lemma entrance_stop_ok:
  assumes "ent_inv e"
  shows "\<exists>ret out e'. entrance_stop e = Some (ret, out, e') \<and> ent_inv e'
    \<and> ret = (if current_state (ent_fsm e) \<in> {kBeeSvcState_Idle, kBeeSvcState_Unitializing}
             then kBeeErrorCode_Invalid_State else kBeeErrorCode_Success)
    \<and> (if ret = kBeeErrorCode_Success
       then current_state (ent_fsm e') = kBeeSvcState_Idle \<and> \<not> io_service e' \<and> session_mgr e' = None
         \<and> \<not> ca_client e' \<and> statusd_client e' = None \<and> lua_update_timer e' = None \<and> statusd_timer e' = None
       else e' = e)"
proof -
  have ok: "entrance_fsm_ok (ent_fsm e)" "fsm_in_range (ent_fsm e)"
    using assms by (simp_all add: ent_inv_def)
  note n = ent_next_uninit [of "current_state (ent_fsm e)"]
  have r: "0 \<le> current_state (ent_fsm e)" "current_state (ent_fsm e) < 6"
    using ent_inv_range [OF assms] by simp_all
  show ?thesis
  proof (cases "current_state (ent_fsm e) \<in> {0, 5}")
    case True
    then have "ent_switch 5 e = Some (False, e)"
      using ent_switch_at [OF ok, of 5] n r by (simp add: kInvalidSimpleState_def)
    with True assms show ?thesis by (simp add: entrance_stop_def)
  next
    case False
    let ?e1 = "e\<lparr>ent_fsm := (ent_fsm e)\<lparr>last_state := current_state (ent_fsm e), current_state := 5\<rparr>\<rparr>"
    have sw: "ent_switch 5 e = Some (True, ?e1)"
      using ent_switch_at [OF ok, of 5] n r False by (simp add: kInvalidSimpleState_def)
    have "ent_inv ?e1"
      using assms r by (intro ent_inv_set_fsm) (auto simp: entrance_fsm_ok_def fsm_in_range_def ent_inv_def)
    from force_stop_ok [OF this] obtain out e' where f: "force_stop ?e1 = Some (out, e')" "ent_inv e'"
      "current_state (ent_fsm e') = 0" "\<not> io_service e'" "session_mgr e' = None" "\<not> ca_client e'"
      "statusd_client e' = None" "lua_update_timer e' = None" "statusd_timer e' = None" by blast
    with sw False show ?thesis by (simp add: entrance_stop_def)
  qed
qed

lemma ent_got_core_switch:
  assumes "ent_inv e"
  shows "\<exists>ok m. ent_switch kBeeSvcInput_Got_Core e = Some (ok, e\<lparr>ent_fsm := m\<rparr>)
    \<and> ent_inv (e\<lparr>ent_fsm := m\<rparr>)"
proof -
  have ok: "entrance_fsm_ok (ent_fsm e)" "fsm_in_range (ent_fsm e)"
    using assms by (simp_all add: ent_inv_def)
  have n: "ent_next (current_state (ent_fsm e)) 3
      = (if current_state (ent_fsm e) \<in> {3, 4} then 4 else - 1)"
    using ent_inv_range [OF assms] by (simp add: ent_next_got_core)
  then have "ent_next (current_state (ent_fsm e)) 3 \<in> {- 1, 0, 1, 5} \<or> io_service e"
    using assms by (auto simp: ent_inv_def)
  from ent_switch_inv [OF assms _ _ this] obtain b e'
    where e': "ent_switch 3 e = Some (b, e')" "ent_inv e'" by auto
  then obtain m where "e' = e\<lparr>ent_fsm := m\<rparr>" by (auto simp: ent_switch_def)
  with e' show ?thesis by blast
qed

lemma honorable_set_ec2: "honorable p \<Longrightarrow> honorable (promise_set_ec2 n p)"
  by (simp add: honorable_def promise_set_ec2_def)

lemma finish_ca_data:
  assumes "ent_inv e" and "io_service e"
  shows "\<exists>e'. honor_init ret (e\<lparr>init_promise := map_option (promise_set_ec2 n) (init_promise e)\<rparr>)
      = Some e' \<and> e' = e\<lparr>init_promise := None\<rparr> \<and> ent_inv e'"
proof -
  let ?e = "e\<lparr>init_promise := map_option (promise_set_ec2 n) (init_promise e)\<rparr>"
  have "honorable p" if "init_promise ?e = Some p" for p
    using that assms(1) honorable_set_ec2 by (auto simp: ent_inv_def)
  from honor_init_ok [of ?e ret, OF this] assms(1) show ?thesis by (auto simp: ent_inv_def)
qed

lemma handle_ca_data_ok:
  assumes inv: "ent_inv e" and io: "io_service e"
  shows "\<exists>e'. handle_ca_data env ec1 ec2 lua md5 key ts e = Some ([Post_Close_CA], e')
    \<and> ent_inv e' \<and> io_service e' \<and> init_promise e' = None
    \<and> ent_lua e' = (if ec1 = kBeeErrorCode_Success \<and> ec2 = 0 then lua
        else if ent_lua e = [] then or_empty (env_local_lua env) else ent_lua e)
    \<and> (current_state (ent_fsm e) \<in> {kBeeSvcState_Getting_Core, kBeeSvcState_Ready} \<longrightarrow>
        ec1 = kBeeErrorCode_Success \<and> ec2 = 0 \<or> (ent_lua e = [] \<and> env_local_lua env \<noteq> None)
        \<longrightarrow> current_state (ent_fsm e') = kBeeSvcState_Ready)"
proof -
  have ok: "entrance_fsm_ok (ent_fsm e)" "fsm_in_range (ent_fsm e)"
    using inv by (simp_all add: ent_inv_def)
  obtain b m where sw: "ent_switch 3 e = Some (b, e\<lparr>ent_fsm := m\<rparr>)"
    and swl: "\<And>l. ent_switch 3 (e\<lparr>ent_lua := l\<rparr>) = Some (b, e\<lparr>ent_lua := l, ent_fsm := m\<rparr>)"
    and im: "ent_inv (e\<lparr>ent_fsm := m\<rparr>)"
    and rdy: "current_state (ent_fsm e) \<in> {3, 4} \<Longrightarrow> current_state m = 4"
  proof -
    from ent_got_core_switch [OF inv] obtain b m where bm:
      "ent_switch 3 e = Some (b, e\<lparr>ent_fsm := m\<rparr>)" "ent_inv (e\<lparr>ent_fsm := m\<rparr>)" by blast
    then have s: "\<exists>m'. switch_state 3 (ent_fsm e) = Some (b, m') \<and> e\<lparr>ent_fsm := m'\<rparr> = e\<lparr>ent_fsm := m\<rparr>"
      by (auto simp: ent_switch_def)
    then obtain m' where m': "switch_state 3 (ent_fsm e) = Some (b, m')" "e\<lparr>ent_fsm := m'\<rparr> = e\<lparr>ent_fsm := m\<rparr>"
      by blast
    from arg_cong [OF m'(2), of ent_fsm] have "m' = m" by simp
    with m'(1) have l: "ent_switch 3 (e\<lparr>ent_lua := l\<rparr>) = Some (b, e\<lparr>ent_lua := l, ent_fsm := m\<rparr>)" for l
      by (simp add: ent_switch_def)
    have "current_state m = 4" if "current_state (ent_fsm e) \<in> {3, 4}"
    proof -
      have "ent_next (current_state (ent_fsm e)) 3 = 4"
        using that ent_inv_range [OF inv] by (simp add: ent_next_got_core)
      with ent_switch_at [OF ok, of 3] bm(1)
      have "e\<lparr>ent_fsm := m\<rparr> = e\<lparr>ent_fsm := (ent_fsm e)\<lparr>last_state := current_state (ent_fsm e),
          current_state := 4\<rparr>\<rparr>" by (simp add: kInvalidSimpleState_def)
      from arg_cong [OF this, of ent_fsm] show ?thesis by simp
    qed
    then show ?thesis using that [OF bm(1) l bm(2)] by blast
  qed
  consider (good) "ec1 = kBeeErrorCode_Success \<and> ec2 = 0"
    | (localf) l where "\<not> (ec1 = kBeeErrorCode_Success \<and> ec2 = 0)" "ent_lua e = []" "env_local_lua env = Some l"
    | (none) "\<not> (ec1 = kBeeErrorCode_Success \<and> ec2 = 0)" "ent_lua e = []" "env_local_lua env = None"
    | (keep) "\<not> (ec1 = kBeeErrorCode_Success \<and> ec2 = 0)" "ent_lua e \<noteq> []" by blast
  then show ?thesis
  proof cases
    case good
    let ?e3 = "e\<lparr>ent_fsm := m, ent_lua := lua, ent_lua_name := drm_lua_name, ent_lua_md5 := md5,
        gslb_key := key, gslb_ts := ts\<rparr>"
    have "ent_inv ?e3" "io_service ?e3" using im io by (simp_all add: ent_inv_def)
    from finish_ca_data [OF this, of ec1 ec2] good sw io rdy show ?thesis
      by (auto simp: handle_ca_data_def)
  next
    case localf
    let ?e3 = "e\<lparr>ent_lua := l, ent_fsm := m, ent_lua_name := local_drm_lua_name\<rparr>"
    have "ent_inv ?e3" "io_service ?e3" using im io by (simp_all add: ent_inv_def)
    from finish_ca_data [OF this, of kBeeErrorCode_Success 0] localf swl [of l] io rdy show ?thesis
      by (auto simp: handle_ca_data_def load_default_lua_def or_empty_def)
  next
    case none
    let ?e3 = "stop_lua_update_timer (ent_reset e)"
    have "ent_inv ?e3" "io_service ?e3"
      using inv io by (auto simp: ent_inv_def stop_lua_update_timer_def ent_reset_def reset_state_def
          entrance_fsm_ok_def fsm_in_range_def)
    from finish_ca_data [OF this, of ec1 ec2] none io show ?thesis
      by (auto simp: handle_ca_data_def load_default_lua_def or_empty_def stop_lua_update_timer_def
          ent_reset_def)
  next
    case keep
    from finish_ca_data [OF inv io, of ec1 ec2] keep io show ?thesis
      by (auto simp: handle_ca_data_def)
  qed
qed

section \<open>A run of the service\<close>

datatype api_call =
    Call_Start BeeSystemParam bool int
  | Call_Stop
  | Call_Open
  | Call_Async_Open "int option"
  | Call_Close int
  | Call_Execute int int string string int
  | Call_Set_Certificate "string option"
  | Call_Reg "BeeService option"
  | Call_Unreg "BeeService option"
  | Call_CA_Data BeeErrorCode int string string string u64

definition result_step :: "api_result option \<Rightarrow> (wait_result \<times> BeeEntrance) option" where
  "result_step r = map_option (\<lambda>(w, _, _, _, _, e). (w, e)) r"

definition api_step ::
    "entrance_env \<Rightarrow> api_call \<Rightarrow> BeeEntrance \<Rightarrow> (wait_result \<times> BeeEntrance) option" where
  "api_step env c e =
     (case c of
        Call_Start p sink timeout \<Rightarrow>
          map_option (\<lambda>(ret, _, e'). (Answer ret, e')) (entrance_start env p sink timeout e)
      | Call_Stop \<Rightarrow> map_option (\<lambda>(ret, _, e'). (Answer ret, e')) (entrance_stop e)
      | Call_Open \<Rightarrow> result_step (sync_open_session env e)
      | Call_Async_Open cb \<Rightarrow> result_step (async_open_session env cb e)
      | Call_Close h \<Rightarrow> result_step (close_session h e)
      | Call_Execute h code cmd args timeout \<Rightarrow>
          result_step (sync_execute env h code cmd args timeout e)
      | Call_Set_Certificate cert \<Rightarrow> result_step (async_set_root_certificate cert e)
      | Call_Reg svc \<Rightarrow> result_step (entrance_reg_svc svc e)
      | Call_Unreg svc \<Rightarrow> result_step (entrance_unreg_svc svc e)
      | Call_CA_Data ec1 ec2 lua md5 key ts \<Rightarrow>
          map_option (\<lambda>(_, e'). (Answer kBeeErrorCode_Success, e'))
            (handle_ca_data env ec1 ec2 lua md5 key ts e))"

text \<open>
  What a caller has to respect: services are registered, and CA data arrives, only while the
  event loop exists (the code dereferences it unchecked), and session ids fit \<open>int32_t\<close>.
\<close>

definition api_enabled :: "api_call \<Rightarrow> BeeEntrance \<Rightarrow> bool" where
  "api_enabled c e \<longleftrightarrow> (case c of
       Call_Start p _ _ \<Rightarrow> bp_session_count p \<le> 2 ^ 31
     | Call_Reg _ \<Rightarrow> io_service e
     | Call_Unreg _ \<Rightarrow> io_service e
     | Call_CA_Data _ _ _ _ _ _ \<Rightarrow> io_service e
     | _ \<Rightarrow> True)"

inductive entrance_reach :: "entrance_env \<Rightarrow> BeeEntrance \<Rightarrow> bool" for env where
  reach_new: "entrance_reach env (BeeEntrance_new ver)"
| reach_call: "entrance_reach env e \<Longrightarrow> api_enabled c e \<Longrightarrow> api_step env c e = Some (w, e') \<Longrightarrow>
    entrance_reach env e'"

lemma fresh_active: "sync_kind k \<Longrightarrow> answerable (promise_active True t (promise_new k))"
  by (simp add: answerable_def fresh_def promise_active_def promise_new_def sync_kind_def Let_def)

lemma fresh_active_sid:
  "answerable (promise_active True t (promise_set_session_id h (promise_new BeeSessionPromise)))"
  by (simp add: answerable_def fresh_def promise_active_def promise_new_def sync_kind_def
      promise_set_session_id_def Let_def)

lemma async_active:
  "answerable (promise_set_callback q (promise_active True t (promise_new BeeAsyncOpenPromise)))"
  by (simp add: answerable_def promise_active_def promise_new_def promise_set_callback_def Let_def)

lemma result_answered:
  assumes "\<exists>ec rest e'. r = Some (Answer ec, rest) \<and> snd (snd (snd (snd rest))) = e' \<and> good e'"
  shows "\<exists>ec e'. result_step r = Some (Answer ec, e') \<and> good e'"
  using assms by (auto simp: result_step_def split: prod.splits)

lemma result_direct: "ent_inv e \<Longrightarrow>
    \<exists>ec' e'. result_step (Some (api_answer ec e)) = Some (Answer ec', e') \<and> ent_inv e'"
  by (simp add: result_step_def api_answer_def)

lemma api_step_ok:
  assumes inv: "ent_inv e" and env: "env_ok env" and en: "api_enabled c e"
  shows "\<exists>ec e'. api_step env c e = Some (Answer ec, e') \<and> ent_inv e'"
proof (cases c)
  case (Call_Start p sink timeout)
  show ?thesis
  proof (cases "current_state (ent_fsm e) = 0")
    case True
    from en Call_Start have "bp_session_count p \<le> 2 ^ 31" by (simp add: api_enabled_def)
    from entrance_start_idle [OF inv True this, of env sink timeout] obtain ret out e'
      where "entrance_start env p sink timeout e = Some (ret, out, e')" "ent_inv e'" by blast
    with Call_Start show ?thesis by (simp add: api_step_def)
  next
    case False
    with entrance_start_not_idle [OF inv, of env p sink timeout] Call_Start show ?thesis
      by (auto simp: api_step_def)
  qed
next
  case Call_Stop
  from entrance_stop_ok [OF inv] obtain ret out e' where "entrance_stop e = Some (ret, out, e')"
    "ent_inv e'" by blast
  with Call_Stop show ?thesis by (simp add: api_step_def)
next
  case Call_Open
  show ?thesis
  proof (cases "check_ios e")
    case True
    have "answerable (promise_active True (- 1) (promise_new BeeSessionPromise))"
      by (rule fresh_active) (simp add: sync_kind_def)
    from result_answered [OF open_handler.answered [OF conjI [OF inv env] this]] True Call_Open
    show ?thesis by (auto simp: api_step_def sync_open_session_def)
  qed (use result_direct [OF inv] Call_Open in \<open>simp add: api_step_def sync_open_session_def\<close>)
next
  case (Call_Async_Open cb)
  show ?thesis
  proof (cases "cb \<noteq> None \<and> check_ios e")
    case True
    then obtain q where q: "cb = Some q" by auto
    from result_answered [OF open_handler.answered
        [OF conjI [OF inv env] async_active [of q "- 1"]]] True Call_Async_Open q
    show ?thesis by (auto simp: api_step_def async_open_session_def)
  qed (use result_direct [OF inv] Call_Async_Open in
      \<open>auto simp: api_step_def async_open_session_def split: option.split\<close>)
next
  case (Call_Close h)
  show ?thesis
  proof (cases "check_ios e")
    case True
    have "answerable (promise_active True (- 1) (promise_new BeeSessionPromise))"
      by (rule fresh_active) (simp add: sync_kind_def)
    from result_answered [OF close_handler.answered [OF inv this]] True Call_Close
    show ?thesis by (auto simp: api_step_def close_session_def)
  qed (use result_direct [OF inv] Call_Close in \<open>simp add: api_step_def close_session_def\<close>)
next
  case (Call_Execute h code cmd args t)
  show ?thesis
  proof (cases "check_ios e \<and> cmd \<noteq> [] \<and> args \<noteq> []")
    case True
    from result_answered [OF exec_handler.answered [OF inv fresh_active_sid]] True Call_Execute
    show ?thesis by (auto simp: api_step_def sync_execute_def)
  qed (use result_direct [OF inv] Call_Execute in \<open>auto simp: api_step_def sync_execute_def\<close>)
next
  case (Call_Set_Certificate cert)
  have "ent_inv (e\<lparr>root_certificate_path := x\<rparr>)" for x using inv by (auto simp: ent_inv_def)
  with inv Call_Set_Certificate show ?thesis
    by (auto simp: api_step_def async_set_root_certificate_def result_step_def api_answer_def
        split: option.split)
next
  case (Call_Reg svc)
  have "answerable (promise_active True (- 1) (promise_new BeePromise))"
    by (rule fresh_active) (simp add: sync_kind_def)
  moreover have "io_service e" using en Call_Reg by (simp add: api_enabled_def)
  ultimately show ?thesis
    using result_answered [OF reg_handler.answered [of e "promise_active True (- 1)
        (promise_new BeePromise)" svc]] inv Call_Reg by (auto simp: api_step_def entrance_reg_svc_def api_enabled_def)
next
  case (Call_Unreg svc)
  have "answerable (promise_active True (- 1) (promise_new BeePromise))"
    by (rule fresh_active) (simp add: sync_kind_def)
  moreover have "io_service e" using en Call_Unreg by (simp add: api_enabled_def)
  ultimately show ?thesis
    using result_answered [OF unreg_handler.answered [of e "promise_active True (- 1)
        (promise_new BeePromise)" svc]] inv Call_Unreg by (auto simp: api_step_def entrance_unreg_svc_def api_enabled_def)
next
  case (Call_CA_Data ec1 ec2 lua md5 key ts)
  then have "io_service e" using en by (simp add: api_enabled_def)
  from handle_ca_data_ok [OF inv this, of env ec1 ec2 lua md5 key ts] Call_CA_Data show ?thesis
    by (auto simp: api_step_def)
qed

lemma entrance_reach_inv: "entrance_reach env e \<Longrightarrow> env_ok env \<Longrightarrow> ent_inv e"
proof (induction rule: entrance_reach.induct)
  case (reach_call e c w e')
  with api_step_ok [of e env c] show ?case by auto
qed (rule ent_inv_new)

section \<open>Properties\<close>

definition demo_env :: entrance_env where
  "demo_env = \<lparr>env_api = demo_api, env_begin = (\<lambda>t. fst (hd t)), env_random = (\<lambda>i. i),
     env_version = ''2.0'', env_local_lua = Some ''script''\<rparr>"

definition demo_system_param :: BeeSystemParam where
  "demo_system_param = \<lparr>bp_platform_type = 1, bp_net_type = 0, bp_app_name = None,
     bp_app_version = None, bp_system_info = None, bp_machine_code = Some ''m'',
     bp_log_path = None, bp_log_level = 4, bp_log_max_line = 0, bp_log_volume_count = 0,
     bp_log_volume_size = 0, bp_session_count = 2, bp_enable_statusd = False,
     bp_video_encoder_hw = False, bp_video_decoder_hw = False, bp_custom_audio_source = False\<rparr>"

lemma demo_env_ok: "env_ok demo_env"
  by (simp add: env_ok_def demo_env_def demo_api_readable)



text \<open>
  The service's state machine never leaves its table: any sequence of events, in or out of
  range, is answered, and the states it passes through stay in range. (Its table is filled with
  the value \<open>switch_state\<close> refuses.)
\<close>

theorem entrance_machine_total:
  "\<exists>oks m. run_events evs (ent_fsm (BeeEntrance_new ver)) = Some (oks, m)
     \<and> fsm_in_range m \<and> length oks = length evs"
proof -
  have "entrance_fsm_ok (ent_fsm (BeeEntrance_new ver))" "fsm_in_range (ent_fsm (BeeEntrance_new ver))"
    using ent_inv_new [of ver] by (simp_all add: ent_inv_def)
  from ef.run_total [OF this, of evs] show ?thesis by blast
qed

text \<open>
  Starting an idle service with a local script makes it ready with that script loaded;
  stopping it then succeeds, releases the pool, the event loop, both clients and both timers,
  and leaves a state from which it can be started again.
\<close>

theorem entrance_start_stop:
  assumes "ent_inv e" and "current_state (ent_fsm e) = kBeeSvcState_Idle"
    and "bp_session_count p \<le> 2 ^ 31" and "env_local_lua env = Some lua"
  shows "\<exists>out1 e1 out2 e2.
     entrance_start env p sink timeout e = Some (kBeeErrorCode_Success, out1, e1)
     \<and> current_state (ent_fsm e1) = kBeeSvcState_Ready \<and> ent_lua e1 = lua \<and> io_service e1
     \<and> entrance_stop e1 = Some (kBeeErrorCode_Success, out2, e2)
     \<and> session_mgr e2 = None \<and> \<not> io_service e2 \<and> \<not> ca_client e2 \<and> statusd_client e2 = None
     \<and> lua_update_timer e2 = None \<and> statusd_timer e2 = None
     \<and> ent_inv e2 \<and> current_state (ent_fsm e2) = kBeeSvcState_Idle"
proof -
  from entrance_start_idle [OF assms(1-3), of env sink timeout] assms(4) obtain out1 e1 where e1:
    "entrance_start env p sink timeout e = Some (kBeeErrorCode_Success, out1, e1)"
    "ent_inv e1" "io_service e1" "current_state (ent_fsm e1) = 4" "ent_lua e1 = lua" by auto
  from entrance_stop_ok [OF e1(2)] e1(4) obtain out2 e2 where e2:
    "entrance_stop e1 = Some (kBeeErrorCode_Success, out2, e2)" "ent_inv e2"
    "current_state (ent_fsm e2) = 0" "\<not> io_service e2" "session_mgr e2 = None" "\<not> ca_client e2"
    "statusd_client e2 = None" "lua_update_timer e2 = None" "statusd_timer e2 = None" by auto
  from e1 e2 show ?thesis by simp
qed

theorem entrance_start_stop_witness:
  "\<exists>out1 e1. entrance_start demo_env demo_system_param False 100 (BeeEntrance_new ''2.0'')
      = Some (kBeeErrorCode_Success, out1, e1) \<and> ent_lua e1 = ''script''"
proof -
  have "current_state (ent_fsm (BeeEntrance_new ''2.0'')) = 0"
    by (simp add: BeeEntrance_new_def SimpleStateMachine_def)
  from entrance_start_stop [OF ent_inv_new this, of demo_system_param demo_env "''script''" False 100]
  show ?thesis by (auto simp: demo_system_param_def demo_env_def)
qed

text \<open>
  A start that fails because the local script cannot be opened leaves the entrance in
  \<open>Initializd\<close>, where every further start answers \<open>Invalid_State\<close> however it is called, until the
  service is stopped; the facade \<open>Bee\<close> hides this by stopping and dropping the instance itself.
\<close>

theorem entrance_failed_start_sticks:
  assumes "ent_inv e" and "current_state (ent_fsm e) = kBeeSvcState_Idle"
    and "bp_session_count p \<le> 2 ^ 31" and "env_local_lua env = None"
  shows "\<exists>out1 e1. entrance_start env p sink timeout e = Some (kBeeErrorCode_Engine_Script_Error, out1, e1)
     \<and> current_state (ent_fsm e1) = kBeeSvcState_Initializd
     \<and> (\<exists>out2 e2. entrance_start env' p' sink' timeout' e1 = Some (kBeeErrorCode_Invalid_State, out2, e2)
          \<and> current_state (ent_fsm e2) = kBeeSvcState_Initializd)
     \<and> Bee_initialize env p sink timeout (Some e) = Some (kBeeErrorCode_Engine_Script_Error, None)"
proof -
  from entrance_start_idle [OF assms(1-3), of env sink timeout] assms(4) obtain out1 e1 where e1:
    "entrance_start env p sink timeout e = Some (kBeeErrorCode_Engine_Script_Error, out1, e1)"
    "ent_inv e1" "current_state (ent_fsm e1) = 2" by auto
  from entrance_start_not_idle [OF e1(2), of env' p' sink' timeout'] e1(3) obtain out2 e2 where e2:
    "entrance_start env' p' sink' timeout' e1 = Some (kBeeErrorCode_Invalid_State, out2, e2)"
    "ent_fsm e2 = ent_fsm e1" by auto
  from force_stop_ok [OF e1(2)] obtain out3 e3 where "force_stop e1 = Some (out3, e3)" by blast
  with e1 e2 show ?thesis by (simp add: Bee_initialize_def entrance_instance_def)
qed

theorem entrance_failed_start_sticks_witness:
  "Bee_initialize (demo_env\<lparr>env_local_lua := None\<rparr>) demo_system_param False 100
     (Some (BeeEntrance_new ''2.0'')) = Some (kBeeErrorCode_Engine_Script_Error, None)"
proof -
  have "current_state (ent_fsm (BeeEntrance_new ''2.0'')) = 0"
    by (simp add: BeeEntrance_new_def SimpleStateMachine_def)
  from entrance_failed_start_sticks [OF ent_inv_new this, of demo_system_param
      "demo_env\<lparr>env_local_lua := None\<rparr>" False 100 demo_env demo_system_param False 100]
  show ?thesis by (auto simp: demo_system_param_def)
qed

text \<open>
  On a ready service \<open>close_session\<close> answers \<open>Success\<close> for every handle, an open one or
  not: the handler drops what \<open>close_busy_session\<close> answers. An open session of that handle is
  closed.
\<close>

theorem close_session_always_success:
  assumes "ent_inv e" and "current_state (ent_fsm e) = kBeeSvcState_Ready"
  shows "\<exists>sid cap out calls e' m'.
     close_session handle e = Some (Answer kBeeErrorCode_Success, sid, cap, out, calls, e')
     \<and> session_mgr e' = Some m' \<and> get_busy_session handle m' = None"
proof -
  have io: "io_service e" using assms by (auto simp: ent_inv_def)
  then obtain m where m: "session_mgr e = Some m" using assms(1) by (auto simp: ent_inv_def)
  from ent_execute_switch [OF assms(1)] assms(2) m obtain e1 where e1:
    "ent_switch 4 e = Some (True, e1)" "session_mgr e1 = Some m" by auto
  have "mgr_inv m" using assms(1) m by (simp add: ent_inv_def)
  then obtain b m' where c: "close_busy_session handle m = Some (b, m')" "get_busy_session handle m' = None"
    using close_busy_session_step [of m handle] by metis
  let ?p = "promise_active True (- 1) (promise_new BeeSessionPromise)"
  let ?e2 = "e1\<lparr>session_mgr := Some m', current_live_session_id := []\<rparr>"
  let ?out = "if statusd_client e1 = None then [] else [Statusd_Set_Sid [] False]"
  have a: "answerable ?p" "sync ?p"
    by (rule fresh_active, simp add: sync_kind_def)
      (simp add: promise_active_def promise_new_def Let_def)
  from honor_with_answer [OF a(1), of kBeeErrorCode_Success ?out ?e2] a(2) obtain calls p' where
    "honor_with kBeeErrorCode_Success ?out (Some ?p) ?e2 = Some (?out, calls, Some p', ?e2)"
    "fst (promise_wait p') = Answer kBeeErrorCode_Success" by auto
  with e1 c io show ?thesis
    by (simp add: close_session_def check_ios_def post_and_wait_def do_close_session_def)
qed

theorem close_session_always_success_witness:
  "\<exists>e'. (\<exists>out. entrance_start demo_env demo_system_param False 100 (BeeEntrance_new ''2.0'')
        = Some (kBeeErrorCode_Success, out, e'))
     \<and> (\<exists>rest. close_session 77 e' = Some (Answer kBeeErrorCode_Success, rest))"
proof -
  have "current_state (ent_fsm (BeeEntrance_new ''2.0'')) = 0"
    by (simp add: BeeEntrance_new_def SimpleStateMachine_def)
  from entrance_start_idle [OF ent_inv_new this, of demo_system_param demo_env False 100]
  obtain out e' where e': "entrance_start demo_env demo_system_param False 100 (BeeEntrance_new ''2.0'')
      = Some (kBeeErrorCode_Success, out, e')" "ent_inv e'" "current_state (ent_fsm e') = 4"
    by (auto simp: demo_system_param_def demo_env_def)
  from close_session_always_success [OF e'(2,3), of 77] e'(1) show ?thesis by blast
qed

text \<open>
  What the CA server's answer does to the running service. A successful one installs its
  script; a failed one keeps the script there is, or falls back on the local file. In each of
  these cases a service that was waiting for its core, or was ready, is ready; whatever happens,
  the promise of \<open>start\<close> is honoured and dropped and the CA client is sent away.
\<close>

theorem handle_ca_data_correct:
  assumes "ent_inv e" and "io_service e"
  shows "\<exists>e'. handle_ca_data env ec1 ec2 lua md5 key ts e = Some ([Post_Close_CA], e')
    \<and> ent_inv e' \<and> io_service e' \<and> init_promise e' = None
    \<and> ent_lua e' = (if ec1 = kBeeErrorCode_Success \<and> ec2 = 0 then lua
        else if ent_lua e = [] then or_empty (env_local_lua env) else ent_lua e)
    \<and> (current_state (ent_fsm e) \<in> {kBeeSvcState_Getting_Core, kBeeSvcState_Ready} \<longrightarrow>
        ec1 = kBeeErrorCode_Success \<and> ec2 = 0 \<or> (ent_lua e = [] \<and> env_local_lua env \<noteq> None)
        \<longrightarrow> current_state (ent_fsm e') = kBeeSvcState_Ready)"
  by (rule handle_ca_data_ok [OF assms])

theorem handle_ca_data_correct_witness:
  "\<exists>e e'. ent_lua e = ''script'' \<and> handle_ca_data demo_env kBeeErrorCode_Timeout 0 [] [] [] 0 e
     = Some ([Post_Close_CA], e') \<and> ent_lua e' = ''script''"
proof -
  have "current_state (ent_fsm (BeeEntrance_new ''2.0'')) = 0"
    by (simp add: BeeEntrance_new_def SimpleStateMachine_def)
  from entrance_start_idle [OF ent_inv_new this, of demo_system_param demo_env False 100]
  obtain e where e: "ent_inv e" "io_service e" "ent_lua e = ''script''"
    by (auto simp: demo_system_param_def demo_env_def)
  from handle_ca_data_correct [OF e(1,2), of demo_env kBeeErrorCode_Timeout 0 "[]" "[]" "[]" 0] e(3)
  show ?thesis by auto
qed

end
