(* ===== verification/Bee_XXTEA.thy ===== *)
theory Bee_XXTEA
  imports Bee_Prelude "HOL-Library.While_Combinator"
begin

text \<open>
  The XXTEA block cipher the scripts use (src/utility/crypto.cpp, first part) and the string
  helper of its base64 functions.

  Words are \<open>u32\<close>, byte strings are \<open>byte list\<close>, the host is little-endian. A result \<open>None\<close>
  is a read out of bounds, \<open>Some None\<close> a returned \<open>NULL\<close>; \<open>calloc\<close> and \<open>malloc\<close> succeed.
  The decryption loop runs \<open>while (sum != 0)\<close> and is a \<open>while_option\<close>: that it ends is a
  theorem.

  The proof of the round trip goes through one step per word, \<open>enc_at\<close> and \<open>dec_at\<close>, which
  read the two neighbours of the word and undo each other; the code's carried variables \<open>z\<close> and
  \<open>y\<close> are those neighbours.
\<close>

section \<open>Words and bytes\<close>

definition word_of_bytes :: "byte list \<Rightarrow> u32" where
  "word_of_bytes bs = foldr (\<lambda>b w. ucast b OR push_bit 8 w) bs 0"

definition bytes_of_word :: "u32 \<Rightarrow> byte list" where
  "bytes_of_word w = map (\<lambda>i. ucast (drop_bit (8 * i) w)) [0..<4]"

fun words_of_bytes :: "byte list \<Rightarrow> u32 list" where
  "words_of_bytes [] = []"
| "words_of_bytes (b # bs) =
     word_of_bytes (take 4 (b # bs)) # words_of_bytes (drop 4 (b # bs))"

definition xxtea_to_uint_array :: "byte list \<Rightarrow> bool \<Rightarrow> u32 list" where
  "xxtea_to_uint_array data inc_len =
     words_of_bytes data @ (if inc_len then [of_nat (length data)] else [])"

text \<open>\<open>None\<close> is \<open>NULL\<close>; the caller's array is not empty.\<close>

definition xxtea_to_ubyte_array :: "u32 list \<Rightarrow> bool \<Rightarrow> byte list option" where
  "xxtea_to_ubyte_array data inc_len =
     (let n = 4 * length data; bytes = concat (map bytes_of_word data)
      in if inc_len then
           (let m = unat (data ! (length data - 1)); n' = n - 4
            in if m < size_sub n' 3 \<or> n' < m then None else Some (take m bytes))
         else Some (take n bytes))"

section \<open>The cipher\<close>

definition DELTA :: u32 where
  "DELTA = 0x9e3779b9"

definition MX :: "u32 \<Rightarrow> u32 \<Rightarrow> u32 \<Rightarrow> u32 list \<Rightarrow> nat \<Rightarrow> u32 \<Rightarrow> u32" where
  "MX z y sm key p e =
     (((drop_bit 5 z XOR push_bit 2 y) + (drop_bit 3 y XOR push_bit 4 z))
      XOR ((sm XOR y) + (key ! unat ((of_nat p AND 3) XOR e) XOR z)))"

definition round_e :: "u32 \<Rightarrow> u32" where
  "round_e sm = drop_bit 2 sm AND 3"

definition enc_step :: "u32 list \<Rightarrow> u32 \<Rightarrow> u32 \<times> u32 list \<Rightarrow> nat \<Rightarrow> u32 \<times> u32 list" where
  "enc_step key sm zd p = (case zd of (z, data) \<Rightarrow>
     (let y = data ! (p + 1); v = data ! p + MX z y sm key p (round_e sm)
      in (v, data[p := v])))"

definition enc_round :: "u32 list \<Rightarrow> nat \<Rightarrow> u32 \<Rightarrow> u32 \<times> u32 list \<Rightarrow> u32 \<times> u32 list" where
  "enc_round key n sm zd =
     (case foldl (enc_step key sm) zd [0..<n] of (z, data) \<Rightarrow>
       (let y = data ! 0; v = data ! n + MX z y sm key n (round_e sm)
        in (v, data[n := v])))"

text \<open>\<open>while (0 < q--)\<close> with \<open>sum\<close> advancing at the top of the body.\<close>

fun enc_rounds :: "u32 list \<Rightarrow> nat \<Rightarrow> nat \<Rightarrow> u32 \<Rightarrow> u32 \<times> u32 list \<Rightarrow> u32 \<times> u32 list" where
  "enc_rounds key n 0 sm zd = zd"
| "enc_rounds key n (Suc q) sm zd =
     enc_rounds key n q (sm + DELTA) (enc_round key n (sm + DELTA) zd)"

definition last_index :: "u32 list \<Rightarrow> nat" where
  "last_index data = unat ((of_nat (length data) :: u32) - 1)"

definition rounds :: "nat \<Rightarrow> nat" where
  "rounds n = 6 + 52 div (n + 1)"

definition xxtea_uint_encrypt :: "u32 list \<Rightarrow> u32 list \<Rightarrow> u32 list" where
  "xxtea_uint_encrypt data key =
     (let n = last_index data; z = data ! n
      in if n < 1 then data else snd (enc_rounds key n (rounds n) 0 (z, data)))"

definition dec_step :: "u32 list \<Rightarrow> u32 \<Rightarrow> u32 \<times> u32 list \<Rightarrow> nat \<Rightarrow> u32 \<times> u32 list" where
  "dec_step key sm yd p = (case yd of (y, data) \<Rightarrow>
     (let z = data ! (p - 1); v = data ! p - MX z y sm key p (round_e sm)
      in (v, data[p := v])))"

definition dec_round :: "u32 list \<Rightarrow> nat \<Rightarrow> u32 \<Rightarrow> u32 \<times> u32 list \<Rightarrow> u32 \<times> u32 list" where
  "dec_round key n sm yd =
     (case foldl (dec_step key sm) yd (rev [1..<n + 1]) of (y, data) \<Rightarrow>
       (let z = data ! n; v = data ! 0 - MX z y sm key 0 (round_e sm)
        in (v, data[0 := v])))"

definition dec_rounds :: "u32 list \<Rightarrow> nat \<Rightarrow> u32 \<Rightarrow> u32 \<times> u32 list \<Rightarrow> (u32 \<times> u32 \<times> u32 list) option" where
  "dec_rounds key n sm yd =
     while_option (\<lambda>(sm, yd). sm \<noteq> 0) (\<lambda>(sm, yd). (sm - DELTA, dec_round key n sm yd)) (sm, yd)"

text \<open>\<open>None\<close> when the loop does not end.\<close>

definition xxtea_uint_decrypt :: "u32 list \<Rightarrow> u32 list \<Rightarrow> u32 list option" where
  "xxtea_uint_decrypt data key =
     (let n = last_index data; y = data ! 0
      in if n < 1 then Some data
         else map_option (\<lambda>(sm, yd). snd yd)
           (dec_rounds key n (of_nat (rounds n) * DELTA) (y, data)))"

section \<open>The byte interface\<close>

text \<open>\<open>FIXED_KEY\<close>: the 16 bytes from \<open>key\<close>, with those after the first NUL cleared.\<close>

definition fixed_key :: "byte list \<Rightarrow> byte list option" where
  "fixed_key key =
     (if length key < 16 then None
      else let k = take 16 key; i = length (takeWhile (\<lambda>b. b \<noteq> 0) k)
           in Some (map (\<lambda>j. if j \<le> i then k ! j else 0) [0..<16]))"

definition xxtea_ubyte_encrypt :: "byte list \<Rightarrow> byte list \<Rightarrow> byte list option" where
  "xxtea_ubyte_encrypt data key =
     (if data = [] then None
      else xxtea_to_ubyte_array (xxtea_uint_encrypt (xxtea_to_uint_array data True)
             (xxtea_to_uint_array key False)) False)"

definition xxtea_ubyte_decrypt :: "byte list \<Rightarrow> byte list \<Rightarrow> byte list option option" where
  "xxtea_ubyte_decrypt data key =
     (if data = [] then Some None
      else map_option (\<lambda>ws. xxtea_to_ubyte_array ws True)
        (xxtea_uint_decrypt (xxtea_to_uint_array data False) (xxtea_to_uint_array key False)))"

definition xxtea_encrypt :: "byte list \<Rightarrow> byte list \<Rightarrow> byte list option option" where
  "xxtea_encrypt data key =
     (case fixed_key key of None \<Rightarrow> None | Some k \<Rightarrow> Some (xxtea_ubyte_encrypt data k))"

definition xxtea_decrypt :: "byte list \<Rightarrow> byte list \<Rightarrow> byte list option option" where
  "xxtea_decrypt data key =
     (case fixed_key key of None \<Rightarrow> None | Some k \<Rightarrow> xxtea_ubyte_decrypt data k)"

section \<open>Bytes and words are inverse\<close>

lemma word_of_bytes_4:
  "word_of_bytes [a, b, c, d] = ucast a OR push_bit 8 (ucast b OR push_bit 8 (ucast c OR push_bit 8 (ucast d)))"
  by (simp add: word_of_bytes_def)

lemma upt_4: "[0..<4] = [0, 1, 2, 3 :: nat]"
  by (simp add: upt_rec)

lemma byte_at:
  fixes a b c d :: byte
  defines "w \<equiv> ucast a OR push_bit 8 (ucast b OR push_bit 8 (ucast c OR push_bit 8 (ucast d))) :: u32"
  shows "ucast (drop_bit 0 w) = a" "ucast (drop_bit 8 w) = b" "ucast (drop_bit 16 w) = c"
    "ucast (drop_bit 24 w) = d"
proof -
  have off: "\<not> bit (a :: byte) (n + 8)" "\<not> bit (a :: byte) (n + 16)" "\<not> bit (a :: byte) (n + 24)"
    for n a by (auto dest: bit_imp_le_length)
  have w: "bit w n \<longleftrightarrow> n < 32 \<and> (bit a n \<or> 8 \<le> n \<and> bit b (n - 8) \<or> 16 \<le> n \<and> bit c (n - 16)
      \<or> 24 \<le> n \<and> bit d (n - 24))" for n
    unfolding w_def by (auto simp: bit_simps)
  show "ucast (drop_bit 0 w) = a" "ucast (drop_bit 8 w) = b" "ucast (drop_bit 16 w) = c"
    "ucast (drop_bit 24 w) = d"
    by (rule bit_word_eqI; auto simp: bit_simps w dest: bit_imp_le_length)+
qed

lemma bytes_of_word_of_bytes: "bytes_of_word (word_of_bytes [a, b, c, d]) = [a, b, c, d]"
  unfolding bytes_of_word_def word_of_bytes_4 upt_4 using byte_at [of a b c d] by simp

lemma word_of_bytes_of_word: "word_of_bytes (bytes_of_word w) = w"
proof -
  have "ucast (ucast w :: byte) OR push_bit 8 (ucast (ucast (drop_bit 8 w) :: byte) OR push_bit 8
      (ucast (ucast (drop_bit 16 w) :: byte) OR push_bit 8 (ucast (ucast (drop_bit 24 w) :: byte))))
      = w" (is "?l = w")
  proof (rule bit_word_eqI)
    fix n assume "n < LENGTH(32)"
    then have "n < 8 \<or> 8 \<le> n \<and> n < 16 \<or> 16 \<le> n \<and> n < 24 \<or> 24 \<le> n \<and> n < 32" by auto
    then show "bit ?l n = bit w n" by (elim disjE) (auto simp: bit_simps)
  qed
  then show ?thesis unfolding bytes_of_word_def upt_4 by (simp add: word_of_bytes_4)
qed

lemma word_of_bytes_pad: "word_of_bytes (bs @ replicate k 0) = word_of_bytes bs"
proof -
  have "foldr (\<lambda>b w. ucast (b :: byte) OR push_bit 8 w) (replicate k 0) (0 :: u32) = 0"
    by (induction k) auto
  then show ?thesis by (simp add: word_of_bytes_def)
qed

lemma length_4_ex: "length xs = 4 \<Longrightarrow> \<exists>a b c d. xs = [a, b, c, d]"
  by (auto simp: numeral_eq_Suc length_Suc_conv)

lemma bytes_of_word_pad:
  assumes "length bs \<le> 4"
  shows "bytes_of_word (word_of_bytes bs) = bs @ replicate (4 - length bs) 0"
proof -
  from assms have "length (bs @ replicate (4 - length bs) 0) = 4" by simp
  from length_4_ex [OF this] obtain a b c d where "bs @ replicate (4 - length bs) 0 = [a, b, c, d]"
    by blast
  with bytes_of_word_of_bytes [of a b c d] word_of_bytes_pad [of bs "4 - length bs"] show ?thesis
    by simp
qed

lemma length_bytes_of_word [simp]: "length (bytes_of_word w) = 4"
  by (simp add: bytes_of_word_def)

lemma words_of_bytes_step:
  "bs \<noteq> [] \<Longrightarrow> words_of_bytes bs = word_of_bytes (take 4 bs) # words_of_bytes (drop 4 bs)"
  by (cases bs) simp_all

lemma length_words_of_bytes: "length (words_of_bytes bs) = (length bs + 3) div 4"
proof (induction bs rule: words_of_bytes.induct)
  case (2 b bs)
  then have "length (words_of_bytes (b # bs)) = Suc ((length (b # bs) - 4 + 3) div 4)"
    by simp
  also have "\<dots> = (length (b # bs) + 3) div 4"
    by (cases "length (b # bs) \<le> 4") auto
  finally show ?case .
qed simp

lemma bytes_of_words_of_bytes:
  "\<exists>k. concat (map bytes_of_word (words_of_bytes bs)) = bs @ replicate k 0"
proof (induction bs rule: words_of_bytes.induct)
  case (2 b bs)
  then obtain k where k: "concat (map bytes_of_word (words_of_bytes (drop 4 (b # bs))))
      = drop 4 (b # bs) @ replicate k 0" by blast
  have w: "bytes_of_word (word_of_bytes (take 4 (b # bs)))
      = take 4 (b # bs) @ replicate (4 - length (take 4 (b # bs))) 0"
    by (rule bytes_of_word_pad) simp
  show ?case
  proof (cases "length (b # bs) < 4")
    case True
    then have "drop 4 (b # bs) = []" by simp
    with w k words_of_bytes_step [of "b # bs"] show ?thesis
      by (intro exI [of _ "4 - length (b # bs)"]) (use True in simp)
  next
    case False
    with w have "bytes_of_word (word_of_bytes (take 4 (b # bs))) = take 4 (b # bs)"
      by simp
    then have "concat (map bytes_of_word (words_of_bytes (b # bs)))
        = take 4 (b # bs) @ (drop 4 (b # bs) @ replicate k 0)"
      unfolding words_of_bytes.simps(2) list.map(2) concat.simps(2) k by (rule arg_cong)
    then show ?thesis
      unfolding append_assoc [symmetric] append_take_drop_id by (rule exI)
  qed
qed simp

lemma words_of_bytes_of_words: "words_of_bytes (concat (map bytes_of_word ws)) = ws"
proof (induction ws)
  case (Cons w ws)
  let ?bs = "bytes_of_word w @ concat (map bytes_of_word ws)"
  have "?bs \<noteq> []" using length_bytes_of_word [of w] by (cases "bytes_of_word w") auto
  then show ?case using Cons words_of_bytes_step [of ?bs] by (simp add: word_of_bytes_of_word)
qed simp

section \<open>One step undoes the other\<close>

definition prv :: "nat \<Rightarrow> nat \<Rightarrow> nat" where
  "prv n p = (if p = 0 then n else p - 1)"

definition nxt :: "nat \<Rightarrow> nat \<Rightarrow> nat" where
  "nxt n p = (if p = n then 0 else p + 1)"

definition enc_at :: "u32 list \<Rightarrow> u32 \<Rightarrow> nat \<Rightarrow> nat \<Rightarrow> u32 list \<Rightarrow> u32 list" where
  "enc_at key sm n p d =
     d[p := d ! p + MX (d ! prv n p) (d ! nxt n p) sm key p (round_e sm)]"

definition dec_at :: "u32 list \<Rightarrow> u32 \<Rightarrow> nat \<Rightarrow> nat \<Rightarrow> u32 list \<Rightarrow> u32 list" where
  "dec_at key sm n p d =
     d[p := d ! p - MX (d ! prv n p) (d ! nxt n p) sm key p (round_e sm)]"

lemma dec_enc_at:
  assumes "0 < n" "length d = n + 1" "p \<le> n"
  shows "dec_at key sm n p (enc_at key sm n p d) = d"
proof -
  have "prv n p \<noteq> p" "nxt n p \<noteq> p" "p < length d"
    using assms by (auto simp: prv_def nxt_def)
  then show ?thesis by (simp add: enc_at_def dec_at_def)
qed

lemma length_enc_at [simp]: "length (enc_at key sm n p d) = length d"
  by (simp add: enc_at_def)

lemma length_enc_ats [simp]: "length (fold (enc_at key sm n) ps d) = length d"
  by (induction ps arbitrary: d) simp_all

lemma dec_enc_ats:
  assumes "0 < n" "length d = n + 1" "\<forall>p\<in>set ps. p \<le> n"
  shows "fold (dec_at key sm n) (rev ps) (fold (enc_at key sm n) ps d) = d"
  using assms(2,3)
proof (induction ps arbitrary: d)
  case (Cons p ps)
  then show ?case by (simp add: dec_enc_at [OF assms(1)])
qed simp

lemma length_dec_at [simp]: "length (dec_at key sm n p d) = length d"
  by (simp add: dec_at_def)

lemma length_dec_ats [simp]: "length (fold (dec_at key sm n) ps d) = length d"
  by (induction ps arbitrary: d) simp_all

text \<open>The carried \<open>z\<close> is the word before the next one to change, \<open>y\<close> the one after it.\<close>

lemma enc_step_at:
  "p < n \<Longrightarrow> p < length d \<Longrightarrow>
    enc_step key sm (d ! prv n p, d) p = (enc_at key sm n p d ! prv n (Suc p), enc_at key sm n p d)"
  by (simp add: enc_step_def enc_at_def nxt_def Let_def) (simp add: prv_def)

lemma dec_step_at:
  "0 < p \<Longrightarrow> p < length d \<Longrightarrow>
    dec_step key sm (d ! nxt n p, d) p = (dec_at key sm n p d ! p, dec_at key sm n p d)"
  by (simp add: dec_step_def dec_at_def prv_def Let_def)

lemma enc_steps:
  assumes "length d = n + 1" "k \<le> n"
  shows "foldl (enc_step key sm) (d ! n, d) [0..<k]
    = (fold (enc_at key sm n) [0..<k] d ! prv n k, fold (enc_at key sm n) [0..<k] d)"
  using assms(2)
proof (induction k)
  case 0
  then show ?case by (simp add: prv_def)
next
  case (Suc k)
  then show ?case using assms(1) by (simp add: enc_step_at)
qed

lemma enc_round_fold:
  assumes "length d = n + 1" "0 < n"
  shows "enc_round key n sm (d ! n, d)
    = (fold (enc_at key sm n) [0..<n + 1] d ! n, fold (enc_at key sm n) [0..<n + 1] d)"
proof -
  let ?d = "fold (enc_at key sm n) [0..<n] d"
  have "enc_round key n sm (d ! n, d) = (let y = ?d ! 0; v = ?d ! n
      + MX (?d ! prv n n) y sm key n (round_e sm) in (v, ?d[n := v]))"
    by (simp only: enc_round_def enc_steps [OF assms(1) order_refl] prod.case)
  moreover have "fold (enc_at key sm n) [0..<n + 1] d = enc_at key sm n n ?d" by simp
  ultimately show ?thesis using assms by (simp add: enc_at_def [of _ _ _ n] nxt_def Let_def)
qed

lemma rev_upt_Suc: "k < n \<Longrightarrow> rev [n - Suc k + 1..<n + 1] = rev [n - k + 1..<n + 1] @ [n - k]"
proof -
  assume "k < n"
  then have "n - Suc k + 1 = n - k" "n - k < n + 1" by auto
  then show ?thesis using upt_conv_Cons [of "n - k" "n + 1"] by (simp only: rev.simps Suc_eq_plus1)
qed

lemma dec_steps:
  assumes "length d = n + 1" "k \<le> n"
  shows "foldl (dec_step key sm) (d ! 0, d) (rev [n - k + 1..<n + 1])
    = (fold (dec_at key sm n) (rev [n - k + 1..<n + 1]) d ! nxt n (n - k),
       fold (dec_at key sm n) (rev [n - k + 1..<n + 1]) d)"
  using assms(2)
proof (induction k)
  case 0
  then show ?case by (simp add: nxt_def)
next
  case (Suc k)
  let ?d = "fold (dec_at key sm n) (rev [n - k + 1..<n + 1]) d"
  have "nxt n (n - Suc k) = n - k" using Suc.prems by (auto simp: nxt_def)
  moreover have "dec_step key sm (?d ! nxt n (n - k), ?d) (n - k)
      = (dec_at key sm n (n - k) ?d ! (n - k), dec_at key sm n (n - k) ?d)"
    using Suc.prems assms(1) by (intro dec_step_at) simp_all
  ultimately show ?case
    using Suc unfolding rev_upt_Suc [OF Suc_le_lessD [OF Suc.prems]] foldl_append fold_append by simp
qed

lemma dec_round_fold:
  assumes "length d = n + 1" "0 < n"
  shows "dec_round key n sm (d ! 0, d)
    = (fold (dec_at key sm n) (rev [0..<n + 1]) d ! 0, fold (dec_at key sm n) (rev [0..<n + 1]) d)"
proof -
  let ?d = "fold (dec_at key sm n) (rev [1..<n + 1]) d"
  have steps: "foldl (dec_step key sm) (d ! 0, d) (rev [1..<n + 1]) = (?d ! nxt n 0, ?d)"
    using dec_steps [OF assms(1) order_refl, of key sm] by simp
  have "dec_round key n sm (d ! 0, d) = (let z = ?d ! n; v = ?d ! 0
      - MX z (?d ! nxt n 0) sm key 0 (round_e sm) in (v, ?d[0 := v]))"
    by (simp only: dec_round_def steps prod.case)
  moreover have "fold (dec_at key sm n) (rev [0..<n + 1]) d = dec_at key sm n 0 ?d"
    by (simp add: upt_conv_Cons del: upt_Suc)
  ultimately show ?thesis using assms by (simp add: dec_at_def [of _ _ _ 0] prv_def Let_def)
qed

lemma dec_enc_round:
  assumes "length d = n + 1" "0 < n" and d'_def: "d' = snd (enc_round key n sm (d ! n, d))"
  shows "dec_round key n sm (d' ! 0, d') = (d ! 0, d)"
    and "enc_round key n sm (d ! n, d) = (d' ! n, d')" and "length d' = n + 1"
proof -
  have d': "d' = fold (enc_at key sm n) [0..<n + 1] d"
    unfolding d'_def enc_round_fold [OF assms(1,2)] by simp
  then show len: "length d' = n + 1" using assms(1) by simp
  show "enc_round key n sm (d ! n, d) = (d' ! n, d')"
    unfolding enc_round_fold [OF assms(1,2)] d' by simp
  have "fold (dec_at key sm n) (rev [0..<n + 1]) d' = d"
    unfolding d' by (rule dec_enc_ats [OF assms(2,1)]) auto
  with dec_round_fold [OF len assms(2), of key sm] show "dec_round key n sm (d' ! 0, d') = (d ! 0, d)"
    by simp
qed

section \<open>The decryption loop ends\<close>

lemma delta_multiple_nonzero:
  assumes "0 < k" "k < 2 ^ 32"
  shows "(of_nat k * DELTA :: u32) \<noteq> 0"
proof
  assume "(of_nat k * DELTA :: u32) = 0"
  then have "(of_nat (k * 0x9e3779b9) :: u32) = 0"
    by (simp only: DELTA_def of_nat_mult of_nat_numeral)
  then have "2 ^ LENGTH(32) dvd k * (0x9e3779b9 :: nat)" by (simp only: word_of_nat_eq_0_iff)
  then have "2 ^ 32 dvd k * (0x9e3779b9 :: nat)" by simp
  moreover have "coprime (2 ^ 32 :: nat) 0x9e3779b9"
  proof -
    have "coprime (2 :: nat) 0x9e3779b9" by (simp add: coprime_left_2_iff_odd)
    then show ?thesis unfolding coprime_power_left_iff by (rule disjI1)
  qed
  ultimately have "2 ^ 32 dvd k" by (simp only: coprime_dvd_mult_left_iff)
  from dvd_imp_le [OF this assms(1)] assms(2) show False by (simp only: not_less)
qed

lemma dec_rounds_step:
  assumes "0 < k" "k < 2 ^ 32"
  shows "dec_rounds key n (of_nat k * DELTA) yd
    = dec_rounds key n (of_nat (k - 1) * DELTA) (dec_round key n (of_nat k * DELTA) yd)"
proof -
  have "(of_nat k * DELTA :: u32) - DELTA = of_nat (k - 1) * DELTA"
    using assms by (simp add: of_nat_diff algebra_simps)
  then show ?thesis
    unfolding dec_rounds_def using delta_multiple_nonzero [OF assms]
    by (subst while_option_unfold) simp
qed

lemma dec_rounds_zero: "dec_rounds key n (of_nat 0 * DELTA) yd = Some (0, yd)"
  unfolding dec_rounds_def by (subst while_option_unfold) simp

lemma dec_rounds_total: "k < 2 ^ 32 \<Longrightarrow> \<exists>r. dec_rounds key n (of_nat k * DELTA) yd = Some r"
proof (induction k arbitrary: yd)
  case 0
  then show ?case using dec_rounds_zero by blast
next
  case (Suc k)
  then show ?case using dec_rounds_step [of "Suc k" key n yd] by simp
qed

text \<open>Encrypting \<open>q\<close> rounds after round \<open>k\<close>, then decrypting \<open>k + q\<close> rounds down to \<open>k\<close>.\<close>

lemma dec_enc_rounds:
  assumes "length d = n + 1" "0 < n" "k + q < 2 ^ 32"
    and d'_def: "d' = snd (enc_rounds key n q (of_nat k * DELTA) (d ! n, d))"
  shows "dec_rounds key n (of_nat (k + q) * DELTA) (d' ! 0, d')
      = dec_rounds key n (of_nat k * DELTA) (d ! 0, d) \<and> length d' = n + 1"
  using assms(1,3) unfolding d'_def
proof (induction q arbitrary: k d)
  case (Suc q)
  let ?sm = "of_nat (Suc k) * DELTA :: u32"
  define d1 where "d1 = snd (enc_round key n ?sm (d ! n, d))"
  note r = dec_enc_round [OF Suc.prems(1) assms(2) d1_def]
  have sm: "of_nat k * DELTA + DELTA = ?sm" by (simp add: algebra_simps)
  have step: "enc_rounds key n (Suc q) (of_nat k * DELTA) (d ! n, d)
      = enc_rounds key n q ?sm (d1 ! n, d1)"
    by (simp only: enc_rounds.simps sm r(2))
  have "dec_rounds key n (of_nat (Suc k) * DELTA) (d1 ! 0, d1)
      = dec_rounds key n (of_nat k * DELTA) (d ! 0, d)"
    using dec_rounds_step [of "Suc k" key n "(d1 ! 0, d1)"] Suc.prems(2) r(1)
    by (simp only: diff_Suc_1 zero_less_Suc) simp?
  with Suc.IH [OF r(3), of "Suc k"] Suc.prems(2) show ?case
    unfolding step by simp
qed simp

section \<open>Properties\<close>

lemma unat_u32: "n < 2 ^ 32 \<Longrightarrow> unat (of_nat n :: u32) = n"
  by (simp add: unat_of_nat take_bit_nat_eq_self)

lemma last_index_eq: "0 < length d \<Longrightarrow> length d < 2 ^ 32 \<Longrightarrow> last_index d = length d - 1"
proof -
  assume l: "0 < length d" "length d < 2 ^ 32"
  have "1 \<le> length d" using l by linarith
  then have "(of_nat (length d) :: u32) - 1 = of_nat (length d - 1)" by (simp only: of_nat_diff of_nat_1)
  moreover have "unat (of_nat (length d - 1) :: u32) = length d - 1"
    using l by (intro unat_u32) linarith
  ultimately show ?thesis by (simp add: last_index_def)
qed

lemma rounds_bound: "rounds n < 2 ^ 32"
proof -
  have "52 div (n + 1) \<le> 52" by (rule div_le_dividend)
  moreover have "(58 :: nat) < 2 ^ 32" by simp
  ultimately show ?thesis unfolding rounds_def by linarith
qed

text \<open>
  The decryption loop, which runs until the round constant's multiple has come down to zero,
  ends for every array of words and every key: the constant is odd, so its multiples by the at
  most 58 rounds are not zero.
\<close>

theorem xxtea_uint_decrypt_total: "\<exists>ws. xxtea_uint_decrypt data key = Some ws"
  using dec_rounds_total [OF rounds_bound]
  by (simp add: xxtea_uint_decrypt_def Let_def) blast

lemma xxtea_uint_roundtrip:
  assumes "0 < length d" "length d < 2 ^ 32"
  shows "xxtea_uint_decrypt (xxtea_uint_encrypt d key) key = Some d
    \<and> length (xxtea_uint_encrypt d key) = length d"
proof (cases "length d = 1")
  case True
  then show ?thesis
    by (simp add: xxtea_uint_encrypt_def xxtea_uint_decrypt_def last_index_eq)
next
  case False
  define n where "n = length d - 1"
  have n: "length d = n + 1" "0 < n" using False assms(1) unfolding n_def by linarith+
  define d' where "d' = snd (enc_rounds key n (rounds n) (of_nat 0 * DELTA) (d ! n, d))"
  have "0 + rounds n < 2 ^ 32" using rounds_bound by simp
  note r = dec_enc_rounds [OF n this d'_def]
  have li: "last_index d = n" "last_index d' = n"
    using assms n r by (simp_all add: last_index_eq)
  have "xxtea_uint_encrypt d key = d'"
    using li n by (simp add: xxtea_uint_encrypt_def d'_def)
  moreover have "dec_rounds key n (of_nat (rounds n) * DELTA) (d' ! 0, d') = Some (0, d ! 0, d)"
    using r dec_rounds_zero [of key n "(d ! 0, d)"] by simp
  ultimately show ?thesis using li n conjunct2 [OF r] by (simp add: xxtea_uint_decrypt_def)
qed

lemma xxtea_ubyte_roundtrip:
  assumes "data \<noteq> []" and "length data < 2 ^ 32 - 4"
  shows "\<exists>c. xxtea_ubyte_encrypt data k = Some c \<and> c \<noteq> [] \<and> xxtea_ubyte_decrypt c k = Some (Some data)"
proof -
  define kw where "kw = xxtea_to_uint_array k False"
  define ws where "ws = words_of_bytes data @ [of_nat (length data)]"
  define cs where "cs = xxtea_uint_encrypt ws kw"
  define c where "c = concat (map bytes_of_word cs)"
  have m: "length ws = (length data + 3) div 4 + 1" by (simp add: ws_def length_words_of_bytes)
  have "length ws < 2 ^ 32" using m assms(2) by linarith
  from xxtea_uint_roundtrip [OF _ this, of kw] m
  have r: "xxtea_uint_decrypt cs kw = Some ws" "length cs = length ws" by (simp_all add: cs_def)
  have lc: "length c = 4 * length cs"
    by (simp add: c_def length_concat comp_def) (simp add: sum_list_triv)
  have enc: "xxtea_ubyte_encrypt data k = Some c"
  proof -
    have "xxtea_to_uint_array data True = ws" by (simp add: xxtea_to_uint_array_def ws_def)
    then have "xxtea_ubyte_encrypt data k = xxtea_to_ubyte_array cs False"
      using assms(1) by (simp add: xxtea_ubyte_encrypt_def kw_def cs_def)
    with lc show ?thesis
      by (simp add: xxtea_to_ubyte_array_def Let_def c_def [symmetric])
  qed
  obtain z where z: "concat (map bytes_of_word (words_of_bytes data)) = data @ replicate z 0"
    using bytes_of_words_of_bytes by blast
  have len: "unat (ws ! (length ws - 1)) = length data"
    using assms(2) unat_u32 [of "length data"] by (simp add: ws_def)
  have bounds: "\<not> length data < size_sub (4 * length ws - 4) 3" "\<not> 4 * length ws - 4 < length data"
  proof -
    have d: "0 < length data" using assms(1) by simp
    have q: "length data \<le> 4 * ((length data + 3) div 4)"
      "4 * ((length data + 3) div 4) \<le> length data + 3" by presburger+
    have w: "4 * length ws - 4 = 4 * ((length data + 3) div 4)" using m by simp
    have "3 \<le> 4 * ((length data + 3) div 4)" using d q by presburger
    then have "size_sub (4 * length ws - 4) 3 = 4 * length ws - 4 - 3" using w by simp
    with w q show "\<not> length data < size_sub (4 * length ws - 4) 3" by linarith
    from w q show "\<not> 4 * length ws - 4 < length data" by linarith
  qed
  have bytes: "take (length data) (concat (map bytes_of_word ws)) = data"
    by (simp add: ws_def z)
  have "xxtea_to_ubyte_array ws True = Some data"
    using len bounds bytes by (simp add: xxtea_to_ubyte_array_def Let_def)
  moreover have ne: "c \<noteq> []" using lc r(2) m by auto
  moreover have "xxtea_to_uint_array c False = cs"
    by (simp add: xxtea_to_uint_array_def c_def words_of_bytes_of_words)
  ultimately have "xxtea_ubyte_decrypt c k = Some (Some data)"
    using r(1) by (simp add: xxtea_ubyte_decrypt_def kw_def [symmetric])
  with enc ne show ?thesis by blast
qed

text \<open>
  C3: XXTEA round trip. Every non-empty byte string shorter than \<open>2 ^ 32 - 4\<close>, encrypted
  under any key of at least 16 bytes, decrypts under that key to exactly itself: neither the
  padding nor the appended length is lost, and the length check of the decoder never rejects it.
\<close>

theorem xxtea_roundtrip:
  assumes "data \<noteq> []" and "length data < 2 ^ 32 - 4" and "16 \<le> length key"
  shows "\<exists>c. xxtea_encrypt data key = Some (Some c) \<and> xxtea_decrypt c key = Some (Some data)"
proof -
  obtain k where "fixed_key key = Some k" using assms(3) by (simp add: fixed_key_def Let_def)
  with xxtea_ubyte_roundtrip [OF assms(1,2), of k] show ?thesis by (auto simp: xxtea_encrypt_def xxtea_decrypt_def)
qed

theorem xxtea_roundtrip_witness:
  "\<exists>c. xxtea_encrypt [1, 2, 3, 0, 5] (replicate 16 7) = Some (Some c)
    \<and> xxtea_decrypt c (replicate 16 7) = Some (Some [1, 2, 3, 0, 5])"
  by (rule xxtea_roundtrip) simp_all

text \<open>
  The key is what comes before its first NUL: two keys that agree up to there encrypt alike,
  whatever follows.
\<close>

theorem xxtea_key_stops_at_nul:
  assumes "length pre < 16" and "0 \<notin> set pre" and "length (pre @ 0 # a) = length (pre @ 0 # b)"
    and "16 \<le> length (pre @ 0 # a)"
  shows "xxtea_encrypt data (pre @ 0 # a) = xxtea_encrypt data (pre @ 0 # b)"
proof -
  have fk: "fixed_key (pre @ 0 # x)
      = Some (map (\<lambda>j. if j \<le> length pre then (pre @ [0]) ! j else 0) [0..<16])"
    if "16 \<le> length (pre @ 0 # x)" for x
  proof -
    have t: "take 16 (pre @ 0 # x) = pre @ 0 # take (15 - length pre) x"
      using assms(1) by (simp add: take_Cons')
    have i: "length (takeWhile (\<lambda>b. b \<noteq> 0) (take 16 (pre @ 0 # x))) = length pre"
      unfolding t using assms(2) by (subst takeWhile_append2) auto
    have "(take 16 (pre @ 0 # x)) ! j = (pre @ [0]) ! j" if "j \<le> length pre" for j
      unfolding t using that by (simp add: nth_append)
    with i that show ?thesis by (simp add: fixed_key_def Let_def)
  qed
  from fk [of a] fk [of b] assms(3,4) show ?thesis by (simp add: xxtea_encrypt_def)
qed

theorem xxtea_key_stops_at_nul_witness:
  "xxtea_encrypt [9] (replicate 8 1 @ 0 # replicate 9 2) = xxtea_encrypt [9] (replicate 8 1 @ 0 # replicate 9 3)"
  by (rule xxtea_key_stops_at_nul) simp_all

end
