(* ===== verification/Bee_Algorithm.thy ===== *)
theory Bee_Algorithm
  imports Bee_Strings
begin

text \<open>
  The helpers of src/utility/algorithm.h, the path and trimming functions of
  src/utility/file_util.cpp and the string replacement of src/utility/crypto.cpp.

  \<open>Split\<close> is a loop whose position does not advance when the separator is empty: it is a
  \<open>partial_function\<close>, and \<open>None\<close> means that it does not return. Elsewhere \<open>None\<close> is an
  access outside the string.
\<close>

section \<open>Split\<close>

partial_function (option) split_loop ::
    "string \<Rightarrow> string \<Rightarrow> nat \<Rightarrow> string list \<Rightarrow> string list option" where
  "split_loop input spliter last_pos result =
     (if \<not> last_pos < length input then Some result
      else case str_find input spliter last_pos of
          None \<Rightarrow> Some (result @ [substr_from input last_pos])
        | Some pos \<Rightarrow>
            split_loop input spliter (pos + length spliter)
              (result @ [substr input last_pos (pos - last_pos)]))"

declare split_loop.simps [code]

definition Split :: "string list \<Rightarrow> string \<Rightarrow> string \<Rightarrow> string list option" where
  "Split result input spliter = split_loop input spliter 0 result"

lemma split_loop_total:
  assumes "spliter \<noteq> []"
  shows "\<exists>r. split_loop input spliter p acc = Some r"
proof (induction "length input - p" arbitrary: p acc rule: less_induct)
  case less
  show ?case
  proof (cases "p < length input")
    case False
    then show ?thesis by (simp add: split_loop.simps)
  next
    case True
    show ?thesis
    proof (cases "str_find input spliter p")
      case None
      with True show ?thesis by (simp add: split_loop.simps)
    next
      case (Some i)
      with str_find_bound [OF Some] assms True have "length input - (i + length spliter) < length input - p"
        by (cases spliter) auto
      from less [OF this] True Some show ?thesis by (subst split_loop.simps) simp
    qed
  qed
qed

text \<open>With an empty separator the position never moves, so a non-empty input keeps it looping.\<close>

lemma find_sub_empty [simp]: "find_sub [] s = Some 0"
  by (cases s) simp_all

lemma split_loop_stuck:
  assumes "split_loop input [] p acc = Some r"
  shows "length input \<le> p"
proof -
  have "[] = ([] :: string) \<longrightarrow> length input \<le> p"
  proof (rule split_loop.raw_induct [where P = "\<lambda>i sp q acc r. sp = [] \<longrightarrow> length i \<le> q", OF _ assms])
    fix f :: "string \<Rightarrow> string \<Rightarrow> nat \<Rightarrow> string list \<Rightarrow> string list option"
      and i sp :: string and q :: nat and acc r :: "string list"
    assume ih: "\<And>i sp q acc r. f i sp q acc = Some r \<Longrightarrow> sp = [] \<longrightarrow> length i \<le> q"
      and eq: "(if \<not> q < length i then Some acc
        else case str_find i sp q of
            None \<Rightarrow> Some (acc @ [substr_from i q])
          | Some pos \<Rightarrow> f i sp (pos + length sp) (acc @ [substr i q (pos - q)])) = Some r"
    show "sp = [] \<longrightarrow> length i \<le> q"
    proof (intro impI, rule ccontr)
      assume sp: "sp = []" and q: "\<not> length i \<le> q"
      then have "str_find i sp q = Some q" by (simp add: str_find_def)
      with eq q sp have "f i sp q (acc @ [substr i q 0]) = Some r" by simp
      from mp [OF ih [OF this] sp] q show False by simp
    qed
  qed
  then show ?thesis by simp
qed

text \<open>
  One separator character pair that the parts do not start: the parts come back. \<open>pre\<close> is what
  was consumed already.
\<close>

lemma find_sub_notin: "c \<notin> set l \<Longrightarrow> find_sub (c # sp) l = None"
  by (induction l) (auto simp: prefix_def)

lemma find_sub_sep: "c \<notin> set l \<Longrightarrow> find_sub (c # sp) (l @ c # sp @ rest) = Some (length l)"
  by (induction l) (auto simp: prefix_def)

fun join :: "string \<Rightarrow> string list \<Rightarrow> string" where
  "join sp [] = []"
| "join sp [x] = x"
| "join sp (x # y # xs) = x @ sp @ join sp (y # xs)"

lemma split_loop_terminated:
  assumes "\<forall>l\<in>set ls. c \<notin> set l"
  shows "split_loop (pre @ concat (map (\<lambda>l. l @ c # sp) ls)) (c # sp) (length pre) acc
     = Some (acc @ ls)"
  using assms
proof (induction ls arbitrary: pre acc)
  case Nil
  then show ?case by (simp add: split_loop.simps)
next
  case (Cons l ls)
  let ?rest = "concat (map (\<lambda>l. l @ c # sp) ls)"
  have "find_sub (c # sp) (l @ c # sp @ ?rest) = Some (length l)"
    using Cons.prems by (intro find_sub_sep) simp
  then have f: "str_find (pre @ l @ c # sp @ ?rest) (c # sp) (length pre) = Some (length pre + length l)"
    by (simp add: str_find_def)
  have "split_loop ((pre @ l @ c # sp) @ ?rest) (c # sp) (length (pre @ l @ c # sp)) (acc @ [l])
      = Some ((acc @ [l]) @ ls)"
    using Cons.prems by (intro Cons.IH) simp
  then show ?case using f by (subst split_loop.simps) (simp add: substr_def algebra_simps)
qed

lemma split_loop_joined:
  assumes "ls \<noteq> []" "last ls \<noteq> []" "\<forall>l\<in>set ls. c \<notin> set l"
  shows "split_loop (pre @ join (c # sp) ls) (c # sp) (length pre) acc = Some (acc @ ls)"
  using assms
proof (induction ls arbitrary: pre acc rule: induct_list012)
  case (2 l)
  then have "find_sub (c # sp) l = None" by (simp add: find_sub_notin)
  then have "str_find (pre @ l) (c # sp) (length pre) = None" by (simp add: str_find_def)
  with 2 show ?case by (subst split_loop.simps) (simp add: substr_from_def)
next
  case (3 l m ls)
  let ?rest = "join (c # sp) (m # ls)"
  have "find_sub (c # sp) (l @ c # sp @ ?rest) = Some (length l)"
    using 3(5) by (intro find_sub_sep) simp
  then have f: "str_find (pre @ l @ c # sp @ ?rest) (c # sp) (length pre) = Some (length pre + length l)"
    by (simp add: str_find_def)
  have "split_loop ((pre @ l @ c # sp) @ ?rest) (c # sp) (length (pre @ l @ c # sp)) (acc @ [l])
      = Some ((acc @ [l]) @ m # ls)"
    using 3(4,5) by (intro "3.IH") simp_all
  then show ?case using f by (subst split_loop.simps) (simp add: substr_def algebra_simps)
qed simp

section \<open>Text\<close>

definition is_digit2 :: "string \<Rightarrow> bool" where
  "is_digit2 s \<longleftrightarrow> list_all is_digit s"

definition url_path_remove :: "string \<Rightarrow> string \<Rightarrow> string" where
  "url_path_remove url param =
     (case str_find url param 0 of
        None \<Rightarrow> url
      | Some pos_start \<Rightarrow>
          if pos_start \<noteq> 0 \<and> pos_start \<noteq> size_sub (length url) 1 then
            (case find_char url (CHR ''&'') (pos_start + length param) of
               None \<Rightarrow> take pos_start url
             | Some pos_end \<Rightarrow> substr url 0 pos_start @ substr_from url (pos_end + 1))
          else url)"

definition bee_itoa :: "int \<Rightarrow> string" where
  "bee_itoa n = show_int n"

text \<open>One pass of the loop of \<open>ip2uint\<close>: the number of this place and the next start.\<close>

definition ip_field :: "string \<Rightarrow> nat \<Rightarrow> u32 \<times> nat" where
  "ip_field ip pos_start =
     (case find_char ip (CHR ''.'') pos_start of
        None \<Rightarrow> (of_int (atoi (substr_from ip pos_start)), pos_start)
      | Some pos \<Rightarrow> (of_int (atoi (substr ip pos_start (pos - pos_start))), pos + 1))"

definition ip2uint :: "string \<Rightarrow> u32" where
  "ip2uint ip =
     (let (n0, p0) = ip_field ip 0; (n1, p1) = ip_field ip p0;
          (n2, p2) = ip_field ip p1; (n3, p3) = ip_field ip p2
      in push_bit 24 n0 + push_bit 16 n1 + push_bit 8 n2 + n3)"

text \<open>\<open>replace\<close>: the text from \<open>lastPos\<close> on, with every occurrence of a non-empty \<open>search\<close>.\<close>

function replace_from :: "string \<Rightarrow> string \<Rightarrow> string \<Rightarrow> string" where
  "replace_from search replacement target =
     (if search = [] then target
      else case find_sub search target of
          None \<Rightarrow> target
        | Some i \<Rightarrow> take i target @ replacement
            @ replace_from search replacement (drop (i + length search) target))"
  by auto
termination
proof (relation "measure (\<lambda>(s, r, t). length t)")
  fix search replacement target :: string and i
  assume "search \<noteq> []" and f: "find_sub search target = Some i"
  have "prefix search (drop i target)" using find_sub_Some [OF f] by simp
  then have "length search \<le> length (drop i target)" by (rule prefix_length_le)
  with \<open>search \<noteq> []\<close> have "0 < length search" "0 < length target" by auto
  then show "((search, replacement, drop (i + length search) target), search, replacement, target)
      \<in> measure (\<lambda>(s, r, t). length t)" by simp
qed simp

declare replace_from.simps [simp del]

definition str_replace :: "string \<Rightarrow> string \<Rightarrow> string \<Rightarrow> string" where
  "str_replace target search replacement =
     (if search = replacement \<or> search = [] then target
      else replace_from search replacement target)"

section \<open>Numbers\<close>

definition bswap32 :: "u32 \<Rightarrow> u32" where
  "bswap32 w = push_bit 24 (w AND 0xFF) OR push_bit 8 (w AND 0xFF00)
     OR drop_bit 8 (w AND 0xFF0000) OR drop_bit 24 (w AND 0xFF000000)"

text \<open>\<open>_htonll\<close> and \<open>_ntohll\<close> on a little-endian host, where \<open>htonl\<close> swaps the bytes.\<close>

definition htonll :: "u64 \<Rightarrow> u64" where
  "htonll x = push_bit 32 (ucast (bswap32 (ucast (drop_bit 32 x))))
     OR ucast (bswap32 (ucast (x AND 0xFFFFFFFF)))"

definition ntohll :: "u64 \<Rightarrow> u64" where
  "ntohll x = push_bit 32 (ucast (bswap32 (ucast (drop_bit 32 x))))
     OR ucast (bswap32 (ucast (x AND 0xFFFFFFFF)))"

definition rand_r :: "u32 \<Rightarrow> int \<times> u32" where
  "rand_r seed = (let s = seed * 1103515245 + 12345 in (uint (s div 65536) mod 32768, s))"

section \<open>Paths\<close>

text \<open>\<open>res[res.size() - 1]\<close> of an empty string is out of range.\<close>

definition path_cat :: "string \<Rightarrow> string \<Rightarrow> string option" where
  "path_cat dir filename =
     (if dir = [] then None
      else Some ((if last dir = CHR ''/'' then dir else dir @ [CHR ''/'']) @ filename))"

definition is_slash :: "char \<Rightarrow> bool" where
  "is_slash c \<longleftrightarrow> c = CHR ''/'' \<or> c = CHR 0x5C"

text \<open>The directories \<open>create_long_directory\<close> makes, in order: one per separator.\<close>

definition long_directory_prefixes :: "string \<Rightarrow> string list" where
  "long_directory_prefixes path =
     [take i path. i \<leftarrow> [0..<length path],
        is_slash (path ! i) \<and> i \<noteq> 0 \<and> path ! (i - 1) \<noteq> CHR '':'']"

definition create_long_directory :: "string \<Rightarrow> string list option" where
  "create_long_directory dir =
     (if dir = [] then None
      else Some (long_directory_prefixes
             (if last dir = CHR ''/'' then dir else dir @ [CHR ''/''])))"

definition is_blank :: "char \<Rightarrow> bool" where
  "is_blank c \<longleftrightarrow> c = CHR '' '' \<or> c = CHR 0x09"

text \<open>
  \<open>str_trim\<close>: leading blanks go first; \<open>s.end() - 1\<close> of what is then empty is out of range.
  The backward search stops at the first character even if that is blank, which it is not by then.
\<close>

definition str_trim :: "string \<Rightarrow> string option" where
  "str_trim str =
     (if str = [] then Some []
      else let s = dropWhile is_blank str
           in if s = [] then None else Some (rev (dropWhile is_blank (rev s))))"

section \<open>Properties\<close>

text \<open>
  \<open>Split\<close> gives back the parts it was given joined by a separator: for a separator whose
  first character occurs in no part, splitting the joined text, or the text in which every part
  is followed by the separator, answers exactly the parts. With an empty separator it returns
  only for the empty text: otherwise its position never moves and it appends for ever.
\<close>

theorem split_inverts_join:
  assumes "ls \<noteq> []" and "last ls \<noteq> []" and "\<forall>l\<in>set ls. c \<notin> set l"
  shows "Split [] (join (c # sp) ls) (c # sp) = Some ls
    \<and> Split [] (concat (map (\<lambda>l. l @ c # sp) ls)) (c # sp) = Some ls
    \<and> Split [] (join (c # sp) ls) [] = None"
proof -
  have "join (c # sp) ls \<noteq> []" using assms(1,2) by (cases ls rule: remdups_adj.cases) auto
  then have "Split [] (join (c # sp) ls) [] = None"
    using split_loop_stuck [of "join (c # sp) ls" 0 "[]"]
    by (cases "split_loop (join (c # sp) ls) [] 0 []") (auto simp: Split_def)
  then show ?thesis
    using split_loop_joined [OF assms, where sp = sp and pre = "[]" and acc = "[]"]
      split_loop_terminated [OF assms(3), where sp = sp and pre = "[]" and acc = "[]"]
    by (simp add: Split_def)
qed

theorem split_inverts_join_witness:
  "Split [] (join '', '' [''a'', ''bc'', ''d'']) '', '' = Some [''a'', ''bc'', ''d'']"
  using split_inverts_join [of "[''a'', ''bc'', ''d'']" "CHR '',''" "'' ''"] by simp

lemma bswap32_bit:
  "bit (bswap32 w) n \<longleftrightarrow> n < 32 \<and> bit w (if n < 8 then n + 24 else if n < 16 then n + 8
      else if n < 24 then n - 8 else n - 24)"
proof -
  have m: "bit (0xFF :: u32) k \<longleftrightarrow> k < 8" "bit (0xFF00 :: u32) k \<longleftrightarrow> 8 \<le> k \<and> k < 16"
    "bit (0xFF0000 :: u32) k \<longleftrightarrow> 16 \<le> k \<and> k < 24" "bit (0xFF000000 :: u32) k \<longleftrightarrow> 24 \<le> k \<and> k < 32"
    for k
  proof -
    have "(0xFF :: u32) = mask 8" "(0xFF00 :: u32) = push_bit 8 (mask 8)"
      "(0xFF0000 :: u32) = push_bit 16 (mask 8)" "(0xFF000000 :: u32) = push_bit 24 (mask 8)"
      by (simp_all add: mask_eq_exp_minus_1 push_bit_eq_mult)
    note eqs = this
    show "bit (0xFF :: u32) k \<longleftrightarrow> k < 8" "bit (0xFF00 :: u32) k \<longleftrightarrow> 8 \<le> k \<and> k < 16"
      "bit (0xFF0000 :: u32) k \<longleftrightarrow> 16 \<le> k \<and> k < 24" "bit (0xFF000000 :: u32) k \<longleftrightarrow> 24 \<le> k \<and> k < 32"
      by (simp_all only: eqs bit_push_bit_iff bit_mask_iff) auto
  qed
  show ?thesis
    unfolding bswap32_def bit_or_iff bit_push_bit_iff bit_drop_bit_eq bit_and_iff comp_def m
    by (auto simp: add.commute dest: bit_imp_le_length)
qed

lemma low_word: "ucast (x AND 0xFFFFFFFF :: u64) = (ucast x :: u32)"
proof -
  have "(0xFFFFFFFF :: u64) = mask 32" by (simp add: mask_eq_exp_minus_1)
  then have "(x AND 0xFFFFFFFF :: u64) = take_bit 32 x" by (simp only: take_bit_eq_mask)
  then show ?thesis by (simp only:) (rule bit_word_eqI, simp add: bit_simps)
qed

lemma htonll_bit:
  "bit (htonll x) n \<longleftrightarrow> (if n < 32 then bit (bswap32 (ucast x)) n
     else n < 64 \<and> bit (bswap32 (ucast (drop_bit 32 x))) (n - 32))"
  unfolding htonll_def low_word
  by (auto simp: bit_simps dest: bit_imp_le_length)

lemma bswap32_involution: "bswap32 (bswap32 w) = w"
proof (rule bit_word_eqI)
  fix n assume "n < LENGTH(32)"
  then have "n < 8 \<or> 8 \<le> n \<and> n < 16 \<or> 16 \<le> n \<and> n < 24 \<or> 24 \<le> n \<and> n < 32" by auto
  then show "bit (bswap32 (bswap32 w)) n = bit w n" by (elim disjE) (auto simp: bswap32_bit)
qed

lemma htonll_halves:
  "ucast (htonll x) = bswap32 (ucast x)" "ucast (drop_bit 32 (htonll x)) = bswap32 (ucast (drop_bit 32 x))"
  by (rule bit_word_eqI, simp add: bit_ucast_iff bit_drop_bit_eq htonll_bit)+

text \<open>
  \<open>_htonll\<close> and \<open>_ntohll\<close> undo each other on a little-endian host, but the value between
  them is not in network order: the bytes are reversed within each half, and the halves are not
  exchanged.
\<close>

theorem htonll_not_network_order:
  "ntohll (htonll x) = x \<and> htonll 0x0102030405060708 = 0x0403020108070605"
proof
  have same: "ntohll y = htonll y" for y by (simp add: ntohll_def htonll_def)
  show "ntohll (htonll x) = x"
  proof (rule bit_word_eqI)
    fix n assume "n < LENGTH(64)"
    then show "bit (ntohll (htonll x)) n = bit x n"
      unfolding same htonll_bit htonll_halves bswap32_involution by (auto simp: bit_simps)
  qed
  show "htonll 0x0102030405060708 = 0x0403020108070605"
    by (simp add: htonll_def bswap32_def)
qed

section \<open>Further facts\<close>

lemma rand_r_range: "0 \<le> fst (rand_r seed) \<and> fst (rand_r seed) < 32768"
  by (simp add: rand_r_def Let_def)

lemma str_trim_blank: "str \<noteq> [] \<Longrightarrow> list_all is_blank str \<Longrightarrow> str_trim str = None"
  by (simp add: str_trim_def list_all_iff)

lemma str_trim_ends:
  assumes "str_trim str = Some s" and "str \<noteq> []"
  shows "s \<noteq> [] \<and> \<not> is_blank (hd s) \<and> \<not> is_blank (last s)"
proof -
  let ?s = "dropWhile is_blank str"
  from assms have s: "?s \<noteq> []" "s = rev (dropWhile is_blank (rev ?s))"
    by (auto simp: str_trim_def Let_def split: if_splits)
  have hd: "\<not> is_blank (hd ?s)" using s(1) by (rule hd_dropWhile)
  then have ne: "dropWhile is_blank (rev ?s) \<noteq> []"
    using s(1) hd_in_set [OF s(1)] unfolding dropWhile_eq_Nil_conv set_rev by blast
  obtain ys where split: "rev ?s = ys @ dropWhile is_blank (rev ?s)"
    by (metis takeWhile_dropWhile_id)
  have "last (rev ?s) = last (dropWhile is_blank (rev ?s))"
    using ne split by (metis last_appendR)
  with s hd ne hd_dropWhile [OF ne] show ?thesis
    by (simp add: hd_rev last_rev)
qed

lemma ip_field_dotted:
  assumes "p = length pre"
  shows "ip_field (pre @ show_nat n @ CHR ''.'' # rest) p = (of_nat n, p + length (show_nat n) + 1)"
proof -
  have "find_char (pre @ show_nat n @ CHR ''.'' # rest) (CHR ''.'') p
      = Some (length pre + length (show_nat n))"
    using assms by (intro find_char_skip show_nat_notin) (simp_all add: digit_not_sign)
  then show ?thesis using assms by (simp add: ip_field_def substr_def)
qed

lemma ip_field_last:
  assumes "p = length pre"
  shows "ip_field (pre @ show_nat n) p = (of_nat n, p)"
proof -
  have "find_char (pre @ show_nat n) (CHR ''.'') p = None"
    using assms by (intro find_char_skip_notin show_nat_notin) (simp_all add: digit_not_sign)
  then show ?thesis using assms by (simp add: ip_field_def substr_from_def)
qed

text \<open>
  On a dotted quad \<open>ip2uint\<close> answers the address with its first number in the highest byte;
  but it does not see missing numbers: without any dot the one number is taken four times.
\<close>

theorem ip2uint_dotted_quad:
  "ip2uint (show_nat a @ ''.'' @ show_nat b @ ''.'' @ show_nat c @ ''.'' @ show_nat d)
     = push_bit 24 (of_nat a) + push_bit 16 (of_nat b) + push_bit 8 (of_nat c) + of_nat d
   \<and> ip2uint (show_nat a)
     = push_bit 24 (of_nat a) + push_bit 16 (of_nat a) + push_bit 8 (of_nat a) + of_nat a"
proof
  let ?a = "show_nat a" and ?b = "show_nat b" and ?c = "show_nat c" and ?d = "show_nat d"
  let ?ip = "?a @ ''.'' @ ?b @ ''.'' @ ?c @ ''.'' @ ?d"
  let ?p1 = "length ?a + 1" and ?p2 = "length ?a + length ?b + 2"
  let ?p3 = "length ?a + length ?b + length ?c + 3"
  have "ip_field ?ip 0 = (of_nat a, ?p1)"
    using ip_field_dotted [of 0 "[]" a "?b @ ''.'' @ ?c @ ''.'' @ ?d"] by simp
  moreover have "ip_field ?ip ?p1 = (of_nat b, ?p2)"
    using ip_field_dotted [of ?p1 "?a @ ''.''" b "?c @ ''.'' @ ?d"] by simp
  moreover have "ip_field ?ip ?p2 = (of_nat c, ?p3)"
    using ip_field_dotted [of ?p2 "?a @ ''.'' @ ?b @ ''.''" c ?d] by simp
  moreover have "ip_field ?ip ?p3 = (of_nat d, ?p3)"
    using ip_field_last [of ?p3 "?a @ ''.'' @ ?b @ ''.'' @ ?c @ ''.''" d] by simp
  ultimately show "ip2uint ?ip
     = push_bit 24 (of_nat a) + push_bit 16 (of_nat b) + push_bit 8 (of_nat c) + of_nat d"
    by (simp only: ip2uint_def Let_def prod.case)
  have "ip_field ?a 0 = (of_nat a, 0)" using ip_field_last [of 0 "[]" a] by simp
  then show "ip2uint ?a
     = push_bit 24 (of_nat a) + push_bit 16 (of_nat a) + push_bit 8 (of_nat a) + of_nat a"
    by (simp only: ip2uint_def Let_def prod.case)
qed

end
