(* ===== verification/Bee_Http_Message.thy ===== *)
theory Bee_Http_Message
  imports Bee_Algorithm Bee_IOBuffer
begin

text \<open>
  \<open>HttpRequest\<close> (src/http/http_request.cpp), \<open>HttpResponse\<close> (src/http/http_response.cpp) and
  the header list they share (src/http/http_header.h).

  Both keep their header fields twice, in a map for lookups and in a list for the order on the
  wire. The request's map compares names as they are, the response's ignores letter case; the
  list search compares them as they are in both. The functions on this pair are written once,
  with the map's key normalisation \<open>nf\<close> as an argument: the identity for a request, lower case
  for a response. A map entry holds the name it was inserted under and the value.

  \<open>None\<close> is a failed \<open>BOOST_ASSERT\<close>, a null C string made into a \<open>std::string\<close>, or an index
  outside the table of reasons. \<open>boost::format\<close>'s \<open>%n%\<close> inserts its argument as it is.
\<close>

section \<open>Header fields\<close>

record Header =
  hname :: string
  hval :: string

type_synonym header_map = "(string \<times> string \<times> string) list"

definition header_find :: "(string \<Rightarrow> string) \<Rightarrow> string \<Rightarrow> header_map \<Rightarrow> string option" where
  "header_find nf name m = map_option snd (map_of m (nf name))"

definition header_put :: "(string \<Rightarrow> string) \<Rightarrow> string \<Rightarrow> string \<Rightarrow> header_map \<Rightarrow> header_map" where
  "header_put nf name val m =
     (case map_of m (nf name) of
        None \<Rightarrow> AList.update (nf name) (name, val) m
      | Some (name0, _) \<Rightarrow> AList.update (nf name) (name0, val) m)"

text \<open>\<open>std::find_if\<close> with \<open>HeaderEqualTo(name)\<close>: the index of the first field of that name.\<close>

fun header_index :: "string \<Rightarrow> Header list \<Rightarrow> nat option" where
  "header_index name [] = None"
| "header_index name (h # hs) =
     (if name = hname h then Some 0 else map_option Suc (header_index name hs))"

definition header_get :: "(string \<Rightarrow> string) \<Rightarrow> string \<Rightarrow> header_map \<Rightarrow> string" where
  "header_get nf name m = (case header_find nf name m of None \<Rightarrow> [] | Some v \<Rightarrow> v)"

definition header_set ::
    "(string \<Rightarrow> string) \<Rightarrow> string \<Rightarrow> string \<Rightarrow> header_map \<times> Header list
      \<Rightarrow> (header_map \<times> Header list) option" where
  "header_set nf name val mh = (case mh of (m, hs) \<Rightarrow>
     (if header_find nf name m \<noteq> None then
        (case header_index name hs of
           None \<Rightarrow> None
         | Some i \<Rightarrow> Some (header_put nf name val m, hs[i := (hs ! i)\<lparr>hval := val\<rparr>]))
      else Some (header_put nf name val m, hs @ [\<lparr>hname = name, hval = val\<rparr>])))"

definition header_remove ::
    "(string \<Rightarrow> string) \<Rightarrow> string \<Rightarrow> header_map \<times> Header list
      \<Rightarrow> (header_map \<times> Header list) option" where
  "header_remove nf name mh = (case mh of (m, hs) \<Rightarrow>
     (if header_find nf name m \<noteq> None then
        (case header_index name hs of
           None \<Rightarrow> None
         | Some i \<Rightarrow> Some (AList.delete (nf name) m, take i hs @ drop (Suc i) hs))
      else Some (m, hs)))"

text \<open>\<open>HeaderAppender\<close>: one field on the wire.\<close>

definition header_line :: "Header \<Rightarrow> string" where
  "header_line h = hname h @ '': '' @ hval h"

definition crlf :: string where
  "crlf = [CHR 0x0D, CHR 0x0A]"

definition header_append :: "string \<Rightarrow> Header \<Rightarrow> string" where
  "header_append headers h = headers @ header_line h @ crlf"

text \<open>The body of the loop over the header lines in \<open>parse_body\<close>.\<close>

definition parse_header_line ::
    "(string \<Rightarrow> string) \<Rightarrow> string \<Rightarrow> header_map \<times> Header list \<Rightarrow> header_map \<times> Header list" where
  "parse_header_line nf line mh = (case mh of (m, hs) \<Rightarrow>
     (let line = trim line
      in if line = [] then (m, hs)
         else case find_char line (CHR '':'') 0 of
             None \<Rightarrow> (m, hs)
           | Some colon_pos \<Rightarrow>
               (let key = trim (substr line 0 colon_pos);
                    val = trim (substr_from line (colon_pos + 1))
                in (header_put nf key val m, hs @ [\<lparr>hname = key, hval = val\<rparr>]))))"

definition parse_header_lines ::
    "(string \<Rightarrow> string) \<Rightarrow> string list \<Rightarrow> header_map \<times> Header list \<Rightarrow> header_map \<times> Header list" where
  "parse_header_lines nf lines mh = foldl (\<lambda>mh line. parse_header_line nf line mh) mh lines"

section \<open>HttpRequest\<close>

record HttpRequest =
  rq_method :: string
  rq_path :: string
  rq_protocol_and_version :: string
  rq_header_fields_map :: header_map
  rq_headers :: "Header list"
  rq_body :: string
  rq_url :: string
  rq_proxy_host :: string
  rq_proxy_port :: nat
  rq_is_valid :: bool
  rq_is_https :: "bool option"  \<comment> \<open>\<open>None\<close> while not initialised\<close>

definition HttpRequest_new :: HttpRequest where
  "HttpRequest_new =
     \<lparr>rq_method = [], rq_path = [], rq_protocol_and_version = [], rq_header_fields_map = [],
      rq_headers = [], rq_body = [], rq_url = [], rq_proxy_host = [], rq_proxy_port = 0,
      rq_is_valid = False, rq_is_https = Some False\<rparr>"

text \<open>The protocol, host, port and path of a URL.\<close>

definition ParseUrl :: "string \<Rightarrow> string \<times> string \<times> string \<times> string" where
  "ParseUrl url =
     (let pos_protocol = str_find url ''://'' 0;
          protocol = (case pos_protocol of None \<Rightarrow> ''http'' | Some i \<Rightarrow> substr url 0 i);
          pos_host_beg = (case pos_protocol of None \<Rightarrow> 0 | Some i \<Rightarrow> i + 3);
          port0 = (if protocol = ''https'' then ''443'' else ''80'');
          pos_host = find_char url (CHR '':'') pos_host_beg;
          pos_slash = find_char url (CHR ''/'') pos_host_beg;
          (host_str, port_str, pos_path_beg) =
            (case (pos_host, pos_slash) of
               (Some h, Some sl) \<Rightarrow>
                 if h < sl then
                   (case find_char url (CHR ''/'') (h + 1) of
                      None \<Rightarrow> (substr url pos_host_beg (h - pos_host_beg), port0, None)
                    | Some pos_port \<Rightarrow>
                        (substr url pos_host_beg (h - pos_host_beg),
                         substr url (h + 1) (pos_port - (h + 1)), Some pos_port))
                 else (substr url pos_host_beg (sl - pos_host_beg), port0, Some sl)
             | (None, Some sl) \<Rightarrow> (substr url pos_host_beg (sl - pos_host_beg), port0, Some sl)
             | (Some h, None) \<Rightarrow>
                 (substr url pos_host_beg (h - pos_host_beg), substr_from url (h + 1), None)
             | (None, None) \<Rightarrow> (substr_from url pos_host_beg, port0, None));
          path_str = (case pos_path_beg of None \<Rightarrow> [] | Some p \<Rightarrow> substr_from url p)
      in (protocol, host_str, port_str, if path_str = [] then ''/'' else path_str))"

definition rq_get_header :: "string \<Rightarrow> HttpRequest \<Rightarrow> string" where
  "rq_get_header name r = header_get id name (rq_header_fields_map r)"

definition rq_set_header :: "string \<Rightarrow> string \<Rightarrow> HttpRequest \<Rightarrow> HttpRequest option" where
  "rq_set_header name val r =
     map_option (\<lambda>(m, hs). r\<lparr>rq_header_fields_map := m, rq_headers := hs\<rparr>)
       (header_set id name val (rq_header_fields_map r, rq_headers r))"

definition rq_remove_header :: "string \<Rightarrow> HttpRequest \<Rightarrow> HttpRequest option" where
  "rq_remove_header name r =
     map_option (\<lambda>(m, hs). r\<lparr>rq_header_fields_map := m, rq_headers := hs\<rparr>)
       (header_remove id name (rq_header_fields_map r, rq_headers r))"

definition rq_set_host :: "string \<Rightarrow> HttpRequest \<Rightarrow> HttpRequest option" where
  "rq_set_host host r = (if host \<noteq> [] then rq_set_header ''Host'' host r else Some r)"

text \<open>The text \<open>set_range\<close> writes, \<open>None\<close> when it leaves the request alone.\<close>

definition range_text :: "int \<Rightarrow> int \<Rightarrow> string option" where
  "range_text range_beg range_end =
     (if range_beg > - 1 then
        (if range_end > - 1 then
           (if range_beg \<le> range_end
            then Some (''bytes='' @ show_int range_beg @ ''-'' @ show_int range_end) else None)
         else Some (''bytes='' @ show_int range_beg @ ''-''))
      else if range_end > 0 then Some (''bytes='' @ ''-'' @ show_int range_end)
      else None)"

definition rq_set_range :: "int \<Rightarrow> int \<Rightarrow> HttpRequest \<Rightarrow> HttpRequest option" where
  "rq_set_range range_beg range_end r =
     (case range_text range_beg range_end of
        None \<Rightarrow> Some r
      | Some t \<Rightarrow> rq_set_header ''Range'' t r)"

text \<open>
  \<open>get_range\<close>: the result and the two output arguments, which start as the caller's. \<open>pos + 1\<close>
  of a missing dash is 0, so a lone number is read twice.
\<close>

definition parse_range :: "string \<Rightarrow> int \<times> int \<Rightarrow> bool \<times> int \<times> int" where
  "parse_range range_str be =
     (if str_find range_str ''bytes='' 0 = Some 0 then
        (let s = substr_from range_str 6
         in if find_char s (CHR '','') 0 \<noteq> None then (False, be)
            else
              (let pos = find_char s (CHR ''-'') 0;
                   beg_str = (case pos of None \<Rightarrow> s | Some p \<Rightarrow> substr s 0 p);
                   next_pos = (case pos of None \<Rightarrow> 0 | Some p \<Rightarrow> p + 1)
               in case lexical_cast_int64 beg_str of
                   None \<Rightarrow> (False, be)
                 | Some b \<Rightarrow>
                     if next_pos < length s then
                       (case lexical_cast_int64 (substr_from s next_pos) of
                          None \<Rightarrow> (False, b, snd be)
                        | Some e \<Rightarrow> (True, b, e))
                     else (True, b, snd be)))
      else (False, be))"

definition rq_get_range :: "HttpRequest \<Rightarrow> int \<times> int \<Rightarrow> bool \<times> int \<times> int" where
  "rq_get_range r be = parse_range (rq_get_header ''Range'' r) be"

definition user_agent :: string where
  "user_agent = ''Mozilla/4.0 (compatible; MSIE 6.0; Windows NT 5.1; SV1; .NET CLR 2.0.50727; .NET CLR 3.0.04506.648; .NET CLR 3.5.21022; .NET CLR 3.0.4506.2152; .NET CLR 3.5.30729)''"

text \<open>The inner option is the null pointer \<open>create_from_url\<close> answers for an incomplete URL.\<close>

definition create_from_url ::
    "string \<Rightarrow> string \<Rightarrow> int \<Rightarrow> int \<Rightarrow> HttpRequest option option" where
  "create_from_url url refer_url range_beg range_end =
     (case ParseUrl url of (protocol, host, port, path) \<Rightarrow>
       (if protocol = [] \<or> host = [] \<or> path = [] then Some None
        else
          do {
            r1 \<leftarrow> rq_set_header ''Accept'' ''*/*''
              (HttpRequest_new\<lparr>rq_method := ''GET'', rq_protocol_and_version := ''HTTP/1.1'',
                 rq_path := path\<rparr>);
            r2 \<leftarrow> rq_set_header ''Accept-Language'' ''zh-CN'' r1;
            r3 \<leftarrow> (if refer_url \<noteq> [] then rq_set_header ''Referer'' refer_url r2 else Some r2);
            r4 \<leftarrow> rq_set_header ''User-Agent'' user_agent r3;
            r5 \<leftarrow> rq_set_host (if port = [] then host else host @ '':'' @ port) r4;
            r6 \<leftarrow> rq_set_header ''Connection'' ''Keep-Alive'' r5;
            r7 \<leftarrow> rq_set_range range_beg range_end r6;
            Some (Some (r7\<lparr>rq_is_valid := True,
              rq_is_https := (if protocol = ''https'' then Some True else rq_is_https r7)\<rparr>))
          }))"

definition rq_serialize :: "HttpRequest \<Rightarrow> string" where
  "rq_serialize r =
     foldl header_append
       (rq_method r @ '' '' @ rq_path r @ '' '' @ rq_protocol_and_version r @ crlf)
       (rq_headers r) @ crlf"

definition rq_parse_body :: "HttpRequest \<Rightarrow> (bool \<times> HttpRequest) option" where
  "rq_parse_body r =
     (if str_find (rq_body r) (crlf @ crlf) 0 = None then Some (False, r)
      else
        do {
          lines \<leftarrow> Split [] (rq_body r) crlf;
          (if lines = [] then None
           else
             do {
               sm \<leftarrow> Split [] (lines ! 0) '' '';
               (if length sm \<noteq> 3 then Some (False, r)
                else
                  (case parse_header_lines id (drop 1 lines) (rq_header_fields_map r, rq_headers r) of
                     (m, hs) \<Rightarrow>
                       Some (True, r\<lparr>rq_method := sm ! 0, rq_path := sm ! 1,
                         rq_protocol_and_version := sm ! 2, rq_header_fields_map := m,
                         rq_headers := hs\<rparr>)))
             })
        })"

text \<open>The constructors from text leave \<open>m_is_https\<close> as it comes.\<close>

definition HttpRequest_of_string :: "string \<Rightarrow> HttpRequest option" where
  "HttpRequest_of_string lines =
     map_option (\<lambda>(ok, r). r\<lparr>rq_is_valid := ok\<rparr>)
       (rq_parse_body (HttpRequest_new\<lparr>rq_body := lines, rq_is_https := None\<rparr>))"

definition rq_clone :: "HttpRequest \<Rightarrow> HttpRequest" where
  "rq_clone r = HttpRequest_new
     \<lparr>rq_method := rq_method r, rq_path := rq_path r,
      rq_protocol_and_version := rq_protocol_and_version r,
      rq_header_fields_map := rq_header_fields_map r, rq_headers := rq_headers r,
      rq_body := rq_body r, rq_url := rq_url r, rq_is_valid := rq_is_valid r\<rparr>"

text \<open>\<open>reset\<close> leaves the path, the header map and the proxy.\<close>

definition rq_reset :: "HttpRequest \<Rightarrow> HttpRequest" where
  "rq_reset r = r\<lparr>rq_is_valid := False, rq_method := [], rq_url := [],
     rq_protocol_and_version := [], rq_headers := [], rq_body := []\<rparr>"

text \<open>The outputs \<open>host\<close> and \<open>port\<close> start as the caller's.\<close>

definition rq_get_host_port :: "HttpRequest \<Rightarrow> string \<times> nat \<Rightarrow> string \<times> nat" where
  "rq_get_host_port r hp =
     (let host_str = rq_get_header ''Host'' r
      in if host_str = [] then hp
         else
           (let pos = find_char host_str (CHR '':'') 0;
                port_str = (case pos of None \<Rightarrow> ''80'' | Some p \<Rightarrow> substr_from host_str (p + 1));
                host = (case pos of None \<Rightarrow> host_str | Some p \<Rightarrow> substr host_str 0 p)
            in (host, case lexical_cast_uint port_str of None \<Rightarrow> 80 | Some p \<Rightarrow> p)))"

definition rq_set_host_port :: "string \<Rightarrow> nat \<Rightarrow> HttpRequest \<Rightarrow> HttpRequest option" where
  "rq_set_host_port host port r =
     rq_set_header ''Host'' (if port \<noteq> 80 then host @ '':'' @ show_nat port else host) r"

definition rq_set_host_port_str :: "string \<Rightarrow> string \<Rightarrow> HttpRequest \<Rightarrow> HttpRequest option" where
  "rq_set_host_port_str host port r =
     rq_set_header ''Host'' (if port \<noteq> ''80'' \<and> port \<noteq> [] then host @ '':'' @ port else host) r"

definition rq_set_proxy :: "string \<Rightarrow> nat \<Rightarrow> HttpRequest \<Rightarrow> HttpRequest option" where
  "rq_set_proxy host port r =
     do {
       r1 \<leftarrow> Some (if str_find (rq_path r) ''http://'' 0 \<noteq> Some 0
               then r\<lparr>rq_path := ''http://'' @ rq_get_header ''Host'' r @ rq_path r\<rparr> else r);
       r2 \<leftarrow> rq_remove_header ''Connection'' r1;
       r3 \<leftarrow> rq_set_header ''Proxy-Connection'' ''Keep-Alive'' r2;
       Some (r3\<lparr>rq_proxy_host := host, rq_proxy_port := port\<rparr>)
     }"

definition rq_get_conn_host_port :: "HttpRequest \<Rightarrow> string \<times> nat \<Rightarrow> string \<times> nat" where
  "rq_get_conn_host_port r hp =
     (if rq_proxy_host r = [] then rq_get_host_port r hp else (rq_proxy_host r, rq_proxy_port r))"

definition rq_get_url :: "HttpRequest \<Rightarrow> string" where
  "rq_get_url r =
     (let path = rq_path r; host = rq_get_header ''Host'' r
      in if path = [] \<or> host = [] then [] else ''Http://'' @ host @ path)"

section \<open>HttpResponse\<close>

record HttpResponse =
  rs_protocol_and_version :: string
  rs_status_code :: nat
  rs_reason_str :: string
  rs_header_fields_map :: header_map
  rs_headers :: "Header list"
  rs_header_body :: string
  rs_is_valid :: bool

definition HttpResponse_blank :: HttpResponse where
  "HttpResponse_blank =
     \<lparr>rs_protocol_and_version = [], rs_status_code = 0, rs_reason_str = [],
      rs_header_fields_map = [], rs_headers = [], rs_header_body = [], rs_is_valid = False\<rparr>"

text \<open>The non-null entries of \<open>sh_http_status_reason_str\<close>, which has 506 entries.\<close>

definition reason_table :: "(nat \<times> string) list" where
  "reason_table =
     [(100, ''Continue''), (101, ''Switching Protocols''), (200, ''OK''), (201, ''Created''),
      (202, ''Accepted''), (203, ''Non-Authoritative Information''), (204, ''No Content''),
      (205, ''Reset Content''), (206, ''Partial Content''), (300, ''Multiple Choices''),
      (301, ''Moved Permanently''), (302, ''Found''), (303, ''See Other''),
      (304, ''Not Modified''), (305, ''Use Proxy''), (306, ''Temporary Redirect''),
      (400, ''Bad Request''), (401, ''Unauthorized''), (402, ''Payment Required''),
      (403, ''Forbidden''), (404, ''Not Found''), (405, ''Method Not Allowed''),
      (406, ''Not Acceptable''), (407, ''Proxy Authentication Required''),
      (408, ''Request Time-out''), (409, ''Conflict''), (410, ''Gone''),
      (411, ''Length Required''), (412, ''Precondition Failed''),
      (413, ''Request Entity Too Large''), (414, ''Request-URI Too Large''),
      (415, ''Unsupported Media Type''), (416, ''Requested range not satisfiable''),
      (417, ''Expectation Failed''), (500, ''Internal Server Error''),
      (501, ''Not Implemented''), (502, ''Bad Gateway''), (503, ''Service Unavailable''),
      (504, ''Gateway Time-out''), (505, ''HTTP Version not supported'')]"

definition HttpResponse_new :: "string \<Rightarrow> nat \<Rightarrow> HttpResponse option" where
  "HttpResponse_new protocol_and_version status_code =
     (case map_of reason_table status_code of
        None \<Rightarrow> None
      | Some reason \<Rightarrow>
          Some (HttpResponse_blank\<lparr>rs_protocol_and_version := protocol_and_version,
            rs_status_code := status_code, rs_reason_str := reason, rs_is_valid := True\<rparr>))"

definition rs_set_status_code :: "nat \<Rightarrow> HttpResponse \<Rightarrow> HttpResponse option" where
  "rs_set_status_code status_code r =
     (case map_of reason_table status_code of
        None \<Rightarrow> None
      | Some reason \<Rightarrow> Some (r\<lparr>rs_status_code := status_code, rs_reason_str := reason\<rparr>))"

definition rs_clone :: "HttpResponse \<Rightarrow> HttpResponse" where
  "rs_clone r = HttpResponse_blank
     \<lparr>rs_protocol_and_version := rs_protocol_and_version r, rs_status_code := rs_status_code r,
      rs_reason_str := rs_reason_str r, rs_header_fields_map := rs_header_fields_map r,
      rs_headers := rs_headers r, rs_header_body := rs_header_body r,
      rs_is_valid := rs_is_valid r\<rparr>"

definition rs_get_header :: "string \<Rightarrow> HttpResponse \<Rightarrow> string" where
  "rs_get_header name r = header_get to_lower name (rs_header_fields_map r)"

definition rs_set_header :: "string \<Rightarrow> string \<Rightarrow> HttpResponse \<Rightarrow> HttpResponse option" where
  "rs_set_header name val r =
     map_option (\<lambda>(m, hs). r\<lparr>rs_header_fields_map := m, rs_headers := hs\<rparr>)
       (header_set to_lower name val (rs_header_fields_map r, rs_headers r))"

definition rs_has_header :: "string \<Rightarrow> HttpResponse \<Rightarrow> bool option" where
  "rs_has_header name r =
     (if header_find to_lower name (rs_header_fields_map r) \<noteq> None then
        (if header_index name (rs_headers r) = None then None else Some True)
      else Some False)"

definition rs_remove_header :: "string \<Rightarrow> HttpResponse \<Rightarrow> HttpResponse option" where
  "rs_remove_header name r =
     map_option (\<lambda>(m, hs). r\<lparr>rs_header_fields_map := m, rs_headers := hs\<rparr>)
       (header_remove to_lower name (rs_header_fields_map r, rs_headers r))"

definition rs_get_content_len :: "HttpResponse \<Rightarrow> int" where
  "rs_get_content_len r =
     (let len_str = rs_get_header ''Content-Length'' r
      in if len_str = [] then - 1
         else case lexical_cast_int64 len_str of None \<Rightarrow> - 1 | Some len \<Rightarrow> len)"

definition rs_set_content_len :: "int \<Rightarrow> HttpResponse \<Rightarrow> HttpResponse option" where
  "rs_set_content_len content_len r = rs_set_header ''Content-Length'' (show_int content_len) r"

text \<open>
  \<open>get_range\<close>, on the outputs as the caller passed them: they are left alone when a delimiter is
  missing. \<open>substr\<close> throws \<open>out_of_range\<close> when its start is past the end, and takes a huge
  count when the delimiters are out of order.
\<close>

definition substr_count :: "string \<Rightarrow> nat \<Rightarrow> nat \<Rightarrow> string" where
  "substr_count s pos n = take (min n (length s - pos)) (drop pos s)"

definition rs_get_range :: "HttpResponse \<Rightarrow> int \<times> int \<Rightarrow> (int \<times> int) option" where
  "rs_get_range r be =
     (let range_str = rs_get_header ''Content-Range'' r
      in if range_str = [] then Some (- 1, - 1)
         else if prefix ''bytes'' range_str then
           (case (find_char range_str (CHR '' '') 0, find_char range_str (CHR ''-'') 0,
                  find_char range_str (CHR ''/'') 0) of
              (Some pos_beg0, Some pos_bar, Some pos_slash) \<Rightarrow>
                (let pos_beg = pos_beg0 + 1; pos_end = pos_bar + 1
                 in case lexical_cast_int64 (substr_count range_str pos_beg (size_sub pos_bar pos_beg)) of
                     None \<Rightarrow> Some (- 1, - 1)
                   | Some b \<Rightarrow>
                     (case lexical_cast_int64 (substr_count range_str pos_end (size_sub pos_slash pos_end)) of
                        None \<Rightarrow> Some (- 1, - 1)
                      | Some e \<Rightarrow> Some (b, e)))
            | _ \<Rightarrow> Some be)
         else None)"

definition rs_has_range :: "HttpResponse \<Rightarrow> bool option" where
  "rs_has_range r = rs_has_header ''Content-Range'' r"

definition rs_remove_range :: "HttpResponse \<Rightarrow> HttpResponse option" where
  "rs_remove_range r = rs_remove_header ''Content-Range'' r"

definition rs_serialize :: "HttpResponse \<Rightarrow> string" where
  "rs_serialize r =
     foldl header_append
       (rs_protocol_and_version r @ '' '' @ show_nat (rs_status_code r) @ '' ''
          @ rs_reason_str r @ crlf)
       (rs_headers r) @ crlf"

definition rs_serialize_to_buffer :: "HttpResponse \<Rightarrow> char iobuffer" where
  "rs_serialize_to_buffer r = IOBuffer_of_string (rs_serialize r)"

text \<open>
  The status line: its outcome and the fields it sets. A line that ends after the protocol's
  blanks sets no status and goes on.
\<close>

definition parse_status_line :: "string \<Rightarrow> HttpResponse \<Rightarrow> bool \<times> HttpResponse" where
  "parse_status_line line r =
     (if str_find line ''HTTP'' 0 = None then (False, r)
      else case find_char line (CHR '' '') 0 of
          None \<Rightarrow> (False, r)
        | Some pos_protocol \<Rightarrow>
          (let r1 = r\<lparr>rs_protocol_and_version := substr line 0 pos_protocol\<rparr>
           in case find_first_not_of line (CHR '' '') pos_protocol of
                None \<Rightarrow> (True, r1)
              | Some pos_status_beg \<Rightarrow>
                (case find_char line (CHR '' '') pos_status_beg of
                   None \<Rightarrow> (False, r1)
                 | Some pos_status \<Rightarrow>
                   (case lexical_cast_uint (substr line pos_status_beg (pos_status - pos_status_beg)) of
                      None \<Rightarrow> (False, r1)
                    | Some code \<Rightarrow>
                      (let r2 = r1\<lparr>rs_status_code := code\<rparr>
                       in case find_first_not_of line (CHR '' '') pos_status of
                            None \<Rightarrow> (False, r2)
                          | Some pos_reason \<Rightarrow>
                              (True, r2\<lparr>rs_reason_str := substr_from line pos_reason\<rparr>))))))"

definition rs_parse_body :: "HttpResponse \<Rightarrow> (bool \<times> HttpResponse) option" where
  "rs_parse_body r =
     (if str_find (rs_header_body r) (crlf @ crlf) 0 = None then Some (False, r)
      else
        do {
          lines \<leftarrow> Split [] (rs_header_body r) crlf;
          Some (if lines = [] then (False, r)
            else case parse_status_line (lines ! 0) r of
                (False, r1) \<Rightarrow> (False, r1)
              | (True, r1) \<Rightarrow>
                  (case parse_header_lines to_lower (drop 1 lines)
                          (rs_header_fields_map r1, rs_headers r1) of
                     (m, hs) \<Rightarrow> (True, r1\<lparr>rs_header_fields_map := m, rs_headers := hs\<rparr>)))
        })"

definition HttpResponse_of_string :: "string \<Rightarrow> HttpResponse option" where
  "HttpResponse_of_string header_lines =
     map_option (\<lambda>(ok, r). r\<lparr>rs_is_valid := ok\<rparr>)
       (rs_parse_body (HttpResponse_blank\<lparr>rs_header_body := header_lines\<rparr>))"

section \<open>The header pair\<close>

text \<open>
  The contract that makes the list search succeed whenever the map has the name: every key of the
  map comes from a field of the list whose own name has that key and is the only spelling in use.
  A request's map meets it for every name.
\<close>

definition fields_agree :: "(string \<Rightarrow> string) \<Rightarrow> header_map \<times> Header list \<Rightarrow> bool" where
  "fields_agree nf mh \<longleftrightarrow> fst ` set (fst mh) \<subseteq> nf ` hname ` set (snd mh)"

lemma header_index_None: "header_index name hs = None \<longleftrightarrow> name \<notin> hname ` set hs"
  by (induction hs) auto

lemma header_index_Some:
  "header_index name hs = Some i \<Longrightarrow> i < length hs \<and> hname (hs ! i) = name"
  by (induction hs arbitrary: i) (auto split: if_splits)

lemma header_find_None: "header_find nf name m = None \<longleftrightarrow> nf name \<notin> fst ` set m"
  by (simp add: header_find_def map_of_None_iff)

lemma header_put_keys: "fst ` set (header_put nf name val m) = insert (nf name) (fst ` set m)"
  by (auto simp: header_put_def split: option.splits)

lemma header_find_put:
  "header_find nf n (header_put nf name val m) = (if nf n = nf name then Some val else header_find nf n m)"
  by (auto simp: header_put_def header_find_def split: option.splits)

lemma parse_header_line_agree:
  "fields_agree nf mh \<Longrightarrow> fields_agree nf (parse_header_line nf line mh)"
  by (cases mh)
    (auto simp: parse_header_line_def fields_agree_def header_put_keys Let_def split: option.splits)

lemma parse_header_lines_agree:
  "fields_agree nf mh \<Longrightarrow> fields_agree nf (parse_header_lines nf lines mh)"
  unfolding parse_header_lines_def
  by (induction lines arbitrary: mh) (auto simp: parse_header_line_agree)

text \<open>With names kept as they are, setting and removing never fail and keep the pair in step.\<close>

lemma header_set_id:
  assumes "fields_agree id (m, hs)"
  shows "\<exists>m' hs'. header_set id name val (m, hs) = Some (m', hs') \<and> fields_agree id (m', hs')
    \<and> header_find id name m' = Some val
    \<and> (\<forall>n. n \<noteq> name \<longrightarrow> header_find id n m' = header_find id n m)
    \<and> \<lparr>hname = name, hval = val\<rparr> \<in> set hs'"
proof (cases "header_find id name m = None")
  case True
  with assms show ?thesis
    by (auto simp: header_set_def fields_agree_def header_put_keys header_find_put)
next
  case False
  then have mem: "name \<in> hname ` set hs"
    using assms by (auto simp: header_find_None fields_agree_def)
  then obtain i where i: "header_index name hs = Some i"
    by (metis header_index_None not_None_eq)
  note il = header_index_Some [OF i]
  have "hname ` set (hs[i := (hs ! i)\<lparr>hval := val\<rparr>]) = hname ` set hs"
  proof -
    have "map hname (hs[i := (hs ! i)\<lparr>hval := val\<rparr>]) = map hname hs"
      using il by (simp add: map_update list_update_same_conv)
    then show ?thesis by (metis set_map)
  qed
  moreover have "(hs ! i)\<lparr>hval := val\<rparr> = \<lparr>hname = name, hval = val\<rparr>"
    using il by (cases "hs ! i") simp
  moreover from this il have "\<lparr>hname = name, hval = val\<rparr> \<in> set (hs[i := (hs ! i)\<lparr>hval := val\<rparr>])"
    by (metis set_update_memI)
  ultimately show ?thesis
    using False i assms mem
    by (auto simp: header_set_def fields_agree_def header_put_keys header_find_put)
qed

lemma header_remove_id:
  assumes "fields_agree id (m, hs)"
  shows "\<exists>m' hs'. header_remove id name (m, hs) = Some (m', hs') \<and> fields_agree id (m', hs')
    \<and> header_find id name m' = None
    \<and> (\<forall>n. n \<noteq> name \<longrightarrow> header_find id n m' = header_find id n m)"
proof (cases "header_find id name m = None")
  case True
  with assms show ?thesis by (auto simp: header_remove_def)
next
  case False
  then have "name \<in> hname ` set hs"
    using assms by (auto simp: header_find_None fields_agree_def)
  then obtain i where i: "header_index name hs = Some i"
    by (metis header_index_None not_None_eq)
  note il = header_index_Some [OF i]
  have "hname ` set hs \<subseteq> insert name (hname ` set (take i hs @ drop (Suc i) hs))"
  proof -
    have "hs = take i hs @ hs ! i # drop (Suc i) hs" using il by (simp add: id_take_nth_drop)
    then have "set hs = insert (hs ! i) (set (take i hs @ drop (Suc i) hs))"
      by (metis list.simps(15) Un_insert_right set_append)
    with il show ?thesis by auto
  qed
  with False i assms show ?thesis
    by (auto simp: header_remove_def fields_agree_def header_find_def)
qed

section \<open>Reading back what was written\<close>

definition no_cr :: "string \<Rightarrow> bool" where
  "no_cr s \<longleftrightarrow> CHR 0x0D \<notin> set s"

text \<open>A field that survives the wire: its name has no colon, and blanks only inside.\<close>

definition header_ok :: "Header \<Rightarrow> bool" where
  "header_ok h \<longleftrightarrow> hname h \<noteq> [] \<and> trimmed (hname h) \<and> CHR '':'' \<notin> set (hname h)
     \<and> trimmed (hval h) \<and> no_cr (hname h) \<and> no_cr (hval h)"

lemma is_space_colon: "\<not> is_space (CHR '':'')"
  by (simp add: is_space_def)

lemma dropWhile_append_hd:
  "xs \<noteq> [] \<Longrightarrow> \<not> P (hd xs) \<Longrightarrow> dropWhile P (xs @ ys) = xs @ ys"
  by (cases xs) simp_all

lemma trim_ends:
  assumes "xs \<noteq> []" "\<not> is_space (hd xs)" "\<not> is_space (last xs)"
  shows "trim xs = xs"
  using assms by (intro trim_trimmed) (simp add: trimmed_def)

lemma trim_snoc_space: "is_space c \<Longrightarrow> xs \<noteq> [] \<Longrightarrow> \<not> is_space (hd xs) \<Longrightarrow> \<not> is_space (last xs) \<Longrightarrow>
    trim (xs @ [c]) = xs"
proof -
  assume c: "is_space c" and xs: "xs \<noteq> []" "\<not> is_space (hd xs)" "\<not> is_space (last xs)"
  have "dropWhile is_space (xs @ [c]) = xs @ [c]" using xs by (intro dropWhile_append_hd) auto
  moreover have "dropWhile is_space (rev xs) = rev xs"
    using xs by (cases "rev xs") (auto simp: hd_rev [symmetric])
  ultimately show ?thesis using c by (simp add: trim_def)
qed

lemma parse_header_line_ok:
  assumes "header_ok h"
  shows "parse_header_line nf (header_line h) (m, hs)
    = (header_put nf (hname h) (hval h) m, hs @ [h])"
proof -
  let ?n = "hname h" and ?v = "hval h"
  have n: "?n \<noteq> []" "trimmed ?n" "CHR '':'' \<notin> set ?n" and v: "trimmed ?v"
    using assms by (simp_all add: header_ok_def)
  then have hn: "\<not> is_space (hd ?n)" by (simp add: trimmed_def)
  obtain w where w: "trim (header_line h) = ?n @ CHR '':'' # w" "trim w = ?v"
  proof (cases "?v = []")
    case True
    have "trim ((?n @ '':'') @ [CHR '' '']) = ?n @ '':''"
      using n hn is_space_colon by (intro trim_snoc_space) auto
    with True that [of "[]"] show ?thesis by (simp add: header_line_def trim_def)
  next
    case False
    have "trim (header_line h) = header_line h"
      using n hn False v by (intro trim_ends) (auto simp: header_line_def trimmed_def)
    with that [of "CHR '' '' # ?v"] v show ?thesis by (simp add: header_line_def)
  qed
  have "find_char (?n @ CHR '':'' # w) (CHR '':'') 0 = Some (length ?n)"
    using n(3) by (rule find_char_append)
  with w n v show ?thesis
    by (simp add: parse_header_line_def substr_def substr_from_def Let_def)
qed

lemma parse_header_lines_ok:
  assumes "list_all header_ok hs'"
  shows "parse_header_lines nf (map header_line hs' @ [[]]) (m, hs)
    = (foldl (\<lambda>m h. header_put nf (hname h) (hval h) m) m hs', hs @ hs')"
  using assms
proof (induction hs' arbitrary: m hs)
  case Nil
  then show ?case by (simp add: parse_header_lines_def parse_header_line_def trim_def)
next
  case (Cons h hs')
  then show ?case
    by (simp add: parse_header_lines_def parse_header_line_ok)
qed

lemma serialize_lines:
  "foldl header_append (first @ crlf) hs @ crlf
     = concat (map (\<lambda>l. l @ crlf) (first # map header_line hs @ [[]]))"
proof -
  have "foldl header_append t hs = t @ concat (map (\<lambda>l. l @ crlf) (map header_line hs))" for t
    by (induction hs arbitrary: t) (simp_all add: header_append_def)
  then show ?thesis by simp
qed

lemma no_cr_header_line: "header_ok h \<Longrightarrow> no_cr (header_line h)"
  by (auto simp: header_ok_def no_cr_def header_line_def)

lemma split_serialized:
  assumes "no_cr first" "list_all header_ok hs"
  shows "Split [] (foldl header_append (first @ crlf) hs @ crlf) crlf
    = Some (first # map header_line hs @ [[]])"
proof -
  have "\<forall>l\<in>set (first # map header_line hs @ [[]]). CHR 0x0D \<notin> set l"
    using assms no_cr_header_line by (auto simp: no_cr_def list_all_iff)
  from split_loop_terminated [OF this, where pre = "[]" and sp = "[CHR 0x0A]" and acc = "[]"]
  show ?thesis
    unfolding serialize_lines Split_def by (simp add: crlf_def)
qed

lemma find_sub_some_if:
  assumes "prefix sub (drop i s)" "i \<le> length s"
  shows "find_sub sub s \<noteq> None"
  using find_sub_None [of sub s i] assms by auto

lemma serialized_has_blank_line:
  "str_find (foldl header_append (first @ crlf) hs @ crlf) (crlf @ crlf) 0 \<noteq> None"
proof -
  obtain t where t: "foldl header_append (first @ crlf) hs = t @ crlf"
    by (cases hs rule: rev_cases) (auto simp: header_append_def)
  have "find_sub (crlf @ crlf) (t @ crlf @ crlf) \<noteq> None"
    by (rule find_sub_some_if [of _ "length t"]) simp_all
  then show ?thesis by (simp add: t str_find_def)
qed

definition token_ok :: "string \<Rightarrow> bool" where
  "token_ok s \<longleftrightarrow> s \<noteq> [] \<and> CHR '' '' \<notin> set s \<and> no_cr s"

section \<open>Properties\<close>

text \<open>
  C4: a request that is written to the wire and read back is the same request: method, path,
  version and the whole list of header fields, repeated names included; the map then answers, for each name, its
  last value. This is for a method, a path and a version that are not empty and have no blank and no carriage
  return in them, and for header fields without carriage returns and without blanks at the ends of name and value,
  whose names are not empty and have no colon. (A path with a blank, say, is cut at the blank when it is read back.)
\<close>

theorem request_roundtrip:
  assumes "token_ok (rq_method r)" and "token_ok (rq_path r)"
    and "token_ok (rq_protocol_and_version r)" and "list_all header_ok (rq_headers r)"
  shows "\<exists>r'. HttpRequest_of_string (rq_serialize r) = Some r' \<and> rq_is_valid r'
    \<and> rq_method r' = rq_method r \<and> rq_path r' = rq_path r
    \<and> rq_protocol_and_version r' = rq_protocol_and_version r
    \<and> rq_headers r' = rq_headers r
    \<and> rq_header_fields_map r' = foldl (\<lambda>m h. header_put id (hname h) (hval h) m) [] (rq_headers r)
    \<and> rq_serialize r' = rq_serialize r"
proof -
  let ?first = "rq_method r @ '' '' @ rq_path r @ '' '' @ rq_protocol_and_version r"
  have ser: "rq_serialize r = foldl header_append (?first @ crlf) (rq_headers r) @ crlf"
    by (simp add: rq_serialize_def)
  have "no_cr ?first" using assms by (simp add: token_ok_def no_cr_def)
  note sp = split_serialized [OF this assms(4)]
  have "Split [] ?first '' '' = Some [rq_method r, rq_path r, rq_protocol_and_version r]"
    using split_loop_joined [where ls = "[rq_method r, rq_path r, rq_protocol_and_version r]"
        and c = "CHR '' ''" and sp = "[]" and pre = "[]" and acc = "[]"] assms
    by (auto simp: token_ok_def Split_def)
  moreover have "parse_header_lines id (map header_line (rq_headers r) @ [[]]) ([], [])
      = (foldl (\<lambda>m h. header_put id (hname h) (hval h) m) [] (rq_headers r), rq_headers r)"
    using parse_header_lines_ok [OF assms(4), of id "[]" "[]"] by simp
  note parts = calculation this
  define B where "B = HttpRequest_new\<lparr>rq_body := rq_serialize r, rq_is_https := None\<rparr>"
  define m where "m = foldl (\<lambda>m h. header_put id (hname h) (hval h) m) [] (rq_headers r)"
  have B: "rq_body B = rq_serialize r" "rq_header_fields_map B = []" "rq_headers B = []"
    by (simp_all add: B_def HttpRequest_new_def)
  have "str_find (rq_serialize r) (crlf @ crlf) 0 \<noteq> None"
    unfolding ser by (rule serialized_has_blank_line)
  moreover have "Split [] (rq_serialize r) crlf = Some (?first # map header_line (rq_headers r) @ [[]])"
    unfolding ser by (rule sp)
  ultimately have "rq_parse_body B = Some (True, B\<lparr>rq_method := rq_method r, rq_path := rq_path r,
      rq_protocol_and_version := rq_protocol_and_version r, rq_header_fields_map := m,
      rq_headers := rq_headers r\<rparr>)"
    using parts by (simp add: rq_parse_body_def B m_def)
  then have "HttpRequest_of_string (rq_serialize r) = Some (B\<lparr>rq_method := rq_method r,
      rq_path := rq_path r, rq_protocol_and_version := rq_protocol_and_version r,
      rq_header_fields_map := m, rq_headers := rq_headers r, rq_is_valid := True\<rparr>)"
    by (simp add: HttpRequest_of_string_def B_def)
  then show ?thesis by (simp add: m_def rq_serialize_def)
qed

definition demo_request :: HttpRequest where
  "demo_request = HttpRequest_new\<lparr>rq_method := ''GET'', rq_path := ''/a'',
     rq_protocol_and_version := ''HTTP/1.1'',
     rq_headers := [\<lparr>hname = ''Host'', hval = ''h:81''\<rparr>, \<lparr>hname = ''X'', hval = []\<rparr>]\<rparr>"

theorem request_roundtrip_witness:
  "\<exists>r'. HttpRequest_of_string (rq_serialize demo_request) = Some r' \<and> rq_path r' = ''/a''
     \<and> rq_headers r' = [\<lparr>hname = ''Host'', hval = ''h:81''\<rparr>, \<lparr>hname = ''X'', hval = []\<rparr>]"
  using request_roundtrip [of demo_request]
  by (auto simp: demo_request_def HttpRequest_new_def token_ok_def no_cr_def header_ok_def
      trimmed_def is_space_def)

text \<open>
  The header operations of a request never trip their assertion: a request read from text has
  its map and list in step, and setting or removing any field keeps them so, answers the value
  just set (nothing after a removal) and leaves every other name alone.
\<close>

theorem request_header_operations:
  assumes "fields_agree id (rq_header_fields_map r, rq_headers r)"
  shows "(\<exists>r'. rq_set_header name val r = Some r' \<and> rq_get_header name r' = val
      \<and> (\<forall>n. n \<noteq> name \<longrightarrow> rq_get_header n r' = rq_get_header n r)
      \<and> fields_agree id (rq_header_fields_map r', rq_headers r'))
    \<and> (\<exists>r'. rq_remove_header name r = Some r' \<and> rq_get_header name r' = []
      \<and> (\<forall>n. n \<noteq> name \<longrightarrow> rq_get_header n r' = rq_get_header n r)
      \<and> fields_agree id (rq_header_fields_map r', rq_headers r'))"
proof
  show "\<exists>r'. rq_set_header name val r = Some r' \<and> rq_get_header name r' = val
      \<and> (\<forall>n. n \<noteq> name \<longrightarrow> rq_get_header n r' = rq_get_header n r)
      \<and> fields_agree id (rq_header_fields_map r', rq_headers r')"
    using header_set_id [OF assms, of name val]
    by (auto simp: rq_set_header_def rq_get_header_def header_get_def)
  show "\<exists>r'. rq_remove_header name r = Some r' \<and> rq_get_header name r' = []
      \<and> (\<forall>n. n \<noteq> name \<longrightarrow> rq_get_header n r' = rq_get_header n r)
      \<and> fields_agree id (rq_header_fields_map r', rq_headers r')"
    using header_remove_id [OF assms, of name]
    by (auto simp: rq_remove_header_def rq_get_header_def header_get_def)
qed

lemma parse_body_agrees:
  assumes "rq_parse_body r = Some (ok, r')"
    and "fields_agree id (rq_header_fields_map r, rq_headers r)"
  shows "fields_agree id (rq_header_fields_map r', rq_headers r')"
proof (cases "rq_header_fields_map r' = rq_header_fields_map r \<and> rq_headers r' = rq_headers r")
  case False
  with assms(1) obtain ls where "(rq_header_fields_map r', rq_headers r')
      = parse_header_lines id ls (rq_header_fields_map r, rq_headers r)"
    by (auto simp: rq_parse_body_def split: if_splits bind_splits prod.splits) metis+
  with parse_header_lines_agree [OF assms(2), of ls] show ?thesis by simp
qed (use assms(2) in simp)

lemma parsed_request_agrees:
  assumes "HttpRequest_of_string t = Some r"
  shows "fields_agree id (rq_header_fields_map r, rq_headers r)"
proof -
  let ?B = "HttpRequest_new\<lparr>rq_body := t, rq_is_https := None\<rparr>"
  from assms obtain ok r1 where p: "rq_parse_body ?B = Some (ok, r1)" and r: "r = r1\<lparr>rq_is_valid := ok\<rparr>"
    by (auto simp: HttpRequest_of_string_def)
  have "fields_agree id (rq_header_fields_map ?B, rq_headers ?B)"
    by (simp add: HttpRequest_new_def fields_agree_def)
  from parse_body_agrees [OF p this] r show ?thesis by simp
qed

theorem request_header_operations_witness:
  "\<exists>r'. rq_set_header ''A'' ''1'' HttpRequest_new = Some r' \<and> rq_get_header ''A'' r' = ''1''"
  using request_header_operations [of HttpRequest_new "''A''" "''1''"]
  by (auto simp: HttpRequest_new_def fields_agree_def)

text \<open>
  A response that is written and read back has the same protocol, status, reason and header
  fields, for a protocol naming HTTP and a reason that does not start with a blank.
\<close>

theorem response_roundtrip:
  assumes "token_ok (rs_protocol_and_version r)" and "str_find (rs_protocol_and_version r) ''HTTP'' 0 = Some 0"
    and "rs_status_code r < 2 ^ 32" and "rs_reason_str r \<noteq> []" and "hd (rs_reason_str r) \<noteq> CHR '' ''"
    and "no_cr (rs_reason_str r)" and "list_all header_ok (rs_headers r)"
  shows "\<exists>r'. HttpResponse_of_string (rs_serialize r) = Some r' \<and> rs_is_valid r'
    \<and> rs_protocol_and_version r' = rs_protocol_and_version r
    \<and> rs_status_code r' = rs_status_code r \<and> rs_reason_str r' = rs_reason_str r
    \<and> rs_headers r' = rs_headers r
    \<and> rs_header_fields_map r' = foldl (\<lambda>m h. header_put to_lower (hname h) (hval h) m) [] (rs_headers r)
    \<and> rs_serialize r' = rs_serialize r"
proof -
  let ?P = "rs_protocol_and_version r" and ?S = "show_nat (rs_status_code r)" and ?R = "rs_reason_str r"
  let ?first = "?P @ '' '' @ ?S @ '' '' @ ?R"
  have ser: "rs_serialize r = foldl header_append (?first @ crlf) (rs_headers r) @ crlf"
    by (simp add: rs_serialize_def)
  have "CHR 0x0D \<notin> set ?S" by (rule show_nat_notin) (simp add: is_digit_def)
  then have "no_cr ?first" using assms by (simp add: token_ok_def no_cr_def)
  note sp = split_serialized [OF this assms(7)]
  define B where "B = HttpResponse_blank\<lparr>rs_header_body := rs_serialize r\<rparr>"
  define B1 where "B1 = B\<lparr>rs_protocol_and_version := ?P, rs_status_code := rs_status_code r,
      rs_reason_str := ?R\<rparr>"
  define m where "m = foldl (\<lambda>m h. header_put to_lower (hname h) (hval h) m) [] (rs_headers r)"
  obtain c w where R: "?R = c # w" "c \<noteq> CHR '' ''" using assms(4,5) by (cases ?R) auto
  have sdig: "CHR '' '' \<notin> set ?S" by (rule show_nat_notin) (simp add: digit_not_sign)
  obtain d v where S: "?S = d # v" "d \<noteq> CHR '' ''"
    using sdig show_nat_nonempty [of "rs_status_code r"] by (cases ?S) auto
  have http: "str_find ?first ''HTTP'' 0 \<noteq> None"
  proof -
    have "prefix ''HTTP'' ?P" using find_sub_Some [of "''HTTP''" ?P 0] assms(2) by (simp add: str_find_def)
    then have "find_sub ''HTTP'' ?first \<noteq> None"
      by (intro find_sub_some_if [of _ 0]) (auto simp: prefix_def)
    then show ?thesis by (simp add: str_find_def)
  qed
  have f1: "find_char ?first (CHR '' '') 0 = Some (length ?P)"
    using find_char_append [of "CHR '' ''" ?P "?S @ '' '' @ ?R"] assms(1) by (simp add: token_ok_def)
  have f2: "find_first_not_of ?first (CHR '' '') (length ?P) = Some (length ?P + 1)"
    using find_first_not_of_skip [of "length ?P" ?P d "CHR '' ''" 1 "v @ '' '' @ ?R"] S by simp
  have f3: "find_char ?first (CHR '' '') (length ?P + 1) = Some (length ?P + 1 + length ?S)"
    using find_char_skip [of "CHR '' ''" ?S "length ?P + 1" "?P @ '' ''" ?R] sdig by simp
  have f4: "find_first_not_of ?first (CHR '' '') (length ?P + 1 + length ?S)
      = Some (length ?P + 2 + length ?S)"
    using find_first_not_of_skip [of "length ?P + 1 + length ?S" "?P @ '' '' @ ?S" c "CHR '' ''" 1 w] R
    by simp
  have status: "parse_status_line ?first B = (True, B1)"
    using http f1 f2 f3 f4 assms(3)
    by (simp add: parse_status_line_def substr_def substr_from_def B1_def Let_def)
  have "str_find (rs_serialize r) (crlf @ crlf) 0 \<noteq> None"
    unfolding ser by (rule serialized_has_blank_line)
  moreover have "Split [] (rs_serialize r) crlf = Some (?first # map header_line (rs_headers r) @ [[]])"
    unfolding ser by (rule sp)
  moreover have "parse_header_lines to_lower (map header_line (rs_headers r) @ [[]]) ([], [])
      = (m, rs_headers r)"
    using parse_header_lines_ok [OF assms(7), of to_lower "[]" "[]"] by (simp add: m_def)
  moreover have "rs_header_body B = rs_serialize r" "rs_header_fields_map B1 = []" "rs_headers B1 = []"
    by (simp_all add: B_def B1_def HttpResponse_blank_def)
  ultimately have "rs_parse_body B = Some (True, B1\<lparr>rs_header_fields_map := m, rs_headers := rs_headers r\<rparr>)"
    using status by (simp add: rs_parse_body_def)
  then have "HttpResponse_of_string (rs_serialize r) = Some (B1\<lparr>rs_header_fields_map := m,
      rs_headers := rs_headers r, rs_is_valid := True\<rparr>)"
    by (simp add: HttpResponse_of_string_def B_def)
  then show ?thesis by (simp add: m_def rs_serialize_def B1_def)
qed

definition demo_response :: HttpResponse where
  "demo_response = HttpResponse_blank\<lparr>rs_protocol_and_version := ''HTTP/1.1'', rs_status_code := 200,
     rs_reason_str := ''OK'', rs_headers := [\<lparr>hname = ''content-length'', hval = ''5''\<rparr>]\<rparr>"

lemma demo_response_back:
  "\<exists>r'. HttpResponse_of_string (rs_serialize demo_response) = Some r' \<and> rs_status_code r' = 200
     \<and> rs_headers r' = [\<lparr>hname = ''content-length'', hval = ''5''\<rparr>]
     \<and> rs_header_fields_map r' = header_put to_lower ''content-length'' ''5'' []"
  using response_roundtrip [of demo_response]
  by (auto simp: demo_response_def HttpResponse_blank_def token_ok_def no_cr_def header_ok_def
      trimmed_def is_space_def str_find_def prefix_def)

theorem response_roundtrip_witness:
  "\<exists>r'. HttpResponse_of_string (rs_serialize demo_response) = Some r' \<and> rs_is_valid r'
     \<and> rs_status_code r' = 200"
  using response_roundtrip [of demo_response]
  by (auto simp: demo_response_def HttpResponse_blank_def token_ok_def no_cr_def header_ok_def
      trimmed_def is_space_def str_find_def prefix_def)

text \<open>
  The response's map ignores letter case and its list does not. A server that spells a field in
  lower case, as in \<open>content-length: 5\<close>, is understood by \<open>get_content_len\<close>; but asking whether
  the response has \<open>Content-Length\<close>, replacing it or removing it then runs into the assertion (or,
  compiled without assertions, dereferences the end of the list).
\<close>

theorem response_case_mismatch:
  "\<exists>r. HttpResponse_of_string (rs_serialize demo_response) = Some r \<and> rs_get_content_len r = 5
     \<and> rs_has_header ''Content-Length'' r = None \<and> rs_remove_header ''Content-Length'' r = None
     \<and> rs_set_content_len n r = None"
proof -
  obtain r where r: "HttpResponse_of_string (rs_serialize demo_response) = Some r"
    "rs_headers r = [\<lparr>hname = ''content-length'', hval = ''5''\<rparr>]"
    "rs_header_fields_map r = header_put to_lower ''content-length'' ''5'' []"
    using demo_response_back by blast
  have low: "to_lower ''Content-Length'' = to_lower ''content-length''"
    by code_simp
  have find: "header_find to_lower ''Content-Length'' (rs_header_fields_map r) = Some ''5''"
    unfolding r(3) by (simp add: header_find_put low)
  have "header_index ''Content-Length'' (rs_headers r) = None"
    unfolding r(2) by simp
  with find have "rs_has_header ''Content-Length'' r = None"
    "rs_remove_header ''Content-Length'' r = None" "rs_set_content_len n r = None"
    by (simp_all add: rs_has_header_def rs_remove_header_def header_remove_def rs_set_content_len_def
        rs_set_header_def header_set_def)
  moreover have "rs_get_content_len r = 5"
    using find by (simp add: rs_get_content_len_def rs_get_header_def header_get_def
        lexical_cast_int64_def split_sign_def is_digit_def digits_value_def)
  ultimately show ?thesis using r(1) by blast
qed

text \<open>
  A content length that was set is the one read back, for every \<open>int64_t\<close> value; a response
  without the field answers -1.
\<close>

theorem content_length_roundtrip:
  assumes "rs_set_content_len n r = Some r'" and "- (2 ^ 63) \<le> n" and "n < 2 ^ 63"
  shows "rs_get_content_len r' = n \<and> rs_get_content_len HttpResponse_blank = - 1"
proof -
  have "header_find to_lower ''Content-Length'' (rs_header_fields_map r') = Some (show_int n)"
    using assms(1)
    by (auto simp: rs_set_content_len_def rs_set_header_def header_set_def header_find_put
        split: if_splits option.splits)
  moreover have "show_int n \<noteq> []" by (simp add: show_int_def)
  ultimately have "rs_get_content_len r' = n"
    using lexical_cast_int64_show_int [OF assms(2,3)]
    by (simp add: rs_get_content_len_def rs_get_header_def header_get_def)
  moreover have "rs_get_content_len HttpResponse_blank = - 1"
    by (simp add: rs_get_content_len_def rs_get_header_def header_get_def HttpResponse_blank_def
        header_find_def)
  ultimately show ?thesis by simp
qed

theorem content_length_roundtrip_witness:
  "\<exists>r'. rs_set_content_len 1234 HttpResponse_blank = Some r' \<and> rs_get_content_len r' = 1234"
proof -
  obtain r' where r': "rs_set_content_len 1234 HttpResponse_blank = Some r'"
    by (auto simp: rs_set_content_len_def rs_set_header_def header_set_def header_find_def
        HttpResponse_blank_def)
  from content_length_roundtrip [OF r'] r' show ?thesis by simp
qed

lemma show_int_nonneg: "0 \<le> i \<Longrightarrow> show_int i = show_nat (nat i)"
  by (simp add: show_int_def)

lemma parse_range_text:
  assumes "0 \<le> b" "b < 2 ^ 63" "list_all is_digit z"
  shows "parse_range (''bytes='' @ show_int b @ ''-'' @ z) be
    = (if z = [] then (True, b, snd be)
       else case lexical_cast_int64 z of None \<Rightarrow> (False, b, snd be) | Some e \<Rightarrow> (True, b, e))"
proof -
  let ?b = "show_nat (nat b)"
  have b: "show_int b = ?b" using assms(1) by (rule show_int_nonneg)
  have pre: "str_find (''bytes='' @ ?b @ ''-'' @ z) ''bytes='' 0 = Some 0"
    by (simp add: str_find_def)
  have comma: "CHR '','' \<notin> set (?b @ ''-'' @ z)"
    using assms(3) show_nat_notin [of "CHR '',''" "nat b"] digit_not_sign by (auto simp: list_all_iff)
  have bar: "find_char (?b @ CHR ''-'' # z) (CHR ''-'') 0 = Some (length ?b)"
    using show_nat_notin [of "CHR ''-''" "nat b"] by (simp add: digit_not_sign)
  have "nat b < 2 ^ 63" using assms(1,2) by (simp add: nat_less_iff)
  then have cast: "lexical_cast_int64 ?b = Some b" using assms(1) by simp
  have sub: "substr_from (''bytes='' @ ?b @ CHR ''-'' # z) 6 = ?b @ CHR ''-'' # z"
    by (simp add: substr_from_def)
  have c0: "find_char (?b @ CHR ''-'' # z) (CHR '','') 0 = None"
    using comma by (intro find_char_notin) simp
  show ?thesis
    unfolding b parse_range_def
    using pre bar cast c0 sub
    by (simp add: Let_def substr_def substr_from_def)
qed

text \<open>
  \<open>set_range\<close> and \<open>get_range\<close> agree on a closed range and on an open-ended one, whose missing
  end leaves the caller's value; but the suffix range \<open>set_range\<close> writes for a lone end, as in
  \<open>bytes=-500\<close>, is one \<open>get_range\<close> refuses, and a number without a dash is read as both ends.
\<close>

theorem range_text_parse:
  assumes "0 \<le> b" and "b \<le> e" and "e < 2 ^ 63" and "0 < n"
  shows "range_text b e = Some (''bytes='' @ show_int b @ ''-'' @ show_int e)
    \<and> parse_range (''bytes='' @ show_int b @ ''-'' @ show_int e) be = (True, b, e)
    \<and> range_text b (- 1) = Some (''bytes='' @ show_int b @ ''-'')
    \<and> parse_range (''bytes='' @ show_int b @ ''-'') be = (True, b, snd be)
    \<and> range_text (- 1) n = Some (''bytes='' @ ''-'' @ show_int n)
    \<and> parse_range (''bytes='' @ ''-'' @ show_int n) be = (False, be)
    \<and> parse_range (''bytes='' @ show_int b) be = (True, b, b)"
proof -
  have b: "b < 2 ^ 63" using assms by simp
  have ne: "nat e < 2 ^ 63" using assms by (simp add: nat_less_iff)
  have e: "list_all is_digit (show_int e)" "show_int e \<noteq> []" "lexical_cast_int64 (show_int e) = Some e"
    using assms ne by (simp_all add: show_int_nonneg)
  have nb: "nat b < 2 ^ 63" using assms by (simp add: nat_less_iff)
  have p1: "parse_range (''bytes='' @ show_int b @ ''-'' @ show_int e) be = (True, b, e)"
    using parse_range_text [OF assms(1) b e(1)] e by simp
  have p2: "parse_range (''bytes='' @ show_int b @ ''-'') be = (True, b, snd be)"
    using parse_range_text [OF assms(1) b, of "[]" be] by simp
  have p3: "parse_range (''bytes='' @ ''-'' @ show_int n) be = (False, be)"
  proof -
    let ?n = "show_nat (nat n)"
    have "CHR '','' \<notin> set (CHR ''-'' # ?n)"
      using show_nat_notin [of "CHR '',''" "nat n"] by (simp add: digit_not_sign)
    then have "find_char (CHR ''-'' # ?n) (CHR '','') 0 = None" by (rule find_char_notin)
    moreover have "find_char (CHR ''-'' # ?n) (CHR ''-'') 0 = Some 0"
      by (simp add: find_char_def str_find_def)
    moreover have "str_find (''bytes='' @ CHR ''-'' # ?n) ''bytes='' 0 = Some 0"
      by (simp add: str_find_def)
    ultimately show ?thesis
      using assms(4) by (simp add: parse_range_def show_int_nonneg substr_from_def substr_def)
  qed
  have p4: "parse_range (''bytes='' @ show_int b) be = (True, b, b)"
  proof -
    let ?b = "show_nat (nat b)"
    have "find_char ?b (CHR '','') 0 = None" "find_char ?b (CHR ''-'') 0 = None"
      using show_nat_notin [of _ "nat b"] by (simp_all add: digit_not_sign)
    moreover have "str_find (''bytes='' @ ?b) ''bytes='' 0 = Some 0"
      by (simp add: str_find_def)
    ultimately show ?thesis
      using assms(1) nb by (simp add: parse_range_def show_int_nonneg substr_from_def)
  qed
  from p1 p2 p3 p4 assms show ?thesis by (simp add: range_text_def)
qed

theorem range_text_parse_witness:
  "parse_range ''bytes=3-9'' (7, 7) = (True, 3, 9)"
proof -
  have "show_int 3 = ''3''" "show_int 9 = ''9''"
    by (code_simp, code_simp)
  with range_text_parse [of 3 9 1 "(7, 7)"] show ?thesis by simp
qed

lemma substr_mid: "p = length pre \<Longrightarrow> n = length m \<Longrightarrow> substr (pre @ m @ r) p n = m"
  by (simp add: substr_def)

lemma substr_from_mid: "p = length pre \<Longrightarrow> substr_from (pre @ r) p = r"
  by (simp add: substr_from_def)

lemma find_char_after:
  assumes "c \<notin> set w" and "c \<noteq> d" and "find_char (pre @ w @ d # t) c (length pre) = Some i"
  shows "length pre + length w < i"
proof -
  have "find_sub [c] (w @ d # t) = Some j \<Longrightarrow> length w < j" for j
    using assms(1,2) by (induction w arbitrary: j) (auto split: if_splits)
  with assms(3) show ?thesis
    by (auto simp: find_char_def str_find_def split: if_splits)
qed

text \<open>
  \<open>ParseUrl\<close> takes a URL apart the way it was put together: with and without a port, and with
  or without a path, the default port being the protocol's and the default path the root. The path
  may hold anything, colons included.
\<close>

theorem parse_url_parts:
  assumes "CHR '':'' \<notin> set proto" and "CHR '':'' \<notin> set host" and "CHR ''/'' \<notin> set host"
    and "CHR ''/'' \<notin> set port"
    and "dflt = (if proto = ''https'' then ''443'' else ''80'')"
  shows "ParseUrl (proto @ ''://'' @ host @ '':'' @ port @ ''/'' @ rest) = (proto, host, port, ''/'' @ rest)
    \<and> ParseUrl (proto @ ''://'' @ host @ ''/'' @ rest) = (proto, host, dflt, ''/'' @ rest)
    \<and> ParseUrl (proto @ ''://'' @ host) = (proto, host, dflt, ''/'')"
proof -
  let ?n = "length proto"
  define pre where "pre = proto @ ''://''"
  have len: "length pre = ?n + 3" by (simp add: pre_def)
  have prot: "str_find (pre @ t) ''://'' 0 = Some ?n" for t
    using find_sub_sep [OF assms(1), of "''//''" t] by (simp add: str_find_def pre_def)
  have proto: "substr (pre @ t) 0 ?n = proto" for t
    by (simp add: substr_def pre_def)
  have host: "substr (pre @ host @ t) (?n + 3) (length host) = host" for t
    by (rule substr_mid) (simp_all add: len)
  have a: "ParseUrl (pre @ host @ '':'' @ port @ ''/'' @ rest) = (proto, host, port, ''/'' @ rest)"
  proof -
    let ?u = "pre @ host @ CHR '':'' # port @ CHR ''/'' # rest"
    have c: "find_char ?u (CHR '':'') (?n + 3) = Some (?n + 3 + length host)"
      using find_char_skip [OF assms(2), of "?n + 3" pre] len by simp
    have "CHR ''/'' \<notin> set (host @ '':'' @ port)" using assms by simp
    from find_char_skip [OF this, of "?n + 3" pre rest]
    have s1: "find_char ?u (CHR ''/'') (?n + 3) = Some (?n + 3 + (length host + 1 + length port))"
      using len by simp
    from find_char_skip [OF assms(4), of "?n + 3 + length host + 1" "pre @ host @ '':''" rest]
    have s2: "find_char ?u (CHR ''/'') (?n + 3 + length host + 1) = Some (?n + 3 + length host + 1 + length port)"
      using len by simp
    have p: "substr ?u (?n + 3 + length host + 1) (length port) = port"
      using substr_mid [of "?n + 3 + length host + 1" "pre @ host @ '':''" "length port" port] len by simp
    have q: "substr_from ?u (?n + 3 + length host + 1 + length port) = CHR ''/'' # rest"
      using substr_from_mid [of "?n + 3 + length host + 1 + length port" "pre @ host @ '':'' @ port"] len
      by simp
    show ?thesis
      using prot proto host c s1 s2 p q by (simp add: ParseUrl_def Let_def)
  qed
  have b: "ParseUrl (pre @ host @ ''/'' @ rest) = (proto, host, dflt, ''/'' @ rest)"
  proof -
    let ?u = "pre @ host @ CHR ''/'' # rest"
    have s: "find_char ?u (CHR ''/'') (?n + 3) = Some (?n + 3 + length host)"
      using find_char_skip [OF assms(3), of "?n + 3" pre] len by simp
    have q: "substr_from ?u (?n + 3 + length host) = CHR ''/'' # rest"
      using substr_from_mid [of "?n + 3 + length host" "pre @ host"] len by simp
    show ?thesis
    proof (cases "find_char ?u (CHR '':'') (?n + 3)")
      case None
      then show ?thesis using prot proto host s q assms(5) by (simp add: ParseUrl_def Let_def)
    next
      case (Some i)
      with find_char_after [OF assms(2), of "CHR ''/''" pre rest i] len
      have "\<not> i < ?n + 3 + length host" by simp
      with Some show ?thesis using prot proto host s q assms(5) by (simp add: ParseUrl_def Let_def)
    qed
  qed
  have "find_char (pre @ host) (CHR '':'') (?n + 3) = None" "find_char (pre @ host) (CHR ''/'') (?n + 3) = None"
    using find_char_skip_notin [OF assms(2), of "?n + 3" pre]
      find_char_skip_notin [OF assms(3), of "?n + 3" pre] len by simp_all
  moreover have "substr_from (pre @ host) (?n + 3) = host"
    using substr_from_mid [of "?n + 3" pre] len by simp
  ultimately have "ParseUrl (pre @ host) = (proto, host, dflt, ''/'')"
    using prot proto assms(5) by (simp add: ParseUrl_def Let_def)
  with a b show ?thesis by (simp add: pre_def)
qed

theorem parse_url_parts_witness:
  "ParseUrl ''https://h:8080/a:b'' = (''https'', ''h'', ''8080'', ''/a:b'')"
  using parse_url_parts [of "''https''" "''h''" "''8080''" "''443''" "''a:b''"] by simp

text \<open>
  The host and port a request is given are the ones it connects to: a port of \<open>uint32_t\<close> goes
  into the \<open>Host\<close> field, 80 being left out, and comes back from it.
\<close>

theorem host_port_roundtrip:
  assumes "host \<noteq> []" and "CHR '':'' \<notin> set host" and "port < 2 ^ 32"
    and "rq_set_host_port host port r = Some r'"
  shows "rq_get_host_port r' hp = (host, port)"
proof -
  let ?h = "if port \<noteq> 80 then host @ '':'' @ show_nat port else host"
  have h: "rq_get_header ''Host'' r' = ?h"
    using assms(4)
    by (auto simp: rq_set_host_port_def rq_set_header_def header_set_def rq_get_header_def
        header_get_def header_find_put split: if_splits option.splits)
  show ?thesis
  proof (cases "port = 80")
    case True
    have "show_nat 80 = ''80''" by code_simp
    then have "lexical_cast_uint ''80'' = Some 80"
      using lexical_cast_uint_show [of 80] by simp
    with True show ?thesis using h assms(1,2)
      by (simp add: rq_get_host_port_def Let_def)
  next
    case False
    have f: "find_char (host @ CHR '':'' # show_nat port) (CHR '':'') 0 = Some (length host)"
      using assms(2) by simp
    from False show ?thesis using h f assms(1,3)
      by (simp add: rq_get_host_port_def substr_def substr_from_def Let_def)
  qed
qed

theorem host_port_roundtrip_witness:
  "\<exists>r'. rq_set_host_port ''h'' 8080 HttpRequest_new = Some r' \<and> rq_get_host_port r' ([], 0) = (''h'', 8080)"
proof -
  obtain r' where r': "rq_set_host_port ''h'' 8080 HttpRequest_new = Some r'"
    by (simp add: rq_set_host_port_def rq_set_header_def header_set_def HttpRequest_new_def
        header_find_def)
  have "rq_get_host_port r' ([], 0) = (''h'', 8080)"
    by (rule host_port_roundtrip [OF _ _ _ r']) simp_all
  with r' show ?thesis by blast
qed

text \<open>
  A clone of a request keeps the method, path, version, fields and body but is a plain HTTP one
  without a proxy, whatever the original was; \<open>reset\<close> clears the fields but leaves the map they
  are looked up in, so a header of the request before still answers.
\<close>

theorem request_clone_loses:
  "rq_serialize (rq_clone r) = rq_serialize r \<and> rq_get_header n (rq_clone r) = rq_get_header n r
    \<and> rq_is_https (rq_clone r) = Some False \<and> rq_get_conn_host_port (rq_clone r) hp = rq_get_host_port r hp
    \<and> rq_headers (rq_reset r) = [] \<and> rq_get_header n (rq_reset r) = rq_get_header n r"
  by (simp add: rq_clone_def rq_serialize_def rq_get_header_def rq_get_conn_host_port_def
      HttpRequest_new_def rq_get_host_port_def rq_reset_def)

end
