(* ===== verification/Bee_Async_FSM.thy ===== *)
theory Bee_Async_FSM
  imports Bee_IOBuffer
begin

text \<open>
  \<open>State\<close> and \<open>AsyncStateMachine\<close> (src/state/state.cpp, src/state/async_state_machine.cpp): a graph
  of states, each with a router that names the state after it and, for every successor, a transform
  that fills the successor's input event from this state's output event.

  States are shared pointers: a pointer is a number, what it points to is found in \<open>fsm_heap\<close>, and
  the graph maps ids to pointers, so a state that \<open>add_state\<close> refuses exists without being in the
  graph. Routers and transforms are bound to the derived machine: they read and write its own
  members, the field \<open>members\<close>. The events of one machine have one type, whose \<open>ev_extra\<close> carries what
  the derived event structures add. \<open>posted\<close> holds the executions handed to the event loop and not
  yet run, \<open>outputs\<close> the events \<open>output\<close> was called with, in order.

  The lemmas say what \<open>done\<close> does on every branch and that over any run, whatever the states do, every
  \<open>done\<close> is answered by one posted execution or one report.
\<close>

section \<open>Events, states and machines\<close>

record 'x state_event =
  ev_ec1 :: BeeErrorCode
  ev_ec2 :: error_code
  ev_setup :: bool
  ev_data :: "char iobuffer"
  ev_extra :: 'x

definition StateEvent_new :: "'x \<Rightarrow> 'x state_event" where
  "StateEvent_new x = \<lparr>ev_ec1 = kBeeErrorCode_Success, ev_ec2 = Ec_Ok, ev_setup = False,
     ev_data = IOBuffer_new 0, ev_extra = x\<rparr>"

type_synonym ('c, 'x) router = "'c \<Rightarrow> 'x state_event \<Rightarrow> int \<times> 'x state_event \<times> 'c"
type_synonym ('c, 'x) transform =
  "'c \<Rightarrow> 'x state_event \<Rightarrow> 'x state_event \<Rightarrow> bool \<times> 'x state_event \<times> 'x state_event \<times> 'c"

record ('c, 'x) State =
  st_id :: int
  st_type :: int
  st_router :: "('c, 'x) router option"
  st_transforms :: "(int \<times> ('c, 'x) transform) list"
  st_attached :: bool
  st_input :: "'x state_event option"
  st_output :: "'x state_event option"

record ('c, 'x) AsyncStateMachine =
  fsm_ios :: bool
  fsm_heap :: "nat \<Rightarrow> ('c, 'x) State"
  fsm_fresh :: nat
  state_graph :: "(int \<times> nat) list"
  activate_state :: "nat option"
  current_state_id :: int
  posted :: "nat list"
  outputs :: "'x state_event list"
  members :: 'c

definition kInvalidState :: int where
  "kInvalidState = - 1"

definition kFinishedState :: int where
  "kFinishedState = - 2"

definition State_new :: "int \<Rightarrow> int \<Rightarrow> ('c, 'x) State" where
  "State_new i ty = \<lparr>st_id = i, st_type = ty, st_router = None, st_transforms = [],
     st_attached = False, st_input = None, st_output = None\<rparr>"

definition AsyncStateMachine_new :: "bool \<Rightarrow> 'c \<Rightarrow> ('c, 'x) AsyncStateMachine" where
  "AsyncStateMachine_new ios c = \<lparr>fsm_ios = ios, fsm_heap = (\<lambda>_. State_new 0 0), fsm_fresh = 0,
     state_graph = [], activate_state = None, current_state_id = - 1, posted = [], outputs = [],
     members = c\<rparr>"

definition set_st :: "nat \<Rightarrow> ('c, 'x) State \<Rightarrow> ('c, 'x) AsyncStateMachine \<Rightarrow> ('c, 'x) AsyncStateMachine" where
  "set_st p s m = m\<lparr>fsm_heap := (fsm_heap m)(p := s)\<rparr>"

definition set_output_event ::
    "nat \<Rightarrow> 'x state_event \<Rightarrow> ('c, 'x) AsyncStateMachine \<Rightarrow> ('c, 'x) AsyncStateMachine" where
  "set_output_event p ev m = set_st p ((fsm_heap m p)\<lparr>st_output := Some ev\<rparr>) m"

section \<open>Building the graph\<close>

definition state_add_transform ::
    "int \<Rightarrow> ('c, 'x) transform option \<Rightarrow> ('c, 'x) State \<Rightarrow> bool \<times> ('c, 'x) State" where
  "state_add_transform target tf s =
     (case tf of
        None \<Rightarrow> (False, s)
      | Some t \<Rightarrow>
          if map_of (st_transforms s) target \<noteq> None then (False, s)
          else (True, s\<lparr>st_transforms := AList.update target t (st_transforms s)\<rparr>))"

definition add_state ::
    "nat option \<Rightarrow> bool \<Rightarrow> ('c, 'x) AsyncStateMachine \<Rightarrow> bool \<times> ('c, 'x) AsyncStateMachine" where
  "add_state state activate m =
     (case state of
        None \<Rightarrow> (False, m)
      | Some p \<Rightarrow>
          if activate \<and> activate_state m \<noteq> None then (False, m)
          else
            (let i = st_id (fsm_heap m p)
             in if map_of (state_graph m) i \<noteq> None then (False, m)
                else (True, m\<lparr>state_graph := AList.update i p (state_graph m),
                        activate_state := (if activate then Some p else activate_state m)\<rparr>)))"

definition add_transform ::
    "int \<Rightarrow> int \<Rightarrow> ('c, 'x) transform option \<Rightarrow> ('c, 'x) AsyncStateMachine
      \<Rightarrow> bool \<times> ('c, 'x) AsyncStateMachine" where
  "add_transform source target tf m =
     (if tf = None then (False, m)
      else case map_of (state_graph m) source of
          None \<Rightarrow> (False, m)
        | Some p \<Rightarrow>
            (let (ret, s) = state_add_transform target tf (fsm_heap m p) in (ret, set_st p s m)))"

text \<open>
  \<open>State::setup\<close>; \<open>x_in\<close> and \<open>x_out\<close> are what the state's class puts into its new events. The answer
  of \<open>add_state\<close> is not looked at.
\<close>

definition state_setup ::
    "('c, 'x) router option \<Rightarrow> bool \<Rightarrow> 'x \<Rightarrow> 'x \<Rightarrow> nat \<Rightarrow> ('c, 'x) AsyncStateMachine
      \<Rightarrow> bool \<times> ('c, 'x) AsyncStateMachine" where
  "state_setup router activate x_in x_out p m =
     (if router = None then (False, m)
      else
        (let m1 = set_st p ((fsm_heap m p)\<lparr>st_router := router, st_attached := True,
               st_input := Some (StateEvent_new x_in), st_output := Some (StateEvent_new x_out)\<rparr>) m
         in (True, snd (add_state (Some p) activate m1))))"

text \<open>One \<open>BEGIN_STATE \<dots> SWITCH_TO \<dots> END_STATE\<close> of a machine's definition.\<close>

record ('c, 'x) state_spec =
  sp_id :: int
  sp_type :: int
  sp_router :: "('c, 'x) router"
  sp_activate :: bool
  sp_input :: 'x
  sp_output :: 'x
  sp_switches :: "(int \<times> ('c, 'x) transform) list"

fun switch_tos ::
    "(int \<times> ('c, 'x) transform) list \<Rightarrow> nat \<Rightarrow> ('c, 'x) AsyncStateMachine
      \<Rightarrow> bool \<times> ('c, 'x) AsyncStateMachine" where
  "switch_tos [] p m = (True, m)"
| "switch_tos ((target, tf) # ts) p m =
     (let (ret, s) = state_add_transform target (Some tf) (fsm_heap m p); m1 = set_st p s m
      in if ret then switch_tos ts p m1 else (False, m1))"

definition begin_state ::
    "('c, 'x) state_spec \<Rightarrow> ('c, 'x) AsyncStateMachine \<Rightarrow> bool \<times> ('c, 'x) AsyncStateMachine" where
  "begin_state sp m =
     (let p = fsm_fresh m;
          m1 = set_st p (State_new (sp_id sp) (sp_type sp)) (m\<lparr>fsm_fresh := p + 1\<rparr>);
          (ret, m2) = state_setup (Some (sp_router sp)) (sp_activate sp) (sp_input sp) (sp_output sp) p m1
      in if ret then switch_tos (sp_switches sp) p m2 else (False, m2))"

text \<open>\<open>BEGIN_STATE_MACHINE \<dots> END_STATE_MACHINE\<close>: leaving the block early answers \<open>False\<close>.\<close>

fun setup_state_machine ::
    "('c, 'x) state_spec list \<Rightarrow> ('c, 'x) AsyncStateMachine \<Rightarrow> bool \<times> ('c, 'x) AsyncStateMachine" where
  "setup_state_machine [] m = (state_graph m \<noteq> [], m)"
| "setup_state_machine (sp # sps) m =
     (let (ret, m1) = begin_state sp m
      in if ret then setup_state_machine sps m1 else (False, m1))"

definition state_uninstall :: "('c, 'x) State \<Rightarrow> ('c, 'x) State" where
  "state_uninstall s = s\<lparr>st_router := None, st_transforms := []\<rparr>"

definition uninstall_state_machine :: "('c, 'x) AsyncStateMachine \<Rightarrow> ('c, 'x) AsyncStateMachine" where
  "uninstall_state_machine m =
     (fold (\<lambda>(i, p) m. set_st p (state_uninstall (fsm_heap m p)) m) (state_graph m) m)
       \<lparr>state_graph := []\<rparr>"

section \<open>Running the machine\<close>

definition fsm_output :: "'x state_event \<Rightarrow> ('c, 'x) AsyncStateMachine \<Rightarrow> ('c, 'x) AsyncStateMachine" where
  "fsm_output ev m = m\<lparr>outputs := outputs m @ [ev]\<rparr>"

definition activate_state_machine ::
    "('c, 'x) AsyncStateMachine \<Rightarrow> bool \<times> ('c, 'x) AsyncStateMachine" where
  "activate_state_machine m =
     (if \<not> fsm_ios m then (False, m)
      else if current_state_id m \<noteq> - 1 then (False, m)
      else case activate_state m of
          None \<Rightarrow> (False, m)
        | Some p \<Rightarrow>
            if state_graph m = [] then (False, m)
            else (True, m\<lparr>current_state_id := st_id (fsm_heap m p), posted := posted m @ [p]\<rparr>))"

text \<open>
  \<open>AsyncStateMachine::switch_to_state\<close>, the last output event being the one of the state at \<open>src\<close>;
  \<open>None\<close> when \<open>ios_\<close> is dereferenced after \<open>stop\<close> has dropped it.
\<close>

definition machine_switch_to_state ::
    "int \<Rightarrow> ('c, 'x) transform option \<Rightarrow> nat \<Rightarrow> ('c, 'x) AsyncStateMachine
      \<Rightarrow> (bool \<times> ('c, 'x) AsyncStateMachine) option" where
  "machine_switch_to_state nxt tf src m =
     (case (tf, st_output (fsm_heap m src)) of
        (Some t, Some out_ev) \<Rightarrow>
          (case map_of (state_graph m) nxt of
             None \<Rightarrow> Some (False, m)
           | Some p \<Rightarrow>
             (case st_input (fsm_heap m p) of
                None \<Rightarrow> Some (False, m)
              | Some in_ev \<Rightarrow>
                (let (ret, out', in', c) = t (members m) out_ev in_ev;
                     m1 = set_output_event src out' (m\<lparr>members := c\<rparr>);
                     m2 = set_st p ((fsm_heap m1 p)\<lparr>st_input := Some in'\<rparr>) m1
                 in if \<not> ret then Some (False, m2)
                    else if \<not> fsm_ios m2 then None
                    else Some (True, m2\<lparr>current_state_id := nxt, posted := posted m2 @ [p]\<rparr>))))
      | _ \<Rightarrow> Some (False, m))"

definition state_switch_to_state ::
    "int \<Rightarrow> ('c, 'x) transform \<Rightarrow> nat \<Rightarrow> ('c, 'x) AsyncStateMachine
      \<Rightarrow> (bool \<times> ('c, 'x) AsyncStateMachine) option" where
  "state_switch_to_state nxt tf p m =
     (if \<not> st_attached (fsm_heap m p) then Some (False, m)
      else machine_switch_to_state nxt (Some tf) p m)"

text \<open>\<open>State::output\<close> hands the event on as it is then.\<close>

definition state_output :: "nat \<Rightarrow> ('c, 'x) AsyncStateMachine \<Rightarrow> ('c, 'x) AsyncStateMachine" where
  "state_output p m =
     (case st_output (fsm_heap m p) of
        None \<Rightarrow> m
      | Some ev \<Rightarrow> if st_attached (fsm_heap m p) then fsm_output ev m else m)"

text \<open>
  \<open>State::switch_to_next\<close> up to the report: what the router and the transform decide, and the code
  put into the output event when the machine does not go on.
\<close>

definition switch_to_next_core ::
    "nat \<Rightarrow> ('c, 'x) AsyncStateMachine \<Rightarrow> (bool \<times> ('c, 'x) AsyncStateMachine) option" where
  "switch_to_next_core p m =
     (case st_output (fsm_heap m p) of
        None \<Rightarrow> Some (False, m)
      | Some ev \<Rightarrow>
        if \<not> ev_setup ev then Some (False, m)
        else
          (case st_router (fsm_heap m p) of
             None \<Rightarrow> Some (False, set_output_event p (ev\<lparr>ev_ec1 := kBeeErrorCode_Error_State_Machine\<rparr>) m)
           | Some r \<Rightarrow>
             (let (nxt, ev1, c) = r (members m) ev;
                  m1 = set_output_event p ev1 (m\<lparr>members := c\<rparr>)
              in if nxt = kInvalidState then
                   Some (False,
                     if ev_ec1 ev1 = kBeeErrorCode_Success
                     then set_output_event p (ev1\<lparr>ev_ec1 := kBeeErrorCode_State_Machine_Interrupted\<rparr>) m1
                     else m1)
                 else if nxt = kFinishedState then
                   Some (False, set_output_event p (ev1\<lparr>ev_ec1 := kBeeErrorCode_State_Machine_Finished\<rparr>) m1)
                 else case map_of (st_transforms (fsm_heap m1 p)) nxt of
                     None \<Rightarrow>
                       Some (False, set_output_event p (ev1\<lparr>ev_ec1 := kBeeErrorCode_Error_State_Machine\<rparr>) m1)
                   | Some t \<Rightarrow> state_switch_to_state nxt t p m1)))"

definition switch_to_next ::
    "nat \<Rightarrow> ('c, 'x) AsyncStateMachine \<Rightarrow> (bool \<times> ('c, 'x) AsyncStateMachine) option" where
  "switch_to_next p m =
     map_option (\<lambda>(ret, m'). (ret, if ret then m' else state_output p m')) (switch_to_next_core p m)"

definition state_done ::
    "nat \<Rightarrow> ('c, 'x) AsyncStateMachine \<Rightarrow> (bool \<times> ('c, 'x) AsyncStateMachine) option" where
  "state_done p m = switch_to_next p m"

definition state_done_ec ::
    "BeeErrorCode \<Rightarrow> error_code \<Rightarrow> nat \<Rightarrow> ('c, 'x) AsyncStateMachine
      \<Rightarrow> (bool \<times> ('c, 'x) AsyncStateMachine) option" where
  "state_done_ec ec1 ec2 p m =
     state_done p
       (case st_output (fsm_heap m p) of
          None \<Rightarrow> m
        | Some ev \<Rightarrow> set_output_event p (ev\<lparr>ev_ec1 := ec1, ev_ec2 := ec2\<rparr>) m)"

definition check_event :: "('c, 'x) State \<Rightarrow> bool" where
  "check_event s \<longleftrightarrow> (case st_input s of None \<Rightarrow> False | Some ev \<Rightarrow> ev_setup ev) \<and> st_output s \<noteq> None"

text \<open>
  \<open>execute_state\<close>: the virtual \<open>execute\<close> is an argument; an error it returns is reported. \<open>None\<close> when
  there is no output event to put it in.
\<close>

definition execute_state ::
    "(nat \<Rightarrow> ('c, 'x) AsyncStateMachine \<Rightarrow> BeeErrorCode \<times> ('c, 'x) AsyncStateMachine)
      \<Rightarrow> nat \<Rightarrow> ('c, 'x) AsyncStateMachine \<Rightarrow> ('c, 'x) AsyncStateMachine option" where
  "execute_state execute p m =
     (let (ret, m1) = execute p m
      in if ret = kBeeErrorCode_Success then Some m1
         else case st_output (fsm_heap m1 p) of
             None \<Rightarrow> None
           | Some ev \<Rightarrow>
               (let ev1 = ev\<lparr>ev_ec1 := ret\<rparr> in Some (fsm_output ev1 (set_output_event p ev1 m1))))"

section \<open>What the operations keep\<close>

definition state_ok :: "('c, 'x) State \<Rightarrow> bool" where
  "state_ok s \<longleftrightarrow> st_attached s \<and> st_router s \<noteq> None \<and> st_input s \<noteq> None \<and> st_output s \<noteq> None"

definition fsm_wf :: "('c, 'x) AsyncStateMachine \<Rightarrow> bool" where
  "fsm_wf m \<longleftrightarrow>
     (\<forall>i p. map_of (state_graph m) i = Some p
        \<longrightarrow> p < fsm_fresh m \<and> st_id (fsm_heap m p) = i \<and> state_ok (fsm_heap m p))
     \<and> (\<forall>p. activate_state m = Some p \<longrightarrow> map_of (state_graph m) (st_id (fsm_heap m p)) = Some p)"

text \<open>Running changes the events, the members and what is posted and reported; nothing else.\<close>

definition same_state :: "('c, 'x) State \<Rightarrow> ('c, 'x) State \<Rightarrow> bool" where
  "same_state s s' \<longleftrightarrow> st_id s' = st_id s \<and> st_attached s' = st_attached s \<and> st_router s' = st_router s
     \<and> st_transforms s' = st_transforms s \<and> (st_input s' = None) = (st_input s = None)
     \<and> (st_output s' = None) = (st_output s = None)"

definition fsm_keeps :: "('c, 'x) AsyncStateMachine \<Rightarrow> ('c, 'x) AsyncStateMachine \<Rightarrow> bool" where
  "fsm_keeps m m' \<longleftrightarrow> state_graph m' = state_graph m \<and> fsm_fresh m' = fsm_fresh m
     \<and> activate_state m' = activate_state m \<and> fsm_ios m' = fsm_ios m
     \<and> (\<forall>p. same_state (fsm_heap m p) (fsm_heap m' p))"

lemma same_state_refl [simp]: "same_state s s"
  by (simp add: same_state_def)

lemma fsm_keeps_refl [simp]: "fsm_keeps m m"
  by (simp add: fsm_keeps_def)

lemma fsm_keeps_trans: "fsm_keeps m m' \<Longrightarrow> fsm_keeps m' m'' \<Longrightarrow> fsm_keeps m m''"
  unfolding fsm_keeps_def same_state_def by (elim conjE) simp

lemma fsm_keeps_set_st: "same_state (fsm_heap m p) s \<Longrightarrow> fsm_keeps m (set_st p s m)"
  by (simp add: fsm_keeps_def set_st_def)

lemma fsm_keeps_members [simp]:
  "fsm_keeps m (m\<lparr>members := c\<rparr>)" "fsm_keeps m (m\<lparr>posted := ps\<rparr>)" "fsm_keeps m (m\<lparr>outputs := os\<rparr>)"
  "fsm_keeps m (m\<lparr>current_state_id := i, posted := ps\<rparr>)" "fsm_keeps m (m\<lparr>current_state_id := i\<rparr>)"
  by (simp_all add: fsm_keeps_def)

lemma same_state_output: "st_output s \<noteq> None \<Longrightarrow> same_state s (s\<lparr>st_output := Some ev\<rparr>)"
  by (simp add: same_state_def)

lemma fsm_keeps_output:
  "st_output (fsm_heap m p) \<noteq> None \<Longrightarrow> fsm_keeps m (set_output_event p ev m)"
  unfolding set_output_event_def by (intro fsm_keeps_set_st same_state_output)

lemma fsm_keeps_input:
  "st_input (fsm_heap m p) \<noteq> None
    \<Longrightarrow> fsm_keeps m (set_st p ((fsm_heap m p)\<lparr>st_input := Some ev\<rparr>) m)"
  by (intro fsm_keeps_set_st) (simp add: same_state_def)

lemma fsm_keeps_wf: "fsm_keeps m m' \<Longrightarrow> fsm_wf m \<Longrightarrow> fsm_wf m'"
  unfolding fsm_keeps_def fsm_wf_def same_state_def state_ok_def by (elim conjE) auto

lemma set_output_event_simps [simp]:
  "posted (set_output_event p ev m) = posted m" "outputs (set_output_event p ev m) = outputs m"
  "current_state_id (set_output_event p ev m) = current_state_id m"
  "members (set_output_event p ev m) = members m" "fsm_ios (set_output_event p ev m) = fsm_ios m"
  "state_graph (set_output_event p ev m) = state_graph m"
  "st_output (fsm_heap (set_output_event p ev m) p) = Some ev"
  "st_input (fsm_heap (set_output_event p ev m) q) = st_input (fsm_heap m q)"
  "st_router (fsm_heap (set_output_event p ev m) q) = st_router (fsm_heap m q)"
  "st_transforms (fsm_heap (set_output_event p ev m) q) = st_transforms (fsm_heap m q)"
  "st_attached (fsm_heap (set_output_event p ev m) q) = st_attached (fsm_heap m q)"
  by (simp_all add: set_output_event_def set_st_def)

lemma set_output_event_twice [simp]:
  "set_output_event p ev (set_output_event p ev' m) = set_output_event p ev m"
  by (simp add: set_output_event_def set_st_def)

section \<open>Going on or reporting\<close>

text \<open>The branches of \<open>switch_to_state\<close>: the successor is posted, or nothing is.\<close>

lemma switch_to_state_branches:
  assumes "fsm_wf m" and "fsm_ios m" and "state_ok (fsm_heap m p)"
  shows "\<exists>ret m'. state_switch_to_state nxt t p m = Some (ret, m') \<and> fsm_keeps m m'
    \<and> outputs m' = outputs m
    \<and> (if ret then \<exists>q. map_of (state_graph m) nxt = Some q \<and> posted m' = posted m @ [q]
           \<and> current_state_id m' = nxt
       else posted m' = posted m \<and> current_state_id m' = current_state_id m)"
proof -
  from assms(3) obtain ev where ev: "st_output (fsm_heap m p) = Some ev" and att: "st_attached (fsm_heap m p)"
    by (auto simp: state_ok_def)
  show ?thesis
  proof (cases "map_of (state_graph m) nxt")
    case None
    with ev att show ?thesis by (auto simp: state_switch_to_state_def machine_switch_to_state_def)
  next
    case (Some q)
    with assms(1) obtain inp where inp: "st_input (fsm_heap m q) = Some inp"
      unfolding fsm_wf_def state_ok_def by blast
    obtain ret out' in' c where t: "t (members m) ev inp = (ret, out', in', c)" by (cases "t (members m) ev inp")
    define m1 where "m1 = set_output_event p out' (m\<lparr>members := c\<rparr>)"
    define m2 where "m2 = set_st q ((fsm_heap m1 q)\<lparr>st_input := Some in'\<rparr>) m1"
    have k1: "fsm_keeps m m1"
      unfolding m1_def by (rule fsm_keeps_trans [OF fsm_keeps_members(1) fsm_keeps_output]) (simp add: ev)
    have "st_input (fsm_heap m1 q) \<noteq> None" by (simp add: m1_def inp)
    then have k2: "fsm_keeps m m2" unfolding m2_def by (intro fsm_keeps_trans [OF k1] fsm_keeps_input)
    have same: "outputs m2 = outputs m" "posted m2 = posted m" "current_state_id m2 = current_state_id m"
      "fsm_ios m2" using assms(2) by (simp_all add: m2_def m1_def set_st_def)
    have "state_switch_to_state nxt t p m =
        (if ret then Some (True, m2\<lparr>current_state_id := nxt, posted := posted m2 @ [q]\<rparr>) else Some (False, m2))"
      using ev att Some inp t same(4)
      by (simp add: state_switch_to_state_def machine_switch_to_state_def Let_def m1_def m2_def)
    moreover have "fsm_keeps m (m2\<lparr>current_state_id := nxt, posted := posted m2 @ [q]\<rparr>)"
      by (rule fsm_keeps_trans [OF k2]) simp
    ultimately show ?thesis using k2 same Some by (cases ret) auto
  qed
qed

lemma ex_not [simp]: "\<exists>b. \<not> b"
  by blast

lemma switch_core_branches:
  assumes "fsm_wf m" and "fsm_ios m" and "state_ok (fsm_heap m p)"
  shows "\<exists>ret m'. switch_to_next_core p m = Some (ret, m') \<and> fsm_keeps m m'
    \<and> outputs m' = outputs m
    \<and> (if ret then \<exists>nxt q. map_of (state_graph m) nxt = Some q \<and> posted m' = posted m @ [q]
           \<and> current_state_id m' = nxt \<and> map_of (st_transforms (fsm_heap m p)) nxt \<noteq> None
       else posted m' = posted m \<and> current_state_id m' = current_state_id m)"
proof -
  from assms(3) obtain ev r where ev: "st_output (fsm_heap m p) = Some ev"
    and r: "st_router (fsm_heap m p) = Some r" by (auto simp: state_ok_def)
  obtain nxt ev1 c where rt: "r (members m) ev = (nxt, ev1, c)" by (cases "r (members m) ev")
  define m1 where "m1 = set_output_event p ev1 (m\<lparr>members := c\<rparr>)"
  have k1: "fsm_keeps m m1"
    unfolding m1_def by (rule fsm_keeps_trans [OF fsm_keeps_members(1) fsm_keeps_output]) (simp add: ev)
  have kx: "fsm_keeps m (set_output_event p ev' m1)" for ev'
    by (rule fsm_keeps_trans [OF k1 fsm_keeps_output]) (simp add: m1_def)
  have kc: "fsm_keeps m (set_output_event p ev' (m\<lparr>members := c\<rparr>))" for ev'
    by (rule fsm_keeps_trans [OF fsm_keeps_members(1) fsm_keeps_output]) (simp add: ev)
  have same: "outputs m1 = outputs m" "posted m1 = posted m" "current_state_id m1 = current_state_id m"
    "state_graph m1 = state_graph m" "st_transforms (fsm_heap m1 p) = st_transforms (fsm_heap m p)"
    by (simp_all add: m1_def)
  note core = ev r rt [folded m1_def]
  consider "\<not> ev_setup ev" | "ev_setup ev" "nxt = kInvalidState" | "ev_setup ev" "nxt = kFinishedState"
    | "ev_setup ev" "nxt \<noteq> kInvalidState" "nxt \<noteq> kFinishedState" "map_of (st_transforms (fsm_heap m1 p)) nxt = None"
    | t where "ev_setup ev" "nxt \<noteq> kInvalidState" "nxt \<noteq> kFinishedState"
      "map_of (st_transforms (fsm_heap m1 p)) nxt = Some t"
    by (cases "map_of (st_transforms (fsm_heap m1 p)) nxt") auto
  then show ?thesis
  proof cases
    case 1
    with ev show ?thesis
      by (intro exI [of _ False] exI [of _ m]) (simp add: switch_to_next_core_def)
  next
    case 2
    with core same k1 kx kc show ?thesis
      by (simp add: switch_to_next_core_def Let_def m1_def [symmetric])
  next
    case 3
    with core same kx kc show ?thesis
      by (simp add: switch_to_next_core_def Let_def m1_def [symmetric] kInvalidState_def kFinishedState_def)
  next
    case 4
    with core same kx kc show ?thesis
      by (simp add: switch_to_next_core_def Let_def m1_def [symmetric])
  next
    case (5 t)
    have "fsm_wf m1" "fsm_ios m1" using fsm_keeps_wf [OF k1 assms(1)] assms(2) by (simp_all add: m1_def)
    moreover have "state_ok (fsm_heap m1 p)" using assms(3) by (simp add: m1_def state_ok_def)
    ultimately obtain ret m' where sw: "state_switch_to_state nxt t p m1 = Some (ret, m')"
      "fsm_keeps m1 m'" "outputs m' = outputs m1"
      "if ret then \<exists>q. map_of (state_graph m1) nxt = Some q \<and> posted m' = posted m1 @ [q]
           \<and> current_state_id m' = nxt
       else posted m' = posted m1 \<and> current_state_id m' = current_state_id m1"
      using switch_to_state_branches [of m1 p nxt t] by blast
    have "switch_to_next_core p m = Some (ret, m')"
      using core 5(1-3) sw(1) 5(4) [unfolded same(5)]
      by (simp add: switch_to_next_core_def Let_def m1_def [symmetric])
    with sw 5 same fsm_keeps_trans [OF k1 sw(2)] show ?thesis by (cases ret) auto
  qed
qed

text \<open>
  C24: what a handler's \<open>done\<close> does, on every branch. A state in the graph of a machine that is not
  stopped either goes on (exactly one successor of its table, which is in the graph, is posted and
  becomes the current state, and nothing is reported) or stops the machine's run by reporting its
  output event exactly once, posting nothing and staying in the current state. An event that was not
  set up is reported with the handler's own codes, without asking the router.
\<close>

theorem done_goes_on_or_reports:
  assumes "fsm_wf m" and "fsm_ios m" and "map_of (state_graph m) i = Some p"
    and "st_output (fsm_heap m p) = Some ev"
  shows "\<exists>ret m'. state_done_ec ec1 ec2 p m = Some (ret, m') \<and> fsm_wf m' \<and> state_graph m' = state_graph m
    \<and> (if ret then outputs m' = outputs m
           \<and> (\<exists>nxt q. map_of (st_transforms (fsm_heap m p)) nxt \<noteq> None \<and> map_of (state_graph m) nxt = Some q
               \<and> posted m' = posted m @ [q] \<and> current_state_id m' = nxt)
       else posted m' = posted m \<and> current_state_id m' = current_state_id m
           \<and> (\<exists>ev'. st_output (fsm_heap m' p) = Some ev' \<and> outputs m' = outputs m @ [ev']))
    \<and> (\<not> ev_setup ev \<longrightarrow> \<not> ret \<and> outputs m' = outputs m @ [ev\<lparr>ev_ec1 := ec1, ev_ec2 := ec2\<rparr>])"
proof -
  let ?ev = "ev\<lparr>ev_ec1 := ec1, ev_ec2 := ec2\<rparr>"
  define m0 where "m0 = set_output_event p ?ev m"
  have k0: "fsm_keeps m m0" unfolding m0_def by (rule fsm_keeps_output) (simp add: assms(4))
  have wf0: "fsm_wf m0" "fsm_ios m0" using fsm_keeps_wf [OF k0 assms(1)] assms(2) by (simp_all add: m0_def)
  have ok0: "state_ok (fsm_heap m0 p)"
    using assms(1,3) by (auto simp: fsm_wf_def m0_def state_ok_def)
  obtain ret m' where core: "switch_to_next_core p m0 = Some (ret, m')" "fsm_keeps m0 m'"
    "outputs m' = outputs m0"
    "if ret then \<exists>nxt q. map_of (state_graph m0) nxt = Some q \<and> posted m' = posted m0 @ [q]
           \<and> current_state_id m' = nxt \<and> map_of (st_transforms (fsm_heap m0 p)) nxt \<noteq> None
       else posted m' = posted m0 \<and> current_state_id m' = current_state_id m0"
    using switch_core_branches [OF wf0 ok0] by blast
  have k: "fsm_keeps m m'" by (rule fsm_keeps_trans [OF k0 core(2)])
  have "state_ok (fsm_heap m' p)" using core(2) ok0 by (simp add: fsm_keeps_def same_state_def state_ok_def)
  then obtain ev' where ev': "st_output (fsm_heap m' p) = Some ev'" "st_attached (fsm_heap m' p)"
    by (auto simp: state_ok_def)
  let ?m = "if ret then m' else fsm_output ev' m'"
  have "state_done_ec ec1 ec2 p m = Some (ret, ?m)"
    using assms(4) core(1) ev'
    by (simp add: state_done_ec_def state_done_def switch_to_next_def m0_def [symmetric] state_output_def)
  moreover have "fsm_keeps m ?m"
    using k by (simp add: fsm_keeps_trans [OF k] fsm_output_def)
  then have "fsm_wf ?m" "state_graph ?m = state_graph m"
    using fsm_keeps_wf [OF _ assms(1)] by (auto simp: fsm_keeps_def)
  moreover have "\<not> ev_setup ev \<Longrightarrow> \<not> ret \<and> ev' = ?ev"
    using core(1) ev'(1) by (auto simp: switch_to_next_core_def m0_def)
  ultimately show ?thesis
    using core(3,4) ev'(1) by (cases ret) (auto simp: m0_def fsm_output_def)
qed

section \<open>Runs of a machine\<close>

text \<open>
  A machine under the event loop, with the executions that are under way. Whatever a state does between the
  beginning and the end of its execution is a step of its own: it may hand its output event to \<open>output\<close> without
  ending (the body's chunks), call \<open>done\<close> any number of times (the connect state may twice, a send state without
  data never does), at once or from handlers that run between those of others, and it may set up its output event
  and the members before each. An \<open>execute\<close> that fails is reported by \<open>execute_state\<close>.
\<close>

datatype fsm_label = Executes | Fails | Hands_Out | Calls_Done | Is_Over

text \<open>What a state's handler does before it calls the machine.\<close>

definition prepares :: "nat \<Rightarrow> 'x state_event \<Rightarrow> 'c \<Rightarrow> ('c, 'x) AsyncStateMachine \<Rightarrow> ('c, 'x) AsyncStateMachine" where
  "prepares p ev c m = set_output_event p ev (m\<lparr>members := c\<rparr>)"

inductive fsm_step ::
    "('c, 'x) AsyncStateMachine \<times> nat list \<Rightarrow> fsm_label \<Rightarrow> ('c, 'x) AsyncStateMachine \<times> nat list \<Rightarrow> bool" where
  step_executes:
    "posted m = p # ps
      \<Longrightarrow> execute_state (\<lambda>p m. (kBeeErrorCode_Success, prepares p ev c m)) p (m\<lparr>posted := ps\<rparr>) = Some m'
      \<Longrightarrow> fsm_step (m, ws) Executes (m', p # ws)"
| step_fails:
    "posted m = p # ps \<Longrightarrow> ret \<noteq> kBeeErrorCode_Success
      \<Longrightarrow> execute_state (\<lambda>p m. (ret, prepares p ev c m)) p (m\<lparr>posted := ps\<rparr>) = Some m'
      \<Longrightarrow> fsm_step (m, ws) Fails (m', ws)"
| step_hands_out:
    "p \<in> set ws \<Longrightarrow> fsm_step (m, ws) Hands_Out (state_output p (prepares p ev c m), ws)"
| step_done:
    "p \<in> set ws \<Longrightarrow> state_done p (prepares p ev c m) = Some (ret, m') \<Longrightarrow> fsm_step (m, ws) Calls_Done (m', ws)"
| step_over:
    "p \<in> set ws \<Longrightarrow> fsm_step (m, ws) Is_Over (m, remove1 p ws)"

inductive fsm_runs ::
    "('c, 'x) AsyncStateMachine \<times> nat list \<Rightarrow> fsm_label list \<Rightarrow> ('c, 'x) AsyncStateMachine \<times> nat list \<Rightarrow> bool" where
  run_start: "fsm_runs s [] s"
| run_step: "fsm_runs s ls s' \<Longrightarrow> fsm_step s' l s'' \<Longrightarrow> fsm_runs s (ls @ [l]) s''"

text \<open>What is posted or under way is in the graph.\<close>

definition in_graph :: "('c, 'x) AsyncStateMachine \<Rightarrow> nat \<Rightarrow> bool" where
  "in_graph m p \<longleftrightarrow> (\<exists>i. map_of (state_graph m) i = Some p)"

definition run_inv :: "('c, 'x) AsyncStateMachine \<times> nat list \<Rightarrow> bool" where
  "run_inv s \<longleftrightarrow> fsm_wf (fst s) \<and> fsm_ios (fst s) \<and> (\<forall>p \<in> set (posted (fst s)) \<union> set (snd s). in_graph (fst s) p)"

text \<open>What is due: an execution that is posted, or a report.\<close>

definition answers :: "('c, 'x) AsyncStateMachine \<Rightarrow> nat" where
  "answers m = length (posted m) + length (outputs m)"

lemma in_graph_simps [simp]:
  "in_graph (m\<lparr>posted := ps\<rparr>) p = in_graph m p" "in_graph (m\<lparr>outputs := os\<rparr>) p = in_graph m p"
  "in_graph (m\<lparr>members := c\<rparr>) p = in_graph m p" "in_graph (set_output_event q ev m) p = in_graph m p"
  by (simp_all add: in_graph_def)

lemma in_graph_ok: "fsm_wf m \<Longrightarrow> in_graph m p \<Longrightarrow> state_ok (fsm_heap m p)"
  unfolding fsm_wf_def in_graph_def by blast

lemma fsm_keeps_in_graph: "fsm_keeps m m' \<Longrightarrow> in_graph m' p = in_graph m p"
  by (simp add: fsm_keeps_def in_graph_def)

lemma fsm_keeps_ios: "fsm_keeps m m' \<Longrightarrow> fsm_ios m' = fsm_ios m"
  by (simp add: fsm_keeps_def)

lemma prepares_keeps:
  assumes "state_ok (fsm_heap m p)"
  shows "fsm_keeps m (prepares p ev c m)" "posted (prepares p ev c m) = posted m"
    "outputs (prepares p ev c m) = outputs m" "st_output (fsm_heap (prepares p ev c m) p) = Some ev"
    "st_attached (fsm_heap (prepares p ev c m) p)"
proof -
  have "st_output (fsm_heap (m\<lparr>members := c\<rparr>) p) \<noteq> None" using assms by (simp add: state_ok_def)
  then show "fsm_keeps m (prepares p ev c m)"
    unfolding prepares_def by (rule fsm_keeps_trans [OF fsm_keeps_members(1) fsm_keeps_output])
qed (use assms in \<open>simp_all add: prepares_def state_ok_def\<close>)

text \<open>\<open>done\<close> is always defined, and gives one answer: it posts a state of the graph or it reports.\<close>

lemma done_answers:
  assumes "fsm_wf m" and "fsm_ios m" and "state_ok (fsm_heap m p)"
  shows "\<exists>ret m'. state_done p m = Some (ret, m') \<and> fsm_keeps m m' \<and> answers m' = answers m + 1
    \<and> (\<forall>q \<in> set (posted m'). q \<in> set (posted m) \<or> in_graph m q)"
proof -
  obtain ret m1 where core: "switch_to_next_core p m = Some (ret, m1)" "fsm_keeps m m1" "outputs m1 = outputs m"
    "if ret then \<exists>nxt q. map_of (state_graph m) nxt = Some q \<and> posted m1 = posted m @ [q]
           \<and> current_state_id m1 = nxt \<and> map_of (st_transforms (fsm_heap m p)) nxt \<noteq> None
       else posted m1 = posted m \<and> current_state_id m1 = current_state_id m"
    using switch_core_branches [OF assms] by blast
  have "state_ok (fsm_heap m1 p)" using core(2) assms(3) by (simp add: fsm_keeps_def same_state_def state_ok_def)
  then obtain ev' where ev': "st_output (fsm_heap m1 p) = Some ev'" "st_attached (fsm_heap m1 p)"
    by (auto simp: state_ok_def)
  let ?m = "if ret then m1 else fsm_output ev' m1"
  have "state_done p m = Some (ret, ?m)"
    using core(1) ev' by (simp add: state_done_def switch_to_next_def state_output_def)
  moreover have "fsm_keeps m ?m" using core(2) by (simp add: fsm_output_def fsm_keeps_trans [OF core(2)])
  moreover have "answers ?m = answers m + 1" "\<forall>q \<in> set (posted ?m). q \<in> set (posted m) \<or> in_graph m q"
    using core(3,4) by (cases ret; auto simp: answers_def fsm_output_def in_graph_def)+
  ultimately show ?thesis by blast
qed

lemma run_inv_keeps:
  assumes "run_inv (m, ws)" and "fsm_keeps m m'"
    and "\<forall>q \<in> set (posted m') \<union> set ws'. q \<in> set (posted m) \<union> set ws \<or> in_graph m q"
  shows "run_inv (m', ws')"
  using assms fsm_keeps_wf [OF assms(2)] by (auto simp: run_inv_def fsm_keeps_in_graph fsm_keeps_ios)

text \<open>Every step keeps the machine well formed and its accounts.\<close>

lemma fsm_step_accounts:
  assumes "fsm_step s l s'" and "run_inv s"
  shows "run_inv s'
    \<and> answers (fst s') + (if l = Executes then 1 else 0) = answers (fst s) + (if l \<in> {Hands_Out, Calls_Done} then 1 else 0)
    \<and> length (snd s') + (if l = Is_Over then 1 else 0) = length (snd s) + (if l = Executes then 1 else 0)"
  using assms(1)
proof (cases rule: fsm_step.cases)
  case (step_executes m p ps ev c m' ws)
  with assms(2) have ok: "state_ok (fsm_heap (m\<lparr>posted := ps\<rparr>) p)" by (auto simp: run_inv_def intro: in_graph_ok)
  have m': "m' = prepares p ev c (m\<lparr>posted := ps\<rparr>)" using step_executes(5) by (simp add: execute_state_def)
  have k: "fsm_keeps m m'" unfolding m' by (rule fsm_keeps_trans [OF fsm_keeps_members(2) prepares_keeps(1) [OF ok]])
  have "run_inv s'" unfolding step_executes(3)
    by (rule run_inv_keeps [OF assms(2) [unfolded step_executes(1)] k])
      (use step_executes(4) prepares_keeps(2) [OF ok] in \<open>auto simp: m'\<close>)
  then show ?thesis using step_executes prepares_keeps(2,3) [OF ok] by (simp add: answers_def m')
next
  case (step_fails m p ps ret ev c m' ws)
  with assms(2) have ok: "state_ok (fsm_heap (m\<lparr>posted := ps\<rparr>) p)" by (auto simp: run_inv_def intro: in_graph_ok)
  let ?m = "prepares p ev c (m\<lparr>posted := ps\<rparr>)" and ?ev = "ev\<lparr>ev_ec1 := ret\<rparr>"
  have m': "m' = fsm_output ?ev (set_output_event p ?ev ?m)"
    using step_fails(5,6) prepares_keeps(4) [OF ok] by (simp add: execute_state_def Let_def)
  have k1: "fsm_keeps m ?m" by (rule fsm_keeps_trans [OF fsm_keeps_members(2) prepares_keeps(1) [OF ok]])
  have "fsm_keeps ?m (set_output_event p ?ev ?m)" by (rule fsm_keeps_output) (simp add: prepares_keeps(4) [OF ok])
  from fsm_keeps_trans [OF k1 this] have k: "fsm_keeps m m'" unfolding m' fsm_output_def by (rule fsm_keeps_trans) simp
  have e: "posted m' = ps" "outputs m' = outputs m @ [?ev]" using prepares_keeps(2,3) [OF ok] by (simp_all add: m' fsm_output_def)
  have "run_inv s'" unfolding step_fails(3)
    by (rule run_inv_keeps [OF assms(2) [unfolded step_fails(1)] k]) (use step_fails(4) e(1) in auto)
  then show ?thesis using step_fails e by (simp add: answers_def)
next
  case (step_hands_out p ws m ev c)
  with assms(2) have ok: "state_ok (fsm_heap m p)" by (auto simp: run_inv_def intro: in_graph_ok)
  have out: "state_output p (prepares p ev c m) = fsm_output ev (prepares p ev c m)"
    using prepares_keeps(4,5) [OF ok] by (simp add: state_output_def)
  have k: "fsm_keeps m (state_output p (prepares p ev c m))"
    unfolding out fsm_output_def by (rule fsm_keeps_trans [OF prepares_keeps(1) [OF ok, of ev c]]) simp
  have "run_inv s'" unfolding step_hands_out(3)
    by (rule run_inv_keeps [OF assms(2) [unfolded step_hands_out(1)] k])
      (use prepares_keeps(2) [OF ok] in \<open>auto simp: out fsm_output_def\<close>)
  then show ?thesis using step_hands_out prepares_keeps(2,3) [OF ok] by (simp add: answers_def out fsm_output_def)
next
  case (step_done p ws ev c m ret m')
  with assms(2) have inv: "fsm_wf m" "fsm_ios m" "state_ok (fsm_heap m p)" by (auto simp: run_inv_def intro: in_graph_ok)
  let ?m = "prepares p ev c m"
  note k = prepares_keeps [OF inv(3)]
  have "state_ok (fsm_heap ?m p)" using k(1) inv(3) by (simp add: fsm_keeps_def same_state_def state_ok_def)
  from done_answers [OF fsm_keeps_wf [OF k(1) inv(1)] _ this] fsm_keeps_ios [OF k(1)] inv(2) step_done(5) have
    d: "fsm_keeps ?m m'" "answers m' = answers ?m + 1" "\<forall>q \<in> set (posted m'). q \<in> set (posted m) \<or> in_graph m q"
    by (auto simp: k(2) fsm_keeps_in_graph [OF k(1)])
  have "run_inv s'" unfolding step_done(3)
    by (rule run_inv_keeps [OF assms(2) [unfolded step_done(1)] fsm_keeps_trans [OF k(1) d(1)]]) (use d(3) in auto)
  then show ?thesis using step_done d(2) k(2,3) by (simp add: answers_def)
next
  case (step_over p ws m)
  have "run_inv s'" unfolding step_over(3)
    by (rule run_inv_keeps [OF assms(2) [unfolded step_over(1)] fsm_keeps_refl]) (use set_remove1_subset [of p ws] in auto)
  moreover have "0 < length ws" using step_over(4) by (cases ws) auto
  ultimately show ?thesis using step_over by (simp add: length_remove1)
qed

lemma fsm_runs_account:
  assumes "fsm_runs s ls s'" and "run_inv s"
  shows "run_inv s'
    \<and> answers (fst s') + count_list ls Executes = answers (fst s) + count_list ls Hands_Out + count_list ls Calls_Done
    \<and> length (snd s') + count_list ls Is_Over = length (snd s) + count_list ls Executes"
  using assms
proof (induction rule: fsm_runs.induct)
  case (run_step s ls s' l s'')
  then have i: "run_inv s'" "answers (fst s') + count_list ls Executes = answers (fst s) + count_list ls Hands_Out + count_list ls Calls_Done"
    "length (snd s') + count_list ls Is_Over = length (snd s) + count_list ls Executes" by simp_all
  from fsm_step_accounts [OF run_step.hyps(2) i(1)] i(2,3) show ?case by (cases l) auto
qed simp

lemma activate_inv:
  assumes "fsm_wf m" and "posted m = []" and "outputs m = []" and "activate_state_machine m = (True, m')"
  shows "run_inv (m', []) \<and> answers m' = 1"
proof -
  from assms(4) obtain p where p: "activate_state m = Some p" and ios: "fsm_ios m"
    and m': "m' = m\<lparr>current_state_id := st_id (fsm_heap m p), posted := [p]\<rparr>"
    by (auto simp: activate_state_machine_def assms(2) split: if_splits option.splits)
  have k: "fsm_keeps m m'" unfolding m' by simp
  from assms(1) p have "in_graph m p" unfolding fsm_wf_def in_graph_def by blast
  then have "in_graph m' p" by (simp add: fsm_keeps_in_graph [OF k])
  with assms(2,3) ios fsm_keeps_wf [OF k assms(1)] show ?thesis
    by (simp add: run_inv_def answers_def m')
qed

lemma posted_goes_on: "run_inv (m, ws) \<Longrightarrow> posted m \<noteq> [] \<Longrightarrow> \<exists>s. fsm_step (m, ws) Executes s"
proof -
  assume "posted m \<noteq> []"
  then obtain p ps where p: "posted m = p # ps" by (cases "posted m") auto
  have "fsm_step (m, ws) Executes (prepares p ev c (m\<lparr>posted := ps\<rparr>), p # ws)" for ev c
    by (rule step_executes [OF p, of ev c]) (simp add: execute_state_def)
  then show ?thesis by blast
qed

text \<open>
  C25: the books of a machine balance. Whatever its states do in whatever order, from the activation of a
  fresh machine on, as long as it is not stopped: the executions that are posted and the events that have
  been reported are together one more than the calls of \<open>done\<close> and the events handed out in between, less the
  executions begun. So every \<open>done\<close> is answered by one posted state or one report, never by both and never
  by none, and every execution that fails by one report; no \<open>done\<close> is undefined, whatever the event and the
  members are then; and what is posted can be executed. When every execution under way calls \<open>done\<close> once, at
  its end, and hands nothing out, exactly one of these holds: a state is posted, one is under way, or one
  event has been reported.
\<close>

theorem fsm_books_balance:
  assumes "fsm_wf m" and "posted m = []" and "outputs m = []" and "activate_state_machine m = (True, m0)"
    and "fsm_runs (m0, []) ls (m', ws)"
  shows "length (posted m') + length (outputs m') + count_list ls Executes
      = 1 + count_list ls Hands_Out + count_list ls Calls_Done
    \<and> (\<forall>p \<in> set ws. \<forall>ev c. state_done p (prepares p ev c m') \<noteq> None)
    \<and> (posted m' \<noteq> [] \<longrightarrow> (\<exists>s. fsm_step (m', ws) Executes s))
    \<and> (count_list ls Hands_Out = 0 \<and> count_list ls Calls_Done = count_list ls Is_Over
        \<longrightarrow> length (posted m') + length ws + length (outputs m') = 1)"
proof -
  from activate_inv [OF assms(1-4)] have a: "run_inv (m0, [])" "answers m0 = 1" by simp_all
  from fsm_runs_account [OF assms(5) a(1)] a(2) have
    r: "run_inv (m', ws)" "answers m' + count_list ls Executes = 1 + count_list ls Hands_Out + count_list ls Calls_Done"
    "length ws + count_list ls Is_Over = count_list ls Executes" by simp_all
  have "state_done p (prepares p ev c m') \<noteq> None" if "p \<in> set ws" for p ev c
  proof -
    from that r(1) have inv: "fsm_wf m'" "fsm_ios m'" "state_ok (fsm_heap m' p)" by (auto simp: run_inv_def intro: in_graph_ok)
    note k = prepares_keeps(1) [OF inv(3), of ev c]
    have "state_ok (fsm_heap (prepares p ev c m') p)" using k inv(3) by (simp add: fsm_keeps_def same_state_def state_ok_def)
    from done_answers [OF fsm_keeps_wf [OF k inv(1)] _ this] fsm_keeps_ios [OF k] inv(2) show ?thesis by auto
  qed
  with posted_goes_on [OF r(1)] r(2,3) show ?thesis by (auto simp: answers_def)
qed

section \<open>What a definition builds\<close>

lemma set_st_simps [simp]:
  "state_graph (set_st p s m) = state_graph m" "fsm_fresh (set_st p s m) = fsm_fresh m"
  "activate_state (set_st p s m) = activate_state m" "fsm_ios (set_st p s m) = fsm_ios m"
  "posted (set_st p s m) = posted m" "outputs (set_st p s m) = outputs m"
  "current_state_id (set_st p s m) = current_state_id m" "members (set_st p s m) = members m"
  "fsm_heap (set_st p s m) = (fsm_heap m)(p := s)" "set_st p s (set_st p s' m) = set_st p s m"
  by (simp_all add: set_st_def)

lemma map_of_AList_update: "map_of (AList.update k v al) = (map_of al)(k \<mapsto> v)"
  by (simp add: update_conv')

lemma switch_tos_ok:
  assumes "distinct (map fst ts)" and "\<forall>k \<in> fst ` set ts. map_of (st_transforms (fsm_heap m p)) k = None"
  shows "\<exists>trs. switch_tos ts p m = (True, set_st p ((fsm_heap m p)\<lparr>st_transforms := trs\<rparr>) m)
    \<and> map_of trs = map_of (st_transforms (fsm_heap m p)) ++ map_of ts"
  using assms
proof (induction ts arbitrary: m)
  case Nil
  have "(fsm_heap m p)\<lparr>st_transforms := st_transforms (fsm_heap m p)\<rparr> = fsm_heap m p" by simp
  then show ?case by (intro exI [of _ "st_transforms (fsm_heap m p)"]) (simp add: set_st_def)
next
  case (Cons kt ts)
  obtain k t where kt: "kt = (k, t)" by (cases kt)
  let ?trs = "AList.update k t (st_transforms (fsm_heap m p))"
  let ?m = "set_st p ((fsm_heap m p)\<lparr>st_transforms := ?trs\<rparr>) m"
  from Cons.prems kt have "\<forall>k' \<in> fst ` set ts. map_of (st_transforms (fsm_heap ?m p)) k' = None"
    by (auto simp: map_of_AList_update)
  with Cons.prems kt Cons.IH [of ?m] obtain trs where
    sw: "switch_tos ts p ?m = (True, set_st p ((fsm_heap ?m p)\<lparr>st_transforms := trs\<rparr>) ?m)"
    and tr: "map_of trs = map_of (st_transforms (fsm_heap ?m p)) ++ map_of ts" by auto
  have "map_of (st_transforms (fsm_heap ?m p)) ++ map_of ts
      = map_of (st_transforms (fsm_heap m p)) ++ map_of (kt # ts)"
  proof (rule ext)
    fix x
    from Cons.prems(1) kt have "map_of ts k = None" by (simp add: map_of_eq_None_iff)
    then show "(map_of (st_transforms (fsm_heap ?m p)) ++ map_of ts) x
        = (map_of (st_transforms (fsm_heap m p)) ++ map_of (kt # ts)) x"
      by (cases "x = k") (simp_all add: kt map_of_AList_update map_add_def split: option.split)
  qed
  with tr have "map_of trs = map_of (st_transforms (fsm_heap m p)) ++ map_of (kt # ts)" by (rule trans)
  moreover have "map_of (st_transforms (fsm_heap m p)) k = None" using Cons.prems(2) kt by simp
  with sw have "switch_tos (kt # ts) p m = (True, set_st p ((fsm_heap m p)\<lparr>st_transforms := trs\<rparr>) m)"
    by (simp add: kt state_add_transform_def)
  ultimately show ?case by blast
qed

text \<open>The state at \<open>p\<close> is the one a \<open>BEGIN_STATE\<close> block describes, ready to run.\<close>

definition built_at :: "nat \<Rightarrow> ('c, 'x) state_spec \<Rightarrow> ('c, 'x) AsyncStateMachine \<Rightarrow> bool" where
  "built_at p sp m \<longleftrightarrow> p < fsm_fresh m \<and> map_of (state_graph m) (sp_id sp) = Some p
     \<and> st_id (fsm_heap m p) = sp_id sp \<and> st_type (fsm_heap m p) = sp_type sp
     \<and> st_router (fsm_heap m p) = Some (sp_router sp) \<and> st_attached (fsm_heap m p)
     \<and> st_input (fsm_heap m p) = Some (StateEvent_new (sp_input sp))
     \<and> st_output (fsm_heap m p) = Some (StateEvent_new (sp_output sp))
     \<and> map_of (st_transforms (fsm_heap m p)) = map_of (sp_switches sp)
     \<and> (sp_activate sp \<longrightarrow> activate_state m = Some p)"

lemma begin_state_effect:
  assumes "distinct (map fst (sp_switches sp))"
  shows "\<exists>s m'. begin_state sp m = (True, m') \<and> fsm_heap m' = (fsm_heap m)(fsm_fresh m := s)
    \<and> fsm_fresh m' = fsm_fresh m + 1 \<and> posted m' = posted m \<and> outputs m' = outputs m
    \<and> current_state_id m' = current_state_id m \<and> fsm_ios m' = fsm_ios m \<and> members m' = members m
    \<and> st_id s = sp_id sp \<and> st_type s = sp_type sp \<and> st_router s = Some (sp_router sp) \<and> st_attached s
    \<and> st_input s = Some (StateEvent_new (sp_input sp)) \<and> st_output s = Some (StateEvent_new (sp_output sp))
    \<and> map_of (st_transforms s) = map_of (sp_switches sp)
    \<and> (if (sp_activate sp \<and> activate_state m \<noteq> None) \<or> map_of (state_graph m) (sp_id sp) \<noteq> None
       then state_graph m' = state_graph m \<and> activate_state m' = activate_state m
       else state_graph m' = AList.update (sp_id sp) (fsm_fresh m) (state_graph m)
         \<and> activate_state m' = (if sp_activate sp then Some (fsm_fresh m) else activate_state m))"
proof -
  let ?p = "fsm_fresh m"
  let ?s = "(State_new (sp_id sp) (sp_type sp))\<lparr>st_router := Some (sp_router sp), st_attached := True,
     st_input := Some (StateEvent_new (sp_input sp)), st_output := Some (StateEvent_new (sp_output sp))\<rparr>"
  let ?m1 = "set_st ?p (State_new (sp_id sp) (sp_type sp)) (m\<lparr>fsm_fresh := Suc ?p\<rparr>)"
  let ?m2 = "snd (state_setup (Some (sp_router sp)) (sp_activate sp) (sp_input sp) (sp_output sp) ?p ?m1)"
  have heap: "fsm_heap ?m2 = (fsm_heap m)(?p := ?s)"
    by (simp add: state_setup_def add_state_def Let_def set_st_def)
  then have "\<forall>k \<in> fst ` set (sp_switches sp). map_of (st_transforms (fsm_heap ?m2 ?p)) k = None"
    by (simp add: State_new_def)
  from switch_tos_ok [OF assms this] obtain trs where
    sw: "switch_tos (sp_switches sp) ?p ?m2 = (True, set_st ?p ((fsm_heap ?m2 ?p)\<lparr>st_transforms := trs\<rparr>) ?m2)"
      "map_of trs = map_of (st_transforms (fsm_heap ?m2 ?p)) ++ map_of (sp_switches sp)" by blast
  from sw(2) have trs: "map_of trs = map_of (sp_switches sp)"
    unfolding heap by (simp add: State_new_def)
  define m' where "m' = set_st ?p ((fsm_heap ?m2 ?p)\<lparr>st_transforms := trs\<rparr>) ?m2"
  have "begin_state sp m = (True, m')"
    using sw(1) by (simp add: begin_state_def Let_def m'_def state_setup_def)
  moreover have "fsm_heap m' = (fsm_heap m)(?p := ?s\<lparr>st_transforms := trs\<rparr>)"
    unfolding m'_def by (simp only: set_st_simps heap) simp
  moreover have "fsm_fresh m' = ?p + 1 \<and> posted m' = posted m \<and> outputs m' = outputs m
    \<and> current_state_id m' = current_state_id m \<and> fsm_ios m' = fsm_ios m \<and> members m' = members m
    \<and> (if (sp_activate sp \<and> activate_state m \<noteq> None) \<or> map_of (state_graph m) (sp_id sp) \<noteq> None
       then state_graph m' = state_graph m \<and> activate_state m' = activate_state m
       else state_graph m' = AList.update (sp_id sp) (fsm_fresh m) (state_graph m)
         \<and> activate_state m' = (if sp_activate sp then Some (fsm_fresh m) else activate_state m))"
    by (auto simp: m'_def state_setup_def add_state_def Let_def State_new_def)
  ultimately show ?thesis using trs
    by (intro exI [of _ "?s\<lparr>st_transforms := trs\<rparr>"] exI [of _ m']) (simp add: State_new_def)
qed

lemma begin_state_adds:
  assumes "distinct (map fst (sp_switches sp))" and "fsm_wf m"
    and "map_of (state_graph m) (sp_id sp) = None" and "sp_activate sp \<longrightarrow> activate_state m = None"
  shows "\<exists>m'. begin_state sp m = (True, m') \<and> fsm_wf m' \<and> built_at (fsm_fresh m) sp m'
    \<and> map_of (state_graph m') = (map_of (state_graph m))(sp_id sp \<mapsto> fsm_fresh m)
    \<and> (\<forall>p sp'. built_at p sp' m \<longrightarrow> built_at p sp' m')
    \<and> (activate_state m' = None) = (activate_state m = None \<and> \<not> sp_activate sp)
    \<and> state_graph m' \<noteq> [] \<and> posted m' = posted m \<and> outputs m' = outputs m
    \<and> current_state_id m' = current_state_id m \<and> fsm_ios m' = fsm_ios m \<and> members m' = members m"
proof -
  from begin_state_effect [OF assms(1), of m] assms(3,4) obtain s m' where
    b: "begin_state sp m = (True, m')" "fsm_heap m' = (fsm_heap m)(fsm_fresh m := s)"
      "fsm_fresh m' = fsm_fresh m + 1" "posted m' = posted m" "outputs m' = outputs m"
      "current_state_id m' = current_state_id m" "fsm_ios m' = fsm_ios m" "members m' = members m"
      "st_id s = sp_id sp" "st_type s = sp_type sp" "st_router s = Some (sp_router sp)" "st_attached s"
      "st_input s = Some (StateEvent_new (sp_input sp))" "st_output s = Some (StateEvent_new (sp_output sp))"
      "map_of (st_transforms s) = map_of (sp_switches sp)"
      "state_graph m' = AList.update (sp_id sp) (fsm_fresh m) (state_graph m)"
      "activate_state m' = (if sp_activate sp then Some (fsm_fresh m) else activate_state m)"
    by (auto split: if_splits)
  have g: "map_of (state_graph m') = (map_of (state_graph m))(sp_id sp \<mapsto> fsm_fresh m)"
    by (simp add: b(16) map_of_AList_update)
  have old: "map_of (state_graph m) i = Some p \<Longrightarrow> p < fsm_fresh m" for i p
    using assms(2) by (simp add: fsm_wf_def)
  have "fsm_wf m'"
    unfolding fsm_wf_def
  proof (intro conjI allI impI)
    fix i p assume "map_of (state_graph m') i = Some p"
    then have "i = sp_id sp \<and> p = fsm_fresh m \<or> i \<noteq> sp_id sp \<and> map_of (state_graph m) i = Some p"
      by (auto simp: g split: if_splits)
    then have "p = fsm_fresh m \<and> i = sp_id sp
      \<or> p < fsm_fresh m \<and> st_id (fsm_heap m p) = i \<and> state_ok (fsm_heap m p)"
      using assms(2) old by (auto simp: fsm_wf_def)
    then show "p < fsm_fresh m'" "st_id (fsm_heap m' p) = i" "state_ok (fsm_heap m' p)"
      by (auto simp: b(2,3,9,11-14) state_ok_def)
  next
    fix p assume p: "activate_state m' = Some p"
    show "map_of (state_graph m') (st_id (fsm_heap m' p)) = Some p"
    proof (cases "sp_activate sp")
      case True
      with p b show ?thesis by (simp add: g)
    next
      case False
      with p b(17) have "activate_state m = Some p" by simp
      with assms(2) have m: "map_of (state_graph m) (st_id (fsm_heap m p)) = Some p"
        by (simp add: fsm_wf_def)
      with old have "p < fsm_fresh m" by blast
      with m assms(3) show ?thesis by (auto simp: g b(2))
    qed
  qed
  moreover have "built_at (fsm_fresh m) sp m'"
    using b by (simp add: built_at_def g)
  moreover have "built_at p sp' m \<Longrightarrow> built_at p sp' m'" for p sp'
    using assms(3,4) b(2,3,17) by (auto simp: built_at_def g split: if_splits)
  moreover have "state_graph m' \<noteq> []"
  proof
    assume "state_graph m' = []"
    then have "map_of (state_graph m') (sp_id sp) = None" by simp
    then show False by (simp add: g)
  qed
  ultimately show ?thesis using b g by auto
qed

lemma setup_adds:
  assumes "distinct (map sp_id sps)" and "\<forall>sp \<in> set sps. distinct (map fst (sp_switches sp))"
    and "length (filter sp_activate sps) \<le> (if activate_state m = None then 1 else 0)"
    and "fsm_wf m" and "\<forall>sp \<in> set sps. map_of (state_graph m) (sp_id sp) = None"
    and "sps \<noteq> [] \<or> state_graph m \<noteq> []"
  shows "\<exists>m'. setup_state_machine sps m = (True, m') \<and> fsm_wf m' \<and> (\<forall>sp \<in> set sps. \<exists>p. built_at p sp m')
    \<and> (\<forall>p sp. built_at p sp m \<longrightarrow> built_at p sp m')
    \<and> dom (map_of (state_graph m')) = dom (map_of (state_graph m)) \<union> sp_id ` set sps
    \<and> posted m' = posted m \<and> outputs m' = outputs m \<and> current_state_id m' = current_state_id m
    \<and> fsm_ios m' = fsm_ios m \<and> members m' = members m"
  using assms
proof (induction sps arbitrary: m)
  case Nil
  then show ?case by simp
next
  case (Cons sp sps)
  have act: "sp_activate sp \<longrightarrow> activate_state m = None"
    using Cons.prems(3) by (cases "activate_state m") auto
  obtain m1 where b: "begin_state sp m = (True, m1)" "fsm_wf m1" "built_at (fsm_fresh m) sp m1"
    "map_of (state_graph m1) = (map_of (state_graph m))(sp_id sp \<mapsto> fsm_fresh m)"
    "\<forall>p sp'. built_at p sp' m \<longrightarrow> built_at p sp' m1"
    "(activate_state m1 = None) = (activate_state m = None \<and> \<not> sp_activate sp)"
    "state_graph m1 \<noteq> []" "posted m1 = posted m" "outputs m1 = outputs m"
    "current_state_id m1 = current_state_id m" "fsm_ios m1 = fsm_ios m" "members m1 = members m"
    using begin_state_adds [of sp m] Cons.prems act by (auto simp: Ball_def)
  have "length (filter sp_activate sps) \<le> (if activate_state m1 = None then 1 else 0)"
    using Cons.prems(3) b(6) by (auto split: if_splits)
  moreover have "\<forall>sp' \<in> set sps. map_of (state_graph m1) (sp_id sp') = None"
    using Cons.prems(1,5) b(4) by (fastforce simp: image_iff)
  ultimately obtain m2 where m2: "setup_state_machine sps m1 = (True, m2)" "fsm_wf m2"
    "\<forall>sp \<in> set sps. \<exists>p. built_at p sp m2" "\<forall>p sp. built_at p sp m1 \<longrightarrow> built_at p sp m2"
    "dom (map_of (state_graph m2)) = dom (map_of (state_graph m1)) \<union> sp_id ` set sps"
    "posted m2 = posted m1" "outputs m2 = outputs m1" "current_state_id m2 = current_state_id m1"
    "fsm_ios m2 = fsm_ios m1" "members m2 = members m1"
    using Cons.IH [of m1] Cons.prems(1,2) b(2,7) by auto
  with b have "setup_state_machine (sp # sps) m = (True, m2)" by simp
  moreover have "\<forall>sp' \<in> set (sp # sps). \<exists>p. built_at p sp' m2" using b(3) m2(3,4) by auto
  moreover have "\<forall>p sp'. built_at p sp' m \<longrightarrow> built_at p sp' m2" using b(5) m2(4) by blast
  moreover have "dom (map_of (state_graph m2)) = dom (map_of (state_graph m)) \<union> sp_id ` set (sp # sps)"
    by (simp add: m2(5) b(4) insert_commute Un_commute)
  ultimately show ?case using m2(2,6-10) b(8-12) by simp
qed

text \<open>What the macros build, for machines further on.\<close>

lemma setup_built:
  assumes "sps \<noteq> []" and "distinct (map sp_id sps)"
    and "\<forall>sp \<in> set sps. distinct (map fst (sp_switches sp))"
    and "length (filter sp_activate sps) \<le> 1"
  shows "\<exists>m. setup_state_machine sps (AsyncStateMachine_new ios c) = (True, m) \<and> fsm_wf m
    \<and> dom (map_of (state_graph m)) = sp_id ` set sps
    \<and> posted m = [] \<and> outputs m = [] \<and> members m = c
    \<and> (\<forall>sp \<in> set sps. \<exists>p. built_at p sp m
        \<and> (sp_activate sp \<and> ios \<longrightarrow> activate_state_machine m
             = (True, m\<lparr>current_state_id := sp_id sp, posted := [p]\<rparr>)))"
proof -
  let ?m = "AsyncStateMachine_new ios c :: ('a, 'b) AsyncStateMachine"
  have "fsm_wf ?m" by (simp add: fsm_wf_def AsyncStateMachine_new_def)
  with setup_adds [of sps ?m] assms obtain m where
    m: "setup_state_machine sps ?m = (True, m)" "fsm_wf m" "\<forall>sp \<in> set sps. \<exists>p. built_at p sp m"
      "dom (map_of (state_graph m)) = sp_id ` set sps" "posted m = []" "outputs m = []"
      "current_state_id m = - 1" "fsm_ios m = ios" "members m = c"
    by (auto simp: AsyncStateMachine_new_def)
  have "activate_state_machine m = (True, m\<lparr>current_state_id := sp_id sp, posted := [p]\<rparr>)"
    if "built_at p sp m" "sp_activate sp \<and> ios" for p sp
  proof -
    have "state_graph m \<noteq> []" using that(1) by (auto simp: built_at_def)
    with that m show ?thesis by (simp add: activate_state_machine_def built_at_def)
  qed
  with m(3) have "\<forall>sp \<in> set sps. \<exists>p. built_at p sp m
      \<and> (sp_activate sp \<and> ios \<longrightarrow> activate_state_machine m
           = (True, m\<lparr>current_state_id := sp_id sp, posted := [p]\<rparr>))" by blast
  with m show ?thesis by (intro exI [of _ m]) simp
qed

text \<open>
  C30: the block that defines a machine builds the graph it describes. For at least one state, with distinct ids,
  distinct targets in each and at most one start state, setting up a fresh machine succeeds; the
  graph has exactly these states, each with its router, its fresh events and its transforms; and
  activating the machine posts the start state and nothing else.
\<close>

theorem setup_builds_machine:
  assumes "sps \<noteq> []" and "distinct (map sp_id sps)"
    and "\<forall>sp \<in> set sps. distinct (map fst (sp_switches sp))"
    and "length (filter sp_activate sps) \<le> 1"
  shows "\<exists>m. setup_state_machine sps (AsyncStateMachine_new ios c) = (True, m) \<and> fsm_wf m
    \<and> dom (map_of (state_graph m)) = sp_id ` set sps
    \<and> posted m = [] \<and> outputs m = [] \<and> members m = c
    \<and> (\<forall>sp \<in> set sps. \<exists>p. built_at p sp m
        \<and> (sp_activate sp \<and> ios \<longrightarrow> activate_state_machine m
             = (True, m\<lparr>current_state_id := sp_id sp, posted := [p]\<rparr>)))"
  by (rule setup_built [OF assms])

text \<open>
  Setting up again, which every new request on the same machine does, leaves the graph and its
  states alone: \<open>add_state\<close>'s refusal is not looked at.
\<close>

lemma setup_again:
  assumes "\<forall>sp \<in> set sps. distinct (map fst (sp_switches sp))"
    and "\<forall>sp \<in> set sps. map_of (state_graph m) (sp_id sp) \<noteq> None" and "state_graph m \<noteq> []"
  shows "\<exists>m'. setup_state_machine sps m = (True, m') \<and> state_graph m' = state_graph m
    \<and> activate_state m' = activate_state m \<and> current_state_id m' = current_state_id m
    \<and> posted m' = posted m \<and> outputs m' = outputs m \<and> members m' = members m \<and> fsm_ios m' = fsm_ios m
    \<and> (\<forall>p < fsm_fresh m. fsm_heap m' p = fsm_heap m p) \<and> fsm_fresh m \<le> fsm_fresh m'"
  using assms
proof (induction sps arbitrary: m)
  case Nil
  then show ?case by simp
next
  case (Cons sp sps)
  from begin_state_effect [of sp m] Cons.prems(1,2) obtain s m1 where
    b: "begin_state sp m = (True, m1)" "fsm_heap m1 = (fsm_heap m)(fsm_fresh m := s)"
      "fsm_fresh m1 = fsm_fresh m + 1" "state_graph m1 = state_graph m" "activate_state m1 = activate_state m"
      "posted m1 = posted m" "outputs m1 = outputs m" "current_state_id m1 = current_state_id m"
      "fsm_ios m1 = fsm_ios m" "members m1 = members m" by auto
  with Cons.IH [of m1] Cons.prems show ?case by auto
qed

lemma activate_once:
  "current_state_id m \<noteq> - 1 \<Longrightarrow> activate_state_machine m = (False, m)"
  by (simp add: activate_state_machine_def)

section \<open>Instances\<close>

text \<open>A machine of two states: the first hands its number on, the second finishes.\<close>

definition demo_specs :: "(nat, nat) state_spec list" where
  "demo_specs =
     [\<lparr>sp_id = 0, sp_type = 0, sp_router = (\<lambda>c ev. (1, ev, c)), sp_activate = True, sp_input = 0,
       sp_output = 7, sp_switches = [(1, \<lambda>c out_ev in_ev. (True, out_ev, in_ev\<lparr>ev_setup := True\<rparr>, c + 1))]\<rparr>,
      \<lparr>sp_id = 1, sp_type = 1, sp_router = (\<lambda>c ev. (kFinishedState, ev, c)), sp_activate = False,
       sp_input = 0, sp_output = 0, sp_switches = []\<rparr>]"

definition demo_machine :: "(nat, nat) AsyncStateMachine" where
  "demo_machine = snd (setup_state_machine demo_specs (AsyncStateMachine_new True 0))"

theorem setup_builds_machine_witness:
  "\<exists>m. setup_state_machine demo_specs (AsyncStateMachine_new True 0) = (True, m) \<and> fsm_wf m
    \<and> dom (map_of (state_graph m)) = {0, 1}"
proof -
  have "demo_specs \<noteq> []" "distinct (map sp_id demo_specs)" "length (filter sp_activate demo_specs) \<le> 1"
    "\<forall>sp \<in> set demo_specs. distinct (map fst (sp_switches sp))" "sp_id ` set demo_specs = {0, 1}"
    by (simp_all add: demo_specs_def)
  with setup_builds_machine [of demo_specs True 0] show ?thesis by auto
qed

lemma demo_machine_facts:
  "fsm_wf demo_machine" "fsm_ios demo_machine" "posted demo_machine = []" "outputs demo_machine = []"
  "\<exists>p. built_at p (hd demo_specs) demo_machine"
  "\<exists>m0. activate_state_machine demo_machine = (True, m0)"
proof -
  have h: "demo_specs \<noteq> []" "distinct (map sp_id demo_specs)" "length (filter sp_activate demo_specs) \<le> 1"
    "\<forall>sp \<in> set demo_specs. distinct (map fst (sp_switches sp))" "hd demo_specs \<in> set demo_specs"
    "sp_activate (hd demo_specs)"
    by (simp_all add: demo_specs_def)
  let ?m = "AsyncStateMachine_new True 0 :: (nat, nat) AsyncStateMachine"
  have "fsm_wf ?m" by (simp add: fsm_wf_def AsyncStateMachine_new_def)
  with setup_adds [of demo_specs ?m] h obtain m where
    m: "setup_state_machine demo_specs ?m = (True, m)" "fsm_wf m" "\<forall>sp \<in> set demo_specs. \<exists>p. built_at p sp m"
      "posted m = []" "outputs m = []" "current_state_id m = - 1" "fsm_ios m"
    by (auto simp: AsyncStateMachine_new_def)
  then have d: "demo_machine = m" by (simp add: demo_machine_def)
  from m(3) h(5) obtain p where p: "built_at p (hd demo_specs) m" by blast
  then have "state_graph m \<noteq> []" "activate_state m = Some p" using h(6) by (auto simp: built_at_def)
  with m p show "fsm_wf demo_machine" "fsm_ios demo_machine" "posted demo_machine = []"
    "outputs demo_machine = []" "\<exists>p. built_at p (hd demo_specs) demo_machine"
    "\<exists>m0. activate_state_machine demo_machine = (True, m0)"
    by (auto simp: d activate_state_machine_def)
qed

theorem done_goes_on_or_reports_witness:
  "\<exists>p ret m'. state_done_ec kBeeErrorCode_Connect_Fail Ec_Ok p demo_machine = Some (ret, m')
    \<and> \<not> ret \<and> map ev_ec1 (outputs m') = [kBeeErrorCode_Connect_Fail]"
proof -
  obtain p where p: "built_at p (hd demo_specs) demo_machine" using demo_machine_facts(5) by blast
  let ?ev = "StateEvent_new 7 :: nat state_event"
  have ev: "st_output (fsm_heap demo_machine p) = Some ?ev" "map_of (state_graph demo_machine) 0 = Some p"
    "\<not> ev_setup ?ev"
    using p by (auto simp: built_at_def demo_specs_def StateEvent_new_def)
  from done_goes_on_or_reports [OF demo_machine_facts(1,2) ev(2,1), of kBeeErrorCode_Connect_Fail Ec_Ok] ev(3)
  obtain ret m' where "state_done_ec kBeeErrorCode_Connect_Fail Ec_Ok p demo_machine = Some (ret, m')"
    "\<not> ret" "outputs m' = outputs demo_machine @ [?ev\<lparr>ev_ec1 := kBeeErrorCode_Connect_Fail, ev_ec2 := Ec_Ok\<rparr>]"
    by blast
  then show ?thesis
    by (intro exI [of _ p] exI [of _ ret] exI [of _ m'] conjI) (simp_all add: demo_machine_facts)
qed

theorem fsm_books_balance_witness:
  "\<exists>m0 m1 p. activate_state_machine demo_machine = (True, m0) \<and> fsm_step (m0, []) Executes (m1, [p])
    \<and> posted m1 = [] \<and> outputs m1 = [] \<and> state_done p m1 \<noteq> None"
proof -
  obtain m0 where m0: "activate_state_machine demo_machine = (True, m0)" using demo_machine_facts(6) by blast
  then obtain p where p: "posted m0 = [p]" using demo_machine_facts(3)
    by (auto simp: activate_state_machine_def split: if_splits option.splits)
  let ?c = "members m0" and ?ev = "StateEvent_new (7 :: nat)"
  let ?m1 = "prepares p ?ev ?c (m0\<lparr>posted := []\<rparr>)"
  have st: "fsm_step (m0, []) Executes (?m1, [p])"
    by (rule step_executes [OF p, of ?ev ?c]) (simp add: execute_state_def)
  have run: "fsm_runs (m0, []) [Executes] (?m1, [p])" using run_step [OF run_start st] by simp
  have "prepares p ?ev ?c ?m1 = ?m1" by (simp add: prepares_def set_output_event_def set_st_def)
  moreover have "posted ?m1 = []" by (simp add: prepares_def)
  ultimately show ?thesis
    using fsm_books_balance [OF demo_machine_facts(1,3,4) m0 run] m0 st
    by (intro exI [of _ m0] exI [of _ ?m1] exI [of _ p]) (auto dest!: spec [of _ ?ev] spec [of _ ?c])
qed

end
