(* ===== verification/Bee_Tcp_Machine.thy ===== *)
theory Bee_Tcp_Machine
  imports Bee_Async_FSM
begin

text \<open>
  \<open>TcpStateMachine\<close> and its send state (src/network/tcp_state_machine.cpp and .h): the sockets, the
  caches, starting and stopping, and the send queue.

  The machine's own members are the \<open>members\<close> of its \<open>AsyncStateMachine\<close>. A socket is only known to
  exist or not; what the network does with it is an argument or a step of the environment. A write
  handed to \<open>boost::asio::async_write\<close> is its content; asio completes it without an error only after
  all of it has been transferred. Setting the default verify paths of the SSL context may fail, which
  is the argument \<open>verify_ok\<close>. The members \<open>connected_endpoint_\<close>, \<open>connected_endpoint_index_\<close> and
  \<open>resolved_endpoints_\<close> are never read and left out.

  The lemmas on the queue rest on the interface \<open>send_window\<close> of the buffer.
\<close>

section \<open>State\<close>

text \<open>
  What the derived events of the TCP and HTTP states add; \<open>'ep\<close> is the type of an endpoint, a received
  message is the cells from the pointer \<open>rcv_buffer\<close> on.
\<close>

datatype 'ep tcp_extra =
    Plain_Event
  | Resolve_Input string string
  | Resolve_Output "'ep list"
  | Connect_Input "'ep list" int int
  | Connect_Output "'ep option" int
  | Send_Output nat
  | Tlv_Input nat nat
  | Tlv_Output "char option list option"
  | Rcv_Body_Input bool

definition kTcpStateType_Resolve :: int where "kTcpStateType_Resolve = 0"
definition kTcpStateType_Connect :: int where "kTcpStateType_Connect = 1"
definition kTcpStateType_Send :: int where "kTcpStateType_Send = 2"
definition kTcpStateType_RcvTlv :: int where "kTcpStateType_RcvTlv = 3"

definition kDefaultReadBuffLen :: nat where
  "kDefaultReadBuffLen = 32 * 1024"

definition kDefaultTcpConnectTimeout :: int where
  "kDefaultTcpConnectTimeout = 10000"

record tcp_members =
  connected :: bool
  cwiobuff :: "char iobuffer"
  criobuff :: "char iobuffer"
  qwiobuff :: "char iobuffer list"
  rcv_streambuf :: string
  is_tls :: bool
  tcp_host :: string
  sock :: bool
  tls_sock :: bool
  verify_file_loaded :: bool

definition TcpStateMachine_new :: "bool \<Rightarrow> tcp_members" where
  "TcpStateMachine_new loaded = \<lparr>connected = False, cwiobuff = IOBuffer_new 0,
     criobuff = IOBuffer_new kDefaultReadBuffLen, qwiobuff = [], rcv_streambuf = [], is_tls = False,
     tcp_host = [], sock = False, tls_sock = False, verify_file_loaded = loaded\<rparr>"

type_synonym 'ep tcp_machine = "(tcp_members, 'ep tcp_extra) AsyncStateMachine"

section \<open>Sockets and caches\<close>

definition reset_caches :: "tcp_members \<Rightarrow> tcp_members" where
  "reset_caches t = t\<lparr>cwiobuff := iob_clear (cwiobuff t), criobuff := iob_clear (criobuff t),
     qwiobuff := [], rcv_streambuf := []\<rparr>"

definition setup_socket ::
    "bool \<Rightarrow> bool \<Rightarrow> bool \<Rightarrow> string \<Rightarrow> tcp_members \<Rightarrow> bool \<times> tcp_members" where
  "setup_socket ios verify_ok tls host t =
     (if \<not> ios then (False, t)
      else
        (let t1 = reset_caches t
         in if \<not> tls then (True, t1\<lparr>sock := True, is_tls := tls, tcp_host := host\<rparr>)
            else if \<not> verify_file_loaded t1 \<and> \<not> verify_ok then (False, t1)
            else (True, t1\<lparr>verify_file_loaded := True, tls_sock := True, is_tls := tls,
                    tcp_host := host\<rparr>)))"

definition reset_socket :: "bool \<Rightarrow> bool \<Rightarrow> tcp_members \<Rightarrow> tcp_members" where
  "reset_socket ios verify_ok t =
     (if \<not> ios then t
      else
        (let t1 = reset_caches t
         in if \<not> is_tls t1 then t1\<lparr>sock := True\<rparr>
            else if \<not> verify_file_loaded t1 \<and> \<not> verify_ok then t1
            else t1\<lparr>verify_file_loaded := True, tls_sock := True\<rparr>))"

text \<open>\<open>get\<close> and \<open>put\<close> say where in a derived object's members those of \<open>TcpStateMachine\<close> are.\<close>

definition tcp_stop ::
    "('c \<Rightarrow> tcp_members) \<Rightarrow> (tcp_members \<Rightarrow> 'c \<Rightarrow> 'c) \<Rightarrow> ('c, 'x) AsyncStateMachine
      \<Rightarrow> ('c, 'x) AsyncStateMachine" where
  "tcp_stop get put m =
     (let t = get (members m)
      in if connected t then
           (let t1 = (if \<not> is_tls t then t\<lparr>sock := False\<rparr> else t\<lparr>tls_sock := False\<rparr>)
            in uninstall_state_machine
                 (m\<lparr>fsm_ios := False,
                    members := put (t1\<lparr>qwiobuff := [], cwiobuff := iob_clear (cwiobuff t1),
                      criobuff := iob_clear (criobuff t1), connected := False\<rparr>) (members m)\<rparr>))
         else m)"

section \<open>Starting\<close>

definition resolve_setup_input_event ::
    "string \<Rightarrow> string \<Rightarrow> ('c, 'ep tcp_extra) State \<Rightarrow> bool \<times> ('c, 'ep tcp_extra) State" where
  "resolve_setup_input_event host service s =
     (case st_input s of
        None \<Rightarrow> (False, s)
      | Some ev \<Rightarrow>
          if host = [] \<or> service = [] then (False, s)
          else (True, s\<lparr>st_input := Some (ev\<lparr>ev_extra := Resolve_Input host service, ev_setup := True\<rparr>)\<rparr>))"

definition tcp_active ::
    "string \<Rightarrow> string \<Rightarrow> ('c, 'ep tcp_extra) AsyncStateMachine
      \<Rightarrow> bool \<times> ('c, 'ep tcp_extra) AsyncStateMachine" where
  "tcp_active host service m =
     (case activate_state m of
        None \<Rightarrow> (False, m)
      | Some p \<Rightarrow>
          if st_type (fsm_heap m p) \<noteq> kTcpStateType_Resolve then (False, m)
          else
            (let (ret, s) = resolve_setup_input_event host service (fsm_heap m p); m1 = set_st p s m
             in if \<not> ret then (False, m1) else activate_state_machine m1))"

text \<open>\<open>specs\<close> is the derived class's definition of its machine.\<close>

definition tcp_start ::
    "('c \<Rightarrow> tcp_members) \<Rightarrow> (tcp_members \<Rightarrow> 'c \<Rightarrow> 'c) \<Rightarrow> ('c, 'ep tcp_extra) state_spec list
      \<Rightarrow> bool \<Rightarrow> string \<Rightarrow> string \<Rightarrow> ('c, 'ep tcp_extra) AsyncStateMachine
      \<Rightarrow> bool \<times> ('c, 'ep tcp_extra) AsyncStateMachine" where
  "tcp_start get put specs verify_ok host service m =
     (let (ret, m1) = setup_state_machine specs m
      in if \<not> ret then (False, m1)
         else
           (let (ret2, t) = setup_socket (fsm_ios m1) verify_ok False [] (get (members m1));
                m2 = m1\<lparr>members := put t (members m1)\<rparr>
            in if \<not> ret2 then (False, m2) else tcp_active host service m2))"

section \<open>The send queue\<close>

text \<open>
  \<open>async_write\<close> answers the content handed to asio, \<open>None\<close> when it starts no write (the handler is
  then never called for this call); undefined when the socket in use does not exist.
\<close>

definition start_write :: "tcp_members \<Rightarrow> (char option list option \<times> tcp_members) option" where
  "start_write t =
     (if (if is_tls t then tls_sock t else sock t) then Some (Some (iob_content (cwiobuff t)), t) else None)"

definition async_write ::
    "char iobuffer \<Rightarrow> tcp_members \<Rightarrow> (char option list option \<times> tcp_members) option" where
  "async_write data t =
     (if \<not> iob_empty data \<and> \<not> iob_empty (cwiobuff t)
      then Some (None, t\<lparr>qwiobuff := qwiobuff t @ [iob_clone data]\<rparr>)
      else
        (let t1 = (if \<not> iob_empty data then t\<lparr>cwiobuff := iob_clone data\<rparr> else t)
         in if iob_empty (cwiobuff t1) then
              (case qwiobuff t1 of
                 [] \<Rightarrow> Some (None, t1)
               | b # bs \<Rightarrow> start_write (t1\<lparr>cwiobuff := b, qwiobuff := bs\<rparr>))
            else start_write t1))"

definition check_send_buffer :: "nat \<Rightarrow> tcp_members \<Rightarrow> (bool \<times> tcp_members) option" where
  "check_send_buffer bytes_transferred t =
     (case (if bytes_transferred > 0 then iob_consume bytes_transferred (cwiobuff t)
            else Some (cwiobuff t)) of
        None \<Rightarrow> None
      | Some b \<Rightarrow>
          (let t1 = t\<lparr>cwiobuff := b\<rparr>;
               t2 = (if iob_empty b then
                       (case qwiobuff t1 of [] \<Rightarrow> t1 | b1 # bs \<Rightarrow> t1\<lparr>cwiobuff := b1, qwiobuff := bs\<rparr>)
                     else t1)
           in Some (\<not> iob_empty (cwiobuff t2), t2)))"

text \<open>
  \<open>TcpSendState::execute\<close>: \<open>ok_event\<close> is \<open>check_event()\<close>, \<open>fsm\<close> whether the machine still exists.
\<close>

definition send_execute ::
    "bool \<Rightarrow> bool \<Rightarrow> char iobuffer \<Rightarrow> tcp_members
      \<Rightarrow> (BeeErrorCode \<times> char option list option \<times> tcp_members) option" where
  "send_execute ok_event fsm data t =
     (if \<not> ok_event then Some (kBeeErrorCode_Invalid_Param, None, t)
      else if \<not> fsm then Some (kBeeErrorCode_Error_State_Machine, None, t)
      else if \<not> connected t then Some (kBeeErrorCode_Not_Connected, None, t)
      else case async_write data t of
          None \<Rightarrow> None
        | Some (started, t') \<Rightarrow> Some (kBeeErrorCode_Success, started, t'))"

text \<open>
  \<open>TcpSendState::handle_write\<close>: a further write is started, or \<open>done\<close> is called with these codes and,
  on success, the bytes sent so far in the output event.
\<close>

datatype send_outcome =
    Send_More "char option list option"
  | Send_Finished BeeErrorCode error_code "nat option"

definition send_handle_write ::
    "bool \<Rightarrow> error_code \<Rightarrow> nat \<Rightarrow> nat \<times> tcp_members \<Rightarrow> (send_outcome \<times> nat \<times> tcp_members) option" where
  "send_handle_write fsm ec2 bytes_transferred st =
     (case st of (bytes_send, t) \<Rightarrow>
       if ec_set ec2 then Some (Send_Finished kBeeErrorCode_Write_Fail ec2 None, bytes_send, t)
       else if \<not> fsm then Some (Send_Finished kBeeErrorCode_Error_State_Machine ec2 None, bytes_send, t)
       else
         (let n = bytes_send + bytes_transferred
          in case check_send_buffer bytes_transferred t of
               None \<Rightarrow> None
             | Some (True, t1) \<Rightarrow>
                 (case async_write (IOBuffer_new 0) t1 of
                    None \<Rightarrow> None
                  | Some (started, t2) \<Rightarrow> Some (Send_More started, n, t2))
             | Some (False, t1) \<Rightarrow> Some (Send_Finished kBeeErrorCode_Success ec2 (Some n), n, t1)))"

section \<open>What the queue delivers\<close>

definition socket_ok :: "tcp_members \<Rightarrow> bool" where
  "socket_ok t \<longleftrightarrow> (if is_tls t then tls_sock t else sock t)"

definition queue_wf :: "tcp_members \<Rightarrow> bool" where
  "queue_wf t \<longleftrightarrow> socket_ok t \<and> iob_wf (cwiobuff t)
     \<and> (\<forall>b \<in> set (qwiobuff t). iob_wf b \<and> iob_content b \<noteq> [])
     \<and> (iob_content (cwiobuff t) = [] \<longrightarrow> qwiobuff t = [])"

text \<open>What is still to be transferred: the content of the current buffer, then of the queue.\<close>

definition unsent :: "tcp_members \<Rightarrow> char option list" where
  "unsent t = iob_content (cwiobuff t) @ concat (map iob_content (qwiobuff t))"

lemma iob_empty_new [simp]: "iob_empty (IOBuffer_new 0)"
  by (simp add: iob_empty_def IOBuffer_new_def)

lemma start_write_ok:
  "socket_ok t \<Longrightarrow> start_write t = Some (Some (iob_content (cwiobuff t)), t)"
  by (simp add: start_write_def socket_ok_def)

lemma async_write_submits:
  assumes "queue_wf t" and "iob_wf data" and "iob_content data \<noteq> []"
  shows "\<exists>t'. async_write data t = Some (if iob_content (cwiobuff t) = [] then Some (iob_content data) else None, t')
    \<and> queue_wf t' \<and> unsent t' = unsent t @ iob_content data
    \<and> iob_content (cwiobuff t')
        = (if iob_content (cwiobuff t) = [] then iob_content data else iob_content (cwiobuff t))"
proof -
  have e: "iob_empty data = False" "iob_empty (cwiobuff t) = (iob_content (cwiobuff t) = [])"
    using assms by (simp_all add: sw.empty_law queue_wf_def)
  show ?thesis
  proof (cases "iob_content (cwiobuff t) = []")
    case True
    with assms have q: "qwiobuff t = []" by (simp add: queue_wf_def)
    have "socket_ok (t\<lparr>cwiobuff := data\<rparr>)" using assms(1) by (simp add: queue_wf_def socket_ok_def)
    with True e q assms show ?thesis
      by (simp add: async_write_def iob_clone_eq start_write_ok unsent_def queue_wf_def)
  next
    case False
    with e assms show ?thesis
      by (auto simp: async_write_def iob_clone_eq unsent_def queue_wf_def socket_ok_def)
  qed
qed

lemma check_send_buffer_step:
  assumes "queue_wf t" and "iob_content (cwiobuff t) \<noteq> []"
  shows "\<exists>t'. check_send_buffer (length (iob_content (cwiobuff t))) t = Some (unsent t' \<noteq> [], t')
    \<and> queue_wf t' \<and> unsent t = iob_content (cwiobuff t) @ unsent t'"
proof -
  have wf: "iob_wf (cwiobuff t)" using assms(1) by (simp add: queue_wf_def)
  from sw.consume_law [OF wf order_refl] obtain b where
    b: "iob_consume (length (iob_content (cwiobuff t))) (cwiobuff t) = Some b" "iob_wf b" "iob_content b = []"
    by auto
  then have eb: "iob_empty b" by (simp add: sw.empty_law)
  show ?thesis
  proof (cases "qwiobuff t")
    case Nil
    with b eb assms show ?thesis
      by (simp add: check_send_buffer_def unsent_def queue_wf_def socket_ok_def)
  next
    case (Cons b1 bs)
    with assms(1) have "iob_wf b1" "iob_content b1 \<noteq> []" by (simp_all add: queue_wf_def)
    moreover from this have "\<not> iob_empty b1" by (simp add: sw.empty_law)
    ultimately show ?thesis
      using Cons b eb assms by (simp add: check_send_buffer_def unsent_def queue_wf_def socket_ok_def)
  qed
qed

text \<open>
  The sender under the event loop: the application submits a buffer that is not empty, or asio
  completes the write that is under way. The configuration holds the state's count, the machine, the
  write under way and what has reached the wire; \<open>finished\<close> the outcomes of \<open>done\<close>.
\<close>

record sender =
  sn_bytes :: nat
  sn_tcp :: tcp_members
  sn_flight :: "char option list option"
  sn_wire :: "char option list"
  sn_submitted :: "char option list"

inductive sender_step :: "sender \<Rightarrow> sender \<Rightarrow> bool" where
  submit:
    "iob_wf data \<Longrightarrow> iob_content data \<noteq> [] \<Longrightarrow> async_write data (sn_tcp s) = Some (started, t)
      \<Longrightarrow> sender_step s (s\<lparr>sn_tcp := t,
            sn_flight := (case started of None \<Rightarrow> sn_flight s | Some w \<Rightarrow> Some w),
            sn_submitted := sn_submitted s @ iob_content data\<rparr>)"
| write_more:
    "sn_flight s = Some w
      \<Longrightarrow> send_handle_write True Ec_Ok (length w) (sn_bytes s, sn_tcp s) = Some (Send_More started, n, t)
      \<Longrightarrow> sender_step s (s\<lparr>sn_bytes := n, sn_tcp := t, sn_flight := started, sn_wire := sn_wire s @ w\<rparr>)"
| write_done:
    "sn_flight s = Some w
      \<Longrightarrow> send_handle_write True Ec_Ok (length w) (sn_bytes s, sn_tcp s)
            = Some (Send_Finished ec1 ec2 out, n, t)
      \<Longrightarrow> sender_step s (s\<lparr>sn_bytes := n, sn_tcp := t, sn_flight := None, sn_wire := sn_wire s @ w\<rparr>)"

definition sender_inv :: "sender \<Rightarrow> bool" where
  "sender_inv s \<longleftrightarrow> queue_wf (sn_tcp s)
     \<and> sn_flight s = (if iob_content (cwiobuff (sn_tcp s)) = [] then None
                       else Some (iob_content (cwiobuff (sn_tcp s))))
     \<and> sn_wire s @ unsent (sn_tcp s) = sn_submitted s \<and> sn_bytes s = length (sn_wire s)"

lemma handle_write_step:
  assumes "queue_wf t" and "iob_content (cwiobuff t) = w" and "w \<noteq> []"
  shows "\<exists>t'. send_handle_write True Ec_Ok (length w) (n, t)
      = Some (if unsent t' = [] then Send_Finished kBeeErrorCode_Success Ec_Ok (Some (n + length w))
              else Send_More (Some (iob_content (cwiobuff t'))), n + length w, t')
    \<and> queue_wf t' \<and> unsent t = w @ unsent t'"
proof -
  obtain t' where t': "check_send_buffer (length w) t = Some (unsent t' \<noteq> [], t')" "queue_wf t'"
    "unsent t = w @ unsent t'"
    using check_send_buffer_step [of t] assms by auto
  show ?thesis
  proof (cases "unsent t' = []")
    case True
    with t' show ?thesis by (intro exI [of _ t']) (simp add: send_handle_write_def Let_def)
  next
    case False
    with t'(2) have ne: "iob_content (cwiobuff t') \<noteq> []" by (auto simp: unsent_def queue_wf_def)
    with t'(2) have "\<not> iob_empty (cwiobuff t')" "socket_ok t'" by (simp_all add: queue_wf_def sw.empty_law)
    then have "async_write (IOBuffer_new 0) t' = Some (Some (iob_content (cwiobuff t')), t')"
      by (simp add: async_write_def start_write_ok)
    with t' False show ?thesis by (intro exI [of _ t']) (simp add: send_handle_write_def Let_def)
  qed
qed

lemma sender_step_inv:
  assumes "sender_step s s'" and "sender_inv s"
  shows "sender_inv s'"
  using assms
proof cases
  case (submit data started t)
  with assms(2) async_write_submits [of "sn_tcp s" data] show ?thesis
    by (auto simp: sender_inv_def)
next
  case (write_more w started n t)
  with assms(2) have w: "iob_content (cwiobuff (sn_tcp s)) = w" "w \<noteq> []" "queue_wf (sn_tcp s)"
    by (simp_all add: sender_inv_def split: if_splits)
  from handle_write_step [OF w(3,1,2), of "sn_bytes s"] obtain t' where
    h: "send_handle_write True Ec_Ok (length w) (sn_bytes s, sn_tcp s)
        = Some (if unsent t' = [] then Send_Finished kBeeErrorCode_Success Ec_Ok (Some (sn_bytes s + length w))
              else Send_More (Some (iob_content (cwiobuff t'))), sn_bytes s + length w, t')"
      "queue_wf t'" "unsent (sn_tcp s) = w @ unsent t'" by blast
  from h(1) write_more(3) have t: "unsent t' \<noteq> []" "started = Some (iob_content (cwiobuff t'))"
    "n = sn_bytes s + length w" "t = t'" by (simp_all split: if_splits)
  from t(1) h(2) have "iob_content (cwiobuff t') \<noteq> []" by (auto simp: unsent_def queue_wf_def)
  with t h(2,3) assms(2) show ?thesis by (simp add: write_more(1) sender_inv_def)
next
  case (write_done w ec1 ec2 out n t)
  with assms(2) have w: "iob_content (cwiobuff (sn_tcp s)) = w" "w \<noteq> []" "queue_wf (sn_tcp s)"
    by (simp_all add: sender_inv_def split: if_splits)
  from handle_write_step [OF w(3,1,2), of "sn_bytes s"] obtain t' where
    h: "send_handle_write True Ec_Ok (length w) (sn_bytes s, sn_tcp s)
        = Some (if unsent t' = [] then Send_Finished kBeeErrorCode_Success Ec_Ok (Some (sn_bytes s + length w))
              else Send_More (Some (iob_content (cwiobuff t'))), sn_bytes s + length w, t')"
      "queue_wf t'" "unsent (sn_tcp s) = w @ unsent t'" by blast
  from h(1) write_done(3) have t: "unsent t' = []" "n = sn_bytes s + length w" "t = t'"
    by (simp_all split: if_splits)
  from t(1) have "iob_content (cwiobuff t') = []" by (simp add: unsent_def)
  moreover have "sn_submitted s = sn_wire s @ w" using assms(2) h(3) t(1) by (simp add: sender_inv_def)
  ultimately show ?thesis using t h(2,3) assms(2) by (simp add: write_done(1) sender_inv_def)
qed

lemma sender_steps_inv: "sender_step\<^sup>*\<^sup>* s s' \<Longrightarrow> sender_inv s \<Longrightarrow> sender_inv s'"
  by (induction rule: rtranclp_induct) (auto dest: sender_step_inv)

definition sender_start :: "tcp_members \<Rightarrow> sender" where
  "sender_start t = \<lparr>sn_bytes = 0, sn_tcp = t, sn_flight = None, sn_wire = [], sn_submitted = []\<rparr>"

text \<open>
  C11: the send queue delivers everything once and in order. However submissions and completed writes
  interleave on a connected machine, what has reached the wire is a prefix of what was submitted,
  followed by the buffer under way and the queue; the count kept for the report is the length of that
  prefix; nothing waits unless a write is under way, so when none is, all of it has been sent; and
  neither a submission nor a completion runs into an assertion.
\<close>

theorem send_queue_in_order:
  assumes "socket_ok t" and "iob_wf (cwiobuff t)" and "iob_content (cwiobuff t) = []" and "qwiobuff t = []"
    and "sender_step\<^sup>*\<^sup>* (sender_start t) s"
  shows "sn_submitted s = sn_wire s @ unsent (sn_tcp s) \<and> sn_bytes s = length (sn_wire s)
    \<and> (sn_flight s = None \<longrightarrow> sn_wire s = sn_submitted s)
    \<and> (\<forall>w. sn_flight s = Some w \<longrightarrow> (\<exists>s'. sender_step s s' \<and> sn_wire s' = sn_wire s @ w))
    \<and> (\<forall>data. iob_wf data \<and> iob_content data \<noteq> [] \<longrightarrow> async_write data (sn_tcp s) \<noteq> None)"
proof -
  have "sender_inv (sender_start t)"
    using assms(1-4) by (simp add: sender_inv_def sender_start_def queue_wf_def unsent_def)
  with assms(5) have inv: "sender_inv s" by (rule sender_steps_inv)
  then have wf: "queue_wf (sn_tcp s)" by (simp add: sender_inv_def)
  have step: "\<exists>s'. sender_step s s' \<and> sn_wire s' = sn_wire s @ w" if "sn_flight s = Some w" for w
  proof -
    from that inv have w: "iob_content (cwiobuff (sn_tcp s)) = w" "w \<noteq> []"
      by (auto simp: sender_inv_def split: if_splits)
    from handle_write_step [OF wf w, of "sn_bytes s"] obtain t' where
      h: "send_handle_write True Ec_Ok (length w) (sn_bytes s, sn_tcp s)
        = Some (if unsent t' = [] then Send_Finished kBeeErrorCode_Success Ec_Ok (Some (sn_bytes s + length w))
              else Send_More (Some (iob_content (cwiobuff t'))), sn_bytes s + length w, t')" by blast
    show ?thesis
    proof (cases "unsent t' = []")
      case True
      with h have "send_handle_write True Ec_Ok (length w) (sn_bytes s, sn_tcp s)
        = Some (Send_Finished kBeeErrorCode_Success Ec_Ok (Some (sn_bytes s + length w)), sn_bytes s + length w, t')"
        by simp
      from write_done [OF that this] show ?thesis
        by (intro exI [of _ "s\<lparr>sn_bytes := sn_bytes s + length w, sn_tcp := t', sn_flight := None,
          sn_wire := sn_wire s @ w\<rparr>"]) simp
    next
      case False
      with h have "send_handle_write True Ec_Ok (length w) (sn_bytes s, sn_tcp s)
        = Some (Send_More (Some (iob_content (cwiobuff t'))), sn_bytes s + length w, t')" by simp
      from write_more [OF that this] show ?thesis
        by (intro exI [of _ "s\<lparr>sn_bytes := sn_bytes s + length w, sn_tcp := t',
          sn_flight := Some (iob_content (cwiobuff t')), sn_wire := sn_wire s @ w\<rparr>"]) simp
    qed
  qed
  have "async_write data (sn_tcp s) \<noteq> None" if "iob_wf data" "iob_content data \<noteq> []" for data
    using async_write_submits [OF wf that] by auto
  moreover have "sn_flight s = None \<Longrightarrow> unsent (sn_tcp s) = []"
    using inv by (auto simp: sender_inv_def unsent_def queue_wf_def split: if_splits)
  ultimately show ?thesis using inv step by (auto simp: sender_inv_def)
qed

definition demo_tcp :: tcp_members where
  "demo_tcp = (TcpStateMachine_new False)\<lparr>sock := True, connected := True\<rparr>"

lemma demo_tcp_ok:
  "socket_ok demo_tcp" "iob_wf (cwiobuff demo_tcp)" "iob_content (cwiobuff demo_tcp) = []"
  "qwiobuff demo_tcp = []"
  by (simp_all add: demo_tcp_def TcpStateMachine_new_def socket_ok_def iob_new_wf)

theorem send_queue_in_order_witness:
  "\<exists>s. sender_step\<^sup>*\<^sup>* (sender_start demo_tcp) s \<and> sn_submitted s = map Some ''hi''
    \<and> sn_submitted s = sn_wire s @ unsent (sn_tcp s)"
proof -
  let ?d = "IOBuffer_of_string ''hi''"
  have d: "iob_wf ?d" "iob_content ?d = map Some ''hi''"
    by (simp_all add: IOBuffer_of_string_def iob_wf_def iob_content_def)
  have "queue_wf demo_tcp" using demo_tcp_ok by (simp add: queue_wf_def)
  from async_write_submits [OF this d(1)] obtain st t where
    "async_write ?d demo_tcp = Some (st, t)" using d(2) by auto
  then have "async_write ?d (sn_tcp (sender_start demo_tcp)) = Some (st, t)" by (simp add: sender_start_def)
  from submit [OF d(1) _ this] d(2) obtain s where s: "sender_step (sender_start demo_tcp) s" "sn_submitted s = map Some ''hi''"
    by (auto simp: sender_start_def)
  then have "sender_step\<^sup>*\<^sup>* (sender_start demo_tcp) s" by blast
  with send_queue_in_order [OF demo_tcp_ok this] s(2) show ?thesis by blast
qed

text \<open>
  A send of an empty buffer on an idle machine starts no write, so its handler is never called and
  the state never reports.
\<close>

lemma send_execute_empty_hangs:
  assumes "connected t" and "iob_empty data" and "iob_empty (cwiobuff t)" and "qwiobuff t = []"
  shows "send_execute True True data t = Some (kBeeErrorCode_Success, None, t)"
  using assms by (simp add: send_execute_def async_write_def)

section \<open>Stopping\<close>

lemma uninstall_heap:
  fixes m :: "('c, 'x) AsyncStateMachine"
  shows "fsm_heap (uninstall_state_machine m) p
    = (if p \<in> snd ` set (state_graph m) then state_uninstall (fsm_heap m p) else fsm_heap m p)"
proof -
  have "fsm_heap (fold (\<lambda>(i, p) m. set_st p (state_uninstall (fsm_heap m p)) m) g m) p
      = (if p \<in> snd ` set g then state_uninstall (fsm_heap m p) else fsm_heap m p)"
    for g :: "(int \<times> nat) list" and m :: "('c, 'x) AsyncStateMachine"
    by (induction g arbitrary: m) (auto simp: state_uninstall_def)
  then show ?thesis by (simp add: uninstall_state_machine_def)
qed

lemma uninstall_keeps:
  fixes m :: "('c, 'x) AsyncStateMachine"
  shows "state_graph (uninstall_state_machine m) = []" "fsm_ios (uninstall_state_machine m) = fsm_ios m"
  "posted (uninstall_state_machine m) = posted m" "outputs (uninstall_state_machine m) = outputs m"
  "members (uninstall_state_machine m) = members m"
proof -
  have "fsm_ios (fold (\<lambda>(i, p) m. set_st p (state_uninstall (fsm_heap m p)) m) g m) = fsm_ios m"
    "posted (fold (\<lambda>(i, p) m. set_st p (state_uninstall (fsm_heap m p)) m) g m) = posted m"
    "outputs (fold (\<lambda>(i, p) m. set_st p (state_uninstall (fsm_heap m p)) m) g m) = outputs m"
    "members (fold (\<lambda>(i, p) m. set_st p (state_uninstall (fsm_heap m p)) m) g m) = members m"
    for g :: "(int \<times> nat) list" and m :: "('c, 'x) AsyncStateMachine"
    by (induction g arbitrary: m) auto
  then show "state_graph (uninstall_state_machine m) = []" "fsm_ios (uninstall_state_machine m) = fsm_ios m"
    "posted (uninstall_state_machine m) = posted m" "outputs (uninstall_state_machine m) = outputs m"
    "members (uninstall_state_machine m) = members m"
    by (simp_all add: uninstall_state_machine_def)
qed

text \<open>A state without a router reports, whatever its handler says.\<close>

lemma done_uninstalled:
  assumes "st_output (fsm_heap m p) = Some ev" and "st_router (fsm_heap m p) = None"
    and "st_attached (fsm_heap m p)"
  shows "\<exists>m' ev'. state_done_ec ec1 ec2 p m = Some (False, m') \<and> posted m' = posted m
    \<and> outputs m' = outputs m @ [ev']"
proof -
  let ?ev = "ev\<lparr>ev_ec1 := ec1, ev_ec2 := ec2\<rparr>"
  let ?m = "set_output_event p ?ev m"
  let ?m' = "if ev_setup ev then set_output_event p (?ev\<lparr>ev_ec1 := kBeeErrorCode_Error_State_Machine\<rparr>) m
    else ?m"
  have "switch_to_next_core p ?m = Some (False, ?m')"
    using assms(2) by (simp add: switch_to_next_core_def)
  then have "state_done_ec ec1 ec2 p m = Some (False, state_output p ?m')"
    using assms(1) by (simp add: state_done_ec_def state_done_def switch_to_next_def)
  moreover have "\<exists>ev'. state_output p ?m' = fsm_output ev' ?m'"
    using assms(3) by (cases "ev_setup ev") (auto simp: state_output_def)
  ultimately show ?thesis by (auto simp: fsm_output_def)
qed

text \<open>
  Stopping a connected machine ends it: the graph is empty, the caches and the queue hold nothing,
  the machine cannot be activated again, and a handler that still completes, whatever it answers,
  posts no further state and only reports. A machine that is not connected yet is not stopped at all:
  \<open>stop\<close> leaves it resolving or connecting.
\<close>

theorem tcp_stop_ends:
  assumes "fsm_wf m" and "\<And>t. get (put t (members m)) = t"
  shows "(connected (get (members m)) \<longrightarrow>
      state_graph (tcp_stop get put m) = [] \<and> \<not> connected (get (members (tcp_stop get put m))) \<and> unsent (get (members (tcp_stop get put m))) = []
      \<and> activate_state_machine (tcp_stop get put m) = (False, tcp_stop get put m)
      \<and> (\<forall>i p. map_of (state_graph m) i = Some p \<longrightarrow>
           (\<exists>m' ev. state_done_ec ec1 ec2 p (tcp_stop get put m) = Some (False, m')
              \<and> posted m' = posted (tcp_stop get put m) \<and> outputs m' = outputs (tcp_stop get put m) @ [ev])))
    \<and> (\<not> connected (get (members m)) \<longrightarrow> tcp_stop get put m = m)"
proof (intro conjI impI)
  assume c: "connected (get (members m))"
  define t where "t = (if \<not> is_tls (get (members m)) then (get (members m))\<lparr>sock := False\<rparr>
    else (get (members m))\<lparr>tls_sock := False\<rparr>)"
  define m0 where "m0 = m\<lparr>fsm_ios := False, members := put (t\<lparr>qwiobuff := [], cwiobuff := iob_clear (cwiobuff t),
    criobuff := iob_clear (criobuff t), connected := False\<rparr>) (members m)\<rparr>"
  have st: "tcp_stop get put m = uninstall_state_machine m0"
    using c by (simp add: tcp_stop_def m0_def t_def Let_def)
  have heap: "fsm_heap m0 = fsm_heap m" "state_graph m0 = state_graph m" by (simp_all add: m0_def)
  show "state_graph (tcp_stop get put m) = []" "\<not> connected (get (members (tcp_stop get put m)))"
    "unsent (get (members (tcp_stop get put m))) = []"
    by (simp_all add: st uninstall_keeps) (simp_all add: m0_def unsent_def assms(2))
  show "activate_state_machine (tcp_stop get put m) = (False, tcp_stop get put m)"
    by (simp add: st activate_state_machine_def uninstall_keeps m0_def)
  show "\<forall>i p. map_of (state_graph m) i = Some p \<longrightarrow>
      (\<exists>m' ev. state_done_ec ec1 ec2 p (tcp_stop get put m) = Some (False, m')
         \<and> posted m' = posted (tcp_stop get put m) \<and> outputs m' = outputs (tcp_stop get put m) @ [ev])"
  proof (intro allI impI)
    fix i p assume p: "map_of (state_graph m) i = Some p"
    then have ok: "state_ok (fsm_heap m p)" using assms(1) by (simp add: fsm_wf_def)
    from p have "p \<in> snd ` set (state_graph m)" by (force dest: map_of_SomeD)
    then have "fsm_heap (tcp_stop get put m) p = state_uninstall (fsm_heap m p)"
      by (simp add: st uninstall_heap heap)
    with ok obtain ev where "st_output (fsm_heap (tcp_stop get put m) p) = Some ev"
      "st_router (fsm_heap (tcp_stop get put m) p) = None" "st_attached (fsm_heap (tcp_stop get put m) p)"
      by (auto simp: state_ok_def state_uninstall_def)
    from done_uninstalled [OF this] show "\<exists>m' ev. state_done_ec ec1 ec2 p (tcp_stop get put m) = Some (False, m')
         \<and> posted m' = posted (tcp_stop get put m) \<and> outputs m' = outputs (tcp_stop get put m) @ [ev]" by blast
  qed
next
  assume "\<not> connected (get (members m))"
  then show "tcp_stop get put m = m" by (simp add: tcp_stop_def Let_def)
qed

definition demo_tcp_machine :: "nat tcp_machine" where
  "demo_tcp_machine = snd (setup_state_machine
     [\<lparr>sp_id = 0, sp_type = kTcpStateType_Resolve, sp_router = (\<lambda>c ev. (kFinishedState, ev, c)),
       sp_activate = True, sp_input = Plain_Event, sp_output = Plain_Event, sp_switches = []\<rparr>]
     (AsyncStateMachine_new True demo_tcp))"

theorem tcp_stop_ends_witness:
  "state_graph (tcp_stop id (\<lambda>t _. t) demo_tcp_machine) = []
    \<and> unsent (members (tcp_stop id (\<lambda>t _. t) demo_tcp_machine)) = []"
proof -
  let ?sps = "[\<lparr>sp_id = 0, sp_type = kTcpStateType_Resolve, sp_router = (\<lambda>c ev. (kFinishedState, ev, c)),
       sp_activate = True, sp_input = Plain_Event, sp_output = Plain_Event, sp_switches = []\<rparr>]
      :: (tcp_members, nat tcp_extra) state_spec list"
  from setup_built [of ?sps True demo_tcp]
  have "fsm_wf demo_tcp_machine" "members demo_tcp_machine = demo_tcp"
    by (auto simp: demo_tcp_machine_def)
  with tcp_stop_ends [of demo_tcp_machine id "\<lambda>t _. t"] show ?thesis by (simp add: demo_tcp_def)
qed

end
