(* ===== verification/Bee_Tcp_States.thy ===== *)
theory Bee_Tcp_States
  imports Bee_Tcp_Machine Bee_Timer Bee_Strings
begin

text \<open>
  The states a TCP connection is built from (src/network/tcp_state_machine.cpp): resolving a host,
  connecting with retries under a total and a per-endpoint timeout, and receiving a message with a
  length field.

  The handlers answer what they start or report, in order; asio's completions and the check timer's
  periods are events of the environment. Reading an address from text is the argument
  \<open>from_string\<close>. Milliseconds are counted in \<open>int\<close>: they stay far below the range of \<open>int32_t\<close>
  while the state's timer runs.
\<close>

section \<open>Resolving\<close>

type_synonym 'a endpoint = "'a \<times> u16"

text \<open>
  \<open>execute\<close>: an address is taken as it is and \<open>done\<close> is called at once; for a name a look-up is
  started, which the second component of the result says. \<open>None\<close> when the events are not the state's.
\<close>

definition resolve_execute ::
    "(string \<Rightarrow> 'a option) \<Rightarrow> nat \<Rightarrow> 'a endpoint tcp_machine
      \<Rightarrow> (BeeErrorCode \<times> bool \<times> 'a endpoint tcp_machine) option" where
  "resolve_execute from_string p m =
     (let s = fsm_heap m p
      in if \<not> check_event s then Some (kBeeErrorCode_Invalid_Param, False, m)
         else case (map_option ev_extra (st_input s), st_output s) of
             (Some (Resolve_Input host service), Some out_ev) \<Rightarrow>
               (case (from_string host, ev_extra out_ev) of
                  (Some addr, Resolve_Output eps) \<Rightarrow>
                    (case state_done p (set_output_event p
                        (out_ev\<lparr>ev_extra := Resolve_Output (eps @ [(addr, word_of_int (atoi service))]),
                           ev_setup := True\<rparr>) m) of
                       None \<Rightarrow> None
                     | Some (_, m') \<Rightarrow> Some (kBeeErrorCode_Success, False, m'))
                | (None, _) \<Rightarrow>
                    if st_attached s then Some (kBeeErrorCode_Success, True, m)
                    else Some (kBeeErrorCode_Error_State_Machine, False, m)
                | _ \<Rightarrow> None)
           | _ \<Rightarrow> None)"

text \<open>The endpoints found are added to those the event already holds.\<close>

definition handle_resolve ::
    "error_code \<Rightarrow> 'a endpoint list \<Rightarrow> nat \<Rightarrow> 'a endpoint tcp_machine
      \<Rightarrow> (bool \<times> 'a endpoint tcp_machine) option" where
  "handle_resolve ec2 found p m =
     (let ec1 = (if found = [] then kBeeErrorCode_Resolve_Fail else kBeeErrorCode_Success)
      in case st_output (fsm_heap m p) of
           None \<Rightarrow> None
         | Some ev \<Rightarrow>
             (case ev_extra ev of
                Resolve_Output eps \<Rightarrow>
                  state_done_ec ec1 ec2 p (set_output_event p
                    (ev\<lparr>ev_extra := Resolve_Output (eps @ found), ev_ec1 := ec1, ev_ec2 := ec2,
                       ev_setup := True\<rparr>) m)
              | _ \<Rightarrow> None))"

section \<open>Connecting\<close>

definition kTcpCheckConnectPeriod :: int where
  "kTcpCheckConnectPeriod = 200"

record tcp_connect =
  tc_index :: int
  tc_total :: int
  tc_tried :: int
  tc_timer :: "AsyncWaitTimer option"
  tc_spent :: int
  tc_endpoint_spent :: int
  tc_total_timeout :: int
  tc_endpoint_timeout :: int

definition TcpConnectState_new :: tcp_connect where
  "TcpConnectState_new = \<lparr>tc_index = 0, tc_total = 0, tc_tried = 0, tc_timer = None, tc_spent = 0,
     tc_endpoint_spent = 0, tc_total_timeout = kDefaultTcpConnectTimeout,
     tc_endpoint_timeout = kDefaultTcpConnectTimeout\<rparr>"

text \<open>
  What a handler starts or tells: a connection to an endpoint (bound to an index), a new socket, a
  TLS handshake, the output event, the machine being connected, and \<open>done\<close> with its codes.
\<close>

datatype 'ep connect_effect =
    Start_Connect 'ep int
  | Reset_Socket
  | Start_Handshake
  | Output_Index int
  | Output_Connected 'ep int
  | Report BeeErrorCode error_code

text \<open>\<open>endpoints[index_ % total_count_]\<close>; the index is never negative.\<close>

definition target_endpoint :: "'ep list \<Rightarrow> tcp_connect \<Rightarrow> ('ep \<times> int) option" where
  "target_endpoint eps st =
     (if tc_total st \<le> 0 \<or> tc_index st < 0 then None
      else
        (let target_index = tc_index st mod tc_total st
         in if nat target_index < length eps then Some (eps ! nat target_index, target_index) else None))"

definition connect_execute ::
    "bool \<Rightarrow> bool \<Rightarrow> 'ep list \<Rightarrow> int \<Rightarrow> int \<Rightarrow> tcp_connect
      \<Rightarrow> (BeeErrorCode \<times> 'ep connect_effect list \<times> tcp_connect) option" where
  "connect_execute ok_event fsm eps start_index connect_timeout st =
     (if \<not> ok_event \<or> eps = [] then Some (kBeeErrorCode_Invalid_Param, [], st)
      else if \<not> fsm then Some (kBeeErrorCode_Error_State_Machine, [], st)
      else
        (let total = int (length eps);
             st1 = st\<lparr>tc_total := total,
               tc_index := (if 0 \<le> start_index \<and> start_index < total then start_index else tc_index st)\<rparr>
         in case target_endpoint eps st1 of
              None \<Rightarrow> None
            | Some (ep, _) \<Rightarrow>
                (let timer = timer_async_wait (set_immediately False (set_wait_times (- 1)
                       (set_wait_millseconds kTcpCheckConnectPeriod AsyncWaitTimer_create)))
                 in Some (kBeeErrorCode_Success, [Start_Connect ep (tc_index st1)],
                      st1\<lparr>tc_tried := tc_tried st1 + 1, tc_total_timeout := connect_timeout,
                         tc_timer := Some timer\<rparr>))))"

text \<open>\<open>check_timer_->cancel(); check_timer_.reset();\<close>: the pointer is dropped.\<close>

definition drop_timer :: "tcp_connect \<Rightarrow> tcp_connect" where
  "drop_timer st = st\<lparr>tc_timer := None\<rparr>"

text \<open>
  \<open>handle_connect\<close>: \<open>index++\<close> counts up the handler's own parameter, not \<open>index_\<close>.
\<close>

definition handle_connect ::
    "bool \<Rightarrow> bool \<Rightarrow> 'ep list \<Rightarrow> error_code \<Rightarrow> int \<Rightarrow> tcp_connect
      \<Rightarrow> ('ep connect_effect list \<times> tcp_connect) option" where
  "handle_connect fsm tls eps ec2 index st =
     (if \<not> fsm then Some ([Report kBeeErrorCode_Error_State_Machine ec2], st)
      else if index \<noteq> tc_index st then Some ([], st)
      else if ec_set ec2 then
        (if \<not> tc_tried st < tc_total st \<and> ec2 \<noteq> Ec_Timed_Out
         then Some ([Report kBeeErrorCode_Connect_Fail ec2], st)
         else case target_endpoint eps st of
             None \<Rightarrow> None
           | Some (ep, _) \<Rightarrow>
               Some ([Reset_Socket, Start_Connect ep (tc_index st)],
                 st\<lparr>tc_endpoint_spent := 0, tc_tried := tc_tried st + 1\<rparr>))
      else if tls then Some ([Start_Handshake], st)
      else case target_endpoint eps st of
          None \<Rightarrow> None
        | Some (ep, target_index) \<Rightarrow>
            Some ([Output_Connected ep target_index, Report kBeeErrorCode_Success ec2], drop_timer st))"

definition handle_period_timeout ::
    "bool \<Rightarrow> bool \<Rightarrow> 'ep list \<Rightarrow> tcp_connect \<Rightarrow> ('ep connect_effect list \<times> tcp_connect) option" where
  "handle_period_timeout fsm tls eps st =
     (let st1 = st\<lparr>tc_spent := tc_spent st + kTcpCheckConnectPeriod,
            tc_endpoint_spent := tc_endpoint_spent st + kTcpCheckConnectPeriod\<rparr>
      in if tc_spent st1 \<ge> tc_total_timeout st1 then
           (if tc_timer st1 = None then None
            else Some ([Report kBeeErrorCode_Timeout Ec_Ok], drop_timer st1))
         else if tc_endpoint_spent st1 \<ge> tc_endpoint_timeout st1
           then handle_connect fsm tls eps Ec_Timed_Out (tc_index st1) st1
         else Some ([], st1))"

definition handle_handshake ::
    "bool \<Rightarrow> 'ep list \<Rightarrow> error_code \<Rightarrow> tcp_connect \<Rightarrow> ('ep connect_effect list \<times> tcp_connect) option" where
  "handle_handshake fsm eps ec st =
     (if \<not> fsm then Some ([Report kBeeErrorCode_Error_State_Machine ec], st)
      else case target_endpoint eps st of
          None \<Rightarrow> None
        | Some (ep, target_index) \<Rightarrow>
            if ec_set ec
            then Some ([Output_Index target_index, Report kBeeErrorCode_Tls_Shakehand_Fail ec], st)
            else Some ([Output_Index target_index, Output_Connected ep target_index,
                   Report kBeeErrorCode_Success ec], drop_timer st))"

text \<open>
  \<open>setup_input_event\<close> of the connect state: one more endpoint, from an address in text.
\<close>

definition connect_setup_input_event ::
    "(string \<Rightarrow> 'a option) \<Rightarrow> string \<Rightarrow> u16 \<Rightarrow> (tcp_members, 'a endpoint tcp_extra) State
      \<Rightarrow> (bool \<times> (tcp_members, 'a endpoint tcp_extra) State) option" where
  "connect_setup_input_event from_string ip port s =
     (case st_input s of
        None \<Rightarrow> Some (False, s)
      | Some ev \<Rightarrow>
          if ip = [] then Some (False, s)
          else case (from_string ip, ev_extra ev) of
              (None, _) \<Rightarrow> Some (False, s)
            | (Some addr, Connect_Input eps start_index timeout) \<Rightarrow>
                Some (True, s\<lparr>st_input := Some (ev\<lparr>
                  ev_extra := Connect_Input (eps @ [(addr, port)]) start_index timeout, ev_setup := True\<rparr>)\<rparr>)
            | _ \<Rightarrow> None)"

text \<open>What may happen to a connecting state; its check timer fires while it exists.\<close>

datatype connect_event = Ev_Connected error_code int | Ev_Handshake error_code | Ev_Period

definition connect_event_step ::
    "bool \<Rightarrow> bool \<Rightarrow> 'ep list \<Rightarrow> connect_event \<Rightarrow> tcp_connect
      \<Rightarrow> ('ep connect_effect list \<times> tcp_connect) option" where
  "connect_event_step fsm tls eps ev st =
     (case ev of
        Ev_Connected ec index \<Rightarrow> handle_connect fsm tls eps ec index st
      | Ev_Handshake ec \<Rightarrow> handle_handshake fsm eps ec st
      | Ev_Period \<Rightarrow> handle_period_timeout fsm tls eps st)"

fun connect_events ::
    "bool \<Rightarrow> bool \<Rightarrow> 'ep list \<Rightarrow> connect_event list \<Rightarrow> tcp_connect
      \<Rightarrow> ('ep connect_effect list \<times> tcp_connect) option" where
  "connect_events fsm tls eps [] st = Some ([], st)"
| "connect_events fsm tls eps (ev # evs) st =
     (case connect_event_step fsm tls eps ev st of
        None \<Rightarrow> None
      | Some (out, st1) \<Rightarrow>
          (case connect_events fsm tls eps evs st1 of
             None \<Rightarrow> None
           | Some (outs, st2) \<Rightarrow> Some (out @ outs, st2)))"

section \<open>Receiving a message with a length field\<close>

record tcp_tlv =
  first_read_len :: nat
  total_len :: nat

definition TcpReceiveTlvState_new :: tcp_tlv where
  "TcpReceiveTlvState_new = \<lparr>first_read_len = 0, total_len = 0\<rparr>"

text \<open>
  What the state asks asio for next (exactly that many bytes more in \<open>rcv_streambuf_\<close>), or reports.
\<close>

datatype tlv_outcome = Tlv_Read nat | Tlv_Report BeeErrorCode error_code

definition tlv_execute ::
    "bool \<Rightarrow> bool \<Rightarrow> nat \<Rightarrow> nat \<Rightarrow> tcp_tlv \<times> tcp_members
      \<Rightarrow> BeeErrorCode \<times> nat option \<times> tcp_tlv \<times> tcp_members" where
  "tlv_execute ok_event fsm length_offset length_size stt =
     (case stt of (st, t) \<Rightarrow>
       if \<not> ok_event then (kBeeErrorCode_Invalid_Param, None, st, t)
       else if \<not> fsm then (kBeeErrorCode_Error_State_Machine, None, st, t)
       else if \<not> connected t then (kBeeErrorCode_Not_Connected, None, st, t)
       else if length_size \<notin> {1, 2, 4} then (kBeeErrorCode_Error_Data, None, st, t)
       else
         (let n = (length_offset + length_size) mod size_mod
          in (kBeeErrorCode_Success, Some n, st\<lparr>first_read_len := n\<rparr>, t)))"

text \<open>
  \<open>is.read(criobuff_.data() + at, n)\<close>: what there is of \<open>n\<close> bytes moves from the stream to the
  buffer; \<open>None\<close> past its end.
\<close>

definition read_into :: "nat \<Rightarrow> nat \<Rightarrow> tcp_members \<Rightarrow> tcp_members option" where
  "read_into i n t =
     (case store_at (cells (criobuff t)) (begin_offset (criobuff t) + i)
        (map Some (take n (rcv_streambuf t))) of
        None \<Rightarrow> None
      | Some cs \<Rightarrow> Some (t\<lparr>criobuff := (criobuff t)\<lparr>cells := cs\<rparr>,
          rcv_streambuf := drop n (rcv_streambuf t)\<rparr>))"

text \<open>
  The length field: \<open>ntohs\<close> and \<open>ntohl\<close> of a little-endian load are the bytes most significant
  first; undefined on bytes never stored or outside the buffer.
\<close>

definition be_value :: "string \<Rightarrow> nat" where
  "be_value cs = foldl (\<lambda>a c. a * 256 + of_char c) 0 cs"

definition load_be :: "nat \<Rightarrow> nat \<Rightarrow> char iobuffer \<Rightarrow> nat option" where
  "load_be i n b =
     (let cs = take n (drop (begin_offset b + i) (cells b))
      in if length cs < n \<or> None \<in> set cs then None else Some (be_value (map the cs)))"

definition tlv_handle_read_length ::
    "bool \<Rightarrow> error_code \<Rightarrow> nat \<Rightarrow> nat \<Rightarrow> nat \<Rightarrow> tcp_tlv \<times> tcp_members
      \<Rightarrow> (tlv_outcome \<times> tcp_tlv \<times> tcp_members) option" where
  "tlv_handle_read_length fsm ec2 bytes_transferred length_offset length_size stt =
     (case stt of (st, t) \<Rightarrow>
       if \<not> fsm then Some (Tlv_Report kBeeErrorCode_Error_State_Machine ec2, st, t)
       else if ec_set ec2 then Some (Tlv_Report kBeeErrorCode_Read_Fail ec2, st, t)
       else if bytes_transferred \<noteq> first_read_len st
         then Some (Tlv_Report kBeeErrorCode_Error_Data ec2, st, t)
       else case read_into 0 bytes_transferred t of
           None \<Rightarrow> None
         | Some t1 \<Rightarrow>
           if length_size \<notin> {1, 2, 4} then Some (Tlv_Report kBeeErrorCode_Invalid_Param ec2, st, t1)
           else
             (case load_be length_offset length_size (criobuff t1) of
                None \<Rightarrow> None
              | Some tlen \<Rightarrow>
                  (let st1 = st\<lparr>total_len := tlen\<rparr>;
                       left_bytes = size_sub tlen bytes_transferred
                   in if tlen > iob_capacity (criobuff t1) then
                        (case store_at (cells (IOBuffer_new tlen :: char iobuffer)) 0
                           (take bytes_transferred (drop (begin_offset (criobuff t1)) (cells (criobuff t1)))) of
                           None \<Rightarrow> None
                         | Some cs \<Rightarrow>
                             Some (Tlv_Read left_bytes, st1, t1\<lparr>criobuff := (IOBuffer_new tlen)\<lparr>cells := cs\<rparr>\<rparr>))
                      else Some (Tlv_Read left_bytes, st1, t1))))"

definition tlv_handle_read_data ::
    "bool \<Rightarrow> error_code \<Rightarrow> nat \<Rightarrow> tcp_tlv \<times> tcp_members
      \<Rightarrow> (tlv_outcome \<times> char option list option \<times> tcp_tlv \<times> tcp_members) option" where
  "tlv_handle_read_data fsm ec2 bytes_transferred stt =
     (case stt of (st, t) \<Rightarrow>
       if \<not> fsm then Some (Tlv_Report kBeeErrorCode_Error_State_Machine ec2, None, st, t)
       else if ec_set ec2 then Some (Tlv_Report kBeeErrorCode_Read_Fail ec2, None, st, t)
       else if total_len st \<noteq> (first_read_len st + bytes_transferred) mod size_mod
         then Some (Tlv_Report kBeeErrorCode_Error_Data ec2, None, st, t)
       else case read_into (first_read_len st) bytes_transferred t of
           None \<Rightarrow> None
         | Some t1 \<Rightarrow>
             Some (Tlv_Report kBeeErrorCode_Success ec2,
               Some (drop (begin_offset (criobuff t1)) (cells (criobuff t1))), st, t1))"

section \<open>Facts about connecting\<close>

text \<open>A state under way: the list, the fixed target and what the counters satisfy.\<close>

definition connecting :: "'ep list \<Rightarrow> nat \<Rightarrow> tcp_connect \<Rightarrow> bool" where
  "connecting eps k st \<longleftrightarrow> k < length eps \<and> tc_total st = int (length eps) \<and> tc_index st = int k"

lemma target_connecting: "connecting eps k st \<Longrightarrow> target_endpoint eps st = Some (eps ! k, int k)"
  by (auto simp: connecting_def target_endpoint_def)

lemma connecting_simps [simp]:
  "connecting eps k (st\<lparr>tc_tried := a\<rparr>) = connecting eps k st"
  "connecting eps k (st\<lparr>tc_endpoint_spent := b, tc_tried := a\<rparr>) = connecting eps k st"
  "connecting eps k (st\<lparr>tc_spent := a, tc_endpoint_spent := b\<rparr>) = connecting eps k st"
  "connecting eps k (st\<lparr>tc_spent := a\<rparr>) = connecting eps k st"
  "connecting eps k (st\<lparr>tc_endpoint_spent := a\<rparr>) = connecting eps k st"
  "connecting eps k (drop_timer st) = connecting eps k st"
  by (simp_all add: connecting_def drop_timer_def)

text \<open>Every handler keeps the target, and starts connections to nothing else.\<close>

definition only_target :: "'ep list \<Rightarrow> nat \<Rightarrow> 'ep connect_effect list \<Rightarrow> bool" where
  "only_target eps k out \<longleftrightarrow> (\<forall>ep i. Start_Connect ep i \<in> set out \<longrightarrow> ep = eps ! k \<and> i = int k)
     \<and> (\<forall>ep i. Output_Connected ep i \<in> set out \<longrightarrow> ep = eps ! k \<and> i = int k)"

lemma handle_connect_target:
  assumes "connecting eps k st" and "handle_connect fsm tls eps ec i st = Some (out, st')"
  shows "connecting eps k st' \<and> only_target eps k out"
proof -
  have "tc_index st = int k" using assms(1) by (simp add: connecting_def)
  with assms(2) target_connecting [OF assms(1)] assms(1) show ?thesis
    by (auto simp: handle_connect_def only_target_def split: if_splits)
qed

lemma connect_step_target:
  assumes "connecting eps k st" and "connect_event_step fsm tls eps ev st = Some (out, st')"
  shows "connecting eps k st' \<and> only_target eps k out"
proof (cases ev)
  case (Ev_Connected ec i)
  with assms show ?thesis by (auto simp: connect_event_step_def dest: handle_connect_target)
next
  case (Ev_Handshake ec)
  with assms show ?thesis
    by (auto simp: connect_event_step_def handle_handshake_def target_connecting only_target_def
        split: if_splits)
next
  case Ev_Period
  let ?st1 = "st\<lparr>tc_spent := tc_spent st + kTcpCheckConnectPeriod,
            tc_endpoint_spent := tc_endpoint_spent st + kTcpCheckConnectPeriod\<rparr>"
  have "connecting eps k ?st1" using assms(1) by simp
  with assms(2) Ev_Period handle_connect_target [of eps k ?st1 fsm tls Ec_Timed_Out "tc_index st" out st']
  show ?thesis
    by (auto simp: connect_event_step_def handle_period_timeout_def Let_def only_target_def split: if_splits)
qed

lemma only_target_append [simp]:
  "only_target eps k (xs @ ys) \<longleftrightarrow> only_target eps k xs \<and> only_target eps k ys"
  by (auto simp: only_target_def)

lemma connect_events_target:
  "connect_events fsm tls eps evs st = Some (outs, st') \<Longrightarrow> connecting eps k st
    \<Longrightarrow> connecting eps k st' \<and> only_target eps k outs"
proof (induction evs arbitrary: st outs)
  case Nil
  then show ?case by (simp add: only_target_def)
next
  case (Cons ev evs)
  from Cons.prems(1) obtain out st1 outs1 where
    s: "connect_event_step fsm tls eps ev st = Some (out, st1)"
    "connect_events fsm tls eps evs st1 = Some (outs1, st')" "outs = out @ outs1"
    by (auto split: option.splits)
  from connect_step_target [OF Cons.prems(2) s(1)] Cons.IH [OF s(2)] s(3) show ?case by simp
qed

lemma connect_execute_starts:
  assumes "k < length eps"
  shows "\<exists>st. connect_execute True True eps (int k) timeout st0
      = Some (kBeeErrorCode_Success, [Start_Connect (eps ! k) (int k)], st)
    \<and> connecting eps k st \<and> tc_tried st = tc_tried st0 + 1 \<and> tc_total_timeout st = timeout
    \<and> tc_timer st \<noteq> None \<and> tc_spent st = tc_spent st0 \<and> tc_endpoint_spent st = tc_endpoint_spent st0
    \<and> tc_endpoint_timeout st = tc_endpoint_timeout st0"
proof -
  have "eps \<noteq> []" using assms by auto
  then show ?thesis using assms
    by (simp add: connect_execute_def target_endpoint_def Let_def connecting_def)
qed

text \<open>
  A connecting state tries one endpoint only. Whatever completions, timeouts and handshakes come,
  every connection it starts, the first one and every retry, is to the endpoint the start index names,
  and so is the one it reports: the counter that should move on to the next candidate is the handler's
  own parameter. The other endpoints the look-up found are never tried.
\<close>

theorem connect_never_rotates:
  assumes "k < length eps"
    and "connect_execute True True eps (int k) timeout st0 = Some (ret, out, st)"
    and "connect_events fsm tls eps evs st = Some (outs, st')"
  shows "\<forall>ep i. Start_Connect ep i \<in> set (out @ outs) \<or> Output_Connected ep i \<in> set (out @ outs)
      \<longrightarrow> ep = eps ! k \<and> i = int k"
proof -
  from connect_execute_starts [OF assms(1), of timeout st0] assms(2)
  have st: "connecting eps k st" and out: "out = [Start_Connect (eps ! k) (int k)]" by auto
  from connect_events_target [OF assms(3) st] have "only_target eps k outs" by simp
  with out show ?thesis by (auto simp: only_target_def)
qed

lemma gives_up_run:
  assumes "connecting eps k s" and "tc_tried s + int j = int (length eps)"
  shows "\<exists>s'. connect_events True tls eps (replicate (Suc j) (Ev_Connected (Ec_Other c) (int k))) s
      = Some (concat (replicate j [Reset_Socket, Start_Connect (eps ! k) (int k)])
          @ [Report kBeeErrorCode_Connect_Fail (Ec_Other c)], s')
    \<and> connecting eps k s' \<and> tc_timer s' = tc_timer s \<and> tc_spent s' = tc_spent s
    \<and> tc_total_timeout s' = tc_total_timeout s"
  using assms
proof (induction j arbitrary: s)
  case 0
  then have "connect_events True tls eps (replicate (Suc 0) (Ev_Connected (Ec_Other c) (int k))) s
      = Some ([Report kBeeErrorCode_Connect_Fail (Ec_Other c)], s)"
    by (simp add: connect_event_step_def handle_connect_def connecting_def)
  with 0 show ?case by (auto simp del: connect_events.simps)
next
  case (Suc j)
  let ?s = "s\<lparr>tc_endpoint_spent := 0, tc_tried := tc_tried s + 1\<rparr>"
  have "handle_connect True tls eps (Ec_Other c) (int k) s
      = Some ([Reset_Socket, Start_Connect (eps ! k) (int k)], ?s)"
    using Suc.prems target_connecting [OF Suc.prems(1)] by (simp add: handle_connect_def connecting_def)
  moreover have "connecting eps k ?s" "tc_tried ?s + int j = int (length eps)"
    using Suc.prems by simp_all
  with Suc.IH [of ?s] obtain s' where
    s': "connect_events True tls eps (replicate (Suc j) (Ev_Connected (Ec_Other c) (int k))) ?s
      = Some (concat (replicate j [Reset_Socket, Start_Connect (eps ! k) (int k)])
          @ [Report kBeeErrorCode_Connect_Fail (Ec_Other c)], s')"
      "connecting eps k s'" "tc_timer s' = tc_timer s" "tc_spent s' = tc_spent s"
      "tc_total_timeout s' = tc_total_timeout s" by auto
  ultimately have "connect_events True tls eps
      (Ev_Connected (Ec_Other c) (int k) # replicate (Suc j) (Ev_Connected (Ec_Other c) (int k))) s
    = Some ([Reset_Socket, Start_Connect (eps ! k) (int k)]
        @ concat (replicate j [Reset_Socket, Start_Connect (eps ! k) (int k)])
        @ [Report kBeeErrorCode_Connect_Fail (Ec_Other c)], s')"
    by (simp add: connect_event_step_def del: replicate_Suc)
  with s' show ?case by (auto simp del: connect_events.simps)
qed

text \<open>
  With \<open>n\<close> endpoints, \<open>n\<close> failed connections in a row (none of them a time-out of the state) are
  answered by \<open>n - 1\<close> new attempts, each on a new socket, and then by one report of the failure.
\<close>

theorem connect_gives_up:
  assumes "k < length eps"
    and "connect_execute True True eps (int k) timeout TcpConnectState_new = Some (ret, out, st)"
  shows "\<exists>st'. connect_events True tls eps (replicate (length eps) (Ev_Connected (Ec_Other c) (int k))) st
    = Some (concat (replicate (length eps - 1) [Reset_Socket, Start_Connect (eps ! k) (int k)])
        @ [Report kBeeErrorCode_Connect_Fail (Ec_Other c)], st')"
proof -
  from connect_execute_starts [OF assms(1), of timeout TcpConnectState_new] assms(2)
  have st: "connecting eps k st" "tc_tried st = 1" by (auto simp: TcpConnectState_new_def)
  obtain j where j: "length eps = Suc j" using assms(1) by (cases "length eps") auto
  with gives_up_run [OF st(1), of j tls c] st(2) show ?thesis
    unfolding j by (auto simp del: connect_events.simps)
qed

text \<open>The periods of a state nothing else happens to.\<close>

definition no_report :: "'ep connect_effect list \<Rightarrow> bool" where
  "no_report out \<longleftrightarrow> (\<forall>ec1 ec2. Report ec1 ec2 \<notin> set out)"

lemma quiet_period:
  assumes "connecting eps k st" and "tc_spent st + kTcpCheckConnectPeriod < tc_total_timeout st"
  shows "\<exists>out st'. handle_period_timeout True tls eps st = Some (out, st') \<and> no_report out
    \<and> connecting eps k st' \<and> tc_timer st' = tc_timer st \<and> tc_total_timeout st' = tc_total_timeout st
    \<and> tc_spent st' = tc_spent st + kTcpCheckConnectPeriod"
proof -
  let ?st1 = "st\<lparr>tc_spent := tc_spent st + kTcpCheckConnectPeriod,
            tc_endpoint_spent := tc_endpoint_spent st + kTcpCheckConnectPeriod\<rparr>"
  have "connecting eps k ?st1" using assms(1) by simp
  from target_connecting [OF this] assms show ?thesis
    by (auto simp: handle_period_timeout_def handle_connect_def no_report_def Let_def connecting_def)
qed

lemma quiet_periods:
  assumes "connecting eps k st" and "tc_spent st + kTcpCheckConnectPeriod * int j < tc_total_timeout st"
  shows "\<exists>out st'. connect_events True tls eps (replicate j Ev_Period) st = Some (out, st') \<and> no_report out
    \<and> connecting eps k st' \<and> tc_timer st' = tc_timer st \<and> tc_total_timeout st' = tc_total_timeout st
    \<and> tc_spent st' = tc_spent st + kTcpCheckConnectPeriod * int j"
  using assms
proof (induction j arbitrary: st)
  case 0
  then show ?case by (simp add: no_report_def)
next
  case (Suc j)
  have "0 \<le> kTcpCheckConnectPeriod * int j" by (simp add: kTcpCheckConnectPeriod_def)
  with Suc.prems have "tc_spent st + kTcpCheckConnectPeriod < tc_total_timeout st"
    by (simp add: algebra_simps)
  from quiet_period [OF Suc.prems(1) this, of tls] obtain out st1 where
    s1: "handle_period_timeout True tls eps st = Some (out, st1)" "no_report out" "connecting eps k st1"
      "tc_timer st1 = tc_timer st" "tc_total_timeout st1 = tc_total_timeout st"
      "tc_spent st1 = tc_spent st + kTcpCheckConnectPeriod" by blast
  with Suc.IH [of st1] Suc.prems(2) obtain outs st' where
    "connect_events True tls eps (replicate j Ev_Period) st1 = Some (outs, st')" "no_report outs"
      "connecting eps k st'" "tc_timer st' = tc_timer st" "tc_total_timeout st' = tc_total_timeout st"
      "tc_spent st' = tc_spent st + kTcpCheckConnectPeriod + kTcpCheckConnectPeriod * int j"
    by (auto simp: algebra_simps)
  with s1 show ?case
    by (auto simp: connect_event_step_def no_report_def algebra_simps)
qed

lemma connect_events_append:
  "connect_events fsm tls eps (as @ bs) st =
     (case connect_events fsm tls eps as st of None \<Rightarrow> None
      | Some (o1, st1) \<Rightarrow>
          (case connect_events fsm tls eps bs st1 of None \<Rightarrow> None
           | Some (o2, st2) \<Rightarrow> Some (o1 @ o2, st2)))"
  by (induction as arbitrary: st) (auto split: option.splits prod.splits)

lemma periods_time_out:
  assumes "connecting eps k st" and "tc_timer st \<noteq> None"
    and "tc_spent st + kTcpCheckConnectPeriod * int n < tc_total_timeout st"
    and "tc_total_timeout st \<le> tc_spent st + kTcpCheckConnectPeriod * int (Suc n)"
  shows "\<exists>outs st'. connect_events True tls eps (replicate (Suc n) Ev_Period) st
      = Some (outs @ [Report kBeeErrorCode_Timeout Ec_Ok], st') \<and> no_report outs \<and> tc_timer st' = None"
proof -
  from quiet_periods [OF assms(1,3), of tls] obtain outs st1 where
    s1: "connect_events True tls eps (replicate n Ev_Period) st = Some (outs, st1)" "no_report outs"
      "tc_timer st1 = tc_timer st" "tc_total_timeout st1 = tc_total_timeout st"
      "tc_spent st1 = tc_spent st + kTcpCheckConnectPeriod * int n" by blast
  have "tc_total_timeout st1 \<le> tc_spent st1 + kTcpCheckConnectPeriod"
    using assms(4) s1(4,5) by (simp add: algebra_simps)
  with s1(3) assms(2) have "\<exists>st'. connect_events True tls eps [Ev_Period] st1
      = Some ([Report kBeeErrorCode_Timeout Ec_Ok], st') \<and> tc_timer st' = None"
    by (simp add: connect_event_step_def handle_period_timeout_def Let_def drop_timer_def)
  moreover have "replicate (Suc n) Ev_Period = replicate n Ev_Period @ [Ev_Period]"
    by (simp add: replicate_append_same)
  ultimately show ?thesis using s1(1,2) by (auto simp: connect_events_append simp del: connect_events.simps)
qed

text \<open>
  A connection that gets no answer is reported as a time-out, once, at the first period of the
  check timer at or after the total timeout, that is at most 200 milliseconds late; before that only
  retries happen, and with the report the timer is dropped.
\<close>

theorem connect_times_out:
  assumes "k < length eps"
    and "connect_execute True True eps (int k) timeout TcpConnectState_new = Some (ret, out, st)"
    and "kTcpCheckConnectPeriod * int n < timeout" and "timeout \<le> kTcpCheckConnectPeriod * int (Suc n)"
  shows "\<exists>outs st'. connect_events True tls eps (replicate (Suc n) Ev_Period) st
      = Some (outs @ [Report kBeeErrorCode_Timeout Ec_Ok], st') \<and> no_report outs \<and> tc_timer st' = None"
proof -
  from connect_execute_starts [OF assms(1), of timeout TcpConnectState_new] assms(2)
  have "connecting eps k st" "tc_timer st \<noteq> None" "tc_spent st = 0" "tc_total_timeout st = timeout"
    by (auto simp: TcpConnectState_new_def)
  with periods_time_out [of eps k st n tls] assms(3,4) show ?thesis by simp
qed

text \<open>
  A failed connection is reported twice. The report of the failure leaves the check timer running,
  and when the total timeout has passed the state reports again, now a time-out.
\<close>

theorem connect_reports_twice:
  assumes "k < length eps"
    and "connect_execute True True eps (int k) timeout TcpConnectState_new = Some (ret, out, st)"
    and "kTcpCheckConnectPeriod * int n < timeout" and "timeout \<le> kTcpCheckConnectPeriod * int (Suc n)"
  shows "\<exists>outs1 outs2 st'. connect_events True tls eps
      (replicate (length eps) (Ev_Connected (Ec_Other c) (int k)) @ replicate (Suc n) Ev_Period) st
    = Some (outs1 @ [Report kBeeErrorCode_Connect_Fail (Ec_Other c)]
        @ outs2 @ [Report kBeeErrorCode_Timeout Ec_Ok], st')"
proof -
  from connect_execute_starts [OF assms(1), of timeout TcpConnectState_new] assms(2)
  have st: "connecting eps k st" "tc_timer st \<noteq> None" "tc_spent st = 0" "tc_total_timeout st = timeout"
    "tc_tried st = 1" by (auto simp: TcpConnectState_new_def)
  obtain j where j: "length eps = Suc j" using assms(1) by (cases "length eps") auto
  with gives_up_run [OF st(1), of j tls c] st(5) obtain o1 s where
    g: "connect_events True tls eps (replicate (length eps) (Ev_Connected (Ec_Other c) (int k))) st
      = Some (o1 @ [Report kBeeErrorCode_Connect_Fail (Ec_Other c)], s)"
      "connecting eps k s" "tc_timer s = tc_timer st" "tc_spent s = tc_spent st"
      "tc_total_timeout s = tc_total_timeout st" by (auto simp: j simp del: connect_events.simps)
  with periods_time_out [of eps k s n tls] st assms(3,4) obtain o2 st' where
    "connect_events True tls eps (replicate (Suc n) Ev_Period) s
      = Some (o2 @ [Report kBeeErrorCode_Timeout Ec_Ok], st')" by auto
  with g(1) show ?thesis by (auto simp: connect_events_append simp del: connect_events.simps replicate_Suc)
qed

text \<open>A demonstration: two endpoints, starting at the second.\<close>

definition demo_connect :: "BeeErrorCode \<times> nat connect_effect list \<times> tcp_connect" where
  "demo_connect = the (connect_execute True True [10, 20] 1 1000 TcpConnectState_new)"

lemma demo_connect_ok:
  "connect_execute True True [10, 20] (int 1) 1000 TcpConnectState_new
    = Some (fst demo_connect, fst (snd demo_connect), snd (snd demo_connect))"
  using connect_execute_starts [of 1 "[10, 20 :: nat]" 1000 TcpConnectState_new]
  by (auto simp: demo_connect_def)

lemma demo_connecting:
  "connecting [10, 20 :: nat] 1 (snd (snd demo_connect))" "tc_tried (snd (snd demo_connect)) = 1"
proof -
  from connect_execute_starts [of 1 "[10, 20 :: nat]" 1000 TcpConnectState_new] obtain st where
    st: "connect_execute True True [10, 20 :: nat] (int 1) 1000 TcpConnectState_new
      = Some (kBeeErrorCode_Success, [Start_Connect 20 1], st)"
      "connecting [10, 20 :: nat] 1 st" "tc_tried st = tc_tried TcpConnectState_new + 1" by auto
  then have "snd (snd demo_connect) = st" by (simp add: demo_connect_def)
  with st(2,3) show "connecting [10, 20 :: nat] 1 (snd (snd demo_connect))"
    "tc_tried (snd (snd demo_connect)) = 1" by (simp_all add: TcpConnectState_new_def)
qed

theorem connect_gives_up_witness:
  "\<exists>st'. connect_events True False [10, 20 :: nat] [Ev_Connected (Ec_Other 111) 1, Ev_Connected (Ec_Other 111) 1]
      (snd (snd demo_connect))
    = Some ([Reset_Socket, Start_Connect 20 1, Report kBeeErrorCode_Connect_Fail (Ec_Other 111)], st')"
  using connect_gives_up [OF _ demo_connect_ok, of False 111]
  by (simp add: numeral_2_eq_2 del: connect_events.simps)

theorem connect_never_rotates_witness:
  "\<exists>outs st'. connect_events True False [10, 20 :: nat] [Ev_Connected (Ec_Other 111) 1, Ev_Connected (Ec_Other 111) 1]
      (snd (snd demo_connect)) = Some (outs, st') \<and> Start_Connect 10 0 \<notin> set outs"
proof -
  obtain outs st' where r: "connect_events True False [10, 20 :: nat]
      [Ev_Connected (Ec_Other 111) 1, Ev_Connected (Ec_Other 111) 1] (snd (snd demo_connect)) = Some (outs, st')"
    using gives_up_run [OF demo_connecting(1), of 1 False 111] demo_connecting(2)
    by (auto simp: numeral_2_eq_2 simp del: connect_events.simps)
  have "1 < length [10, 20 :: nat]" by simp
  from connect_never_rotates [OF this demo_connect_ok r, rule_format, of 10 0]
  have "Start_Connect 10 0 \<notin> set outs" by auto
  with r show ?thesis by blast
qed

theorem connect_times_out_witness:
  "\<exists>outs st'. connect_events True False [10, 20 :: nat] (replicate 5 Ev_Period) (snd (snd demo_connect))
    = Some (outs @ [Report kBeeErrorCode_Timeout Ec_Ok], st') \<and> no_report outs"
proof -
  have "kTcpCheckConnectPeriod * int 4 < 1000" "1000 \<le> kTcpCheckConnectPeriod * int (Suc 4)"
    by (simp_all add: kTcpCheckConnectPeriod_def)
  from connect_times_out [OF _ demo_connect_ok this, of False] show ?thesis
    by (auto simp del: connect_events.simps replicate_Suc)
qed

theorem connect_reports_twice_witness:
  "\<exists>outs st'. connect_events True False [10, 20 :: nat]
      (replicate 2 (Ev_Connected (Ec_Other 111) 1) @ replicate 5 Ev_Period) (snd (snd demo_connect))
    = Some (outs, st') \<and> Report kBeeErrorCode_Connect_Fail (Ec_Other 111) \<in> set outs
    \<and> Report kBeeErrorCode_Timeout Ec_Ok \<in> set outs"
proof -
  have "kTcpCheckConnectPeriod * int 4 < 1000" "1000 \<le> kTcpCheckConnectPeriod * int (Suc 4)"
    by (simp_all add: kTcpCheckConnectPeriod_def)
  from connect_reports_twice [OF _ demo_connect_ok this, of False 111] show ?thesis
    by (auto simp: numeral_2_eq_2 simp del: connect_events.simps replicate_Suc)
qed

section \<open>Facts about receiving\<close>

text \<open>The bytes of a length field, most significant first.\<close>

fun be_bytes :: "nat \<Rightarrow> nat \<Rightarrow> string" where
  "be_bytes 0 v = []"
| "be_bytes (Suc n) v = be_bytes n (v div 256) @ [char_of (v mod 256)]"

lemma length_be_bytes [simp]: "length (be_bytes n v) = n"
  by (induction n arbitrary: v) simp_all

lemma be_value_bytes: "v < 256 ^ n \<Longrightarrow> be_value (be_bytes n v) = v"
proof (induction n arbitrary: v)
  case 0
  then show ?case by (simp add: be_value_def)
next
  case (Suc n)
  have "v div 256 < 256 ^ n" using Suc.prems by (simp add: less_mult_imp_div_less mult.commute)
  with Suc.IH have "be_value (be_bytes n (v div 256)) = v div 256" .
  then show ?case by (simp add: be_value_def of_char_of)
qed

lemma store_at_ok:
  "cs \<noteq> [] \<Longrightarrow> i + length src \<le> length cs
    \<Longrightarrow> store_at cs i src = Some (take i cs @ src @ drop (i + length src) cs)"
  by (simp add: store_at_def)

text \<open>A receiver at rest: nothing received yet, the buffer's window at its start.\<close>

definition rcv_ready :: "tcp_members \<Rightarrow> bool" where
  "rcv_ready t \<longleftrightarrow> connected t \<and> rcv_streambuf t = [] \<and> begin_offset (criobuff t) = 0
     \<and> length (cells (criobuff t)) = buffer_capacity (criobuff t)"

lemma load_be_prefix:
  assumes "begin_offset b = 0" and "take k (cells b) = map Some msg" and "off + n \<le> k" and "length msg = k"
  shows "load_be off n b = Some (be_value (take n (drop off msg)))"
proof -
  have "take n (drop off (cells b)) = take n (drop off (take k (cells b)))"
    using assms(3) by (simp add: take_drop min_def)
  also have "\<dots> = map Some (take n (drop off msg))" using assms(2) by (simp add: take_map drop_map)
  finally have c: "take n (drop off (cells b)) = map Some (take n (drop off msg))" .
  then show ?thesis using assms(1,3,4) by (auto simp: load_be_def comp_def)
qed

text \<open>
  A message with a length field arrives as it was sent. For a field of 1, 2 or 4 bytes at any
  offset, holding the message's whole length most significant byte first, the state asks for exactly
  the bytes up to the field, then for exactly the rest, growing its buffer if the message needs it, and
  reports a buffer that starts with the message; nothing of it is left in the stream. A field that
  names less than what has been read already is not refused: the state asks for a huge number of bytes
  (the difference modulo \<open>2 ^ 64\<close>).
\<close>

theorem tlv_receives_message:
  assumes "rcv_ready t" and "w \<in> {1, 2, 4}" and "k = off + w" and "k \<le> length msg"
    and "k \<le> buffer_capacity (criobuff t)" and "k < size_mod" and "length msg < size_mod"
    and "take w (drop off msg) = be_bytes w v" and "v < 256 ^ w"
  shows "\<exists>st t1. tlv_execute True True off w (st0, t) = (kBeeErrorCode_Success, Some k, st, t)
    \<and> tlv_handle_read_length True Ec_Ok k off w (st, t\<lparr>rcv_streambuf := take k msg\<rparr>)
        = Some (Tlv_Read (size_sub v k), st\<lparr>total_len := v\<rparr>, t1)
    \<and> (v = length msg \<longrightarrow>
         (\<exists>buf t2. tlv_handle_read_data True Ec_Ok (length msg - k)
             (st\<lparr>total_len := v\<rparr>, t1\<lparr>rcv_streambuf := rcv_streambuf t1 @ drop k msg\<rparr>)
           = Some (Tlv_Report kBeeErrorCode_Success Ec_Ok, Some buf, st\<lparr>total_len := v\<rparr>, t2)
         \<and> take (length msg) buf = map Some msg \<and> rcv_streambuf t2 = []))"
proof -
  let ?st = "st0\<lparr>first_read_len := k\<rparr>" and ?crio = "criobuff t"
  have k0: "0 < k" using assms(2,3) by auto
  have ex: "tlv_execute True True off w (st0, t) = (kBeeErrorCode_Success, Some k, ?st, t)"
    using assms(1,2,3,6) by (simp add: tlv_execute_def rcv_ready_def Let_def)
  let ?src = "map Some (take k msg)"
  have len: "length ?src = k" using assms(4) by simp
  define cs where "cs = ?src @ drop k (cells ?crio)"
  have crio: "begin_offset ?crio = 0" "length (cells ?crio) = buffer_capacity ?crio" "cells ?crio \<noteq> []"
    using assms(1,5) k0 by (auto simp: rcv_ready_def)
  have st1: "store_at (cells ?crio) 0 ?src = Some cs"
    using store_at_ok [OF crio(3), of 0 ?src] len crio(2) assms(5) by (simp add: cs_def)
  define ta where "ta = t\<lparr>criobuff := ?crio\<lparr>cells := cs\<rparr>, rcv_streambuf := []\<rparr>"
  have rd: "read_into 0 k (t\<lparr>rcv_streambuf := take k msg\<rparr>) = Some ta"
    using st1 crio(1) by (simp add: read_into_def ta_def)
  have csk: "take k cs = ?src" "length cs = buffer_capacity ?crio"
    using len crio(2) assms(5) by (simp_all add: cs_def)
  have "load_be off w (criobuff ta) = Some (be_value (take w (drop off (take k msg))))"
    using load_be_prefix [of "criobuff ta" k "take k msg" off w] csk crio(1) assms(3,4)
    by (simp add: ta_def)
  also have "take w (drop off (take k msg)) = be_bytes w v"
    using assms(3,8) by (simp add: drop_take)
  finally have ld: "load_be off w (criobuff ta) = Some v" using be_value_bytes [OF assms(9)] by simp
  define big where "big = ?src @ drop k (cells (IOBuffer_new v :: char iobuffer))"
  define t1 where "t1 = (if v > buffer_capacity ?crio
      then ta\<lparr>criobuff := (IOBuffer_new v)\<lparr>cells := big\<rparr>\<rparr> else ta)"
  have lr: "tlv_handle_read_length True Ec_Ok k off w (?st, t\<lparr>rcv_streambuf := take k msg\<rparr>)
        = Some (Tlv_Read (size_sub v k), ?st\<lparr>total_len := v\<rparr>, t1)"
  proof (cases "v > buffer_capacity ?crio")
    case True
    with assms(5) k0 have "store_at (cells (IOBuffer_new v :: char iobuffer)) 0 (take k cs) = Some big"
      using store_at_ok [of "cells (IOBuffer_new v :: char iobuffer)" 0 ?src] csk(1) len
      by (simp add: big_def IOBuffer_new_def)
    moreover have "drop (begin_offset (criobuff ta)) (cells (criobuff ta)) = cs" by (simp add: ta_def crio(1))
    moreover have "iob_capacity (criobuff ta) = buffer_capacity ?crio" by (simp add: ta_def iob_capacity_def)
    ultimately show ?thesis
      using rd ld True assms(2) by (auto simp: tlv_handle_read_length_def Let_def t1_def)
  next
    case False
    moreover have "iob_capacity (criobuff ta) = buffer_capacity ?crio" by (simp add: ta_def iob_capacity_def)
    ultimately show ?thesis
      using rd ld assms(2) by (auto simp: tlv_handle_read_length_def Let_def t1_def)
  qed
  have last: "\<exists>buf t2. tlv_handle_read_data True Ec_Ok (length msg - k)
             (?st\<lparr>total_len := v\<rparr>, t1\<lparr>rcv_streambuf := rcv_streambuf t1 @ drop k msg\<rparr>)
           = Some (Tlv_Report kBeeErrorCode_Success Ec_Ok, Some buf, ?st\<lparr>total_len := v\<rparr>, t2)
         \<and> take (length msg) buf = map Some msg \<and> rcv_streambuf t2 = []"
    if v: "v = length msg"
  proof -
    let ?cells = "cells (criobuff t1)" and ?rest = "map Some (drop k msg)"
    have c1: "take k ?cells = ?src" "length msg \<le> length ?cells" "begin_offset (criobuff t1) = 0"
      "rcv_streambuf t1 = []"
      using csk len v crio(1) assms(4) by (auto simp: t1_def ta_def big_def IOBuffer_new_def)
    then have "?cells \<noteq> []" using k0 assms(4) by auto
    from store_at_ok [OF this, of k ?rest] c1(2) assms(4)
    have st2: "store_at ?cells k ?rest = Some (take k ?cells @ ?rest @ drop (length msg) ?cells)" by simp
    have "take k ?cells @ ?rest = map Some msg"
      using c1(1) by (simp flip: map_append)
    moreover have "drop k msg = take (length msg - k) (drop k msg)" by simp
    ultimately show ?thesis
      using st2 c1 v assms(4,7) by (simp add: tlv_handle_read_data_def read_into_def)
  qed
  from ex lr last show ?thesis by blast
qed

theorem tlv_receives_message_witness:
  "\<exists>st t1. tlv_handle_read_length True Ec_Ok 2 0 2 (st, demo_tcp\<lparr>rcv_streambuf := ''\<newline>\<newline>''\<rparr>)
      = Some (Tlv_Read 2568, st\<lparr>total_len := 2570\<rparr>, t1)"
proof -
  have "rcv_ready demo_tcp" "2 \<le> buffer_capacity (criobuff demo_tcp)"
    by (simp_all add: rcv_ready_def demo_tcp_def TcpStateMachine_new_def IOBuffer_new_def kDefaultReadBuffLen_def)
  moreover have "be_bytes 2 2570 = ''\<newline>\<newline>''" by code_simp
  ultimately show ?thesis
    using tlv_receives_message [of demo_tcp 2 2 0 "''\<newline>\<newline>''" 2570 TcpReceiveTlvState_new]
    by (auto simp: size_mod_def size_sub_def)
qed

text \<open>A field smaller than what precedes the rest makes the number of bytes asked for wrap.\<close>

lemma tlv_short_length_wraps:
  "v < k \<Longrightarrow> k < size_mod \<Longrightarrow> size_sub v k = size_mod - (k - v)"
  by (simp add: size_sub_wrap)

section \<open>Resolving twice\<close>

text \<open>
  What a look-up reports. The state's output event collects the endpoints of all its look-ups: they
  are appended to those an earlier run of the same state (before a redirection) left there, so the
  first endpoint a connection then tries is still one of the first host; an empty answer is reported
  as a failed look-up.
\<close>

theorem resolve_accumulates:
  assumes "st_output (fsm_heap m p) = Some ev" and "ev_extra ev = Resolve_Output old"
  shows "handle_resolve ec2 found p m
    = state_done_ec (if found = [] then kBeeErrorCode_Resolve_Fail else kBeeErrorCode_Success) ec2 p
        (set_output_event p (ev\<lparr>ev_extra := Resolve_Output (old @ found),
           ev_ec1 := (if found = [] then kBeeErrorCode_Resolve_Fail else kBeeErrorCode_Success),
           ev_ec2 := ec2, ev_setup := True\<rparr>) m)
    \<and> (old \<noteq> [] \<longrightarrow> (\<exists>st. connect_execute True True (old @ found) 0 timeout TcpConnectState_new
         = Some (kBeeErrorCode_Success, [Start_Connect (hd old) 0], st)))"
proof -
  have "\<exists>st. connect_execute True True (old @ found) 0 timeout TcpConnectState_new
         = Some (kBeeErrorCode_Success, [Start_Connect (hd old) 0], st)" if "old \<noteq> []"
  proof -
    from that have "0 < length (old @ found)" "(old @ found) ! 0 = hd old"
      by (simp_all add: hd_conv_nth nth_append)
    with connect_execute_starts [of 0 "old @ found" timeout TcpConnectState_new] show ?thesis by auto
  qed
  with assms show ?thesis by (simp add: handle_resolve_def)
qed

theorem resolve_accumulates_witness:
  "\<exists>ret m'. handle_resolve Ec_Ok [(2 :: nat, 80)] 0
      (set_output_event 0 (StateEvent_new (Resolve_Output [(1, 80)])) (AsyncStateMachine_new True demo_tcp))
    = Some (ret, m') \<and> map_option ev_extra (st_output (fsm_heap m' 0)) = Some (Resolve_Output [(1, 80), (2, 80)])"
proof -
  let ?m = "set_output_event 0 (StateEvent_new (Resolve_Output [(1 :: nat, 80)])) (AsyncStateMachine_new True demo_tcp)"
  have "st_output (fsm_heap ?m 0) = Some (StateEvent_new (Resolve_Output [(1, 80)]))"
    "ev_extra (StateEvent_new (Resolve_Output [(1 :: nat, 80 :: u16)])) = Resolve_Output [(1, 80)]"
    by (simp_all add: StateEvent_new_def)
  note h = resolve_accumulates [OF this, of Ec_Ok "[(2, 80)]"]
  show ?thesis
    unfolding h [THEN conjunct1]
    by (simp add: state_done_ec_def state_done_def switch_to_next_def switch_to_next_core_def
        state_output_def fsm_output_def set_output_event_def AsyncStateMachine_new_def State_new_def
        StateEvent_new_def)
qed

end
