(* ===== verification/Bee_Http_Body.thy ===== *)
theory Bee_Http_Body
  imports Bee_Tcp_Machine Bee_Http_Message
begin

text \<open>
  The states that send an HTTP request and receive the answer (src/network/http_state_machine.cpp):
  \<open>HttpRequestState\<close>, \<open>HttpRcvHeaderState\<close> and \<open>HttpRcvBodyState\<close>, the last with content of a given
  length and with chunked content.

  \<open>rcv_streambuf_\<close> is the text received and not yet taken. A handler answers what it starts (a read
  up to a delimiter, a read of at least so many bytes more, a post to the event loop), what it hands
  to \<open>output\<close> on the way, and what it reports with \<open>done\<close>. An \<open>IOBuffer\<close> that is filled completely
  by the read that follows its allocation is its content.

  The theorem on chunked content holds for every way the network cuts the stream.
\<close>

section \<open>Sending the request\<close>

text \<open>\<open>execute\<close> stores the serialised request in its body and writes it.\<close>

definition request_execute ::
    "bool \<Rightarrow> bool \<Rightarrow> HttpRequest option \<Rightarrow> tcp_members
      \<Rightarrow> (BeeErrorCode \<times> char option list option \<times> HttpRequest option \<times> tcp_members) option" where
  "request_execute ok_event fsm req t =
     (if \<not> ok_event then Some (kBeeErrorCode_Invalid_Param, None, req, t)
      else if \<not> fsm then Some (kBeeErrorCode_Error_State_Machine, None, req, t)
      else if \<not> connected t then Some (kBeeErrorCode_Not_Connected, None, req, t)
      else case req of
          None \<Rightarrow> Some (kBeeErrorCode_Invalid_Param, None, req, t)
        | Some r \<Rightarrow>
            (let r1 = r\<lparr>rq_body := rq_serialize r\<rparr>
             in case async_write (IOBuffer_of_string (rq_body r1)) t of
                  None \<Rightarrow> None
                | Some (started, t') \<Rightarrow> Some (kBeeErrorCode_Success, started, Some r1, t')))"

text \<open>\<open>handle_write\<close>: the codes for \<open>done\<close> and, on success, the bytes sent for the output event.\<close>

definition request_handle_write :: "error_code \<Rightarrow> nat \<Rightarrow> BeeErrorCode \<times> error_code \<times> nat option" where
  "request_handle_write ec2 trans_bytes =
     (if ec_set ec2 then (kBeeErrorCode_Write_Fail, ec2, None)
      else (kBeeErrorCode_Success, ec2, Some trans_bytes))"

section \<open>Receiving the header\<close>

definition newline_char :: char where
  "newline_char = CHR 0x0A"

text \<open>The loop over \<open>std::getline\<close>: the lines taken, up to the one that is a lone CR, and the rest.\<close>

function header_text :: "string \<Rightarrow> string \<times> string" where
  "header_text s =
     (if s = [] then ([], [])
      else
        (let l = takeWhile (\<lambda>c. c \<noteq> newline_char) s; r = drop (length l + 1) s
         in if l = [CHR 0x0D] then (l @ [newline_char], r)
            else (let (h, r') = header_text r in (l @ [newline_char] @ h, r'))))"
  by pat_completeness auto
termination
  by (relation "measure length") (auto simp: neq_Nil_conv)

declare header_text.simps [simp del]

definition header_execute :: "bool \<Rightarrow> bool \<Rightarrow> tcp_members \<Rightarrow> BeeErrorCode \<times> string option" where
  "header_execute ok_event fsm t =
     (if \<not> ok_event then (kBeeErrorCode_Invalid_Param, None)
      else if \<not> fsm then (kBeeErrorCode_Error_State_Machine, None)
      else if \<not> connected t then (kBeeErrorCode_Not_Connected, None)
      else (kBeeErrorCode_Success, Some (crlf @ crlf)))"

text \<open>The response replaces the machine's one only when it is valid.\<close>

definition handle_read_header ::
    "bool \<Rightarrow> error_code \<Rightarrow> HttpResponse option \<Rightarrow> tcp_members
      \<Rightarrow> (BeeErrorCode \<times> bool \<times> HttpResponse option \<times> tcp_members) option" where
  "handle_read_header fsm ec2 resp t =
     (if ec_set ec2 then Some (kBeeErrorCode_Read_Http_Header_Fail, False, resp, t)
      else if \<not> fsm then Some (kBeeErrorCode_Error_State_Machine, False, resp, t)
      else
        (let (str, rest) = header_text (rcv_streambuf t); t1 = t\<lparr>rcv_streambuf := rest\<rparr>
         in case HttpResponse_of_string str of
              None \<Rightarrow> None
            | Some response \<Rightarrow>
                if \<not> rs_is_valid response then Some (kBeeErrorCode_Error_Data, False, resp, t1)
                else Some (kBeeErrorCode_Success, True, Some response, t1)))"

section \<open>Receiving the body\<close>

definition kMaxContentLength :: int where
  "kMaxContentLength = 20 * 1024 * 1024"

record http_body =
  content_length :: int
  content_offset :: int
  file_offset :: int
  is_chunk :: bool
  last_chunk_size :: nat
  content_buff :: string
  out_data :: string
  out_setup :: bool

definition HttpRcvBodyState_new :: http_body where
  "HttpRcvBodyState_new = \<lparr>content_length = 0, content_offset = 0, file_offset = 0, is_chunk = False,
     last_chunk_size = 0, content_buff = [], out_data = [], out_setup = False\<rparr>"

text \<open>What a handler starts, hands out and reports.\<close>

datatype body_effect =
    Read_Until string
  | Read_Content nat nat        \<comment> \<open>at least the first number of bytes; the second is bound to the handler\<close>
  | Read_Chunk nat              \<comment> \<open>at least so many bytes\<close>
  | Post_Chunk nat              \<comment> \<open>\<open>handle_read_chunk_body\<close> posted to the event loop\<close>
  | Output_Data string
  | Body_Report BeeErrorCode error_code

type_synonym body_result = "BeeErrorCode \<times> body_effect list \<times> http_body \<times> tcp_members"

text \<open>The checks every operation starts with.\<close>

definition body_ready :: "bool \<Rightarrow> tcp_members \<Rightarrow> BeeErrorCode" where
  "body_ready fsm t =
     (if \<not> fsm then kBeeErrorCode_Error_State_Machine
      else if \<not> connected t then kBeeErrorCode_Not_Connected else kBeeErrorCode_Success)"

text \<open>
  \<open>read_content\<close>: \<open>content_offset_ + len > content_length_\<close> is a comparison of unsigned numbers, on
  which both are non-negative here. \<open>done()\<close> keeps the codes the output event has.
\<close>

definition done_effect :: "BeeErrorCode \<times> error_code \<Rightarrow> body_effect" where
  "done_effect codes = Body_Report (fst codes) (snd codes)"

definition read_content ::
    "bool \<Rightarrow> BeeErrorCode \<times> error_code \<Rightarrow> nat \<Rightarrow> http_body \<times> tcp_members \<Rightarrow> body_result" where
  "read_content fsm codes len bt =
     (case bt of (b, t) \<Rightarrow>
       if body_ready fsm t \<noteq> kBeeErrorCode_Success then (body_ready fsm t, [], b, t)
       else if content_offset b \<ge> content_length b then (kBeeErrorCode_Eof, [], b, t)
       else
         (let n = (if content_offset b + int len > content_length b
                   then nat (content_length b - content_offset b) else len);
              avail = length (rcv_streambuf t)
          in if n \<le> avail then
               (kBeeErrorCode_Success, [done_effect codes],
                b\<lparr>out_data := take n (rcv_streambuf t), content_offset := content_offset b + int n,
                  file_offset := file_offset b + int n, out_setup := True\<rparr>,
                t\<lparr>rcv_streambuf := drop n (rcv_streambuf t)\<rparr>)
             else (kBeeErrorCode_Success, [Read_Content (n - avail) n], b, t)))"

definition read_chunk_size ::
    "bool \<Rightarrow> http_body \<times> tcp_members \<Rightarrow> body_result" where
  "read_chunk_size fsm bt =
     (case bt of (b, t) \<Rightarrow>
       if body_ready fsm t \<noteq> kBeeErrorCode_Success then (body_ready fsm t, [], b, t)
       else (kBeeErrorCode_Success, [Read_Until crlf], b, t))"

definition read_chunk :: "bool \<Rightarrow> http_body \<times> tcp_members \<Rightarrow> body_result" where
  "read_chunk fsm bt = read_chunk_size fsm bt"

text \<open>\<open>last_chunk_size_ + 2\<close> is a \<open>uint32_t\<close>; the length to read is a \<open>size_t\<close>.\<close>

definition chunk_end :: "http_body \<Rightarrow> nat" where
  "chunk_end b = (last_chunk_size b + 2) mod 2 ^ 32"

definition read_chunk_body :: "bool \<Rightarrow> http_body \<times> tcp_members \<Rightarrow> body_result" where
  "read_chunk_body fsm bt =
     (case bt of (b, t) \<Rightarrow>
       if body_ready fsm t \<noteq> kBeeErrorCode_Success then (body_ready fsm t, [], b, t)
       else
         (let avail = length (rcv_streambuf t)
          in if avail \<ge> chunk_end b then (kBeeErrorCode_Success, [Post_Chunk avail], b, t)
             else (kBeeErrorCode_Success,
               [Read_Chunk ((size_sub (last_chunk_size b) avail + 2) mod size_mod)], b, t)))"

definition report_cache_content ::
    "BeeErrorCode \<Rightarrow> error_code \<Rightarrow> http_body \<Rightarrow> body_effect list \<times> http_body" where
  "report_cache_content ec1 ec2 b =
     ([Body_Report ec1 ec2],
      if content_buff b \<noteq> [] then b\<lparr>out_data := content_buff b, out_setup := True\<rparr> else b)"

text \<open>\<open>if (ec1 != Success && ec1 != Eof) done(ec1, ec2)\<close>, which ends the handlers.\<close>

definition finish :: "BeeErrorCode \<Rightarrow> error_code \<Rightarrow> body_effect list" where
  "finish ec1 ec2 =
     (if ec1 \<noteq> kBeeErrorCode_Success \<and> ec1 \<noteq> kBeeErrorCode_Eof then [Body_Report ec1 ec2] else [])"

text \<open>
  \<open>execute\<close>, on the response received: \<open>None\<close> when \<open>get_range\<close> is undefined on it. \<open>codes\<close> are those
  of the output event.
\<close>

definition body_execute ::
    "bool \<Rightarrow> BeeErrorCode \<times> error_code \<Rightarrow> HttpResponse option \<Rightarrow> http_body \<times> tcp_members
      \<Rightarrow> body_result option" where
  "body_execute fsm codes resp bt =
     (case bt of (b, t) \<Rightarrow>
       if body_ready fsm t \<noteq> kBeeErrorCode_Success then Some (body_ready fsm t, [], b, t)
       else case resp of
           None \<Rightarrow> Some (kBeeErrorCode_Error_Data, [], b, t)
         | Some r \<Rightarrow>
           (case rs_get_range r (0, 0) of
              None \<Rightarrow> None
            | Some (range_beg, _) \<Rightarrow>
              (let len = rs_get_content_len r;
                   b1 = b\<lparr>file_offset := (if range_beg \<noteq> - 1 then range_beg else 0),
                     content_length := len, content_offset := 0,
                     is_chunk := (if len = - 1 then True else is_chunk b)\<rparr>
               in if rs_status_code r \<noteq> 200 \<and> rs_status_code r \<noteq> 206
                    then Some (kBeeErrorCode_Error_Http_Status, [], b1, t)
                  else if len > 0 \<and> len < kMaxContentLength
                    then Some (read_content fsm codes (nat len) (b1, t))
                  else if is_chunk b1 then Some (read_chunk fsm (b1, t))
                  else Some (kBeeErrorCode_Error_Data, [], b1, t))))"

text \<open>The part of a result a handler goes on with.\<close>

definition handle_read_content ::
    "bool \<Rightarrow> error_code \<Rightarrow> nat \<Rightarrow> http_body \<times> tcp_members \<Rightarrow> body_effect list \<times> http_body \<times> tcp_members" where
  "handle_read_content fsm ec2 need_len bt =
     (case bt of (b, t) \<Rightarrow>
       if body_ready fsm t \<noteq> kBeeErrorCode_Success then (finish (body_ready fsm t) ec2, b, t)
       else if ec_set ec2 \<and> ec2 \<noteq> Ec_Eof then (finish kBeeErrorCode_Read_Http_Content_Fail ec2, b, t)
       else
         (let len = min (length (rcv_streambuf t)) need_len;
              b1 = b\<lparr>content_buff := take len (rcv_streambuf t),
                content_offset := content_offset b + int len, file_offset := file_offset b + int len\<rparr>;
              t1 = t\<lparr>rcv_streambuf := drop len (rcv_streambuf t)\<rparr>;
              ec1 = (if ec2 = Ec_Eof \<or> content_offset b1 > content_length b1
                     then kBeeErrorCode_Eof else kBeeErrorCode_Success);
              (out, b2) = report_cache_content ec1 ec2 b1
          in (out, b2, t1)))"

section \<open>Reading a chunk's size\<close>

definition hex_value :: "char \<Rightarrow> nat option" where
  "hex_value c =
     (let n = of_char c :: nat
      in if 48 \<le> n \<and> n \<le> 57 then Some (n - 48)
         else if 65 \<le> n \<and> n \<le> 70 then Some (n - 55)
         else if 97 \<le> n \<and> n \<le> 102 then Some (n - 87) else None)"

definition hex_number :: "string \<Rightarrow> nat" where
  "hex_number ds = foldl (\<lambda>a c. a * 16 + (case hex_value c of None \<Rightarrow> 0 | Some d \<Rightarrow> d)) 0 ds"

text \<open>
  \<open>is >> std::hex >> n\<close> for an unsigned \<open>n\<close> of \<open>w\<close> bits: the value, whether the extraction succeeded, and
  what is left. Nothing but blanks leaves the old value; no digit gives 0; a value past the type's range
  gives its maximum.
\<close>

definition read_hex :: "nat \<Rightarrow> nat \<Rightarrow> string \<Rightarrow> nat \<times> bool \<times> string" where
  "read_hex w old s =
     (let s1 = dropWhile is_space s
      in if s1 = [] then (old, False, [])
         else
           (let neg = (hd s1 = CHR ''-'');
                s2 = (if neg \<or> hd s1 = CHR ''+'' then drop 1 s1 else s1);
                s3 = (if prefix ''0x'' s2 \<or> prefix ''0X'' s2 then drop 2 s2 else s2);
                ds = takeWhile (\<lambda>c. hex_value c \<noteq> None) s3;
                rest = dropWhile (\<lambda>c. hex_value c \<noteq> None) s3;
                v = hex_number ds
            in if ds = [] then (0, False, rest)
               else if v \<ge> 2 ^ w then (2 ^ w - 1, False, rest)
               else (if neg then (2 ^ w - v) mod 2 ^ w else v, True, rest)))"

text \<open>\<open>while (is.get(ch) && ch != '\n');\<close>: nothing is taken after a failed extraction.\<close>

definition skip_line :: "bool \<Rightarrow> string \<Rightarrow> string" where
  "skip_line good s = (if good then drop 1 (dropWhile (\<lambda>c. c \<noteq> newline_char) s) else s)"

definition handle_read_chunk_size ::
    "bool \<Rightarrow> error_code \<Rightarrow> http_body \<times> tcp_members \<Rightarrow> body_effect list \<times> http_body \<times> tcp_members" where
  "handle_read_chunk_size fsm ec2 bt =
     (case bt of (b, t) \<Rightarrow>
       if ec_set ec2 \<and> ec2 \<noteq> Ec_Eof then (finish kBeeErrorCode_Read_Http_Chunk_Size_Fail ec2, b, t)
       else if body_ready fsm t \<noteq> kBeeErrorCode_Success then (finish (body_ready fsm t) ec2, b, t)
       else if length (rcv_streambuf t) \<le> 2 then (finish kBeeErrorCode_Error_Data ec2, b, t)
       else
         (let (v, good, rest) = read_hex 32 (last_chunk_size b) (rcv_streambuf t);
              b1 = b\<lparr>last_chunk_size := v\<rparr>; t1 = t\<lparr>rcv_streambuf := skip_line good rest\<rparr>
          in if v > 0 then
               (let (ec1, out, b2, t2) = read_chunk_body fsm (b1, t1) in (out @ finish ec1 ec2, b2, t2))
             else
               (let (out, b2) = report_cache_content kBeeErrorCode_Success ec2 b1 in (out, b2, t1))))"

text \<open>
  \<open>wait_complete\<close> is the input event's: gather the chunks, or hand each out. (For a size from
  \<open>2 ^ 32 - 2\<close> on, where \<open>chunk_end\<close> wraps, the code takes as much as there is of a chunk that has not
  arrived; so does the model.)
\<close>

definition handle_read_chunk_body ::
    "bool \<Rightarrow> bool \<Rightarrow> error_code \<Rightarrow> http_body \<times> tcp_members \<Rightarrow> body_effect list \<times> http_body \<times> tcp_members" where
  "handle_read_chunk_body fsm wait_complete ec2 bt =
     (case bt of (b, t) \<Rightarrow>
       if ec_set ec2 \<and> ec2 \<noteq> Ec_Eof then (finish kBeeErrorCode_Read_Http_Chunk_Body_Fail ec2, b, t)
       else if body_ready fsm t \<noteq> kBeeErrorCode_Success then (finish (body_ready fsm t) ec2, b, t)
       else if length (rcv_streambuf t) \<ge> chunk_end b then
         (let n = last_chunk_size b;
              io_buf = take n (rcv_streambuf t);
              t1 = t\<lparr>rcv_streambuf := drop (n + 2) (rcv_streambuf t)\<rparr>;
              (out1, b1) =
                (if wait_complete then ([], b\<lparr>content_buff := content_buff b @ io_buf\<rparr>)
                 else ([Output_Data io_buf], b\<lparr>out_data := io_buf\<rparr>));
              b2 = b1\<lparr>content_offset := content_offset b1 + int n\<rparr>;
              (ec1, out2, b3, t2) = read_chunk fsm (b2, t1)
          in (out1 @ out2 @ finish ec1 ec2, b3, t2))
       else if ec2 = Ec_Eof then
         (let (out, b1) = report_cache_content kBeeErrorCode_Eof ec2 b in (out, b1, t))
       else
         (let (ec1, out, b1, t1) = read_chunk_body fsm (b, t) in (out @ finish ec1 ec2, b1, t1)))"

section \<open>Facts about reading sizes\<close>

text \<open>How a peer writes a chunked body: sizes in lower-case hexadecimal, a chunk of size 0 at the end.\<close>

definition hex_char_of :: "nat \<Rightarrow> char" where
  "hex_char_of d = char_of (if d < 10 then 48 + d else 87 + d)"

fun hex_text :: "nat \<Rightarrow> string" where
  "hex_text n = (if n < 16 then [hex_char_of n] else hex_text (n div 16) @ [hex_char_of (n mod 16)])"

declare hex_text.simps [simp del]

definition encode_chunks :: "string list \<Rightarrow> string" where
  "encode_chunks cs =
     concat (map (\<lambda>c. hex_text (length c) @ crlf @ c @ crlf) cs) @ ''0'' @ crlf @ crlf"

definition chunk_ok :: "string \<Rightarrow> bool" where
  "chunk_ok c \<longleftrightarrow> c \<noteq> [] \<and> length c < 2 ^ 32 - 2"

lemma hex_value_char: "d < 16 \<Longrightarrow> hex_value (hex_char_of d) = Some d"
  by (auto simp: hex_value_def hex_char_of_def Let_def of_char_of)

lemma hex_text_digits: "list_all (\<lambda>c. hex_value c \<noteq> None) (hex_text n)"
  by (induction n rule: hex_text.induct) (subst hex_text.simps, auto simp: hex_value_char)

lemma hex_text_nonempty [simp]: "hex_text n \<noteq> []"
  by (subst hex_text.simps) simp

lemma hex_number_append:
  "hex_number (ds @ [hex_char_of d]) = hex_number ds * 16 + d" if "d < 16"
  using that by (simp add: hex_number_def hex_value_char)

lemma hex_number_text: "hex_number (hex_text n) = n"
proof (induction n rule: hex_text.induct)
  case (1 n)
  show ?case
  proof (cases "n < 16")
    case True
    then show ?thesis by (subst hex_text.simps) (simp add: hex_number_def hex_value_char)
  next
    case False
    then show ?thesis using 1 by (subst hex_text.simps) (simp add: hex_number_append)
  qed
qed

lemma hex_text_hd: "0 < n \<Longrightarrow> hd (hex_text n) \<noteq> CHR ''0''"
proof (induction n rule: hex_text.induct)
  case (1 n)
  show ?case
  proof (cases "n < 16")
    case True
    with 1(2) have "hex_value (hex_char_of n) \<noteq> hex_value (CHR ''0'')"
      by (simp add: hex_value_char) (simp add: hex_value_def)
    with True show ?thesis by (subst hex_text.simps) auto
  next
    case False
    then have "0 < n div 16" by simp
    with 1 False show ?thesis by (subst hex_text.simps) simp
  qed
qed

lemma hex_value_not:
  "hex_value c \<noteq> None \<Longrightarrow> \<not> is_space c \<and> c \<noteq> CHR ''-'' \<and> c \<noteq> CHR ''+'' \<and> c \<noteq> CHR ''x'' \<and> c \<noteq> CHR ''X''
    \<and> c \<noteq> CHR 0x0D"
  by (auto simp: hex_value_def is_space_def Let_def split: if_splits)

lemma read_hex_plain:
  assumes "s \<noteq> []" and "\<not> is_space (hd s)" and "hd s \<noteq> CHR ''-''" and "hd s \<noteq> CHR ''+''"
    and "\<not> prefix ''0x'' s" and "\<not> prefix ''0X'' s"
    and "takeWhile (\<lambda>c. hex_value c \<noteq> None) s = ds" and "ds \<noteq> []" and "hex_number ds < 2 ^ w"
  shows "read_hex w old s = (hex_number ds, True, dropWhile (\<lambda>c. hex_value c \<noteq> None) s)"
proof -
  have "dropWhile is_space s = s" using assms(1,2) by (simp add: dropWhile_eq_self_iff)
  then show ?thesis using assms by (simp add: read_hex_def Let_def)
qed

lemma read_hex_text:
  assumes "n < 2 ^ w" and "r \<noteq> []" and "hex_value (hd r) = None" and "hd r \<noteq> CHR ''x''" and "hd r \<noteq> CHR ''X''"
  shows "read_hex w old (hex_text n @ r) = (n, True, r)"
proof -
  obtain c cs where h: "hex_text n = c # cs" by (cases "hex_text n") auto
  have all: "list_all (\<lambda>c. hex_value c \<noteq> None) (c # cs)" using hex_text_digits [of n] h by simp
  then have c: "\<not> is_space c" "c \<noteq> CHR ''-''" "c \<noteq> CHR ''+''" using hex_value_not [of c] by auto
  have pre: "\<not> prefix ''0x'' (c # cs @ r)" "\<not> prefix ''0X'' (c # cs @ r)"
  proof -
    have "c \<noteq> CHR ''0'' \<or> hd (cs @ r) \<noteq> CHR ''x'' \<and> hd (cs @ r) \<noteq> CHR ''X''"
    proof (cases cs)
      case Nil
      then show ?thesis using assms(4,5) by simp
    next
      case (Cons d ds)
      with all hex_value_not [of d] show ?thesis by auto
    qed
    then show "\<not> prefix ''0x'' (c # cs @ r)" "\<not> prefix ''0X'' (c # cs @ r)"
      by (cases "cs @ r"; auto)+
  qed
  have tw: "takeWhile (\<lambda>c. hex_value c \<noteq> None) ((c # cs) @ r) = c # cs"
    "dropWhile (\<lambda>c. hex_value c \<noteq> None) ((c # cs) @ r) = r"
    using all assms(2,3) by (simp_all add: takeWhile_append2 takeWhile_tail dropWhile_append2 list_all_iff
        dropWhile_eq_self_iff takeWhile_eq_Nil_iff)
  have "hex_number (c # cs) = n" using hex_number_text [of n] h by simp
  with read_hex_plain [of "(c # cs) @ r" "c # cs" w old] c pre tw assms(1) show ?thesis
    unfolding h by simp
qed

lemma skip_crlf: "skip_line True (crlf @ r) = r"
  by (simp add: skip_line_def crlf_def newline_char_def)

lemma hd_crlf: "crlf \<noteq> []" "hd (crlf @ r) = CHR 0x0D" "hex_value (CHR 0x0D) = None"
  by (simp_all add: crlf_def hex_value_def)

lemma read_size_line:
  "n < 2 ^ w \<Longrightarrow> read_hex w old (hex_text n @ crlf @ r) = (n, True, crlf @ r)"
  using read_hex_text [of n w "crlf @ r" old] hd_crlf by simp

text \<open>A prefix of a size line's stream that holds a CRLF holds the whole line.\<close>

lemma crlf_found_after_size:
  assumes "s @ net = hex_text n @ crlf @ r" and "str_find s crlf 0 \<noteq> None"
  shows "\<exists>s'. s = hex_text n @ crlf @ s' \<and> s' @ net = r"
proof -
  from assms(2) obtain i where "find_sub crlf s = Some i" by (auto simp: str_find_def split: option.splits)
  then have i: "prefix crlf (drop i s)" "i \<le> length s" using find_sub_Some by auto
  from i(1) obtain u where u: "drop i s = crlf @ u" by (auto simp: prefix_def)
  then have "length (drop i s) = length (crlf @ u)" by simp
  with i(2) have lt: "i + 2 \<le> length s" by (simp add: crlf_def)
  with u have ch: "s ! i = CHR 0x0D" using hd_drop_conv_nth [of i s] hd_crlf(2) [of u] by simp
  have "length (hex_text n) \<le> i"
  proof (rule ccontr)
    assume "\<not> length (hex_text n) \<le> i"
    then have "(s @ net) ! i = hex_text n ! i" "i < length (hex_text n)"
      using assms(1) by (simp_all add: nth_append)
    moreover have "(s @ net) ! i = CHR 0x0D" using lt ch by (simp add: nth_append)
    moreover have "hex_value (hex_text n ! i) \<noteq> None" if "i < length (hex_text n)"
      using hex_text_digits [of n] that by (simp add: list_all_length)
    ultimately show False using hd_crlf(3) by metis
  qed
  with lt have le: "length (hex_text n @ crlf) \<le> length s" by (simp add: crlf_def)
  define k where "k = length (hex_text n @ crlf)"
  have eq: "s @ net = (hex_text n @ crlf) @ r" using assms(1) by simp
  have "take k (s @ net) = hex_text n @ crlf" "drop k (s @ net) = r"
    unfolding eq by (simp_all add: k_def)
  with le have "take k s = hex_text n @ crlf" "drop k s @ net = r" by (simp_all add: k_def)
  then have "s = hex_text n @ crlf @ drop k s \<and> drop k s @ net = r"
    using append_take_drop_id [of k s] by simp
  then show ?thesis by blast
qed

section \<open>Chunked content\<close>

text \<open>
  The body state under the event loop: what it waits for, the state, the machine, what the network has
  still to bring, and what has been handed out on the way. A read completes when enough has come,
  possibly with more, cut anywhere; a posted handler runs on what there is.
\<close>

record body_world =
  bw_wait :: body_effect
  bw_body :: http_body
  bw_tcp :: tcp_members
  bw_net :: string
  bw_outs :: "string list"

abbreviation arrive :: "string \<Rightarrow> tcp_members \<Rightarrow> tcp_members" where
  "arrive d t \<equiv> t\<lparr>rcv_streambuf := rcv_streambuf t @ d\<rparr>"

definition output_texts :: "body_effect list \<Rightarrow> string list" where
  "output_texts es = concat (map (\<lambda>e. case e of Output_Data d \<Rightarrow> [d] | _ \<Rightarrow> []) es)"

inductive body_step :: "bool \<Rightarrow> body_world \<Rightarrow> body_world \<Rightarrow> bool" for wait_complete where
  size_read:
    "bw_wait w = Read_Until delim \<Longrightarrow> bw_net w = d @ net
      \<Longrightarrow> str_find (rcv_streambuf (bw_tcp w) @ d) delim 0 \<noteq> None
      \<Longrightarrow> handle_read_chunk_size True Ec_Ok (bw_body w, arrive d (bw_tcp w)) = (es @ [e], b, t)
      \<Longrightarrow> body_step wait_complete w (w\<lparr>bw_wait := e, bw_body := b, bw_tcp := t, bw_net := net,
            bw_outs := bw_outs w @ output_texts es\<rparr>)"
| chunk_read:
    "bw_wait w = Read_Chunk n \<Longrightarrow> bw_net w = d @ net \<Longrightarrow> n \<le> length d
      \<Longrightarrow> handle_read_chunk_body True wait_complete Ec_Ok (bw_body w, arrive d (bw_tcp w)) = (es @ [e], b, t)
      \<Longrightarrow> body_step wait_complete w (w\<lparr>bw_wait := e, bw_body := b, bw_tcp := t, bw_net := net,
            bw_outs := bw_outs w @ output_texts es\<rparr>)"
| chunk_posted:
    "bw_wait w = Post_Chunk n
      \<Longrightarrow> handle_read_chunk_body True wait_complete Ec_Ok (bw_body w, bw_tcp w) = (es @ [e], b, t)
      \<Longrightarrow> body_step wait_complete w (w\<lparr>bw_wait := e, bw_body := b, bw_tcp := t,
            bw_outs := bw_outs w @ output_texts es\<rparr>)"

lemma encode_chunks_Cons:
  "encode_chunks (c # cs) = hex_text (length c) @ crlf @ c @ crlf @ encode_chunks cs"
  by (simp add: encode_chunks_def)

lemma hex_text_0: "hex_text 0 = ''0''"
  by code_simp

lemma encode_chunks_Nil: "encode_chunks [] = hex_text 0 @ crlf @ crlf"
  by (simp add: encode_chunks_def hex_text_0)

text \<open>What the chunks already read have left behind, in either mode.\<close>

definition gathered :: "bool \<Rightarrow> string list \<Rightarrow> http_body \<Rightarrow> string list \<Rightarrow> bool" where
  "gathered wait_complete cs b outs \<longleftrightarrow>
     (if wait_complete then content_buff b = concat cs \<and> outs = [] else content_buff b = [] \<and> outs = cs)"

text \<open>The output event meanwhile: as it was, but for the data of the chunk that was handed out last.\<close>

definition event_left :: "bool \<Rightarrow> http_body \<Rightarrow> string list \<Rightarrow> http_body \<Rightarrow> bool" where
  "event_left wait_complete b0 cs b \<longleftrightarrow> out_setup b = out_setup b0
     \<and> out_data b = (if wait_complete \<or> cs = [] then out_data b0 else last cs)"

definition body_inv :: "bool \<Rightarrow> http_body \<Rightarrow> string list \<Rightarrow> body_world \<Rightarrow> bool" where
  "body_inv wait_complete b0 cs w \<longleftrightarrow> connected (bw_tcp w) \<and>
     (\<exists>cs1 cs2. cs = cs1 @ cs2 \<and> gathered wait_complete cs1 (bw_body w) (bw_outs w) \<and>
        ((\<exists>ec1 ec2. bw_wait w = Body_Report ec1 ec2) \<and> content_buff (bw_body w) \<noteq> [] \<or> event_left wait_complete b0 cs1 (bw_body w)) \<and>
        (case bw_wait w of
           Read_Until delim \<Rightarrow> delim = crlf \<and> rcv_streambuf (bw_tcp w) @ bw_net w = encode_chunks cs2
         | Read_Chunk n \<Rightarrow> (\<exists>c cs3. cs2 = c # cs3 \<and> last_chunk_size (bw_body w) = length c
             \<and> rcv_streambuf (bw_tcp w) @ bw_net w = c @ crlf @ encode_chunks cs3
             \<and> n + length (rcv_streambuf (bw_tcp w)) = length c + 2)
         | Post_Chunk n \<Rightarrow> (\<exists>c cs3. cs2 = c # cs3 \<and> last_chunk_size (bw_body w) = length c
             \<and> rcv_streambuf (bw_tcp w) @ bw_net w = c @ crlf @ encode_chunks cs3
             \<and> length c + 2 \<le> length (rcv_streambuf (bw_tcp w)))
         | Body_Report ec1 ec2 \<Rightarrow> cs2 = [] \<and> ec1 = kBeeErrorCode_Success \<and> ec2 = Ec_Ok
             \<and> (content_buff (bw_body w) \<noteq> [] \<longrightarrow>
                  out_data (bw_body w) = content_buff (bw_body w) \<and> out_setup (bw_body w))
         | _ \<Rightarrow> False))"

lemma chunk_end_ok: "chunk_ok c \<Longrightarrow> last_chunk_size b = length c \<Longrightarrow> chunk_end b = length c + 2"
  by (simp add: chunk_end_def chunk_ok_def)

lemma body_ready_ok [simp]: "connected t \<Longrightarrow> body_ready True t = kBeeErrorCode_Success"
  by (simp add: body_ready_def)

text \<open>A whole size line of a chunk is there: its handler goes for the chunk.\<close>

lemma handle_size_chunk:
  assumes "connected t" and "chunk_ok c" and "rcv_streambuf t = hex_text (length c) @ crlf @ s"
  shows "handle_read_chunk_size True Ec_Ok (b, t)
    = ([if length c + 2 \<le> length s then Post_Chunk (length s) else Read_Chunk (length c + 2 - length s)],
       b\<lparr>last_chunk_size := length c\<rparr>, t\<lparr>rcv_streambuf := s\<rparr>)"
proof -
  let ?b = "b\<lparr>last_chunk_size := length c\<rparr>" and ?t = "t\<lparr>rcv_streambuf := s\<rparr>"
  have n: "length c < 2 ^ 32" "0 < length c" using assms(2) by (auto simp: chunk_ok_def)
  have rb: "read_chunk_body True (?b, ?t)
    = (kBeeErrorCode_Success,
       [if length c + 2 \<le> length s then Post_Chunk (length s) else Read_Chunk (length c + 2 - length s)], ?b, ?t)"
  proof (cases "length c + 2 \<le> length s")
    case True
    then show ?thesis using assms(1) chunk_end_ok [OF assms(2), of ?b] by (simp add: read_chunk_body_def)
  next
    case False
    have "(size_sub (length c) (length s) + 2) mod size_mod = length c + 2 - length s"
    proof (cases "length s \<le> length c")
      case True
      with n show ?thesis by (simp add: size_mod_def)
    next
      case gt: False
      with False have "size_sub (length c) (length s) = size_mod - 1" "length c + 2 - length s = 1"
        by (simp_all add: size_sub_wrap)
      then show ?thesis by (simp add: size_mod_def)
    qed
    with False show ?thesis using assms(1) chunk_end_ok [OF assms(2), of ?b] by (simp add: read_chunk_body_def)
  qed
  have "\<not> length (rcv_streambuf t) \<le> 2"
  proof -
    have "0 < length (hex_text (length c))" by simp
    then show ?thesis unfolding assms(3) by (simp add: crlf_def del: length_greater_0_conv)
  qed
  moreover have "read_hex 32 (last_chunk_size b) (rcv_streambuf t) = (length c, True, crlf @ s)"
    unfolding assms(3) by (rule read_size_line [OF n(1)])
  ultimately show ?thesis
    using assms(1) n(2) rb by (simp add: handle_read_chunk_size_def skip_crlf finish_def)
qed

lemma handle_size_last:
  assumes "connected t" and "rcv_streambuf t = hex_text 0 @ crlf @ s"
  shows "handle_read_chunk_size True Ec_Ok (b, t)
    = ([Body_Report kBeeErrorCode_Success Ec_Ok],
       if content_buff b \<noteq> []
       then b\<lparr>last_chunk_size := 0, out_data := content_buff b, out_setup := True\<rparr>
       else b\<lparr>last_chunk_size := 0\<rparr>, t\<lparr>rcv_streambuf := s\<rparr>)"
proof -
  have "\<not> length (rcv_streambuf t) \<le> 2"
  proof -
    have "0 < length (hex_text 0)" by simp
    then show ?thesis unfolding assms(2) by (simp add: crlf_def del: length_greater_0_conv)
  qed
  moreover have "read_hex 32 (last_chunk_size b) (rcv_streambuf t) = (0, True, crlf @ s)"
    unfolding assms(2) by (rule read_size_line) simp
  ultimately show ?thesis
    using assms(1) by (simp add: handle_read_chunk_size_def skip_crlf report_cache_content_def)
qed

text \<open>A whole chunk is there: it is gathered or handed out, and the next size is read.\<close>

lemma handle_chunk_there:
  assumes "connected t" and "chunk_ok c" and "last_chunk_size b = length c"
    and "rcv_streambuf t = c @ crlf @ s"
  shows "\<exists>es b'. handle_read_chunk_body True wait_complete Ec_Ok (b, t)
      = (es @ [Read_Until crlf], b', t\<lparr>rcv_streambuf := s\<rparr>)
    \<and> (wait_complete \<longrightarrow> content_buff b' = content_buff b @ c \<and> output_texts es = [])
    \<and> (\<not> wait_complete \<longrightarrow> content_buff b' = content_buff b \<and> output_texts es = [c])
    \<and> out_setup b' = out_setup b \<and> out_data b' = (if wait_complete then out_data b else c)"
proof -
  have e: "chunk_end b = length c + 2" by (rule chunk_end_ok [OF assms(2,3)])
  have "drop (length c + 2) (c @ crlf @ s) = s" "take (length c) (c @ crlf @ s) = c"
    by (simp_all add: crlf_def)
  then show ?thesis
    using assms(1,3,4) e
    by (cases wait_complete)
      (simp_all add: handle_read_chunk_body_def read_chunk_def read_chunk_size_def finish_def Let_def
        output_texts_def crlf_def)
qed

text \<open>One step of the environment keeps the invariant, whatever arrives.\<close>

lemma body_inv_after_size:
  assumes "connected t" and "\<forall>c \<in> set cs. chunk_ok c" and "cs = cs1 @ cs2" and "gathered wait_complete cs1 b outs \<and> event_left wait_complete b0 cs1 b"
    and "rcv_streambuf t @ net = encode_chunks cs2" and "str_find (rcv_streambuf t) crlf 0 \<noteq> None"
  shows "\<exists>e b' t'. handle_read_chunk_size True Ec_Ok (b, t) = ([] @ [e], b', t')
    \<and> body_inv wait_complete b0 cs \<lparr>bw_wait = e, bw_body = b', bw_tcp = t', bw_net = net, bw_outs = outs\<rparr>"
proof (cases cs2)
  case Nil
  with assms(5) have "rcv_streambuf t @ net = hex_text 0 @ crlf @ crlf" by (simp add: encode_chunks_Nil)
  from crlf_found_after_size [OF this assms(6)] obtain s where "rcv_streambuf t = hex_text 0 @ crlf @ s" by blast
  from handle_size_last [OF assms(1) this, of b] Nil assms(1,3,4) show ?thesis
    by (auto simp: body_inv_def gathered_def event_left_def split: if_splits)
next
  case (Cons c cs3)
  with assms(2,3) have c: "chunk_ok c" by simp
  from Cons assms(5) have "rcv_streambuf t @ net = hex_text (length c) @ crlf @ c @ crlf @ encode_chunks cs3"
    by (simp add: encode_chunks_Cons)
  from crlf_found_after_size [OF this assms(6)] obtain s where
    s: "rcv_streambuf t = hex_text (length c) @ crlf @ s" "s @ net = c @ crlf @ encode_chunks cs3" by blast
  from handle_size_chunk [OF assms(1) c s(1), of b] s(2) Cons assms(1,3,4) show ?thesis
    by (auto simp: body_inv_def gathered_def event_left_def)
qed

lemma body_inv_after_chunk:
  assumes "connected t" and "\<forall>c \<in> set cs. chunk_ok c" and "cs = cs1 @ c # cs3"
    and "gathered wait_complete cs1 b outs \<and> event_left wait_complete b0 cs1 b" and "last_chunk_size b = length c"
    and "rcv_streambuf t @ net = c @ crlf @ encode_chunks cs3" and "length c + 2 \<le> length (rcv_streambuf t)"
  shows "\<exists>es e b' t'. handle_read_chunk_body True wait_complete Ec_Ok (b, t) = (es @ [e], b', t')
    \<and> body_inv wait_complete b0 cs
        \<lparr>bw_wait = e, bw_body = b', bw_tcp = t', bw_net = net, bw_outs = outs @ output_texts es\<rparr>"
proof -
  define k where "k = length (c @ crlf)"
  have le: "k \<le> length (rcv_streambuf t)" using assms(7) by (simp add: k_def crlf_def)
  have eq: "rcv_streambuf t @ net = (c @ crlf) @ encode_chunks cs3" using assms(6) by simp
  have "take k (rcv_streambuf t @ net) = c @ crlf" "drop k (rcv_streambuf t @ net) = encode_chunks cs3"
    unfolding eq by (simp_all add: k_def)
  with le have s: "take k (rcv_streambuf t) = c @ crlf" "drop k (rcv_streambuf t) @ net = encode_chunks cs3"
    by simp_all
  then have rcv: "rcv_streambuf t = c @ crlf @ drop k (rcv_streambuf t)"
    using append_take_drop_id [of k "rcv_streambuf t"] by simp
  have c: "chunk_ok c" using assms(2,3) by simp
  from handle_chunk_there [OF assms(1) c assms(5) rcv, of wait_complete] obtain es b' where
    h: "handle_read_chunk_body True wait_complete Ec_Ok (b, t)
      = (es @ [Read_Until crlf], b', t\<lparr>rcv_streambuf := drop k (rcv_streambuf t)\<rparr>)"
      "wait_complete \<longrightarrow> content_buff b' = content_buff b @ c \<and> output_texts es = []"
      "\<not> wait_complete \<longrightarrow> content_buff b' = content_buff b \<and> output_texts es = [c]"
      "out_setup b' = out_setup b" "out_data b' = (if wait_complete then out_data b else c)" by blast
  have "gathered wait_complete (cs1 @ [c]) b' (outs @ output_texts es)" "event_left wait_complete b0 (cs1 @ [c]) b'"
    using assms(4) h(2-5) by (auto simp: gathered_def event_left_def)
  moreover have "cs = (cs1 @ [c]) @ cs3" using assms(3) by simp
  ultimately have "body_inv wait_complete b0 cs \<lparr>bw_wait = Read_Until crlf, bw_body = b',
      bw_tcp = t\<lparr>rcv_streambuf := drop k (rcv_streambuf t)\<rparr>, bw_net = net, bw_outs = outs @ output_texts es\<rparr>"
    using assms(1) s(2) unfolding body_inv_def
    by (simp del: append_assoc, intro exI [of _ "cs1 @ [c]"] exI [of _ cs3], simp)
  with h(1) show ?thesis by blast
qed

lemma world_update:
  "w\<lparr>bw_wait := e, bw_body := b, bw_tcp := t, bw_net := net, bw_outs := outs\<rparr>
    = \<lparr>bw_wait = e, bw_body = b, bw_tcp = t, bw_net = net, bw_outs = outs\<rparr>"
  "w\<lparr>bw_wait := e, bw_body := b, bw_tcp := t, bw_outs := outs\<rparr>
    = \<lparr>bw_wait = e, bw_body = b, bw_tcp = t, bw_net = bw_net w, bw_outs = outs\<rparr>"
  by (cases w, simp)+

lemma body_step_inv:
  assumes "body_step wait_complete w w'" and "body_inv wait_complete b0 cs w" and "\<forall>c \<in> set cs. chunk_ok c"
  shows "body_inv wait_complete b0 cs w'"
  using assms(1)
proof cases
  case (size_read delim d net es e b t)
  from assms(2) size_read obtain cs1 cs2 where
    i: "connected (arrive d (bw_tcp w))" "cs = cs1 @ cs2" "gathered wait_complete cs1 (bw_body w) (bw_outs w) \<and> event_left wait_complete b0 cs1 (bw_body w)"
      "delim = crlf" "rcv_streambuf (arrive d (bw_tcp w)) @ net = encode_chunks cs2"
    by (auto simp: body_inv_def)
  have "str_find (rcv_streambuf (arrive d (bw_tcp w))) crlf 0 \<noteq> None" using size_read i(4) by simp
  from body_inv_after_size [OF i(1) assms(3) i(2,3,5) this] obtain e' b' t' where
    h: "handle_read_chunk_size True Ec_Ok (bw_body w, arrive d (bw_tcp w)) = ([] @ [e'], b', t')"
      "body_inv wait_complete b0 cs \<lparr>bw_wait = e', bw_body = b', bw_tcp = t', bw_net = net, bw_outs = bw_outs w\<rparr>"
    by blast
  from h(1) size_read(5) have "es = []" "e' = e" "b' = b" "t' = t" by simp_all
  with h(2) size_read(1) show ?thesis by (simp add: world_update output_texts_def)
next
  case (chunk_read n d net es e b t)
  from assms(2) chunk_read obtain cs1 c cs3 where
    i: "connected (arrive d (bw_tcp w))" "cs = cs1 @ c # cs3"
      "gathered wait_complete cs1 (bw_body w) (bw_outs w) \<and> event_left wait_complete b0 cs1 (bw_body w)" "last_chunk_size (bw_body w) = length c"
      "rcv_streambuf (arrive d (bw_tcp w)) @ net = c @ crlf @ encode_chunks cs3"
      "length c + 2 \<le> length (rcv_streambuf (arrive d (bw_tcp w)))"
    by (auto simp: body_inv_def)
  from body_inv_after_chunk [OF i(1) assms(3) i(2-6)] chunk_read(1,5) show ?thesis
    by (auto simp: world_update)
next
  case (chunk_posted n es e b t)
  from assms(2) chunk_posted obtain cs1 c cs3 where
    i: "connected (bw_tcp w)" "cs = cs1 @ c # cs3"
      "gathered wait_complete cs1 (bw_body w) (bw_outs w) \<and> event_left wait_complete b0 cs1 (bw_body w)" "last_chunk_size (bw_body w) = length c"
      "rcv_streambuf (bw_tcp w) @ bw_net w = c @ crlf @ encode_chunks cs3"
      "length c + 2 \<le> length (rcv_streambuf (bw_tcp w))"
    by (auto simp: body_inv_def)
  from body_inv_after_chunk [OF i(1) assms(3) i(2-6)] chunk_posted(1,3) show ?thesis
    by (auto simp: world_update)
qed

lemma body_steps_inv:
  "(body_step wait_complete)\<^sup>*\<^sup>* w w' \<Longrightarrow> body_inv wait_complete b0 cs w \<Longrightarrow> \<forall>c \<in> set cs. chunk_ok c
    \<Longrightarrow> body_inv wait_complete b0 cs w'"
  by (induction rule: rtranclp_induct) (auto dest: body_step_inv)

lemma encode_has_crlf: "str_find (encode_chunks cs) crlf 0 \<noteq> None"
proof -
  obtain n r where e: "encode_chunks cs = hex_text n @ crlf @ r"
    by (cases cs) (auto simp: encode_chunks_Cons encode_chunks_Nil)
  show ?thesis
  proof
    assume "str_find (encode_chunks cs) crlf 0 = None"
    then have "find_sub crlf (encode_chunks cs) = None" by (simp add: str_find_def split: option.splits)
    from find_sub_None [OF this, of "length (hex_text n)"] show False unfolding e by simp
  qed
qed

lemma body_progress:
  assumes "body_inv wait_complete b0 cs w" and "\<forall>c \<in> set cs. chunk_ok c" and "\<nexists>ec1 ec2. bw_wait w = Body_Report ec1 ec2"
  shows "\<exists>w'. body_step wait_complete w w'"
proof -
  have i: "connected (bw_tcp w)" using assms(1) by (simp add: body_inv_def)
  let ?t = "arrive (bw_net w) (bw_tcp w)"
  have t: "connected ?t" using i(1) by simp
  show ?thesis
  proof (cases "bw_wait w")
    case (Read_Until delim)
    with assms(1) obtain cs1 cs2 where
      r: "cs = cs1 @ cs2" "gathered wait_complete cs1 (bw_body w) (bw_outs w) \<and> event_left wait_complete b0 cs1 (bw_body w)" "delim = crlf"
        "rcv_streambuf ?t @ [] = encode_chunks cs2" by (auto simp: body_inv_def)
    have f: "str_find (rcv_streambuf ?t) crlf 0 \<noteq> None" using r(4) encode_has_crlf [of cs2] by simp
    from body_inv_after_size [OF t assms(2) r(1,2,4) f] obtain e b t' where
      "handle_read_chunk_size True Ec_Ok (bw_body w, ?t) = ([] @ [e], b, t')" by blast
    with Read_Until r(3) f show ?thesis
      by (intro exI) (rule size_read [of w crlf "bw_net w" "[]" "[]" e b t'], simp_all)
  next
    case (Read_Chunk n)
    with assms(1) obtain cs1 c cs3 where
      r: "cs = cs1 @ c # cs3" "gathered wait_complete cs1 (bw_body w) (bw_outs w) \<and> event_left wait_complete b0 cs1 (bw_body w)"
        "last_chunk_size (bw_body w) = length c" "rcv_streambuf ?t @ [] = c @ crlf @ encode_chunks cs3"
        "n + length (rcv_streambuf (bw_tcp w)) = length c + 2" by (auto simp: body_inv_def)
    have "length (rcv_streambuf ?t) = length (c @ crlf @ encode_chunks cs3)" using r(4) by simp
    then have n: "length c + 2 \<le> length (rcv_streambuf ?t)" by (simp add: crlf_def)
    with r(5) have "n \<le> length (bw_net w)" by simp
    moreover from body_inv_after_chunk [OF t assms(2) r(1-4) n] obtain es e b t' where
      "handle_read_chunk_body True wait_complete Ec_Ok (bw_body w, ?t) = (es @ [e], b, t')" by blast
    ultimately show ?thesis using Read_Chunk
      by (intro exI) (rule chunk_read [of w n "bw_net w" "[]" wait_complete es e b t'], simp_all)
  next
    case (Post_Chunk n)
    with assms(1) obtain cs1 c cs3 where
      r: "cs = cs1 @ c # cs3" "gathered wait_complete cs1 (bw_body w) (bw_outs w) \<and> event_left wait_complete b0 cs1 (bw_body w)"
        "last_chunk_size (bw_body w) = length c"
        "rcv_streambuf (bw_tcp w) @ bw_net w = c @ crlf @ encode_chunks cs3"
        "length c + 2 \<le> length (rcv_streambuf (bw_tcp w))" by (auto simp: body_inv_def)
    from body_inv_after_chunk [OF i(1) assms(2) r] obtain es e b t' where
      "handle_read_chunk_body True wait_complete Ec_Ok (bw_body w, bw_tcp w) = (es @ [e], b, t')" by blast
    with Post_Chunk show ?thesis
      by (intro exI) (rule chunk_posted [of w n wait_complete es e b t'], simp_all)
  qed (use assms(1,3) in \<open>auto simp: body_inv_def\<close>)
qed

text \<open>
  C5: chunked content arrives whole, however the network cuts it. For chunks that are not empty and
  shorter than \<open>2 ^ 32 - 2\<close>, with sizes in hexadecimal, on a connection that stays open, every run of the
  body state only ever ends in the report of success. When the caller waits for the whole content, the
  output event then has the chunks joined, in order, and nothing was handed out before; when it does not,
  each chunk was handed out once and in order before, and the final report carries the last chunk a
  second time. Unless the event has been given the whole content, whether it is set up is left as it was:
  a body of no chunks, and every body that was handed out chunk by chunk, is reported in an event nobody
  has set up. Until the report the run is never stuck: what the network still brings lets it go on.
\<close>

theorem chunked_content_arrives:
  assumes "\<forall>c \<in> set cs. chunk_ok c" and "connected t" and "content_buff b = []"
    and "rcv_streambuf t @ net = encode_chunks cs"
    and "(body_step wait_complete)\<^sup>*\<^sup>*
      \<lparr>bw_wait = Read_Until crlf, bw_body = b, bw_tcp = t, bw_net = net, bw_outs = []\<rparr> w"
  shows "(\<forall>ec1 ec2. bw_wait w = Body_Report ec1 ec2 \<longrightarrow> ec1 = kBeeErrorCode_Success \<and> ec2 = Ec_Ok
        \<and> (if wait_complete \<and> cs \<noteq> [] then bw_outs w = [] \<and> out_setup (bw_body w) \<and> out_data (bw_body w) = concat cs
           else bw_outs w = cs \<and> out_setup (bw_body w) = out_setup b
             \<and> out_data (bw_body w) = (if cs = [] then out_data b else last cs)))
    \<and> ((\<nexists>ec1 ec2. bw_wait w = Body_Report ec1 ec2) \<longrightarrow> (\<exists>w'. body_step wait_complete w w'))"
proof -
  have "body_inv wait_complete b cs
      \<lparr>bw_wait = Read_Until crlf, bw_body = b, bw_tcp = t, bw_net = net, bw_outs = []\<rparr>"
    using assms(2-4) unfolding body_inv_def
    by (simp, intro exI [of _ "[]"] exI [of _ cs], simp add: gathered_def event_left_def)
  from body_steps_inv [OF assms(5) this assms(1)] have inv: "body_inv wait_complete b cs w" .
  have "ec1 = kBeeErrorCode_Success \<and> ec2 = Ec_Ok
        \<and> (if wait_complete \<and> cs \<noteq> [] then bw_outs w = [] \<and> out_setup (bw_body w) \<and> out_data (bw_body w) = concat cs
           else bw_outs w = cs \<and> out_setup (bw_body w) = out_setup b
             \<and> out_data (bw_body w) = (if cs = [] then out_data b else last cs))"
    if r: "bw_wait w = Body_Report ec1 ec2" for ec1 ec2
  proof -
    have "cs \<noteq> [] \<Longrightarrow> concat cs \<noteq> []" using assms(1) by (cases cs) (auto simp: chunk_ok_def)
    with inv r show ?thesis by (auto simp: body_inv_def gathered_def event_left_def split: if_splits)
  qed
  with body_progress [OF inv assms(1)] show ?thesis by blast
qed

theorem chunked_content_arrives_witness:
  "\<exists>w. body_step True \<lparr>bw_wait = Read_Until crlf, bw_body = HttpRcvBodyState_new, bw_tcp = demo_tcp,
      bw_net = encode_chunks [''ab'', ''c''], bw_outs = []\<rparr> w"
proof -
  let ?w = "\<lparr>bw_wait = Read_Until crlf, bw_body = HttpRcvBodyState_new, bw_tcp = demo_tcp,
      bw_net = encode_chunks [''ab'', ''c''], bw_outs = []\<rparr>"
  have "\<forall>c \<in> set [''ab'', ''c'']. chunk_ok c" by (simp add: chunk_ok_def)
  moreover have "connected demo_tcp" "rcv_streambuf demo_tcp = []"
    by (simp_all add: demo_tcp_def TcpStateMachine_new_def)
  ultimately show ?thesis
    using chunked_content_arrives [of "[''ab'', ''c'']" demo_tcp HttpRcvBodyState_new
        "encode_chunks [''ab'', ''c'']" True ?w]
    by (auto simp: HttpRcvBodyState_new_def)
qed

text \<open>
  Without waiting for the whole content the final report's event is not set up, so the state machine
  reports it with the data of the chunk handed out last: that chunk is delivered twice.
\<close>

lemma last_chunk_reported_again:
  assumes "connected t" and "rcv_streambuf t = hex_text 0 @ crlf @ s" and "content_buff b = []"
  shows "\<exists>b'. handle_read_chunk_size True Ec_Ok (b, t)
      = ([Body_Report kBeeErrorCode_Success Ec_Ok], b', t\<lparr>rcv_streambuf := s\<rparr>)
    \<and> out_data b' = out_data b \<and> out_setup b' = out_setup b"
  using handle_size_last [OF assms(1,2), of b] assms(3) by simp

text \<open>A size line without a digit is taken for the last chunk: the body ends with success.\<close>

lemma bad_size_ends_body:
  assumes "connected t" and "rcv_streambuf t = ''zz'' @ crlf @ s"
  shows "fst (handle_read_chunk_size True Ec_Ok (b, t)) = [Body_Report kBeeErrorCode_Success Ec_Ok]"
proof -
  have "read_hex 32 (last_chunk_size b) (rcv_streambuf t) = (0, False, ''zz'' @ crlf @ s)"
    unfolding assms(2) by (simp add: read_hex_def is_space_def hex_value_def Let_def)
  then show ?thesis
    using assms by (simp add: handle_read_chunk_size_def report_cache_content_def crlf_def Let_def)
qed

end
