(* ===== verification/Bee_Io_Service.thy ===== *)
theory Bee_Io_Service
  imports Main
begin

text \<open>
  \<open>IOService\<close> (src/network/io_service.cpp and .h): an event loop with the thread that runs it. The loop
  is only known to exist and to be stopped or not; \<open>None\<close> is the dereference of \<open>ios_\<close> after \<open>stop\<close> has
  dropped it. A thread is joined at once: \<open>stop\<close> has told the loop to return before.

  The interface \<open>restartable\<close> is what a user of a service that is started and stopped again needs; the
  service itself does not have it, a service that is made anew for every start does.
\<close>

record IOService =
  svc_ios :: "bool option"   \<comment> \<open>the loop, and whether it is stopped\<close>
  svc_work :: bool
  svc_thread :: bool
  running :: bool

definition IOService_new :: IOService where
  "IOService_new = \<lparr>svc_ios = Some False, svc_work = False, svc_thread = False, running = False\<rparr>"

definition svc_start :: "IOService \<Rightarrow> (bool \<times> IOService) option" where
  "svc_start s =
     (if running s then Some (True, s)
      else case svc_ios s of
          None \<Rightarrow> None
        | Some _ \<Rightarrow>
            Some (True, s\<lparr>svc_ios := Some False, svc_work := True, svc_thread := True, running := True\<rparr>))"

definition svc_wait :: "IOService \<Rightarrow> bool \<times> IOService" where
  "svc_wait s =
     (if \<not> running s \<or> \<not> svc_thread s then (True, s) else (True, s\<lparr>svc_thread := False\<rparr>))"

definition svc_stop :: "IOService \<Rightarrow> (bool \<times> IOService) option" where
  "svc_stop s =
     (if \<not> running s then Some (True, s)
      else case svc_ios s of
          None \<Rightarrow> None
        | Some _ \<Rightarrow>
            (let s1 = snd (svc_wait (s\<lparr>svc_work := False, svc_ios := Some True\<rparr>))
             in Some (True, s1\<lparr>svc_ios := None, running := False\<rparr>)))"

text \<open>What keeps the loop going: it runs exactly while it has work and a thread.\<close>

definition svc_wf :: "IOService \<Rightarrow> bool" where
  "svc_wf s \<longleftrightarrow> (running s \<longrightarrow> svc_ios s = Some False \<and> svc_work s \<and> svc_thread s)
     \<and> (\<not> running s \<longrightarrow> \<not> svc_work s \<and> \<not> svc_thread s)"

lemma svc_new_wf: "svc_wf IOService_new"
  by (simp add: svc_wf_def IOService_new_def)

lemma svc_start_wf: "svc_wf s \<Longrightarrow> svc_start s = Some (b, s') \<Longrightarrow> svc_wf s' \<and> running s' \<and> b"
  by (auto simp: svc_wf_def svc_start_def split: if_splits option.splits)

lemma svc_stop_wf: "svc_wf s \<Longrightarrow> \<exists>s'. svc_stop s = Some (True, s') \<and> svc_wf s' \<and> \<not> running s'"
  by (auto simp: svc_wf_def svc_stop_def svc_wait_def Let_def)

fun cycles :: "('s \<Rightarrow> 's option) \<Rightarrow> ('s \<Rightarrow> 's option) \<Rightarrow> nat \<Rightarrow> 's \<Rightarrow> 's option" where
  "cycles up down 0 s = Some s"
| "cycles up down (Suc n) s =
     (case up s of
        None \<Rightarrow> None
      | Some s1 \<Rightarrow> (case down s1 of None \<Rightarrow> None | Some s2 \<Rightarrow> cycles up down n s2))"

locale restartable =
  fixes up :: "'s \<Rightarrow> 's option" and down :: "'s \<Rightarrow> 's option" and alive :: "'s \<Rightarrow> bool" and good :: "'s \<Rightarrow> bool"
  assumes up_ok: "good s \<Longrightarrow> \<exists>s'. up s = Some s' \<and> good s' \<and> alive s'"
    and down_ok: "good s \<Longrightarrow> \<exists>s'. down s = Some s' \<and> good s' \<and> \<not> alive s'"
begin

lemma cycles_ok: "good s \<Longrightarrow> \<exists>s'. cycles up down n s = Some s' \<and> good s'"
proof (induction n arbitrary: s)
  case (Suc n)
  from up_ok [OF Suc.prems] obtain s1 where s1: "up s = Some s1" "good s1" by blast
  from down_ok [OF s1(2)] obtain s2 where "down s1 = Some s2" "good s2" by blast
  with s1 Suc.IH show ?case by simp
qed simp

end

text \<open>The use the entrance and the logger make of it: a new service for every start.\<close>

definition fresh_start :: "IOService option \<Rightarrow> IOService option option" where
  "fresh_start p =
     (case p of
        None \<Rightarrow> map_option (\<lambda>(b, s). Some s) (svc_start IOService_new)
      | Some s \<Rightarrow> Some (Some s))"

definition stop_drop :: "IOService option \<Rightarrow> IOService option option" where
  "stop_drop p =
     (case p of
        None \<Rightarrow> Some None
      | Some s \<Rightarrow> map_option (\<lambda>(b, s'). None) (svc_stop s))"

definition fresh_good :: "IOService option \<Rightarrow> bool" where
  "fresh_good p \<longleftrightarrow> (case p of None \<Rightarrow> True | Some s \<Rightarrow> svc_wf s \<and> running s)"

interpretation fresh: restartable fresh_start stop_drop "\<lambda>p. p \<noteq> None" fresh_good
proof
  fix p assume g: "fresh_good p"
  show "\<exists>p'. fresh_start p = Some p' \<and> fresh_good p' \<and> p' \<noteq> None"
  proof (cases p)
    case None
    obtain s where s: "svc_start IOService_new = Some (True, s)"
      by (simp add: svc_start_def IOService_new_def)
    with svc_start_wf [OF svc_new_wf s] None show ?thesis by (simp add: fresh_start_def fresh_good_def)
  next
    case (Some s)
    with g show ?thesis by (simp add: fresh_start_def fresh_good_def)
  qed
  show "\<exists>p'. stop_drop p = Some p' \<and> fresh_good p' \<and> \<not> p' \<noteq> None"
  proof (cases p)
    case None
    then show ?thesis by (simp add: stop_drop_def fresh_good_def)
  next
    case (Some s)
    with g have "svc_wf s" by (simp add: fresh_good_def)
    from svc_stop_wf [OF this] Some show ?thesis by (auto simp: stop_drop_def fresh_good_def)
  qed
qed

text \<open>
  A service is started once. \<open>start\<close> and \<open>stop\<close> are idempotent, and a service made anew for every
  start, as the entrance and the logger do, can be started and stopped any number of times; but the
  same service cannot: a \<open>start\<close> after a \<open>stop\<close> dereferences the event loop that \<open>stop\<close> has dropped.
\<close>

theorem io_service_runs_once:
  "\<exists>s1. svc_start IOService_new = Some (True, s1) \<and> running s1 \<and> svc_start s1 = Some (True, s1)
    \<and> (\<exists>s2. svc_stop s1 = Some (True, s2) \<and> \<not> running s2 \<and> svc_stop s2 = Some (True, s2)
        \<and> svc_start s2 = None)
    \<and> (\<exists>p. cycles fresh_start stop_drop n None = Some p)"
proof -
  have "\<exists>p. cycles fresh_start stop_drop n None = Some p" using fresh.cycles_ok [of None n] by (auto simp: fresh_good_def)
  then show ?thesis by (simp add: svc_start_def svc_stop_def svc_wait_def IOService_new_def)
qed

end
