(* ===== verification/Bee_Flow.thy ===== *)
theory Bee_Flow
  imports Bee_Async_FSM
begin

text \<open>
  What a machine built with the macros of src/state/async_state_machine.h does, from what its routers
  and transforms do: the interface between \<open>AsyncStateMachine\<close> and the classes derived from it.

  A derived class names its states by a type of phases. The locale \<open>machine_flow\<close> asks of it a contract
  on the router and transforms of each phase alone, with no machine in sight: \<open>allows c ph ev f c'\<close> says
  that the output event \<open>ev\<close> of phase \<open>ph\<close>, met with members \<open>c\<close>, may lead to \<open>f\<close> with members \<open>c'\<close>.
  The locale then shows that the graph of the description is built and that \<open>done\<close> makes the machine
  do what is allowed: it posts the next phase or it reports once.
\<close>

section \<open>Steps of \<open>done\<close>\<close>

text \<open>The three ways \<open>done\<close> can go, once the router and the transform have answered.\<close>

lemma done_invalid:
  assumes "st_output (fsm_heap m p) = Some ev" and "ev_setup ev" and "st_router (fsm_heap m p) = Some r"
    and "st_attached (fsm_heap m p)" and "r (members m) ev = (kInvalidState, ev1, c)"
    and "ev2 = (if ev_ec1 ev1 = kBeeErrorCode_Success
      then ev1\<lparr>ev_ec1 := kBeeErrorCode_State_Machine_Interrupted\<rparr> else ev1)"
  shows "state_done p m = Some (False, fsm_output ev2 (set_output_event p ev2 (m\<lparr>members := c\<rparr>)))"
  using assms by (simp add: state_done_def switch_to_next_def switch_to_next_core_def state_output_def)

lemma done_finished:
  assumes "st_output (fsm_heap m p) = Some ev" and "ev_setup ev" and "st_router (fsm_heap m p) = Some r"
    and "st_attached (fsm_heap m p)" and "r (members m) ev = (kFinishedState, ev1, c)"
    and "ev2 = ev1\<lparr>ev_ec1 := kBeeErrorCode_State_Machine_Finished\<rparr>"
  shows "state_done p m = Some (False, fsm_output ev2 (set_output_event p ev2 (m\<lparr>members := c\<rparr>)))"
  using assms
  by (simp add: state_done_def switch_to_next_def switch_to_next_core_def state_output_def
      kInvalidState_def kFinishedState_def)

lemma done_switches:
  assumes "st_output (fsm_heap m p) = Some ev" and "ev_setup ev" and "st_router (fsm_heap m p) = Some r"
    and "st_attached (fsm_heap m p)" and "r (members m) ev = (nxt, ev1, c)"
    and "nxt \<noteq> kInvalidState" and "nxt \<noteq> kFinishedState"
    and "map_of (st_transforms (fsm_heap m p)) nxt = Some t" and "map_of (state_graph m) nxt = Some q"
    and "st_input (fsm_heap m q) = Some inp" and "t c ev1 inp = (ret, out', in', c')" and "fsm_ios m"
    and "m1 = set_output_event p out' (m\<lparr>members := c'\<rparr>)"
    and "m2 = set_st q ((fsm_heap m1 q)\<lparr>st_input := Some in'\<rparr>) m1"
  shows "state_done p m = (if ret then Some (True, m2\<lparr>current_state_id := nxt, posted := posted m @ [q]\<rparr>)
    else Some (False, fsm_output out' m2))"
proof -
  have "st_output (fsm_heap m2 p) = Some out'" "posted m2 = posted m" "fsm_ios m2"
    using assms(12) by (simp_all add: assms(13,14) set_st_def)
  moreover have "st_attached (fsm_heap m2 p)"
    using assms(4) by (cases "p = q") (simp_all add: assms(13,14) set_st_def set_output_event_def)
  moreover define mr where "mr = set_output_event p ev1 (m\<lparr>members := c\<rparr>)"
  have "switch_to_next_core p m = state_switch_to_state nxt t p mr"
    using assms(1,2,3,5,6,7,8) by (simp add: switch_to_next_core_def mr_def)
  moreover have "set_output_event p out' (mr\<lparr>members := c'\<rparr>) = m1"
    by (simp add: mr_def assms(13) set_output_event_def set_st_def)
  then have "state_switch_to_state nxt t p mr
      = (if ret then Some (True, m2\<lparr>current_state_id := nxt, posted := posted m2 @ [q]\<rparr>) else Some (False, m2))"
    using assms(4,9,10,11) \<open>fsm_ios m2\<close>
    by (simp add: state_switch_to_state_def machine_switch_to_state_def mr_def assms(14) Let_def)
  ultimately show ?thesis by (simp add: state_done_def switch_to_next_def state_output_def)
qed

lemma done_ec_event:
  "st_output (fsm_heap m p) = Some ev
    \<Longrightarrow> state_done_ec ec1 ec2 p m = state_done p (set_output_event p (ev\<lparr>ev_ec1 := ec1, ev_ec2 := ec2\<rparr>) m)"
  by (simp add: state_done_ec_def)

text \<open>Routers and transforms that leave the network's code alone have it reported.\<close>

lemma core_keeps_ec2:
  assumes "st_output (fsm_heap m p) = Some ev"
    and "\<And>r c ev. st_router (fsm_heap m p) = Some r \<Longrightarrow> ev_ec2 (fst (snd (r c ev))) = ev_ec2 ev"
    and "\<And>i t c ev inp. map_of (st_transforms (fsm_heap m p)) i = Some t \<Longrightarrow> ev_ec2 (fst (snd (t c ev inp))) = ev_ec2 ev"
    and "switch_to_next_core p m = Some (ret, m')"
  shows "outputs m' = outputs m \<and> (\<exists>ev'. st_output (fsm_heap m' p) = Some ev' \<and> ev_ec2 ev' = ev_ec2 ev)"
proof (cases "st_router (fsm_heap m p)")
  case None
  with assms(1,4) show ?thesis by (auto simp: switch_to_next_core_def split: if_splits)
next
  case (Some r)
  obtain nxt ev1 c where r: "r (members m) ev = (nxt, ev1, c)" by (cases "r (members m) ev")
  with assms(2) [OF Some, of "members m" ev] have e1: "ev_ec2 ev1 = ev_ec2 ev" by simp
  define m1 where "m1 = set_output_event p ev1 (m\<lparr>members := c\<rparr>)"
  have m1: "outputs m1 = outputs m" "st_output (fsm_heap m1 p) = Some ev1"
    "st_transforms (fsm_heap m1 p) = st_transforms (fsm_heap m p)" by (simp_all add: m1_def set_output_event_def)
  have sw: "outputs m' = outputs m \<and> (\<exists>ev'. st_output (fsm_heap m' p) = Some ev' \<and> ev_ec2 ev' = ev_ec2 ev)"
    if t: "map_of (st_transforms (fsm_heap m p)) nxt = Some t" and go: "state_switch_to_state nxt t p m1 = Some (ret, m')" for t
  proof -
    have k: "ev_ec2 (fst (snd (t c ev inp))) = ev_ec2 ev" for c ev inp by (rule assms(3) [OF t])
    have k': "t c ev inp = (b, o', i', c') \<Longrightarrow> ev_ec2 o' = ev_ec2 ev" for c ev inp b o' i' c' using k [of c ev inp] by simp
    show ?thesis using go m1 e1
      by (auto simp: state_switch_to_state_def machine_switch_to_state_def set_output_event_def Let_def
          split: if_splits option.splits prod.splits dest!: k')
  qed
  show ?thesis using assms(1,4) Some r e1 m1 sw
    by (auto simp: switch_to_next_core_def m1_def [symmetric] Let_def split: if_splits option.splits)
qed

lemma done_reports_ec2:
  assumes "st_output (fsm_heap m p) = Some ev"
    and "\<And>r c ev. st_router (fsm_heap m p) = Some r \<Longrightarrow> ev_ec2 (fst (snd (r c ev))) = ev_ec2 ev"
    and "\<And>i t c ev inp. map_of (st_transforms (fsm_heap m p)) i = Some t \<Longrightarrow> ev_ec2 (fst (snd (t c ev inp))) = ev_ec2 ev"
    and "state_done_ec ec1 ec2 p m = Some (ret, m')"
  shows "outputs m' = outputs m \<or> (\<exists>rep. outputs m' = outputs m @ [rep] \<and> ev_ec2 rep = ec2)"
proof -
  let ?m = "set_output_event p (ev\<lparr>ev_ec1 := ec1, ev_ec2 := ec2\<rparr>) m"
  have d: "state_done p ?m = Some (ret, m')" using assms(1,4) by (simp add: done_ec_event)
  have "st_output (fsm_heap ?m p) = Some (ev\<lparr>ev_ec1 := ec1, ev_ec2 := ec2\<rparr>)" by simp
  have o: "outputs m2 = outputs m \<and> (\<exists>ev'. st_output (fsm_heap m2 p) = Some ev' \<and> ev_ec2 ev' = ec2)"
    if "switch_to_next_core p ?m = Some (b, m2)" for b m2
    using core_keeps_ec2 [of ?m p "ev\<lparr>ev_ec1 := ec1, ev_ec2 := ec2\<rparr>" b m2] that assms(2,3) by simp
  from d show ?thesis
    by (auto simp: state_done_def switch_to_next_def state_output_def fsm_output_def split: option.splits if_splits dest: o)
qed
section \<open>Machines with a graph of phases\<close>

text \<open>What a phase leads to: another phase, or the end with a code.\<close>

datatype 'ph flow = Goes_On 'ph | Ends BeeErrorCode

text \<open>
  The graph is the described one: every phase's state is there, at \<open>ptr\<close>, with its router, its
  transforms and events of its classes.
\<close>

definition phase_state ::
    "('ph \<Rightarrow> ('c, 'x) state_spec) \<Rightarrow> ('ph \<Rightarrow> 'x \<Rightarrow> bool) \<Rightarrow> ('ph \<Rightarrow> 'x \<Rightarrow> bool) \<Rightarrow> 'ph \<Rightarrow> nat
      \<Rightarrow> ('c, 'x) AsyncStateMachine \<Rightarrow> bool" where
  "phase_state spec in_ok out_ok ph p m \<longleftrightarrow>
     map_of (state_graph m) (sp_id (spec ph)) = Some p
     \<and> st_router (fsm_heap m p) = Some (sp_router (spec ph))
     \<and> map_of (st_transforms (fsm_heap m p)) = map_of (sp_switches (spec ph))
     \<and> st_attached (fsm_heap m p)
     \<and> (\<exists>i. st_input (fsm_heap m p) = Some i \<and> in_ok ph (ev_extra i))
     \<and> (\<exists>out. st_output (fsm_heap m p) = Some out \<and> out_ok ph (ev_extra out))"

definition phase_machine ::
    "('ph \<Rightarrow> ('c, 'x) state_spec) \<Rightarrow> ('ph \<Rightarrow> 'x \<Rightarrow> bool) \<Rightarrow> ('ph \<Rightarrow> 'x \<Rightarrow> bool) \<Rightarrow> ('c \<Rightarrow> bool)
      \<Rightarrow> ('ph \<Rightarrow> nat) \<Rightarrow> ('c, 'x) AsyncStateMachine \<Rightarrow> bool" where
  "phase_machine spec in_ok out_ok mem_ok ptr m \<longleftrightarrow>
     fsm_ios m \<and> inj ptr \<and> (\<forall>ph. phase_state spec in_ok out_ok ph (ptr ph) m) \<and> mem_ok (members m)"

text \<open>What a step of the machine answers when the flow goes on, or ends.\<close>

definition follows ::
    "('ph \<Rightarrow> ('c, 'x) state_spec) \<Rightarrow> 'ph flow \<Rightarrow> ('ph \<Rightarrow> nat) \<Rightarrow> ('c, 'x) AsyncStateMachine \<Rightarrow> bool
      \<Rightarrow> ('c, 'x) AsyncStateMachine \<Rightarrow> bool" where
  "follows spec f ptr m ret m' \<longleftrightarrow>
     (case f of
        Goes_On ph \<Rightarrow> ret \<and> posted m' = posted m @ [ptr ph] \<and> current_state_id m' = sp_id (spec ph)
          \<and> outputs m' = outputs m \<and> (\<exists>i. st_input (fsm_heap m' (ptr ph)) = Some i \<and> ev_setup i)
      | Ends ec \<Rightarrow> \<not> ret \<and> posted m' = posted m \<and> current_state_id m' = current_state_id m
          \<and> (\<exists>ev. outputs m' = outputs m @ [ev] \<and> ev_ec1 ev = ec))"

lemma phase_state_cong:
  assumes "phase_state spec in_ok out_ok ph p m" and "state_graph m' = state_graph m"
    and "fsm_heap m' p = fsm_heap m p"
  shows "phase_state spec in_ok out_ok ph p m'"
  using assms by (simp add: phase_state_def)

lemma phase_machine_set_st:
  assumes "phase_machine spec in_ok out_ok mem_ok ptr m"
    and "phase_state spec in_ok out_ok ph (ptr ph) (set_st (ptr ph) s m)"
  shows "phase_machine spec in_ok out_ok mem_ok ptr (set_st (ptr ph) s m)"
proof -
  have "phase_state spec in_ok out_ok ph' (ptr ph') (set_st (ptr ph) s m)" for ph'
  proof (cases "ph' = ph")
    case True
    with assms(2) show ?thesis by simp
  next
    case False
    then have "ptr ph' \<noteq> ptr ph" using assms(1) by (simp add: phase_machine_def inj_eq)
    then show ?thesis
      using assms(1) by - (rule phase_state_cong [of spec in_ok out_ok ph' "ptr ph'" m],
        simp_all add: phase_machine_def set_st_def)
  qed
  then show ?thesis using assms(1) by (simp add: phase_machine_def set_st_def)
qed

lemma phase_machine_output:
  assumes "phase_machine spec in_ok out_ok mem_ok ptr m" and "out_ok ph (ev_extra ev)"
  shows "phase_machine spec in_ok out_ok mem_ok ptr (set_output_event (ptr ph) ev m)"
  using assms unfolding set_output_event_def
  by (intro phase_machine_set_st) (auto simp: phase_machine_def phase_state_def set_st_def)

lemma phase_machine_input:
  assumes "phase_machine spec in_ok out_ok mem_ok ptr m" and "in_ok ph (ev_extra i)"
  shows "phase_machine spec in_ok out_ok mem_ok ptr (set_st (ptr ph) ((fsm_heap m (ptr ph))\<lparr>st_input := Some i\<rparr>) m)"
  using assms
  by (intro phase_machine_set_st) (auto simp: phase_machine_def phase_state_def set_st_def)

lemma phase_machine_members:
  "phase_machine spec in_ok out_ok mem_ok ptr m \<Longrightarrow> mem_ok' c
    \<Longrightarrow> phase_machine spec in_ok out_ok mem_ok' ptr (m\<lparr>members := c\<rparr>)"
  by (simp add: phase_machine_def phase_state_def)

lemma phase_machine_rest:
  "phase_machine spec in_ok out_ok mem_ok ptr m
    \<Longrightarrow> phase_machine spec in_ok out_ok mem_ok ptr (m\<lparr>current_state_id := i, posted := ps\<rparr>)"
  "phase_machine spec in_ok out_ok mem_ok ptr m
    \<Longrightarrow> phase_machine spec in_ok out_ok mem_ok ptr (fsm_output ev m)"
  by (simp_all add: phase_machine_def phase_state_def fsm_output_def)

lemma phase_machine_state:
  assumes "phase_machine spec in_ok out_ok mem_ok ptr m"
  shows "map_of (state_graph m) (sp_id (spec ph)) = Some (ptr ph)"
    and "st_router (fsm_heap m (ptr ph)) = Some (sp_router (spec ph))"
    and "map_of (st_transforms (fsm_heap m (ptr ph))) = map_of (sp_switches (spec ph))"
    and "st_attached (fsm_heap m (ptr ph))" and "fsm_ios m"
    and "\<exists>i. st_input (fsm_heap m (ptr ph)) = Some i \<and> in_ok ph (ev_extra i)"
    and "\<exists>out. st_output (fsm_heap m (ptr ph)) = Some out \<and> out_ok ph (ev_extra out)"
    and "mem_ok (members m)"
  using assms by (simp_all add: phase_machine_def phase_state_def)

lemma follows_events:
  "follows spec f ptr (set_output_event p ev m) ret m' = follows spec f ptr m ret m'"
  by (cases f) (simp_all add: follows_def)

section \<open>The contract of routers and transforms\<close>

text \<open>
  What the router \<open>r\<close> and the transforms \<open>ts\<close> of a phase do with an output event: they stop, finish, or
  name a phase whose transform goes on or fails; whatever they do keeps the events and members well
  formed and is allowed.
\<close>

definition phase_obeys ::
    "('ph \<Rightarrow> int) \<Rightarrow> ('ph \<Rightarrow> 'x \<Rightarrow> bool) \<Rightarrow> ('ph \<Rightarrow> 'x \<Rightarrow> bool) \<Rightarrow> ('c \<Rightarrow> bool)
      \<Rightarrow> ('ph flow \<Rightarrow> 'c \<Rightarrow> bool) \<Rightarrow> 'ph \<Rightarrow> (int \<times> ('c, 'x) transform) list
      \<Rightarrow> int \<times> 'x state_event \<times> 'c \<Rightarrow> bool" where
  "phase_obeys pid in_ok out_ok mem_ok allowed ph ts answer \<longleftrightarrow>
     (case answer of (nxt, ev1, c1) \<Rightarrow>
       out_ok ph (ev_extra ev1) \<and> mem_ok c1
       \<and> (nxt = kInvalidState
            \<and> allowed (Ends (if ev_ec1 ev1 = kBeeErrorCode_Success then kBeeErrorCode_State_Machine_Interrupted
                             else ev_ec1 ev1)) c1
          \<or> nxt = kFinishedState \<and> allowed (Ends kBeeErrorCode_State_Machine_Finished) c1
          \<or> (\<exists>ph' t. nxt = pid ph' \<and> map_of ts nxt = Some t
              \<and> (\<forall>inp. in_ok ph' (ev_extra inp) \<longrightarrow>
                  (\<exists>ret out' in' c'. t c1 ev1 inp = (ret, out', in', c')
                    \<and> out_ok ph (ev_extra out') \<and> in_ok ph' (ev_extra in') \<and> mem_ok c'
                    \<and> (if ret then ev_setup in' \<and> allowed (Goes_On ph') c'
                       else allowed (Ends (ev_ec1 out')) c'))))))"

lemma phase_obeys_invalid:
  assumes "out_ok ph (ev_extra ev1)" and "mem_ok c1"
    and "allowed (Ends (if ev_ec1 ev1 = kBeeErrorCode_Success then kBeeErrorCode_State_Machine_Interrupted
                        else ev_ec1 ev1)) c1"
  shows "phase_obeys pid in_ok out_ok mem_ok allowed ph ts (kInvalidState, ev1, c1)"
  using assms by (simp add: phase_obeys_def)

lemma phase_obeys_finished:
  assumes "out_ok ph (ev_extra ev1)" and "mem_ok c1" and "allowed (Ends kBeeErrorCode_State_Machine_Finished) c1"
  shows "phase_obeys pid in_ok out_ok mem_ok allowed ph ts (kFinishedState, ev1, c1)"
  using assms by (simp add: phase_obeys_def)

lemma phase_obeys_switch:
  assumes "out_ok ph (ev_extra ev1)" and "mem_ok c1" and "nxt = pid ph'" and "map_of ts nxt = Some t"
    and "\<And>inp. in_ok ph' (ev_extra inp) \<Longrightarrow> \<exists>ret out' in' c'. t c1 ev1 inp = (ret, out', in', c')
      \<and> out_ok ph (ev_extra out') \<and> in_ok ph' (ev_extra in') \<and> mem_ok c'
      \<and> (if ret then ev_setup in' \<and> allowed (Goes_On ph') c' else allowed (Ends (ev_ec1 out')) c')"
  shows "phase_obeys pid in_ok out_ok mem_ok allowed ph ts (nxt, ev1, c1)"
  unfolding phase_obeys_def prod.case using assms by blast

text \<open>The same with the transform's answer as a premise.\<close>

lemma phase_obeys_answer:
  fixes ev1 :: "'x state_event"
  assumes "out_ok ph (ev_extra ev1)" and "mem_ok c1" and "nxt = pid ph'" and "map_of ts nxt = Some t"
    and "\<And>inp ret out' in' c'. in_ok ph' (ev_extra inp) \<Longrightarrow> t c1 ev1 inp = (ret, out', in', c') \<Longrightarrow>
      out_ok ph (ev_extra out') \<and> in_ok ph' (ev_extra in') \<and> mem_ok c'
      \<and> (if ret then ev_setup in' \<and> allowed (Goes_On ph') c' else allowed (Ends (ev_ec1 out')) c')"
  shows "phase_obeys pid in_ok out_ok mem_ok allowed ph ts (nxt, ev1, c1)"
proof (rule phase_obeys_switch [where ph' = ph' and t = t])
  fix inp :: "'x state_event" assume inp: "in_ok ph' (ev_extra inp)"
  obtain ret out' in' c' where t: "t c1 ev1 inp = (ret, out', in', c')" by (cases "t c1 ev1 inp")
  with assms(5) [OF inp t] show "\<exists>ret out' in' c'. t c1 ev1 inp = (ret, out', in', c')
      \<and> out_ok ph (ev_extra out') \<and> in_ok ph' (ev_extra in') \<and> mem_ok c'
      \<and> (if ret then ev_setup in' \<and> allowed (Goes_On ph') c' else allowed (Ends (ev_ec1 out')) c')" by blast
qed (rule assms)+

locale machine_flow =
  fixes phases :: "'ph list"
    and spec :: "'ph \<Rightarrow> ('c, 'x) state_spec"
    and in_ok :: "'ph \<Rightarrow> 'x \<Rightarrow> bool"
    and out_ok :: "'ph \<Rightarrow> 'x \<Rightarrow> bool"
    and mem_ok :: "'c \<Rightarrow> bool"
    and allows :: "'c \<Rightarrow> 'ph \<Rightarrow> 'x state_event \<Rightarrow> 'ph flow \<Rightarrow> 'c \<Rightarrow> bool"
  assumes all_phases: "\<And>ph. ph \<in> set phases"
    and distinct_ids: "distinct (map (\<lambda>ph. sp_id (spec ph)) phases)"
    and real_ids: "sp_id (spec ph) \<noteq> kInvalidState \<and> sp_id (spec ph) \<noteq> kFinishedState"
    and distinct_targets: "distinct (map fst (sp_switches (spec ph)))"
    and one_start: "length (filter (\<lambda>ph. sp_activate (spec ph)) phases) \<le> 1"
    and new_events: "in_ok ph (sp_input (spec ph)) \<and> out_ok ph (sp_output (spec ph))"
    and obeys: "mem_ok c \<Longrightarrow> out_ok ph (ev_extra ev) \<Longrightarrow> ev_setup ev \<Longrightarrow>
      phase_obeys (\<lambda>ph. sp_id (spec ph)) in_ok out_ok mem_ok (allows c ph ev) ph
        (sp_switches (spec ph)) (sp_router (spec ph) c ev)"
begin

abbreviation phase_id :: "'ph \<Rightarrow> int" where
  "phase_id ph \<equiv> sp_id (spec ph)"

abbreviation works :: "('ph \<Rightarrow> nat) \<Rightarrow> ('c, 'x) AsyncStateMachine \<Rightarrow> bool" where
  "works \<equiv> phase_machine spec in_ok out_ok mem_ok"

lemma phase_id_eq: "phase_id x = phase_id y \<longleftrightarrow> x = y"
  using distinct_ids all_phases unfolding distinct_map inj_on_def by blast

text \<open>The description builds its graph.\<close>

lemma graph_built:
  "\<exists>m ptr. setup_state_machine (map spec phases) (AsyncStateMachine_new True c) = (True, m)
    \<and> members m = c \<and> fsm_ios m \<and> posted m = [] \<and> outputs m = [] \<and> current_state_id m = - 1
    \<and> state_graph m \<noteq> [] \<and> (\<forall>ph. built_at (ptr ph) (spec ph) m)
    \<and> phase_machine spec in_ok out_ok (\<lambda>_. True) ptr m"
proof -
  let ?sps = "map spec phases" and ?m = "AsyncStateMachine_new True c"
  have "fsm_wf ?m" by (simp add: fsm_wf_def AsyncStateMachine_new_def)
  moreover have "distinct (map sp_id ?sps)" using distinct_ids by (simp add: comp_def)
  moreover have "\<forall>sp \<in> set ?sps. distinct (map fst (sp_switches sp))" using distinct_targets by simp
  moreover have "length (filter sp_activate ?sps) \<le> 1" using one_start by (simp add: filter_map comp_def)
  moreover have "?sps \<noteq> []" using all_phases by (metis list.set(1) empty_iff map_is_Nil_conv)
  ultimately obtain m where m: "setup_state_machine ?sps ?m = (True, m)" "fsm_wf m"
    "\<forall>sp \<in> set ?sps. \<exists>p. built_at p sp m" "posted m = []" "outputs m = []" "current_state_id m = - 1"
    "fsm_ios m" "members m = c"
    using setup_adds [of ?sps ?m] by (auto simp: AsyncStateMachine_new_def)
  define ptr where "ptr ph = the (map_of (state_graph m) (phase_id ph))" for ph
  have b: "built_at (ptr ph) (spec ph) m" for ph
    using m(3) all_phases [of ph] by (auto simp: ptr_def built_at_def)
  have "inj ptr"
  proof (rule injI)
    fix x y assume "ptr x = ptr y"
    with b [of x] b [of y] have "phase_id x = phase_id y" by (simp add: built_at_def)
    then show "x = y" by (simp add: phase_id_eq)
  qed
  moreover have "phase_state spec in_ok out_ok ph (ptr ph) m" for ph
    using b [of ph] new_events [of ph] by (simp add: phase_state_def built_at_def StateEvent_new_def)
  moreover have "state_graph m \<noteq> []" using b [of undefined] by (auto simp: built_at_def)
  ultimately show ?thesis using m b
    by (intro exI [of _ m] exI [of _ ptr]) (simp add: phase_machine_def)
qed

text \<open>Stopping, by \<open>kInvalidState\<close> or \<open>kFinishedState\<close>.\<close>

lemma stops:
  assumes "works ptr m" and "st_output (fsm_heap m (ptr ph)) = Some ev" and "ev_setup ev"
    and "sp_router (spec ph) (members m) ev = (nxt, ev1, c)" and "out_ok ph (ev_extra ev1)" and "mem_ok c"
    and "nxt = kInvalidState
        \<and> ec = (if ev_ec1 ev1 = kBeeErrorCode_Success then kBeeErrorCode_State_Machine_Interrupted else ev_ec1 ev1)
      \<or> nxt = kFinishedState \<and> ec = kBeeErrorCode_State_Machine_Finished"
  shows "\<exists>m'. state_done (ptr ph) m = Some (False, m') \<and> works ptr m' \<and> members m' = c
    \<and> follows spec (Ends ec) ptr m False m'"
proof -
  note st = phase_machine_state(1-4) [OF assms(1), of ph]
  obtain ev2 where ev2: "state_done (ptr ph) m
      = Some (False, fsm_output ev2 (set_output_event (ptr ph) ev2 (m\<lparr>members := c\<rparr>)))"
    "ev_extra ev2 = ev_extra ev1" "ev_ec1 ev2 = ec"
    using assms(7)
  proof (elim disjE conjE)
    assume n: "nxt = kInvalidState"
      "ec = (if ev_ec1 ev1 = kBeeErrorCode_Success then kBeeErrorCode_State_Machine_Interrupted else ev_ec1 ev1)"
    from done_invalid [OF assms(2,3) st(2,4) assms(4) [unfolded n(1)] refl] n(2) that show ?thesis
      by (auto split: if_splits)
  next
    assume n: "nxt = kFinishedState" "ec = kBeeErrorCode_State_Machine_Finished"
    from done_finished [OF assms(2,3) st(2,4) assms(4) [unfolded n(1)] refl] n(2) that show ?thesis by simp
  qed
  have "works ptr (fsm_output ev2 (set_output_event (ptr ph) ev2 (m\<lparr>members := c\<rparr>)))"
    using assms(5,6) ev2(2)
    by (intro phase_machine_rest phase_machine_output phase_machine_members [OF assms(1)]) simp_all
  with ev2 show ?thesis by (simp add: follows_def fsm_output_def)
qed

text \<open>Switching: the transform goes on, or fails and the event is reported.\<close>

lemma switches:
  assumes "works ptr m" and "st_output (fsm_heap m (ptr ph)) = Some ev" and "ev_setup ev"
    and "sp_router (spec ph) (members m) ev = (phase_id ph', ev1, c)"
    and "map_of (sp_switches (spec ph)) (phase_id ph') = Some t"
    and "st_input (fsm_heap m (ptr ph')) = Some inp" and "t c ev1 inp = (ret, out', in', c')"
    and "out_ok ph (ev_extra out')" and "in_ok ph' (ev_extra in')" and "mem_ok c'"
    and "if ret then ev_setup in' \<and> f = Goes_On ph' else f = Ends (ev_ec1 out')"
  shows "\<exists>m'. state_done (ptr ph) m = Some (ret, m') \<and> works ptr m' \<and> members m' = c'
    \<and> follows spec f ptr m ret m'"
proof -
  note st = phase_machine_state(1-4) [OF assms(1), of ph] phase_machine_state(5) [OF assms(1)]
  define m1 where "m1 = set_output_event (ptr ph) out' (m\<lparr>members := c'\<rparr>)"
  define m2 where "m2 = set_st (ptr ph') ((fsm_heap m1 (ptr ph'))\<lparr>st_input := Some in'\<rparr>) m1"
  have dn: "state_done (ptr ph) m =
      (if ret then Some (True, m2\<lparr>current_state_id := phase_id ph', posted := posted m @ [ptr ph']\<rparr>)
       else Some (False, fsm_output out' m2))"
    by (rule done_switches [of m "ptr ph" ev "sp_router (spec ph)" "phase_id ph'" ev1 c t "ptr ph'"
          inp ret out' in' c' m1 m2])
      (use assms(2-7) st real_ids [of ph'] phase_machine_state(1) [OF assms(1), of ph'] m1_def m2_def
        in \<open>simp_all only: not_False_eq_True\<close>)
  have sm: "works ptr m2"
    unfolding m2_def m1_def using assms(8-10)
    by (intro phase_machine_input phase_machine_output phase_machine_members [OF assms(1)])
  moreover have "posted m2 = posted m" "outputs m2 = outputs m" "current_state_id m2 = current_state_id m"
    "st_input (fsm_heap m2 (ptr ph')) = Some in'" "members m2 = c'"
    by (simp_all add: m2_def m1_def set_st_def)
  ultimately show ?thesis using dn assms(11) sm phase_machine_rest(2) [OF sm, of out']
    by (cases ret) (auto simp: follows_def phase_machine_rest fsm_output_def)
qed

text \<open>One report of a state's handler, and what the machine does with it.\<close>

lemma implements:
  assumes "works ptr m" and "st_output (fsm_heap m (ptr ph)) = Some ev" and "ev_setup ev"
  shows "\<exists>f ret m'. state_done_ec ec1 ec2 (ptr ph) m = Some (ret, m') \<and> works ptr m'
    \<and> allows (members m) ph (ev\<lparr>ev_ec1 := ec1, ev_ec2 := ec2\<rparr>) f (members m') \<and> follows spec f ptr m ret m'"
proof -
  let ?ev = "ev\<lparr>ev_ec1 := ec1, ev_ec2 := ec2\<rparr>"
  define m0 where "m0 = set_output_event (ptr ph) ?ev m"
  have x: "out_ok ph (ev_extra ev)" using phase_machine_state(7) [OF assms(1), of ph] assms(2) by simp
  then have m0: "works ptr m0" unfolding m0_def by (intro phase_machine_output assms(1)) simp
  have out: "st_output (fsm_heap m0 (ptr ph)) = Some ?ev" "ev_setup ?ev" "members m0 = members m"
    using assms(3) by (simp_all add: m0_def)
  obtain nxt ev1 c1 where r: "sp_router (spec ph) (members m0) ?ev = (nxt, ev1, c1)"
    by (cases "sp_router (spec ph) (members m0) ?ev")
  have ob: "phase_obeys (\<lambda>ph. sp_id (spec ph)) in_ok out_ok mem_ok (allows (members m) ph ?ev) ph
        (sp_switches (spec ph)) (nxt, ev1, c1)"
    using obeys [of "members m" ph ?ev] phase_machine_state(8) [OF assms(1)] x assms(3) r out(3) by simp
  then have ok: "out_ok ph (ev_extra ev1)" "mem_ok c1" by (simp_all add: phase_obeys_def)
  have "\<exists>f ret m'. state_done (ptr ph) m0 = Some (ret, m') \<and> works ptr m'
    \<and> allows (members m) ph ?ev f (members m') \<and> follows spec f ptr m0 ret m'"
  proof -
    consider (stop) ec where "nxt = kInvalidState
        \<and> ec = (if ev_ec1 ev1 = kBeeErrorCode_Success then kBeeErrorCode_State_Machine_Interrupted else ev_ec1 ev1)
        \<or> nxt = kFinishedState \<and> ec = kBeeErrorCode_State_Machine_Finished"
        "allows (members m) ph ?ev (Ends ec) c1"
      | (switch) ph' t where "nxt = phase_id ph'" "map_of (sp_switches (spec ph)) nxt = Some t"
        "\<forall>inp. in_ok ph' (ev_extra inp) \<longrightarrow>
          (\<exists>ret out' in' c'. t c1 ev1 inp = (ret, out', in', c')
            \<and> out_ok ph (ev_extra out') \<and> in_ok ph' (ev_extra in') \<and> mem_ok c'
            \<and> (if ret then ev_setup in' \<and> allows (members m) ph ?ev (Goes_On ph') c'
               else allows (members m) ph ?ev (Ends (ev_ec1 out')) c'))"
      using ob unfolding phase_obeys_def by auto
    then show ?thesis
    proof cases
      case stop
      from stops [OF m0 out(1,2) r ok stop(1)] stop(2) show ?thesis by blast
    next
      case switch
      obtain inp where inp: "st_input (fsm_heap m0 (ptr ph')) = Some inp" "in_ok ph' (ev_extra inp)"
        using phase_machine_state(6) [OF m0] by blast
      from switch(3) inp(2) obtain ret out' in' c' where t: "t c1 ev1 inp = (ret, out', in', c')"
        and t': "out_ok ph (ev_extra out')" "in_ok ph' (ev_extra in')" "mem_ok c'"
        "if ret then ev_setup in' \<and> allows (members m) ph ?ev (Goes_On ph') c'
         else allows (members m) ph ?ev (Ends (ev_ec1 out')) c'" by blast
      define f where "f = (if ret then Goes_On ph' else Ends (ev_ec1 out'))"
      have "if ret then ev_setup in' \<and> f = Goes_On ph' else f = Ends (ev_ec1 out')" using t'(4) by (simp add: f_def)
      from switches [OF m0 out(1,2) r [unfolded switch(1)] switch(2) [unfolded switch(1)] inp(1) t t'(1-3) this]
        t'(4) show ?thesis by (auto simp: f_def split: if_splits)
    qed
  qed
  then show ?thesis unfolding done_ec_event [OF assms(2)] m0_def follows_events .
qed

text \<open>An event that was not set up is reported with the handler's codes; no router is asked.\<close>

lemma unset_reports:
  assumes "works ptr m" and "st_output (fsm_heap m (ptr ph)) = Some ev" and "\<not> ev_setup ev"
  shows "\<exists>m'. state_done_ec ec1 ec2 (ptr ph) m = Some (False, m') \<and> works ptr m' \<and> members m' = members m
    \<and> outputs m' = outputs m @ [ev\<lparr>ev_ec1 := ec1, ev_ec2 := ec2\<rparr>] \<and> follows spec (Ends ec1) ptr m False m'"
proof -
  let ?ev = "ev\<lparr>ev_ec1 := ec1, ev_ec2 := ec2\<rparr>"
  have x: "out_ok ph (ev_extra ev)" using phase_machine_state(7) [OF assms(1), of ph] assms(2) by simp
  have "works ptr (fsm_output ?ev (set_output_event (ptr ph) ?ev m))"
    using x by (intro phase_machine_rest phase_machine_output assms(1)) simp
  moreover have "state_done_ec ec1 ec2 (ptr ph) m = Some (False, fsm_output ?ev (set_output_event (ptr ph) ?ev m))"
    using assms(2,3) phase_machine_state(4) [OF assms(1), of ph]
    by (simp add: done_ec_event state_done_def switch_to_next_def switch_to_next_core_def state_output_def)
  ultimately show ?thesis by (simp add: follows_def fsm_output_def)
qed

end

end
