(* ===== verification/Bee_Http_Session.thy ===== *)
theory Bee_Http_Session
  imports Bee_Http_Body Bee_Timer Bee_Flow
begin

text \<open>
  \<open>HttpStateMachine\<close> (the end of src/network/http_state_machine.cpp) and \<open>HttpSession\<close>
  (src/network/http_session.cpp and .h): the request, redirection, and the five states of a session with
  the routers and transforms between them, as an instance of the asynchronous state machine.

  Who uses a session is a parameter: a handler, a table of callbacks and the methods a derived class
  overrides are functions that answer a notice; the session's record keeps what was told to whom, in
  order. A member function that runs into undefined behaviour inside a router or transform (a failed
  assertion, an event of another class) sets \<open>hm_undefined\<close>.

  The routers, the transforms and the machine under them together are shown to implement the flow of a
  session: which state follows, or with which code the session ends.
\<close>

section \<open>State\<close>

definition kHttpStateType_Request :: int where "kHttpStateType_Request = 6"
definition kHttpStateType_ReadHeader :: int where "kHttpStateType_ReadHeader = 7"
definition kHttpStateType_ReadBody :: int where "kHttpStateType_ReadBody = 8"

definition eHttpState_Resolve :: int where "eHttpState_Resolve = 0"
definition eHttpState_Connect :: int where "eHttpState_Connect = 1"
definition eHttpState_Request :: int where "eHttpState_Request = 2"
definition eHttpState_RcvHeader :: int where "eHttpState_RcvHeader = 3"
definition eHttpState_RcvBody :: int where "eHttpState_RcvBody = 4"

text \<open>What a session's user is told, and by which of the three ways.\<close>

datatype 'ep http_notice =
    Notice_Resolve BeeErrorCode error_code "'ep list"
  | Notice_Connect BeeErrorCode error_code "'ep option"
  | Notice_Send BeeErrorCode error_code nat
  | Notice_Header BeeErrorCode error_code HttpResponse
  | Notice_Redirect nat string
  | Notice_Content BeeErrorCode error_code "char iobuffer"

datatype http_party = Http_Handler | Http_Callback | Http_Self

record 'ep http_client =
  http_handler :: "('ep http_notice \<Rightarrow> bool) option"
  http_callbacks :: "'ep http_notice \<Rightarrow> bool option"  \<comment> \<open>\<open>None\<close>: that callback is not set\<close>
  http_self :: "'ep http_notice \<Rightarrow> BeeErrorCode"

record 'ep http_members =
  hm_tcp :: tcp_members
  hm_request :: "HttpRequest option"
  hm_response :: "HttpResponse option"
  hm_cookie :: string
  hm_user_agent :: string
  hm_proxy_host :: string
  hm_proxy_port :: nat
  hm_wait_complete :: bool
  hm_timer :: MillisecTimer
  hm_told :: "(http_party \<times> 'ep http_notice) list"
  hm_undefined :: bool

type_synonym 'ep http_machine = "('ep http_members, 'ep tcp_extra) AsyncStateMachine"

definition HttpSession_new :: "bool \<Rightarrow> u64 \<Rightarrow> 'ep http_members" where
  "HttpSession_new loaded now = \<lparr>hm_tcp = TcpStateMachine_new loaded, hm_request = None,
     hm_response = None, hm_cookie = [], hm_user_agent = [], hm_proxy_host = [], hm_proxy_port = 0,
     hm_wait_complete = True, hm_timer = millisec_restart now, hm_told = [], hm_undefined = False\<rparr>"

section \<open>Requests and redirection\<close>

text \<open>The inner option is the null pointer; the outer one a failed assertion.\<close>

definition setup_request ::
    "string \<Rightarrow> string \<Rightarrow> int \<Rightarrow> int \<Rightarrow> 'ep http_members \<Rightarrow> HttpRequest option option" where
  "setup_request url ref_url range_start range_end c =
     (if url = [] then Some None
      else case create_from_url url ref_url range_start range_end of
          None \<Rightarrow> None
        | Some None \<Rightarrow> Some None
        | Some (Some r) \<Rightarrow>
            do {
              r1 \<leftarrow> (if hm_user_agent c \<noteq> [] then rq_set_header ''User-Agent'' (hm_user_agent c) r else Some r);
              r2 \<leftarrow> (if hm_cookie c \<noteq> [] then rq_set_header ''Cookie'' (hm_cookie c) r1 else Some r1);
              r3 \<leftarrow> (if hm_proxy_host c \<noteq> [] \<and> hm_proxy_port c > 0
                     then rq_set_proxy (hm_proxy_host c) (hm_proxy_port c) r2 else Some r2);
              Some (Some r3)
            })"

text \<open>
  \<open>HttpStateMachine::request\<close>. \<open>None\<close>: a failed assertion, an \<open>is_https\<close> that was never set, or a
  machine without a start state, whose pointer the code dereferences.
\<close>

definition http_request ::
    "('ep http_members, 'ep tcp_extra) state_spec list \<Rightarrow> bool \<Rightarrow> string \<Rightarrow> string \<Rightarrow> int \<Rightarrow> int
      \<Rightarrow> 'ep http_machine \<Rightarrow> (bool \<times> 'ep http_machine) option" where
  "http_request specs verify_ok url ref_url range_start range_end m =
     (let (ret, m1) = setup_state_machine specs m
      in if \<not> ret then Some (False, m1)
         else case setup_request url ref_url range_start range_end (members m1) of
             None \<Rightarrow> None
           | Some req \<Rightarrow>
               (let m2 = m1\<lparr>members := (members m1)\<lparr>hm_request := req\<rparr>\<rparr>
                in case req of
                     None \<Rightarrow> Some (False, m2)
                   | Some r \<Rightarrow>
                       (case rq_is_https r of
                          None \<Rightarrow> None
                        | Some https \<Rightarrow>
                            (let (host, port) = rq_get_conn_host_port r ([], 0);
                                 (ok, t) = setup_socket (fsm_ios m2) verify_ok https host (hm_tcp (members m2));
                                 m3 = m2\<lparr>members := (members m2)\<lparr>hm_tcp := t\<rparr>\<rparr>
                             in if \<not> ok then Some (False, m3)
                                else case activate_state m3 of
                                    None \<Rightarrow> None
                                  | Some p \<Rightarrow>
                                      if st_type (fsm_heap m3 p) \<noteq> kTcpStateType_Resolve then Some (False, m3)
                                      else
                                        (let (set, s) = resolve_setup_input_event host (show_nat port) (fsm_heap m3 p);
                                             m4 = set_st p s m3
                                         in if \<not> set then Some (False, m4)
                                            else Some (activate_state_machine m4))))))"

definition session_request ::
    "('ep http_members, 'ep tcp_extra) state_spec list \<Rightarrow> bool \<Rightarrow> u64 \<Rightarrow> string \<Rightarrow> string \<Rightarrow> int \<Rightarrow> int
      \<Rightarrow> 'ep http_machine \<Rightarrow> (bool \<times> 'ep http_machine) option" where
  "session_request specs verify_ok now url ref_url range_start range_end m =
     map_option
       (\<lambda>(ret, m'). (ret, if ret then m'\<lparr>members := (members m')\<lparr>hm_timer := millisec_restart now\<rparr>\<rparr> else m'))
       (http_request specs verify_ok url ref_url range_start range_end m)"

text \<open>The new host, if the location names one, and the new path.\<close>

definition redirect_parts :: "string \<Rightarrow> string option \<times> string" where
  "redirect_parts url =
     (if str_find url ''http://'' 0 = Some 0 then
        (case find_char url (CHR ''/'') 7 of
           Some end_pos \<Rightarrow> (Some (substr url 7 (end_pos - 7)), substr_from url end_pos)
         | None \<Rightarrow> (Some (substr_from url 7), ''/''))
      else (None, (if find_char url (CHR ''/'') 0 \<noteq> Some 0 then ''/'' else []) @ url))"

text \<open>\<open>host\<close> and \<open>service\<close> are the caller's, empty when the session calls.\<close>

definition redirect ::
    "bool \<Rightarrow> bool \<Rightarrow> string \<Rightarrow> string \<Rightarrow> 'ep http_members
      \<Rightarrow> (bool \<times> string \<times> string \<times> 'ep http_members) option" where
  "redirect ios verify_ok url host c =
     (case hm_request c of
        None \<Rightarrow> None
      | Some r \<Rightarrow>
          (let (real_host, real_path) = redirect_parts url
           in case (case real_host of None \<Rightarrow> Some r | Some h \<Rightarrow> rq_set_host h r) of
                None \<Rightarrow> None
              | Some r1 \<Rightarrow>
                  (let r2 = r1\<lparr>rq_path := real_path\<rparr>;
                       (host', port) = rq_get_conn_host_port r2 (host, 0)
                   in case rq_is_https r2 of
                        None \<Rightarrow> None
                      | Some https \<Rightarrow>
                          (let (ok, t) = setup_socket ios verify_ok https host' (hm_tcp c)
                           in Some (ok, host', show_nat port,
                                c\<lparr>hm_request := Some r2, hm_tcp := t\<rparr>)))))"

section \<open>Routers\<close>

definition tell :: "http_party \<Rightarrow> 'ep http_notice \<Rightarrow> 'ep http_members \<Rightarrow> 'ep http_members" where
  "tell party notice c = c\<lparr>hm_told := hm_told c @ [(party, notice)]\<rparr>"

text \<open>
  The middle of every router: the handler is asked first, then the callback, each of which may stop the
  session (\<open>None\<close>), then the session's own method, which answers a code.
\<close>

definition consult ::
    "'ep http_client \<Rightarrow> 'ep http_notice \<Rightarrow> 'ep http_members \<Rightarrow> BeeErrorCode option \<times> 'ep http_members" where
  "consult cl notice c =
     (let (go, c1) = (case http_handler cl of
            None \<Rightarrow> (True, c) | Some h \<Rightarrow> (h notice, tell Http_Handler notice c))
      in if \<not> go then (None, c1)
         else
           (let (go2, c2) = (case http_callbacks cl notice of
                  None \<Rightarrow> (True, c1) | Some answer \<Rightarrow> (answer, tell Http_Callback notice c1))
            in if \<not> go2 then (None, c2)
               else (Some (http_self cl notice), tell Http_Self notice c2)))"

definition route ::
    "'ep http_client \<Rightarrow> int \<Rightarrow> ('ep tcp_extra state_event \<Rightarrow> 'ep http_notice option)
      \<Rightarrow> 'ep http_members \<Rightarrow> 'ep tcp_extra state_event \<Rightarrow> int \<times> 'ep tcp_extra state_event \<times> 'ep http_members" where
  "route cl nxt notice_of c ev =
     (if ev_ec1 ev \<noteq> kBeeErrorCode_Success \<or> ec_set (ev_ec2 ev) then (kInvalidState, ev, c)
      else case notice_of ev of
          None \<Rightarrow> (kInvalidState, ev, c\<lparr>hm_undefined := True\<rparr>)
        | Some notice \<Rightarrow>
            (case consult cl notice c of
               (None, c1) \<Rightarrow> (kInvalidState, ev, c1)
             | (Some ec, c1) \<Rightarrow>
                 (if ec \<noteq> kBeeErrorCode_Success then kInvalidState else nxt, ev\<lparr>ev_ec1 := ec\<rparr>, c1)))"

fun resolve_notice :: "'ep tcp_extra state_event \<Rightarrow> 'ep http_notice option" where
  "resolve_notice ev =
     (case ev_extra ev of
        Resolve_Output eps \<Rightarrow> Some (Notice_Resolve (ev_ec1 ev) (ev_ec2 ev) eps) | _ \<Rightarrow> None)"

fun connect_notice :: "'ep tcp_extra state_event \<Rightarrow> 'ep http_notice option" where
  "connect_notice ev =
     (case ev_extra ev of
        Connect_Output ep i \<Rightarrow> Some (Notice_Connect (ev_ec1 ev) (ev_ec2 ev) ep) | _ \<Rightarrow> None)"

fun send_notice :: "'ep tcp_extra state_event \<Rightarrow> 'ep http_notice option" where
  "send_notice ev =
     (case ev_extra ev of
        Send_Output n \<Rightarrow> Some (Notice_Send (ev_ec1 ev) (ev_ec2 ev) n) | _ \<Rightarrow> None)"

definition content_notice :: "'ep tcp_extra state_event \<Rightarrow> 'ep http_notice" where
  "content_notice ev = Notice_Content (ev_ec1 ev) (ev_ec2 ev) (ev_data ev)"

definition on_resolve :: "'ep http_client \<Rightarrow> ('ep http_members, 'ep tcp_extra) router" where
  "on_resolve cl = route cl eHttpState_Connect resolve_notice"

definition on_connect :: "'ep http_client \<Rightarrow> ('ep http_members, 'ep tcp_extra) router" where
  "on_connect cl = route cl eHttpState_Request connect_notice"

definition on_request :: "'ep http_client \<Rightarrow> ('ep http_members, 'ep tcp_extra) router" where
  "on_request cl = route cl eHttpState_RcvHeader send_notice"

definition on_rcv_body :: "'ep http_client \<Rightarrow> ('ep http_members, 'ep tcp_extra) router" where
  "on_rcv_body cl = route cl kFinishedState (\<lambda>ev. Some (content_notice ev))"

definition redirect_codes :: "nat list" where
  "redirect_codes = [301, 302, 303, 307]"

text \<open>Of the codes 300 to 307 four are redirections; the others end the session.\<close>

definition on_rcv_header :: "'ep http_client \<Rightarrow> ('ep http_members, 'ep tcp_extra) router" where
  "on_rcv_header cl c ev =
     (if ev_ec1 ev \<noteq> kBeeErrorCode_Success \<or> ec_set (ev_ec2 ev) then (kInvalidState, ev, c)
      else case hm_response c of
          None \<Rightarrow> (kInvalidState, ev, c)
        | Some response \<Rightarrow>
            (case consult cl (Notice_Header (ev_ec1 ev) (ev_ec2 ev) response) c of
               (None, c1) \<Rightarrow> (kInvalidState, ev, c1)
             | (Some ec, c1) \<Rightarrow>
                 (let ev1 = ev\<lparr>ev_ec1 := ec\<rparr>; status_code = rs_status_code response
                  in if ec \<noteq> kBeeErrorCode_Success then (kInvalidState, ev1, c1)
                     else if 300 \<le> status_code \<and> status_code \<le> 307 then
                       (if status_code \<in> set redirect_codes then
                          (let notice = Notice_Redirect status_code (rs_get_header ''Location'' response);
                               c2 = tell Http_Self notice c1; ev2 = ev1\<lparr>ev_ec1 := http_self cl notice\<rparr>
                           in if http_self cl notice \<noteq> kBeeErrorCode_Success then (kInvalidState, ev2, c2)
                              else (eHttpState_Resolve, ev2, c2))
                        else (kInvalidState, ev1, c1))
                     else (eHttpState_RcvBody, ev1, c1))))"

text \<open>\<open>HttpSession::output\<close>; the condition on \<open>handle_rcv_content\<close>'s code decides nothing.\<close>

definition session_output ::
    "'ep http_client \<Rightarrow> 'ep tcp_extra state_event \<Rightarrow> 'ep http_members \<Rightarrow> 'ep http_members" where
  "session_output cl ev c =
     (let notice = content_notice ev;
          (go, c1) = (case http_handler cl of
            None \<Rightarrow> (True, c) | Some h \<Rightarrow> (h notice, tell Http_Handler notice c))
      in if \<not> go then c1
         else tell Http_Self notice
           (case http_callbacks cl notice of None \<Rightarrow> c1 | Some _ \<Rightarrow> tell Http_Callback notice c1))"

section \<open>Transforms\<close>

definition transform_resolve_to_connect :: "('ep http_members, 'ep tcp_extra) transform" where
  "transform_resolve_to_connect c inp out =
     (case (ev_extra inp, ev_extra out) of
        (Resolve_Output eps, Connect_Input _ start_index connect_timeout) \<Rightarrow>
          if eps = [] then (False, inp\<lparr>ev_ec1 := kBeeErrorCode_Resolve_Fail\<rparr>, out, c)
          else (True, inp, out\<lparr>ev_extra := Connect_Input eps start_index connect_timeout, ev_setup := True\<rparr>, c)
      | _ \<Rightarrow> (False, inp, out, c\<lparr>hm_undefined := True\<rparr>))"

definition transform_connect_to_request :: "('ep http_members, 'ep tcp_extra) transform" where
  "transform_connect_to_request c inp out = (True, inp, out\<lparr>ev_setup := True\<rparr>, c)"

definition transform_send_request_to_rcv_header :: "('ep http_members, 'ep tcp_extra) transform" where
  "transform_send_request_to_rcv_header c inp out = (True, inp, out\<lparr>ev_setup := True\<rparr>, c)"

text \<open>\<open>ios\<close> and \<open>verify_ok\<close> are what the socket is set up with.\<close>

definition transform_rcv_header_to_redirection ::
    "bool \<Rightarrow> bool \<Rightarrow> ('ep http_members, 'ep tcp_extra) transform" where
  "transform_rcv_header_to_redirection ios verify_ok c inp out =
     (case hm_response c of
        None \<Rightarrow> (False, inp, out, c)
      | Some response \<Rightarrow>
          (let real_url = rs_get_header ''Location'' response
           in if real_url = [] then (False, inp, out, c)
              else case redirect ios verify_ok real_url [] c of
                  None \<Rightarrow> (False, inp, out, c\<lparr>hm_undefined := True\<rparr>)
                | Some (ret, host, service, c1) \<Rightarrow>
                    if \<not> ret then (False, inp, out, c1)
                    else (True, inp, out\<lparr>ev_extra := Resolve_Input host service, ev_setup := True\<rparr>, c1)))"

definition transform_rcv_header_to_rcv_body :: "('ep http_members, 'ep tcp_extra) transform" where
  "transform_rcv_header_to_rcv_body c inp out =
     (True, inp, out\<lparr>ev_extra := Rcv_Body_Input (hm_wait_complete c), ev_setup := True\<rparr>, c)"

section \<open>The machine of a session\<close>

definition http_session_specs ::
    "bool \<Rightarrow> bool \<Rightarrow> 'ep http_client \<Rightarrow> ('ep http_members, 'ep tcp_extra) state_spec list" where
  "http_session_specs ios verify_ok cl =
     [\<lparr>sp_id = eHttpState_Resolve, sp_type = kTcpStateType_Resolve, sp_router = on_resolve cl,
        sp_activate = True, sp_input = Resolve_Input [] [], sp_output = Resolve_Output [],
        sp_switches = [(eHttpState_Connect, transform_resolve_to_connect)]\<rparr>,
      \<lparr>sp_id = eHttpState_Connect, sp_type = kTcpStateType_Connect, sp_router = on_connect cl,
        sp_activate = False, sp_input = Connect_Input [] 0 kDefaultTcpConnectTimeout,
        sp_output = Connect_Output None (- 1),
        sp_switches = [(eHttpState_Request, transform_connect_to_request)]\<rparr>,
      \<lparr>sp_id = eHttpState_Request, sp_type = kHttpStateType_Request, sp_router = on_request cl,
        sp_activate = False, sp_input = Plain_Event, sp_output = Send_Output 0,
        sp_switches = [(eHttpState_RcvHeader, transform_send_request_to_rcv_header)]\<rparr>,
      \<lparr>sp_id = eHttpState_RcvHeader, sp_type = kHttpStateType_ReadHeader, sp_router = on_rcv_header cl,
        sp_activate = False, sp_input = Plain_Event, sp_output = Plain_Event,
        sp_switches = [(eHttpState_Resolve, transform_rcv_header_to_redirection ios verify_ok),
          (eHttpState_RcvBody, transform_rcv_header_to_rcv_body)]\<rparr>,
      \<lparr>sp_id = eHttpState_RcvBody, sp_type = kHttpStateType_ReadBody, sp_router = on_rcv_body cl,
        sp_activate = False, sp_input = Rcv_Body_Input True, sp_output = Plain_Event, sp_switches = []\<rparr>]"

section \<open>The flow of a session\<close>

text \<open>
  What a session is to do, without routers, transforms and events: the phases, and for a phase whose
  handler reported success with its data the next phase or the code the session ends with.
\<close>

datatype http_phase = Resolving | Connecting | Requesting | Reading_Header | Reading_Body

type_synonym http_flow = "http_phase flow"

fun phase_id :: "http_phase \<Rightarrow> int" where
  "phase_id Resolving = eHttpState_Resolve"
| "phase_id Connecting = eHttpState_Connect"
| "phase_id Requesting = eHttpState_Request"
| "phase_id Reading_Header = eHttpState_RcvHeader"
| "phase_id Reading_Body = eHttpState_RcvBody"

text \<open>Whether everybody who is asked agrees, and the code if not.\<close>

definition verdict :: "'ep http_client \<Rightarrow> 'ep http_notice \<Rightarrow> BeeErrorCode" where
  "verdict cl notice =
     (if (case http_handler cl of None \<Rightarrow> False | Some h \<Rightarrow> \<not> h notice)
        \<or> http_callbacks cl notice = Some False then kBeeErrorCode_State_Machine_Interrupted
      else http_self cl notice)"

definition if_agreed :: "BeeErrorCode \<Rightarrow> http_flow \<Rightarrow> http_flow" where
  "if_agreed ec f = (if ec = kBeeErrorCode_Success then f else Ends ec)"

text \<open>\<open>reachable\<close> says whether the socket for a redirection's target can be set up.\<close>

definition header_flow :: "'ep http_client \<Rightarrow> bool \<Rightarrow> HttpResponse option \<Rightarrow> http_flow" where
  "header_flow cl reachable response =
     (case response of
        None \<Rightarrow> Ends kBeeErrorCode_State_Machine_Interrupted
      | Some r \<Rightarrow>
          if_agreed (verdict cl (Notice_Header kBeeErrorCode_Success Ec_Ok r))
            (if rs_status_code r \<in> {301, 302, 303, 307} then
               (let code = http_self cl (Notice_Redirect (rs_status_code r) (rs_get_header ''Location'' r))
                in if_agreed code
                     (if rs_get_header ''Location'' r \<noteq> [] \<and> reachable then Goes_On Resolving
                      else Ends kBeeErrorCode_Success))
             else if rs_status_code r \<in> {300, 304, 305, 306} then Ends kBeeErrorCode_State_Machine_Interrupted
             else Goes_On Reading_Body))"

definition http_flow_next ::
    "'ep http_client \<Rightarrow> bool \<Rightarrow> HttpResponse option \<Rightarrow> http_phase \<Rightarrow> 'ep tcp_extra \<Rightarrow> char iobuffer \<Rightarrow> http_flow" where
  "http_flow_next cl reachable response ph x data =
     (case (ph, x) of
        (Resolving, Resolve_Output eps) \<Rightarrow>
          if_agreed (verdict cl (Notice_Resolve kBeeErrorCode_Success Ec_Ok eps))
            (if eps = [] then Ends kBeeErrorCode_Resolve_Fail else Goes_On Connecting)
      | (Connecting, Connect_Output ep _) \<Rightarrow>
          if_agreed (verdict cl (Notice_Connect kBeeErrorCode_Success Ec_Ok ep)) (Goes_On Requesting)
      | (Requesting, Send_Output n) \<Rightarrow>
          if_agreed (verdict cl (Notice_Send kBeeErrorCode_Success Ec_Ok n)) (Goes_On Reading_Header)
      | (Reading_Header, _) \<Rightarrow> header_flow cl reachable response
      | (Reading_Body, _) \<Rightarrow>
          if_agreed (verdict cl (Notice_Content kBeeErrorCode_Success Ec_Ok data))
            (Ends kBeeErrorCode_State_Machine_Finished)
      | _ \<Rightarrow> Ends kBeeErrorCode_State_Machine_Interrupted)"

fun phase_extra_ok :: "http_phase \<Rightarrow> 'ep tcp_extra \<Rightarrow> bool" where
  "phase_extra_ok Resolving x = (\<exists>eps. x = Resolve_Output eps)"
| "phase_extra_ok Connecting x = (\<exists>ep i. x = Connect_Output ep i)"
| "phase_extra_ok Requesting x = (\<exists>n. x = Send_Output n)"
| "phase_extra_ok Reading_Header x = True"
| "phase_extra_ok Reading_Body x = True"

fun phase_input_ok :: "http_phase \<Rightarrow> 'ep tcp_extra \<Rightarrow> bool" where
  "phase_input_ok Resolving x = (\<exists>h s. x = Resolve_Input h s)"
| "phase_input_ok Connecting x = (\<exists>eps i t. x = Connect_Input eps i t)"
| "phase_input_ok Requesting x = True"
| "phase_input_ok Reading_Header x = True"
| "phase_input_ok Reading_Body x = (\<exists>b. x = Rcv_Body_Input b)"

text \<open>The machine of a session at work: its graph is the one described, its events are of their classes.\<close>

definition spec_of :: "bool \<Rightarrow> bool \<Rightarrow> 'ep http_client \<Rightarrow> http_phase \<Rightarrow> ('ep http_members, 'ep tcp_extra) state_spec" where
  "spec_of ios verify_ok cl ph = http_session_specs ios verify_ok cl ! nat (phase_id ph)"

definition request_ok :: "HttpRequest \<Rightarrow> bool" where
  "request_ok r \<longleftrightarrow> fields_agree id (rq_header_fields_map r, rq_headers r) \<and> rq_is_https r \<noteq> None"

definition members_ok :: "'ep http_members \<Rightarrow> bool" where
  "members_ok c \<longleftrightarrow> (\<exists>r. hm_request c = Some r \<and> request_ok r) \<and> \<not> hm_undefined c"

definition session_machine :: "bool \<Rightarrow> 'ep http_client \<Rightarrow> (http_phase \<Rightarrow> nat) \<Rightarrow> 'ep http_machine \<Rightarrow> bool" where
  "session_machine verify_ok cl =
     phase_machine (spec_of True verify_ok cl) phase_input_ok phase_extra_ok members_ok"

definition target_reachable :: "bool \<Rightarrow> 'ep http_members \<Rightarrow> bool" where
  "target_reachable verify_ok c \<longleftrightarrow>
     (case hm_request c of
        None \<Rightarrow> False
      | Some r \<Rightarrow> rq_is_https r = Some False \<or> verify_file_loaded (hm_tcp c) \<or> verify_ok)"

section \<open>What the routers and transforms do\<close>

lemma consult_verdict:
  "\<exists>ts. consult cl notice c =
    (if (case http_handler cl of None \<Rightarrow> False | Some h \<Rightarrow> \<not> h notice)
        \<or> http_callbacks cl notice = Some False then None else Some (http_self cl notice),
     c\<lparr>hm_told := ts\<rparr>)"
proof -
  have "\<exists>c1. (case http_handler cl of None \<Rightarrow> (True, c) | Some h \<Rightarrow> (h notice, tell Http_Handler notice c))
      = (\<not> (case http_handler cl of None \<Rightarrow> False | Some h \<Rightarrow> \<not> h notice), c1) \<and> (\<exists>ts. c1 = c\<lparr>hm_told := ts\<rparr>)"
    by (cases "http_handler cl"; cases c) (auto simp: tell_def)
  then obtain c1 where h: "(case http_handler cl of None \<Rightarrow> (True, c) | Some h \<Rightarrow> (h notice, tell Http_Handler notice c))
      = (\<not> (case http_handler cl of None \<Rightarrow> False | Some h \<Rightarrow> \<not> h notice), c1)" "\<exists>ts. c1 = c\<lparr>hm_told := ts\<rparr>" by blast
  have "\<exists>c2. (case http_callbacks cl notice of
        None \<Rightarrow> (True, c1) | Some answer \<Rightarrow> (answer, tell Http_Callback notice c1))
      = (http_callbacks cl notice \<noteq> Some False, c2) \<and> (\<exists>ts. c2 = c\<lparr>hm_told := ts\<rparr>)"
    using h(2) by (cases "http_callbacks cl notice") (auto simp: tell_def)
  then obtain c2 where k: "(case http_callbacks cl notice of
        None \<Rightarrow> (True, c1) | Some answer \<Rightarrow> (answer, tell Http_Callback notice c1))
      = (http_callbacks cl notice \<noteq> Some False, c2)" "\<exists>ts. c2 = c\<lparr>hm_told := ts\<rparr>" by blast
  show ?thesis
    using h(2) k(2) unfolding consult_def h(1) by (auto simp: k(1) tell_def)
qed

text \<open>A router either asks to go on, all having agreed, or stops with the verdict.\<close>

lemma route_verdict:
  assumes "ev_ec1 ev = kBeeErrorCode_Success" and "ev_ec2 ev = Ec_Ok" and "notice_of ev = Some notice"
  shows "\<exists>ts ev1. route cl nxt notice_of c ev
      = (if verdict cl notice = kBeeErrorCode_Success then nxt else kInvalidState, ev1, c\<lparr>hm_told := ts\<rparr>)
    \<and> ev_extra ev1 = ev_extra ev \<and> ev_data ev1 = ev_data ev
    \<and> (if ev_ec1 ev1 = kBeeErrorCode_Success then kBeeErrorCode_State_Machine_Interrupted else ev_ec1 ev1)
      = (if verdict cl notice = kBeeErrorCode_Success then kBeeErrorCode_State_Machine_Interrupted
         else verdict cl notice)
    \<and> (verdict cl notice = kBeeErrorCode_Success \<longrightarrow> ev1 = ev)"
proof -
  let ?no = "(case http_handler cl of None \<Rightarrow> False | Some h \<Rightarrow> \<not> h notice)
        \<or> http_callbacks cl notice = Some False"
  obtain ts where c: "consult cl notice c
    = (if ?no then None else Some (http_self cl notice), c\<lparr>hm_told := ts\<rparr>)"
    using consult_verdict by blast
  show ?thesis
  proof (cases ?no)
    case True
    then have "consult cl notice c = (None, c\<lparr>hm_told := ts\<rparr>)" by (simp only: c if_True)
    moreover from True have "verdict cl notice = kBeeErrorCode_State_Machine_Interrupted"
      by (simp only: verdict_def if_True)
    ultimately show ?thesis
      using assms by (intro exI [of _ ts] exI [of _ ev]) (simp add: route_def)
  next
    case False
    then have "consult cl notice c = (Some (http_self cl notice), c\<lparr>hm_told := ts\<rparr>)"
      by (simp only: c if_False)
    moreover from False have "verdict cl notice = http_self cl notice"
      by (simp only: verdict_def if_False)
    ultimately show ?thesis
      using assms by (intro exI [of _ ts] exI [of _ "ev\<lparr>ev_ec1 := http_self cl notice\<rparr>"])
        (cases ev, simp add: route_def)
  qed
qed

lemma redirect_done:
  assumes "hm_request c = Some r" and "request_ok r"
  shows "\<exists>host service c1 r'. redirect True verify_ok url [] c
      = Some (target_reachable verify_ok c, host, service, c1)
    \<and> hm_request c1 = Some r' \<and> request_ok r' \<and> hm_undefined c1 = hm_undefined c
    \<and> c1 = c\<lparr>hm_request := hm_request c1, hm_tcp := hm_tcp c1\<rparr>"
proof -
  obtain rh rp where parts: "redirect_parts url = (rh, rp)" by (cases "redirect_parts url")
  obtain r1 where r1: "(case rh of None \<Rightarrow> Some r | Some h \<Rightarrow> rq_set_host h r) = Some r1"
    "request_ok r1" "rq_is_https r1 = rq_is_https r"
  proof (cases rh)
    case None
    with assms(2) that show ?thesis by simp
  next
    case (Some h)
    show ?thesis
    proof (cases "h = []")
      case True
      with Some assms(2) that show ?thesis by (simp add: rq_set_host_def)
    next
      case False
      from header_set_id [of "rq_header_fields_map r" "rq_headers r" "''Host''" h] assms(2)
      obtain m hs where hs: "header_set id ''Host'' h (rq_header_fields_map r, rq_headers r) = Some (m, hs)"
        "fields_agree id (m, hs)" by (auto simp: request_ok_def)
      with Some False assms(2) that [of "r\<lparr>rq_header_fields_map := m, rq_headers := hs\<rparr>"] show ?thesis
        by (simp add: rq_set_host_def rq_set_header_def request_ok_def)
    qed
  qed
  let ?r2 = "r1\<lparr>rq_path := rp\<rparr>"
  obtain host port where hp: "rq_get_conn_host_port ?r2 ([], 0) = (host, port)"
    by (cases "rq_get_conn_host_port ?r2 ([], 0)")
  obtain https where https: "rq_is_https r = Some https" using assms(2) by (auto simp: request_ok_def)
  obtain ok t where st: "setup_socket True verify_ok https host (hm_tcp c) = (ok, t)"
    by (cases "setup_socket True verify_ok https host (hm_tcp c)")
  have "ok = target_reachable verify_ok c"
    using st assms(1) https
    by (auto simp: setup_socket_def target_reachable_def reset_caches_def Let_def split: if_splits)
  moreover have "redirect True verify_ok url [] c
      = Some (ok, host, show_nat port, c\<lparr>hm_request := Some ?r2, hm_tcp := t\<rparr>)"
    using assms(1) parts r1 hp https st by (simp add: redirect_def)
  moreover have "request_ok ?r2" using r1(2) by (simp add: request_ok_def)
  ultimately show ?thesis by auto
qed

lemma ex_true [simp]: "\<exists>b. b"
  by blast

lemma members_ok_told [simp]: "members_ok (c\<lparr>hm_told := ts\<rparr>) = members_ok c"
  by (simp add: members_ok_def)

lemma reachable_told [simp]: "target_reachable v (c\<lparr>hm_told := ts\<rparr>) = target_reachable v c"
  by (cases "hm_request c") (simp_all add: target_reachable_def)

lemma spec_simps [simp]:
  "spec_of i v cl Resolving = http_session_specs i v cl ! 0"
  "spec_of i v cl Connecting = http_session_specs i v cl ! Suc 0"
  "spec_of i v cl Requesting = http_session_specs i v cl ! 2"
  "spec_of i v cl Reading_Header = http_session_specs i v cl ! 3"
  "spec_of i v cl Reading_Body = http_session_specs i v cl ! 4"
  by (simp_all add: spec_of_def eHttpState_Resolve_def eHttpState_Connect_def eHttpState_Request_def
      eHttpState_RcvHeader_def eHttpState_RcvBody_def)

lemma specs_nth:
  "sp_id (http_session_specs i v cl ! 0) = eHttpState_Resolve"
  "sp_id (http_session_specs i v cl ! Suc 0) = eHttpState_Connect"
  "sp_id (http_session_specs i v cl ! 2) = eHttpState_Request"
  "sp_id (http_session_specs i v cl ! 3) = eHttpState_RcvHeader"
  "sp_id (http_session_specs i v cl ! 4) = eHttpState_RcvBody"
  "sp_router (http_session_specs i v cl ! 0) = on_resolve cl"
  "sp_router (http_session_specs i v cl ! Suc 0) = on_connect cl"
  "sp_router (http_session_specs i v cl ! 2) = on_request cl"
  "sp_router (http_session_specs i v cl ! 3) = on_rcv_header cl"
  "sp_router (http_session_specs i v cl ! 4) = on_rcv_body cl"
  "map_of (sp_switches (http_session_specs i v cl ! 0)) eHttpState_Connect = Some transform_resolve_to_connect"
  "map_of (sp_switches (http_session_specs i v cl ! Suc 0)) eHttpState_Request = Some transform_connect_to_request"
  "map_of (sp_switches (http_session_specs i v cl ! 2)) eHttpState_RcvHeader = Some transform_send_request_to_rcv_header"
  "map_of (sp_switches (http_session_specs i v cl ! 3)) eHttpState_Resolve = Some (transform_rcv_header_to_redirection i v)"
  "map_of (sp_switches (http_session_specs i v cl ! 3)) eHttpState_RcvBody = Some transform_rcv_header_to_rcv_body"
  by (simp_all add: http_session_specs_def eHttpState_Resolve_def eHttpState_RcvBody_def)

lemma redirect_range:
  "s \<in> {301, 302, 303, 307} \<Longrightarrow> 300 \<le> s \<and> s \<le> 307" "s \<in> {301, 302, 303, 307} \<Longrightarrow> s \<in> set redirect_codes"
  "s \<in> {300, 304, 305, 306} \<Longrightarrow> 300 \<le> s \<and> s \<le> (307 :: nat)" "s \<in> {300, 304, 305, 306} \<Longrightarrow> s \<notin> set redirect_codes"
  by (auto simp: redirect_codes_def)

lemma router_error:
  assumes "ev_ec1 ev \<noteq> kBeeErrorCode_Success \<or> ec_set (ev_ec2 ev)"
  shows "sp_router (spec_of True v cl ph) c ev = (kInvalidState, ev, c)"
  using assms
  by (cases ph) (simp_all add: specs_nth on_resolve_def on_connect_def on_request_def on_rcv_body_def
      on_rcv_header_def route_def)

text \<open>What the flow allows: exactly one outcome.\<close>

definition session_allows ::
    "bool \<Rightarrow> 'ep http_client \<Rightarrow> 'ep http_members \<Rightarrow> http_phase \<Rightarrow> 'ep tcp_extra state_event
      \<Rightarrow> http_flow \<Rightarrow> 'ep http_members \<Rightarrow> bool" where
  "session_allows v cl c ph ev f c' \<longleftrightarrow>
     f = (if ev_ec1 ev \<noteq> kBeeErrorCode_Success then Ends (ev_ec1 ev)
          else if ec_set (ev_ec2 ev) then Ends kBeeErrorCode_State_Machine_Interrupted
          else http_flow_next cl (target_reachable v c) (hm_response c) ph (ev_extra ev) (ev_data ev))"

text \<open>A phase whose router is a \<open>route\<close>: it stops with the verdict, or the transform decides.\<close>

lemma route_obeys:
  assumes "ev_ec1 ev = kBeeErrorCode_Success" and "ev_ec2 ev = Ec_Ok" and "phase_extra_ok ph (ev_extra ev)"
    and "notice_of ev = Some notice" and "members_ok c" and "nxt = pid ph'" and "map_of ts nxt = Some t"
    and "\<And>us inp. phase_input_ok ph' (ev_extra inp) \<Longrightarrow>
      \<exists>ret out' in' c'. t (c\<lparr>hm_told := us\<rparr>) ev inp = (ret, out', in', c')
        \<and> phase_extra_ok ph (ev_extra out') \<and> phase_input_ok ph' (ev_extra in') \<and> members_ok c'
        \<and> (if ret then ev_setup in' \<and> Goes_On ph' = f else Ends (ev_ec1 out') = f)"
  shows "phase_obeys pid phase_input_ok phase_extra_ok members_ok
    (\<lambda>g c'. g = if_agreed (verdict cl notice) f) ph ts (route cl nxt notice_of c ev)"
proof -
  obtain us ev1 where r: "route cl nxt notice_of c ev
      = (if verdict cl notice = kBeeErrorCode_Success then nxt else kInvalidState, ev1, c\<lparr>hm_told := us\<rparr>)"
    "ev_extra ev1 = ev_extra ev"
    "(if ev_ec1 ev1 = kBeeErrorCode_Success then kBeeErrorCode_State_Machine_Interrupted else ev_ec1 ev1)
      = (if verdict cl notice = kBeeErrorCode_Success then kBeeErrorCode_State_Machine_Interrupted
         else verdict cl notice)"
    "verdict cl notice = kBeeErrorCode_Success \<longrightarrow> ev1 = ev"
    using route_verdict [of ev notice_of notice cl nxt c, OF assms(1,2,4)] by blast
  show ?thesis
  proof (cases "verdict cl notice = kBeeErrorCode_Success")
    case True
    have "phase_obeys pid phase_input_ok phase_extra_ok members_ok (\<lambda>g c'. g = f) ph ts (nxt, ev, c\<lparr>hm_told := us\<rparr>)"
      by (rule phase_obeys_switch [where ph' = ph' and t = t]; (rule assms)?) (simp_all add: assms(5))
    with True r(1,4) show ?thesis by (simp add: if_agreed_def)
  next
    case False
    with r(2,3) assms(3,5) have "phase_obeys pid phase_input_ok phase_extra_ok members_ok
        (\<lambda>g c'. g = if_agreed (verdict cl notice) f) ph ts (kInvalidState, ev1, c\<lparr>hm_told := us\<rparr>)"
      by (intro phase_obeys_invalid) (auto simp: if_agreed_def)
    with False r(1) show ?thesis by simp
  qed
qed

lemma body_obeys:
  assumes "ev_ec1 ev = kBeeErrorCode_Success" and "ev_ec2 ev = Ec_Ok" and "members_ok c"
  shows "phase_obeys pid phase_input_ok phase_extra_ok members_ok
    (\<lambda>g c'. g = if_agreed (verdict cl (content_notice ev)) (Ends kBeeErrorCode_State_Machine_Finished))
    Reading_Body ts (on_rcv_body cl c ev)"
proof -
  let ?n = "content_notice ev"
  obtain us ev1 where r: "on_rcv_body cl c ev
      = (if verdict cl ?n = kBeeErrorCode_Success then kFinishedState else kInvalidState, ev1, c\<lparr>hm_told := us\<rparr>)"
    "(if ev_ec1 ev1 = kBeeErrorCode_Success then kBeeErrorCode_State_Machine_Interrupted else ev_ec1 ev1)
      = (if verdict cl ?n = kBeeErrorCode_Success then kBeeErrorCode_State_Machine_Interrupted
         else verdict cl ?n)"
    using route_verdict [of ev "\<lambda>ev. Some (content_notice ev)" ?n cl kFinishedState c, OF assms(1,2)]
    unfolding on_rcv_body_def by blast
  show ?thesis using r(2) assms(3) unfolding r(1)
    by (cases "verdict cl ?n = kBeeErrorCode_Success")
      (auto simp: if_agreed_def intro!: phase_obeys_finished phase_obeys_invalid)
qed

text \<open>The header's router, by what it decides.\<close>

lemma redirect_obeys:
  assumes "members_ok c" and "hm_response c = Some response" and "ev_ec1 ev1 = kBeeErrorCode_Success"
    and "nxt = pid Resolving" and "map_of ts nxt = Some (transform_rcv_header_to_redirection True v)"
  shows "phase_obeys pid phase_input_ok phase_extra_ok members_ok
    (\<lambda>g c'. g = (if rs_get_header ''Location'' response \<noteq> [] \<and> target_reachable v c
        then Goes_On Resolving else Ends kBeeErrorCode_Success))
    Reading_Header ts (nxt, ev1, c)"
proof (rule phase_obeys_switch [where ph' = Resolving and t = "transform_rcv_header_to_redirection True v"])
  let ?url = "rs_get_header ''Location'' response"
  show "phase_extra_ok Reading_Header (ev_extra ev1)" by simp
  show "members_ok c" "nxt = pid Resolving" "map_of ts nxt = Some (transform_rcv_header_to_redirection True v)"
    by (fact assms)+
  fix inp :: "'a tcp_extra state_event" assume inp: "phase_input_ok Resolving (ev_extra inp)"
  obtain req where req: "hm_request c = Some req" "request_ok req" and u: "\<not> hm_undefined c"
    using assms(1) by (auto simp: members_ok_def)
  show "\<exists>ret out' in' c'. transform_rcv_header_to_redirection True v c ev1 inp = (ret, out', in', c')
      \<and> phase_extra_ok Reading_Header (ev_extra out') \<and> phase_input_ok Resolving (ev_extra in') \<and> members_ok c'
      \<and> (if ret then ev_setup in' \<and> Goes_On Resolving
            = (if ?url \<noteq> [] \<and> target_reachable v c then Goes_On Resolving else Ends kBeeErrorCode_Success)
         else Ends (ev_ec1 out')
            = (if ?url \<noteq> [] \<and> target_reachable v c then Goes_On Resolving else Ends kBeeErrorCode_Success))"
  proof (cases "?url = []")
    case True
    with assms inp show ?thesis by (simp add: transform_rcv_header_to_redirection_def)
  next
    case False
    obtain host service c1 r' where rd: "redirect True v ?url [] c = Some (target_reachable v c, host, service, c1)"
      "hm_request c1 = Some r'" "request_ok r'" "hm_undefined c1 = hm_undefined c"
      using redirect_done [OF req, of v ?url] by blast
    then have "members_ok c1" using u by (simp add: members_ok_def)
    with False rd(1) assms(2,3) inp show ?thesis
      by (cases "target_reachable v c") (auto simp: transform_rcv_header_to_redirection_def)
  qed
qed

lemma header_obeys:
  assumes "ev_ec1 ev = kBeeErrorCode_Success" and "ev_ec2 ev = Ec_Ok" and "members_ok c"
    and "pid Resolving = eHttpState_Resolve" and "pid Reading_Body = eHttpState_RcvBody"
    and "map_of ts eHttpState_Resolve = Some (transform_rcv_header_to_redirection True v)"
    and "map_of ts eHttpState_RcvBody = Some transform_rcv_header_to_rcv_body"
  shows "phase_obeys pid phase_input_ok phase_extra_ok members_ok
    (\<lambda>g c'. g = header_flow cl (target_reachable v c) (hm_response c))
    Reading_Header ts (on_rcv_header cl c ev)"
proof (cases "hm_response c")
  case None
  with assms show ?thesis
    by (auto simp: on_rcv_header_def header_flow_def intro!: phase_obeys_invalid)
next
  case (Some response)
  let ?n = "Notice_Header kBeeErrorCode_Success Ec_Ok response"
  let ?no = "(case http_handler cl of None \<Rightarrow> False | Some h \<Rightarrow> \<not> h ?n) \<or> http_callbacks cl ?n = Some False"
  let ?s = "rs_status_code response" and ?self = "http_self cl ?n"
  let ?r = "Notice_Redirect ?s (rs_get_header ''Location'' response)"
  obtain us where us: "consult cl ?n c = (if ?no then None else Some ?self, c\<lparr>hm_told := us\<rparr>)"
    using consult_verdict by blast
  have flow: "header_flow cl reach (hm_response c) = if_agreed (verdict cl ?n)
      (if ?s \<in> {301, 302, 303, 307} then
         if_agreed (http_self cl ?r)
           (if rs_get_header ''Location'' response \<noteq> [] \<and> reach then Goes_On Resolving
            else Ends kBeeErrorCode_Success)
       else if ?s \<in> {300, 304, 305, 306} then Ends kBeeErrorCode_State_Machine_Interrupted
       else Goes_On Reading_Body)" for reach
    using Some by (simp add: header_flow_def Let_def)
  have range: "(300 \<le> ?s \<and> ?s \<le> 307) = (?s \<in> {301, 302, 303, 307} \<or> ?s \<in> {300, 304, 305, 306})" by auto
  consider (refused) "?no" | (code) "\<not> ?no" "?self \<noteq> kBeeErrorCode_Success"
    | (redirect) "\<not> ?no" "?self = kBeeErrorCode_Success" "?s \<in> {301, 302, 303, 307}"
    | (other) "\<not> ?no" "?self = kBeeErrorCode_Success" "?s \<in> {300, 304, 305, 306}"
    | (body) "\<not> ?no" "?self = kBeeErrorCode_Success" "\<not> (300 \<le> ?s \<and> ?s \<le> 307)"
    using range by blast
  then show ?thesis
  proof cases
    case refused
    then have "consult cl ?n c = (None, c\<lparr>hm_told := us\<rparr>)" by (simp only: us if_True)
    then have "on_rcv_header cl c ev = (kInvalidState, ev, c\<lparr>hm_told := us\<rparr>)"
      using assms(1,2) Some by (simp add: on_rcv_header_def)
    moreover have "verdict cl ?n = kBeeErrorCode_State_Machine_Interrupted"
      using refused by (simp only: verdict_def if_True)
    ultimately show ?thesis using assms(1,3)
      by (auto simp: flow if_agreed_def intro!: phase_obeys_invalid)
  next
    case code
    then have "consult cl ?n c = (Some ?self, c\<lparr>hm_told := us\<rparr>)" by (simp only: us if_False)
    then have "on_rcv_header cl c ev = (kInvalidState, ev\<lparr>ev_ec1 := ?self\<rparr>, c\<lparr>hm_told := us\<rparr>)"
      using assms(1,2) Some code by (simp add: on_rcv_header_def)
    moreover have "verdict cl ?n = ?self" using code by (simp only: verdict_def if_False)
    ultimately show ?thesis using code assms(3)
      by (auto simp: flow if_agreed_def intro!: phase_obeys_invalid)
  next
    case redirect
    let ?code = "http_self cl ?r"
    have "consult cl ?n c = (Some kBeeErrorCode_Success, c\<lparr>hm_told := us\<rparr>)"
      using redirect by (simp only: us if_False)
    then have r: "on_rcv_header cl c ev
        = (if ?code \<noteq> kBeeErrorCode_Success then kInvalidState else eHttpState_Resolve,
           ev\<lparr>ev_ec1 := ?code\<rparr>, c\<lparr>hm_told := us @ [(Http_Self, ?r)]\<rparr>)"
      using assms(1,2) Some redirect_range(1,2) [OF redirect(3)] by (simp add: on_rcv_header_def tell_def Let_def)
    have v: "verdict cl ?n = kBeeErrorCode_Success" using redirect by (simp only: verdict_def if_False)
    show ?thesis
    proof (cases "?code = kBeeErrorCode_Success")
      case True
      with redirect_obeys [of "c\<lparr>hm_told := us @ [(Http_Self, ?r)]\<rparr>" response "ev\<lparr>ev_ec1 := ?code\<rparr>"
          eHttpState_Resolve pid ts v] assms(3,4,6) Some v redirect(3)
      show ?thesis by (simp add: r flow [unfolded Some] if_agreed_def)
    next
      case False
      with assms(3) v redirect(3) show ?thesis
        by (simp add: r flow if_agreed_def) (auto intro!: phase_obeys_invalid)
    qed
  next
    case other
    then have "consult cl ?n c = (Some kBeeErrorCode_Success, c\<lparr>hm_told := us\<rparr>)" by (simp only: us if_False)
    then have "on_rcv_header cl c ev
        = (kInvalidState, ev\<lparr>ev_ec1 := kBeeErrorCode_Success\<rparr>, c\<lparr>hm_told := us\<rparr>)"
      using assms(1,2) Some redirect_range(3,4) [OF other(3)] by (simp add: on_rcv_header_def)
    moreover have "verdict cl ?n = kBeeErrorCode_Success" using other by (simp only: verdict_def if_False)
    moreover have "?s \<notin> {301, 302, 303, 307}" using other(3) by auto
    ultimately show ?thesis using other(3) assms(3)
      by (auto simp: flow if_agreed_def intro!: phase_obeys_invalid)
  next
    case body
    then have "consult cl ?n c = (Some kBeeErrorCode_Success, c\<lparr>hm_told := us\<rparr>)" by (simp only: us if_False)
    then have "on_rcv_header cl c ev
        = (eHttpState_RcvBody, ev\<lparr>ev_ec1 := kBeeErrorCode_Success\<rparr>, c\<lparr>hm_told := us\<rparr>)"
      using assms(1,2) Some body(3) by (auto simp: on_rcv_header_def Let_def)
    moreover have "verdict cl ?n = kBeeErrorCode_Success" using body by (simp only: verdict_def if_False)
    moreover have "?s \<notin> {301, 302, 303, 307}" "?s \<notin> {300, 304, 305, 306}" using body(3) range by blast+
    moreover have "phase_obeys pid phase_input_ok phase_extra_ok members_ok (\<lambda>g c'. g = Goes_On Reading_Body)
        Reading_Header ts (eHttpState_RcvBody, ev\<lparr>ev_ec1 := kBeeErrorCode_Success\<rparr>, c\<lparr>hm_told := us\<rparr>)"
      using assms(3,5,7)
      by (intro phase_obeys_switch [where ph' = Reading_Body]) (auto simp: transform_rcv_header_to_rcv_body_def)
    ultimately show ?thesis by (simp add: flow if_agreed_def)
  qed
qed

section \<open>The machine implements the flow\<close>

definition http_phases :: "http_phase list" where
  "http_phases = [Resolving, Connecting, Requesting, Reading_Header, Reading_Body]"

lemma spec_id: "sp_id (spec_of True v cl ph) = phase_id ph"
  by (cases ph) (simp_all add: http_session_specs_def)

lemma specs_of_phases: "map (spec_of True v cl) http_phases = http_session_specs True v cl"
  by (simp add: http_phases_def) (simp add: http_session_specs_def)

lemmas state_ids = eHttpState_Resolve_def eHttpState_Connect_def eHttpState_Request_def
  eHttpState_RcvHeader_def eHttpState_RcvBody_def

lemma session_obeys:
  assumes "members_ok c" and "phase_extra_ok ph (ev_extra ev)"
  shows "phase_obeys (\<lambda>ph. sp_id (spec_of True v cl ph)) phase_input_ok phase_extra_ok members_ok
    (session_allows v cl c ph ev) ph (sp_switches (spec_of True v cl ph)) (sp_router (spec_of True v cl ph) c ev)"
proof (cases "ev_ec1 ev \<noteq> kBeeErrorCode_Success \<or> ec_set (ev_ec2 ev)")
  case True
  from router_error [OF True, of v cl ph c] True assms show ?thesis
    by (auto simp: session_allows_def intro!: phase_obeys_invalid)
next
  case False
  then have ok: "ev_ec1 ev = kBeeErrorCode_Success" "ev_ec2 ev = Ec_Ok" by (simp_all add: ec_set_def)
  have allows: "session_allows v cl c ph ev = (\<lambda>f c'. f
      = http_flow_next cl (target_reachable v c) (hm_response c) ph (ev_extra ev) (ev_data ev))"
    using False by (simp add: session_allows_def fun_eq_iff)
  show ?thesis
  proof (cases ph)
    case Resolving
    with assms(2) obtain eps where x: "ev_extra ev = Resolve_Output eps" by auto
    have "phase_obeys (\<lambda>ph. sp_id (spec_of True v cl ph)) phase_input_ok phase_extra_ok members_ok
        (\<lambda>g c'. g = if_agreed (verdict cl (Notice_Resolve kBeeErrorCode_Success Ec_Ok eps))
          (if eps = [] then Ends kBeeErrorCode_Resolve_Fail else Goes_On Connecting))
        Resolving (sp_switches (spec_of True v cl Resolving)) (route cl eHttpState_Connect resolve_notice c ev)"
      using ok x assms(1) by (intro route_obeys [where ph' = Connecting])
        (auto simp: spec_id specs_nth transform_resolve_to_connect_def)
    with x show ?thesis unfolding Resolving allows [unfolded Resolving]
      by (simp add: http_flow_next_def specs_nth on_resolve_def)
  next
    case Connecting
    with assms(2) obtain ep i where x: "ev_extra ev = Connect_Output ep i" by auto
    have "phase_obeys (\<lambda>ph. sp_id (spec_of True v cl ph)) phase_input_ok phase_extra_ok members_ok
        (\<lambda>g c'. g = if_agreed (verdict cl (Notice_Connect kBeeErrorCode_Success Ec_Ok ep)) (Goes_On Requesting))
        Connecting (sp_switches (spec_of True v cl Connecting)) (route cl eHttpState_Request connect_notice c ev)"
      using ok x assms(1) by (intro route_obeys [where ph' = Requesting])
        (auto simp: spec_id specs_nth transform_connect_to_request_def)
    with x show ?thesis unfolding Connecting allows [unfolded Connecting]
      by (simp add: http_flow_next_def specs_nth on_connect_def)
  next
    case Requesting
    with assms(2) obtain n where x: "ev_extra ev = Send_Output n" by auto
    have "phase_obeys (\<lambda>ph. sp_id (spec_of True v cl ph)) phase_input_ok phase_extra_ok members_ok
        (\<lambda>g c'. g = if_agreed (verdict cl (Notice_Send kBeeErrorCode_Success Ec_Ok n)) (Goes_On Reading_Header))
        Requesting (sp_switches (spec_of True v cl Requesting)) (route cl eHttpState_RcvHeader send_notice c ev)"
      using ok x assms(1) by (intro route_obeys [where ph' = Reading_Header])
        (auto simp: spec_id specs_nth transform_send_request_to_rcv_header_def)
    with x show ?thesis unfolding Requesting allows [unfolded Requesting]
      by (simp add: http_flow_next_def specs_nth on_request_def)
  next
    case Reading_Header
    have "phase_obeys (\<lambda>ph. sp_id (spec_of True v cl ph)) phase_input_ok phase_extra_ok members_ok
        (\<lambda>g c'. g = header_flow cl (target_reachable v c) (hm_response c))
        Reading_Header (sp_switches (spec_of True v cl Reading_Header)) (on_rcv_header cl c ev)"
      using ok assms(1) by (intro header_obeys) (simp_all only: spec_id phase_id.simps spec_simps specs_nth)
    then show ?thesis unfolding Reading_Header allows [unfolded Reading_Header]
      by (simp add: http_flow_next_def specs_nth)
  next
    case Reading_Body
    from body_obeys [OF ok assms(1), of "\<lambda>ph. sp_id (spec_of True v cl ph)" cl
        "sp_switches (spec_of True v cl Reading_Body)"]
    show ?thesis unfolding Reading_Body allows [unfolded Reading_Body]
      by (simp add: http_flow_next_def specs_nth content_notice_def ok)
  qed
qed

interpretation hs: machine_flow http_phases "spec_of True v cl" phase_input_ok phase_extra_ok members_ok
  "session_allows v cl" for v cl
proof
  show "ph \<in> set http_phases" for ph by (cases ph) (simp_all add: http_phases_def)
  show "distinct (map (\<lambda>ph. sp_id (spec_of True v cl ph)) http_phases)"
    unfolding spec_id by (simp add: http_phases_def state_ids)
  show "sp_id (spec_of True v cl ph) \<noteq> kInvalidState \<and> sp_id (spec_of True v cl ph) \<noteq> kFinishedState" for ph
    unfolding spec_id by (cases ph) (simp_all add: state_ids kInvalidState_def kFinishedState_def)
  show "distinct (map fst (sp_switches (spec_of True v cl ph)))" for ph
    by (cases ph) (simp_all add: http_session_specs_def state_ids)
  show "length (filter (\<lambda>ph. sp_activate (spec_of True v cl ph)) http_phases) \<le> 1"
    by (simp add: http_phases_def) (simp add: http_session_specs_def)
  show "phase_input_ok ph (sp_input (spec_of True v cl ph)) \<and> phase_extra_ok ph (sp_output (spec_of True v cl ph))"
    for ph by (cases ph) (simp_all add: http_session_specs_def)
qed (rule session_obeys)

lemma session_follows:
  assumes "session_machine verify_ok cl ptr m" and "st_output (fsm_heap m (ptr ph)) = Some ev"
  shows "\<exists>ret m'. state_done_ec ec1 ec2 (ptr ph) m = Some (ret, m') \<and> session_machine verify_ok cl ptr m'
    \<and> follows (spec_of True verify_ok cl) (if \<not> ev_setup ev \<or> ec1 \<noteq> kBeeErrorCode_Success then Ends ec1
        else if ec_set ec2 then Ends kBeeErrorCode_State_Machine_Interrupted
        else http_flow_next cl (target_reachable verify_ok (members m)) (hm_response (members m)) ph
          (ev_extra ev) (ev_data ev)) ptr m ret m'
    \<and> (\<not> ev_setup ev \<longrightarrow> members m' = members m)"
proof (cases "ev_setup ev")
  case True
  from hs.implements [OF assms(1) [unfolded session_machine_def] assms(2) True, of ec1 ec2] obtain f ret m' where
    "state_done_ec ec1 ec2 (ptr ph) m = Some (ret, m')" "session_machine verify_ok cl ptr m'"
    "session_allows verify_ok cl (members m) ph (ev\<lparr>ev_ec1 := ec1, ev_ec2 := ec2\<rparr>) f (members m')"
    "follows (spec_of True verify_ok cl) f ptr m ret m'"
    unfolding session_machine_def by blast
  with True show ?thesis by (auto simp: session_allows_def split: if_splits)
next
  case False
  with hs.unset_reports [OF assms(1) [unfolded session_machine_def] assms(2) False, of ec1 ec2] show ?thesis
    unfolding session_machine_def by auto
qed

text \<open>
  C6: a session's machine implements the flow of a session. Whatever a state's handler reports, there
  are three cases. An output event that was not set up (a connection that failed, a chunked body that
  is empty) ends the session with the handler's own code, which may be \<open>Success\<close>, with nobody asked and
  nothing told. An error, in an event that was set up, ends the session with that code. Otherwise
  everybody concerned is asked, and the next state of the flow is posted with its input event set up,
  nothing being reported, or the session ends with the flow's code, reported exactly once and with
  nothing posted. So content ends with \<open>State_Machine_Finished\<close>, a refusal with
  \<open>State_Machine_Interrupted\<close>, four of the codes 300 to 307 lead back to the resolve state, and a
  redirection without a location, or one whose socket cannot be set up, ends the session with \<open>Success\<close>.
  No router or transform runs into undefined behaviour, and the machine stays one of a session.
\<close>

theorem session_implements_flow:
  assumes "session_machine verify_ok cl ptr m" and "st_output (fsm_heap m (ptr ph)) = Some ev"
  shows "\<exists>ret m'. state_done_ec ec1 ec2 (ptr ph) m = Some (ret, m') \<and> session_machine verify_ok cl ptr m'
    \<and> follows (spec_of True verify_ok cl) (if \<not> ev_setup ev \<or> ec1 \<noteq> kBeeErrorCode_Success then Ends ec1
        else if ec_set ec2 then Ends kBeeErrorCode_State_Machine_Interrupted
        else http_flow_next cl (target_reachable verify_ok (members m)) (hm_response (members m)) ph
          (ev_extra ev) (ev_data ev)) ptr m ret m'
    \<and> (\<not> ev_setup ev \<longrightarrow> members m' = members m)"
  by (rule session_follows [OF assms])

section \<open>Starting a request\<close>

lemma rq_set_header_keeps:
  assumes "request_ok r"
  shows "\<exists>r'. rq_set_header n val r = Some r' \<and> request_ok r' \<and> rq_get_header n r' = val
    \<and> (\<forall>k. k \<noteq> n \<longrightarrow> rq_get_header k r' = rq_get_header k r)
    \<and> r' = r\<lparr>rq_header_fields_map := rq_header_fields_map r', rq_headers := rq_headers r'\<rparr>"
proof -
  from header_set_id [of "rq_header_fields_map r" "rq_headers r" n val] assms
  obtain m hs where "header_set id n val (rq_header_fields_map r, rq_headers r) = Some (m, hs)"
    "fields_agree id (m, hs)" "header_find id n m = Some val"
    "\<forall>k. k \<noteq> n \<longrightarrow> header_find id k m = header_find id k (rq_header_fields_map r)"
    by (auto simp: request_ok_def)
  with assms show ?thesis
    by (auto simp: rq_set_header_def request_ok_def rq_get_header_def header_get_def)
qed

text \<open>A request made from a complete URL; the outer option is always there.\<close>

lemma create_from_url_made:
  assumes "ParseUrl url = (protocol, host, port, path)" and "protocol \<noteq> []" and "host \<noteq> []" and "path \<noteq> []"
  shows "\<exists>r. create_from_url url refer range_beg range_end = Some (Some r) \<and> request_ok r
    \<and> rq_path r = path \<and> rq_proxy_host r = []
    \<and> rq_get_header ''Host'' r = (if port = [] then host else host @ '':'' @ port)
    \<and> rq_is_https r = Some (protocol = ''https'')"
proof -
  let ?r = "HttpRequest_new\<lparr>rq_method := ''GET'', rq_protocol_and_version := ''HTTP/1.1'', rq_path := path\<rparr>"
  define hp where "hp = (if port = [] then host else host @ '':'' @ port)"
  have hp: "hp \<noteq> []" using assms(3) by (simp add: hp_def)
  let ?k = "\<lambda>r. request_ok r \<and> rq_path r = path \<and> rq_proxy_host r = [] \<and> rq_is_https r = Some False"
  have set: "?k r \<Longrightarrow> \<exists>r'. rq_set_header n val r = Some r' \<and> ?k r' \<and> rq_get_header n r' = val
      \<and> (\<forall>k. k \<noteq> n \<longrightarrow> rq_get_header k r' = rq_get_header k r)" for n val r
  proof -
    assume k: "?k r"
    then obtain r' where r': "rq_set_header n val r = Some r'" "request_ok r'" "rq_get_header n r' = val"
      "\<forall>k. k \<noteq> n \<longrightarrow> rq_get_header k r' = rq_get_header k r"
      "r' = r\<lparr>rq_header_fields_map := rq_header_fields_map r', rq_headers := rq_headers r'\<rparr>"
      using rq_set_header_keeps by blast
    have "rq_path r' = rq_path r \<and> rq_proxy_host r' = rq_proxy_host r \<and> rq_is_https r' = rq_is_https r"
      by (subst (1 2 3) r'(5)) simp
    with k r'(1-4) show ?thesis by auto
  qed
  have "?k ?r" by (simp add: request_ok_def HttpRequest_new_def fields_agree_def)
  from set [OF this, of "''Accept''" "''*/*''"] obtain r1 where
    r1: "rq_set_header ''Accept'' ''*/*'' ?r = Some r1" "?k r1" by blast
  from set [OF r1(2), of "''Accept-Language''" "''zh-CN''"] obtain r2 where
    r2: "rq_set_header ''Accept-Language'' ''zh-CN'' r1 = Some r2" "?k r2" by blast
  obtain r3 where
    r3: "(if refer \<noteq> [] then rq_set_header ''Referer'' refer r2 else Some r2) = Some r3" "?k r3"
    using set [OF r2(2), of "''Referer''" refer] r2(2) by (cases "refer = []") auto
  from set [OF r3(2), of "''User-Agent''" user_agent] obtain r4 where
    r4: "rq_set_header ''User-Agent'' user_agent r3 = Some r4" "?k r4" by blast
  from set [OF r4(2), of "''Host''" hp] obtain r5 where
    r5: "rq_set_header ''Host'' hp r4 = Some r5" "?k r5" "rq_get_header ''Host'' r5 = hp" by blast
  from set [OF r5(2), of "''Connection''" "''Keep-Alive''"] r5(3) obtain r6 where
    r6: "rq_set_header ''Connection'' ''Keep-Alive'' r5 = Some r6" "?k r6" "rq_get_header ''Host'' r6 = hp"
    by fastforce
  obtain r7 where r7: "rq_set_range range_beg range_end r6 = Some r7" "?k r7" "rq_get_header ''Host'' r7 = hp"
  proof (cases "range_text range_beg range_end")
    case None
    with r6 that show ?thesis by (simp add: rq_set_range_def)
  next
    case (Some t)
    from set [OF r6(2), of "''Range''" t] r6(3) Some that show ?thesis by (fastforce simp: rq_set_range_def)
  qed
  let ?r8 = "r7\<lparr>rq_is_valid := True, rq_is_https := (if protocol = ''https'' then Some True else rq_is_https r7)\<rparr>"
  have "create_from_url url refer range_beg range_end = Some (Some ?r8)"
    using assms r1(1) r2(1) r3(1) r4(1) r5(1) r6(1) r7(1) hp
    by (simp add: create_from_url_def rq_set_host_def hp_def [symmetric])
  moreover have "rq_get_header ''Host'' ?r8 = hp" using r7(3) by (simp add: rq_get_header_def)
  ultimately show ?thesis using r7(2) by (intro exI [of _ ?r8]) (simp add: request_ok_def hp_def)
qed

text \<open>Setting up a session's graph makes its machine one of a session, but for the request.\<close>

lemma session_graph_built:
  "\<exists>m ptr. setup_state_machine (http_session_specs True v cl) (AsyncStateMachine_new True c) = (True, m)
    \<and> members m = c \<and> fsm_ios m \<and> posted m = [] \<and> outputs m = [] \<and> current_state_id m = - 1
    \<and> state_graph m \<noteq> [] \<and> (\<forall>ph. built_at (ptr ph) (spec_of True v cl ph) m)
    \<and> phase_machine (spec_of True v cl) phase_input_ok phase_extra_ok (\<lambda>_. True) ptr m"
  using hs.graph_built [of v cl c] unfolding specs_of_phases .

lemma setup_socket_ok:
  assumes "tls \<longrightarrow> verify_file_loaded t \<or> v"
  shows "\<exists>t'. setup_socket True v tls host t = (True, t') \<and> is_tls t' = tls \<and> rcv_streambuf t' = [] \<and> qwiobuff t' = []"
  using assms by (cases tls) (simp_all add: setup_socket_def reset_caches_def Let_def)

text \<open>
  A request starts a session. For a complete URL whose protocol is not https, or with certificates
  that can be loaded, a new session's \<open>request\<close> succeeds: its machine is one of a session, the resolve
  state alone is posted and has the URL's host and port in its input event, nothing has been told or
  reported, and the request asks for the URL's path.
\<close>

theorem session_request_starts:
  fixes cl :: "'ep http_client"
  assumes "ParseUrl url = (protocol, host, show_nat port, path)" and "protocol \<noteq> []" and "host \<noteq> []"
    and "path \<noteq> []" and "CHR '':'' \<notin> set host" and "port < 2 ^ 32" and "url \<noteq> []"
    and "protocol = ''https'' \<longrightarrow> loaded \<or> verify_ok"
  shows "\<exists>m ptr r. session_request (http_session_specs True verify_ok cl) verify_ok now url ref_url range_start range_end
      (AsyncStateMachine_new True (HttpSession_new loaded before)) = Some (True, m)
    \<and> session_machine verify_ok cl ptr m
    \<and> posted m = [ptr Resolving] \<and> outputs m = [] \<and> current_state_id m = eHttpState_Resolve
    \<and> map_option ev_extra (st_input (fsm_heap m (ptr Resolving))) = Some (Resolve_Input host (show_nat port))
    \<and> map_option ev_setup (st_input (fsm_heap m (ptr Resolving))) = Some True
    \<and> hm_request (members m) = Some r \<and> rq_path r = path \<and> hm_told (members m) = []
    \<and> is_tls (hm_tcp (members m)) = (protocol = ''https'')"
proof -
  let ?c = "HttpSession_new loaded before :: 'ep http_members"
  obtain m1 ptr where m1: "setup_state_machine (http_session_specs True verify_ok cl) (AsyncStateMachine_new True ?c) = (True, m1)"
    "members m1 = ?c" "fsm_ios m1" "posted m1 = []" "outputs m1 = []" "current_state_id m1 = - 1"
    "state_graph m1 \<noteq> []" "\<And>ph. built_at (ptr ph) (spec_of True verify_ok cl ph) m1"
    and work: "phase_machine (spec_of True verify_ok cl) phase_input_ok phase_extra_ok (\<lambda>_. True) ptr m1"
    using session_graph_built [of verify_ok cl ?c] by blast
  obtain r where r: "create_from_url url ref_url range_start range_end = Some (Some r)" "request_ok r"
    "rq_path r = path" "rq_proxy_host r = []" "rq_get_header ''Host'' r = host @ '':'' @ show_nat port"
    "rq_is_https r = Some (protocol = ''https'')"
    using create_from_url_made [OF assms(1-4), of ref_url range_start range_end] by auto
  have req: "setup_request url ref_url range_start range_end ?c = Some (Some r)"
    using r(1) assms(7) by (simp add: setup_request_def HttpSession_new_def)
  have hp: "rq_get_conn_host_port r ([], 0) = (host, port)"
    using r(4,5) assms(3,5,6)
    by (simp add: rq_get_conn_host_port_def rq_get_host_port_def substr_def substr_from_def Let_def)
  obtain t where t: "setup_socket True verify_ok (protocol = ''https'') host (hm_tcp ?c) = (True, t)"
    "is_tls t = (protocol = ''https'')"
    using setup_socket_ok [of "protocol = ''https''" "hm_tcp ?c" verify_ok host] assms(8)
    by (auto simp: HttpSession_new_def TcpStateMachine_new_def)
  define c where "c = ?c\<lparr>hm_request := Some r, hm_tcp := t\<rparr>"
  define m3 where "m3 = m1\<lparr>members := c\<rparr>"
  have act: "activate_state m3 = Some (ptr Resolving)" "st_type (fsm_heap m3 (ptr Resolving)) = kTcpStateType_Resolve"
    "st_input (fsm_heap m3 (ptr Resolving)) = Some (StateEvent_new (Resolve_Input [] []))"
    "st_id (fsm_heap m3 (ptr Resolving)) = eHttpState_Resolve"
    using m1(8) [of Resolving] by (simp_all add: m3_def built_at_def http_session_specs_def)
  define inp :: "'ep tcp_extra state_event" where "inp = (StateEvent_new (Resolve_Input [] []))\<lparr>ev_extra := Resolve_Input host (show_nat port), ev_setup := True\<rparr>"
  define m4 where "m4 = set_st (ptr Resolving) ((fsm_heap m3 (ptr Resolving))\<lparr>st_input := Some inp\<rparr>) m3"
  have "session_machine verify_ok cl ptr m3"
    unfolding session_machine_def m3_def using r(2)
    by (intro phase_machine_members [OF work]) (auto simp: members_ok_def c_def HttpSession_new_def)
  then have m4: "session_machine verify_ok cl ptr m4"
    unfolding m4_def session_machine_def by (intro phase_machine_input) (simp_all add: inp_def)
  have same: "posted m4 = []" "outputs m4 = []" "current_state_id m4 = - 1" "fsm_ios m4" "state_graph m4 \<noteq> []"
    "activate_state m4 = Some (ptr Resolving)" "members m4 = c" "st_input (fsm_heap m4 (ptr Resolving)) = Some inp"
    "st_id (fsm_heap m4 (ptr Resolving)) = eHttpState_Resolve"
    using m1(3-7) act(1,4) by (simp_all add: m4_def m3_def set_st_def)
  have "show_nat port \<noteq> []" by (simp add: show_nat_nonempty)
  then have "http_request (http_session_specs True verify_ok cl) verify_ok url ref_url range_start range_end
      (AsyncStateMachine_new True ?c) = Some (activate_state_machine m4)"
    using m1(1-3) req r(6) hp t(1) act assms(3)
    by (simp add: http_request_def resolve_setup_input_event_def Let_def m3_def c_def m4_def inp_def)
  moreover have "activate_state_machine m4
      = (True, m4\<lparr>current_state_id := eHttpState_Resolve, posted := [ptr Resolving]\<rparr>)"
    using same by (simp add: activate_state_machine_def)
  ultimately have "session_request (http_session_specs True verify_ok cl) verify_ok now url ref_url range_start range_end
      (AsyncStateMachine_new True ?c)
    = Some (True, (m4\<lparr>current_state_id := eHttpState_Resolve, posted := [ptr Resolving]\<rparr>)
        \<lparr>members := c\<lparr>hm_timer := millisec_restart now\<rparr>\<rparr>)"
    using same(7) by (simp add: session_request_def)
  moreover have "members_ok (c\<lparr>hm_timer := millisec_restart now\<rparr>)"
    using r(2) by (simp add: members_ok_def c_def HttpSession_new_def)
  then have "session_machine verify_ok cl ptr ((m4\<lparr>current_state_id := eHttpState_Resolve, posted := [ptr Resolving]\<rparr>)
        \<lparr>members := c\<lparr>hm_timer := millisec_restart now\<rparr>\<rparr>)"
    unfolding session_machine_def
    by (rule phase_machine_members [OF phase_machine_rest(1) [OF m4 [unfolded session_machine_def]]])
  ultimately show ?thesis
    using same r(3) t(2)
    by (intro exI [of _ "(m4\<lparr>current_state_id := eHttpState_Resolve, posted := [ptr Resolving]\<rparr>)
        \<lparr>members := c\<lparr>hm_timer := millisec_restart now\<rparr>\<rparr>"] exI [of _ ptr] exI [of _ r])
      (simp add: inp_def c_def HttpSession_new_def StateEvent_new_def)
qed

lemma lexical_cast_80: "lexical_cast_uint ''80'' = Some 80"
proof -
  have "show_nat 80 = ''80''" by code_simp
  then show ?thesis using lexical_cast_uint_show [of 80] by simp
qed

lemma redirect_parts_absolute:
  assumes "CHR ''/'' \<notin> set auth" and "path = [] \<or> hd path = CHR ''/''"
  shows "redirect_parts (''http://'' @ auth @ path) = (Some auth, if path = [] then ''/'' else path)"
proof -
  have "str_find (''http://'' @ auth @ path) ''http://'' 0 = Some 0" by (simp add: str_find_def)
  moreover have "find_char (''http://'' @ auth @ path) (CHR ''/'') 7
      = (if path = [] then None else Some (7 + length auth))"
  proof (cases path)
    case Nil
    with assms(1) find_sub_char_notin [of "CHR ''/''" auth] show ?thesis
      by (simp add: find_char_def str_find_def)
  next
    case (Cons x xs)
    with assms find_sub_char_append [of "CHR ''/''" auth xs] show ?thesis
      by (simp add: find_char_def str_find_def)
  qed
  moreover have "drop (7 + length auth) (''http://'' @ auth @ path) = path"
    by (simp add: numeral_eq_Suc)
  ultimately show ?thesis by (simp add: redirect_parts_def substr_def substr_from_def)
qed

lemma redirect_parts_local:
  assumes "str_find local ''http://'' 0 \<noteq> Some 0"
  shows "redirect_parts local
    = (None, if local \<noteq> [] \<and> hd local = CHR ''/'' then local else CHR ''/'' # local)"
proof -
  have "find_char local (CHR ''/'') 0 = Some 0 \<longleftrightarrow> local \<noteq> [] \<and> hd local = CHR ''/''"
    by (cases local) (auto simp: find_char_def str_find_def split: option.splits)
  with assms show ?thesis by (simp add: redirect_parts_def)
qed

text \<open>
  Where a redirection goes. A location with \<open>http://\<close> changes the request's host and path and
  connects to that host and port; any other one, \<open>https://\<close> included, is taken for a path on the host
  the request was for, a slash being put before it when it has none. The socket is replaced and what
  was cached or still to be read is dropped.
\<close>

theorem redirect_goes_to_location:
  assumes "hm_request c = Some r" and "request_ok r" and "target_reachable verify_ok c" and "rq_proxy_host r = []"
    and "CHR ''/'' \<notin> set auth" and "auth = host @ (if port = 80 then [] else '':'' @ show_nat port)" and "host \<noteq> []"
    and "CHR '':'' \<notin> set host" and "port < 2 ^ 32" and "path = [] \<or> hd path = CHR ''/''"
    and "str_find local ''http://'' 0 \<noteq> Some 0" and "rq_get_conn_host_port r ([], 0) = (old_host, old_port)"
  shows "(\<exists>c' r'. redirect True verify_ok (''http://'' @ auth @ path) [] c = Some (True, host, show_nat port, c')
      \<and> hm_request c' = Some r' \<and> rq_get_header ''Host'' r' = auth
      \<and> rq_path r' = (if path = [] then ''/'' else path)
      \<and> rcv_streambuf (hm_tcp c') = [] \<and> qwiobuff (hm_tcp c') = [])
    \<and> (\<exists>c' r'. redirect True verify_ok local [] c = Some (True, old_host, show_nat old_port, c')
      \<and> hm_request c' = Some r' \<and> rq_get_header ''Host'' r' = rq_get_header ''Host'' r
      \<and> rq_path r' = (if local \<noteq> [] \<and> hd local = CHR ''/'' then local else CHR ''/'' # local)
      \<and> rcv_streambuf (hm_tcp c') = [] \<and> qwiobuff (hm_tcp c') = [])"
proof
  obtain https where https: "rq_is_https r = Some https" using assms(2) by (auto simp: request_ok_def)
  have sock: "\<exists>t. setup_socket True verify_ok https h (hm_tcp c) = (True, t) \<and> rcv_streambuf t = [] \<and> qwiobuff t = []"
    for h
    using setup_socket_ok [of https "hm_tcp c" verify_ok h] assms(1,3) https
    by (auto simp: target_reachable_def)
  show "\<exists>c' r'. redirect True verify_ok (''http://'' @ auth @ path) [] c = Some (True, host, show_nat port, c')
      \<and> hm_request c' = Some r' \<and> rq_get_header ''Host'' r' = auth
      \<and> rq_path r' = (if path = [] then ''/'' else path)
      \<and> rcv_streambuf (hm_tcp c') = [] \<and> qwiobuff (hm_tcp c') = []"
  proof -
    have parts: "redirect_parts (''http://'' @ auth @ path) = (Some auth, if path = [] then ''/'' else path)"
      using redirect_parts_absolute [OF assms(5,10)] .
    have auth: "auth \<noteq> []" using assms(6,7) by auto
    obtain r1 where r1: "rq_set_header ''Host'' auth r = Some r1" "request_ok r1" "rq_get_header ''Host'' r1 = auth"
      "r1 = r\<lparr>rq_header_fields_map := rq_header_fields_map r1, rq_headers := rq_headers r1\<rparr>"
      using rq_set_header_keeps [OF assms(2)] by blast
    have keep: "rq_proxy_host r1 = []" "rq_is_https r1 = Some https"
      by (subst r1(4), simp add: assms(4) https)+
    let ?r2 = "r1\<lparr>rq_path := if path = [] then ''/'' else path\<rparr>"
    have h: "rq_get_header ''Host'' ?r2 = auth" using r1(3) by (simp add: rq_get_header_def)
    have hp: "rq_get_conn_host_port ?r2 ([], 0) = (host, port)"
      using h keep(1) assms(6,7,8,9) auth lexical_cast_80
      by (cases "port = 80") (simp_all add: rq_get_conn_host_port_def rq_get_host_port_def substr_def
          substr_from_def Let_def)
    obtain t where t: "setup_socket True verify_ok https host (hm_tcp c) = (True, t)" "rcv_streambuf t = []"
      "qwiobuff t = []" using sock by blast
    have "redirect True verify_ok (''http://'' @ auth @ path) [] c
        = Some (True, host, show_nat port, c\<lparr>hm_request := Some ?r2, hm_tcp := t\<rparr>)"
      using assms(1) parts r1(1) auth hp keep(2) t(1) by (simp add: redirect_def rq_set_host_def)
    with h t(2,3) show ?thesis
      by (intro exI [of _ "c\<lparr>hm_request := Some ?r2, hm_tcp := t\<rparr>"] exI [of _ ?r2]) simp
  qed
  show "\<exists>c' r'. redirect True verify_ok local [] c = Some (True, old_host, show_nat old_port, c')
      \<and> hm_request c' = Some r' \<and> rq_get_header ''Host'' r' = rq_get_header ''Host'' r
      \<and> rq_path r' = (if local \<noteq> [] \<and> hd local = CHR ''/'' then local else CHR ''/'' # local)
      \<and> rcv_streambuf (hm_tcp c') = [] \<and> qwiobuff (hm_tcp c') = []"
  proof -
    let ?p = "if local \<noteq> [] \<and> hd local = CHR ''/'' then local else CHR ''/'' # local"
    have parts: "redirect_parts local = (None, ?p)" using redirect_parts_local [OF assms(11)] .
    let ?r2 = "r\<lparr>rq_path := ?p\<rparr>"
    have hp: "rq_get_conn_host_port ?r2 ([], 0) = (old_host, old_port)"
      unfolding assms(12) [symmetric]
      by (simp add: rq_get_conn_host_port_def rq_get_host_port_def rq_get_header_def)
    obtain t where t: "setup_socket True verify_ok https old_host (hm_tcp c) = (True, t)" "rcv_streambuf t = []"
      "qwiobuff t = []" using sock by blast
    have "redirect True verify_ok local [] c
        = Some (True, old_host, show_nat old_port, c\<lparr>hm_request := Some ?r2, hm_tcp := t\<rparr>)"
      using assms(1) parts hp https t(1) by (simp add: redirect_def)
    with t(2,3) show ?thesis
      by (intro exI [of _ "c\<lparr>hm_request := Some ?r2, hm_tcp := t\<rparr>"] exI [of _ ?r2])
        (simp add: rq_get_header_def)
  qed
qed

section \<open>Instances\<close>

text \<open>A user that agrees to everything, and a session that asks for a page.\<close>

definition demo_client :: "nat http_client" where
  "demo_client = \<lparr>http_handler = None, http_callbacks = (\<lambda>_. None), http_self = (\<lambda>_. kBeeErrorCode_Success)\<rparr>"

lemma show_nat_81: "show_nat 81 = ''81''"
  by code_simp

lemma demo_url: "ParseUrl ''http://h:81/p'' = (''http'', ''h'', show_nat 81, ''/p'')"
  unfolding show_nat_81
  by (simp add: ParseUrl_def str_find_def find_char_def substr_def substr_from_def Let_def numeral_eq_Suc)

theorem session_request_starts_witness:
  "\<exists>m ptr. session_request (http_session_specs True False demo_client) False 0 ''http://h:81/p'' [] (- 1) (- 1)
      (AsyncStateMachine_new True (HttpSession_new False 0)) = Some (True, m)
    \<and> session_machine False demo_client ptr m \<and> posted m = [ptr Resolving]"
proof -
  from session_request_starts [OF demo_url, of False False demo_client 0 "[]" "- 1" "- 1" 0]
  obtain m ptr where
    "session_request (http_session_specs True False demo_client) False 0 ''http://h:81/p'' [] (- 1) (- 1)
      (AsyncStateMachine_new True (HttpSession_new False 0)) = Some (True, m)"
    "session_machine False demo_client ptr m" "posted m = [ptr Resolving]" by auto
  then show ?thesis by blast
qed

text \<open>A session's machine as a request leaves it, with the answer \<open>eps\<close> of a look-up put in.\<close>

lemma demo_session:
  obtains ptr m ev where "session_machine False cl ptr m"
    and "st_output (fsm_heap m (ptr Resolving)) = Some ev" and "ev_setup ev" and "ev_extra ev = Resolve_Output [0 :: nat]"
    and "hm_response (members m) = None"
proof -
  obtain m ptr where b: "members m = HttpSession_new False 0"
    "phase_machine (spec_of True False cl) phase_input_ok phase_extra_ok (\<lambda>_. True) ptr m"
    using session_graph_built [of False cl "HttpSession_new False 0"] by blast
  let ?c = "(members m)\<lparr>hm_request := Some HttpRequest_new\<rparr>"
  let ?ev = "(StateEvent_new (Resolve_Output [0 :: nat]))\<lparr>ev_setup := True\<rparr>"
  have "members_ok ?c"
    by (simp add: members_ok_def b(1) request_ok_def HttpRequest_new_def fields_agree_def HttpSession_new_def)
  then have "session_machine False cl ptr (set_output_event (ptr Resolving) ?ev (m\<lparr>members := ?c\<rparr>))"
    unfolding session_machine_def
    by (intro phase_machine_output phase_machine_members [OF b(2)]) (simp_all add: StateEvent_new_def)
  with that b(1) show ?thesis by (simp add: StateEvent_new_def HttpSession_new_def)
qed

theorem session_implements_flow_witness:
  "\<exists>ptr m m'. state_done_ec kBeeErrorCode_Success Ec_Ok (ptr Resolving) m = Some (True, m')
    \<and> session_machine False demo_client ptr m \<and> posted m' = posted m @ [ptr Connecting]"
proof -
  obtain ptr m ev where m: "session_machine False demo_client ptr m"
    "st_output (fsm_heap m (ptr Resolving)) = Some ev" "ev_setup ev" "ev_extra ev = Resolve_Output [0]"
    using demo_session by blast
  have flow: "http_flow_next demo_client reach resp Resolving (Resolve_Output [0]) d = Goes_On Connecting"
    for reach resp d
    by (simp add: http_flow_next_def if_agreed_def verdict_def demo_client_def)
  from session_implements_flow [OF m(1,2), of kBeeErrorCode_Success Ec_Ok] obtain ret m' where
    "state_done_ec kBeeErrorCode_Success Ec_Ok (ptr Resolving) m = Some (ret, m')"
    "follows (spec_of True False demo_client) (Goes_On Connecting) ptr m ret m'" by (auto simp: m(3,4) flow)
  with m(1) show ?thesis by (auto simp: follows_def)
qed

theorem redirect_goes_to_location_witness:
  "\<exists>c'. redirect True False (''http://'' @ ''n:81'' @ ''/q'') []
      ((HttpSession_new False 0 :: nat http_members)\<lparr>hm_request := Some HttpRequest_new\<rparr>)
    = Some (True, ''n'', ''81'', c')"
proof -
  let ?c = "(HttpSession_new False 0 :: nat http_members)\<lparr>hm_request := Some HttpRequest_new\<rparr>"
  have "hm_request ?c = Some HttpRequest_new" "request_ok HttpRequest_new" "target_reachable False ?c"
    "rq_proxy_host HttpRequest_new = []"
    by (simp_all add: request_ok_def HttpRequest_new_def fields_agree_def target_reachable_def)
  moreover have "rq_get_conn_host_port HttpRequest_new ([], 0) = ([], 0)"
    by (simp add: rq_get_conn_host_port_def rq_get_host_port_def rq_get_header_def header_get_def
        header_find_def HttpRequest_new_def)
  ultimately show ?thesis
    using redirect_goes_to_location [of ?c HttpRequest_new False "''n:81''" "''n''" 81 "''/q''" "''p''" "[]" 0]
    by (fastforce simp: str_find_def show_nat_81)
qed

end
