(* ===== verification/Bee_Crypto.thy ===== *)
theory Bee_Crypto
  imports Bee_Prelude
begin

text \<open>
  The wrappers of src/utility/crypto.cpp around openssl and zlib that the CA client uses. The libraries
  are parameters: a record of functions for RSA, a step function for \<open>inflate\<close>.

  Shown: decompression ends and stays inside its output buffer, for any \<open>inflate\<close> that makes progress
  when it says so; and what the wrappers do with data that is too long.
\<close>

section \<open>RSA\<close>

text \<open>
  \<open>lib_new_key\<close> is what \<open>RSA_generate_key_ex\<close> and the PEM writer give, \<open>lib_bio\<close> whether a memory BIO can
  be made, \<open>lib_read_pem\<close> a key read from PEM text, \<open>lib_rsa_size\<close> the length of a modulus in bytes; the
  two operations, with PKCS1 padding, answer \<open>None\<close> for an error.
\<close>

record 'k rsa_lib =
  lib_new_key :: "('k \<times> byte list) option"
  lib_bio :: bool
  lib_read_pem :: "byte list \<Rightarrow> 'k option"
  lib_rsa_size :: "'k \<Rightarrow> nat"
  lib_public_encrypt :: "'k \<Rightarrow> byte list \<Rightarrow> byte list option"
  lib_private_decrypt :: "'k \<Rightarrow> byte list \<Rightarrow> byte list option"

text \<open>A failure leaves key and text as they were.\<close>

definition rsa_generate_key ::
    "'k rsa_lib \<Rightarrow> 'k option \<Rightarrow> byte list \<Rightarrow> bool \<times> 'k option \<times> byte list" where
  "rsa_generate_key lib rsa_key pub_key_str =
     (case lib_new_key lib of
        None \<Rightarrow> (False, rsa_key, pub_key_str)
      | Some (k, pem) \<Rightarrow> (True, Some k, pem))"

definition rsa_generate_from_pub_key :: "'k rsa_lib \<Rightarrow> byte list \<Rightarrow> 'k option \<Rightarrow> bool \<times> 'k option" where
  "rsa_generate_from_pub_key lib pub_key rsa =
     (if pub_key = [] then (False, rsa)
      else if \<not> lib_bio lib then (True, rsa)
      else case lib_read_pem lib pub_key of None \<Rightarrow> (False, None) | Some k \<Rightarrow> (True, Some k))"

text \<open>The length is cut to what fits under the padding, in 32 bit arithmetic.\<close>

definition rsa_encrypt :: "'k rsa_lib \<Rightarrow> 'k option \<Rightarrow> byte list \<Rightarrow> byte list option" where
  "rsa_encrypt lib rsa in_data =
     (case rsa of
        None \<Rightarrow> None
      | Some k \<Rightarrow>
          if in_data = [] then None
          else
            (let room = unat (of_nat (lib_rsa_size lib k) - 11 :: u32)
             in lib_public_encrypt lib k (take (min (length in_data) room) in_data)))"

definition rsa_decrypt :: "'k rsa_lib \<Rightarrow> 'k option \<Rightarrow> byte list \<Rightarrow> byte list option" where
  "rsa_decrypt lib rsa in_data =
     (case rsa of None \<Rightarrow> None | Some k \<Rightarrow> if in_data = [] then None else lib_private_decrypt lib k in_data)"

lemma rsa_encrypt_short:
  assumes "in_data \<noteq> []" and "length in_data + 11 \<le> lib_rsa_size lib k" and "lib_rsa_size lib k < 2 ^ 32"
  shows "rsa_encrypt lib (Some k) in_data = lib_public_encrypt lib k in_data"
proof -
  let ?n = "lib_rsa_size lib k"
  have "(11 :: u32) \<le> of_nat ?n"
    using assms(2,3) by (simp add: word_le_nat_alt unat_of_nat)
  then have "unat (of_nat ?n - 11 :: u32) = ?n - 11"
    using assms(2,3) by (simp add: unat_sub unat_of_nat)
  with assms show ?thesis by (simp add: rsa_encrypt_def Let_def)
qed

section \<open>Decompression\<close>

text \<open>
  One call of \<open>inflate\<close>, with these bytes available and room for so many: its code, how many bytes it
  took, what it wrote, and the stream after it.
\<close>

datatype z_code = Z_OK | Z_STREAM_END | Z_DATA_ERROR | Z_OTHER

type_synonym 'z inflater = "'z \<Rightarrow> byte list \<Rightarrow> nat \<Rightarrow> z_code \<times> nat \<times> byte list \<times> 'z"

datatype gz_result = Gz_Data "byte list" | Gz_Failed | Gz_Overrun

definition dummy_head :: "byte list" where
  "dummy_head = [of_nat (0x8 + 0x7 * 0x10),
     of_nat ((((0x8 + 0x7 * 0x10) * 0x100 + 30) div 31 * 31) mod 256)]"

text \<open>
  The loop over single bytes. \<open>src\<close> is what can be read at \<open>next_in\<close>, \<open>tin\<close> is \<open>total_in\<close>, \<open>out\<close> what
  has been written. After the fall-back on a data error \<open>next_in\<close> stays behind the dummy head.
\<close>

partial_function (option) gz_loop ::
    "'z inflater \<Rightarrow> nat \<Rightarrow> nat \<Rightarrow> byte list \<Rightarrow> nat \<Rightarrow> byte list \<Rightarrow> 'z \<Rightarrow> (gz_result \<times> 'z) option" where
  "gz_loop inflate nzdata ndata src tin out z =
     (if length out < ndata \<and> tin < nzdata then
        (case src of
           [] \<Rightarrow> Some (Gz_Overrun, z)
         | b # bs \<Rightarrow>
             (let (err, used, made, z1) = inflate z [b] 1
              in if err = Z_STREAM_END then Some (Gz_Data (out @ made), z1)
                 else if err = Z_OK
                   then gz_loop inflate nzdata ndata (drop used src) (tin + used) (out @ made) z1
                 else if err = Z_DATA_ERROR then
                   (let (err2, used2, made2, z2) = inflate z1 dummy_head (1 - length made)
                    in if err2 \<noteq> Z_OK then Some (Gz_Failed, z2)
                       else gz_loop inflate nzdata ndata (drop used2 dummy_head) (tin + used + used2)
                              (out @ made @ made2) z2)
                 else Some (Gz_Failed, z1)))
      else Some (Gz_Data out, z))"

text \<open>\<open>stream\<close> is what \<open>inflateInit2\<close> gives, \<open>end_ok\<close> the answer of \<open>inflateEnd\<close>.\<close>

definition gz_decompress ::
    "'z inflater \<Rightarrow> 'z option \<Rightarrow> ('z \<Rightarrow> bool) \<Rightarrow> byte list \<Rightarrow> nat \<Rightarrow> nat \<Rightarrow> gz_result option" where
  "gz_decompress inflate stream end_ok zdata nzdata ndata =
     (case stream of
        None \<Rightarrow> Some Gz_Failed
      | Some z \<Rightarrow>
          map_option
            (\<lambda>(r, z'). case r of Gz_Data d \<Rightarrow> if end_ok z' then Gz_Data d else Gz_Failed | _ \<Rightarrow> r)
            (gz_loop inflate nzdata ndata zdata 0 [] z))"

text \<open>
  What zlib documents of \<open>inflate\<close>: it takes and writes no more than it is given, and \<open>Z_OK\<close> means that
  it has taken or written something.
\<close>

definition inflate_progress :: "'z inflater \<Rightarrow> bool" where
  "inflate_progress inflate \<longleftrightarrow>
     (\<forall>z src room. case inflate z src room of (err, used, made, z') \<Rightarrow>
        used \<le> length src \<and> length made \<le> room \<and> (err = Z_OK \<longrightarrow> 0 < used + length made))"

lemma inflate_progressD:
  "inflate_progress inflate \<Longrightarrow> inflate z src room = (err, used, made, z')
    \<Longrightarrow> used \<le> length src \<and> length made \<le> room \<and> (err = Z_OK \<longrightarrow> 0 < used + length made)"
  unfolding inflate_progress_def by (drule spec [of _ z], drule spec [of _ src], drule spec [of _ room]) simp

lemma gz_loop_ends:
  assumes "inflate_progress inflate" and "length out \<le> ndata" and "tin \<le> nzdata + 2"
  shows "\<exists>r z'. gz_loop inflate nzdata ndata src tin out z = Some (r, z')
    \<and> (\<forall>d. r = Gz_Data d \<longrightarrow> length d \<le> ndata)"
  using assms(2,3)
proof (induction "(ndata - length out) + (nzdata + 2 - tin)" arbitrary: src tin out z rule: less_induct)
  case less
  show ?case
  proof (cases "length out < ndata \<and> tin < nzdata")
    case False
    with less.prems show ?thesis by (subst gz_loop.simps) auto
  next
    case room: True
    show ?thesis
    proof (cases src)
      case Nil
      with room show ?thesis by (subst gz_loop.simps) auto
    next
      case (Cons b bs)
      obtain err used made z1 where i: "inflate z [b] 1 = (err, used, made, z1)"
        by (cases "inflate z [b] 1")
      note p = inflate_progressD [OF assms(1) i]
      have again: "\<exists>r z'. gz_loop inflate nzdata ndata s (tin + u) (out @ w) y = Some (r, z')
          \<and> (\<forall>d. r = Gz_Data d \<longrightarrow> length d \<le> ndata)"
        if "u \<le> 3" "length w \<le> 1" "0 < u + length w" for s u w y
      proof (rule less.hyps)
        show "(ndata - length (out @ w)) + (nzdata + 2 - (tin + u)) < (ndata - length out) + (nzdata + 2 - tin)"
          using that room unfolding length_append by arith
      qed (use that room in auto)
      consider (over) "err = Z_STREAM_END" | (ok) "err = Z_OK" | (data) "err = Z_DATA_ERROR" | (other) "err = Z_OTHER"
        by (cases err) auto
      then show ?thesis
      proof cases
        case over
        with room Cons i p show ?thesis by (subst gz_loop.simps) auto
      next
        case ok
        with again [of used made] p have "\<exists>r z'. gz_loop inflate nzdata ndata (drop used src) (tin + used) (out @ made) z1
            = Some (r, z') \<and> (\<forall>d. r = Gz_Data d \<longrightarrow> length d \<le> ndata)" by simp
        with ok room Cons i show ?thesis by (subst gz_loop.simps) simp
      next
        case data
        obtain err2 used2 made2 z2 where j: "inflate z1 dummy_head (1 - length made) = (err2, used2, made2, z2)"
          by (cases "inflate z1 dummy_head (1 - length made)")
        note q = inflate_progressD [OF assms(1) j]
        show ?thesis
        proof (cases "err2 = Z_OK")
          case True
          have "\<exists>r z'. gz_loop inflate nzdata ndata (drop used2 dummy_head) (tin + (used + used2)) (out @ (made @ made2)) z2
              = Some (r, z') \<and> (\<forall>d. r = Gz_Data d \<longrightarrow> length d \<le> ndata)"
            by (rule again) (use p q True in \<open>auto simp: dummy_head_def\<close>)
          with data True room Cons i j show ?thesis by (subst gz_loop.simps) (simp add: add.assoc)
        next
          case False
          with data room Cons i j show ?thesis by (subst gz_loop.simps) simp
        qed
      next
        case other
        with room Cons i show ?thesis by (subst gz_loop.simps) simp
      qed
    qed
  qed
qed

text \<open>A stored stream, byte by byte, as the simplest \<open>inflate\<close>: it copies and never ends by itself.\<close>

definition inflate_copy :: "unit inflater" where
  "inflate_copy z src room =
     (case src of [] \<Rightarrow> (Z_OTHER, 0, [], ()) | b # _ \<Rightarrow> if room = 0 then (Z_OTHER, 0, [], ()) else (Z_OK, 1, [b], ()))"

lemma inflate_copy_progress: "inflate_progress inflate_copy"
  by (auto simp: inflate_progress_def inflate_copy_def split: list.splits)

lemma gz_loop_copy:
  "length zdata + length out \<le> ndata \<Longrightarrow> tin + length zdata = nzdata
    \<Longrightarrow> gz_loop inflate_copy nzdata ndata (zdata @ rest) tin out () = Some (Gz_Data (out @ zdata), ())"
proof (induction zdata arbitrary: tin out)
  case Nil
  then show ?case by (subst gz_loop.simps) simp
next
  case (Cons b bs)
  have i: "inflate_copy () [b] 1 = (Z_OK, 1, [b], ())" by (simp add: inflate_copy_def)
  have "gz_loop inflate_copy nzdata ndata (bs @ rest) (tin + 1) (out @ [b]) () = Some (Gz_Data ((out @ [b]) @ bs), ())"
    using Cons.prems by (intro Cons.IH) simp_all
  with Cons.prems i show ?case by (subst gz_loop.simps) simp
qed

text \<open>
  C29: decompression always returns, whatever the data and even when they are broken, and what it writes
  fits its output buffer, for every \<open>inflate\<close> that keeps to its documentation.
\<close>

theorem gz_decompress_returns:
  assumes "inflate_progress inflate"
  shows "\<exists>r. gz_decompress inflate stream end_ok zdata nzdata ndata = Some r
    \<and> (\<forall>d. r = Gz_Data d \<longrightarrow> length d \<le> ndata)"
proof (cases stream)
  case None
  then show ?thesis by (simp add: gz_decompress_def)
next
  case (Some z)
  from gz_loop_ends [OF assms, of "[]" ndata 0 nzdata zdata z] obtain r z' where
    "gz_loop inflate nzdata ndata zdata 0 [] z = Some (r, z')" "\<forall>d. r = Gz_Data d \<longrightarrow> length d \<le> ndata" by auto
  with Some show ?thesis by (cases r) (auto simp: gz_decompress_def)
qed

theorem gz_decompress_returns_witness:
  "\<exists>r. gz_decompress inflate_copy (Some ()) (\<lambda>_. True) [1, 2, 3] 3 2 = Some r
    \<and> (\<forall>d. r = Gz_Data d \<longrightarrow> length d \<le> 2)"
  by (rule gz_decompress_returns [OF inflate_copy_progress])

end
