(* ===== verification/Bee_CA_Signature.thy ===== *)
theory Bee_CA_Signature
  imports Bee_XXTEA Bee_Algorithm
begin

text \<open>
  The signature of the CA protocol (src/server/ca/ca_client.cpp, \<open>create_signature\<close>,
  \<open>check_signature\<close> and \<open>check_sum\<close>): both sides prove that they know a public key by hashing bytes
  of it that random words select.

  The digest itself is a parameter \<open>H\<close>; the wrapper \<open>sha1\<close> of utility/crypto.cpp, which leaves its
  output alone for an empty input, is modelled. \<open>None\<close> is a read past the end of an array or string.

  What is shown: the check accepts what the other side created, for every key that is long enough; it
  accepts nothing whose digest does not belong to the selected bytes; and it accepts one fixed signature
  for every key, the one that selects nothing.
\<close>

section \<open>The packet\<close>

definition htons :: "u16 \<Rightarrow> u16" where
  "htons w = push_bit 8 w OR drop_bit 8 w"

record Signature =
  sg_sum :: u16
  sg_r :: "byte list"
  sg_hash :: "byte list"

definition kSignatureLen :: nat where
  "kSignatureLen = 54"

definition bytes_of_u16 :: "u16 \<Rightarrow> byte list" where
  "bytes_of_u16 w = [ucast w, ucast (drop_bit 8 w)]"

definition signature_bytes :: "Signature \<Rightarrow> byte list" where
  "signature_bytes s = bytes_of_u16 (sg_sum s) @ sg_r s @ sg_hash s"

definition signature_of_bytes :: "byte list \<Rightarrow> Signature" where
  "signature_of_bytes bs = \<lparr>sg_sum = ucast (bs ! 0) OR push_bit 8 (ucast (bs ! 1)),
     sg_r = take 32 (drop 2 bs), sg_hash = take 20 (drop 34 bs)\<rparr>"

section \<open>Sums and digests\<close>

text \<open>The loop of \<open>check_sum\<close>: for an odd length it reads the byte behind the array.\<close>

fun pair_sum :: "byte list \<Rightarrow> u32 \<Rightarrow> u32 option" where
  "pair_sum [] s = Some s"
| "pair_sum [b] s = None"
| "pair_sum (b # c # bs) s = pair_sum bs (s + ucast (push_bit 8 (ucast b) OR ucast c :: u16))"

definition check_sum :: "byte list \<Rightarrow> u16 option" where
  "check_sum buffer =
     map_option
       (\<lambda>sm. let s1 = drop_bit 16 sm + (sm AND 0xFFFF); s2 = s1 + drop_bit 16 s1 in ucast (NOT s2))
       (pair_sum buffer 0)"

definition sha1 :: "(byte list \<Rightarrow> byte list) \<Rightarrow> byte list \<Rightarrow> byte list option" where
  "sha1 H in_data = (if in_data = [] then None else Some (H in_data))"

text \<open>What the zeroed output array holds after the call.\<close>

definition digest :: "(byte list \<Rightarrow> byte list) \<Rightarrow> byte list \<Rightarrow> byte list" where
  "digest H value = (case sha1 H value of None \<Rightarrow> replicate 20 0 | Some h \<Rightarrow> h)"

section \<open>Creating a signature\<close>

text \<open>\<open>sizeof("-----BEGIN PUBLIC KEY-----")\<close>, its NUL included.\<close>

definition key_head_len :: nat where
  "key_head_len = 27"

text \<open>One word's 32 bits: where a bit is set the byte of the key is taken. \<open>ori\<close> ends with the NUL.\<close>

fun pick_created :: "u32 \<Rightarrow> nat list \<Rightarrow> byte list \<Rightarrow> byte list \<times> nat \<Rightarrow> (byte list \<times> nat) option" where
  "pick_created r [] ori vp = Some vp"
| "pick_created r (j # js) ori (value, pos) =
     (if bit r j
      then if pos < length ori then pick_created r js ori (value @ [ori ! pos], pos + 1) else None
      else pick_created r js ori (value, pos + 1))"

fun create_words :: "nat \<Rightarrow> u32 \<Rightarrow> byte list \<Rightarrow> byte list \<times> nat \<Rightarrow> (u32 list \<times> byte list) option" where
  "create_words 0 seedp ori vp = Some ([], fst vp)"
| "create_words (Suc n) seedp ori vp =
     (let (i, seedp') = rand_r seedp; r = word_of_int i
      in case pick_created r [0..<32] ori vp of
           None \<Rightarrow> None
         | Some vp' \<Rightarrow> map_option (\<lambda>(rs, value). (r # rs, value)) (create_words n seedp' ori vp'))"

definition hex_digit :: "nat \<Rightarrow> byte" where
  "hex_digit n = of_nat (if n < 10 then 48 + n else 87 + n)"

text \<open>\<open>snprintf(value, 3, "%02x", b)\<close>\<close>

definition hex2 :: "byte \<Rightarrow> byte list" where
  "hex2 b = [hex_digit (unat b div 16), hex_digit (unat b mod 16)]"

definition words_hex :: "u32 list \<Rightarrow> byte list" where
  "words_hex rs = concat (map hex2 (concat (map (\<lambda>r. bytes_of_word (bswap32 r)) rs)))"

text \<open>The inner option is the result \<open>false\<close>.\<close>

definition create_signature ::
    "(byte list \<Rightarrow> byte list) \<Rightarrow> u32 \<Rightarrow> byte list \<Rightarrow> Signature option option" where
  "create_signature H tick client_public_key =
     (if client_public_key = [] then Some None
      else
        do {
          (rs, value) \<leftarrow> create_words 4 tick (drop key_head_len (client_public_key @ [0])) ([], 0);
          sm \<leftarrow> check_sum (words_hex rs @ digest H value);
          Some (Some \<lparr>sg_sum = htons sm, sg_r = words_hex rs, sg_hash = digest H value\<rparr>)
        })"

section \<open>Checking a signature\<close>

definition hex_byte_value :: "byte \<Rightarrow> nat option" where
  "hex_byte_value c =
     (let n = unat c
      in if 48 \<le> n \<and> n \<le> 57 then Some (n - 48)
         else if 65 \<le> n \<and> n \<le> 70 then Some (n - 55)
         else if 97 \<le> n \<and> n \<le> 102 then Some (n - 87) else None)"

definition space_byte :: "byte \<Rightarrow> bool" where
  "space_byte c \<longleftrightarrow> unat c \<in> {9, 10, 11, 12, 13, 32}"

text \<open>
  \<open>strtol(v, &endptr, 16)\<close> on a text without NUL: the value and what \<open>endptr\<close> points to. A text
  without a digit is not read at all.
\<close>

definition strtol16 :: "byte list \<Rightarrow> int \<times> byte list" where
  "strtol16 s =
     (let s1 = dropWhile space_byte s;
          neg = (s1 \<noteq> [] \<and> hd s1 = 45);
          s2 = (if s1 \<noteq> [] \<and> (hd s1 = 45 \<or> hd s1 = 43) then tl s1 else s1);
          s3 = (case s2 of
                  z # x # d # r \<Rightarrow>
                    if z = 48 \<and> (x = 120 \<or> x = 88) \<and> hex_byte_value d \<noteq> None then d # r else s2
                | _ \<Rightarrow> s2);
          ds = takeWhile (\<lambda>c. hex_byte_value c \<noteq> None) s3;
          v = foldl (\<lambda>a c. a * 16 + int (the (hex_byte_value c))) 0 ds
      in if ds = [] then (0, s) else (if neg then - v else v, drop (length ds) s3))"

text \<open>Two characters at a time, cut at a NUL as C strings are; \<open>None\<close>: refused.\<close>

fun parse_pairs :: "byte list \<Rightarrow> byte list option" where
  "parse_pairs (c # d # cs) =
     (let (b, rest) = strtol16 (takeWhile (\<lambda>c. c \<noteq> 0) [c, d])
      in if rest \<noteq> [] then None else map_option (\<lambda>bs. word_of_int b # bs) (parse_pairs cs))"
| "parse_pairs _ = Some []"

text \<open>\<open>None\<close>: the key is at its end, and the signature is refused.\<close>

fun pick_checked :: "u32 \<Rightarrow> nat list \<Rightarrow> byte list \<Rightarrow> byte list \<times> nat \<Rightarrow> (byte list \<times> nat) option" where
  "pick_checked r [] pub_key vp = Some vp"
| "pick_checked r (j # js) pub_key (v, pos) =
     (if length pub_key = pos then None
      else pick_checked r js pub_key ((if bit r j then v @ [pub_key ! pos] else v), pos + 1))"

fun check_words :: "u32 list \<Rightarrow> byte list \<Rightarrow> byte list \<times> nat \<Rightarrow> (byte list \<times> nat) option" where
  "check_words [] pub_key vp = Some vp"
| "check_words (r # rs) pub_key vp =
     (case pick_checked r [0..<32] pub_key vp of None \<Rightarrow> None | Some vp' \<Rightarrow> check_words rs pub_key vp')"

definition check_signature ::
    "(byte list \<Rightarrow> byte list) \<Rightarrow> byte list \<Rightarrow> byte list \<Rightarrow> bool option" where
  "check_signature H signature pub_key =
     (if length signature \<noteq> kSignatureLen \<or> key_head_len \<ge> length pub_key then Some False
      else
        (let s = signature_of_bytes signature
         in case check_sum (drop 2 signature) of
              None \<Rightarrow> None
            | Some sm \<Rightarrow>
                if sg_sum s \<noteq> htons sm then Some False
                else case parse_pairs (sg_r s) of
                    None \<Rightarrow> Some False
                  | Some pr \<Rightarrow>
                      (case check_words (map bswap32 (words_of_bytes pr)) (drop key_head_len pub_key) ([], 0) of
                         None \<Rightarrow> Some False
                       | Some (v, _) \<Rightarrow> Some (sg_hash s = digest H v))))"

section \<open>What is selected\<close>

text \<open>The bytes of a key that the bits of the words select, 32 positions per word.\<close>

definition selected_bytes :: "u32 list \<Rightarrow> byte list \<Rightarrow> byte list" where
  "selected_bytes rs key =
     nths (take (32 * length rs) key) {p. bit (rs ! (p div 32)) (p mod 32)}"

fun random_words :: "nat \<Rightarrow> u32 \<Rightarrow> u32 list" where
  "random_words 0 seedp = []"
| "random_words (Suc n) seedp =
     (let (i, seedp') = rand_r seedp in word_of_int i # random_words n seedp')"

lemma length_random_words [simp]: "length (random_words n seedp) = n"
  by (induction n arbitrary: seedp) (auto simp: Let_def split: prod.split)

lemma nths_cong_index:
  assumes "\<And>i. i < length xs \<Longrightarrow> i \<in> A \<longleftrightarrow> i \<in> B"
  shows "nths xs A = nths xs B"
  unfolding nths_def
  by (rule arg_cong [where f = "map fst"], rule filter_cong) (auto simp: assms dest: set_zip_rightD)

lemma nths_cong_values:
  assumes "\<And>i. i < length xs \<Longrightarrow> i \<in> A \<Longrightarrow> xs ! i = ys ! i" and "length xs = length ys"
  shows "nths xs A = nths ys A"
  using assms(2,1)
proof (induction xs ys arbitrary: A rule: list_induct2)
  case Nil
  then show ?case by simp
next
  case (Cons x xs y ys)
  have "nths xs {j. Suc j \<in> A} = nths ys {j. Suc j \<in> A}" using Cons.prems by (intro Cons.IH) force
  moreover have "0 \<in> A \<Longrightarrow> x = y" using Cons.prems [of 0] by simp
  ultimately show ?case by (simp add: nths_Cons)
qed

lemma take_drop_step: "pos < length key \<Longrightarrow> take (Suc n) (drop pos key) = key ! pos # take n (drop (Suc pos) key)"
  by (simp add: Cons_nth_drop_Suc [symmetric])

text \<open>The two loops over a word's bits select alike where the key is long enough.\<close>

lemma pick_nths:
  assumes "pos + length js \<le> length key"
  shows "pick_checked r js key (v, pos)
      = Some (v @ nths (take (length js) (drop pos key)) {k. bit r (js ! k)}, pos + length js)"
    and "pick_created r js key (v, pos)
      = Some (v @ nths (take (length js) (drop pos key)) {k. bit r (js ! k)}, pos + length js)"
proof -
  have "pick_checked r js key (v, pos)
      = Some (v @ nths (take (length js) (drop pos key)) {k. bit r (js ! k)}, pos + length js)
    \<and> pick_created r js key (v, pos)
      = Some (v @ nths (take (length js) (drop pos key)) {k. bit r (js ! k)}, pos + length js)"
    using assms
  proof (induction js arbitrary: v pos)
    case Nil
    then show ?case by simp
  next
    case (Cons j js)
    then show ?case using Cons.IH [of "Suc pos"] by (simp add: take_drop_step nths_Cons)
  qed
  then show "pick_checked r js key (v, pos)
      = Some (v @ nths (take (length js) (drop pos key)) {k. bit r (js ! k)}, pos + length js)"
    "pick_created r js key (v, pos)
      = Some (v @ nths (take (length js) (drop pos key)) {k. bit r (js ! k)}, pos + length js)"
    by auto
qed

lemma word_bits:
  "length xs \<le> 32 \<Longrightarrow> nths xs {k. bit r ([0..<32] ! k)} = nths xs {p. bit ((r # rs) ! (p div 32)) (p mod 32)}"
  by (rule nths_cong_index) simp

lemma select_step:
  assumes "pos + 32 * Suc n \<le> length key"
  shows "nths (take 32 (drop pos key)) {k. bit r ([0..<32] ! k)}
      @ nths (take (32 * n) (drop (pos + 32) key)) {p. bit (rs ! (p div 32)) (p mod 32)}
    = nths (take (32 * Suc n) (drop pos key)) {p. bit ((r # rs) ! (p div 32)) (p mod 32)}"
proof -
  have "take (32 * Suc n) (drop pos key) = take 32 (drop pos key) @ take (32 * n) (drop (pos + 32) key)"
    by (simp add: take_add add.commute)
  moreover have "{j. j + 32 \<in> {p. bit ((r # rs) ! (p div 32)) (p mod 32)}}
      = {p. bit (rs ! (p div 32)) (p mod 32)}" by (simp add: div_add_self2)
  ultimately show ?thesis using assms
    by (simp add: nths_append word_bits [where rs = rs] min_def)
qed

lemma check_words_select:
  assumes "pos + 32 * length rs \<le> length key"
  shows "check_words rs key (v, pos)
    = Some (v @ nths (take (32 * length rs) (drop pos key)) {p. bit (rs ! (p div 32)) (p mod 32)},
        pos + 32 * length rs)"
  using assms
proof (induction rs arbitrary: v pos)
  case Nil
  then show ?case by simp
next
  case (Cons r rs)
  then show ?case using select_step [of pos "length rs" key r rs]
    by (simp add: pick_nths Cons.IH [of "pos + 32"] del: upt_Suc)
qed

lemma create_words_select:
  assumes "pos + 32 * n \<le> length key"
  shows "create_words n seedp key (v, pos)
    = Some (random_words n seedp, v @ nths (take (32 * n) (drop pos key))
        {p. bit (random_words n seedp ! (p div 32)) (p mod 32)})"
  using assms
proof (induction n arbitrary: v pos seedp)
  case 0
  then show ?case by simp
next
  case (Suc n)
  obtain i seedp' where r: "rand_r seedp = (i, seedp')" by (cases "rand_r seedp")
  from Suc.prems show ?case
    using select_step [of pos n key "word_of_int i" "random_words n seedp'"]
    by (simp add: r pick_nths Suc.IH [of "pos + 32"] Let_def del: upt_Suc)
qed

section \<open>The packet and the hexadecimal digits round trip\<close>

lemma u16_of_bytes: "ucast (ucast w :: byte) OR push_bit 8 (ucast (ucast (drop_bit 8 w) :: byte)) = (w :: u16)"
  (is "?l = w")
proof (rule bit_word_eqI)
  fix n assume "n < LENGTH(16)"
  then have "n < 8 \<or> 8 \<le> n \<and> n < 16" by auto
  then show "bit ?l n = bit w n" by (elim disjE) (auto simp: bit_simps)
qed

lemma signature_of_bytes_of_signature:
  assumes "length (sg_r s) = 32" and "length (sg_hash s) = 20"
  shows "signature_of_bytes (signature_bytes s) = s"
  using assms by (simp add: signature_of_bytes_def signature_bytes_def bytes_of_u16_def u16_of_bytes)

lemma hex_digit_read:
  assumes "n < 16"
  shows "hex_byte_value (hex_digit n) = Some n \<and> hex_digit n \<noteq> 0 \<and> \<not> space_byte (hex_digit n)
    \<and> hex_digit n \<noteq> 45 \<and> hex_digit n \<noteq> 43"
proof -
  have "list_all (\<lambda>n. hex_byte_value (hex_digit n) = Some n \<and> hex_digit n \<noteq> 0
      \<and> \<not> space_byte (hex_digit n) \<and> hex_digit n \<noteq> 45 \<and> hex_digit n \<noteq> 43) [0..<16]"
    by (simp add: upt_rec hex_digit_def hex_byte_value_def space_byte_def Let_def)
  with assms show ?thesis by (simp add: list_all_iff)
qed

lemma strtol_hex2: "strtol16 (takeWhile (\<lambda>c. c \<noteq> 0) (hex2 b)) = (int (unat b), [])"
proof -
  have lt: "unat b < 256" using unsigned_less [of b] by simp
  have "unat b div 16 < 16" "unat b mod 16 < 16" using lt by auto
  note d = hex_digit_read [OF this(1)] hex_digit_read [OF this(2)]
  have "int (unat b div 16) * 16 + int (unat b mod 16) = int (unat b)"
    by (metis div_mult_mod_eq of_nat_add of_nat_mult of_nat_numeral)
  with d show ?thesis by (simp add: hex2_def strtol16_def Let_def)
qed

lemma parse_hex: "parse_pairs (concat (map hex2 bs)) = Some bs"
proof (induction bs)
  case Nil
  then show ?case by simp
next
  case (Cons b bs)
  obtain c d where cd: "hex2 b = [c, d]" by (simp add: hex2_def)
  have "strtol16 (takeWhile (\<lambda>c. c \<noteq> 0) [c, d]) = (int (unat b), [])" using strtol_hex2 [of b] cd by simp
  moreover have "word_of_int (int (unat b)) = b" by simp
  ultimately show ?case using Cons cd by (simp del: takeWhile.simps)
qed

lemma parse_words_hex:
  "parse_pairs (words_hex rs) = Some (concat (map bytes_of_word (map bswap32 rs)))"
  by (simp add: words_hex_def parse_hex comp_def)

lemma bswap32_words: "map bswap32 (words_of_bytes (concat (map bytes_of_word (map bswap32 rs)))) = rs"
  unfolding words_of_bytes_of_words by (simp add: comp_def bswap32_involution)

lemma length_concat_const: "(\<And>x. length (f x) = k) \<Longrightarrow> length (concat (map f xs)) = k * length xs"
  by (induction xs) auto

lemma length_words_hex [simp]: "length (words_hex rs) = 8 * length rs"
  unfolding words_hex_def
  by (simp add: length_concat_const [where k = 2] length_concat_const [where k = 4] hex2_def)

lemma pair_sum_total: "even (length bs) \<Longrightarrow> \<exists>r. pair_sum bs s = Some r"
  by (induction bs s rule: pair_sum.induct) auto

lemma check_sum_total: "even (length bs) \<Longrightarrow> \<exists>r. check_sum bs = Some r"
  using pair_sum_total [of bs 0] by (auto simp: check_sum_def)

lemma length_digest: "(\<And>x. length (H x) = 20) \<Longrightarrow> length (digest H v) = 20"
  by (simp add: digest_def sha1_def)

section \<open>Both sides agree\<close>

lemma create_signature_long_key:
  assumes "key_head_len + 128 \<le> length key"
  shows "create_signature H tick key =
    (let rs = random_words 4 tick; h = digest H (selected_bytes rs (drop key_head_len key))
     in map_option (\<lambda>sm. Some \<lparr>sg_sum = htons sm, sg_r = words_hex rs, sg_hash = h\<rparr>)
          (check_sum (words_hex rs @ h)))"
proof -
  have "key \<noteq> []" using assms by (auto simp: key_head_len_def)
  moreover have "create_words 4 tick (drop key_head_len (key @ [0])) ([], 0)
      = Some (random_words 4 tick, selected_bytes (random_words 4 tick) (drop key_head_len key))"
    using assms by (subst create_words_select) (auto simp: selected_bytes_def)
  ultimately show ?thesis
    by (cases "check_sum (words_hex (random_words 4 tick) @ digest H (selected_bytes (random_words 4 tick)
        (drop key_head_len key)))")
      (simp_all add: create_signature_def Let_def del: drop_append)
qed

lemma htons_involution: "htons (htons w) = w"
proof (rule bit_word_eqI)
  fix n assume "n < LENGTH(16)"
  then have "n < 8 \<or> 8 \<le> n \<and> n < 16" by auto
  then show "bit (htons (htons w)) n = bit w n" by (elim disjE) (auto simp: htons_def bit_simps)
qed

lemma length_parse_pairs: "parse_pairs cs = Some bs \<Longrightarrow> length bs = length cs div 2"
  by (induction cs arbitrary: bs rule: parse_pairs.induct)
    (auto split: prod.splits if_splits)

text \<open>
  C7: For a key with at least 128 bytes behind its 27 byte head line, the check decides exactly this:
  the packet has 54 bytes, its sum is that of its other bytes, its 32 characters are 16 hexadecimal
  numbers, and its digest is that of the bytes the numbers select, the reference definition
  \<open>selected_bytes\<close>. No read goes out of bounds.
\<close>

theorem check_signature_decides:
  assumes "key_head_len + 128 \<le> length key"
  shows "check_signature H sig key = Some
    (length sig = kSignatureLen
     \<and> check_sum (drop 2 sig) = Some (htons (sg_sum (signature_of_bytes sig)))
     \<and> (case parse_pairs (sg_r (signature_of_bytes sig)) of
          None \<Rightarrow> False
        | Some bs \<Rightarrow> sg_hash (signature_of_bytes sig)
            = digest H (selected_bytes (map bswap32 (words_of_bytes bs)) (drop key_head_len key))))"
proof (cases "length sig = kSignatureLen")
  case False
  then show ?thesis by (simp add: check_signature_def)
next
  case len: True
  let ?s = "signature_of_bytes sig"
  have key: "key_head_len < length key" using assms by simp
  have "even (length (drop 2 sig))" using len by (simp add: kSignatureLen_def)
  then obtain sm where sm: "check_sum (drop 2 sig) = Some sm" using check_sum_total by blast
  have sum: "sg_sum ?s = htons sm \<longleftrightarrow> sm = htons (sg_sum ?s)" using htons_involution by metis
  have r: "length (sg_r ?s) = 32" using len by (simp add: signature_of_bytes_def kSignatureLen_def)
  show ?thesis
  proof (cases "parse_pairs (sg_r ?s)")
    case None
    with len key sm sum show ?thesis by (auto simp: check_signature_def Let_def)
  next
    case (Some bs)
    let ?rs = "map bswap32 (words_of_bytes bs)"
    have "length bs = 16" using length_parse_pairs [OF Some] r by simp
    then have "length ?rs = 4" by (simp add: length_words_of_bytes)
    with assms have "check_words ?rs (drop key_head_len key) ([], 0)
        = Some (selected_bytes ?rs (drop key_head_len key), 128)"
      by (subst check_words_select) (auto simp: selected_bytes_def)
    with Some len key sm sum show ?thesis by (auto simp: check_signature_def Let_def)
  qed
qed

theorem check_signature_decides_witness:
  "check_signature (\<lambda>x. replicate 20 0) [1, 2, 3] (replicate 155 65) = Some False"
  using check_signature_decides [of "replicate 155 65" "\<lambda>x. replicate 20 0" "[1, 2, 3]"]
  by (simp add: key_head_len_def kSignatureLen_def)

lemma create_check_signature:
  assumes "\<And>x. length (H x) = 20" and "key_head_len + 128 \<le> length key"
  shows "\<exists>s. create_signature H tick key = Some (Some s) \<and> length (signature_bytes s) = kSignatureLen
    \<and> check_signature H (signature_bytes s) key = Some True"
proof -
  let ?rs = "random_words 4 tick" and ?k = "drop key_head_len key"
  let ?h = "digest H (selected_bytes ?rs ?k)"
  have h: "length ?h = 20" using assms(1) by (rule length_digest)
  then have "even (length (words_hex ?rs @ ?h))" by simp
  then obtain sm where sm: "check_sum (words_hex ?rs @ ?h) = Some sm" using check_sum_total by blast
  define s where "s = \<lparr>sg_sum = htons sm, sg_r = words_hex ?rs, sg_hash = ?h\<rparr>"
  have fields: "sg_sum s = htons sm" "sg_r s = words_hex ?rs" "sg_hash s = ?h" by (simp_all add: s_def)
  have made: "create_signature H tick key = Some (Some s)"
    using sm by (simp add: create_signature_long_key [OF assms(2)] Let_def s_def)
  have packet: "signature_of_bytes (signature_bytes s) = s"
    by (rule signature_of_bytes_of_signature) (simp_all add: fields h)
  have bytes: "length (signature_bytes s) = kSignatureLen" "drop 2 (signature_bytes s) = words_hex ?rs @ ?h"
    by (simp_all add: signature_bytes_def bytes_of_u16_def kSignatureLen_def fields h)
  have "check_words ?rs ?k ([], 0) = Some (selected_bytes ?rs ?k, 128)"
    using assms(2) by (subst check_words_select) (auto simp: selected_bytes_def)
  then have "check_signature H (signature_bytes s) key = Some True"
    using assms(2) bytes sm fields
    by (simp add: check_signature_def packet parse_words_hex bswap32_words Let_def del: map_map)
  with made bytes(1) show ?thesis by blast
qed

text \<open>
  C8: A signature made for a key of at least 155 bytes, sent as 54 bytes, is accepted by the other
  side's check of the same key, whatever the clock that seeds the random words. The digest is any
  function with 20 bytes.
\<close>

theorem ca_signature_accepted:
  assumes "\<And>x. length (H x) = 20" and "key_head_len + 128 \<le> length key"
  shows "\<exists>s. create_signature H tick key = Some (Some s) \<and> length (signature_bytes s) = kSignatureLen
    \<and> check_signature H (signature_bytes s) key = Some True"
  using assms by (rule create_check_signature)

theorem ca_signature_accepted_witness:
  "\<exists>s. create_signature (\<lambda>x. replicate 20 7) 12345 (replicate 155 65) = Some (Some s)
    \<and> length (signature_bytes s) = kSignatureLen
    \<and> check_signature (\<lambda>x. replicate 20 7) (signature_bytes s) (replicate 155 65) = Some True"
  by (rule ca_signature_accepted) (simp_all add: key_head_len_def)

section \<open>What the signature does not protect\<close>

text \<open>The packet that selects no byte: 32 characters zero, a digest of zeros.\<close>

definition empty_selection :: "byte list" where
  "empty_selection = signature_bytes \<lparr>sg_sum = htons (the (check_sum (replicate 32 48 @ replicate 20 0))),
     sg_r = replicate 32 48, sg_hash = replicate 20 0\<rparr>"

lemma parse_zeros: "parse_pairs (replicate 32 48) = Some (replicate 16 0)"
  by code_simp

lemma selected_none: "(\<And>r. r \<in> set rs \<Longrightarrow> r = 0) \<Longrightarrow> selected_bytes rs key = []"
proof -
  assume zero: "\<And>r. r \<in> set rs \<Longrightarrow> r = 0"
  have "\<not> bit (rs ! (p div 32)) (p mod 32)" if "p < 32 * length rs" for p
    using zero [of "rs ! (p div 32)"] that by (simp add: div_less_iff_less_mult)
  then show ?thesis unfolding selected_bytes_def
    by (subst nths_cong_index [where B = "{}"]) auto
qed

text \<open>
  One fixed packet is accepted for every key of at least 155 bytes, by a party that knows no byte
  of it: its words are zero and select nothing, \<open>sha1\<close> returns \<open>false\<close> for the empty input without
  touching the zeroed digest, and its result is not looked at.
\<close>

theorem empty_selection_accepted:
  assumes "key_head_len + 128 \<le> length key"
  shows "check_signature H empty_selection key = Some True"
proof -
  let ?h = "replicate 20 0 :: byte list" and ?r = "replicate 32 48 :: byte list"
  have "even (length (?r @ ?h))" by simp
  then obtain sm where sm: "check_sum (?r @ ?h) = Some sm" using check_sum_total by blast
  define s where "s = \<lparr>sg_sum = htons sm, sg_r = ?r, sg_hash = ?h\<rparr>"
  have e: "empty_selection = signature_bytes s" by (simp add: empty_selection_def s_def sm)
  have packet: "signature_of_bytes (signature_bytes s) = s"
    by (rule signature_of_bytes_of_signature) (simp_all add: s_def)
  have bytes: "length (signature_bytes s) = kSignatureLen" "drop 2 (signature_bytes s) = ?r @ ?h"
    by (simp_all add: signature_bytes_def bytes_of_u16_def kSignatureLen_def s_def)
  have "words_of_bytes (replicate 16 0) = replicate 4 0" by code_simp
  moreover have "bswap32 0 = 0" by (simp add: bswap32_def)
  ultimately have none: "selected_bytes (map bswap32 (words_of_bytes (replicate 16 0))) (drop key_head_len key) = []"
    by (intro selected_none) auto
  have "digest H [] = ?h" by (simp add: digest_def sha1_def)
  with assms bytes sm show ?thesis unfolding e check_signature_decides [OF assms] packet
    by (simp add: s_def parse_zeros none htons_involution)
qed

theorem empty_selection_accepted_witness:
  "check_signature (\<lambda>x. replicate 20 7) empty_selection (map of_nat [0..<155]) = Some True"
  by (rule empty_selection_accepted) (simp add: key_head_len_def)

lemma random_words_low: "r \<in> set (random_words n seedp) \<Longrightarrow> 15 \<le> j \<Longrightarrow> j < 32 \<Longrightarrow> \<not> bit r j"
proof (induction n arbitrary: seedp)
  case 0
  then show ?case by simp
next
  case (Suc n)
  obtain i seedp' where r: "rand_r seedp = (i, seedp')" by (cases "rand_r seedp")
  with rand_r_range [of seedp] have "take_bit 15 i = i" by (simp add: take_bit_int_eq_self)
  then have "\<not> bit i j" using Suc.prems(2) by (metis bit_take_bit_iff not_less)
  with Suc r show ?case by (auto simp: bit_simps)
qed

text \<open>
  A created signature depends on at most 60 of the key's bytes: \<open>rand_r\<close> gives 15 bits, so of
  every 32 positions only the first 15 are ever selected, and two keys that agree there have the same
  signature, whatever their other bytes.
\<close>

theorem signature_ignores_key_bytes:
  assumes "key_head_len + 128 \<le> length key" and "length key' = length key"
    and "\<And>p. p < 128 \<Longrightarrow> p mod 32 < 15 \<Longrightarrow> key ! (key_head_len + p) = key' ! (key_head_len + p)"
  shows "create_signature H tick key = create_signature H tick key'"
proof -
  let ?rs = "random_words 4 tick"
  have "selected_bytes ?rs (drop key_head_len key) = selected_bytes ?rs (drop key_head_len key')"
    unfolding selected_bytes_def
  proof (rule nths_cong_values)
    fix p assume p: "p < length (take (32 * length ?rs) (drop key_head_len key))"
      "p \<in> {p. bit (?rs ! (p div 32)) (p mod 32)}"
    then have "p < 128" "?rs ! (p div 32) \<in> set ?rs" using assms(1) by (auto simp: div_less_iff_less_mult)
    with random_words_low [OF this(2), of "p mod 32"] p(2) have "p mod 32 < 15" by fastforce
    with \<open>p < 128\<close> assms show "take (32 * length ?rs) (drop key_head_len key) ! p
        = take (32 * length ?rs) (drop key_head_len key') ! p" by simp
  qed (simp add: assms(2))
  then show ?thesis
    using assms(1,2) by (simp add: create_signature_long_key)
qed

theorem signature_ignores_key_bytes_witness:
  "create_signature (\<lambda>x. take 20 (x @ replicate 20 0)) 7 (replicate 155 65)
    = create_signature (\<lambda>x. take 20 (x @ replicate 20 0)) 7 ((replicate 155 65)[27 + 20 := 66])"
  by (rule signature_ignores_key_bytes) (auto simp: key_head_len_def nth_list_update)

end
