(* ===== verification/Bee_CA_Client.thy ===== *)
theory Bee_CA_Client
  imports Bee_CA_Signature Bee_Crypto Bee_Tcp_States Bee_Flow
begin

text \<open>
  The client of the CA server (src/server/ca/ca_client.cpp, ca_client.h and ca_def.h): a TCP machine of
  ten states that exchanges public keys and signatures with the server and fetches a key and a script.

  What the client calls is a parameter, the record \<open>ca_env\<close>: openssl and zlib, the clock, the way an
  address is made from text, and the handler behind the weak pointer \<open>handler_\<close>, which may be gone. The
  members hold what the handler was asked and told, in order; \<open>ca_undefined\<close> is set where a router or a
  transform reads memory it does not own or that was never written. The static member
  \<open>last_connected_backup_ca_index_\<close> is a field. Logging, and the file written on Windows, are left out;
  so is the change that decryption in place makes to the receive buffer, which nothing reads after it.
\<close>

section \<open>Protocol\<close>

datatype CAState =
    eCAState_Resolve | eCAState_ConnectCA | eCAState_SendPubKey | eCAState_RcvPubKey
  | eCAState_SendSignature | eCAState_RcvSignature | eCAState_RequestShareKey | eCAState_RcvShareKey
  | eCAState_RequestLua | eCAState_RcvLua

fun ca_id :: "CAState \<Rightarrow> int" where
  "ca_id eCAState_Resolve = 0"
| "ca_id eCAState_ConnectCA = 1"
| "ca_id eCAState_SendPubKey = 2"
| "ca_id eCAState_RcvPubKey = 3"
| "ca_id eCAState_SendSignature = 4"
| "ca_id eCAState_RcvSignature = 5"
| "ca_id eCAState_RequestShareKey = 6"
| "ca_id eCAState_RcvShareKey = 7"
| "ca_id eCAState_RequestLua = 8"
| "ca_id eCAState_RcvLua = 9"

definition CA_MARK :: nat where "CA_MARK = 0x53484341"

definition CLIENT_CA_PUBLIC_KEY :: byte where "CLIENT_CA_PUBLIC_KEY = 0x10"
definition CA_CLIENT_PUBLIC_KEY :: byte where "CA_CLIENT_PUBLIC_KEY = 0x20"
definition CLIENT_CA_SIGNATURE :: byte where "CLIENT_CA_SIGNATURE = 0x11"
definition CA_CLIENT_SIGNATURE :: byte where "CA_CLIENT_SIGNATURE = 0x21"
definition CLIENT_REQUEST_ENCRYPT_KEY_WITH_STR :: byte where "CLIENT_REQUEST_ENCRYPT_KEY_WITH_STR = 0x13"
definition CLIENT_REQUEST_LUA :: byte where "CLIENT_REQUEST_LUA = 0x14"
definition CA_REPLY_ENCRYPT_BIGLUA :: byte where "CA_REPLY_ENCRYPT_BIGLUA = 0x24"
definition CA_REPLY_ENCRYPT_MD5 :: byte where "CA_REPLY_ENCRYPT_MD5 = 0x25"

definition PUBLIC_KEY_LENGTH :: nat where "PUBLIC_KEY_LENGTH = 272"
definition kCAHeaderLen :: nat where "kCAHeaderLen = 7"
definition kCABigHeaderLen :: nat where "kCABigHeaderLen = 9"
definition kClientPubPkgLen :: nat where "kClientPubPkgLen = kCAHeaderLen + PUBLIC_KEY_LENGTH"

definition kBackupCAIps :: "string list" where
  "kBackupCAIps = [''220.181.119.4'', ''111.13.123.133'', ''61.135.131.77'', ''220.181.119.4'',
     ''111.13.123.133'']"

definition kCAService :: string where "kCAService = ''80''"

text \<open>\<open>DRM_LUA_NAME\<close>, \<open>"new_live"\<close>.\<close>

definition DRM_LUA_NAME :: "byte list" where
  "DRM_LUA_NAME = map of_char ''new_live''"

text \<open>Numbers most significant byte first, as \<open>htons\<close> and \<open>htonl\<close> leave them in memory.\<close>

definition net_bytes :: "nat \<Rightarrow> nat \<Rightarrow> byte list" where
  "net_bytes k n = map (\<lambda>i. of_nat (n div 256 ^ (k - 1 - i))) [0..<k]"

definition net_number :: "byte list \<Rightarrow> nat" where
  "net_number bs = foldl (\<lambda>a b. a * 256 + unat b) 0 bs"

text \<open>\<open>CAHeader\<close>, packed.\<close>

definition ca_header :: "nat \<Rightarrow> byte \<Rightarrow> byte list" where
  "ca_header len code = net_bytes 2 len @ [code] @ net_bytes 4 CA_MARK"

text \<open>Bytes of a received message; \<open>None\<close> past the buffer or where nothing was stored.\<close>

definition msg_read :: "nat \<Rightarrow> nat \<Rightarrow> char option list \<Rightarrow> byte list option" where
  "msg_read i n buf =
     (let cs = take n (drop i buf)
      in if length cs < n \<or> None \<in> set cs then None else Some (map (\<lambda>c. of_char (the c)) cs))"

section \<open>State\<close>

text \<open>What the handler is asked and told.\<close>

datatype ca_notice =
    Asked_Md5 "byte list"
  | Told_Data BeeErrorCode error_code "byte list" "byte list" "byte list" u64

record ('k, 'z, 'ep) ca_env =
  en_rsa :: "'k rsa_lib"
  en_sha1 :: "byte list \<Rightarrow> byte list"
  en_rc4 :: "byte list \<Rightarrow> byte list \<Rightarrow> byte list"
  en_inflate :: "'z inflater"
  en_stream :: "'z option"
  en_inflate_end :: "'z \<Rightarrow> bool"
  en_tick :: u32
  en_endpoint :: "string \<Rightarrow> u16 \<Rightarrow> 'ep"
  en_handler :: "(byte list \<Rightarrow> bool) option"

record 'k ca_members =
  cm_tcp :: tcp_members
  client_rsa :: "'k option"
  server_rsa :: "'k option"
  client_public_key :: "byte list"
  server_public_key :: "byte list"
  signature :: Signature
  cm_lua :: "byte list"
  cm_lua_md5 :: "byte list"
  cm_gslb_key :: "byte list"
  cm_gslb_ts :: u64
  connect_timeout :: int
  using_backup_ca_addr :: bool
  last_connected_backup_ca_index :: int
  ca_told :: "ca_notice list"
  ca_undefined :: bool

type_synonym ('k, 'ep) ca_machine = "('k ca_members, 'ep tcp_extra) AsyncStateMachine"
type_synonym ('k, 'ep) ca_router = "('k ca_members, 'ep tcp_extra) router"
type_synonym ('k, 'ep) ca_transform = "('k ca_members, 'ep tcp_extra) transform"

text \<open>\<open>backup_index\<close> is the static member's value.\<close>

definition CAClient_new :: "bool \<Rightarrow> int \<Rightarrow> 'k ca_members" where
  "CAClient_new loaded backup_index = \<lparr>cm_tcp = TcpStateMachine_new loaded, client_rsa = None,
     server_rsa = None, client_public_key = [], server_public_key = [],
     signature = \<lparr>sg_sum = 0, sg_r = [], sg_hash = []\<rparr>, cm_lua = [], cm_lua_md5 = [], cm_gslb_key = [],
     cm_gslb_ts = 0, connect_timeout = - 1, using_backup_ca_addr = False,
     last_connected_backup_ca_index = backup_index, ca_told = [], ca_undefined = False\<rparr>"

section \<open>Keys\<close>

definition generate_client_rsa_key :: "('k, 'z, 'ep) ca_env \<Rightarrow> 'k ca_members \<Rightarrow> bool \<times> 'k ca_members" where
  "generate_client_rsa_key env c =
     (if client_rsa c \<noteq> None then (True, c)
      else
        (let (ret, k, pem) = rsa_generate_key (en_rsa env) (client_rsa c) (client_public_key c)
         in (ret, c\<lparr>client_rsa := k, client_public_key := pem\<rparr>)))"

definition process_server_rsa_key ::
    "('k, 'z, 'ep) ca_env \<Rightarrow> byte list \<Rightarrow> 'k ca_members \<Rightarrow> bool \<times> 'k ca_members" where
  "process_server_rsa_key env pub_key c =
     (if pub_key = [] then (False, c)
      else
        (let (ret, k) = rsa_generate_from_pub_key (en_rsa env) pub_key (server_rsa c)
         in (ret, c\<lparr>server_public_key := pub_key, server_rsa := k\<rparr>)))"

section \<open>Routers\<close>

definition ev_failed :: "'x state_event \<Rightarrow> bool" where
  "ev_failed ev \<longleftrightarrow> ev_ec1 ev \<noteq> kBeeErrorCode_Success \<or> ec_set (ev_ec2 ev)"

definition ca_stop ::
    "BeeErrorCode \<Rightarrow> 'ep tcp_extra state_event \<Rightarrow> 'k ca_members
      \<Rightarrow> int \<times> 'ep tcp_extra state_event \<times> 'k ca_members" where
  "ca_stop ec ev c = (kInvalidState, ev\<lparr>ev_ec1 := ec\<rparr>, c)"

definition ca_undef ::
    "'ep tcp_extra state_event \<Rightarrow> 'k ca_members \<Rightarrow> int \<times> 'ep tcp_extra state_event \<times> 'k ca_members" where
  "ca_undef ev c = (kInvalidState, ev, c\<lparr>ca_undefined := True\<rparr>)"

definition handle_Resolve :: "('k, 'ep) ca_router" where
  "handle_Resolve c ev =
     (ca_id eCAState_ConnectCA, ev,
      if ev_failed ev then c\<lparr>using_backup_ca_addr := (kBackupCAIps \<noteq> [])\<rparr> else c)"

definition handle_ConnectCA :: "('k, 'z, 'ep) ca_env \<Rightarrow> ('k, 'ep) ca_router" where
  "handle_ConnectCA env c ev =
     (if ev_failed ev then (kInvalidState, ev, c)
      else
        (let (ok, c1) = generate_client_rsa_key env c
         in if \<not> ok then ca_stop kBeeErrorCode_Crypto_Error ev c1
            else if using_backup_ca_addr c1 then
              (case ev_extra ev of
                 Connect_Output _ index \<Rightarrow>
                   (ca_id eCAState_SendPubKey, ev, c1\<lparr>last_connected_backup_ca_index := index\<rparr>)
               | _ \<Rightarrow> ca_undef ev c1)
            else (ca_id eCAState_SendPubKey, ev, c1)))"

definition ca_sent :: "CAState \<Rightarrow> ('k, 'ep) ca_router" where
  "ca_sent target c ev = (if ev_failed ev then (kInvalidState, ev, c) else (ca_id target, ev, c))"

definition handle_SendPubKey :: "('k, 'ep) ca_router" where
  "handle_SendPubKey = ca_sent eCAState_RcvPubKey"

definition handle_SendSignature :: "('k, 'ep) ca_router" where
  "handle_SendSignature = ca_sent eCAState_RcvSignature"

definition handle_RequestShareKey :: "('k, 'ep) ca_router" where
  "handle_RequestShareKey = ca_sent eCAState_RcvShareKey"

definition handle_RequestLua :: "('k, 'ep) ca_router" where
  "handle_RequestLua = ca_sent eCAState_RcvLua"

text \<open>
  The checks every received message goes through: the buffer, or the code the router stops with. \<open>at\<close>
  is the width of the length field; \<open>None\<close> reads what was never received.
\<close>

definition message_checked ::
    "nat \<Rightarrow> byte \<Rightarrow> 'ep tcp_extra \<Rightarrow> (BeeErrorCode + char option list) option" where
  "message_checked at code x =
     (case x of
        Tlv_Output None \<Rightarrow> Some (Inl kBeeErrorCode_Null_Pointer)
      | Tlv_Output (Some buf) \<Rightarrow>
          do {
            mark \<leftarrow> msg_read (at + 1) 4 buf;
            if net_number mark \<noteq> CA_MARK then Some (Inl kBeeErrorCode_Invalid_Protocol_Mark)
            else do {
              cd \<leftarrow> msg_read at 1 buf;
              Some (if cd \<noteq> [code] then Inl kBeeErrorCode_Invalid_Message else Inr buf)
            }
          }
      | _ \<Rightarrow> None)"

text \<open>
  A router of a received message: \<open>work\<close> is what it does with the buffer, once that is checked.
\<close>

definition ca_received ::
    "nat \<Rightarrow> byte \<Rightarrow> (char option list \<Rightarrow> 'k ca_members \<Rightarrow> 'ep tcp_extra state_event
        \<Rightarrow> int \<times> 'ep tcp_extra state_event \<times> 'k ca_members) \<Rightarrow> ('k, 'ep) ca_router" where
  "ca_received at code work c ev =
     (if ev_failed ev then (kInvalidState, ev, c)
      else case message_checked at code (ev_extra ev) of
          None \<Rightarrow> ca_undef ev c
        | Some (Inl ec) \<Rightarrow> ca_stop ec ev c
        | Some (Inr buf) \<Rightarrow> work buf c ev)"

definition handle_RcvPubKey :: "('k, 'z, 'ep) ca_env \<Rightarrow> ('k, 'ep) ca_router" where
  "handle_RcvPubKey env =
     ca_received 2 CA_CLIENT_PUBLIC_KEY (\<lambda>buf c ev.
       case msg_read kCAHeaderLen PUBLIC_KEY_LENGTH buf of
         None \<Rightarrow> ca_undef ev c
       | Some pub_key \<Rightarrow>
           (let (ok, c1) = process_server_rsa_key env pub_key c
            in if \<not> ok then ca_stop kBeeErrorCode_Crypto_Error ev c1
               else case create_signature (en_sha1 env) (en_tick env) (client_public_key c1) of
                   None \<Rightarrow> ca_undef ev c1
                 | Some None \<Rightarrow> ca_stop kBeeErrorCode_Signature_Error ev c1
                 | Some (Some s) \<Rightarrow> (ca_id eCAState_SendSignature, ev, c1\<lparr>signature := s\<rparr>)))"

text \<open>
  \<open>rsa_decrypt\<close> of what follows the header into a buffer of as many bytes: the plain text, or the code;
  \<open>None\<close> for a length below the header's, a message cut short or a plain text that overflows.
\<close>

definition decrypt_body ::
    "('k, 'z, 'ep) ca_env \<Rightarrow> 'k option \<Rightarrow> char option list \<Rightarrow> (BeeErrorCode + byte list) option" where
  "decrypt_body env rsa buf =
     do {
       len \<leftarrow> msg_read 0 2 buf;
       let in_len = unat (of_nat (net_number len) - of_nat kCAHeaderLen :: u32);
       if in_len = 0 \<or> rsa = None then Some (Inl kBeeErrorCode_Crypto_Error)
       else do {
         body \<leftarrow> msg_read kCAHeaderLen in_len buf;
         case rsa_decrypt (en_rsa env) rsa body of
           None \<Rightarrow> Some (Inl kBeeErrorCode_Crypto_Error)
         | Some plain \<Rightarrow> if in_len < length plain then None else Some (Inr plain)
       }
     }"

definition handle_RcvSignature :: "('k, 'z, 'ep) ca_env \<Rightarrow> ('k, 'ep) ca_router" where
  "handle_RcvSignature env =
     ca_received 2 CA_CLIENT_SIGNATURE (\<lambda>buf c ev.
       case decrypt_body env (client_rsa c) buf of
         None \<Rightarrow> ca_undef ev c
       | Some (Inl ec) \<Rightarrow> ca_stop ec ev c
       | Some (Inr plain) \<Rightarrow>
           (case check_signature (en_sha1 env) plain (server_public_key c) of
              None \<Rightarrow> ca_undef ev c
            | Some ok \<Rightarrow>
                if ok then (ca_id eCAState_RequestShareKey, ev, c)
                else ca_stop kBeeErrorCode_Signature_Error ev c))"

text \<open>\<open>CAKey\<close>, packed: a time in network order, the key, the digest of the script.\<close>

definition le_u64 :: "byte list \<Rightarrow> u64" where
  "le_u64 bs = foldr (\<lambda>b w. ucast b OR push_bit 8 w) bs 0"

definition CAKey_len :: nat where "CAKey_len = 8 + 16 + 32"

definition handle_RcvShareKey :: "('k, 'z, 'ep) ca_env \<Rightarrow> ('k, 'ep) ca_router" where
  "handle_RcvShareKey env =
     ca_received 2 CA_REPLY_ENCRYPT_MD5 (\<lambda>buf c ev.
       case decrypt_body env (client_rsa c) buf of
         None \<Rightarrow> ca_undef ev c
       | Some (Inl ec) \<Rightarrow> ca_stop ec ev c
       | Some (Inr plain) \<Rightarrow>
           if length plain < CAKey_len then ca_undef ev c
           else
             (let c1 = c\<lparr>cm_gslb_ts := ntohll (le_u64 (take 8 plain)), cm_gslb_key := take 16 (drop 8 plain),
                    cm_lua_md5 := take 32 (drop 24 plain)\<rparr>
              in case en_handler env of
                   None \<Rightarrow> (ca_id eCAState_RequestLua, ev, c1)
                 | Some check_lua_md5 \<Rightarrow>
                     (if check_lua_md5 (cm_lua_md5 c1) then kFinishedState else ca_id eCAState_RequestLua, ev,
                      c1\<lparr>ca_told := ca_told c1 @ [Asked_Md5 (cm_lua_md5 c1)]\<rparr>)))"

text \<open>
  The script: RC4 over the body in place, then its length (which is not compared with the body's), then
  the compressed text. What \<open>gz_decompress\<close> may read goes on to the end of what the buffer holds.
\<close>

definition script_of ::
    "('k, 'z, 'ep) ca_env \<Rightarrow> byte list \<Rightarrow> char option list \<Rightarrow> (BeeErrorCode + byte list) option" where
  "script_of env key buf =
     do {
       len \<leftarrow> msg_read 0 4 buf;
       let in_len = unat (of_nat (net_number len) - of_nat kCABigHeaderLen :: u32);
       body \<leftarrow> msg_read kCABigHeaderLen in_len buf;
       let memory = map Some (en_rc4 env key body)
             @ map (map_option of_char) (drop (kCABigHeaderLen + in_len) buf);
       if length memory < 4 \<or> None \<in> set (take 4 memory) then None
       else
         (let lua_len = net_number (map the (take 4 memory));
              readable = map the (takeWhile (\<lambda>x. x \<noteq> None) (drop 4 memory));
              dz_len = (lua_len * 3) mod 2 ^ 32
          in case gz_decompress (en_inflate env) (en_stream env) (en_inflate_end env) readable lua_len dz_len of
               None \<Rightarrow> None
             | Some Gz_Overrun \<Rightarrow> None
             | Some Gz_Failed \<Rightarrow> Some (Inl kBeeErrorCode_Decompress_Error)
             | Some (Gz_Data d) \<Rightarrow> Some (Inr d))
     }"

definition handle_RcvLua :: "('k, 'z, 'ep) ca_env \<Rightarrow> ('k, 'ep) ca_router" where
  "handle_RcvLua env =
     ca_received 4 CA_REPLY_ENCRYPT_BIGLUA (\<lambda>buf c ev.
       case script_of env (cm_gslb_key c) buf of
         None \<Rightarrow> ca_undef ev c
       | Some (Inl ec) \<Rightarrow> ca_stop ec ev c
       | Some (Inr lua) \<Rightarrow>
           (let c1 = c\<lparr>cm_lua := lua\<rparr>
            in (kFinishedState, ev,
                case en_handler env of
                  None \<Rightarrow> c1
                | Some _ \<Rightarrow> c1\<lparr>ca_told := ca_told c1 @ [Told_Data kBeeErrorCode_Success (ev_ec2 ev)
                    (cm_lua c1) (cm_lua_md5 c1) (cm_gslb_key c1) (cm_gslb_ts c1)]\<rparr>)))"

section \<open>Transforms\<close>

definition backup_endpoints :: "('k, 'z, 'ep) ca_env \<Rightarrow> 'ep list" where
  "backup_endpoints env = map (\<lambda>ip. en_endpoint env ip (word_of_int (atoi kCAService))) kBackupCAIps"

definition transform_Resolve_To_ConnectCA :: "('k, 'z, 'ep) ca_env \<Rightarrow> ('k, 'ep) ca_transform" where
  "transform_Resolve_To_ConnectCA env c inp out =
     (case (ev_extra inp, ev_extra out) of
        (Resolve_Output found, Connect_Input _ start_index _) \<Rightarrow>
          (let eps = (if found = [] \<and> using_backup_ca_addr c \<and> kBackupCAIps \<noteq> [] then backup_endpoints env
                      else found);
               i = last_connected_backup_ca_index c;
               start = (if using_backup_ca_addr c \<and> 0 \<le> i \<and> i < int (length kBackupCAIps) then i else start_index)
           in (True, inp\<lparr>ev_extra := Resolve_Output eps\<rparr>,
               out\<lparr>ev_extra := Connect_Input eps start (connect_timeout c), ev_setup := True\<rparr>, c))
      | _ \<Rightarrow> (False, inp, out, c\<lparr>ca_undefined := True\<rparr>))"

definition to_cells :: "byte list \<Rightarrow> char option list" where
  "to_cells bs = map (\<lambda>b. Some (char_of (unat b))) bs"

text \<open>The key is copied up to the packet's size; a shorter one leaves the rest unwritten.\<close>

definition transform_ConnectCA_To_SendPubKey :: "('k, 'ep) ca_transform" where
  "transform_ConnectCA_To_SendPubKey c inp out =
     (if client_public_key c = [] then (False, inp, out, c)
      else
        (let key = take PUBLIC_KEY_LENGTH (client_public_key c);
             packet = to_cells (ca_header kClientPubPkgLen CLIENT_CA_PUBLIC_KEY @ key)
               @ replicate (PUBLIC_KEY_LENGTH - length key) None
         in (True, inp, out\<lparr>ev_data := (IOBuffer_new kClientPubPkgLen)\<lparr>cells := packet\<rparr>, ev_setup := True\<rparr>, c)))"

text \<open>
  The event's buffer is replaced when it is shorter than 1024; then a header with a body behind it is
  put into it, \<open>None\<close> when that does not fit.
\<close>

definition send_room :: "char iobuffer \<Rightarrow> char iobuffer" where
  "send_room data = (if iob_size data < 1024 then IOBuffer_new 1024 else data)"

definition put_packet :: "byte \<Rightarrow> byte list \<Rightarrow> char iobuffer \<Rightarrow> char iobuffer option" where
  "put_packet code body d =
     (let len = (kCAHeaderLen + length body) mod 2 ^ 16
      in case store_at (cells d) (begin_offset d) (to_cells (ca_header len code @ body)) of
           None \<Rightarrow> None
         | Some cs \<Rightarrow>
             (let d1 = d\<lparr>cells := cs\<rparr> in if len < iob_capacity d1 then iob_resize len d1 else Some d1))"

definition send_encrypted ::
    "('k, 'z, 'ep) ca_env \<Rightarrow> byte \<Rightarrow> byte list \<Rightarrow> ('k, 'ep) ca_transform" where
  "send_encrypted env code plain c inp out =
     (case rsa_encrypt (en_rsa env) (server_rsa c) plain of
        None \<Rightarrow> (False, inp\<lparr>ev_ec1 := kBeeErrorCode_Crypto_Error\<rparr>,
          out\<lparr>ev_data := send_room (ev_data out)\<rparr>, c)
      | Some body \<Rightarrow>
          (case put_packet code body (send_room (ev_data out)) of
             None \<Rightarrow> (False, inp, out, c\<lparr>ca_undefined := True\<rparr>)
           | Some d \<Rightarrow> (True, inp, out\<lparr>ev_data := d, ev_setup := True\<rparr>, c)))"

definition transform_RcvPubKey_To_SendSignature :: "('k, 'z, 'ep) ca_env \<Rightarrow> ('k, 'ep) ca_transform" where
  "transform_RcvPubKey_To_SendSignature env c =
     send_encrypted env CLIENT_CA_SIGNATURE (signature_bytes (signature c)) c"

definition transform_RcvSignature_To_RequestShareKey :: "('k, 'z, 'ep) ca_env \<Rightarrow> ('k, 'ep) ca_transform" where
  "transform_RcvSignature_To_RequestShareKey env =
     send_encrypted env CLIENT_REQUEST_ENCRYPT_KEY_WITH_STR DRM_LUA_NAME"

definition transform_RcvShareKey_To_RequestLua :: "('k, 'ep) ca_transform" where
  "transform_RcvShareKey_To_RequestLua c inp out =
     (case put_packet CLIENT_REQUEST_LUA [] (send_room (ev_data out)) of
        None \<Rightarrow> (False, inp, out, c\<lparr>ca_undefined := True\<rparr>)
      | Some d \<Rightarrow> (True, inp, out\<lparr>ev_data := d, ev_setup := True\<rparr>, c))"

definition transform_To_RcvTlv :: "('k, 'ep) ca_transform" where
  "transform_To_RcvTlv c inp out = (True, inp, out\<lparr>ev_extra := Tlv_Input 0 2, ev_setup := True\<rparr>, c)"

definition transform_To_RcvBigTlv :: "('k, 'ep) ca_transform" where
  "transform_To_RcvBigTlv c inp out = (True, inp, out\<lparr>ev_extra := Tlv_Input 0 4, ev_setup := True\<rparr>, c)"

section \<open>The machine\<close>

definition ca_spec :: "('k, 'z, 'ep) ca_env \<Rightarrow> CAState \<Rightarrow> ('k ca_members, 'ep tcp_extra) state_spec" where
  "ca_spec env ph =
     (let send = (\<lambda>i r target t. \<lparr>sp_id = ca_id i, sp_type = kTcpStateType_Send, sp_router = r, sp_activate = False,
            sp_input = Plain_Event, sp_output = Send_Output 0, sp_switches = [(ca_id target, t)]\<rparr>);
          rcv = (\<lambda>i r sw. \<lparr>sp_id = ca_id i, sp_type = kTcpStateType_RcvTlv, sp_router = r, sp_activate = False,
            sp_input = Tlv_Input 0 0, sp_output = Tlv_Output None, sp_switches = sw\<rparr>)
      in case ph of
           eCAState_Resolve \<Rightarrow> \<lparr>sp_id = ca_id eCAState_Resolve, sp_type = kTcpStateType_Resolve,
             sp_router = handle_Resolve, sp_activate = True, sp_input = Resolve_Input [] [],
             sp_output = Resolve_Output [],
             sp_switches = [(ca_id eCAState_ConnectCA, transform_Resolve_To_ConnectCA env)]\<rparr>
         | eCAState_ConnectCA \<Rightarrow> \<lparr>sp_id = ca_id eCAState_ConnectCA, sp_type = kTcpStateType_Connect,
             sp_router = handle_ConnectCA env, sp_activate = False,
             sp_input = Connect_Input [] 0 kDefaultTcpConnectTimeout, sp_output = Connect_Output None (- 1),
             sp_switches = [(ca_id eCAState_SendPubKey, transform_ConnectCA_To_SendPubKey)]\<rparr>
         | eCAState_SendPubKey \<Rightarrow> send eCAState_SendPubKey handle_SendPubKey eCAState_RcvPubKey transform_To_RcvTlv
         | eCAState_RcvPubKey \<Rightarrow> rcv eCAState_RcvPubKey (handle_RcvPubKey env)
             [(ca_id eCAState_SendSignature, transform_RcvPubKey_To_SendSignature env)]
         | eCAState_SendSignature \<Rightarrow>
             send eCAState_SendSignature handle_SendSignature eCAState_RcvSignature transform_To_RcvTlv
         | eCAState_RcvSignature \<Rightarrow> rcv eCAState_RcvSignature (handle_RcvSignature env)
             [(ca_id eCAState_RequestShareKey, transform_RcvSignature_To_RequestShareKey env)]
         | eCAState_RequestShareKey \<Rightarrow>
             send eCAState_RequestShareKey handle_RequestShareKey eCAState_RcvShareKey transform_To_RcvTlv
         | eCAState_RcvShareKey \<Rightarrow> rcv eCAState_RcvShareKey (handle_RcvShareKey env)
             [(ca_id eCAState_RequestLua, transform_RcvShareKey_To_RequestLua)]
         | eCAState_RequestLua \<Rightarrow>
             send eCAState_RequestLua handle_RequestLua eCAState_RcvLua transform_To_RcvBigTlv
         | eCAState_RcvLua \<Rightarrow> rcv eCAState_RcvLua (handle_RcvLua env) [])"

definition ca_states :: "CAState list" where
  "ca_states = [eCAState_Resolve, eCAState_ConnectCA, eCAState_SendPubKey, eCAState_RcvPubKey,
     eCAState_SendSignature, eCAState_RcvSignature, eCAState_RequestShareKey, eCAState_RcvShareKey,
     eCAState_RequestLua, eCAState_RcvLua]"

definition ca_client_specs :: "('k, 'z, 'ep) ca_env \<Rightarrow> ('k ca_members, 'ep tcp_extra) state_spec list" where
  "ca_client_specs env = map (ca_spec env) ca_states"

text \<open>\<open>CAClient::output\<close>: the handler is told the code, unless the run ended well.\<close>

definition ca_output ::
    "('k, 'z, 'ep) ca_env \<Rightarrow> 'ep tcp_extra state_event \<Rightarrow> 'k ca_members \<Rightarrow> 'k ca_members" where
  "ca_output env ev c =
     (if en_handler env \<noteq> None \<and> ev_ec1 ev \<noteq> kBeeErrorCode_Success
          \<and> ev_ec1 ev \<noteq> kBeeErrorCode_State_Machine_Finished
      then c\<lparr>ca_told := ca_told c @ [Told_Data (ev_ec1 ev) (ev_ec2 ev) [] [] [] 0]\<rparr> else c)"

definition request_core ::
    "('k, 'z, 'ep) ca_env \<Rightarrow> bool \<Rightarrow> string \<Rightarrow> string \<Rightarrow> int \<Rightarrow> ('k, 'ep) ca_machine
      \<Rightarrow> bool \<times> ('k, 'ep) ca_machine" where
  "request_core env verify_ok host service timeout m =
     (let (ret, m1) = tcp_start cm_tcp (\<lambda>t c. c\<lparr>cm_tcp := t\<rparr>) (ca_client_specs env) verify_ok host service
            (m\<lparr>members := (members m)\<lparr>connect_timeout := timeout\<rparr>\<rparr>)
      in (ret,
          if \<not> ret \<and> en_handler env \<noteq> None
          then m1\<lparr>members := (members m1)\<lparr>ca_told := ca_told (members m1)
                 @ [Told_Data kBeeErrorCode_Error_State_Machine Ec_Ok [] [] [] 0]\<rparr>\<rparr>
          else m1))"

text \<open>\<open>async_request_core\<close> posts the request to the loop; the answer is whether it could.\<close>

definition async_request_core ::
    "string \<Rightarrow> string \<Rightarrow> int \<Rightarrow> ('k, 'ep) ca_machine \<Rightarrow> BeeErrorCode \<times> (string \<times> string \<times> int) option" where
  "async_request_core host service timeout m =
     (if \<not> fsm_ios m then (kBeeErrorCode_Service_Not_Started, None)
      else (kBeeErrorCode_Success, Some (host, service, timeout)))"

section \<open>What the routers and transforms do\<close>

fun ca_in_ok :: "CAState \<Rightarrow> 'ep tcp_extra \<Rightarrow> bool" where
  "ca_in_ok eCAState_Resolve x = (\<exists>h s. x = Resolve_Input h s)"
| "ca_in_ok eCAState_ConnectCA x = (\<exists>eps i t. x = Connect_Input eps i t)"
| "ca_in_ok _ x = True"

fun ca_out_ok :: "CAState \<Rightarrow> 'ep tcp_extra \<Rightarrow> bool" where
  "ca_out_ok eCAState_Resolve x = (\<exists>eps. x = Resolve_Output eps)"
| "ca_out_ok eCAState_ConnectCA x = (\<exists>ep i. x = Connect_Output ep i)"
| "ca_out_ok ph x = (ph \<in> {eCAState_RcvPubKey, eCAState_RcvSignature, eCAState_RcvShareKey, eCAState_RcvLua}
     \<longrightarrow> (\<exists>b. x = Tlv_Output b))"

text \<open>
  What a run is allowed to do, unless it read memory that is not its own. An error reported by a state
  other than the resolve state ends the run with its code and changes nothing. Otherwise the run goes on
  to the next of the ten states, or it stops: with \<open>Finished\<close> when the handler knows the script already or
  has just been handed it, with \<open>Success\<close> only for an empty public key.
\<close>

definition ca_allows ::
    "('k, 'z, 'ep) ca_env \<Rightarrow> 'k ca_members \<Rightarrow> CAState \<Rightarrow> 'ep tcp_extra state_event \<Rightarrow> CAState flow
      \<Rightarrow> 'k ca_members \<Rightarrow> bool" where
  "ca_allows env c ph ev f c' \<longleftrightarrow>
     ca_undefined c' \<or>
     (if ev_failed ev \<and> ph \<noteq> eCAState_Resolve then
        f = Ends (if ev_ec1 ev \<noteq> kBeeErrorCode_Success then ev_ec1 ev else kBeeErrorCode_State_Machine_Interrupted)
        \<and> c' = c
      else case f of
          Goes_On ph' \<Rightarrow> ca_id ph' = ca_id ph + 1
            \<and> ca_told c' = ca_told c @ (if ph = eCAState_RcvShareKey \<and> en_handler env \<noteq> None
                then [Asked_Md5 (cm_lua_md5 c')] else [])
        | Ends ec \<Rightarrow>
            if ec = kBeeErrorCode_State_Machine_Finished then
              (ph = eCAState_RcvShareKey \<and> ca_told c' = ca_told c @ [Asked_Md5 (cm_lua_md5 c')]
                 \<and> (\<exists>h. en_handler env = Some h \<and> h (cm_lua_md5 c')))
              \<or> (ph = eCAState_RcvLua \<and> ca_told c' = ca_told c @ (if en_handler env = None then []
                   else [Told_Data kBeeErrorCode_Success Ec_Ok (cm_lua c') (cm_lua_md5 c) (cm_gslb_key c) (cm_gslb_ts c)]))
            else ca_told c' = ca_told c \<and> ph \<noteq> eCAState_Resolve
              \<and> (ec = kBeeErrorCode_Success \<longrightarrow> ph = eCAState_ConnectCA
                   \<and> (if client_rsa c = None then \<exists>k. lib_new_key (en_rsa env) = Some (k, [])
                      else client_public_key c = [])))"

lemma ca_simps [simp]:
  "sp_id (ca_spec env ph) = ca_id ph"
  by (cases ph) (simp_all add: ca_spec_def Let_def)

lemma ca_routers:
  "sp_router (ca_spec env eCAState_Resolve) = handle_Resolve"
  "sp_router (ca_spec env eCAState_ConnectCA) = handle_ConnectCA env"
  "sp_router (ca_spec env eCAState_SendPubKey) = ca_sent eCAState_RcvPubKey"
  "sp_router (ca_spec env eCAState_RcvPubKey) = handle_RcvPubKey env"
  "sp_router (ca_spec env eCAState_SendSignature) = ca_sent eCAState_RcvSignature"
  "sp_router (ca_spec env eCAState_RcvSignature) = handle_RcvSignature env"
  "sp_router (ca_spec env eCAState_RequestShareKey) = ca_sent eCAState_RcvShareKey"
  "sp_router (ca_spec env eCAState_RcvShareKey) = handle_RcvShareKey env"
  "sp_router (ca_spec env eCAState_RequestLua) = ca_sent eCAState_RcvLua"
  "sp_router (ca_spec env eCAState_RcvLua) = handle_RcvLua env"
  by (simp_all add: ca_spec_def Let_def handle_SendPubKey_def handle_SendSignature_def
      handle_RequestShareKey_def handle_RequestLua_def)

lemma ca_switches:
  "sp_switches (ca_spec env eCAState_Resolve) = [(ca_id eCAState_ConnectCA, transform_Resolve_To_ConnectCA env)]"
  "sp_switches (ca_spec env eCAState_ConnectCA) = [(ca_id eCAState_SendPubKey, transform_ConnectCA_To_SendPubKey)]"
  "sp_switches (ca_spec env eCAState_SendPubKey) = [(ca_id eCAState_RcvPubKey, transform_To_RcvTlv)]"
  "sp_switches (ca_spec env eCAState_RcvPubKey) = [(ca_id eCAState_SendSignature, transform_RcvPubKey_To_SendSignature env)]"
  "sp_switches (ca_spec env eCAState_SendSignature) = [(ca_id eCAState_RcvSignature, transform_To_RcvTlv)]"
  "sp_switches (ca_spec env eCAState_RcvSignature)
    = [(ca_id eCAState_RequestShareKey, transform_RcvSignature_To_RequestShareKey env)]"
  "sp_switches (ca_spec env eCAState_RequestShareKey) = [(ca_id eCAState_RcvShareKey, transform_To_RcvTlv)]"
  "sp_switches (ca_spec env eCAState_RcvShareKey) = [(ca_id eCAState_RequestLua, transform_RcvShareKey_To_RequestLua)]"
  "sp_switches (ca_spec env eCAState_RequestLua) = [(ca_id eCAState_RcvLua, transform_To_RcvBigTlv)]"
  "sp_switches (ca_spec env eCAState_RcvLua) = []"
  by (simp_all add: ca_spec_def Let_def)

abbreviation ca_obeys_at ::
    "('k, 'z, 'ep) ca_env \<Rightarrow> 'k ca_members \<Rightarrow> CAState \<Rightarrow> 'ep tcp_extra state_event
      \<Rightarrow> int \<times> 'ep tcp_extra state_event \<times> 'k ca_members \<Rightarrow> bool" where
  "ca_obeys_at env c ph ev \<equiv>
     phase_obeys ca_id ca_in_ok ca_out_ok (\<lambda>_. True) (ca_allows env c ph ev) ph (sp_switches (ca_spec env ph))"

text \<open>The ways a router stops.\<close>

lemma ca_fails_obeys:
  assumes "ev_failed ev" and "ph \<noteq> eCAState_Resolve" and "ca_out_ok ph (ev_extra ev)"
  shows "ca_obeys_at env c ph ev (kInvalidState, ev, c)"
  using assms by (intro phase_obeys_invalid) (auto simp: ca_allows_def ev_failed_def)

lemma ca_undef_obeys:
  "ca_out_ok ph (ev_extra ev) \<Longrightarrow> ca_obeys_at env c ph ev (ca_undef ev c1)"
  unfolding ca_undef_def by (intro phase_obeys_invalid) (auto simp: ca_allows_def)

lemma ca_stop_obeys:
  assumes "\<not> ev_failed ev" and "ph \<noteq> eCAState_Resolve" and "ca_out_ok ph (ev_extra ev)"
    and "ec \<noteq> kBeeErrorCode_Success" and "ec \<noteq> kBeeErrorCode_State_Machine_Finished"
    and "ca_told c1 = ca_told c"
  shows "ca_obeys_at env c ph ev (ca_stop ec ev c1)"
  using assms unfolding ca_stop_def by (intro phase_obeys_invalid) (auto simp: ca_allows_def)

text \<open>A message that is not the expected one stops the run; otherwise \<open>work\<close> decides.\<close>

lemma message_checked_code:
  "message_checked at code x = Some (Inl ec) \<Longrightarrow>
    ec \<in> {kBeeErrorCode_Null_Pointer, kBeeErrorCode_Invalid_Protocol_Mark, kBeeErrorCode_Invalid_Message}"
  by (auto simp: message_checked_def split: tcp_extra.splits option.splits bind_splits if_splits)

lemma ca_received_obeys:
  assumes "ph \<noteq> eCAState_Resolve" and "ca_out_ok ph (ev_extra ev)"
    and "\<And>buf. \<not> ev_failed ev \<Longrightarrow> ca_obeys_at env c ph ev (work buf c ev)"
  shows "ca_obeys_at env c ph ev (ca_received at code work c ev)"
proof (cases "ev_failed ev")
  case True
  with ca_fails_obeys [OF True assms(1,2)] show ?thesis by (simp add: ca_received_def)
next
  case ok: False
  show ?thesis
  proof (cases "message_checked at code (ev_extra ev)")
    case None
    with ok ca_undef_obeys [OF assms(2)] show ?thesis by (simp add: ca_received_def)
  next
    case (Some r)
    show ?thesis
    proof (cases r)
      case (Inl ec)
      with Some message_checked_code [of at code "ev_extra ev" ec]
      have "ca_obeys_at env c ph ev (ca_stop ec ev c)" by (intro ca_stop_obeys ok assms(1,2)) auto
      with ok Some Inl show ?thesis by (simp add: ca_received_def)
    next
      case (Inr buf)
      with ok Some assms(3) [OF ok, of buf] show ?thesis by (simp add: ca_received_def)
    qed
  qed
qed

lemma decrypt_body_code: "decrypt_body env rsa buf = Some (Inl ec) \<Longrightarrow> ec = kBeeErrorCode_Crypto_Error"
  by (auto simp: decrypt_body_def Let_def split: bind_splits if_splits option.splits)

lemma script_of_code: "script_of env key buf = Some (Inl ec) \<Longrightarrow> ec = kBeeErrorCode_Decompress_Error"
  by (auto simp: script_of_def Let_def split: bind_splits if_splits option.splits gz_result.splits)

text \<open>The transforms that send, whatever buffer they find.\<close>

lemma send_encrypted_obeys:
  fixes ev :: "'ep tcp_extra state_event"
  assumes "\<not> ev_failed ev" and "ca_out_ok ph (ev_extra ev)" and "ph \<noteq> eCAState_Resolve"
    and "ca_id ph' = ca_id ph + 1" and "ca_told c1 = ca_told c" and "ph \<noteq> eCAState_RcvShareKey"
    and "\<And>x :: 'ep tcp_extra. ca_in_ok ph' x" and "map_of (sp_switches (ca_spec env ph)) (ca_id ph') = Some t"
    and "t c1 = send_encrypted env code plain c1"
  shows "ca_obeys_at env c ph ev (ca_id ph', ev, c1)"
proof (rule phase_obeys_answer [where ph' = ph' and t = t])
  show "ca_out_ok ph (ev_extra ev)" "map_of (sp_switches (ca_spec env ph)) (ca_id ph') = Some t"
    by (fact assms)+
  fix inp ret out' in' c'
  assume "t c1 ev inp = (ret, out', in', c')"
  with assms show "ca_out_ok ph (ev_extra out') \<and> ca_in_ok ph' (ev_extra in') \<and> True
      \<and> (if ret then ev_setup in' \<and> ca_allows env c ph ev (Goes_On ph') c'
         else ca_allows env c ph ev (Ends (ev_ec1 out')) c')"
    by (auto simp: send_encrypted_def ca_allows_def split: option.splits)
qed simp_all

lemma ca_sent_obeys:
  fixes ev :: "'ep tcp_extra state_event"
  assumes "ph \<noteq> eCAState_Resolve" and "ph \<noteq> eCAState_RcvShareKey" and "ca_id ph' = ca_id ph + 1"
    and "ca_out_ok ph (ev_extra ev)" and "\<And>x :: 'ep tcp_extra. ca_in_ok ph' x"
    and "sp_switches (ca_spec env ph) \<in> {[(ca_id ph', transform_To_RcvTlv)], [(ca_id ph', transform_To_RcvBigTlv)]}"
  shows "ca_obeys_at env c ph ev (ca_sent ph' c ev)"
proof (cases "ev_failed ev")
  case True
  with ca_fails_obeys [OF True assms(1,4)] show ?thesis by (simp add: ca_sent_def)
next
  case False
  from assms(6) obtain t where t: "sp_switches (ca_spec env ph) = [(ca_id ph', t)]"
    "t \<in> {transform_To_RcvTlv, transform_To_RcvBigTlv}" by blast
  have "ca_obeys_at env c ph ev (ca_id ph', ev, c)" unfolding t(1)
  proof (rule phase_obeys_answer [where ph' = ph' and t = t])
    fix inp ret out' in' c'
    assume "t c ev inp = (ret, out', in', c')"
    with t(2) have "ret \<and> out' = ev \<and> ev_setup in' \<and> c' = c"
      by (auto simp: transform_To_RcvTlv_def transform_To_RcvBigTlv_def)
    with assms False show "ca_out_ok ph (ev_extra out') \<and> ca_in_ok ph' (ev_extra in') \<and> True
        \<and> (if ret then ev_setup in' \<and> ca_allows env c ph ev (Goes_On ph') c'
           else ca_allows env c ph ev (Ends (ev_ec1 out')) c')"
      by (simp add: ca_allows_def)
  qed (use assms in simp_all)
  with False show ?thesis by (simp add: ca_sent_def)
qed

lemma handle_Resolve_obeys:
  assumes "ca_out_ok eCAState_Resolve (ev_extra ev)"
  shows "ca_obeys_at env c eCAState_Resolve ev (handle_Resolve c ev)"
  using assms unfolding handle_Resolve_def
  by (intro phase_obeys_answer [where ph' = eCAState_ConnectCA and t = "transform_Resolve_To_ConnectCA env"])
    (auto simp: ca_switches transform_Resolve_To_ConnectCA_def Let_def ca_allows_def split: if_splits)

lemma connected_obeys:
  assumes "\<not> ev_failed ev" and "ca_out_ok eCAState_ConnectCA (ev_extra ev)" and "ca_told c1 = ca_told c"
    and "client_public_key c1 = [] \<Longrightarrow> if client_rsa c = None then \<exists>k. lib_new_key (en_rsa env) = Some (k, [])
      else client_public_key c = []"
    and "ev_ec1 ev = kBeeErrorCode_Success"
  shows "ca_obeys_at env c eCAState_ConnectCA ev (ca_id eCAState_SendPubKey, ev, c1)"
  using assms
  by (intro phase_obeys_answer [where ph' = eCAState_SendPubKey and t = transform_ConnectCA_To_SendPubKey])
    (auto simp: ca_switches transform_ConnectCA_To_SendPubKey_def Let_def ca_allows_def split: if_splits)

lemma handle_ConnectCA_obeys:
  assumes "ca_out_ok eCAState_ConnectCA (ev_extra ev)"
  shows "ca_obeys_at env c eCAState_ConnectCA ev (handle_ConnectCA env c ev)"
proof (cases "ev_failed ev")
  case True
  from ca_fails_obeys [OF True _ assms] True show ?thesis by (simp add: handle_ConnectCA_def)
next
  case False
  obtain ok c1 where g: "generate_client_rsa_key env c = (ok, c1)" by (cases "generate_client_rsa_key env c")
  then have told: "ca_told c1 = ca_told c"
    and key: "ok \<Longrightarrow> client_public_key c1 = [] \<Longrightarrow> if client_rsa c = None
      then \<exists>k. lib_new_key (en_rsa env) = Some (k, []) else client_public_key c = []"
    by (auto simp: generate_client_rsa_key_def rsa_generate_key_def split: if_splits option.splits)
  from assms obtain ep i where x: "ev_extra ev = Connect_Output ep i" by auto
  have ok: "ev_ec1 ev = kBeeErrorCode_Success" using False by (simp add: ev_failed_def)
  show ?thesis
  proof (cases ok)
    case True
    note cs = connected_obeys [OF False assms _ _ ok]
    show ?thesis using False g True x told key cs [of c1] cs [of "c1\<lparr>last_connected_backup_ca_index := i\<rparr>"]
      by (auto simp: handle_ConnectCA_def)
  next
    case failed: False
    have "ca_obeys_at env c eCAState_ConnectCA ev (ca_stop kBeeErrorCode_Crypto_Error ev c1)"
      by (rule ca_stop_obeys [OF False _ assms]) (simp_all add: told)
    with False g failed show ?thesis by (simp add: handle_ConnectCA_def)
  qed
qed

lemma handle_RcvPubKey_obeys:
  assumes "ca_out_ok eCAState_RcvPubKey (ev_extra ev)"
  shows "ca_obeys_at env c eCAState_RcvPubKey ev (handle_RcvPubKey env c ev)"
  unfolding handle_RcvPubKey_def
proof (rule ca_received_obeys [OF _ assms], simp)
  fix buf assume ok: "\<not> ev_failed ev"
  have st: "ca_obeys_at env c eCAState_RcvPubKey ev (ca_stop ec ev c1)"
    if "ec \<noteq> kBeeErrorCode_Success" "ec \<noteq> kBeeErrorCode_State_Machine_Finished" "ca_told c1 = ca_told c" for ec c1
    using that by (intro ca_stop_obeys ok assms) simp
  have un: "ca_obeys_at env c eCAState_RcvPubKey ev (ca_undef ev c1)" for c1 by (intro ca_undef_obeys assms)
  show "ca_obeys_at env c eCAState_RcvPubKey ev (case msg_read kCAHeaderLen PUBLIC_KEY_LENGTH buf of
         None \<Rightarrow> ca_undef ev c
       | Some pub_key \<Rightarrow>
           (let (ok, c1) = process_server_rsa_key env pub_key c
            in if \<not> ok then ca_stop kBeeErrorCode_Crypto_Error ev c1
               else case create_signature (en_sha1 env) (en_tick env) (client_public_key c1) of
                   None \<Rightarrow> ca_undef ev c1
                 | Some None \<Rightarrow> ca_stop kBeeErrorCode_Signature_Error ev c1
                 | Some (Some s) \<Rightarrow> (ca_id eCAState_SendSignature, ev, c1\<lparr>signature := s\<rparr>)))"
  proof (cases "msg_read kCAHeaderLen PUBLIC_KEY_LENGTH buf")
    case None
    with un show ?thesis by simp
  next
    case (Some pub_key)
    obtain pok c1 where p: "process_server_rsa_key env pub_key c = (pok, c1)"
      by (cases "process_server_rsa_key env pub_key c")
    then have told: "ca_told c1 = ca_told c"
      by (auto simp: process_server_rsa_key_def Let_def split: if_splits prod.splits)
    show ?thesis
    proof (cases "create_signature (en_sha1 env) (en_tick env) (client_public_key c1)")
      case None
      with Some p told st un show ?thesis by (simp add: ca_allows_def)
    next
      case sig: (Some r)
      have "ca_obeys_at env c eCAState_RcvPubKey ev (ca_id eCAState_SendSignature, ev, c1\<lparr>signature := s\<rparr>)" for s
        using ok assms told
        by (intro send_encrypted_obeys [where code = CLIENT_CA_SIGNATURE and plain = "signature_bytes s"
              and t = "transform_RcvPubKey_To_SendSignature env"])
          (auto simp: ca_switches transform_RcvPubKey_To_SendSignature_def)
      with Some p told st un sig show ?thesis by (cases r) simp_all
    qed
  qed
qed

lemma handle_RcvSignature_obeys:
  assumes "ca_out_ok eCAState_RcvSignature (ev_extra ev)"
  shows "ca_obeys_at env c eCAState_RcvSignature ev (handle_RcvSignature env c ev)"
  unfolding handle_RcvSignature_def
proof (rule ca_received_obeys [OF _ assms], simp)
  fix buf assume ok: "\<not> ev_failed ev"
  have st: "ca_obeys_at env c eCAState_RcvSignature ev (ca_stop ec ev c1)"
    if "ec \<noteq> kBeeErrorCode_Success" "ec \<noteq> kBeeErrorCode_State_Machine_Finished" "ca_told c1 = ca_told c" for ec c1
    using that by (intro ca_stop_obeys ok assms) simp
  have un: "ca_obeys_at env c eCAState_RcvSignature ev (ca_undef ev c1)" for c1 by (intro ca_undef_obeys assms)
  have go: "ca_obeys_at env c eCAState_RcvSignature ev (ca_id eCAState_RequestShareKey, ev, c)"
    using ok assms
    by (intro send_encrypted_obeys [where code = CLIENT_REQUEST_ENCRYPT_KEY_WITH_STR and plain = DRM_LUA_NAME
          and t = "transform_RcvSignature_To_RequestShareKey env"])
      (auto simp: ca_switches transform_RcvSignature_To_RequestShareKey_def)
  show "ca_obeys_at env c eCAState_RcvSignature ev (case decrypt_body env (client_rsa c) buf of
         None \<Rightarrow> ca_undef ev c
       | Some (Inl ec) \<Rightarrow> ca_stop ec ev c
       | Some (Inr plain) \<Rightarrow>
           (case check_signature (en_sha1 env) plain (server_public_key c) of
              None \<Rightarrow> ca_undef ev c
            | Some ok \<Rightarrow>
                if ok then (ca_id eCAState_RequestShareKey, ev, c)
                else ca_stop kBeeErrorCode_Signature_Error ev c))"
  proof (cases "decrypt_body env (client_rsa c) buf")
    case None
    with un show ?thesis by simp
  next
    case (Some r)
    show ?thesis
    proof (cases r)
      case (Inl ec)
      with Some decrypt_body_code [of env "client_rsa c" buf ec] st show ?thesis by simp
    next
      case (Inr plain)
      with Some un st go show ?thesis
        by (cases "check_signature (en_sha1 env) plain (server_public_key c)") simp_all
    qed
  qed
qed

lemma handle_RcvShareKey_obeys:
  assumes "ca_out_ok eCAState_RcvShareKey (ev_extra ev)"
  shows "ca_obeys_at env c eCAState_RcvShareKey ev (handle_RcvShareKey env c ev)"
  unfolding handle_RcvShareKey_def
proof (rule ca_received_obeys [OF _ assms], simp)
  fix buf assume ok: "\<not> ev_failed ev"
  have st: "ca_obeys_at env c eCAState_RcvShareKey ev (ca_stop ec ev c1)"
    if "ec \<noteq> kBeeErrorCode_Success" "ec \<noteq> kBeeErrorCode_State_Machine_Finished" "ca_told c1 = ca_told c" for ec c1
    using that by (intro ca_stop_obeys ok assms) simp
  have un: "ca_obeys_at env c eCAState_RcvShareKey ev (ca_undef ev c1)" for c1 by (intro ca_undef_obeys assms)
  have go: "ca_obeys_at env c eCAState_RcvShareKey ev (ca_id eCAState_RequestLua, ev, c1)"
    if "ca_told c1 = ca_told c @ (if en_handler env \<noteq> None then [Asked_Md5 (cm_lua_md5 c1)] else [])" for c1
    using ok assms that
    by (intro phase_obeys_answer [where ph' = eCAState_RequestLua and t = transform_RcvShareKey_To_RequestLua])
      (auto simp: ca_switches transform_RcvShareKey_To_RequestLua_def ca_allows_def split: option.splits)
  have fin: "ca_obeys_at env c eCAState_RcvShareKey ev (kFinishedState, ev, c1)"
    if "ca_told c1 = ca_told c @ [Asked_Md5 (cm_lua_md5 c1)]" "en_handler env = Some h" "h (cm_lua_md5 c1)" for c1 h
    using ok assms that by (intro phase_obeys_finished) (auto simp: ca_allows_def)
  show "ca_obeys_at env c eCAState_RcvShareKey ev (case decrypt_body env (client_rsa c) buf of
         None \<Rightarrow> ca_undef ev c
       | Some (Inl ec) \<Rightarrow> ca_stop ec ev c
       | Some (Inr plain) \<Rightarrow>
           if length plain < CAKey_len then ca_undef ev c
           else
             (let c1 = c\<lparr>cm_gslb_ts := ntohll (le_u64 (take 8 plain)), cm_gslb_key := take 16 (drop 8 plain),
                    cm_lua_md5 := take 32 (drop 24 plain)\<rparr>
              in case en_handler env of
                   None \<Rightarrow> (ca_id eCAState_RequestLua, ev, c1)
                 | Some check_lua_md5 \<Rightarrow>
                     (if check_lua_md5 (cm_lua_md5 c1) then kFinishedState else ca_id eCAState_RequestLua, ev,
                      c1\<lparr>ca_told := ca_told c1 @ [Asked_Md5 (cm_lua_md5 c1)]\<rparr>)))"
  proof (cases "decrypt_body env (client_rsa c) buf")
    case None
    with un show ?thesis by simp
  next
    case (Some r)
    show ?thesis
    proof (cases r)
      case (Inl ec)
      with Some decrypt_body_code [of env "client_rsa c" buf ec] st show ?thesis by simp
    next
      case (Inr plain)
      with Some un go fin show ?thesis
        by (cases "en_handler env") (auto simp: Let_def simp del: ca_id.simps)
    qed
  qed
qed

lemma handle_RcvLua_obeys:
  assumes "ca_out_ok eCAState_RcvLua (ev_extra ev)"
  shows "ca_obeys_at env c eCAState_RcvLua ev (handle_RcvLua env c ev)"
  unfolding handle_RcvLua_def
proof (rule ca_received_obeys [OF _ assms], simp)
  fix buf assume ok: "\<not> ev_failed ev"
  have st: "ca_obeys_at env c eCAState_RcvLua ev (ca_stop ec ev c1)"
    if "ec \<noteq> kBeeErrorCode_Success" "ec \<noteq> kBeeErrorCode_State_Machine_Finished" "ca_told c1 = ca_told c" for ec c1
    using that by (intro ca_stop_obeys ok assms) simp
  have un: "ca_obeys_at env c eCAState_RcvLua ev (ca_undef ev c1)" for c1 by (intro ca_undef_obeys assms)
  have fin: "ca_obeys_at env c eCAState_RcvLua ev (kFinishedState, ev, c1)"
    if "ca_told c1 = ca_told c @ (if en_handler env = None then []
      else [Told_Data kBeeErrorCode_Success Ec_Ok (cm_lua c1) (cm_lua_md5 c) (cm_gslb_key c) (cm_gslb_ts c)])" for c1
    using ok assms that by (intro phase_obeys_finished) (auto simp: ca_allows_def)
  have ec2: "ev_ec2 ev = Ec_Ok" using ok by (simp add: ev_failed_def ec_set_def)
  show "ca_obeys_at env c eCAState_RcvLua ev (case script_of env (cm_gslb_key c) buf of
         None \<Rightarrow> ca_undef ev c
       | Some (Inl ec) \<Rightarrow> ca_stop ec ev c
       | Some (Inr lua) \<Rightarrow>
           (let c1 = c\<lparr>cm_lua := lua\<rparr>
            in (kFinishedState, ev,
                case en_handler env of
                  None \<Rightarrow> c1
                | Some _ \<Rightarrow> c1\<lparr>ca_told := ca_told c1 @ [Told_Data kBeeErrorCode_Success (ev_ec2 ev)
                    (cm_lua c1) (cm_lua_md5 c1) (cm_gslb_key c1) (cm_gslb_ts c1)]\<rparr>)))"
  proof (cases "script_of env (cm_gslb_key c) buf")
    case None
    with un show ?thesis by simp
  next
    case (Some r)
    show ?thesis
    proof (cases r)
      case (Inl ec)
      with Some script_of_code [of env "cm_gslb_key c" buf ec] st show ?thesis by simp
    next
      case (Inr lua)
      with Some fin show ?thesis by (cases "en_handler env") (auto simp: ec2)
    qed
  qed
qed

lemma ca_sends_obey:
  "ca_obeys_at env c eCAState_SendPubKey ev (ca_sent eCAState_RcvPubKey c ev)"
  "ca_obeys_at env c eCAState_SendSignature ev (ca_sent eCAState_RcvSignature c ev)"
  "ca_obeys_at env c eCAState_RequestShareKey ev (ca_sent eCAState_RcvShareKey c ev)"
  "ca_obeys_at env c eCAState_RequestLua ev (ca_sent eCAState_RcvLua c ev)"
  by (rule ca_sent_obeys; simp add: ca_switches)+

lemma ca_obeys:
  assumes "ca_out_ok ph (ev_extra ev)"
  shows "ca_obeys_at env c ph ev (sp_router (ca_spec env ph) c ev)"
  using assms
  by (cases ph; simp only: ca_routers ca_sends_obey handle_Resolve_obeys handle_ConnectCA_obeys
      handle_RcvPubKey_obeys handle_RcvSignature_obeys handle_RcvShareKey_obeys handle_RcvLua_obeys)

interpretation ca: machine_flow ca_states "ca_spec env" ca_in_ok ca_out_ok "\<lambda>_. True" "ca_allows env" for env
proof
  show "ph \<in> set ca_states" for ph by (cases ph) (simp_all add: ca_states_def)
  show "distinct (map (\<lambda>ph. sp_id (ca_spec env ph)) ca_states)" by (simp add: ca_states_def)
  show "sp_id (ca_spec env ph) \<noteq> kInvalidState \<and> sp_id (ca_spec env ph) \<noteq> kFinishedState" for ph
    by (cases ph) (simp_all add: kInvalidState_def kFinishedState_def)
  show "distinct (map fst (sp_switches (ca_spec env ph)))" for ph by (cases ph) (simp_all add: ca_switches)
  show "length (filter (\<lambda>ph. sp_activate (ca_spec env ph)) ca_states) \<le> 1"
    by (simp add: ca_states_def ca_spec_def Let_def)
  show "ca_in_ok ph (sp_input (ca_spec env ph)) \<and> ca_out_ok ph (sp_output (ca_spec env ph))" for ph
    by (cases ph) (simp_all add: ca_spec_def Let_def)
qed (simp add: ca_obeys)

end
