(* ===== verification/Bee_CA_Run.thy ===== *)
theory Bee_CA_Run
  imports Bee_CA_Client
begin

text \<open>
  What a run of the CA client does: it answers its handler exactly once, it understands a server that
  follows the protocol, and of its backup addresses it tries one.
\<close>

section \<open>The handler is answered\<close>

lemma ca_implements:
  assumes "phase_machine (ca_spec env) ca_in_ok ca_out_ok (\<lambda>_. True) ptr m"
    and "st_output (fsm_heap m (ptr ph)) = Some ev" and "ev_setup ev"
  shows "\<exists>f ret m'. state_done_ec ec1 ec2 (ptr ph) m = Some (ret, m')
    \<and> phase_machine (ca_spec env) ca_in_ok ca_out_ok (\<lambda>_. True) ptr m'
    \<and> ca_allows env (members m) ph (ev\<lparr>ev_ec1 := ec1, ev_ec2 := ec2\<rparr>) f (members m')
    \<and> follows (ca_spec env) f ptr m ret m'"
  using ca.implements [OF assms] .

lemma ca_output_tells:
  assumes "en_handler env = Some h"
  shows "ca_told (ca_output env rep c) = ca_told c
    @ (if ev_ec1 rep \<noteq> kBeeErrorCode_Success \<and> ev_ec1 rep \<noteq> kBeeErrorCode_State_Machine_Finished
       then [Told_Data (ev_ec1 rep) (ev_ec2 rep) [] [] [] 0] else [])"
  using assms by (simp add: ca_output_def)

text \<open>What an allowed step leaves the handler with, once \<open>output\<close> has been called for its report.\<close>

lemma ca_step_tells:
  assumes "ca_allows env c ph ev f c'" and "\<not> ca_undefined c'" and "en_handler env = Some check"
    and "ev_ec1 ev \<noteq> kBeeErrorCode_State_Machine_Finished"
    and "client_rsa c \<noteq> None \<Longrightarrow> client_public_key c \<noteq> []" and "\<And>k. lib_new_key (en_rsa env) \<noteq> Some (k, [])"
  shows "case f of
      Goes_On ph' \<Rightarrow> ca_id ph' = ca_id ph + 1
        \<and> ca_told c' = ca_told c @ (if ph = eCAState_RcvShareKey then [Asked_Md5 (cm_lua_md5 c')] else [])
    | Ends ec \<Rightarrow> \<forall>rep. ev_ec1 rep = ec \<longrightarrow>
        (\<exists>md5. ca_told (ca_output env rep c') = ca_told c @ [Asked_Md5 md5] \<and> check md5)
        \<or> (\<exists>ec2 lua md5 key ts. ca_told (ca_output env rep c') = ca_told c
            @ [Told_Data (if ec = kBeeErrorCode_State_Machine_Finished then kBeeErrorCode_Success else ec)
                 ec2 lua md5 key ts])"
proof (cases "ev_failed ev \<and> ph \<noteq> eCAState_Resolve")
  case True
  with assms(1,2,4) show ?thesis
    by (auto simp: ca_allows_def ca_output_tells [OF assms(3)])
next
  case False
  show ?thesis
  proof (cases f)
    case (Goes_On ph')
    with False assms(1-3) show ?thesis by (auto simp: ca_allows_def)
  next
    case (Ends ec)
    show ?thesis
    proof (cases "ec = kBeeErrorCode_State_Machine_Finished")
      case True
      with False Ends assms(1-3) show ?thesis
        by (auto simp: ca_allows_def ca_output_tells [OF assms(3)])
    next
      case other: False
      with False Ends assms(1,2) have a: "ca_told c' = ca_told c"
        "ec = kBeeErrorCode_Success \<longrightarrow> (if client_rsa c = None then \<exists>k. lib_new_key (en_rsa env) = Some (k, [])
          else client_public_key c = [])" by (auto simp: ca_allows_def)
      with assms(5,6) have "ec \<noteq> kBeeErrorCode_Success" by (auto split: if_splits)
      with a(1) other Ends show ?thesis by (auto simp: ca_output_tells [OF assms(3)])
    qed
  qed
qed

text \<open>
  C10: every run answers its handler exactly once. For a client with a handler, whatever a state reports
  (no state reports \<open>State_Machine_Finished\<close> itself), one of these happens: the next of the ten states is
  posted and the handler has been told nothing (asked, after the share key, whether it knows the script);
  or the run ends, one event is reported, and the handler, \<open>output\<close> included, has been told exactly one
  result or has answered that it knows the script, which covers the errors of an output event that was
  not set up, reported without asking a router; or the run read memory that is not its own. The one way
  to end untold is a state that reports \<open>Success\<close> without having set up its output event, which no state
  of the client does. The key pair the run has or generates is assumed to give a nonempty text.
\<close>

theorem ca_handler_answered:
  assumes "phase_machine (ca_spec env) ca_in_ok ca_out_ok (\<lambda>_. True) ptr m"
    and "st_output (fsm_heap m (ptr ph)) = Some ev"
    and "en_handler env = Some check" and "ec1 \<noteq> kBeeErrorCode_State_Machine_Finished"
    and "client_rsa (members m) \<noteq> None \<Longrightarrow> client_public_key (members m) \<noteq> []"
    and "\<And>k. lib_new_key (en_rsa env) \<noteq> Some (k, [])"
  shows "\<exists>ret m'. state_done_ec ec1 ec2 (ptr ph) m = Some (ret, m')
    \<and> phase_machine (ca_spec env) ca_in_ok ca_out_ok (\<lambda>_. True) ptr m'
    \<and> (if \<not> ev_setup ev \<and> ec1 = kBeeErrorCode_Success
       then \<exists>rep. \<not> ret \<and> posted m' = posted m \<and> outputs m' = outputs m @ [rep]
         \<and> ca_told (ca_output env rep (members m')) = ca_told (members m)
       else ca_undefined (members m')
      \<or> (\<exists>ph'. ret \<and> ca_id ph' = ca_id ph + 1 \<and> posted m' = posted m @ [ptr ph'] \<and> outputs m' = outputs m
          \<and> ca_told (members m') = ca_told (members m)
              @ (if ph = eCAState_RcvShareKey then [Asked_Md5 (cm_lua_md5 (members m'))] else []))
      \<or> (\<exists>rep n. \<not> ret \<and> posted m' = posted m \<and> outputs m' = outputs m @ [rep]
          \<and> ca_told (ca_output env rep (members m')) = ca_told (members m) @ [n]
          \<and> (\<forall>md5. n = Asked_Md5 md5 \<longrightarrow> check md5)))"
proof (cases "ev_setup ev")
  case unset: False
  obtain m' rep where m': "state_done_ec ec1 ec2 (ptr ph) m = Some (False, m')"
    "phase_machine (ca_spec env) ca_in_ok ca_out_ok (\<lambda>_. True) ptr m'" "members m' = members m"
    "posted m' = posted m" "outputs m' = outputs m @ [rep]" "ev_ec1 rep = ec1"
    using ca.unset_reports [OF assms(1,2) unset, of ec1 ec2] by (auto simp: follows_def)
  then show ?thesis
  proof (cases "ec1 = kBeeErrorCode_Success")
    case True
    with m' unset show ?thesis
      by (intro exI [of _ False] exI [of _ m']) (simp add: ca_output_tells [OF assms(3)])
  next
    case False
    with m' assms(4) have "ca_told (ca_output env rep (members m')) = ca_told (members m) @ [Told_Data ec1 (ev_ec2 rep) [] [] [] 0]"
      by (simp add: ca_output_tells [OF assms(3)])
    with m' False show ?thesis by (intro exI [of _ False] exI [of _ m']) auto
  qed
next
  case is_set: True
  let ?ev = "ev\<lparr>ev_ec1 := ec1, ev_ec2 := ec2\<rparr>"
  from ca_implements [OF assms(1,2) is_set, of ec1 ec2] obtain f ret m' where
    m': "state_done_ec ec1 ec2 (ptr ph) m = Some (ret, m')"
    "phase_machine (ca_spec env) ca_in_ok ca_out_ok (\<lambda>_. True) ptr m'"
    "ca_allows env (members m) ph ?ev f (members m')" "follows (ca_spec env) f ptr m ret m'" by blast
  show ?thesis
  proof (cases "ca_undefined (members m')")
    case True
    with m' is_set show ?thesis by auto
  next
    case False
    have "ev_ec1 ?ev \<noteq> kBeeErrorCode_State_Machine_Finished" using assms(4) by simp
    note t = ca_step_tells [OF m'(3) False assms(3) this assms(5,6)]
    show ?thesis
    proof (cases f)
      case (Goes_On ph')
      with t m' is_set show ?thesis by (auto simp: follows_def)
    next
      case (Ends ec)
      with m'(4) obtain rep where rep: "\<not> ret" "posted m' = posted m" "outputs m' = outputs m @ [rep]" "ev_ec1 rep = ec"
        by (auto simp: follows_def)
      with t Ends have "\<exists>n. ca_told (ca_output env rep (members m')) = ca_told (members m) @ [n]
          \<and> (\<forall>md5. n = Asked_Md5 md5 \<longrightarrow> check md5)" by auto
      with rep m'(1,2) is_set show ?thesis by auto
    qed
  qed
qed

section \<open>The backup addresses\<close>

text \<open>
  When the server's name cannot be resolved, the run goes on with the five backup addresses, but
  only one of them is ever tried: the connect state starts at the index that worked last (0 at first)
  and, whatever completions and time-outs follow, every connection it starts is to that one.
\<close>

theorem ca_backup_tries_one:
  assumes "ev_failed ev" and "ev_extra ev = Resolve_Output []" and "ev_extra inp = Connect_Input eps0 i0 t0"
    and "last_connected_backup_ca_index c = int i" and "i < length kBackupCAIps"
  shows "\<exists>out' in' c' out st. handle_Resolve c ev = (ca_id eCAState_ConnectCA, ev, c')
    \<and> transform_Resolve_To_ConnectCA env c' ev inp = (True, out', in', c')
    \<and> ev_extra in' = Connect_Input (backup_endpoints env) (int i) (connect_timeout c)
    \<and> connect_execute True True (backup_endpoints env) (int i) (connect_timeout c) TcpConnectState_new
        = Some (kBeeErrorCode_Success, out, st)
    \<and> (\<forall>evs outs st' ep k. connect_events True False (backup_endpoints env) evs st = Some (outs, st')
        \<longrightarrow> Start_Connect ep k \<in> set (out @ outs) \<longrightarrow> ep = backup_endpoints env ! i)"
proof -
  let ?c = "c\<lparr>using_backup_ca_addr := (kBackupCAIps \<noteq> [])\<rparr>" and ?eps = "backup_endpoints env"
  have r: "handle_Resolve c ev = (ca_id eCAState_ConnectCA, ev, ?c)"
    using assms(1) by (simp add: handle_Resolve_def)
  have k: "kBackupCAIps \<noteq> []" by (simp add: kBackupCAIps_def)
  have t: "transform_Resolve_To_ConnectCA env ?c ev inp = (True, ev\<lparr>ev_extra := Resolve_Output ?eps\<rparr>,
      inp\<lparr>ev_extra := Connect_Input ?eps (int i) (connect_timeout c), ev_setup := True\<rparr>, ?c)"
    using assms(2-5) k by (simp add: transform_Resolve_To_ConnectCA_def Let_def)
  have i: "i < length ?eps" using assms(5) by (simp add: backup_endpoints_def)
  from connect_execute_starts [OF i, of "connect_timeout c" TcpConnectState_new] obtain st where
    st: "connect_execute True True ?eps (int i) (connect_timeout c) TcpConnectState_new
      = Some (kBeeErrorCode_Success, [Start_Connect (?eps ! i) (int i)], st)" "connecting ?eps i st" by blast
  have "\<forall>evs outs st' ep k. connect_events True False ?eps evs st = Some (outs, st')
      \<longrightarrow> Start_Connect ep k \<in> set ([Start_Connect (?eps ! i) (int i)] @ outs) \<longrightarrow> ep = ?eps ! i"
    using connect_events_target [OF _ st(2)] by (fastforce simp: only_target_def)
  with r t st(1) show ?thesis by (intro exI conjI) (assumption | simp)+
qed

section \<open>A server that follows the protocol\<close>

lemma length_to_cells [simp]: "length (to_cells bs) = length bs"
  by (simp add: to_cells_def)

lemma to_cells_append: "to_cells (xs @ ys) = to_cells xs @ to_cells ys"
  by (simp add: to_cells_def)

lemma msg_read_mid:
  assumes "length pre = i" and "length mid = n"
  shows "msg_read i n (to_cells (pre @ mid) @ rest) = Some mid"
proof -
  have "take n (drop i (to_cells (pre @ mid) @ rest)) = to_cells mid"
    using assms by (simp add: to_cells_append)
  then show ?thesis using assms(2) by (auto simp: msg_read_def to_cells_def comp_def)
qed

lemma net_bytes_Suc: "net_bytes (Suc k) n = of_nat (n div 256 ^ k) # net_bytes k n"
  unfolding net_bytes_def upt_conv_Cons [OF zero_less_Suc]
  by (simp add: map_Suc_upt [symmetric] del: upt_Suc)

lemma length_net_bytes [simp]: "length (net_bytes k n) = k"
  by (simp add: net_bytes_def)

lemma foldl_be: "foldl (\<lambda>a b. a * 256 + unat b) a bs
    = a * 256 ^ length bs + foldl (\<lambda>a b. a * 256 + unat b) 0 (bs :: byte list)"
proof (induction bs arbitrary: a)
  case Nil
  then show ?case by simp
next
  case (Cons b bs)
  from Cons.IH [of "a * 256 + unat b"] Cons.IH [of "unat b"] show ?case by (simp add: algebra_simps)
qed

lemma net_number_bytes: "n < 256 ^ k \<Longrightarrow> net_number (net_bytes k n) = n"
proof -
  have "net_number (net_bytes k n) = n mod 256 ^ k"
  proof (induction k)
    case 0
    then show ?case by (simp add: net_bytes_def net_number_def)
  next
    case (Suc k)
    have "net_number (net_bytes (Suc k) n) = (n div 256 ^ k) mod 256 * 256 ^ k + net_number (net_bytes k n)"
      unfolding net_bytes_Suc net_number_def by (simp add: foldl_be [of "n div 256 ^ k mod 256"] unat_of_nat)
    also have "\<dots> = n mod (256 ^ k * 256)" unfolding Suc by (simp add: mod_mult2_eq)
    finally show ?case by (simp add: mult.commute)
  qed
  then show "n < 256 ^ k \<Longrightarrow> net_number (net_bytes k n) = n" by simp
qed

text \<open>A message as it stands in the receive buffer, with whatever an earlier one left behind it.\<close>

definition ca_message :: "byte \<Rightarrow> byte list \<Rightarrow> char option list \<Rightarrow> char option list" where
  "ca_message code body tail = to_cells (ca_header (kCAHeaderLen + length body) code @ body) @ tail"

definition ca_big_message :: "byte \<Rightarrow> byte list \<Rightarrow> char option list \<Rightarrow> char option list" where
  "ca_big_message code body tail =
     to_cells (net_bytes 4 (kCABigHeaderLen + length body) @ [code] @ net_bytes 4 CA_MARK @ body) @ tail"

lemma message_reads:
  "msg_read 0 2 (ca_message code body tail) = Some (net_bytes 2 (kCAHeaderLen + length body))"
  "msg_read 2 1 (ca_message code body tail) = Some [code]"
  "msg_read (2 + 1) 4 (ca_message code body tail) = Some (net_bytes 4 CA_MARK)"
  "length body = n \<Longrightarrow> msg_read kCAHeaderLen n (ca_message code body tail) = Some body"
proof -
  let ?l = "net_bytes 2 (kCAHeaderLen + length body)" and ?m = "net_bytes 4 CA_MARK"
  have m: "ca_message code body tail = to_cells ([] @ ?l) @ (to_cells ([code] @ ?m @ body) @ tail)"
    "ca_message code body tail = to_cells (?l @ [code]) @ (to_cells (?m @ body) @ tail)"
    "ca_message code body tail = to_cells ((?l @ [code]) @ ?m) @ (to_cells body @ tail)"
    "ca_message code body tail = to_cells ((?l @ [code] @ ?m) @ body) @ tail"
    by (simp_all add: ca_message_def ca_header_def to_cells_def)
  show "msg_read 0 2 (ca_message code body tail) = Some ?l" unfolding m(1) by (rule msg_read_mid) simp_all
  show "msg_read 2 1 (ca_message code body tail) = Some [code]" unfolding m(2) by (rule msg_read_mid) simp_all
  show "msg_read (2 + 1) 4 (ca_message code body tail) = Some ?m" unfolding m(3) by (rule msg_read_mid) simp_all
  show "length body = n \<Longrightarrow> msg_read kCAHeaderLen n (ca_message code body tail) = Some body"
    unfolding m(4) by (rule msg_read_mid) (simp_all add: kCAHeaderLen_def)
qed

lemma big_message_reads:
  "msg_read 0 4 (ca_big_message code body tail) = Some (net_bytes 4 (kCABigHeaderLen + length body))"
  "msg_read 4 1 (ca_big_message code body tail) = Some [code]"
  "msg_read (4 + 1) 4 (ca_big_message code body tail) = Some (net_bytes 4 CA_MARK)"
  "length body = n \<Longrightarrow> msg_read kCABigHeaderLen n (ca_big_message code body tail) = Some body"
  "drop (kCABigHeaderLen + length body) (ca_big_message code body tail) = tail"
proof -
  let ?l = "net_bytes 4 (kCABigHeaderLen + length body)" and ?m = "net_bytes 4 CA_MARK"
  have m: "ca_big_message code body tail = to_cells ([] @ ?l) @ (to_cells ([code] @ ?m @ body) @ tail)"
    "ca_big_message code body tail = to_cells (?l @ [code]) @ (to_cells (?m @ body) @ tail)"
    "ca_big_message code body tail = to_cells ((?l @ [code]) @ ?m) @ (to_cells body @ tail)"
    "ca_big_message code body tail = to_cells ((?l @ [code] @ ?m) @ body) @ tail"
    by (simp_all add: ca_big_message_def to_cells_def)
  show "msg_read 0 4 (ca_big_message code body tail) = Some ?l" unfolding m(1) by (rule msg_read_mid) simp_all
  show "msg_read 4 1 (ca_big_message code body tail) = Some [code]" unfolding m(2) by (rule msg_read_mid) simp_all
  show "msg_read (4 + 1) 4 (ca_big_message code body tail) = Some ?m" unfolding m(3) by (rule msg_read_mid) simp_all
  show "length body = n \<Longrightarrow> msg_read kCABigHeaderLen n (ca_big_message code body tail) = Some body"
    unfolding m(4) by (rule msg_read_mid) (simp_all add: kCABigHeaderLen_def)
  show "drop (kCABigHeaderLen + length body) (ca_big_message code body tail) = tail"
    by (simp add: m(4) kCABigHeaderLen_def)
qed

lemma mark_read: "net_number (net_bytes 4 CA_MARK) = CA_MARK"
  by (rule net_number_bytes) (simp add: CA_MARK_def)

lemma message_passes:
  "message_checked 2 code (Tlv_Output (Some (ca_message code body tail))) = Some (Inr (ca_message code body tail))"
  "message_checked 4 code (Tlv_Output (Some (ca_big_message code body tail))) = Some (Inr (ca_big_message code body tail))"
  by (simp_all only: message_checked_def tcp_extra.case option.case message_reads big_message_reads mark_read
      Option.bind.bind_lunit not_True_eq_False if_False simp_thms)

text \<open>What is assumed of RSA: a short plain text comes back, the cipher text is as long as the modulus.\<close>

definition rsa_inverts :: "'k rsa_lib \<Rightarrow> 'k \<Rightarrow> bool" where
  "rsa_inverts lib k \<longleftrightarrow> lib_rsa_size lib k = 128
     \<and> (\<forall>d. d \<noteq> [] \<and> length d \<le> 117 \<longrightarrow> (\<exists>e. lib_public_encrypt lib k d = Some e \<and> length e = 128
          \<and> lib_private_decrypt lib k e = Some d))"

lemma rsa_invertsD:
  assumes "rsa_inverts lib k" and "d \<noteq> []" and "length d \<le> 117"
  obtains e where "rsa_encrypt lib (Some k) d = Some e" and "length e = 128"
    and "rsa_decrypt lib (Some k) e = Some d"
proof -
  from assms obtain e where e: "lib_public_encrypt lib k d = Some e" "length e = 128"
    "lib_private_decrypt lib k e = Some d" "lib_rsa_size lib k = 128" by (auto simp: rsa_inverts_def)
  then have "rsa_encrypt lib (Some k) d = Some e" using assms(2,3) by (subst rsa_encrypt_short) simp_all
  moreover have "rsa_decrypt lib (Some k) e = Some d" using e by (auto simp: rsa_decrypt_def)
  ultimately show thesis using that e(2) by blast
qed

lemma u32_minus: "k \<le> n \<Longrightarrow> n < 2 ^ 32 \<Longrightarrow> unat (of_nat n - of_nat k :: u32) = n - k"
  by (simp add: unat_sub word_le_nat_alt unat_of_nat)

lemma decrypt_body_message:
  assumes "rsa_decrypt (en_rsa env) (Some k) e = Some d" and "e \<noteq> []" and "length e < 2 ^ 15"
    and "length d \<le> length e"
  shows "decrypt_body env (Some k) (ca_message code e tail) = Some (Inr d)"
proof -
  have n: "net_number (net_bytes 2 (kCAHeaderLen + length e)) = kCAHeaderLen + length e"
    using assms(3) by (intro net_number_bytes) (simp add: kCAHeaderLen_def)
  have u: "unat (of_nat (kCAHeaderLen + length e) - of_nat kCAHeaderLen :: u32) = length e"
    using assms(3) by (subst u32_minus) (simp_all add: kCAHeaderLen_def)
  show ?thesis
    using assms by (simp only: decrypt_body_def message_reads Option.bind.bind_lunit n Let_def u) simp
qed

text \<open>A packet that fits a fresh buffer is a header and its body, and nothing else.\<close>

lemma put_packet_fresh:
  assumes "iob_size data < 1024" and "length body \<le> 1000"
  shows "\<exists>d. put_packet code body (send_room data) = Some d
    \<and> iob_content d = to_cells (ca_header (kCAHeaderLen + length body) code @ body)"
proof -
  let ?p = "to_cells (ca_header (kCAHeaderLen + length body) code @ body)"
  have len: "length ?p = kCAHeaderLen + length body" by (simp add: ca_header_def kCAHeaderLen_def)
  have m: "(kCAHeaderLen + length body) mod 2 ^ 16 = kCAHeaderLen + length body"
    using assms(2) by (simp add: kCAHeaderLen_def)
  have "store_at (cells (IOBuffer_new 1024 :: char iobuffer)) 0 ?p
      = Some (?p @ replicate (1024 - length ?p) None)"
    using assms(2) len by (simp add: store_at_def IOBuffer_new_def kCAHeaderLen_def)
  then show ?thesis using assms len
    by (simp add: put_packet_def send_room_def m IOBuffer_new_def iob_resize_def iob_capacity_def
        iob_content_def kCAHeaderLen_def Let_def)
qed

text \<open>
  What the client answers to a message: the state it goes to, its members, and the packet the next state
  is to send.
\<close>

definition ca_react ::
    "('k, 'z, 'ep) ca_env \<Rightarrow> CAState \<Rightarrow> 'k ca_members \<Rightarrow> char option list
      \<Rightarrow> int \<times> 'k ca_members \<times> char option list option" where
  "ca_react env ph c msg =
     (let ev = (StateEvent_new (Tlv_Output (Some msg)))\<lparr>ev_setup := True\<rparr>;
          (target, ev1, c1) = sp_router (ca_spec env ph) c ev
      in case map_of (sp_switches (ca_spec env ph)) target of
           None \<Rightarrow> (target, c1, None)
         | Some t \<Rightarrow>
             (let (ret, _, in', c') = t c1 ev1 (StateEvent_new Plain_Event)
              in (target, c', if ret then Some (iob_content (ev_data in')) else None)))"

lemma react_received:
  assumes "sp_router (ca_spec env ph) = ca_received at code work"
    and "message_checked at code (Tlv_Output (Some msg) :: 'ep tcp_extra) = Some (Inr msg)"
    and "work msg c ((StateEvent_new (Tlv_Output (Some msg)))\<lparr>ev_setup := True\<rparr>) = (target, ev1, c1)"
    and "map_of (sp_switches (ca_spec env ph)) target = Some t"
    and "t c1 ev1 (StateEvent_new (Plain_Event :: 'ep tcp_extra)) = (True, ev1, in', c1)"
  shows "ca_react env ph c msg = (target, c1, Some (iob_content (ev_data in')))"
  using assms
  by (simp add: ca_react_def ca_received_def ev_failed_def StateEvent_new_def ec_set_def)

lemma new_event_room [simp]: "iob_size (ev_data (StateEvent_new x)) < 1024"
  by (simp add: StateEvent_new_def IOBuffer_new_def iob_size_def size_sub_def)

lemma send_encrypted_new:
  assumes "rsa_encrypt (en_rsa env) (server_rsa c) plain = Some e" and "length e = 128"
  shows "\<exists>in'. send_encrypted env code plain c inp (StateEvent_new x) = (True, inp, in', c)
    \<and> iob_content (ev_data in') = to_cells (ca_header (kCAHeaderLen + 128) code @ e)"
  using put_packet_fresh [of "ev_data (StateEvent_new x)" e code] assms
  by (auto simp: send_encrypted_def)

lemma react_pub_key:
  assumes "rsa_inverts (en_rsa env) ks" and "lib_bio (en_rsa env)" and "lib_read_pem (en_rsa env) spem = Some ks"
    and "length spem = PUBLIC_KEY_LENGTH" and "length (client_public_key c) = PUBLIC_KEY_LENGTH"
    and "\<And>x. length (en_sha1 env x) = 20"
  shows "\<exists>s e. ca_react env eCAState_RcvPubKey c (ca_message CA_CLIENT_PUBLIC_KEY spem tail)
      = (ca_id eCAState_SendSignature, c\<lparr>server_public_key := spem, server_rsa := Some ks, signature := s\<rparr>,
         Some (to_cells (ca_header (kCAHeaderLen + 128) CLIENT_CA_SIGNATURE @ e)))
    \<and> rsa_decrypt (en_rsa env) (Some ks) e = Some (signature_bytes s)
    \<and> check_signature (en_sha1 env) (signature_bytes s) (client_public_key c) = Some True"
proof -
  have long: "key_head_len + 128 \<le> length (client_public_key c)"
    using assms(5) by (simp add: PUBLIC_KEY_LENGTH_def key_head_len_def)
  obtain s where s: "create_signature (en_sha1 env) (en_tick env) (client_public_key c) = Some (Some s)"
    "length (signature_bytes s) = kSignatureLen"
    "check_signature (en_sha1 env) (signature_bytes s) (client_public_key c) = Some True"
    using create_check_signature [of "en_sha1 env", OF assms(6) long, of "en_tick env"] by blast
  have sl: "length (signature_bytes s) \<le> 117" "signature_bytes s \<noteq> []" using s(2) by (auto simp: kSignatureLen_def)
  obtain e where e: "rsa_encrypt (en_rsa env) (Some ks) (signature_bytes s) = Some e" "length e = 128"
    "rsa_decrypt (en_rsa env) (Some ks) e = Some (signature_bytes s)"
    using rsa_invertsD [OF assms(1) sl(2,1)] by blast
  let ?c = "c\<lparr>server_public_key := spem, server_rsa := Some ks\<rparr>"
  have spem: "spem \<noteq> []" using assms(4) by (auto simp: PUBLIC_KEY_LENGTH_def)
  have p: "process_server_rsa_key env spem c = (True, ?c)"
    using spem assms(2,3) by (simp add: process_server_rsa_key_def rsa_generate_from_pub_key_def)
  obtain in' where i: "send_encrypted env CLIENT_CA_SIGNATURE (signature_bytes s) (?c\<lparr>signature := s\<rparr>)
        ((StateEvent_new (Tlv_Output (Some (ca_message CA_CLIENT_PUBLIC_KEY spem tail))))\<lparr>ev_setup := True\<rparr>)
        (StateEvent_new Plain_Event)
      = (True, (StateEvent_new (Tlv_Output (Some (ca_message CA_CLIENT_PUBLIC_KEY spem tail))))\<lparr>ev_setup := True\<rparr>,
         in', ?c\<lparr>signature := s\<rparr>)"
    "iob_content (ev_data in') = to_cells (ca_header (kCAHeaderLen + 128) CLIENT_CA_SIGNATURE @ e)"
    using send_encrypted_new [of env "?c\<lparr>signature := s\<rparr>" "signature_bytes s" e] e(1,2) by fastforce
  have "ca_react env eCAState_RcvPubKey c (ca_message CA_CLIENT_PUBLIC_KEY spem tail)
      = (ca_id eCAState_SendSignature, ?c\<lparr>signature := s\<rparr>, Some (iob_content (ev_data in')))"
    by (rule react_received [OF ca_routers(4) [unfolded handle_RcvPubKey_def] message_passes(1), where t =
          "transform_RcvPubKey_To_SendSignature env"])
      (use p s(1) i(1) assms(4) in \<open>simp_all add: message_reads ca_switches transform_RcvPubKey_To_SendSignature_def\<close>)
  with s(3) e(3) i(2) show ?thesis by auto
qed

lemma react_signature:
  assumes "rsa_inverts (en_rsa env) kc" and "rsa_inverts (en_rsa env) ks" and "client_rsa c = Some kc"
    and "server_rsa c = Some ks" and "length (server_public_key c) = PUBLIC_KEY_LENGTH"
    and "\<And>x. length (en_sha1 env x) = 20"
  shows "\<exists>s e e'. create_signature (en_sha1 env) tick (server_public_key c) = Some (Some s)
    \<and> rsa_encrypt (en_rsa env) (Some kc) (signature_bytes s) = Some e
    \<and> ca_react env eCAState_RcvSignature c (ca_message CA_CLIENT_SIGNATURE e tail)
      = (ca_id eCAState_RequestShareKey, c,
         Some (to_cells (ca_header (kCAHeaderLen + 128) CLIENT_REQUEST_ENCRYPT_KEY_WITH_STR @ e')))
    \<and> rsa_decrypt (en_rsa env) (Some ks) e' = Some DRM_LUA_NAME"
proof -
  have long: "key_head_len + 128 \<le> length (server_public_key c)"
    using assms(5) by (simp add: PUBLIC_KEY_LENGTH_def key_head_len_def)
  obtain s where s: "create_signature (en_sha1 env) tick (server_public_key c) = Some (Some s)"
    "length (signature_bytes s) = kSignatureLen"
    "check_signature (en_sha1 env) (signature_bytes s) (server_public_key c) = Some True"
    using create_check_signature [of "en_sha1 env", OF assms(6) long, of tick] by blast
  have sl: "length (signature_bytes s) \<le> 117" "signature_bytes s \<noteq> []" using s(2) by (auto simp: kSignatureLen_def)
  obtain e where e: "rsa_encrypt (en_rsa env) (Some kc) (signature_bytes s) = Some e" "length e = 128"
    "rsa_decrypt (en_rsa env) (Some kc) e = Some (signature_bytes s)"
    using rsa_invertsD [OF assms(1) sl(2,1)] by blast
  have "DRM_LUA_NAME \<noteq> []" "length DRM_LUA_NAME \<le> 117" by (simp_all add: DRM_LUA_NAME_def)
  then obtain e' where e': "rsa_encrypt (en_rsa env) (Some ks) DRM_LUA_NAME = Some e'" "length e' = 128"
    "rsa_decrypt (en_rsa env) (Some ks) e' = Some DRM_LUA_NAME"
    using rsa_invertsD [OF assms(2)] by blast
  let ?msg = "ca_message CA_CLIENT_SIGNATURE e tail"
  have b: "decrypt_body env (client_rsa c) ?msg = Some (Inr (signature_bytes s))"
    unfolding assms(3) using e sl by (intro decrypt_body_message) auto
  obtain in' where i: "send_encrypted env CLIENT_REQUEST_ENCRYPT_KEY_WITH_STR DRM_LUA_NAME c
        ((StateEvent_new (Tlv_Output (Some ?msg)))\<lparr>ev_setup := True\<rparr>) (StateEvent_new Plain_Event)
      = (True, (StateEvent_new (Tlv_Output (Some ?msg)))\<lparr>ev_setup := True\<rparr>, in', c)"
    "iob_content (ev_data in') = to_cells (ca_header (kCAHeaderLen + 128) CLIENT_REQUEST_ENCRYPT_KEY_WITH_STR @ e')"
    using send_encrypted_new [of env c DRM_LUA_NAME e'] e'(1,2) assms(4) by fastforce
  have "ca_react env eCAState_RcvSignature c ?msg
      = (ca_id eCAState_RequestShareKey, c, Some (iob_content (ev_data in')))"
    by (rule react_received [OF ca_routers(6) [unfolded handle_RcvSignature_def] message_passes(1), where t =
          "transform_RcvSignature_To_RequestShareKey env"])
      (use b s(3) i(1) in \<open>simp_all add: ca_switches transform_RcvSignature_To_RequestShareKey_def\<close>)
  with s(1) e(1) e'(3) i(2) show ?thesis by auto
qed

lemma react_share_key:
  assumes "rsa_inverts (en_rsa env) kc" and "client_rsa c = Some kc"
    and "length ts = 8" and "length key = 16" and "length md5 = 32"
    and "en_handler env = Some check" and "\<not> check md5"
  shows "\<exists>e. rsa_encrypt (en_rsa env) (Some kc) (ts @ key @ md5) = Some e
    \<and> ca_react env eCAState_RcvShareKey c (ca_message CA_REPLY_ENCRYPT_MD5 e tail)
      = (ca_id eCAState_RequestLua,
         c\<lparr>cm_gslb_ts := ntohll (le_u64 ts), cm_gslb_key := key, cm_lua_md5 := md5,
           ca_told := ca_told c @ [Asked_Md5 md5]\<rparr>,
         Some (to_cells (ca_header kCAHeaderLen CLIENT_REQUEST_LUA)))"
proof -
  have d: "ts @ key @ md5 \<noteq> []" "length (ts @ key @ md5) \<le> 117" "length (ts @ key @ md5) = CAKey_len"
    using assms(3-5) by (auto simp: CAKey_len_def)
  obtain e where e: "rsa_encrypt (en_rsa env) (Some kc) (ts @ key @ md5) = Some e" "length e = 128"
    "rsa_decrypt (en_rsa env) (Some kc) e = Some (ts @ key @ md5)"
    using rsa_invertsD [OF assms(1) d(1,2)] by blast
  let ?msg = "ca_message CA_REPLY_ENCRYPT_MD5 e tail"
  let ?c = "c\<lparr>cm_gslb_ts := ntohll (le_u64 ts), cm_gslb_key := key, cm_lua_md5 := md5,
    ca_told := ca_told c @ [Asked_Md5 md5]\<rparr>"
  have b: "decrypt_body env (client_rsa c) ?msg = Some (Inr (ts @ key @ md5))"
    unfolding assms(2) using e d by (intro decrypt_body_message) auto
  obtain p where p: "put_packet CLIENT_REQUEST_LUA [] (send_room (ev_data (StateEvent_new (Plain_Event :: 'c tcp_extra)))) = Some p"
    "iob_content p = to_cells (ca_header kCAHeaderLen CLIENT_REQUEST_LUA)"
    using put_packet_fresh [of "ev_data (StateEvent_new (Plain_Event :: 'c tcp_extra))" "[]"] by auto
  have parts: "take 8 (ts @ key @ md5) = ts" "take 16 (drop 8 (ts @ key @ md5)) = key"
    "take 32 (drop 24 (ts @ key @ md5)) = md5" using assms(3-5) by simp_all
  have "ca_react env eCAState_RcvShareKey c ?msg = (ca_id eCAState_RequestLua, ?c,
      Some (iob_content (ev_data ((StateEvent_new (Plain_Event :: 'c tcp_extra))\<lparr>ev_data := p, ev_setup := True\<rparr>))))"
    by (rule react_received [OF ca_routers(8) [unfolded handle_RcvShareKey_def] message_passes(1), where t =
          transform_RcvShareKey_To_RequestLua])
      (use b p(1) d(3) parts assms(6,7) in \<open>simp_all add: ca_switches transform_RcvShareKey_To_RequestLua_def Let_def
        del: take_append drop_append\<close>)
  with e(1) p(2) show ?thesis by auto
qed

lemma react_lua:
  assumes "\<And>k d. en_rc4 env k (en_rc4 env k d) = d \<and> length (en_rc4 env k d) = length d"
    and "en_handler env = Some check" and "3 * length z < 2 ^ 32" and "length z + 13 < 2 ^ 32"
    and "\<And>rest. gz_decompress (en_inflate env) (en_stream env) (en_inflate_end env) (z @ rest) (length z) (3 * length z)
        = Some (Gz_Data script)"
  shows "ca_react env eCAState_RcvLua c
      (ca_big_message CA_REPLY_ENCRYPT_BIGLUA (en_rc4 env (cm_gslb_key c) (net_bytes 4 (length z) @ z)) tail)
    = (kFinishedState, c\<lparr>cm_lua := script, ca_told := ca_told c @ [Told_Data kBeeErrorCode_Success Ec_Ok script
         (cm_lua_md5 c) (cm_gslb_key c) (cm_gslb_ts c)]\<rparr>, None)"
proof -
  define body where "body = en_rc4 env (cm_gslb_key c) (net_bytes 4 (length z) @ z)"
  let ?msg = "ca_big_message CA_REPLY_ENCRYPT_BIGLUA body tail"
  have len: "length body = length z + 4" and dec: "en_rc4 env (cm_gslb_key c) body = net_bytes 4 (length z) @ z"
    using assms(1) by (simp_all add: body_def)
  have n: "net_number (net_bytes 4 (kCABigHeaderLen + length body)) = kCABigHeaderLen + length body"
    using assms(4) len by (intro net_number_bytes) (simp add: kCABigHeaderLen_def)
  have u: "unat (of_nat (kCABigHeaderLen + length body) - of_nat kCABigHeaderLen :: u32) = length body"
    using assms(4) len by (subst u32_minus) (simp_all add: kCABigHeaderLen_def)
  have k: "net_number (net_bytes 4 (length z)) = length z"
    using assms(4) by (intro net_number_bytes) simp
  define rest where "rest = map the (takeWhile (\<lambda>x :: byte option. x \<noteq> None) (map (map_option of_char) tail))"
  have readable: "map the (takeWhile (\<lambda>x. x \<noteq> None) (map Some z @ map (map_option of_char) tail)) = z @ rest"
    by (simp add: rest_def takeWhile_append comp_def)
  have sc: "script_of env (cm_gslb_key c) ?msg = Some (Inr script)"
    using assms(3) assms(5) [of rest]
    by (simp only: script_of_def big_message_reads Option.bind.bind_lunit n u Let_def dec)
      (simp add: readable k image_iff mult.commute del: not_None_eq)
  show ?thesis
    using sc assms(2) unfolding body_def [symmetric]
    by (simp add: message_passes Let_def ca_react_def ca_routers ca_switches handle_RcvLua_def ca_received_def ev_failed_def
        StateEvent_new_def ec_set_def)
qed

text \<open>
  C9: the client understands a server that follows the protocol. Both have RSA keys with 128 byte moduli
  and public keys of 272 bytes. Then, from the moment the client's key has been sent: it answers the
  server's key with a signature the server's own check accepts; it accepts the signature the server
  makes of its key at any time and asks for the script \<open>new_live\<close>; it takes over time, key and digest
  and, when its handler does not know the digest, asks for the script; and it hands the handler exactly
  that script with the digest, key and time, finishes, and has read no memory of others. What stands in
  the receive buffer behind a message does not matter.
\<close>

theorem ca_honest_exchange:
  fixes env :: "('k, 'z, 'ep) ca_env"
  assumes "rsa_inverts (en_rsa env) kc" and "rsa_inverts (en_rsa env) ks" and "client_rsa c = Some kc"
    and "length (client_public_key c) = PUBLIC_KEY_LENGTH" and "length spem = PUBLIC_KEY_LENGTH"
    and "lib_bio (en_rsa env)" and "lib_read_pem (en_rsa env) spem = Some ks"
    and "\<And>x. length (en_sha1 env x) = 20"
    and "\<And>k d. en_rc4 env k (en_rc4 env k d) = d \<and> length (en_rc4 env k d) = length d"
    and "length ts = 8" and "length key = 16" and "length md5 = 32"
    and "en_handler env = Some check" and "\<not> check md5" and "3 * length z < 2 ^ 32" and "\<not> ca_undefined c"
    and "\<And>rest. gz_decompress (en_inflate env) (en_stream env) (en_inflate_end env) (z @ rest) (length z) (3 * length z)
        = Some (Gz_Data script)"
  shows "\<exists>c1 c2 c3 e1 d1 s2 e2 e3 e4.
      ca_react env eCAState_RcvPubKey c (ca_message CA_CLIENT_PUBLIC_KEY spem t1)
        = (ca_id eCAState_SendSignature, c1, Some (to_cells (ca_header (kCAHeaderLen + 128) CLIENT_CA_SIGNATURE @ e1)))
    \<and> rsa_decrypt (en_rsa env) (Some ks) e1 = Some d1
    \<and> check_signature (en_sha1 env) d1 (client_public_key c) = Some True
    \<and> create_signature (en_sha1 env) server_tick spem = Some (Some s2)
    \<and> rsa_encrypt (en_rsa env) (Some kc) (signature_bytes s2) = Some e2
    \<and> ca_react env eCAState_RcvSignature c1 (ca_message CA_CLIENT_SIGNATURE e2 t2)
        = (ca_id eCAState_RequestShareKey, c1,
           Some (to_cells (ca_header (kCAHeaderLen + 128) CLIENT_REQUEST_ENCRYPT_KEY_WITH_STR @ e3)))
    \<and> rsa_decrypt (en_rsa env) (Some ks) e3 = Some DRM_LUA_NAME
    \<and> rsa_encrypt (en_rsa env) (Some kc) (ts @ key @ md5) = Some e4
    \<and> ca_react env eCAState_RcvShareKey c1 (ca_message CA_REPLY_ENCRYPT_MD5 e4 t3)
        = (ca_id eCAState_RequestLua, c2, Some (to_cells (ca_header kCAHeaderLen CLIENT_REQUEST_LUA)))
    \<and> ca_react env eCAState_RcvLua c2
          (ca_big_message CA_REPLY_ENCRYPT_BIGLUA (en_rc4 env key (net_bytes 4 (length z) @ z)) t4)
        = (kFinishedState, c3, None)
    \<and> ca_told c3 = ca_told c @ [Asked_Md5 md5,
        Told_Data kBeeErrorCode_Success Ec_Ok script md5 key (ntohll (le_u64 ts))]
    \<and> \<not> ca_undefined c3"
proof -
  obtain s1 e1 where r1: "ca_react env eCAState_RcvPubKey c (ca_message CA_CLIENT_PUBLIC_KEY spem t1)
      = (ca_id eCAState_SendSignature, c\<lparr>server_public_key := spem, server_rsa := Some ks, signature := s1\<rparr>,
         Some (to_cells (ca_header (kCAHeaderLen + 128) CLIENT_CA_SIGNATURE @ e1)))"
    "rsa_decrypt (en_rsa env) (Some ks) e1 = Some (signature_bytes s1)"
    "check_signature (en_sha1 env) (signature_bytes s1) (client_public_key c) = Some True"
    using react_pub_key [OF assms(2,6,7,5,4,8), of t1] by blast
  define c1 where "c1 = c\<lparr>server_public_key := spem, server_rsa := Some ks, signature := s1\<rparr>"
  have c1: "client_rsa c1 = Some kc" "server_rsa c1 = Some ks" "server_public_key c1 = spem"
    "ca_told c1 = ca_told c" "\<not> ca_undefined c1" using assms(3,16) by (simp_all add: c1_def)
  obtain s2 e2 e3 where r2: "create_signature (en_sha1 env) server_tick spem = Some (Some s2)"
    "rsa_encrypt (en_rsa env) (Some kc) (signature_bytes s2) = Some e2"
    "ca_react env eCAState_RcvSignature c1 (ca_message CA_CLIENT_SIGNATURE e2 t2)
      = (ca_id eCAState_RequestShareKey, c1,
         Some (to_cells (ca_header (kCAHeaderLen + 128) CLIENT_REQUEST_ENCRYPT_KEY_WITH_STR @ e3)))"
    "rsa_decrypt (en_rsa env) (Some ks) e3 = Some DRM_LUA_NAME"
    using react_signature [OF assms(1,2) c1(1,2) _ assms(8), of server_tick t2] c1(3) assms(5) by auto
  define c2 where "c2 = c1\<lparr>cm_gslb_ts := ntohll (le_u64 ts), cm_gslb_key := key, cm_lua_md5 := md5,
    ca_told := ca_told c1 @ [Asked_Md5 md5]\<rparr>"
  have c2: "cm_gslb_key c2 = key" "cm_lua_md5 c2 = md5" "cm_gslb_ts c2 = ntohll (le_u64 ts)"
    "ca_told c2 = ca_told c @ [Asked_Md5 md5]" "\<not> ca_undefined c2" using c1(4,5) by (simp_all add: c2_def)
  obtain e4 where r3: "rsa_encrypt (en_rsa env) (Some kc) (ts @ key @ md5) = Some e4"
    "ca_react env eCAState_RcvShareKey c1 (ca_message CA_REPLY_ENCRYPT_MD5 e4 t3)
      = (ca_id eCAState_RequestLua, c2, Some (to_cells (ca_header kCAHeaderLen CLIENT_REQUEST_LUA)))"
    unfolding c2_def using react_share_key [OF assms(1) c1(1) assms(10-14), of t3] by blast
  have "length z + 13 < 2 ^ 32" using assms(15) by simp
  from react_lua [OF assms(9,13,15) this assms(17), of c2 t4] c2
  have r4: "ca_react env eCAState_RcvLua c2
          (ca_big_message CA_REPLY_ENCRYPT_BIGLUA (en_rc4 env key (net_bytes 4 (length z) @ z)) t4)
      = (kFinishedState, c2\<lparr>cm_lua := script, ca_told := ca_told c @ [Asked_Md5 md5,
          Told_Data kBeeErrorCode_Success Ec_Ok script md5 key (ntohll (le_u64 ts))]\<rparr>, None)" by simp
  show ?thesis
    by (intro exI conjI, rule r1(1) [folded c1_def], rule r1(2), rule r1(3), rule r2(1), rule r2(2), rule r2(3),
        rule r2(4), rule r3(1), rule r3(2), rule r4) (simp_all add: c2(5))
qed

section \<open>Instances\<close>

text \<open>A toy RSA: length, text, padding. The same key on both sides.\<close>

definition demo_rsa :: "unit rsa_lib" where
  "demo_rsa = \<lparr>lib_new_key = Some ((), replicate 272 65), lib_bio = True, lib_read_pem = (\<lambda>_. Some ()),
     lib_rsa_size = (\<lambda>_. 128),
     lib_public_encrypt = (\<lambda>_ d. Some (of_nat (length d) # d @ replicate (127 - length d) 0)),
     lib_private_decrypt = (\<lambda>_ e. Some (take (unat (hd e)) (tl e)))\<rparr>"

lemma demo_rsa_inverts: "rsa_inverts demo_rsa ()"
proof -
  have "unat (of_nat (length d) :: byte) = length d" if "length d \<le> 117" for d :: "byte list"
    using that by (simp add: unat_of_nat)
  then show ?thesis by (auto simp: rsa_inverts_def demo_rsa_def)
qed

definition demo_ca_env :: "(unit, unit, nat) ca_env" where
  "demo_ca_env = \<lparr>en_rsa = demo_rsa, en_sha1 = (\<lambda>x. take 20 (x @ replicate 20 0)), en_rc4 = (\<lambda>k d. d),
     en_inflate = inflate_copy, en_stream = Some (), en_inflate_end = (\<lambda>_. True), en_tick = 1,
     en_endpoint = (\<lambda>ip port. length ip), en_handler = Some (\<lambda>md5. False)\<rparr>"

definition demo_ca_members :: "unit ca_members" where
  "demo_ca_members = (CAClient_new False 0)\<lparr>client_rsa := Some (), client_public_key := replicate 272 65\<rparr>"

text \<open>A stored script: the inflater stops by itself behind it only when the loop does.\<close>

lemma demo_unpacks:
  "gz_decompress inflate_copy (Some ()) (\<lambda>_. True) (z @ rest) (length z) (3 * length z) = Some (Gz_Data z)"
  using gz_loop_copy [of z "[]" "3 * length z" 0 "length z" rest] by (simp add: gz_decompress_def)

theorem ca_honest_exchange_witness:
  "\<exists>c2 c3. ca_react demo_ca_env eCAState_RcvLua c2 (ca_big_message CA_REPLY_ENCRYPT_BIGLUA (net_bytes 4 3 @ [1, 2, 3]) [])
      = (kFinishedState, c3, None)
    \<and> ca_told c3 = [Asked_Md5 (replicate 32 9), Told_Data kBeeErrorCode_Success Ec_Ok [1, 2, 3] (replicate 32 9)
        (replicate 16 8) (ntohll (le_u64 (replicate 8 7)))]"
proof -
  have "rsa_inverts (en_rsa demo_ca_env) ()" "client_rsa demo_ca_members = Some ()"
    "length (client_public_key demo_ca_members) = PUBLIC_KEY_LENGTH" "ca_told demo_ca_members = []"
    "\<not> ca_undefined demo_ca_members" "lib_bio (en_rsa demo_ca_env)" "lib_read_pem (en_rsa demo_ca_env) x = Some ()"
    "length (en_sha1 demo_ca_env y) = 20" "en_rc4 demo_ca_env k d = d"
    "en_handler demo_ca_env = Some (\<lambda>md5. False)"
    "gz_decompress (en_inflate demo_ca_env) (en_stream demo_ca_env) (en_inflate_end demo_ca_env) (z @ rest)
      (length z) (3 * length z) = Some (Gz_Data z)" for x y k d z rest
    using demo_rsa_inverts demo_unpacks
    by (simp_all add: demo_ca_env_def demo_rsa_def demo_ca_members_def CAClient_new_def PUBLIC_KEY_LENGTH_def)
  note d = this
  have l: "length (replicate 272 (66 :: byte)) = PUBLIC_KEY_LENGTH" "length (replicate 8 (7 :: byte)) = 8"
    "length (replicate 16 (8 :: byte)) = 16" "length (replicate 32 (9 :: byte)) = 32"
    "3 * length [1, 2, 3 :: byte] < 2 ^ 32" by (simp_all add: PUBLIC_KEY_LENGTH_def)
  have nf: "\<not> (\<lambda>md5. False) (replicate 32 (9 :: byte))" by simp
  have rc4: "en_rc4 demo_ca_env k (en_rc4 demo_ca_env k x) = x \<and> length (en_rc4 demo_ca_env k x) = length x" for k x
    by (simp add: d(9))
  obtain c2 c3 where "ca_react demo_ca_env eCAState_RcvLua c2 (ca_big_message CA_REPLY_ENCRYPT_BIGLUA
        (en_rc4 demo_ca_env (replicate 16 8) (net_bytes 4 (length [1, 2, 3 :: byte]) @ [1, 2, 3])) []) = (kFinishedState, c3, None)"
    "ca_told c3 = ca_told demo_ca_members @ [Asked_Md5 (replicate 32 9), Told_Data kBeeErrorCode_Success Ec_Ok [1, 2, 3]
        (replicate 32 9) (replicate 16 8) (ntohll (le_u64 (replicate 8 7)))]"
    using ca_honest_exchange [OF d(1) d(1) d(2) d(3) l(1) d(6) d(7) d(8) rc4 l(2-4) d(10) nf
        l(5) d(5) d(11)] by blast
  then show ?thesis by (intro exI [of _ c2] exI [of _ c3]) (simp add: d(4,9) eval_nat_numeral)
qed

text \<open>A machine whose resolve state has reported a failed look-up.\<close>

theorem ca_handler_answered_witness:
  "\<exists>ptr m ret m'. phase_machine (ca_spec demo_ca_env) ca_in_ok ca_out_ok (\<lambda>_. True) ptr m
    \<and> state_done_ec kBeeErrorCode_Read_Fail Ec_Ok (ptr eCAState_RcvPubKey) m = Some (ret, m')"
proof -
  obtain m ptr where m: "phase_machine (ca_spec demo_ca_env) ca_in_ok ca_out_ok (\<lambda>_. True) ptr m"
    "members m = demo_ca_members"
    using ca.graph_built [of demo_ca_env demo_ca_members] by blast
  let ?ev = "(StateEvent_new (Tlv_Output None))\<lparr>ev_setup := True\<rparr>"
  let ?m = "set_output_event (ptr eCAState_RcvPubKey) ?ev m"
  have w: "phase_machine (ca_spec demo_ca_env) ca_in_ok ca_out_ok (\<lambda>_. True) ptr ?m"
    by (rule phase_machine_output [OF m(1)]) (simp add: StateEvent_new_def)
  have "st_output (fsm_heap ?m (ptr eCAState_RcvPubKey)) = Some ?ev" "ev_setup ?ev"
    "en_handler demo_ca_env = Some (\<lambda>md5. False)" "client_public_key (members ?m) \<noteq> []"
    "\<And>k. lib_new_key (en_rsa demo_ca_env) \<noteq> Some (k, [])"
    using m(2) by (simp_all add: demo_ca_env_def demo_rsa_def demo_ca_members_def)
  from ca_handler_answered [OF w this(1,3) _ this(4,5), of kBeeErrorCode_Read_Fail Ec_Ok] w
  show ?thesis by blast
qed

theorem ca_backup_tries_one_witness:
  "\<exists>st. connect_execute True True (backup_endpoints demo_ca_env) 0 (- 1) TcpConnectState_new
      = Some (kBeeErrorCode_Success, [Start_Connect (backup_endpoints demo_ca_env ! 0) 0], st)"
proof -
  let ?ev = "(StateEvent_new (Resolve_Output []))\<lparr>ev_ec1 := kBeeErrorCode_Resolve_Fail\<rparr>"
  have "ev_failed ?ev" "ev_extra ?ev = Resolve_Output []"
    "ev_extra (StateEvent_new (Connect_Input [] 0 0)) = Connect_Input [] 0 0"
    "last_connected_backup_ca_index demo_ca_members = int 0" "0 < length kBackupCAIps" "connect_timeout demo_ca_members = - 1"
    by (simp_all add: ev_failed_def StateEvent_new_def demo_ca_members_def CAClient_new_def kBackupCAIps_def)
  from ca_backup_tries_one [OF this(1-5), of demo_ca_env] this(6)
    connect_execute_starts [of 0 "backup_endpoints demo_ca_env" "- 1" TcpConnectState_new] \<open>0 < length kBackupCAIps\<close>
  show ?thesis by (auto simp: backup_endpoints_def)
qed

end
