(* ===== verification/Bee_Statusd.thy ===== *)
theory Bee_Statusd
  imports Bee_Tcp_States Bee_Flow Bee_Timer
begin

text \<open>
  The client of the status server (src/server/statusd/statusd_client.cpp, statusd_client.h and
  statusd_def.h): a TCP machine of three states that logs in, and afterwards the packets it writes.

  The members keep the writes handed to asio (\<open>sd_writes\<close>) and what the handler behind the weak
  pointer \<open>handler_\<close> was told (\<open>sd_told\<close>); \<open>alive\<close> says whether that pointer still leads to one. A tick
  count is an argument. A cancelled timer's last handler is silent, so only the current one is kept.
  \<open>None\<close> is a write behind a packet or through a socket that is gone; \<open>sd_undefined\<close> is set where that
  happens in a router or a transform.

  Shown: how a run logs in, that packets are read back as they were meant, that they leave in the order
  the calls ask for, and what becomes of them after an error.
\<close>

section \<open>Protocol\<close>

datatype StatusdState = eStatusdState_Resolve | eStatusdState_Connect | eStatusdState_Login

fun statusd_id :: "StatusdState \<Rightarrow> int" where
  "statusd_id eStatusdState_Resolve = 0"
| "statusd_id eStatusdState_Connect = 1"
| "statusd_id eStatusdState_Login = 2"

definition LIVE_MARK :: nat where "LIVE_MARK = 0x32505553"
definition STATUSD_LOGIN :: nat where "STATUSD_LOGIN = 0xA00"
definition STATUSD_RESET_SID :: nat where "STATUSD_RESET_SID = 0xA01"
definition STATUSD_REPORT_LOG :: nat where "STATUSD_REPORT_LOG = 0xA02"
definition STATUSD_LOG_TYPE :: nat where "STATUSD_LOG_TYPE = 0x2710"

definition kStatusdHeaderLen :: nat where "kStatusdHeaderLen = 10"
definition kPkgAppLoginLen :: nat where "kPkgAppLoginLen = kStatusdHeaderLen + 256 + 256"
definition kPkgResetSIDLen :: nat where "kPkgResetSIDLen = kStatusdHeaderLen + 256"
definition kPkgAppLogLen :: nat where "kPkgAppLogLen = kStatusdHeaderLen + 4 + 8"

definition kStatusHost :: string where "kStatusHost = ''106.120.154.76''"
definition kStatusPort :: string where "kStatusPort = ''8080''"
definition kStatusdConnectTimeout :: int where "kStatusdConnectTimeout = 5000"
definition kStatusHeartbeatInterval :: int where "kStatusHeartbeatInterval = 30000"

text \<open>Numbers as the host keeps them, least significant byte first.\<close>

definition host_bytes :: "nat \<Rightarrow> nat \<Rightarrow> string" where
  "host_bytes k n = map (\<lambda>i. char_of (n div 256 ^ i)) [0..<k]"

text \<open>\<open>SETUP_PROTOCOL_HEADER\<close>, packed.\<close>

definition pkg_header :: "nat \<Rightarrow> nat \<Rightarrow> string" where
  "pkg_header len code = host_bytes 4 len @ host_bytes 4 LIVE_MARK @ host_bytes 2 code"

section \<open>State\<close>

datatype StatusdLogLevel =
    eStatusdLogLevel_Debug | eStatusdLogLevel_Trace | eStatusdLogLevel_Error | eStatusdLogLevel_Close

definition statusd_level :: "int \<Rightarrow> StatusdLogLevel option" where
  "statusd_level n =
     (if n = 0 then Some eStatusdLogLevel_Debug else if n = 1 then Some eStatusdLogLevel_Trace
      else if n = 2 then Some eStatusdLogLevel_Error else if n = 3 then Some eStatusdLogLevel_Close
      else None)"

record statusd_members =
  sd_tcp :: tcp_members
  logined :: bool
  sd_uid :: string
  sd_sid :: string
  time_base :: u64
  start_time :: u64
  sync_sid_pending :: bool
  sd_log_level :: StatusdLogLevel
  heartbeat_timer :: "AsyncWaitTimer option"
  sd_writes :: "char option list list"
  sd_told :: "(BeeErrorCode \<times> error_code) list"
  sd_undefined :: bool

type_synonym 'ep statusd_machine = "(statusd_members, 'ep tcp_extra) AsyncStateMachine"
type_synonym 'ep statusd_router = "(statusd_members, 'ep tcp_extra) router"
type_synonym 'ep statusd_transform = "(statusd_members, 'ep tcp_extra) transform"

definition StatusdClient_new :: "bool \<Rightarrow> u64 \<Rightarrow> statusd_members" where
  "StatusdClient_new loaded now = \<lparr>sd_tcp = TcpStateMachine_new loaded, logined = False, sd_uid = [],
     sd_sid = [], time_base = 0, start_time = now, sync_sid_pending = False,
     sd_log_level = eStatusdLogLevel_Debug, heartbeat_timer = None, sd_writes = [], sd_told = [],
     sd_undefined = False\<rparr>"

section \<open>Packets\<close>

text \<open>\<open>memcpy\<close> does not look at the size of the field; what goes past the packet is undefined.\<close>

definition login_packet :: "string \<Rightarrow> string \<Rightarrow> char option list option" where
  "login_packet uid sid =
     do {
       p \<leftarrow> store_at (map Some (pkg_header kPkgAppLoginLen STATUSD_LOGIN) @ replicate 512 (Some (CHR 0x00)))
              kStatusdHeaderLen (map Some uid);
       store_at p (kStatusdHeaderLen + 256) (map Some sid)
     }"

definition reset_sid_packet :: "string \<Rightarrow> char option list option" where
  "reset_sid_packet sid =
     store_at (map Some (pkg_header kPkgResetSIDLen STATUSD_RESET_SID) @ replicate 256 (Some (CHR 0x00)))
       kStatusdHeaderLen (map Some sid)"

text \<open>The length is computed in 32 bits; the message ends at its first NUL.\<close>

definition log_packet :: "u64 \<Rightarrow> string \<Rightarrow> char option list option" where
  "log_packet relative_time log =
     (let msg = takeWhile (\<lambda>c. c \<noteq> CHR 0x00) log;
          len = (kPkgAppLogLen + length msg + 1) mod 2 ^ 32
      in do {
           p \<leftarrow> store_at (replicate len (Some (CHR 0x00))) 0
                  (map Some (pkg_header len STATUSD_REPORT_LOG @ host_bytes 4 STATUSD_LOG_TYPE
                             @ host_bytes 8 (unat relative_time)));
           store_at p kPkgAppLogLen (map Some (msg @ [CHR 0x00]))
         })"

section \<open>Writing\<close>

definition statusd_write :: "char option list \<Rightarrow> statusd_members \<Rightarrow> statusd_members option" where
  "statusd_write packet c =
     (case async_write (IOBuffer_of_bytes packet) (sd_tcp c) of
        None \<Rightarrow> None
      | Some (started, t) \<Rightarrow>
          Some (c\<lparr>sd_tcp := t,
            sd_writes := sd_writes c @ (case started of None \<Rightarrow> [] | Some w \<Rightarrow> [w])\<rparr>))"

definition sync_sid :: "statusd_members \<Rightarrow> statusd_members option" where
  "sync_sid c = do { p \<leftarrow> reset_sid_packet (sd_sid c); statusd_write p c }"

definition inner_set_sid :: "string \<Rightarrow> bool \<Rightarrow> statusd_members \<Rightarrow> statusd_members option" where
  "inner_set_sid sid sync c =
     (if sid = sd_sid c then Some c
      else
        (let c1 = c\<lparr>sd_sid := sid\<rparr>
         in if \<not> logined c1 \<and> sync then Some (c1\<lparr>sync_sid_pending := True\<rparr>)
            else if \<not> sync then Some c1
            else sync_sid c1))"

definition inner_configure_log :: "int \<Rightarrow> u64 \<Rightarrow> statusd_members \<Rightarrow> statusd_members" where
  "inner_configure_log level tb c =
     (case statusd_level level of None \<Rightarrow> c | Some l \<Rightarrow> c\<lparr>sd_log_level := l\<rparr>)\<lparr>time_base := tb\<rparr>"

definition inner_write_log :: "u64 \<Rightarrow> string \<Rightarrow> statusd_members \<Rightarrow> statusd_members option" where
  "inner_write_log now log c =
     do { p \<leftarrow> log_packet (time_base c + (now - start_time c)) log; statusd_write p c }"

definition handle_error ::
    "bool \<Rightarrow> BeeErrorCode \<Rightarrow> error_code \<Rightarrow> statusd_members \<Rightarrow> statusd_members" where
  "handle_error alive ec1 ec2 c =
     (let c1 = c\<lparr>logined := False\<rparr>
      in if alive then c1\<lparr>sd_told := sd_told c1 @ [(ec1, ec2)]\<rparr> else c1)"

definition handle_write :: "bool \<Rightarrow> error_code \<Rightarrow> nat \<Rightarrow> statusd_members \<Rightarrow> statusd_members option" where
  "handle_write alive ec2 bytes_transferred c =
     (if ec_set ec2 then Some (handle_error alive kBeeErrorCode_Write_Fail ec2 c)
      else case check_send_buffer bytes_transferred (sd_tcp c) of
          None \<Rightarrow> None
        | Some (again, t) \<Rightarrow>
            (let c1 = c\<lparr>sd_tcp := t\<rparr>
             in if \<not> again then Some c1
                else case async_write (IOBuffer_new 0) t of
                    None \<Rightarrow> None
                  | Some (started, t1) \<Rightarrow>
                      Some (c1\<lparr>sd_tcp := t1,
                        sd_writes := sd_writes c1 @ (case started of None \<Rightarrow> [] | Some w \<Rightarrow> [w])\<rparr>)))"

definition start_heartbeat_timer :: "statusd_members \<Rightarrow> statusd_members" where
  "start_heartbeat_timer c =
     c\<lparr>heartbeat_timer := Some (timer_async_wait (set_immediately False (set_wait_times (- 1)
         (set_wait_millseconds kStatusHeartbeatInterval AsyncWaitTimer_create))))\<rparr>"

definition handle_heartbeat_timeout :: "u64 \<Rightarrow> statusd_members \<Rightarrow> statusd_members option" where
  "handle_heartbeat_timeout now = inner_write_log now ''heartbeat''"

section \<open>The API\<close>

text \<open>What a call posts to the event loop, with its answer.\<close>

datatype statusd_post =
    Inner_Connect string
  | Inner_Set_Sid string bool
  | Inner_Configure_Log int u64
  | Inner_Write_Log string

definition statusd_connect :: "string \<Rightarrow> 'ep statusd_machine \<Rightarrow> BeeErrorCode \<times> statusd_post list" where
  "statusd_connect uid m =
     (if \<not> fsm_ios m then (kBeeErrorCode_Service_Not_Started, [])
      else (kBeeErrorCode_Success, [Inner_Connect uid]))"

definition set_sid :: "string \<Rightarrow> bool \<Rightarrow> 'ep statusd_machine \<Rightarrow> BeeErrorCode \<times> statusd_post list" where
  "set_sid sid sync m =
     (if \<not> fsm_ios m then (kBeeErrorCode_Service_Not_Started, [])
      else (kBeeErrorCode_Success, [Inner_Set_Sid sid sync]))"

definition configure_log :: "int \<Rightarrow> u64 \<Rightarrow> 'ep statusd_machine \<Rightarrow> BeeErrorCode \<times> statusd_post list" where
  "configure_log level tb m =
     (if \<not> fsm_ios m then (kBeeErrorCode_Service_Not_Started, [])
      else (kBeeErrorCode_Success, [Inner_Configure_Log level tb]))"

definition write_log :: "string \<Rightarrow> 'ep statusd_machine \<Rightarrow> BeeErrorCode \<times> statusd_post list" where
  "write_log log m =
     (if \<not> fsm_ios m then (kBeeErrorCode_Service_Not_Started, [])
      else if \<not> logined (members m) then (kBeeErrorCode_Invalid_State, [])
      else (kBeeErrorCode_Success, [Inner_Write_Log log]))"

definition statusd_stop :: "'ep statusd_machine \<Rightarrow> 'ep statusd_machine" where
  "statusd_stop m =
     tcp_stop sd_tcp (\<lambda>t c. c\<lparr>sd_tcp := t\<rparr>) (m\<lparr>members := (members m)\<lparr>heartbeat_timer := None\<rparr>\<rparr>)"

section \<open>The machine\<close>

definition statusd_failed :: "'x state_event \<Rightarrow> bool" where
  "statusd_failed ev \<longleftrightarrow> ev_ec1 ev \<noteq> kBeeErrorCode_Success \<or> ec_set (ev_ec2 ev)"

definition statusd_handle_Resolve :: "'ep statusd_router" where
  "statusd_handle_Resolve c ev =
     (if statusd_failed ev then (kInvalidState, ev, c) else (statusd_id eStatusdState_Connect, ev, c))"

definition handle_Connect :: "'ep statusd_router" where
  "handle_Connect c ev =
     (if statusd_failed ev then (kInvalidState, ev, c) else (statusd_id eStatusdState_Login, ev, c))"

definition handle_Login :: "'ep statusd_router" where
  "handle_Login c ev =
     (if statusd_failed ev then (kInvalidState, ev, c)
      else
        (let c1 = c\<lparr>logined := True\<rparr>
         in case (if sync_sid_pending c1
                  then map_option (\<lambda>c2. c2\<lparr>sync_sid_pending := False\<rparr>) (sync_sid c1) else Some c1) of
              None \<Rightarrow> (kFinishedState, ev, c1\<lparr>sd_undefined := True\<rparr>)
            | Some c2 \<Rightarrow> (kFinishedState, ev, start_heartbeat_timer c2)))"

definition transform_Resolve_To_Connect :: "'ep statusd_transform" where
  "transform_Resolve_To_Connect c inp out =
     (case (ev_extra inp, ev_extra out) of
        (Resolve_Output eps, Connect_Input _ start_index _) \<Rightarrow>
          if eps = [] then (False, inp, out, c)
          else (True, inp,
            out\<lparr>ev_extra := Connect_Input eps start_index kStatusdConnectTimeout, ev_setup := True\<rparr>, c)
      | _ \<Rightarrow> (False, inp, out, c\<lparr>sd_undefined := True\<rparr>))"

definition transform_Connect_To_Login :: "'ep statusd_transform" where
  "transform_Connect_To_Login c inp out =
     (if sd_uid c = [] then (False, inp, out, c)
      else case login_packet (sd_uid c) (sd_sid c) of
          None \<Rightarrow> (False, inp, out, c\<lparr>sd_undefined := True\<rparr>)
        | Some p \<Rightarrow>
            (True, inp, out\<lparr>ev_data := (IOBuffer_new kPkgAppLoginLen)\<lparr>cells := p\<rparr>, ev_setup := True\<rparr>, c))"

definition statusd_spec :: "StatusdState \<Rightarrow> (statusd_members, 'ep tcp_extra) state_spec" where
  "statusd_spec ph =
     (case ph of
        eStatusdState_Resolve \<Rightarrow> \<lparr>sp_id = statusd_id eStatusdState_Resolve, sp_type = kTcpStateType_Resolve,
          sp_router = statusd_handle_Resolve, sp_activate = True, sp_input = Resolve_Input [] [],
          sp_output = Resolve_Output [],
          sp_switches = [(statusd_id eStatusdState_Connect, transform_Resolve_To_Connect)]\<rparr>
      | eStatusdState_Connect \<Rightarrow> \<lparr>sp_id = statusd_id eStatusdState_Connect, sp_type = kTcpStateType_Connect,
          sp_router = handle_Connect, sp_activate = False,
          sp_input = Connect_Input [] 0 kDefaultTcpConnectTimeout, sp_output = Connect_Output None (- 1),
          sp_switches = [(statusd_id eStatusdState_Login, transform_Connect_To_Login)]\<rparr>
      | eStatusdState_Login \<Rightarrow> \<lparr>sp_id = statusd_id eStatusdState_Login, sp_type = kTcpStateType_Send,
          sp_router = handle_Login, sp_activate = False, sp_input = Plain_Event, sp_output = Send_Output 0,
          sp_switches = []\<rparr>)"

definition statusd_states :: "StatusdState list" where
  "statusd_states = [eStatusdState_Resolve, eStatusdState_Connect, eStatusdState_Login]"

definition statusd_output :: "bool \<Rightarrow> 'ep tcp_extra state_event \<Rightarrow> statusd_members \<Rightarrow> statusd_members" where
  "statusd_output alive ev c =
     (if (ev_ec1 ev \<noteq> kBeeErrorCode_Success \<and> ev_ec1 ev \<noteq> kBeeErrorCode_State_Machine_Finished)
         \<or> ec_set (ev_ec2 ev)
      then handle_error alive (ev_ec1 ev) (ev_ec2 ev) c else c)"

definition inner_connect :: "bool \<Rightarrow> string \<Rightarrow> 'ep statusd_machine \<Rightarrow> 'ep statusd_machine" where
  "inner_connect verify_ok uid m =
     snd (tcp_start sd_tcp (\<lambda>t c. c\<lparr>sd_tcp := t\<rparr>) (map statusd_spec statusd_states) verify_ok
            kStatusHost kStatusPort (m\<lparr>members := (members m)\<lparr>sd_uid := uid\<rparr>\<rparr>))"

section \<open>Packets are read back\<close>

definition host_number :: "string \<Rightarrow> nat" where
  "host_number cs = foldr (\<lambda>c n. of_char c + 256 * n) cs 0"

definition pkg_field :: "nat \<Rightarrow> nat \<Rightarrow> char option list \<Rightarrow> string" where
  "pkg_field i n p = map the (take n (drop i p))"

definition c_string :: "string \<Rightarrow> string" where
  "c_string cs = takeWhile (\<lambda>c. c \<noteq> CHR 0x00) cs"

text \<open>A packet as the server expects it: every byte set, its own length, the mark and the code.\<close>

definition packet_ok :: "nat \<Rightarrow> char option list \<Rightarrow> bool" where
  "packet_ok code p \<longleftrightarrow> None \<notin> set p \<and> host_number (pkg_field 0 4 p) = length p
     \<and> host_number (pkg_field 4 4 p) = LIVE_MARK \<and> host_number (pkg_field 8 2 p) = code"

lemma length_host_bytes [simp]: "length (host_bytes k n) = k"
  by (simp add: host_bytes_def)

lemma host_bytes_Suc: "host_bytes (Suc k) n = char_of n # host_bytes k (n div 256)"
proof -
  have "map (\<lambda>i. char_of (n div 256 ^ i)) [0..<Suc k]
      = char_of (n div 256 ^ 0) # map (\<lambda>i. char_of (n div 256 ^ Suc i)) [0..<k]"
    by (subst upt_conv_Cons) (simp_all add: map_Suc_upt [symmetric] comp_def del: upt_Suc)
  then show ?thesis by (simp add: host_bytes_def div_mult2_eq)
qed

lemma host_number_mod: "host_number (host_bytes k n) = n mod 256 ^ k"
proof (induction k arbitrary: n)
  case 0
  then show ?case by (simp add: host_number_def host_bytes_def)
next
  case (Suc k)
  have "host_number (host_bytes (Suc k) n) = n mod 256 + 256 * host_number (host_bytes k (n div 256))"
    by (simp add: host_bytes_Suc host_number_def)
  with Suc [of "n div 256"] show ?case by (simp add: mod_mult2_eq)
qed

lemma host_number_bytes [simp]: "n < 256 ^ k \<Longrightarrow> host_number (host_bytes k n) = n"
  by (simp add: host_number_mod)

lemma length_pkg_header [simp]: "length (pkg_header len code) = 10"
  by (simp add: pkg_header_def)

lemma pkg_header_not_Nil [simp]: "pkg_header len code \<noteq> []"
proof
  assume "pkg_header len code = []"
  then have "length (pkg_header len code) = 0" by simp
  then show False by simp
qed

definition nul_padded :: "nat \<Rightarrow> string \<Rightarrow> string" where
  "nul_padded n s = s @ replicate (n - length s) (CHR 0x00)"

lemma c_string_padded: "CHR 0x00 \<notin> set s \<Longrightarrow> c_string (nul_padded n s) = s"
  by (auto simp: c_string_def nul_padded_def takeWhile_append)

lemma length_nul_padded [simp]: "length s \<le> n \<Longrightarrow> length (nul_padded n s) = n"
  by (simp add: nul_padded_def)

lemma store_at_field:
  assumes "length pre = i" and "length s \<le> n" and "0 < n"
  shows "store_at (map Some (pre @ replicate n (CHR 0x00) @ post)) i (map Some s)
    = Some (map Some (pre @ nul_padded n s @ post))"
  using assms by (auto simp: store_at_def nul_padded_def)

lemma login_packet_form:
  assumes "length uid \<le> 256" and "length sid \<le> 256"
  shows "login_packet uid sid
    = Some (map Some (pkg_header kPkgAppLoginLen STATUSD_LOGIN @ nul_padded 256 uid @ nul_padded 256 sid))"
proof -
  let ?h = "pkg_header kPkgAppLoginLen STATUSD_LOGIN" and ?z = "replicate 256 (CHR 0x00)"
  have "replicate 512 (CHR 0x00) = ?z @ ?z" by (simp add: replicate_add [symmetric])
  then have m: "map Some ?h @ replicate 512 (Some (CHR 0x00)) = map Some (?h @ ?z @ ?z)"
    by (simp only: map_append map_replicate [symmetric])
  show ?thesis
    using store_at_field [of ?h kStatusdHeaderLen uid 256 ?z]
      store_at_field [of "?h @ nul_padded 256 uid" "kStatusdHeaderLen + 256" sid 256 "[]"] assms
    by (simp add: login_packet_def m kStatusdHeaderLen_def)
qed

lemma reset_sid_packet_form:
  assumes "length sid \<le> 256"
  shows "reset_sid_packet sid
    = Some (map Some (pkg_header kPkgResetSIDLen STATUSD_RESET_SID @ nul_padded 256 sid))"
  using store_at_field [of "pkg_header kPkgResetSIDLen STATUSD_RESET_SID" kStatusdHeaderLen sid 256 "[]"] assms
  by (simp add: reset_sid_packet_def kStatusdHeaderLen_def)

lemma log_packet_form:
  assumes "length log + 23 < 2 ^ 32"
  shows "log_packet t log = Some (map Some (pkg_header (kPkgAppLogLen + length (c_string log) + 1) STATUSD_REPORT_LOG
    @ host_bytes 4 STATUSD_LOG_TYPE @ host_bytes 8 (unat t) @ c_string log @ [CHR 0x00]))"
proof -
  have "length (c_string log) \<le> length log" by (simp add: c_string_def length_takeWhile_le)
  with assms have "(kPkgAppLogLen + length (c_string log) + 1) mod 2 ^ 32 = kPkgAppLogLen + length (c_string log) + 1"
    by (simp add: kPkgAppLogLen_def kStatusdHeaderLen_def)
  then show ?thesis
    by (auto simp: log_packet_def c_string_def [symmetric] store_at_def Let_def kPkgAppLogLen_def kStatusdHeaderLen_def)
qed

lemmas pkg_sizes = kPkgAppLoginLen_def kPkgResetSIDLen_def kPkgAppLogLen_def kStatusdHeaderLen_def

lemma packet_ok_header:
  assumes "len = 10 + length body" and "len < 2 ^ 32" and "code < 2 ^ 16"
  shows "packet_ok code (map Some (pkg_header len code @ body))"
  using assms by (auto simp: packet_ok_def pkg_field_def pkg_header_def take_map drop_map comp_def LIVE_MARK_def)

text \<open>
  The packets say what was meant. A login packet, a new session id and a log message have the
  length they claim, mark and code, and a server that reads their fields gets user, session, time and
  the text up to its first NUL; for ids of at most 256 characters and texts below 2^32 - 23.
\<close>

theorem statusd_packets_read:
  assumes "length uid \<le> 256" and "length sid \<le> 256" and "CHR 0x00 \<notin> set uid" and "CHR 0x00 \<notin> set sid"
    and "length log + 23 < 2 ^ 32"
  shows "\<exists>p q r. login_packet uid sid = Some p \<and> packet_ok STATUSD_LOGIN p
      \<and> c_string (pkg_field 10 256 p) = uid \<and> c_string (pkg_field 266 256 p) = sid
    \<and> reset_sid_packet sid = Some q \<and> packet_ok STATUSD_RESET_SID q \<and> c_string (pkg_field 10 256 q) = sid
    \<and> log_packet t log = Some r \<and> packet_ok STATUSD_REPORT_LOG r
      \<and> host_number (pkg_field 10 4 r) = STATUSD_LOG_TYPE \<and> host_number (pkg_field 14 8 r) = unat t
      \<and> pkg_field 22 (length r - 22) r = c_string log @ [CHR 0x00]"
proof (intro exI conjI)
  have l: "length (c_string log) \<le> length log" by (simp add: c_string_def length_takeWhile_le)
  show "login_packet uid sid
      = Some (map Some (pkg_header kPkgAppLoginLen STATUSD_LOGIN @ nul_padded 256 uid @ nul_padded 256 sid))"
    using assms(1,2) by (rule login_packet_form)
  show "packet_ok STATUSD_LOGIN
      (map Some (pkg_header kPkgAppLoginLen STATUSD_LOGIN @ nul_padded 256 uid @ nul_padded 256 sid))"
    using assms by (intro packet_ok_header) (simp_all add: pkg_sizes STATUSD_LOGIN_def)
  show "c_string (pkg_field 10 256 (map Some (pkg_header kPkgAppLoginLen STATUSD_LOGIN
      @ nul_padded 256 uid @ nul_padded 256 sid))) = uid"
    using assms by (simp add: pkg_field_def take_map drop_map comp_def c_string_padded)
  show "c_string (pkg_field 266 256 (map Some (pkg_header kPkgAppLoginLen STATUSD_LOGIN
      @ nul_padded 256 uid @ nul_padded 256 sid))) = sid"
    using assms by (simp add: pkg_field_def take_map drop_map comp_def c_string_padded)
  show "reset_sid_packet sid
      = Some (map Some (pkg_header kPkgResetSIDLen STATUSD_RESET_SID @ nul_padded 256 sid))"
    using assms(2) by (rule reset_sid_packet_form)
  show "packet_ok STATUSD_RESET_SID
      (map Some (pkg_header kPkgResetSIDLen STATUSD_RESET_SID @ nul_padded 256 sid))"
    using assms by (intro packet_ok_header) (simp_all add: pkg_sizes STATUSD_RESET_SID_def)
  show "c_string (pkg_field 10 256 (map Some (pkg_header kPkgResetSIDLen STATUSD_RESET_SID
      @ nul_padded 256 sid))) = sid"
    using assms by (simp add: pkg_field_def take_map drop_map comp_def c_string_padded)
  let ?r = "map Some (pkg_header (kPkgAppLogLen + length (c_string log) + 1) STATUSD_REPORT_LOG
    @ host_bytes 4 STATUSD_LOG_TYPE @ host_bytes 8 (unat t) @ c_string log @ [CHR 0x00])"
  show "log_packet t log = Some ?r" using assms(5) by (rule log_packet_form)
  show "packet_ok STATUSD_REPORT_LOG ?r"
    using assms(5) l by (intro packet_ok_header) (simp_all add: pkg_sizes STATUSD_REPORT_LOG_def)
  have t: "unat t < 256 ^ 8" using unsigned_less [of t] by simp
  show "host_number (pkg_field 10 4 ?r) = STATUSD_LOG_TYPE"
    by (simp add: pkg_field_def take_map drop_map comp_def STATUSD_LOG_TYPE_def)
  show "host_number (pkg_field 14 8 ?r) = unat t"
    using t by (simp add: pkg_field_def take_map drop_map comp_def)
  show "pkg_field 22 (length ?r - 22) ?r = c_string log @ [CHR 0x00]"
    by (simp add: pkg_field_def take_map drop_map comp_def)
qed

theorem statusd_packets_read_witness:
  "\<exists>p. login_packet ''bee'' ''live'' = Some p \<and> packet_ok STATUSD_LOGIN p
    \<and> c_string (pkg_field 10 256 p) = ''bee'' \<and> c_string (pkg_field 266 256 p) = ''live''"
  using statusd_packets_read [of "''bee''" "''live''" "''hi''" 0] by auto

section \<open>What is written\<close>

text \<open>
  The client after its connection is up, under the event loop: a posted call runs, the heartbeat timer
  fires, asio completes the write under way or fails it after \<open>n\<close> bytes. The configuration is the
  client, the write under way and what has reached the server.
\<close>

datatype statusd_event =
    Sid_Set string bool
  | Log_Configured int u64
  | Log_Written u64 string
  | Heartbeat u64
  | Write_Done
  | Write_Failed error_code nat

record statusd_link =
  sl_client :: statusd_members
  sl_flight :: "char option list option"
  sl_wire :: "char option list"

definition call_runs :: "statusd_members option \<Rightarrow> statusd_link \<Rightarrow> statusd_link option" where
  "call_runs r k =
     (case r of
        None \<Rightarrow> None
      | Some c \<Rightarrow> Some (k\<lparr>sl_client := c,
          sl_flight := (case drop (length (sd_writes (sl_client k))) (sd_writes c) of
              [] \<Rightarrow> sl_flight k | w # _ \<Rightarrow> Some w)\<rparr>))"

fun link_step :: "bool \<Rightarrow> statusd_event \<Rightarrow> statusd_link \<Rightarrow> statusd_link option" where
  "link_step alive (Sid_Set sid sync) k = call_runs (inner_set_sid sid sync (sl_client k)) k"
| "link_step alive (Log_Configured level tb) k = call_runs (Some (inner_configure_log level tb (sl_client k))) k"
| "link_step alive (Log_Written now log) k = call_runs (inner_write_log now log (sl_client k)) k"
| "link_step alive (Heartbeat now) k = call_runs (handle_heartbeat_timeout now (sl_client k)) k"
| "link_step alive Write_Done k =
     (case sl_flight k of
        None \<Rightarrow> Some k
      | Some w \<Rightarrow> call_runs (handle_write alive Ec_Ok (length w) (sl_client k))
          (k\<lparr>sl_flight := None, sl_wire := sl_wire k @ w\<rparr>))"
| "link_step alive (Write_Failed ec n) k =
     (case sl_flight k of
        None \<Rightarrow> Some k
      | Some w \<Rightarrow> call_runs (handle_write alive ec n (sl_client k))
          (k\<lparr>sl_flight := None, sl_wire := sl_wire k @ take n w\<rparr>))"

fun link_run :: "bool \<Rightarrow> statusd_event list \<Rightarrow> statusd_link \<Rightarrow> statusd_link option" where
  "link_run alive [] k = Some k"
| "link_run alive (e # es) k = (case link_step alive e k of None \<Rightarrow> None | Some k' \<Rightarrow> link_run alive es k')"

text \<open>
  The specification, without buffers and queues: the packets a list of events asks for, given the
  session id and the time base, and whether the client is logged in.
\<close>

fun asked_packets :: "bool \<Rightarrow> u64 \<Rightarrow> string \<Rightarrow> u64 \<Rightarrow> statusd_event list \<Rightarrow> char option list" where
  "asked_packets on st sid tb [] = []"
| "asked_packets on st sid tb (Sid_Set sid' sync # es) =
     (if on \<and> sync \<and> sid' \<noteq> sid then the (reset_sid_packet sid') else []) @ asked_packets on st sid' tb es"
| "asked_packets on st sid tb (Log_Configured level tb' # es) = asked_packets on st sid tb' es"
| "asked_packets on st sid tb (Log_Written now log # es) =
     the (log_packet (tb + (now - st)) log) @ asked_packets on st sid tb es"
| "asked_packets on st sid tb (Heartbeat now # es) =
     the (log_packet (tb + (now - st)) ''heartbeat'') @ asked_packets on st sid tb es"
| "asked_packets on st sid tb (Write_Done # es) = asked_packets on st sid tb es"
| "asked_packets on st sid tb (Write_Failed ec n # es) = asked_packets on st sid tb es"

text \<open>
  Events whose texts fit the packets. A link is \<open>stuck\<close> when a write has failed: its buffer waits with
  no write under way; then a failure cannot happen again.
\<close>

fun event_fits :: "bool \<Rightarrow> statusd_event \<Rightarrow> bool" where
  "event_fits stuck (Sid_Set sid sync) = (length sid \<le> 256)"
| "event_fits stuck (Log_Written now log) = (length log + 23 < 2 ^ 32)"
| "event_fits stuck (Write_Failed ec n) = stuck"
| "event_fits stuck _ = True"

definition link_ok :: "bool \<Rightarrow> statusd_link \<Rightarrow> bool" where
  "link_ok stuck k \<longleftrightarrow> queue_wf (sd_tcp (sl_client k))
     \<and> (let w = iob_content (cwiobuff (sd_tcp (sl_client k)))
        in sl_flight k = (if stuck \<or> w = [] then None else Some w) \<and> (stuck \<longrightarrow> w \<noteq> []))"

lemma bytes_buffer [simp]: "iob_wf (IOBuffer_of_bytes p)" "iob_content (IOBuffer_of_bytes p) = p"
  by (simp_all add: IOBuffer_of_bytes_def iob_wf_def iob_content_def)

lemma packets_written:
  assumes "length sid \<le> 256" and "length log + 23 < 2 ^ 32"
  shows "reset_sid_packet sid \<noteq> None \<and> the (reset_sid_packet sid) \<noteq> []"
    and "log_packet t log \<noteq> None \<and> the (log_packet t log) \<noteq> []"
  using assms by (simp_all add: reset_sid_packet_form log_packet_form)

text \<open>A written packet joins what is unsent; asio is handed it when nothing was under way.\<close>

lemma statusd_write_joins:
  assumes "queue_wf (sd_tcp c)" and "p \<noteq> []"
  obtains t where "statusd_write p c = Some (c\<lparr>sd_tcp := t,
        sd_writes := sd_writes c @ (if iob_content (cwiobuff (sd_tcp c)) = [] then [p] else [])\<rparr>)"
    and "queue_wf t" and "unsent t = unsent (sd_tcp c) @ p"
    and "iob_content (cwiobuff t) = (if iob_content (cwiobuff (sd_tcp c)) = [] then p else iob_content (cwiobuff (sd_tcp c)))"
  using async_write_submits [OF assms(1), of "IOBuffer_of_bytes p"] assms(2) that
  by (auto simp: statusd_write_def split: if_splits)

text \<open>
  What a step leaves of a link: these bytes have joined those on the wire or waiting, nothing has
  reached the wire of a stuck link, and the client's login, clock and reports are as before.
\<close>

definition link_adds ::
    "bool \<Rightarrow> char option list \<Rightarrow> statusd_link \<Rightarrow> statusd_link option \<Rightarrow> (statusd_members \<Rightarrow> bool) \<Rightarrow> bool" where
  "link_adds stuck p k r P \<longleftrightarrow> (\<exists>k'. r = Some k' \<and> link_ok stuck k' \<and> P (sl_client k')
     \<and> (stuck \<longrightarrow> sl_wire k' = sl_wire k)
     \<and> sl_wire k' @ unsent (sd_tcp (sl_client k')) = sl_wire k @ unsent (sd_tcp (sl_client k)) @ p
     \<and> logined (sl_client k') = logined (sl_client k) \<and> start_time (sl_client k') = start_time (sl_client k)
     \<and> sd_told (sl_client k') = sd_told (sl_client k))"

lemma call_runs_writes:
  assumes "link_ok stuck k" and "p \<noteq> []" and "sd_tcp c = sd_tcp (sl_client k)" and "sd_writes c = sd_writes (sl_client k)"
    and "logined c = logined (sl_client k)" and "start_time c = start_time (sl_client k)"
    and "sd_told c = sd_told (sl_client k)" and "\<And>t ws. P (c\<lparr>sd_tcp := t, sd_writes := ws\<rparr>)"
  shows "link_adds stuck p k (call_runs (statusd_write p c) k) P"
proof -
  have "queue_wf (sd_tcp c)" using assms(1,3) by (simp add: link_ok_def)
  from statusd_write_joins [OF this assms(2)] obtain t where
    t: "statusd_write p c = Some (c\<lparr>sd_tcp := t,
        sd_writes := sd_writes c @ (if iob_content (cwiobuff (sd_tcp c)) = [] then [p] else [])\<rparr>)"
      "queue_wf t" "unsent t = unsent (sd_tcp c) @ p"
      "iob_content (cwiobuff t) = (if iob_content (cwiobuff (sd_tcp c)) = [] then p else iob_content (cwiobuff (sd_tcp c)))" .
  with assms show ?thesis by (auto simp: link_adds_def call_runs_def link_ok_def Let_def)
qed

lemma call_runs_keeps:
  assumes "link_ok stuck k" and "sd_tcp c = sd_tcp (sl_client k)" and "sd_writes c = sd_writes (sl_client k)"
    and "logined c = logined (sl_client k)" and "start_time c = start_time (sl_client k)"
    and "sd_told c = sd_told (sl_client k)" and "P c"
  shows "link_adds stuck [] k (call_runs (Some c) k) P"
  using assms by (auto simp: link_adds_def call_runs_def link_ok_def)

lemma async_write_resumes:
  assumes "queue_wf t" and "iob_content (cwiobuff t) \<noteq> []"
  shows "async_write (IOBuffer_new 0) t = Some (Some (iob_content (cwiobuff t)), t)"
  using assms by (simp add: async_write_def start_write_ok queue_wf_def sw.empty_law)

lemma write_done_step:
  assumes "link_ok stuck k"
  shows "link_adds stuck [] k (link_step alive Write_Done k)
    (\<lambda>c. c = (sl_client k)\<lparr>sd_tcp := sd_tcp c, sd_writes := sd_writes c\<rparr>)"
proof (cases "sl_flight k")
  case None
  with assms show ?thesis by (simp add: link_adds_def)
next
  case (Some w)
  let ?t = "sd_tcp (sl_client k)"
  have q: "queue_wf ?t" and w: "iob_content (cwiobuff ?t) = w" "w \<noteq> []" "\<not> stuck"
    using assms Some by (auto simp: link_ok_def Let_def split: if_splits)
  from check_send_buffer_step [OF q] w obtain t' where
    t': "check_send_buffer (length w) ?t = Some (unsent t' \<noteq> [], t')" "queue_wf t'" "unsent ?t = w @ unsent t'"
    by auto
  show ?thesis
  proof (cases "unsent t' = []")
    case True
    then have "iob_content (cwiobuff t') = []" by (simp add: unsent_def)
    with True t' Some w(3) show ?thesis by (simp add: link_adds_def handle_write_def call_runs_def link_ok_def)
  next
    case False
    then have "iob_content (cwiobuff t') \<noteq> []" using t'(2) by (auto simp: unsent_def queue_wf_def)
    with False t' Some w(3) async_write_resumes [OF t'(2) this] show ?thesis
      by (simp add: link_adds_def handle_write_def call_runs_def link_ok_def Let_def)
  qed
qed

lemma link_addsE:
  assumes "link_adds stuck p k r P"
  obtains k' where "r = Some k'" and "link_ok stuck k'" and "P (sl_client k')" and "stuck \<longrightarrow> sl_wire k' = sl_wire k"
    and "sl_wire k' @ unsent (sd_tcp (sl_client k')) = sl_wire k @ unsent (sd_tcp (sl_client k)) @ p"
    and "logined (sl_client k') = logined (sl_client k)" and "start_time (sl_client k') = start_time (sl_client k)"
    and "sd_told (sl_client k') = sd_told (sl_client k)"
  using assms unfolding link_adds_def by blast

lemma link_adds_mono:
  "link_adds stuck p k r P \<Longrightarrow> (\<And>c. P c \<Longrightarrow> Q c) \<Longrightarrow> link_adds stuck p k r Q"
  unfolding link_adds_def by blast

text \<open>One step adds what the specification asks for at its event.\<close>

definition asked :: "statusd_link \<Rightarrow> statusd_event list \<Rightarrow> char option list" where
  "asked k es = asked_packets (logined (sl_client k)) (start_time (sl_client k)) (sd_sid (sl_client k))
     (time_base (sl_client k)) es"

lemma link_step_adds:
  assumes "link_ok stuck k" and "event_fits stuck e"
  shows "link_adds stuck (asked k [e]) k (link_step alive e k)
    (\<lambda>c. \<forall>es. asked k (e # es) = asked k [e]
      @ asked_packets (logined (sl_client k)) (start_time (sl_client k)) (sd_sid c) (time_base c) es)"
proof (cases e)
  case (Sid_Set sid sync)
  let ?c = "sl_client k"
  from assms(2) Sid_Set have sid: "length sid \<le> 256" by simp
  from packets_written(1) [OF this, of "[]"] obtain p where p: "reset_sid_packet sid = Some p" "p \<noteq> []" by auto
  consider (same) "sid = sd_sid ?c" | (later) "sid \<noteq> sd_sid ?c" "\<not> sync \<or> \<not> logined ?c"
    | (now) "sid \<noteq> sd_sid ?c" "sync" "logined ?c" by blast
  then show ?thesis
  proof cases
    case same
    with Sid_Set show ?thesis
      by (auto simp: asked_def inner_set_sid_def intro!: call_runs_keeps [OF assms(1)])
  next
    case later
    with Sid_Set show ?thesis
      by (cases sync) (auto simp: asked_def inner_set_sid_def Let_def intro!: call_runs_keeps [OF assms(1)])
  next
    case now
    with Sid_Set p show ?thesis
      by (auto simp: asked_def inner_set_sid_def sync_sid_def Let_def intro!: call_runs_writes [OF assms(1)])
  qed
next
  case (Log_Configured level tb)
  then show ?thesis
    by (auto simp: asked_def inner_configure_log_def intro!: call_runs_keeps [OF assms(1)] split: option.split)
next
  case (Log_Written now log)
  from assms(2) Log_Written packets_written(2) [of "[]" log
      "time_base (sl_client k) + (now - start_time (sl_client k))"] obtain p where
    "log_packet (time_base (sl_client k) + (now - start_time (sl_client k))) log = Some p" "p \<noteq> []" by auto
  with Log_Written show ?thesis
    by (auto simp: asked_def inner_write_log_def intro!: call_runs_writes [OF assms(1)])
next
  case (Heartbeat now)
  from packets_written(2) [of "[]" "''heartbeat''" "time_base (sl_client k) + (now - start_time (sl_client k))"]
  obtain p where
    "log_packet (time_base (sl_client k) + (now - start_time (sl_client k))) ''heartbeat'' = Some p" "p \<noteq> []" by auto
  with Heartbeat show ?thesis
    by (auto simp: asked_def handle_heartbeat_timeout_def inner_write_log_def intro!: call_runs_writes [OF assms(1)])
next
  case Write_Done
  have "link_adds stuck [] k (link_step alive Write_Done k)
      (\<lambda>c. sd_sid c = sd_sid (sl_client k) \<and> time_base c = time_base (sl_client k))"
    by (rule link_adds_mono [OF write_done_step [OF assms(1)]], drule arg_cong [where f = "\<lambda>c. (sd_sid c, time_base c)"])
      simp
  moreover have none: "asked k [Write_Done] = []" by (simp add: asked_def)
  ultimately show ?thesis unfolding Write_Done none
    by (elim link_adds_mono) (simp add: asked_def)
next
  case (Write_Failed ec n)
  with assms have "sl_flight k = None" by (simp add: link_ok_def Let_def)
  with assms(1) Write_Failed show ?thesis by (simp add: link_adds_def asked_def)
qed

lemma link_run_adds:
  assumes "link_ok stuck k" and "\<forall>e \<in> set es. event_fits stuck e"
  shows "link_adds stuck (asked k es) k (link_run alive es k) (\<lambda>_. True)"
  using assms
proof (induction es arbitrary: k)
  case Nil
  then show ?case by (simp add: link_adds_def asked_def)
next
  case (Cons e es)
  from Cons.prems(2) have "event_fits stuck e" by simp
  from link_addsE [OF link_step_adds [OF Cons.prems(1) this, of alive]] obtain k' where
    k': "link_step alive e k = Some k'" "link_ok stuck k'"
    "\<forall>es. asked k (e # es) = asked k [e]
      @ asked_packets (logined (sl_client k)) (start_time (sl_client k)) (sd_sid (sl_client k')) (time_base (sl_client k')) es"
    "stuck \<longrightarrow> sl_wire k' = sl_wire k"
    "sl_wire k' @ unsent (sd_tcp (sl_client k')) = sl_wire k @ unsent (sd_tcp (sl_client k)) @ asked k [e]"
    "logined (sl_client k') = logined (sl_client k)" "start_time (sl_client k') = start_time (sl_client k)"
    "sd_told (sl_client k') = sd_told (sl_client k)" .
  from Cons.prems(2) have "\<forall>e \<in> set es. event_fits stuck e" by simp
  from link_addsE [OF Cons.IH [OF k'(2) this]] obtain k'' where
    k'': "link_run alive es k' = Some k''" "link_ok stuck k''" "stuck \<longrightarrow> sl_wire k'' = sl_wire k'"
    "sl_wire k'' @ unsent (sd_tcp (sl_client k'')) = sl_wire k' @ unsent (sd_tcp (sl_client k')) @ asked k' es"
    "logined (sl_client k'') = logined (sl_client k')" "start_time (sl_client k'') = start_time (sl_client k')"
    "sd_told (sl_client k'') = sd_told (sl_client k')" .
  have "asked k (e # es) = asked k [e] @ asked k' es"
    by (simp only: k'(3) [rule_format, of es] asked_def [of k' es] k'(6,7))
  moreover have "sl_wire k'' @ unsent (sd_tcp (sl_client k''))
      = (sl_wire k' @ unsent (sd_tcp (sl_client k'))) @ asked k' es"
    unfolding k''(4) by simp
  then have "sl_wire k'' @ unsent (sd_tcp (sl_client k''))
      = (sl_wire k @ unsent (sd_tcp (sl_client k)) @ asked k [e]) @ asked k' es"
    unfolding k'(5) .
  moreover have "link_run alive (e # es) k = Some k''" using k'(1) k''(1) by simp
  ultimately show ?case unfolding link_adds_def using k'(4,6-8) k''(2,3,5-7) by simp
qed

text \<open>
  C12: the client sends what it is asked to, in order. From a connected client whose queue is well
  formed on, whatever calls run, heartbeats fire and writes complete: no assertion fails, and what has
  reached the server, followed by what still waits, is what was there before followed by exactly the
  packets the calls ask for. A session id that has already been set, even without telling the server,
  asks for none. When no write is under way nothing waits.
\<close>

theorem statusd_sends_what_is_asked:
  assumes "link_ok False k" and "\<forall>e \<in> set es. event_fits False e"
  shows "\<exists>k'. link_run alive es k = Some k' \<and> link_ok False k'
    \<and> sl_wire k' @ unsent (sd_tcp (sl_client k')) = sl_wire k @ unsent (sd_tcp (sl_client k))
        @ asked_packets (logined (sl_client k)) (start_time (sl_client k)) (sd_sid (sl_client k))
            (time_base (sl_client k)) es
    \<and> (sl_flight k' = None \<longrightarrow> unsent (sd_tcp (sl_client k')) = [])"
proof -
  from link_addsE [OF link_run_adds [OF assms, of alive]] obtain k' where
    k': "link_run alive es k = Some k'" "link_ok False k'"
    "sl_wire k' @ unsent (sd_tcp (sl_client k')) = sl_wire k @ unsent (sd_tcp (sl_client k)) @ asked k es" .
  have "sl_flight k' = None \<Longrightarrow> unsent (sd_tcp (sl_client k')) = []"
    using k'(2) by (auto simp: link_ok_def Let_def unsent_def queue_wf_def split: if_splits)
  with k' show ?thesis by (simp add: asked_def)
qed

text \<open>
  After a failed write nothing is sent any more. The handler is told and the client counts as logged
  out, but the packet whose write failed stays in the way: heartbeats and logs that still come are queued
  behind it for good, session ids are kept back, and no write is started, whatever happens on this
  connection.
\<close>

theorem statusd_stalls_after_failure:
  assumes "link_ok False k" and "sl_flight k = Some w" and "ec_set ec"
    and "\<forall>e \<in> set es. event_fits True e"
  shows "\<exists>k'. link_run alive (Write_Failed ec n # es) k = Some k'
    \<and> sl_wire k' = sl_wire k @ take n w \<and> sl_flight k' = None \<and> \<not> logined (sl_client k')
    \<and> unsent (sd_tcp (sl_client k')) = unsent (sd_tcp (sl_client k))
        @ asked_packets False (start_time (sl_client k)) (sd_sid (sl_client k)) (time_base (sl_client k)) es
    \<and> sd_told (sl_client k') = sd_told (sl_client k) @ (if alive then [(kBeeErrorCode_Write_Fail, ec)] else [])"
proof -
  define k1 where "k1 = k\<lparr>sl_client := handle_error alive kBeeErrorCode_Write_Fail ec (sl_client k),
    sl_flight := None, sl_wire := sl_wire k @ take n w\<rparr>"
  have step: "link_step alive (Write_Failed ec n) k = Some k1"
    using assms(2,3) by (simp add: handle_write_def call_runs_def k1_def handle_error_def Let_def)
  have c1: "logined (sl_client k1) = False" "start_time (sl_client k1) = start_time (sl_client k)"
    "sd_sid (sl_client k1) = sd_sid (sl_client k)" "time_base (sl_client k1) = time_base (sl_client k)"
    "sd_tcp (sl_client k1) = sd_tcp (sl_client k)" "sl_wire k1 = sl_wire k @ take n w"
    "sd_told (sl_client k1) = sd_told (sl_client k) @ (if alive then [(kBeeErrorCode_Write_Fail, ec)] else [])"
    by (simp_all add: k1_def handle_error_def Let_def)
  have "link_ok True k1"
    using assms(1,2) by (auto simp: link_ok_def Let_def c1(5) split: if_splits) (simp_all add: k1_def)
  from link_addsE [OF link_run_adds [OF this assms(4), of alive]] obtain k' where
    k': "link_run alive es k1 = Some k'" "link_ok True k'" "True \<longrightarrow> sl_wire k' = sl_wire k1"
    "sl_wire k' @ unsent (sd_tcp (sl_client k')) = sl_wire k1 @ unsent (sd_tcp (sl_client k1)) @ asked k1 es"
    "logined (sl_client k') = logined (sl_client k1)" "sd_told (sl_client k') = sd_told (sl_client k1)" .
  with step c1 show ?thesis by (auto simp: link_ok_def Let_def asked_def)
qed

definition demo_link :: statusd_link where
  "demo_link = \<lparr>sl_client = (StatusdClient_new False 5)\<lparr>sd_tcp := demo_tcp, logined := True\<rparr>,
     sl_flight = None, sl_wire = []\<rparr>"

lemma demo_link_ok: "link_ok False demo_link"
  using demo_tcp_ok by (simp add: link_ok_def demo_link_def queue_wf_def)

theorem statusd_sends_what_is_asked_witness:
  "\<exists>k'. link_run True [Sid_Set ''a'' False, Sid_Set ''a'' True, Heartbeat 35, Write_Done] demo_link = Some k'
    \<and> sl_wire k' @ unsent (sd_tcp (sl_client k')) = the (log_packet 30 ''heartbeat'')"
proof -
  have f: "\<forall>e \<in> set [Sid_Set ''a'' False, Sid_Set ''a'' True, Heartbeat 35, Write_Done]. event_fits False e" by simp
  have "unsent (sd_tcp (sl_client demo_link)) = []" "sl_wire demo_link = []"
    using demo_tcp_ok(3,4) by (simp_all add: demo_link_def unsent_def)
  with statusd_sends_what_is_asked [OF demo_link_ok f, of True] show ?thesis
    by (auto simp: demo_link_def StatusdClient_new_def)
qed

theorem statusd_stalls_after_failure_witness:
  "\<exists>k k'. link_run True [Write_Failed (Ec_Other 104) 0, Heartbeat 65] k = Some k' \<and> sl_flight k' = None
    \<and> unsent (sd_tcp (sl_client k')) = map Some ''x'' @ the (log_packet 60 ''heartbeat'')"
proof -
  let ?w = "map Some ''x''" and ?c = "sl_client demo_link"
  define k where "k = demo_link\<lparr>sl_client := ?c\<lparr>sd_tcp := (sd_tcp ?c)\<lparr>cwiobuff := IOBuffer_of_bytes ?w\<rparr>\<rparr>, sl_flight := Some ?w\<rparr>"
  have k: "link_ok False k" "sl_flight k = Some ?w" "start_time (sl_client k) = 5" "time_base (sl_client k) = 0"
    "unsent (sd_tcp (sl_client k)) = ?w"
    using demo_link_ok demo_tcp_ok
    by (simp_all add: k_def demo_link_def StatusdClient_new_def link_ok_def queue_wf_def socket_ok_def unsent_def)
  have "\<forall>e \<in> set [Heartbeat 65]. event_fits True e" by simp
  from statusd_stalls_after_failure [OF k(1,2) _ this, of "Ec_Other 104" True 0] k(3-5) show ?thesis by auto
qed

section \<open>Logging in\<close>

fun statusd_in_ok :: "StatusdState \<Rightarrow> 'ep tcp_extra \<Rightarrow> bool" where
  "statusd_in_ok eStatusdState_Connect x = (\<exists>eps i t. x = Connect_Input eps i t)"
| "statusd_in_ok _ x = True"

fun statusd_out_ok :: "StatusdState \<Rightarrow> 'ep tcp_extra \<Rightarrow> bool" where
  "statusd_out_ok eStatusdState_Resolve x = (\<exists>eps. x = Resolve_Output eps)"
| "statusd_out_ok _ x = True"

definition statusd_mem_ok :: "statusd_members \<Rightarrow> bool" where
  "statusd_mem_ok c \<longleftrightarrow> queue_wf (sd_tcp c) \<and> length (sd_uid c) \<le> 256 \<and> length (sd_sid c) \<le> 256
     \<and> \<not> sd_undefined c"

text \<open>Logged in: the heartbeat is armed, and a session id that had been kept back has been written.\<close>

definition logged_in_from :: "statusd_members \<Rightarrow> statusd_members \<Rightarrow> bool" where
  "logged_in_from c c' \<longleftrightarrow> logined c' \<and> \<not> sync_sid_pending c' \<and> sd_told c' = sd_told c
     \<and> (\<exists>t. heartbeat_timer c' = Some t \<and> armed t = Some kStatusHeartbeatInterval \<and> total_times t = - 1)
     \<and> unsent (sd_tcp c') = unsent (sd_tcp c)
         @ (if sync_sid_pending c then the (reset_sid_packet (sd_sid c)) else [])"

definition statusd_allows ::
    "statusd_members \<Rightarrow> StatusdState \<Rightarrow> 'ep tcp_extra state_event \<Rightarrow> StatusdState flow \<Rightarrow> statusd_members \<Rightarrow> bool" where
  "statusd_allows c ph ev f c' \<longleftrightarrow>
     (if statusd_failed ev then
        f = Ends (if ev_ec1 ev \<noteq> kBeeErrorCode_Success then ev_ec1 ev else kBeeErrorCode_State_Machine_Interrupted)
        \<and> c' = c
      else case ph of
          eStatusdState_Resolve \<Rightarrow> c' = c
            \<and> f = (if ev_extra ev = Resolve_Output [] then Ends kBeeErrorCode_Success else Goes_On eStatusdState_Connect)
        | eStatusdState_Connect \<Rightarrow> c' = c
            \<and> f = (if sd_uid c = [] then Ends kBeeErrorCode_Success else Goes_On eStatusdState_Login)
        | eStatusdState_Login \<Rightarrow> f = Ends kBeeErrorCode_State_Machine_Finished \<and> logged_in_from c c')"

lemma statusd_spec_simps [simp]:
  "sp_id (statusd_spec ph) = statusd_id ph"
  "sp_router (statusd_spec eStatusdState_Resolve) = statusd_handle_Resolve"
  "sp_router (statusd_spec eStatusdState_Connect) = handle_Connect"
  "sp_router (statusd_spec eStatusdState_Login) = handle_Login"
  "sp_switches (statusd_spec eStatusdState_Resolve) = [(1, transform_Resolve_To_Connect)]"
  "sp_switches (statusd_spec eStatusdState_Connect) = [(2, transform_Connect_To_Login)]"
  "sp_switches (statusd_spec eStatusdState_Login) = []"
  by (cases ph) (simp_all add: statusd_spec_def)

abbreviation statusd_obeys_at ::
    "statusd_members \<Rightarrow> StatusdState \<Rightarrow> 'ep tcp_extra state_event
      \<Rightarrow> int \<times> 'ep tcp_extra state_event \<times> statusd_members \<Rightarrow> bool" where
  "statusd_obeys_at c ph ev \<equiv> phase_obeys statusd_id statusd_in_ok statusd_out_ok statusd_mem_ok
     (statusd_allows c ph ev) ph (sp_switches (statusd_spec ph))"

lemma statusd_failed_obeys:
  assumes "statusd_mem_ok c" and "statusd_out_ok ph (ev_extra ev)" and "statusd_failed ev"
  shows "statusd_obeys_at c ph ev (kInvalidState, ev, c)"
  using assms by (intro phase_obeys_invalid) (auto simp: statusd_allows_def)

lemma handle_Login_logs_in:
  assumes "statusd_mem_ok c" and "\<not> statusd_failed ev"
  shows "\<exists>c'. handle_Login c ev = (kFinishedState, ev, c') \<and> statusd_mem_ok c' \<and> logged_in_from c c'"
proof (cases "sync_sid_pending c")
  case False
  with assms show ?thesis
    by (simp add: handle_Login_def start_heartbeat_timer_def logged_in_from_def statusd_mem_ok_def timer_async_wait_def
        rearm_def AsyncWaitTimer_create_def set_immediately_def set_wait_times_def set_wait_millseconds_def
        kStatusHeartbeatInterval_def)
next
  case True
  let ?c = "c\<lparr>logined := True\<rparr>"
  from assms(1) have sid: "length (sd_sid c) \<le> 256" and q: "queue_wf (sd_tcp ?c)" by (simp_all add: statusd_mem_ok_def)
  from packets_written(1) [OF sid, of "[]"] obtain p where p: "reset_sid_packet (sd_sid c) = Some p" "p \<noteq> []" by auto
  from statusd_write_joins [OF q p(2)] obtain t where
    "statusd_write p ?c = Some (?c\<lparr>sd_tcp := t,
        sd_writes := sd_writes ?c @ (if iob_content (cwiobuff (sd_tcp ?c)) = [] then [p] else [])\<rparr>)"
    "queue_wf t" "unsent t = unsent (sd_tcp ?c) @ p" .
  with True assms p(1) show ?thesis
    by (simp add: handle_Login_def sync_sid_def start_heartbeat_timer_def logged_in_from_def statusd_mem_ok_def
        timer_async_wait_def rearm_def AsyncWaitTimer_create_def set_immediately_def set_wait_times_def
        set_wait_millseconds_def kStatusHeartbeatInterval_def)
qed

lemma statusd_obeys:
  assumes "statusd_mem_ok c" and "statusd_out_ok ph (ev_extra ev)"
  shows "statusd_obeys_at c ph ev (sp_router (statusd_spec ph) c ev)"
proof (cases "statusd_failed ev")
  case True
  then show ?thesis
    using statusd_failed_obeys [OF assms True]
    by (cases ph) (simp_all add: statusd_handle_Resolve_def handle_Connect_def handle_Login_def)
next
  case ok: False
  then have ec: "ev_ec1 ev = kBeeErrorCode_Success" by (simp add: statusd_failed_def)
  show ?thesis
  proof (cases ph)
    case eStatusdState_Resolve
    then obtain eps where eps: "ev_extra ev = Resolve_Output eps" using assms(2) by auto
    have "statusd_obeys_at c eStatusdState_Resolve ev (1, ev, c)"
      by (rule phase_obeys_answer [where ph' = eStatusdState_Connect and t = transform_Resolve_To_Connect])
        (use assms ok ec eps eStatusdState_Resolve in \<open>auto simp: transform_Resolve_To_Connect_def statusd_allows_def split: if_splits\<close>)
    with ok eStatusdState_Resolve show ?thesis by (simp add: statusd_handle_Resolve_def)
  next
    case eStatusdState_Connect
    from assms(1) have p: "login_packet (sd_uid c) (sd_sid c) \<noteq> None"
      by (simp add: statusd_mem_ok_def login_packet_form)
    have "statusd_obeys_at c eStatusdState_Connect ev (2, ev, c)"
      by (rule phase_obeys_answer [where ph' = eStatusdState_Login and t = transform_Connect_To_Login])
        (use assms ok ec p eStatusdState_Connect in \<open>auto simp: transform_Connect_To_Login_def statusd_allows_def split: if_splits\<close>)
    with ok eStatusdState_Connect show ?thesis by (simp add: handle_Connect_def)
  next
    case eStatusdState_Login
    from handle_Login_logs_in [OF assms(1) ok] obtain c' where
      c': "handle_Login c ev = (kFinishedState, ev, c')" "statusd_mem_ok c'" "logged_in_from c c'" by blast
    then have "statusd_obeys_at c eStatusdState_Login ev (kFinishedState, ev, c')"
      using ok by (intro phase_obeys_finished) (simp_all add: statusd_allows_def)
    with c'(1) eStatusdState_Login show ?thesis by simp
  qed
qed

interpretation sd: machine_flow statusd_states statusd_spec statusd_in_ok statusd_out_ok statusd_mem_ok statusd_allows
proof
  show "ph \<in> set statusd_states" for ph by (cases ph) (simp_all add: statusd_states_def)
  show "distinct (map (\<lambda>ph. sp_id (statusd_spec ph)) statusd_states)" by (simp add: statusd_states_def)
  show "sp_id (statusd_spec ph) \<noteq> kInvalidState \<and> sp_id (statusd_spec ph) \<noteq> kFinishedState" for ph
    by (cases ph) (simp_all add: kInvalidState_def kFinishedState_def)
  show "distinct (map fst (sp_switches (statusd_spec ph)))" for ph by (cases ph) simp_all
  show "length (filter (\<lambda>ph. sp_activate (statusd_spec ph)) statusd_states) \<le> 1"
    by (simp add: statusd_states_def statusd_spec_def)
  show "statusd_in_ok ph (sp_input (statusd_spec ph)) \<and> statusd_out_ok ph (sp_output (statusd_spec ph))" for ph
    by (cases ph) (simp_all add: statusd_spec_def)
qed (simp add: statusd_obeys)

abbreviation statusd_works :: "(StatusdState \<Rightarrow> nat) \<Rightarrow> 'ep statusd_machine \<Rightarrow> bool" where
  "statusd_works \<equiv> phase_machine statusd_spec statusd_in_ok statusd_out_ok statusd_mem_ok"

lemma statusd_implements:
  assumes "statusd_works ptr m" and "st_output (fsm_heap m (ptr ph)) = Some ev" and "ev_setup ev"
  shows "\<exists>f ret m'. state_done_ec ec1 ec2 (ptr ph) m = Some (ret, m') \<and> statusd_works ptr m'
    \<and> statusd_allows (members m) ph (ev\<lparr>ev_ec1 := ec1, ev_ec2 := ec2\<rparr>) f (members m') \<and> follows statusd_spec f ptr m ret m'"
  using sd.implements [OF assms] .

lemma statusd_keeps_ec2:
  "ev_ec2 (fst (snd (sp_router (statusd_spec ph) c ev))) = ev_ec2 ev"
  "map_of (sp_switches (statusd_spec ph)) i = Some t \<Longrightarrow> ev_ec2 (fst (snd (t c ev inp))) = ev_ec2 ev"
  by (cases ph; auto simp: statusd_handle_Resolve_def handle_Connect_def handle_Login_def Let_def
      transform_Resolve_To_Connect_def transform_Connect_To_Login_def split: if_splits option.splits tcp_extra.splits)+

text \<open>
  How a run logs in. Whatever a state reports, the next of the three states is posted with the
  client as it was; or the run ends with one report. After an error the client is not logged in and its
  handler has been told exactly that error. After a login the heartbeat is armed and a session id that
  had been kept back is on its way. The one other end is silent: with no endpoints, or no user id, the
  run ends and nobody is told.
\<close>

theorem statusd_logs_in:
  assumes "statusd_works ptr m" and "st_output (fsm_heap m (ptr ph)) = Some ev" and "ev_setup ev"
    and "ec1 \<noteq> kBeeErrorCode_State_Machine_Finished"
  shows "\<exists>ret m'. state_done_ec ec1 ec2 (ptr ph) m = Some (ret, m') \<and> statusd_works ptr m'
    \<and> ((\<exists>ph'. ret \<and> statusd_id ph' = statusd_id ph + 1 \<and> posted m' = posted m @ [ptr ph']
          \<and> outputs m' = outputs m \<and> members m' = members m)
      \<or> (\<exists>rep. \<not> ret \<and> posted m' = posted m \<and> outputs m' = outputs m @ [rep]
          \<and> (let c = members m; c' = statusd_output alive rep (members m')
             in if ec1 \<noteq> kBeeErrorCode_Success \<or> ec_set ec2 then
                  \<not> logined c' \<and> sd_told c' = sd_told c @ (if alive then [(ev_ec1 rep, ec2)] else [])
                  \<and> ev_ec1 rep = (if ec1 \<noteq> kBeeErrorCode_Success then ec1 else kBeeErrorCode_State_Machine_Interrupted)
                else ph = eStatusdState_Login \<and> logged_in_from c c'
                  \<or> c' = c \<and> (ph = eStatusdState_Resolve \<and> ev_extra ev = Resolve_Output []
                               \<or> ph = eStatusdState_Connect \<and> sd_uid c = []))))"
proof -
  let ?ev = "ev\<lparr>ev_ec1 := ec1, ev_ec2 := ec2\<rparr>"
  from statusd_implements [OF assms(1-3), of ec1 ec2] obtain f ret m' where
    m': "state_done_ec ec1 ec2 (ptr ph) m = Some (ret, m')" "statusd_works ptr m'"
    "statusd_allows (members m) ph ?ev f (members m')" "follows statusd_spec f ptr m ret m'" by blast
  note st = phase_machine_state(2,3) [OF assms(1), of ph]
  have "outputs m' = outputs m \<or> (\<exists>rep. outputs m' = outputs m @ [rep] \<and> ev_ec2 rep = ec2)"
    by (rule done_reports_ec2 [OF assms(2) _ _ m'(1)]) (use st statusd_keeps_ec2 in auto)
  then have ec2: "ev_ec2 rep = ec2" if "outputs m' = outputs m @ [rep]" for rep using that by auto
  show ?thesis
  proof (cases f)
    case (Goes_On ph')
    with m'(3) have "statusd_id ph' = statusd_id ph + 1" "members m' = members m"
      by (cases ph; simp add: statusd_allows_def split: if_splits)+
    with Goes_On m' show ?thesis by (auto simp: follows_def)
  next
    case (Ends ec)
    with m'(4) obtain rep where rep: "\<not> ret" "posted m' = posted m" "outputs m' = outputs m @ [rep]" "ev_ec1 rep = ec"
      by (auto simp: follows_def)
    note e = rep(4) ec2 [OF rep(3)]
    show ?thesis
    proof (cases "statusd_failed ?ev")
      case True
      then have f: "ec1 \<noteq> kBeeErrorCode_Success \<or> ec_set ec2" by (simp add: statusd_failed_def)
      with m'(3) Ends True assms(4) have "members m' = members m"
        "ec = (if ec1 \<noteq> kBeeErrorCode_Success then ec1 else kBeeErrorCode_State_Machine_Interrupted)"
        "statusd_output alive rep (members m') = handle_error alive ec ec2 (members m)"
        by (auto simp: statusd_allows_def statusd_output_def e)
      with f rep m' show ?thesis by (auto simp: handle_error_def Let_def)
    next
      case False
      then have f: "ec1 = kBeeErrorCode_Success" "\<not> ec_set ec2" by (simp_all add: statusd_failed_def)
      with m'(3) Ends False have "ec = kBeeErrorCode_Success \<or> ec = kBeeErrorCode_State_Machine_Finished"
        by (cases ph) (auto simp: statusd_allows_def split: if_splits)
      then have "statusd_output alive rep (members m') = members m'"
        using e f(2) by (auto simp: statusd_output_def)
      with m'(3) Ends False f rep m'(1,2) show ?thesis
        by (cases ph) (auto simp: statusd_allows_def split: if_splits)
    qed
  qed
qed

theorem statusd_logs_in_witness:
  "\<exists>ptr m ret m' rep. statusd_works ptr m \<and> members m = sl_client demo_link
    \<and> state_done_ec kBeeErrorCode_Success Ec_Ok (ptr eStatusdState_Login) (m :: nat statusd_machine) = Some (ret, m')
    \<and> logged_in_from (members m) (statusd_output True (rep :: nat tcp_extra state_event) (members m'))"
proof -
  obtain m :: "nat statusd_machine" and ptr where m: "phase_machine statusd_spec statusd_in_ok statusd_out_ok (\<lambda>_. True) ptr m"
    "members m = sl_client demo_link"
    using sd.graph_built [of "sl_client demo_link"] by blast
  have "statusd_mem_ok (sl_client demo_link)"
    using demo_link_ok by (simp add: statusd_mem_ok_def link_ok_def) (simp add: demo_link_def StatusdClient_new_def)
  with m have w: "statusd_works ptr m" by (simp add: phase_machine_def)
  let ?ev = "(StateEvent_new (Send_Output 0))\<lparr>ev_setup := True\<rparr>"
  let ?m = "set_output_event (ptr eStatusdState_Login) ?ev m"
  have w': "statusd_works ptr ?m" by (rule phase_machine_output [OF w]) simp
  have "st_output (fsm_heap ?m (ptr eStatusdState_Login)) = Some ?ev" "ev_setup ?ev" by simp_all
  have "statusd_id ph \<noteq> 3" for ph by (cases ph) simp_all
  with statusd_logs_in [OF w' \<open>st_output (fsm_heap ?m _) = _\<close> \<open>ev_setup ?ev\<close>, of kBeeErrorCode_Success Ec_Ok True] w' m(2)
  show ?thesis by (intro exI [of _ ptr] exI [of _ ?m]) (auto simp: Let_def)
qed

end
