(* ===== verification/Bee_Scanf.thy ===== *)
theory Bee_Scanf
  imports Bee_Algorithm
begin

text \<open>
  The formatted reading of src/lua/module/lua_data_promise.h (the types of fields), lua_video_cache.cpp
  (Scanf) and lua_http_reader.cpp (scanf): bytes are taken from a source and pushed on the stack of a
  Lua thread field by field.

  Both scanfs are the same code over another source, so they are one definition over a function
  \<open>fetch\<close>, which gives up to so many bytes. The locale \<open>byte_source\<close> is what they rely on: a source with
  enough bytes gives exactly those that come next. The client's lemma shows the values pushed then:
  those of a decoder that knows no source, one after the other. A cell is \<open>None\<close> when nothing was
  stored in it; pushing such a cell makes the result \<open>None\<close>. A value of type \<open>double\<close> stays its eight
  bytes.
\<close>

section \<open>Fields\<close>

datatype DataTypeId =
    eDataType_int8_t | eDataType_uint8_t | eDataType_int16_t | eDataType_uint16_t | eDataType_int32_t
  | eDataType_uint32_t | eDataType_int64_t | eDataType_uint64_t | eDataType_double
  | eDataType_byte_array | eDataType_string

fun kDataTypeSize :: "DataTypeId \<Rightarrow> nat" where
  "kDataTypeSize eDataType_int8_t = 1"
| "kDataTypeSize eDataType_uint8_t = 1"
| "kDataTypeSize eDataType_int16_t = 2"
| "kDataTypeSize eDataType_uint16_t = 2"
| "kDataTypeSize eDataType_int32_t = 4"
| "kDataTypeSize eDataType_uint32_t = 4"
| "kDataTypeSize eDataType_int64_t = 8"
| "kDataTypeSize eDataType_uint64_t = 8"
| "kDataTypeSize eDataType_double = 8"
| "kDataTypeSize eDataType_byte_array = 1"
| "kDataTypeSize eDataType_string = 1"

record DataField =
  df_type :: DataTypeId
  df_length :: nat
  df_hton :: bool

definition DataField_new :: DataField where
  "DataField_new = \<lparr>df_type = eDataType_int32_t, df_length = 1, df_hton = False\<rparr>"

section \<open>Reading\<close>

datatype scan_value =
    Pushed_Integer int
  | Pushed_Number "byte list"
  | Pushed_String "byte list"

type_synonym 's fetch = "nat \<Rightarrow> 's \<Rightarrow> (byte option list \<times> 's) option"

text \<open>Memory after a read into it: what was read, then what stood there before.\<close>

definition over_written :: "byte option list \<Rightarrow> byte option list \<Rightarrow> byte option list" where
  "over_written got old = got @ drop (length got) old"

definition defined_cells :: "byte option list \<Rightarrow> byte list option" where
  "defined_cells cs = (if None \<in> set cs then None else Some (map the cs))"

text \<open>The value of a host (little-endian) integer.\<close>

definition host_value :: "byte list \<Rightarrow> nat" where
  "host_value bs = foldr (\<lambda>b n. unat b + 256 * n) bs 0"

text \<open>
  \<open>ntohs\<close>, \<open>ntohl\<close> and \<open>_ntohll\<close> in memory: the bytes turned around, for eight bytes those of each half.
\<close>

definition swapped :: "byte list \<Rightarrow> byte list" where
  "swapped bs = (if length bs = 8 then rev (take 4 bs) @ rev (drop 4 bs) else rev bs)"

text \<open>Integers of one byte are not exchanged; of eight bytes the low half is pushed.\<close>

definition pushed_integer :: "byte list \<Rightarrow> scan_value" where
  "pushed_integer bs = Pushed_Integer (int (host_value (take 4 bs)))"

text \<open>\<open>v\<close> is one variable for all \<open>n\<close> values of the field.\<close>

primrec scan_integers ::
    "'s fetch \<Rightarrow> nat \<Rightarrow> bool \<Rightarrow> nat \<Rightarrow> byte option list \<Rightarrow> 's \<Rightarrow> (scan_value list \<times> 's) option" where
  "scan_integers fetch w hton 0 v s = Some ([], s)"
| "scan_integers fetch w hton (Suc n) v s =
     do {
       (got, s1) \<leftarrow> fetch w s;
       bs \<leftarrow> defined_cells (over_written got v);
       let bs1 = (if hton then swapped bs else bs);
       (vs, s2) \<leftarrow> scan_integers fetch w hton n (map Some bs1) s1;
       Some (pushed_integer bs1 # vs, s2)
     }"

primrec scan_doubles ::
    "'s fetch \<Rightarrow> nat \<Rightarrow> byte option list \<Rightarrow> 's \<Rightarrow> (scan_value list \<times> 's) option" where
  "scan_doubles fetch 0 v s = Some ([], s)"
| "scan_doubles fetch (Suc n) v s =
     do {
       (got, s1) \<leftarrow> fetch 8 s;
       bs \<leftarrow> defined_cells (over_written got v);
       (vs, s2) \<leftarrow> scan_doubles fetch n (map Some bs) s1;
       Some (Pushed_Number bs # vs, s2)
     }"

definition zero_cells :: "nat \<Rightarrow> byte option list" where
  "zero_cells n = replicate n (Some 0)"

text \<open>A string is pushed up to its first NUL, one of which is put behind it.\<close>

definition scan_field :: "'s fetch \<Rightarrow> DataField \<Rightarrow> 's \<Rightarrow> (scan_value list \<times> 's) option" where
  "scan_field fetch f s =
     (let w = kDataTypeSize (df_type f); n = df_length f
      in case df_type f of
           eDataType_double \<Rightarrow> scan_doubles fetch n (zero_cells w) s
         | eDataType_byte_array \<Rightarrow>
             do {
               (got, s1) \<leftarrow> fetch n s;
               bs \<leftarrow> defined_cells (over_written got (replicate n None));
               Some ([Pushed_String bs], s1)
             }
         | eDataType_string \<Rightarrow>
             do {
               (got, s1) \<leftarrow> fetch n s;
               bs \<leftarrow> defined_cells (takeWhile (\<lambda>c. c \<noteq> Some 0) (over_written got (replicate n None)));
               Some ([Pushed_String bs], s1)
             }
         | _ \<Rightarrow> scan_integers fetch w (df_hton f \<and> w \<noteq> 1) n (zero_cells w) s)"

primrec scan_fields :: "'s fetch \<Rightarrow> DataField list \<Rightarrow> 's \<Rightarrow> (scan_value list \<times> 's) option" where
  "scan_fields fetch [] s = Some ([], s)"
| "scan_fields fetch (f # fs) s =
     do {
       (vs, s1) \<leftarrow> scan_field fetch f s;
       (ws, s2) \<leftarrow> scan_fields fetch fs s1;
       Some (vs @ ws, s2)
     }"

text \<open>
  Both scanfs: the answer is the number of fields, \<open>none\<close> without a thread or a format; the values are
  those on the thread's stack, from the bottom.
\<close>

definition scanf ::
    "'s fetch \<Rightarrow> int \<Rightarrow> bool \<Rightarrow> DataField list \<Rightarrow> 's \<Rightarrow> (int \<times> scan_value list \<times> 's) option" where
  "scanf fetch none thread format s =
     (if \<not> thread \<or> format = [] then Some (none, [], s)
      else do {
        (vs, s1) \<leftarrow> scan_fields fetch format s;
        Some (int (length format), vs, s1)
      })"

section \<open>The reference decoder\<close>

definition field_bytes :: "DataField \<Rightarrow> nat" where
  "field_bytes f = kDataTypeSize (df_type f) * df_length f"

definition format_bytes :: "DataField list \<Rightarrow> nat" where
  "format_bytes fs = sum_list (map field_bytes fs)"

definition decode_integer :: "nat \<Rightarrow> bool \<Rightarrow> byte list \<Rightarrow> scan_value" where
  "decode_integer w hton bs = pushed_integer (if hton \<and> w \<noteq> 1 then swapped bs else bs)"

primrec pieces :: "nat \<Rightarrow> nat \<Rightarrow> 'b list \<Rightarrow> 'b list list" where
  "pieces w 0 bs = []"
| "pieces w (Suc n) bs = take w bs # pieces w n (drop w bs)"

definition decode_field :: "DataField \<Rightarrow> byte list \<Rightarrow> scan_value list" where
  "decode_field f bs =
     (let w = kDataTypeSize (df_type f)
      in case df_type f of
           eDataType_double \<Rightarrow> map Pushed_Number (pieces w (df_length f) bs)
         | eDataType_byte_array \<Rightarrow> [Pushed_String bs]
         | eDataType_string \<Rightarrow> [Pushed_String (takeWhile (\<lambda>b. b \<noteq> 0) bs)]
         | _ \<Rightarrow> map (decode_integer w (df_hton f)) (pieces w (df_length f) bs))"

primrec decode_fields :: "DataField list \<Rightarrow> byte list \<Rightarrow> scan_value list" where
  "decode_fields [] bs = []"
| "decode_fields (f # fs) bs =
     decode_field f (take (field_bytes f) bs) @ decode_fields fs (drop (field_bytes f) bs)"

lemma field_length_bound: "f \<in> set fs \<Longrightarrow> df_length f \<le> format_bytes fs"
proof -
  assume f: "f \<in> set fs"
  have "0 < kDataTypeSize (df_type f)" by (cases "df_type f") simp_all
  then have "df_length f \<le> field_bytes f" by (simp add: field_bytes_def)
  also have "\<dots> \<le> format_bytes fs" using f by (simp add: format_bytes_def member_le_sum_list)
  finally show ?thesis .
qed

section \<open>Sources\<close>

lemma defined_cells_Some [simp]: "defined_cells (map Some bs) = Some bs"
  by (auto simp: defined_cells_def)

lemma over_written_all [simp]: "length got = length old \<Longrightarrow> over_written got old = got"
  by (simp add: over_written_def)

lemma takeWhile_cells: "takeWhile (\<lambda>c. c \<noteq> Some 0) (map Some bs) = map Some (takeWhile (\<lambda>b. b \<noteq> 0) bs)"
  by (simp add: takeWhile_map comp_def)

lemma length_swapped [simp]: "length (swapped bs) = length bs"
  by (simp add: swapped_def)

text \<open>Whatever every fetch keeps of its source, scanf keeps.\<close>

lemma scan_integers_keeps:
  assumes "\<And>n s got s'. fetch n s = Some (got, s') \<Longrightarrow> g s' = g s"
    and "scan_integers fetch w hton n v s = Some (vs, s')"
  shows "g s' = g s"
  using assms(2) by (induction n arbitrary: v s vs) (auto split: bind_splits simp: Let_def dest!: assms(1))

lemma scan_doubles_keeps:
  assumes "\<And>n s got s'. fetch n s = Some (got, s') \<Longrightarrow> g s' = g s"
    and "scan_doubles fetch n v s = Some (vs, s')"
  shows "g s' = g s"
  using assms(2) by (induction n arbitrary: v s vs) (auto split: bind_splits dest!: assms(1))

lemma scan_field_keeps:
  assumes "\<And>n s got s'. fetch n s = Some (got, s') \<Longrightarrow> g s' = g s" and "scan_field fetch f s = Some (vs, s')"
  shows "g s' = g s"
  using assms(2) scan_integers_keeps [where fetch = fetch and g = g, OF assms(1)] scan_doubles_keeps [where fetch = fetch and g = g, OF assms(1)]
  by (cases "df_type f") (auto simp: scan_field_def Let_def split: bind_splits dest!: assms(1))

lemma scan_fields_keeps:
  assumes "\<And>n s got s'. fetch n s = Some (got, s') \<Longrightarrow> g s' = g s" and "scan_fields fetch fs s = Some (vs, s')"
  shows "g s' = g s"
  using assms(2)
proof (induction fs arbitrary: s vs)
  case (Cons f fs)
  then obtain us s1 ws where "scan_field fetch f s = Some (us, s1)" "scan_fields fetch fs s1 = Some (ws, s')"
    by (auto split: bind_splits)
  with Cons.IH scan_field_keeps [where fetch = fetch and g = g, OF assms(1)] show ?case by fastforce
qed simp

lemma scanf_keeps:
  assumes "\<And>n s got s'. fetch n s = Some (got, s') \<Longrightarrow> g s' = g s"
    and "scanf fetch none th fs s = Some (n, vs, s')"
  shows "g s' = g s"
  using assms(2) scan_fields_keeps [where fetch = fetch and g = g, OF assms(1)]
  by (auto simp: scanf_def split: if_splits bind_splits)

locale byte_source =
  fixes fetch :: "'s fetch" and pending :: "'s \<Rightarrow> byte option list" and source_ok :: "'s \<Rightarrow> bool"
  assumes fetch_law: "source_ok s \<Longrightarrow> n \<le> length (pending s) \<Longrightarrow> n < 2 ^ 32
    \<Longrightarrow> \<exists>s'. fetch n s = Some (take n (pending s), s') \<and> pending s' = drop n (pending s) \<and> source_ok s'"
begin

text \<open>A source \<open>holds\<close> bytes when they come next and all are defined.\<close>

definition holds :: "byte list \<Rightarrow> byte option list \<Rightarrow> 's \<Rightarrow> bool" where
  "holds bs rest s \<longleftrightarrow> source_ok s \<and> pending s = map Some bs @ rest"

lemma fetch_holds:
  assumes "holds (bs @ cs) rest s" and "length bs = n" and "n < 2 ^ 32"
  obtains s' where "fetch n s = Some (map Some bs, s')" and "holds cs rest s'"
proof -
  have ok: "source_ok s" "n \<le> length (pending s)" using assms(1,2) by (simp_all add: holds_def)
  from fetch_law [OF ok assms(3)] obtain s' where
    "fetch n s = Some (take n (pending s), s')" "pending s' = drop n (pending s)" "source_ok s'" by blast
  with assms(1,2) that show thesis by (auto simp: holds_def)
qed

lemma scan_integers_decodes:
  assumes "holds (bs @ cs) rest s" and "length bs = w * n" and "w < 2 ^ 32" and "length v = w"
  shows "\<exists>s'. scan_integers fetch w hton n v s
      = Some (map (\<lambda>p. pushed_integer (if hton then swapped p else p)) (pieces w n bs), s') \<and> holds cs rest s'"
  using assms
proof (induction n arbitrary: bs v s)
  case 0
  then show ?case by simp
next
  case (Suc n)
  have l: "length (take w bs) = w" using Suc.prems(2) by simp
  have h: "holds (take w bs @ (drop w bs @ cs)) rest s" using Suc.prems(1) by (simp flip: append_assoc)
  obtain s1 where s1: "fetch w s = Some (map Some (take w bs), s1)" "holds (drop w bs @ cs) rest s1"
    using fetch_holds [OF h l Suc.prems(3)] by blast
  let ?p = "if hton then swapped (take w bs) else take w bs"
  have "length (drop w bs) = w * n" "length (map Some ?p) = w" using Suc.prems(2) l by simp_all
  from Suc.IH [OF s1(2) this(1) Suc.prems(3) this(2)] obtain s' where
    "scan_integers fetch w hton n (map Some ?p) s1
      = Some (map (\<lambda>p. pushed_integer (if hton then swapped p else p)) (pieces w n (drop w bs)), s')" "holds cs rest s'"
    by blast
  moreover have "defined_cells (over_written (map Some (take w bs)) v) = Some (take w bs)"
    using l Suc.prems(4) by simp
  ultimately show ?case using s1(1) by (cases hton) simp_all
qed

lemma scan_doubles_decodes:
  assumes "holds (bs @ cs) rest s" and "length bs = 8 * n" and "length v = 8"
  shows "\<exists>s'. scan_doubles fetch n v s = Some (map Pushed_Number (pieces 8 n bs), s') \<and> holds cs rest s'"
  using assms
proof (induction n arbitrary: bs v s)
  case 0
  then show ?case by simp
next
  case (Suc n)
  have l: "length (take 8 bs) = 8" using Suc.prems(2) by simp
  have h: "holds (take 8 bs @ (drop 8 bs @ cs)) rest s" using Suc.prems(1) by (simp flip: append_assoc)
  obtain s1 where s1: "fetch 8 s = Some (map Some (take 8 bs), s1)" "holds (drop 8 bs @ cs) rest s1"
    using fetch_holds [OF h l] by auto
  have "length (drop 8 bs) = 8 * n" "length (map Some (take 8 bs)) = 8" using Suc.prems(2) l by simp_all
  from Suc.IH [OF s1(2) this] obtain s' where
    "scan_doubles fetch n (map Some (take 8 bs)) s1 = Some (map Pushed_Number (pieces 8 n (drop 8 bs)), s')"
    "holds cs rest s'" by blast
  moreover have "defined_cells (over_written (map Some (take 8 bs)) v) = Some (take 8 bs)"
    using l Suc.prems(3) by simp
  ultimately show ?case using s1(1) by simp
qed

lemma scan_field_decodes:
  assumes "holds (bs @ cs) rest s" and "length bs = field_bytes f" and "df_length f < 2 ^ 32"
  shows "\<exists>s'. scan_field fetch f s = Some (decode_field f bs, s') \<and> holds cs rest s'"
proof -
  let ?w = "kDataTypeSize (df_type f)"
  have w: "?w \<le> 8" by (cases "df_type f") simp_all
  have ints: "\<exists>s'. scan_integers fetch ?w (df_hton f \<and> ?w \<noteq> 1) (df_length f) (zero_cells ?w) s
      = Some (map (decode_integer ?w (df_hton f)) (pieces ?w (df_length f) bs), s') \<and> holds cs rest s'"
    using scan_integers_decodes [OF assms(1), of ?w "df_length f" "zero_cells ?w" "df_hton f \<and> ?w \<noteq> 1"] assms(2) w
    by (simp add: field_bytes_def zero_cells_def decode_integer_def [abs_def])
  have dbls: "\<exists>s'. scan_doubles fetch (df_length f) (zero_cells 8) s
      = Some (map Pushed_Number (pieces 8 (df_length f) bs), s') \<and> holds cs rest s'" if "?w = 8"
    using scan_doubles_decodes [OF assms(1), of "df_length f" "zero_cells 8"] assms(2) that
    by (simp add: field_bytes_def zero_cells_def)
  have raw: "\<exists>s'. fetch (df_length f) s = Some (map Some bs, s') \<and> holds cs rest s'" if "?w = 1"
    using fetch_holds [OF assms(1), of "df_length f"] assms(2,3) that by (auto simp: field_bytes_def)
  show ?thesis
  proof (cases "df_type f")
    case eDataType_double
    with dbls show ?thesis by (simp add: scan_field_def decode_field_def)
  next
    case eDataType_byte_array
    with raw assms(2) show ?thesis by (auto simp: scan_field_def decode_field_def field_bytes_def)
  next
    case eDataType_string
    with raw assms(2) show ?thesis
      by (auto simp: scan_field_def decode_field_def field_bytes_def takeWhile_cells)
  qed (use ints in \<open>auto simp: scan_field_def decode_field_def\<close>)
qed

lemma scan_fields_decodes:
  assumes "holds (bs @ cs) rest s" and "length bs = format_bytes fs" and "\<forall>f \<in> set fs. df_length f < 2 ^ 32"
  shows "\<exists>s'. scan_fields fetch fs s = Some (decode_fields fs bs, s') \<and> holds cs rest s'"
  using assms
proof (induction fs arbitrary: bs s)
  case Nil
  then show ?case by (simp add: format_bytes_def)
next
  case (Cons f fs)
  let ?n = "field_bytes f"
  have l: "length (take ?n bs) = ?n" using Cons.prems(2) by (simp add: format_bytes_def)
  have "holds (take ?n bs @ (drop ?n bs @ cs)) rest s" using Cons.prems(1) by (simp flip: append_assoc)
  from scan_field_decodes [OF this l] Cons.prems(3) obtain s1 where
    s1: "scan_field fetch f s = Some (decode_field f (take ?n bs), s1)" "holds (drop ?n bs @ cs) rest s1" by auto
  have "length (drop ?n bs) = format_bytes fs" "\<forall>f \<in> set fs. df_length f < 2 ^ 32"
    using Cons.prems(2,3) by (simp_all add: format_bytes_def)
  from Cons.IH [OF s1(2) this] s1(1) show ?case by auto
qed

text \<open>A source that holds the format's bytes gives the reference decoder's values, and those bytes are gone.\<close>

lemma scanf_decodes:
  assumes "source_ok s" and "pending s = map Some bs @ rest" and "length bs = format_bytes fs" and "fs \<noteq> []"
    and "\<forall>f \<in> set fs. df_length f < 2 ^ 32"
  shows "\<exists>s'. scanf fetch none True fs s = Some (int (length fs), decode_fields fs bs, s')
    \<and> source_ok s' \<and> pending s' = rest"
proof -
  have "holds (bs @ []) rest s" using assms(1,2) by (simp add: holds_def)
  from scan_fields_decodes [OF this assms(3,5)] obtain s' where
    "scan_fields fetch fs s = Some (decode_fields fs bs, s')" "holds [] rest s'" by blast
  with assms(4) show ?thesis by (simp add: scanf_def holds_def)
qed

end

text \<open>
  The answer counts fields, not values: with arrays of numbers it is less than what has been pushed.
\<close>

definition field_values :: "DataField \<Rightarrow> nat" where
  "field_values f = (if df_type f = eDataType_byte_array \<or> df_type f = eDataType_string then 1 else df_length f)"

lemma length_pieces [simp]: "length (pieces w n bs) = n"
  by (induction n arbitrary: bs) simp_all

lemma length_decode_fields: "length (decode_fields fs bs) = sum_list (map field_values fs)"
proof (induction fs arbitrary: bs)
  case (Cons f fs)
  have "length (decode_field f xs) = field_values f" for xs
    by (cases "df_type f") (simp_all add: decode_field_def field_values_def)
  with Cons show ?case by simp
qed simp

end
