(* ===== verification/Bee_Lua_Objects.thy ===== *)
theory Bee_Lua_Objects
  imports Bee_Strings
begin

text \<open>
  What the modules for scripts share (src/lua/module/lua_module_mgr.h): the arguments a script passes and
  \<open>LuaObjMgr\<close>, which gives a script numbers for objects.

  An object is a value; the one in the table stands for the object all shared pointers to it point to.
  The counter is static in the code, so a module gets it with its table. Results of a module's functions
  are values of the module's own type; \<open>Refuses\<close> is the answer -1, which is no number of results.
\<close>

section \<open>Arguments\<close>

definition LUA_REFNIL :: int where "LUA_REFNIL = - 1"

datatype lua_arg =
    Arg_Nil
  | Arg_Boolean bool
  | Arg_Integer int
  | Arg_Text string
  | Arg_Light nat
  | Arg_Table "(lua_arg \<times> lua_arg) list"
  | Arg_Function nat

text \<open>\<open>lua_tostring\<close>: text and numbers.\<close>

fun lua_text :: "lua_arg \<Rightarrow> string option" where
  "lua_text (Arg_Text s) = Some (c_text s)"
| "lua_text (Arg_Integer n) = Some (show_int n)"
| "lua_text _ = None"

datatype 'v lua_answer = Answers "'v list" | Refuses

text \<open>Other modules leave a function through \<open>luaL_error\<close>, with a message.\<close>

datatype 'v lua_result = Returns "'v list" | Raises string

section \<open>LuaObjMgr\<close>

record 'o lua_objs =
  om_counter :: u32
  om_table :: "u32 \<Rightarrow> 'o option"

definition LuaObjMgr_new :: "u32 \<Rightarrow> 'o lua_objs" where
  "LuaObjMgr_new n = \<lparr>om_counter = n, om_table = (\<lambda>_. None)\<rparr>"

text \<open>The argument is \<open>None\<close> for a null pointer.\<close>

definition new_lua_obj :: "'o option \<Rightarrow> 'o lua_objs \<Rightarrow> u32 \<times> 'o lua_objs" where
  "new_lua_obj obj m =
     (case obj of
        None \<Rightarrow> (0, m)
      | Some ob \<Rightarrow>
          (let handle = om_counter m + 1
           in (handle, m\<lparr>om_counter := handle, om_table := (om_table m)(handle \<mapsto> ob)\<rparr>)))"

definition delete_lua_obj :: "u32 \<Rightarrow> 'o lua_objs \<Rightarrow> 'o option \<times> 'o lua_objs" where
  "delete_lua_obj handle m = (om_table m handle, m\<lparr>om_table := (om_table m)(handle := None)\<rparr>)"

definition get_obj :: "u32 \<Rightarrow> 'o lua_objs \<Rightarrow> 'o option" where
  "get_obj handle m = om_table m handle"

definition set_lua_obj :: "u32 \<Rightarrow> 'o \<Rightarrow> 'o lua_objs \<Rightarrow> 'o lua_objs" where
  "set_lua_obj handle ob m =
     (if om_table m handle = None then m else m\<lparr>om_table := (om_table m)(handle \<mapsto> ob)\<rparr>)"

definition handle_of :: "int \<Rightarrow> u32" where
  "handle_of n = word_of_int n"

text \<open>
  Handles handed out since a counter of \<open>n\<close>: as long as fewer than \<open>2 ^ 32\<close> of them, a new one is not in
  use and not 0.
\<close>

definition handles_fresh :: "nat \<Rightarrow> 'o lua_objs \<Rightarrow> bool" where
  "handles_fresh n m \<longleftrightarrow> unat (om_counter m) = n \<and> (\<forall>h. om_table m h \<noteq> None \<longrightarrow> 0 < unat h \<and> unat h \<le> n)"

lemma new_lua_obj_fresh:
  assumes "handles_fresh n m" and "n + 1 < 2 ^ 32" and "new_lua_obj (Some ob) m = (h, m')"
  shows "om_table m h = None \<and> h \<noteq> 0 \<and> om_table m' h = Some ob
    \<and> (\<forall>k. k \<noteq> h \<longrightarrow> om_table m' k = om_table m k) \<and> handles_fresh (n + 1) m'"
proof -
  have h: "h = om_counter m + 1" "m' = m\<lparr>om_counter := h, om_table := (om_table m)(h \<mapsto> ob)\<rparr>"
    using assms(3) by (auto simp: new_lua_obj_def Let_def)
  have u: "unat h = n + 1"
    using assms(1,2) unfolding h(1) by (simp add: handles_fresh_def unat_word_ariths)
  have "om_table m h = None" using assms(1) u by (force simp: handles_fresh_def)
  moreover have "h \<noteq> 0" using u by auto
  moreover have "handles_fresh (n + 1) m'"
    using assms(1) u by (auto simp: handles_fresh_def h(2) le_Suc_eq)
  ultimately show ?thesis by (simp add: h(2))
qed

lemma new_lua_obj_old:
  assumes "new_lua_obj (Some ob) m = (h, m')"
  shows "om_table m' = (om_table m)(h \<mapsto> ob)"
  using assms by (auto simp: new_lua_obj_def Let_def)

section \<open>Handles of their own\<close>

text \<open>Fewer than \<open>n\<close> handles have been given, and each names one of \<open>count\<close> objects that no other one names.\<close>

definition handles_apart :: "nat \<Rightarrow> nat \<Rightarrow> nat lua_objs \<Rightarrow> bool" where
  "handles_apart n count m \<longleftrightarrow> handles_fresh n m \<and> (\<forall>h i. om_table m h = Some i \<longrightarrow> i < count)
     \<and> (\<forall>h h' i. om_table m h = Some i \<and> om_table m h' = Some i \<longrightarrow> h = h')"

lemma apart_new:
  assumes "handles_apart n count m" and "n + 1 < 2 ^ 32" and "new_lua_obj (Some count) m = (h, m')"
  shows "handles_apart (n + 1) (count + 1) m' \<and> om_table m' h = Some count"
proof -
  from new_lua_obj_fresh [OF _ assms(2,3)] assms(1) have
    f: "handles_fresh (n + 1) m'" "om_table m' h = Some count" "\<And>j. j \<noteq> h \<Longrightarrow> om_table m' j = om_table m j"
    by (simp_all add: handles_apart_def)
  have old: "i < count" if "om_table m' j = Some i" "j \<noteq> h" for j i
    using f(3) assms(1) that by (auto simp: handles_apart_def)
  have "j = j'" if e: "om_table m' j = Some i" "om_table m' j' = Some i" for j j' i
  proof (cases "i = count")
    case True
    with old [OF e(1)] old [OF e(2)] show ?thesis by fastforce
  next
    case False
    with e f(2) have "j \<noteq> h" "j' \<noteq> h" by auto
    with e f(3) have "om_table m j = Some i" "om_table m j' = Some i" by simp_all
    with assms(1) show ?thesis unfolding handles_apart_def by blast
  qed
  moreover have "i < count + 1" if "om_table m' j = Some i" for j i
    using that f(2) old [of j i] by (cases "j = h") auto
  ultimately show ?thesis using f(1,2) unfolding handles_apart_def by blast
qed

lemma apart_delete: "handles_apart n count m \<Longrightarrow> handles_apart n count (m\<lparr>om_table := (om_table m)(h := None)\<rparr>)"
  by (auto simp: handles_apart_def handles_fresh_def)

lemma apart_less: "handles_apart n count m \<Longrightarrow> get_obj h m = Some i \<Longrightarrow> i < count"
  by (auto simp: handles_apart_def get_obj_def)

lemma handle_of_uint [simp]: "handle_of (uint h) = h"
  by (simp add: handle_of_def)

end
