(* ===== verification/Bee_Video_Cache.thy ===== *)
theory Bee_Video_Cache
  imports Bee_Prelude Bee_IOBuffer Bee_Scanf
begin

text \<open>
  The ring buffer of src/lua/module/lua_video_cache.cpp: WriteData, ReadData and the operations that
  only move its counters. \<open>use_\<close> and \<open>tail_\<close> count what has been read and written, in 32 bits; a cell of
  the buffer is \<open>None\<close> until it is written. An operation is \<open>None\<close> when it divides by a size of zero or
  copies from or to memory outside the buffer; the memory of the caller is assumed to be large enough.

  Shown: for a size that divides \<open>2 ^ 32\<close>, as the initial one does, the cache is a queue of bytes of
  that capacity, except that a full cache whose bytes wrap around is read out of bounds; with other
  sizes the counters' wrap-around loses bytes.
\<close>

section \<open>Definitions\<close>

record video_cache =
  vc_buffer :: "byte option list"
  vc_use :: u32
  vc_tail :: u32
  vc_size :: u32

definition LuaVideoCache_new :: video_cache where
  "LuaVideoCache_new = \<lparr>vc_buffer = replicate 2097152 None, vc_use = 0, vc_tail = 0, vc_size = 2097152\<rparr>"

text \<open>\<open>memcpy\<close> out of the buffer.\<close>

definition load_at :: "'b list \<Rightarrow> nat \<Rightarrow> nat \<Rightarrow> 'b list option" where
  "load_at cs i n = (if length cs < i + n then None else Some (take n (drop i cs)))"

definition get_space_size :: "u32 \<Rightarrow> video_cache \<Rightarrow> u32" where
  "get_space_size expect_size c =
     (let space = vc_size c - (vc_tail c - vc_use c) in if expect_size > space then space else expect_size)"

definition get_data_size :: "video_cache \<Rightarrow> u32" where
  "get_data_size c = vc_tail c - vc_use c"

definition write_data :: "byte list \<Rightarrow> video_cache \<Rightarrow> (u32 \<times> video_cache) option" where
  "write_data buf c =
     (if vc_size c = 0 then None
      else
        (let tail = vc_tail c mod vc_size c; use = vc_use c mod vc_size c;
             space = get_space_size (- 1) c;
             len = (if of_nat (length buf) > space then space else of_nat (length buf));
             bytes = map Some (take (unat len) buf);
             l = vc_size c - tail
         in map_option (\<lambda>cs. (len, c\<lparr>vc_tail := vc_tail c + len, vc_buffer := cs\<rparr>))
              (if use > tail \<or> l \<ge> len then store_at (vc_buffer c) (unat tail) bytes
               else do {
                 cs \<leftarrow> store_at (vc_buffer c) (unat tail) (take (unat l) bytes);
                 store_at cs 0 (drop (unat l) bytes)
               })))"

text \<open>The bytes read; their number is what the code returns.\<close>

definition read_data :: "u32 \<Rightarrow> video_cache \<Rightarrow> (byte option list \<times> video_cache) option" where
  "read_data n c =
     (if vc_size c = 0 then None
      else
        (let tail = vc_tail c mod vc_size c; use = vc_use c mod vc_size c;
             data_size = vc_tail c - vc_use c;
             len = (if n > data_size then data_size else n);
             l = vc_size c - use
         in map_option (\<lambda>bytes. (bytes, c\<lparr>vc_use := vc_use c + len\<rparr>))
              (if use > tail \<and> l < len then do {
                 front \<leftarrow> load_at (vc_buffer c) (unat use) (unat l);
                 rest \<leftarrow> load_at (vc_buffer c) 0 (unat (len - l));
                 Some (front @ rest)
               }
               else load_at (vc_buffer c) (unat use) (unat len))))"

definition clear_data :: "video_cache \<Rightarrow> video_cache" where
  "clear_data c = c\<lparr>vc_use := 0, vc_tail := 0\<rparr>"

definition skip_data :: "u32 \<Rightarrow> video_cache \<Rightarrow> u32 \<times> video_cache" where
  "skip_data n c =
     (let data_size = vc_tail c - vc_use c
      in if data_size > n then (n, c\<lparr>vc_use := vc_use c + n\<rparr>)
         else (data_size, c\<lparr>vc_use := 0, vc_tail := 0\<rparr>))"

definition reset_size :: "u32 \<Rightarrow> video_cache \<Rightarrow> video_cache option" where
  "reset_size n c =
     (case read_data n c of
        None \<Rightarrow> None
      | Some (bytes, c1) \<Rightarrow>
          Some (c1\<lparr>vc_buffer := bytes @ replicate (unat n - length bytes) None, vc_use := 0,
            vc_tail := of_nat (length bytes), vc_size := n\<rparr>))"

section \<open>The queue it implements\<close>

text \<open>The cell \<open>i\<close> places behind the first unread one, and the content from there.\<close>

definition ring_at :: "video_cache \<Rightarrow> nat \<Rightarrow> byte option" where
  "ring_at c i = vc_buffer c ! ((unat (vc_use c) + i) mod unat (vc_size c))"

definition cache_content :: "video_cache \<Rightarrow> byte option list" where
  "cache_content c = map (ring_at c) [0..<unat (vc_tail c - vc_use c)]"

definition cache_wf :: "video_cache \<Rightarrow> bool" where
  "cache_wf c \<longleftrightarrow> length (vc_buffer c) = unat (vc_size c) \<and> 0 < unat (vc_size c)
     \<and> unat (vc_size c) dvd 2 ^ 32 \<and> unat (vc_tail c - vc_use c) \<le> unat (vc_size c)"

text \<open>Where the unread bytes begin in the buffer.\<close>

definition ring_begin :: "video_cache \<Rightarrow> nat" where
  "ring_begin c = unat (vc_use c) mod unat (vc_size c)"

lemma length_cache_content [simp]: "length (cache_content c) = unat (get_data_size c)"
  by (simp add: cache_content_def get_data_size_def)

lemma mod_once: "a < 2 * S \<Longrightarrow> a mod S = (if a < S then a else a - S)" for a S :: nat
  by (simp add: le_mod_geq)

lemma u32_sum_mod: "S dvd 2 ^ 32 \<Longrightarrow> unat (a + b :: u32) mod S = (unat a + unat b) mod S"
  by (simp add: unat_word_ariths mod_mod_cancel)

lemma unat_mod_u32: "unat (a mod b :: u32) = unat a mod unat b"
  by (rule unat_mod_distrib)

text \<open>Begin, number of bytes and end of a well-formed ring.\<close>

lemma ring_positions:
  assumes "cache_wf c"
  shows "unat (vc_use c mod vc_size c) = ring_begin c"
    and "unat (vc_tail c mod vc_size c) = (ring_begin c + unat (get_data_size c)) mod unat (vc_size c)"
    and "ring_begin c < unat (vc_size c)"
proof -
  show "unat (vc_use c mod vc_size c) = ring_begin c" by (simp add: ring_begin_def unat_mod_u32)
  have "vc_tail c = vc_use c + get_data_size c" by (simp add: get_data_size_def)
  then have "unat (vc_tail c mod vc_size c) = unat (vc_use c + get_data_size c) mod unat (vc_size c)"
    by (simp add: unat_mod_u32)
  also have "\<dots> = (unat (vc_use c) + unat (get_data_size c)) mod unat (vc_size c)"
    using assms by (simp add: u32_sum_mod cache_wf_def)
  finally show "unat (vc_tail c mod vc_size c) = (ring_begin c + unat (get_data_size c)) mod unat (vc_size c)"
    by (simp add: ring_begin_def mod_add_left_eq)
  show "ring_begin c < unat (vc_size c)" using assms by (simp add: ring_begin_def cache_wf_def)
qed

lemma store_at_nth:
  assumes "store_at cs i src = Some cs'"
  shows "length cs' = length cs"
    and "j < length cs \<Longrightarrow> cs' ! j = (if i \<le> j \<and> j < i + length src then src ! (j - i) else cs ! j)"
  using assms by (auto simp: store_at_def nth_append split: if_splits)

text \<open>Storing behind the last unread byte, in one piece or in two.\<close>

lemma ring_store:
  fixes cs :: "'b option list"
  assumes "length cs = S" and "u < S" and "D + length bytes \<le> S" and "t = (u + D) mod S" and "l = S - t"
  shows "\<exists>cs'. (if u > t \<or> l \<ge> length bytes then store_at cs t bytes
      else do { cs1 \<leftarrow> store_at cs t (take l bytes); store_at cs1 0 (drop l bytes) }) = Some cs'
    \<and> length cs' = S
    \<and> (\<forall>i < D + length bytes. cs' ! ((u + i) mod S) = (if i < D then cs ! ((u + i) mod S) else bytes ! (i - D)))"
proof -
  let ?n = "length bytes"
  have S: "cs \<noteq> []" "0 < S" using assms(1,2) by auto
  have t: "t = (if u + D < S then u + D else u + D - S)" using assms(2-4) by (simp add: mod_once)
  have at: "(u + i) mod S = (if u + i < S then u + i else u + i - S)" if "i < D + ?n" for i
    using that assms(2,3) by (simp add: mod_once)
  show ?thesis
  proof (cases "u > t \<or> l \<ge> ?n")
    case True
    then have fit: "t + ?n \<le> S" using assms(2,3,5) t by (auto split: if_splits)
    then obtain cs' where cs': "store_at cs t bytes = Some cs'" using S(1) assms(1) by (simp add: store_at_def)
    note nth = store_at_nth [OF cs']
    have "cs' ! ((u + i) mod S) = (if i < D then cs ! ((u + i) mod S) else bytes ! (i - D))" if "i < D + ?n" for i
    proof -
      have j: "(u + i) mod S < length cs" using S(2) assms(1) by simp
      show ?thesis
        unfolding nth(2) [OF j] unfolding at [OF that] using t fit assms(2,3) that True assms(5) by (auto split: if_splits)
    qed
    with True cs' nth(1) assms(1) show ?thesis by auto
  next
    case False
    then have l: "l < ?n" "u \<le> t" by auto
    have tl: "t < S" using assms(2,4) by simp
    obtain cs1 where cs1: "store_at cs t (take l bytes) = Some cs1"
      using S(1) l(1) tl assms(1,5) by (simp add: store_at_def)
    note nth1 = store_at_nth [OF cs1]
    have "store_at cs1 0 (drop l bytes) \<noteq> None"
      using nth1(1) S(1) assms(1,3,5) l by (auto simp: store_at_def)
    then obtain cs' where cs': "store_at cs1 0 (drop l bytes) = Some cs'" by blast
    note nth2 = store_at_nth [OF cs']
    have "cs' ! ((u + i) mod S) = (if i < D then cs ! ((u + i) mod S) else bytes ! (i - D))" if i: "i < D + ?n" for i
    proof -
      have j: "(u + i) mod S < length cs" "(u + i) mod S < length cs1" using S(2) assms(1) nth1(1) by simp_all
      show ?thesis
        unfolding nth2(2) [OF j(2)] nth1(2) [OF j(1)] unfolding at [OF i] using t tl assms(2,3,5) i l by (auto split: if_splits)
    qed
    with False cs1 cs' nth1(1) nth2(1) assms(1) show ?thesis by auto
  qed
qed

lemma word_unat_inv: "unat (w :: u32) = n \<Longrightarrow> w = of_nat n"
  by auto

lemma get_space_size_all:
  assumes "cache_wf c"
  shows "unat (get_space_size (- 1) c) = unat (vc_size c) - length (cache_content c)"
proof -
  have "get_data_size c \<le> vc_size c" using assms by (simp add: cache_wf_def get_data_size_def word_le_nat_alt)
  then have "unat (vc_size c - get_data_size c) = unat (vc_size c) - unat (get_data_size c)" by (rule unat_sub)
  moreover have "get_space_size (- 1) c = vc_size c - get_data_size c"
    using word_order.not_eq_extremum [of "vc_size c - get_data_size c"]
    by (auto simp: get_space_size_def get_data_size_def Let_def)
  ultimately show ?thesis by simp
qed

lemma write_data_appends:
  assumes "cache_wf c" and "length buf < 2 ^ 32"
  defines "n \<equiv> min (length buf) (unat (vc_size c) - length (cache_content c))"
  shows "\<exists>c'. write_data buf c = Some (of_nat n, c') \<and> cache_wf c' \<and> vc_size c' = vc_size c
    \<and> cache_content c' = cache_content c @ map Some (take n buf) \<and> vc_use c' = vc_use c"
proof -
  let ?S = "unat (vc_size c)" and ?D = "unat (get_data_size c)" and ?u = "ring_begin c"
  let ?bytes = "map Some (take n buf)" and ?t = "unat (vc_tail c mod vc_size c)"
  note wf = assms(1) [unfolded cache_wf_def] and pos = ring_positions [OF assms(1)]
  have S0: "vc_size c \<noteq> 0" using wf by auto
  have lb: "unat (of_nat (length buf) :: u32) = length buf" using assms(2) by (simp add: unat_of_nat)
  have len: "(if of_nat (length buf) > get_space_size (- 1) c then get_space_size (- 1) c else of_nat (length buf))
      = (of_nat n :: u32)"
  proof -
    have "unat (if of_nat (length buf) > get_space_size (- 1) c then get_space_size (- 1) c else of_nat (length buf)) = n"
      using get_space_size_all [OF assms(1)] lb by (simp add: n_def word_less_nat_alt)
    then show ?thesis by (rule word_unat_inv)
  qed
  have n: "unat (of_nat n :: u32) = n" using assms(2) by (simp add: n_def unat_of_nat)
  have lt: "unat (vc_size c - vc_tail c mod vc_size c) = ?S - ?t"
    using pos(2,3) wf by (subst unat_sub) (simp_all add: word_le_nat_alt unat_mod_u32)
  have bl: "length ?bytes = n" by (simp add: n_def)
  have D: "?D \<le> ?S" using wf by (simp add: get_data_size_def)
  have fit: "?D + length ?bytes \<le> ?S" using D unfolding bl by (simp add: n_def)
  from ring_store [OF _ pos(3) fit pos(2) refl, of "vc_buffer c"] wf obtain cs where
    cs: "(if ?u > ?t \<or> ?S - ?t \<ge> n then store_at (vc_buffer c) ?t ?bytes
      else do { cs1 \<leftarrow> store_at (vc_buffer c) ?t (take (?S - ?t) ?bytes); store_at cs1 0 (drop (?S - ?t) ?bytes) }) = Some cs"
    "length cs = ?S"
    "\<forall>i < ?D + n. cs ! ((?u + i) mod ?S) = (if i < ?D then vc_buffer c ! ((?u + i) mod ?S) else ?bytes ! (i - ?D))"
    unfolding bl by blast
  let ?c = "c\<lparr>vc_tail := vc_tail c + of_nat n, vc_buffer := cs\<rparr>"
  have w: "write_data buf c = Some (of_nat n, ?c)"
    using S0 cs(1) unfolding write_data_def Let_def len
    by (auto simp: n lt pos(1) word_less_nat_alt word_le_nat_alt split: if_splits)
  have d: "vc_tail ?c - vc_use ?c = get_data_size c + of_nat n" by (simp add: get_data_size_def)
  have "?S < 2 ^ 32" using unsigned_less [of "vc_size c", where 'a = nat] by simp
  then have "?D + n < 2 ^ 32" using fit bl by simp
  then have dn: "unat (vc_tail ?c - vc_use ?c) = ?D + n" unfolding d by (subst unat_add_lem [THEN iffD1]) (simp_all add: n)
  have ring: "(unat (vc_use c) + i) mod ?S = (?u + i) mod ?S" for i by (simp add: ring_begin_def mod_add_left_eq)
  have "cache_content ?c = cache_content c @ ?bytes"
  proof (rule nth_equalityI)
    show "length (cache_content ?c) = length (cache_content c @ ?bytes)" unfolding length_append length_cache_content bl get_data_size_def
      using dn by (simp add: get_data_size_def)
    fix i assume "i < length (cache_content ?c)"
    then have i: "i < ?D + n" using dn by (simp add: get_data_size_def)
    then have "cache_content ?c ! i = cs ! ((?u + i) mod ?S)" using dn ring by (simp add: cache_content_def ring_at_def)
    also have "\<dots> = (cache_content c @ ?bytes) ! i"
      using cs(3) i ring by (simp add: nth_append cache_content_def ring_at_def get_data_size_def)
    finally show "cache_content ?c ! i = (cache_content c @ ?bytes) ! i" .
  qed
  moreover have "cache_wf ?c" using wf cs(2) dn fit bl by (simp add: cache_wf_def)
  ultimately show ?thesis using w by simp
qed

text \<open>Reading \<open>n\<close> bytes needs them in one piece unless the end of the unread bytes is before their begin.\<close>

lemma ring_load:
  fixes cs :: "'b list"
  assumes "length cs = S" and "u < S" and "n \<le> D" and "D \<le> S" and "t = (u + D) mod S" and "l = S - u"
    and "D < S \<or> u + n \<le> S"
  shows "(if u > t \<and> l < n then do { front \<leftarrow> load_at cs u l; rest \<leftarrow> load_at cs 0 (n - l); Some (front @ rest) }
      else load_at cs u n) = Some (map (\<lambda>i. cs ! ((u + i) mod S)) [0..<n])"
proof -
  have t: "t = (if u + D < S then u + D else u + D - S)" using assms(2,4,5) by (simp add: mod_once)
  have at: "(u + i) mod S = (if u + i < S then u + i else u + i - S)" if "i < n" for i
    using that assms(2-4) by (simp add: mod_once)
  show ?thesis
  proof (cases "u > t \<and> l < n")
    case True
    have "take l (drop u cs) @ take (n - l) cs = map (\<lambda>i. cs ! ((u + i) mod S)) [0..<n]"
      by (rule nth_equalityI) (use True assms at in \<open>auto simp: nth_append add.commute\<close>)
    with True assms show ?thesis by (auto simp: load_at_def)
  next
    case False
    then have fit: "u + n \<le> S" using assms t by (auto split: if_splits)
    then have "take n (drop u cs) = map (\<lambda>i. cs ! ((u + i) mod S)) [0..<n]"
      using assms(1) at by (intro nth_equalityI) auto
    with False fit assms(1) show ?thesis by (auto simp: load_at_def)
  qed
qed

lemma read_data_takes:
  assumes "cache_wf c" and "length (cache_content c) < unat (vc_size c)
      \<or> ring_begin c + min (unat n) (length (cache_content c)) \<le> unat (vc_size c)"
  shows "\<exists>c'. read_data n c = Some (take (unat n) (cache_content c), c') \<and> cache_wf c' \<and> vc_size c' = vc_size c
    \<and> cache_content c' = drop (unat n) (cache_content c)
    \<and> vc_use c' = vc_use c + of_nat (length (take (unat n) (cache_content c)))"
proof -
  let ?S = "unat (vc_size c)" and ?D = "unat (get_data_size c)" and ?u = "ring_begin c"
  let ?t = "unat (vc_tail c mod vc_size c)"
  define len where "len = (if n > get_data_size c then get_data_size c else n)"
  note wf = assms(1) [unfolded cache_wf_def] and pos = ring_positions [OF assms(1)]
  have S0: "vc_size c \<noteq> 0" using wf by auto
  have D: "?D \<le> ?S" using wf by (simp add: get_data_size_def)
  have len: "unat len = min (unat n) ?D" by (auto simp: len_def word_less_nat_alt min_def)
  have lu: "unat (vc_size c - vc_use c mod vc_size c) = ?S - ?u"
    using pos(1,3) by (subst unat_sub) (simp_all add: word_le_nat_alt)
  have "?D < ?S \<or> ?u + unat len \<le> ?S" using assms(2) len by auto
  from ring_load [OF _ pos(3) _ D pos(2) refl this, of "vc_buffer c"] wf len
  have ld: "(if ?u > ?t \<and> ?S - ?u < unat len
      then do { front \<leftarrow> load_at (vc_buffer c) ?u (?S - ?u); rest \<leftarrow> load_at (vc_buffer c) 0 (unat len - (?S - ?u)); Some (front @ rest) }
      else load_at (vc_buffer c) ?u (unat len)) = Some (map (\<lambda>i. vc_buffer c ! ((?u + i) mod ?S)) [0..<unat len])" by simp
  let ?c = "c\<lparr>vc_use := vc_use c + len\<rparr>"
  have ring: "(unat (vc_use c) + i) mod ?S = (?u + i) mod ?S" for i by (simp add: ring_begin_def mod_add_left_eq)
  have content: "map (\<lambda>i. vc_buffer c ! ((?u + i) mod ?S)) [0..<unat len] = take (unat n) (cache_content c)"
    using len ring by (intro nth_equalityI) (simp_all add: cache_content_def ring_at_def get_data_size_def)
  have sub: "unat (len - (vc_size c - vc_use c mod vc_size c)) = unat len - (?S - ?u)"
    if "vc_size c - vc_use c mod vc_size c < len"
    using that lu by (subst unat_sub) (simp_all add: word_less_nat_alt word_le_nat_alt)
  have r: "read_data n c = Some (take (unat n) (cache_content c), ?c)"
    using S0 ld sub unfolding read_data_def Let_def get_data_size_def [symmetric] len_def [symmetric]
    by (auto simp: lu pos(1) word_less_nat_alt content split: if_splits)
  have d: "vc_tail ?c - vc_use ?c = get_data_size c - len" by (simp add: get_data_size_def)
  have dn: "unat (vc_tail ?c - vc_use ?c) = ?D - unat len"
    unfolding d using len by (subst unat_sub) (simp_all add: word_le_nat_alt)
  have "(unat (vc_use c + len) + i) mod ?S = (?u + (unat len + i)) mod ?S" for i
  proof -
    have "(unat (vc_use c + len) + i) mod ?S = ((unat (vc_use c) + unat len) mod ?S + i) mod ?S"
      using wf by (simp add: u32_sum_mod flip: mod_add_left_eq [of "unat (vc_use c + len)"])
    then show ?thesis by (simp add: ring_begin_def mod_add_left_eq add.assoc)
  qed
  then have "ring_at ?c i = ring_at c (unat len + i)" for i by (simp add: ring_at_def ring)
  then have "cache_content ?c = drop (unat len) (cache_content c)"
    using dn by (intro nth_equalityI) (simp_all add: cache_content_def get_data_size_def)
  moreover have "drop (unat len) (cache_content c) = drop (unat n) (cache_content c)" using len by (auto simp: min_def)
  moreover have "cache_wf ?c" using wf dn D by (simp add: cache_wf_def)
  moreover have "len = of_nat (length (take (unat n) (cache_content c)))"
    using len by (intro word_unat_inv) (simp add: min.commute)
  ultimately show ?thesis using r by simp
qed

text \<open>A full cache whose unread bytes wrap around: begin and end coincide, and reading runs past the end.\<close>

lemma read_data_overruns:
  assumes "cache_wf c" and "length (cache_content c) = unat (vc_size c)"
    and "unat (vc_size c) < ring_begin c + min (unat n) (length (cache_content c))"
  shows "read_data n c = None"
proof -
  let ?S = "unat (vc_size c)" and ?u = "ring_begin c"
  note pos = ring_positions [OF assms(1)]
  have "(?u + ?S) mod ?S = ?u" using pos(3) by simp
  with pos(1,2) assms(2) have t: "vc_tail c mod vc_size c = vc_use c mod vc_size c"
    by (metis length_cache_content word_unat_inv)
  have "unat (if n > get_data_size c then get_data_size c else n) = min (unat n) ?S"
    using assms(2) by (auto simp: word_less_nat_alt min_def)
  with assms(1,3) assms(2) pos(1) t show ?thesis
    unfolding read_data_def Let_def get_data_size_def [symmetric]
    by (auto simp: load_at_def cache_wf_def)
qed

lemma clear_data_empties:
  "cache_wf c \<Longrightarrow> cache_wf (clear_data c) \<and> cache_content (clear_data c) = [] \<and> vc_size (clear_data c) = vc_size c"
  by (simp add: clear_data_def cache_wf_def cache_content_def)

lemma skip_data_drops:
  assumes "cache_wf c"
  shows "\<exists>c'. skip_data n c = (of_nat (min (unat n) (length (cache_content c))), c') \<and> cache_wf c'
    \<and> cache_content c' = drop (unat n) (cache_content c) \<and> vc_size c' = vc_size c"
proof (cases "n < get_data_size c")
  case True
  let ?c = "c\<lparr>vc_use := vc_use c + n\<rparr>" and ?S = "unat (vc_size c)"
  have n: "unat n < unat (get_data_size c)" using True by (simp add: word_less_nat_alt)
  have e: "vc_tail ?c - vc_use ?c = get_data_size c - n" by (simp add: get_data_size_def)
  have d: "unat (vc_tail ?c - vc_use ?c) = unat (get_data_size c) - unat n"
    unfolding e using n by (simp add: unat_sub word_le_nat_alt)
  have "(unat (vc_use c + n) + i) mod ?S = (unat (vc_use c) + (unat n + i)) mod ?S" for i
  proof -
    have "(unat (vc_use c + n) + i) mod ?S = ((unat (vc_use c) + unat n) mod ?S + i) mod ?S"
      using assms by (simp add: u32_sum_mod cache_wf_def flip: mod_add_left_eq [of "unat (vc_use c + n)"])
    then show ?thesis by (simp add: mod_add_left_eq add.assoc)
  qed
  then have "ring_at ?c i = ring_at c (unat n + i)" for i by (simp add: ring_at_def)
  then have "cache_content ?c = drop (unat n) (cache_content c)"
    using d by (intro nth_equalityI) (simp_all add: cache_content_def get_data_size_def)
  moreover have "cache_wf ?c" using assms d by (auto simp: cache_wf_def get_data_size_def)
  ultimately show ?thesis using True n by (simp add: skip_data_def get_data_size_def)
next
  case False
  then have "unat (get_data_size c) \<le> unat n" by (simp add: word_le_nat_alt not_less)
  with False clear_data_empties [OF assms] show ?thesis
    by (simp add: skip_data_def clear_data_def get_data_size_def Let_def)
qed

section \<open>The cache is a queue\<close>

text \<open>Calls of a script and what they answer, on the cache and on a queue of capacity \<open>k\<close>.\<close>

datatype cache_call = Write_Data "byte list" | Read_Data u32 | Skip_Data u32 | Clear_Data | Get_Data_Size

datatype cache_answer = Accepted u32 | Got "byte option list" | Size u32 | Cleared

fun cache_call_run :: "cache_call \<Rightarrow> video_cache \<Rightarrow> (cache_answer \<times> video_cache) option" where
  "cache_call_run (Write_Data buf) c = map_option (\<lambda>(n, c'). (Accepted n, c')) (write_data buf c)"
| "cache_call_run (Read_Data n) c = map_option (\<lambda>(bs, c'). (Got bs, c')) (read_data n c)"
| "cache_call_run (Skip_Data n) c = (let (k, c') = skip_data n c in Some (Size k, c'))"
| "cache_call_run Clear_Data c = Some (Cleared, clear_data c)"
| "cache_call_run Get_Data_Size c = Some (Size (get_data_size c), c)"

fun cache_calls_run :: "cache_call list \<Rightarrow> video_cache \<Rightarrow> (cache_answer list \<times> video_cache) option" where
  "cache_calls_run [] c = Some ([], c)"
| "cache_calls_run (x # xs) c =
     (case cache_call_run x c of
        None \<Rightarrow> None
      | Some (a, c1) \<Rightarrow> map_option (\<lambda>(as, c2). (a # as, c2)) (cache_calls_run xs c1))"

fun queue_call :: "nat \<Rightarrow> cache_call \<Rightarrow> byte option list \<Rightarrow> cache_answer \<times> byte option list" where
  "queue_call k (Write_Data buf) q =
     (let n = min (length buf) (k - length q) in (Accepted (of_nat n), q @ map Some (take n buf)))"
| "queue_call k (Read_Data n) q = (Got (take (unat n) q), drop (unat n) q)"
| "queue_call k (Skip_Data n) q = (Size (of_nat (min (unat n) (length q))), drop (unat n) q)"
| "queue_call k Clear_Data q = (Cleared, [])"
| "queue_call k Get_Data_Size q = (Size (of_nat (length q)), q)"

fun queue_calls :: "nat \<Rightarrow> cache_call list \<Rightarrow> byte option list \<Rightarrow> cache_answer list \<times> byte option list" where
  "queue_calls k [] q = ([], q)"
| "queue_calls k (x # xs) q =
     (let (a, q1) = queue_call k x q; (as, q2) = queue_calls k xs q1 in (a # as, q2))"

text \<open>No call writes \<open>2 ^ 32\<close> bytes or more, and none reads a queue that is full.\<close>

fun never_full :: "nat \<Rightarrow> cache_call list \<Rightarrow> byte option list \<Rightarrow> bool" where
  "never_full k [] q = True"
| "never_full k (x # xs) q \<longleftrightarrow>
     (case x of Write_Data buf \<Rightarrow> length buf < 2 ^ 32 | Read_Data n \<Rightarrow> length q < k | _ \<Rightarrow> True)
     \<and> never_full k xs (snd (queue_call k x q))"

lemma cache_call_simulates:
  assumes "cache_wf c" and "never_full (unat (vc_size c)) [x] (cache_content c)"
  shows "\<exists>c'. cache_call_run x c = Some (fst (queue_call (unat (vc_size c)) x (cache_content c)), c') \<and> cache_wf c'
    \<and> vc_size c' = vc_size c \<and> cache_content c' = snd (queue_call (unat (vc_size c)) x (cache_content c))"
proof (cases x)
  case (Write_Data buf)
  with write_data_appends [OF assms(1), of buf] assms(2) show ?thesis by (auto simp: Let_def)
next
  case (Read_Data n)
  with read_data_takes [OF assms(1), of n] assms(2) show ?thesis by auto
next
  case (Skip_Data n)
  with skip_data_drops [OF assms(1), of n] show ?thesis by auto
next
  case Clear_Data
  with clear_data_empties [OF assms(1)] show ?thesis by simp
next
  case Get_Data_Size
  with assms(1) show ?thesis by simp
qed

text \<open>
  C19: the video cache is a queue. For a well-formed cache whose size divides 2^32, whatever sequence of
  writes, reads, skips and clears a script makes, and however often the ring and the 32 bit counters
  wrap around: every call returns, no memory outside the buffer is touched, the answers are those of a
  queue of that capacity, and the unread bytes are that queue's. Only reads of a full cache are excluded.
\<close>

theorem video_cache_is_queue:
  assumes "cache_wf c" and "never_full (unat (vc_size c)) xs (cache_content c)"
  shows "\<exists>c'. cache_calls_run xs c = Some (fst (queue_calls (unat (vc_size c)) xs (cache_content c)), c')
    \<and> cache_wf c' \<and> cache_content c' = snd (queue_calls (unat (vc_size c)) xs (cache_content c))"
  using assms
proof (induction xs arbitrary: c)
  case Nil
  then show ?case by simp
next
  case (Cons x xs)
  have "never_full (unat (vc_size c)) [x] (cache_content c)" using Cons.prems(2) by simp
  from cache_call_simulates [OF Cons.prems(1) this] obtain c1 where
    c1: "cache_call_run x c = Some (fst (queue_call (unat (vc_size c)) x (cache_content c)), c1)" "cache_wf c1"
    "vc_size c1 = vc_size c" "cache_content c1 = snd (queue_call (unat (vc_size c)) x (cache_content c))" by blast
  have "never_full (unat (vc_size c1)) xs (cache_content c1)" using Cons.prems(2) c1(3,4) by simp
  from Cons.IH [OF c1(2) this] c1 show ?case by (auto simp: Let_def split: prod.splits)
qed

lemma LuaVideoCache_new_wf: "cache_wf LuaVideoCache_new" and LuaVideoCache_new_content: "cache_content LuaVideoCache_new = []"
proof -
  have "(2097152 :: nat) dvd 2 ^ 32" by (rule dvdI [of _ _ 2048]) simp
  then show "cache_wf LuaVideoCache_new" by (simp add: cache_wf_def LuaVideoCache_new_def)
  show "cache_content LuaVideoCache_new = []" by (simp add: cache_content_def LuaVideoCache_new_def)
qed

theorem video_cache_is_queue_witness:
  "\<exists>c'. cache_calls_run [Write_Data [1, 2, 3], Read_Data 2, Write_Data [4], Read_Data 7] LuaVideoCache_new
      = Some ([Accepted 3, Got [Some 1, Some 2], Accepted 1, Got [Some 3, Some 4]], c') \<and> cache_wf c'"
proof -
  let ?xs = "[Write_Data [1, 2, 3], Read_Data 2, Write_Data [4], Read_Data 7]"
  have s: "unat (vc_size LuaVideoCache_new) = 2097152" by (simp add: LuaVideoCache_new_def)
  have "never_full (unat (vc_size LuaVideoCache_new)) ?xs (cache_content LuaVideoCache_new)"
    by (simp add: s LuaVideoCache_new_content)
  from video_cache_is_queue [OF LuaVideoCache_new_wf this] show ?thesis
    by (simp add: s LuaVideoCache_new_content Let_def) blast
qed

text \<open>
  A full cache cannot be read across its end. ReadData copies from memory behind the buffer exactly
  when the cache is full and the bytes asked for go past the end of the buffer: begin and end then
  coincide, and the code takes them to be in one piece.
\<close>

theorem full_cache_read_overruns:
  assumes "cache_wf c"
  shows "read_data n c = None \<longleftrightarrow> length (cache_content c) = unat (vc_size c)
    \<and> unat (vc_size c) < ring_begin c + min (unat n) (length (cache_content c))"
proof -
  let ?S = "unat (vc_size c)"
  have le: "length (cache_content c) \<le> ?S" using assms by (simp add: cache_wf_def get_data_size_def)
  show ?thesis
  proof (cases "length (cache_content c) = ?S \<and> ?S < ring_begin c + min (unat n) (length (cache_content c))")
    case True
    with read_data_overruns [OF assms] show ?thesis by blast
  next
    case False
    with le have "length (cache_content c) < ?S \<or> ring_begin c + min (unat n) (length (cache_content c)) \<le> ?S"
      by (simp only: not_less de_Morgan_conj) linarith
    from read_data_takes [OF assms this] False show ?thesis by auto
  qed
qed

text \<open>Four bytes, one of them read again, and four more: the cache is full from its second cell on.\<close>

definition demo_cache :: video_cache where
  "demo_cache = \<lparr>vc_buffer = [Some 5, Some 2, Some 3, Some 4], vc_use = 1, vc_tail = 5, vc_size = 4\<rparr>"

lemma demo_cache_wf: "cache_wf demo_cache"
  by (simp add: cache_wf_def demo_cache_def)

theorem full_cache_read_overruns_witness:
  "read_data 4 demo_cache = None \<and> read_data 3 demo_cache \<noteq> None"
  using full_cache_read_overruns [OF demo_cache_wf, of 4] full_cache_read_overruns [OF demo_cache_wf, of 3]
  by (simp add: demo_cache_def ring_begin_def get_data_size_def)

text \<open>
  With a size that does not divide 2^32 the cache loses bytes when its counters wrap around: a cache
  of three bytes, empty, whose counters are at their maximum, accepts two bytes one after the other and
  stores both in the same cell.
\<close>

theorem cache_counter_wrap_loses:
  assumes "vc_size c = 3" and "length (vc_buffer c) = 3" and "vc_use c = - 1" and "vc_tail c = - 1"
  shows "\<exists>c1 c2 c3 cell. write_data [a] c = Some (1, c1) \<and> write_data [b] c1 = Some (1, c2)
    \<and> read_data 2 c2 = Some ([Some b, cell], c3) \<and> cell = vc_buffer c ! 1"
proof -
  from assms(2) obtain x y z where b: "vc_buffer c = [x, y, z]"
    by (auto simp: length_Suc_conv eval_nat_numeral)
  have m: "(- 1 :: u32) mod 3 = 0" by simp
  have lt: "(3 :: u32) < - 1" "(2 :: u32) < - 1" by simp_all
  let ?c1 = "c\<lparr>vc_tail := 0, vc_buffer := [Some a, y, z]\<rparr>"
  have 1: "write_data [a] c = Some (1, ?c1)"
    using assms m by (simp add: write_data_def get_space_size_def store_at_def b Let_def lt)
  let ?c2 = "c\<lparr>vc_tail := 1, vc_buffer := [Some b, y, z]\<rparr>"
  have 2: "write_data [b] ?c1 = Some (1, ?c2)"
    using assms m by (simp add: write_data_def get_space_size_def store_at_def b Let_def lt)
  have 3: "read_data 2 ?c2 = Some ([Some b, y], ?c2\<lparr>vc_use := 1\<rparr>)"
    using assms m by (simp add: read_data_def load_at_def b Let_def)
  from 1 2 3 show ?thesis by (simp add: b)
qed

theorem cache_counter_wrap_loses_witness:
  "\<exists>c c1 c2 c3. write_data [7] c = Some (1, c1) \<and> write_data [8] c1 = Some (1, c2)
    \<and> read_data 2 c2 = Some ([Some 8, None], c3)"
proof -
  let ?c = "\<lparr>vc_buffer = [None, None, None], vc_use = - 1, vc_tail = - 1, vc_size = 3\<rparr>"
  have "vc_size ?c = 3" "length (vc_buffer ?c) = 3" "vc_use ?c = - 1" "vc_tail ?c = - 1" by simp_all
  from cache_counter_wrap_loses [OF this, of 7 8] show ?thesis by auto
qed

text \<open>A new size keeps what fits, from the front.\<close>

lemma reset_size_keeps:
  assumes "cache_wf c" and "0 < unat n" and "unat n dvd 2 ^ 32"
    and "length (cache_content c) < unat (vc_size c) \<or> ring_begin c + min (unat n) (length (cache_content c)) \<le> unat (vc_size c)"
  shows "\<exists>c'. reset_size n c = Some c' \<and> cache_wf c' \<and> cache_content c' = take (unat n) (cache_content c)"
proof -
  from read_data_takes [OF assms(1,4)] obtain c1 where
    c1: "read_data n c = Some (take (unat n) (cache_content c), c1)" by blast
  let ?b = "take (unat n) (cache_content c)"
  have "length ?b \<le> unat n" by simp
  moreover have "unat n < 2 ^ 32" using unsigned_less [of n, where 'a = nat] by simp
  ultimately have l: "unat (of_nat (length ?b) :: u32) = length ?b" by (simp add: unat_of_nat)
  let ?c = "c1\<lparr>vc_buffer := ?b @ replicate (unat n - length ?b) None, vc_use := 0,
    vc_tail := of_nat (length ?b), vc_size := n\<rparr>"
  have "cache_wf ?c" using assms(2,3) l by (simp add: cache_wf_def)
  moreover have "cache_content ?c = ?b"
    using l assms(2) by (intro nth_equalityI) (simp_all add: cache_content_def ring_at_def nth_append)
  ultimately show ?thesis using c1 by (simp add: reset_size_def)
qed

section \<open>The cache as a source of fields\<close>

definition cache_fetch :: "video_cache fetch" where
  "cache_fetch n c = read_data (of_nat n) c"

definition cache_readable :: "video_cache \<Rightarrow> bool" where
  "cache_readable c \<longleftrightarrow> cache_wf c \<and> (length (cache_content c) = unat (vc_size c) \<longrightarrow> ring_begin c = 0)"

interpretation vc: byte_source cache_fetch cache_content cache_readable
proof
  fix c :: video_cache and n :: nat
  assume ok: "cache_readable c" and n: "n \<le> length (cache_content c)" "n < 2 ^ 32"
  then have wf: "cache_wf c" by (simp add: cache_readable_def)
  have le: "length (cache_content c) \<le> unat (vc_size c)" using wf by (simp add: cache_wf_def get_data_size_def)
  have u: "unat (of_nat n :: u32) = n" using n(2) by (simp add: unat_of_nat)
  have "length (cache_content c) < unat (vc_size c)
      \<or> ring_begin c + min (unat (of_nat n :: u32)) (length (cache_content c)) \<le> unat (vc_size c)"
    using ok le n(1) u by (auto simp: cache_readable_def)
  from read_data_takes [OF wf this] obtain c' where
    c': "read_data (of_nat n) c = Some (take n (cache_content c), c')" "cache_wf c'" "vc_size c' = vc_size c"
    "cache_content c' = drop n (cache_content c)"
    "vc_use c' = vc_use c + of_nat (length (take n (cache_content c)))" unfolding u by blast
  have "cache_readable c'"
  proof (cases "n = 0")
    case True
    with c' ok show ?thesis by (auto simp: cache_readable_def ring_begin_def)
  next
    case False
    with c'(2-4) le n(1) have "length (cache_content c') < unat (vc_size c')" by simp
    with c'(2) show ?thesis by (simp add: cache_readable_def)
  qed
  with c' show "\<exists>c'. cache_fetch n c = Some (take n (cache_content c), c')
      \<and> cache_content c' = drop n (cache_content c) \<and> cache_readable c'" by (auto simp: cache_fetch_def)
qed

end
