(* ===== verification/Bee_Data_Promise.thy ===== *)
theory Bee_Data_Promise
  imports Bee_Video_Cache Bee_Lua_Objects
begin

text \<open>
  The promises of data (src/lua/module/lua_data_promise.h and .cpp) and the functions of the video cache
  that rest on them (lua_video_cache.cpp): a Lua coroutine that asks for more bytes than there are waits
  until a write has brought them.

  A promise is known by its identity. Pointers into memory and coroutines are numbers. What a coroutine
  does when \<open>lua_resume\<close> runs it is the function \<open>resume\<close>, which may change the cache and its promise;
  \<open>lc_events\<close> keeps in order what was stored, set and resumed. A \<open>std::promise\<close> that is waited for in
  another thread is its value. \<open>None\<close> is a read outside the cache's buffer or a value that is undefined.
\<close>

section \<open>Conditions\<close>

datatype ReadCompletionConditon =
    eReadCompletionConditon_Some | eReadCompletionConditon_Exactly | eReadCompletionConditon_Enough

definition condition_create :: "int \<Rightarrow> nat \<Rightarrow> ReadCompletionConditon \<times> nat" where
  "condition_create cond len =
     (if cond = 0 then (eReadCompletionConditon_Some, len)
      else if cond = 1 then (eReadCompletionConditon_Exactly, len)
      else (eReadCompletionConditon_Enough, len))"

fun condition_met :: "ReadCompletionConditon \<times> nat \<Rightarrow> nat \<Rightarrow> bool" where
  "condition_met (eReadCompletionConditon_Some, n) len \<longleftrightarrow> len > 0"
| "condition_met (eReadCompletionConditon_Exactly, n) len \<longleftrightarrow> len = n"
| "condition_met (eReadCompletionConditon_Enough, n) len \<longleftrightarrow> len \<ge> n"

section \<open>State\<close>

datatype promise_kind =
    Sync_Promise | Lua_Read_Promise | Wait_Until_Promise | Lua_Scanf_Promise "DataField list"

record data_promise =
  dp_id :: nat
  dp_kind :: promise_kind
  dp_buffer :: "nat option"
  dp_length :: nat
  dp_condition :: "(ReadCompletionConditon \<times> nat) option"
  dp_honored :: bool
  dp_main :: "nat option"
  dp_co :: "nat option"

datatype lua_pushed = Pushed scan_value | Pushed_Boolean bool

datatype promise_event =
    Filled nat "byte option list"
  | Value_Set nat
  | Resumed nat "lua_pushed list"

record lua_cache =
  lc_cache :: video_cache
  lc_promise :: "data_promise option"
  lc_events :: "promise_event list"

type_synonym lua_resumption = "nat \<Rightarrow> lua_pushed list \<Rightarrow> lua_cache \<Rightarrow> lua_cache option"

definition lc_tell :: "promise_event \<Rightarrow> lua_cache \<Rightarrow> lua_cache" where
  "lc_tell e c = c\<lparr>lc_events := lc_events c @ [e]\<rparr>"

definition lua_resume :: "lua_resumption \<Rightarrow> nat \<Rightarrow> lua_pushed list \<Rightarrow> lua_cache \<Rightarrow> lua_cache option" where
  "lua_resume resume co vs c = resume co vs (lc_tell (Resumed co vs) c)"

section \<open>Honouring\<close>

definition promise_completed :: "data_promise \<Rightarrow> nat \<Rightarrow> bool" where
  "promise_completed p len = (case dp_condition p of None \<Rightarrow> False | Some k \<Rightarrow> condition_met k len)"

definition sync_do_honor :: "data_promise \<Rightarrow> lua_cache \<Rightarrow> (bool \<times> lua_cache) option" where
  "sync_do_honor p c =
     (case dp_buffer p of
        None \<Rightarrow> Some (False, c)
      | Some ptr \<Rightarrow>
          if dp_length p = 0 then Some (False, c)
          else do {
            (bs, vc) \<leftarrow> read_data (of_nat (dp_length p)) (lc_cache c);
            Some (True, lc_tell (Value_Set (length bs)) (lc_tell (Filled ptr bs) (c\<lparr>lc_cache := vc\<rparr>)))
          })"

definition lua_read_do_honor :: "lua_resumption \<Rightarrow> data_promise \<Rightarrow> lua_cache \<Rightarrow> (bool \<times> lua_cache) option" where
  "lua_read_do_honor resume p c =
     (case (dp_buffer p, dp_co p, dp_main p) of
        (Some ptr, Some co, Some _) \<Rightarrow>
          if dp_length p = 0 then Some (False, c)
          else do {
            (bs, vc) \<leftarrow> read_data (of_nat (dp_length p)) (lc_cache c);
            c1 \<leftarrow> lua_resume resume co [Pushed (Pushed_Integer (int (length bs)))]
                   (lc_tell (Filled ptr bs) (c\<lparr>lc_cache := vc\<rparr>));
            Some (True, c1)
          }
      | _ \<Rightarrow> Some (False, c))"

definition wait_until_do_honor :: "lua_resumption \<Rightarrow> data_promise \<Rightarrow> lua_cache \<Rightarrow> (bool \<times> lua_cache) option" where
  "wait_until_do_honor resume p c =
     (case (dp_co p, dp_main p) of
        (Some co, Some _) \<Rightarrow>
          if dp_length p = 0 then Some (False, c)
          else do {
            c1 \<leftarrow> lua_resume resume co [Pushed_Boolean (unat (get_data_size (lc_cache c)) \<ge> dp_length p)] c;
            Some (True, c1)
          }
      | _ \<Rightarrow> Some (False, c))"

text \<open>What a call that leaves \<open>vs\<close> on the stack and answers \<open>n\<close> hands over: the topmost \<open>n\<close>.\<close>

definition handed_over :: "int \<Rightarrow> scan_value list \<Rightarrow> lua_pushed list option" where
  "handed_over n vs = (if n < 0 \<or> length vs < nat n then None else Some (map Pushed (drop (length vs - nat n) vs)))"

definition lua_scanf_do_honor ::
    "lua_resumption \<Rightarrow> DataField list \<Rightarrow> data_promise \<Rightarrow> lua_cache \<Rightarrow> (bool \<times> lua_cache) option" where
  "lua_scanf_do_honor resume format p c =
     (case (dp_co p, dp_main p) of
        (Some co, Some _) \<Rightarrow>
          do {
            (rs, vs, vc) \<leftarrow> scanf cache_fetch (- 1) True format (lc_cache c);
            if rs \<noteq> int (length format) then Some (False, c\<lparr>lc_cache := vc\<rparr>)
            else do {
              out \<leftarrow> handed_over rs vs;
              c1 \<leftarrow> lua_resume resume co out (c\<lparr>lc_cache := vc\<rparr>);
              Some (True, c1)
            }
          }
      | _ \<Rightarrow> Some (False, c))"

definition do_honor :: "lua_resumption \<Rightarrow> data_promise \<Rightarrow> lua_cache \<Rightarrow> (bool \<times> lua_cache) option" where
  "do_honor resume p c =
     (case dp_kind p of
        Sync_Promise \<Rightarrow> sync_do_honor p c
      | Lua_Read_Promise \<Rightarrow> lua_read_do_honor resume p c
      | Wait_Until_Promise \<Rightarrow> wait_until_do_honor resume p c
      | Lua_Scanf_Promise format \<Rightarrow> lua_scanf_do_honor resume format p c)"

text \<open>\<open>honored_\<close> is set once \<open>do_honor\<close> is back.\<close>

definition data_honor :: "lua_resumption \<Rightarrow> data_promise \<Rightarrow> lua_cache \<Rightarrow> (bool \<times> data_promise \<times> lua_cache) option" where
  "data_honor resume p c =
     (if dp_honored p then Some (True, p, c)
      else do {
        (ret, c1) \<leftarrow> do_honor resume p c;
        Some (ret, p\<lparr>dp_honored := ret\<rparr>, c1)
      })"

definition do_give_up :: "lua_resumption \<Rightarrow> data_promise \<Rightarrow> lua_cache \<Rightarrow> lua_cache option" where
  "do_give_up resume p c =
     (case dp_kind p of
        Sync_Promise \<Rightarrow> Some (lc_tell (Value_Set 0) c)
      | _ \<Rightarrow> (case (dp_co p, dp_main p) of
                (Some co, Some _) \<Rightarrow> lua_resume resume co [] c
              | _ \<Rightarrow> Some c))"

definition data_give_up :: "lua_resumption \<Rightarrow> data_promise \<Rightarrow> lua_cache \<Rightarrow> (data_promise \<times> lua_cache) option" where
  "data_give_up resume p c =
     (if dp_honored p then Some (p, c)
      else do {
        c1 \<leftarrow> do_give_up resume p c;
        Some (p\<lparr>dp_honored := True\<rparr>, c1)
      })"

text \<open>\<open>LuaReadPromise::wait\<close> and that of its derived classes.\<close>

definition lua_promise_wait :: "data_promise \<Rightarrow> int" where
  "lua_promise_wait p = (if dp_co p = None then - 1 else 0)"

section \<open>The cache and its promise\<close>

definition make_promise :: "lua_resumption \<Rightarrow> data_promise \<Rightarrow> lua_cache \<Rightarrow> lua_cache option" where
  "make_promise resume p c =
     (case lc_promise c of
        None \<Rightarrow> Some (c\<lparr>lc_promise := Some p\<rparr>)
      | Some old \<Rightarrow> do {
          (_, c1) \<leftarrow> data_give_up resume old c;
          Some (c1\<lparr>lc_promise := Some p\<rparr>)
        })"

definition promise_write_data :: "lua_resumption \<Rightarrow> byte list \<Rightarrow> lua_cache \<Rightarrow> (u32 \<times> lua_cache) option" where
  "promise_write_data resume buf c =
     do {
       (len, vc) \<leftarrow> write_data buf (lc_cache c);
       let c1 = c\<lparr>lc_cache := vc\<rparr>;
       c3 \<leftarrow> (case lc_promise c1 of
           None \<Rightarrow> Some c1
         | Some old \<Rightarrow>
             if \<not> promise_completed old (unat (get_data_size vc)) then Some c1
             else do {
               (_, _, c2) \<leftarrow> data_honor resume old c1;
               Some (if map_option dp_id (lc_promise c2) = Some (dp_id old) then c2\<lparr>lc_promise := None\<rparr> else c2)
             });
       Some (len, c3)
     }"

definition promise_read_data :: "lua_resumption \<Rightarrow> data_promise \<Rightarrow> lua_cache \<Rightarrow> lua_cache option" where
  "promise_read_data resume p c =
     (if promise_completed p (unat (get_data_size (lc_cache c)))
      then map_option (\<lambda>(_, _, c1). c1) (data_honor resume p c)
      else make_promise resume p c)"

section \<open>The functions for scripts\<close>

text \<open>
  What a function leaves the script with: results, a yield, or an answer to Lua that is no number of
  results (\<open>- 1\<close>).
\<close>

datatype lua_outcome = Lua_Returns "lua_pushed list" | Lua_Yields | Lua_Bad_Answer int

definition lua_thread_promise ::
    "nat \<Rightarrow> promise_kind \<Rightarrow> nat option \<Rightarrow> nat \<Rightarrow> ReadCompletionConditon \<times> nat \<Rightarrow> nat \<Rightarrow> nat option \<Rightarrow> data_promise" where
  "lua_thread_promise i kind buf len cond l main = \<lparr>dp_id = i, dp_kind = kind, dp_buffer = buf,
     dp_length = len, dp_condition = Some cond, dp_honored = False, dp_main = main, dp_co = Some l\<rparr>"

text \<open>\<open>i\<close> is the identity of a new promise, \<open>l\<close> the calling thread, \<open>main\<close> the module's. Light userdata 0 is null.\<close>

definition lua_sync_read_data ::
    "lua_resumption \<Rightarrow> nat \<Rightarrow> nat \<Rightarrow> nat option \<Rightarrow> lua_arg list \<Rightarrow> lua_cache \<Rightarrow> (lua_outcome \<times> lua_cache) option" where
  "lua_sync_read_data resume i l main args c =
     (case args of
        [Arg_Light buf, Arg_Integer len, Arg_Integer cond] \<Rightarrow>
          (let n = unat (word_of_int len :: u32)
           in if buf = 0 \<or> n = 0 then Some (Lua_Bad_Answer (- 1), c)
              else
                (let condition = condition_create (int32_of cond) n
                 in do {
                   (read, c1) \<leftarrow>
                     (if condition_met condition (unat (get_data_size (lc_cache c)))
                      then do {
                        (bs, vc) \<leftarrow> read_data (of_nat n) (lc_cache c);
                        Some (length bs, lc_tell (Filled buf bs) (c\<lparr>lc_cache := vc\<rparr>))
                      }
                      else Some (0, c));
                   if 0 < int32_of (int read)
                   then Some (Lua_Returns [Pushed (Pushed_Integer (int32_of (int read)))], c1)
                   else do {
                     c2 \<leftarrow> make_promise resume
                            (lua_thread_promise i Lua_Read_Promise (Some buf) n condition l main) c1;
                     Some (Lua_Yields, c2)
                   }
                 }))
      | _ \<Rightarrow> Some (Lua_Bad_Answer (- 1), c))"

text \<open>One entry of a format; the members not named keep what the entry before has set.\<close>

fun parse_field :: "(lua_arg \<times> lua_arg) list \<Rightarrow> DataField \<Rightarrow> DataField option" where
  "parse_field [] f = Some f"
| "parse_field ((k, v) # kvs) f =
     (case (k, v) of
        (Arg_Text key, Arg_Integer n) \<Rightarrow>
          if key = ''typeid'' then
            (if int32_of n < 0 \<or> 11 \<le> int32_of n then None
             else parse_field kvs (f\<lparr>df_type := [eDataType_int8_t, eDataType_uint8_t, eDataType_int16_t,
               eDataType_uint16_t, eDataType_int32_t, eDataType_uint32_t, eDataType_int64_t, eDataType_uint64_t,
               eDataType_double, eDataType_byte_array, eDataType_string] ! nat (int32_of n)\<rparr>))
          else if key = ''length'' then
            (if n mod 2 ^ 64 = 0 then None else parse_field kvs (f\<lparr>df_length := nat (n mod 2 ^ 64)\<rparr>))
          else None
      | (Arg_Text key, Arg_Boolean b) \<Rightarrow>
          if key = ''hton'' then parse_field kvs (f\<lparr>df_hton := b\<rparr>) else None
      | _ \<Rightarrow> None)"

fun parse_format :: "lua_arg list \<Rightarrow> DataField \<Rightarrow> int \<Rightarrow> (int \<times> DataField list) option" where
  "parse_format [] f tsize = Some (tsize, [])"
| "parse_format (v # vs) f tsize =
     (case v of
        Arg_Table kvs \<Rightarrow>
          (case parse_field kvs f of
             None \<Rightarrow> None
           | Some f1 \<Rightarrow>
               map_option (\<lambda>(t, fs). (t, f1 # fs))
                 (parse_format vs f1 (int32_of (tsize + int (field_bytes f1)))))
      | _ \<Rightarrow> None)"

text \<open>
  \<open>lua_tostring\<close> on a key that is a number changes it into text, after which the behaviour of \<open>lua_next\<close> is
  undefined.
\<close>

definition number_keys :: "lua_arg list \<Rightarrow> bool" where
  "number_keys vs = list_ex (\<lambda>v. case v of
     Arg_Table kvs \<Rightarrow> list_ex (\<lambda>(k, _). case k of Arg_Integer _ \<Rightarrow> True | _ \<Rightarrow> False) kvs | _ \<Rightarrow> False) vs"

text \<open>\<open>total_size\<close> becomes a \<open>size_t\<close>.\<close>

definition to_size :: "int \<Rightarrow> nat" where
  "to_size n = nat (n mod 2 ^ 64)"

definition lua_scanf ::
    "lua_resumption \<Rightarrow> nat \<Rightarrow> nat \<Rightarrow> nat option \<Rightarrow> lua_arg list \<Rightarrow> lua_cache \<Rightarrow> (lua_outcome \<times> lua_cache) option" where
  "lua_scanf resume i l main args c =
     (case args of
        [Arg_Table entries] \<Rightarrow>
          if number_keys (map snd entries) then None
          else (case parse_format (map snd entries) DataField_new 0 of
             None \<Rightarrow> Some (Lua_Bad_Answer (- 1), c)
           | Some (tsize, format) \<Rightarrow>
               (let condition = condition_create 2 (to_size tsize);
                    wait = (\<lambda>c. do {
                      let p = lua_thread_promise i (Lua_Scanf_Promise format) None (to_size tsize) condition l main;
                      c1 \<leftarrow> make_promise resume p c;
                      Some (if lua_promise_wait p < 0 then Lua_Bad_Answer (lua_promise_wait p) else Lua_Returns [], c1)
                    })
                in if \<not> condition_met condition (unat (get_data_size (lc_cache c))) then wait c
                   else do {
                     (ret, vs, vc) \<leftarrow> scanf cache_fetch (- 1) True format (lc_cache c);
                     if 0 < ret
                     then do { out \<leftarrow> handed_over ret vs; Some (Lua_Returns out, c\<lparr>lc_cache := vc\<rparr>) }
                     else wait (c\<lparr>lc_cache := vc\<rparr>)
                   }))
      | _ \<Rightarrow> Some (Lua_Bad_Answer (- 1), c))"

definition lua_wait_until ::
    "lua_resumption \<Rightarrow> nat \<Rightarrow> nat \<Rightarrow> nat option \<Rightarrow> lua_arg list \<Rightarrow> lua_cache \<Rightarrow> (lua_outcome \<times> lua_cache) option" where
  "lua_wait_until resume i l main args c =
     (case args of
        [Arg_Integer n] \<Rightarrow>
          (let len = nat (n mod 2 ^ 64); condition = (eReadCompletionConditon_Enough, len)
           in if condition_met condition (unat (get_data_size (lc_cache c)))
              then Some (Lua_Returns [Pushed_Boolean True], c)
              else do {
                let p = lua_thread_promise i Wait_Until_Promise None len condition l main;
                c1 \<leftarrow> make_promise resume p c;
                Some (if lua_promise_wait p < 0 then Lua_Bad_Answer (lua_promise_wait p) else Lua_Returns [], c1)
              })
      | _ \<Rightarrow> Some (Lua_Bad_Answer (- 1), c))"

section \<open>A waiting coroutine\<close>

text \<open>Events told by a reaction that leaves the cache alone.\<close>

definition quiet :: lua_resumption where
  "quiet co vs c = Some c"

lemma condition_create_met [simp]:
  "condition_met (condition_create 0 n) len \<longleftrightarrow> 0 < len"
  "condition_met (condition_create 1 n) len \<longleftrightarrow> len = n"
  "k \<noteq> 0 \<Longrightarrow> k \<noteq> 1 \<Longrightarrow> condition_met (condition_create k n) len \<longleftrightarrow> n \<le> len"
  by (simp_all add: condition_create_def)

text \<open>A read promise that is kept in the cache, as \<open>SyncReadData\<close> makes it.\<close>

definition reader_waits :: "data_promise \<Rightarrow> nat \<Rightarrow> nat \<Rightarrow> nat \<Rightarrow> lua_cache \<Rightarrow> bool" where
  "reader_waits p ptr co n c \<longleftrightarrow> lc_promise c = Some p \<and> dp_kind p = Lua_Read_Promise \<and> dp_buffer p = Some ptr
     \<and> dp_co p = Some co \<and> dp_main p \<noteq> None \<and> \<not> dp_honored p \<and> dp_length p = n \<and> 0 < n \<and> n < 2 ^ 32"

lemma cache_write:
  assumes "cache_wf c" and "length buf \<le> unat (vc_size c) - length (cache_content c)"
  shows "\<exists>c'. write_data buf c = Some (of_nat (length buf), c') \<and> cache_wf c'
    \<and> vc_size c' = vc_size c \<and> cache_content c' = cache_content c @ map Some buf \<and> vc_use c' = vc_use c"
proof -
  have "unat (vc_size c) < 2 ^ 32" using unsigned_less [of "vc_size c", where 'a = nat] by simp
  then have "length buf < 2 ^ 32" using assms(2) by linarith
  from write_data_appends [OF assms(1) this] assms(2) show ?thesis by (simp add: min_absorb1)
qed

text \<open>
  A coroutine that waits for data is resumed when they are there, once, and with them. When a write
  does not meet its condition nothing is resumed and it goes on waiting; when it does, the first bytes
  of the cache, as many as it asked for or there are, are put into its buffer, it is resumed with their
  number, and the promise is gone. For a write that fits and does not fill the cache, and a coroutine
  that does not ask again right away.
\<close>

theorem waiting_reader_is_served:
  assumes "reader_waits p ptr co n c" and "cache_wf (lc_cache c)"
    and "length (cache_content (lc_cache c)) + length buf < unat (vc_size (lc_cache c))"
  shows "\<exists>c'. promise_write_data quiet buf c = Some (of_nat (length buf), c') \<and> cache_wf (lc_cache c')
    \<and> (let all = cache_content (lc_cache c) @ map Some buf
       in if promise_completed p (length all)
          then cache_content (lc_cache c') = drop n all \<and> lc_promise c' = None
            \<and> lc_events c' = lc_events c
                @ [Filled ptr (take n all), Resumed co [Pushed (Pushed_Integer (int (min n (length all))))]]
          else cache_content (lc_cache c') = all \<and> lc_promise c' = Some p \<and> lc_events c' = lc_events c)"
proof -
  let ?all = "cache_content (lc_cache c) @ map Some buf"
  have "length buf \<le> unat (vc_size (lc_cache c)) - length (cache_content (lc_cache c))" using assms(3) by linarith
  from cache_write [OF assms(2) this] obtain vc where
    vc: "write_data buf (lc_cache c) = Some (of_nat (length buf), vc)" "cache_wf vc"
    "vc_size vc = vc_size (lc_cache c)" "cache_content vc = ?all" by blast
  have d: "unat (get_data_size vc) = length ?all" using vc(4) by (metis length_cache_content)
  have p: "lc_promise c = Some p" using assms(1) by (simp add: reader_waits_def)
  show ?thesis
  proof (cases "promise_completed p (length ?all)")
    case False
    with vc d p show ?thesis by (simp add: promise_write_data_def)
  next
    case True
    have n: "unat (of_nat n :: u32) = n" using assms(1) by (simp add: reader_waits_def unat_of_nat)
    have "length (cache_content vc) < unat (vc_size vc)
        \<or> ring_begin vc + min (unat (of_nat n :: u32)) (length (cache_content vc)) \<le> unat (vc_size vc)"
      using assms(3) vc(3,4) by simp
    from read_data_takes [OF vc(2) this] obtain vc' where
      vc': "read_data (of_nat n) vc = Some (take n ?all, vc')" "cache_wf vc'" "cache_content vc' = drop n ?all"
      unfolding n vc(4) by blast
    have h: "data_honor quiet p (c\<lparr>lc_cache := vc\<rparr>) = Some (True, p\<lparr>dp_honored := True\<rparr>,
        c\<lparr>lc_cache := vc', lc_events := lc_events c
          @ [Filled ptr (take n ?all), Resumed co [Pushed (Pushed_Integer (int (length (take n ?all))))]]\<rparr>)"
      using assms(1) vc'(1)
      by (auto simp: data_honor_def do_honor_def lua_read_do_honor_def reader_waits_def lua_resume_def quiet_def lc_tell_def)
    have "length (take n ?all) = min n (length ?all)" by (simp only: length_take min.commute)
    with True vc(1) d p h vc'(2,3) show ?thesis
      by (simp add: promise_write_data_def Let_def del: length_take take_append)
  qed
qed

text \<open>
  A coroutine that asks again from within its resumption is resumed twice. While the promise of a
  read is being honoured it is not yet marked and still the cache's, so the next promise the coroutine
  makes gives it up: the coroutine, which is running, is resumed again with nothing.
\<close>

theorem asking_again_resumes_twice:
  assumes "reader_waits p ptr co n c" and "cache_wf (lc_cache c)"
    and "length (cache_content (lc_cache c)) + length buf < unat (vc_size (lc_cache c))"
    and "promise_completed p (length (cache_content (lc_cache c)) + length buf)"
    and "dp_id q \<noteq> dp_id p"
  shows "\<exists>c' got. promise_write_data (\<lambda>co vs c. make_promise quiet q c) buf c = Some (of_nat (length buf), c')
    \<and> lc_promise c' = Some q
    \<and> lc_events c' = lc_events c
        @ [Filled ptr got, Resumed co [Pushed (Pushed_Integer (int (length got)))], Resumed co []]"
proof -
  let ?all = "cache_content (lc_cache c) @ map Some buf" and ?again = "\<lambda>co vs c. make_promise quiet q c"
  have "length buf \<le> unat (vc_size (lc_cache c)) - length (cache_content (lc_cache c))" using assms(3) by linarith
  from cache_write [OF assms(2) this] obtain vc where
    vc: "write_data buf (lc_cache c) = Some (of_nat (length buf), vc)" "cache_wf vc"
    "vc_size vc = vc_size (lc_cache c)" "cache_content vc = ?all" by blast
  have d: "unat (get_data_size vc) = length (cache_content (lc_cache c)) + length buf"
    using vc(4) by (metis length_cache_content length_append length_map)
  have n: "unat (of_nat n :: u32) = n" using assms(1) by (simp add: reader_waits_def unat_of_nat)
  have "length (cache_content vc) < unat (vc_size vc)
      \<or> ring_begin vc + min (unat (of_nat n :: u32)) (length (cache_content vc)) \<le> unat (vc_size vc)"
    using assms(3) vc(3,4) by simp
  from read_data_takes [OF vc(2) this] obtain vc' where
    vc': "read_data (of_nat n) vc = Some (take n ?all, vc')" unfolding n vc(4) by blast
  have p: "lc_promise c = Some p" "dp_kind p = Lua_Read_Promise" "dp_buffer p = Some ptr" "dp_co p = Some co"
    "dp_main p \<noteq> None" "\<not> dp_honored p" "dp_length p = n" "0 < n" using assms(1) by (simp_all add: reader_waits_def)
  let ?got = "take n ?all"
  let ?c1 = "c\<lparr>lc_cache := vc', lc_events := lc_events c @ [Filled ptr ?got, Resumed co [Pushed (Pushed_Integer (int (length ?got)))]]\<rparr>"
  let ?c2 = "?c1\<lparr>lc_events := lc_events ?c1 @ [Resumed co []], lc_promise := Some q\<rparr>"
  have g: "make_promise quiet q ?c1 = Some ?c2"
    using p by (auto simp: make_promise_def data_give_up_def do_give_up_def lua_resume_def quiet_def lc_tell_def)
  have h: "data_honor ?again p (c\<lparr>lc_cache := vc\<rparr>) = Some (True, p\<lparr>dp_honored := True\<rparr>, ?c2)"
    using p vc' g by (auto simp: data_honor_def do_honor_def lua_read_do_honor_def lua_resume_def lc_tell_def)
  have "promise_write_data ?again buf c = Some (of_nat (length buf), ?c2)"
    using vc(1) d p(1) assms(4,5) h by (simp add: promise_write_data_def)
  then show ?thesis by (intro exI [of _ ?c2] exI [of _ ?got]) simp
qed

text \<open>
  Scanf and WaitUntil do not wait. When the data are not there yet they make their promise and
  return to the script at once, with no results and without yielding; when the data come, a coroutine
  that is not waiting is resumed.
\<close>

theorem wait_until_returns_at_once:
  assumes "length (cache_content (lc_cache c)) < n" and "n < 2 ^ 64" and "lc_promise c = None"
  shows "\<exists>p c'. lua_wait_until resume i l main [Arg_Integer (int n)] c = Some (Lua_Returns [], c')
    \<and> c' = c\<lparr>lc_promise := Some p\<rparr> \<and> dp_kind p = Wait_Until_Promise \<and> dp_co p = Some l
    \<and> (main \<noteq> None \<longrightarrow> n \<le> unat (get_data_size vc) \<longrightarrow>
         do_honor quiet p (c'\<lparr>lc_cache := vc\<rparr>)
         = Some (True, lc_tell (Resumed l [Pushed_Boolean True]) (c'\<lparr>lc_cache := vc\<rparr>)))"
proof -
  have m: "nat (int n mod 18446744073709551616) = n" using assms(2) by simp
  let ?p = "lua_thread_promise i Wait_Until_Promise None n (eReadCompletionConditon_Enough, n) l main"
  have "lua_wait_until resume i l main [Arg_Integer (int n)] c = Some (Lua_Returns [], c\<lparr>lc_promise := Some ?p\<rparr>)"
    using assms m by (simp add: lua_wait_until_def make_promise_def lua_promise_wait_def lua_thread_promise_def Let_def)
  moreover have "do_honor quiet ?p c2 = Some (True, lc_tell (Resumed l [Pushed_Boolean True]) c2)"
    if "main \<noteq> None" "n \<le> unat (get_data_size (lc_cache c2))" for c2
    using that assms(1)
    by (auto simp: do_honor_def wait_until_do_honor_def lua_thread_promise_def lua_resume_def quiet_def)
  ultimately show ?thesis
    by (intro exI [of _ ?p]) (simp add: lua_thread_promise_def)
qed

definition demo_reader :: data_promise where
  "demo_reader = lua_thread_promise 0 Lua_Read_Promise (Some 100) 4 (condition_create 2 4) 1 (Some 9)"

definition demo_lua_cache :: lua_cache where
  "demo_lua_cache = \<lparr>lc_cache = LuaVideoCache_new, lc_promise = Some demo_reader, lc_events = []\<rparr>"

lemma demo_lua_cache_ok:
  "reader_waits demo_reader 100 1 4 demo_lua_cache" "cache_wf (lc_cache demo_lua_cache)"
  "cache_content (lc_cache demo_lua_cache) = []" "unat (vc_size (lc_cache demo_lua_cache)) = 2097152"
  "lc_events demo_lua_cache = []"
  by (simp_all add: reader_waits_def demo_lua_cache_def demo_reader_def lua_thread_promise_def LuaVideoCache_new_wf
      LuaVideoCache_new_content) (simp add: LuaVideoCache_new_def)

theorem waiting_reader_is_served_witness:
  "\<exists>c'. promise_write_data quiet [1, 2, 3, 4, 5] demo_lua_cache = Some (5, c') \<and> lc_promise c' = None
    \<and> lc_events c' = [Filled 100 [Some 1, Some 2, Some 3, Some 4], Resumed 1 [Pushed (Pushed_Integer 4)]]"
proof -
  note d = demo_lua_cache_ok
  have "length (cache_content (lc_cache demo_lua_cache)) + length [1, 2, 3, 4, 5 :: byte] < unat (vc_size (lc_cache demo_lua_cache))"
    using d(3,4) by simp
  from waiting_reader_is_served [OF d(1,2) this] d(3,5) show ?thesis
    by (auto simp: Let_def promise_completed_def demo_reader_def lua_thread_promise_def)
qed

theorem asking_again_resumes_twice_witness:
  "\<exists>c' got. promise_write_data (\<lambda>co vs c. make_promise quiet (demo_reader\<lparr>dp_id := 1\<rparr>) c) [1, 2, 3, 4, 5] demo_lua_cache = Some (5, c')
    \<and> lc_events c' = [Filled 100 got, Resumed 1 [Pushed (Pushed_Integer (int (length got)))], Resumed 1 []]"
proof -
  note d = demo_lua_cache_ok
  let ?buf = "[1, 2, 3, 4, 5 :: byte]"
  have "length (cache_content (lc_cache demo_lua_cache)) + length ?buf < unat (vc_size (lc_cache demo_lua_cache))"
    "promise_completed demo_reader (length (cache_content (lc_cache demo_lua_cache)) + length ?buf)"
    "dp_id (demo_reader\<lparr>dp_id := 1\<rparr>) \<noteq> dp_id demo_reader"
    using d(3,4) by (simp_all add: promise_completed_def demo_reader_def lua_thread_promise_def)
  from asking_again_resumes_twice [OF d(1,2) this] d(5) show ?thesis by auto
qed

theorem wait_until_returns_at_once_witness:
  "\<exists>c'. lua_wait_until quiet 7 1 (Some 9) [Arg_Integer 4] (demo_lua_cache\<lparr>lc_promise := None\<rparr>)
    = Some (Lua_Returns [], c')"
proof -
  have "length (cache_content (lc_cache (demo_lua_cache\<lparr>lc_promise := None\<rparr>))) < 4" "(4 :: nat) < 2 ^ 64"
    "lc_promise (demo_lua_cache\<lparr>lc_promise := None\<rparr>) = None" using demo_lua_cache_ok(3) by simp_all
  from wait_until_returns_at_once [OF this, of quiet 7 1 "Some 9" LuaVideoCache_new] show ?thesis by auto
qed

section \<open>Scanf\<close>

lemma parse_field_keys:
  "parse_field kvs f = Some f1 \<Longrightarrow> \<not> list_ex (\<lambda>(k, _). case k of Arg_Integer _ \<Rightarrow> True | _ \<Rightarrow> False) kvs"
proof (induction kvs f rule: parse_field.induct)
  case (2 k v kvs f)
  then show ?case by (cases k; cases v) (auto split: if_splits)
qed simp

lemma parse_format_keys: "parse_format vs f t = Some r \<Longrightarrow> \<not> number_keys vs"
proof (induction vs f t arbitrary: r rule: parse_format.induct)
  case (2 v vs f t)
  then show ?case
    by (cases v) (auto simp: number_keys_def dest: parse_field_keys split: option.splits)
qed (simp add: number_keys_def)

text \<open>
  C22: Scanf on the cache. When the bytes of the format are there, the values pushed are those the
  reference decoder gives for them, field by field, and exactly those bytes are taken out of the cache;
  but the script only gets as many values as the format has fields, the last ones: of an array of numbers
  it loses the front.
\<close>

theorem scanf_decodes_but_counts_fields:
  assumes "cache_readable (lc_cache c)" and "cache_content (lc_cache c) = map Some bs @ rest"
    and "parse_format (map snd entries) DataField_new 0 = Some (int (length bs), format)"
    and "length bs = format_bytes format" and "length bs < 2 ^ 31" and "format \<noteq> []"
    and "\<forall>f \<in> set format. 0 < df_length f"
  shows "\<exists>vc. lua_scanf resume i l main [Arg_Table entries] c
      = Some (Lua_Returns (map Pushed (drop (length (decode_fields format bs) - length format) (decode_fields format bs))),
          c\<lparr>lc_cache := vc\<rparr>)
    \<and> cache_content vc = rest \<and> cache_readable vc
    \<and> length (decode_fields format bs) = sum_list (map field_values format)"
proof -
  have "\<forall>f \<in> set format. df_length f < 2 ^ 32"
    using field_length_bound [of _ format] assms(4,5) by fastforce
  from vc.scanf_decodes [OF assms(1,2,4,6) this, of "- 1"] obtain vc where
    vc: "scanf cache_fetch (- 1) True format (lc_cache c) = Some (int (length format), decode_fields format bs, vc)"
    "cache_readable vc" "cache_content vc = rest" by blast
  have "length format \<le> sum_list (map field_values format)"
    using assms(7)
  proof (induction format)
    case (Cons f fs)
    have "1 \<le> field_values f" using Cons.prems by (simp add: field_values_def Suc_le_eq)
    with Cons show ?case by simp
  qed simp
  then have h: "handed_over (int (length format)) (decode_fields format bs)
      = Some (map Pushed (drop (length (decode_fields format bs) - length format) (decode_fields format bs)))"
    by (simp add: handed_over_def length_decode_fields)
  have "length (cache_content (lc_cache c)) = unat (get_data_size (lc_cache c))" by simp
  then have "length bs \<le> unat (get_data_size (lc_cache c))" unfolding assms(2) by simp
  with vc h assms(3,5,6) parse_format_keys [OF assms(3)] show ?thesis
    by (auto simp: lua_scanf_def Let_def to_size_def length_decode_fields)
qed

definition demo_format :: "(lua_arg \<times> lua_arg) list" where
  "demo_format = [(Arg_Integer 1, Arg_Table [(Arg_Text ''typeid'', Arg_Integer 3),
     (Arg_Text ''length'', Arg_Integer 2), (Arg_Text ''hton'', Arg_Boolean True)])]"

lemma demo_format_parses:
  "parse_format (map snd demo_format) DataField_new 0
    = Some (4, [\<lparr>df_type = eDataType_uint16_t, df_length = 2, df_hton = True\<rparr>])"
  by (simp add: demo_format_def DataField_new_def field_bytes_def int32_of_def nth_Cons')

text \<open>Two numbers in network order, 1 and 2: the script gets 2 alone.\<close>

theorem scanf_decodes_but_counts_fields_witness:
  "\<exists>c c'. cache_content (lc_cache c) = map Some [0, 1, 0, 2, 7]
    \<and> lua_scanf quiet 7 1 (Some 9) [Arg_Table demo_format] c = Some (Lua_Returns [Pushed (Pushed_Integer 2)], c')
    \<and> cache_content (lc_cache c') = [Some 7]"
proof -
  note d = demo_lua_cache_ok
  have "length [0, 1, 0, 2, 7 :: byte] \<le> unat (vc_size (lc_cache demo_lua_cache)) - length (cache_content (lc_cache demo_lua_cache))"
    using d(3,4) by simp
  from cache_write [OF d(2) this] d(3,4) obtain vc where
    vc: "cache_wf vc" "cache_content vc = map Some [0, 1, 0, 2, 7]" "unat (vc_size vc) = 2097152" by auto
  let ?c = "demo_lua_cache\<lparr>lc_cache := vc\<rparr>"
  have l: "length (cache_content vc) = 5" using vc(2) by simp
  then have r: "cache_readable (lc_cache ?c)" using vc(1,3) by (simp add: cache_readable_def)
  have b: "cache_content (lc_cache ?c) = map Some [0, 1, 0, 2] @ [Some 7]" using vc(2) by simp
  let ?f = "[\<lparr>df_type = eDataType_uint16_t, df_length = 2, df_hton = True\<rparr>]"
  have p: "parse_format (map snd demo_format) DataField_new 0 = Some (int (length [0, 1, 0, 2 :: byte]), ?f)"
    using demo_format_parses by simp
  have f: "length [0, 1, 0, 2 :: byte] = format_bytes ?f" "length [0, 1, 0, 2 :: byte] < 2 ^ 31" "?f \<noteq> []"
    "\<forall>f \<in> set ?f. 0 < df_length f" by (simp_all add: format_bytes_def field_bytes_def)
  from scanf_decodes_but_counts_fields [OF r b p f, of quiet 7 1 "Some 9"] obtain vc' where
    v: "lua_scanf quiet 7 1 (Some 9) [Arg_Table demo_format] ?c
      = Some (Lua_Returns (map Pushed (drop (length (decode_fields ?f [0, 1, 0, 2]) - length ?f) (decode_fields ?f [0, 1, 0, 2]))),
          ?c\<lparr>lc_cache := vc'\<rparr>)" "cache_content vc' = [Some 7]" by blast
  have "pieces 2 2 [0, 1, 0, 2 :: byte] = [[0, 1], [0, 2]]" by (simp add: numeral_2_eq_2)
  then have "decode_fields ?f [0, 1, 0, 2] = [Pushed_Integer 1, Pushed_Integer 2]"
    by (simp add: decode_field_def decode_integer_def pushed_integer_def swapped_def host_value_def field_bytes_def)
  with v vc(2) show ?thesis by (intro exI [of _ ?c] exI [of _ "?c\<lparr>lc_cache := vc'\<rparr>"]) simp
qed

end
