(* ===== verification/Bee_Lua_Buffers.thy ===== *)
theory Bee_Lua_Buffers
  imports Bee_Lua_Objects Bee_IOBuffer
begin

text \<open>
  \<open>LuaIOBufferModule\<close> (src/lua/module/lua_iobuffer_module.cpp): buffers for scripts.

  A script names a buffer by its handle and gets pointers into its memory, which it passes on to other
  modules. So each buffer's array has an identity, and a pointer is the array with an offset: it is alive
  as long as some buffer of the module has that array. A call's result is the answer with what the call
  has copied to memory given by the script; \<open>None\<close> is a failed assertion or an access outside an array.
\<close>

section \<open>State\<close>

record buffer_object =
  bo_array :: nat
  bo_buffer :: "byte iobuffer"

record buffer_module =
  bm_objs :: "buffer_object lua_objs"
  bm_arrays :: nat  \<comment> \<open>arrays allocated so far\<close>

datatype buffer_value =
    Integer_Value int
  | Boolean_Value bool
  | Pointer_Value nat nat  \<comment> \<open>array and offset\<close>

type_synonym buffer_result = "(buffer_value lua_answer \<times> (nat \<times> byte option list) list \<times> buffer_module) option"

definition LuaIOBufferModule_new :: "u32 \<Rightarrow> buffer_module" where
  "LuaIOBufferModule_new n = \<lparr>bm_objs = LuaObjMgr_new n, bm_arrays = 0\<rparr>"

definition refuse :: "buffer_module \<Rightarrow> buffer_result" where
  "refuse m = Some (Refuses, [], m)"

definition answer :: "buffer_value list \<Rightarrow> buffer_module \<Rightarrow> buffer_result" where
  "answer vs m = Some (Answers vs, [], m)"

text \<open>\<open>get_iobuffer\<close>: the buffer that the first argument names.\<close>

definition get_iobuffer :: "lua_arg list \<Rightarrow> buffer_module \<Rightarrow> (u32 \<times> buffer_object) option" where
  "get_iobuffer args m =
     (case args of
        Arg_Integer n # _ \<Rightarrow> map_option (Pair (handle_of n)) (get_obj (handle_of n) (bm_objs m))
      | _ \<Rightarrow> None)"

text \<open>The object is changed in place.\<close>

definition put_buffer :: "u32 \<Rightarrow> byte iobuffer \<Rightarrow> buffer_module \<Rightarrow> buffer_module" where
  "put_buffer h b m = m\<lparr>bm_objs := (bm_objs m)\<lparr>om_table :=
     (om_table (bm_objs m))(h := map_option (\<lambda>ob. ob\<lparr>bo_buffer := b\<rparr>) (om_table (bm_objs m) h))\<rparr>\<rparr>"

definition new_array :: "byte iobuffer \<Rightarrow> buffer_module \<Rightarrow> buffer_object \<times> buffer_module" where
  "new_array b m = (\<lparr>bo_array = bm_arrays m, bo_buffer = b\<rparr>, m\<lparr>bm_arrays := bm_arrays m + 1\<rparr>)"

section \<open>The functions\<close>

definition buffer_new :: "lua_arg list \<Rightarrow> buffer_module \<Rightarrow> buffer_result" where
  "buffer_new args m =
     (case args of
        [Arg_Integer n] \<Rightarrow>
          (let capacity = int32_of n
           in if capacity \<le> 0 then refuse m
              else
                (let (ob, m1) = new_array (IOBuffer_new (nat capacity)) m;
                     (handle, objs) = new_lua_obj (Some ob) (bm_objs m1)
                 in answer [Integer_Value (uint handle)] (m1\<lparr>bm_objs := objs\<rparr>)))
      | _ \<Rightarrow> refuse m)"

definition buffer_delete :: "lua_arg list \<Rightarrow> buffer_module \<Rightarrow> buffer_result" where
  "buffer_delete args m =
     (case args of
        [Arg_Integer n] \<Rightarrow> answer [] (m\<lparr>bm_objs := snd (delete_lua_obj (handle_of n) (bm_objs m))\<rparr>)
      | _ \<Rightarrow> refuse m)"

text \<open>A function of one argument that only looks at its buffer.\<close>

definition buffer_query :: "(buffer_object \<Rightarrow> buffer_value list) \<Rightarrow> lua_arg list \<Rightarrow> buffer_module \<Rightarrow> buffer_result" where
  "buffer_query q args m =
     (if length args \<noteq> 1 then refuse m
      else case get_iobuffer args m of None \<Rightarrow> refuse m | Some (h, ob) \<Rightarrow> answer (q ob) m)"

definition data_pointer :: "buffer_object \<Rightarrow> buffer_value" where
  "data_pointer ob = Pointer_Value (bo_array ob) (begin_offset (bo_buffer ob))"

definition buffer_get :: "lua_arg list \<Rightarrow> buffer_module \<Rightarrow> buffer_result" where
  "buffer_get = buffer_query (\<lambda>ob. [data_pointer ob, Integer_Value (int (iob_size (bo_buffer ob)))])"

definition buffer_ptr :: "lua_arg list \<Rightarrow> buffer_module \<Rightarrow> buffer_result" where
  "buffer_ptr = buffer_query (\<lambda>ob. [data_pointer ob])"

definition buffer_size :: "lua_arg list \<Rightarrow> buffer_module \<Rightarrow> buffer_result" where
  "buffer_size = buffer_query (\<lambda>ob. [Integer_Value (int (iob_size (bo_buffer ob)))])"

definition buffer_capacity_of :: "lua_arg list \<Rightarrow> buffer_module \<Rightarrow> buffer_result" where
  "buffer_capacity_of = buffer_query (\<lambda>ob. [Integer_Value (int (iob_capacity (bo_buffer ob)))])"

definition buffer_freespace :: "lua_arg list \<Rightarrow> buffer_module \<Rightarrow> buffer_result" where
  "buffer_freespace = buffer_query (\<lambda>ob. [Integer_Value (int (iob_freespace (bo_buffer ob)))])"

definition buffer_is_empty :: "lua_arg list \<Rightarrow> buffer_module \<Rightarrow> buffer_result" where
  "buffer_is_empty = buffer_query (\<lambda>ob. [Boolean_Value (iob_empty (bo_buffer ob))])"

definition buffer_is_full :: "lua_arg list \<Rightarrow> buffer_module \<Rightarrow> buffer_result" where
  "buffer_is_full = buffer_query (\<lambda>ob. [Boolean_Value (iob_full (bo_buffer ob))])"

text \<open>
  A function of a buffer and a size; the size is converted to 32 bits first. \<open>act\<close> gets a size that is
  not negative.
\<close>

definition with_size ::
    "(u32 \<Rightarrow> buffer_object \<Rightarrow> nat \<Rightarrow> buffer_module \<Rightarrow> buffer_result) \<Rightarrow> lua_arg list \<Rightarrow> buffer_module \<Rightarrow> buffer_result" where
  "with_size act args m =
     (case args of
        [_, sz] \<Rightarrow>
          (case get_iobuffer args m of
             None \<Rightarrow> refuse m
           | Some (h, ob) \<Rightarrow>
               (case sz of
                  Arg_Integer n \<Rightarrow> if int32_of n < 0 then refuse m else act h ob (nat (int32_of n)) m
                | _ \<Rightarrow> refuse m))
      | _ \<Rightarrow> refuse m)"

definition buffer_resize :: "lua_arg list \<Rightarrow> buffer_module \<Rightarrow> buffer_result" where
  "buffer_resize = with_size (\<lambda>h ob n m.
     (let b = bo_buffer ob
      in if n > iob_capacity b then
           (let (nb, m1) = new_array (IOBuffer_new n) m
            in do {
                 old \<leftarrow> iob_data b;
                 cs \<leftarrow> store_at (cells (bo_buffer nb)) 0 (take (iob_size b) old);
                 b1 \<leftarrow> iob_resize n ((bo_buffer nb)\<lparr>cells := cs\<rparr>);
                 answer [] (m1\<lparr>bm_objs := set_lua_obj h (nb\<lparr>bo_buffer := b1\<rparr>) (bm_objs m1)\<rparr>)
               })
         else do { b1 \<leftarrow> iob_resize n b; answer [] (put_buffer h b1 m) }))"

definition buffer_reset :: "lua_arg list \<Rightarrow> buffer_module \<Rightarrow> buffer_result" where
  "buffer_reset = with_size (\<lambda>h ob n m.
     (let b = bo_buffer ob
      in if n > iob_capacity b then
           (let (nb, m1) = new_array (IOBuffer_new n) m
            in answer [] (m1\<lparr>bm_objs := set_lua_obj h nb (bm_objs m1)\<rparr>))
         else do { b1 \<leftarrow> iob_resize n (iob_clear b); answer [] (put_buffer h b1 m) }))"

definition buffer_clear :: "lua_arg list \<Rightarrow> buffer_module \<Rightarrow> buffer_result" where
  "buffer_clear args m =
     (if length args \<noteq> 1 then refuse m
      else case get_iobuffer args m of
          None \<Rightarrow> refuse m | Some (h, ob) \<Rightarrow> answer [] (put_buffer h (iob_clear (bo_buffer ob)) m))"

definition buffer_consume :: "lua_arg list \<Rightarrow> buffer_module \<Rightarrow> buffer_result" where
  "buffer_consume = with_size (\<lambda>h ob n m.
     (if int n > int32_of (int (iob_size (bo_buffer ob))) then refuse m
      else do { b1 \<leftarrow> iob_consume n (bo_buffer ob); answer [] (put_buffer h b1 m) }))"

definition buffer_produce :: "lua_arg list \<Rightarrow> buffer_module \<Rightarrow> buffer_result" where
  "buffer_produce = with_size (\<lambda>h ob n m.
     (if int n > int32_of (int (iob_freespace (bo_buffer ob))) then refuse m
      else do { b1 \<leftarrow> iob_produce n (bo_buffer ob); answer [] (put_buffer h b1 m) }))"

text \<open>\<open>align\<close> asks for two arguments and uses one.\<close>

definition buffer_align :: "lua_arg list \<Rightarrow> buffer_module \<Rightarrow> buffer_result" where
  "buffer_align args m =
     (if length args \<noteq> 2 then refuse m
      else case get_iobuffer args m of
          None \<Rightarrow> refuse m | Some (h, ob) \<Rightarrow> answer [] (put_buffer h (iob_align (bo_buffer ob)) m))"

text \<open>Light userdata 0 is the null pointer.\<close>

definition buffer_read :: "lua_arg list \<Rightarrow> buffer_module \<Rightarrow> buffer_result" where
  "buffer_read args m =
     (case args of
        [_, Arg_Light dst, Arg_Integer n] \<Rightarrow>
          (case get_iobuffer args m of
             None \<Rightarrow> refuse m
           | Some (h, ob) \<Rightarrow>
               (let len = unat (word_of_int n :: u32); b = bo_buffer ob; read_len = min len (iob_size b)
                in if dst = 0 \<or> len = 0 then refuse m
                   else do {
                     p \<leftarrow> iob_data b;
                     b1 \<leftarrow> iob_consume read_len b;
                     Some (Answers [Integer_Value (int read_len)], [(dst, take read_len p)], put_buffer h b1 m)
                   }))
      | _ \<Rightarrow> refuse m)"

datatype buffer_call =
    Buf_New "lua_arg list" | Buf_Delete "lua_arg list" | Buf_Get "lua_arg list" | Buf_Ptr "lua_arg list"
  | Buf_Size "lua_arg list" | Buf_Capacity "lua_arg list" | Buf_Freespace "lua_arg list"
  | Buf_Empty "lua_arg list" | Buf_Full "lua_arg list" | Buf_Resize "lua_arg list" | Buf_Reset "lua_arg list"
  | Buf_Clear "lua_arg list" | Buf_Consume "lua_arg list" | Buf_Produce "lua_arg list"
  | Buf_Align "lua_arg list" | Buf_Read "lua_arg list"

text \<open>The table of names of \<open>lua_open_module\<close>.\<close>

fun buffer_call_run :: "buffer_call \<Rightarrow> buffer_module \<Rightarrow> buffer_result" where
  "buffer_call_run (Buf_New args) = buffer_new args"
| "buffer_call_run (Buf_Delete args) = buffer_delete args"
| "buffer_call_run (Buf_Get args) = buffer_get args"
| "buffer_call_run (Buf_Ptr args) = buffer_ptr args"
| "buffer_call_run (Buf_Size args) = buffer_size args"
| "buffer_call_run (Buf_Capacity args) = buffer_capacity_of args"
| "buffer_call_run (Buf_Freespace args) = buffer_freespace args"
| "buffer_call_run (Buf_Empty args) = buffer_is_empty args"
| "buffer_call_run (Buf_Full args) = buffer_is_full args"
| "buffer_call_run (Buf_Resize args) = buffer_resize args"
| "buffer_call_run (Buf_Reset args) = buffer_reset args"
| "buffer_call_run (Buf_Clear args) = buffer_clear args"
| "buffer_call_run (Buf_Consume args) = buffer_consume args"
| "buffer_call_run (Buf_Produce args) = buffer_produce args"
| "buffer_call_run (Buf_Align args) = buffer_align args"
| "buffer_call_run (Buf_Read args) = buffer_read args"

section \<open>What they promise\<close>

definition buffer_at :: "buffer_module \<Rightarrow> u32 \<Rightarrow> buffer_object option" where
  "buffer_at m h = om_table (bm_objs m) h"

definition content_at :: "buffer_module \<Rightarrow> u32 \<Rightarrow> byte option list option" where
  "content_at m h = map_option (\<lambda>ob. iob_content (bo_buffer ob)) (buffer_at m h)"

text \<open>
  The module's invariant: every buffer keeps its window inside its array, which is not empty and below
  \<open>2 ^ 31\<close> bytes, and no two buffers share one.
\<close>

definition buffer_ok :: "buffer_module \<Rightarrow> buffer_object \<Rightarrow> bool" where
  "buffer_ok m ob \<longleftrightarrow> iob_wf (bo_buffer ob) \<and> 0 < buffer_capacity (bo_buffer ob)
     \<and> buffer_capacity (bo_buffer ob) < 2 ^ 31 \<and> bo_array ob < bm_arrays m"

definition buffers_ok :: "buffer_module \<Rightarrow> bool" where
  "buffers_ok m \<longleftrightarrow> (\<forall>h ob. buffer_at m h = Some ob \<longrightarrow> buffer_ok m ob)
     \<and> (\<forall>h k ob oc. buffer_at m h = Some ob \<longrightarrow> buffer_at m k = Some oc \<longrightarrow> bo_array ob = bo_array oc \<longrightarrow> h = k)"

text \<open>A pointer into an array is alive as long as a buffer has it.\<close>

definition array_alive :: "nat \<Rightarrow> buffer_module \<Rightarrow> bool" where
  "array_alive a m \<longleftrightarrow> (\<exists>h ob. buffer_at m h = Some ob \<and> bo_array ob = a)"

text \<open>
  What a call that is not refused does to the content \<open>c\<close> of the buffer it names, with \<open>c'\<close> that buffer's
  content afterwards.
\<close>

definition call_effect ::
    "buffer_call \<Rightarrow> byte option list \<Rightarrow> buffer_value list \<Rightarrow> (nat \<times> byte option list) list \<Rightarrow> byte option list \<Rightarrow> bool" where
  "call_effect x c vs out c' \<longleftrightarrow>
     (case x of
        Buf_Get _ \<Rightarrow> c' = c \<and> out = [] \<and> (\<exists>a i. vs = [Pointer_Value a i, Integer_Value (int (length c))])
      | Buf_Size _ \<Rightarrow> c' = c \<and> out = [] \<and> vs = [Integer_Value (int (length c))]
      | Buf_Empty _ \<Rightarrow> c' = c \<and> out = [] \<and> vs = [Boolean_Value (c = [])]
      | Buf_Resize args \<Rightarrow> (\<exists>n. args ! 1 = Arg_Integer n \<and> 0 \<le> int32_of n \<and> length c' = nat (int32_of n))
          \<and> take (length c') c = take (length c) c' \<and> vs = [] \<and> out = []
      | Buf_Reset args \<Rightarrow> (\<exists>n. args ! 1 = Arg_Integer n \<and> 0 \<le> int32_of n \<and> length c' = nat (int32_of n))
          \<and> vs = [] \<and> out = []
      | Buf_Clear _ \<Rightarrow> c' = [] \<and> vs = [] \<and> out = []
      | Buf_Consume args \<Rightarrow> (\<exists>n. args ! 1 = Arg_Integer n \<and> 0 \<le> int32_of n
          \<and> nat (int32_of n) \<le> length c \<and> c' = drop (nat (int32_of n)) c) \<and> vs = [] \<and> out = []
      | Buf_Produce args \<Rightarrow> (\<exists>n. args ! 1 = Arg_Integer n \<and> 0 \<le> int32_of n
          \<and> length c' = length c + nat (int32_of n)) \<and> take (length c) c' = c \<and> vs = [] \<and> out = []
      | Buf_Align _ \<Rightarrow> c' = c \<and> vs = [] \<and> out = []
      | Buf_Read args \<Rightarrow> (\<exists>dst n k. args ! 1 = Arg_Light dst \<and> args ! 2 = Arg_Integer n
          \<and> k = min (unat (word_of_int n :: u32)) (length c)
          \<and> vs = [Integer_Value (int k)] \<and> out = [(dst, take k c)] \<and> c' = drop k c)
      | _ \<Rightarrow> c' = c \<and> out = [] \<and> length vs = 1)"

fun call_args :: "buffer_call \<Rightarrow> lua_arg list" where
  "call_args (Buf_New args) = args" | "call_args (Buf_Delete args) = args" | "call_args (Buf_Get args) = args"
| "call_args (Buf_Ptr args) = args" | "call_args (Buf_Size args) = args" | "call_args (Buf_Capacity args) = args"
| "call_args (Buf_Freespace args) = args" | "call_args (Buf_Empty args) = args" | "call_args (Buf_Full args) = args"
| "call_args (Buf_Resize args) = args" | "call_args (Buf_Reset args) = args" | "call_args (Buf_Clear args) = args"
| "call_args (Buf_Consume args) = args" | "call_args (Buf_Produce args) = args" | "call_args (Buf_Align args) = args"
| "call_args (Buf_Read args) = args"

text \<open>
  The contract of a call: refused, it changes nothing; otherwise it changes the buffer it names alone, a
  new buffer is as large as asked for, a deleted one is gone, and the others do what \<open>call_effect\<close> says.
\<close>

definition only_changed :: "u32 \<Rightarrow> buffer_module \<Rightarrow> buffer_module \<Rightarrow> bool" where
  "only_changed h m m' \<longleftrightarrow> (\<forall>k. k \<noteq> h \<longrightarrow> buffer_at m' k = buffer_at m k)"

definition call_keeps ::
    "buffer_call \<Rightarrow> buffer_module \<Rightarrow> buffer_value lua_answer \<Rightarrow> (nat \<times> byte option list) list \<Rightarrow> buffer_module \<Rightarrow> bool" where
  "call_keeps x m a out m' \<longleftrightarrow>
     (case a of
        Refuses \<Rightarrow> m' = m \<and> out = []
      | Answers vs \<Rightarrow>
          (case x of
             Buf_New args \<Rightarrow> (\<exists>n h. args = [Arg_Integer n] \<and> 0 < int32_of n \<and> vs = [Integer_Value (uint h)] \<and> out = []
               \<and> content_at m' h = Some (replicate (nat (int32_of n)) None) \<and> only_changed h m m')
           | Buf_Delete args \<Rightarrow> (\<exists>n. args = [Arg_Integer n] \<and> vs = [] \<and> out = []
               \<and> content_at m' (handle_of n) = None \<and> only_changed (handle_of n) m m')
           | _ \<Rightarrow> (\<exists>n rest c c'. call_args x = Arg_Integer n # rest \<and> content_at m (handle_of n) = Some c
               \<and> content_at m' (handle_of n) = Some c' \<and> only_changed (handle_of n) m m' \<and> call_effect x c vs out c')))"

section \<open>They keep it\<close>

lemma buffers_okD: "buffers_ok m \<Longrightarrow> buffer_at m h = Some ob \<Longrightarrow> buffer_ok m ob"
  by (simp add: buffers_ok_def)

lemma get_iobuffer_Some:
  assumes "get_iobuffer args m = Some (h, ob)"
  obtains n rest where "args = Arg_Integer n # rest" and "h = handle_of n" and "buffer_at m h = Some ob"
  using assms unfolding get_iobuffer_def get_obj_def buffer_at_def
  by (cases args) (auto split: lua_arg.splits)

lemma buffer_at_put [simp]:
  "buffer_at (put_buffer h b m) k
    = (if k = h then map_option (\<lambda>ob. ob\<lparr>bo_buffer := b\<rparr>) (buffer_at m h) else buffer_at m k)"
  by (simp add: buffer_at_def put_buffer_def)

lemma bm_arrays_put [simp]: "bm_arrays (put_buffer h b m) = bm_arrays m"
  by (simp add: put_buffer_def)

lemma only_changed_put [simp]: "only_changed h m (put_buffer h b m)"
  by (simp add: only_changed_def)

lemma only_changed_refl [simp]: "only_changed h m m"
  by (simp add: only_changed_def)

lemma content_at_put [simp]:
  "buffer_at m h = Some ob \<Longrightarrow> content_at (put_buffer h b m) h = Some (iob_content b)"
  by (simp add: content_at_def)

lemma put_buffer_ok:
  assumes "buffers_ok m" and "buffer_at m h = Some ob" and "iob_wf b" and "buffer_capacity b = buffer_capacity (bo_buffer ob)"
  shows "buffers_ok (put_buffer h b m)"
proof -
  have "buffer_ok m ob" using assms(1,2) by (rule buffers_okD)
  moreover have "\<And>k oc. buffer_at m k = Some oc \<Longrightarrow> bo_array oc = bo_array ob \<Longrightarrow> k = h"
    using assms(1,2) by (auto simp: buffers_ok_def)
  ultimately show ?thesis
    using assms unfolding buffers_ok_def by (auto simp: buffer_ok_def)
qed

text \<open>A new array in the table.\<close>

lemma new_array_ok:
  assumes "buffers_ok m" and "iob_wf b" and "0 < buffer_capacity b" and "buffer_capacity b < 2 ^ 31"
    and "\<And>k. buffer_at m' k = (if k = h then Some \<lparr>bo_array = bm_arrays m, bo_buffer = b\<rparr> else buffer_at m k)"
    and "bm_arrays m' = bm_arrays m + 1"
  shows "buffers_ok m'"
proof -
  have "bo_array ob < bm_arrays m" if "buffer_at m k = Some ob" for k ob
    using buffers_okD [OF assms(1) that] by (simp add: buffer_ok_def)
  then have old: "buffer_at m k = Some ob \<Longrightarrow> bo_array ob \<noteq> bm_arrays m" for k ob by fastforce
  show ?thesis
    using assms old unfolding buffers_ok_def by (fastforce simp: buffer_ok_def split: if_splits)
qed

lemma buffer_size_ok: "buffer_ok m ob \<Longrightarrow> iob_size (bo_buffer ob) = length (iob_content (bo_buffer ob))"
  by (simp add: buffer_ok_def iob_wf_size)

lemma buffer_bounds:
  assumes "buffer_ok m ob"
  shows "length (iob_content (bo_buffer ob)) < 2 ^ 31" and "iob_freespace (bo_buffer ob) < 2 ^ 31"
  using assms by (auto simp: buffer_ok_def iob_unfold)

lemmas call_defs = call_keeps_def call_effect_def refuse_def answer_def

text \<open>A call that reads its buffer, and one that stores another buffer of the same size.\<close>

lemma query_keeps:
  assumes "buffers_ok m" and "run x = buffer_query q (call_args x)"
    and "\<And>ob. buffer_ok m ob \<Longrightarrow> call_effect x (iob_content (bo_buffer ob)) (q ob) [] (iob_content (bo_buffer ob))"
    and "\<forall>args. x \<noteq> Buf_New args \<and> x \<noteq> Buf_Delete args"
  shows "\<exists>a out m'. run x m = Some (a, out, m') \<and> buffers_ok m' \<and> call_keeps x m a out m'"
proof (cases "length (call_args x) \<noteq> 1 \<or> get_iobuffer (call_args x) m = None")
  case True
  with assms(1,2) show ?thesis by (auto simp: buffer_query_def call_defs)
next
  case False
  then obtain h ob where g: "get_iobuffer (call_args x) m = Some (h, ob)" by auto
  from get_iobuffer_Some [OF g] obtain n rest where
    n: "call_args x = Arg_Integer n # rest" "h = handle_of n" "buffer_at m h = Some ob" by blast
  have "call_keeps x m (Answers (q ob)) [] m"
    using n assms(4) assms(3) [OF buffers_okD [OF assms(1) n(3)]]
    by (cases x) (simp_all add: call_keeps_def content_at_def)
  with False g assms(1,2) show ?thesis by (simp add: buffer_query_def answer_def)
qed

lemma stored_keeps:
  assumes "buffers_ok m" and "get_iobuffer (call_args x) m = Some (h, ob)"
    and "iob_wf b" and "buffer_capacity b = buffer_capacity (bo_buffer ob)"
    and "call_effect x (iob_content (bo_buffer ob)) vs out (iob_content b)"
    and "\<forall>args. x \<noteq> Buf_New args \<and> x \<noteq> Buf_Delete args"
  shows "buffers_ok (put_buffer h b m) \<and> call_keeps x m (Answers vs) out (put_buffer h b m)"
proof -
  from get_iobuffer_Some [OF assms(2)] obtain n rest where
    n: "call_args x = Arg_Integer n # rest" "h = handle_of n" "buffer_at m h = Some ob" by blast
  have "content_at m h = Some (iob_content (bo_buffer ob))" using n(3) by (simp add: content_at_def)
  then have "call_keeps x m (Answers vs) out (put_buffer h b m)"
    using n assms(5,6) content_at_put [OF n(3), of b] only_changed_put [of h m b]
    by (cases x) (auto simp: call_keeps_def)
  with put_buffer_ok [OF assms(1) n(3) assms(3,4)] show ?thesis by blast
qed

text \<open>A buffer that moves to a new array.\<close>

lemma moved_keeps:
  assumes "buffers_ok m" and "get_iobuffer (call_args x) m = Some (h, ob)"
    and "iob_wf b" and "0 < buffer_capacity b" and "buffer_capacity b < 2 ^ 31"
    and "call_effect x (iob_content (bo_buffer ob)) vs out (iob_content b)"
    and "\<forall>args. x \<noteq> Buf_New args \<and> x \<noteq> Buf_Delete args"
    and "m' = m\<lparr>bm_arrays := bm_arrays m + 1,
      bm_objs := set_lua_obj h \<lparr>bo_array = bm_arrays m, bo_buffer = b\<rparr> (bm_objs m)\<rparr>"
  shows "buffers_ok m' \<and> call_keeps x m (Answers vs) out m'"
proof -
  from get_iobuffer_Some [OF assms(2)] obtain n rest where
    n: "call_args x = Arg_Integer n # rest" "h = handle_of n" "buffer_at m h = Some ob" by blast
  have at: "buffer_at m' k = (if k = h then Some \<lparr>bo_array = bm_arrays m, bo_buffer = b\<rparr> else buffer_at m k)" for k
    using n(3) assms(8) by (simp add: buffer_at_def set_lua_obj_def)
  have "buffers_ok m'" by (rule new_array_ok [OF assms(1,3-5) at]) (simp add: assms(8))
  moreover have "content_at m h = Some (iob_content (bo_buffer ob))" "content_at m' h = Some (iob_content b)"
    "only_changed h m m'"
    using n(3) at by (simp_all add: content_at_def only_changed_def)
  ultimately show ?thesis using n assms(6,7) by (cases x) (auto simp: call_keeps_def)
qed

lemma refused_keeps: "buffers_ok m \<Longrightarrow> \<exists>a out m'. refuse m = Some (a, out, m') \<and> buffers_ok m' \<and> call_keeps x m a out m'"
  by (simp add: call_defs)

text \<open>A function of a buffer and a size.\<close>

lemma with_size_keeps:
  assumes "buffers_ok m"
    and "\<And>h ob k n. get_iobuffer args m = Some (h, ob) \<Longrightarrow> args ! 1 = Arg_Integer n \<Longrightarrow> length args = 2
      \<Longrightarrow> 0 \<le> int32_of n \<Longrightarrow> buffer_ok m ob
      \<Longrightarrow> \<exists>a out m'. act h ob (nat (int32_of n)) m = Some (a, out, m') \<and> buffers_ok m' \<and> call_keeps x m a out m'"
  shows "\<exists>a out m'. with_size act args m = Some (a, out, m') \<and> buffers_ok m' \<and> call_keeps x m a out m'"
proof (cases "\<exists>n0 n h ob. args = [n0, Arg_Integer n] \<and> 0 \<le> int32_of n \<and> get_iobuffer args m = Some (h, ob)")
  case True
  then obtain n0 n h ob where a: "args = [n0, Arg_Integer n]" "0 \<le> int32_of n" "get_iobuffer args m = Some (h, ob)" by blast
  from get_iobuffer_Some [OF a(3)] have "buffer_ok m ob" using buffers_okD [OF assms(1)] by metis
  with assms(2) [OF a(3) _ _ a(2)] a show ?thesis by (simp add: with_size_def)
next
  case False
  then have "with_size act args m = refuse m"
    by (auto simp: with_size_def split: list.splits option.splits lua_arg.splits)
  with refused_keeps [OF assms(1)] show ?thesis by simp
qed

lemma int32_of_bounds: "int32_of n < 2 ^ 31" "- (2 ^ 31) \<le> int32_of n"
  using pos_mod_bound [of "2 ^ 32" n] pos_mod_sign [of "2 ^ 32" n] unfolding int32_of_def Let_def by auto

lemma resize_keeps:
  assumes "buffers_ok m"
  shows "\<exists>a out m'. buffer_resize args m = Some (a, out, m') \<and> buffers_ok m' \<and> call_keeps (Buf_Resize args) m a out m'"
  unfolding buffer_resize_def
proof (rule with_size_keeps [OF assms])
  fix h ob n
  assume g: "get_iobuffer args m = Some (h, ob)" "args ! 1 = Arg_Integer n" "0 \<le> int32_of n" "buffer_ok m ob"
  let ?n = "nat (int32_of n)" and ?b = "bo_buffer ob"
  have wf: "iob_wf ?b" "cells ?b \<noteq> []" "iob_size ?b = length (iob_content ?b)"
    using g(4) buffer_size_ok [OF g(4)] by (auto simp: buffer_ok_def iob_wf_def)
  have sz: "iob_size ?b \<le> iob_capacity ?b" using wf(1) by (auto simp: iob_unfold)
  have c: "take (iob_size ?b) (drop (begin_offset ?b) (cells ?b)) = iob_content ?b"
    using wf(1) by (auto simp: iob_unfold)
  show "\<exists>a out m'. (let b = ?b in if ?n > iob_capacity b then
           (let (nb, m1) = new_array (IOBuffer_new ?n) m
            in do {
                 old \<leftarrow> iob_data b;
                 cs \<leftarrow> store_at (cells (bo_buffer nb)) 0 (take (iob_size b) old);
                 b1 \<leftarrow> iob_resize ?n ((bo_buffer nb)\<lparr>cells := cs\<rparr>);
                 answer [] (m1\<lparr>bm_objs := set_lua_obj h (nb\<lparr>bo_buffer := b1\<rparr>) (bm_objs m1)\<rparr>)
               })
         else do { b1 \<leftarrow> iob_resize ?n b; answer [] (put_buffer h b1 m) }) = Some (a, out, m')
      \<and> buffers_ok m' \<and> call_keeps (Buf_Resize args) m a out m'"
  proof (cases "?n > iob_capacity ?b")
    case True
    let ?cs = "iob_content ?b @ replicate (?n - iob_size ?b) None"
    let ?nb = "\<lparr>begin_offset = 0, end_offset = ?n, cells = ?cs, buffer_capacity = ?n\<rparr>"
    have st: "store_at (cells (IOBuffer_new ?n)) 0 (iob_content ?b) = Some ?cs"
      using True sz wf(3) by (simp add: store_at_def IOBuffer_new_def)
    have nb: "iob_content ?nb = ?cs" "iob_wf ?nb" "length ?cs = ?n"
      using True sz wf(3) by (auto simp: iob_content_def [of "\<lparr>begin_offset = 0, end_offset = _, cells = _, buffer_capacity = _\<rparr>"] iob_wf_def)
    have "buffers_ok (m\<lparr>bm_arrays := bm_arrays m + 1,
          bm_objs := set_lua_obj h \<lparr>bo_array = bm_arrays m, bo_buffer = ?nb\<rparr> (bm_objs m)\<rparr>)
        \<and> call_keeps (Buf_Resize args) m (Answers []) [] (m\<lparr>bm_arrays := bm_arrays m + 1,
          bm_objs := set_lua_obj h \<lparr>bo_array = bm_arrays m, bo_buffer = ?nb\<rparr> (bm_objs m)\<rparr>)"
      using g True sz wf(3) int32_of_bounds(1) [of n] nb
      by (intro moved_keeps [where b = ?nb and ob = ob]) (auto simp: assms call_effect_def)
    with True st c wf(2) show ?thesis
      by (simp add: new_array_def iob_data_def IOBuffer_new_def iob_resize_def iob_capacity_def answer_def Let_def)
  next
    case False
    then obtain b1 where b1: "iob_resize ?n ?b = Some b1"
      using iob_resize_fail [of ?n ?b] by (cases "iob_resize ?n ?b") (auto simp: iob_capacity_def)
    have cap: "buffer_capacity b1 = buffer_capacity ?b" using b1 by (auto simp: iob_resize_def split: if_splits)
    note r = iob_resize_ok [OF wf(1) b1]
    have "buffers_ok (put_buffer h b1 m) \<and> call_keeps (Buf_Resize args) m (Answers []) [] (put_buffer h b1 m)"
      using g r cap by (intro stored_keeps [where ob = ob]) (auto simp: assms call_effect_def)
    with False b1 show ?thesis by (simp add: answer_def Let_def)
  qed
qed

lemma reset_keeps:
  assumes "buffers_ok m"
  shows "\<exists>a out m'. buffer_reset args m = Some (a, out, m') \<and> buffers_ok m' \<and> call_keeps (Buf_Reset args) m a out m'"
  unfolding buffer_reset_def
proof (rule with_size_keeps [OF assms])
  fix h ob n
  assume g: "get_iobuffer args m = Some (h, ob)" "args ! 1 = Arg_Integer n" "0 \<le> int32_of n" "buffer_ok m ob"
  let ?n = "nat (int32_of n)" and ?b = "bo_buffer ob"
  have wf: "iob_wf ?b" using g(4) by (simp add: buffer_ok_def)
  show "\<exists>a out m'. (let b = ?b in if ?n > iob_capacity b then
           (let (nb, m1) = new_array (IOBuffer_new ?n) m
            in answer [] (m1\<lparr>bm_objs := set_lua_obj h nb (bm_objs m1)\<rparr>))
         else do { b1 \<leftarrow> iob_resize ?n (iob_clear b); answer [] (put_buffer h b1 m) }) = Some (a, out, m')
      \<and> buffers_ok m' \<and> call_keeps (Buf_Reset args) m a out m'"
  proof (cases "?n > iob_capacity ?b")
    case True
    have "buffers_ok (m\<lparr>bm_arrays := bm_arrays m + 1,
          bm_objs := set_lua_obj h \<lparr>bo_array = bm_arrays m, bo_buffer = IOBuffer_new ?n\<rparr> (bm_objs m)\<rparr>)
        \<and> call_keeps (Buf_Reset args) m (Answers []) [] (m\<lparr>bm_arrays := bm_arrays m + 1,
          bm_objs := set_lua_obj h \<lparr>bo_array = bm_arrays m, bo_buffer = IOBuffer_new ?n\<rparr> (bm_objs m)\<rparr>)"
      using g True int32_of_bounds(1) [of n]
      by (intro moved_keeps [where b = "IOBuffer_new ?n" and ob = ob])
        (auto simp: assms iob_new_wf call_effect_def, simp_all add: IOBuffer_new_def)
    with True show ?thesis by (simp add: new_array_def answer_def Let_def)
  next
    case False
    have cw: "iob_wf (iob_clear ?b)" "buffer_capacity (iob_clear ?b) = buffer_capacity ?b"
      using wf iob_clear_wf by (auto simp: iob_clear_def)
    with False obtain b1 where b1: "iob_resize ?n (iob_clear ?b) = Some b1"
      using iob_resize_fail [of ?n "iob_clear ?b"] by (cases "iob_resize ?n (iob_clear ?b)") (auto simp: iob_capacity_def)
    have cap: "buffer_capacity b1 = buffer_capacity ?b"
      using b1 cw(2) by (auto simp: iob_resize_def split: if_splits)
    note r = iob_resize_ok [OF cw(1) b1]
    have "buffers_ok (put_buffer h b1 m) \<and> call_keeps (Buf_Reset args) m (Answers []) [] (put_buffer h b1 m)"
      using g r cap by (intro stored_keeps [where ob = ob]) (auto simp: assms call_effect_def)
    with False b1 show ?thesis by (simp add: answer_def Let_def)
  qed
qed

lemma int32_of_length: "n < 2 ^ 31 \<Longrightarrow> int32_of (int n) = int n"
  by simp

lemma consume_keeps:
  assumes "buffers_ok m"
  shows "\<exists>a out m'. buffer_consume args m = Some (a, out, m') \<and> buffers_ok m' \<and> call_keeps (Buf_Consume args) m a out m'"
  unfolding buffer_consume_def
proof (rule with_size_keeps [OF assms])
  fix h ob n
  assume g: "get_iobuffer args m = Some (h, ob)" "args ! 1 = Arg_Integer n" "0 \<le> int32_of n" "buffer_ok m ob"
  let ?n = "nat (int32_of n)" and ?b = "bo_buffer ob"
  have wf: "iob_wf ?b" using g(4) by (simp add: buffer_ok_def)
  have sz: "int32_of (int (iob_size ?b)) = int (length (iob_content ?b))"
    using buffer_bounds(1) [OF g(4)] buffer_size_ok [OF g(4)] by simp
  show "\<exists>a out m'. (if int ?n > int32_of (int (iob_size ?b)) then refuse m
      else do { b1 \<leftarrow> iob_consume ?n ?b; answer [] (put_buffer h b1 m) }) = Some (a, out, m')
      \<and> buffers_ok m' \<and> call_keeps (Buf_Consume args) m a out m'"
  proof (cases "?n \<le> length (iob_content ?b)")
    case True
    from iob_consume_ok [OF wf True] obtain b1 where
      b1: "iob_consume ?n ?b = Some b1" "iob_wf b1" "iob_content b1 = drop ?n (iob_content ?b)" by blast
    have cap: "buffer_capacity b1 = buffer_capacity ?b"
      using b1(1) by (auto simp: iob_consume_def iob_clear_def Let_def split: if_splits)
    have "buffers_ok (put_buffer h b1 m) \<and> call_keeps (Buf_Consume args) m (Answers []) [] (put_buffer h b1 m)"
      using g b1 cap True by (intro stored_keeps [where ob = ob]) (auto simp: assms call_effect_def)
    with True b1(1) sz show ?thesis by (auto simp: answer_def)
  next
    case False
    with sz have gt: "int ?n > int32_of (int (iob_size ?b))" by linarith
    show ?thesis unfolding if_P [OF gt] by (rule refused_keeps [OF assms])
  qed
qed

lemma produce_keeps:
  assumes "buffers_ok m"
  shows "\<exists>a out m'. buffer_produce args m = Some (a, out, m') \<and> buffers_ok m' \<and> call_keeps (Buf_Produce args) m a out m'"
  unfolding buffer_produce_def
proof (rule with_size_keeps [OF assms])
  fix h ob n
  assume g: "get_iobuffer args m = Some (h, ob)" "args ! 1 = Arg_Integer n" "0 \<le> int32_of n" "buffer_ok m ob"
  let ?n = "nat (int32_of n)" and ?b = "bo_buffer ob"
  have wf: "iob_wf ?b" using g(4) by (simp add: buffer_ok_def)
  have sz: "int32_of (int (iob_freespace ?b)) = int (iob_freespace ?b)"
    using buffer_bounds(2) [OF g(4)] by simp
  show "\<exists>a out m'. (if int ?n > int32_of (int (iob_freespace ?b)) then refuse m
      else do { b1 \<leftarrow> iob_produce ?n ?b; answer [] (put_buffer h b1 m) }) = Some (a, out, m')
      \<and> buffers_ok m' \<and> call_keeps (Buf_Produce args) m a out m'"
  proof (cases "?n \<le> iob_freespace ?b")
    case True
    then obtain b1 where b1: "iob_produce ?n ?b = Some b1" by (simp add: iob_produce_def)
    have cap: "buffer_capacity b1 = buffer_capacity ?b" using b1 by (auto simp: iob_produce_def split: if_splits)
    note r = iob_produce_ok [OF wf b1]
    have "buffers_ok (put_buffer h b1 m) \<and> call_keeps (Buf_Produce args) m (Answers []) [] (put_buffer h b1 m)"
      using g r cap by (intro stored_keeps [where ob = ob]) (auto simp: assms call_effect_def)
    with True b1 sz show ?thesis by (auto simp: answer_def)
  next
    case False
    with sz have gt: "int ?n > int32_of (int (iob_freespace ?b))" by linarith
    show ?thesis unfolding if_P [OF gt] by (rule refused_keeps [OF assms])
  qed
qed

lemma new_keeps:
  assumes "buffers_ok m"
  shows "\<exists>a out m'. buffer_new args m = Some (a, out, m') \<and> buffers_ok m' \<and> call_keeps (Buf_New args) m a out m'"
proof (cases "\<exists>n. args = [Arg_Integer n] \<and> 0 < int32_of n")
  case True
  then obtain n where n: "args = [Arg_Integer n]" "0 < int32_of n" by blast
  let ?b = "IOBuffer_new (nat (int32_of n)) :: byte iobuffer"
  let ?ob = "\<lparr>bo_array = bm_arrays m, bo_buffer = ?b\<rparr>"
  obtain h objs where h: "new_lua_obj (Some ?ob) (bm_objs m) = (h, objs)" by (cases "new_lua_obj (Some ?ob) (bm_objs m)")
  let ?m = "m\<lparr>bm_arrays := bm_arrays m + 1, bm_objs := objs\<rparr>"
  have at: "buffer_at ?m k = (if k = h then Some ?ob else buffer_at m k)" for k
    using new_lua_obj_old [OF h] by (simp add: buffer_at_def)
  have "buffers_ok ?m"
    by (rule new_array_ok [OF assms _ _ _ at])
      (use n int32_of_bounds(1) [of n] in \<open>simp_all add: iob_new_wf, simp_all add: IOBuffer_new_def\<close>)
  moreover have "call_keeps (Buf_New args) m (Answers [Integer_Value (uint h)]) [] ?m"
    using n at by (auto simp: call_keeps_def content_at_def only_changed_def)
  moreover have "buffer_new args m = Some (Answers [Integer_Value (uint h)], [], ?m)"
    using n h by (simp add: buffer_new_def new_array_def answer_def Let_def)
  ultimately show ?thesis by blast
next
  case False
  then have "buffer_new args m = refuse m"
    by (auto simp: buffer_new_def Let_def split: list.splits lua_arg.splits)
  with refused_keeps [OF assms] show ?thesis by simp
qed

lemma delete_keeps:
  assumes "buffers_ok m"
  shows "\<exists>a out m'. buffer_delete args m = Some (a, out, m') \<and> buffers_ok m' \<and> call_keeps (Buf_Delete args) m a out m'"
proof (cases "\<exists>n. args = [Arg_Integer n]")
  case True
  then obtain n where n: "args = [Arg_Integer n]" by blast
  let ?m = "m\<lparr>bm_objs := snd (delete_lua_obj (handle_of n) (bm_objs m))\<rparr>"
  have at: "buffer_at ?m k = (if k = handle_of n then None else buffer_at m k)" for k
    by (simp add: buffer_at_def delete_lua_obj_def)
  then have "buffers_ok ?m" using assms by (auto simp: buffers_ok_def buffer_ok_def split: if_splits)
  moreover have "call_keeps (Buf_Delete args) m (Answers []) [] ?m"
    using n at by (auto simp: call_keeps_def content_at_def only_changed_def)
  ultimately show ?thesis using n by (simp add: buffer_delete_def answer_def)
next
  case False
  then have "buffer_delete args m = refuse m"
    by (auto simp: buffer_delete_def split: list.splits lua_arg.splits)
  with refused_keeps [OF assms] show ?thesis by simp
qed

lemma clear_keeps:
  assumes "buffers_ok m"
  shows "\<exists>a out m'. buffer_clear args m = Some (a, out, m') \<and> buffers_ok m' \<and> call_keeps (Buf_Clear args) m a out m'"
proof (cases "length args = 1 \<and> get_iobuffer args m \<noteq> None")
  case True
  then obtain h ob where g: "get_iobuffer args m = Some (h, ob)" "length args = 1" by auto
  from get_iobuffer_Some [OF g(1)] have ob: "buffer_ok m ob" using buffers_okD [OF assms] by metis
  have "buffers_ok (put_buffer h (iob_clear (bo_buffer ob)) m)
      \<and> call_keeps (Buf_Clear args) m (Answers []) [] (put_buffer h (iob_clear (bo_buffer ob)) m)"
    using g ob iob_clear_wf [of "bo_buffer ob"]
    by (intro stored_keeps [where ob = ob]) (auto simp: assms call_effect_def buffer_ok_def, simp add: iob_clear_def)
  with g show ?thesis by (simp add: buffer_clear_def answer_def)
next
  case False
  then have "buffer_clear args m = refuse m" by (auto simp: buffer_clear_def split: option.splits)
  with refused_keeps [OF assms] show ?thesis by simp
qed

lemma align_keeps:
  assumes "buffers_ok m"
  shows "\<exists>a out m'. buffer_align args m = Some (a, out, m') \<and> buffers_ok m' \<and> call_keeps (Buf_Align args) m a out m'"
proof (cases "length args = 2 \<and> get_iobuffer args m \<noteq> None")
  case True
  then obtain h ob where g: "get_iobuffer args m = Some (h, ob)" "length args = 2" by auto
  from get_iobuffer_Some [OF g(1)] have ob: "buffer_ok m ob" using buffers_okD [OF assms] by metis
  have "buffer_capacity (iob_align (bo_buffer ob)) = buffer_capacity (bo_buffer ob)"
    by (simp add: iob_align_def iob_clear_def)
  then have "buffers_ok (put_buffer h (iob_align (bo_buffer ob)) m)
      \<and> call_keeps (Buf_Align args) m (Answers []) [] (put_buffer h (iob_align (bo_buffer ob)) m)"
    using g ob iob_align_wf [of "bo_buffer ob"] iob_align_content [of "bo_buffer ob"]
    by (intro stored_keeps [where ob = ob]) (auto simp: assms call_effect_def buffer_ok_def)
  with g show ?thesis by (simp add: buffer_align_def answer_def)
next
  case False
  then have "buffer_align args m = refuse m" by (auto simp: buffer_align_def split: option.splits)
  with refused_keeps [OF assms] show ?thesis by simp
qed

lemma read_keeps:
  assumes "buffers_ok m"
  shows "\<exists>a out m'. buffer_read args m = Some (a, out, m') \<and> buffers_ok m' \<and> call_keeps (Buf_Read args) m a out m'"
proof (cases "\<exists>x dst n h ob. args = [x, Arg_Light dst, Arg_Integer n] \<and> dst \<noteq> 0
    \<and> (word_of_int n :: u32) \<noteq> 0 \<and> get_iobuffer args m = Some (h, ob)")
  case True
  then obtain x dst n h ob where g: "args = [x, Arg_Light dst, Arg_Integer n]" "dst \<noteq> 0"
    "unat (word_of_int n :: u32) \<noteq> 0" "get_iobuffer args m = Some (h, ob)" by (auto simp: unat_eq_0)
  let ?b = "bo_buffer ob"
  let ?k = "min (unat (word_of_int n :: u32)) (length (iob_content ?b))"
  from get_iobuffer_Some [OF g(4)] have ob: "buffer_ok m ob" using buffers_okD [OF assms] by metis
  then have wf: "iob_wf ?b" "cells ?b \<noteq> []" by (auto simp: buffer_ok_def iob_wf_def)
  have p: "iob_data ?b = Some (drop (begin_offset ?b) (cells ?b))" using wf(2) by (simp add: iob_data_def)
  have t: "take ?k (drop (begin_offset ?b) (cells ?b)) = take ?k (iob_content ?b)"
    using wf(1) by (auto simp: iob_unfold min_def)
  from iob_consume_ok [OF wf(1), of ?k] obtain b1 where
    b1: "iob_consume ?k ?b = Some b1" "iob_wf b1" "iob_content b1 = drop ?k (iob_content ?b)" by auto
  have cap: "buffer_capacity b1 = buffer_capacity ?b"
    using b1(1) by (auto simp: iob_consume_def iob_clear_def Let_def split: if_splits)
  have "buffers_ok (put_buffer h b1 m) \<and> call_keeps (Buf_Read args) m (Answers [Integer_Value (int ?k)])
      [(dst, take ?k (iob_content ?b))] (put_buffer h b1 m)"
    using g b1 cap by (intro stored_keeps [where ob = ob]) (auto simp: assms call_effect_def Let_def)
  with g p t b1(1) buffer_size_ok [OF ob] show ?thesis by (simp add: buffer_read_def Let_def)
next
  case False
  then have "buffer_read args m = refuse m"
    by (auto simp: buffer_read_def Let_def unat_eq_0 split: list.splits lua_arg.splits option.splits)
  with refused_keeps [OF assms] show ?thesis by simp
qed

text \<open>
  C40: the buffer module keeps its buffers in order, whatever a script calls it with. From a module whose
  buffers are well formed, every function returns, without a failed assertion and without an access
  outside an array, and leaves such a module. A call that is refused changes nothing. Any other call
  changes the buffer it names alone: \<open>new\<close> makes one of the size asked for, \<open>delete\<close> removes it,
  \<open>read\<close> and \<open>consume\<close> take bytes from the front, \<open>produce\<close> and \<open>resize\<close> keep what was there,
  \<open>align\<close> and the queries keep everything.
\<close>

theorem buffer_calls_keep:
  assumes "buffers_ok m"
  shows "\<exists>a out m'. buffer_call_run x m = Some (a, out, m') \<and> buffers_ok m' \<and> call_keeps x m a out m'"
proof -
  have query: "\<exists>a out m'. buffer_call_run x m = Some (a, out, m') \<and> buffers_ok m' \<and> call_keeps x m a out m'"
    if "buffer_call_run x = buffer_query q (call_args x)"
      and "\<And>ob. buffer_ok m ob \<Longrightarrow> call_effect x (iob_content (bo_buffer ob)) (q ob) [] (iob_content (bo_buffer ob))"
      and "\<forall>args. x \<noteq> Buf_New args \<and> x \<noteq> Buf_Delete args" for q
    using query_keeps [OF assms, of buffer_call_run x q] that by blast
  note effects = call_effect_def data_pointer_def buffer_size_ok buffer_ok_def iob_wf_empty iob_wf_size
  show ?thesis
  proof (cases x)
    case (Buf_Get args)
    then show ?thesis by (intro query [of "\<lambda>ob. [data_pointer ob, Integer_Value (int (iob_size (bo_buffer ob)))]"]) (auto simp: buffer_get_def effects)
  next
    case (Buf_Ptr args)
    then show ?thesis by (intro query [of "\<lambda>ob. [data_pointer ob]"]) (auto simp: buffer_ptr_def effects)
  next
    case (Buf_Size args)
    then show ?thesis by (intro query [of "\<lambda>ob. [Integer_Value (int (iob_size (bo_buffer ob)))]"]) (auto simp: buffer_size_def effects)
  next
    case (Buf_Capacity args)
    then show ?thesis by (intro query [of "\<lambda>ob. [Integer_Value (int (iob_capacity (bo_buffer ob)))]"]) (auto simp: buffer_capacity_of_def effects)
  next
    case (Buf_Freespace args)
    then show ?thesis by (intro query [of "\<lambda>ob. [Integer_Value (int (iob_freespace (bo_buffer ob)))]"]) (auto simp: buffer_freespace_def effects)
  next
    case (Buf_Empty args)
    then show ?thesis by (intro query [of "\<lambda>ob. [Boolean_Value (iob_empty (bo_buffer ob))]"]) (auto simp: buffer_is_empty_def effects)
  next
    case (Buf_Full args)
    then show ?thesis by (intro query [of "\<lambda>ob. [Boolean_Value (iob_full (bo_buffer ob))]"]) (auto simp: buffer_is_full_def effects)
  qed (use new_keeps delete_keeps resize_keeps reset_keeps clear_keeps consume_keeps produce_keeps
      align_keeps read_keeps assms in auto)
qed

lemma LuaIOBufferModule_new_ok: "buffers_ok (LuaIOBufferModule_new n)"
  by (simp add: buffers_ok_def buffer_at_def LuaIOBufferModule_new_def LuaObjMgr_new_def)

text \<open>A buffer that is to become larger than its array gets another one.\<close>

lemma resize_moves:
  assumes "buffers_ok m" and "args = [Arg_Integer k, Arg_Integer n]" and "buffer_at m (handle_of k) = Some ob"
    and "int (buffer_capacity (bo_buffer ob)) < int32_of n" and "buffer_resize args m = Some (a, out, m')"
  shows "buffer_at m' j = (if j = handle_of k then map_option (\<lambda>oc. oc\<lparr>bo_array := bm_arrays m\<rparr>) (buffer_at m' j)
    else buffer_at m j)" and "a = Answers []"
proof -
  have "get_iobuffer args m = Some (handle_of k, ob)"
    using assms(2,3) by (simp add: get_iobuffer_def get_obj_def buffer_at_def)
  with assms show "a = Answers []"
    and "buffer_at m' j = (if j = handle_of k then map_option (\<lambda>oc. oc\<lparr>bo_array := bm_arrays m\<rparr>) (buffer_at m' j)
      else buffer_at m j)"
    by (auto simp: buffer_resize_def with_size_def new_array_def answer_def buffer_at_def set_lua_obj_def
        iob_capacity_def Let_def split: option.splits bind_splits if_splits)
qed

text \<open>
  A script's pointers dangle after a growth. \<open>resize\<close> beyond the capacity keeps the bytes but moves them
  to a new array and frees the old one, into which \<open>ptr\<close> and \<open>get\<close> have handed out pointers: no buffer
  has that array any more. The pointers into all other buffers stay alive.
\<close>

theorem growth_frees_the_array:
  assumes "buffers_ok m" and "buffer_at m (handle_of k) = Some ob"
    and "int (buffer_capacity (bo_buffer ob)) < int32_of n"
  shows "(\<exists>i. buffer_ptr [Arg_Integer k] m = Some (Answers [Pointer_Value (bo_array ob) i], [], m))
    \<and> (\<exists>m'. buffer_resize [Arg_Integer k, Arg_Integer n] m = Some (Answers [], [], m') \<and> buffers_ok m'
      \<and> array_alive (bo_array ob) m \<and> \<not> array_alive (bo_array ob) m'
      \<and> (\<forall>a. a \<noteq> bo_array ob \<longrightarrow> array_alive a m \<longrightarrow> array_alive a m')
      \<and> (\<exists>c'. content_at m' (handle_of k) = Some c' \<and> int (length c') = int32_of n
          \<and> take (length (iob_content (bo_buffer ob))) c' = iob_content (bo_buffer ob)))"
proof (rule conjI)
  let ?args = "[Arg_Integer k, Arg_Integer n]" and ?h = "handle_of k" and ?c = "iob_content (bo_buffer ob)"
  show "\<exists>i. buffer_ptr [Arg_Integer k] m = Some (Answers [Pointer_Value (bo_array ob) i], [], m)"
    using assms(2) by (simp add: buffer_ptr_def buffer_query_def get_iobuffer_def get_obj_def buffer_at_def
        answer_def data_pointer_def)
  from resize_keeps [OF assms(1), of ?args] obtain a out m' where
    r: "buffer_resize ?args m = Some (a, out, m')" "buffers_ok m'" "call_keeps (Buf_Resize ?args) m a out m'" by blast
  note at = resize_moves [OF assms(1) refl assms(2,3) r(1)]
  have ok: "buffer_ok m ob" using assms(1,2) by (rule buffers_okD)
  obtain c' where c': "out = []" "content_at m' ?h = Some c'" "int (length c') = int32_of n"
    "take (length c') ?c = take (length ?c) c'"
    using r(3) at(2) assms(2) by (auto simp: call_keeps_def call_effect_def content_at_def)
  obtain oc where oc: "buffer_at m' ?h = Some oc" using c'(2) by (auto simp: content_at_def)
  then have new: "bo_array oc = bm_arrays m" using at(1) [of ?h] by (cases oc) simp
  have at': "buffer_at m' j = (if j = ?h then Some oc else buffer_at m j)" for j
    using at(1) [of j] oc by auto
  have dead: "\<not> array_alive (bo_array ob) m'"
  proof
    assume "array_alive (bo_array ob) m'"
    then obtain j od where j: "buffer_at m' j = Some od" "bo_array od = bo_array ob" by (auto simp: array_alive_def)
    show False
    proof (cases "j = ?h")
      case True
      with j oc new ok show False by (simp add: buffer_ok_def)
    next
      case False
      with j at' have "buffer_at m j = Some od" by simp
      with j(2) assms(1,2) False show False unfolding buffers_ok_def by blast
    qed
  qed
  have "array_alive a m'" if "a \<noteq> bo_array ob" "array_alive a m" for a
    using that at' assms(2) unfolding array_alive_def by (metis option.inject)
  moreover have "length ?c \<le> length c'"
    using c'(3) assms(3) ok by (auto simp: buffer_ok_def iob_unfold)
  moreover have "array_alive (bo_array ob) m" using assms(2) by (auto simp: array_alive_def)
  ultimately show "\<exists>m'. buffer_resize ?args m = Some (Answers [], [], m') \<and> buffers_ok m'
      \<and> array_alive (bo_array ob) m \<and> \<not> array_alive (bo_array ob) m'
      \<and> (\<forall>a. a \<noteq> bo_array ob \<longrightarrow> array_alive a m \<longrightarrow> array_alive a m')
      \<and> (\<exists>c'. content_at m' ?h = Some c' \<and> int (length c') = int32_of n \<and> take (length ?c) c' = ?c)"
    using r c' at(2) dead by (intro exI [of _ m']) auto
qed

section \<open>A module with one buffer\<close>

definition demo_object :: buffer_object where
  "demo_object = \<lparr>bo_array = 0,
     bo_buffer = \<lparr>begin_offset = 1, end_offset = 3, cells = [None, Some 7, Some 9, None], buffer_capacity = 4\<rparr>\<rparr>"

definition demo_module :: buffer_module where
  "demo_module = \<lparr>bm_objs = \<lparr>om_counter = 1, om_table = (\<lambda>h. if h = 1 then Some demo_object else None)\<rparr>,
     bm_arrays = 1\<rparr>"

lemma demo_module_ok: "buffers_ok demo_module" "buffer_at demo_module (handle_of 1) = Some demo_object"
  by (auto simp: buffers_ok_def buffer_at_def demo_module_def demo_object_def buffer_ok_def iob_wf_def handle_of_def)

theorem buffer_calls_keep_witness:
  "\<exists>m'. buffer_call_run (Buf_Read [Arg_Integer 1, Arg_Light 5, Arg_Integer 9]) demo_module
      = Some (Answers [Integer_Value 2], [(5, [Some 7, Some 9])], m')
    \<and> buffers_ok m' \<and> content_at m' 1 = Some []"
proof -
  let ?x = "Buf_Read [Arg_Integer 1, Arg_Light 5, Arg_Integer 9]"
  from buffer_calls_keep [OF demo_module_ok(1), of ?x] obtain a out m' where
    r: "buffer_call_run ?x demo_module = Some (a, out, m')" "buffers_ok m'" "call_keeps ?x demo_module a out m'" by blast
  have "a \<noteq> Refuses"
    using r(1) by (auto simp: buffer_read_def get_iobuffer_def get_obj_def handle_of_def demo_module_def demo_object_def
        iob_size_def Let_def refuse_def split: bind_splits)
  then obtain vs where a: "a = Answers vs" by (cases a) auto
  have "content_at demo_module 1 = Some [Some 7, Some 9]"
    by (simp add: content_at_def buffer_at_def demo_module_def demo_object_def iob_content_def numeral_2_eq_2)
  with r(3) a have "vs = [Integer_Value 2]" "out = [(5, [Some 7, Some 9])]" "content_at m' 1 = Some []"
    by (auto simp: call_keeps_def call_effect_def handle_of_def)
  with r a show ?thesis by blast
qed

theorem growth_frees_the_array_witness:
  "\<exists>m'. buffer_resize [Arg_Integer 1, Arg_Integer 100] demo_module = Some (Answers [], [], m')
    \<and> array_alive 0 demo_module \<and> \<not> array_alive 0 m'"
proof -
  have "int (buffer_capacity (bo_buffer demo_object)) < int32_of 100" by (simp add: demo_object_def)
  from growth_frees_the_array [OF demo_module_ok this] show ?thesis
    by (auto simp: demo_object_def)
qed

end
