(* ===== verification/Bee_Http_Reader.thy ===== *)
theory Bee_Http_Reader
  imports Bee_Http_Body Bee_Scanf Bee_Lua_Objects
begin

text \<open>
  Reading a body by hand: the readers (src/lua/module/lua_http_reader.cpp) and the part of
  \<open>LuaHttpSession\<close> (lua_http_session.cpp and .h) that feeds them with chunks.

  The session's own members are the record \<open>lua_http\<close>; the members of the TCP machine it derives from go
  along. Coroutines are numbers. What a step starts on the network, posts to the event loop or runs in
  Lua is its list of effects, in order; nothing that a step still does after resuming a coroutine depends
  on what the coroutine does. A reader belongs to its session, which is alive while it uses it. Logging is
  left out. \<open>None\<close> is a read on a socket that is not there.

  The formatted reader is a second provider of the interface \<open>byte_source\<close>.
\<close>

section \<open>State\<close>

datatype LuaHttpCallbackType =
    eLuaHttpCallback_Resolve | eLuaHttpCallback_Connect | eLuaHttpCallback_Request
  | eLuaHttpCallback_Header | eLuaHttpCallback_Redirect | eLuaHttpCallback_Body

datatype reader_kind = Some_Reader | Exactly_Reader | Scanf_Reader "DataField list"

text \<open>\<open>hr_memory\<close> is the memory from \<open>buff_\<close> on, \<open>size_\<close> cells of it.\<close>

record http_reader =
  hr_kind :: reader_kind
  hr_memory :: "byte option list"
  hr_size :: nat
  hr_pos :: nat
  hr_read_pos :: nat
  hr_main :: "nat option"
  hr_co :: "nat option"

record lua_http =
  lh_main :: "nat option"
  lh_co :: "nat option"
  lh_manual_read_body :: bool
  lh_one_off :: bool
  lh_callbacks :: "LuaHttpCallbackType \<Rightarrow> int"
  lh_header_table :: header_map
  lh_status_code :: nat
  lh_resumed :: bool
  lh_is_chunk :: bool
  lh_chunk_size :: nat
  lh_chunk_left :: nat
  lh_reader :: "http_reader option"
  lh_get_callback :: int
  lh_yielding :: bool

definition LuaHttpSession_new :: lua_http where
  "LuaHttpSession_new = \<lparr>lh_main = None, lh_co = None, lh_manual_read_body = False, lh_one_off = True,
     lh_callbacks = (\<lambda>_. LUA_REFNIL), lh_header_table = [], lh_status_code = 0, lh_resumed = False,
     lh_is_chunk = False, lh_chunk_size = 0, lh_chunk_left = 0, lh_reader = None,
     lh_get_callback = LUA_REFNIL, lh_yielding = False\<rparr>"

text \<open>
  A coroutine is resumed with the topmost \<open>n\<close> of the values on its stack; the memory is that of the
  reader's buffer then.
\<close>

datatype reading_effect =
    Start_Until string
  | Start_Exactly nat
  | Post_Load
  | Resume_Reader nat nat "scan_value list" "byte option list"

type_synonym reading_result = "(bool \<times> reading_effect list \<times> lua_http \<times> tcp_members) option"

section \<open>The session's part\<close>

definition socket_there :: "tcp_members \<Rightarrow> bool" where
  "socket_there t \<longleftrightarrow> (if is_tls t then tls_sock t else sock t)"

definition async_load :: "bool \<Rightarrow> bool \<times> reading_effect list" where
  "async_load ios = (if ios then (True, [Post_Load]) else (False, []))"

text \<open>
  \<open>read_stream\<close>: what it answers, what has been read (less, when the stream runs short), and the rest.
  The CR LF behind a chunk goes with its last byte.
\<close>

definition read_stream :: "nat \<Rightarrow> lua_http \<times> tcp_members \<Rightarrow> nat \<times> byte list \<times> lua_http \<times> tcp_members" where
  "read_stream len st =
     (case st of (s, t) \<Rightarrow>
       if len = 0 \<or> lh_chunk_left s = 0 then (0, [], s, t)
       else
         (let n = min len (lh_chunk_left s);
              got = map of_char (take n (rcv_streambuf t));
              left = lh_chunk_left s - n
          in (n, got, s\<lparr>lh_chunk_left := left\<rparr>,
              t\<lparr>rcv_streambuf := drop (if left = 0 then n + 2 else n) (rcv_streambuf t)\<rparr>)))"

section \<open>Readers\<close>

definition reader_completed :: "http_reader \<Rightarrow> bool" where
  "reader_completed r \<longleftrightarrow>
     (case hr_kind r of Some_Reader \<Rightarrow> hr_pos r > 0 | _ \<Rightarrow> hr_pos r = hr_size r)"

text \<open>\<open>LuaHttpScanfReader::read_data\<close>, a fetch for \<open>scanf\<close>.\<close>

definition read_reader_data :: "http_reader fetch" where
  "read_reader_data len r =
     (if hr_size r = 0 \<or> len = 0 \<or> hr_read_pos r \<ge> hr_size r then Some ([], r)
      else
        (let n = min len (hr_size r - hr_read_pos r)
         in Some (take n (drop (hr_read_pos r) (hr_memory r)), r\<lparr>hr_read_pos := hr_read_pos r + n\<rparr>)))"

text \<open>\<open>push_return_value\<close>: how many results it announces, and what it leaves on the stack.\<close>

definition push_return_value :: "http_reader \<Rightarrow> (nat \<times> scan_value list \<times> http_reader) option" where
  "push_return_value r =
     (case hr_kind r of
        Scanf_Reader format \<Rightarrow>
          do {
            (n, vs, r1) \<leftarrow> scanf read_reader_data 0 (hr_co r \<noteq> None) format r;
            Some (nat n, vs, r1)
          }
      | _ \<Rightarrow> Some (if hr_co r = None then (0, [], r) else (1, [Pushed_Integer (int (hr_pos r))], r)))"

definition reader_resume :: "nat \<Rightarrow> scan_value list \<Rightarrow> http_reader \<Rightarrow> bool \<times> reading_effect list" where
  "reader_resume n vs r =
     (case (hr_co r, hr_main r) of
        (Some co, Some _) \<Rightarrow> (True, [Resume_Reader co n vs (hr_memory r)])
      | _ \<Rightarrow> (False, []))"

definition reader_give_up :: "http_reader \<Rightarrow> reading_effect list" where
  "reader_give_up r =
     (case (hr_co r, hr_main r) of (Some co, Some _) \<Rightarrow> [Resume_Reader co 0 [] (hr_memory r)] | _ \<Rightarrow> [])"

text \<open>
  \<open>notify\<close>, called when there is a reader: it takes what it can use of \<open>n\<close> bytes, and asks for more, is
  done, or gives up.
\<close>

definition reader_notify ::
    "bool \<Rightarrow> BeeErrorCode \<Rightarrow> error_code \<Rightarrow> nat \<Rightarrow> http_reader \<Rightarrow> lua_http \<times> tcp_members \<Rightarrow> reading_result" where
  "reader_notify ios ec1 ec2 n r st =
     (if ec1 \<noteq> kBeeErrorCode_Success \<or> ec_set ec2 then Some (False, reader_give_up r, st)
      else
        (let (len, got, s1, t1) = read_stream (min n (size_sub (hr_size r) (hr_pos r))) st
         in if len = 0 then Some (False, reader_give_up r, s1, t1)
            else
              (let r1 = r\<lparr>hr_memory := take (hr_pos r) (hr_memory r) @ map Some got
                       @ drop (hr_pos r + length got) (hr_memory r), hr_pos := hr_pos r + len\<rparr>
               in if \<not> reader_completed r1 then
                    (let (ret, es) = async_load ios
                     in Some (ret, es @ (if ret then [] else reader_give_up r1), s1\<lparr>lh_reader := Some r1\<rparr>, t1))
                  else do {
                    (cnt, vs, r2) \<leftarrow> push_return_value r1;
                    let (ret, es) = reader_resume cnt vs r2;
                    Some (ret, es @ (if ret then [] else reader_give_up r2), s1\<lparr>lh_reader := Some r2\<rparr>, t1)
                  })))"

section \<open>Chunks\<close>

definition session_read_chunk_size :: "lua_http \<times> tcp_members \<Rightarrow> reading_result" where
  "session_read_chunk_size st =
     (case st of (s, t) \<Rightarrow> if \<not> socket_there t then None else Some (True, [Start_Until crlf], s, t))"

text \<open>\<open>transfer_exactly\<close> counts the bytes that the operation itself transfers.\<close>

definition load_chunk_body :: "nat \<Rightarrow> lua_http \<times> tcp_members \<Rightarrow> reading_result" where
  "load_chunk_body n st =
     (case st of (s, t) \<Rightarrow>
       if \<not> socket_there t then None else Some (True, [Start_Exactly ((n + 2) mod size_mod)], s, t))"

definition session_load :: "bool \<Rightarrow> lua_http \<times> tcp_members \<Rightarrow> reading_result" where
  "session_load ios st =
     (case st of (s, t) \<Rightarrow>
       if \<not> lh_is_chunk s then Some (True, [], s, t)
       else if lh_chunk_left s > 0 then
         (case lh_reader s of
            None \<Rightarrow> Some (True, [], s, t)
          | Some r \<Rightarrow> reader_notify ios kBeeErrorCode_Success Ec_Ok (lh_chunk_left s) r (s, t))
       else session_read_chunk_size (s, t))"

definition session_handle_read_chunk_size :: "bool \<Rightarrow> error_code \<Rightarrow> lua_http \<times> tcp_members \<Rightarrow> reading_result" where
  "session_handle_read_chunk_size ios ec2 st =
     (case st of (s, t) \<Rightarrow>
       (let fail = (\<lambda>ec1 s t. case lh_reader s of
              None \<Rightarrow> Some (True, [], s, t) | Some r \<Rightarrow> reader_notify ios ec1 ec2 0 r (s, t))
        in if ec_set ec2 then fail kBeeErrorCode_Read_Http_Chunk_Size_Fail s t
           else
             (let (n, good, rest) = read_hex 64 (lh_chunk_size s) (rcv_streambuf t);
                  s1 = s\<lparr>lh_chunk_size := n\<rparr>; t1 = t\<lparr>rcv_streambuf := skip_line good rest\<rparr>
              in if n = 0 then fail kBeeErrorCode_Eof s1 t1 else load_chunk_body n (s1, t1))))"

definition session_handle_load_chunk_body :: "bool \<Rightarrow> error_code \<Rightarrow> lua_http \<times> tcp_members \<Rightarrow> reading_result" where
  "session_handle_load_chunk_body ios ec2 st =
     (case st of (s, t) \<Rightarrow>
       (let (ec1, n, s1) = (if ec_set ec2 then (kBeeErrorCode_Read_Http_Chunk_Body_Fail, 0, s)
              else (kBeeErrorCode_Success, lh_chunk_size s, s\<lparr>lh_chunk_left := lh_chunk_size s\<rparr>))
        in case lh_reader s1 of
             None \<Rightarrow> Some (True, [], s1, t) | Some r \<Rightarrow> reader_notify ios ec1 ec2 n r (s1, t)))"

section \<open>Asking\<close>

definition reader_new :: "reader_kind \<Rightarrow> nat \<Rightarrow> byte option list \<Rightarrow> nat option \<Rightarrow> nat option \<Rightarrow> http_reader" where
  "reader_new kind n memory main co = \<lparr>hr_kind = kind, hr_memory = memory, hr_size = n, hr_pos = 0,
     hr_read_pos = 0, hr_main = main, hr_co = co\<rparr>"

text \<open>
  \<open>read\<close>: the buffer is its memory, \<open>None\<close> for a null pointer; a reader that was there is dropped. The
  answer is the code.
\<close>

definition session_read ::
    "bool \<Rightarrow> nat option \<Rightarrow> byte option list option \<Rightarrow> nat \<Rightarrow> int \<Rightarrow> lua_http \<times> tcp_members
      \<Rightarrow> BeeErrorCode \<times> reading_effect list \<times> lua_http \<times> tcp_members" where
  "session_read ios co buff len cond st =
     (case st of (s, t) \<Rightarrow>
       case buff of
         None \<Rightarrow> (kBeeErrorCode_Invalid_Param, [], s, t)
       | Some memory \<Rightarrow>
           if len = 0 then (kBeeErrorCode_Invalid_Param, [], s, t)
           else if \<not> connected t then (kBeeErrorCode_Invalid_State, [], s, t)
           else if cond < 0 \<or> 3 \<le> cond then (kBeeErrorCode_Invalid_Param, [], s, t)
           else
             (let r = reader_new (if cond = 0 then Some_Reader else Exactly_Reader) len memory (lh_main s) co;
                  (ret, es) = async_load ios
              in (if ret then kBeeErrorCode_Success else kBeeErrorCode_Read_Fail, es, s\<lparr>lh_reader := Some r\<rparr>, t)))"

definition session_scanf ::
    "bool \<Rightarrow> nat option \<Rightarrow> DataField list \<Rightarrow> nat \<Rightarrow> lua_http \<times> tcp_members
      \<Rightarrow> BeeErrorCode \<times> reading_effect list \<times> lua_http \<times> tcp_members" where
  "session_scanf ios co format total_size st =
     (case st of (s, t) \<Rightarrow>
       if \<not> connected t then (kBeeErrorCode_Invalid_State, [], s, t)
       else if total_size = 0 \<or> format = []
         then (kBeeErrorCode_Invalid_Param, [],
               s\<lparr>lh_reader := Some (reader_new (Scanf_Reader []) 0 [] (lh_main s) co)\<rparr>, t)
       else
         (let r = reader_new (Scanf_Reader format) total_size (replicate total_size None) (lh_main s) co;
              (ret, es) = async_load ios
          in (if ret then kBeeErrorCode_Success else kBeeErrorCode_Read_Fail, es, s\<lparr>lh_reader := Some r\<rparr>, t)))"

definition reader_close :: "http_reader \<Rightarrow> http_reader" where
  "reader_close r = r\<lparr>hr_main := None, hr_co := None\<rparr>"

section \<open>The reader's memory as a source of bytes\<close>

definition reader_pending :: "http_reader \<Rightarrow> byte option list" where
  "reader_pending r = drop (hr_read_pos r) (hr_memory r)"

definition reader_readable :: "http_reader \<Rightarrow> bool" where
  "reader_readable r \<longleftrightarrow> length (hr_memory r) = hr_size r \<and> hr_read_pos r \<le> hr_size r"

interpretation hr: byte_source read_reader_data reader_pending reader_readable
  by unfold_locales
    (auto simp: read_reader_data_def reader_pending_def reader_readable_def Let_def min_def add.commute)

section \<open>A session, a reader and the network\<close>

text \<open>
  What the session waits for, the reader's coroutine once it has been resumed, what the network still
  brings, and whether the peer has closed before the read under way was complete.
\<close>

record reading_world =
  rw_wait :: "reading_effect option"
  rw_resumed :: "reading_effect list"
  rw_state :: "lua_http \<times> tcp_members"
  rw_net :: string
  rw_closed :: bool

fun is_resume :: "reading_effect \<Rightarrow> bool" where
  "is_resume (Resume_Reader co n vs memory) = True"
| "is_resume e = False"

definition rw_after :: "reading_effect list \<Rightarrow> lua_http \<times> tcp_members \<Rightarrow> string \<Rightarrow> reading_world \<Rightarrow> reading_world" where
  "rw_after es st net w =
     w\<lparr>rw_wait := (case filter (\<lambda>e. \<not> is_resume e) es of [] \<Rightarrow> None | e # _ \<Rightarrow> Some e),
       rw_resumed := rw_resumed w @ filter is_resume es, rw_state := st, rw_net := net\<rparr>"

inductive reading_step :: "reading_world \<Rightarrow> reading_world \<Rightarrow> bool" where
  until_read:
    "rw_wait w = Some (Start_Until delim) \<Longrightarrow> rw_state w = (s, t) \<Longrightarrow> rw_net w = d @ net
      \<Longrightarrow> str_find (rcv_streambuf t @ d) delim 0 \<noteq> None
      \<Longrightarrow> session_handle_read_chunk_size True Ec_Ok (s, arrive d t) = Some (ret, es, st)
      \<Longrightarrow> reading_step w (rw_after es st net w)"
| exactly_read:
    "rw_wait w = Some (Start_Exactly n) \<Longrightarrow> rw_state w = (s, t) \<Longrightarrow> rw_net w = d @ net \<Longrightarrow> length d = n
      \<Longrightarrow> session_handle_load_chunk_body True Ec_Ok (s, arrive d t) = Some (ret, es, st)
      \<Longrightarrow> reading_step w (rw_after es st net w)"
| load_runs:
    "rw_wait w = Some Post_Load \<Longrightarrow> session_load True (rw_state w) = Some (ret, es, st)
      \<Longrightarrow> reading_step w (rw_after es st (rw_net w) w)"
| until_closed:
    "rw_wait w = Some (Start_Until delim) \<Longrightarrow> rw_state w = (s, t)
      \<Longrightarrow> str_find (rcv_streambuf t @ rw_net w) delim 0 = None
      \<Longrightarrow> session_handle_read_chunk_size True Ec_Eof (s, arrive (rw_net w) t) = Some (ret, es, st)
      \<Longrightarrow> reading_step w ((rw_after es st [] w)\<lparr>rw_closed := True\<rparr>)"
| exactly_closed:
    "rw_wait w = Some (Start_Exactly n) \<Longrightarrow> rw_state w = (s, t) \<Longrightarrow> length (rw_net w) < n
      \<Longrightarrow> session_handle_load_chunk_body True Ec_Eof (s, arrive (rw_net w) t) = Some (ret, es, st)
      \<Longrightarrow> reading_step w ((rw_after es st [] w)\<lparr>rw_closed := True\<rparr>)"

text \<open>
  The body still to be read: \<open>todo\<close> is what is left of a chunk that has been loaded, with its CR LF, and
  the chunks behind it.
\<close>

definition whole_chunk :: "string \<Rightarrow> bool" where
  "whole_chunk c \<longleftrightarrow> c \<noteq> [] \<and> length c + 2 < 2 ^ 64"

definition body_at :: "string \<Rightarrow> lua_http \<Rightarrow> tcp_members \<Rightarrow> string \<Rightarrow> bool" where
  "body_at todo s t net \<longleftrightarrow> lh_is_chunk s \<and> socket_there t
     \<and> (\<exists>cs. (\<forall>c \<in> set cs. whole_chunk c)
          \<and> (if lh_chunk_left s = 0 then rcv_streambuf t @ net = encode_chunks cs \<and> todo = concat cs
             else \<exists>c. length c = lh_chunk_left s \<and> length c + 2 \<le> length (rcv_streambuf t)
               \<and> rcv_streambuf t @ net = c @ crlf @ encode_chunks cs \<and> todo = c @ concat cs))"

text \<open>A reader at work on the body \<open>all\<close>, of which \<open>todo\<close> is left.\<close>

definition reader_at :: "string \<Rightarrow> string \<Rightarrow> reader_kind \<Rightarrow> nat \<Rightarrow> nat \<Rightarrow> http_reader \<Rightarrow> bool" where
  "reader_at all todo kind sz co r \<longleftrightarrow> hr_kind r = kind \<and> hr_size r = sz \<and> hr_pos r < sz \<and> hr_read_pos r = 0
     \<and> length (hr_memory r) = sz \<and> hr_pos r \<le> length all \<and> drop (hr_pos r) all = todo
     \<and> take (hr_pos r) (hr_memory r) = map (\<lambda>c. Some (of_char c)) (take (hr_pos r) all)
     \<and> hr_co r = Some co \<and> hr_main r \<noteq> None
     \<and> (case kind of Some_Reader \<Rightarrow> hr_pos r = 0
        | Scanf_Reader format \<Rightarrow> format \<noteq> [] \<and> sz = format_bytes format \<and> sz < 2 ^ 32 | _ \<Rightarrow> True)"

text \<open>What the coroutine is resumed with when it gets the first \<open>k\<close> bytes.\<close>

definition served :: "string \<Rightarrow> reader_kind \<Rightarrow> nat \<Rightarrow> nat \<Rightarrow> nat \<Rightarrow> reading_effect \<Rightarrow> bool" where
  "served all kind sz co k e \<longleftrightarrow> 0 < k \<and> k \<le> sz \<and> k \<le> length all \<and> (kind \<noteq> Some_Reader \<longrightarrow> k = sz)
     \<and> (\<exists>n vs memory. e = Resume_Reader co n vs memory \<and> take k memory = map (\<lambda>c. Some (of_char c)) (take k all)
          \<and> (case kind of
               Scanf_Reader format \<Rightarrow> n = length format \<and> vs = decode_fields format (map of_char (take k all))
             | _ \<Rightarrow> n = 1 \<and> vs = [Pushed_Integer (int k)]))"

section \<open>One notification\<close>

text \<open>What is taken from a loaded chunk is the front of the body.\<close>

lemma read_stream_takes:
  assumes "body_at todo s t net" and "0 < lh_chunk_left s" and "0 < n"
  shows "\<exists>k s1 t1. read_stream n (s, t) = (k, map of_char (take k todo), s1, t1) \<and> k = min n (lh_chunk_left s)
    \<and> k \<le> length todo \<and> body_at (drop k todo) s1 t1 net \<and> s1 = s\<lparr>lh_chunk_left := lh_chunk_left s - k\<rparr>"
proof -
  from assms(1,2) obtain c cs where c: "lh_is_chunk s" "socket_there t" "\<forall>c \<in> set cs. whole_chunk c"
    "length c = lh_chunk_left s" "length c + 2 \<le> length (rcv_streambuf t)"
    "rcv_streambuf t @ net = c @ crlf @ encode_chunks cs" "todo = c @ concat cs" by (auto simp: body_at_def)
  define k where "k = min n (lh_chunk_left s)"
  have "take (length c + 2) (rcv_streambuf t @ net) = take (length c + 2) (c @ crlf @ encode_chunks cs)"
    unfolding c(6) ..
  moreover have l2: "length crlf = 2" by (simp add: crlf_def)
  ultimately have front: "take (length c + 2) (rcv_streambuf t) = c @ crlf" using c(5) by simp
  then obtain r where r: "rcv_streambuf t = c @ crlf @ r" "r @ net = encode_chunks cs"
    using append_take_drop_id [of "length c + 2" "rcv_streambuf t"] c(6)
    by (metis append.assoc same_append_eq)
  have k: "0 < k" "k \<le> length c" using assms(2,3) c(4) by (simp_all add: k_def)
  let ?t = "t\<lparr>rcv_streambuf := drop (if lh_chunk_left s - k = 0 then k + 2 else k) (rcv_streambuf t)\<rparr>"
  let ?s = "s\<lparr>lh_chunk_left := lh_chunk_left s - k\<rparr>"
  have "read_stream n (s, t) = (k, map of_char (take k todo), ?s, ?t)"
    using assms(2,3) k(2) r(1) c(7) by (simp add: read_stream_def Let_def flip: k_def)
  moreover have "body_at (drop k todo) ?s ?t net"
  proof (cases "k = length c")
    case True
    with c(4) r c(7) l2 c(1-3) show ?thesis by (auto simp: body_at_def socket_there_def)
  next
    case False
    with k(2) have lt: "k < length c" by simp
    then have "length (drop k c) = lh_chunk_left s - k" "0 < lh_chunk_left s - k" using c(4) by simp_all
    with lt r c(1-3,7) l2 show ?thesis
      unfolding body_at_def socket_there_def by (auto intro!: exI [of _ cs] exI [of _ "drop k c"])
  qed
  ultimately show ?thesis using k c(7) k_def by auto
qed

lemma splice_take:
  assumes "length mem = sz" and "p + k \<le> sz" and "length got = k" and "take p mem = xs" and "p = length xs"
  shows "length (take p mem @ got @ drop (p + k) mem) = sz" "take (p + k) (take p mem @ got @ drop (p + k) mem) = xs @ got"
  using assms by auto

text \<open>A reader that is complete: its coroutine gets the first bytes of the body.\<close>

lemma completed_serves:
  assumes "hr_kind r = kind" and "hr_size r = sz" and "hr_pos r = k" and "hr_read_pos r = 0" and "0 < k" and "k \<le> sz"
    and "k \<le> length all" and "length (hr_memory r) = sz"
    and "take k (hr_memory r) = map (\<lambda>c. Some (of_char c)) (take k all)"
    and "hr_co r = Some co" and "hr_main r \<noteq> None" and "kind \<noteq> Some_Reader \<longrightarrow> k = sz"
    and "\<forall>format. kind = Scanf_Reader format \<longrightarrow> format \<noteq> [] \<and> sz = format_bytes format \<and> sz < 2 ^ 32"
  shows "\<exists>n vs r2 e. push_return_value r = Some (n, vs, r2) \<and> reader_resume n vs r2 = (True, [e])
    \<and> is_resume e \<and> served all kind sz co k e"
proof (cases "\<exists>format. kind = Scanf_Reader format")
  case True
  then obtain format where f: "kind = Scanf_Reader format" "format \<noteq> []" "sz = format_bytes format" "sz < 2 ^ 32" "k = sz"
    using assms(12,13) by auto
  have "hr_memory r = map Some (map of_char (take sz all))"
    using assms(8,9) f(5) by (simp add: comp_def)
  then have p: "reader_readable r" "reader_pending r = map Some (map of_char (take sz all)) @ []"
    using assms(2,4,8) by (simp_all add: reader_readable_def reader_pending_def)
  have l: "length (map of_char (take sz all) :: byte list) = format_bytes format" using assms(7) f(3,5) by simp
  have "\<forall>g \<in> set format. df_length g < 2 ^ 32" using field_length_bound [of _ format] f(3,4) by fastforce
  from hr.scanf_decodes [OF p l f(2) this, of 0] obtain r2 where
    r2: "scanf read_reader_data 0 True format r = Some (int (length format), decode_fields format (map of_char (take sz all)), r2)"
    by blast
  have "(hr_co r2, hr_main r2, hr_memory r2) = (hr_co r, hr_main r, hr_memory r)"
    by (rule scanf_keeps [OF _ r2]) (auto simp: read_reader_data_def Let_def split: if_splits)
  then have keep: "hr_co r2 = hr_co r \<and> hr_main r2 = hr_main r \<and> hr_memory r2 = hr_memory r" by simp
  show ?thesis
    using r2 keep assms f by (auto simp: push_return_value_def reader_resume_def served_def)
next
  case False
  then have "push_return_value r = Some (1, [Pushed_Integer (int k)], r)"
    using assms(1,3,10) by (cases kind) (simp_all add: push_return_value_def)
  with False assms show ?thesis
    by (cases kind) (auto simp: reader_resume_def served_def)
qed

lemma body_at_reader [simp]: "body_at todo (s\<lparr>lh_reader := r\<rparr>) t net = body_at todo s t net"
  by (simp add: body_at_def)

lemma body_at_size [simp]: "body_at todo (s\<lparr>lh_chunk_size := n\<rparr>) t net = body_at todo s t net"
  by (simp add: body_at_def)

text \<open>A notification about a loaded chunk: the reader goes on, or its coroutine is served.\<close>

lemma notify_outcome:
  assumes "reader_at all todo kind sz co r" and "body_at todo s t net" and "0 < lh_chunk_left s"
  shows "\<exists>es s1 t1. reader_notify True kBeeErrorCode_Success Ec_Ok (lh_chunk_left s) r (s, t) = Some (True, es, s1, t1)
    \<and> ((\<exists>r1 todo'. es = [Post_Load] \<and> lh_reader s1 = Some r1 \<and> reader_at all todo' kind sz co r1
          \<and> length todo' < length todo \<and> body_at todo' s1 t1 net)
      \<or> (\<exists>k e. es = [e] \<and> is_resume e \<and> served all kind sz co k e \<and> body_at (drop k all) s1 t1 net))"
proof -
  note r = assms(1) [unfolded reader_at_def]
  define k where "k = min (lh_chunk_left s) (sz - hr_pos r)"
  have k0: "0 < k" using assms(3) r by (auto simp: k_def)
  have "size_sub (hr_size r) (hr_pos r) = sz - hr_pos r" using r by simp
  then have arg: "min (lh_chunk_left s) (size_sub (hr_size r) (hr_pos r)) = k" by (simp add: k_def)
  have "min k (lh_chunk_left s) = k" by (simp add: k_def)
  with read_stream_takes [OF assms(2,3) k0] obtain s1 t1 where
    rs: "read_stream k (s, t) = (k, map of_char (take k todo), s1, t1)" "k \<le> length todo"
      "body_at (drop k todo) s1 t1 net" by auto
  let ?got = "map Some (map of_char (take k todo)) :: byte option list"
  let ?mem = "take (hr_pos r) (hr_memory r) @ ?got @ drop (hr_pos r + k) (hr_memory r)"
  let ?r1 = "r\<lparr>hr_memory := ?mem, hr_pos := hr_pos r + k\<rparr>"
  have lg: "length (map of_char (take k todo) :: byte list) = k" using rs(2) by simp
  have sum: "hr_pos r + k \<le> sz" "hr_pos r + k \<le> length all" "drop (hr_pos r + k) all = drop k todo"
    using r rs(2) by (auto simp: k_def min_def add.commute)
  have "take (hr_pos r + k) all = take (hr_pos r) all @ take k todo"
    using r by (auto simp: take_add)
  moreover have pl: "hr_pos r = length (map (\<lambda>c. Some (of_char c :: byte)) (take (hr_pos r) all))" using sum(2) by simp
  have "length ?mem = sz" "take (hr_pos r + k) ?mem = map (\<lambda>c. Some (of_char c)) (take (hr_pos r) all) @ ?got"
    using splice_take [OF _ sum(1) _ _ pl, of "hr_memory r" ?got] r lg by simp_all
  ultimately have mem: "length ?mem = sz" "take (hr_pos r + k) ?mem = map (\<lambda>c. Some (of_char c)) (take (hr_pos r + k) all)"
    by (simp_all add: comp_def)
  show ?thesis
  proof (cases "reader_completed ?r1")
    case False
    then have ns: "kind \<noteq> Some_Reader" "hr_pos r + k \<noteq> sz" using r k0 by (auto simp: reader_completed_def split: reader_kind.splits)
    then have ra: "reader_at all (drop k todo) kind sz co ?r1"
      using r sum mem by (auto simp: reader_at_def split: reader_kind.splits)
    have "reader_notify True kBeeErrorCode_Success Ec_Ok (lh_chunk_left s) r (s, t)
        = Some (True, [Post_Load], s1\<lparr>lh_reader := Some ?r1\<rparr>, t1)"
      using False rs(1) arg lg k0 by (simp add: reader_notify_def async_load_def Let_def)
    moreover have "length (drop k todo) < length todo" "body_at (drop k todo) (s1\<lparr>lh_reader := Some ?r1\<rparr>) t1 net"
      using rs(2,3) k0 by simp_all
    moreover have "lh_reader (s1\<lparr>lh_reader := Some ?r1\<rparr>) = Some ?r1" by simp
    ultimately show ?thesis using ra by blast
  next
    case True
    then have full: "kind \<noteq> Some_Reader \<longrightarrow> hr_pos r + k = sz"
      using r by (auto simp: reader_completed_def split: reader_kind.splits)
    have "\<exists>n vs r2 e. push_return_value ?r1 = Some (n, vs, r2) \<and> reader_resume n vs r2 = (True, [e])
        \<and> is_resume e \<and> served all kind sz co (hr_pos r + k) e"
      by (rule completed_serves) (use r sum mem full k0 in \<open>auto split: reader_kind.splits\<close>)
    then obtain n vs r2 e where p: "push_return_value ?r1 = Some (n, vs, r2)" "reader_resume n vs r2 = (True, [e])"
      "is_resume e" "served all kind sz co (hr_pos r + k) e" by blast
    have "body_at (drop (hr_pos r + k) all) s1 t1 net" using rs(3) sum(3) by simp
    with True rs arg lg k0 p show ?thesis by (simp add: reader_notify_def Let_def) blast
  qed
qed

section \<open>A reader among the network's cuts\<close>

text \<open>What a waiting session waits for, with \<open>todo\<close> left of the body.\<close>

definition waiting_at :: "reading_effect option \<Rightarrow> string \<Rightarrow> lua_http \<Rightarrow> tcp_members \<Rightarrow> string \<Rightarrow> bool" where
  "waiting_at e todo s t net \<longleftrightarrow>
     (case e of
        Some Post_Load \<Rightarrow> body_at todo s t net
      | Some (Start_Until delim) \<Rightarrow> delim = crlf \<and> lh_chunk_left s = 0 \<and> body_at todo s t net
      | Some (Start_Exactly n) \<Rightarrow> lh_chunk_left s = 0 \<and> lh_is_chunk s \<and> socket_there t
          \<and> (\<exists>c cs. whole_chunk c \<and> (\<forall>c \<in> set cs. whole_chunk c) \<and> lh_chunk_size s = length c \<and> n = length c + 2
               \<and> rcv_streambuf t @ net = c @ crlf @ encode_chunks cs \<and> todo = c @ concat cs)
      | _ \<Rightarrow> False)"

text \<open>
  Either the session still waits, its reader at work and nobody resumed; or the coroutine has been served
  and the body stands behind what it got; or it has been given up, the peer having closed too early or
  the body being shorter than asked for.
\<close>

definition reading_inv :: "string \<Rightarrow> reader_kind \<Rightarrow> nat \<Rightarrow> nat \<Rightarrow> reading_world \<Rightarrow> bool" where
  "reading_inv all kind sz co w \<longleftrightarrow>
     (case rw_state w of (s, t) \<Rightarrow>
        rw_wait w \<noteq> None \<and> rw_resumed w = [] \<and> \<not> rw_closed w
          \<and> (\<exists>r todo. lh_reader s = Some r \<and> reader_at all todo kind sz co r \<and> waiting_at (rw_wait w) todo s t (rw_net w))
      \<or> rw_wait w = None \<and> \<not> rw_closed w \<and> (\<exists>k e. rw_resumed w = [e] \<and> served all kind sz co k e \<and> body_at (drop k all) s t (rw_net w))
      \<or> rw_wait w = None \<and> (\<exists>memory. rw_resumed w = [Resume_Reader co 0 [] memory])
          \<and> (rw_closed w \<or> length all < sz \<and> (kind = Some_Reader \<longrightarrow> all = [])))"

lemma rw_after_simps [simp]:
  "rw_state (rw_after es st net w) = st" "rw_net (rw_after es st net w) = net"
  "rw_closed (rw_after es st net w) = rw_closed w"
  "rw_resumed (rw_after es st net w) = rw_resumed w @ filter is_resume es"
  "rw_wait (rw_after es st net w) = (case filter (\<lambda>e. \<not> is_resume e) es of [] \<Rightarrow> None | e # _ \<Rightarrow> Some e)"
  by (simp_all add: rw_after_def)

lemma reading_inv_waits:
  assumes "reading_inv all kind sz co w" and "rw_wait w = Some e" and "rw_state w = (s, t)"
  obtains r todo where "rw_resumed w = []" and "\<not> rw_closed w" and "lh_reader s = Some r"
    and "reader_at all todo kind sz co r" and "waiting_at (Some e) todo s t (rw_net w)"
  using assms by (auto simp: reading_inv_def)

lemma give_up_resumes: "reader_at all todo kind sz co r \<Longrightarrow> reader_give_up r = [Resume_Reader co 0 [] (hr_memory r)]"
  by (auto simp: reader_at_def reader_give_up_def split: option.splits)

text \<open>What is left to do: the bytes the reader has not seen, and the session's three ways to wait.\<close>

definition reading_left :: "string \<Rightarrow> reading_world \<Rightarrow> nat" where
  "reading_left all w =
     3 * (length all - (case lh_reader (fst (rw_state w)) of Some r \<Rightarrow> hr_pos r | None \<Rightarrow> 0))
     + (case rw_wait w of Some Post_Load \<Rightarrow> 2 | Some (Start_Until delim) \<Rightarrow> 1 | _ \<Rightarrow> 0)"

definition reading_on :: "string \<Rightarrow> reader_kind \<Rightarrow> nat \<Rightarrow> nat \<Rightarrow> reading_world \<Rightarrow> reading_world \<Rightarrow> bool" where
  "reading_on all kind sz co w w' \<longleftrightarrow>
     reading_inv all kind sz co w' \<and> (rw_wait w' = None \<or> reading_left all w' < reading_left all w)"

lemma reader_left: "reader_at all todo kind sz co r \<Longrightarrow> length all - hr_pos r = length todo"
  by (auto simp: reader_at_def)

text \<open>After a notification, and after a failure.\<close>

lemma on_after_notify:
  assumes "reader_at all todo kind sz co r" and "body_at todo s t net" and "0 < lh_chunk_left s"
    and "reader_notify True kBeeErrorCode_Success Ec_Ok (lh_chunk_left s) r (s, t) = Some (ret, es, st)"
    and "rw_resumed w = []" and "\<not> rw_closed w" and "lh_reader (fst (rw_state w)) = Some r"
  shows "reading_on all kind sz co w (rw_after es st net w)"
proof -
  from notify_outcome [OF assms(1-3)] obtain es' s1 t1 where
    n: "reader_notify True kBeeErrorCode_Success Ec_Ok (lh_chunk_left s) r (s, t) = Some (True, es', s1, t1)"
    and o': "(\<exists>r1 todo'. es' = [Post_Load] \<and> lh_reader s1 = Some r1 \<and> reader_at all todo' kind sz co r1
        \<and> length todo' < length todo \<and> body_at todo' s1 t1 net)
      \<or> (\<exists>k e. es' = [e] \<and> is_resume e \<and> served all kind sz co k e \<and> body_at (drop k all) s1 t1 net)" by blast
  from n assms(4) have st: "st = (s1, t1)" and "es' = es" by simp_all
  note o = o' [unfolded this(2)]
  from o show ?thesis
  proof (elim disjE exE conjE)
    fix r1 todo'
    assume a: "es = [Post_Load]" "lh_reader s1 = Some r1" "reader_at all todo' kind sz co r1"
      "length todo' < length todo" "body_at todo' s1 t1 net"
    then have "reading_inv all kind sz co (rw_after es st net w)"
      using st assms(5,6) by (simp add: reading_inv_def waiting_at_def) blast
    moreover have "reading_left all (rw_after es st net w) < reading_left all w"
      using a(1,2,4) st assms(7) reader_left [OF a(3)] reader_left [OF assms(1)]
      by (simp add: reading_left_def)
    ultimately show ?thesis by (simp add: reading_on_def)
  next
    fix k e
    assume "es = [e]" "is_resume e" "served all kind sz co k e" "body_at (drop k all) s1 t1 net"
    with st assms(5,6) show ?thesis by (simp add: reading_on_def reading_inv_def) blast
  qed
qed

lemma give_up_answers: "ec1 \<noteq> kBeeErrorCode_Success \<or> ec_set ec2
    \<Longrightarrow> reader_notify ios ec1 ec2 n r st = Some (False, reader_give_up r, st)"
  by (simp add: reader_notify_def)

lemma on_after_failure:
  assumes "reader_at all todo kind sz co r" and "ec1 \<noteq> kBeeErrorCode_Success \<or> ec_set ec2"
    and "reader_notify True ec1 ec2 n r st0 = Some (ret, es, st)" and "rw_resumed w = []"
    and "rw_closed w \<or> length all < sz \<and> (kind = Some_Reader \<longrightarrow> all = [])"
  shows "reading_on all kind sz co w0 (rw_after es st net w)"
proof -
  have e: "es = [Resume_Reader co 0 [] (hr_memory r)]"
    using assms(3) give_up_answers [OF assms(2)] give_up_resumes [OF assms(1)] by simp
  obtain s t where "st = (s, t)" by (cases st)
  with e assms(4,5) show ?thesis by (simp add: reading_on_def reading_inv_def)
qed

lemma rw_after_closed: "(rw_after es st net w)\<lparr>rw_closed := True\<rparr> = rw_after es st net (w\<lparr>rw_closed := True\<rparr>)"
  by (simp add: rw_after_def)

text \<open>A size line that has come names the next chunk, or the end of the body.\<close>

lemma size_line_read:
  assumes "lh_chunk_left s = 0" and "body_at todo s t (d @ net)"
    and "str_find (rcv_streambuf t @ d) crlf 0 \<noteq> None"
    and "session_handle_read_chunk_size True Ec_Ok (s, arrive d t) = Some (ret, es, s', t')"
    and "lh_reader s = Some r"
  shows "(es = [Start_Exactly (lh_chunk_size s' + 2)] \<and> lh_reader s' = Some r
        \<and> waiting_at (Some (Start_Exactly (lh_chunk_size s' + 2))) todo s' t' net)
    \<or> (todo = [] \<and> (\<exists>st0. reader_notify True kBeeErrorCode_Eof Ec_Ok 0 r st0 = Some (ret, es, s', t')))"
proof -
  from assms(1,2) obtain cs where cs: "lh_is_chunk s" "socket_there t" "\<forall>c \<in> set cs. whole_chunk c"
    "(rcv_streambuf t @ d) @ net = encode_chunks cs" "todo = concat cs" by (auto simp: body_at_def)
  have read: "read_hex 64 (lh_chunk_size s) (rcv_streambuf t @ d) = (n, True, crlf @ s2)"
    if "rcv_streambuf t @ d = hex_text n @ crlf @ s2" "n < 2 ^ 64" for n s2
    using read_size_line [OF that(2), of "lh_chunk_size s" s2] that(1) by simp
  show ?thesis
  proof (cases cs)
    case Nil
    with cs(4) have "(rcv_streambuf t @ d) @ net = hex_text 0 @ crlf @ crlf" by (simp add: encode_chunks_Nil)
    from crlf_found_after_size [OF this assms(3)] obtain s2 where
      "rcv_streambuf t @ d = hex_text 0 @ crlf @ s2" by blast
    with read [of 0 s2] assms(4,5) Nil cs(5) show ?thesis
      by (auto simp: session_handle_read_chunk_size_def Let_def)
  next
    case (Cons c cs2)
    with cs(3) have c: "c \<noteq> []" "length c + 2 < 2 ^ 64" "\<forall>c \<in> set cs2. whole_chunk c" by (auto simp: whole_chunk_def)
    from Cons cs(4) have "(rcv_streambuf t @ d) @ net = hex_text (length c) @ crlf @ (c @ crlf @ encode_chunks cs2)"
      by (simp add: encode_chunks_Cons)
    from crlf_found_after_size [OF this assms(3)] obtain s2 where
      s2: "rcv_streambuf t @ d = hex_text (length c) @ crlf @ s2" "s2 @ net = c @ crlf @ encode_chunks cs2" by blast
    have m: "(length c + 2) mod size_mod = length c + 2" using c(2) by (simp add: size_mod_def)
    with read [OF s2(1)] assms(4) c(1,2) cs(2)
    have e: "es = [Start_Exactly (length c + 2)]" "s' = s\<lparr>lh_chunk_size := length c\<rparr>"
      "t' = t\<lparr>rcv_streambuf := s2\<rparr>"
      by (auto simp: session_handle_read_chunk_size_def load_chunk_body_def socket_there_def skip_crlf
          split: if_splits)
    have "whole_chunk c" using c(1,2) by (simp add: whole_chunk_def)
    with e s2(2) c(3) cs(1,2,5) Cons assms(1) have "waiting_at (Some (Start_Exactly (length c + 2))) todo s' t' net"
      unfolding waiting_at_def socket_there_def by (simp, intro exI [of _ c], simp, intro exI [of _ cs2], simp)
    with e assms(5) show ?thesis by simp
  qed
qed

text \<open>Every step keeps the invariant and leaves less to do.\<close>

lemma reading_step_on:
  assumes "reading_step w w'" and "reading_inv all kind sz co w"
  shows "reading_on all kind sz co w w'"
  using assms
proof (cases rule: reading_step.cases)
  case (until_read delim s t d net ret es st)
  from reading_inv_waits [OF assms(2) until_read(2,3)] obtain r todo where
    i: "rw_resumed w = []" "\<not> rw_closed w" "lh_reader s = Some r" "reader_at all todo kind sz co r"
      "waiting_at (Some (Start_Until delim)) todo s t (rw_net w)" by blast
  obtain s' t' where st: "st = (s', t')" by (cases st)
  from i(5) until_read(4) have "delim = crlf" "lh_chunk_left s = 0" "body_at todo s t (d @ net)"
    by (simp_all add: waiting_at_def)
  with size_line_read [of s todo t d net ret es s' t' r] until_read(5,6) i(3) st
  consider "es = [Start_Exactly (lh_chunk_size s' + 2)]" "lh_reader s' = Some r"
      "waiting_at (Some (Start_Exactly (lh_chunk_size s' + 2))) todo s' t' net"
    | st0 where "todo = []" "reader_notify True kBeeErrorCode_Eof Ec_Ok 0 r st0 = Some (ret, es, s', t')" by blast
  then show ?thesis
  proof cases
    case 1
    with i(1,2,4) st have "reading_inv all kind sz co (rw_after es st net w)" by (simp add: reading_inv_def) blast
    moreover have "reading_left all (rw_after es st net w) < reading_left all w"
      using 1(1,2) st i(3) until_read(2,3) by (simp add: reading_left_def)
    ultimately show ?thesis using until_read(1) by (simp add: reading_on_def)
  next
    case (2 st0)
    with i(4) have "length all < sz \<and> (kind = Some_Reader \<longrightarrow> all = [])" by (auto simp: reader_at_def)
    with on_after_failure [OF i(4) _ 2(2) i(1)] st until_read(1) show ?thesis by simp
  qed
next
  case (exactly_read n s t d net ret es st)
  from reading_inv_waits [OF assms(2) exactly_read(2,3)] obtain r todo where
    i: "rw_resumed w = []" "\<not> rw_closed w" "lh_reader s = Some r" "reader_at all todo kind sz co r"
      "waiting_at (Some (Start_Exactly n)) todo s t (rw_net w)" by blast
  let ?s = "s\<lparr>lh_chunk_left := lh_chunk_size s\<rparr>"
  from i(5) obtain c cs where c: "lh_is_chunk s" "socket_there t" "whole_chunk c" "\<forall>c \<in> set cs. whole_chunk c"
    "lh_chunk_size s = length c" "n = length c + 2" "rcv_streambuf t @ rw_net w = c @ crlf @ encode_chunks cs"
    "todo = c @ concat cs" unfolding waiting_at_def by auto
  then have b: "body_at todo ?s (arrive d t) net" "0 < lh_chunk_left ?s"
    using exactly_read(4,5) by (auto simp: body_at_def socket_there_def whole_chunk_def)
  have "reader_notify True kBeeErrorCode_Success Ec_Ok (lh_chunk_left ?s) r (?s, arrive d t) = Some (ret, es, st)"
    using exactly_read(6) i(3) by (simp add: session_handle_load_chunk_body_def)
  from on_after_notify [OF i(4) b this i(1,2)] exactly_read(1,3) i(3) show ?thesis by simp
next
  case (load_runs ret es st)
  obtain s t where st0: "rw_state w = (s, t)" by (cases "rw_state w")
  from reading_inv_waits [OF assms(2) load_runs(2) st0] obtain r todo where
    i: "rw_resumed w = []" "\<not> rw_closed w" "lh_reader s = Some r" "reader_at all todo kind sz co r"
      "body_at todo s t (rw_net w)" by (auto simp: waiting_at_def)
  then have b: "lh_is_chunk s" "socket_there t" by (simp_all add: body_at_def)
  show ?thesis
  proof (cases "lh_chunk_left s = 0")
    case True
    with load_runs(3) st0 b have e: "es = [Start_Until crlf]" "st = (s, t)"
      by (simp_all add: session_load_def session_read_chunk_size_def)
    with i True have "reading_inv all kind sz co (rw_after es st (rw_net w) w)"
      by (simp add: reading_inv_def waiting_at_def) blast
    moreover have "reading_left all (rw_after es st (rw_net w) w) < reading_left all w"
      using e i(3) st0 load_runs(2) by (simp add: reading_left_def)
    ultimately show ?thesis using load_runs(1) by (simp add: reading_on_def)
  next
    case False
    with load_runs(3) st0 b i(3)
    have "reader_notify True kBeeErrorCode_Success Ec_Ok (lh_chunk_left s) r (s, t) = Some (ret, es, st)"
      by (simp add: session_load_def)
    from on_after_notify [OF i(4,5) _ this i(1,2)] False load_runs(1) i(3) st0 show ?thesis by simp
  qed
next
  case (until_closed delim s t ret es st)
  from reading_inv_waits [OF assms(2) until_closed(2,3)] obtain r todo where
    i: "rw_resumed w = []" "lh_reader s = Some r" "reader_at all todo kind sz co r" by blast
  have "reader_notify True kBeeErrorCode_Read_Http_Chunk_Size_Fail Ec_Eof 0 r (s, arrive (rw_net w) t) = Some (ret, es, st)"
    using until_closed(5) i(2) by (simp add: session_handle_read_chunk_size_def)
  from on_after_failure [OF i(3) _ this, of "w\<lparr>rw_closed := True\<rparr>"] i(1) until_closed(1) show ?thesis
    by (simp add: rw_after_closed)
next
  case (exactly_closed n s t ret es st)
  from reading_inv_waits [OF assms(2) exactly_closed(2,3)] obtain r todo where
    i: "rw_resumed w = []" "lh_reader s = Some r" "reader_at all todo kind sz co r" by blast
  have "reader_notify True kBeeErrorCode_Read_Http_Chunk_Body_Fail Ec_Eof 0 r (s, arrive (rw_net w) t) = Some (ret, es, st)"
    using exactly_closed(5) i(2) by (simp add: session_handle_load_chunk_body_def)
  from on_after_failure [OF i(3) _ this, of "w\<lparr>rw_closed := True\<rparr>"] i(1) exactly_closed(1) show ?thesis
    by (simp add: rw_after_closed)
qed

text \<open>A session that waits can go on, whatever the network does.\<close>

lemma reading_progress:
  assumes "reading_inv all kind sz co w" and "rw_wait w \<noteq> None"
  shows "\<exists>w'. reading_step w w'"
proof -
  obtain s t where st: "rw_state w = (s, t)" by (cases "rw_state w")
  from assms(2) obtain e where e: "rw_wait w = Some e" by blast
  from reading_inv_waits [OF assms(1) e st] obtain r todo where
    i: "lh_reader s = Some r" "reader_at all todo kind sz co r" "waiting_at (Some e) todo s t (rw_net w)" by blast
  show ?thesis
  proof (cases e)
    case (Start_Until delim)
    with i(3) have "socket_there t" by (simp add: waiting_at_def body_at_def)
    then have "\<exists>ret es st'. session_handle_read_chunk_size True Ec_Ok (s, arrive (rw_net w) t) = Some (ret, es, st')"
      using i(1) give_up_answers
      by (cases "read_hex 64 (lh_chunk_size s) (rcv_streambuf t @ rw_net w)")
        (auto simp: session_handle_read_chunk_size_def load_chunk_body_def socket_there_def Let_def)
    moreover have "\<exists>ret es st'. session_handle_read_chunk_size True Ec_Eof (s, arrive (rw_net w) t) = Some (ret, es, st')"
      using i(1) give_up_answers by (simp add: session_handle_read_chunk_size_def)
    moreover have "rw_net w = rw_net w @ []" by simp
    ultimately show ?thesis
      using until_read [of w delim s t "rw_net w" "[]"] until_closed [of w delim s t] e st Start_Until by blast
  next
    case (Start_Exactly n)
    have closed: "\<exists>ret es st'. session_handle_load_chunk_body True Ec_Eof (s, arrive (rw_net w) t) = Some (ret, es, st')"
      using i(1) give_up_answers by (simp add: session_handle_load_chunk_body_def)
    show ?thesis
    proof (cases "length (rw_net w) < n")
      case True
      with closed show ?thesis using exactly_closed [of w n s t] e st Start_Exactly by blast
    next
      case False
      define d where "d = take n (rw_net w)"
      have d: "rw_net w = d @ drop n (rw_net w)" "length d = n" using False by (simp_all add: d_def)
      let ?s = "s\<lparr>lh_chunk_left := lh_chunk_size s\<rparr>"
      from i(3) Start_Exactly obtain c cs where c: "lh_is_chunk s" "socket_there t" "whole_chunk c"
        "\<forall>c \<in> set cs. whole_chunk c" "lh_chunk_size s = length c" "n = length c + 2"
        "rcv_streambuf t @ rw_net w = c @ crlf @ encode_chunks cs" "todo = c @ concat cs" unfolding waiting_at_def by auto
      have "(rcv_streambuf t @ d) @ drop n (rw_net w) = c @ crlf @ encode_chunks cs"
        using c(7) d(1) by (metis append.assoc)
      with c d(2) have b: "body_at todo ?s (arrive d t) (drop n (rw_net w))" "0 < lh_chunk_left ?s"
        by (auto simp: body_at_def socket_there_def whole_chunk_def)
      from notify_outcome [OF i(2) b] i(1) have
        "\<exists>ret es st'. session_handle_load_chunk_body True Ec_Ok (s, arrive d t) = Some (ret, es, st')"
        by (simp add: session_handle_load_chunk_body_def) blast
      with d show ?thesis using exactly_read [of w n s t d] e st Start_Exactly by blast
    qed
  next
    case Post_Load
    with i(3) have b: "body_at todo s t (rw_net w)" by (simp add: waiting_at_def)
    have "\<exists>ret es st'. session_load True (s, t) = Some (ret, es, st')"
    proof (cases "lh_chunk_left s = 0")
      case True
      with b show ?thesis by (auto simp: session_load_def session_read_chunk_size_def body_at_def)
    next
      case False
      with notify_outcome [OF i(2) b] b i(1) show ?thesis
        by (simp add: session_load_def body_at_def) blast
    qed
    with Post_Load e st show ?thesis using load_runs [of w] by (metis)
  next
    case (Resume_Reader a b c d)
    with i(3) show ?thesis by (simp add: waiting_at_def)
  qed
qed

text \<open>Runs of a given length.\<close>

lemma reading_run:
  assumes "(reading_step ^^ n) w v" and "reading_inv all kind sz co w"
  shows "reading_inv all kind sz co v \<and> (rw_wait v = None \<or> reading_left all v + n \<le> reading_left all w)
    \<and> (0 < n \<longrightarrow> n \<le> Suc (reading_left all w))"
  using assms
proof (induction n arbitrary: v)
  case 0
  then show ?case by simp
next
  case (Suc n)
  from Suc.prems(1) obtain u where u: "(reading_step ^^ n) w u" "reading_step u v" by auto
  from Suc.IH [OF u(1) Suc.prems(2)] have inv: "reading_inv all kind sz co u"
    "rw_wait u = None \<or> reading_left all u + n \<le> reading_left all w" by simp_all
  have "rw_wait u \<noteq> None" using u(2) by (auto elim: reading_step.cases)
  with inv reading_step_on [OF u(2) inv(1)] show ?case by (auto simp: reading_on_def)
qed

section \<open>What a coroutine that reads gets\<close>

text \<open>
  What has become of a request after a while: the coroutine still waits, it has got the first \<open>k\<close> bytes of
  the body and the stream stands behind them, or it has been given up for a reason.
\<close>

definition reading_outcome :: "string \<Rightarrow> reader_kind \<Rightarrow> nat \<Rightarrow> nat \<Rightarrow> reading_world \<Rightarrow> bool" where
  "reading_outcome all kind sz co w \<longleftrightarrow>
     (case rw_wait w of
        Some e \<Rightarrow> rw_resumed w = [] \<and> (\<exists>w'. reading_step w w')
      | None \<Rightarrow> \<exists>e. rw_resumed w = [e]
          \<and> (if rw_closed w then \<exists>memory. e = Resume_Reader co 0 [] memory
             else (\<exists>k. served all kind sz co k e \<and> body_at (drop k all) (fst (rw_state w)) (snd (rw_state w)) (rw_net w))
               \<or> length all < sz \<and> (kind = Some_Reader \<longrightarrow> all = []) \<and> (\<exists>memory. e = Resume_Reader co 0 [] memory)))"

lemma reading_inv_outcome:
  assumes "reading_inv all kind sz co w"
  shows "reading_outcome all kind sz co w"
proof (cases "rw_wait w")
  case None
  with assms show ?thesis by (cases "rw_state w") (auto simp: reading_inv_def reading_outcome_def)
next
  case (Some e)
  with assms reading_progress [OF assms] show ?thesis
    by (cases "rw_state w") (auto simp: reading_inv_def reading_outcome_def)
qed

text \<open>A session that nobody waits for, once the header of a response in chunks has been read.\<close>

definition idle_world :: "lua_http \<Rightarrow> tcp_members \<Rightarrow> string \<Rightarrow> reading_world" where
  "idle_world s t net = \<lparr>rw_wait = None, rw_resumed = [], rw_state = (s, t), rw_net = net, rw_closed = False\<rparr>"

lemma posted_run:
  assumes "reader_at all all kind sz co r" and "body_at all s t net"
    and "(reading_step ^^ n) (rw_after [Post_Load] (s\<lparr>lh_reader := Some r\<rparr>, t) net (idle_world s t net)) w"
  shows "reading_outcome all kind sz co w \<and> n \<le> 3 * length all + 3"
proof -
  let ?w = "rw_after [Post_Load] (s\<lparr>lh_reader := Some r\<rparr>, t) net (idle_world s t net)"
  from assms(1,2) have "reading_inv all kind sz co ?w"
    by (simp add: reading_inv_def waiting_at_def idle_world_def) blast
  moreover have "reading_left all ?w \<le> 3 * length all + 2" by (simp add: reading_left_def)
  ultimately show ?thesis using reading_run [OF assms(3)] reading_inv_outcome by fastforce
qed

text \<open>
  A script's coroutine that reads \<open>len\<close> bytes of a chunked response gets the first bytes of the
  body, as many as it asked for (\<open>cond\<close> 1) or some of them (\<open>cond\<close> 0): after every number of steps the session
  either can go on and nobody has been resumed, or the coroutine has been resumed once, with the bytes in its
  buffer and the stream right behind them, or with nothing because the peer closed before the end or the
  body is shorter than what was asked for. It takes at most \<open>3 * length all + 3\<close> steps. The peer's closing is one of
  the cases for which the way the network cuts the body matters: a chunk that comes together with its size is lost
  (\<open>chunk_with_its_size_is_lost\<close>), and the session then waits for bytes until the peer closes.
\<close>

theorem read_gets_next_bytes:
  assumes "body_at all s t net" and "length memory = len" and "lh_main s \<noteq> None"
    and "session_read True (Some co) (Some memory) len cond (s, t) = (kBeeErrorCode_Success, es, st)"
    and "(reading_step ^^ n) (rw_after es st net (idle_world s t net)) w"
  shows "reading_outcome all (if cond = 0 then Some_Reader else Exactly_Reader) len co w \<and> n \<le> 3 * length all + 3"
proof -
  let ?r = "reader_new (if cond = 0 then Some_Reader else Exactly_Reader) len memory (lh_main s) (Some co)"
  from assms(4) have "es = [Post_Load]" "st = (s\<lparr>lh_reader := Some ?r\<rparr>, t)" "0 < len"
    by (auto simp: session_read_def async_load_def split: if_splits)
  moreover from this(3) assms(2,3) have
    "reader_at all all (if cond = 0 then Some_Reader else Exactly_Reader) len co ?r"
    by (simp add: reader_at_def reader_new_def)
  ultimately show ?thesis using posted_run [OF _ assms(1)] assms(5) by simp
qed

text \<open>
  A script's coroutine that reads fields from a chunked response is resumed with the values that
  the next bytes of the body stand for, under the same conditions, once all bytes of the format have come.
\<close>

theorem scanf_gets_fields:
  assumes "body_at all s t net" and "lh_main s \<noteq> None" and "format_bytes format < 2 ^ 32"
    and "session_scanf True (Some co) format (format_bytes format) (s, t) = (kBeeErrorCode_Success, es, st)"
    and "(reading_step ^^ n) (rw_after es st net (idle_world s t net)) w"
  shows "reading_outcome all (Scanf_Reader format) (format_bytes format) co w \<and> n \<le> 3 * length all + 3"
proof -
  let ?sz = "format_bytes format"
  let ?r = "reader_new (Scanf_Reader format) ?sz (replicate ?sz None) (lh_main s) (Some co)"
  from assms(4) have "es = [Post_Load]" "st = (s\<lparr>lh_reader := Some ?r\<rparr>, t)" "0 < ?sz" "format \<noteq> []"
    by (auto simp: session_scanf_def async_load_def split: if_splits)
  moreover from this(3,4) assms(2,3) have "reader_at all all (Scanf_Reader format) ?sz co ?r"
    by (simp add: reader_at_def reader_new_def)
  ultimately show ?thesis using posted_run [OF _ assms(1)] assms(5) by simp
qed

definition reading_demo :: lua_http where
  "reading_demo = LuaHttpSession_new\<lparr>lh_main := Some 7, lh_is_chunk := True\<rparr>"

definition reading_demo_tcp :: tcp_members where
  "reading_demo_tcp = (TcpStateMachine_new False)\<lparr>connected := True, sock := True\<rparr>"

lemma reading_demo_simps [simp]:
  "lh_main reading_demo = Some 7" "lh_is_chunk reading_demo" "lh_chunk_left reading_demo = 0" "lh_chunk_size reading_demo = 0"
  "connected reading_demo_tcp" "\<not> is_tls reading_demo_tcp" "sock reading_demo_tcp" "rcv_streambuf reading_demo_tcp = []"
  by (simp_all add: reading_demo_def reading_demo_tcp_def LuaHttpSession_new_def TcpStateMachine_new_def)

lemma demo_text: "hex_text 1 = ''1''" "str_find (''1'' @ crlf) crlf 0 \<noteq> None"
  by code_simp+

lemma demo_chunks: "encode_chunks [''a''] = (''1'' @ crlf) @ (''a'' @ crlf) @ encode_chunks []"
  using demo_text(1) by (simp add: encode_chunks_def)

theorem read_gets_next_bytes_witness:
  "\<exists>w. rw_resumed w = [Resume_Reader 9 1 [Pushed_Integer 1] [Some 97]]
     \<and> reading_outcome ''a'' Exactly_Reader 1 9 w \<and> (3::nat) \<le> 3 * length ''a'' + 3"
proof -
  let ?net = "encode_chunks [''a'']"
  have b: "body_at ''a'' reading_demo reading_demo_tcp ?net"
    by (auto simp: body_at_def socket_there_def whole_chunk_def intro!: exI [of _ "[''a'']"])
  define r where "r = reader_new Exactly_Reader 1 [None] (Some 7) (Some 9)"
  let ?s1 = "reading_demo\<lparr>lh_reader := Some r\<rparr>"
  have read: "session_read True (Some 9) (Some [None]) 1 1 (reading_demo, reading_demo_tcp)
      = (kBeeErrorCode_Success, [Post_Load], ?s1, reading_demo_tcp)"
    by (simp add: session_read_def async_load_def r_def)
  let ?w0 = "rw_after [Post_Load] (?s1, reading_demo_tcp) ?net (idle_world reading_demo reading_demo_tcp ?net)"
  let ?w1 = "rw_after [Start_Until crlf] (?s1, reading_demo_tcp) ?net ?w0"
  have 1: "reading_step ?w0 ?w1"
    using load_runs [of ?w0 True "[Start_Until crlf]" "(?s1, reading_demo_tcp)"]
    by (simp add: session_load_def session_read_chunk_size_def socket_there_def)
  let ?t2 = "reading_demo_tcp\<lparr>rcv_streambuf := []\<rparr>"
  let ?s2 = "?s1\<lparr>lh_chunk_size := 1\<rparr>"
  let ?w2 = "rw_after [Start_Exactly 3] (?s2, ?t2) ((''a'' @ crlf) @ encode_chunks []) ?w1"
  have "session_handle_read_chunk_size True Ec_Ok (?s1, arrive (''1'' @ crlf) reading_demo_tcp)
      = Some (True, [Start_Exactly 3], ?s2, ?t2)"
    using read_size_line [of 1 64 0 "[]"] skip_crlf [of "[]"] demo_text(1)
    by (simp add: session_handle_read_chunk_size_def load_chunk_body_def socket_there_def size_mod_def)
  then have 2: "reading_step ?w1 ?w2"
    using until_read [of ?w1 crlf ?s1 reading_demo_tcp "''1'' @ crlf" "(''a'' @ crlf) @ encode_chunks []"] demo_text(2)
    by (simp add: demo_chunks)
  let ?s3 = "?s2\<lparr>lh_chunk_left := 0, lh_reader := Some (r\<lparr>hr_memory := [Some 97], hr_pos := 1\<rparr>)\<rparr>"
  let ?e = "Resume_Reader 9 1 [Pushed_Integer 1] [Some 97]"
  let ?w3 = "rw_after [?e] (?s3, ?t2) (encode_chunks []) ?w2"
  have "session_handle_load_chunk_body True Ec_Ok (?s2, arrive (''a'' @ crlf) ?t2) = Some (True, [?e], ?s3, ?t2)"
    by (simp add: session_handle_load_chunk_body_def reader_notify_def r_def reader_new_def read_stream_def
        size_sub_def reader_completed_def push_return_value_def reader_resume_def crlf_def)
  then have 3: "reading_step ?w2 ?w3"
    using exactly_read [of ?w2 3 ?s2 ?t2 "''a'' @ crlf" "encode_chunks []"] by (simp add: crlf_def)
  from 1 2 3 have "(reading_step ^^ 3) ?w0 ?w3" by (auto simp: numeral_3_eq_3)
  with read_gets_next_bytes [OF b _ _ read, of 3 ?w3] show ?thesis
    by (intro exI [of _ ?w3]) (simp add: idle_world_def)
qed

theorem scanf_gets_fields_witness:
  "\<exists>w. rw_wait w = Some Post_Load \<and> reading_outcome ''a'' (Scanf_Reader [DataField_new]) 4 9 w
     \<and> (0::nat) \<le> 3 * length ''a'' + 3"
proof -
  let ?net = "encode_chunks [''a'']"
  let ?r = "reader_new (Scanf_Reader [DataField_new]) 4 (replicate 4 None) (Some 7) (Some 9)"
  let ?w = "rw_after [Post_Load] (reading_demo\<lparr>lh_reader := Some ?r\<rparr>, reading_demo_tcp) ?net
    (idle_world reading_demo reading_demo_tcp ?net)"
  have b: "body_at ''a'' reading_demo reading_demo_tcp ?net"
    by (auto simp: body_at_def socket_there_def whole_chunk_def intro!: exI [of _ "[''a'']"])
  have f: "format_bytes [DataField_new] = 4" by code_simp
  have scan: "session_scanf True (Some 9) [DataField_new] (format_bytes [DataField_new]) (reading_demo, reading_demo_tcp)
      = (kBeeErrorCode_Success, [Post_Load], reading_demo\<lparr>lh_reader := Some ?r\<rparr>, reading_demo_tcp)"
    by (simp add: session_scanf_def async_load_def f)
  show ?thesis
    using scanf_gets_fields [OF b _ _ scan, of 0 ?w] f by (intro exI [of _ ?w]) simp
qed

section \<open>A chunk that comes with its size line\<close>

text \<open>
  The session asks for as many new bytes as the chunk has, also when the chunk is in the buffer already.
\<close>

definition lost_shape :: "string \<Rightarrow> nat \<Rightarrow> http_reader \<Rightarrow> reading_world \<Rightarrow> bool" where
  "lost_shape c co r w \<longleftrightarrow>
     (case rw_state w of (s, t) \<Rightarrow>
        rw_net w = [] \<and> rw_resumed w = [] \<and> lh_reader s = Some r \<and> lh_chunk_left s = 0 \<and> lh_is_chunk s \<and> socket_there t
          \<and> (rw_wait w = Some Post_Load \<and> rcv_streambuf t = encode_chunks [c]
             \<or> rw_wait w = Some (Start_Until crlf) \<and> rcv_streambuf t = encode_chunks [c]
             \<or> rw_wait w = Some (Start_Exactly (length c + 2)))
      \<or> rw_wait w = None \<and> rw_resumed w = [Resume_Reader co 0 [] (hr_memory r)])"

lemma lost_step:
  assumes "reading_step w w'" and "lost_shape c co r w" and "whole_chunk c" and "hr_co r = Some co" and "hr_main r \<noteq> None"
  shows "lost_shape c co r w'"
  using assms(1)
proof (cases rule: reading_step.cases)
  case (until_read delim s t d net ret es st)
  with assms(2) have i: "d = []" "net = []" "rw_resumed w = []" "lh_reader s = Some r" "lh_chunk_left s = 0" "lh_is_chunk s"
    "socket_there t" "rcv_streambuf t = encode_chunks [c]" by (auto simp: lost_shape_def)
  have "read_hex 64 (lh_chunk_size s) (rcv_streambuf t) = (length c, True, crlf @ c @ crlf @ encode_chunks [])"
    using read_size_line [of "length c" 64 "lh_chunk_size s" "c @ crlf @ encode_chunks []"] i(8) assms(3)
    by (simp add: encode_chunks_Cons whole_chunk_def)
  moreover have "(length c + 2) mod size_mod = length c + 2" "length c \<noteq> 0"
    using assms(3) by (simp_all add: whole_chunk_def size_mod_def)
  ultimately have "es = [Start_Exactly (length c + 2)]"
    "st = (s\<lparr>lh_chunk_size := length c\<rparr>, t\<lparr>rcv_streambuf := c @ crlf @ encode_chunks []\<rparr>)"
    using until_read(6) i(1,7)
    by (auto simp: session_handle_read_chunk_size_def load_chunk_body_def socket_there_def skip_crlf Let_def split: if_splits)
  with i until_read(1) show ?thesis by (simp add: lost_shape_def socket_there_def)
next
  case (exactly_read n s t d net ret es st)
  with assms(2) show ?thesis by (auto simp: lost_shape_def)
next
  case (load_runs ret es st)
  then show ?thesis using assms(2)
    by (cases "rw_state w") (auto simp: lost_shape_def session_load_def session_read_chunk_size_def)
next
  case (until_closed delim s t ret es st)
  with assms(2) encode_has_crlf [of "[c]"] show ?thesis by (auto simp: lost_shape_def)
next
  case (exactly_closed n s t ret es st)
  with assms(2) have i: "lh_reader s = Some r" "rw_net w = []" "rw_resumed w = []" by (auto simp: lost_shape_def)
  then have "es = [Resume_Reader co 0 [] (hr_memory r)]" "st = (s, arrive [] t)"
    using exactly_closed(5) assms(4,5) give_up_answers [of kBeeErrorCode_Read_Http_Chunk_Body_Fail Ec_Eof]
    by (simp_all add: session_handle_load_chunk_body_def reader_give_up_def split: option.splits)
  with i(3) exactly_closed(1) show ?thesis by (simp add: lost_shape_def)
qed

text \<open>
  A body of one chunk that has come together with the header never reaches the coroutine that reads
  it: whatever happens, the coroutine is resumed with nothing, when the peer closes.
\<close>

theorem chunk_with_its_size_is_lost:
  assumes "whole_chunk c" and "lh_is_chunk s" and "lh_chunk_left s = 0" and "socket_there t" and "lh_main s \<noteq> None"
    and "rcv_streambuf t = encode_chunks [c]"
    and "session_read True (Some co) (Some memory) len cond (s, t) = (kBeeErrorCode_Success, es, st)"
    and "reading_step\<^sup>*\<^sup>* (rw_after es st [] (idle_world s t [])) w" and "rw_wait w = None"
  shows "rw_resumed w = [Resume_Reader co 0 [] memory]"
proof -
  let ?r = "reader_new (if cond = 0 then Some_Reader else Exactly_Reader) len memory (lh_main s) (Some co)"
  have r: "hr_co ?r = Some co" "hr_main ?r \<noteq> None" "hr_memory ?r = memory" using assms(5) by (simp_all add: reader_new_def)
  from assms(7) have "es = [Post_Load]" "st = (s\<lparr>lh_reader := Some ?r\<rparr>, t)"
    by (auto simp: session_read_def async_load_def split: if_splits)
  with assms(2-6) have "lost_shape c co ?r (rw_after es st [] (idle_world s t []))"
    by (simp add: lost_shape_def idle_world_def)
  with assms(8) have "lost_shape c co ?r w"
    by (induction rule: rtranclp_induct) (use lost_step assms(1) r(1,2) in blast)+
  with assms(9) r(3) show ?thesis by (auto simp: lost_shape_def split: prod.splits)
qed

lemma three_steps: "reading_step u v \<Longrightarrow> reading_step v w \<Longrightarrow> reading_step w x \<Longrightarrow> reading_step\<^sup>*\<^sup>* u x"
  by (meson converse_rtranclp_into_rtranclp r_into_rtranclp)

theorem chunk_with_its_size_is_lost_witness:
  "\<exists>w :: reading_world. rcv_streambuf (snd (rw_state w)) = ''a'' @ crlf @ encode_chunks []
     \<and> rw_resumed w = [Resume_Reader 9 0 [] [None]]"
proof -
  let ?t = "reading_demo_tcp\<lparr>rcv_streambuf := encode_chunks [''a'']\<rparr>"
  define r where "r = reader_new Exactly_Reader 1 [None] (Some 7) (Some 9)"
  let ?s1 = "reading_demo\<lparr>lh_reader := Some r\<rparr>"
  have read: "session_read True (Some 9) (Some [None]) 1 1 (reading_demo, ?t) = (kBeeErrorCode_Success, [Post_Load], ?s1, ?t)"
    by (simp add: session_read_def async_load_def r_def)
  let ?w0 = "rw_after [Post_Load] (?s1, ?t) [] (idle_world reading_demo ?t [])"
  let ?w1 = "rw_after [Start_Until crlf] (?s1, ?t) [] ?w0"
  have 1: "reading_step ?w0 ?w1"
    using load_runs [of ?w0 True "[Start_Until crlf]" "(?s1, ?t)"]
    by (simp add: session_load_def session_read_chunk_size_def socket_there_def)
  let ?t2 = "?t\<lparr>rcv_streambuf := ''a'' @ crlf @ encode_chunks []\<rparr>"
  let ?s2 = "?s1\<lparr>lh_chunk_size := 1\<rparr>"
  let ?w2 = "rw_after [Start_Exactly 3] (?s2, ?t2) [] ?w1"
  have "session_handle_read_chunk_size True Ec_Ok (?s1, arrive [] ?t) = Some (True, [Start_Exactly 3], ?s2, ?t2)"
    using read_size_line [of 1 64 0 "''a'' @ crlf @ encode_chunks []"] skip_crlf [of "''a'' @ crlf @ encode_chunks []"]
    by (simp add: session_handle_read_chunk_size_def load_chunk_body_def socket_there_def size_mod_def encode_chunks_Cons)
  then have 2: "reading_step ?w1 ?w2"
    using until_read [of ?w1 crlf ?s1 ?t "[]" "[]"] encode_has_crlf by simp
  let ?w3 = "(rw_after [Resume_Reader 9 0 [] [None]] (?s2, ?t2) [] ?w2)\<lparr>rw_closed := True\<rparr>"
  have "session_handle_load_chunk_body True Ec_Eof (?s2, arrive [] ?t2)
      = Some (False, [Resume_Reader 9 0 [] [None]], ?s2, ?t2)"
    by (simp add: session_handle_load_chunk_body_def give_up_answers reader_give_up_def r_def reader_new_def)
  then have 3: "reading_step ?w2 ?w3"
    using exactly_closed [of ?w2 3 ?s2 ?t2 False "[Resume_Reader 9 0 [] [None]]" "(?s2, ?t2)"] by simp
  have run: "reading_step\<^sup>*\<^sup>* ?w0 ?w3"
    by (rule three_steps [OF 1 2 3])
  have "rw_resumed ?w3 = [Resume_Reader 9 0 [] [None]]"
    by (rule chunk_with_its_size_is_lost [OF _ _ _ _ _ _ read run, of "''a''"])
      (simp_all add: whole_chunk_def socket_there_def)
  then show ?thesis by (intro exI [of _ ?w3]) simp
qed

end
