(* ===== verification/Bee_Lua_Cache.thy ===== *)
theory Bee_Lua_Cache
  imports Bee_Data_Promise
begin

text \<open>
  The functions of the module \<open>videocache\<close> (src/lua/module/lua_video_cache.cpp) that pass a script's arguments on
  to the ring buffer, and all of the module's functions by name. They do not look at the kinds of their arguments:
  what is no number is 0 and what has no address is the null pointer. \<open>None\<close> is undefined behaviour.
\<close>

section \<open>Arguments\<close>

text \<open>\<open>lua_tointeger\<close>; \<open>to_integer\<close> is liblua's reading of texts.\<close>

fun lua_tointeger :: "(string \<Rightarrow> int option) \<Rightarrow> lua_arg \<Rightarrow> int" where
  "lua_tointeger to_integer (Arg_Integer n) = n"
| "lua_tointeger to_integer (Arg_Text t) = (case to_integer t of None \<Rightarrow> 0 | Some n \<Rightarrow> n)"
| "lua_tointeger to_integer _ = 0"

text \<open>\<open>lua_topointer\<close>: a table or function is liblua's own memory.\<close>

fun lua_topointer :: "lua_arg \<Rightarrow> nat option" where
  "lua_topointer (Arg_Light p) = Some p"
| "lua_topointer (Arg_Table _) = None"
| "lua_topointer (Arg_Function _) = None"
| "lua_topointer _ = Some 0"

text \<open>\<open>lua_tolstring\<close>: the bytes of a text; what is no text has none.\<close>

fun lua_bytes :: "lua_arg \<Rightarrow> byte list" where
  "lua_bytes (Arg_Text s) = map of_char s"
| "lua_bytes (Arg_Integer n) = map of_char (show_int n)"
| "lua_bytes _ = []"

definition u32_of :: "int \<Rightarrow> u32" where
  "u32_of n = word_of_int n"

section \<open>The functions\<close>

datatype cache_outcome = Cache_Outcome lua_outcome | Cache_Text string | Cache_Pointer

abbreviation cache_returns :: "u32 \<Rightarrow> cache_outcome" where
  "cache_returns n \<equiv> Cache_Outcome (Lua_Returns [Pushed (Pushed_Integer (uint n))])"

abbreviation cache_refuses :: "lua_cache \<Rightarrow> (cache_outcome \<times> lua_cache) option" where
  "cache_refuses c \<equiv> Some (Cache_Outcome (Lua_Bad_Answer (- 1)), c)"

text \<open>The text is the last argument; a call without any reads below the stack.\<close>

definition lua_write_data :: "lua_arg list \<Rightarrow> lua_cache \<Rightarrow> (cache_outcome \<times> lua_cache) option" where
  "lua_write_data args c =
     (if args = [] then None
      else do {
        (n, vc) \<leftarrow> write_data (lua_bytes (last args)) (lc_cache c);
        Some (cache_returns n, c\<lparr>lc_cache := vc\<rparr>)
      })"

definition lua_read_data :: "(string \<Rightarrow> int option) \<Rightarrow> lua_arg list \<Rightarrow> lua_cache \<Rightarrow> (cache_outcome \<times> lua_cache) option" where
  "lua_read_data to_integer args c =
     (case args of
        [b, len] \<Rightarrow>
          do {
            buf \<leftarrow> lua_topointer b;
            (bs, vc) \<leftarrow> read_data (u32_of (lua_tointeger to_integer len)) (lc_cache c);
            if buf = 0 \<and> bs \<noteq> [] then None
            else Some (cache_returns (of_nat (length bs)), lc_tell (Filled buf bs) (c\<lparr>lc_cache := vc\<rparr>))
          }
      | _ \<Rightarrow> cache_refuses c)"

definition lua_clear_data :: "lua_cache \<Rightarrow> (cache_outcome \<times> lua_cache) option" where
  "lua_clear_data c = Some (Cache_Outcome (Lua_Returns []), c\<lparr>lc_cache := clear_data (lc_cache c)\<rparr>)"

definition lua_skip_data :: "(string \<Rightarrow> int option) \<Rightarrow> lua_arg list \<Rightarrow> lua_cache \<Rightarrow> (cache_outcome \<times> lua_cache) option" where
  "lua_skip_data to_integer args c =
     (case args of
        [len] \<Rightarrow>
          (let (n, vc) = skip_data (u32_of (lua_tointeger to_integer len)) (lc_cache c)
           in Some (cache_returns n, c\<lparr>lc_cache := vc\<rparr>))
      | _ \<Rightarrow> cache_refuses c)"

definition lua_reset_size :: "(string \<Rightarrow> int option) \<Rightarrow> lua_arg list \<Rightarrow> lua_cache \<Rightarrow> (cache_outcome \<times> lua_cache) option" where
  "lua_reset_size to_integer args c =
     (case args of
        [len] \<Rightarrow>
          do {
            vc \<leftarrow> reset_size (u32_of (lua_tointeger to_integer len)) (lc_cache c);
            Some (Cache_Outcome (Lua_Returns []), c\<lparr>lc_cache := vc\<rparr>)
          }
      | _ \<Rightarrow> cache_refuses c)"

definition lua_get_space_size :: "(string \<Rightarrow> int option) \<Rightarrow> lua_arg list \<Rightarrow> lua_cache \<Rightarrow> (cache_outcome \<times> lua_cache) option" where
  "lua_get_space_size to_integer args c =
     (case args of
        [n] \<Rightarrow> Some (cache_returns (get_space_size (u32_of (lua_tointeger to_integer n)) (lc_cache c)), c)
      | _ \<Rightarrow> cache_refuses c)"

definition lua_get_data_size :: "lua_cache \<Rightarrow> (cache_outcome \<times> lua_cache) option" where
  "lua_get_data_size c = Some (cache_returns (get_data_size (lc_cache c)), c)"

text \<open>The member \<open>ver_\<close> of the class hides that of its base and is never set.\<close>

definition lua_version :: "lua_cache \<Rightarrow> (cache_outcome \<times> lua_cache) option" where
  "lua_version c = Some (Cache_Text [], c)"

definition lua_get_cache :: "lua_cache \<Rightarrow> (cache_outcome \<times> lua_cache) option" where
  "lua_get_cache c = Some (Cache_Pointer, c)"

text \<open>
  The functions by the names \<open>LuaOpenVideoCache\<close> registers; \<open>i\<close> is the identity of a new promise, \<open>l\<close> the calling
  thread and \<open>main\<close> the module's. A name that is not registered is \<open>None\<close> too.
\<close>

definition cache_module_call ::
    "(string \<Rightarrow> int option) \<Rightarrow> lua_resumption \<Rightarrow> nat \<Rightarrow> nat \<Rightarrow> nat option \<Rightarrow> string \<Rightarrow> lua_arg list \<Rightarrow> lua_cache
      \<Rightarrow> (cache_outcome \<times> lua_cache) option" where
  "cache_module_call to_integer resume i l main name args c =
     (if name = ''WriteData'' then lua_write_data args c
      else if name = ''ReadData'' then lua_read_data to_integer args c
      else if name = ''ClearData'' then lua_clear_data c
      else if name = ''SkipData'' then lua_skip_data to_integer args c
      else if name = ''ResetSize'' then lua_reset_size to_integer args c
      else if name = ''GetSpaceSize'' then lua_get_space_size to_integer args c
      else if name = ''GetDataSize'' then lua_get_data_size c
      else if name = ''Version'' then lua_version c
      else if name = ''GetCache'' then lua_get_cache c
      else if name = ''SyncReadData'' then map_option (apfst Cache_Outcome) (lua_sync_read_data resume i l main args c)
      else if name = ''Scanf'' then map_option (apfst Cache_Outcome) (lua_scanf resume i l main args c)
      else if name = ''WaitUntil'' then map_option (apfst Cache_Outcome) (lua_wait_until resume i l main args c)
      else None)"

section \<open>What scripts write they read\<close>

lemma u32_of_length: "n < 2 ^ 32 \<Longrightarrow> unat (u32_of (int n)) = n"
  by (simp add: u32_of_def unat_of_nat)

lemma c_bytes: "lua_bytes (Arg_Text s) = map of_char s"
  by simp

text \<open>
  What a script writes it reads back, in order and whole, as long as it fits: after \<open>WriteData\<close> with a text the
  answer is the text's length, and \<open>ReadData\<close> of what was there before and of the text puts exactly these bytes
  into the script's memory and leaves the cache empty.
\<close>

theorem cache_written_is_read:
  assumes "cache_wf (lc_cache c)" and "length (cache_content (lc_cache c)) + length s < unat (vc_size (lc_cache c))" and "buf \<noteq> 0"
  defines "all \<equiv> cache_content (lc_cache c) @ map (Some \<circ> of_char) s"
  shows "\<exists>c1 c2. cache_module_call to_integer resume i l main ''WriteData'' [Arg_Text s] c = Some (cache_returns (of_nat (length s)), c1)
    \<and> cache_module_call to_integer resume i l main ''ReadData'' [Arg_Light buf, Arg_Integer (int (length all))] c1
        = Some (cache_returns (of_nat (length all)), c2)
    \<and> cache_content (lc_cache c2) = [] \<and> lc_events c2 = lc_events c @ [Filled buf all]"
proof -
  let ?bs = "map of_char s :: byte list"
  have "length ?bs \<le> unat (vc_size (lc_cache c)) - length (cache_content (lc_cache c))" using assms(2) by simp
  from cache_write [OF assms(1) this] obtain vc where
    w: "write_data ?bs (lc_cache c) = Some (of_nat (length s), vc)" "cache_wf vc" "vc_size vc = vc_size (lc_cache c)"
      "cache_content vc = all" by (auto simp: all_def)
  have lt: "length all < unat (vc_size vc)" using assms(2) w(3) by (simp add: all_def del: length_cache_content)
  moreover have "unat (vc_size vc) < 2 ^ 32" using unsigned_less [of "vc_size vc", where 'a = nat] by simp
  ultimately have n: "unat (u32_of (int (length all))) = length all" by (intro u32_of_length) linarith
  have "length (cache_content vc) < unat (vc_size vc)
      \<or> ring_begin vc + min (unat (u32_of (int (length all)))) (length (cache_content vc)) \<le> unat (vc_size vc)"
    using lt w(4) by (simp del: length_cache_content)
  from read_data_takes [OF w(2) this] obtain vc' where
    r: "read_data (u32_of (int (length all))) vc = Some (all, vc')" "cache_content vc' = []"
    unfolding n w(4) by auto
  show ?thesis
    using w(1) r assms(3)
    by (simp add: cache_module_call_def lua_write_data_def lua_read_data_def lc_tell_def)
qed

theorem cache_written_is_read_witness:
  "\<exists>c1 c2. cache_module_call (\<lambda>_. None) quiet 0 1 (Some 9) ''WriteData'' [Arg_Text ''ab''] (demo_lua_cache\<lparr>lc_promise := None\<rparr>)
      = Some (cache_returns 2, c1)
    \<and> cache_module_call (\<lambda>_. None) quiet 0 1 (Some 9) ''ReadData'' [Arg_Light 64, Arg_Integer 2] c1 = Some (cache_returns 2, c2)
    \<and> lc_events c2 = [Filled 64 [Some 97, Some 98]]"
proof -
  let ?c = "demo_lua_cache\<lparr>lc_promise := None\<rparr>"
  note d = demo_lua_cache_ok
  have "cache_wf (lc_cache ?c)" "length (cache_content (lc_cache ?c)) + length ''ab'' < unat (vc_size (lc_cache ?c))" "(64 :: nat) \<noteq> 0"
    using d by (simp_all del: length_cache_content)
  from cache_written_is_read [OF this, of "\<lambda>_. None" quiet 0 1 "Some 9"] d(3,5) show ?thesis by auto
qed

section \<open>What does not wake a reader\<close>

text \<open>The functions that do not wait, and their calls in a row.\<close>

definition plain_names :: "string set" where
  "plain_names = {''WriteData'', ''ReadData'', ''ClearData'', ''SkipData'', ''ResetSize'', ''GetSpaceSize'', ''GetDataSize'',
     ''Version'', ''GetCache''}"

fun cache_script_calls ::
    "(string \<Rightarrow> int option) \<Rightarrow> lua_resumption \<Rightarrow> nat \<Rightarrow> nat \<Rightarrow> nat option \<Rightarrow> (string \<times> lua_arg list) list \<Rightarrow> lua_cache
      \<Rightarrow> (cache_outcome list \<times> lua_cache) option" where
  "cache_script_calls to_integer resume i l main [] c = Some ([], c)"
| "cache_script_calls to_integer resume i l main ((name, args) # calls) c =
     do {
       (r, c1) \<leftarrow> cache_module_call to_integer resume i l main name args c;
       (rs, c2) \<leftarrow> cache_script_calls to_integer resume i l main calls c1;
       Some (r # rs, c2)
     }"

definition resumptions :: "lua_cache \<Rightarrow> promise_event list" where
  "resumptions c = filter (\<lambda>e. case e of Resumed _ _ \<Rightarrow> True | _ \<Rightarrow> False) (lc_events c)"

lemma plain_call_keeps:
  assumes "cache_module_call to_integer resume i l main name args c = Some (r, c')" and "name \<in> plain_names"
  shows "lc_promise c' = lc_promise c \<and> resumptions c' = resumptions c"
  using assms
  by (auto simp: plain_names_def cache_module_call_def lua_write_data_def lua_read_data_def lua_clear_data_def lua_skip_data_def
      lua_reset_size_def lua_get_space_size_def lua_get_data_size_def lua_version_def lua_get_cache_def lc_tell_def resumptions_def
      Let_def split: list.splits if_splits bind_splits prod.splits)

lemma plain_calls_keep:
  assumes "cache_script_calls to_integer resume i l main calls c = Some (rs, c')" and "fst ` set calls \<subseteq> plain_names"
  shows "lc_promise c' = lc_promise c \<and> resumptions c' = resumptions c"
  using assms
proof (induction calls arbitrary: c rs)
  case (Cons x calls)
  obtain name args where x: "x = (name, args)" by (cases x)
  with Cons.prems(1) obtain r c1 rs1 where 1: "cache_module_call to_integer resume i l main name args c = Some (r, c1)"
    "cache_script_calls to_integer resume i l main calls c1 = Some (rs1, c')" by (auto split: bind_splits)
  from plain_call_keeps [OF 1(1)] Cons.IH [OF 1(2)] Cons.prems(2) x show ?case by simp
qed simp



end
