(* ===== verification/Bee_Lua_Crypto.thy ===== *)
theory Bee_Lua_Crypto
  imports Bee_Lua_Cache Bee_IOBuffer
begin

unbundle bit_operations_syntax

text \<open>
  The module \<open>crypto\<close> of scripts (src/lua/module/lua_crypto_module.cpp): decryption from memory to memory, and of
  what a video cache holds into a buffer of the module, which scripts then read. openssl's ciphers are parameters.
  Memory is given by addresses; what is stored there is an effect. \<open>None\<close> is undefined behaviour: a null pointer,
  a failed assertion, or an access outside a buffer or the key.
\<close>

section \<open>State\<close>

datatype AlgoType = ALGO_AES | ALGO_RC4 | ALGO_XXTEA

text \<open>
  What openssl answers for \<open>EVP_aes_128_ecb\<close>: whether a context can be made, whether it takes a key, of which it reads
  16 bytes, and what the two calls after that write and whether they succeed. RC4 gives one byte for each.
\<close>

record evp =
  evp_ctx :: bool
  evp_init :: "byte list \<Rightarrow> bool"
  evp_update :: "byte list \<Rightarrow> byte list \<Rightarrow> byte list \<times> bool"
  evp_final :: "byte list \<Rightarrow> byte list \<Rightarrow> byte list \<times> bool"

record ciphers =
  ci_enc :: evp
  ci_dec :: evp
  ci_rc4 :: "byte list \<Rightarrow> byte list \<Rightarrow> byte list"

text \<open>
  \<open>aes_decrypt_ecb\<close> (utility/crypto.cpp) between buffers that are there: what is written, also by a call that fails
  later, and whether it succeeds. Whole blocks are written before the last one is found to be wrong.
\<close>

definition aes_decrypt_ecb :: "evp \<Rightarrow> byte list \<Rightarrow> byte list \<Rightarrow> byte list \<times> bool" where
  "aes_decrypt_ecb ev input key =
     (if \<not> evp_ctx ev \<or> \<not> evp_init ev key then ([], False)
      else case evp_update ev key input of
          (out, False) \<Rightarrow> (out, False)
        | (out, True) \<Rightarrow>
            (case evp_final ev key input of
               (out2, fine) \<Rightarrow> (out @ out2, fine)))"

text \<open>
  \<open>aes_encrypt_ecb\<close> leaves the caller's output as it is: what it has made is assigned to its own parameter. So only the
  length is answered, or nothing.
\<close>

definition aes_encrypt_ecb :: "evp \<Rightarrow> byte list \<Rightarrow> byte list \<Rightarrow> nat option" where
  "aes_encrypt_ecb ev input key =
     (if \<not> evp_ctx ev \<or> \<not> evp_init ev key then None
      else case evp_update ev key input of
          (out, False) \<Rightarrow> None
        | (out, True) \<Rightarrow>
            (case evp_final ev key input of
               (out2, fine) \<Rightarrow> if fine then Some (length out + length out2) else None))"

text \<open>What the code relies on: decryption gives no more than its input, and RC4 as much.\<close>

definition ciphers_fit :: "ciphers \<Rightarrow> bool" where
  "ciphers_fit ci \<longleftrightarrow> (\<forall>input key. length (fst (aes_decrypt_ecb (ci_dec ci) input key)) \<le> length input)
     \<and> (\<forall>input key. length (ci_rc4 ci input key) = length input)"

record crypto_module =
  cm_dec_input :: "byte iobuffer option"
  cm_dec_output :: "byte iobuffer option"

definition LuaCryptoModule_new :: crypto_module where
  "LuaCryptoModule_new = \<lparr>cm_dec_input = None, cm_dec_output = None\<rparr>"

section \<open>Ciphers\<close>

text \<open>What is written, and whether it succeeds. A key is a C string, with its zero.\<close>

definition crypto_decrypt :: "ciphers \<Rightarrow> AlgoType \<Rightarrow> byte list \<Rightarrow> byte list \<Rightarrow> (byte list \<times> bool) option" where
  "crypto_decrypt ci algo input key =
     (case algo of
        ALGO_AES \<Rightarrow> if length key + 1 < 16 then None else Some (aes_decrypt_ecb (ci_dec ci) input key)
      | ALGO_RC4 \<Rightarrow> Some (ci_rc4 ci input key, True)
      | ALGO_XXTEA \<Rightarrow> Some ([], False))"

text \<open>\<open>Some None\<close>: it fails.\<close>

definition crypto_encrypt :: "ciphers \<Rightarrow> AlgoType \<Rightarrow> byte list \<Rightarrow> byte list \<Rightarrow> (byte list \<times> nat) option option" where
  "crypto_encrypt ci algo input key =
     (case algo of
        ALGO_AES \<Rightarrow>
          if length key + 1 < 16 then None
          else Some (map_option (Pair []) (aes_encrypt_ecb (ci_enc ci) input key))
      | ALGO_RC4 \<Rightarrow> Some (Some (ci_rc4 ci input key, length input))
      | ALGO_XXTEA \<Rightarrow> Some None)"

section \<open>The module's buffers\<close>

definition new_if_small :: "nat \<Rightarrow> byte iobuffer option \<Rightarrow> byte iobuffer" where
  "new_if_small n b = (case b of None \<Rightarrow> IOBuffer_new n | Some b \<Rightarrow> if iob_capacity b < n then IOBuffer_new n else b)"

definition allocate_decrypt_cache :: "nat \<Rightarrow> crypto_module \<Rightarrow> bool \<times> crypto_module" where
  "allocate_decrypt_cache n m =
     (if n = 0 then (False, m)
      else (True, m\<lparr>cm_dec_input := Some (new_if_small n (cm_dec_input m)), cm_dec_output := Some (new_if_small n (cm_dec_output m))\<rparr>))"

text \<open>What has been read stays read when it is not enough.\<close>

definition fill_dec_input :: "video_cache \<Rightarrow> nat \<Rightarrow> byte iobuffer \<Rightarrow> (bool \<times> video_cache \<times> byte iobuffer) option" where
  "fill_dec_input cache n input =
     (if n = 0 then Some (False, cache, input)
      else do {
        input1 \<leftarrow> iob_resize n input;
        (bs, cache1) \<leftarrow> read_data (of_nat n) cache;
        cs \<leftarrow> (if bs = [] then Some (cells input1) else store_at (cells input1) (begin_offset input1) bs);
        Some (length bs = n, cache1, input1\<lparr>cells := cs\<rparr>)
      })"

text \<open>The output is written from where the unread rest of the last one begins.\<close>

definition decrypt_cache ::
    "ciphers \<Rightarrow> AlgoType \<Rightarrow> video_cache \<Rightarrow> nat \<Rightarrow> byte list \<Rightarrow> crypto_module \<Rightarrow> (nat option \<times> video_cache \<times> crypto_module) option" where
  "decrypt_cache ci algo cache n key m =
     (case allocate_decrypt_cache n m of
        (False, m1) \<Rightarrow> Some (None, cache, m1)
      | (True, m1) \<Rightarrow>
          (case (cm_dec_input m1, cm_dec_output m1) of
             (Some input, Some out_buffer) \<Rightarrow>
               do {
                 (filled, cache1, input1) \<leftarrow> fill_dec_input cache n input;
                 let m2 = m1\<lparr>cm_dec_input := Some input1\<rparr>;
                 if \<not> filled then Some (None, cache1, m2)
                 else do {
                   bs \<leftarrow> defined_cells (iob_content input1);
                   (out, fine) \<leftarrow> crypto_decrypt ci algo bs key;
                   cs \<leftarrow> (if out = [] then Some (cells out_buffer)
                          else store_at (cells out_buffer) (begin_offset out_buffer) (map Some out));
                   let written = out_buffer\<lparr>cells := cs\<rparr>;
                   if \<not> fine then Some (None, cache1, m2\<lparr>cm_dec_output := Some written\<rparr>)
                   else do {
                     b \<leftarrow> iob_resize (length out) written;
                     Some (Some (length out), cache1, m2\<lparr>cm_dec_output := Some b\<rparr>)
                   }
                 }
               }
           | _ \<Rightarrow> Some (None, cache, m1)))"

definition read_dec_cache :: "nat \<Rightarrow> crypto_module \<Rightarrow> (byte option list \<times> crypto_module) option" where
  "read_dec_cache len m =
     (case cm_dec_output m of
        None \<Rightarrow> None
      | Some b \<Rightarrow>
          do {
            b1 \<leftarrow> iob_consume (min len (iob_size b)) b;
            Some (take (min len (iob_size b)) (iob_content b), m\<lparr>cm_dec_output := Some b1\<rparr>)
          })"

text \<open>\<open>decrypt_buffer\<close>, which nothing calls: like \<open>decrypt_cache\<close> but for two buffers of the caller.\<close>

definition decrypt_buffer ::
    "ciphers \<Rightarrow> AlgoType \<Rightarrow> byte iobuffer option \<Rightarrow> byte list \<Rightarrow> byte iobuffer option \<Rightarrow> (bool \<times> byte iobuffer option) option" where
  "decrypt_buffer ci algo input key output =
     (case (input, output) of
        (Some b, Some ob) \<Rightarrow>
          if iob_empty b \<or> iob_empty ob then Some (False, output)
          else do {
            bs \<leftarrow> defined_cells (iob_content b);
            (out, fine) \<leftarrow> crypto_decrypt ci algo bs key;
            cs \<leftarrow> (if out = [] then Some (cells ob) else store_at (cells ob) (begin_offset ob) (map Some out));
            let written = ob\<lparr>cells := cs\<rparr>;
            if \<not> fine then Some (False, Some written)
            else do {
              ob1 \<leftarrow> iob_resize (length out) written;
              Some (True, Some ob1)
            }
          }
      | _ \<Rightarrow> Some (False, output))"

section \<open>The functions\<close>

text \<open>
  What a function answers, and what it has stored where. \<open>memory\<close> is what stands from an address on; a light userdata
  for a cache is the cache of the model.
\<close>

type_synonym crypto_answer = "(int lua_answer \<times> (nat \<times> byte option list) list \<times> video_cache \<times> crypto_module) option"

definition crypto_refuses :: "video_cache \<Rightarrow> crypto_module \<Rightarrow> crypto_answer" where
  "crypto_refuses cache m = Some (Refuses, [], cache, m)"

definition algo_of :: "int \<Rightarrow> AlgoType option" where
  "algo_of n = (if n = 0 then Some ALGO_AES else if n = 1 then Some ALGO_RC4 else if n = 2 then Some ALGO_XXTEA else None)"

definition key_bytes :: "string \<Rightarrow> byte list" where
  "key_bytes key = map of_char key"

text \<open>\<open>encrypt\<close> only gives back its last argument.\<close>

definition crypto_lua_encrypt :: "(string \<Rightarrow> int option) \<Rightarrow> lua_arg list \<Rightarrow> video_cache \<Rightarrow> crypto_module \<Rightarrow> crypto_answer" where
  "crypto_lua_encrypt to_integer args cache m =
     (if args = [] then None
      else Some (Answers [int32_of (lua_tointeger to_integer (last args))], [], cache, m))"

definition crypto_lua_decrypt ::
    "ciphers \<Rightarrow> (nat \<Rightarrow> nat \<Rightarrow> byte list) \<Rightarrow> lua_arg list \<Rightarrow> video_cache \<Rightarrow> crypto_module \<Rightarrow> crypto_answer" where
  "crypto_lua_decrypt ci memory args cache m =
     (case args of
        [Arg_Integer algo, Arg_Light input, Arg_Integer input_len, k, Arg_Light out_buff, Arg_Integer output_len] \<Rightarrow>
          (case (lua_text k, algo_of (int32_of algo)) of
             (Some key, Some a) \<Rightarrow>
               if input = 0 \<or> int32_of input_len \<le> 0 \<or> out_buff = 0 \<or> int32_of output_len \<le> 0 then crypto_refuses cache m
               else do {
                 (out, fine) \<leftarrow> crypto_decrypt ci a (memory input (nat (int32_of input_len))) (key_bytes key);
                 Some (if fine then Answers [int (length out)] else Refuses,
                   if out = [] then [] else [(out_buff, map Some out)], cache, m)
               }
           | _ \<Rightarrow> crypto_refuses cache m)
      | _ \<Rightarrow> crypto_refuses cache m)"

definition crypto_lua_decrypt_cache :: "ciphers \<Rightarrow> lua_arg list \<Rightarrow> video_cache \<Rightarrow> crypto_module \<Rightarrow> crypto_answer" where
  "crypto_lua_decrypt_cache ci args cache m =
     (case args of
        [Arg_Integer algo, Arg_Light p, Arg_Integer len, k] \<Rightarrow>
          (case (lua_text k, algo_of (int32_of algo)) of
             (Some key, Some a) \<Rightarrow>
               if p = 0 \<or> int32_of len \<le> 0 then crypto_refuses cache m
               else do {
                 (ret, cache1, m1) \<leftarrow> decrypt_cache ci a cache (nat (int32_of len)) (key_bytes key) m;
                 (case ret of
                    None \<Rightarrow> crypto_refuses cache1 m1
                  | Some n \<Rightarrow> Some (Answers [int n], [], cache1, m1))
               }
           | _ \<Rightarrow> crypto_refuses cache m)
      | _ \<Rightarrow> crypto_refuses cache m)"

definition crypto_lua_read_dec_cache :: "lua_arg list \<Rightarrow> video_cache \<Rightarrow> crypto_module \<Rightarrow> crypto_answer" where
  "crypto_lua_read_dec_cache args cache m =
     (case args of
        [Arg_Light buf, Arg_Integer n] \<Rightarrow>
          (let len = unat (u32_of n)
           in if buf = 0 \<or> len = 0 then crypto_refuses cache m
              else do {
                (bs, m1) \<leftarrow> read_dec_cache len m;
                Some (Answers [int (length bs)], [(buf, bs)], cache, m1)
              })
      | _ \<Rightarrow> crypto_refuses cache m)"

text \<open>The functions by the names \<open>lua_open_module\<close> registers; any other name is \<open>None\<close> too.\<close>

definition crypto_module_call ::
    "ciphers \<Rightarrow> (string \<Rightarrow> int option) \<Rightarrow> (nat \<Rightarrow> nat \<Rightarrow> byte list) \<Rightarrow> string \<Rightarrow> lua_arg list \<Rightarrow> video_cache \<Rightarrow> crypto_module \<Rightarrow> crypto_answer" where
  "crypto_module_call ci to_integer memory name args cache m =
     (if name = ''encrypt'' then crypto_lua_encrypt to_integer args cache m
      else if name = ''decrypt'' then crypto_lua_decrypt ci memory args cache m
      else if name = ''decrypt_cache'' then crypto_lua_decrypt_cache ci args cache m
      else if name = ''read_dec_cache'' then crypto_lua_read_dec_cache args cache m
      else None)"

section \<open>Decrypting what a cache holds\<close>

text \<open>A buffer of the module that holds nothing, or nothing yet.\<close>

definition buffer_fresh :: "byte iobuffer option \<Rightarrow> bool" where
  "buffer_fresh b \<longleftrightarrow> (case b of None \<Rightarrow> True | Some b \<Rightarrow> iob_wf b \<and> begin_offset b = 0)"

lemma new_if_small_fresh:
  assumes "buffer_fresh b" and "0 < n"
  shows "iob_wf (new_if_small n b) \<and> begin_offset (new_if_small n b) = 0 \<and> n \<le> buffer_capacity (new_if_small n b)"
  using assms by (auto simp: new_if_small_def buffer_fresh_def IOBuffer_new_def iob_wf_def iob_capacity_def split: option.splits)

lemma stored_content:
  assumes "iob_wf b" and "begin_offset b = 0" and "length bs \<le> buffer_capacity b"
  shows "\<exists>cs b1. (if bs = [] then Some (cells b) else store_at (cells b) 0 bs) = Some cs
    \<and> iob_resize (length bs) (b\<lparr>cells := cs\<rparr>) = Some b1 \<and> iob_wf b1 \<and> begin_offset b1 = 0 \<and> iob_content b1 = bs"
  using assms
  by (cases "bs = []") (auto simp: store_at_def iob_resize_def iob_wf_def iob_content_def iob_capacity_def)

lemma filled_content:
  assumes "iob_wf b" and "begin_offset b = 0" and "0 < n" and "n \<le> buffer_capacity b" and "read_data (of_nat n) cache = Some (bs, cache1)"
    and "length bs = n"
  shows "\<exists>b1. fill_dec_input cache n b = Some (True, cache1, b1) \<and> iob_wf b1 \<and> begin_offset b1 = 0 \<and> iob_content b1 = bs"
  using assms
  by (auto simp: fill_dec_input_def iob_resize_def iob_capacity_def store_at_def iob_wf_def iob_content_def)

lemma u32_of_nat: "n < 2 ^ 32 \<Longrightarrow> unat (of_nat n :: u32) = n"
  by (simp add: unat_of_nat)

lemma defined_map_Some [simp]: "defined_cells (map Some bs) = Some bs"
  by (auto simp: defined_cells_def comp_def)

lemma decrypts:
  assumes "ciphers_fit ci" and "cache_wf cache" and "length (cache_content cache) < unat (vc_size cache)"
    and "take n (cache_content cache) = map Some enc" and "length enc = n" and "0 < n"
    and "buffer_fresh (cm_dec_input m)" and "buffer_fresh (cm_dec_output m)"
    and "crypto_decrypt ci algo enc key = Some (out, True)"
  shows "\<exists>cache1 m1 b. decrypt_cache ci algo cache n key m = Some (Some (length out), cache1, m1)
    \<and> cache_content cache1 = drop n (cache_content cache) \<and> cm_dec_output m1 = Some b \<and> iob_wf b \<and> begin_offset b = 0
    \<and> iob_content b = map Some out \<and> buffer_fresh (cm_dec_input m1)"
proof -
  let ?in = "new_if_small n (cm_dec_input m)" and ?out = "new_if_small n (cm_dec_output m)"
  have le: "n \<le> length (cache_content cache)" using assms(4,5) by (metis length_map length_take min.cobounded1)
  have n: "unat (of_nat n :: u32) = n"
    using le assms(3) unsigned_less [of "vc_size cache", where 'a = nat, simplified] by (intro u32_of_nat) (simp del: length_cache_content)
  have "length (cache_content cache) < unat (vc_size cache)
      \<or> ring_begin cache + min (unat (of_nat n :: u32)) (length (cache_content cache)) \<le> unat (vc_size cache)" using assms(3) by simp
  from read_data_takes [OF assms(2) this] obtain cache1 where
    r: "read_data (of_nat n) cache = Some (map Some enc, cache1)" "cache_content cache1 = drop n (cache_content cache)"
    unfolding n assms(4) by blast
  note i = new_if_small_fresh [OF assms(7,6)] and o = new_if_small_fresh [OF assms(8,6)]
  from filled_content [of ?in n cache "map Some enc" cache1] i assms(5,6) r(1) obtain b1 where
    f: "fill_dec_input cache n ?in = Some (True, cache1, b1)" "iob_wf b1" "begin_offset b1 = 0" "iob_content b1 = map Some enc" by auto
  have "length (fst (aes_decrypt_ecb (ci_dec ci) enc key)) \<le> length enc" using assms(1) unfolding ciphers_fit_def by blast
  with assms(1,5,9) have "length out \<le> n"
    by (cases algo) (auto simp: crypto_decrypt_def ciphers_fit_def split: if_splits)
  with stored_content [of ?out "map Some out"] o obtain cs b where
    s: "(if map Some out = [] then Some (cells ?out) else store_at (cells ?out) 0 (map Some out)) = Some cs"
      "iob_resize (length out) (?out\<lparr>cells := cs\<rparr>) = Some b" "iob_wf b" "begin_offset b = 0" "iob_content b = map Some out" by auto
  have "decrypt_cache ci algo cache n key m = Some (Some (length out), cache1, m\<lparr>cm_dec_input := Some b1, cm_dec_output := Some b\<rparr>)"
    using assms(6,9) f o s(1,2) by (cases "out = []") (simp_all add: decrypt_cache_def allocate_decrypt_cache_def)
  with r(2) s(3-5) f(2,3) show ?thesis by (auto simp: buffer_fresh_def)
qed

lemma reads_all:
  assumes "cm_dec_output m = Some b" and "iob_wf b" and "begin_offset b = 0"
  shows "\<exists>m1. read_dec_cache (length (iob_content b)) m = Some (iob_content b, m1) \<and> cm_dec_input m1 = cm_dec_input m
    \<and> buffer_fresh (cm_dec_output m1)"
  using assms iob_wf_size [OF assms(2)]
  by (auto simp: read_dec_cache_def iob_consume_def iob_clear_def iob_empty_def buffer_fresh_def iob_wf_def Let_def)
    (auto simp: iob_content_def)

text \<open>
  C21: a script gets the plain text of what has been put into a video cache. With RC4, whose key stream undoes itself,
  a cache that begins with the encrypted text and is not completely full, ciphers whose output fits its buffer, and
  both buffers of the module either not there yet or read to their end (\<open>buffer_fresh\<close>),
  \<open>decrypt_cache\<close> takes exactly the bytes it is told from the
  cache and answers their number, and \<open>read_dec_cache\<close> hands the plain bytes over and leaves the buffers ready for the
  next ones. (Without the last condition see \<open>decrypting_before_all_is_read_overruns\<close>.)
\<close>

theorem cache_decrypts_for_script:
  assumes "ciphers_fit ci" and "\<forall>bs. ci_rc4 ci (ci_rc4 ci bs (key_bytes (c_text key))) (key_bytes (c_text key)) = bs"
    and "cache_wf cache" and "length (cache_content cache) < unat (vc_size cache)" and "plain \<noteq> []" and "length plain < 2 ^ 31"
    and "cache_content cache = map Some (ci_rc4 ci plain (key_bytes (c_text key))) @ rest"
    and "buffer_fresh (cm_dec_input m)" and "buffer_fresh (cm_dec_output m)" and "p \<noteq> 0" and "buf \<noteq> 0"
  shows "\<exists>cache1 m1 m2. crypto_module_call ci to_integer memory ''decrypt_cache''
        [Arg_Integer 1, Arg_Light p, Arg_Integer (int (length plain)), Arg_Text key] cache m
      = Some (Answers [int (length plain)], [], cache1, m1)
    \<and> cache_content cache1 = rest
    \<and> crypto_module_call ci to_integer memory ''read_dec_cache'' [Arg_Light buf, Arg_Integer (int (length plain))] cache1 m1
      = Some (Answers [int (length plain)], [(buf, map Some plain)], cache1, m2)
    \<and> buffer_fresh (cm_dec_input m2) \<and> buffer_fresh (cm_dec_output m2)"
proof -
  let ?key = "key_bytes (c_text key)" and ?n = "length plain"
  let ?enc = "ci_rc4 ci plain ?key"
  have len: "length ?enc = ?n" using assms(1) by (simp add: ciphers_fit_def)
  have "take ?n (cache_content cache) = map Some ?enc" "0 < ?n" using assms(5,7) len by simp_all
  from decrypts [OF assms(1,3,4) this(1) len this(2) assms(8,9), of ALGO_RC4 ?key plain] assms(2) obtain cache1 m1 b where
    d: "decrypt_cache ci ALGO_RC4 cache ?n ?key m = Some (Some ?n, cache1, m1)" "cache_content cache1 = rest"
      "cm_dec_output m1 = Some b" "iob_wf b" "begin_offset b = 0" "iob_content b = map Some plain" "buffer_fresh (cm_dec_input m1)"
    using assms(7) len by (auto simp: crypto_decrypt_def)
  from reads_all [OF d(3-5)] d(6) obtain m2 where
    r: "read_dec_cache ?n m1 = Some (map Some plain, m2)" "cm_dec_input m2 = cm_dec_input m1" "buffer_fresh (cm_dec_output m2)" by auto
  have n: "int32_of (int ?n) = int ?n" using assms(6) by (intro int32_of_small) simp_all
  have u: "unat (u32_of (int ?n)) = ?n" using assms(6) by (intro u32_of_length) simp
  have a: "algo_of (int32_of 1) = Some ALGO_RC4" using int32_of_small [of 1] by (simp add: algo_of_def)
  have "crypto_module_call ci to_integer memory ''decrypt_cache'' [Arg_Integer 1, Arg_Light p, Arg_Integer (int ?n), Arg_Text key] cache m
      = Some (Answers [int ?n], [], cache1, m1)"
    using assms(5,10) d(1) n a by (simp add: crypto_module_call_def crypto_lua_decrypt_cache_def)
  moreover have "crypto_module_call ci to_integer memory ''read_dec_cache'' [Arg_Light buf, Arg_Integer (int ?n)] cache1 m1
      = Some (Answers [int ?n], [(buf, map Some plain)], cache1, m2)"
    using assms(5,11) r(1) u by (simp add: crypto_module_call_def crypto_lua_read_dec_cache_def Let_def)
  ultimately show ?thesis using d(2,7) r(2,3) by auto
qed

section \<open>Where it goes wrong\<close>

text \<open>
  An output that has been read only in part is a trap. The next one is written behind the bytes that have been
  read, so if it is as long as the buffer, as after a block of the same size, it is written beyond the buffer's end.
\<close>

theorem decrypting_before_all_is_read_overruns:
  assumes "cache_wf cache" and "length (cache_content cache) < unat (vc_size cache)"
    and "take n (cache_content cache) = map Some enc" and "length enc = n" and "0 < n" and "ciphers_fit ci"
    and "buffer_fresh (cm_dec_input m)" and "cm_dec_output m = Some b" and "iob_wf b" and "buffer_capacity b = n" and "0 < begin_offset b"
  shows "decrypt_cache ci ALGO_RC4 cache n key m = None"
proof -
  let ?in = "new_if_small n (cm_dec_input m)"
  have le: "n \<le> length (cache_content cache)" using assms(3,4) by (metis length_map length_take min.cobounded1)
  have n: "unat (of_nat n :: u32) = n"
    using le assms(2) unsigned_less [of "vc_size cache", where 'a = nat, simplified] by (intro u32_of_nat) (simp del: length_cache_content)
  have "length (cache_content cache) < unat (vc_size cache)
      \<or> ring_begin cache + min (unat (of_nat n :: u32)) (length (cache_content cache)) \<le> unat (vc_size cache)" using assms(2) by simp
  from read_data_takes [OF assms(1) this] obtain cache1 where r: "read_data (of_nat n) cache = Some (map Some enc, cache1)"
    unfolding n assms(3) by blast
  note i = new_if_small_fresh [OF assms(7,5)]
  from filled_content [of ?in n cache "map Some enc" cache1] i assms(4,5) r obtain b1 where
    f: "fill_dec_input cache n ?in = Some (True, cache1, b1)" "iob_content b1 = map Some enc" by auto
  have l: "length (ci_rc4 ci enc key) = n" using assms(4,6) by (simp add: ciphers_fit_def)
  have "new_if_small n (cm_dec_output m) = b" using assms(8,10) by (simp add: new_if_small_def iob_capacity_def)
  moreover have "store_at (cells b) (begin_offset b) (map Some (ci_rc4 ci enc key)) = None"
    using assms(9-11) l by (auto simp: store_at_def iob_wf_def)
  moreover have "ci_rc4 ci enc key \<noteq> []" using l assms(5) by auto
  ultimately show ?thesis
    using assms(5) f by (simp add: decrypt_cache_def allocate_decrypt_cache_def crypto_decrypt_def)
qed

text \<open>
  Asking for more than the cache holds loses what it holds: the bytes are taken from the cache, the call refuses,
  and they are nowhere to be read.
\<close>

theorem short_cache_is_lost:
  assumes "cache_wf cache" and "length (cache_content cache) < n" and "length (cache_content cache) < unat (vc_size cache)"
    and "n < 2 ^ 31" and "buffer_fresh (cm_dec_input m)" and "p \<noteq> 0"
  shows "\<exists>cache1 m1. crypto_lua_decrypt_cache ci [Arg_Integer 1, Arg_Light p, Arg_Integer (int n), Arg_Text key] cache m
      = Some (Refuses, [], cache1, m1)
    \<and> cache_content cache1 = [] \<and> cm_dec_output m1 = Some (new_if_small n (cm_dec_output m))"
proof -
  let ?in = "new_if_small n (cm_dec_input m)"
  have n0: "0 < n" using assms(2) by linarith
  have n: "unat (of_nat n :: u32) = n" using assms(4) by (intro u32_of_nat) simp
  have "length (cache_content cache) < unat (vc_size cache)
      \<or> ring_begin cache + min (unat (of_nat n :: u32)) (length (cache_content cache)) \<le> unat (vc_size cache)" using assms(3) by simp
  from read_data_takes [OF assms(1) this] assms(2) obtain cache1 where
    r: "read_data (of_nat n) cache = Some (cache_content cache, cache1)" "cache_content cache1 = []"
    unfolding n by (auto simp del: length_cache_content)
  note i = new_if_small_fresh [OF assms(5) n0]
  have "\<exists>b1. fill_dec_input cache n ?in = Some (False, cache1, b1)"
    using i r(1) assms(2) n0
    by (auto simp: fill_dec_input_def iob_resize_def iob_capacity_def store_at_def iob_wf_def simp del: length_cache_content)
  then obtain b1 where f: "fill_dec_input cache n ?in = Some (False, cache1, b1)" by blast
  have "decrypt_cache ci ALGO_RC4 cache n (key_bytes (c_text key)) m
      = Some (None, cache1, m\<lparr>cm_dec_input := Some b1, cm_dec_output := Some (new_if_small n (cm_dec_output m))\<rparr>)"
    using n0 f by (simp add: decrypt_cache_def allocate_decrypt_cache_def)
  moreover have "int32_of (int n) = int n" using assms(4) by (intro int32_of_small) simp_all
  moreover have "algo_of (int32_of 1) = Some ALGO_RC4" using int32_of_small [of 1] by (simp add: algo_of_def)
  ultimately show ?thesis
    using assms(6) n0 r(2) by (simp add: crypto_lua_decrypt_cache_def crypto_refuses_def)
qed

section \<open>Instances\<close>

definition demo_evp :: evp where
  "demo_evp = \<lparr>evp_ctx = True, evp_init = (\<lambda>key. 16 \<le> length key), evp_update = (\<lambda>_ _. ([], True)), evp_final = (\<lambda>_ input. (input, True))\<rparr>"

definition demo_ciphers :: ciphers where
  "demo_ciphers = \<lparr>ci_enc = demo_evp, ci_dec = demo_evp, ci_rc4 = (\<lambda>bs key. map (\<lambda>b. b XOR 7) bs)\<rparr>"

lemma demo_ciphers_fit: "ciphers_fit demo_ciphers"
  by (simp add: ciphers_fit_def demo_ciphers_def demo_evp_def aes_decrypt_ecb_def)

lemma xor_again: "(b XOR 7) XOR 7 = b" for b :: byte
  by (simp add: xor.assoc)

text \<open>A cache of four bytes that holds the text 1, 2, encrypted.\<close>

definition demo_encrypted :: video_cache where
  "demo_encrypted = \<lparr>vc_buffer = [Some 6, Some 5, None, None], vc_use = 0, vc_tail = 2, vc_size = 4\<rparr>"

lemma demo_encrypted_ok: "cache_wf demo_encrypted" "cache_content demo_encrypted = [Some 6, Some 5]" "unat (vc_size demo_encrypted) = 4"
  by (simp_all add: demo_encrypted_def cache_wf_def cache_content_def ring_at_def upt_rec)

lemma demo_rc4: "ci_rc4 demo_ciphers [1, 2] key = [6, 5]"
  by (simp add: demo_ciphers_def)

theorem cache_decrypts_for_script_witness:
  "\<exists>cache1 m1 m2. crypto_module_call demo_ciphers (\<lambda>_. None) (\<lambda>_ _. []) ''decrypt_cache''
        [Arg_Integer 1, Arg_Light 1, Arg_Integer 2, Arg_Text ''k''] demo_encrypted LuaCryptoModule_new
      = Some (Answers [2], [], cache1, m1)
    \<and> crypto_module_call demo_ciphers (\<lambda>_. None) (\<lambda>_ _. []) ''read_dec_cache'' [Arg_Light 64, Arg_Integer 2] cache1 m1
      = Some (Answers [2], [(64, [Some 1, Some 2])], cache1, m2)"
proof -
  have inv: "\<forall>bs. ci_rc4 demo_ciphers (ci_rc4 demo_ciphers bs (key_bytes (c_text ''k''))) (key_bytes (c_text ''k'')) = bs"
    by (simp add: demo_ciphers_def xor_again comp_def)
  have c: "cache_content demo_encrypted = map Some (ci_rc4 demo_ciphers [1, 2] (key_bytes (c_text ''k''))) @ []"
    by (simp add: demo_encrypted_ok demo_rc4)
  have l: "length (cache_content demo_encrypted) < unat (vc_size demo_encrypted)"
    by (simp add: demo_encrypted_ok del: length_cache_content)
  have f: "buffer_fresh (cm_dec_input LuaCryptoModule_new)" "buffer_fresh (cm_dec_output LuaCryptoModule_new)"
    by (simp_all add: buffer_fresh_def LuaCryptoModule_new_def)
  from cache_decrypts_for_script [OF demo_ciphers_fit inv demo_encrypted_ok(1) l _ _ c f, of 1 64 "\<lambda>_. None" "\<lambda>_ _. []"]
  show ?thesis by auto
qed

theorem decrypting_before_all_is_read_overruns_witness:
  "decrypt_cache demo_ciphers ALGO_RC4 demo_encrypted 2 [] (LuaCryptoModule_new\<lparr>cm_dec_output :=
     Some \<lparr>begin_offset = 1, end_offset = 2, cells = [Some 8, Some 9], buffer_capacity = 2\<rparr>\<rparr>) = None"
proof -
  have t: "take 2 (cache_content demo_encrypted) = map Some [6, 5]" by (simp add: demo_encrypted_ok)
  have l: "length (cache_content demo_encrypted) < unat (vc_size demo_encrypted)"
    by (simp add: demo_encrypted_ok del: length_cache_content)
  show ?thesis
    by (rule decrypting_before_all_is_read_overruns [OF demo_encrypted_ok(1) l t,
          where b = "\<lparr>begin_offset = 1, end_offset = 2, cells = [Some 8, Some 9], buffer_capacity = 2\<rparr>"])
      (simp_all add: demo_ciphers_fit buffer_fresh_def LuaCryptoModule_new_def iob_wf_def)
qed

theorem short_cache_is_lost_witness:
  "\<exists>cache1 m1. crypto_lua_decrypt_cache demo_ciphers [Arg_Integer 1, Arg_Light 1, Arg_Integer 3, Arg_Text ''k''] demo_encrypted LuaCryptoModule_new
      = Some (Refuses, [], cache1, m1) \<and> cache_content cache1 = []"
proof -
  have l: "length (cache_content demo_encrypted) < 3" "length (cache_content demo_encrypted) < unat (vc_size demo_encrypted)"
    by (simp_all add: demo_encrypted_ok del: length_cache_content)
  have "buffer_fresh (cm_dec_input LuaCryptoModule_new)" by (simp add: buffer_fresh_def LuaCryptoModule_new_def)
  from short_cache_is_lost [OF demo_encrypted_ok(1) l _ this, of 1 demo_ciphers "''k''"] show ?thesis by auto
qed

end
