(* ===== verification/Bee_Logger.thy ===== *)
theory Bee_Logger
  imports Bee_Algorithm
begin

text \<open>
  Logging (src/log/logger.cpp, logger_impl.cpp): which lines are logged and what they say, the file with its
  volumes, and the appenders behind the logger's event loop.

  The file system is a list of paths with contents; all files can be written. What \<open>vsnprintf\<close> makes of a
  format and its arguments is an argument, \<open>None\<close> when it fails; so are the texts of times, threads and
  places. \<open>None\<close> as a result is undefined behaviour. Console, callback and net appenders are effects.
\<close>

section \<open>Lines\<close>

definition line_text :: "string \<Rightarrow> string" where
  "line_text = takeWhile (\<lambda>c. c \<noteq> CHR 0x00)"

datatype log_line = Appends string | Throws string | Not_Logged

fun BeeLogLevelStr :: "BeeLogLevel \<Rightarrow> string" where
  "BeeLogLevelStr kLogLevel_Fatal = ''FT''"
| "BeeLogLevelStr kLogLevel_Error = ''ER''"
| "BeeLogLevelStr kLogLevel_Warn = ''WA''"
| "BeeLogLevelStr kLogLevel_Trace = ''TR''"
| "BeeLogLevelStr kLogLevel_Info = ''IF''"
| "BeeLogLevelStr kLogLevel_Debug = ''DT''"
| "BeeLogLevelStr kLogLevel_All = ''**''"
| "BeeLogLevelStr kLogLevel_Count = []"

definition bracket :: "string \<Rightarrow> string" where
  "bracket s = CHR ''['' # s @ '']''"

text \<open>
  The macro's two prints: the prefix goes into 1024 characters, and what does not fit behind it gets a longer
  buffer. The line is the whole buffer, zeros included.
\<close>

definition format_line :: "string \<Rightarrow> string option \<Rightarrow> log_line option" where
  "format_line pre text =
     (if 1024 < length pre then None
      else if length pre = 1024 then Some (Throws ''Too long log prefix.'')
      else case text of
        None \<Rightarrow> Some (Throws ''string formatting error'')
      | Some t \<Rightarrow>
          if length t < 1024 - length pre
          then Some (Appends (pre @ t @ replicate (1024 - length pre - length t) (CHR 0x00)))
          else Some (Appends (pre @ t @ [CHR 0x00])))"

definition log_prefix :: "string \<Rightarrow> string \<Rightarrow> BeeLogLevel \<Rightarrow> string \<Rightarrow> string option \<Rightarrow> string" where
  "log_prefix time tag level tid place =
     bracket time @ bracket tag @ bracket (BeeLogLevelStr level) @ bracket tid
       @ (case place of None \<Rightarrow> [] | Some p \<Rightarrow> bracket p) @ '' ''"

text \<open>\<open>Debug\<close>, \<open>Info\<close> and the others, and their namesakes with a tag, at the logger's level.\<close>

definition level_enabled :: "BeeLogLevel \<Rightarrow> BeeLogLevel \<Rightarrow> bool" where
  "level_enabled current level \<longleftrightarrow> level \<le> current"

definition log_at :: "BeeLogLevel \<Rightarrow> BeeLogLevel \<Rightarrow> string \<Rightarrow> string \<Rightarrow> string \<Rightarrow> string option \<Rightarrow> log_line option" where
  "log_at current level time tag tid text =
     (if level_enabled current level then format_line (log_prefix time tag level tid None) text else Some Not_Logged)"

text \<open>\<open>Log\<close>: what is no level of its own is a debug line.\<close>

definition logger_log ::
    "BeeLogLevel \<Rightarrow> BeeLogLevel \<Rightarrow> string \<Rightarrow> string \<Rightarrow> string \<Rightarrow> string \<Rightarrow> int \<Rightarrow> string option \<Rightarrow> log_line option" where
  "logger_log current level time tag tid source line text =
     (let l = (if level \<in> {kLogLevel_Fatal, kLogLevel_Error, kLogLevel_Warn, kLogLevel_Trace, kLogLevel_Info}
               then level else kLogLevel_Debug)
      in if level_enabled current l
         then format_line (log_prefix time tag l tid (Some (source @ '':'' @ show_int line))) text else Some Not_Logged)"

section \<open>Files\<close>

type_synonym files = "(string \<times> string) list"

definition with_slash :: "string \<Rightarrow> string" where
  "with_slash dir = (if last dir = CHR ''/'' then dir else dir @ ''/'')"

definition list_dir :: "string \<Rightarrow> files \<Rightarrow> string list" where
  "list_dir dir fs =
     [drop (length (with_slash dir)) (fst f). f \<leftarrow> fs,
        prefix (with_slash dir) (fst f) \<and> CHR ''/'' \<notin> set (drop (length (with_slash dir)) (fst f))]"

definition delete_file :: "string \<Rightarrow> files \<Rightarrow> files" where
  "delete_file path fs = AList.delete path fs"

definition rename_file :: "string \<Rightarrow> string \<Rightarrow> files \<Rightarrow> files" where
  "rename_file ofile nfile fs =
     (case map_of fs ofile of None \<Rightarrow> fs | Some c \<Rightarrow> AList.update nfile c (AList.delete ofile fs))"

section \<open>LogAppenderFile\<close>

record log_file =
  lf_stream :: "string option"
  lf_lines :: int
  lf_max_lines :: int
  lf_tag :: string
  lf_path :: string
  lf_name :: string
  lf_count :: int
  lf_volume_size :: int
  lf_current :: int
  lf_index :: int

definition LogAppenderFile_new :: log_file where
  "LogAppenderFile_new = \<lparr>lf_stream = None, lf_lines = 0, lf_max_lines = 100 * 1024, lf_tag = ''./'', lf_path = [],
     lf_name = [], lf_count = 0, lf_volume_size = 10 * 1024 * 1024, lf_current = 0, lf_index = 0\<rparr>"

definition SetLogFilePath :: "string \<Rightarrow> log_file \<Rightarrow> log_file" where
  "SetLogFilePath path a = (if path \<noteq> [] then a\<lparr>lf_path := path\<rparr> else a)"

definition SetLogFileMaxLine :: "int \<Rightarrow> log_file \<Rightarrow> log_file" where
  "SetLogFileMaxLine n a = (if n < 100 then a else a\<lparr>lf_max_lines := n\<rparr>)"

definition SetVolumeCount :: "int \<Rightarrow> log_file \<Rightarrow> log_file" where
  "SetVolumeCount n a = a\<lparr>lf_count := (if n \<le> 0 then 0 else n)\<rparr>"

text \<open>The product is an \<open>int32_t\<close>.\<close>

definition SetVolumeSize :: "int \<Rightarrow> log_file \<Rightarrow> log_file option" where
  "SetVolumeSize n a =
     (if n \<le> 0 then Some a else if 2 ^ 31 \<le> n * 1024 then None else Some (a\<lparr>lf_volume_size := n * 1024\<rparr>))"

text \<open>\<open>now\<close> is the time's text, to the second.\<close>

definition GetFileName :: "string \<Rightarrow> log_file \<Rightarrow> string" where
  "GetFileName now a = lf_tag a @ ''.'' @ now @ ''.log''"

definition stream_open :: "bool \<Rightarrow> string \<Rightarrow> files \<Rightarrow> files" where
  "stream_open keep path fs =
     (if keep \<and> map_of fs path \<noteq> None then fs else AList.update path [] fs)"

definition file_open :: "bool \<Rightarrow> string \<Rightarrow> log_file \<times> files \<Rightarrow> (log_file \<times> files) option" where
  "file_open keep now st =
     (case st of (a, fs) \<Rightarrow>
       do {
         path \<leftarrow> (if lf_count a > 0 then path_cat (lf_path a) (lf_name a) else Some (GetFileName now a));
         Some (a\<lparr>lf_stream := Some path\<rparr>, stream_open keep path fs)
       })"

definition file_close :: "log_file \<Rightarrow> log_file" where
  "file_close a = a\<lparr>lf_stream := None\<rparr>"

text \<open>
  \<open>find(".", pos, n)\<close> looks for the first \<open>n\<close> characters of a literal that has two; what it finds never
  cuts anything off what is left of the name.
\<close>

definition GetIndexFromVolume :: "string \<Rightarrow> string \<Rightarrow> int option" where
  "GetIndexFromVolume name volume_name =
     (if prefix name volume_name then
        (let idx = drop (length name) volume_name
         in if 2 < length idx then None else Some (if idx = [] then 0 else atoi (drop 1 idx)))
      else Some (- 1))"

fun max_index :: "string \<Rightarrow> string list \<Rightarrow> int \<Rightarrow> int option" where
  "max_index name [] count = Some count"
| "max_index name (v # vs) count =
     do { k \<leftarrow> GetIndexFromVolume name v; max_index name vs (if count < k then k else count) }"

definition GetMaxVolumeIndex :: "string \<Rightarrow> string \<Rightarrow> files \<Rightarrow> int option" where
  "GetMaxVolumeIndex dir name fs = max_index name (list_dir dir fs) 0"

text \<open>\<open>LogFilenameCompare\<close>: the number in a name's last part, or in the one before \<open>gz\<close>.\<close>

definition volume_key :: "string \<Rightarrow> int option" where
  "volume_key s =
     (if s = [] then Some 0
      else do {
        v \<leftarrow> Split [] s ''.'';
        if v = [] then Some 0
        else if last v = ''gz'' then (if length v < 2 then None else map_option atoi (str_trim (v ! (length v - 2))))
        else map_option atoi (str_trim (last v))
      })"

text \<open>\<open>std::sort\<close> may compare any two names; where they are equal it may leave them in any order.\<close>

definition sort_volumes :: "string list \<Rightarrow> string list option" where
  "sort_volumes v =
     (if length v < 2 then Some v
      else if \<exists>s \<in> set v. volume_key s = None then None
      else Some (rev (sort_key (\<lambda>s. the (volume_key s)) v)))"

text \<open>The renaming loop over the sorted names.\<close>

fun rename_volumes :: "log_file \<Rightarrow> string list \<Rightarrow> files \<Rightarrow> files option" where
  "rename_volumes a [] fs = Some fs"
| "rename_volumes a (v # vs) fs =
     do {
       k \<leftarrow> GetIndexFromVolume (lf_name a) v;
       if k < lf_count a - 1 \<and> k \<ge> 0 then
         do {
           src \<leftarrow> path_cat (lf_path a) v;
           dst \<leftarrow> path_cat (lf_path a) (lf_name a @ ''.'' @ bee_itoa (k + 1));
           rename_volumes a vs (rename_file src dst fs)
         }
       else rename_volumes a vs fs
     }"

definition RollingVolumes :: "string \<Rightarrow> log_file \<times> files \<Rightarrow> (log_file \<times> files) option" where
  "RollingVolumes now st =
     (case st of (a0, fs) \<Rightarrow>
       do {
         let a = file_close a0;
         (a1, fs1) \<leftarrow>
           (if lf_count a > 1 then
              do {
                (a2, fs2) \<leftarrow>
                  (if lf_index a > 0 \<and> lf_index a \<ge> lf_count a - 1 then
                     do {
                       path \<leftarrow> path_cat (lf_path a) (lf_name a @ ''.'' @ bee_itoa (lf_count a - 1));
                       Some (a\<lparr>lf_index := lf_count a - 1\<rparr>, delete_file path fs)
                     }
                   else Some (a, fs));
                v \<leftarrow> sort_volumes (list_dir (lf_path a2) fs2);
                fs3 \<leftarrow> rename_volumes a2 v fs2;
                Some (a2, fs3)
              }
            else Some (a, fs));
         (a4, fs4) \<leftarrow> file_open False now (a1, fs1);
         Some (a4\<lparr>lf_index := lf_index a4 + 1\<rparr>, fs4)
       })"

definition NewLog :: "string \<Rightarrow> log_file \<times> files \<Rightarrow> (log_file \<times> files) option" where
  "NewLog now st =
     (case st of (a, fs) \<Rightarrow> if lf_count a > 0 then RollingVolumes now st else file_open False now (file_close a, fs))"

definition file_open_prefix :: "string \<Rightarrow> string \<Rightarrow> log_file \<times> files \<Rightarrow> (log_file \<times> files) option" where
  "file_open_prefix pre now st =
     (case st of (a, fs) \<Rightarrow>
       do {
         tag \<leftarrow> path_cat (lf_path a) (if pre \<noteq> [] then pre else ''log'');
         let a1 = a\<lparr>lf_tag := tag\<rparr>;
         if lf_count a1 > 0 then
           do {
             let a2 = a1\<lparr>lf_name := pre @ ''.log''\<rparr>;
             k \<leftarrow> GetMaxVolumeIndex (lf_path a2) (lf_name a2) fs;
             file_open True now (a2\<lparr>lf_index := (if k > lf_count a2 then lf_count a2 else k)\<rparr>, fs)
           }
         else file_open False now (a1, fs)
       })"

definition stream_write :: "string \<Rightarrow> log_file \<times> files \<Rightarrow> log_file \<times> files" where
  "stream_write log st =
     (case st of (a, fs) \<Rightarrow>
       case lf_stream a of
         None \<Rightarrow> (a, fs)
       | Some path \<Rightarrow> (a, case map_of fs path of None \<Rightarrow> fs | Some c \<Rightarrow> AList.update path (c @ line_text log) fs))"

text \<open>The counters are \<open>int32_t\<close>.\<close>

definition int32_fits :: "int \<Rightarrow> bool" where
  "int32_fits n \<longleftrightarrow> - (2 ^ 31) \<le> n \<and> n < 2 ^ 31"

definition file_append :: "string \<Rightarrow> string \<Rightarrow> log_file \<times> files \<Rightarrow> (log_file \<times> files) option" where
  "file_append now log st =
     (case st of (a, fs) \<Rightarrow>
       do {
         (a1, fs1) \<leftarrow>
           (if lf_count a > 0 then
              do {
                (b, gs) \<leftarrow>
                  (if lf_volume_size a > 0 \<and> lf_current a \<ge> lf_volume_size a
                   then do { (b, gs) \<leftarrow> NewLog now (a, fs); Some (b\<lparr>lf_current := 0\<rparr>, gs) } else Some (a, fs));
                let n = lf_current b + int (length (line_text log));
                if int32_fits n then Some (b\<lparr>lf_current := n\<rparr>, gs) else None
              }
            else
              (let n = lf_lines a + 1
               in if \<not> int32_fits n then None
                  else if n \<ge> lf_max_lines a
                  then do { (b, gs) \<leftarrow> NewLog now (a\<lparr>lf_lines := n\<rparr>, fs); Some (b\<lparr>lf_lines := 0\<rparr>, gs) }
                  else Some (a\<lparr>lf_lines := n\<rparr>, fs)));
         Some (stream_write log (a1, fs1))
       })"

section \<open>LoggerImpl\<close>

text \<open>The appenders of a build that is neither for Windows nor for Android.\<close>

datatype log_appender = Appender_Console | Appender_Net | Appender_Callback | Appender_File log_file

datatype log_effect = To_Console string | To_Net string | To_Callback string

text \<open>What the calls post to the logger's thread.\<close>

datatype log_task =
    Inner_Open string BeeLogLevel int int int string bool
  | Inner_Close
  | Inner_Append string

record logger =
  lg_service :: bool
  lg_opened :: bool
  lg_level :: BeeLogLevel
  lg_appenders :: "log_appender list"
  lg_tasks :: "log_task list"
  lg_files :: files
  lg_effects :: "log_effect list"

definition logger_start :: "files \<Rightarrow> logger" where
  "logger_start fs = \<lparr>lg_service = False, lg_opened = False, lg_level = kLogLevel_All, lg_appenders = [], lg_tasks = [],
     lg_files = fs, lg_effects = []\<rparr>"

definition file_appender :: "string \<Rightarrow> int \<Rightarrow> int \<Rightarrow> int \<Rightarrow> log_file option" where
  "file_appender path max_line volume_count volume_size =
     SetVolumeSize volume_size (SetVolumeCount volume_count (SetLogFileMaxLine max_line (SetLogFilePath path LogAppenderFile_new)))"

definition InnerOpen ::
    "string \<Rightarrow> string \<Rightarrow> BeeLogLevel \<Rightarrow> int \<Rightarrow> int \<Rightarrow> int \<Rightarrow> string \<Rightarrow> bool \<Rightarrow> logger \<Rightarrow> logger option" where
  "InnerOpen now path level max_line volume_count volume_size pre callback lg =
     (let lg1 = lg\<lparr>lg_level := level, lg_appenders := [Appender_Console, Appender_Net]\<rparr>
      in if callback then Some (lg1\<lparr>lg_appenders := lg_appenders lg1 @ [Appender_Callback]\<rparr>)
         else do {
           a \<leftarrow> file_appender path max_line volume_count volume_size;
           (b, fs) \<leftarrow> file_open_prefix pre now (a, lg_files lg1);
           Some (lg1\<lparr>lg_appenders := lg_appenders lg1 @ [Appender_File b], lg_files := fs\<rparr>)
         })"

text \<open>Closing an appender leaves nothing to see but a closed file, and it is dropped.\<close>

definition InnerClose :: "logger \<Rightarrow> logger" where
  "InnerClose lg = lg\<lparr>lg_appenders := []\<rparr>"

fun appender_append :: "string \<Rightarrow> string \<Rightarrow> log_appender \<Rightarrow> files \<Rightarrow> (log_appender \<times> files \<times> log_effect list) option" where
  "appender_append now log Appender_Console fs = Some (Appender_Console, fs, [To_Console (line_text log)])"
| "appender_append now log Appender_Net fs = Some (Appender_Net, fs, [To_Net log])"
| "appender_append now log Appender_Callback fs = Some (Appender_Callback, fs, [To_Callback (line_text log)])"
| "appender_append now log (Appender_File a) fs =
     do { (b, gs) \<leftarrow> file_append now log (a, fs); Some (Appender_File b, gs, []) }"

fun appenders_append :: "string \<Rightarrow> string \<Rightarrow> log_appender list \<Rightarrow> files \<Rightarrow> (log_appender list \<times> files \<times> log_effect list) option" where
  "appenders_append now log [] fs = Some ([], fs, [])"
| "appenders_append now log (x # xs) fs =
     do {
       (y, gs, e) \<leftarrow> appender_append now log x fs;
       (ys, hs, es) \<leftarrow> appenders_append now log xs gs;
       Some (y # ys, hs, e @ es)
     }"

definition InnerAppend :: "string \<Rightarrow> string \<Rightarrow> logger \<Rightarrow> logger option" where
  "InnerAppend now log lg =
     do {
       (xs, fs, es) \<leftarrow> appenders_append now log (lg_appenders lg) (lg_files lg);
       Some (lg\<lparr>lg_appenders := xs, lg_files := fs, lg_effects := lg_effects lg @ es\<rparr>)
     }"

fun run_task :: "string \<Rightarrow> log_task \<Rightarrow> logger \<Rightarrow> logger option" where
  "run_task now (Inner_Open path level max_line volume_count volume_size pre callback) lg =
     InnerOpen now path level max_line volume_count volume_size pre callback lg"
| "run_task now Inner_Close lg = Some (InnerClose lg)"
| "run_task now (Inner_Append log) lg = InnerAppend now log lg"

fun run_each :: "string \<Rightarrow> log_task list \<Rightarrow> logger \<Rightarrow> logger option" where
  "run_each now [] lg = Some lg"
| "run_each now (t # ts) lg = do { lg' \<leftarrow> run_task now t lg; run_each now ts lg' }"

text \<open>The thread catches up with what is posted, as far as a waiting caller needs it.\<close>

definition log_thread :: "string \<Rightarrow> logger \<Rightarrow> logger option" where
  "log_thread now lg = run_each now (lg_tasks lg) (lg\<lparr>lg_tasks := []\<rparr>)"

definition post_task :: "log_task \<Rightarrow> logger \<Rightarrow> logger" where
  "post_task t lg = lg\<lparr>lg_tasks := lg_tasks lg @ [t]\<rparr>"

definition LoggerImpl_Open ::
    "string \<Rightarrow> string \<Rightarrow> BeeLogLevel \<Rightarrow> int \<Rightarrow> int \<Rightarrow> int \<Rightarrow> string \<Rightarrow> bool \<Rightarrow> logger \<Rightarrow> logger option" where
  "LoggerImpl_Open now path level max_line volume_count volume_size pre callback lg =
     (if lg_opened lg then Some lg
      else do {
        lg1 \<leftarrow> log_thread now (post_task (Inner_Open path level max_line volume_count volume_size pre callback) (lg\<lparr>lg_service := True\<rparr>));
        Some (lg1\<lparr>lg_opened := True\<rparr>)
      })"

definition LoggerImpl_Close :: "string \<Rightarrow> logger \<Rightarrow> logger option" where
  "LoggerImpl_Close now lg =
     (if \<not> lg_opened lg then Some lg
      else do {
        lg1 \<leftarrow> log_thread now (post_task Inner_Close (lg\<lparr>lg_opened := False\<rparr>));
        Some (lg1\<lparr>lg_service := False\<rparr>)
      })"

definition LoggerImpl_Append :: "string \<Rightarrow> logger \<Rightarrow> logger" where
  "LoggerImpl_Append log lg = (if lg_opened lg then post_task (Inner_Append log) lg else lg)"

text \<open>A level's function at the logger's level, down to the posted line; \<open>Throws\<close> is the exception's text.\<close>

definition logger_print :: "BeeLogLevel \<Rightarrow> string \<Rightarrow> string \<Rightarrow> string \<Rightarrow> string option \<Rightarrow> logger \<Rightarrow> (log_line \<times> logger) option" where
  "logger_print level time tag tid text lg =
     do {
       l \<leftarrow> log_at (lg_level lg) level time tag tid text;
       Some (l, case l of Appends log \<Rightarrow> LoggerImpl_Append log lg | _ \<Rightarrow> lg)
     }"

end
