(* ===== verification/Bee_Lua_Functions.thy ===== *)
theory Bee_Lua_Functions
  imports Bee_Lua_Cache Bee_XXTEA Bee_Entrance Bee_Logger
begin

text \<open>
  The functions \<open>sdk_...\<close> that \<open>LuaEngine\<close> registers for scripts (src/lua/lua_engine.cpp) and the base64
  wrappers of utility/crypto.cpp they use. A function gives one value, nothing, or leaves through \<open>luaL_error\<close>;
  what it does to the service is an effect. The message is liblua's where \<open>BEE_TABLE\<close> is no table. \<open>None\<close> is undefined behaviour or a C++ exception that nothing catches.
\<close>

section \<open>Base64\<close>

text \<open>
  \<open>written\<close> is openssl's: what is in the memory behind the filter after writing and flushing, if flushing succeeds.
  The length is an \<open>unsigned int\<close>.
\<close>

definition base64_encode :: "(byte list \<Rightarrow> string option) \<Rightarrow> byte list \<Rightarrow> string" where
  "base64_encode written buffer =
     (let result = (case written (take (length buffer mod 2 ^ 32) buffer) of None \<Rightarrow> [] | Some text \<Rightarrow> text)
      in str_replace (str_replace result [CHR 0x0A] []) [CHR 0x0D] [])"

text \<open>
  \<open>bio_read\<close> is openssl's too: what reading through the filter gives, \<open>None\<close> for -1. That is not looked at: the text is
  made from -1 characters, which throws.
\<close>

definition base64_decode :: "(byte list \<Rightarrow> byte list option) \<Rightarrow> byte list \<Rightarrow> byte list option" where
  "base64_decode bio_read buffer = bio_read (take (length buffer mod 2 ^ 32) buffer)"

section \<open>The functions\<close>

datatype fun_value = Is_Bytes "byte list" | Is_Integer int | Is_Light nat

datatype fun_effect =
    Logs_Line log_line
  | Configures "entrance_effect list"
  | Notifies BeeService string

type_synonym fun_answer = "(fun_value lua_result \<times> fun_effect list) option"

text \<open>
  What a call finds: openssl, the clock, the logger's level with the texts of time and thread, the service, and what
  stands in the script's \<open>BEE_TABLE\<close>: \<open>None\<close> when that is no table, \<open>Some None\<close> when it holds no session.
  \<open>to_integer\<close>, \<open>numeral\<close> and \<open>truncated\<close> are liblua's reading of numbers: the integer a text stands for, whether it
  stands for a number (a float, which has no constructor of its own, is the text that stands for it), and the double
  \<open>lua_tonumber\<close> gives, cut at the point, \<open>None\<close> when it is infinite or no number. \<open>reach\<close> is how many bytes of the object
  a pointer points into stand before and after it.
\<close>

record script_env =
  se_written :: "byte list \<Rightarrow> string option"
  se_bio_read :: "byte list \<Rightarrow> byte list option"
  se_tick :: u64
  se_level :: BeeLogLevel
  se_time :: string
  se_tid :: string
  se_entrance :: BeeEntrance
  se_session :: "BeeSession option option"
  se_to_integer :: "string \<Rightarrow> int option"
  se_numeral :: "string \<Rightarrow> bool"
  se_truncated :: "lua_arg \<Rightarrow> int option"
  se_reach :: "nat \<Rightarrow> nat \<times> nat"

abbreviation fun_gives :: "fun_value \<Rightarrow> fun_answer" where
  "fun_gives v \<equiv> Some (Returns [v], [])"

abbreviation fun_raises :: "string \<Rightarrow> fun_answer" where
  "fun_raises e \<equiv> Some (Raises e, [])"

definition lua_isstring :: "lua_arg \<Rightarrow> bool" where
  "lua_isstring a \<longleftrightarrow> lua_text a \<noteq> None"

definition lua_isinteger :: "lua_arg \<Rightarrow> bool" where
  "lua_isinteger a \<longleftrightarrow> (case a of Arg_Integer _ \<Rightarrow> True | _ \<Rightarrow> False)"

definition lua_isnumber :: "(string \<Rightarrow> bool) \<Rightarrow> lua_arg \<Rightarrow> bool" where
  "lua_isnumber numeric a \<longleftrightarrow> (case a of Arg_Integer _ \<Rightarrow> True | Arg_Text t \<Rightarrow> numeric t | _ \<Rightarrow> False)"

text \<open>What stands behind the pointer \<open>lua_tostring\<close> gives: the text's bytes and a zero.\<close>

definition lua_memory :: "lua_arg \<Rightarrow> byte list" where
  "lua_memory a = lua_bytes a @ [0]"

text \<open>What is no level is a debug line; \<open>kLogLevel_All\<close> and above are no levels.\<close>

definition script_level :: "int \<Rightarrow> BeeLogLevel" where
  "script_level n =
     (if n < 0 \<or> 6 \<le> n then kLogLevel_Debug
      else [kLogLevel_Fatal, kLogLevel_Error, kLogLevel_Warn, kLogLevel_Trace, kLogLevel_Info, kLogLevel_Debug] ! nat n)"

definition lua_bee_log :: "script_env \<Rightarrow> lua_arg list \<Rightarrow> fun_answer" where
  "lua_bee_log env args =
     (case args of
        [level, source, line, log] \<Rightarrow>
          if \<not> lua_isstring log then fun_raises ''Stack pos -1 is not string.''
          else if \<not> lua_isinteger line then fun_raises ''Stack pos -2 is not int.''
          else if \<not> lua_isstring source then fun_raises ''Stack pos -3 is not string.''
          else if \<not> lua_isinteger level then fun_raises ''Stack pos -4 is not int.''
          else do {
            logged \<leftarrow> logger_log (se_level env) (script_level (int32_of (lua_tointeger (se_to_integer env) level)))
              (se_time env) ''lua'' (se_tid env) (the (lua_text source))
              (int32_of (lua_tointeger (se_to_integer env) line)) (Some (the (lua_text log) @ [CHR 0x0A]));
            (case logged of Throws _ \<Rightarrow> None | _ \<Rightarrow> Some (Returns [], [Logs_Line logged]))
          }
      | _ \<Rightarrow> fun_raises ''Invalid args.'')"

definition lua_get_tick_count32 :: "script_env \<Rightarrow> fun_answer" where
  "lua_get_tick_count32 env = fun_gives (Is_Integer (int32_of (uint (se_tick env) mod 2 ^ 32)))"

definition lua_xxtea_encrypt :: "lua_arg list \<Rightarrow> fun_answer" where
  "lua_xxtea_encrypt args =
     (case args of
        [key, input] \<Rightarrow>
          if \<not> lua_isstring key then fun_raises ''Encrypt key NULL.''
          else if lua_bytes input = [] then fun_raises ''Encrypt input NULL.''
          else do {
            result \<leftarrow> xxtea_encrypt (lua_bytes input) (lua_memory key);
            (case result of
               None \<Rightarrow> fun_raises ''Encrypt output NULL.''
             | Some out \<Rightarrow> if out = [] then fun_raises ''Encrypt output NULL.'' else fun_gives (Is_Bytes out))
          }
      | _ \<Rightarrow> fun_raises ''Invalid args.'')"

definition lua_xxtea_decrypt :: "lua_arg list \<Rightarrow> fun_answer" where
  "lua_xxtea_decrypt args =
     (case args of
        [key, input] \<Rightarrow>
          if \<not> lua_isstring key then fun_raises ''Decrypt key NULL.''
          else if lua_bytes input = [] then fun_raises ''Decrypt input NULL.''
          else do {
            result \<leftarrow> xxtea_decrypt (lua_bytes input) (lua_memory key);
            (case result of
               None \<Rightarrow> fun_raises ''Decrypt output NULL.''
             | Some out \<Rightarrow> if out = [] then fun_raises ''Decrypt output NULL.'' else fun_gives (Is_Bytes out))
          }
      | _ \<Rightarrow> fun_raises ''Invalid args.'')"

definition lua_base64_encode :: "script_env \<Rightarrow> lua_arg list \<Rightarrow> fun_answer" where
  "lua_base64_encode env args =
     (case args of
        [input] \<Rightarrow>
          if lua_bytes input = [] then fun_raises ''Base64 encode input NULL.''
          else (let out = base64_encode (se_written env) (lua_bytes input)
                in if out = [] then fun_raises ''Base64 encode output empty.'' else fun_gives (Is_Bytes (map of_char out)))
      | _ \<Rightarrow> fun_raises ''Invalid args.'')"

definition lua_base64_decode :: "script_env \<Rightarrow> lua_arg list \<Rightarrow> fun_answer" where
  "lua_base64_decode env args =
     (case args of
        [input] \<Rightarrow>
          if lua_bytes input = [] then fun_raises ''Base64 decode input NULL.''
          else do {
            out \<leftarrow> base64_decode (se_bio_read env) (lua_bytes input);
            if out = [] then fun_raises ''Base64 decode output empty.'' else fun_gives (Is_Bytes out)
          }
      | _ \<Rightarrow> fun_raises ''Invalid args.'')"

text \<open>The arguments of \<open>lua_url_encode\<close>; its loop is that of the engine.\<close>

definition lua_url_encode_args :: "lua_arg list \<Rightarrow> fun_answer" where
  "lua_url_encode_args args =
     (case args of
        [input] \<Rightarrow>
          if lua_bytes input = [] then fun_raises ''Url encode input NULL.''
          else map_option (\<lambda>out. (Returns [Is_Bytes (map of_char out)], []))
            (lua_url_encode (case input of Arg_Text s \<Rightarrow> s | Arg_Integer n \<Rightarrow> show_int n | _ \<Rightarrow> []))
      | _ \<Rightarrow> fun_raises ''Invalid args.'')"

text \<open>The pointer is moved by an \<open>int32_t\<close>, which is undefined if it leaves the object it points into.\<close>

definition lua_forward_pointer :: "script_env \<Rightarrow> lua_arg list \<Rightarrow> fun_answer" where
  "lua_forward_pointer env args =
     (case args of
        [Arg_Light p, Arg_Integer n] \<Rightarrow>
          (let (before, after) = se_reach env p
           in if - int before \<le> int32_of n \<and> int32_of n \<le> int after
              then fun_gives (Is_Light (nat ((int p + int32_of n) mod 2 ^ 64))) else None)
      | [_, _] \<Rightarrow> fun_raises ''Wrong param data type.''
      | _ \<Rightarrow> fun_raises ''Invalid args.'')"

text \<open>\<open>(TimeType)lua_tonumber(...)\<close>: a double is made a \<open>uint64_t\<close>, which is undefined if, cut at the point, it is none.\<close>

definition time_type_of :: "int option \<Rightarrow> u64 option" where
  "time_type_of v = (case v of None \<Rightarrow> None | Some n \<Rightarrow> if 0 \<le> n \<and> n < 2 ^ 64 then Some (word_of_int n) else None)"

definition lua_configure_net_log :: "script_env \<Rightarrow> lua_arg list \<Rightarrow> fun_answer" where
  "lua_configure_net_log env args =
     (case args of
        [level, time_base] \<Rightarrow>
          if \<not> lua_isnumber (se_numeral env) level \<or> \<not> lua_isnumber (se_numeral env) time_base
          then fun_raises ''Wrong param data type.''
          else do {
            t \<leftarrow> time_type_of (se_truncated env time_base);
            Some (Returns [], [Configures (configure_net_log (int32_of (lua_tointeger (se_to_integer env) level)) t (se_entrance env))])
          }
      | _ \<Rightarrow> fun_raises ''Invalid args.'')"

definition lua_svc_notify :: "script_env \<Rightarrow> lua_arg list \<Rightarrow> fun_answer" where
  "lua_svc_notify env args =
     (case args of
        [code, data] \<Rightarrow>
          if \<not> lua_isinteger code \<or> \<not> lua_isstring data then fun_raises ''Wrong param data type.''
          else if lua_bytes data = [] then fun_raises ''Data NULL.''
          else (case se_session env of
                  None \<Rightarrow> fun_raises ''attempt to index''
                | Some None \<Rightarrow> Some (Returns [], [])
                | Some (Some s) \<Rightarrow>
                    Some (Returns [],
                      case session_on_svc_notify (int32_of (lua_tointeger (se_to_integer env) code))
                          (case data of Arg_Text t \<Rightarrow> Some t | _ \<Rightarrow> lua_text data) s of
                        None \<Rightarrow> []
                      | Some (svc, text) \<Rightarrow> [Notifies svc text]))
      | _ \<Rightarrow> fun_raises ''Invalid args.'')"

text \<open>The functions by the names \<open>register_function\<close> gives them. A name that is not registered is \<open>None\<close> too.\<close>

definition engine_call :: "script_env \<Rightarrow> string \<Rightarrow> lua_arg list \<Rightarrow> fun_answer" where
  "engine_call env name args =
     (if name = ''sdk_BeeLog'' then lua_bee_log env args
      else if name = ''sdk_GetTickGount32'' then lua_get_tick_count32 env
      else if name = ''sdk_xxteaEncrypt'' then lua_xxtea_encrypt args
      else if name = ''sdk_xxteaDecrypt'' then lua_xxtea_decrypt args
      else if name = ''sdk_Base64Encode'' then lua_base64_encode env args
      else if name = ''sdk_Base64Decode'' then lua_base64_decode env args
      else if name = ''sdk_UrlEncode'' then lua_url_encode_args args
      else if name = ''sdk_ForwardPointer'' then lua_forward_pointer env args
      else if name = ''sdk_ConfigureNetLog'' then lua_configure_net_log env args
      else if name = ''sdk_SvcNotify'' then lua_svc_notify env args
      else None)"

section \<open>Replacing\<close>

lemma replace_from_char: "replace_from [c] [] s = filter (\<lambda>x. x \<noteq> c) s"
proof (induction "length s" arbitrary: s rule: less_induct)
  case less
  show ?case
  proof (cases "c \<in> set s")
    case False
    then have "filter (\<lambda>x. x \<noteq> c) s = s" by (intro filter_True) auto
    with False show ?thesis by (subst replace_from.simps) (simp add: find_sub_char_notin)
  next
    case True
    then obtain xs ys where s: "s = xs @ c # ys" "c \<notin> set xs" by (meson split_list_first)
    then have "replace_from [c] [] s = xs @ replace_from [c] [] ys"
      by (subst replace_from.simps) (simp add: find_sub_char_append)
    also have "replace_from [c] [] ys = filter (\<lambda>x. x \<noteq> c) ys" using s(1) by (intro less) simp
    also have "xs = filter (\<lambda>x. x \<noteq> c) xs" using s(2) by (intro filter_True [symmetric]) auto
    finally show ?thesis using s(1) by simp
  qed
qed

lemma str_replace_char: "str_replace s [c] [] = filter (\<lambda>x. x \<noteq> c) s"
  by (simp add: str_replace_def replace_from_char)

text \<open>So the encoding is openssl's without its line ends.\<close>

lemma base64_encode_one_line:
  assumes "length bs < 2 ^ 32" and "written bs = Some t"
  shows "base64_encode written bs = filter (\<lambda>c. c \<noteq> CHR 0x0A \<and> c \<noteq> CHR 0x0D) t"
  using assms by (simp add: base64_encode_def str_replace_char)

section \<open>What scripts can rely on\<close>

definition text_of_bytes :: "byte list \<Rightarrow> string" where
  "text_of_bytes bs = map (\<lambda>b. char_of (unat b)) bs"

lemma bytes_of_text_of_bytes [simp]: "map of_char (text_of_bytes bs) = bs"
  by (simp add: text_of_bytes_def comp_def)

lemma lua_isstring_text [simp]: "lua_isstring (Arg_Text s)"
  by (simp add: lua_isstring_def)

lemma key_is_read:
  "15 \<le> length k \<Longrightarrow> \<exists>fk. fixed_key (lua_memory (Arg_Text k)) = Some fk"
  "length k < 15 \<Longrightarrow> fixed_key (lua_memory (Arg_Text k)) = None"
  by (simp_all add: fixed_key_def lua_memory_def Let_def)

text \<open>
  What a script encrypts it decrypts, whatever the bytes, under any key of at least 15 characters.
\<close>

theorem script_cipher_roundtrip:
  assumes "15 \<le> length key" and "s \<noteq> []" and "length s < 2 ^ 32 - 4"
  shows "\<exists>c. engine_call env ''sdk_xxteaEncrypt'' [Arg_Text key, Arg_Text s] = fun_gives (Is_Bytes c)
    \<and> engine_call env ''sdk_xxteaDecrypt'' [Arg_Text key, Arg_Text (text_of_bytes c)] = fun_gives (Is_Bytes (map of_char s))"
proof -
  from key_is_read(1) [OF assms(1)] obtain k where k: "fixed_key (lua_memory (Arg_Text key)) = Some k" by blast
  from xxtea_ubyte_roundtrip [of "map of_char s" k] assms(2,3) obtain c where
    "xxtea_ubyte_encrypt (map of_char s) k = Some c" "c \<noteq> []" "xxtea_ubyte_decrypt c k = Some (Some (map of_char s))" by auto
  with k assms(2) show ?thesis
    by (simp add: engine_call_def lua_xxtea_encrypt_def lua_xxtea_decrypt_def xxtea_encrypt_def xxtea_decrypt_def)
qed

text \<open>A shorter key makes both read behind it.\<close>

theorem short_key_overreads:
  assumes "length key < 15" and "s \<noteq> []"
  shows "engine_call env ''sdk_xxteaEncrypt'' [Arg_Text key, Arg_Text s] = None
    \<and> engine_call env ''sdk_xxteaDecrypt'' [Arg_Text key, Arg_Text s] = None"
  using assms key_is_read(2) [OF assms(1)]
  by (simp add: engine_call_def lua_xxtea_encrypt_def lua_xxtea_decrypt_def xxtea_encrypt_def xxtea_decrypt_def)

text \<open>
  \<open>sdk_SvcNotify\<close> hands a script's text, zeros and all, to the service that is registered for the code in the
  script's own session, and to nobody when there is none.
\<close>

theorem notification_reaches_its_service:
  assumes "0 \<le> code" and "code < 2 ^ 31" and "data \<noteq> []" and "se_session env = Some (Some s)"
  shows "engine_call env ''sdk_SvcNotify'' [Arg_Integer code, Arg_Text data]
    = Some (Returns [], case map_of (services s) code of None \<Rightarrow> [] | Some svc \<Rightarrow> [Notifies svc data])"
  using assms int32_of_small [of code]
  by (simp add: engine_call_def lua_svc_notify_def lua_isinteger_def session_on_svc_notify_def split: option.split)

text \<open>
  Base64 round trip for scripts. If openssl's decoder understands what its encoder has written, without the line
  ends, a script gets back what it has encoded.
\<close>

theorem script_base64_roundtrip:
  assumes "s \<noteq> []" and "length s < 2 ^ 32" and "se_written env (map of_char s) = Some t"
    and "filter (\<lambda>c. c \<noteq> CHR 0x0A \<and> c \<noteq> CHR 0x0D) t = line" and "line \<noteq> []" and "length line < 2 ^ 32"
    and "se_bio_read env (map of_char line) = Some (map of_char s)"
  shows "engine_call env ''sdk_Base64Encode'' [Arg_Text s] = fun_gives (Is_Bytes (map of_char line))
    \<and> engine_call env ''sdk_Base64Decode'' [Arg_Text line] = fun_gives (Is_Bytes (map of_char s))"
  using assms base64_encode_one_line [of "map of_char s" "se_written env" t]
  by (simp add: engine_call_def lua_base64_encode_def lua_base64_decode_def base64_decode_def)

definition registered_functions :: "string set" where
  "registered_functions = {''sdk_BeeLog'', ''sdk_GetTickGount32'', ''sdk_xxteaEncrypt'', ''sdk_xxteaDecrypt'', ''sdk_Base64Encode'',
     ''sdk_Base64Decode'', ''sdk_UrlEncode'', ''sdk_ForwardPointer'', ''sdk_ConfigureNetLog'', ''sdk_SvcNotify''}"

definition script_careful :: "script_env \<Rightarrow> string \<Rightarrow> lua_arg list \<Rightarrow> bool" where
  "script_careful env name args \<longleftrightarrow>
     (name \<in> {''sdk_xxteaEncrypt'', ''sdk_xxteaDecrypt''} \<longrightarrow> 15 \<le> length (lua_bytes (hd args)))
     \<and> (name = ''sdk_Base64Decode'' \<longrightarrow> se_bio_read env (take (length (lua_bytes (hd args)) mod 2 ^ 32) (lua_bytes (hd args))) \<noteq> None)
     \<and> (name = ''sdk_UrlEncode'' \<longrightarrow> \<not> list_all must_encode (case hd args of Arg_Text s \<Rightarrow> s | Arg_Integer n \<Rightarrow> show_int n | _ \<Rightarrow> []))
     \<and> (name = ''sdk_BeeLog'' \<and> length args = 4 \<longrightarrow>
          length (log_prefix (se_time env) ''lua'' (script_level (int32_of (lua_tointeger (se_to_integer env) (args ! 0)))) (se_tid env)
            (Some (the (lua_text (args ! 1)) @ '':'' @ show_int (int32_of (lua_tointeger (se_to_integer env) (args ! 2)))))) < 1024)
     \<and> (name = ''sdk_ForwardPointer'' \<longrightarrow> (\<forall>p n. args = [Arg_Light p, Arg_Integer n]
          \<longrightarrow> - int (fst (se_reach env p)) \<le> int32_of n \<and> int32_of n \<le> int (snd (se_reach env p))))
     \<and> (name = ''sdk_ConfigureNetLog'' \<and> length args = 2 \<longrightarrow> time_type_of (se_truncated env (args ! 1)) \<noteq> None)"

lemma script_level_known: "script_level n \<notin> {kLogLevel_All, kLogLevel_Count}"
proof -
  have "nat n \<in> {0, 1, 2, 3, 4, 5}" if "0 \<le> n" "n < 6" using that by auto
  then show ?thesis by (auto simp: script_level_def)
qed

lemma script_line_logged:
  assumes "length (log_prefix time tag (script_level n) tid (Some (source @ '':'' @ show_int line))) < 1024"
  shows "\<exists>l. logger_log current (script_level n) time tag tid source line (Some text) = Some l \<and> (\<forall>e. l \<noteq> Throws e)"
proof -
  have "script_level n \<in> {kLogLevel_Fatal, kLogLevel_Error, kLogLevel_Warn, kLogLevel_Trace, kLogLevel_Info, kLogLevel_Debug}"
    using script_level_known [of n] by (cases "script_level n") auto
  then have "(if script_level n \<in> {kLogLevel_Fatal, kLogLevel_Error, kLogLevel_Warn, kLogLevel_Trace, kLogLevel_Info}
      then script_level n else kLogLevel_Debug) = script_level n" by auto
  then show ?thesis using assms unfolding logger_log_def Let_def by (auto simp: format_line_def)
qed

lemma careful_cipher:
  assumes "15 \<le> length (lua_bytes key)"
  shows "\<exists>k. fixed_key (lua_memory key) = Some k"
  using assms by (simp add: fixed_key_def lua_memory_def Let_def)

lemma xxtea_ubyte_decrypt_total: "xxtea_ubyte_decrypt data k \<noteq> None"
  using xxtea_uint_decrypt_total by (auto simp: xxtea_ubyte_decrypt_def)


text \<open>A time before the epoch is enough to make the configuration of the net log undefined.\<close>

lemma negative_time_undefined:
  assumes "se_truncated env (Arg_Integer t) = Some t" and "t < 0"
  shows "engine_call env ''sdk_ConfigureNetLog'' [Arg_Integer level, Arg_Integer t] = None"
  using assms by (simp add: engine_call_def lua_configure_net_log_def lua_isnumber_def time_type_of_def)

section \<open>Instances\<close>

text \<open>An encoding of a letter for each half of a byte, in lines of two letters.\<close>

definition demo_written :: "byte list \<Rightarrow> string option" where
  "demo_written bs = Some (concat (map (\<lambda>b. [char_of (65 + unat b div 16), char_of (65 + unat b mod 16), CHR 0x0A]) bs))"

fun demo_bio_read :: "byte list \<Rightarrow> byte list option" where
  "demo_bio_read (a # b # bs) = map_option ((#) ((a - 65) * 16 + (b - 65))) (demo_bio_read bs)"
| "demo_bio_read [] = Some []"
| "demo_bio_read _ = None"

definition demo_script_env :: script_env where
  "demo_script_env = \<lparr>se_written = demo_written, se_bio_read = demo_bio_read, se_tick = 5, se_level = kLogLevel_Debug, se_time = ''t'',
     se_tid = ''1'', se_entrance = BeeEntrance_new [], se_session = Some (Some (demo_session\<lparr>services := [(9, \<lparr>svc_handle = 0, svc_id = 9\<rparr>)]\<rparr>)),
     se_to_integer = (\<lambda>_. None), se_numeral = (\<lambda>_. False),
     se_truncated = (\<lambda>a. case a of Arg_Integer n \<Rightarrow> Some n | _ \<Rightarrow> None), se_reach = (\<lambda>_. (0, 0))\<rparr>"

theorem script_cipher_roundtrip_witness:
  "\<exists>c. engine_call demo_script_env ''sdk_xxteaEncrypt'' [Arg_Text ''0123456789abcde'', Arg_Text ''text''] = fun_gives (Is_Bytes c)
    \<and> engine_call demo_script_env ''sdk_xxteaDecrypt'' [Arg_Text ''0123456789abcde'', Arg_Text (text_of_bytes c)]
        = fun_gives (Is_Bytes [116, 101, 120, 116])"
  using script_cipher_roundtrip [of "''0123456789abcde''" "''text''" demo_script_env] by simp

theorem short_key_overreads_witness:
  "engine_call demo_script_env ''sdk_xxteaEncrypt'' [Arg_Text ''key'', Arg_Text ''text''] = None"
  using short_key_overreads [of "''key''" "''text''" demo_script_env] by simp

theorem notification_reaches_its_service_witness:
  "engine_call demo_script_env ''sdk_SvcNotify'' [Arg_Integer 9, Arg_Text ''news'']
    = Some (Returns [], [Notifies \<lparr>svc_handle = 0, svc_id = 9\<rparr> ''news''])"
  using notification_reaches_its_service [of 9 "''news''" demo_script_env] by (simp add: demo_script_env_def)

lemma demo_written_no: "demo_written (map of_char ''no'') = Some (''GO'' @ [CHR 0x0A] @ ''GP'' @ [CHR 0x0A])"
  by code_simp

theorem script_base64_roundtrip_witness:
  "engine_call demo_script_env ''sdk_Base64Encode'' [Arg_Text ''no''] = fun_gives (Is_Bytes (map of_char ''GOGP''))
    \<and> engine_call demo_script_env ''sdk_Base64Decode'' [Arg_Text ''GOGP''] = fun_gives (Is_Bytes (map of_char ''no''))"
proof -
  have "se_written demo_script_env (map of_char ''no'') = Some (''GO'' @ [CHR 0x0A] @ ''GP'' @ [CHR 0x0A])"
    unfolding demo_written_no [symmetric] by (simp add: demo_script_env_def)
  from script_base64_roundtrip [OF _ _ this, of "''GOGP''"] show ?thesis by (simp add: demo_script_env_def)
qed


end
