(* ===== verification/Bee_Lua_Http.thy ===== *)
theory Bee_Lua_Http
  imports Bee_Http_Reader Bee_Http_Session
begin

text \<open>
  A script's HTTP session (src/lua/module/lua_http_session.cpp): \<open>get\<close> and \<open>async_get\<close>, the methods by which
  the session's machine consults the script, and how the script is answered.

  The machine under it is the flow of \<open>Bee_Http_Session\<close>, which the asynchronous machine is shown to
  implement for every client; here the client is the script's session. A script is what its callbacks
  answer and the calls it makes on the session while it runs: the record \<open>http_env\<close> of a step. \<open>None\<close> is
  a null pointer. Logging is left out, and so is the binding of errors to texts.
\<close>

section \<open>State\<close>

text \<open>\<open>push_response\<close>: what is on the coroutine's stack, the header and the body only when there are some.\<close>

record lua_response =
  lr_ec1 :: BeeErrorCode
  lr_ec2 :: error_code
  lr_status_code :: nat
  lr_http_time :: int
  lr_http_header :: header_map
  lr_http_body :: "char option list"

datatype 'ep callback_args = Args_Of "'ep http_notice" | Args_Response lua_response

text \<open>How a coroutine comes back from \<open>lua_resume\<close>.\<close>

datatype callback_end = Cb_Returns "lua_arg list" | Cb_Yields | Cb_Error

text \<open>What a script asks for; \<open>gp_timeout\<close> is read from its options and goes nowhere.\<close>

record get_param =
  gp_url :: string
  gp_manual :: bool
  gp_one_off :: bool
  gp_ref_url :: string
  gp_range_start :: int
  gp_range_end :: int
  gp_timeout :: int

text \<open>
  The calls of a script; \<open>ok\<close> is whether the request's URL can be asked for and its socket set up.
\<close>

datatype http_call =
    Call_Get "nat option" "nat option" get_param bool
  | Call_Async_Get "nat option" int get_param bool
  | Call_Read "nat option" "byte option list option" nat int
  | Call_Scanf "nat option" "DataField list" nat
  | Call_Set_Callback LuaHttpCallbackType int
  | Call_Close

record 'ep http_env =
  he_time :: int
  he_callback :: "int \<Rightarrow> 'ep callback_args \<Rightarrow> callback_end \<times> http_call list"
  he_coroutine :: "nat \<Rightarrow> lua_response \<Rightarrow> http_call list"

datatype 'ep http_effect =
    Request string string int int
  | Run_Callback LuaHttpCallbackType int "'ep callback_args"
  | Run_Get_Callback int lua_response
  | Resume_Get nat lua_response
  | Read_Effect reading_effect
  | Machine_Ends BeeErrorCode

text \<open>
  The session, the members of the TCP machine, \<open>ios_\<close>, the machine (activated for good by the first
  request; uninstalled by \<open>stop\<close>; the phase whose state is posted or at work), and the posted closes.
\<close>

record http_world =
  hw_s :: lua_http
  hw_tcp :: tcp_members
  hw_ios :: bool
  hw_activated :: bool
  hw_installed :: bool
  hw_phase :: "http_phase option"
  hw_closes :: nat

definition http_world_new :: "bool \<Rightarrow> bool \<Rightarrow> http_world" where
  "http_world_new ios loaded = \<lparr>hw_s = LuaHttpSession_new, hw_tcp = TcpStateMachine_new loaded, hw_ios = ios,
     hw_activated = False, hw_installed = True, hw_phase = None, hw_closes = 0\<rparr>"

section \<open>Calls of the script\<close>

text \<open>
  What \<open>request\<close> answers: the machine can be activated once. It is given the URL, the referring URL and
  the range.
\<close>

definition start_request :: "string \<Rightarrow> string \<Rightarrow> int \<Rightarrow> int \<Rightarrow> bool \<Rightarrow> http_world \<Rightarrow> bool \<times> 'ep http_effect list \<times> http_world" where
  "start_request url ref_url range_start range_end ok w =
     (if ok \<and> hw_ios w \<and> \<not> hw_activated w
      then (True, [Request url ref_url range_start range_end], w\<lparr>hw_activated := True, hw_phase := Some Resolving\<rparr>)
      else (False, [Request url ref_url range_start range_end], w))"

definition session_get ::
    "nat option \<Rightarrow> nat option \<Rightarrow> get_param \<Rightarrow> bool \<Rightarrow> http_world \<Rightarrow> BeeErrorCode \<times> 'ep http_effect list \<times> http_world" where
  "session_get main co p ok w =
     (if main = None \<or> co = None then (kBeeErrorCode_Invalid_Param, [], w)
      else if lh_main (hw_s w) \<noteq> None then (kBeeErrorCode_Invalid_State, [], w)
      else
        (let s = (hw_s w)\<lparr>lh_main := main, lh_co := co, lh_manual_read_body := gp_manual p, lh_one_off := gp_one_off p\<rparr>;
             (ret, es, w1) = start_request (gp_url p) (gp_ref_url p) (gp_range_start p) (gp_range_end p) ok (w\<lparr>hw_s := s\<rparr>)
         in if \<not> ret then (kBeeErrorCode_Error_State_Machine, es, w1)
            else (kBeeErrorCode_Success, es, w1\<lparr>hw_s := (hw_s w1)\<lparr>lh_yielding := True\<rparr>\<rparr>)))"

definition session_async_get ::
    "nat option \<Rightarrow> int \<Rightarrow> get_param \<Rightarrow> bool \<Rightarrow> http_world \<Rightarrow> BeeErrorCode \<times> 'ep http_effect list \<times> http_world" where
  "session_async_get main callback p ok w =
     (if main = None \<or> callback = LUA_REFNIL then (kBeeErrorCode_Invalid_Param, [], w)
      else if lh_main (hw_s w) \<noteq> None then (kBeeErrorCode_Invalid_State, [], w)
      else
        (let s = (hw_s w)\<lparr>lh_main := main, lh_get_callback := callback, lh_manual_read_body := gp_manual p,
                   lh_one_off := gp_one_off p\<rparr>;
             (ret, es, w1) = start_request (gp_url p) (gp_ref_url p) (gp_range_start p) (gp_range_end p) ok (w\<lparr>hw_s := s\<rparr>)
         in (if \<not> ret then kBeeErrorCode_Error_State_Machine else kBeeErrorCode_Success, es, w1)))"

definition set_lua_callback :: "LuaHttpCallbackType \<Rightarrow> int \<Rightarrow> lua_http \<Rightarrow> lua_http" where
  "set_lua_callback type callback s = s\<lparr>lh_callbacks := (lh_callbacks s)(type := callback)\<rparr>"

text \<open>\<open>TcpStateMachine::stop\<close> does nothing before the machine is connected.\<close>

definition hw_stop :: "http_world \<Rightarrow> http_world" where
  "hw_stop w =
     (let t = hw_tcp w
      in if \<not> connected t then w
         else w\<lparr>hw_tcp := (if \<not> is_tls t then t\<lparr>sock := False\<rparr> else t\<lparr>tls_sock := False\<rparr>)
                  \<lparr>qwiobuff := [], cwiobuff := iob_clear (cwiobuff t), criobuff := iob_clear (criobuff t), connected := False\<rparr>,
                hw_ios := False, hw_installed := False\<rparr>)"

definition http_close :: "http_world \<Rightarrow> http_world" where
  "http_close w = hw_stop (w\<lparr>hw_s := (hw_s w)\<lparr>lh_reader := None, lh_main := None, lh_co := None\<rparr>\<rparr>)"

fun run_call :: "http_call \<Rightarrow> http_world \<Rightarrow> BeeErrorCode \<times> 'ep http_effect list \<times> http_world" where
  "run_call (Call_Get main co p ok) w = session_get main co p ok w"
| "run_call (Call_Async_Get main callback p ok) w = session_async_get main callback p ok w"
| "run_call (Call_Read co buff len cond) w =
     (let (ret, es, s, t) = session_read (hw_ios w) co buff len cond (hw_s w, hw_tcp w)
      in (ret, map Read_Effect es, w\<lparr>hw_s := s, hw_tcp := t\<rparr>))"
| "run_call (Call_Scanf co format total_size) w =
     (let (ret, es, s, t) = session_scanf (hw_ios w) co format total_size (hw_s w, hw_tcp w)
      in (ret, map Read_Effect es, w\<lparr>hw_s := s, hw_tcp := t\<rparr>))"
| "run_call (Call_Set_Callback type callback) w =
     (kBeeErrorCode_Success, [], w\<lparr>hw_s := set_lua_callback type callback (hw_s w)\<rparr>)"
| "run_call Call_Close w = (kBeeErrorCode_Success, [], http_close w)"

fun run_calls :: "http_call list \<Rightarrow> http_world \<Rightarrow> 'ep http_effect list \<times> http_world" where
  "run_calls [] w = ([], w)"
| "run_calls (c # cs) w = (let (ret, es, w1) = run_call c w; (es', w2) = run_calls cs w1 in (es @ es', w2))"

section \<open>Answering the script\<close>

definition push_response ::
    "'ep http_env \<Rightarrow> BeeErrorCode \<Rightarrow> error_code \<Rightarrow> header_map \<Rightarrow> char option list \<Rightarrow> lua_http \<Rightarrow> lua_response" where
  "push_response env ec1 ec2 headers body s = \<lparr>lr_ec1 = ec1, lr_ec2 = ec2, lr_status_code = lh_status_code s,
     lr_http_time = he_time env, lr_http_header = headers, lr_http_body = body\<rparr>"

definition report_async_get_result ::
    "'ep http_env \<Rightarrow> BeeErrorCode \<Rightarrow> error_code \<Rightarrow> char option list \<Rightarrow> http_world \<Rightarrow> 'ep http_effect list \<times> http_world" where
  "report_async_get_result env ec1 ec2 body w =
     (let s = hw_s w
      in if lh_main s = None \<or> lh_get_callback s = LUA_REFNIL then ([], w)
         else
           (let r = push_response env ec1 ec2 (lh_header_table s) body s;
                (es, w1) = run_calls (snd (he_callback env (lh_get_callback s) (Args_Response r))) w
            in (Run_Get_Callback (lh_get_callback s) r # es, w1)))"

definition http_resume ::
    "'ep http_env \<Rightarrow> BeeErrorCode \<Rightarrow> error_code \<Rightarrow> char option list \<Rightarrow> http_world \<Rightarrow> 'ep http_effect list \<times> http_world" where
  "http_resume env ec1 ec2 body w =
     (let s = hw_s w
      in case lh_co s of
           None \<Rightarrow> ([], w)
         | Some co \<Rightarrow>
             if lh_main s = None \<or> \<not> lh_yielding s \<or> lh_resumed s then ([], w)
             else
               (let r = push_response env ec1 ec2 (lh_header_table s) body s;
                    (es, w1) = run_calls (he_coroutine env co r) (w\<lparr>hw_s := s\<lparr>lh_resumed := True, lh_yielding := False\<rparr>\<rparr>)
                in (Resume_Get co r # es, w1)))"

definition http_report ::
    "'ep http_env \<Rightarrow> BeeErrorCode \<Rightarrow> error_code \<Rightarrow> char option list \<Rightarrow> http_world \<Rightarrow> 'ep http_effect list \<times> http_world" where
  "http_report env ec1 ec2 body w =
     (if lh_get_callback (hw_s w) \<noteq> LUA_REFNIL then report_async_get_result env ec1 ec2 body w
      else http_resume env ec1 ec2 body w)"

text \<open>Closing is posted to the event loop, when there still is one.\<close>

definition post_close :: "http_world \<Rightarrow> http_world" where
  "post_close w = (if lh_one_off (hw_s w) \<and> hw_ios w then w\<lparr>hw_closes := hw_closes w + 1\<rparr> else w)"

definition lua_http_output :: "'ep http_env \<Rightarrow> BeeErrorCode \<Rightarrow> error_code \<Rightarrow> http_world \<Rightarrow> 'ep http_effect list \<times> http_world" where
  "lua_http_output env ec1 ec2 w =
     (if ec1 = kBeeErrorCode_Success \<or> ec1 = kBeeErrorCode_State_Machine_Finished then ([], w)
      else (let (es, w1) = http_report env ec1 ec2 [] w in (es, post_close w1)))"

section \<open>Consulting the script\<close>

fun lua_truth :: "lua_arg \<Rightarrow> bool" where
  "lua_truth Arg_Nil = False"
| "lua_truth (Arg_Boolean b) = b"
| "lua_truth _ = True"

text \<open>Only a single value that is false rejects; what yields or answers anything else accepts.\<close>

fun callback_code :: "callback_end \<Rightarrow> BeeErrorCode" where
  "callback_code (Cb_Returns [v]) = (if lua_truth v then kBeeErrorCode_Success else kBeeErrorCode_Engine_Reject)"
| "callback_code (Cb_Returns _) = kBeeErrorCode_Success"
| "callback_code Cb_Yields = kBeeErrorCode_Success"
| "callback_code Cb_Error = kBeeErrorCode_Engine_Script_Error"

text \<open>The stack of \<open>main_\<close> is popped after the callback, which may have closed the session: \<open>None\<close>.\<close>

definition call_back ::
    "'ep http_env \<Rightarrow> LuaHttpCallbackType \<Rightarrow> 'ep callback_args \<Rightarrow> http_world \<Rightarrow> (BeeErrorCode \<times> 'ep http_effect list \<times> http_world) option" where
  "call_back env type args w =
     (let callback = lh_callbacks (hw_s w) type;
          (ending, calls) = he_callback env callback args;
          (es, w1) = run_calls calls w
      in if lh_main (hw_s w1) = None then None
         else Some (callback_code ending, Run_Callback type callback args # es, w1))"

text \<open>\<open>handle_resolve\<close>, \<open>handle_connect\<close>, \<open>handle_send\<close> and \<open>handle_redirect\<close> differ in what they push.\<close>

definition ask_script ::
    "'ep http_env \<Rightarrow> LuaHttpCallbackType \<Rightarrow> 'ep http_notice \<Rightarrow> http_world \<Rightarrow> (BeeErrorCode \<times> 'ep http_effect list \<times> http_world) option" where
  "ask_script env type notice w =
     (if lh_main (hw_s w) = None then Some (kBeeErrorCode_Engine_Internal_Error, [], w)
      else if lh_callbacks (hw_s w) type = LUA_REFNIL then Some (kBeeErrorCode_Success, [], w)
      else call_back env type (Args_Of notice) w)"

definition lua_handle_resolve ::
    "'ep http_env \<Rightarrow> BeeErrorCode \<Rightarrow> error_code \<Rightarrow> 'ep list \<Rightarrow> http_world \<Rightarrow> (BeeErrorCode \<times> 'ep http_effect list \<times> http_world) option" where
  "lua_handle_resolve env ec1 ec2 resolved_addr = ask_script env eLuaHttpCallback_Resolve (Notice_Resolve ec1 ec2 resolved_addr)"

definition lua_handle_connect ::
    "'ep http_env \<Rightarrow> BeeErrorCode \<Rightarrow> error_code \<Rightarrow> 'ep option \<Rightarrow> http_world \<Rightarrow> (BeeErrorCode \<times> 'ep http_effect list \<times> http_world) option" where
  "lua_handle_connect env ec1 ec2 endpoint = ask_script env eLuaHttpCallback_Connect (Notice_Connect ec1 ec2 endpoint)"

definition lua_handle_send ::
    "'ep http_env \<Rightarrow> BeeErrorCode \<Rightarrow> error_code \<Rightarrow> nat \<Rightarrow> http_world \<Rightarrow> (BeeErrorCode \<times> 'ep http_effect list \<times> http_world) option" where
  "lua_handle_send env ec1 ec2 bytes_send = ask_script env eLuaHttpCallback_Request (Notice_Send ec1 ec2 bytes_send)"

definition lua_handle_redirect ::
    "'ep http_env \<Rightarrow> nat \<Rightarrow> string \<Rightarrow> http_world \<Rightarrow> (BeeErrorCode \<times> 'ep http_effect list \<times> http_world) option" where
  "lua_handle_redirect env status_code location = ask_script env eLuaHttpCallback_Redirect (Notice_Redirect status_code location)"

definition lua_handle_rcv_header ::
    "'ep http_env \<Rightarrow> BeeErrorCode \<Rightarrow> error_code \<Rightarrow> HttpResponse \<Rightarrow> http_world \<Rightarrow> (BeeErrorCode \<times> 'ep http_effect list \<times> http_world) option" where
  "lua_handle_rcv_header env ec1 ec2 header w =
     (if lh_main (hw_s w) = None then Some (kBeeErrorCode_Engine_Internal_Error, [], w)
      else
        (let s = (hw_s w)\<lparr>lh_header_table := rs_header_fields_map header, lh_status_code := rs_status_code header,
                   lh_is_chunk := (lh_is_chunk (hw_s w) \<or> rs_get_content_len header = - 1)\<rparr>;
             w1 = w\<lparr>hw_s := s\<rparr>
         in do {
              (ret, es, w2) \<leftarrow>
                (if lh_callbacks s eLuaHttpCallback_Header > LUA_REFNIL
                 then call_back env eLuaHttpCallback_Header (Args_Response (push_response env ec1 ec2 (lh_header_table s) [] s)) w1
                 else Some (kBeeErrorCode_Success, [], w1));
              if \<not> lh_manual_read_body (hw_s w2) then Some (ret, es, w2)
              else (let (es', w3) = http_report env ec1 ec2 [] w2 in Some (kBeeErrorCode_State_Machine_Finished, es @ es', w3))
            }))"

definition lua_handle_rcv_content ::
    "'ep http_env \<Rightarrow> BeeErrorCode \<Rightarrow> error_code \<Rightarrow> char iobuffer \<Rightarrow> http_world \<Rightarrow> (BeeErrorCode \<times> 'ep http_effect list \<times> http_world) option" where
  "lua_handle_rcv_content env ec1 ec2 data w =
     (if lh_main (hw_s w) = None then Some (kBeeErrorCode_Engine_Internal_Error, [], w)
      else do {
        (ret, es, w1) \<leftarrow>
          (if lh_callbacks (hw_s w) eLuaHttpCallback_Body > LUA_REFNIL
           then call_back env eLuaHttpCallback_Body (Args_Response (push_response env ec1 ec2 [] (iob_content data) (hw_s w))) w
           else Some (kBeeErrorCode_Success, [], w));
        let (es', w2) = http_report env ec1 ec2 (iob_content data) w1;
        Some (ret, es @ es', post_close w2)
      })"

section \<open>The machine and the script\<close>

definition lua_notice ::
    "'ep http_env \<Rightarrow> 'ep http_notice \<Rightarrow> http_world \<Rightarrow> (BeeErrorCode \<times> 'ep http_effect list \<times> http_world) option" where
  "lua_notice env notice =
     (case notice of
        Notice_Resolve ec1 ec2 eps \<Rightarrow> lua_handle_resolve env ec1 ec2 eps
      | Notice_Connect ec1 ec2 ep \<Rightarrow> lua_handle_connect env ec1 ec2 ep
      | Notice_Send ec1 ec2 n \<Rightarrow> lua_handle_send env ec1 ec2 n
      | Notice_Header ec1 ec2 header \<Rightarrow> lua_handle_rcv_header env ec1 ec2 header
      | Notice_Redirect status_code location \<Rightarrow> lua_handle_redirect env status_code location
      | Notice_Content ec1 ec2 data \<Rightarrow> lua_handle_rcv_content env ec1 ec2 data)"

text \<open>What the routers tell the session when a state has reported success, in order.\<close>

definition header_notices :: "'ep http_env \<Rightarrow> HttpResponse \<Rightarrow> http_world \<Rightarrow> (BeeErrorCode \<times> 'ep http_effect list \<times> http_world) option" where
  "header_notices env r w =
     do {
       (ec, es, w1) \<leftarrow> lua_notice env (Notice_Header kBeeErrorCode_Success Ec_Ok r) w;
       if ec = kBeeErrorCode_Success \<and> rs_status_code r \<in> set redirect_codes
       then do {
         (ec', es', w2) \<leftarrow> lua_notice env (Notice_Redirect (rs_status_code r) (rs_get_header ''Location'' r)) w1;
         Some (ec', es @ es', w2)
       }
       else Some (ec, es, w1)
     }"

definition phase_notices ::
    "'ep http_env \<Rightarrow> HttpResponse option \<Rightarrow> http_phase \<Rightarrow> 'ep tcp_extra \<Rightarrow> char iobuffer \<Rightarrow> http_world
      \<Rightarrow> (BeeErrorCode \<times> 'ep http_effect list \<times> http_world) option" where
  "phase_notices env response ph x data w =
     (case (ph, x) of
        (Resolving, Resolve_Output eps) \<Rightarrow> lua_notice env (Notice_Resolve kBeeErrorCode_Success Ec_Ok eps) w
      | (Connecting, Connect_Output ep _) \<Rightarrow> lua_notice env (Notice_Connect kBeeErrorCode_Success Ec_Ok ep) w
      | (Requesting, Send_Output n) \<Rightarrow> lua_notice env (Notice_Send kBeeErrorCode_Success Ec_Ok n) w
      | (Reading_Header, _) \<Rightarrow>
          (case response of
             None \<Rightarrow> Some (kBeeErrorCode_State_Machine_Interrupted, [], w) | Some r \<Rightarrow> header_notices env r w)
      | (Reading_Body, _) \<Rightarrow> lua_notice env (Notice_Content kBeeErrorCode_Success Ec_Ok data) w
      | _ \<Rightarrow> Some (kBeeErrorCode_State_Machine_Interrupted, [], w))"

text \<open>
  The session as the client of its machine: its answers in the state the notice finds, which for a
  redirection is the one after the header.
\<close>

definition code_of :: "(BeeErrorCode \<times> 'e \<times> 'w) option \<Rightarrow> BeeErrorCode" where
  "code_of r = (case r of None \<Rightarrow> kBeeErrorCode_Success | Some (ec, _) \<Rightarrow> ec)"

definition lua_client :: "'ep http_env \<Rightarrow> HttpResponse option \<Rightarrow> http_world \<Rightarrow> 'ep http_client" where
  "lua_client env response w = \<lparr>http_handler = None, http_callbacks = (\<lambda>_. None),
     http_self = (\<lambda>notice. case (notice, response) of
        (Notice_Redirect _ _, Some r) \<Rightarrow>
          code_of (do { (_, _, w1) \<leftarrow> lua_notice env (Notice_Header kBeeErrorCode_Success Ec_Ok r) w; lua_notice env notice w1 })
      | _ \<Rightarrow> code_of (lua_notice env notice w))\<rparr>"

text \<open>
  Where a machine ends that a script uninstalls from inside: what the routers refuse or finish is as
  before, but no transform is left to go on with.
\<close>

definition uninstalled_code :: "HttpResponse option \<Rightarrow> http_phase \<Rightarrow> BeeErrorCode \<Rightarrow> BeeErrorCode" where
  "uninstalled_code response ph ec =
     (if ec \<noteq> kBeeErrorCode_Success then ec
      else if ph = Reading_Body then kBeeErrorCode_State_Machine_Finished
      else case response of
          Some r \<Rightarrow> if ph = Reading_Header \<and> rs_status_code r \<in> {300, 304, 305, 306} then kBeeErrorCode_State_Machine_Interrupted
                     else kBeeErrorCode_Error_State_Machine
        | None \<Rightarrow> kBeeErrorCode_Error_State_Machine)"

text \<open>
  The state at work reports: whether its output event was set up, \<open>ec1\<close>, \<open>ec2\<close>, the event's data, the
  response read so far and whether a redirection's target can be set up. A connection is made before it
  is reported. An event that was not set up is reported with the state's own code, no router being asked:
  a failed connection, and the success of a chunked body that is empty.
\<close>

definition machine_reports ::
    "'ep http_env \<Rightarrow> bool \<Rightarrow> BeeErrorCode \<Rightarrow> error_code \<Rightarrow> 'ep tcp_extra \<Rightarrow> char iobuffer \<Rightarrow> HttpResponse option \<Rightarrow> bool
      \<Rightarrow> http_phase \<Rightarrow> http_world \<Rightarrow> ('ep http_effect list \<times> http_world) option" where
  "machine_reports env was_set ec1 ec2 x data response reachable ph w0 =
     (let good = (ec1 = kBeeErrorCode_Success \<and> \<not> ec_set ec2);
          w = (if ph = Connecting \<and> good then w0\<lparr>hw_tcp := (hw_tcp w0)\<lparr>connected := True\<rparr>\<rparr> else w0);
          ends = (\<lambda>ec es w. let (es', w') = lua_http_output env ec ec2 (w\<lparr>hw_phase := None\<rparr>) in Some (es @ es' @ [Machine_Ends ec], w'))
      in if \<not> was_set then ends ec1 [] w0
         else if \<not> hw_installed w then ends kBeeErrorCode_Error_State_Machine [] w
         else if \<not> good then ends (if ec1 \<noteq> kBeeErrorCode_Success then ec1 else kBeeErrorCode_State_Machine_Interrupted) [] w
         else do {
           (ec, es, w1) \<leftarrow> phase_notices env response ph x data w;
           (if \<not> hw_installed w1 then ends (uninstalled_code response ph ec) es w1
            else case http_flow_next (lua_client env response w) reachable response ph x data of
                Goes_On ph' \<Rightarrow> Some (es, w1\<lparr>hw_phase := Some ph'\<rparr>)
              | Ends ec' \<Rightarrow> ends ec' es w1)
         })"

datatype 'ep http_label =
    Script_Makes http_call
  | Machine_Reports "'ep http_env" bool BeeErrorCode error_code "'ep tcp_extra" "char iobuffer" "HttpResponse option" bool
  | Posted_Close

fun http_act :: "'ep http_label \<Rightarrow> http_world \<Rightarrow> ('ep http_effect list \<times> http_world) option" where
  "http_act (Script_Makes call) w = (let (ret, es, w') = run_call call w in Some (es, w'))"
| "http_act (Machine_Reports env was_set ec1 ec2 x data response reachable) w =
     (case hw_phase w of
        None \<Rightarrow> None
      | Some ph \<Rightarrow> machine_reports env was_set ec1 ec2 x data response reachable ph w)"
| "http_act Posted_Close w = (if hw_closes w = 0 then None else Some ([], http_close (w\<lparr>hw_closes := hw_closes w - 1\<rparr>)))"

text \<open>Runs without undefined behaviour, in which only what is at work reports and only what is posted runs.\<close>

inductive http_runs :: "http_world \<Rightarrow> 'ep http_label list \<Rightarrow> 'ep http_effect list \<Rightarrow> http_world \<Rightarrow> bool" where
  http_start: "http_runs w [] [] w"
| http_step: "http_runs w ls es w' \<Longrightarrow> http_act l w' = Some (es', w'') \<Longrightarrow> http_runs w (ls @ [l]) (es @ es') w''"

section \<open>Quiet calls\<close>

text \<open>What calls keep: reading and setting callbacks touch neither what the session has been asked for nor its machine.\<close>

definition tells_script :: "'ep http_effect \<Rightarrow> bool" where
  "tells_script e = (case e of Run_Callback _ _ _ \<Rightarrow> True | Run_Get_Callback _ _ \<Rightarrow> True | Resume_Get _ _ \<Rightarrow> True | _ \<Rightarrow> False)"

definition resumes :: "'ep http_effect \<Rightarrow> bool" where
  "resumes e = (case e of Resume_Get _ _ \<Rightarrow> True | _ \<Rightarrow> False)"

lemma resumes_simps [simp]:
  "resumes (Resume_Get co r)" "\<not> resumes (Run_Get_Callback cb r)" "\<not> resumes (Run_Callback type cb args)"
  "\<not> resumes (Request u rf rs re)" "\<not> resumes (Read_Effect e)" "\<not> resumes (Machine_Ends ec)"
  by (simp_all add: resumes_def)

lemma tells_simps [simp]:
  "tells_script (Resume_Get co r)" "tells_script (Run_Get_Callback cb r)" "tells_script (Run_Callback type cb args)"
  "\<not> tells_script (Request u rf rs re)" "\<not> tells_script (Read_Effect e)" "\<not> tells_script (Machine_Ends ec)"
  by (simp_all add: tells_script_def)

lemma run_call_tells: "run_call c w = (ret, es, w') \<Longrightarrow> filter tells_script es = [] \<and> filter resumes es = []
    \<and> (lh_resumed (hw_s w') = lh_resumed (hw_s w))"
  by (cases c) (auto simp: session_get_def session_async_get_def start_request_def session_read_def session_scanf_def
    set_lua_callback_def http_close_def hw_stop_def Let_def async_load_def split: if_splits prod.splits option.splits)

lemma run_calls_tells: "run_calls cs w = (es, w') \<Longrightarrow> filter tells_script es = [] \<and> filter resumes es = []
    \<and> lh_resumed (hw_s w') = lh_resumed (hw_s w)"
  by (induction cs arbitrary: w es w') (fastforce split: prod.splits dest: run_call_tells)+

section \<open>Relations a notice keeps\<close>

text \<open>
  What holds from before to after of everything a notice is made of holds of the notice: \<open>Q\<close> is what is
  asked of the scripts.
\<close>

definition with_header :: "HttpResponse \<Rightarrow> http_world \<Rightarrow> http_world" where
  "with_header header w = w\<lparr>hw_s := (hw_s w)\<lparr>lh_header_table := rs_header_fields_map header, lh_status_code := rs_status_code header,
     lh_is_chunk := (lh_is_chunk (hw_s w) \<or> rs_get_content_len header = - 1)\<rparr>\<rparr>"

lemma lua_handle_rcv_header_eq:
  "lua_handle_rcv_header env ec1 ec2 header w =
     (if lh_main (hw_s w) = None then Some (kBeeErrorCode_Engine_Internal_Error, [], w)
      else do {
        (ret, es, w2) \<leftarrow>
          (if lh_callbacks (hw_s w) eLuaHttpCallback_Header > LUA_REFNIL
           then call_back env eLuaHttpCallback_Header (Args_Response (push_response env ec1 ec2
             (lh_header_table (hw_s (with_header header w))) [] (hw_s (with_header header w)))) (with_header header w)
           else Some (kBeeErrorCode_Success, [], with_header header w));
        if \<not> lh_manual_read_body (hw_s w2) then Some (ret, es, w2)
        else (let (es', w3) = http_report env ec1 ec2 [] w2 in Some (kBeeErrorCode_State_Machine_Finished, es @ es', w3))
      })"
  by (simp add: lua_handle_rcv_header_def with_header_def Let_def)

lemma with_header_main [simp]: "lh_main (hw_s (with_header header w)) = lh_main (hw_s w)"
  by (simp add: with_header_def)

locale script_relation =
  fixes R :: "http_world \<Rightarrow> 'ep http_effect list \<Rightarrow> http_world \<Rightarrow> bool" and Q :: "'ep http_env \<Rightarrow> bool"
  assumes R_refl: "R w [] w"
    and R_append: "R w es w1 \<Longrightarrow> R w1 es' w2 \<Longrightarrow> R w (es @ es') w2"
    and R_call_back: "Q env \<Longrightarrow> lh_main (hw_s w) \<noteq> None \<Longrightarrow> call_back env type args w = Some (ec, es, w1) \<Longrightarrow> R w es w1"
    and R_report: "Q env \<Longrightarrow> http_report env ec1 ec2 body w = (es, w1) \<Longrightarrow> R w es w1"
    and R_header: "R w [] (with_header header w)"
begin

lemma ask_related:
  assumes "Q env" and "ask_script env type notice w = Some (ec, es, w1)"
  shows "R w es w1"
proof (cases "lh_main (hw_s w) = None \<or> lh_callbacks (hw_s w) type = LUA_REFNIL")
  case True
  with assms(2) R_refl show ?thesis by (auto simp: ask_script_def split: if_splits)
next
  case False
  with assms(2) have "call_back env type (Args_Of notice) w = Some (ec, es, w1)" by (auto simp: ask_script_def split: if_splits)
  with assms(1) False show ?thesis by (blast intro: R_call_back)
qed

lemma header_related:
  assumes "Q env" and "lua_handle_rcv_header env ec1 ec2 r w = Some (ec, es, w1)"
  shows "R w es w1"
proof (cases "lh_main (hw_s w) = None")
  case True
  with assms(2) R_refl show ?thesis by (simp add: lua_handle_rcv_header_eq)
next
  case False
  define cb where "cb = (if lh_callbacks (hw_s w) eLuaHttpCallback_Header > LUA_REFNIL
           then call_back env eLuaHttpCallback_Header (Args_Response (push_response env ec1 ec2
             (lh_header_table (hw_s (with_header r w))) [] (hw_s (with_header r w)))) (with_header r w)
           else Some (kBeeErrorCode_Success, [], with_header r w))"
  from assms(2) False obtain ret es1 w2 where 1: "cb = Some (ret, es1, w2)"
    unfolding lua_handle_rcv_header_eq cb_def [symmetric] by (cases cb) auto
  have "R (with_header r w) es1 w2"
    using 1 False assms(1) R_refl unfolding cb_def by (auto split: if_splits intro: R_call_back)
  with R_append [OF R_header] have r1: "R w es1 w2" by fastforce
  from assms(2) False 1 have
    2: "(if \<not> lh_manual_read_body (hw_s w2) then Some (ret, es1, w2)
       else (let (es', w3) = http_report env ec1 ec2 [] w2 in Some (kBeeErrorCode_State_Machine_Finished, es1 @ es', w3))) = Some (ec, es, w1)"
    unfolding lua_handle_rcv_header_eq cb_def [symmetric] by simp
  obtain es2 w3 where 3: "http_report env ec1 ec2 [] w2 = (es2, w3)" by fastforce
  from R_append [OF r1 R_report [OF assms(1) 3]] r1 2 3 show ?thesis by (auto split: if_splits)
qed

lemma content_related:
  assumes "Q env" and "lua_handle_rcv_content env ec1 ec2 data w = Some (ec, es, w1)"
  shows "\<exists>v. R w es v \<and> (w1 = v \<or> w1 = post_close v)"
proof (cases "lh_main (hw_s w) = None")
  case True
  with assms(2) R_refl show ?thesis by (auto simp: lua_handle_rcv_content_def)
next
  case False
  define cb where "cb = (if lh_callbacks (hw_s w) eLuaHttpCallback_Body > LUA_REFNIL
           then call_back env eLuaHttpCallback_Body (Args_Response (push_response env ec1 ec2 [] (iob_content data) (hw_s w))) w
           else Some (kBeeErrorCode_Success, [], w))"
  from assms(2) False obtain ret es1 w2 where 1: "cb = Some (ret, es1, w2)"
    unfolding lua_handle_rcv_content_def cb_def [symmetric] by (cases cb) auto
  have r1: "R w es1 w2"
    using 1 False assms(1) R_refl unfolding cb_def by (auto split: if_splits intro: R_call_back)
  obtain es2 w3 where 3: "http_report env ec1 ec2 (iob_content data) w2 = (es2, w3)" by fastforce
  from assms(2) False 1 3 have "es = es1 @ es2" "w1 = post_close w3"
    unfolding lua_handle_rcv_content_def cb_def [symmetric] by auto
  with R_append [OF r1 R_report [OF assms(1) 3]] show ?thesis by blast
qed

lemma notice_related:
  assumes "Q env" and "lua_notice env notice w = Some (ec, es, w1)"
  shows "\<exists>v. R w es v \<and> (w1 = v \<or> (\<exists>ec1 ec2 data. notice = Notice_Content ec1 ec2 data) \<and> w1 = post_close v)"
  using assms(2)
  by (cases notice) (auto simp: lua_notice_def lua_handle_resolve_def lua_handle_connect_def lua_handle_send_def
      lua_handle_redirect_def dest: ask_related [OF assms(1)] header_related [OF assms(1)] content_related [OF assms(1)])

lemma header_notices_related:
  assumes "Q env" and "header_notices env r w = Some (ec, es, w1)"
  shows "R w es w1"
proof -
  from assms(2) obtain c1 es1 v where 1: "lua_notice env (Notice_Header kBeeErrorCode_Success Ec_Ok r) w = Some (c1, es1, v)"
    unfolding header_notices_def by (auto split: bind_splits)
  from notice_related [OF assms(1) this] have r1: "R w es1 v" by simp
  show ?thesis
  proof (cases "c1 = kBeeErrorCode_Success \<and> rs_status_code r \<in> set redirect_codes")
    case False
    with assms(2) 1 r1 show ?thesis unfolding header_notices_def by (auto split: if_splits)
  next
    case True
    with assms(2) 1 obtain es2 where
      "lua_notice env (Notice_Redirect (rs_status_code r) (rs_get_header ''Location'' r)) v = Some (ec, es2, w1)" "es = es1 @ es2"
      unfolding header_notices_def by (auto split: bind_splits)
    moreover from notice_related [OF assms(1) this(1)] have "R v es2 w1" by simp
    ultimately show ?thesis using R_append [OF r1] by simp
  qed
qed

lemma notices_related:
  assumes "Q env" and "phase_notices env response ph x data w = Some (ec, es, w1)"
  shows "\<exists>v. R w es v \<and> (w1 = v \<or> ph = Reading_Body \<and> w1 = post_close v)"
proof -
  have one: "\<exists>v. R w es v \<and> (w1 = v \<or> (\<exists>ec1 ec2 data. notice = Notice_Content ec1 ec2 data) \<and> w1 = post_close v)"
    if "lua_notice env notice w = Some (ec, es, w1)" for notice
    using notice_related [OF assms(1) that] .
  show ?thesis
    using assms(2) R_refl header_notices_related [OF assms(1)]
    by (cases ph; cases x) (auto simp: phase_notices_def split: option.splits dest: one)
qed

lemma output_related:
  assumes "Q env" and "lua_http_output env ec1 ec2 w = (es, w1)"
  shows "\<exists>v. R w es v \<and> (w1 = v \<or> w1 = post_close v)"
proof (cases "ec1 = kBeeErrorCode_Success \<or> ec1 = kBeeErrorCode_State_Machine_Finished")
  case True
  with assms(2) R_refl show ?thesis by (auto simp: lua_http_output_def)
next
  case False
  obtain es2 w3 where 3: "http_report env ec1 ec2 [] w = (es2, w3)" by fastforce
  with False assms(2) have "es = es2" "w1 = post_close w3" by (auto simp: lua_http_output_def)
  with R_report [OF assms(1) 3] show ?thesis by blast
qed

end

section \<open>At most one answer to a waiting coroutine\<close>

definition resumes_once :: "http_world \<Rightarrow> 'ep http_effect list \<Rightarrow> http_world \<Rightarrow> bool" where
  "resumes_once w es w' \<longleftrightarrow> (lh_resumed (hw_s w) \<longrightarrow> lh_resumed (hw_s w')) \<and>
     length (filter resumes es) = (if lh_resumed (hw_s w') \<and> \<not> lh_resumed (hw_s w) then 1 else 0)"

lemma once_append:
  assumes "resumes_once w es w1" and "resumes_once w1 es' w2"
  shows "resumes_once w (es @ es') w2"
  using assms unfolding resumes_once_def
  by (cases "lh_resumed (hw_s w)"; cases "lh_resumed (hw_s w1)"; cases "lh_resumed (hw_s w2)") simp_all

lemma once_silent: "filter resumes es = [] \<Longrightarrow> lh_resumed (hw_s w') = lh_resumed (hw_s w) \<Longrightarrow> resumes_once w es w'"
  by (simp add: resumes_once_def)

lemma post_close_keeps [simp]: "hw_s (post_close w) = hw_s w" "hw_tcp (post_close w) = hw_tcp w"
  "hw_phase (post_close w) = hw_phase w" "hw_installed (post_close w) = hw_installed w"
  "hw_activated (post_close w) = hw_activated w" "hw_ios (post_close w) = hw_ios w"
  by (simp_all add: post_close_def)

text \<open>What a report is made of.\<close>

lemma http_report_cases:
  assumes "http_report (env :: 'ep http_env) ec1 ec2 body w = (es, w1)"
  obtains (silent) "es = []" "w1 = w"
    | (callback) cb r es' where "lh_get_callback (hw_s w) = cb" "cb \<noteq> LUA_REFNIL" "lh_main (hw_s w) \<noteq> None"
        "r = push_response env ec1 ec2 (lh_header_table (hw_s w)) body (hw_s w)"
        "run_calls (snd (he_callback env cb (Args_Response r))) w = (es', w1)" "es = Run_Get_Callback cb r # es'"
    | (resumed) co r es' where "lh_get_callback (hw_s w) = LUA_REFNIL" "lh_co (hw_s w) = Some co" "lh_main (hw_s w) \<noteq> None"
        "lh_yielding (hw_s w)" "\<not> lh_resumed (hw_s w)"
        "r = push_response env ec1 ec2 (lh_header_table (hw_s w)) body (hw_s w)"
        "run_calls (he_coroutine env co r) (w\<lparr>hw_s := (hw_s w)\<lparr>lh_resumed := True, lh_yielding := False\<rparr>\<rparr>) = (es', w1)"
        "es = Resume_Get co r # es'"
proof (cases "lh_get_callback (hw_s w) = LUA_REFNIL")
  case True
  show ?thesis
  proof (cases "lh_co (hw_s w) = None \<or> lh_main (hw_s w) = None \<or> \<not> lh_yielding (hw_s w) \<or> lh_resumed (hw_s w)")
    case t: True
    with assms True silent show ?thesis by (auto simp: http_report_def http_resume_def Let_def split: option.splits if_splits)
  next
    case False
    then obtain co where co: "lh_co (hw_s w) = Some co" by auto
    let ?r = "push_response env ec1 ec2 (lh_header_table (hw_s w)) body (hw_s w)"
    obtain es' :: "'ep http_effect list" and v where run: "run_calls (he_coroutine env co ?r) (w\<lparr>hw_s := (hw_s w)\<lparr>lh_resumed := True, lh_yielding := False\<rparr>\<rparr>) = (es', v)"
      by fastforce
    obtain n where n: "lh_main (hw_s w) = Some n" using False by auto
    have "w1 = v" "es = Resume_Get co ?r # es'"
      using assms True False co run n by (simp_all add: http_report_def http_resume_def Let_def)
    with True False co run n show ?thesis by (intro resumed [of co ?r es']) simp_all
  qed
next
  case False
  show ?thesis
  proof (cases "lh_main (hw_s w) = None")
    case True
    with assms False silent show ?thesis by (simp add: http_report_def report_async_get_result_def)
  next
    case m: False
    let ?r = "push_response env ec1 ec2 (lh_header_table (hw_s w)) body (hw_s w)"
    obtain es' :: "'ep http_effect list" and v where run: "run_calls (snd (he_callback env (lh_get_callback (hw_s w)) (Args_Response ?r))) w = (es', v)" by fastforce
    obtain n where n: "lh_main (hw_s w) = Some n" using m by auto
    have "w1 = v" "es = Run_Get_Callback (lh_get_callback (hw_s w)) ?r # es'"
      using assms False run n by (simp_all add: http_report_def report_async_get_result_def Let_def)
    with False run n show ?thesis by (intro callback [of _ ?r es']) simp_all
  qed
qed

lemma once_report: "http_report env ec1 ec2 body w = (es, w1) \<Longrightarrow> resumes_once w es w1"
  by (erule http_report_cases) (auto simp: resumes_once_def dest!: run_calls_tells)

lemma call_back_parts:
  assumes "call_back env type args w = Some (ec, es, w1)"
  obtains ending calls es' where "he_callback env (lh_callbacks (hw_s w) type) args = (ending, calls)"
    "run_calls calls w = (es', w1)" "lh_main (hw_s w1) \<noteq> None" "ec = callback_code ending"
    "es = Run_Callback type (lh_callbacks (hw_s w) type) args # es'"
  using assms by (auto simp: call_back_def Let_def split: prod.splits if_splits)

lemma once_call_back: "call_back env type args w = Some (ec, es, w1) \<Longrightarrow> resumes_once w es w1"
  by (erule call_back_parts) (auto simp: resumes_once_def dest!: run_calls_tells)

interpretation once: script_relation resumes_once "\<lambda>_. True"
  by unfold_locales (auto simp: with_header_def intro: once_silent once_append once_call_back once_report)

text \<open>How a report of the machine goes.\<close>

definition as_connected :: "http_phase \<Rightarrow> BeeErrorCode \<Rightarrow> error_code \<Rightarrow> http_world \<Rightarrow> http_world" where
  "as_connected ph ec1 ec2 w =
     (if ph = Connecting \<and> ec1 = kBeeErrorCode_Success \<and> \<not> ec_set ec2 then w\<lparr>hw_tcp := (hw_tcp w)\<lparr>connected := True\<rparr>\<rparr> else w)"

lemma as_connected_keeps [simp]: "hw_s (as_connected ph ec1 ec2 w) = hw_s w" "hw_installed (as_connected ph ec1 ec2 w) = hw_installed w"
  "hw_phase (as_connected ph ec1 ec2 w) = hw_phase w" "hw_activated (as_connected ph ec1 ec2 w) = hw_activated w"
  "hw_closes (as_connected ph ec1 ec2 w) = hw_closes w" "hw_ios (as_connected ph ec1 ec2 w) = hw_ios w"
  by (simp_all add: as_connected_def)

lemma machine_reports_cases:
  assumes "machine_reports env was_set ec1 ec2 x data response reachable ph w0 = Some (es, w')"
  obtains (ends) es1 w1 c es2 where "es = es1 @ es2 @ [Machine_Ends c]"
      "lua_http_output env c ec2 (w1\<lparr>hw_phase := None\<rparr>) = (es2, w')"
      "es1 = [] \<and> w1 = w0 \<and> \<not> was_set \<and> c = ec1
       \<or> es1 = [] \<and> w1 = as_connected ph ec1 ec2 w0 \<and> was_set \<and> c \<noteq> kBeeErrorCode_Success
         \<and> (hw_installed w0 \<longrightarrow> \<not> (ec1 = kBeeErrorCode_Success \<and> \<not> ec_set ec2)
              \<and> c = (if ec1 \<noteq> kBeeErrorCode_Success then ec1 else kBeeErrorCode_State_Machine_Interrupted))
       \<or> (\<exists>ec. was_set \<and> hw_installed w0 \<and> ec1 = kBeeErrorCode_Success \<and> \<not> ec_set ec2 \<and> phase_notices env response ph x data (as_connected ph ec1 ec2 w0) = Some (ec, es1, w1)
           \<and> (hw_installed w1 \<longrightarrow> http_flow_next (lua_client env response (as_connected ph ec1 ec2 w0)) reachable response ph x data = Ends c))"
    | (goes) ec w1 ph' where "was_set \<and> hw_installed w0 \<and> ec1 = kBeeErrorCode_Success \<and> \<not> ec_set ec2" "phase_notices env response ph x data (as_connected ph ec1 ec2 w0) = Some (ec, es, w1)"
      "http_flow_next (lua_client env response (as_connected ph ec1 ec2 w0)) reachable response ph x data = Goes_On ph'"
      "hw_installed w1" "w' = w1\<lparr>hw_phase := Some ph'\<rparr>"
proof -
  let ?good = "ec1 = kBeeErrorCode_Success \<and> \<not> ec_set ec2"
  define w where "w = as_connected ph ec1 ec2 w0"
  have w: "(if ph = Connecting \<and> ?good then w0\<lparr>hw_tcp := (hw_tcp w0)\<lparr>connected := True\<rparr>\<rparr> else w0) = w"
    by (simp add: w_def as_connected_def)
  have e: "\<exists>es2. es = es1 @ es2 @ [Machine_Ends c] \<and> lua_http_output env c ec2 (w1\<lparr>hw_phase := None\<rparr>) = (es2, w')"
    if "(let (es', w'') = lua_http_output env c ec2 (w1\<lparr>hw_phase := None\<rparr>) in Some (es1 @ es' @ [Machine_Ends c], w'')) = Some (es, w')"
    for c es1 w1 using that by (auto split: prod.splits)
  note run = assms [unfolded machine_reports_def Let_def w]
  consider (unset) "\<not> was_set" | (gone) "was_set" "\<not> hw_installed w" | (bad) "was_set" "hw_installed w" "\<not> ?good"
    | (good) "was_set" "hw_installed w" "?good" by blast
  then show thesis
  proof cases
    case unset
    with run e [where c = ec1 and ?es1.0 = "[]" and ?w1.0 = w0] show thesis by (auto intro!: ends)
  next
    case gone
    with run e [where c = kBeeErrorCode_Error_State_Machine and ?es1.0 = "[]" and ?w1.0 = w] show thesis by (auto simp: w_def intro!: ends)
  next
    case bad
    with run e [where c = "if ec1 \<noteq> kBeeErrorCode_Success then ec1 else kBeeErrorCode_State_Machine_Interrupted" and ?es1.0 = "[]" and ?w1.0 = w]
    show thesis by (auto simp: w_def intro!: ends split: if_splits)
  next
    case good
    then obtain ec es1 w1 where n: "phase_notices env response ph x data w = Some (ec, es1, w1)"
      using run by (auto split: bind_splits)
    show thesis
    proof (cases "hw_installed w1")
      case False
      with run good n e [where c = "uninstalled_code response ph ec" and ?es1.0 = es1 and ?w1.0 = w1] show thesis by (auto simp: w_def intro!: ends)
    next
      case True
      show thesis
      proof (cases "http_flow_next (lua_client env response w) reachable response ph x data")
        case (Goes_On ph')
        with run good n True show thesis by (intro goes [of ec w1 ph']) (auto simp: w_def)
      next
        case (Ends c)
        with run good n True e [where c = c and ?es1.0 = es1 and ?w1.0 = w1] show thesis by (auto simp: w_def intro!: ends)
      qed
    qed
  qed
qed

lemma once_via: "\<exists>v. resumes_once w es v \<and> (w1 = v \<or> P \<and> w1 = post_close v) \<Longrightarrow> resumes_once w es w1"
  by (auto simp: resumes_once_def)

lemma once_reports:
  assumes "machine_reports env was_set ec1 ec2 x data response reachable ph w0 = Some (es, w')"
  shows "resumes_once w0 es w'"
proof -
  have n: "resumes_once w0 es1 w1" if "phase_notices env response ph x data (as_connected ph ec1 ec2 w0) = Some (ec, es1, w1)" for ec es1 w1
    using once_via [OF once.notices_related [OF TrueI that]] by (simp add: resumes_once_def)
  from assms show ?thesis
  proof (cases rule: machine_reports_cases)
    case (ends es1 w1 c es2)
    have "resumes_once w0 es1 w1" using ends(3) n by (auto simp: resumes_once_def)
    then have "resumes_once w0 es1 (w1\<lparr>hw_phase := None\<rparr>)" by (simp add: resumes_once_def)
    moreover have "resumes_once (w1\<lparr>hw_phase := None\<rparr>) (es2 @ [Machine_Ends c]) w'"
      using once.output_related [OF TrueI ends(2)] by (auto simp: resumes_once_def)
    ultimately show ?thesis unfolding ends(1) by (rule once_append)
  next
    case (goes ec w1 ph')
    with n show ?thesis by (simp add: resumes_once_def)
  qed
qed

lemma once_act: "http_act l w = Some (es, w') \<Longrightarrow> resumes_once w es w'"
  by (cases l) (auto simp: http_close_def hw_stop_def Let_def split: option.splits if_splits prod.splits dest: once_reports run_call_tells
      intro: once_silent)

lemma once_runs: "http_runs w ls es w' \<Longrightarrow> resumes_once w es w'"
  by (induction rule: http_runs.induct) (auto intro: once_silent once_append once_act)

section \<open>A request is answered\<close>

text \<open>A script that never closes the session, whatever else it does while it runs.\<close>

definition patient :: "'ep http_env \<Rightarrow> bool" where
  "patient env \<longleftrightarrow> (\<forall>cb args. Call_Close \<notin> set (snd (he_callback env cb args))) \<and> (\<forall>co r. Call_Close \<notin> set (he_coroutine env co r))"

definition getting :: "nat \<Rightarrow> http_world \<Rightarrow> bool" where
  "getting co w \<longleftrightarrow> lh_main (hw_s w) \<noteq> None \<and> lh_co (hw_s w) = Some co \<and> lh_get_callback (hw_s w) = LUA_REFNIL \<and> hw_activated w \<and> hw_installed w"

definition waiting :: "http_world \<Rightarrow> bool" where
  "waiting w \<longleftrightarrow> lh_yielding (hw_s w) \<and> \<not> lh_resumed (hw_s w)"

lemma run_call_main:
  assumes "run_call c w = (ret, es :: 'ep http_effect list, w')" and "lh_main (hw_s w) \<noteq> None" and "c \<noteq> Call_Close"
  shows "lh_main (hw_s w') = lh_main (hw_s w) \<and> lh_co (hw_s w') = lh_co (hw_s w) \<and> lh_get_callback (hw_s w') = lh_get_callback (hw_s w)
    \<and> lh_yielding (hw_s w') = lh_yielding (hw_s w) \<and> lh_resumed (hw_s w') = lh_resumed (hw_s w)
    \<and> lh_manual_read_body (hw_s w') = lh_manual_read_body (hw_s w)
    \<and> hw_activated w' = hw_activated w \<and> hw_installed w' = hw_installed w \<and> hw_phase w' = hw_phase w \<and> hw_closes w' = hw_closes w"
  using assms
  by (cases c) (auto simp: session_get_def session_async_get_def session_read_def session_scanf_def
    set_lua_callback_def Let_def async_load_def split: if_splits prod.splits option.splits)

lemma run_calls_main:
  assumes "run_calls cs w = (es :: 'ep http_effect list, w')" and "lh_main (hw_s w) \<noteq> None" and "Call_Close \<notin> set cs"
  shows "lh_main (hw_s w') = lh_main (hw_s w) \<and> lh_co (hw_s w') = lh_co (hw_s w) \<and> lh_get_callback (hw_s w') = lh_get_callback (hw_s w)
    \<and> lh_yielding (hw_s w') = lh_yielding (hw_s w) \<and> lh_resumed (hw_s w') = lh_resumed (hw_s w)
    \<and> lh_manual_read_body (hw_s w') = lh_manual_read_body (hw_s w)
    \<and> hw_activated w' = hw_activated w \<and> hw_installed w' = hw_installed w \<and> hw_phase w' = hw_phase w \<and> hw_closes w' = hw_closes w"
  using assms
proof (induction cs arbitrary: w es)
  case (Cons c cs)
  then obtain ret and es1 :: "'ep http_effect list" and w1 and es2 :: "'ep http_effect list" where
    r: "run_call c w = (ret, es1, w1)" "run_calls cs w1 = (es2, w')"
    by (auto split: prod.splits)
  from Cons.prems(3) have nc: "c \<noteq> Call_Close" "Call_Close \<notin> set cs" by auto
  note k = run_call_main [OF r(1) Cons.prems(2) nc(1)]
  with Cons.prems(2) have "lh_main (hw_s w1) \<noteq> None" by simp
  from Cons.IH [OF r(2) this nc(2)] k show ?case by simp
qed simp

definition keeps_getting :: "nat \<Rightarrow> http_world \<Rightarrow> 'ep http_effect list \<Rightarrow> http_world \<Rightarrow> bool" where
  "keeps_getting co w es w' \<longleftrightarrow> (getting co w \<longrightarrow> getting co w' \<and> hw_phase w' = hw_phase w \<and> hw_closes w' = hw_closes w
     \<and> (waiting w \<longrightarrow> waiting w' \<or> (\<exists>r. Resume_Get co r \<in> set es)))"

interpretation get: script_relation "keeps_getting co" patient for co
proof unfold_locales
  show "keeps_getting co w [] w" for w by (simp add: keeps_getting_def)
  show "keeps_getting co w (es @ es') w2" if "keeps_getting co w es w1" "keeps_getting co w1 es' w2" for w es w1 es' w2
    using that by (auto simp: keeps_getting_def)
  show "keeps_getting co w es w1" if "patient env" "lh_main (hw_s w) \<noteq> None" "call_back env type args w = Some (ec, es, w1)"
    for env w type args ec es w1
    using that(3)
  proof (rule call_back_parts)
    fix ending calls es' assume c: "he_callback env (lh_callbacks (hw_s w) type) args = (ending, calls)" "run_calls calls w = (es', w1)"
    from that(1) c(1) have "Call_Close \<notin> set calls" unfolding patient_def by (metis snd_conv)
    from run_calls_main [OF c(2) that(2) this] show ?thesis by (simp add: keeps_getting_def getting_def waiting_def)
  qed
  show "keeps_getting co w es w1" if "patient env" "http_report env ec1 ec2 body w = (es, w1)" for env ec1 ec2 body w es w1
    using that(2)
  proof (cases rule: http_report_cases)
    case silent
    then show ?thesis by (simp add: keeps_getting_def)
  next
    case (callback cb r es')
    then show ?thesis by (simp add: keeps_getting_def getting_def)
  next
    case (resumed co' r es')
    from that(1) have "Call_Close \<notin> set (he_coroutine env co' r)" by (simp add: patient_def)
    from run_calls_main [OF resumed(7) _ this] resumed(3)
    have k: "getting co' w \<longrightarrow> getting co' w1" "hw_phase w1 = hw_phase w" "hw_closes w1 = hw_closes w" by (auto simp: getting_def)
    have "getting co w \<longrightarrow> co' = co" using resumed(2) by (auto simp: getting_def)
    with k resumed(8) show ?thesis by (auto simp: keeps_getting_def)
  qed
  show "keeps_getting co w [] (with_header header w)" for w header
    by (simp add: keeps_getting_def getting_def waiting_def with_header_def)
qed

text \<open>A report reaches the coroutine that waits.\<close>

lemma report_reaches:
  assumes "getting co w" and "waiting w" and "http_report env ec1 ec2 body w = (es, w1)"
  shows "\<exists>r. Resume_Get co r \<in> set es"
proof -
  let ?r = "push_response env ec1 ec2 (lh_header_table (hw_s w)) body (hw_s w)"
  obtain n where "lh_main (hw_s w) = Some n" using assms(1) by (auto simp: getting_def)
  with assms have "\<exists>es'. es = Resume_Get co ?r # es'"
    by (auto simp: http_report_def http_resume_def getting_def waiting_def Let_def split: prod.splits)
  then show ?thesis by auto
qed

lemma output_reaches:
  assumes "getting co w" and "waiting w" and "lua_http_output env ec1 ec2 w = (es, w1)"
    and "ec1 \<noteq> kBeeErrorCode_Success" and "ec1 \<noteq> kBeeErrorCode_State_Machine_Finished"
  shows "\<exists>r. Resume_Get co r \<in> set es"
  using assms report_reaches [OF assms(1,2)] by (auto simp: lua_http_output_def split: prod.splits)

text \<open>What the session answers decides the flow.\<close>

lemma client_self:
  "http_self (lua_client env response w) (Notice_Resolve c1 c2 eps) = code_of (lua_notice env (Notice_Resolve c1 c2 eps) w)"
  "http_self (lua_client env response w) (Notice_Connect c1 c2 ep) = code_of (lua_notice env (Notice_Connect c1 c2 ep) w)"
  "http_self (lua_client env response w) (Notice_Send c1 c2 n) = code_of (lua_notice env (Notice_Send c1 c2 n) w)"
  "http_self (lua_client env response w) (Notice_Header c1 c2 h) = code_of (lua_notice env (Notice_Header c1 c2 h) w)"
  "http_self (lua_client env response w) (Notice_Content c1 c2 d) = code_of (lua_notice env (Notice_Content c1 c2 d) w)"
  by (simp_all add: lua_client_def split: option.split)

lemma client_verdict: "verdict (lua_client env response w) notice = http_self (lua_client env response w) notice"
  by (simp add: verdict_def lua_client_def)

lemma redirect_codes_set: "set redirect_codes = {301, 302, 303, 307}"
  by (simp add: redirect_codes_def)

lemma header_flow_code:
  assumes "header_notices env r w = Some (ec, es, w1)" and "header_flow (lua_client env (Some r) w) reachable (Some r) = f"
  shows "(ec \<noteq> kBeeErrorCode_Success \<longrightarrow> f = Ends ec) \<and> (ec = kBeeErrorCode_Success \<longrightarrow> f \<noteq> Ends kBeeErrorCode_State_Machine_Finished)"
proof -
  let ?h = "Notice_Header kBeeErrorCode_Success Ec_Ok r" and ?d = "Notice_Redirect (rs_status_code r) (rs_get_header ''Location'' r)"
  from assms(1) obtain c1 es1 v where 1: "lua_notice env ?h w = Some (c1, es1, v)" by (auto simp: header_notices_def split: bind_splits)
  show ?thesis
  proof (cases "c1 = kBeeErrorCode_Success \<and> rs_status_code r \<in> set redirect_codes")
    case True
    with assms(1) 1 obtain es2 where 2: "lua_notice env ?d v = Some (ec, es2, w1)" by (auto simp: header_notices_def split: bind_splits)
    have "http_self (lua_client env (Some r) w) ?d = ec" using 1 2 by (simp add: lua_client_def code_of_def)
    with True 1 assms(2) show ?thesis
      by (auto simp: header_flow_def client_verdict client_self code_of_def if_agreed_def redirect_codes_set split: if_splits)
  next
    case False
    with assms(1) 1 have "ec = c1" by (auto simp: header_notices_def split: if_splits)
    with False 1 assms(2) show ?thesis
      by (auto simp: header_flow_def client_verdict client_self code_of_def if_agreed_def redirect_codes_set split: if_splits)
  qed
qed

lemma flow_code:
  assumes "phase_notices env response ph x data w = Some (ec, es, w1)"
    and "http_flow_next (lua_client env response w) reachable response ph x data = f"
  shows "(ec \<noteq> kBeeErrorCode_Success \<longrightarrow> f = Ends ec) \<and>
    (ec = kBeeErrorCode_Success \<and> f = Ends kBeeErrorCode_State_Machine_Finished \<longrightarrow> ph = Reading_Body)"
proof (cases ph)
  case Reading_Header
  show ?thesis
  proof (cases response)
    case None
    with Reading_Header assms show ?thesis by (auto simp: phase_notices_def http_flow_next_def header_flow_def split: tcp_extra.splits)
  next
    case (Some r)
    with Reading_Header assms header_flow_code [of env r w ec es w1 reachable f] show ?thesis
      by (auto simp: phase_notices_def http_flow_next_def split: tcp_extra.splits)
  qed
qed (use assms in \<open>auto simp: phase_notices_def http_flow_next_def client_verdict client_self code_of_def if_agreed_def split: tcp_extra.splits if_splits\<close>)

text \<open>Whoever is told that the machine is finished has been answered before.\<close>

lemma callback_not_finished: "callback_code e \<noteq> kBeeErrorCode_State_Machine_Finished"
  by (cases e rule: callback_code.cases) auto

lemma call_back_not_finished: "call_back env type args w = Some (kBeeErrorCode_State_Machine_Finished, es, w1) \<Longrightarrow> False"
  by (auto simp: call_back_def Let_def callback_not_finished split: prod.splits if_splits)

lemma ask_not_finished: "ask_script env type notice w = Some (kBeeErrorCode_State_Machine_Finished, es, w1) \<Longrightarrow> False"
  by (auto simp: ask_script_def split: if_splits dest: call_back_not_finished)

lemma header_finished:
  assumes "lua_handle_rcv_header env ec1 ec2 r w = Some (kBeeErrorCode_State_Machine_Finished, es, w1)" and "patient env"
    and "getting co w" and "waiting w"
  shows "\<exists>rs. Resume_Get co rs \<in> set es"
proof -
  define cb where "cb = (if lh_callbacks (hw_s w) eLuaHttpCallback_Header > LUA_REFNIL
           then call_back env eLuaHttpCallback_Header (Args_Response (push_response env ec1 ec2
             (lh_header_table (hw_s (with_header r w))) [] (hw_s (with_header r w)))) (with_header r w)
           else Some (kBeeErrorCode_Success, [], with_header r w))"
  have main: "lh_main (hw_s w) \<noteq> None" using assms(3) by (simp add: getting_def)
  with assms(1) obtain ret es1 w2 where 1: "cb = Some (ret, es1, w2)"
    unfolding lua_handle_rcv_header_eq cb_def [symmetric] by (cases cb) auto
  have "keeps_getting co (with_header r w) es1 w2"
    using 1 main assms(2) get.R_refl unfolding cb_def by (auto split: if_splits intro: get.R_call_back)
  with get.R_append [OF get.R_header] have "keeps_getting co w es1 w2" by fastforce
  then have g: "getting co w2" "waiting w2 \<or> (\<exists>rs. Resume_Get co rs \<in> set es1)" using assms(3,4) by (auto simp: keeps_getting_def)
  have "ret \<noteq> kBeeErrorCode_State_Machine_Finished"
    using 1 unfolding cb_def by (auto split: if_splits dest: call_back_not_finished)
  with assms(1) 1 main obtain es2 where "http_report env ec1 ec2 [] w2 = (es2, w1)" "es = es1 @ es2"
    unfolding lua_handle_rcv_header_eq cb_def [symmetric] by (auto split: if_splits prod.splits)
  with g report_reaches [OF g(1)] show ?thesis by (metis UnCI set_append)
qed

lemma content_told:
  assumes "lua_handle_rcv_content env ec1 ec2 data w = Some (ec, es, w1)" and "patient env" and "getting co w" and "waiting w"
  shows "\<exists>rs. Resume_Get co rs \<in> set es"
proof -
  define cb where "cb = (if lh_callbacks (hw_s w) eLuaHttpCallback_Body > LUA_REFNIL
           then call_back env eLuaHttpCallback_Body (Args_Response (push_response env ec1 ec2 [] (iob_content data) (hw_s w))) w
           else Some (kBeeErrorCode_Success, [], w))"
  have main: "lh_main (hw_s w) \<noteq> None" using assms(3) by (simp add: getting_def)
  with assms(1) obtain ret es1 w2 where 1: "cb = Some (ret, es1, w2)"
    unfolding lua_handle_rcv_content_def cb_def [symmetric] by (cases cb) auto
  have "keeps_getting co w es1 w2"
    using 1 main assms(2) get.R_refl unfolding cb_def by (auto split: if_splits intro: get.R_call_back)
  then have g: "getting co w2" "waiting w2 \<or> (\<exists>rs. Resume_Get co rs \<in> set es1)" using assms(3,4) by (auto simp: keeps_getting_def)
  from assms(1) 1 main obtain es2 v where "http_report env ec1 ec2 (iob_content data) w2 = (es2, v)" "es = es1 @ es2"
    unfolding lua_handle_rcv_content_def cb_def [symmetric] by (auto split: prod.splits)
  with g report_reaches [OF g(1)] show ?thesis by (metis UnCI set_append)
qed

lemma header_notices_finished:
  assumes "header_notices env r w = Some (kBeeErrorCode_State_Machine_Finished, es, w1)" and "patient env" and "getting co w" and "waiting w"
  shows "\<exists>rs. Resume_Get co rs \<in> set es"
proof -
  from assms(1) obtain c1 es1 v where 1: "lua_notice env (Notice_Header kBeeErrorCode_Success Ec_Ok r) w = Some (c1, es1, v)"
    by (auto simp: header_notices_def split: bind_splits)
  with assms(1) have "c1 = kBeeErrorCode_State_Machine_Finished \<and> es = es1"
    by (auto simp: header_notices_def lua_notice_def lua_handle_redirect_def split: bind_splits if_splits dest: ask_not_finished)
  with 1 header_finished [OF _ assms(2-4)] show ?thesis by (simp add: lua_notice_def)
qed

lemma finished_told:
  assumes "phase_notices env response ph x data w = Some (ec, es, w1)" and "patient env" and "getting co w" and "waiting w"
    and "ec = kBeeErrorCode_State_Machine_Finished \<or> ph = Reading_Body"
  shows "\<exists>rs. Resume_Get co rs \<in> set es"
  using assms(1,5)
  by (cases ph; cases x) (auto simp: phase_notices_def lua_notice_def lua_handle_resolve_def lua_handle_connect_def
      lua_handle_send_def split: option.splits dest: ask_not_finished header_notices_finished [OF _ assms(2-4)] content_told [OF _ assms(2-4)])

text \<open>Where a \<open>get\<close> stands: it waits and the machine is at work, or the machine has ended with what this says.\<close>

definition get_stands :: "nat \<Rightarrow> 'ep http_effect list \<Rightarrow> http_world \<Rightarrow> bool" where
  "get_stands co es w \<longleftrightarrow>
     (getting co w \<and> hw_phase w \<noteq> None \<and> hw_closes w = 0 \<and> (waiting w \<or> (\<exists>r. Resume_Get co r \<in> set es))
        \<and> (\<forall>c. Machine_Ends c \<notin> set es))
     \<or> (hw_activated w \<and> hw_phase w = None
        \<and> (\<forall>c. Machine_Ends c \<in> set es \<and> c \<noteq> kBeeErrorCode_Success \<longrightarrow> (\<exists>r. Resume_Get co r \<in> set es)))"

lemma keeps_machine_silent: "run_call c w = (ret, es, w') \<Longrightarrow> Machine_Ends ec \<notin> set es"
  by (cases c) (auto simp: session_get_def session_async_get_def start_request_def session_read_def session_scanf_def
    Let_def async_load_def split: if_splits prod.splits option.splits)

lemma run_call_activated:
  assumes "run_call c w = (ret, es, w')" and "hw_activated w" and "hw_phase w = None"
  shows "hw_activated w' \<and> hw_phase w' = None"
  using assms by (cases c) (auto simp: session_get_def session_async_get_def start_request_def session_read_def session_scanf_def
    http_close_def hw_stop_def Let_def split: if_splits prod.splits option.splits)

definition no_ends :: "http_world \<Rightarrow> 'ep http_effect list \<Rightarrow> http_world \<Rightarrow> bool" where
  "no_ends w es w' \<longleftrightarrow> (\<forall>c. Machine_Ends c \<notin> set es) \<and> (hw_activated w \<longrightarrow> hw_activated w' \<and> hw_phase w' = hw_phase w)"

lemma run_call_stays: "run_call c w = (ret, es, w') \<Longrightarrow> hw_activated w \<Longrightarrow> hw_activated w' \<and> hw_phase w' = hw_phase w"
  by (cases c) (auto simp: session_get_def session_async_get_def start_request_def session_read_def session_scanf_def
    http_close_def hw_stop_def Let_def split: if_splits prod.splits option.splits)

lemma run_calls_no_ends: "run_calls cs w = (es, w') \<Longrightarrow> no_ends w es w'"
  by (induction cs arbitrary: w es) (fastforce simp: no_ends_def split: prod.splits dest: keeps_machine_silent run_call_stays)+

interpretation machine: script_relation no_ends "\<lambda>_. True"
proof unfold_locales
  show "no_ends w es w1" if "call_back env type args w = Some (ec, es, w1)" for env w type args ec es w1
    using that by (rule call_back_parts) (auto simp: no_ends_def dest: run_calls_no_ends)
  show "no_ends w es w1" if "http_report env ec1 ec2 body w = (es, w1)" for env ec1 ec2 body w es w1
    using that by (cases rule: http_report_cases) (auto simp: no_ends_def dest: run_calls_no_ends)
qed (auto simp: no_ends_def with_header_def)

lemma no_ends_via: "\<exists>v. no_ends w es v \<and> (w1 = v \<or> P \<and> w1 = post_close v) \<Longrightarrow> no_ends w es w1"
  by (auto simp: no_ends_def)

lemma output_activated: "lua_http_output env ec ec2 w = (es, w1) \<Longrightarrow> no_ends w es w1"
  using machine.output_related [of env ec ec2 w es w1] by (auto simp: no_ends_def)

lemma get_via:
  "\<exists>v. keeps_getting co w es v \<and> (w1 = v \<or> P \<and> w1 = post_close v) \<Longrightarrow> getting co w \<Longrightarrow>
    getting co w1 \<and> hw_phase w1 = hw_phase w \<and> (\<not> P \<longrightarrow> hw_closes w1 = hw_closes w) \<and> (waiting w \<longrightarrow> waiting w1 \<or> (\<exists>r. Resume_Get co r \<in> set es))"
  by (auto simp: keeps_getting_def getting_def waiting_def)

lemma body_never_goes_on: "http_flow_next cl reachable response Reading_Body x data \<noteq> Goes_On ph"
  by (auto simp: http_flow_next_def if_agreed_def)

lemma get_reports:
  assumes "machine_reports env was_set ec1 ec2 x data response reachable ph w0 = Some (es, w')" and "patient env"
    and "getting co w0" and "hw_closes w0 = 0" and "waiting w0 \<or> (\<exists>r. Resume_Get co r \<in> set es0)" and "\<forall>c. Machine_Ends c \<notin> set es0"
    and "ec1 \<noteq> kBeeErrorCode_State_Machine_Finished"
  shows "get_stands co (es0 @ es) w'"
  using assms(1)
proof (cases rule: machine_reports_cases)
  let ?w = "as_connected ph ec1 ec2 w0"
  have g: "getting co ?w" "waiting ?w = waiting w0" "hw_activated ?w" using assms(3) by (simp_all add: getting_def waiting_def)
  case (goes ec w1 ph')
  from get_via [OF get.notices_related [OF assms(2) goes(2), of co] g(1)]
  have k: "getting co w1" "ph \<noteq> Reading_Body \<longrightarrow> hw_closes w1 = 0" "waiting ?w \<longrightarrow> waiting w1 \<or> (\<exists>r. Resume_Get co r \<in> set es)"
    using assms(4) by auto
  from no_ends_via [OF machine.notices_related [OF TrueI goes(2)]] have "\<forall>c. Machine_Ends c \<notin> set es" by (simp add: no_ends_def)
  moreover have "ph \<noteq> Reading_Body" using goes(3) body_never_goes_on by metis
  moreover have "getting co w'" "hw_closes w' = hw_closes w1" "hw_phase w' \<noteq> None" "waiting w' = waiting w1"
    using k(1) goes(5) by (simp_all add: getting_def waiting_def)
  ultimately show ?thesis using k g(2) assms(5,6) unfolding get_stands_def by auto
next
  let ?w = "as_connected ph ec1 ec2 w0"
  have g: "getting co ?w" "waiting ?w = waiting w0" "hw_activated ?w" using assms(3) by (simp_all add: getting_def waiting_def)
  case (ends es1 w1 c es2)
  let ?v = "w1\<lparr>hw_phase := None\<rparr>"
  have k: "getting co w1 \<and> (waiting ?w \<longrightarrow> waiting w1 \<or> (\<exists>r. Resume_Get co r \<in> set es1)) \<and> (\<forall>c. Machine_Ends c \<notin> set es1)
      \<and> (c = kBeeErrorCode_State_Machine_Finished \<and> waiting ?w \<longrightarrow> (\<exists>r. Resume_Get co r \<in> set es1))"
    using ends(3)
  proof (elim disjE exE conjE)
    assume "es1 = []" "w1 = w0" "c = ec1"
    with g assms(3,7) show ?thesis by auto
  next
    assume "es1 = []" "w1 = ?w" "hw_installed w0 \<longrightarrow> \<not> (ec1 = kBeeErrorCode_Success \<and> \<not> ec_set ec2) \<and> c = (if ec1 \<noteq> kBeeErrorCode_Success then ec1 else kBeeErrorCode_State_Machine_Interrupted)"
    with g assms(3,7) show ?thesis by (auto simp: getting_def split: if_splits)
  next
    fix ec assume n: "phase_notices env response ph x data ?w = Some (ec, es1, w1)" and
      f: "hw_installed w1 \<longrightarrow> http_flow_next (lua_client env response ?w) reachable response ph x data = Ends c"
    from get_via [OF get.notices_related [OF assms(2) n, of co] g(1)]
    have r: "getting co w1" "waiting ?w \<longrightarrow> waiting w1 \<or> (\<exists>r. Resume_Get co r \<in> set es1)" by auto
    with f flow_code [OF n, of reachable "Ends c"] have "c = kBeeErrorCode_State_Machine_Finished \<longrightarrow> ec = kBeeErrorCode_State_Machine_Finished \<or> ph = Reading_Body"
      by (auto simp: getting_def)
    with finished_told [OF n assms(2) g(1)] r no_ends_via [OF machine.notices_related [OF TrueI n]]
    show ?thesis by (auto simp: no_ends_def)
  qed
  have "getting co ?v" "waiting ?v = waiting w1" "hw_phase ?v = None" using k by (simp_all add: getting_def waiting_def)
  note v = this
  have "\<exists>u. keeps_getting co ?v es2 u \<and> (w' = u \<or> True \<and> w' = post_close u)"
    using get.output_related [OF assms(2) ends(2), of co] by simp
  from get_via [OF this v(1)] v(3) have "hw_phase w' = None" by simp
  moreover have "no_ends ?v es2 w'" by (rule output_activated [OF ends(2)])
  moreover have "hw_activated ?v" using v(1) by (simp add: getting_def)
  moreover have "\<exists>r. Resume_Get co r \<in> set (es0 @ es)" if "c \<noteq> kBeeErrorCode_Success"
  proof (cases "c \<noteq> kBeeErrorCode_State_Machine_Finished \<and> waiting w1")
    case True
    with output_reaches [OF v(1) _ ends(2) that] v(2) ends(1) show ?thesis by auto
  next
    case False
    with k g(2) assms(5) ends(1) show ?thesis by auto
  qed
  ultimately show ?thesis using k ends(1) assms(6) by (auto simp: get_stands_def no_ends_def)
qed

definition patient_label :: "'ep http_label \<Rightarrow> bool" where
  "patient_label l =
     (case l of
        Script_Makes call \<Rightarrow> call \<noteq> Call_Close
      | Machine_Reports env was_set ec1 ec2 x data response reachable \<Rightarrow> patient env \<and> ec1 \<noteq> kBeeErrorCode_State_Machine_Finished
      | Posted_Close \<Rightarrow> True)"

lemma get_acts:
  assumes "get_stands co es0 w" and "http_act l w = Some (es, w')" and "patient_label l"
  shows "get_stands co (es0 @ es) w'"
proof (cases l)
  case (Script_Makes call)
  with assms(2,3) obtain ret where c: "run_call call w = (ret, es, w')" "call \<noteq> Call_Close"
    by (auto simp: patient_label_def split: prod.splits)
  from keeps_machine_silent [OF c(1)] have quiet: "Machine_Ends k \<notin> set es" for k .
  from assms(1) consider
    (at_work) "getting co w" "hw_phase w \<noteq> None" "hw_closes w = 0" "waiting w \<or> (\<exists>r. Resume_Get co r \<in> set es0)" "\<forall>c. Machine_Ends c \<notin> set es0"
  | (over) "hw_activated w" "hw_phase w = None"
      "\<forall>c. Machine_Ends c \<in> set es0 \<and> c \<noteq> kBeeErrorCode_Success \<longrightarrow> (\<exists>r. Resume_Get co r \<in> set es0)"
    unfolding get_stands_def by (elim disjE conjE) simp_all
  then show ?thesis
  proof cases
    case at_work
    then have "lh_main (hw_s w) \<noteq> None" by (simp add: getting_def)
    from run_call_main [OF c(1) this c(2)] at_work quiet show ?thesis by (auto simp: get_stands_def getting_def waiting_def)
  next
    case over
    with run_call_activated [OF c(1)] quiet show ?thesis by (auto simp: get_stands_def)
  qed
next
  case (Machine_Reports env was_set ec1 ec2 x data response reachable)
  with assms(2) obtain ph where r: "hw_phase w = Some ph" "machine_reports env was_set ec1 ec2 x data response reachable ph w = Some (es, w')"
    by (auto split: option.splits)
  with assms(1,3) Machine_Reports get_reports [OF r(2)] show ?thesis by (auto simp: get_stands_def patient_label_def)
next
  case Posted_Close
  with assms(1,2) show ?thesis by (auto simp: get_stands_def http_close_def hw_stop_def Let_def split: if_splits)
qed

lemma get_runs:
  assumes "http_runs w ls es w'" and "get_stands co ([] :: 'ep http_effect list) w" and "\<forall>l \<in> set ls. patient_label l"
  shows "get_stands co (es :: 'ep http_effect list) w'"
  using assms by (induction rule: http_runs.induct) (auto intro: get_acts)

lemma get_answered:
  assumes "session_get (Some main) (Some co) p ok w = (kBeeErrorCode_Success, es0, w0)"
    and "\<not> lh_resumed (hw_s w)" and "lh_get_callback (hw_s w) = LUA_REFNIL" and "hw_installed w" and "hw_closes w = 0"
    and "http_runs w0 ls (es :: 'a http_effect list) w'"
  shows "length (filter resumes es) \<le> 1
    \<and> ((\<forall>l \<in> set ls. patient_label l) \<longrightarrow>
        (\<forall>c. Machine_Ends c \<in> set es \<and> c \<noteq> kBeeErrorCode_Success \<longrightarrow> (\<exists>r. Resume_Get co r \<in> set es)))"
proof -
  have "getting co w0 \<and> waiting w0 \<and> hw_phase w0 \<noteq> None \<and> hw_closes w0 = 0 \<and> \<not> lh_resumed (hw_s w0)"
    using assms(1-5) by (auto simp: session_get_def start_request_def getting_def waiting_def Let_def split: if_splits)
  then have "get_stands co ([] :: 'a http_effect list) w0" "\<not> lh_resumed (hw_s w0)" by (auto simp: get_stands_def)
  with once_runs [OF assms(6)] get_runs [OF assms(6)] show ?thesis
    by (auto simp: resumes_once_def get_stands_def split: if_splits)
qed

text \<open>
  C31: a coroutine that has asked for a page is resumed at most once, whatever the script, its callbacks
  and the network do; and if the script does not close the session itself, it has been resumed when the
  machine ends, unless the machine ends with \<open>Success\<close>. It does so in three cases: for a redirection
  without a location, for one whose socket cannot be set up, and for a state that reports success in an
  event it has not set up, the body of no chunks. (No state reports \<open>State_Machine_Finished\<close> itself.)
\<close>

theorem get_is_answered:
  assumes "session_get (Some main) (Some co) p ok w = (kBeeErrorCode_Success, es0, w0)"
    and "\<not> lh_resumed (hw_s w)" and "lh_get_callback (hw_s w) = LUA_REFNIL" and "hw_installed w" and "hw_closes w = 0"
    and "http_runs w0 ls (es :: 'a http_effect list) w'"
  shows "length (filter resumes es) \<le> 1
    \<and> ((\<forall>l \<in> set ls. patient_label l) \<longrightarrow>
        (\<forall>c. Machine_Ends c \<in> set es \<and> c \<noteq> kBeeErrorCode_Success \<longrightarrow> (\<exists>r. Resume_Get co r \<in> set es)))"
  by (rule get_answered [OF assms])

text \<open>
  The body of no chunks: the machine ends with \<open>Success\<close>, the script is told nothing, and whatever
  happens afterwards the waiting coroutine is never resumed.
\<close>

lemma over_never_resumes:
  assumes "http_runs w ls es w'" and "hw_activated w" and "hw_phase w = None"
  shows "filter resumes es = [] \<and> hw_activated w' \<and> hw_phase w' = None"
  using assms
proof (induction rule: http_runs.induct)
  case (http_step w ls es w' l es' w'')
  then have w: "hw_activated w'" "hw_phase w' = None" by simp_all
  have "filter resumes es' = [] \<and> hw_activated w'' \<and> hw_phase w'' = None"
  proof (cases l)
    case (Script_Makes call)
    then obtain ret where "run_call call w' = (ret, es', w'')" using http_step.hyps(2) by (auto split: prod.splits)
    from run_call_activated [OF this w] run_call_tells [OF this] show ?thesis by simp
  next
    case Posted_Close
    with http_step.hyps(2) w show ?thesis by (auto simp: http_close_def hw_stop_def Let_def split: if_splits)
  qed (use http_step.hyps(2) w in simp)
  with http_step show ?case by simp
qed simp

theorem empty_page_never_answered:
  assumes "hw_phase w = Some Reading_Body" and "hw_activated w"
  shows "\<exists>w0. http_act (Machine_Reports env False kBeeErrorCode_Success Ec_Ok x data response reachable) w
      = Some ([Machine_Ends kBeeErrorCode_Success], w0) \<and> waiting w0 = waiting w
    \<and> (\<forall>ls es w'. http_runs w0 ls es w' \<longrightarrow> filter resumes (es :: 'ep http_effect list) = [])"
proof (intro exI conjI allI impI)
  let ?w0 = "w\<lparr>hw_phase := None\<rparr>"
  show "http_act (Machine_Reports env False kBeeErrorCode_Success Ec_Ok x data response reachable) w
      = Some ([Machine_Ends kBeeErrorCode_Success], ?w0)"
    using assms(1) by (simp add: machine_reports_def lua_http_output_def)
  show "waiting ?w0 = waiting w" by (simp add: waiting_def)
  show "filter resumes es = []" if "http_runs ?w0 ls (es :: 'ep http_effect list) w'" for ls es w'
    using over_never_resumes [OF that] assms(2) by simp
qed

section \<open>A closed session\<close>

definition stays_silent :: "http_world \<Rightarrow> 'ep http_effect list \<Rightarrow> http_world \<Rightarrow> bool" where
  "stays_silent w es w' \<longleftrightarrow> (lh_main (hw_s w) = None \<longrightarrow> lh_main (hw_s w') = None \<and> filter tells_script es = [])"

interpretation silent: script_relation stays_silent "\<lambda>_. True"
proof unfold_locales
  show "stays_silent w es w1" if "http_report env ec1 ec2 body w = (es, w1)" for env ec1 ec2 body w es w1
    using that by (cases rule: http_report_cases) (auto simp: stays_silent_def)
qed (auto simp: stays_silent_def with_header_def)

lemma silent_via: "\<exists>v. stays_silent w es v \<and> (w1 = v \<or> P \<and> w1 = post_close v) \<Longrightarrow> stays_silent w es w1"
  by (auto simp: stays_silent_def)

lemma silent_reports:
  assumes "machine_reports env was_set ec1 ec2 x data response reachable ph w0 = Some (es, w')"
  shows "stays_silent w0 es w'"
  using assms
proof (cases rule: machine_reports_cases)
  let ?w = "as_connected ph ec1 ec2 w0"
  have n: "stays_silent w0 es1 w1" if "phase_notices env response ph x data ?w = Some (ec, es1, w1)" for ec es1 w1
    using silent_via [OF silent.notices_related [OF TrueI that]] by (simp add: stays_silent_def)
  case (ends es1 w1 c es2)
  have "stays_silent w0 es1 (w1\<lparr>hw_phase := None\<rparr>)" using ends(3) n by (auto simp: stays_silent_def)
  moreover have "stays_silent (w1\<lparr>hw_phase := None\<rparr>) es2 w'"
    using silent.output_related [OF TrueI ends(2)] by (auto simp: stays_silent_def)
  ultimately show ?thesis by (simp add: stays_silent_def ends(1))
next
  case (goes ec w1 ph')
  from silent_via [OF silent.notices_related [OF TrueI goes(2)]] goes(5) show ?thesis by (simp add: stays_silent_def)
qed

definition asks_again :: "'ep http_label \<Rightarrow> bool" where
  "asks_again l = (case l of Script_Makes (Call_Get _ _ _ _) \<Rightarrow> True | Script_Makes (Call_Async_Get _ _ _ _) \<Rightarrow> True | _ \<Rightarrow> False)"

lemma silent_act:
  assumes "http_act l w = Some (es, w')" and "\<not> asks_again l"
  shows "stays_silent w es w'"
proof (cases l)
  case (Script_Makes call)
  with assms show ?thesis
    by (cases call) (auto simp: asks_again_def stays_silent_def session_read_def session_scanf_def set_lua_callback_def http_close_def
      hw_stop_def Let_def split: prod.splits option.splits if_splits)
next
  case (Machine_Reports env was_set ec1 ec2 x data response reachable)
  with assms silent_reports show ?thesis by (auto split: option.splits)
next
  case Posted_Close
  with assms show ?thesis by (auto simp: stays_silent_def http_close_def hw_stop_def Let_def split: if_splits)
qed

lemma closed_silent:
  assumes "http_runs (http_close w) ls es w'" and "\<forall>l \<in> set ls. \<not> asks_again l"
  shows "filter tells_script es = []"
proof -
  have "lh_main (hw_s (http_close w)) = None" by (simp add: http_close_def hw_stop_def Let_def)
  moreover have "stays_silent v es w'" if "http_runs v ls es w'" "\<forall>l \<in> set ls. \<not> asks_again l" for v
    using that
    by (induction rule: http_runs.induct) (auto intro: silent.R_refl silent.R_append silent_act)
  ultimately show ?thesis using assms by (simp add: stays_silent_def)
qed

text \<open>
  A session that has been closed tells its script nothing any more, whatever its machine, which may
  still be resolving or connecting, reports, until the script asks again.
\<close>

theorem closed_session_is_silent:
  assumes "http_runs (http_close w) ls es w'" and "\<forall>l \<in> set ls. \<not> asks_again l"
  shows "filter tells_script es = []"
  by (rule closed_silent [OF assms])

section \<open>On the asynchronous machine\<close>

definition stays_gone :: "http_world \<Rightarrow> 'ep http_effect list \<Rightarrow> http_world \<Rightarrow> bool" where
  "stays_gone w es w' \<longleftrightarrow> (\<not> hw_installed w \<longrightarrow> \<not> hw_installed w')"

lemma run_calls_gone: "run_calls cs w = (es, w') \<Longrightarrow> \<not> hw_installed w \<Longrightarrow> \<not> hw_installed w'"
proof (induction cs arbitrary: w es)
  case (Cons c cs)
  have "\<not> hw_installed v" if "run_call c w = (ret, es', v)" for ret and es' :: "'a http_effect list" and v
    using that Cons.prems(2)
    by (cases c) (auto simp: session_get_def session_async_get_def start_request_def session_read_def session_scanf_def
      http_close_def hw_stop_def Let_def split: if_splits prod.splits option.splits)
  with Cons show ?case by (fastforce split: prod.splits)
qed simp

interpretation gone: script_relation stays_gone "\<lambda>_. True"
proof unfold_locales
  show "stays_gone w es w1" if "call_back env type args w = Some (ec, es, w1)" for env w type args ec es w1
    using that by (rule call_back_parts) (auto simp: stays_gone_def dest: run_calls_gone)
  show "stays_gone w es w1" if "http_report env ec1 ec2 body w = (es, w1)" for env ec1 ec2 body w es w1
    using that by (cases rule: http_report_cases) (auto simp: stays_gone_def dest: run_calls_gone)
qed (auto simp: stays_gone_def with_header_def)

text \<open>
  C32: this is what the machine of a script's session does. Whatever a state's handler reports, in an
  event that was set up or not, as long as the session has not been closed (its states are installed
  before and after the report), the asynchronous machine with the session's answers in its routers
  posts the next state of the model, or reports once with the code the model ends with.
\<close>

theorem script_session_on_machine:
  assumes "http_act (Machine_Reports env (ev_setup ev) ec1 ec2 (ev_extra ev) (ev_data ev) (hm_response (members m))
      (target_reachable verify_ok (members m))) w = Some (es, w')"
    and "hw_phase w = Some ph" and "hw_activated w" and "hw_installed w" and "hw_installed w'"
    and "session_machine verify_ok (lua_client env (hm_response (members m)) (as_connected ph ec1 ec2 w)) ptr m"
    and "st_output (fsm_heap m (ptr ph)) = Some ev"
  shows "\<exists>f ret m'. state_done_ec ec1 ec2 (ptr ph) m = Some (ret, m')
    \<and> follows (spec_of True verify_ok (lua_client env (hm_response (members m)) (as_connected ph ec1 ec2 w))) f ptr m ret m'
    \<and> (case f of Goes_On ph' \<Rightarrow> hw_phase w' = Some ph' | Ends c \<Rightarrow> hw_phase w' = None \<and> last es = Machine_Ends c)"
proof -
  let ?cl = "lua_client env (hm_response (members m)) (as_connected ph ec1 ec2 w)"
  let ?next = "http_flow_next ?cl (target_reachable verify_ok (members m)) (hm_response (members m)) ph (ev_extra ev) (ev_data ev)"
  let ?f = "if \<not> ev_setup ev \<or> ec1 \<noteq> kBeeErrorCode_Success then Ends ec1 else if ec_set ec2 then Ends kBeeErrorCode_State_Machine_Interrupted else ?next"
  have r: "machine_reports env (ev_setup ev) ec1 ec2 (ev_extra ev) (ev_data ev) (hm_response (members m)) (target_reachable verify_ok (members m)) ph w = Some (es, w')"
    using assms(1,2) by simp
  have "case ?f of Goes_On ph' \<Rightarrow> hw_phase w' = Some ph' | Ends c \<Rightarrow> hw_phase w' = None \<and> last es = Machine_Ends c"
    using r
  proof (cases rule: machine_reports_cases)
    case (ends es1 w1 c es2)
    have "\<exists>v. stays_gone (w1\<lparr>hw_phase := None\<rparr>) es2 v \<and> (w' = v \<or> w' = post_close v)" by (rule gone.output_related [OF TrueI ends(2)])
    with assms(5) have w1: "hw_installed w1" by (auto simp: stays_gone_def)
    have act: "hw_activated w1"
      using ends(3) assms(3) no_ends_via [OF machine.notices_related [OF TrueI]] by (fastforce simp: no_ends_def)
    from no_ends_via [of "w1\<lparr>hw_phase := None\<rparr>" es2 w' True] machine.output_related [OF TrueI ends(2)]
    have "no_ends (w1\<lparr>hw_phase := None\<rparr>) es2 w'" by blast
    with act have p: "hw_phase w' = None" by (simp add: no_ends_def)
    have "?f = Ends c" using ends(3) w1 assms(4) by (elim disjE exE conjE) auto
    with p ends(1) show ?thesis by simp
  next
    case (goes ec w1 ph')
    then show ?thesis by simp
  qed
  with session_follows [OF assms(6,7), of ec1 ec2] show ?thesis by blast
qed

section \<open>Answers twice, too early and never\<close>

text \<open>
  A script that has asked with a callback and whose body callback refuses the content is told twice:
  that it got the page, with the content, and then that the page was rejected.
\<close>

theorem rejected_page_is_told_twice:
  assumes "hw_phase w = Some Reading_Body" and "hw_installed w" and "lh_main (hw_s w) \<noteq> None"
    and "lh_get_callback (hw_s w) = cb" and "cb \<noteq> LUA_REFNIL" and "lh_callbacks (hw_s w) eLuaHttpCallback_Body = body" and "LUA_REFNIL < body"
    and "\<forall>args. he_callback env body args = (Cb_Returns [Arg_Boolean False], [])" and "body \<noteq> cb" and "\<forall>args. snd (he_callback env cb args) = []"
  shows "\<exists>args r1 r2 w'. http_act (Machine_Reports env True kBeeErrorCode_Success Ec_Ok x data response reachable) w =
      Some ([Run_Callback eLuaHttpCallback_Body body args, Run_Get_Callback cb r1, Run_Get_Callback cb r2, Machine_Ends kBeeErrorCode_Engine_Reject], w')
    \<and> lr_ec1 r1 = kBeeErrorCode_Success \<and> lr_http_body r1 = iob_content data \<and> lr_ec1 r2 = kBeeErrorCode_Engine_Reject"
proof -
  obtain n where n: "lh_main (hw_s w) = Some n" using assms(3) by auto
  let ?rep = "\<lambda>ec body. push_response env ec Ec_Ok (lh_header_table (hw_s w)) body (hw_s w)"
  let ?args = "Args_Response (push_response env kBeeErrorCode_Success Ec_Ok [] (iob_content data) (hw_s w))"
  have report: "http_report env ec Ec_Ok b v = ([Run_Get_Callback cb (?rep ec b)], v)" if "hw_s v = hw_s w" for ec b v
    using assms(4,5,10) n that by (simp add: http_report_def report_async_get_result_def Let_def)
  have content: "lua_handle_rcv_content env kBeeErrorCode_Success Ec_Ok data w =
      Some (kBeeErrorCode_Engine_Reject, [Run_Callback eLuaHttpCallback_Body body ?args, Run_Get_Callback cb (?rep kBeeErrorCode_Success (iob_content data))], post_close w)"
    using assms(6-8) n report [of w] by (simp add: lua_handle_rcv_content_def call_back_def)
  have flow: "http_flow_next (lua_client env response w) reachable response Reading_Body x data = Ends kBeeErrorCode_Engine_Reject"
    using content by (simp add: http_flow_next_def client_verdict client_self code_of_def lua_notice_def if_agreed_def)
  have out: "lua_http_output env kBeeErrorCode_Engine_Reject Ec_Ok ((post_close w)\<lparr>hw_phase := None\<rparr>)
      = ([Run_Get_Callback cb (?rep kBeeErrorCode_Engine_Reject [])], post_close ((post_close w)\<lparr>hw_phase := None\<rparr>))"
    using report [of "(post_close w)\<lparr>hw_phase := None\<rparr>"] by (simp add: lua_http_output_def)
  show ?thesis
    using assms(1,2) content flow out
    by (simp add: machine_reports_def phase_notices_def lua_notice_def push_response_def)
qed

text \<open>
  A page that is read by hand is answered with its header, whatever the header says: a redirection is
  not followed, and what the header callback answers is not looked at.
\<close>

theorem manual_get_takes_any_header:
  assumes "hw_phase w = Some Reading_Header" and "hw_installed w" and "getting co w" and "waiting w" and "lh_manual_read_body (hw_s w)"
    and "LUA_REFNIL < lh_callbacks (hw_s w) eLuaHttpCallback_Header" and "\<forall>args. he_callback env (lh_callbacks (hw_s w) eLuaHttpCallback_Header) args = (ending, [])"
    and "\<forall>r. he_coroutine env co r = []"
  shows "\<exists>args rs w'. http_act (Machine_Reports env True kBeeErrorCode_Success Ec_Ok x data (Some r) reachable) w =
      Some ([Run_Callback eLuaHttpCallback_Header (lh_callbacks (hw_s w) eLuaHttpCallback_Header) args, Resume_Get co rs,
             Machine_Ends kBeeErrorCode_State_Machine_Finished], w')
    \<and> lr_ec1 rs = kBeeErrorCode_Success \<and> lr_status_code rs = rs_status_code r \<and> hw_phase w' = None"
proof -
  let ?v = "with_header r w" and ?b = "lh_callbacks (hw_s w) eLuaHttpCallback_Header"
  obtain n where n: "lh_main (hw_s w) = Some n" using assms(3) by (auto simp: getting_def)
  have s: "lh_main (hw_s ?v) = Some n" "lh_callbacks (hw_s ?v) = lh_callbacks (hw_s w)" "lh_co (hw_s ?v) = Some co"
    "lh_get_callback (hw_s ?v) = LUA_REFNIL" "lh_yielding (hw_s ?v)" "\<not> lh_resumed (hw_s ?v)" "lh_manual_read_body (hw_s ?v)"
    "lh_status_code (hw_s ?v) = rs_status_code r" "hw_installed ?v"
    using assms(2-5) n by (simp_all add: with_header_def getting_def waiting_def)
  let ?args = "Args_Response (push_response env kBeeErrorCode_Success Ec_Ok (lh_header_table (hw_s ?v)) [] (hw_s ?v))"
  let ?rs = "push_response env kBeeErrorCode_Success Ec_Ok (lh_header_table (hw_s ?v)) [] (hw_s ?v)"
  let ?u = "?v\<lparr>hw_s := (hw_s ?v)\<lparr>lh_resumed := True, lh_yielding := False\<rparr>\<rparr>"
  have cb: "call_back env eLuaHttpCallback_Header ?args ?v = Some (callback_code ending, [Run_Callback eLuaHttpCallback_Header ?b ?args], ?v)"
    using assms(7) s by (simp add: call_back_def)
  have rep: "http_report env kBeeErrorCode_Success Ec_Ok [] ?v = ([Resume_Get co ?rs], ?u)"
    using s assms(8) by (simp add: http_report_def http_resume_def Let_def)
  have h: "lua_handle_rcv_header env kBeeErrorCode_Success Ec_Ok r w = Some (kBeeErrorCode_State_Machine_Finished,
      [Run_Callback eLuaHttpCallback_Header ?b ?args, Resume_Get co ?rs], ?u)"
    using n assms(6) cb rep s by (simp add: lua_handle_rcv_header_eq)
  have flow: "http_flow_next (lua_client env (Some r) w) reachable (Some r) Reading_Header x data = Ends kBeeErrorCode_State_Machine_Finished"
    using h by (simp add: http_flow_next_def header_flow_def client_verdict client_self code_of_def lua_notice_def if_agreed_def)
  show ?thesis
    using assms(1,2) h flow s(8,9)
    by (simp add: machine_reports_def phase_notices_def header_notices_def lua_notice_def lua_http_output_def push_response_def split: tcp_extra.split)
qed

text \<open>
  A script must not close its session in a callback: the stack the callback's coroutine is taken from
  is popped through the pointer that closing has reset.
\<close>

theorem closing_in_a_callback_crashes:
  assumes "hw_phase w = Some Resolving" and "hw_installed w" and "lh_main (hw_s w) \<noteq> None"
    and "lh_callbacks (hw_s w) eLuaHttpCallback_Resolve = cb" and "cb \<noteq> LUA_REFNIL" and "\<forall>args. snd (he_callback env cb args) = [Call_Close]"
  shows "http_act (Machine_Reports env True kBeeErrorCode_Success Ec_Ok (Resolve_Output eps) data response reachable) w = None"
proof -
  have "lh_main (hw_s (http_close w)) = None" by (simp add: http_close_def hw_stop_def Let_def)
  moreover obtain n where n: "lh_main (hw_s w) = Some n" using assms(3) by auto
  ultimately have "call_back env eLuaHttpCallback_Resolve args w = None" for args
    using assms(4,6) by (cases "he_callback env cb args") (auto simp: call_back_def dest!: spec [of _ args])
  with assms(1,2,4,5) n show ?thesis
    by (simp add: machine_reports_def phase_notices_def lua_notice_def lua_handle_resolve_def ask_script_def)
qed

section \<open>Instances\<close>

fun http_exec :: "'ep http_label list \<Rightarrow> http_world \<Rightarrow> ('ep http_effect list \<times> http_world) option" where
  "http_exec [] w = Some ([], w)"
| "http_exec (l # ls) w = do { (es, w1) \<leftarrow> http_act l w; (es', w2) \<leftarrow> http_exec ls w1; Some (es @ es', w2) }"

lemma exec_extends:
  assumes "http_runs w ls es v" and "http_exec ls' v = Some (es', w')"
  shows "http_runs w (ls @ ls') (es @ es') w'"
  using assms
proof (induction ls' arbitrary: ls es v es')
  case (Cons l ls')
  then obtain es1 v1 es2 where a: "http_act l v = Some (es1, v1)" and b: "http_exec ls' v1 = Some (es2, w')" and "es' = es1 @ es2"
    by (auto split: bind_splits)
  with Cons.IH [OF http_step [OF Cons.prems(1) a] b] show ?case by simp
qed simp

lemmas http_exec_runs = exec_extends [OF http_start, simplified]

definition demo_script :: "nat http_env" where
  "demo_script = \<lparr>he_time = 7, he_callback = (\<lambda>_ _. (Cb_Returns [], [])), he_coroutine = (\<lambda>_ _. [])\<rparr>"

definition demo_get_param :: get_param where
  "demo_get_param = \<lparr>gp_url = ''http://h/'', gp_manual = False, gp_one_off = True, gp_ref_url = [], gp_range_start = - 1, gp_range_end = - 1, gp_timeout = - 1\<rparr>"

abbreviation demo_report :: "nat tcp_extra \<Rightarrow> HttpResponse option \<Rightarrow> nat http_label" where
  "demo_report x response \<equiv> Machine_Reports demo_script True kBeeErrorCode_Success Ec_Ok x (IOBuffer_new 0) response True"

definition demo_asked :: http_world where
  "demo_asked = (http_world_new True False)\<lparr>hw_s := LuaHttpSession_new\<lparr>lh_main := Some 0, lh_co := Some 1, lh_yielding := True\<rparr>,
     hw_activated := True, hw_phase := Some Resolving\<rparr>"

lemmas http_eval = machine_reports_def phase_notices_def header_notices_def lua_notice_def lua_handle_resolve_def lua_handle_connect_def
  lua_handle_send_def lua_handle_rcv_header_eq lua_handle_rcv_content_def ask_script_def http_flow_next_def header_flow_def client_verdict
  client_self code_of_def if_agreed_def lua_http_output_def http_report_def http_resume_def report_async_get_result_def redirect_codes_set

definition demo_labels :: "nat http_label list" where
  "demo_labels =
     [demo_report (Resolve_Output [0]) None, demo_report (Connect_Output (Some 0) 0) None, demo_report (Send_Output 9) None,
      demo_report Plain_Event (Some (HttpResponse_blank\<lparr>rs_status_code := 200\<rparr>)),
      demo_report Plain_Event (Some (HttpResponse_blank\<lparr>rs_status_code := 200\<rparr>)), Posted_Close]"

lemma demo_run:
  "\<exists>rs w'. http_runs demo_asked demo_labels [Resume_Get 1 rs, Machine_Ends kBeeErrorCode_State_Machine_Finished] w'"
proof -
  have "map_option fst (http_exec demo_labels demo_asked) =
      Some [Resume_Get 1 \<lparr>lr_ec1 = kBeeErrorCode_Success, lr_ec2 = Ec_Ok, lr_status_code = 200, lr_http_time = 7, lr_http_header = [], lr_http_body = []\<rparr>,
        Machine_Ends kBeeErrorCode_State_Machine_Finished]"
    by (simp add: demo_labels_def demo_script_def demo_asked_def http_world_new_def LuaHttpSession_new_def with_header_def push_response_def
        HttpResponse_blank_def rs_get_content_len_def iob_content_def IOBuffer_new_def post_close_def http_eval)
  then obtain rs w' where "http_exec demo_labels demo_asked = Some ([Resume_Get 1 rs, Machine_Ends kBeeErrorCode_State_Machine_Finished], w')"
    by (cases "http_exec demo_labels demo_asked") auto
  then show ?thesis using http_exec_runs by blast
qed

lemma demo_patient: "patient demo_script"
  by (simp add: patient_def demo_script_def)

lemma demo_get: "session_get (Some 0) (Some 1) demo_get_param True (http_world_new True False)
    = (kBeeErrorCode_Success, [Request ''http://h/'' [] (- 1) (- 1)], demo_asked)"
  by (simp add: session_get_def start_request_def demo_asked_def http_world_new_def LuaHttpSession_new_def demo_get_param_def)

theorem get_is_answered_witness:
  "\<exists>rs w'. http_runs demo_asked demo_labels [Resume_Get 1 rs, Machine_Ends kBeeErrorCode_State_Machine_Finished] w'
    \<and> length (filter resumes [Resume_Get 1 rs :: nat http_effect, Machine_Ends kBeeErrorCode_State_Machine_Finished]) \<le> 1"
proof -
  obtain rs w' where r: "http_runs demo_asked demo_labels [Resume_Get 1 rs, Machine_Ends kBeeErrorCode_State_Machine_Finished] w'"
    using demo_run by blast
  have "\<not> lh_resumed (hw_s (http_world_new True False))" "lh_get_callback (hw_s (http_world_new True False)) = LUA_REFNIL"
    "hw_installed (http_world_new True False)" "hw_closes (http_world_new True False) = 0"
    by (simp_all add: http_world_new_def LuaHttpSession_new_def)
  from get_is_answered [OF demo_get this r] r show ?thesis by blast
qed

theorem closed_session_is_silent_witness:
  "\<exists>es w'. http_runs (http_close demo_asked) [demo_report (Resolve_Output [0]) None] es w' \<and> es \<noteq> [] \<and> filter tells_script es = []"
proof -
  have "map_option fst (http_exec [demo_report (Resolve_Output [0]) None] (http_close demo_asked))
      = Some [Machine_Ends kBeeErrorCode_Engine_Internal_Error]"
    by (simp add: demo_asked_def http_world_new_def LuaHttpSession_new_def http_close_def hw_stop_def TcpStateMachine_new_def http_eval)
  then obtain w' where "http_exec [demo_report (Resolve_Output [0]) None] (http_close demo_asked)
      = Some ([Machine_Ends kBeeErrorCode_Engine_Internal_Error], w')"
    by (cases "http_exec [demo_report (Resolve_Output [0]) None] (http_close demo_asked)") auto
  then have "http_runs (http_close demo_asked) [demo_report (Resolve_Output [0]) None] [Machine_Ends kBeeErrorCode_Engine_Internal_Error] w'"
    by (rule http_exec_runs)
  with closed_session_is_silent [OF this] show ?thesis by (auto simp: asks_again_def)
qed

theorem script_session_on_machine_witness:
  "\<exists>ptr m ret m'. state_done_ec kBeeErrorCode_Success Ec_Ok (ptr Resolving) m = Some (ret, m')
    \<and> follows (spec_of True False (lua_client demo_script None demo_asked)) (Goes_On Connecting) ptr m ret m'"
proof -
  obtain ptr m ev where m: "session_machine False (lua_client demo_script None demo_asked) ptr m"
    "st_output (fsm_heap m (ptr Resolving)) = Some ev" "ev_setup ev" "ev_extra ev = Resolve_Output [0]" "hm_response (members m) = None"
    using demo_session by blast
  have d: "hw_phase demo_asked = Some Resolving" "hw_activated demo_asked" "hw_installed demo_asked"
    "as_connected Resolving kBeeErrorCode_Success Ec_Ok demo_asked = demo_asked"
    by (simp_all add: demo_asked_def http_world_new_def as_connected_def)
  have n: "lua_notice demo_script (Notice_Resolve c1 c2 eps) demo_asked = Some (kBeeErrorCode_Success, [], demo_asked)" for c1 c2 eps
    by (simp add: lua_notice_def lua_handle_resolve_def ask_script_def demo_asked_def LuaHttpSession_new_def)
  have a: "http_act (Machine_Reports demo_script True kBeeErrorCode_Success Ec_Ok (ev_extra ev) (ev_data ev) (hm_response (members m)) r) demo_asked
      = Some ([], demo_asked\<lparr>hw_phase := Some Connecting\<rparr>)" for r
    using d n m(4,5)
    by (simp add: machine_reports_def phase_notices_def http_flow_next_def client_verdict client_self code_of_def if_agreed_def)
  have a': "http_act (Machine_Reports demo_script (ev_setup ev) kBeeErrorCode_Success Ec_Ok (ev_extra ev) (ev_data ev) (hm_response (members m)) r) demo_asked
      = Some ([], demo_asked\<lparr>hw_phase := Some Connecting\<rparr>)" for r using a m(3) by simp
  have i: "hw_installed (demo_asked\<lparr>hw_phase := Some Connecting\<rparr>)" using d(3) by simp
  from script_session_on_machine [where ptr = ptr, OF a' d(1-3) i, unfolded d(4) m(5), OF m(1,2)] obtain f ret m' where
    "state_done_ec kBeeErrorCode_Success Ec_Ok (ptr Resolving) m = Some (ret, m')"
    "follows (spec_of True False (lua_client demo_script None demo_asked)) f ptr m ret m'"
    "case f of Goes_On ph' \<Rightarrow> hw_phase (demo_asked\<lparr>hw_phase := Some Connecting\<rparr>) = Some ph'
     | Ends c \<Rightarrow> hw_phase (demo_asked\<lparr>hw_phase := Some Connecting\<rparr>) = None \<and> last [] = (Machine_Ends c :: nat http_effect)" by blast
  then show ?thesis by (cases f) auto
qed

definition demo_refusing :: "nat http_env" where
  "demo_refusing = demo_script\<lparr>he_callback := (\<lambda>cb _. if cb = 4 then (Cb_Returns [Arg_Boolean False], []) else (Cb_Returns [], []))\<rparr>"

theorem rejected_page_is_told_twice_witness:
  "\<exists>args r1 r2 w'. http_act (Machine_Reports demo_refusing True kBeeErrorCode_Success Ec_Ok Plain_Event (IOBuffer_new 0) None True)
      (demo_asked\<lparr>hw_phase := Some Reading_Body, hw_s := (hw_s demo_asked)\<lparr>lh_get_callback := 3,
         lh_callbacks := (\<lambda>_. LUA_REFNIL)(eLuaHttpCallback_Body := 4)\<rparr>\<rparr>) =
      Some ([Run_Callback eLuaHttpCallback_Body 4 args, Run_Get_Callback 3 r1, Run_Get_Callback 3 r2, Machine_Ends kBeeErrorCode_Engine_Reject], w')"
  using rejected_page_is_told_twice [of "demo_asked\<lparr>hw_phase := Some Reading_Body, hw_s := (hw_s demo_asked)\<lparr>lh_get_callback := 3,
         lh_callbacks := (\<lambda>_. LUA_REFNIL)(eLuaHttpCallback_Body := 4)\<rparr>\<rparr>" 3 4 demo_refusing Plain_Event "IOBuffer_new 0" None True]
  by (fastforce simp: demo_asked_def http_world_new_def LuaHttpSession_new_def demo_refusing_def LUA_REFNIL_def)

definition demo_manual :: http_world where
  "demo_manual = demo_asked\<lparr>hw_phase := Some Reading_Header, hw_s := (hw_s demo_asked)\<lparr>lh_manual_read_body := True,
     lh_callbacks := (\<lambda>_. LUA_REFNIL)(eLuaHttpCallback_Header := 4)\<rparr>\<rparr>"

theorem manual_get_takes_any_header_witness:
  "\<exists>args rs w'. http_act (Machine_Reports demo_refusing True kBeeErrorCode_Success Ec_Ok Plain_Event (IOBuffer_new 0)
        (Some (HttpResponse_blank\<lparr>rs_status_code := 302\<rparr>)) True) demo_manual =
      Some ([Run_Callback eLuaHttpCallback_Header 4 args, Resume_Get 1 rs, Machine_Ends kBeeErrorCode_State_Machine_Finished], w')
    \<and> lr_status_code rs = 302"
proof -
  have "hw_phase demo_manual = Some Reading_Header" "hw_installed demo_manual" "getting 1 demo_manual" "waiting demo_manual"
    "lh_manual_read_body (hw_s demo_manual)" "lh_callbacks (hw_s demo_manual) eLuaHttpCallback_Header = 4"
    by (simp_all add: demo_manual_def demo_asked_def http_world_new_def LuaHttpSession_new_def getting_def waiting_def)
  moreover have "he_callback demo_refusing 4 args = (Cb_Returns [Arg_Boolean False], [])" "he_coroutine demo_refusing 1 r = []" for args r
    by (simp_all add: demo_refusing_def demo_script_def)
  ultimately show ?thesis
    using manual_get_takes_any_header [of demo_manual 1 demo_refusing "Cb_Returns [Arg_Boolean False]" Plain_Event "IOBuffer_new 0"
        "HttpResponse_blank\<lparr>rs_status_code := 302\<rparr>" True]
    by (fastforce simp: LUA_REFNIL_def)
qed

definition demo_closing :: "nat http_env" where
  "demo_closing = demo_script\<lparr>he_callback := (\<lambda>_ _. (Cb_Returns [], [Call_Close]))\<rparr>"

theorem closing_in_a_callback_crashes_witness:
  "http_act (Machine_Reports demo_closing True kBeeErrorCode_Success Ec_Ok (Resolve_Output [0]) (IOBuffer_new 0) None True)
     (demo_asked\<lparr>hw_s := (hw_s demo_asked)\<lparr>lh_callbacks := (\<lambda>_. 5)\<rparr>\<rparr>) = None"
  by (rule closing_in_a_callback_crashes [where cb = 5])
    (simp_all add: demo_asked_def http_world_new_def LUA_REFNIL_def demo_closing_def LuaHttpSession_new_def)

end
