(* ===== verification/Bee_Lua_Http_Module.thy ===== *)
theory Bee_Lua_Http_Module
  imports Bee_Lua_Http Bee_Data_Promise
begin

text \<open>
  The module \<open>http\<close> of scripts (src/lua/module/lua_http_module.cpp): its functions look at their arguments,
  find the session a handle names and call it. \<open>None\<close> is undefined behaviour: \<open>lua_next\<close> after a key has been
  changed, and a number for \<open>sscanf\<close> that does not fit.
\<close>

section \<open>Module and callers\<close>

text \<open>Sessions are numbered; the table of handles holds their numbers.\<close>

record http_module =
  hx_objs :: "nat lua_objs"
  hx_sessions :: "nat \<Rightarrow> http_world"
  hx_count :: nat
  hx_main :: "nat option"

definition LuaHttpModule_new :: "u32 \<Rightarrow> nat option \<Rightarrow> http_module" where
  "LuaHttpModule_new n main = \<lparr>hx_objs = LuaObjMgr_new n, hx_sessions = (\<lambda>_. http_world_new False False), hx_count = 0, hx_main = main\<rparr>"

text \<open>
  What a function finds besides its arguments: its coroutine, the event loop of the script's session if there is
  such a session, whether certificates can be loaded, whether the request's URL can be asked for, the numbers
  \<open>luaL_ref\<close> gives to values, and what stands in the memory a pointer points to.
\<close>

record http_caller =
  ha_co :: nat
  ha_session :: "bool option"
  ha_loaded :: bool
  ha_ok :: bool
  ha_reference :: "lua_arg \<Rightarrow> int"
  ha_memory :: "nat \<Rightarrow> nat \<Rightarrow> byte option list"

datatype http_outcome = Http_Returns "int list" | Http_Yields | Http_Raises string | Http_Bad_Answer int

type_synonym 'ep http_answer = "http_outcome \<times> 'ep http_effect list \<times> http_module"

definition raise_error :: "string \<Rightarrow> http_module \<Rightarrow> 'ep http_answer" where
  "raise_error text m = (Http_Raises text, [], m)"

definition no_session :: string where "no_session = ''Can't find http session from handle''"

definition with_session :: "int \<Rightarrow> http_module \<Rightarrow> (nat \<Rightarrow> 'ep http_answer) \<Rightarrow> 'ep http_answer" where
  "with_session n m f =
     (case get_obj (handle_of n) (hx_objs m) of
        None \<Rightarrow> raise_error no_session m
      | Some i \<Rightarrow> f i)"

definition call_session :: "http_call \<Rightarrow> nat \<Rightarrow> http_module \<Rightarrow> BeeErrorCode \<times> 'ep http_effect list \<times> http_module" where
  "call_session c i m =
     (let (ret, es, w) = run_call c (hx_sessions m i) in (ret, es, m\<lparr>hx_sessions := (hx_sessions m)(i := w)\<rparr>))"

definition succeeds :: "http_outcome \<Rightarrow> string \<Rightarrow> BeeErrorCode \<times> 'ep http_effect list \<times> http_module \<Rightarrow> 'ep http_answer" where
  "succeeds out text r = (case r of (ret, es, m) \<Rightarrow> (if ret = kBeeErrorCode_Success then out else Http_Raises text, es, m))"

section \<open>The options of a request\<close>

text \<open>\<open>%d\<close> of \<open>sscanf\<close>: the number and the rest, if there is one; a number that is no \<open>int32_t\<close> is undefined.\<close>

definition scan_d :: "string \<Rightarrow> (int \<times> string) option option" where
  "scan_d s =
     (let (neg, ds) = split_sign (dropWhile is_space s);
          v = int (digits_value (takeWhile is_digit ds));
          n = (if neg then - v else v)
      in if takeWhile is_digit ds = [] then Some None
         else if n < - (2 ^ 31) \<or> 2 ^ 31 \<le> n then None
         else Some (Some (n, dropWhile is_digit ds)))"

text \<open>\<open>sscanf(value, "%d-%d", &start, &end)\<close>; what is not read stays \<open>- 1\<close>.\<close>

definition scan_range :: "string \<Rightarrow> (int \<times> int) option" where
  "scan_range s =
     do {
       first \<leftarrow> scan_d s;
       (case first of
          Some (start, CHR ''-'' # rest) \<Rightarrow>
            do {
              second \<leftarrow> scan_d rest;
              Some (start, case second of None \<Rightarrow> - 1 | Some (end_pos, _) \<Rightarrow> end_pos)
            }
        | Some (start, _) \<Rightarrow> Some (start, - 1)
        | None \<Rightarrow> Some (- 1, - 1))
     }"

definition kHttpRangeStr :: string where "kHttpRangeStr = ''range''"
definition kHttpTimeoutStr :: string where "kHttpTimeoutStr = ''conn_timeout''"
definition kManualReadBody :: string where "kManualReadBody = ''manual''"
definition kOneOff :: string where "kOneOff = ''oneoff''"

text \<open>
  The options in the order of \<open>lua_next\<close>. \<open>strncmp\<close> compares the length of the option's name, so whatever begins
  with it is taken for it. A name that is none is skipped, a name that is no text and a value of the wrong kind
  make the call invalid (\<open>Some None\<close>).
\<close>

fun get_options :: "(lua_arg \<times> lua_arg) list \<Rightarrow> get_param \<Rightarrow> get_param option option" where
  "get_options [] p = Some (Some p)"
| "get_options ((k, v) # kvs) p =
     (case k of
        Arg_Integer _ \<Rightarrow> None
      | Arg_Text t \<Rightarrow>
          (if prefix kHttpRangeStr (c_text t) then
             (case lua_text v of
                None \<Rightarrow> Some None
              | Some value \<Rightarrow>
                  (case scan_range value of
                     None \<Rightarrow> None
                   | Some (s, e) \<Rightarrow> get_options kvs (p\<lparr>gp_range_start := s, gp_range_end := e\<rparr>)))
           else if prefix kHttpTimeoutStr (c_text t) then
             (case v of Arg_Integer n \<Rightarrow> get_options kvs (p\<lparr>gp_timeout := int32_of n\<rparr>) | _ \<Rightarrow> Some None)
           else if prefix kManualReadBody (c_text t) then
             (case v of Arg_Integer n \<Rightarrow> get_options kvs (p\<lparr>gp_manual := (n \<noteq> 0)\<rparr>) | _ \<Rightarrow> Some None)
           else if prefix kOneOff (c_text t) then
             (case v of Arg_Integer n \<Rightarrow> get_options kvs (p\<lparr>gp_one_off := (n \<noteq> 0)\<rparr>) | _ \<Rightarrow> Some None)
           else get_options kvs p)
      | _ \<Rightarrow> Some None)"

definition get_param_new :: "string \<Rightarrow> get_param" where
  "get_param_new url = \<lparr>gp_url = url, gp_manual = False, gp_one_off = True, gp_ref_url = [], gp_range_start = - 1, gp_range_end = - 1, gp_timeout = - 1\<rparr>"

section \<open>The functions\<close>

definition http_lua_open :: "http_caller \<Rightarrow> lua_arg list \<Rightarrow> http_module \<Rightarrow> 'ep http_answer" where
  "http_lua_open a args m =
     (if args \<noteq> [] then raise_error ''Invalid args.'' m
      else case ha_session a of
             None \<Rightarrow> raise_error ''No session in table.'' m
           | Some ios \<Rightarrow>
               (let (handle, objs) = new_lua_obj (Some (hx_count m)) (hx_objs m)
                in (Http_Returns [uint handle], [],
                    m\<lparr>hx_objs := objs, hx_count := hx_count m + 1,
                      hx_sessions := (hx_sessions m)(hx_count m := http_world_new ios (ha_loaded a))\<rparr>)))"

definition http_lua_close :: "lua_arg list \<Rightarrow> http_module \<Rightarrow> 'ep http_answer" where
  "http_lua_close args m =
     (case args of
        [Arg_Integer n] \<Rightarrow>
          (let (obj, objs) = delete_lua_obj (handle_of n) (hx_objs m); m1 = m\<lparr>hx_objs := objs\<rparr>
           in case obj of
                None \<Rightarrow> raise_error no_session m1
              | Some i \<Rightarrow> succeeds (Http_Returns []) [] (call_session Call_Close i m1))
      | [_] \<Rightarrow> raise_error ''Wrong param data type.'' m
      | _ \<Rightarrow> raise_error ''Invalid args.'' m)"

definition callback_types :: "LuaHttpCallbackType list" where
  "callback_types = [eLuaHttpCallback_Resolve, eLuaHttpCallback_Connect, eLuaHttpCallback_Request, eLuaHttpCallback_Header,
     eLuaHttpCallback_Redirect, eLuaHttpCallback_Body]"

definition http_lua_set_callback :: "http_caller \<Rightarrow> lua_arg list \<Rightarrow> http_module \<Rightarrow> 'ep http_answer" where
  "http_lua_set_callback a args m =
     (case args of
        [Arg_Integer n, Arg_Integer type, cb] \<Rightarrow>
          with_session n m (\<lambda>i.
            if int32_of type < 0 \<or> 6 \<le> int32_of type then raise_error ''Invalid http callback type.'' m
            else if ha_reference a cb = LUA_REFNIL then raise_error ''Http callback type NULL.'' m
            else succeeds (Http_Returns []) []
                   (call_session (Call_Set_Callback (callback_types ! nat (int32_of type)) (ha_reference a cb)) i m))
      | [_, _, _] \<Rightarrow> raise_error ''Wrong param data type.'' m
      | _ \<Rightarrow> raise_error ''Invalid args.'' m)"

definition http_lua_get :: "http_caller \<Rightarrow> lua_arg list \<Rightarrow> http_module \<Rightarrow> 'ep http_answer option" where
  "http_lua_get a args m =
     (case args of
        [h, u, t] \<Rightarrow>
          (case (h, lua_text u, t) of
             (Arg_Integer n, Some url, Arg_Table entries) \<Rightarrow>
               (case get_obj (handle_of n) (hx_objs m) of
                  None \<Rightarrow> Some (raise_error no_session m)
                | Some i \<Rightarrow> do {
                    options \<leftarrow> get_options entries (get_param_new url);
                    Some (case options of
                        None \<Rightarrow> raise_error ''Invalid get param.'' m
                      | Some p \<Rightarrow>
                          succeeds Http_Yields ''Http session get return error.''
                          (call_session (Call_Get (hx_main m) (Some (ha_co a)) p (ha_ok a)) i m))
                  })
           | _ \<Rightarrow> Some (raise_error ''Wrong param data type.'' m))
      | _ \<Rightarrow> Some (raise_error ''Invalid args.'' m))"

definition http_lua_async_get :: "http_caller \<Rightarrow> lua_arg list \<Rightarrow> http_module \<Rightarrow> 'ep http_answer option" where
  "http_lua_async_get a args m =
     (case args of
        [h, u, t, cb] \<Rightarrow>
          (case (h, lua_text u, t) of
             (Arg_Integer n, Some url, Arg_Table entries) \<Rightarrow>
               (case get_obj (handle_of n) (hx_objs m) of
                  None \<Rightarrow> Some (raise_error no_session m)
                | Some i \<Rightarrow> do {
                    options \<leftarrow> get_options entries (get_param_new url);
                    Some (case options of
                        None \<Rightarrow> raise_error ''Invalid get param.'' m
                      | Some p \<Rightarrow>
                        succeeds (Http_Returns []) ''Http session async_get return error.''
                          (call_session (Call_Async_Get (hx_main m) (ha_reference a cb) p (ha_ok a)) i m))
                  })
           | _ \<Rightarrow> Some (raise_error ''Wrong param data type.'' m))
      | _ \<Rightarrow> Some (raise_error ''Invalid args.'' m))"

definition http_lua_read :: "http_caller \<Rightarrow> lua_arg list \<Rightarrow> http_module \<Rightarrow> 'ep http_answer" where
  "http_lua_read a args m =
     (case args of
        [Arg_Integer n, Arg_Light buf, Arg_Integer len, Arg_Integer cond] \<Rightarrow>
          (let l = unat (word_of_int len :: u32)
           in with_session n m (\<lambda>i.
                succeeds Http_Yields ''Http session read fail.''
                  (call_session (Call_Read (Some (ha_co a)) (if buf = 0 then None else Some (ha_memory a buf l)) l (int32_of cond)) i m)))
      | [_, _, _, _] \<Rightarrow> raise_error ''Wrong param data type.'' m
      | _ \<Rightarrow> raise_error ''Invalid args.'' m)"

text \<open>The fields of a format, with their sizes added up as a \<open>size_t\<close>.\<close>

fun http_format :: "lua_arg list \<Rightarrow> DataField \<Rightarrow> nat \<Rightarrow> (nat \<times> DataField list) option" where
  "http_format [] f sz = Some (sz, [])"
| "http_format (v # vs) f sz =
     (case v of
        Arg_Table kvs \<Rightarrow>
          (case parse_field kvs f of
             None \<Rightarrow> None
           | Some f1 \<Rightarrow> map_option (\<lambda>(t, fs). (t, f1 # fs)) (http_format vs f1 ((sz + field_bytes f1) mod 2 ^ 64)))
      | _ \<Rightarrow> None)"

definition http_lua_scanf :: "http_caller \<Rightarrow> lua_arg list \<Rightarrow> http_module \<Rightarrow> 'ep http_answer option" where
  "http_lua_scanf a args m =
     (case args of
        [Arg_Integer n, Arg_Table entries] \<Rightarrow>
          (case get_obj (handle_of n) (hx_objs m) of
             None \<Rightarrow> Some (raise_error no_session m)
           | Some i \<Rightarrow>
               if number_keys (map snd entries) then None
               else case http_format (map snd entries) DataField_new 0 of
                  None \<Rightarrow> Some (raise_error ''Invalid get param.'' m)
                | Some (sz, format) \<Rightarrow>
                    Some (succeeds Http_Yields ''Http session read fail.'' (call_session (Call_Scanf (Some (ha_co a)) format sz) i m)))
      | [_, _] \<Rightarrow> Some (raise_error ''Wrong param data type.'' m)
      | _ \<Rightarrow> Some (raise_error ''Invalid args.'' m))"

text \<open>\<open>post\<close>, \<open>read_header\<close> and \<open>read_body\<close> only answer - 1, which is no number of results.\<close>

definition http_lua_post :: "http_module \<Rightarrow> 'ep http_answer" where
  "http_lua_post m = (Http_Bad_Answer (- 1), [], m)"

definition http_lua_read_header :: "http_module \<Rightarrow> 'ep http_answer" where
  "http_lua_read_header m = (Http_Bad_Answer (- 1), [], m)"

definition http_lua_read_body :: "http_module \<Rightarrow> 'ep http_answer" where
  "http_lua_read_body m = (Http_Bad_Answer (- 1), [], m)"

text \<open>The module's destructor: every session still in the table is closed.\<close>

definition http_clear :: "http_module \<Rightarrow> http_module" where
  "http_clear m = m\<lparr>hx_sessions := (\<lambda>i. if i \<in> ran (om_table (hx_objs m)) then http_close (hx_sessions m i) else hx_sessions m i),
     hx_objs := (hx_objs m)\<lparr>om_table := (\<lambda>_. None)\<rparr>\<rparr>"

text \<open>The functions by the names \<open>lua_open_module\<close> registers.\<close>

definition http_module_call :: "http_caller \<Rightarrow> string \<Rightarrow> lua_arg list \<Rightarrow> http_module \<Rightarrow> 'ep http_answer option" where
  "http_module_call a name args m =
     (if name = ''open'' then Some (http_lua_open a args m)
      else if name = ''close'' then Some (http_lua_close args m)
      else if name = ''set_callback'' then Some (http_lua_set_callback a args m)
      else if name = ''get'' then http_lua_get a args m
      else if name = ''async_get'' then http_lua_async_get a args m
      else if name = ''post'' then Some (http_lua_post m)
      else if name = ''read_header'' then Some (http_lua_read_header m)
      else if name = ''read_body'' then Some (http_lua_read_body m)
      else if name = ''read'' then Some (http_lua_read a args m)
      else if name = ''scanf'' then http_lua_scanf a args m
      else Some (raise_error ''attempt to call a nil value'' m))"

section \<open>The module stays whole\<close>

text \<open>Every handle names a session of its own, and fewer than \<open>k\<close> handles have been given.\<close>

definition http_module_wf :: "nat \<Rightarrow> http_module \<Rightarrow> bool" where
  "http_module_wf k m \<longleftrightarrow> handles_apart k (hx_count m) (hx_objs m)"

text \<open>What a call that names the session \<open>i\<close>, if it names one, may do.\<close>

definition touches_only :: "nat option \<Rightarrow> http_module \<Rightarrow> http_module \<Rightarrow> bool" where
  "touches_only named m m' \<longleftrightarrow> hx_count m \<le> hx_count m' \<and> hx_main m' = hx_main m
     \<and> (\<forall>i. i < hx_count m \<and> named \<noteq> Some i \<longrightarrow> hx_sessions m' i = hx_sessions m i)"

fun named_session :: "lua_arg list \<Rightarrow> http_module \<Rightarrow> nat option" where
  "named_session (Arg_Integer n # _) m = get_obj (handle_of n) (hx_objs m)"
| "named_session _ m = None"

definition stays_whole :: "nat \<Rightarrow> lua_arg list \<Rightarrow> http_module \<Rightarrow> http_module \<Rightarrow> bool" where
  "stays_whole k args m m' \<longleftrightarrow> (http_module_wf k m' \<or> http_module_wf (k + 1) m') \<and> touches_only (named_session args m) m m'"

lemma whole_same: "http_module_wf k m \<Longrightarrow> stays_whole k args m m"
  by (simp add: stays_whole_def touches_only_def)

lemma whole_raise: "http_module_wf k m \<Longrightarrow> raise_error text m = (r, es, m') \<Longrightarrow> stays_whole k args m m'"
  by (auto simp: raise_error_def intro: whole_same)

lemma whole_call:
  assumes "http_module_wf k m" and "succeeds out text (call_session c i m) = (r, es, m')" and "named_session args m = Some i"
  shows "stays_whole k args m m'"
  using assms
  by (auto simp: succeeds_def call_session_def stays_whole_def touches_only_def http_module_wf_def Let_def split: prod.splits)

lemma whole_with:
  assumes "http_module_wf k m" and "with_session n m f = (r, es, m')" and "args = Arg_Integer n # rest"
    and "\<And>i. named_session args m = Some i \<Longrightarrow> f i = (r, es, m') \<Longrightarrow> stays_whole k args m m'"
  shows "stays_whole k args m m'"
  using assms by (auto simp: with_session_def intro: whole_raise split: option.splits)

lemma whole_open:
  assumes "http_module_wf k m" and "k + 1 < 2 ^ 32" and "http_lua_open a args m = (r, es, m')"
  shows "stays_whole k args m m'"
proof (cases "args = [] \<and> ha_session a \<noteq> None")
  case False
  with assms show ?thesis by (auto simp: http_lua_open_def intro: whole_raise split: if_splits)
next
  case True
  then obtain ios where s: "ha_session a = Some ios" "args = []" by auto
  obtain h objs where n: "new_lua_obj (Some (hx_count m)) (hx_objs m) = (h, objs)" by fastforce
  from apart_new [OF _ assms(2) n] assms(1) have "handles_apart (k + 1) (hx_count m + 1) objs" by (simp add: http_module_wf_def)
  with assms(3) s n show ?thesis by (auto simp: http_lua_open_def stays_whole_def touches_only_def http_module_wf_def)
qed

lemma whole_close:
  assumes "http_module_wf k m" and "http_lua_close args m = (r, es, m')"
  shows "stays_whole k args m m'"
proof (cases "\<exists>n i. args = [Arg_Integer n] \<and> get_obj (handle_of n) (hx_objs m) = Some i")
  case True
  then obtain n i where n: "args = [Arg_Integer n]" "om_table (hx_objs m) (handle_of n) = Some i" by (auto simp: get_obj_def)
  have "m' = m\<lparr>hx_objs := (hx_objs m)\<lparr>om_table := (om_table (hx_objs m))(handle_of n := None)\<rparr>,
      hx_sessions := (hx_sessions m)(i := http_close (hx_sessions m i))\<rparr>"
    using assms(2) n by (auto simp: http_lua_close_def delete_lua_obj_def succeeds_def call_session_def)
  with assms(1) n show ?thesis
    by (auto simp: stays_whole_def touches_only_def http_module_wf_def get_obj_def apart_delete)
next
  case False
  have "m\<lparr>hx_objs := (hx_objs m)\<lparr>om_table := (om_table (hx_objs m))(handle_of n := None)\<rparr>\<rparr> = m"
    if "om_table (hx_objs m) (handle_of n) = None" for n
    using that by (simp add: fun_upd_idem)
  with False assms show ?thesis
    by (auto simp: http_lua_close_def delete_lua_obj_def raise_error_def get_obj_def Let_def intro: whole_same
      split: list.splits lua_arg.splits option.splits)
qed

lemma whole_session_calls:
  assumes "http_module_wf k m"
  shows "http_lua_set_callback a args m = (r, es, m') \<Longrightarrow> stays_whole k args m m'"
    and "http_lua_get a args m = Some (r, es, m') \<Longrightarrow> stays_whole k args m m'"
    and "http_lua_async_get a args m = Some (r, es, m') \<Longrightarrow> stays_whole k args m m'"
    and "http_lua_read a args m = (r, es, m') \<Longrightarrow> stays_whole k args m m'"
    and "http_lua_scanf a args m = Some (r, es, m') \<Longrightarrow> stays_whole k args m m'"
  subgoal
    by (auto simp: http_lua_set_callback_def split: list.splits lua_arg.splits if_splits
      intro: whole_raise [OF assms] elim!: whole_with [OF assms] whole_call [OF assms])
  subgoal
    by (auto simp: http_lua_get_def split: list.splits lua_arg.splits if_splits option.splits bind_splits
      intro: whole_raise [OF assms] elim!: whole_call [OF assms])
  subgoal
    by (auto simp: http_lua_async_get_def split: list.splits lua_arg.splits if_splits option.splits bind_splits
      intro: whole_raise [OF assms] elim!: whole_call [OF assms])
  subgoal
    by (auto simp: http_lua_read_def Let_def split: list.splits lua_arg.splits if_splits
      intro: whole_raise [OF assms] elim!: whole_with [OF assms] whole_call [OF assms])
  subgoal
    by (auto simp: http_lua_scanf_def split: list.splits lua_arg.splits if_splits option.splits prod.splits
      intro: whole_raise [OF assms] elim!: whole_call [OF assms])
  done

text \<open>
  C34: whatever function of the module a script calls with whatever arguments, every handle goes on naming a
  session of its own, and no session but the one the call names is touched.
\<close>

theorem http_calls_keep_apart:
  assumes "http_module_wf k m" and "k + 1 < 2 ^ 32" and "http_module_call a name args m = Some (r, es, m')"
  shows "(http_module_wf k m' \<or> http_module_wf (k + 1) m') \<and> touches_only (named_session args m) m m'"
proof -
  note whole = whole_open [OF assms(1,2)] whole_close [OF assms(1)] whole_session_calls [OF assms(1)]
  have "stays_whole k args m m'"
    using assms(1,3)
    by (auto simp: http_module_call_def http_lua_post_def http_lua_read_header_def http_lua_read_body_def
      split: if_splits intro: whole whole_same whole_raise)
  then show ?thesis by (simp add: stays_whole_def)
qed

section \<open>The range a script asks for\<close>

lemma scan_d_show:
  assumes "n < 2 ^ 31" and "rest = [] \<or> \<not> is_digit (hd rest)"
  shows "scan_d (show_nat n @ rest) = Some (Some (int n, rest))"
proof -
  have t: "takeWhile is_digit (show_nat n @ rest) = show_nat n" "dropWhile is_digit (show_nat n @ rest) = rest"
    using show_nat_digits [of n] assms(2)
    by (cases rest; simp add: takeWhile_append dropWhile_append list_all_iff)+
  obtain c cs where c: "show_nat n = c # cs" "is_digit c"
    using show_nat_digits [of n] by (cases "show_nat n") auto
  then have d: "dropWhile is_space (show_nat n @ rest) = show_nat n @ rest" "split_sign (show_nat n @ rest) = (False, show_nat n @ rest)"
    using digit_not_space digit_not_sign by (auto simp: split_sign_def)
  show ?thesis unfolding scan_d_def d Let_def using t assms(1) by simp
qed

lemma scan_d_minus:
  assumes "n < 2 ^ 31"
  shows "scan_d (CHR ''-'' # show_nat n) = Some (Some (- int n, []))"
  using assms show_nat_digits [of n]
  by (simp add: scan_d_def split_sign_def is_space_def list_all_iff takeWhile_eq_all_conv [THEN iffD2] dropWhile_eq_Nil_conv [THEN iffD2])

lemma c_text_append_show: "c_text (show_nat a @ CHR ''-'' # s) = show_nat a @ CHR ''-'' # c_text s"
proof -
  have "CHR 0x00 \<notin> set (show_nat a)" by (rule show_nat_notin) (simp add: is_digit_def)
  then show ?thesis by (induction "show_nat a" arbitrary: a rule: list.induct) (auto simp: c_text_def takeWhile_append)
qed

text \<open>
  C35: the option \<open>range\<close> becomes the header of the request: \<open>a-b\<close> and \<open>a-\<close> are the range that is asked for,
  up to 2 GB; but the last \<open>b\<close> bytes, \<open>-b\<close>, are read as a beginning of \<open>-b\<close> without an end, for which the
  request gets no header, so the whole page is asked for.
\<close>

theorem range_option_reaches_header:
  assumes "a \<le> b" and "b < 2 ^ 31"
  shows "(\<exists>p. get_options [(Arg_Text ''range'', Arg_Text (show_nat a @ ''-'' @ show_nat b))] (get_param_new url) = Some (Some p)
      \<and> range_text (gp_range_start p) (gp_range_end p) = Some (''bytes='' @ show_nat a @ ''-'' @ show_nat b))
    \<and> (\<exists>p. get_options [(Arg_Text ''range'', Arg_Text (show_nat a @ ''-''))] (get_param_new url) = Some (Some p)
      \<and> range_text (gp_range_start p) (gp_range_end p) = Some (''bytes='' @ show_nat a @ ''-''))
    \<and> (0 < b \<longrightarrow> (\<exists>p. get_options [(Arg_Text ''range'', Arg_Text (''-'' @ show_nat b))] (get_param_new url) = Some (Some p)
      \<and> range_text (gp_range_start p) (gp_range_end p) = None))"
proof -
  have a: "a < 2 ^ 31" using assms by simp
  have dash: "scan_d (show_nat a @ CHR ''-'' # s) = Some (Some (int a, CHR ''-'' # s))" for s
    using scan_d_show [OF a, of "CHR ''-'' # s"] digit_not_sign by simp
  have "scan_d (show_nat b) = Some (Some (int b, []))" using scan_d_show [OF assms(2), of "[]"] by simp
  then have r: "scan_range (show_nat a @ CHR ''-'' # show_nat b) = Some (int a, int b)"
    "scan_range (show_nat a @ CHR ''-'' # []) = Some (int a, - 1)" "scan_range (CHR ''-'' # show_nat b) = Some (- int b, - 1)"
    using scan_d_minus [OF assms(2)] by (simp_all add: scan_range_def dash) (simp add: scan_d_def split_sign_def)
  have c: "c_text (CHR ''-'' # show_nat b) = CHR ''-'' # show_nat b" using c_text_show [of b] by (simp add: c_text_def)
  have n: "c_text ''range'' = ''range''" "prefix kHttpRangeStr ''range''" by (simp_all add: c_text_def kHttpRangeStr_def)
  have e: "c_text [] = []" by (simp add: c_text_def)
  show ?thesis
    using assms r c n e c_text_append_show [of a "[]"] c_text_append_show [of a "show_nat b"]
    by (simp add: range_text_def show_int_def get_param_new_def)
qed

theorem range_option_reaches_header_witness:
  "\<exists>p. get_options [(Arg_Text ''range'', Arg_Text (show_nat 5 @ ''-'' @ show_nat 9))] (get_param_new ''http://h/'') = Some (Some p)
    \<and> range_text (gp_range_start p) (gp_range_end p) = Some (''bytes='' @ show_nat 5 @ ''-'' @ show_nat 9)"
  using range_option_reaches_header [of 5 9 "''http://h/''"] by simp

section \<open>From opening to the answer\<close>

lemma get_options_keep: "get_options kvs p = Some (Some p') \<Longrightarrow> gp_url p' = gp_url p \<and> gp_ref_url p' = gp_ref_url p"
  by (induction kvs p rule: get_options.induct) (fastforce split: if_splits lua_arg.splits option.splits prod.splits)+

text \<open>
  C33: a script can get a page. It opens a session and asks with a handle it was given, for a URL that can be
  asked for, in a module with less than \<open>2 ^ 32 - 1\<close> sessions opened before; one request goes out, for the URL
  and the range of the table's options, and the session takes over from them whether the body is read by hand
  and whether it closes after the answer, while the option \<open>conn_timeout\<close>, which is read, reaches nothing. Its
  coroutine yields, waiting for the session, and is resumed at most once, whatever happens; and if the session is
  not closed by the script, it has been resumed when the machine ends with anything but \<open>Success\<close>.
\<close>

theorem script_gets_page:
  assumes "http_module_wf k m" and "k + 1 < 2 ^ 32" and "hx_main m = Some main" and "ha_session a = Some True" and "ha_ok a"
    and "get_options entries (get_param_new (c_text url)) = Some (Some p)"
  shows "\<exists>(h :: u32) m1 m2. http_module_call a ''open'' [] m = Some (Http_Returns [uint h], [] :: 'a http_effect list, m1)
    \<and> http_module_call a ''get'' [Arg_Integer (uint h), Arg_Text url, Arg_Table entries] m1
        = Some (Http_Yields, [Request (c_text url) [] (gp_range_start p) (gp_range_end p) :: 'a http_effect], m2)
    \<and> (let s = hw_s (hx_sessions m2 (hx_count m)) in lh_manual_read_body s = gp_manual p \<and> lh_one_off s = gp_one_off p
        \<and> lh_co s = Some (ha_co a) \<and> lh_yielding s \<and> \<not> lh_resumed s)
    \<and> (\<forall>ls (es :: 'a http_effect list) w. http_runs (hx_sessions m2 (hx_count m)) ls es w \<longrightarrow> length (filter resumes es) \<le> 1
        \<and> ((\<forall>l \<in> set ls. patient_label l) \<longrightarrow>
             (\<forall>c. Machine_Ends c \<in> set es \<and> c \<noteq> kBeeErrorCode_Success \<longrightarrow> (\<exists>r. Resume_Get (ha_co a) r \<in> set es))))"
proof -
  obtain h objs where n: "new_lua_obj (Some (hx_count m)) (hx_objs m) = (h, objs)" by fastforce
  from apart_new [OF _ assms(2) n] assms(1) have g: "get_obj h objs = Some (hx_count m)"
    by (simp add: http_module_wf_def get_obj_def)
  let ?w = "http_world_new True (ha_loaded a)"
  let ?m1 = "m\<lparr>hx_objs := objs, hx_count := hx_count m + 1, hx_sessions := (hx_sessions m)(hx_count m := ?w)\<rparr>"
  have o: "http_module_call a ''open'' [] m = Some (Http_Returns [uint h], [] :: 'a http_effect list, ?m1)"
    using n assms(4) by (simp add: http_module_call_def http_lua_open_def)
  let ?r = "Request (c_text url) [] (gp_range_start p) (gp_range_end p) :: 'a http_effect"
  have u: "gp_url p = c_text url" "gp_ref_url p = []" using get_options_keep [OF assms(6)] by (simp_all add: get_param_new_def)
  obtain w0 where get: "session_get (Some main) (Some (ha_co a)) p (ha_ok a) ?w = (kBeeErrorCode_Success, [?r], w0)"
    and w0: "lh_manual_read_body (hw_s w0) = gp_manual p" "lh_one_off (hw_s w0) = gp_one_off p" "lh_co (hw_s w0) = Some (ha_co a)"
      "lh_yielding (hw_s w0)" "\<not> lh_resumed (hw_s w0)"
    using assms(5) u by (simp add: session_get_def start_request_def http_world_new_def LuaHttpSession_new_def)
  let ?m2 = "?m1\<lparr>hx_sessions := (hx_sessions m)(hx_count m := w0)\<rparr>"
  have c: "http_module_call a ''get'' [Arg_Integer (uint h), Arg_Text url, Arg_Table entries] ?m1 = Some (Http_Yields, [?r], ?m2)"
    using g get assms(3,6)
    by (simp add: http_module_call_def http_lua_get_def call_session_def succeeds_def)
  have new: "\<not> lh_resumed (hw_s ?w)" "lh_get_callback (hw_s ?w) = LUA_REFNIL" "hw_installed ?w" "hw_closes ?w = 0"
    by (simp_all add: http_world_new_def LuaHttpSession_new_def)
  have "length (filter resumes es) \<le> 1 \<and> ((\<forall>l \<in> set ls. patient_label l) \<longrightarrow>
      (\<forall>c. Machine_Ends c \<in> set es \<and> c \<noteq> kBeeErrorCode_Success \<longrightarrow> (\<exists>r. Resume_Get (ha_co a) r \<in> set es)))"
    if "http_runs (hx_sessions ?m2 (hx_count m)) ls es w" for ls w and es :: "'a http_effect list"
    using get_answered [OF get new, of ls es w] that by simp
  then show ?thesis using o c w0 by (intro exI [of _ h] exI [of _ ?m1] exI [of _ ?m2]) (simp add: Let_def)
qed

text \<open>
  A handle a script has closed is of no use any more: every function that takes it raises an error, and the
  session it named tells the script nothing, whatever its machine goes on to report.
\<close>

theorem closed_handle_is_dead:
  assumes "om_table (hx_objs m) (handle_of n) = Some i"
    and "name \<in> {''close'', ''set_callback'', ''get'', ''async_get'', ''read'', ''scanf''}"
  shows "\<exists>m'. http_module_call a ''close'' [Arg_Integer n] m = Some (Http_Returns [], [] :: 'a http_effect list, m')
    \<and> (\<exists>text. http_module_call a' name (Arg_Integer n # args) m' = Some (Http_Raises text, [] :: 'a http_effect list, m'))
    \<and> (\<forall>ls (es :: 'a http_effect list) w. http_runs (hx_sessions m' i) ls es w \<and> (\<forall>l \<in> set ls. \<not> asks_again l)
        \<longrightarrow> filter tells_script es = [])"
proof -
  let ?objs = "(hx_objs m)\<lparr>om_table := (om_table (hx_objs m))(handle_of n := None)\<rparr>"
  let ?m = "m\<lparr>hx_objs := ?objs, hx_sessions := (hx_sessions m)(i := http_close (hx_sessions m i))\<rparr>"
  have c: "http_module_call a ''close'' [Arg_Integer n] m = Some (Http_Returns [], [] :: 'a http_effect list, ?m)"
    using assms(1) by (simp add: http_module_call_def http_lua_close_def delete_lua_obj_def succeeds_def call_session_def)
  have none: "om_table (hx_objs ?m) (handle_of n) = None" by simp
  have close: "\<exists>text. http_lua_close (Arg_Integer n # args) v = (Http_Raises text, [] :: 'a http_effect list, v)"
    if "om_table (hx_objs v) (handle_of n) = None" for v
  proof -
    have "v\<lparr>hx_objs := (hx_objs v)\<lparr>om_table := (om_table (hx_objs v))(handle_of n := None)\<rparr>\<rparr> = v"
      using that by (simp add: fun_upd_idem)
    with that show ?thesis
      by (cases args) (auto simp: http_lua_close_def delete_lua_obj_def raise_error_def split: list.splits)
  qed
  have calls: "\<exists>text. http_lua_set_callback a' (Arg_Integer n # args) v = (Http_Raises text, [] :: 'a http_effect list, v)"
    "\<exists>text. http_lua_get a' (Arg_Integer n # args) v = Some (Http_Raises text, [] :: 'a http_effect list, v)"
    "\<exists>text. http_lua_async_get a' (Arg_Integer n # args) v = Some (Http_Raises text, [] :: 'a http_effect list, v)"
    "\<exists>text. http_lua_read a' (Arg_Integer n # args) v = (Http_Raises text, [] :: 'a http_effect list, v)"
    "\<exists>text. http_lua_scanf a' (Arg_Integer n # args) v = Some (Http_Raises text, [] :: 'a http_effect list, v)"
    if "om_table (hx_objs v) (handle_of n) = None" for v
    using that
    by (auto simp: http_lua_set_callback_def http_lua_get_def http_lua_async_get_def http_lua_read_def http_lua_scanf_def
      raise_error_def with_session_def get_obj_def split: list.split lua_arg.split option.split)
  have "\<exists>text. http_module_call a' name (Arg_Integer n # args) ?m = Some (Http_Raises text, [] :: 'a http_effect list, ?m)"
    using assms(2) close [OF none] calls [OF none] unfolding http_module_call_def by auto
  moreover have "filter tells_script es = []"
    if "http_runs (hx_sessions ?m i) ls es w" "\<forall>l \<in> set ls. \<not> asks_again l" for ls w and es :: "'a http_effect list"
    using closed_silent [of "hx_sessions m i" ls es w] that by simp
  ultimately show ?thesis using c by blast
qed

section \<open>Instances\<close>

definition demo_http_module :: http_module where
  "demo_http_module = LuaHttpModule_new 0 (Some 0)"

definition demo_http_caller :: http_caller where
  "demo_http_caller = \<lparr>ha_co = 1, ha_session = Some True, ha_loaded = False, ha_ok = True, ha_reference = (\<lambda>_. 3), ha_memory = (\<lambda>_ _. [])\<rparr>"

lemma demo_http_module_wf: "http_module_wf 0 demo_http_module"
  by (simp add: http_module_wf_def handles_apart_def handles_fresh_def demo_http_module_def LuaHttpModule_new_def LuaObjMgr_new_def)

lemma demo_opens:
  "http_module_call demo_http_caller ''open'' [] demo_http_module = Some (Http_Returns [1], [] :: nat http_effect list,
     demo_http_module\<lparr>hx_objs := \<lparr>om_counter = 1, om_table = [1 \<mapsto> 0]\<rparr>, hx_count := 1,
       hx_sessions := (hx_sessions demo_http_module)(0 := http_world_new True False)\<rparr>)"
  by (simp add: http_module_call_def http_lua_open_def demo_http_caller_def demo_http_module_def LuaHttpModule_new_def
    LuaObjMgr_new_def new_lua_obj_def)

theorem http_calls_keep_apart_witness:
  "\<exists>m'. http_module_call demo_http_caller ''open'' [] demo_http_module = Some (Http_Returns [1], [] :: nat http_effect list, m')
    \<and> (http_module_wf 0 m' \<or> http_module_wf 1 m') \<and> touches_only None demo_http_module m'"
  using http_calls_keep_apart [OF demo_http_module_wf _ demo_opens] demo_opens by simp

theorem script_gets_page_witness:
  "\<exists>(h :: u32) m1 m2. http_module_call demo_http_caller ''open'' [] demo_http_module = Some (Http_Returns [uint h], [] :: nat http_effect list, m1)
    \<and> http_module_call demo_http_caller ''get'' [Arg_Integer (uint h), Arg_Text ''http://h/'', Arg_Table [(Arg_Text ''oneoff'', Arg_Integer 0)]] m1
        = Some (Http_Yields, [Request ''http://h/'' [] (- 1) (- 1) :: nat http_effect], m2)
    \<and> \<not> lh_one_off (hw_s (hx_sessions m2 0))"
proof -
  have o: "get_options [(Arg_Text ''oneoff'', Arg_Integer 0)] (get_param_new (c_text ''http://h/''))
      = Some (Some ((get_param_new ''http://h/'')\<lparr>gp_one_off := False\<rparr>))"
    by (simp add: c_text_def kHttpRangeStr_def kHttpTimeoutStr_def kManualReadBody_def kOneOff_def)
  have k: "0 + 1 < (2 :: nat) ^ 32" by simp
  have d: "hx_main demo_http_module = Some 0" "ha_session demo_http_caller = Some True" "ha_ok demo_http_caller"
    by (simp_all add: demo_http_module_def LuaHttpModule_new_def demo_http_caller_def)
  have v: "c_text ''http://h/'' = ''http://h/''" "hx_count demo_http_module = 0"
    "gp_range_start ((get_param_new ''http://h/'')\<lparr>gp_one_off := False\<rparr>) = - 1" "gp_range_end ((get_param_new ''http://h/'')\<lparr>gp_one_off := False\<rparr>) = - 1"
    "\<not> gp_one_off ((get_param_new ''http://h/'')\<lparr>gp_one_off := False\<rparr>)"
    by (simp_all add: c_text_def demo_http_module_def LuaHttpModule_new_def get_param_new_def)
  from script_gets_page [OF demo_http_module_wf k d o, where 'a = nat, unfolded v(1-4)] v(5) show ?thesis
    unfolding Let_def by (elim exE conjE, intro exI conjI) (assumption+, simp)
qed

theorem closed_handle_is_dead_witness:
  "\<exists>m m' text. http_module_call demo_http_caller ''open'' [] demo_http_module = Some (Http_Returns [1], [] :: nat http_effect list, m)
    \<and> http_module_call demo_http_caller ''close'' [Arg_Integer 1] m = Some (Http_Returns [], [] :: nat http_effect list, m')
    \<and> http_module_call demo_http_caller ''close'' [Arg_Integer 1] m' = Some (Http_Raises text, [] :: nat http_effect list, m')"
proof -
  obtain m where m: "http_module_call demo_http_caller ''open'' [] demo_http_module = Some (Http_Returns [1], [] :: nat http_effect list, m)"
    "om_table (hx_objs m) (handle_of 1) = Some 0" using demo_opens by (simp add: handle_of_def)
  have n: "''close'' \<in> {''close'', ''set_callback'', ''get'', ''async_get'', ''read'', ''scanf''}" by simp
  from closed_handle_is_dead [OF m(2) n, of demo_http_caller demo_http_caller "[]", where 'a = nat] m(1) show ?thesis
    by (elim exE conjE, intro exI conjI) assumption+
qed

end
