(* ===== verification/Bee_Lws.thy ===== *)
theory Bee_Lws
  imports Bee_Lua_Objects Bee_Timer
begin

text \<open>
  Websockets for scripts: \<open>LuaLwsSession\<close> and \<open>LuaLwsService\<close> (src/lua/module/lua_lws_session.cpp,
  lua_lws_service.cpp) between a script's thread, which runs the event loop, and the service's thread,
  which runs libwebsockets.

  A step is what one thread does while it holds the mutex, or what the script's thread does on members
  no other thread changes. A session is a number, shared pointers to it keep it alive; a connection of
  libwebsockets is a number too, null is \<open>None\<close>. Resuming a script ends a step, since the script may
  call the session again before it yields: what the code still does afterwards is the step that follows.
  What libwebsockets answers is an argument; the calls to it and to Lua are the step's effects. Logging
  is left out. The JSON parser is a parameter. The connect timer is there or not: it fires at most once,
  and after a cancellation never; a timer that another has replaced cannot be cancelled any more.
\<close>

section \<open>State\<close>

datatype LuaLwsCallbackType = eLuaLwsCallback_Connect | eLuaLwsCallback_Read | eLuaLwsCallback_Error

datatype lws_reason =
    LWS_CALLBACK_CLIENT_ESTABLISHED | LWS_CALLBACK_CLIENT_CONNECTION_ERROR | LWS_CALLBACK_CLOSED
  | LWS_CALLBACK_WS_PEER_INITIATED_CLOSE | LWS_CALLBACK_WSI_DESTROY | LWS_CALLBACK_CLIENT_WRITEABLE
  | LWS_CALLBACK_CLIENT_RECEIVE | LWS_Other_Reason nat

record lws_session =
  ls_ios :: bool
  ls_wsi :: "nat option"
  ls_service :: bool
  ls_protocol :: string
  ls_check_json :: bool
  ls_current_msg :: string
  ls_main :: bool
  ls_callbacks :: "LuaLwsCallbackType \<Rightarrow> int"
  ls_closing :: bool
  ls_closed :: bool
  ls_connected :: bool
  ls_timer :: bool
  ls_replaced :: nat
  ls_reported :: bool

definition LuaLwsSession_new :: "bool \<Rightarrow> bool \<Rightarrow> string \<Rightarrow> bool \<Rightarrow> int \<Rightarrow> int \<Rightarrow> bool \<Rightarrow> lws_session" where
  "LuaLwsSession_new ios service protocol json read_callback error_callback main =
     \<lparr>ls_ios = ios, ls_wsi = None, ls_service = service, ls_protocol = protocol, ls_check_json = json,
      ls_current_msg = [], ls_main = main,
      ls_callbacks = (\<lambda>_. LUA_REFNIL)(eLuaLwsCallback_Read := read_callback, eLuaLwsCallback_Error := error_callback),
      ls_closing = False, ls_closed = False, ls_connected = False, ls_timer = False, ls_replaced = 0, ls_reported = False\<rparr>"

record wsi_obj =
  wo_session :: nat
  wo_queue :: "string list"

record lws_service =
  sv_running :: bool
  sv_context :: bool
  sv_table :: "(nat \<times> wsi_obj) list"
  sv_writeable :: "nat list"
  sv_promise :: bool

definition LuaLwsService_new :: lws_service where
  "LuaLwsService_new = \<lparr>sv_running = False, sv_context = False, sv_table = [], sv_writeable = [], sv_promise = False\<rparr>"

text \<open>What the script's thread still has to do when the script it has resumed yields.\<close>

datatype lws_after = After_Result | After_Data | After_Disconnected

record lws_state =
  lw_sessions :: "nat \<Rightarrow> lws_session"
  lw_service :: lws_service
  lw_posted :: "(nat \<times> nat option \<times> lws_reason \<times> string) list"
  lw_after :: "(nat \<times> lws_after) option"

text \<open>A script is resumed with a session's callback; \<open>lws_write\<close> gets a connection and a text.\<close>

record connect_info =
  ci_address :: string
  ci_port :: int
  ci_path :: string
  ci_ssl :: bool
  ci_protocol :: "string option"

datatype lws_effect =
    Report_Result nat int bool string
  | Report_Disconnected nat int
  | Report_Data nat int string
  | Lws_Connect connect_info
  | Lws_Cancel_Service
  | Lws_Writable nat
  | Lws_Write nat string
  | Honor_Close

abbreviation lws_session_of :: "nat \<Rightarrow> lws_state \<Rightarrow> lws_session" where
  "lws_session_of i w \<equiv> lw_sessions w i"

definition put_lws :: "nat \<Rightarrow> lws_session \<Rightarrow> lws_state \<Rightarrow> lws_state" where
  "put_lws i ss w = w\<lparr>lw_sessions := (lw_sessions w)(i := ss)\<rparr>"

definition put_service :: "lws_service \<Rightarrow> lws_state \<Rightarrow> lws_state" where
  "put_service sv w = w\<lparr>lw_service := sv\<rparr>"

section \<open>The service\<close>

definition notify_writeable :: "nat \<Rightarrow> lws_service \<Rightarrow> lws_effect list \<times> lws_service" where
  "notify_writeable wsi sv =
     ((if sv_context sv then [Lws_Cancel_Service] else []), sv\<lparr>sv_writeable := List.insert wsi (sv_writeable sv)\<rparr>)"

definition check_writeable :: "lws_state \<Rightarrow> lws_effect list \<times> lws_state" where
  "check_writeable w =
     (let sv = lw_service w;
          open_wsi = (\<lambda>wsi. case map_of (sv_table sv) wsi of
            None \<Rightarrow> False | Some ob \<Rightarrow> \<not> ls_closed (lws_session_of (wo_session ob) w))
      in (map Lws_Writable (filter open_wsi (sv_writeable sv)), put_service (sv\<lparr>sv_writeable := []\<rparr>) w))"

definition report_event :: "nat \<Rightarrow> nat option \<Rightarrow> lws_reason \<Rightarrow> string option \<Rightarrow> lws_state \<Rightarrow> lws_state" where
  "report_event i wsi reason data w =
     (if ls_ios (lws_session_of i w)
      then w\<lparr>lw_posted := lw_posted w @ [(i, wsi, reason, case data of None \<Rightarrow> [] | Some d \<Rightarrow> d)]\<rparr> else w)"

text \<open>
  \<open>uri\<close> is what \<open>lws_parse_uri\<close> finds: the scheme, address, port and path, or nothing when it fails;
  \<open>answer\<close> is the connection made.
\<close>

definition service_connect ::
    "(string option \<times> string \<times> int \<times> string option) option \<Rightarrow> nat option \<Rightarrow> nat \<Rightarrow> lws_state
      \<Rightarrow> lws_effect list \<times> lws_state" where
  "service_connect uri answer i w =
     (let sv = lw_service w; protocol = ls_protocol (lws_session_of i w);
          fail = report_event i None LWS_CALLBACK_CLIENT_CONNECTION_ERROR None
      in if \<not> sv_running sv then ([], fail w)
         else case uri of
           Some (prot, address, port, Some p) \<Rightarrow>
             (let info = \<lparr>ci_address = address, ci_port = port, ci_path = CHR ''/'' # p,
                    ci_ssl = (prot \<noteq> Some ''ws'' \<and> prot \<noteq> Some ''http''),
                    ci_protocol = (if protocol = [] then None else Some protocol)\<rparr>
              in case answer of
                   None \<Rightarrow> ([Lws_Connect info], fail w)
                 | Some wsi \<Rightarrow>
                     (let sv1 = sv\<lparr>sv_table := AList.update wsi \<lparr>wo_session = i, wo_queue = []\<rparr> (sv_table sv)\<rparr>;
                          (es, sv2) = notify_writeable wsi sv1
                      in (Lws_Connect info # es, put_service sv2 w)))
         | _ \<Rightarrow> ([], fail w))"

definition service_close :: "nat option \<Rightarrow> lws_service \<Rightarrow> lws_effect list \<times> lws_service" where
  "service_close wsi sv =
     (case wsi of
        None \<Rightarrow> ([], sv)
      | Some x \<Rightarrow> if \<not> sv_running sv \<or> map_of (sv_table sv) x = None then ([], sv) else notify_writeable x sv)"

definition service_write :: "nat option \<Rightarrow> string \<Rightarrow> lws_service \<Rightarrow> lws_effect list \<times> lws_service" where
  "service_write wsi data sv =
     (case wsi of
        None \<Rightarrow> ([], sv)
      | Some x \<Rightarrow>
          if \<not> sv_running sv then ([], sv)
          else case map_of (sv_table sv) x of
            None \<Rightarrow> ([], sv)
          | Some ob \<Rightarrow> notify_writeable x
              (sv\<lparr>sv_table := AList.update x (ob\<lparr>wo_queue := wo_queue ob @ [c_text data]\<rparr>) (sv_table sv)\<rparr>))"

text \<open>\<open>n\<close> is what \<open>lws_write\<close> answers.\<close>

definition on_writable :: "nat \<Rightarrow> int \<Rightarrow> string list \<Rightarrow> int \<times> lws_effect list \<times> string list" where
  "on_writable wsi n queue =
     (case queue of
        [] \<Rightarrow> (0, [], [])
      | data # rest \<Rightarrow>
          if n < 0 \<or> n < int32_of (int (length data)) then (- 1, [Lws_Write wsi data], rest)
          else (0, [Lws_Write wsi data, Lws_Writable wsi], rest))"

definition inner_callback ::
    "nat \<Rightarrow> lws_reason \<Rightarrow> string option \<Rightarrow> int \<Rightarrow> lws_state \<Rightarrow> int \<times> lws_effect list \<times> lws_state" where
  "inner_callback wsi reason data n w =
     (let sv = lw_service w
      in case map_of (sv_table sv) wsi of
           None \<Rightarrow> (0, [], w)
         | Some ob \<Rightarrow>
             (let i = wo_session ob; ss = lws_session_of i w
              in if ls_closing ss then
                   (let table = AList.delete wsi (sv_table sv);
                        honor = (table = [] \<and> sv_promise sv)
                    in (- 1, (if honor then [Honor_Close] else []),
                        put_lws i (ss\<lparr>ls_closing := False, ls_closed := True\<rparr>)
                          (put_service (sv\<lparr>sv_table := table, sv_promise := (sv_promise sv \<and> \<not> honor)\<rparr>) w)))
                 else if reason = LWS_CALLBACK_CLIENT_WRITEABLE then
                   (let (ret, es, queue) = on_writable wsi n (wo_queue ob)
                    in (ret, es, put_service (sv\<lparr>sv_table := AList.update wsi (ob\<lparr>wo_queue := queue\<rparr>) (sv_table sv)\<rparr>) w))
                 else
                   (let (es, sv1) = (if reason = LWS_CALLBACK_CLIENT_ESTABLISHED then notify_writeable wsi sv else ([], sv))
                    in (0, es, report_event i (Some wsi) reason data (put_service sv1 w)))))"

text \<open>
  \<open>lws_calback\<close> as libwebsockets calls it; \<open>user\<close> is whether it passes the service along. The
  certificate hook is openssl's.
\<close>

definition pre_handle_event :: "lws_reason \<Rightarrow> bool" where
  "pre_handle_event reason \<longleftrightarrow> (case reason of LWS_Other_Reason k \<Rightarrow> True | _ \<Rightarrow> False)"

definition lws_calback ::
    "bool \<Rightarrow> nat \<Rightarrow> lws_reason \<Rightarrow> string option \<Rightarrow> int \<Rightarrow> lws_state \<Rightarrow> int \<times> lws_effect list \<times> lws_state" where
  "lws_calback user wsi reason data n w =
     (if pre_handle_event reason then (0, [], w)
      else if \<not> user then (- 1, [], w)
      else inner_callback wsi reason data n w)"

section \<open>The session\<close>

definition session_connect ::
    "(string option \<times> string \<times> int \<times> string option) option \<Rightarrow> nat option \<Rightarrow> nat \<Rightarrow> string option \<Rightarrow> int \<Rightarrow> int
      \<Rightarrow> lws_state \<Rightarrow> BeeErrorCode \<times> lws_effect list \<times> lws_state" where
  "session_connect uri answer i url timeout connect_callback w =
     (let ss = lws_session_of i w
      in if url = None \<or> \<not> ls_service ss \<or> connect_callback = LUA_REFNIL
         then (kBeeErrorCode_Invalid_Param, [], w)
         else
           (let w1 = put_lws i (ss\<lparr>ls_callbacks := (ls_callbacks ss)(eLuaLwsCallback_Connect := connect_callback)\<rparr>) w;
                (es, w2) = service_connect uri answer i w1;
                ss2 = lws_session_of i w2
            in (kBeeErrorCode_Success, es,
                if timeout > 0 \<and> ls_ios ss2
                then put_lws i (ss2\<lparr>ls_timer := True, ls_replaced := ls_replaced ss2 + (if ls_timer ss2 then 1 else 0)\<rparr>) w2
                else w2)))"

definition lws_session_close :: "nat \<Rightarrow> lws_state \<Rightarrow> lws_effect list \<times> lws_state" where
  "lws_session_close i w =
     (let ss = lws_session_of i w
      in if ls_closed ss \<or> ls_closing ss then ([], w)
         else if \<not> ls_service ss then ([], put_lws i (ss\<lparr>ls_closing := True\<rparr>) w)
         else
           (let (es, sv) = service_close (ls_wsi ss) (lw_service w)
            in (es, put_lws i (ss\<lparr>ls_closing := True, ls_service := False, ls_timer := False\<rparr>) (put_service sv w))))"

definition session_write :: "nat \<Rightarrow> string option \<Rightarrow> lws_state \<Rightarrow> BeeErrorCode \<times> lws_effect list \<times> lws_state" where
  "session_write i data w =
     (let ss = lws_session_of i w
      in if ls_closing ss \<or> ls_closed ss then (kBeeErrorCode_Not_Connected, [], w)
         else case data of
           None \<Rightarrow> (kBeeErrorCode_Invalid_Param, [], w)
         | Some d \<Rightarrow>
             if \<not> ls_service ss then (kBeeErrorCode_Invalid_Param, [], w)
             else (let (es, sv) = service_write (ls_wsi ss) d (lw_service w)
                   in (kBeeErrorCode_Success, es, put_service sv w)))"

subsection \<open>Reports to the script\<close>

definition report_connection_result :: "nat option \<Rightarrow> bool \<Rightarrow> string \<Rightarrow> nat \<Rightarrow> lws_state \<Rightarrow> lws_effect list \<times> lws_state" where
  "report_connection_result wsi success data i w =
     (let ss = lws_session_of i w; callback = ls_callbacks ss eLuaLwsCallback_Connect
      in if \<not> ls_main ss \<or> ls_reported ss \<or> callback = LUA_REFNIL then ([], w)
         else ([Report_Result i callback success data],
               (put_lws i (if success then ss\<lparr>ls_wsi := wsi\<rparr> else ss) w)\<lparr>lw_after := Some (i, After_Result)\<rparr>))"

definition report_disconnected :: "nat \<Rightarrow> lws_state \<Rightarrow> lws_effect list \<times> lws_state" where
  "report_disconnected i w =
     (let ss = lws_session_of i w; callback = ls_callbacks ss eLuaLwsCallback_Connect
      in if \<not> ls_main ss \<or> \<not> ls_connected ss \<or> callback = LUA_REFNIL then ([], w)
         else ([Report_Disconnected i callback], w\<lparr>lw_after := Some (i, After_Disconnected)\<rparr>))"

definition get_completed_json_message :: "(string \<Rightarrow> bool) \<Rightarrow> string \<Rightarrow> lws_session \<Rightarrow> string option \<times> lws_session" where
  "get_completed_json_message parses data ss =
     (let cached = ls_current_msg ss \<noteq> [];
          ss1 = (if cached then ss\<lparr>ls_current_msg := ls_current_msg ss @ data\<rparr> else ss);
          parse_msg = (if cached then ls_current_msg ss1 else data)
      in if \<not> parses parse_msg then (None, if cached then ss1 else ss1\<lparr>ls_current_msg := data\<rparr>)
         else (Some parse_msg, ss1))"

definition report_read_data :: "(string \<Rightarrow> bool) \<Rightarrow> string \<Rightarrow> nat \<Rightarrow> lws_state \<Rightarrow> lws_effect list \<times> lws_state" where
  "report_read_data parses data i w =
     (let ss = lws_session_of i w;
          (msg, ss1) = (if ls_check_json ss then get_completed_json_message parses data ss else (Some data, ss));
          callback = ls_callbacks ss1 eLuaLwsCallback_Read; w1 = put_lws i ss1 w
      in case msg of
           None \<Rightarrow> ([], w1)
         | Some m \<Rightarrow>
             if \<not> ls_main ss1 \<or> callback = LUA_REFNIL then ([], w1)
             else ([Report_Data i callback m], w1\<lparr>lw_after := Some (i, After_Data)\<rparr>))"

definition lws_on_event :: "(string \<Rightarrow> bool) \<Rightarrow> nat \<times> nat option \<times> lws_reason \<times> string \<Rightarrow> lws_state \<Rightarrow> lws_effect list \<times> lws_state" where
  "lws_on_event parses ev w =
     (case ev of (i, wsi, reason, data) \<Rightarrow>
        (let ss = lws_session_of i w; closed_w = put_lws i (ss\<lparr>ls_closed := True\<rparr>) w
         in if ls_closing ss \<or> ls_closed ss then ([], w)
            else case reason of
              LWS_CALLBACK_CLIENT_ESTABLISHED \<Rightarrow>
                report_connection_result wsi True data i (put_lws i (ss\<lparr>ls_connected := True\<rparr>) w)
            | LWS_CALLBACK_CLIENT_CONNECTION_ERROR \<Rightarrow> report_connection_result wsi False data i w
            | LWS_CALLBACK_CLOSED \<Rightarrow> report_disconnected i closed_w
            | LWS_CALLBACK_CLIENT_RECEIVE \<Rightarrow> report_read_data parses data i w
            | LWS_CALLBACK_WS_PEER_INITIATED_CLOSE \<Rightarrow> report_disconnected i closed_w
            | LWS_CALLBACK_WSI_DESTROY \<Rightarrow> report_disconnected i closed_w
            | _ \<Rightarrow> ([], w)))"

definition handle_connect_timeout :: "nat \<Rightarrow> lws_state \<Rightarrow> lws_effect list \<times> lws_state" where
  "handle_connect_timeout i w =
     (if ls_reported (lws_session_of i w) then ([], w) else report_connection_result None False ''timeout'' i w)"

text \<open>What the three reports do when the script has yielded or returned.\<close>

definition lws_resumed :: "nat \<Rightarrow> lws_after \<Rightarrow> lws_state \<Rightarrow> lws_state" where
  "lws_resumed i a w =
     (let ss = lws_session_of i w; w1 = w\<lparr>lw_after := None\<rparr>
      in case a of
           After_Result \<Rightarrow> put_lws i (ss\<lparr>ls_reported := True, ls_timer := False\<rparr>) w1
         | After_Data \<Rightarrow> put_lws i (ss\<lparr>ls_current_msg := []\<rparr>) w1
         | After_Disconnected \<Rightarrow> w1)"

section \<open>Closing everything\<close>

text \<open>
  \<open>close_all\<close> up to its wait: whether there is something to wait for; then the wait, through the pointer
  as it is then.
\<close>

definition close_entry :: "nat \<times> wsi_obj \<Rightarrow> bool \<times> lws_effect list \<times> lws_state \<Rightarrow> bool \<times> lws_effect list \<times> lws_state" where
  "close_entry entry acc =
     (case (entry, acc) of ((wsi, ob), (need, es, w)) \<Rightarrow>
        (let ss = lws_session_of (wo_session ob) w; sv = lw_service w
         in if ls_closed ss then (need, es, put_service (sv\<lparr>sv_table := AList.delete wsi (sv_table sv)\<rparr>) w)
            else if ls_closing ss then (True, es, w)
            else (let (es1, w1) = lws_session_close (wo_session ob) w in (True, es @ es1, w1))))"

definition lws_close_all :: "lws_state \<Rightarrow> bool \<times> lws_effect list \<times> lws_state" where
  "lws_close_all w =
     (let sv = lw_service w; w1 = put_service (sv\<lparr>sv_promise := True\<rparr>) w;
          (need, es, w2) = (if sv_context sv then fold close_entry (sv_table sv) (False, [], w1) else (False, [], w1))
      in (need, es, if need then w2 else put_service ((lw_service w2)\<lparr>sv_promise := False\<rparr>) w2))"

definition close_wait :: "lws_state \<Rightarrow> unit option" where
  "close_wait w = (if sv_promise (lw_service w) then Some () else None)"

definition service_stopped :: "lws_service \<Rightarrow> lws_service" where
  "service_stopped sv = sv\<lparr>sv_running := False, sv_table := [], sv_context := False\<rparr>"

text \<open>\<open>context\<close> and \<open>thread\<close>: whether the context and the thread come up.\<close>

definition service_start :: "string list \<Rightarrow> bool \<Rightarrow> bool \<Rightarrow> lws_service \<Rightarrow> BeeErrorCode \<times> lws_service" where
  "service_start protocol_vec ctx thread sv =
     (if sv_running sv then (kBeeErrorCode_Success, sv)
      else if protocol_vec = [] then (kBeeErrorCode_Invalid_Param, sv)
      else if \<not> ctx then (kBeeErrorCode_Lws_Error, sv\<lparr>sv_context := False\<rparr>)
      else if \<not> thread then (kBeeErrorCode_Timeout, sv\<lparr>sv_context := True\<rparr>)
      else (kBeeErrorCode_Success, sv\<lparr>sv_context := True, sv_running := True\<rparr>))"

section \<open>The two threads\<close>

text \<open>
  The script's thread: calls of the script, events and timers from the loop, and the end of a resumption,
  before which the loop runs nothing else; then the service's thread. \<open>None\<close>: not now.
\<close>

datatype lws_label =
    Script_Connect "(string option \<times> string \<times> int \<times> string option) option" "nat option" nat "string option" int int
  | Script_Write nat "string option"
  | Script_Close nat
  | Script_Yields
  | Loop_Event
  | Loop_Timeout nat bool
  | Module_Closes
  | Lws_Callback nat lws_reason "string option" int
  | Lws_Checks

fun lws_act :: "(string \<Rightarrow> bool) \<Rightarrow> lws_label \<Rightarrow> lws_state \<Rightarrow> (lws_effect list \<times> lws_state) option" where
  "lws_act parses (Script_Connect uri answer i url timeout callback) w =
     Some (snd (session_connect uri answer i url timeout callback w))"
| "lws_act parses (Script_Write i data) w = Some (snd (session_write i data w))"
| "lws_act parses (Script_Close i) w = Some (lws_session_close i w)"
| "lws_act parses Script_Yields w = (case lw_after w of None \<Rightarrow> None | Some (i, a) \<Rightarrow> Some ([], lws_resumed i a w))"
| "lws_act parses Loop_Event w =
     (case (lw_after w, lw_posted w) of
        (None, ev # rest) \<Rightarrow> Some (lws_on_event parses ev (w\<lparr>lw_posted := rest\<rparr>))
      | _ \<Rightarrow> None)"
| "lws_act parses (Loop_Timeout i current) w =
     (let ss = lws_session_of i w
      in if lw_after w \<noteq> None \<or> (if current then \<not> ls_timer ss else ls_replaced ss = 0) then None
         else Some (handle_connect_timeout i (put_lws i
           (if current then ss\<lparr>ls_timer := False\<rparr> else ss\<lparr>ls_replaced := ls_replaced ss - 1\<rparr>) w)))"
| "lws_act parses Module_Closes w = Some (snd (lws_close_all w))"
| "lws_act parses (Lws_Callback wsi reason data n) w = Some (snd (lws_calback True wsi reason data n w))"
| "lws_act parses Lws_Checks w = Some (check_writeable w)"

text \<open>
  The labels of a run, its effects, and the connections for which libwebsockets has been asked to call
  back once it can write.
\<close>

definition lws_requests :: "lws_label \<Rightarrow> lws_effect list \<Rightarrow> nat set \<Rightarrow> nat set" where
  "lws_requests l es R =
     (case l of Lws_Callback wsi LWS_CALLBACK_CLIENT_WRITEABLE data n \<Rightarrow> R - {wsi} | _ \<Rightarrow> R)
       \<union> {x. Lws_Writable x \<in> set es}"

inductive lws_runs ::
    "(string \<Rightarrow> bool) \<Rightarrow> lws_state \<Rightarrow> nat set \<Rightarrow> (lws_label \<times> lws_state) list \<Rightarrow> lws_effect list \<Rightarrow> nat set \<Rightarrow> lws_state \<Rightarrow> bool"
  for parses w0 R0 where
  lws_start: "lws_runs parses w0 R0 [] [] R0 w0"
| lws_step: "lws_runs parses w0 R0 ls es R w \<Longrightarrow> lws_act parses l w = Some (es', w')
    \<Longrightarrow> lws_runs parses w0 R0 (ls @ [(l, w)]) (es @ es') (lws_requests l es' R) w'"

section \<open>Messages go out in order\<close>

text \<open>What a step adds to the messages of a connection, and what has been written to it.\<close>

definition lws_asked :: "nat \<Rightarrow> lws_label \<times> lws_state \<Rightarrow> string list" where
  "lws_asked x step =
     (case step of
        (Script_Write i (Some d), w) \<Rightarrow>
          (let ss = lws_session_of i w
           in if ls_closing ss \<or> ls_closed ss \<or> \<not> ls_service ss \<or> ls_wsi ss \<noteq> Some x \<or> \<not> sv_running (lw_service w)
                \<or> map_of (sv_table (lw_service w)) x = None then [] else [c_text d])
      | _ \<Rightarrow> [])"

definition lws_written :: "nat \<Rightarrow> lws_effect list \<Rightarrow> string list" where
  "lws_written x es = concat (map (\<lambda>e. case e of Lws_Write y d \<Rightarrow> if y = x then [d] else [] | _ \<Rightarrow> []) es)"

definition lws_queue :: "nat \<Rightarrow> lws_state \<Rightarrow> string list option" where
  "lws_queue x w = map_option wo_queue (map_of (sv_table (lw_service w)) x)"

lemma put_simps [simp]:
  "lw_service (put_lws i ss w) = lw_service w" "lw_service (put_service sv w) = sv"
  "lw_sessions (put_service sv w) = lw_sessions w"
  "lw_sessions (put_lws i ss w) = (lw_sessions w)(i := ss)"
  "lw_posted (put_lws i ss w) = lw_posted w" "lw_posted (put_service sv w) = lw_posted w"
  "lw_after (put_lws i ss w) = lw_after w" "lw_after (put_service sv w) = lw_after w"
  by (simp_all add: put_lws_def put_service_def)

lemma report_event_simps [simp]:
  "lw_service (report_event i wsi reason data w) = lw_service w"
  "lw_sessions (report_event i wsi reason data w) = lw_sessions w"
  "lw_after (report_event i wsi reason data w) = lw_after w"
  by (simp_all add: report_event_def)

lemma notify_simps:
  "notify_writeable x sv = (es, sv') \<Longrightarrow> sv_table sv' = sv_table sv \<and> sv_running sv' = sv_running sv
    \<and> sv_context sv' = sv_context sv \<and> sv_promise sv' = sv_promise sv
    \<and> set (sv_writeable sv') = insert x (set (sv_writeable sv)) \<and> set es \<subseteq> {Lws_Cancel_Service}"
  by (auto simp: notify_writeable_def)

text \<open>What a step does to a connection: the queue it had, what it wrote and the queue it has.\<close>

definition queue_moves :: "nat \<Rightarrow> lws_label \<times> lws_state \<Rightarrow> lws_effect list \<Rightarrow> lws_state \<Rightarrow> bool" where
  "queue_moves x step es w' \<longleftrightarrow>
     (case (lws_queue x (snd step), lws_queue x w') of
        (None, q') \<Rightarrow> q' = None \<and> lws_written x es = [] \<and> lws_asked x step = []
      | (Some q, None) \<Rightarrow> lws_written x es = [] \<and> lws_asked x step = []
      | (Some q, Some q') \<Rightarrow> q @ lws_asked x step = lws_written x es @ q')"

lemma written_simps [simp]:
  "lws_written x [] = []" "lws_written x (es @ es') = lws_written x es @ lws_written x es'"
  "lws_written x (Lws_Write y d # es) = (if y = x then d # lws_written x es else lws_written x es)"
  "lws_written x (Lws_Writable y # es) = lws_written x es"
  "lws_written x (Lws_Connect c # es) = lws_written x es"
  "lws_written x (Lws_Cancel_Service # es) = lws_written x es"
  "lws_written x (Honor_Close # es) = lws_written x es"
  by (simp_all add: lws_written_def)

lemma written_none: "(\<forall>d. Lws_Write x d \<notin> set es) \<Longrightarrow> lws_written x es = []"
  by (induction es) (auto simp: lws_written_def split: lws_effect.splits)

lemma lws_queue_alt: "lws_queue x w = map_option wo_queue (map_of (sv_table (lw_service w)) x)"
  by (simp add: lws_queue_def)

lemma moves_same:
  "lws_queue x w' = lws_queue x w \<Longrightarrow> (\<forall>d. Lws_Write x d \<notin> set es) \<Longrightarrow> lws_asked x (l, w) = []
    \<Longrightarrow> queue_moves x (l, w) es w'"
  by (auto simp: queue_moves_def written_none split: option.splits)

lemma connect_moves:
  assumes "session_connect uri answer i url timeout callback w = (ec, es, w')" and "answer \<noteq> Some x"
  shows "queue_moves x (Script_Connect uri answer i url timeout callback, w) es w'"
proof (rule moves_same)
  show "lws_queue x w' = lws_queue x w"
    using assms by (auto simp: session_connect_def service_connect_def lws_queue_def Let_def update_conv
        notify_writeable_def split: if_splits option.splits)
  show "\<forall>d. Lws_Write x d \<notin> set es"
    using assms by (auto simp: session_connect_def service_connect_def Let_def notify_writeable_def
        split: if_splits option.splits)
qed (simp add: lws_asked_def)

lemma write_moves:
  assumes "session_write i data w = (ec, es, w')"
  shows "queue_moves x (Script_Write i data, w) es w'"
proof (cases "lws_asked x (Script_Write i data, w) = []")
  case True
  then show ?thesis
    using assms by (intro moves_same) (auto simp: session_write_def service_write_def lws_queue_def Let_def update_conv
        lws_asked_def notify_writeable_def split: if_splits option.splits)
next
  case False
  then obtain d ob where d: "data = Some d" "lws_asked x (Script_Write i data, w) = [c_text d]"
    "map_of (sv_table (lw_service w)) x = Some ob" "ls_wsi (lws_session_of i w) = Some x"
    by (auto simp: lws_asked_def Let_def split: option.splits if_splits)
  then show ?thesis
    using assms False by (auto simp: queue_moves_def session_write_def service_write_def lws_queue_def Let_def update_conv
        notify_writeable_def lws_asked_def split: if_splits)
qed

lemma close_moves: "lws_session_close i w = (es, w') \<Longrightarrow> lws_queue x w' = lws_queue x w \<and> (\<forall>y d. Lws_Write y d \<notin> set es)"
  by (auto simp: lws_session_close_def service_close_def notify_writeable_def lws_queue_def Let_def split: if_splits option.splits)

lemma event_moves: "lws_on_event parses ev w = (es, w') \<Longrightarrow> lw_service w' = lw_service w \<and> (\<forall>y d. Lws_Write y d \<notin> set es)"
  by (cases ev) (auto simp: lws_on_event_def report_connection_result_def report_disconnected_def report_read_data_def
      Let_def split: if_splits lws_reason.splits option.splits prod.splits)

lemma delete_last: "AList.delete k al = [] \<Longrightarrow> x \<noteq> k \<Longrightarrow> map_of al x = None"
  by (metis delete_conv fun_upd_other map_of.simps(1))

lemma callback_moves:
  assumes "lws_calback True wsi reason data n w = (ret, es, w')"
  shows "queue_moves x (Lws_Callback wsi reason data n, w) es w'"
  using assms
  by (auto simp: lws_calback_def inner_callback_def on_writable_def queue_moves_def lws_queue_def lws_asked_def Let_def
      update_conv delete_conv notify_writeable_def dest: delete_last split: if_splits option.splits list.splits prod.splits)

lemma close_entry_keeps:
  assumes "close_entry entry (need, es, w) = (need', es', w')"
  shows "(lws_queue x w' = lws_queue x w \<or> lws_queue x w' = None) \<and> (\<forall>d. Lws_Write x d \<in> set es' \<longrightarrow> Lws_Write x d \<in> set es)"
proof (cases entry)
  case (Pair wsi ob)
  obtain es1 w1 where c: "lws_session_close (wo_session ob) w = (es1, w1)" by (cases "lws_session_close (wo_session ob) w")
  from close_moves [OF this] c assms Pair show ?thesis
    by (auto simp: close_entry_def Let_def lws_queue_def delete_conv split: if_splits)
qed

lemma close_entries_keep:
  assumes "fold close_entry entries (need, es, w) = (need', es', w')"
  shows "(lws_queue x w' = lws_queue x w \<or> lws_queue x w' = None) \<and> (\<forall>d. Lws_Write x d \<in> set es' \<longrightarrow> Lws_Write x d \<in> set es)"
  using assms
proof (induction entries arbitrary: need es w)
  case (Cons entry entries)
  obtain n1 es1 w1 where e: "close_entry entry (need, es, w) = (n1, es1, w1)" by (cases "close_entry entry (need, es, w)")
  with Cons.prems have "fold close_entry entries (n1, es1, w1) = (need', es', w')" by simp
  from Cons.IH [OF this] close_entry_keeps [OF e, of x] show ?case by auto
qed simp

lemma close_all_moves:
  assumes "lws_close_all w = (need, es, w')"
  shows "queue_moves x (Module_Closes, w) es w'"
proof -
  let ?w1 = "put_service ((lw_service w)\<lparr>sv_promise := True\<rparr>) w"
  obtain n1 es1 w1 where f: "(if sv_context (lw_service w) then fold close_entry (sv_table (lw_service w)) (False, [], ?w1)
      else (False, [], ?w1)) = (n1, es1, w1)" by (metis prod_cases3)
  have "(lws_queue x w1 = lws_queue x ?w1 \<or> lws_queue x w1 = None) \<and> (\<forall>d. Lws_Write x d \<notin> set es1)"
    using f close_entries_keep [of "sv_table (lw_service w)" False "[]" ?w1 n1 es1 w1 x] by (auto split: if_splits)
  moreover have "es = es1" "lws_queue x w' = lws_queue x w1" "lws_queue x ?w1 = lws_queue x w"
    using assms f by (auto simp: lws_close_all_def Let_def lws_queue_def split: if_splits)
  ultimately show ?thesis
    by (auto simp: queue_moves_def written_none lws_asked_def split: option.splits)
qed

lemma act_moves:
  assumes "lws_act parses l w = Some (es, w')" and "\<forall>uri i url timeout c. l \<noteq> Script_Connect uri (Some x) i url timeout c"
  shows "queue_moves x (l, w) es w'"
proof (cases l)
  case (Script_Connect uri answer i url timeout callback)
  with assms show ?thesis by (auto intro!: connect_moves simp: prod_eq_iff)
next
  case (Script_Write i data)
  with assms(1) write_moves show ?thesis by (metis lws_act.simps(2) option.inject prod.collapse)
next
  case (Script_Close i)
  with assms(1) close_moves [of i w es w'] show ?thesis by (intro moves_same) (auto simp: lws_asked_def)
next
  case Script_Yields
  with assms(1) show ?thesis
    by (intro moves_same) (auto simp: lws_asked_def lws_resumed_def lws_queue_def Let_def
        split: option.splits lws_after.splits)
next
  case Loop_Event
  with assms(1) obtain ev rest where e: "lws_on_event parses ev (w\<lparr>lw_posted := rest\<rparr>) = (es, w')"
    by (auto split: option.splits list.splits)
  from event_moves [OF e] Loop_Event show ?thesis by (intro moves_same) (auto simp: lws_asked_def lws_queue_def)
next
  case (Loop_Timeout i current)
  with assms(1) show ?thesis
    by (intro moves_same) (auto simp: lws_asked_def lws_queue_def handle_connect_timeout_def report_connection_result_def
        Let_def split: if_splits)
next
  case Module_Closes
  with assms(1) close_all_moves show ?thesis by (metis lws_act.simps(7) option.inject prod.collapse)
next
  case (Lws_Callback wsi reason data n)
  with assms(1) callback_moves show ?thesis by (metis lws_act.simps(8) option.inject prod.collapse)
next
  case Lws_Checks
  with assms(1) show ?thesis
    by (intro moves_same) (auto simp: lws_asked_def lws_queue_def check_writeable_def Let_def)
qed

text \<open>Nothing waits without a callback under way, unless a write has failed or the session has been closed.\<close>

definition lws_fails :: "nat \<Rightarrow> lws_label \<times> lws_state \<Rightarrow> bool" where
  "lws_fails x step \<longleftrightarrow>
     (case step of (Lws_Callback y reason data n, w) \<Rightarrow> y = x \<and> fst (lws_calback True y reason data n w) < 0 | _ \<Rightarrow> False)"

definition lws_live :: "nat \<Rightarrow> nat set \<Rightarrow> lws_state \<Rightarrow> bool" where
  "lws_live x R w \<longleftrightarrow>
     (\<forall>ob. map_of (sv_table (lw_service w)) x = Some ob \<and> wo_queue ob \<noteq> []
        \<longrightarrow> ls_closed (lws_session_of (wo_session ob) w) \<or> x \<in> set (sv_writeable (lw_service w)) \<or> x \<in> R)"

text \<open>A step that keeps tables, marks and flags, or only adds to the marks and flags.\<close>

definition lws_grows :: "nat \<Rightarrow> lws_state \<Rightarrow> lws_state \<Rightarrow> bool" where
  "lws_grows x w w' \<longleftrightarrow>
     (map_of (sv_table (lw_service w')) x = map_of (sv_table (lw_service w)) x
       \<or> (\<forall>ob. map_of (sv_table (lw_service w')) x = Some ob \<longrightarrow> wo_queue ob = [] \<or> x \<in> set (sv_writeable (lw_service w'))))
     \<and> set (sv_writeable (lw_service w)) \<subseteq> set (sv_writeable (lw_service w'))
     \<and> (\<forall>i. ls_closed (lws_session_of i w) \<longrightarrow> ls_closed (lws_session_of i w'))"

lemma grows_live: "lws_live x R w \<Longrightarrow> lws_grows x w w' \<Longrightarrow> R \<subseteq> R' \<Longrightarrow> lws_live x R' w'"
  unfolding lws_live_def lws_grows_def by (metis subsetD)

lemma grows_refl [simp]: "lws_grows x w w"
  by (simp add: lws_grows_def)

lemma grows_trans: "lws_grows x w w1 \<Longrightarrow> lws_grows x w1 w2 \<Longrightarrow> lws_grows x w w2"
  unfolding lws_grows_def by (metis (no_types, lifting) subset_trans subsetD)

lemma connect_grows: "session_connect uri answer i url timeout callback w = (ec, es, w') \<Longrightarrow> lws_grows x w w'"
  by (auto simp: session_connect_def service_connect_def lws_grows_def Let_def update_conv notify_writeable_def
      split: if_splits option.splits)

lemma write_grows: "session_write i data w = (ec, es, w') \<Longrightarrow> lws_grows x w w'"
  by (auto simp: session_write_def service_write_def lws_grows_def Let_def update_conv notify_writeable_def
      split: if_splits option.splits)

lemma close_grows: "lws_session_close i w = (es, w') \<Longrightarrow> lws_grows x w w'"
  by (auto simp: lws_session_close_def service_close_def notify_writeable_def lws_grows_def Let_def split: if_splits option.splits)

lemma event_grows: "lws_on_event parses ev w = (es, w') \<Longrightarrow> lws_grows x w w'"
  by (cases ev) (auto simp: lws_on_event_def report_connection_result_def report_disconnected_def report_read_data_def
      get_completed_json_message_def lws_grows_def Let_def split: if_splits lws_reason.splits option.splits prod.splits)

lemma close_entries_grow:
  "fold close_entry entries (need, es, w) = (need', es', w') \<Longrightarrow> lws_grows x w w'"
proof (induction entries arbitrary: need es w)
  case (Cons entry entries)
  obtain wsi ob where p: "entry = (wsi, ob)" by (cases entry)
  obtain es1 w1 where c: "lws_session_close (wo_session ob) w = (es1, w1)" by (cases "lws_session_close (wo_session ob) w")
  obtain n2 es2 w2 where e: "close_entry entry (need, es, w) = (n2, es2, w2)" by (cases "close_entry entry (need, es, w)")
  with close_grows [OF c, of x] c p have "lws_grows x w w2"
    by (auto simp: close_entry_def Let_def lws_grows_def delete_conv split: if_splits)
  moreover from Cons.prems e have "fold close_entry entries (n2, es2, w2) = (need', es', w')" by simp
  ultimately show ?case using Cons.IH grows_trans by blast
qed simp

lemma close_all_grows: "lws_close_all w = (need, es, w') \<Longrightarrow> lws_grows x w w'"
proof -
  assume a: "lws_close_all w = (need, es, w')"
  let ?w1 = "put_service ((lw_service w)\<lparr>sv_promise := True\<rparr>) w"
  obtain n1 es1 w1 where f: "(if sv_context (lw_service w) then fold close_entry (sv_table (lw_service w)) (False, [], ?w1)
      else (False, [], ?w1)) = (n1, es1, w1)" by (metis prod_cases3)
  have "lws_grows x ?w1 w1"
    using f close_entries_grow [of "sv_table (lw_service w)" False "[]" ?w1 n1 es1 w1 x] by (auto split: if_splits)
  moreover have "lws_grows x w ?w1" by (simp add: lws_grows_def)
  moreover have "lws_grows x w1 w'" using a f by (auto simp: lws_close_all_def Let_def lws_grows_def split: if_splits)
  ultimately show ?thesis using grows_trans by blast
qed

lemma callback_live:
  assumes "lws_calback True wsi reason data n w = (ret, es, w')" and "lws_live x R w"
    and "\<not> (wsi = x \<and> ret < 0)"
  shows "lws_live x (lws_requests (Lws_Callback wsi reason data n) es R) w'"
proof (cases "map_of (sv_table (lw_service w)) wsi")
  case None
  with assms show ?thesis
    by (auto simp: lws_calback_def inner_callback_def lws_live_def lws_requests_def split: if_splits lws_reason.splits)
next
  case (Some ob)
  show ?thesis
  proof (cases "\<not> pre_handle_event reason \<and> \<not> ls_closing (lws_session_of (wo_session ob) w) \<and> reason = LWS_CALLBACK_CLIENT_WRITEABLE")
    case True
    with Some assms show ?thesis
      by (auto simp: lws_calback_def inner_callback_def on_writable_def lws_live_def lws_requests_def Let_def update_conv
          split: list.splits if_splits)
  next
    case False
    with Some assms show ?thesis
      by (auto simp: lws_calback_def inner_callback_def lws_live_def lws_requests_def Let_def delete_conv pre_handle_event_def
          notify_writeable_def dest: delete_last split: if_splits lws_reason.splits)
  qed
qed

lemma act_live:
  assumes "lws_act parses l w = Some (es, w')" and "lws_live x R w" and "\<not> lws_fails x (l, w)"
  shows "lws_live x (lws_requests l es R) w'"
proof -
  have more: "lws_live x (lws_requests l es R) w'" if "lws_grows x w w'" and "\<forall>y reason d n. l \<noteq> Lws_Callback y reason d n"
    using that grows_live [OF assms(2) that(1), of "lws_requests l es R"] by (cases l) (auto simp: lws_requests_def)
  show ?thesis
  proof (cases l)
    case (Script_Connect uri answer i url timeout callback)
    with assms(1) obtain ec where "session_connect uri answer i url timeout callback w = (ec, es, w')"
      by (metis lws_act.simps(1) option.inject prod.collapse)
    from connect_grows [OF this] Script_Connect show ?thesis by (intro more) auto
  next
    case (Script_Write i data)
    with assms(1) obtain ec where "session_write i data w = (ec, es, w')"
      by (metis lws_act.simps(2) option.inject prod.collapse)
    from write_grows [OF this] Script_Write show ?thesis by (intro more) auto
  next
    case (Script_Close i)
    with assms(1) have "lws_session_close i w = (es, w')" by simp
    from close_grows [OF this] Script_Close show ?thesis by (intro more) auto
  next
    case Script_Yields
    with assms(1) have "lws_grows x w w'"
      by (auto simp: lws_resumed_def lws_grows_def Let_def split: option.splits lws_after.splits)
    with Script_Yields show ?thesis by (intro more) auto
  next
    case Loop_Event
    with assms(1) obtain ev rest where e: "lws_on_event parses ev (w\<lparr>lw_posted := rest\<rparr>) = (es, w')"
      by (auto split: option.splits list.splits)
    have "lws_grows x w (w\<lparr>lw_posted := rest\<rparr>)" by (simp add: lws_grows_def)
    from grows_trans [OF this event_grows [OF e]] Loop_Event show ?thesis by (intro more) auto
  next
    case (Loop_Timeout i current)
    with assms(1) have "lws_grows x w w'"
      by (auto simp: handle_connect_timeout_def report_connection_result_def lws_grows_def Let_def split: if_splits)
    with Loop_Timeout show ?thesis by (intro more) auto
  next
    case Module_Closes
    with assms(1) obtain need where "lws_close_all w = (need, es, w')"
      by (metis lws_act.simps(7) option.inject prod.collapse)
    from close_all_grows [OF this] Module_Closes show ?thesis by (intro more) auto
  next
    case (Lws_Callback wsi reason data n)
    with assms(1) obtain ret where r: "lws_calback True wsi reason data n w = (ret, es, w')"
      by (metis lws_act.simps(8) option.inject prod.collapse)
    with assms(3) Lws_Callback show ?thesis unfolding Lws_Callback
      by (intro callback_live [OF r assms(2)]) (auto simp: lws_fails_def)
  next
    case Lws_Checks
    with assms(1,2) show ?thesis
      by (auto simp: check_writeable_def lws_live_def lws_requests_def Let_def)
  qed
qed

lemma runs_move:
  assumes "lws_runs parses w0 R0 steps es R w" and "lws_queue x w0 = Some []"
    and "\<forall>(l, u) \<in> set steps. \<forall>uri i url timeout c. l \<noteq> Script_Connect uri (Some x) i url timeout c"
  shows "\<exists>rest. concat (map (lws_asked x) steps) = lws_written x es @ rest \<and> (\<forall>q. lws_queue x w = Some q \<longrightarrow> q = rest)"
  using assms
proof (induction rule: lws_runs.induct)
  case (lws_step steps es R w l es' w')
  then obtain rest where i: "concat (map (lws_asked x) steps) = lws_written x es @ rest"
    "\<forall>q. lws_queue x w = Some q \<longrightarrow> q = rest" by auto
  have m: "queue_moves x (l, w) es' w'"
    using act_moves [OF lws_step.hyps(2)] lws_step.prems(2) by fastforce
  show ?case
  proof (cases "lws_queue x w")
    case None
    with m i show ?thesis by (auto simp: queue_moves_def)
  next
    case (Some q)
    with m i show ?thesis by (cases "lws_queue x w'") (auto simp: queue_moves_def)
  qed
qed simp

lemma runs_live:
  assumes "lws_runs parses w0 R0 steps es R w" and "lws_live x R0 w0" and "\<forall>step \<in> set steps. \<not> lws_fails x step"
  shows "lws_live x R w"
  using assms by (induction rule: lws_runs.induct) (auto intro: act_live)

text \<open>
  C13: what scripts write goes out in order. However the calls of the script, the events of its loop, the
  callbacks of libwebsockets and its service thread's checks interleave, the texts handed to
  \<open>lws_write\<close> on a connection are a prefix of the texts written while it was open, in order, and the rest is
  its queue; as long as no write fails and the session is not closed, a queue that is not empty has a
  callback under way.
\<close>

theorem lws_messages_in_order:
  assumes "lws_runs parses w0 R0 steps es R w" and "lws_queue x w0 = Some []"
    and "\<forall>(l, u) \<in> set steps. \<forall>uri i url timeout c. l \<noteq> Script_Connect uri (Some x) i url timeout c"
  shows "\<exists>rest. concat (map (lws_asked x) steps) = lws_written x es @ rest
    \<and> (\<forall>ob. map_of (sv_table (lw_service w)) x = Some ob \<longrightarrow> wo_queue ob = rest
        \<and> (rest = [] \<or> (\<exists>step \<in> set steps. lws_fails x step) \<or> ls_closed (lw_sessions w (wo_session ob))
            \<or> x \<in> set (sv_writeable (lw_service w)) \<or> x \<in> R))"
proof -
  from runs_move [OF assms] obtain rest where r: "concat (map (lws_asked x) steps) = lws_written x es @ rest"
    "\<forall>q. lws_queue x w = Some q \<longrightarrow> q = rest" by blast
  have "lws_live x R0 w0" using assms(2) by (auto simp: lws_live_def lws_queue_def)
  with runs_live [OF assms(1)] have "lws_live x R w \<or> (\<exists>step \<in> set steps. lws_fails x step)" by blast
  with r show ?thesis by (auto simp: lws_live_def lws_queue_def)
qed

section \<open>Examples\<close>

fun lws_exec ::
    "(string \<Rightarrow> bool) \<Rightarrow> lws_label list \<Rightarrow> nat set \<Rightarrow> lws_state \<Rightarrow> ((lws_label \<times> lws_state) list \<times> lws_effect list \<times> nat set \<times> lws_state) option" where
  "lws_exec parses [] R w = Some ([], [], R, w)"
| "lws_exec parses (l # ls) R w =
     do {
       (es, w1) \<leftarrow> lws_act parses l w;
       (steps, es', R', w') \<leftarrow> lws_exec parses ls (lws_requests l es R) w1;
       Some ((l, w) # steps, es @ es', R', w')
     }"

lemma exec_runs:
  "lws_exec parses ls R w = Some (steps, es, R', w') \<Longrightarrow> lws_runs parses w0 R0 s0 e0 R w
    \<Longrightarrow> lws_runs parses w0 R0 (s0 @ steps) (e0 @ es) R' w'"
proof (induction ls arbitrary: R w s0 e0 steps es)
  case (Cons l ls)
  from Cons.prems(1) obtain es1 w1 steps2 es2 where
    1: "lws_act parses l w = Some (es1, w1)" "lws_exec parses ls (lws_requests l es1 R) w1 = Some (steps2, es2, R', w')"
      "steps = (l, w) # steps2" "es = es1 @ es2" by (auto split: bind_splits)
  from Cons.IH [OF 1(2) lws_step [OF Cons.prems(2) 1(1)]] 1(3,4) show ?case by simp
qed simp

lemmas exec_run = exec_runs [OF _ lws_start, simplified]

definition demo_lws :: lws_session where
  "demo_lws = (LuaLwsSession_new True True [] True 5 6 True)\<lparr>ls_callbacks := (\<lambda>_. 5), ls_wsi := Some 3\<rparr>"

definition demo_lws_state :: "(nat \<times> nat option \<times> lws_reason \<times> string) list \<Rightarrow> lws_state" where
  "demo_lws_state posted = \<lparr>lw_sessions = (\<lambda>_. demo_lws),
     lw_service = \<lparr>sv_running = True, sv_context = True, sv_table = [(3, \<lparr>wo_session = 0, wo_queue = []\<rparr>)],
       sv_writeable = [], sv_promise = False\<rparr>,
     lw_posted = posted, lw_after = None\<rparr>"

lemmas demo_lws_defs = demo_lws_state_def demo_lws_def LuaLwsSession_new_def LUA_REFNIL_def

theorem lws_messages_in_order_witness:
  "\<exists>steps es R w. lws_runs (\<lambda>_. True) (demo_lws_state []) {} steps es R w \<and> lws_written 3 es = [''hi'']
    \<and> concat (map (lws_asked 3) steps) = [''hi'', ''you'']
    \<and> (\<exists>rest. concat (map (lws_asked 3) steps) = lws_written 3 es @ rest
      \<and> (\<forall>ob. map_of (sv_table (lw_service w)) 3 = Some ob \<longrightarrow> wo_queue ob = rest
        \<and> (rest = [] \<or> (\<exists>step \<in> set steps. lws_fails 3 step) \<or> ls_closed (lw_sessions w (wo_session ob))
            \<or> 3 \<in> set (sv_writeable (lw_service w)) \<or> 3 \<in> R)))"
proof -
  let ?labels = "[Script_Write 0 (Some ''hi''), Lws_Checks, Script_Write 0 (Some ''you''),
    Lws_Callback 3 LWS_CALLBACK_CLIENT_WRITEABLE None 2]"
  obtain steps es R w where e: "lws_exec (\<lambda>_. True) ?labels {} (demo_lws_state []) = Some (steps, es, R, w)"
    "lws_written 3 es = [''hi'']" "concat (map (lws_asked 3) steps) = [''hi'', ''you'']" "map fst steps = ?labels"
    by (simp add: demo_lws_defs session_write_def service_write_def notify_writeable_def check_writeable_def c_text_def
        lws_calback_def pre_handle_event_def inner_callback_def on_writable_def lws_asked_def Let_def)
  have "\<forall>(l, u) \<in> set steps. \<forall>uri i url timeout c. l \<noteq> Script_Connect uri (Some 3) i url timeout c"
  proof -
    have "\<forall>l \<in> fst ` set steps. \<forall>uri i url timeout c. l \<noteq> Script_Connect uri (Some 3) i url timeout c"
      using arg_cong [OF e(4), of set] by simp
    then show ?thesis by auto
  qed
  moreover have "lws_queue 3 (demo_lws_state []) = Some []" by (simp add: lws_queue_def demo_lws_state_def)
  ultimately show ?thesis
    using lws_messages_in_order [OF exec_run [OF e(1)], of 3] exec_run [OF e(1)] e(2,3) by blast
qed

end
