(* ===== verification/Bee_Lws_Run.thy ===== *)
theory Bee_Lws_Run
  imports Bee_Lws
begin

text \<open>
  What a script hears of its websocket: messages put together from frames, the result of connecting and the
  end of the connection. The steps are those of \<open>Bee_Lws\<close>, in any interleaving.
\<close>

section \<open>Frames make messages\<close>

text \<open>
  The reference: frames are collected until the parser accepts what there is. The messages, and what is
  left over.
\<close>

fun assemble :: "(string \<Rightarrow> bool) \<Rightarrow> string \<Rightarrow> string list \<Rightarrow> string list \<times> string" where
  "assemble accepts c [] = ([], c)"
| "assemble accepts c (f # fs) =
     (if accepts (c @ f) then (let (ms, r) = assemble accepts [] fs in ((c @ f) # ms, r)) else assemble accepts (c @ f) fs)"

lemma assemble_append:
  "assemble accepts c (fs @ gs) = (let (ms, r) = assemble accepts c fs; (ns, r') = assemble accepts r gs in (ms @ ns, r'))"
  by (induction accepts c fs rule: assemble.induct) (auto simp: Let_def split: prod.splits)

text \<open>A message cut into frames, none of whose proper fronts the parser takes for a whole.\<close>

definition cut_message :: "(string \<Rightarrow> bool) \<Rightarrow> string list \<Rightarrow> bool" where
  "cut_message accepts fs \<longleftrightarrow> fs \<noteq> [] \<and> accepts (concat fs) \<and> (\<forall>k. 0 < k \<longrightarrow> k < length fs \<longrightarrow> \<not> accepts (concat (take k fs)))"

lemma assemble_front:
  "(\<forall>k. 0 < k \<longrightarrow> k \<le> length fs \<longrightarrow> \<not> accepts (c @ concat (take k fs))) \<Longrightarrow> assemble accepts c fs = ([], c @ concat fs)"
proof (induction fs arbitrary: c)
  case (Cons f fs)
  from Cons.prems [rule_format, of 1] have "\<not> accepts (c @ f)" by simp
  moreover have "\<forall>k. 0 < k \<longrightarrow> k \<le> length fs \<longrightarrow> \<not> accepts ((c @ f) @ concat (take k fs))"
    using Cons.prems [rule_format, of "Suc _"] by auto
  ultimately show ?case using Cons.IH [of "c @ f"] by simp
qed simp

lemma assemble_message:
  assumes "cut_message accepts fs"
  shows "assemble accepts [] fs = ([concat fs], [])"
proof -
  from assms obtain gs g where fs: "fs = gs @ [g]" by (metis append_butlast_last_id cut_message_def)
  have "\<not> accepts ([] @ concat (take k gs))" if "0 < k" "k \<le> length gs" for k
    using assms that by (auto simp: cut_message_def fs dest: spec [of _ k])
  then have "assemble accepts [] gs = ([], concat gs)" using assemble_front [of gs accepts "[]"] by simp
  with assms show ?thesis by (simp add: fs assemble_append cut_message_def)
qed

lemma assemble_messages: "\<forall>fs \<in> set fss. cut_message accepts fs \<Longrightarrow> assemble accepts [] (concat fss) = (map concat fss, [])"
  by (induction fss) (simp_all add: assemble_append assemble_message)

text \<open>The frames a session takes, and the messages it reports.\<close>

definition lws_frames :: "nat \<Rightarrow> lws_label \<times> lws_state \<Rightarrow> string list" where
  "lws_frames i step =
     (case step of
        (Loop_Event, w) \<Rightarrow>
          (case lw_posted w of
             (j, x, LWS_CALLBACK_CLIENT_RECEIVE, d) # rest \<Rightarrow>
               if j = i \<and> \<not> ls_closing (lws_session_of i w) \<and> \<not> ls_closed (lws_session_of i w) then [d] else []
           | _ \<Rightarrow> [])
      | _ \<Rightarrow> [])"

definition lws_reports :: "nat \<Rightarrow> lws_effect list \<Rightarrow> string list" where
  "lws_reports i es = concat (map (\<lambda>e. case e of Report_Data j cb m \<Rightarrow> if j = i then [m] else [] | _ \<Rightarrow> []) es)"

definition lws_cache :: "nat \<Rightarrow> lws_state \<Rightarrow> string" where
  "lws_cache i w = (if lw_after w = Some (i, After_Data) \<or> \<not> ls_check_json (lws_session_of i w) then []
     else ls_current_msg (lws_session_of i w))"

definition lws_accepts :: "(string \<Rightarrow> bool) \<Rightarrow> lws_session \<Rightarrow> string \<Rightarrow> bool" where
  "lws_accepts parses ss d \<longleftrightarrow> ls_check_json ss \<longrightarrow> parses d"

lemma reports_simps [simp]: "lws_reports i [] = []" "lws_reports i (es @ es') = lws_reports i es @ lws_reports i es'"
  by (simp_all add: lws_reports_def)

lemma reports_none: "(\<forall>cb m. Report_Data i cb m \<notin> set es) \<Longrightarrow> lws_reports i es = []"
  by (induction es) (auto simp: lws_reports_def split: lws_effect.splits)

text \<open>A step that neither reads for a session nor changes what reading needs.\<close>

definition reading_same :: "nat \<Rightarrow> lws_state \<Rightarrow> lws_state \<Rightarrow> bool" where
  "reading_same i w w' \<longleftrightarrow>
     (let ss = lws_session_of i w; ss' = lws_session_of i w'
      in ls_check_json ss' = ls_check_json ss \<and> ls_main ss' = ls_main ss
        \<and> ls_callbacks ss' eLuaLwsCallback_Read = ls_callbacks ss eLuaLwsCallback_Read \<and> ls_current_msg ss' = ls_current_msg ss)"

lemma same_trans: "reading_same i w w1 \<Longrightarrow> reading_same i w1 w2 \<Longrightarrow> reading_same i w w2"
  by (simp add: reading_same_def Let_def)

lemma connect_reading:
  "session_connect uri answer j url timeout callback w = (ec, es, w')
    \<Longrightarrow> reading_same i w w' \<and> lw_after w' = lw_after w \<and> (\<forall>cb m. Report_Data i cb m \<notin> set es)"
  by (auto simp: session_connect_def service_connect_def reading_same_def Let_def notify_writeable_def
      split: if_splits option.splits)

lemma write_reading:
  "session_write j data w = (ec, es, w')
    \<Longrightarrow> reading_same i w w' \<and> lw_after w' = lw_after w \<and> (\<forall>cb m. Report_Data i cb m \<notin> set es)"
  by (auto simp: session_write_def service_write_def reading_same_def Let_def notify_writeable_def
      split: if_splits option.splits)

lemma close_reading:
  "lws_session_close j w = (es, w')
    \<Longrightarrow> reading_same i w w' \<and> lw_after w' = lw_after w \<and> (\<forall>cb m. Report_Data i cb m \<notin> set es)"
  by (auto simp: lws_session_close_def service_close_def reading_same_def Let_def notify_writeable_def
      split: if_splits option.splits)

lemma timeout_reading:
  "handle_connect_timeout j w = (es, w') \<Longrightarrow> lw_after w = None
    \<Longrightarrow> reading_same i w w' \<and> lw_after w' \<noteq> Some (i, After_Data) \<and> (\<forall>cb m. Report_Data i cb m \<notin> set es)"
  by (auto simp: handle_connect_timeout_def report_connection_result_def reading_same_def Let_def split: if_splits)

lemma callback_reading:
  "lws_calback user wsi reason data n w = (ret, es, w')
    \<Longrightarrow> reading_same i w w' \<and> lw_after w' = lw_after w \<and> (\<forall>cb m. Report_Data i cb m \<notin> set es)"
  by (auto simp: lws_calback_def inner_callback_def on_writable_def reading_same_def Let_def notify_writeable_def
      split: if_splits option.splits list.splits prod.splits)

lemma close_entries_reading:
  "fold close_entry entries (need, es, w) = (need', es', w') \<Longrightarrow> (\<forall>cb m. Report_Data i cb m \<notin> set es)
    \<Longrightarrow> reading_same i w w' \<and> lw_after w' = lw_after w \<and> (\<forall>cb m. Report_Data i cb m \<notin> set es')"
proof (induction entries arbitrary: need es w)
  case Nil
  then show ?case by (simp add: reading_same_def)
next
  case (Cons entry entries)
  obtain wsi ob where p: "entry = (wsi, ob)" by (cases entry)
  obtain es1 w1 where c: "lws_session_close (wo_session ob) w = (es1, w1)" by (cases "lws_session_close (wo_session ob) w")
  obtain n2 es2 w2 where e: "close_entry entry (need, es, w) = (n2, es2, w2)" by (cases "close_entry entry (need, es, w)")
  have k: "reading_same i w w2 \<and> lw_after w2 = lw_after w \<and> (\<forall>cb m. Report_Data i cb m \<notin> set es2)"
    using e close_reading [OF c, of i] c p Cons.prems(2)
    by (auto simp: close_entry_def Let_def reading_same_def split: if_splits)
  from Cons.prems e have "fold close_entry entries (n2, es2, w2) = (need', es', w')" by simp
  with Cons.IH [of n2 es2 w2] k show ?case by (auto intro: same_trans)
qed

lemma close_all_reading:
  assumes "lws_close_all w = (need, es, w')"
  shows "reading_same i w w' \<and> lw_after w' = lw_after w \<and> (\<forall>cb m. Report_Data i cb m \<notin> set es)"
proof -
  let ?w1 = "put_service ((lw_service w)\<lparr>sv_promise := True\<rparr>) w"
  obtain n1 es1 w1 where f: "(if sv_context (lw_service w) then fold close_entry (sv_table (lw_service w)) (False, [], ?w1)
      else (False, [], ?w1)) = (n1, es1, w1)" by (metis prod_cases3)
  have "reading_same i ?w1 w1 \<and> lw_after w1 = lw_after ?w1 \<and> (\<forall>cb m. Report_Data i cb m \<notin> set es1)"
    using f close_entries_reading [of "sv_table (lw_service w)" False "[]" ?w1 n1 es1 w1 i]
    by (auto simp: reading_same_def split: if_splits)
  with assms f show ?thesis
    by (auto simp: lws_close_all_def Let_def reading_same_def split: if_splits)
qed

lemma event_reading:
  assumes "lws_on_event parses (j, x, reason, d) w = (es, w')" and "lw_after w = None"
    and "\<not> (j = i \<and> reason = LWS_CALLBACK_CLIENT_RECEIVE \<and> \<not> ls_closing (lws_session_of i w) \<and> \<not> ls_closed (lws_session_of i w))"
  shows "reading_same i w w' \<and> lw_after w' \<noteq> Some (i, After_Data) \<and> (\<forall>cb m. Report_Data i cb m \<notin> set es)"
  using assms
  by (auto simp: lws_on_event_def report_connection_result_def report_disconnected_def report_read_data_def
      get_completed_json_message_def reading_same_def Let_def split: if_splits lws_reason.splits option.splits prod.splits)

text \<open>A timer that runs has run out before its handler.\<close>

definition timer_run_out :: "nat \<Rightarrow> bool \<Rightarrow> lws_state \<Rightarrow> lws_state" where
  "timer_run_out j current w =
     (let ss = lws_session_of j w
      in put_lws j (if current then ss\<lparr>ls_timer := False\<rparr> else ss\<lparr>ls_replaced := ls_replaced ss - 1\<rparr>) w)"

lemma timeout_act: "lws_act parses (Loop_Timeout j current) w = Some (es, w')
    \<Longrightarrow> lw_after w = None \<and> handle_connect_timeout j (timer_run_out j current w) = (es, w')"
  by (cases "lw_after w") (auto simp: Let_def timer_run_out_def split: if_splits)

definition reads_for :: "nat \<Rightarrow> bool \<Rightarrow> int \<Rightarrow> lws_state \<Rightarrow> bool" where
  "reads_for i json cb w \<longleftrightarrow>
     (let ss = lws_session_of i w
      in ls_check_json ss = json \<and> ls_main ss \<and> ls_callbacks ss eLuaLwsCallback_Read = cb \<and> cb \<noteq> LUA_REFNIL)"

abbreviation json_accepts :: "bool \<Rightarrow> (string \<Rightarrow> bool) \<Rightarrow> string \<Rightarrow> bool" where
  "json_accepts json parses d \<equiv> json \<longrightarrow> parses d"

text \<open>One step: the frame it takes, if any, goes through the reference.\<close>

definition assembles :: "(string \<Rightarrow> bool) \<Rightarrow> nat \<Rightarrow> bool \<Rightarrow> int \<Rightarrow> lws_label \<times> lws_state \<Rightarrow> lws_effect list \<Rightarrow> lws_state \<Rightarrow> bool" where
  "assembles parses i json cb step es w' \<longleftrightarrow> reads_for i json cb w'
     \<and> assemble (json_accepts json parses) (lws_cache i (snd step)) (lws_frames i step) = (lws_reports i es, lws_cache i w')"

lemma assembles_same:
  assumes "reads_for i json cb w" and "reading_same i w w'" and "lw_after w' = Some (i, After_Data) \<longleftrightarrow> lw_after w = Some (i, After_Data)"
    and "\<forall>cb m. Report_Data i cb m \<notin> set es" and "lws_frames i (l, w) = []"
  shows "assembles parses i json cb (l, w) es w'"
  using assms by (auto simp: assembles_def reads_for_def reading_same_def lws_cache_def reports_none Let_def)

lemma read_assembles:
  assumes "lws_on_event parses (i, x, LWS_CALLBACK_CLIENT_RECEIVE, d) (w\<lparr>lw_posted := rest\<rparr>) = (es, w')"
    and "lw_posted w = (i, x, LWS_CALLBACK_CLIENT_RECEIVE, d) # rest" and "lw_after w = None" and "reads_for i json cb w"
    and "\<not> ls_closing (lws_session_of i w)" and "\<not> ls_closed (lws_session_of i w)"
  shows "assembles parses i json cb (Loop_Event, w) es w'"
  using assms
  by (cases "ls_current_msg (lws_session_of i w) = []")
    (auto simp: lws_on_event_def report_read_data_def get_completed_json_message_def assembles_def reads_for_def
      lws_cache_def lws_frames_def lws_reports_def Let_def split: if_splits)

lemma act_assembles:
  assumes "lws_act parses l w = Some (es, w')" and "reads_for i json cb w"
  shows "assembles parses i json cb (l, w) es w'"
proof (cases l)
  case (Script_Connect uri answer j url timeout callback)
  with assms(1) obtain ec where "session_connect uri answer j url timeout callback w = (ec, es, w')"
    by (metis lws_act.simps(1) option.inject prod.collapse)
  from connect_reading [OF this, of i] Script_Connect assms(2) show ?thesis
    by (intro assembles_same) (auto simp: lws_frames_def)
next
  case (Script_Write j data)
  with assms(1) obtain ec where "session_write j data w = (ec, es, w')"
    by (metis lws_act.simps(2) option.inject prod.collapse)
  from write_reading [OF this, of i] Script_Write assms(2) show ?thesis
    by (intro assembles_same) (auto simp: lws_frames_def)
next
  case (Script_Close j)
  with assms(1) have "lws_session_close j w = (es, w')" by simp
  from close_reading [OF this, of i] Script_Close assms(2) show ?thesis
    by (intro assembles_same) (auto simp: lws_frames_def)
next
  case Script_Yields
  with assms(1) obtain j a where a: "lw_after w = Some (j, a)" "es = []" "w' = lws_resumed j a w"
    by (auto split: option.splits)
  with Script_Yields assms(2) show ?thesis
    by (cases a) (auto simp: assembles_def reads_for_def lws_cache_def lws_frames_def lws_resumed_def Let_def)
next
  case Loop_Event
  with assms(1) obtain j x reason d rest where p: "lw_after w = None" "lw_posted w = (j, x, reason, d) # rest"
    "lws_on_event parses (j, x, reason, d) (w\<lparr>lw_posted := rest\<rparr>) = (es, w')"
    by (auto split: option.splits list.splits)
  show ?thesis
  proof (cases "j = i \<and> reason = LWS_CALLBACK_CLIENT_RECEIVE \<and> \<not> ls_closing (lws_session_of i w) \<and> \<not> ls_closed (lws_session_of i w)")
    case True
    with p Loop_Event read_assembles [of parses i x d rest w es w' json cb] assms(2) show ?thesis by simp
  next
    case False
    with event_reading [OF p(3), of i] p(1) have "reading_same i w w'" "lw_after w' \<noteq> Some (i, After_Data)"
      "\<forall>cb m. Report_Data i cb m \<notin> set es" by (auto simp: reading_same_def)
    moreover from False p(2) Loop_Event have "lws_frames i (l, w) = []"
      by (auto simp: lws_frames_def split: lws_reason.splits)
    ultimately show ?thesis using p(1) assms(2) by (intro assembles_same) auto
  qed
next
  case (Loop_Timeout j current)
  with timeout_act assms(1) have t: "lw_after w = None" "handle_connect_timeout j (timer_run_out j current w) = (es, w')" by blast+
  have s: "reading_same i w (timer_run_out j current w)" "lw_after (timer_run_out j current w) = None"
    using t(1) by (simp_all add: timer_run_out_def reading_same_def Let_def)
  from timeout_reading [OF t(2) s(2), of i] s(1) t(1) Loop_Timeout assms(2) show ?thesis
    by (intro assembles_same) (auto simp: lws_frames_def intro: same_trans)
next
  case Module_Closes
  with assms(1) obtain need where "lws_close_all w = (need, es, w')"
    by (metis lws_act.simps(7) option.inject prod.collapse)
  from close_all_reading [OF this, of i] Module_Closes assms(2) show ?thesis
    by (intro assembles_same) (auto simp: lws_frames_def)
next
  case (Lws_Callback wsi reason data n)
  with assms(1) obtain ret where "lws_calback True wsi reason data n w = (ret, es, w')"
    by (metis lws_act.simps(8) option.inject prod.collapse)
  from callback_reading [OF this, of i] Lws_Callback assms(2) show ?thesis
    by (intro assembles_same) (auto simp: lws_frames_def)
next
  case Lws_Checks
  with assms show ?thesis
    by (intro assembles_same) (auto simp: lws_frames_def check_writeable_def reading_same_def Let_def)
qed

lemma runs_assemble:
  assumes "lws_runs parses w0 R0 steps es R w" and "reads_for i json cb w0" and "lws_cache i w0 = []"
  shows "reads_for i json cb w
    \<and> assemble (json_accepts json parses) [] (concat (map (lws_frames i) steps)) = (lws_reports i es, lws_cache i w)"
  using assms
proof (induction rule: lws_runs.induct)
  case (lws_step steps es R w l es' w')
  then have i: "reads_for i json cb w"
    "assemble (json_accepts json parses) [] (concat (map (lws_frames i) steps)) = (lws_reports i es, lws_cache i w)" by simp_all
  from act_assembles [OF lws_step.hyps(2) i(1)] i(2) show ?case
    by (simp add: assembles_def assemble_append)
qed simp

text \<open>
  C15: a script gets whole messages. Take a session that has a callback for reading and no piece of a message in its
  cache, and any run in which the frames it takes are, in order, the frames of messages that are complete, where a
  session that checks for complete JSON has a parser that accepts each of these messages but no proper front of its
  frames. Then it reports exactly these messages, each put together from its frames and each once, in order, and its
  cache is empty again. (For a session that does not check, every frame is such a message. A frame that is the front
  of no message is what \<open>broken_frame_stops_reading\<close> below is about.)
\<close>

theorem script_gets_whole_messages:
  assumes "lws_runs parses w0 R0 steps es R w" and "reads_for i json cb w0" and "lws_cache i w0 = []"
    and "concat (map (lws_frames i) steps) = concat fss"
    and "\<forall>fs \<in> set fss. cut_message (json_accepts json parses) fs"
  shows "lws_reports i es = map concat fss \<and> lws_cache i w = []"
  using runs_assemble [OF assms(1-3)] assemble_messages [OF assms(5)] assms(4) by simp

text \<open>
  One frame that is not the front of any message stops a session for good: if the parser accepts
  nothing that begins with it, no later frame is ever reported.
\<close>

theorem broken_frame_stops_reading:
  assumes "lws_runs parses w0 R0 steps es R w" and "reads_for i True cb w0" and "lws_cache i w0 = []"
    and "concat (map (lws_frames i) steps) = f # fs" and "\<forall>d. \<not> parses (f @ d)"
  shows "lws_reports i es = [] \<and> lws_cache i w = concat (f # fs)"
proof -
  have "\<not> parses ([] @ concat (take k (f # fs)))" if "0 < k" for k
    using assms(5) that by (cases k) auto
  then have "assemble (json_accepts True parses) [] (f # fs) = ([], [] @ concat (f # fs))"
    by (intro assemble_front) auto
  with runs_assemble [OF assms(1-3)] assms(4) show ?thesis by simp
qed

section \<open>Examples\<close>

definition demo_frames :: "string list \<Rightarrow> (nat \<times> nat option \<times> lws_reason \<times> string) list" where
  "demo_frames fs = map (\<lambda>f. (0, Some 3, LWS_CALLBACK_CLIENT_RECEIVE, f)) fs"

lemmas demo_reading = demo_frames_def demo_lws_defs lws_on_event_def report_read_data_def get_completed_json_message_def
  lws_resumed_def lws_frames_def Let_def

lemma demo_reads: "reads_for 0 True 5 (demo_lws_state posted)" "lws_cache 0 (demo_lws_state posted) = []"
  by (simp_all add: reads_for_def lws_cache_def demo_lws_defs)

theorem script_gets_whole_messages_witness:
  "\<exists>steps es R w. lws_runs (\<lambda>s. s = ''{}'') (demo_lws_state (demo_frames [''{'', ''}''])) {} steps es R w
     \<and> lws_reports 0 es = [''{}''] \<and> lws_cache 0 w = []"
proof -
  obtain steps es R w where e: "lws_exec (\<lambda>s. s = ''{}'') [Loop_Event, Loop_Event] {} (demo_lws_state (demo_frames [''{'', ''}'']))
      = Some (steps, es, R, w)" "concat (map (lws_frames 0) steps) = concat [[''{'', ''}'']]"
    by (simp add: demo_reading)
  have "\<forall>fs \<in> set [[''{'', ''}'']]. cut_message (json_accepts True (\<lambda>s. s = ''{}'')) fs"
    by (auto simp: cut_message_def less_Suc_eq)
  from script_gets_whole_messages [OF exec_run [OF e(1)] demo_reads e(2) this] exec_run [OF e(1)]
  show ?thesis by fastforce
qed

theorem broken_frame_stops_reading_witness:
  "\<exists>steps es R w. lws_runs (\<lambda>s. s = ''{}'') (demo_lws_state (demo_frames [''x'', ''{}''])) {} steps es R w
     \<and> lws_reports 0 es = [] \<and> lws_cache 0 w = ''x{}''"
proof -
  obtain steps es R w where e: "lws_exec (\<lambda>s. s = ''{}'') [Loop_Event, Loop_Event] {} (demo_lws_state (demo_frames [''x'', ''{}'']))
      = Some (steps, es, R, w)" "concat (map (lws_frames 0) steps) = ''x'' # [''{}'']"
    by (simp add: demo_reading)
  from broken_frame_stops_reading [OF exec_run [OF e(1)] demo_reads e(2)] exec_run [OF e(1)]
  show ?thesis by fastforce
qed

end
