(* ===== verification/Bee_Lws_Life.thy ===== *)
theory Bee_Lws_Life
  imports Bee_Lws_Run
begin

text \<open>
  The life of a websocket session: what its script is told of the connection and how often, what closing
  achieves, and what the code does not cope with.
\<close>

section \<open>Told once\<close>

definition tells :: "nat \<Rightarrow> lws_effect \<Rightarrow> bool" where
  "tells i e \<longleftrightarrow> (case e of Report_Result j cb ok d \<Rightarrow> j = i | Report_Disconnected j cb \<Rightarrow> j = i
     | Report_Data j cb m \<Rightarrow> j = i | _ \<Rightarrow> False)"

definition tells_result :: "nat \<Rightarrow> lws_effect \<Rightarrow> bool" where
  "tells_result i e \<longleftrightarrow> (case e of Report_Result j cb ok d \<Rightarrow> j = i | _ \<Rightarrow> False)"

text \<open>The session has been closed, by the script or by the other side.\<close>

definition lws_over :: "nat \<Rightarrow> lws_state \<Rightarrow> bool" where
  "lws_over i w \<longleftrightarrow> ls_closing (lw_sessions w i) \<or> ls_closed (lw_sessions w i)"

definition lws_told :: "nat \<Rightarrow> lws_state \<Rightarrow> bool" where
  "lws_told i w \<longleftrightarrow> ls_reported (lw_sessions w i) \<or> lw_after w = Some (i, After_Result)"

text \<open>A step that tells the script of a session nothing.\<close>

definition silent :: "nat \<Rightarrow> lws_state \<Rightarrow> lws_effect list \<Rightarrow> lws_state \<Rightarrow> bool" where
  "silent i w es w' \<longleftrightarrow> (\<forall>e \<in> set es. \<not> tells i e) \<and> (lws_over i w \<longrightarrow> lws_over i w')
     \<and> (ls_reported (lw_sessions w i) \<longrightarrow> ls_reported (lw_sessions w' i)) \<and> lw_after w' = lw_after w
     \<and> ls_wsi (lw_sessions w' i) = ls_wsi (lw_sessions w i)"

lemmas silent_defs = silent_def lws_over_def tells_def

lemma connect_silent: "session_connect uri answer j url timeout callback w = (ec, es, w') \<Longrightarrow> silent i w es w'"
  by (auto simp: session_connect_def service_connect_def silent_defs Let_def notify_writeable_def
      split: if_splits option.splits)

lemma write_silent: "session_write j data w = (ec, es, w') \<Longrightarrow> silent i w es w'"
  by (auto simp: session_write_def service_write_def silent_defs Let_def notify_writeable_def split: if_splits option.splits)

lemma close_silent: "lws_session_close j w = (es, w') \<Longrightarrow> silent i w es w'"
  by (auto simp: lws_session_close_def service_close_def silent_defs Let_def notify_writeable_def split: if_splits option.splits)

lemma callback_silent: "lws_calback user wsi reason data n w = (ret, es, w') \<Longrightarrow> silent i w es w'"
  by (auto simp: lws_calback_def inner_callback_def on_writable_def silent_defs Let_def notify_writeable_def
      split: if_splits option.splits list.splits prod.splits)

lemma silent_trans: "silent i w es w1 \<Longrightarrow> silent i w1 es' w2 \<Longrightarrow> silent i w (es @ es') w2"
  by (auto simp: silent_def)

lemma close_entries_silent:
  "fold close_entry entries (need, es, w) = (need', es', w') \<Longrightarrow> \<exists>es1. es' = es @ es1 \<and> silent i w es1 w'"
proof (induction entries arbitrary: need es w)
  case Nil
  then show ?case by (simp add: silent_def)
next
  case (Cons entry entries)
  obtain wsi ob where p: "entry = (wsi, ob)" by (cases entry)
  obtain es1 w1 where c: "lws_session_close (wo_session ob) w = (es1, w1)" by (cases "lws_session_close (wo_session ob) w")
  obtain n2 es2 w2 where e: "close_entry entry (need, es, w) = (n2, es2, w2)" by (cases "close_entry entry (need, es, w)")
  have "\<exists>es3. es2 = es @ es3 \<and> silent i w es3 w2"
    using e close_silent [OF c, of i] c p
    by (auto simp: close_entry_def Let_def silent_def lws_over_def split: if_splits)
  moreover from Cons.prems e have "fold close_entry entries (n2, es2, w2) = (need', es', w')" by simp
  ultimately show ?case using Cons.IH [of n2 es2 w2] silent_trans by fastforce
qed

lemma close_all_silent:
  assumes "lws_close_all w = (need, es, w')"
  shows "silent i w es w'"
proof -
  let ?w1 = "put_service ((lw_service w)\<lparr>sv_promise := True\<rparr>) w"
  obtain n1 es1 w1 where f: "(if sv_context (lw_service w) then fold close_entry (sv_table (lw_service w)) (False, [], ?w1)
      else (False, [], ?w1)) = (n1, es1, w1)" by (metis prod_cases3)
  have "silent i ?w1 es1 w1"
    using f close_entries_silent [of "sv_table (lw_service w)" False "[]" ?w1 n1 es1 w1 i]
    by (auto simp: silent_def split: if_splits)
  with assms f show ?thesis by (auto simp: lws_close_all_def Let_def silent_def lws_over_def split: if_splits)
qed

text \<open>A step that tells the script something, or lets it go on.\<close>

definition speaks :: "nat \<Rightarrow> lws_state \<Rightarrow> lws_effect list \<Rightarrow> lws_state \<Rightarrow> bool" where
  "speaks i w es w' \<longleftrightarrow> (lws_over i w \<longrightarrow> lws_over i w') \<and> (lws_told i w \<longrightarrow> lws_told i w')
     \<and> (ls_reported (lw_sessions w i) \<longrightarrow> ls_reported (lw_sessions w' i) \<and> ls_wsi (lw_sessions w' i) = ls_wsi (lw_sessions w i))
     \<and> (case filter (tells i) es of
          [] \<Rightarrow> True
        | [Report_Result j cb ok d] \<Rightarrow> \<not> lws_told i w \<and> lws_told i w'
        | [Report_Disconnected j cb] \<Rightarrow> \<not> lws_over i w \<and> lws_over i w'
        | [Report_Data j cb m] \<Rightarrow> \<not> lws_over i w
        | _ \<Rightarrow> False)"

lemma silent_speaks: "silent i w es w' \<Longrightarrow> speaks i w es w'"
  by (auto simp: speaks_def silent_def lws_told_def filter_empty_conv split: list.splits)

lemma event_speaks:
  assumes "lws_on_event parses ev w = (es, w')" and "lw_after w = None"
  shows "speaks i w es w'"
  using assms
  by (cases ev) (auto simp: lws_on_event_def report_connection_result_def report_disconnected_def report_read_data_def
      get_completed_json_message_def speaks_def lws_over_def lws_told_def tells_def Let_def
      split: if_splits lws_reason.splits option.splits prod.splits)

lemma timeout_speaks:
  assumes "handle_connect_timeout j (timer_run_out j current w) = (es, w')" and "lw_after w = None"
  shows "speaks i w es w'"
  using assms
  by (auto simp: handle_connect_timeout_def timer_run_out_def report_connection_result_def speaks_def lws_over_def
      lws_told_def tells_def Let_def split: if_splits)

lemma act_speaks:
  assumes "lws_act parses l w = Some (es, w')"
  shows "speaks i w es w'"
proof (cases l)
  case (Script_Connect uri answer j url timeout callback)
  with assms obtain ec where "session_connect uri answer j url timeout callback w = (ec, es, w')"
    by (metis lws_act.simps(1) option.inject prod.collapse)
  then show ?thesis by (intro silent_speaks connect_silent)
next
  case (Script_Write j data)
  with assms obtain ec where "session_write j data w = (ec, es, w')"
    by (metis lws_act.simps(2) option.inject prod.collapse)
  then show ?thesis by (intro silent_speaks write_silent)
next
  case (Script_Close j)
  with assms have "lws_session_close j w = (es, w')" by simp
  then show ?thesis by (intro silent_speaks close_silent)
next
  case Script_Yields
  with assms obtain j a where a: "lw_after w = Some (j, a)" "es = []" "w' = lws_resumed j a w"
    by (auto split: option.splits)
  then show ?thesis by (cases a) (auto simp: speaks_def lws_over_def lws_told_def lws_resumed_def Let_def)
next
  case Loop_Event
  with assms obtain ev rest where p: "lw_after w = None" "lws_on_event parses ev (w\<lparr>lw_posted := rest\<rparr>) = (es, w')"
    by (auto split: option.splits list.splits)
  with event_speaks [OF p(2), of i] show ?thesis
    by (simp add: speaks_def lws_over_def lws_told_def cong: list.case_cong lws_effect.case_cong)
next
  case (Loop_Timeout j current)
  with timeout_act assms timeout_speaks show ?thesis by blast
next
  case Module_Closes
  with assms obtain need where "lws_close_all w = (need, es, w')"
    by (metis lws_act.simps(7) option.inject prod.collapse)
  then show ?thesis by (intro silent_speaks close_all_silent)
next
  case (Lws_Callback wsi reason data n)
  with assms obtain ret where "lws_calback True wsi reason data n w = (ret, es, w')"
    by (metis lws_act.simps(8) option.inject prod.collapse)
  then show ?thesis by (intro silent_speaks callback_silent)
next
  case Lws_Checks
  with assms show ?thesis
    by (intro silent_speaks) (auto simp: silent_defs check_writeable_def Let_def)
qed

text \<open>What a script hears ends with the news that the connection is gone, except for a result still to come.\<close>

fun ends_well :: "nat \<Rightarrow> lws_effect list \<Rightarrow> bool" where
  "ends_well i [] = True"
| "ends_well i (e # es) = (ends_well i es
     \<and> ((\<exists>cb. e = Report_Disconnected i cb) \<longrightarrow> (\<forall>e' \<in> set es. tells i e' \<longrightarrow> tells_result i e')))"

lemma ends_well_append:
  "ends_well i (es @ es') \<longleftrightarrow> ends_well i es \<and> ends_well i es'
     \<and> ((\<exists>cb. Report_Disconnected i cb \<in> set es) \<longrightarrow> (\<forall>e' \<in> set es'. tells i e' \<longrightarrow> tells_result i e'))"
  by (induction es) auto

lemma ends_well_filter: "ends_well i es \<longleftrightarrow> ends_well i (filter (tells i) es)"
proof (induction es)
  case (Cons e es)
  have "tells i e" if "e = Report_Disconnected i cb" for cb using that by (simp add: tells_def)
  with Cons show ?case by auto
qed simp

lemma told_alone:
  assumes "filter (tells i) es = [e]"
  shows "tells i e \<and> (\<forall>e' \<in> set es. tells i e' \<longrightarrow> e' = e)"
proof -
  have "{e' \<in> set es. tells i e'} = {e}" using assms by (metis list.set(1,2) set_filter)
  then show ?thesis by blast
qed

lemma speaks_cases:
  assumes "speaks i w es w'"
  obtains (quiet) "filter (tells i) es = []"
  | (result) cb ok d where "filter (tells i) es = [Report_Result i cb ok d]" "\<not> lws_told i w" "lws_told i w'"
  | (gone) cb where "filter (tells i) es = [Report_Disconnected i cb]" "\<not> lws_over i w" "lws_over i w'"
  | (data) cb m where "filter (tells i) es = [Report_Data i cb m]" "\<not> lws_over i w"
proof (cases "filter (tells i) es")
  case Nil
  then show ?thesis by (rule quiet)
next
  case (Cons e rest)
  with assms have e: "filter (tells i) es = [e]" by (auto simp: speaks_def split: list.splits lws_effect.splits)
  from told_alone [OF this] have "tells i e" by simp
  with e assms show ?thesis
    by (cases e) (auto simp: speaks_def tells_def intro: result gone data)
qed

lemma results_filter: "filter (tells_result i) es = filter (tells_result i) (filter (tells i) es)"
  by (auto simp: tells_def tells_result_def intro!: filter_cong split: lws_effect.splits)

lemma speaks_facts:
  assumes "speaks i w es w'"
  shows "Report_Disconnected i cb \<in> set es \<Longrightarrow> lws_over i w'"
    and "e \<in> set es \<Longrightarrow> tells i e \<Longrightarrow> \<not> tells_result i e \<Longrightarrow> \<not> lws_over i w"
    and "filter (tells_result i) es = [] \<or> length (filter (tells_result i) es) = 1 \<and> \<not> lws_told i w \<and> lws_told i w'"
    and "ends_well i es"
proof -
  have d: "tells i (Report_Disconnected i cb)" by (simp add: tells_def)
  show "lws_over i w'" if "Report_Disconnected i cb \<in> set es"
    using assms that d told_alone by (cases rule: speaks_cases) (fastforce simp: filter_empty_conv)+
  show "\<not> lws_over i w" if "e \<in> set es" "tells i e" "\<not> tells_result i e"
    using assms
  proof (cases rule: speaks_cases)
    case quiet
    with that show ?thesis by (auto simp: filter_empty_conv)
  next
    case (result cb ok d)
    with told_alone [OF result(1)] that show ?thesis by (auto simp: tells_result_def)
  qed
  show "filter (tells_result i) es = [] \<or> length (filter (tells_result i) es) = 1 \<and> \<not> lws_told i w \<and> lws_told i w'"
    using assms by (cases rule: speaks_cases) (simp_all add: results_filter [of i es] tells_result_def)
  show "ends_well i es"
    using assms by (cases rule: speaks_cases) (simp_all add: ends_well_filter [of i es])
qed

lemma runs_speak:
  assumes "lws_runs parses w0 R0 steps es R w"
  shows "(lws_over i w0 \<longrightarrow> lws_over i w \<and> (\<forall>e \<in> set es. tells i e \<longrightarrow> tells_result i e))
    \<and> (\<forall>cb. Report_Disconnected i cb \<in> set es \<longrightarrow> lws_over i w)
    \<and> length (filter (tells_result i) es) \<le> (if lws_told i w then 1 else 0) \<and> ends_well i es"
  using assms
proof (induction rule: lws_runs.induct)
  case (lws_step steps es R w l es' w')
  note sp = act_speaks [OF lws_step.hyps(2), of i]
  note f = speaks_facts [OF sp]
  have mono: "lws_over i w \<longrightarrow> lws_over i w'" "lws_told i w \<longrightarrow> lws_told i w'" using sp by (simp_all add: speaks_def)
  note IH = lws_step.IH
  have 1: "lws_over i w0 \<longrightarrow> lws_over i w' \<and> (\<forall>e \<in> set (es @ es'). tells i e \<longrightarrow> tells_result i e)"
    using IH mono(1) f(2) by auto
  have 2: "\<forall>cb. Report_Disconnected i cb \<in> set (es @ es') \<longrightarrow> lws_over i w'" using IH mono(1) f(1) by auto
  have 3: "length (filter (tells_result i) (es @ es')) \<le> (if lws_told i w' then 1 else 0)"
    using IH mono(2) f(3) by (cases "lws_told i w") auto
  have 4: "ends_well i (es @ es')" using IH f(2,4) by (auto simp: ends_well_append)
  show ?case using 1 2 3 4 by blast
qed simp

text \<open>
  C14: a script is told the result of connecting at most once, and that the connection is gone at most
  once. After the latter it hears nothing more of the session but, if that is still to come, the result of
  connecting; and from a state in which the session is closed, by the script or by the other side, it is told
  nothing but that result, so no message and no news that the connection is gone.
\<close>

theorem script_is_told_once:
  assumes "lws_runs parses w0 R0 steps es R w"
  shows "length (filter (tells_result i) es) \<le> 1 \<and> ends_well i es
    \<and> (lws_over i w0 \<longrightarrow> (\<forall>e \<in> set es. tells i e \<longrightarrow> tells_result i e))"
  using runs_speak [OF assms, of i] by (auto split: if_splits)

section \<open>A session that has failed once\<close>

lemma runs_stay_unconnected:
  assumes "lws_runs parses w0 R0 steps es R w" and "ls_reported (lw_sessions w0 i)" and "ls_wsi (lw_sessions w0 i) = None"
  shows "ls_reported (lw_sessions w i) \<and> ls_wsi (lw_sessions w i) = None \<and> filter (tells_result i) es = []
    \<and> (\<forall>(l, u) \<in> set steps. ls_wsi (lw_sessions u i) = None)"
  using assms
proof (induction rule: lws_runs.induct)
  case (lws_step steps es R w l es' w')
  then have IH: "ls_reported (lw_sessions w i)" "ls_wsi (lw_sessions w i) = None" "filter (tells_result i) es = []"
    "\<forall>(l, u) \<in> set steps. ls_wsi (lw_sessions u i) = None" by simp_all
  note sp = act_speaks [OF lws_step.hyps(2), of i]
  have "lws_told i w" using IH(1) by (simp add: lws_told_def)
  then have "filter (tells_result i) es' = []" using speaks_facts(3) [OF sp] by blast
  with IH sp show ?case by (simp add: speaks_def)
qed simp

text \<open>
  A session whose first attempt has failed or has run into its time-out can never be used: whatever
  follows, a second \<open>connect\<close> and a connection that comes after all included, the script is never told
  another result, and everything it writes is lost although \<open>write\<close> answers success while the session is
  open.
\<close>

theorem failed_session_is_deaf:
  assumes "lws_runs parses w0 R0 steps es R w" and "ls_reported (lw_sessions w0 i)" and "ls_wsi (lw_sessions w0 i) = None"
  shows "filter (tells_result i) es = []
    \<and> (\<forall>(l, u) \<in> set steps. \<forall>d. l = Script_Write i (Some d) \<longrightarrow> (\<forall>x. lws_asked x (l, u) = [])
         \<and> (ls_service (lw_sessions u i) \<and> \<not> lws_over i u \<longrightarrow> session_write i (Some d) u = (kBeeErrorCode_Success, [], u)))"
  using runs_stay_unconnected [OF assms]
  by (fastforce simp: lws_asked_def session_write_def service_write_def lws_over_def put_service_def Let_def)

section \<open>Closing everything\<close>

lemma close_entries_result:
  assumes "fold close_entry E (need, es, w) = (need', es', w')" and "sv_table (lw_service w) = A @ E"
    and "distinct (map fst (A @ E))" and "\<forall>(x, ob) \<in> set A. ls_closing (lw_sessions w (wo_session ob))"
  shows "sv_table (lw_service w') = A @ filter (\<lambda>(x, ob). \<not> ls_closed (lw_sessions w (wo_session ob))) E
    \<and> (\<forall>(x, ob) \<in> set (sv_table (lw_service w')). ls_closing (lw_sessions w' (wo_session ob)))
    \<and> need' = (need \<or> (\<exists>(x, ob) \<in> set E. \<not> ls_closed (lw_sessions w (wo_session ob))))
    \<and> sv_promise (lw_service w') = sv_promise (lw_service w) \<and> Honor_Close \<notin> set es' - set es"
  using assms
proof (induction E arbitrary: need es w A)
  case Nil
  then show ?case by simp
next
  case (Cons entry E)
  obtain x ob where p: "entry = (x, ob)" by (cases entry)
  let ?i = "wo_session ob"
  obtain n1 es1 w1 where e: "close_entry (x, ob) (need, es, w) = (n1, es1, w1)" by (metis prod_cases3)
  with Cons.prems(1) p have f: "fold close_entry E (n1, es1, w1) = (need', es', w')" by simp
  show ?case
  proof (cases "ls_closed (lw_sessions w ?i)")
    case True
    have "x \<notin> set (map fst A)" "x \<notin> set (map fst E)" using Cons.prems(3) p by auto
    then have "AList.delete x A = A" "AList.delete x E = E" by simp_all
    then have "AList.delete x (A @ (x, ob) # E) = A @ E" by (simp add: AList.delete_eq)
    with True e p Cons.prems(2) have "w1 = put_service ((lw_service w)\<lparr>sv_table := A @ E\<rparr>) w" "n1 = need" "es1 = es"
      by (auto simp: close_entry_def Let_def)
    with Cons.IH [OF f, of A] Cons.prems(3,4) True p show ?thesis by simp
  next
    case False
    obtain es2 w2 where c: "lws_session_close ?i w = (es2, w2)" by (cases "lws_session_close ?i w")
    have k: "sv_table (lw_service w1) = (A @ [(x, ob)]) @ E" "n1"
      "ls_closing (lw_sessions w1 ?i)" "\<And>j. ls_closing (lw_sessions w j) \<Longrightarrow> ls_closing (lw_sessions w1 j)"
      "\<And>j. ls_closed (lw_sessions w1 j) = ls_closed (lw_sessions w j)" "sv_promise (lw_service w1) = sv_promise (lw_service w)"
      "Honor_Close \<notin> set es1 - set es"
      using e False Cons.prems(2) p
      by (auto simp: close_entry_def lws_session_close_def service_close_def notify_writeable_def Let_def
          split: if_splits option.splits)
    have "\<forall>(y, oc) \<in> set (A @ [(x, ob)]). ls_closing (lw_sessions w1 (wo_session oc))"
      using Cons.prems(4) k(3,4) by auto
    from Cons.IH [OF f k(1) _ this] Cons.prems(3) k False p show ?thesis by auto
  qed
qed

lemma closed_kept: "fold close_entry E (need, es, w) = (need', es', w') \<Longrightarrow> ls_closed (lw_sessions w j) \<Longrightarrow> ls_closed (lw_sessions w' j)"
  using close_entries_grow [of E need es w need' es' w'] by (simp add: lws_grows_def)

text \<open>Callbacks on several connections, one after the other: their effects and the state after them.\<close>

fun lws_callbacks :: "(nat \<times> lws_reason \<times> string option \<times> int) list \<Rightarrow> lws_state \<Rightarrow> lws_effect list \<times> lws_state" where
  "lws_callbacks [] w = ([], w)"
| "lws_callbacks ((x, reason, data, n) # cs) w =
     (let (ret, es, w1) = lws_calback True x reason data n w; (es', w2) = lws_callbacks cs w1 in (es @ es', w2))"

definition all_closing :: "lws_state \<Rightarrow> bool" where
  "all_closing w \<longleftrightarrow> (let table = sv_table (lw_service w)
     in distinct (map fst table) \<and> distinct (map (wo_session \<circ> snd) table)
       \<and> (\<forall>(x, ob) \<in> set table. ls_closing (lw_sessions w (wo_session ob))))"

lemma closing_callback:
  assumes "all_closing w" and "x \<in> set (map fst (sv_table (lw_service w)))" and "\<not> pre_handle_event reason"
    and "lws_calback True x reason data n w = (ret, es, w')"
  shows "all_closing w' \<and> sv_table (lw_service w') = AList.delete x (sv_table (lw_service w))
    \<and> ret = - 1 \<and> (\<forall>j. ls_closed (lw_sessions w j) \<longrightarrow> ls_closed (lw_sessions w' j))
    \<and> (\<forall>ob. (x, ob) \<in> set (sv_table (lw_service w)) \<longrightarrow> ls_closed (lw_sessions w' (wo_session ob)))
    \<and> (if sv_table (lw_service w') = [] \<and> sv_promise (lw_service w) then es = [Honor_Close] \<and> \<not> sv_promise (lw_service w')
       else es = [] \<and> sv_promise (lw_service w') = sv_promise (lw_service w))"
proof -
  let ?t = "sv_table (lw_service w)"
  from assms(1) have a: "distinct (map fst ?t)" "distinct (map (wo_session \<circ> snd) ?t)"
    "\<forall>(x, ob) \<in> set ?t. ls_closing (lw_sessions w (wo_session ob))" by (simp_all add: all_closing_def Let_def)
  from assms(2) obtain ob where ob: "(x, ob) \<in> set ?t" by auto
  with a(1) have m: "map_of ?t x = Some ob" by simp
  have c: "ls_closing (lw_sessions w (wo_session ob))" using a(3) ob by auto
  have only: "ob' = ob" if "(x, ob') \<in> set ?t" for ob' using that m a(1) by simp
  have w': "sv_table (lw_service w') = AList.delete x ?t" "ret = - 1"
    "lw_sessions w' = (lw_sessions w)(wo_session ob := (lw_sessions w (wo_session ob))\<lparr>ls_closing := False, ls_closed := True\<rparr>)"
    "es = (if AList.delete x ?t = [] \<and> sv_promise (lw_service w) then [Honor_Close] else [])"
    "sv_promise (lw_service w') = (sv_promise (lw_service w) \<and> \<not> (AList.delete x ?t = [] \<and> sv_promise (lw_service w)))"
    using assms(3,4) m c by (auto simp: lws_calback_def inner_callback_def Let_def)
  have other: "wo_session oc \<noteq> wo_session ob" if "(y, oc) \<in> set (AList.delete x ?t)" for y oc
  proof -
    from that have y: "(y, oc) \<in> set ?t" "y \<noteq> x" by (auto simp: AList.delete_eq)
    have "inj_on (wo_session \<circ> snd) (set ?t)" using a(2) by (simp add: distinct_map)
    from inj_onD [OF this, of "(y, oc)" "(x, ob)"] ob y show ?thesis by auto
  qed
  have "all_closing w'"
    unfolding all_closing_def Let_def w'(1)
    using a other by (auto simp: AList.delete_eq distinct_map_filter w'(3))
  with w' only show ?thesis by auto
qed

lemma closing_callbacks:
  assumes "all_closing w" and "distinct (map fst cs)" and "set (map fst cs) = set (map fst (sv_table (lw_service w)))"
    and "\<forall>(x, reason, data, n) \<in> set cs. \<not> pre_handle_event reason" and "sv_promise (lw_service w)" and "cs \<noteq> []"
    and "lws_callbacks cs w = (es, w')"
  shows "es = [Honor_Close] \<and> sv_table (lw_service w') = [] \<and> \<not> sv_promise (lw_service w')
    \<and> (\<forall>j. ls_closed (lw_sessions w j) \<longrightarrow> ls_closed (lw_sessions w' j))
    \<and> (\<forall>(x, ob) \<in> set (sv_table (lw_service w)). ls_closed (lw_sessions w' (wo_session ob)))"
  using assms
proof (induction cs arbitrary: w es)
  case (Cons c cs)
  obtain x reason data n where c: "c = (x, reason, data, n)" by (cases c) auto
  obtain ret es1 w1 where 1: "lws_calback True x reason data n w = (ret, es1, w1)" by (metis prod_cases3)
  obtain es2 where 2: "lws_callbacks cs w1 = (es2, w')" "es = es1 @ es2"
    using Cons.prems(7) c 1 by (auto simp: Let_def split: prod.splits)
  have x: "x \<in> set (map fst (sv_table (lw_service w)))" "\<not> pre_handle_event reason"
    using Cons.prems(3,4) c by auto
  note k = closing_callback [OF Cons.prems(1) x 1]
  have t1: "sv_table (lw_service w1) = AList.delete x (sv_table (lw_service w))" using k by blast
  have keys: "set (map fst cs) = set (map fst (sv_table (lw_service w1)))"
    using Cons.prems(2,3) c unfolding t1 AList.delete_keys by auto
  have closed1: "\<forall>(y, oc) \<in> set (sv_table (lw_service w)). (y, oc) \<in> set (sv_table (lw_service w1)) \<or> ls_closed (lw_sessions w1 (wo_session oc))"
    using k by (auto simp: t1 AList.delete_eq)
  show ?case
  proof (cases "cs = []")
    case True
    with keys have nil: "sv_table (lw_service w1) = []" by simp
    with k Cons.prems(5) have "es1 = [Honor_Close]" "\<not> sv_promise (lw_service w1)" by simp_all
    with True 2 nil closed1 k show ?thesis by simp
  next
    case False
    with keys have ne: "sv_table (lw_service w1) \<noteq> []" by (cases cs) auto
    with k Cons.prems(5) have e: "es1 = []" "sv_promise (lw_service w1)" by simp_all
    have "all_closing w1" "distinct (map fst cs)" "\<forall>(x, reason, data, n) \<in> set cs. \<not> pre_handle_event reason"
      using k Cons.prems(2,4) c by auto
    from Cons.IH [OF this(1,2) keys this(3) e(2) False 2(1)] have i:
      "es2 = [Honor_Close]" "sv_table (lw_service w') = []" "\<not> sv_promise (lw_service w')"
      "\<forall>j. ls_closed (lw_sessions w1 j) \<longrightarrow> ls_closed (lw_sessions w' j)"
      "\<forall>(x, ob) \<in> set (sv_table (lw_service w1)). ls_closed (lw_sessions w' (wo_session ob))" by simp_all
    have "\<forall>j. ls_closed (lw_sessions w j) \<longrightarrow> ls_closed (lw_sessions w' j)" using k i(4) by blast
    moreover have "\<forall>(y, oc) \<in> set (sv_table (lw_service w)). ls_closed (lw_sessions w' (wo_session oc))"
      using closed1 i(4,5) by blast
    ultimately show ?thesis using i(1-3) 2(2) e(1) by simp
  qed
qed simp


section \<open>A connection that is gone\<close>

text \<open>
  Between the destruction of a connection and the event that tells the script's thread of it, a write
  puts the connection on the list of those to be checked, and the service's thread then hands it to
  libwebsockets: the entry of a destroyed connection stays in the table.
\<close>

theorem destroyed_connection_is_used:
  assumes "map_of (sv_table (lw_service w)) x = Some ob" and "wo_session ob = i" and "\<not> lws_over i w"
    and "ls_wsi (lw_sessions w i) = Some x" and "ls_service (lw_sessions w i)" and "sv_running (lw_service w)"
  shows "\<exists>es1 w1 es2 w2 es3 w3. lws_act parses (Lws_Callback x LWS_CALLBACK_WSI_DESTROY None 0) w = Some (es1, w1)
    \<and> lws_act parses (Script_Write i (Some d)) w1 = Some (es2, w2) \<and> lws_act parses Lws_Checks w2 = Some (es3, w3)
    \<and> fst (session_write i (Some d) w1) = kBeeErrorCode_Success \<and> Lws_Writable x \<in> set es3"
  using assms
  by (auto simp: lws_calback_def pre_handle_event_def inner_callback_def session_write_def service_write_def lws_over_def
      check_writeable_def notify_writeable_def update_conv Let_def)

section \<open>Examples\<close>

theorem script_is_told_once_witness:
  "\<exists>steps es R w. lws_runs (\<lambda>_. True) (demo_lws_state [(0, Some 3, LWS_CALLBACK_CLIENT_ESTABLISHED, []), (0, Some 3, LWS_CALLBACK_CLOSED, [])])
      {} steps es R w \<and> es = [Report_Result 0 5 True [], Report_Disconnected 0 5]
    \<and> length (filter (tells_result 0) es) \<le> 1 \<and> ends_well 0 es"
proof -
  let ?w = "demo_lws_state [(0, Some 3, LWS_CALLBACK_CLIENT_ESTABLISHED, []), (0, Some 3, LWS_CALLBACK_CLOSED, [])]"
  obtain steps R w where e: "lws_exec (\<lambda>_. True) [Loop_Event, Script_Yields, Loop_Event] {} ?w
      = Some (steps, [Report_Result 0 5 True [], Report_Disconnected 0 5], R, w)"
    by (simp add: demo_lws_defs lws_on_event_def report_connection_result_def report_disconnected_def lws_resumed_def Let_def)
  from exec_run [OF e] script_is_told_once [OF exec_run [OF e], of 0] show ?thesis by blast
qed

definition demo_failed :: lws_state where
  "demo_failed = (demo_lws_state [])\<lparr>lw_sessions := (\<lambda>_. demo_lws\<lparr>ls_reported := True, ls_wsi := None\<rparr>)\<rparr>"

text \<open>A second attempt, which succeeds.\<close>

theorem failed_session_is_deaf_witness:
  "\<exists>steps es R w. lws_runs (\<lambda>_. True) demo_failed {} steps es R w \<and> ls_connected (lw_sessions w 0)
    \<and> filter (tells_result 0) es = []
    \<and> (\<exists>u. (Script_Write 0 (Some ''x''), u) \<in> set steps \<and> session_write 0 (Some ''x'') u = (kBeeErrorCode_Success, [], u))"
proof -
  obtain steps es R w where e: "lws_exec (\<lambda>_. True)
      [Script_Connect (Some (Some ''ws'', ''h'', 80, Some [])) (Some 4) 0 (Some ''ws://h/'') 0 5,
       Lws_Callback 4 LWS_CALLBACK_CLIENT_ESTABLISHED None 0, Loop_Event, Script_Write 0 (Some ''x'')] {} demo_failed
      = Some (steps, es, R, w)" and c: "ls_connected (lw_sessions w 0)" and last: "steps \<noteq> []" "fst (last steps) = Script_Write 0 (Some ''x'')"
    and open_u: "ls_service (lw_sessions (snd (last steps)) 0)" "\<not> lws_over 0 (snd (last steps))"
    by (simp add: demo_failed_def demo_lws_defs session_connect_def service_connect_def session_write_def service_write_def notify_writeable_def lws_calback_def
        pre_handle_event_def inner_callback_def report_event_def lws_on_event_def report_connection_result_def lws_over_def Let_def)
  have "ls_reported (lw_sessions demo_failed 0)" "ls_wsi (lw_sessions demo_failed 0) = None" by (simp_all add: demo_failed_def)
  note deaf = failed_session_is_deaf [OF exec_run [OF e] this]
  define u where "u = snd (last steps)"
  have u: "(Script_Write 0 (Some ''x''), u) \<in> set steps" using last by (metis last_in_set prod.collapse u_def)
  with deaf open_u have "session_write 0 (Some ''x'') u = (kBeeErrorCode_Success, [], u)" by (fastforce simp: u_def)
  with deaf exec_run [OF e] c u show ?thesis by blast
qed


theorem destroyed_connection_is_used_witness:
  "\<exists>es1 w1 es2 w2 es3 w3. lws_act (\<lambda>_. True) (Lws_Callback 3 LWS_CALLBACK_WSI_DESTROY None 0) (demo_lws_state []) = Some (es1, w1)
    \<and> lws_act (\<lambda>_. True) (Script_Write 0 (Some ''x'')) w1 = Some (es2, w2) \<and> lws_act (\<lambda>_. True) Lws_Checks w2 = Some (es3, w3)
    \<and> fst (session_write 0 (Some ''x'') w1) = kBeeErrorCode_Success \<and> Lws_Writable 3 \<in> set es3"
  by (rule destroyed_connection_is_used [of _ _ "\<lparr>wo_session = 0, wo_queue = []\<rparr>"])
    (simp_all add: demo_lws_defs lws_over_def)

end
