(* ===== verification/Bee_Lws_Module.thy ===== *)
theory Bee_Lws_Module
  imports Bee_Lws Bee_Algorithm
begin

text \<open>
  The functions a script calls (src/lua/module/lua_lws_module.cpp): they look at their arguments, find the
  session a handle names and call it. An argument error leaves the function through \<open>luaL_error\<close>.

  \<open>reference\<close> is \<open>luaL_ref\<close>: the number a value gets in the registry, \<open>LUA_REFNIL\<close> for nil. A table's
  entries come in the order in which \<open>lua_next\<close> visits them. New sessions are numbered.
\<close>

record lws_module =
  md_objs :: "nat lua_objs"
  md_service :: bool
  md_ios :: bool
  md_main :: bool
  md_count :: nat
  md_state :: lws_state

type_synonym lws_answer = "int lua_result \<times> lws_effect list \<times> lws_module"

definition md_running :: "lws_module \<Rightarrow> bool" where
  "md_running m \<longleftrightarrow> md_service m \<and> sv_running (lw_service (md_state m))"

definition raises :: "string \<Rightarrow> lws_module \<Rightarrow> lws_answer" where
  "raises text m = (Raises text, [], m)"

definition not_running :: string where "not_running = ''Lws service not running.''"
definition invalid_args :: string where "invalid_args = ''Invalid args.''"
definition wrong_type :: string where "wrong_type = ''Wrong param data type.''"

definition protocols_of :: "(lua_arg \<times> lua_arg) list \<Rightarrow> string list" where
  "protocols_of entries = map the (takeWhile (\<lambda>t. t \<noteq> None) (map (lua_text \<circ> snd) entries))"

text \<open>\<open>ctx\<close>, \<open>thread\<close>: what comes up; \<open>ios\<close>: the event loop of the script's session, if there is one.\<close>

definition lws_lua_start :: "bool \<Rightarrow> bool \<Rightarrow> bool option \<Rightarrow> lua_arg list \<Rightarrow> lws_module \<Rightarrow> lws_answer" where
  "lws_lua_start ctx thread ios args m =
     (case args of
        [arg] \<Rightarrow>
          if md_running m then (Returns [], [], m)
          else (case arg of
            Arg_Table entries \<Rightarrow>
              (let (ec, sv) = service_start (protocols_of entries) ctx thread LuaLwsService_new;
                   m1 = m\<lparr>md_service := True, md_state := put_service sv (md_state m)\<rparr>
               in if ec \<noteq> kBeeErrorCode_Success then raises ''Lws service start error'' m1
                  else (case ios of None \<Rightarrow> raises ''No session in table.'' m1 | Some b \<Rightarrow> (Returns [], [], m1\<lparr>md_ios := b\<rparr>)))
          | _ \<Rightarrow> raises ''Param is not table.'' m)
      | _ \<Rightarrow> raises invalid_args m)"

definition lws_lua_open :: "(lua_arg \<Rightarrow> int) \<Rightarrow> lua_arg list \<Rightarrow> lws_module \<Rightarrow> lws_answer" where
  "lws_lua_open reference args m =
     (case args of
        [proto, json, on_read, on_error] \<Rightarrow>
          if \<not> md_running m then raises not_running m
          else (case (lua_text proto, json) of
            (Some protocol, Arg_Boolean json_completed) \<Rightarrow>
              (let ss = LuaLwsSession_new (md_ios m) (md_service m) protocol json_completed
                     (reference on_read) (reference on_error) (md_main m);
                   (handle, objs) = new_lua_obj (Some (md_count m)) (md_objs m)
               in (Returns [uint handle], [], m\<lparr>md_objs := objs, md_count := md_count m + 1,
                     md_state := put_lws (md_count m) ss (md_state m)\<rparr>))
          | _ \<Rightarrow> raises wrong_type m)
      | _ \<Rightarrow> raises invalid_args m)"

definition lws_lua_close :: "lua_arg list \<Rightarrow> lws_module \<Rightarrow> lws_answer" where
  "lws_lua_close args m =
     (case args of
        [arg] \<Rightarrow>
          if \<not> md_running m then raises not_running m
          else (case arg of
            Arg_Integer n \<Rightarrow>
              (let (obj, objs) = delete_lua_obj (handle_of n) (md_objs m); m1 = m\<lparr>md_objs := objs\<rparr>
               in case obj of
                    None \<Rightarrow> raises ''Can't find lws session'' m1
                  | Some i \<Rightarrow> (let (es, w) = lws_session_close i (md_state m1) in (Returns [], es, m1\<lparr>md_state := w\<rparr>)))
          | _ \<Rightarrow> raises wrong_type m)
      | _ \<Rightarrow> raises invalid_args m)"

definition lws_lua_connect ::
    "(lua_arg \<Rightarrow> int) \<Rightarrow> (string \<Rightarrow> (string option \<times> string \<times> int \<times> string option) option) \<Rightarrow> nat option
      \<Rightarrow> lua_arg list \<Rightarrow> lws_module \<Rightarrow> lws_answer" where
  "lws_lua_connect reference parse answer args m =
     (case args of
        [h, u, timeout, on_connect] \<Rightarrow>
          if \<not> md_running m then raises not_running m
          else (case (h, lua_text u, timeout) of
            (Arg_Integer n, Some url, Arg_Integer t) \<Rightarrow>
              (case get_obj (handle_of n) (md_objs m) of
                 None \<Rightarrow> raises ''Can't find lws session'' m
               | Some i \<Rightarrow>
                   (let (ec, es, w) = session_connect (parse url) answer i (Some url) (int32_of t) (reference on_connect) (md_state m);
                        m1 = m\<lparr>md_state := w\<rparr>
                    in (if ec \<noteq> kBeeErrorCode_Success then Raises ''Lws session connect fail'' else Returns [], es, m1)))
          | _ \<Rightarrow> raises wrong_type m)
      | _ \<Rightarrow> raises invalid_args m)"

definition lws_lua_write :: "lua_arg list \<Rightarrow> lws_module \<Rightarrow> lws_answer" where
  "lws_lua_write args m =
     (case args of
        [h, d] \<Rightarrow>
          if \<not> md_running m then raises not_running m
          else (case (h, lua_text d) of
            (Arg_Integer n, Some data) \<Rightarrow>
              (case get_obj (handle_of n) (md_objs m) of
                 None \<Rightarrow> raises ''Can't find lws session'' m
               | Some i \<Rightarrow>
                   (let (ec, es, w) = session_write i (Some data) (md_state m); m1 = m\<lparr>md_state := w\<rparr>
                    in (if ec \<noteq> kBeeErrorCode_Success then Raises ''Lws session write fail'' else Returns [], es, m1)))
          | _ \<Rightarrow> raises wrong_type m)
      | _ \<Rightarrow> raises invalid_args m)"

text \<open>
  \<open>on_close_module\<close> up to the wait of \<open>close_all\<close>, for the handles in the order of the table, and what
  follows it.
\<close>

fun close_handles :: "u32 list \<Rightarrow> lws_module \<Rightarrow> lws_effect list \<times> lws_module" where
  "close_handles [] m = ([], m)"
| "close_handles (h # hs) m =
     (case get_obj h (md_objs m) of
        None \<Rightarrow> close_handles hs m
      | Some i \<Rightarrow> (let (es, w) = lws_session_close i (md_state m); (es', m') = close_handles hs (m\<lparr>md_state := w\<rparr>) in (es @ es', m')))"

definition on_close_module :: "u32 list \<Rightarrow> lws_module \<Rightarrow> bool \<times> lws_effect list \<times> lws_module" where
  "on_close_module handles m =
     (let (es, m1) = close_handles handles m
      in if \<not> md_running m1 then (False, es, m1)
         else (let (need, es', w) = lws_close_all (md_state m1) in (need, es @ es', m1\<lparr>md_state := w\<rparr>)))"

definition module_stopped :: "lws_module \<Rightarrow> lws_module" where
  "module_stopped m = m\<lparr>md_service := False,
     md_state := put_service (service_stopped (lw_service (md_state m))) (md_state m)\<rparr>"

section \<open>From opening to writing\<close>

lemma opens:
  assumes "md_running m" and "handles_fresh k (md_objs m)" and "k + 1 < 2 ^ 32"
  shows "\<exists>h objs. lws_lua_open reference [Arg_Text protocol, Arg_Boolean json, r, e] m
      = (Returns [uint h], [], m\<lparr>md_objs := objs, md_count := md_count m + 1, md_state := put_lws (md_count m)
          (LuaLwsSession_new (md_ios m) True (c_text protocol) json (reference r) (reference e) (md_main m)) (md_state m)\<rparr>)
    \<and> get_obj h objs = Some (md_count m)"
proof -
  obtain h objs where n: "new_lua_obj (Some (md_count m)) (md_objs m) = (h, objs)" by fastforce
  from new_lua_obj_fresh [OF assms(2,3) n] have "get_obj h objs = Some (md_count m)" by (simp add: get_obj_def)
  with n assms(1) show ?thesis by (auto simp: lws_lua_open_def md_running_def)
qed

text \<open>
  A script can open a websocket, connect and write. On a running module with handles left, opening a session,
  connecting it to a text that can be parsed and, once libwebsockets has made the connection, writing raise no
  error; the script's callback is resumed once, with success, and the text is the queue of the connection.
\<close>

theorem open_connect_write:
  assumes "md_running m" and "handles_fresh k (md_objs m)" and "k + 1 < 2 ^ 32" and "md_ios m" and "md_main m"
    and "lw_posted (md_state m) = []" and "lw_after (md_state m) = None"
    and "parse (c_text url) = Some (prot, address, port, Some p)" and "reference cb \<noteq> LUA_REFNIL"
  shows "\<exists>(h :: u32) m1 es m2 steps es3 w3 es4 m4.
      lws_lua_open reference [Arg_Text protocol, Arg_Boolean json, r, e] m = (Returns [uint h], [], m1)
    \<and> lws_lua_connect reference parse (Some x) [Arg_Integer (uint h), Arg_Text url, Arg_Integer t, cb] m1 = (Returns [], es, m2)
    \<and> lws_exec parses [Lws_Callback x LWS_CALLBACK_CLIENT_ESTABLISHED None 0, Loop_Event, Script_Yields] {} (md_state m2)
        = Some (steps, es3, {}, w3)
    \<and> filter (\<lambda>e. e \<noteq> Lws_Cancel_Service) es3 = [Report_Result (md_count m) (reference cb) True []]
    \<and> lws_lua_write [Arg_Integer (uint h), Arg_Text d] (m2\<lparr>md_state := w3\<rparr>) = (Returns [], es4, m4)
    \<and> lws_queue x (md_state m4) = Some [c_text d]"
proof -
  let ?i = "md_count m"
  from opens [OF assms(1-3), of reference protocol json r e] obtain h objs where
    o: "lws_lua_open reference [Arg_Text protocol, Arg_Boolean json, r, e] m
      = (Returns [uint h], [], m\<lparr>md_objs := objs, md_count := ?i + 1, md_state := put_lws ?i
          (LuaLwsSession_new True True (c_text protocol) json (reference r) (reference e) True) (md_state m)\<rparr>)"
    and g: "get_obj h objs = Some ?i" using assms(4,5) by auto
  let ?m1 = "m\<lparr>md_objs := objs, md_count := ?i + 1, md_state := put_lws ?i
          (LuaLwsSession_new True True (c_text protocol) json (reference r) (reference e) True) (md_state m)\<rparr>"
  obtain es m2 where c: "lws_lua_connect reference parse (Some x) [Arg_Integer (uint h), Arg_Text url, Arg_Integer t, cb] ?m1
      = (Returns [], es, m2)" and
    m2: "md_objs m2 = objs" "md_service m2" "sv_running (lw_service (md_state m2))" "lw_posted (md_state m2) = []"
      "lw_after (md_state m2) = None" "map_of (sv_table (lw_service (md_state m2))) x = Some \<lparr>wo_session = ?i, wo_queue = []\<rparr>"
      "ls_ios (lw_sessions (md_state m2) ?i)" "ls_service (lw_sessions (md_state m2) ?i)" "ls_main (lw_sessions (md_state m2) ?i)"
      "\<not> ls_closing (lw_sessions (md_state m2) ?i)" "\<not> ls_closed (lw_sessions (md_state m2) ?i)"
      "\<not> ls_reported (lw_sessions (md_state m2) ?i)"
      "ls_callbacks (lw_sessions (md_state m2) ?i) eLuaLwsCallback_Connect = reference cb"
    using assms g
    by (simp add: lws_lua_connect_def md_running_def session_connect_def service_connect_def notify_writeable_def
        LuaLwsSession_new_def update_conv Let_def)
  obtain steps es3 w3 where x: "lws_exec parses [Lws_Callback x LWS_CALLBACK_CLIENT_ESTABLISHED None 0, Loop_Event, Script_Yields] {}
        (md_state m2) = Some (steps, es3, {}, w3)"
    and e3: "filter (\<lambda>e. e \<noteq> Lws_Cancel_Service) es3 = [Report_Result ?i (reference cb) True []]"
    and w3: "sv_running (lw_service w3)" "map_of (sv_table (lw_service w3)) x = Some \<lparr>wo_session = ?i, wo_queue = []\<rparr>"
      "ls_wsi (lw_sessions w3 ?i) = Some x" "ls_service (lw_sessions w3 ?i)"
      "\<not> ls_closing (lw_sessions w3 ?i)" "\<not> ls_closed (lw_sessions w3 ?i)"
    using m2 assms(9)
    by (simp add: lws_calback_def pre_handle_event_def inner_callback_def notify_writeable_def report_event_def
        lws_on_event_def report_connection_result_def lws_resumed_def lws_requests_def Let_def)
  obtain es4 m4 where w: "lws_lua_write [Arg_Integer (uint h), Arg_Text d] (m2\<lparr>md_state := w3\<rparr>) = (Returns [], es4, m4)"
    and q: "lws_queue x (md_state m4) = Some [c_text (c_text d)]"
    using w3 m2(1,2) g
    by (simp add: lws_lua_write_def md_running_def session_write_def service_write_def notify_writeable_def lws_queue_def
        update_conv Let_def)
  have "c_text (c_text d) = c_text d" by (simp add: c_text_def)
  with q have q': "lws_queue x (md_state m4) = Some [c_text d]" by simp
  show ?thesis by (intro exI conjI) (rule o, rule c, rule x, rule e3, rule w, rule q')
qed

definition demo_lws_module :: lws_module where
  "demo_lws_module = \<lparr>md_objs = LuaObjMgr_new 0, md_service = True, md_ios = True, md_main = True, md_count = 0,
     md_state = \<lparr>lw_sessions = (\<lambda>_. demo_lws), lw_service = LuaLwsService_new\<lparr>sv_running := True, sv_context := True\<rparr>,
       lw_posted = [], lw_after = None\<rparr>\<rparr>"

theorem open_connect_write_witness:
  "\<exists>(h :: u32) m1 es m2 steps es3 w3 es4 m4.
      lws_lua_open (\<lambda>_. 5) [Arg_Text ''p'', Arg_Boolean True, Arg_Function 0, Arg_Function 1] demo_lws_module
        = (Returns [uint h], [], m1)
    \<and> lws_lua_connect (\<lambda>_. 5) (\<lambda>_. Some (Some ''ws'', ''h'', 80, Some [])) (Some 3)
        [Arg_Integer (uint h), Arg_Text ''ws://h/'', Arg_Integer 1000, Arg_Function 2] m1 = (Returns [], es, m2)
    \<and> lws_exec (\<lambda>_. True) [Lws_Callback 3 LWS_CALLBACK_CLIENT_ESTABLISHED None 0, Loop_Event, Script_Yields] {} (md_state m2)
        = Some (steps, es3, {}, w3)
    \<and> filter (\<lambda>e. e \<noteq> Lws_Cancel_Service) es3 = [Report_Result (md_count demo_lws_module) 5 True []]
    \<and> lws_lua_write [Arg_Integer (uint h), Arg_Text ''hi''] (m2\<lparr>md_state := w3\<rparr>) = (Returns [], es4, m4)
    \<and> lws_queue 3 (md_state m4) = Some [c_text ''hi'']"
  by (rule open_connect_write [where k = 0])
    (simp_all add: demo_lws_module_def md_running_def handles_fresh_def LuaObjMgr_new_def LUA_REFNIL_def)

end
