(* ===== verification/Bee_Lua_Timer.thy ===== *)
theory Bee_Lua_Timer
  imports Bee_Lua_Objects Bee_Timer
begin

text \<open>
  Timers for scripts: \<open>LuaTimer\<close> and \<open>LuaTimerModule\<close> (src/lua/module/lua_timer.cpp, lua_timer_module.cpp) on
  the timer of \<open>Bee_Timer\<close>.

  A timer's object lives on while a handler of it is due, also when its owner has dropped it, so the object
  and the pointer to it are kept apart. A resumption is the timer with the callback's number in the
  registry; \<open>reference\<close> is \<open>luaL_ref\<close>.
\<close>

section \<open>State\<close>

record lua_timer =
  lt_object :: AsyncWaitTimer
  lt_held :: bool
  lt_main :: bool
  lt_callback :: int

definition LuaTimer_new :: "bool \<Rightarrow> lua_timer" where
  "LuaTimer_new main = \<lparr>lt_object = AsyncWaitTimer_create, lt_held = False, lt_main = main, lt_callback = LUA_REFNIL\<rparr>"

record timer_module =
  tm_objs :: "nat lua_objs"
  tm_timers :: "nat \<Rightarrow> lua_timer"
  tm_count :: nat
  tm_main :: bool

section \<open>LuaTimer\<close>

definition lua_timer_open :: "bool \<Rightarrow> int \<Rightarrow> int \<Rightarrow> int \<Rightarrow> lua_timer \<Rightarrow> bool \<times> lua_timer" where
  "lua_timer_open ios interval timeout_count callback t =
     (if \<not> ios then (False, t)
      else (True, t\<lparr>lt_object := timer_async_wait (set_immediately False (set_wait_times timeout_count
               (set_wait_millseconds interval AsyncWaitTimer_create))),
             lt_held := True, lt_callback := callback\<rparr>))"

definition lua_timer_close :: "lua_timer \<Rightarrow> lua_timer" where
  "lua_timer_close t = (if lt_held t then t\<lparr>lt_object := timer_cancel (lt_object t), lt_held := False\<rparr> else t)"

definition lua_timer_handle_timeout :: "lua_timer \<Rightarrow> int list" where
  "lua_timer_handle_timeout t = (if \<not> lt_main t \<or> lt_callback t = LUA_REFNIL then [] else [lt_callback t])"

section \<open>The module\<close>

text \<open>\<open>ios\<close>: the script's session, and whether it has an event loop.\<close>

definition timer_lua_open :: "(lua_arg \<Rightarrow> int) \<Rightarrow> bool option \<Rightarrow> lua_arg list \<Rightarrow> timer_module \<Rightarrow> int lua_result \<times> timer_module" where
  "timer_lua_open reference ios args m =
     (case args of
        [a, b, cb] \<Rightarrow>
          (case (a, b) of
             (Arg_Integer interval, Arg_Integer count) \<Rightarrow>
               (let callback = reference cb
                in if callback = LUA_REFNIL then (Raises ''Timer callback NULL.'', m)
                   else case ios of
                     None \<Rightarrow> (Raises ''No session in table.'', m)
                   | Some loop \<Rightarrow>
                       (let (ret, t) = lua_timer_open loop (int32_of interval) (int32_of count) callback (LuaTimer_new (tm_main m))
                        in if \<not> ret then (Raises ''Inner timer open fail.'', m)
                           else
                             (let (handle, objs) = new_lua_obj (Some (tm_count m)) (tm_objs m)
                              in (Returns [uint handle], m\<lparr>tm_objs := objs, tm_timers := (tm_timers m)(tm_count m := t),
                                    tm_count := tm_count m + 1\<rparr>))))
           | _ \<Rightarrow> (Raises ''Wrong param data type.'', m))
      | _ \<Rightarrow> (Raises ''Invalid args.'', m))"

definition timer_lua_close :: "lua_arg list \<Rightarrow> timer_module \<Rightarrow> int lua_result \<times> timer_module" where
  "timer_lua_close args m =
     (case args of
        [Arg_Integer n] \<Rightarrow>
          (let (obj, objs) = delete_lua_obj (handle_of n) (tm_objs m); m1 = m\<lparr>tm_objs := objs\<rparr>
           in case obj of
                None \<Rightarrow> (Raises ''Can't find http session from handle'', m1)
              | Some i \<Rightarrow> (Returns [], m1\<lparr>tm_timers := (tm_timers m)(i := lua_timer_close (tm_timers m i))\<rparr>))
      | [_] \<Rightarrow> (Raises ''Wrong param data type.'', m)
      | _ \<Rightarrow> (Raises ''Invalid args.'', m))"

text \<open>\<open>on_close_module\<close>: the timers in the table.\<close>

definition timer_on_close_module :: "timer_module \<Rightarrow> timer_module" where
  "timer_on_close_module m =
     m\<lparr>tm_timers := (\<lambda>i. if i \<in> ran (om_table (tm_objs m)) then lua_timer_close (tm_timers m i) else tm_timers m i)\<rparr>"

section \<open>Scripts and the event loop\<close>

datatype timer_label =
    Open_Timer "lua_arg \<Rightarrow> int" "bool option" "lua_arg list"
  | Close_Timer "lua_arg list"
  | Close_Timers
  | Timer_Expires nat
  | Timer_Handler nat

text \<open>What a step resumes; \<open>None\<close> when it cannot be taken.\<close>

fun timer_act :: "timer_label \<Rightarrow> timer_module \<Rightarrow> ((nat \<times> int) list \<times> timer_module) option" where
  "timer_act (Open_Timer reference ios args) m = Some ([], snd (timer_lua_open reference ios args m))"
| "timer_act (Close_Timer args) m = Some ([], snd (timer_lua_close args m))"
| "timer_act Close_Timers m = Some ([], timer_on_close_module m)"
| "timer_act (Timer_Expires i) m =
     (let t = tm_timers m i; ob = lt_object t
      in if armed ob = None then None
         else Some ([], m\<lparr>tm_timers := (tm_timers m)(i := t\<lparr>lt_object := ob\<lparr>armed := None, ready := ready ob + 1\<rparr>\<rparr>)\<rparr>))"
| "timer_act (Timer_Handler i) m =
     (let t = tm_timers m i; ob = lt_object t
      in if ready ob = 0 then None
         else
           (let (out, ob1) = on_timer (ob\<lparr>ready := ready ob - 1\<rparr>)
            in Some (if out = None then [] else map (Pair i) (lua_timer_handle_timeout t),
                 m\<lparr>tm_timers := (tm_timers m)(i := t\<lparr>lt_object := ob1\<rparr>)\<rparr>)))"

fun timer_acts :: "timer_label list \<Rightarrow> timer_module \<Rightarrow> ((nat \<times> int) list \<times> timer_module) option" where
  "timer_acts [] m = Some ([], m)"
| "timer_acts (l # ls) m = do { (es, m1) \<leftarrow> timer_act l m; (es', m2) \<leftarrow> timer_acts ls m1; Some (es @ es', m2) }"

section \<open>Calls of a script's timer\<close>

text \<open>A timer with at most \<open>n\<close> calls to come, each of which resumes \<open>cb\<close>.\<close>

definition calls_left :: "int \<Rightarrow> nat \<Rightarrow> lua_timer \<Rightarrow> bool" where
  "calls_left cb n t \<longleftrightarrow> lt_callback t = cb \<and> (lt_held t \<or> is_cancel (lt_object t))
     \<and> (is_cancel (lt_object t) \<or> bounded_inv (lt_object t) \<and> total_times (lt_object t) - invoke_times (lt_object t) \<le> int n)"

lemma close_left [simp]: "calls_left cb n t \<Longrightarrow> calls_left cb n (lua_timer_close t)"
  by (auto simp: calls_left_def lua_timer_close_def timer_cancel_def)

lemma closed_left: "calls_left cb n t \<Longrightarrow> calls_left cb 0 (lua_timer_close t)"
  by (auto simp: calls_left_def lua_timer_close_def timer_cancel_def)

lemma expire_left:
  "calls_left cb n t \<Longrightarrow> armed (lt_object t) \<noteq> None
    \<Longrightarrow> calls_left cb n (t\<lparr>lt_object := (lt_object t)\<lparr>armed := None, ready := ready (lt_object t) + 1\<rparr>\<rparr>)"
  by (auto simp: calls_left_def bounded_inv_def outstanding_def)

lemma handler_left:
  assumes "calls_left cb n t" and "ready (lt_object t) \<noteq> 0"
    and "on_timer ((lt_object t)\<lparr>ready := ready (lt_object t) - 1\<rparr>) = (out, ob)"
  shows "if out = None then calls_left cb n (t\<lparr>lt_object := ob\<rparr>) else 0 < n \<and> calls_left cb (n - 1) (t\<lparr>lt_object := ob\<rparr>)"
  using assms
  by (cases "is_cancel (lt_object t)")
    (auto simp: calls_left_def bounded_inv_def outstanding_def on_timer_def rearm_def Let_def split: if_splits)

lemma open_keeps: "i < tm_count m \<Longrightarrow> timer_lua_open reference ios args m = (r, m')
    \<Longrightarrow> i < tm_count m' \<and> tm_timers m' i = tm_timers m i"
  by (auto simp: timer_lua_open_def Let_def split: list.splits lua_arg.splits option.splits prod.splits if_splits)

lemma timer_close_keeps: "timer_lua_close args m = (r, m')
    \<Longrightarrow> tm_count m' = tm_count m \<and> tm_timers m' i \<in> {tm_timers m i, lua_timer_close (tm_timers m i)}"
  by (auto simp: timer_lua_close_def Let_def split: list.splits lua_arg.splits option.splits prod.splits)

lemma act_left:
  assumes "timer_act l m = Some (es, m')" and "i < tm_count m" and "calls_left cb n (tm_timers m i)"
  shows "\<exists>n'. i < tm_count m' \<and> calls_left cb n' (tm_timers m' i) \<and> n' + length (filter (\<lambda>e. fst e = i) es) \<le> n
    \<and> (\<forall>e \<in> set es. fst e = i \<longrightarrow> snd e = cb)"
proof -
  have none: ?thesis if "i < tm_count m'" "calls_left cb n (tm_timers m' i)" "\<forall>e \<in> set es. fst e \<noteq> i"
    using that by (intro exI [of _ n]) (auto simp: filter_empty_conv)
  show ?thesis
  proof (cases l)
    case (Open_Timer reference ios args)
    with assms open_keeps [OF assms(2), of reference ios args] show ?thesis by (intro none) (auto simp: prod_eq_iff)
  next
    case (Close_Timer args)
    with assms(1) have m': "m' = snd (timer_lua_close args m)" "es = []" by simp_all
    from timer_close_keeps [of args m "fst (timer_lua_close args m)" m' i] m' have
      "tm_count m' = tm_count m" "tm_timers m' i \<in> {tm_timers m i, lua_timer_close (tm_timers m i)}" by simp_all
    with assms(2,3) m' show ?thesis by (intro none) auto
  next
    case Close_Timers
    with assms show ?thesis by (intro none) (auto simp: timer_on_close_module_def)
  next
    case (Timer_Expires j)
    with assms expire_left [OF assms(3)] show ?thesis by (intro none) (auto simp: Let_def split: if_splits)
  next
    case (Timer_Handler j)
    show ?thesis
    proof (cases "j = i")
      case False
      with assms Timer_Handler show ?thesis
        by (intro none) (auto simp: Let_def split: if_splits prod.splits)
    next
      case True
      obtain out ob where o: "on_timer ((lt_object (tm_timers m i))\<lparr>ready := ready (lt_object (tm_timers m i)) - 1\<rparr>) = (out, ob)"
        by fastforce
      with assms(1) Timer_Handler True have r: "ready (lt_object (tm_timers m i)) \<noteq> 0"
        "m' = m\<lparr>tm_timers := (tm_timers m)(i := (tm_timers m i)\<lparr>lt_object := ob\<rparr>)\<rparr>"
        "es = (if out = None then [] else map (Pair i) (lua_timer_handle_timeout (tm_timers m i)))"
        by (auto simp: Let_def split: if_splits)
      have cb: "lt_callback (tm_timers m i) = cb" using assms(3) by (simp add: calls_left_def)
      from handler_left [OF assms(3) r(1) o] show ?thesis
        using r(2,3) assms(2) cb
        by (intro exI [of _ "if out = None then n else n - 1"]) (auto simp: lua_timer_handle_timeout_def)
    qed
  qed
qed

lemma acts_left:
  assumes "timer_acts ls m = Some (es, m')" and "i < tm_count m" and "calls_left cb n (tm_timers m i)"
  shows "length (filter (\<lambda>e. fst e = i) es) \<le> n \<and> (\<forall>e \<in> set es. fst e = i \<longrightarrow> snd e = cb)
    \<and> i < tm_count m' \<and> (\<exists>k. calls_left cb k (tm_timers m' i))"
  using assms
proof (induction ls arbitrary: m es n)
  case (Cons l ls)
  from Cons.prems(1) obtain es1 m1 es2 where 1: "timer_act l m = Some (es1, m1)" "timer_acts ls m1 = Some (es2, m')"
    "es = es1 @ es2" by (auto split: bind_splits)
  from act_left [OF 1(1) Cons.prems(2,3)] obtain n' where
    n: "i < tm_count m1" "calls_left cb n' (tm_timers m1 i)" "n' + length (filter (\<lambda>e. fst e = i) es1) \<le> n"
      "\<forall>e \<in> set es1. fst e = i \<longrightarrow> snd e = cb" by blast
  from Cons.IH [OF 1(2) n(1,2)] n(3,4) 1(3) show ?case by auto
qed auto

lemma opened_left:
  assumes "timer_lua_open reference ios [Arg_Integer interval, Arg_Integer count, cb] m = (Returns [h], m1)" and "0 < int32_of count"
  shows "tm_count m < tm_count m1 \<and> calls_left (reference cb) (nat (int32_of count)) (tm_timers m1 (tm_count m))"
  using assms
  by (auto simp: timer_lua_open_def lua_timer_open_def calls_left_def bounded_inv_def outstanding_def timer_async_wait_def
      set_wait_times_def set_immediately_def set_wait_millseconds_def AsyncWaitTimer_create_def rearm_def Let_def
      split: option.splits prod.splits if_splits)

text \<open>
  C18: a timer a script opens with a positive count resumes its callback at most that often, whatever other
  timers do and whenever the script closes it; once it has been closed through
  its handle it resumes nothing any more, not even for a handler that is due.
\<close>

theorem script_timer_calls:
  assumes "timer_lua_open reference ios [Arg_Integer interval, Arg_Integer count, cb] m = (Returns [h], m1)"
    and "0 < int32_of count" and "timer_acts ls m1 = Some (es, m2)"
    and "om_table (tm_objs m2) (handle_of h) = Some (tm_count m)"
    and "timer_acts ls' (snd (timer_lua_close [Arg_Integer h] m2)) = Some (es', m3)"
  shows "int (length (filter (\<lambda>e. fst e = tm_count m) es)) \<le> int32_of count
    \<and> (\<forall>e \<in> set es. fst e = tm_count m \<longrightarrow> snd e = reference cb) \<and> (\<forall>e \<in> set es'. fst e \<noteq> tm_count m)"
proof -
  let ?i = "tm_count m"
  from acts_left [OF assms(3)] opened_left [OF assms(1,2)] have
    1: "length (filter (\<lambda>e. fst e = ?i) es) \<le> nat (int32_of count)" "\<forall>e \<in> set es. fst e = ?i \<longrightarrow> snd e = reference cb"
      "?i < tm_count m2" "\<exists>k. calls_left (reference cb) k (tm_timers m2 ?i)" by blast+
  let ?m = "snd (timer_lua_close [Arg_Integer h] m2)"
  have "tm_count ?m = tm_count m2" "tm_timers ?m ?i = lua_timer_close (tm_timers m2 ?i)"
    using assms(4) by (simp_all add: timer_lua_close_def delete_lua_obj_def Let_def)
  with 1(3,4) closed_left have "?i < tm_count ?m" "calls_left (reference cb) 0 (tm_timers ?m ?i)" by auto
  from acts_left [OF assms(5) this] have "\<forall>e \<in> set es'. fst e \<noteq> ?i" by (auto simp: filter_empty_conv)
  with 1 assms(2) show ?thesis by (simp add: le_nat_iff)
qed

definition demo_timers :: timer_module where
  "demo_timers = \<lparr>tm_objs = LuaObjMgr_new 0, tm_timers = (\<lambda>_. LuaTimer_new True), tm_count = 0, tm_main = True\<rparr>"

theorem script_timer_calls_witness:
  "\<exists>m1 m2 m3. timer_lua_open (\<lambda>_. 7) (Some True) [Arg_Integer 20, Arg_Integer 2, Arg_Function 0] demo_timers = (Returns [1], m1)
    \<and> timer_acts [Timer_Expires 0, Timer_Handler 0, Timer_Expires 0] m1 = Some ([(0, 7)], m2)
    \<and> timer_acts [Timer_Handler 0] (snd (timer_lua_close [Arg_Integer 1] m2)) = Some ([], m3)
    \<and> int (length (filter (\<lambda>e. fst e = tm_count demo_timers) [(0, 7 :: int)])) \<le> int32_of 2"
proof -
  note defs = demo_timers_def timer_lua_open_def lua_timer_open_def timer_async_wait_def set_wait_times_def set_immediately_def
    set_wait_millseconds_def AsyncWaitTimer_create_def rearm_def LuaTimer_new_def LUA_REFNIL_def new_lua_obj_def LuaObjMgr_new_def
    on_timer_def lua_timer_handle_timeout_def timer_lua_close_def delete_lua_obj_def handle_of_def lua_timer_close_def timer_cancel_def
  obtain m1 where o: "timer_lua_open (\<lambda>_. 7) (Some True) [Arg_Integer 20, Arg_Integer 2, Arg_Function 0] demo_timers = (Returns [1], m1)"
    and m1: "m1 = snd (timer_lua_open (\<lambda>_. 7) (Some True) [Arg_Integer 20, Arg_Integer 2, Arg_Function 0] demo_timers)"
    by (simp add: defs)
  obtain m2 where r: "timer_acts [Timer_Expires 0, Timer_Handler 0, Timer_Expires 0] m1 = Some ([(0, 7)], m2)"
    and m2: "om_table (tm_objs m2) (handle_of 1) = Some 0" "lt_object (tm_timers m2 0) = \<lparr>total_times = 2, dead_mill_seconds = 20,
      invoke_times = 1, has_wait_func = True, is_cancel = False, immediately = False, armed = None, ready = 1\<rparr>" "lt_held (tm_timers m2 0)"
    unfolding m1 by (simp add: defs Let_def)
  obtain m3 where c: "timer_acts [Timer_Handler 0] (snd (timer_lua_close [Arg_Integer 1] m2)) = Some ([], m3)"
    using m2 by (simp add: timer_lua_close_def delete_lua_obj_def lua_timer_close_def timer_cancel_def on_timer_def Let_def)
  have "int (length (filter (\<lambda>e. fst e = tm_count demo_timers) [(0, 7 :: int)])) \<le> int32_of 2"
    using script_timer_calls [OF o _ r _ c] m2(1) by (simp add: demo_timers_def)
  with o r c show ?thesis by blast
qed

end
