(* ===== verification/Bee_Webrtc.thy ===== *)
theory Bee_Webrtc
  imports Bee_Lua_Objects
begin

text \<open>
  Peer connections of scripts (src/lua/module/lua_webrtc_peer_connection.cpp, lua_webrtc_service.cpp,
  lua_webrtc_video_sink.cpp): the session's thread calls into libwebrtc through its signaling thread, libwebrtc
  reports through observers, and what scripts are to be told is posted back to the session's event loop.

  libwebrtc and the JSON library are the record \<open>rtc_library\<close> of what they answer, calls of them are effects.
  A call that is run on the signaling thread is waited for, so it is a step of the caller; what that thread may do
  between this and the end of the call is a field of the library (\<open>rl_early_offer\<close>). \<open>None\<close> is a null
  pointer. The model is the one for Linux.
\<close>

section \<open>State\<close>

datatype LuaWebrtcCallbackType =
    eLuaWebrtcCallbackType_OnIceCandidate | eLuaWebrtcCallbackType_OnIceGatheringChange
  | eLuaWebrtcCallbackType_OnIceConnectionChange | eLuaWebrtcCallbackType_OnMediaReady
  | eLuaWebrtcCallbackType_OnVideoFrame | eLuaWebrtcCallbackType_OnSdp

datatype PartyRole = ePartyRole_Offer | ePartyRole_Answer

text \<open>
  \<open>rtc_early\<close>: what the signaling thread has reported of an offer before the call that asks for it ends. (Other
  reports that fall into that time post nothing that depends on the call: they are events before it.)
\<close>

datatype rtc_early = Not_Yet | Early_Success string string | Early_Failure

record rtc_library =
  rl_peer_connection :: "string \<Rightarrow> bool"
  rl_local_stream :: bool
  rl_audio_source :: "int \<Rightarrow> bool"
  rl_video_source :: "int \<Rightarrow> bool"
  rl_audio_track :: bool
  rl_video_track :: bool
  rl_add_stream :: bool
  rl_parse :: "string \<Rightarrow> (string option \<times> string option) option"
  rl_description :: "string \<Rightarrow> string \<Rightarrow> bool"
  rl_get_stats :: bool
  rl_input_level :: int
  rl_output_level :: int
  rl_candidate_json :: "string \<Rightarrow> int \<Rightarrow> string \<Rightarrow> string"
  rl_description_json :: "string \<Rightarrow> string \<Rightarrow> string"
  rl_early_offer :: rtc_early

text \<open>The planes of a frame: pointer and stride of each.\<close>

type_synonym planes = "(int \<times> int) \<times> (int \<times> int) \<times> (int \<times> int)"

record bee_video_frame =
  bf_planes :: planes
  bf_width :: int
  bf_height :: int
  bf_rotation :: int
  bf_timestamp :: int

text \<open>\<open>None\<close>: no renderer. A track is a number.\<close>

record video_sink =
  vs_track :: nat
  vs_renderer :: "int option"
  vs_frame :: bee_video_frame
  vs_first_frame :: bool

record rtc_peer =
  rp_ios :: bool
  rp_service :: bool
  rp_main :: bool
  rp_pc :: bool
  rp_callbacks :: "LuaWebrtcCallbackType \<Rightarrow> int"
  rp_role :: PartyRole
  rp_sink :: "video_sink option"
  rp_closed :: bool
  rp_external :: bool
  rp_width :: int
  rp_height :: int
  rp_fps :: int
  rp_capturer_index :: int
  rp_screencast :: bool
  rp_no_audio_processing :: bool
  rp_level_control :: bool

definition LuaRtcPeerConnection_new :: "bool \<Rightarrow> bool \<Rightarrow> bool \<Rightarrow> rtc_peer" where
  "LuaRtcPeerConnection_new ios service main = \<lparr>rp_ios = ios, rp_service = service, rp_main = main, rp_pc = False,
     rp_callbacks = (\<lambda>_. LUA_REFNIL), rp_role = ePartyRole_Offer, rp_sink = None, rp_closed = False, rp_external = True,
     rp_width = 640, rp_height = 480, rp_fps = 30, rp_capturer_index = 0, rp_screencast = False,
     rp_no_audio_processing = False, rp_level_control = True\<rparr>"

text \<open>The threads of \<open>LuaWebrtcService\<close> and its factory, which all sessions share.\<close>

record rtc_statics =
  rs_network :: bool
  rs_worker :: bool
  rs_signaling :: bool
  rs_factory :: bool

datatype rtc_value = No_Value | Text_Value string | Number_Value int

text \<open>What is posted to the event loop.\<close>

datatype rtc_handler =
    On_Get_Sdp string
  | On_Local_Ice_Candidate string
  | On_Local_Ice_Gathering_Changed int
  | On_Local_Ice_Connection_Changed int
  | On_Media_Ready

datatype rtc_effect =
    Create_Peer_Connection string
  | Add_Stream bool bool
  | Create_Offer
  | Create_Answer
  | Set_Remote_Description string string
  | Set_Local_Description
  | Close_Peer_Connection
  | Ask_Stats
  | Add_Sink nat
  | Remove_Sink nat
  | Deliver_Frame int bee_video_frame
  | Rtc_Callback nat LuaWebrtcCallbackType int rtc_value

section \<open>The service\<close>

text \<open>\<open>factory\<close>: whether libwebrtc makes one. A thread that does not start aborts.\<close>

definition init_factory :: "bool \<Rightarrow> rtc_statics \<Rightarrow> rtc_statics" where
  "init_factory factory st = (if rs_factory st then st else st\<lparr>rs_factory := factory\<rparr>)"

definition init_service :: "bool \<Rightarrow> rtc_statics \<Rightarrow> rtc_statics" where
  "init_service factory st = init_factory factory (st\<lparr>rs_network := True, rs_worker := True, rs_signaling := True\<rparr>)"

definition uninit_service :: "rtc_statics \<Rightarrow> rtc_statics" where
  "uninit_service st = \<lparr>rs_network = False, rs_worker = False, rs_signaling = False, rs_factory = False\<rparr>"

section \<open>The video sink\<close>

definition LuaWebrtcVideoSink_new :: "nat \<Rightarrow> video_sink" where
  "LuaWebrtcVideoSink_new track = \<lparr>vs_track = track, vs_renderer = None,
     vs_frame = \<lparr>bf_planes = ((0, 0), (0, 0), (0, 0)), bf_width = 0, bf_height = 0, bf_rotation = 0, bf_timestamp = 0\<rparr>,
     vs_first_frame = True\<rparr>"

definition sink_start :: "int \<Rightarrow> video_sink \<Rightarrow> video_sink" where
  "sink_start renderer s = s\<lparr>vs_renderer := (if renderer = 0 then None else Some renderer)\<rparr>"

definition sink_stop :: "video_sink \<Rightarrow> video_sink" where
  "sink_stop s = s\<lparr>vs_renderer := None\<rparr>"

text \<open>\<open>planes\<close>: those of the frame's buffer if it is one of the kinds that are supported.\<close>

definition sink_on_frame :: "int \<Rightarrow> int \<Rightarrow> int \<Rightarrow> int \<Rightarrow> planes option \<Rightarrow> video_sink \<Rightarrow> rtc_effect list \<times> video_sink" where
  "sink_on_frame width height rotation timestamp planes s =
     (let s1 = s\<lparr>vs_first_frame := False\<rparr>
      in case vs_renderer s1 of
           None \<Rightarrow> ([], s1)
         | Some renderer \<Rightarrow>
             (let f = (vs_frame s1)\<lparr>bf_width := width, bf_height := height, bf_rotation := rotation, bf_timestamp := timestamp\<rparr>;
                  f1 = (case planes of None \<Rightarrow> f | Some ps \<Rightarrow> f\<lparr>bf_planes := ps\<rparr>)
              in ([Deliver_Frame renderer f1], s1\<lparr>vs_frame := f1\<rparr>)))"

section \<open>Calls of the script's thread\<close>

definition create_webrtc_peer_connection ::
    "rtc_library \<Rightarrow> rtc_statics \<Rightarrow> string \<Rightarrow> rtc_peer \<Rightarrow> BeeErrorCode \<times> rtc_effect list \<times> rtc_peer" where
  "create_webrtc_peer_connection lib st stun_uri p =
     (if \<not> rp_service p then (kBeeErrorCode_Service_Not_Started, [], p)
      else if \<not> rs_factory st then (kBeeErrorCode_Null_Pointer, [], p)
      else if \<not> rl_peer_connection lib stun_uri
        then (kBeeErrorCode_Webrtc_Create_Peer_Connection_Fail, [Create_Peer_Connection stun_uri], p\<lparr>rp_pc := False\<rparr>)
      else (kBeeErrorCode_Success, [Create_Peer_Connection stun_uri], p\<lparr>rp_pc := True\<rparr>))"

text \<open>Running on the signaling thread.\<close>

definition invoke ::
    "rtc_statics \<Rightarrow> (rtc_peer \<Rightarrow> BeeErrorCode \<times> rtc_effect list \<times> rtc_peer) \<Rightarrow> rtc_peer \<Rightarrow> BeeErrorCode \<times> rtc_effect list \<times> rtc_peer" where
  "invoke st f p =
     (if \<not> rp_service p \<or> \<not> rs_signaling st then (kBeeErrorCode_Service_Not_Started, [], p) else f p)"

text \<open>\<open>track\<close> is the number of a new track. A source is a pointer; 0 is null.\<close>

definition inner_create_offer ::
    "rtc_library \<Rightarrow> rtc_statics \<Rightarrow> nat \<Rightarrow> int \<Rightarrow> int \<Rightarrow> rtc_peer \<Rightarrow> BeeErrorCode \<times> rtc_effect list \<times> rtc_peer" where
  "inner_create_offer lib st track audio_source video_source p =
     (if \<not> rp_service p then (kBeeErrorCode_Service_Not_Started, [], p)
      else if \<not> rp_pc p then (kBeeErrorCode_Null_Pointer, [], p)
      else if \<not> rs_factory st then (kBeeErrorCode_Null_Pointer, [], p)
      else if \<not> rl_local_stream lib then (kBeeErrorCode_Webrtc_Create_Local_Stream_Fail, [], p)
      else
        (let audio_track = (audio_source \<noteq> 0 \<and> rl_audio_source lib audio_source \<and> rl_audio_track lib);
             video_track = (video_source \<noteq> 0 \<and> rl_video_source lib video_source \<and> rl_video_track lib);
             es = [Add_Stream audio_track video_track]
         in if \<not> rl_add_stream lib then (kBeeErrorCode_Webrtc_Add_Stream_Fail, es, p)
            else
              (let p1 = p\<lparr>rp_role := ePartyRole_Offer\<rparr>
               in if rp_sink p1 = None \<and> video_track
                  then (kBeeErrorCode_Success, es @ [Create_Offer, Add_Sink track], p1\<lparr>rp_sink := Some (LuaWebrtcVideoSink_new track)\<rparr>)
                  else (kBeeErrorCode_Success, es @ [Create_Offer], p1))))"

definition inner_set_remote_desc :: "rtc_library \<Rightarrow> string \<Rightarrow> rtc_peer \<Rightarrow> BeeErrorCode \<times> rtc_effect list \<times> rtc_peer" where
  "inner_set_remote_desc lib jsep p =
     (if \<not> rp_pc p then (kBeeErrorCode_Null_Pointer, [], p)
      else case rl_parse lib jsep of
        Some (Some type, Some sdp) \<Rightarrow>
          (if type = [] \<or> sdp = [] \<or> \<not> rl_description lib type sdp then (kBeeErrorCode_Invalid_Param, [], p)
           else (kBeeErrorCode_Success, [Set_Remote_Description type sdp], p))
      | _ \<Rightarrow> (kBeeErrorCode_Invalid_Param, [], p))"

definition inner_create_answer :: "rtc_library \<Rightarrow> string \<Rightarrow> rtc_peer \<Rightarrow> BeeErrorCode \<times> rtc_effect list \<times> rtc_peer" where
  "inner_create_answer lib jsep p =
     (let (ret, es, p1) = inner_set_remote_desc lib jsep p
      in if ret \<noteq> kBeeErrorCode_Success then (ret, es, p1)
         else (ret, es @ [Create_Answer], p1\<lparr>rp_role := ePartyRole_Answer\<rparr>))"

definition drop_sink :: "rtc_peer \<Rightarrow> rtc_effect list \<times> rtc_peer" where
  "drop_sink p = (case rp_sink p of None \<Rightarrow> ([], p) | Some s \<Rightarrow> ([Remove_Sink (vs_track s)], p\<lparr>rp_sink := None\<rparr>))"

definition inner_close :: "rtc_peer \<Rightarrow> BeeErrorCode \<times> rtc_effect list \<times> rtc_peer" where
  "inner_close p =
     (let (es, p1) = drop_sink p
      in if rp_pc p1 then (kBeeErrorCode_Success, es @ [Close_Peer_Connection], p1\<lparr>rp_pc := False\<rparr>)
         else (kBeeErrorCode_Success, es, p1))"

definition inner_get_stats :: "rtc_library \<Rightarrow> rtc_peer \<Rightarrow> BeeErrorCode \<times> rtc_effect list \<times> rtc_peer" where
  "inner_get_stats lib p =
     (if \<not> rp_pc p then (kBeeErrorCode_Null_Pointer, [], p)
      else (if rl_get_stats lib then kBeeErrorCode_Success else kBeeErrorCode_Invalid_Param, [Ask_Stats], p))"

definition inner_set_video_source :: "bool \<Rightarrow> int \<Rightarrow> int \<Rightarrow> int \<Rightarrow> int \<Rightarrow> bool \<Rightarrow> rtc_peer \<Rightarrow> rtc_peer" where
  "inner_set_video_source internal width height fps capturer_index is_screencast p =
     p\<lparr>rp_external := \<not> internal, rp_width := width, rp_height := height, rp_fps := fps,
       rp_capturer_index := capturer_index, rp_screencast := is_screencast\<rparr>"

definition inner_set_audio_source :: "bool \<Rightarrow> bool \<Rightarrow> rtc_peer \<Rightarrow> rtc_peer" where
  "inner_set_audio_source no_audio_processing enable_level_control p =
     p\<lparr>rp_no_audio_processing := no_audio_processing, rp_level_control := enable_level_control\<rparr>"

definition inner_get_audio_input_level :: "rtc_library \<Rightarrow> rtc_peer \<Rightarrow> int" where
  "inner_get_audio_input_level lib p = (if rp_pc p then rl_input_level lib else - 1)"

definition inner_get_audio_output_level :: "rtc_library \<Rightarrow> rtc_peer \<Rightarrow> int" where
  "inner_get_audio_output_level lib p = (if rp_pc p then rl_output_level lib else - 1)"

text \<open>What becomes of a description that libwebrtc was asked for; both run on the signaling thread.\<close>

definition post_if :: "rtc_peer \<Rightarrow> rtc_handler list \<Rightarrow> rtc_handler list" where
  "post_if p hs = (if rp_ios p then hs else [])"

text \<open>\<open>OnSuccess\<close> looks neither at the event loop nor at the peer connection.\<close>

definition on_success :: "rtc_library \<Rightarrow> string \<Rightarrow> string \<Rightarrow> rtc_peer \<Rightarrow> (rtc_effect list \<times> rtc_handler list \<times> rtc_peer) option" where
  "on_success lib type sdp p =
     (if \<not> rp_ios p \<or> \<not> rp_pc p then None
      else Some ([Set_Local_Description], [On_Get_Sdp (rl_description_json lib type sdp)], p))"

definition on_failure :: "rtc_peer \<Rightarrow> rtc_effect list \<times> rtc_handler list \<times> rtc_peer" where
  "on_failure p = ([], post_if p [On_Get_Sdp []], p)"

text \<open>
  The calls proper. \<open>create_offer\<close> also gives what is posted: the signaling thread goes on as soon as the offer
  is asked for, so that its report can be posted before \<open>on_media_ready\<close> is.
\<close>

definition set_rtc_callback :: "LuaWebrtcCallbackType \<Rightarrow> int \<Rightarrow> rtc_peer \<Rightarrow> rtc_peer" where
  "set_rtc_callback type callback p = p\<lparr>rp_callbacks := (rp_callbacks p)(type := callback)\<rparr>"

definition early_offer :: "rtc_library \<Rightarrow> rtc_peer \<Rightarrow> (rtc_effect list \<times> rtc_handler list \<times> rtc_peer) option" where
  "early_offer lib p =
     (case rl_early_offer lib of
        Not_Yet \<Rightarrow> Some ([], [], p)
      | Early_Success type sdp \<Rightarrow> on_success lib type sdp p
      | Early_Failure \<Rightarrow> Some (on_failure p))"

definition create_offer ::
    "rtc_library \<Rightarrow> rtc_statics \<Rightarrow> nat \<Rightarrow> int \<Rightarrow> int \<Rightarrow> int \<Rightarrow> rtc_peer
      \<Rightarrow> (BeeErrorCode \<times> rtc_effect list \<times> rtc_handler list \<times> rtc_peer) option" where
  "create_offer lib st track audio_source video_source callback p =
     (let (ret, es, p1) = invoke st (inner_create_offer lib st track audio_source video_source) p
      in if ret \<noteq> kBeeErrorCode_Success then Some (ret, es, [], p1)
         else do {
           (es', hs, p2) \<leftarrow> early_offer lib p1;
           Some (ret, es @ es', hs @ post_if p2 [On_Media_Ready], set_rtc_callback eLuaWebrtcCallbackType_OnSdp callback p2)
         })"

definition create_answer ::
    "rtc_library \<Rightarrow> rtc_statics \<Rightarrow> string \<Rightarrow> int \<Rightarrow> rtc_peer \<Rightarrow> BeeErrorCode \<times> rtc_effect list \<times> rtc_peer" where
  "create_answer lib st jsep callback p =
     (let (ret, es, p1) = invoke st (inner_create_answer lib jsep) p
      in if ret \<noteq> kBeeErrorCode_Success then (ret, es, p1)
         else (ret, es, set_rtc_callback eLuaWebrtcCallbackType_OnSdp callback p1))"

definition set_remote_desc :: "rtc_library \<Rightarrow> rtc_statics \<Rightarrow> string \<Rightarrow> rtc_peer \<Rightarrow> BeeErrorCode \<times> rtc_effect list \<times> rtc_peer" where
  "set_remote_desc lib st jsep = invoke st (inner_set_remote_desc lib jsep)"

definition rtc_close :: "rtc_statics \<Rightarrow> rtc_peer \<Rightarrow> BeeErrorCode \<times> rtc_effect list \<times> rtc_peer" where
  "rtc_close st p =
     (let (ret, es, p1) = invoke st inner_close (p\<lparr>rp_closed := True\<rparr>)
      in if ret \<noteq> kBeeErrorCode_Success then (ret, es, p1) else (ret, es, p1\<lparr>rp_service := False\<rparr>))"

definition start_video_render :: "int \<Rightarrow> rtc_peer \<Rightarrow> BeeErrorCode \<times> rtc_effect list \<times> rtc_peer" where
  "start_video_render video_renderer p =
     (case rp_sink p of
        None \<Rightarrow> (kBeeErrorCode_Invalid_State, [], p)
      | Some s \<Rightarrow> (kBeeErrorCode_Success, [], p\<lparr>rp_sink := Some (sink_start video_renderer s)\<rparr>))"

definition stop_video_render :: "rtc_peer \<Rightarrow> BeeErrorCode \<times> rtc_effect list \<times> rtc_peer" where
  "stop_video_render p =
     (case rp_sink p of
        None \<Rightarrow> (kBeeErrorCode_Invalid_State, [], p)
      | Some s \<Rightarrow> (kBeeErrorCode_Success, [], p\<lparr>rp_sink := Some (sink_stop s)\<rparr>))"

definition get_stats :: "rtc_library \<Rightarrow> rtc_statics \<Rightarrow> int \<Rightarrow> rtc_peer \<Rightarrow> BeeErrorCode \<times> rtc_effect list \<times> rtc_peer" where
  "get_stats lib st observer p =
     (if observer = 0 then (kBeeErrorCode_Invalid_Param, [], p) else invoke st (inner_get_stats lib) p)"

definition set_video_source ::
    "rtc_statics \<Rightarrow> bool \<Rightarrow> int \<Rightarrow> int \<Rightarrow> int \<Rightarrow> int \<Rightarrow> bool \<Rightarrow> rtc_peer \<Rightarrow> BeeErrorCode \<times> rtc_effect list \<times> rtc_peer" where
  "set_video_source st internal width height fps capturer_index is_screencast =
     invoke st (\<lambda>p. (kBeeErrorCode_Success, [], inner_set_video_source internal width height fps capturer_index is_screencast p))"

definition set_audio_source :: "rtc_statics \<Rightarrow> bool \<Rightarrow> bool \<Rightarrow> rtc_peer \<Rightarrow> BeeErrorCode \<times> rtc_effect list \<times> rtc_peer" where
  "set_audio_source st no_audio_processing enable_level_control =
     invoke st (\<lambda>p. (kBeeErrorCode_Success, [], inner_set_audio_source no_audio_processing enable_level_control p))"

definition get_audio_input_level :: "rtc_library \<Rightarrow> rtc_statics \<Rightarrow> rtc_peer \<Rightarrow> int" where
  "get_audio_input_level lib st p =
     (if \<not> rp_service p \<or> \<not> rs_signaling st then - 1 else inner_get_audio_input_level lib p)"

definition get_audio_output_level :: "rtc_library \<Rightarrow> rtc_statics \<Rightarrow> rtc_peer \<Rightarrow> int" where
  "get_audio_output_level lib st p =
     (if \<not> rp_service p \<or> \<not> rs_signaling st then - 1 else inner_get_audio_output_level lib p)"

section \<open>What libwebrtc reports\<close>

datatype rtc_event =
    Signaling_Change int
  | Stream_Added "nat option"
  | Stream_Removed
  | Data_Channel
  | Renegotiation_Needed
  | Ice_Connection_Change int
  | Ice_Gathering_Change int
  | Ice_Candidate string int "string option"
  | Ice_Receiving_Change bool
  | Description_Created string string
  | Description_Failed string
  | Frame_Arrived int int int int "planes option"

text \<open>A stream comes with its first video track, if it has one; a candidate with its text, if it can be had.\<close>

definition on_add_stream :: "nat option \<Rightarrow> rtc_peer \<Rightarrow> rtc_effect list \<times> rtc_handler list \<times> rtc_peer" where
  "on_add_stream track p =
     (let (es, p1) = (case track of
          Some tr \<Rightarrow> if rp_sink p = None then ([Add_Sink tr], p\<lparr>rp_sink := Some (LuaWebrtcVideoSink_new tr)\<rparr>) else ([], p)
        | None \<Rightarrow> ([], p))
      in (es, post_if p1 [On_Media_Ready], p1))"

definition on_remove_stream :: "rtc_peer \<Rightarrow> rtc_effect list \<times> rtc_handler list \<times> rtc_peer" where
  "on_remove_stream p = (let (es, p1) = drop_sink p in (es, [], p1))"

definition on_ice_candidate :: "rtc_library \<Rightarrow> string \<Rightarrow> int \<Rightarrow> string option \<Rightarrow> rtc_peer \<Rightarrow> rtc_effect list \<times> rtc_handler list \<times> rtc_peer" where
  "on_ice_candidate lib mid index text p =
     (case text of
        None \<Rightarrow> ([], [], p)
      | Some sdp \<Rightarrow> ([], post_if p [On_Local_Ice_Candidate (rl_candidate_json lib mid index sdp)], p))"

fun rtc_on_event :: "rtc_library \<Rightarrow> rtc_event \<Rightarrow> rtc_peer \<Rightarrow> (rtc_effect list \<times> rtc_handler list \<times> rtc_peer) option" where
  "rtc_on_event lib (Signaling_Change n) p = Some ([], [], p)"
| "rtc_on_event lib (Stream_Added track) p = Some (on_add_stream track p)"
| "rtc_on_event lib Stream_Removed p = Some (on_remove_stream p)"
| "rtc_on_event lib Data_Channel p = Some ([], [], p)"
| "rtc_on_event lib Renegotiation_Needed p = Some ([], [], p)"
| "rtc_on_event lib (Ice_Connection_Change n) p = Some ([], post_if p [On_Local_Ice_Connection_Changed n], p)"
| "rtc_on_event lib (Ice_Gathering_Change n) p = Some ([], post_if p [On_Local_Ice_Gathering_Changed n], p)"
| "rtc_on_event lib (Ice_Candidate mid index text) p = Some (on_ice_candidate lib mid index text p)"
| "rtc_on_event lib (Ice_Receiving_Change b) p = Some ([], [], p)"
| "rtc_on_event lib (Description_Created type sdp) p = on_success lib type sdp p"
| "rtc_on_event lib (Description_Failed error) p = Some (on_failure p)"
| "rtc_on_event lib (Frame_Arrived w h r t planes) p =
     (case rp_sink p of
        None \<Rightarrow> Some ([], [], p)
      | Some s \<Rightarrow> (let (es, s1) = sink_on_frame w h r t planes s in Some (es, [], p\<lparr>rp_sink := Some s1\<rparr>)))"

section \<open>Telling the script\<close>

text \<open>The five handlers differ in the callback and in what they push.\<close>

definition rtc_tell :: "nat \<Rightarrow> LuaWebrtcCallbackType \<Rightarrow> rtc_value \<Rightarrow> rtc_peer \<Rightarrow> rtc_effect list" where
  "rtc_tell i type v p =
     (if rp_closed p \<or> \<not> rp_main p \<or> rp_callbacks p type = LUA_REFNIL then []
      else [Rtc_Callback i type (rp_callbacks p type) v])"

definition on_get_sdp :: "nat \<Rightarrow> string \<Rightarrow> rtc_peer \<Rightarrow> rtc_effect list" where
  "on_get_sdp i jsep = rtc_tell i eLuaWebrtcCallbackType_OnSdp (Text_Value (c_text jsep))"

definition on_local_ice_candidate :: "nat \<Rightarrow> string \<Rightarrow> rtc_peer \<Rightarrow> rtc_effect list" where
  "on_local_ice_candidate i candidate = rtc_tell i eLuaWebrtcCallbackType_OnIceCandidate (Text_Value (c_text candidate))"

definition on_local_ice_gathering_changed :: "nat \<Rightarrow> int \<Rightarrow> rtc_peer \<Rightarrow> rtc_effect list" where
  "on_local_ice_gathering_changed i n = rtc_tell i eLuaWebrtcCallbackType_OnIceGatheringChange (Number_Value n)"

definition on_local_ice_connection_changed :: "nat \<Rightarrow> int \<Rightarrow> rtc_peer \<Rightarrow> rtc_effect list" where
  "on_local_ice_connection_changed i n = rtc_tell i eLuaWebrtcCallbackType_OnIceConnectionChange (Number_Value n)"

definition on_media_ready :: "nat \<Rightarrow> rtc_peer \<Rightarrow> rtc_effect list" where
  "on_media_ready i = rtc_tell i eLuaWebrtcCallbackType_OnMediaReady No_Value"

fun run_rtc_handler :: "nat \<Rightarrow> rtc_handler \<Rightarrow> rtc_peer \<Rightarrow> rtc_effect list" where
  "run_rtc_handler i (On_Get_Sdp jsep) p = on_get_sdp i jsep p"
| "run_rtc_handler i (On_Local_Ice_Candidate candidate) p = on_local_ice_candidate i candidate p"
| "run_rtc_handler i (On_Local_Ice_Gathering_Changed n) p = on_local_ice_gathering_changed i n p"
| "run_rtc_handler i (On_Local_Ice_Connection_Changed n) p = on_local_ice_connection_changed i n p"
| "run_rtc_handler i On_Media_Ready p = on_media_ready i p"

end
