(* ===== verification/Bee_Webrtc_Module.thy ===== *)
theory Bee_Webrtc_Module
  imports Bee_Webrtc
begin

text \<open>
  The module \<open>webrtc\<close> of scripts (src/lua/module/lua_webrtc_module.cpp): its functions, and the runs of scripts,
  the event loop and libwebrtc. A callback's own calls are calls of the script after the callback, since nothing of
  a handler is left to do then but taking the coroutine off the stack.
\<close>

section \<open>The module\<close>

text \<open>Peer connections, tracks and log sinks are numbered. \<open>rm_registered\<close> are the log sinks libwebrtc holds.\<close>

record rtc_module =
  rm_objs :: "nat lua_objs"
  rm_peers :: "nat \<Rightarrow> rtc_peer"
  rm_count :: nat
  rm_tracks :: nat
  rm_statics :: rtc_statics
  rm_service :: bool
  rm_session_id :: int
  rm_ios :: bool
  rm_main :: bool
  rm_log_sink :: "nat option"
  rm_log_sinks :: nat
  rm_registered :: "nat list"
  rm_posted :: "(nat \<times> rtc_handler) list"

text \<open>
  What a function finds: the script's session with its id and whether it has an event loop, the numbers \<open>luaL_ref\<close>
  gives, what \<open>lua_tonumber\<close> makes of a text, and the bounds of log levels.
\<close>

record rtc_caller =
  rc_session :: "(int \<times> bool) option"
  rc_reference :: "lua_arg \<Rightarrow> int"
  rc_to_number :: "string \<Rightarrow> int option"
  rc_ls_sensitive :: int
  rc_ls_none :: int

type_synonym rtc_answer = "int lua_result \<times> rtc_effect list \<times> rtc_module"

definition LuaWebrtcModule_new :: "rtc_statics \<Rightarrow> u32 \<Rightarrow> bool \<Rightarrow> rtc_module" where
  "LuaWebrtcModule_new st n main = \<lparr>rm_objs = LuaObjMgr_new n, rm_peers = (\<lambda>_. LuaRtcPeerConnection_new False False False),
     rm_count = 0, rm_tracks = 0, rm_statics = st, rm_service = True, rm_session_id = 0, rm_ios = False, rm_main = main,
     rm_log_sink = None, rm_log_sinks = 0, rm_registered = [], rm_posted = []\<rparr>"

definition rtc_raise :: "string \<Rightarrow> rtc_module \<Rightarrow> rtc_answer" where
  "rtc_raise text m = (Raises text, [], m)"

definition put_peer :: "nat \<Rightarrow> rtc_peer \<Rightarrow> rtc_module \<Rightarrow> rtc_module" where
  "put_peer i p m = m\<lparr>rm_peers := (rm_peers m)(i := p)\<rparr>"

definition with_peer :: "int \<Rightarrow> rtc_module \<Rightarrow> (nat \<Rightarrow> rtc_answer) \<Rightarrow> rtc_answer" where
  "with_peer n m f =
     (case get_obj (handle_of n) (rm_objs m) of
        None \<Rightarrow> rtc_raise ''Can't find peerconnection from handle'' m
      | Some i \<Rightarrow> f i)"

definition answer_peer :: "nat \<Rightarrow> string \<Rightarrow> BeeErrorCode \<times> rtc_effect list \<times> rtc_peer \<Rightarrow> rtc_module \<Rightarrow> rtc_answer" where
  "answer_peer i text r m =
     (case r of (ret, es, p) \<Rightarrow> (if ret = kBeeErrorCode_Success then Returns [] else Raises text, es, put_peer i p m))"

definition rtc_not_running :: string where "rtc_not_running = ''Webrtc service not running.''"
definition rtc_invalid_args :: string where "rtc_invalid_args = ''Invalid args.''"
definition rtc_wrong_type :: string where "rtc_wrong_type = ''Wrong param data type.''"

fun lua_number :: "rtc_caller \<Rightarrow> lua_arg \<Rightarrow> int option" where
  "lua_number c (Arg_Integer n) = Some n"
| "lua_number c (Arg_Text t) = rc_to_number c t"
| "lua_number c _ = None"

section \<open>Opening\<close>

text \<open>The order of the enumeration, and the array of callbacks as its initialiser leaves it.\<close>

definition rtc_callback_types :: "LuaWebrtcCallbackType list" where
  "rtc_callback_types = [eLuaWebrtcCallbackType_OnIceCandidate, eLuaWebrtcCallbackType_OnIceGatheringChange,
     eLuaWebrtcCallbackType_OnIceConnectionChange, eLuaWebrtcCallbackType_OnMediaReady, eLuaWebrtcCallbackType_OnVideoFrame,
     eLuaWebrtcCallbackType_OnSdp]"

definition initial_callbacks :: "LuaWebrtcCallbackType \<Rightarrow> int" where
  "initial_callbacks = (\<lambda>_. 0)(eLuaWebrtcCallbackType_OnIceCandidate := LUA_REFNIL)"

definition callback_key :: "string \<Rightarrow> LuaWebrtcCallbackType option" where
  "callback_key key =
     (if key = ''on_ice_candidate'' then Some eLuaWebrtcCallbackType_OnIceCandidate
      else if key = ''on_ice_gathering_change'' then Some eLuaWebrtcCallbackType_OnIceGatheringChange
      else if key = ''on_ice_connection_change'' then Some eLuaWebrtcCallbackType_OnIceConnectionChange
      else if key = ''on_media_ready'' then Some eLuaWebrtcCallbackType_OnMediaReady
      else if key = ''on_video_frame'' then Some eLuaWebrtcCallbackType_OnVideoFrame
      else None)"

text \<open>The table of callbacks in the order of \<open>lua_next\<close>; \<open>None\<close> for a key that is a number, which is changed.\<close>

fun read_callbacks ::
    "(lua_arg \<Rightarrow> int) \<Rightarrow> (lua_arg \<times> lua_arg) list \<Rightarrow> (LuaWebrtcCallbackType \<Rightarrow> int) \<Rightarrow> (LuaWebrtcCallbackType \<Rightarrow> int) option" where
  "read_callbacks reference [] cbs = Some cbs"
| "read_callbacks reference ((k, v) # kvs) cbs =
     (case k of
        Arg_Integer _ \<Rightarrow> None
      | Arg_Text key \<Rightarrow>
          (let callback = reference v
           in if callback = LUA_REFNIL then read_callbacks reference kvs cbs
              else case callback_key (c_text key) of
                None \<Rightarrow> read_callbacks reference kvs cbs
              | Some type \<Rightarrow> read_callbacks reference kvs (cbs(type := callback)))
      | _ \<Rightarrow> read_callbacks reference kvs cbs)"

text \<open>The callbacks are handed over up to the first that is \<open>LUA_REFNIL\<close>.\<close>

definition hand_over_callbacks :: "(LuaWebrtcCallbackType \<Rightarrow> int) \<Rightarrow> rtc_peer \<Rightarrow> rtc_peer" where
  "hand_over_callbacks cbs p =
     fold (\<lambda>type. set_rtc_callback type (cbs type)) (takeWhile (\<lambda>type. cbs type \<noteq> LUA_REFNIL) rtc_callback_types) p"

definition rtc_open_peer :: "rtc_library \<Rightarrow> string \<Rightarrow> (LuaWebrtcCallbackType \<Rightarrow> int) \<Rightarrow> rtc_module \<Rightarrow> rtc_answer" where
  "rtc_open_peer lib stun_uri cbs m =
     (let p = LuaRtcPeerConnection_new (rm_ios m) (rm_service m) (rm_main m)
      in if \<not> rs_signaling (rm_statics m) then rtc_raise ''Signaling thread not started.'' m
         else
           (let (ec, es, p1) = create_webrtc_peer_connection lib (rm_statics m) stun_uri p
            in if ec \<noteq> kBeeErrorCode_Success then (Raises ''Create peerconnection fail'', es, m)
               else
                 (let (handle, objs) = new_lua_obj (Some (rm_count m)) (rm_objs m)
                  in (Returns [uint handle], es,
                      put_peer (rm_count m) (hand_over_callbacks cbs p1) (m\<lparr>rm_objs := objs, rm_count := rm_count m + 1\<rparr>)))))"

definition rtc_lua_open :: "rtc_library \<Rightarrow> rtc_caller \<Rightarrow> lua_arg list \<Rightarrow> rtc_module \<Rightarrow> rtc_answer option" where
  "rtc_lua_open lib c args m =
     (case args of
        [stun, table] \<Rightarrow>
          if \<not> rm_service m then Some (rtc_raise rtc_not_running m)
          else (case (lua_text stun, table) of
            (Some stun_uri, Arg_Table entries) \<Rightarrow>
              do {
                cbs \<leftarrow> read_callbacks (rc_reference c) entries initial_callbacks;
                Some (if rm_ios m then rtc_open_peer lib stun_uri cbs m
                      else case rc_session c of
                        None \<Rightarrow> rtc_raise ''No session in table.'' m
                      | Some (sid, ios) \<Rightarrow>
                          (let m1 = m\<lparr>rm_session_id := sid, rm_ios := ios\<rparr>
                           in if \<not> ios then rtc_raise ''Webrtc ios not set.'' m1 else rtc_open_peer lib stun_uri cbs m1))
              }
          | _ \<Rightarrow> Some (rtc_raise rtc_wrong_type m))
      | _ \<Rightarrow> Some (rtc_raise rtc_invalid_args m))"

section \<open>The other functions\<close>

definition rtc_lua_close :: "lua_arg list \<Rightarrow> rtc_module \<Rightarrow> rtc_answer" where
  "rtc_lua_close args m =
     (case args of
        [arg] \<Rightarrow>
          if \<not> rm_service m then rtc_raise rtc_not_running m
          else (case arg of
            Arg_Integer n \<Rightarrow>
              (let (obj, objs) = delete_lua_obj (handle_of n) (rm_objs m); m1 = m\<lparr>rm_objs := objs\<rparr>
               in case obj of
                    None \<Rightarrow> rtc_raise ''Can't find peerconnection from handle'' m1
                  | Some i \<Rightarrow>
                      (let (ret, es, p) = rtc_close (rm_statics m) (rm_peers m i) in (Returns [], es, put_peer i p m1)))
          | _ \<Rightarrow> rtc_raise rtc_wrong_type m)
      | _ \<Rightarrow> rtc_raise rtc_invalid_args m)"

definition rtc_lua_create_offer :: "rtc_library \<Rightarrow> rtc_caller \<Rightarrow> lua_arg list \<Rightarrow> rtc_module \<Rightarrow> rtc_answer option" where
  "rtc_lua_create_offer lib c args m =
     (case args of
        [h, a, v, cb] \<Rightarrow>
          if \<not> rm_service m then Some (rtc_raise rtc_not_running m)
          else (case (h, lua_number c a, lua_number c v) of
            (Arg_Integer n, Some audio_source, Some video_source) \<Rightarrow>
              (case get_obj (handle_of n) (rm_objs m) of
                 None \<Rightarrow> Some (rtc_raise ''Can't find peerconnection from handle'' m)
               | Some i \<Rightarrow>
                   if rc_reference c cb = LUA_REFNIL then Some (rtc_raise ''create_offer callback null.'' m)
                   else do {
                     (ret, es, hs, p) \<leftarrow> create_offer lib (rm_statics m) (rm_tracks m) audio_source video_source
                       (rc_reference c cb) (rm_peers m i);
                     Some (answer_peer i ''Inner create_offer fail'' (ret, es, p)
                       (m\<lparr>rm_tracks := rm_tracks m + 1, rm_posted := rm_posted m @ map (Pair i) hs\<rparr>))
                   })
          | _ \<Rightarrow> Some (rtc_raise rtc_wrong_type m))
      | _ \<Rightarrow> Some (rtc_raise rtc_invalid_args m))"

definition rtc_lua_create_answer :: "rtc_library \<Rightarrow> rtc_caller \<Rightarrow> lua_arg list \<Rightarrow> rtc_module \<Rightarrow> rtc_answer" where
  "rtc_lua_create_answer lib c args m =
     (case args of
        [h, j, cb] \<Rightarrow>
          if \<not> rm_service m then rtc_raise rtc_not_running m
          else (case (h, lua_text j) of
            (Arg_Integer n, Some jsep) \<Rightarrow>
              with_peer n m (\<lambda>i.
                if rc_reference c cb = LUA_REFNIL then rtc_raise ''create_answer callback null.'' m
                else answer_peer i ''Inner create_answer fail''
                       (create_answer lib (rm_statics m) jsep (rc_reference c cb) (rm_peers m i)) m)
          | _ \<Rightarrow> rtc_raise rtc_wrong_type m)
      | _ \<Rightarrow> rtc_raise rtc_invalid_args m)"

definition rtc_lua_set_remote_dec :: "rtc_library \<Rightarrow> lua_arg list \<Rightarrow> rtc_module \<Rightarrow> rtc_answer" where
  "rtc_lua_set_remote_dec lib args m =
     (case args of
        [h, j] \<Rightarrow>
          if \<not> rm_service m then rtc_raise rtc_not_running m
          else (case (h, lua_text j) of
            (Arg_Integer n, Some jsep) \<Rightarrow>
              with_peer n m (\<lambda>i. answer_peer i ''Inner set_remote_desc fail'' (set_remote_desc lib (rm_statics m) jsep (rm_peers m i)) m)
          | _ \<Rightarrow> rtc_raise rtc_wrong_type m)
      | _ \<Rightarrow> rtc_raise rtc_invalid_args m)"

definition rtc_lua_start_video_renderer :: "rtc_caller \<Rightarrow> lua_arg list \<Rightarrow> rtc_module \<Rightarrow> rtc_answer" where
  "rtc_lua_start_video_renderer c args m =
     (case args of
        [h, r] \<Rightarrow>
          if \<not> rm_service m then rtc_raise rtc_not_running m
          else (case (h, lua_number c r) of
            (Arg_Integer n, Some renderer) \<Rightarrow>
              with_peer n m (\<lambda>i.
                if renderer = 0 then rtc_raise ''StartVideoRender video renderer null.'' m
                else answer_peer i ''Inner StartVideoRender fail'' (start_video_render renderer (rm_peers m i)) m)
          | _ \<Rightarrow> rtc_raise rtc_wrong_type m)
      | _ \<Rightarrow> rtc_raise rtc_invalid_args m)"

definition rtc_lua_stop_video_renderer :: "lua_arg list \<Rightarrow> rtc_module \<Rightarrow> rtc_answer" where
  "rtc_lua_stop_video_renderer args m =
     (case args of
        [h] \<Rightarrow>
          if \<not> rm_service m then rtc_raise rtc_not_running m
          else (case h of
            Arg_Integer n \<Rightarrow> with_peer n m (\<lambda>i. answer_peer i ''Inner StopVideoRender fail'' (stop_video_render (rm_peers m i)) m)
          | _ \<Rightarrow> rtc_raise rtc_wrong_type m)
      | _ \<Rightarrow> rtc_raise rtc_invalid_args m)"

text \<open>A new log sink takes the place of the old one, which libwebrtc goes on holding.\<close>

definition rtc_lua_enable_tracing :: "rtc_caller \<Rightarrow> lua_arg list \<Rightarrow> rtc_module \<Rightarrow> rtc_answer" where
  "rtc_lua_enable_tracing c args m =
     (case args of
        [arg] \<Rightarrow>
          if \<not> rm_service m then rtc_raise rtc_not_running m
          else (case arg of
            Arg_Integer n \<Rightarrow>
              (if int32_of n \<le> rc_ls_none c \<and> rc_ls_sensitive c \<le> int32_of n
               then (Returns [], [], m\<lparr>rm_log_sink := Some (rm_log_sinks m), rm_log_sinks := rm_log_sinks m + 1,
                       rm_registered := rm_registered m @ [rm_log_sinks m]\<rparr>)
               else (Returns [], [], m))
          | _ \<Rightarrow> rtc_raise rtc_wrong_type m)
      | _ \<Rightarrow> rtc_raise rtc_invalid_args m)"

text \<open>Without an observer one that logs is made.\<close>

definition rtc_lua_get_stats :: "rtc_library \<Rightarrow> rtc_caller \<Rightarrow> int \<Rightarrow> lua_arg list \<Rightarrow> rtc_module \<Rightarrow> rtc_answer" where
  "rtc_lua_get_stats lib c new_observer args m =
     (case args of
        [h, ob] \<Rightarrow>
          if \<not> rm_service m then rtc_raise rtc_not_running m
          else (case (h, lua_number c ob) of
            (Arg_Integer n, Some observer) \<Rightarrow>
              with_peer n m (\<lambda>i. answer_peer i ''Inner GetStats fail''
                (get_stats lib (rm_statics m) (if observer = 0 then new_observer else observer) (rm_peers m i)) m)
          | _ \<Rightarrow> rtc_raise rtc_wrong_type m)
      | _ \<Rightarrow> rtc_raise rtc_invalid_args m)"

text \<open>A number that is no \<open>int32_t\<close> cannot be converted: \<open>None\<close>.\<close>

definition as_int32 :: "int \<Rightarrow> int option" where
  "as_int32 n = (if - (2 ^ 31) \<le> n \<and> n < 2 ^ 31 then Some n else None)"

definition rtc_lua_set_video_source :: "rtc_caller \<Rightarrow> lua_arg list \<Rightarrow> rtc_module \<Rightarrow> rtc_answer option" where
  "rtc_lua_set_video_source c args m =
     (case args of
        [h, internal, w, ht, f, ci, screencast] \<Rightarrow>
          if \<not> rm_service m then Some (rtc_raise rtc_not_running m)
          else (case (h, internal, screencast, lua_number c w, lua_number c ht, lua_number c f, lua_number c ci) of
            (Arg_Integer n, Arg_Boolean b, Arg_Boolean sc, Some width, Some height, Some fps, Some index) \<Rightarrow>
              (case get_obj (handle_of n) (rm_objs m) of
                 None \<Rightarrow> Some (rtc_raise ''Can't find peerconnection from handle'' m)
               | Some i \<Rightarrow>
                   do {
                     height32 \<leftarrow> as_int32 height;
                     fps32 \<leftarrow> as_int32 fps;
                     index32 \<leftarrow> as_int32 index;
                     Some (answer_peer i ''Inner set video source fail''
                       (set_video_source (rm_statics m) b (int32_of width) height32 fps32 index32 sc (rm_peers m i)) m)
                   })
          | _ \<Rightarrow> Some (rtc_raise rtc_wrong_type m))
      | _ \<Rightarrow> Some (rtc_raise rtc_invalid_args m))"

definition rtc_lua_set_audio_source :: "lua_arg list \<Rightarrow> rtc_module \<Rightarrow> rtc_answer" where
  "rtc_lua_set_audio_source args m =
     (case args of
        [h, no_processing, level_control] \<Rightarrow>
          if \<not> rm_service m then rtc_raise rtc_not_running m
          else (case (h, no_processing, level_control) of
            (Arg_Integer n, Arg_Boolean b, Arg_Boolean lc) \<Rightarrow>
              with_peer n m (\<lambda>i. answer_peer i ''Inner set audio source fail'' (set_audio_source (rm_statics m) b lc (rm_peers m i)) m)
          | _ \<Rightarrow> rtc_raise rtc_wrong_type m)
      | _ \<Rightarrow> rtc_raise rtc_invalid_args m)"

definition rtc_lua_get_audio_input_level :: "rtc_library \<Rightarrow> lua_arg list \<Rightarrow> rtc_module \<Rightarrow> rtc_answer" where
  "rtc_lua_get_audio_input_level lib args m =
     (case args of
        [h] \<Rightarrow>
          if \<not> rm_service m then rtc_raise rtc_not_running m
          else (case h of
            Arg_Integer n \<Rightarrow> with_peer n m (\<lambda>i. (Returns [get_audio_input_level lib (rm_statics m) (rm_peers m i)], [], m))
          | _ \<Rightarrow> rtc_raise rtc_wrong_type m)
      | _ \<Rightarrow> rtc_raise rtc_invalid_args m)"

definition rtc_lua_get_audio_output_level :: "rtc_library \<Rightarrow> lua_arg list \<Rightarrow> rtc_module \<Rightarrow> rtc_answer" where
  "rtc_lua_get_audio_output_level lib args m =
     (case args of
        [h] \<Rightarrow>
          if \<not> rm_service m then rtc_raise rtc_not_running m
          else (case h of
            Arg_Integer n \<Rightarrow> with_peer n m (\<lambda>i. (Returns [get_audio_output_level lib (rm_statics m) (rm_peers m i)], [], m))
          | _ \<Rightarrow> rtc_raise rtc_wrong_type m)
      | _ \<Rightarrow> rtc_raise rtc_invalid_args m)"

text \<open>The module's end, for the handles in the order of the table.\<close>

fun close_peers :: "u32 list \<Rightarrow> rtc_module \<Rightarrow> rtc_effect list \<times> rtc_module" where
  "close_peers [] m = ([], m)"
| "close_peers (h # hs) m =
     (case get_obj h (rm_objs m) of
        None \<Rightarrow> close_peers hs m
      | Some i \<Rightarrow>
          (let (ret, es, p) = rtc_close (rm_statics m) (rm_peers m i); (es', m') = close_peers hs (put_peer i p m) in (es @ es', m')))"

definition rtc_on_close_module :: "u32 list \<Rightarrow> rtc_module \<Rightarrow> rtc_effect list \<times> rtc_module" where
  "rtc_on_close_module handles m =
     (let (es, m1) = close_peers handles m
      in (es, if rm_service m1
              then m1\<lparr>rm_registered := (case rm_log_sink m1 of None \<Rightarrow> rm_registered m1 | Some k \<Rightarrow> removeAll k (rm_registered m1)),
                     rm_service := False\<rparr>
              else m1))"

text \<open>The functions by the names \<open>lua_open_module\<close> registers.\<close>

definition rtc_module_call ::
    "rtc_library \<Rightarrow> rtc_caller \<Rightarrow> int \<Rightarrow> string \<Rightarrow> lua_arg list \<Rightarrow> rtc_module \<Rightarrow> rtc_answer option" where
  "rtc_module_call lib c new_observer name args m =
     (if name = ''open'' then rtc_lua_open lib c args m
      else if name = ''close'' then Some (rtc_lua_close args m)
      else if name = ''create_offer'' then rtc_lua_create_offer lib c args m
      else if name = ''create_answer'' then Some (rtc_lua_create_answer lib c args m)
      else if name = ''set_remote_desc'' then Some (rtc_lua_set_remote_dec lib args m)
      else if name = ''start_video_renderer'' then Some (rtc_lua_start_video_renderer c args m)
      else if name = ''stop_video_renderer'' then Some (rtc_lua_stop_video_renderer args m)
      else if name = ''enable_tracing'' then Some (rtc_lua_enable_tracing c args m)
      else if name = ''get_stats'' then Some (rtc_lua_get_stats lib c new_observer args m)
      else if name = ''set_video_source'' then rtc_lua_set_video_source c args m
      else if name = ''set_audio_source'' then Some (rtc_lua_set_audio_source args m)
      else if name = ''get_audio_input_level'' then Some (rtc_lua_get_audio_input_level lib args m)
      else if name = ''get_audio_output_level'' then Some (rtc_lua_get_audio_output_level lib args m)
      else Some (rtc_raise ''attempt to call a nil value'' m))"

section \<open>Runs\<close>

datatype rtc_label =
    Script_Function rtc_library rtc_caller int string "lua_arg list"
  | Library_Event rtc_library nat rtc_event
  | Loop_Runs
  | Module_Closes "u32 list"

fun rtc_act :: "rtc_label \<Rightarrow> rtc_module \<Rightarrow> (rtc_effect list \<times> rtc_module) option" where
  "rtc_act (Script_Function lib c new_observer name args) m =
     do { (r, es, m') \<leftarrow> rtc_module_call lib c new_observer name args m; Some (es, m') }"
| "rtc_act (Library_Event lib i ev) m =
     (if rm_count m \<le> i then None
      else do {
        (es, hs, p) \<leftarrow> rtc_on_event lib ev (rm_peers m i);
        Some (es, put_peer i p (m\<lparr>rm_posted := rm_posted m @ map (Pair i) hs\<rparr>))
      })"
| "rtc_act Loop_Runs m =
     (case rm_posted m of
        [] \<Rightarrow> None
      | (i, h) # rest \<Rightarrow> Some (run_rtc_handler i h (rm_peers m i), m\<lparr>rm_posted := rest\<rparr>))"
| "rtc_act (Module_Closes handles) m = Some (rtc_on_close_module handles m)"

inductive rtc_runs :: "rtc_module \<Rightarrow> rtc_label list \<Rightarrow> rtc_effect list \<Rightarrow> rtc_module \<Rightarrow> bool" where
  rtc_start: "rtc_runs m [] [] m"
| rtc_step: "rtc_runs m ls es m' \<Longrightarrow> rtc_act l m' = Some (es', m'') \<Longrightarrow> rtc_runs m (ls @ [l]) (es @ es') m''"

end
