(* ===== verification/Bee_Webrtc_Run.thy ===== *)
theory Bee_Webrtc_Run
  imports Bee_Webrtc_Module
begin

text \<open>
  What scripts are told of their peer connections: everything that libwebrtc reports, in order, until they are
  closed and nothing from then on; and what becomes of callbacks that a script leaves out.
\<close>

section \<open>What calls keep\<close>

definition tells_peer :: "nat \<Rightarrow> rtc_effect \<Rightarrow> bool" where
  "tells_peer i e = (case e of Rtc_Callback j _ _ _ \<Rightarrow> j = i | _ \<Rightarrow> False)"

definition silent_effects :: "rtc_effect list \<Rightarrow> bool" where
  "silent_effects es \<longleftrightarrow> (\<forall>e \<in> set es. \<forall>i. \<not> tells_peer i e)"

lemma silent_simps [simp]:
  "silent_effects []" "silent_effects (e # es) \<longleftrightarrow> (\<forall>i. \<not> tells_peer i e) \<and> silent_effects es"
  "silent_effects (es @ es') \<longleftrightarrow> silent_effects es \<and> silent_effects es'"
  by (auto simp: silent_effects_def)

lemma tells_simps_rtc [simp]:
  "tells_peer i (Rtc_Callback j type cb v) \<longleftrightarrow> j = i" "\<not> tells_peer i (Create_Peer_Connection s)" "\<not> tells_peer i (Add_Stream a v')"
  "\<not> tells_peer i Create_Offer" "\<not> tells_peer i Create_Answer" "\<not> tells_peer i (Set_Remote_Description t d)" "\<not> tells_peer i Set_Local_Description"
  "\<not> tells_peer i Close_Peer_Connection" "\<not> tells_peer i Ask_Stats" "\<not> tells_peer i (Add_Sink k)" "\<not> tells_peer i (Remove_Sink k)"
  "\<not> tells_peer i (Deliver_Frame r f)"
  by (simp_all add: tells_peer_def)

text \<open>
  A peer connection stays the script's: callbacks are kept, but that for descriptions when one is asked for
  (\<open>asks\<close>), and closed is closed.
\<close>

definition peer_kept :: "bool \<Rightarrow> rtc_peer \<Rightarrow> rtc_peer \<Rightarrow> bool" where
  "peer_kept asks p p' \<longleftrightarrow> rp_ios p' = rp_ios p \<and> rp_main p' = rp_main p \<and> (rp_closed p \<longrightarrow> rp_closed p')
     \<and> (\<forall>type. type \<noteq> eLuaWebrtcCallbackType_OnSdp \<or> \<not> asks \<longrightarrow> rp_callbacks p' type = rp_callbacks p type)"

lemma peer_kept_refl [simp]: "peer_kept asks p p"
  by (simp add: peer_kept_def)

lemma peer_kept_trans: "peer_kept asks p p' \<Longrightarrow> peer_kept asks p' p'' \<Longrightarrow> peer_kept asks p p''"
  by (auto simp: peer_kept_def)

lemma peer_kept_asks: "peer_kept False p p' \<Longrightarrow> peer_kept asks p p'"
  by (simp add: peer_kept_def)

text \<open>What calls may post: that media are ready, and what came of an offer that was asked for.\<close>

definition call_posts :: "bool \<Rightarrow> rtc_handler \<Rightarrow> bool" where
  "call_posts asks h \<longleftrightarrow> h = On_Media_Ready \<or> asks \<and> (\<exists>jsep. h = On_Get_Sdp jsep)"

lemma call_posts_simps [simp]: "call_posts asks On_Media_Ready" "call_posts True (On_Get_Sdp jsep)"
  by (simp_all add: call_posts_def)

lemma calls_keep_peer:
  "create_offer lib st tr a v cb p = Some (ret, es, hs, p') \<Longrightarrow> peer_kept True p p' \<and> silent_effects es \<and> (\<forall>h \<in> set hs. call_posts True h)"
  "create_answer lib st jsep cb p = (ret, es, p') \<Longrightarrow> peer_kept True p p' \<and> silent_effects es"
  "set_remote_desc lib st jsep p = (ret, es, p') \<Longrightarrow> peer_kept False p p' \<and> silent_effects es"
  "rtc_close st p = (ret, es, p') \<Longrightarrow> peer_kept False p p' \<and> silent_effects es \<and> rp_closed p'"
  "start_video_render r p = (ret, es, p') \<Longrightarrow> peer_kept False p p' \<and> silent_effects es"
  "stop_video_render p = (ret, es, p') \<Longrightarrow> peer_kept False p p' \<and> silent_effects es"
  "get_stats lib st ob p = (ret, es, p') \<Longrightarrow> peer_kept False p p' \<and> silent_effects es"
  "set_video_source st b w h f ci sc p = (ret, es, p') \<Longrightarrow> peer_kept False p p' \<and> silent_effects es"
  "set_audio_source st b lc p = (ret, es, p') \<Longrightarrow> peer_kept False p p' \<and> silent_effects es"
  subgoal
    by (auto simp: create_offer_def invoke_def inner_create_offer_def set_rtc_callback_def peer_kept_def early_offer_def on_success_def
      on_failure_def post_if_def Let_def split: if_splits bind_splits rtc_early.splits)
  subgoal
    by (auto simp: create_answer_def invoke_def inner_create_answer_def inner_set_remote_desc_def set_rtc_callback_def peer_kept_def Let_def
      split: if_splits option.splits prod.splits)
  subgoal by (auto simp: set_remote_desc_def invoke_def inner_set_remote_desc_def split: if_splits option.splits prod.splits)
  subgoal by (auto simp: rtc_close_def invoke_def inner_close_def drop_sink_def peer_kept_def split: if_splits option.splits prod.splits)
  subgoal by (auto simp: start_video_render_def peer_kept_def split: option.splits)
  subgoal by (auto simp: stop_video_render_def peer_kept_def split: option.splits)
  subgoal by (auto simp: get_stats_def invoke_def inner_get_stats_def split: if_splits)
  subgoal by (auto simp: set_video_source_def invoke_def inner_set_video_source_def peer_kept_def split: if_splits)
  subgoal by (auto simp: set_audio_source_def invoke_def inner_set_audio_source_def peer_kept_def split: if_splits)
  done

text \<open>What a call of a script, or the end of the module, does to the rest.\<close>

definition quiet_step :: "bool \<Rightarrow> rtc_module \<Rightarrow> rtc_effect list \<Rightarrow> rtc_module \<Rightarrow> bool" where
  "quiet_step asks m es m' \<longleftrightarrow> silent_effects es \<and> rm_count m \<le> rm_count m'
     \<and> (\<forall>i < rm_count m. peer_kept asks (rm_peers m i) (rm_peers m' i))
     \<and> (\<exists>hs. rm_posted m' = rm_posted m @ hs \<and> (\<forall>h \<in> set hs. call_posts asks (snd h)))"

lemma quiet_same [simp]: "quiet_step asks m [] m"
  by (simp add: quiet_step_def)

lemma quiet_asks: "quiet_step False m es m' \<Longrightarrow> quiet_step asks m es m'"
  by (fastforce simp: quiet_step_def peer_kept_def call_posts_def)

lemma quiet_raise: "rtc_raise text m = (r, es, m') \<Longrightarrow> quiet_step asks m es m'"
  by (auto simp: rtc_raise_def)

lemma quiet_with: "with_peer n m f = (r, es, m') \<Longrightarrow> (\<And>i. f i = (r, es, m') \<Longrightarrow> quiet_step asks m es m') \<Longrightarrow> quiet_step asks m es m'"
  by (auto simp: with_peer_def intro: quiet_raise split: option.splits)

lemma quiet_answer:
  assumes "answer_peer i text r m = (r', es, m')" and "\<And>ret es' p. r = (ret, es', p) \<Longrightarrow> peer_kept asks (rm_peers m i) p \<and> silent_effects es'"
  shows "quiet_step asks m es m'"
  using assms by (cases r) (auto simp: answer_peer_def put_peer_def quiet_step_def)

lemma quiet_answer_posted:
  assumes "answer_peer i text (ret, es', p) (m\<lparr>rm_tracks := n, rm_posted := rm_posted m @ map (Pair i) hs\<rparr>) = (r', es, m')"
    and "peer_kept asks (rm_peers m i) p" and "silent_effects es'" and "\<forall>h \<in> set hs. call_posts asks h"
  shows "quiet_step asks m es m'"
  using assms by (auto simp: answer_peer_def put_peer_def quiet_step_def)

lemma quiet_open_peer: "rtc_open_peer lib uri cbs m = (r, es, m') \<Longrightarrow> quiet_step asks m es m'"
  by (auto simp: rtc_open_peer_def create_webrtc_peer_connection_def put_peer_def quiet_step_def rtc_raise_def Let_def
    split: if_splits prod.splits)

lemma quiet_open: "rtc_lua_open lib c args m = Some (r, es, m') \<Longrightarrow> quiet_step asks m es m'"
proof -
  have ios: "quiet_step asks (m\<lparr>rm_session_id := s, rm_ios := b\<rparr>) es m' = quiet_step asks m es m'" for asks s b es m'
    by (simp add: quiet_step_def)
  note quiet = quiet_raise [of _ "m\<lparr>rm_session_id := s, rm_ios := b\<rparr>" for s b, unfolded ios]
    quiet_open_peer [of _ _ _ "m\<lparr>rm_session_id := s, rm_ios := b\<rparr>" for s b, unfolded ios]
  assume "rtc_lua_open lib c args m = Some (r, es, m')"
  then show ?thesis
    by (auto simp: rtc_lua_open_def Let_def intro: quiet_raise quiet_open_peer split: list.splits lua_arg.splits option.splits
      if_splits bind_splits) (erule quiet)+
qed

lemma quiet_close: "rtc_lua_close args m = (r, es, m') \<Longrightarrow> quiet_step asks m es m'"
  by (auto simp: rtc_lua_close_def delete_lua_obj_def put_peer_def quiet_step_def rtc_raise_def Let_def dest!: calls_keep_peer(4) intro: peer_kept_asks
    split: list.splits lua_arg.splits option.splits if_splits prod.splits)

lemma quiet_functions:
  "rtc_lua_create_offer lib c args m = Some (r, es, m') \<Longrightarrow> quiet_step True m es m'"
  "rtc_lua_create_answer lib c args m = (r, es, m') \<Longrightarrow> quiet_step True m es m'"
  "rtc_lua_set_remote_dec lib args m = (r, es, m') \<Longrightarrow> quiet_step False m es m'"
  "rtc_lua_start_video_renderer c args m = (r, es, m') \<Longrightarrow> quiet_step False m es m'"
  "rtc_lua_stop_video_renderer args m = (r, es, m') \<Longrightarrow> quiet_step False m es m'"
  "rtc_lua_enable_tracing c args m = (r, es, m') \<Longrightarrow> quiet_step False m es m'"
  "rtc_lua_get_stats lib c ob args m = (r, es, m') \<Longrightarrow> quiet_step False m es m'"
  "rtc_lua_set_video_source c args m = Some (r, es, m') \<Longrightarrow> quiet_step False m es m'"
  "rtc_lua_set_audio_source args m = (r, es, m') \<Longrightarrow> quiet_step False m es m'"
  "rtc_lua_get_audio_input_level lib args m = (r, es, m') \<Longrightarrow> quiet_step False m es m'"
  "rtc_lua_get_audio_output_level lib args m = (r, es, m') \<Longrightarrow> quiet_step False m es m'"
  subgoal
    by (auto simp: rtc_lua_create_offer_def intro: quiet_raise elim!: quiet_with quiet_answer_posted dest!: calls_keep_peer(1)
      split: list.splits lua_arg.splits option.splits if_splits bind_splits)
  subgoal
    by (auto simp: rtc_lua_create_answer_def intro: quiet_raise elim!: quiet_with quiet_answer dest!: calls_keep_peer
      split: list.splits lua_arg.splits option.splits if_splits)
  subgoal
    by (auto simp: rtc_lua_set_remote_dec_def intro: quiet_raise elim!: quiet_with quiet_answer dest!: calls_keep_peer
      split: list.splits lua_arg.splits option.splits if_splits)
  subgoal
    by (auto simp: rtc_lua_start_video_renderer_def intro: quiet_raise elim!: quiet_with quiet_answer dest!: calls_keep_peer
      split: list.splits lua_arg.splits option.splits if_splits)
  subgoal
    by (auto simp: rtc_lua_stop_video_renderer_def intro: quiet_raise elim!: quiet_with quiet_answer dest!: calls_keep_peer
      split: list.splits lua_arg.splits option.splits if_splits)
  subgoal
    by (auto simp: rtc_lua_enable_tracing_def quiet_step_def rtc_raise_def split: list.splits lua_arg.splits option.splits if_splits)
  subgoal
    by (auto simp: rtc_lua_get_stats_def intro: quiet_raise elim!: quiet_with quiet_answer dest!: calls_keep_peer
      split: list.splits lua_arg.splits option.splits if_splits)
  subgoal
    by (auto simp: rtc_lua_set_video_source_def intro: quiet_raise elim!: quiet_answer dest!: calls_keep_peer
      split: list.splits lua_arg.splits option.splits if_splits bind_splits)
  subgoal
    by (auto simp: rtc_lua_set_audio_source_def intro: quiet_raise elim!: quiet_with quiet_answer dest!: calls_keep_peer
      split: list.splits lua_arg.splits option.splits if_splits)
  subgoal
    by (auto simp: rtc_lua_get_audio_input_level_def intro: quiet_raise elim!: quiet_with
      split: list.splits lua_arg.splits option.splits if_splits)
  subgoal
    by (auto simp: rtc_lua_get_audio_output_level_def intro: quiet_raise elim!: quiet_with
      split: list.splits lua_arg.splits option.splits if_splits)
  done

definition asks_description :: "rtc_label \<Rightarrow> bool" where
  "asks_description l = (case l of Script_Function _ _ _ name _ \<Rightarrow> name \<in> {''create_offer'', ''create_answer''} | _ \<Rightarrow> False)"

lemma quiet_call:
  assumes "rtc_module_call lib c ob name args m = Some (r, es, m')"
  shows "quiet_step (name \<in> {''create_offer'', ''create_answer''}) m es m'"
proof -
  note quiet = quiet_open [of _ _ _ _ _ _ _ False] quiet_close [of _ _ _ _ _ False] quiet_functions quiet_raise [of _ _ _ _ _ False]
  from assms show ?thesis unfolding rtc_module_call_def by (auto split: if_splits intro: quiet)
qed

lemma quiet_then:
  assumes "quiet_step asks m es m1" and "quiet_step asks m1 es' m'"
  shows "quiet_step asks m (es @ es') m'"
proof -
  obtain hs where hs: "rm_posted m1 = rm_posted m @ hs" "\<forall>h \<in> set hs. call_posts asks (snd h)" using assms(1) by (auto simp: quiet_step_def)
  obtain hs' where hs': "rm_posted m' = rm_posted m1 @ hs'" "\<forall>h \<in> set hs'. call_posts asks (snd h)" using assms(2) by (auto simp: quiet_step_def)
  have "rm_posted m' = rm_posted m @ (hs @ hs')" "\<forall>h \<in> set (hs @ hs'). call_posts asks (snd h)" using hs hs' by auto
  moreover have "peer_kept asks (rm_peers m i) (rm_peers m' i)" if "i < rm_count m" for i
    using assms that peer_kept_trans [of asks "rm_peers m i" "rm_peers m1 i" "rm_peers m' i"] by (simp add: quiet_step_def)
  ultimately show ?thesis using assms unfolding quiet_step_def by (meson order_trans silent_simps(3))
qed

lemma quiet_module_end: "rtc_on_close_module handles m = (es, m') \<Longrightarrow> quiet_step asks m es m'"
proof -
  have peers: "quiet_step asks m es m'" if "close_peers handles m = (es, m')" for es m'
    using that
  proof (induction handles arbitrary: m es m')
    case (Cons h hs)
    show ?case
    proof (cases "get_obj h (rm_objs m)")
      case (Some i)
      obtain ret es1 p where c: "rtc_close (rm_statics m) (rm_peers m i) = (ret, es1, p)" by (metis prod_cases3)
      obtain es2 m2 where r: "close_peers hs (put_peer i p m) = (es2, m2)" by fastforce
      have "quiet_step asks m es1 (put_peer i p m)"
        using calls_keep_peer(4) [OF c] by (auto simp: quiet_step_def put_peer_def intro: peer_kept_asks)
      from quiet_then [OF this Cons.IH [OF r]] Cons.prems Some c r show ?thesis by auto
    qed (use Cons in auto)
  qed auto
  assume "rtc_on_close_module handles m = (es, m')"
  then obtain m1 where "close_peers handles m = (es, m1)" and m': "m' = m1 \<or> (\<exists>ks. m' = m1\<lparr>rm_registered := ks, rm_service := False\<rparr>)"
    by (auto simp: rtc_on_close_module_def split: prod.splits if_splits)
  from peers [OF this(1)] m' show ?thesis by (auto simp: quiet_step_def)
qed

section \<open>What is reported and told\<close>

fun handler_type :: "rtc_handler \<Rightarrow> LuaWebrtcCallbackType" where
  "handler_type (On_Get_Sdp _) = eLuaWebrtcCallbackType_OnSdp"
| "handler_type (On_Local_Ice_Candidate _) = eLuaWebrtcCallbackType_OnIceCandidate"
| "handler_type (On_Local_Ice_Gathering_Changed _) = eLuaWebrtcCallbackType_OnIceGatheringChange"
| "handler_type (On_Local_Ice_Connection_Changed _) = eLuaWebrtcCallbackType_OnIceConnectionChange"
| "handler_type On_Media_Ready = eLuaWebrtcCallbackType_OnMediaReady"

fun handler_value :: "rtc_handler \<Rightarrow> rtc_value" where
  "handler_value (On_Get_Sdp jsep) = Text_Value (c_text jsep)"
| "handler_value (On_Local_Ice_Candidate text) = Text_Value (c_text text)"
| "handler_value (On_Local_Ice_Gathering_Changed n) = Number_Value n"
| "handler_value (On_Local_Ice_Connection_Changed n) = Number_Value n"
| "handler_value On_Media_Ready = No_Value"

lemma run_rtc_handler_tells: "run_rtc_handler i h p = rtc_tell i (handler_type h) (handler_value h) p"
  by (cases h) (simp_all add: on_get_sdp_def on_local_ice_candidate_def on_local_ice_gathering_changed_def
    on_local_ice_connection_changed_def on_media_ready_def)

definition told :: "nat \<Rightarrow> LuaWebrtcCallbackType \<Rightarrow> rtc_effect list \<Rightarrow> rtc_value list" where
  "told i type es = concat (map (\<lambda>e. case e of Rtc_Callback j t _ v \<Rightarrow> if j = i \<and> t = type then [v] else [] | _ \<Rightarrow> []) es)"

definition of_handlers :: "nat \<Rightarrow> LuaWebrtcCallbackType \<Rightarrow> (nat \<times> rtc_handler) list \<Rightarrow> rtc_value list" where
  "of_handlers i type hs = concat (map (\<lambda>(j, h). if j = i \<and> handler_type h = type then [handler_value h] else []) hs)"

definition reported_types :: "LuaWebrtcCallbackType set" where
  "reported_types = {eLuaWebrtcCallbackType_OnIceCandidate, eLuaWebrtcCallbackType_OnIceGatheringChange,
     eLuaWebrtcCallbackType_OnIceConnectionChange}"

text \<open>The reports of libwebrtc that are for a callback of the peer connection \<open>i\<close>.\<close>

fun reports :: "nat \<Rightarrow> LuaWebrtcCallbackType \<Rightarrow> rtc_label \<Rightarrow> rtc_value list" where
  "reports i type (Library_Event lib j ev) =
     (if j \<noteq> i then []
      else case ev of
          Ice_Candidate mid index (Some sdp) \<Rightarrow>
            if type = eLuaWebrtcCallbackType_OnIceCandidate then [Text_Value (c_text (rl_candidate_json lib mid index sdp))] else []
        | Ice_Gathering_Change n \<Rightarrow> if type = eLuaWebrtcCallbackType_OnIceGatheringChange then [Number_Value n] else []
        | Ice_Connection_Change n \<Rightarrow> if type = eLuaWebrtcCallbackType_OnIceConnectionChange then [Number_Value n] else []
        | _ \<Rightarrow> [])"
| "reports i type _ = []"

lemma told_append [simp]: "told i type (es @ es') = told i type es @ told i type es'"
  by (simp add: told_def)

lemma of_handlers_simps [simp]:
  "of_handlers i type [] = []"
  "of_handlers i type ((j, h) # hs) = (if j = i \<and> handler_type h = type then [handler_value h] else []) @ of_handlers i type hs"
  "of_handlers i type (hs @ hs') = of_handlers i type hs @ of_handlers i type hs'"
  by (simp_all add: of_handlers_def)

lemma told_silent: "silent_effects es \<Longrightarrow> told i type es = []"
  by (induction es) (auto simp: told_def tells_peer_def split: rtc_effect.splits)

lemma told_tell: "told i type (rtc_tell j t v p) =
    (if j = i \<and> t = type \<and> \<not> rp_closed p \<and> rp_main p \<and> rp_callbacks p type \<noteq> LUA_REFNIL then [v] else [])"
  by (auto simp: told_def rtc_tell_def)

lemma of_call_posts:
  "\<forall>h \<in> set hs. call_posts asks (snd h) \<Longrightarrow> type \<in> reported_types \<Longrightarrow> of_handlers i type hs = []"
  "\<forall>h \<in> set hs. call_posts False (snd h) \<Longrightarrow> type = eLuaWebrtcCallbackType_OnSdp \<Longrightarrow> of_handlers i type hs = []"
  by (induction hs) (auto simp: reported_types_def call_posts_def)

lemma event_keeps:
  assumes "rtc_on_event lib ev p = Some (es, hs, p')"
  shows "peer_kept False p p' \<and> silent_effects es"
  using assms
  by (cases ev) (auto simp: on_add_stream_def on_remove_stream_def on_ice_candidate_def on_success_def on_failure_def drop_sink_def
    sink_on_frame_def peer_kept_def Let_def split: option.splits prod.splits if_splits)

lemma event_posts:
  assumes "rtc_on_event lib ev p = Some (es, hs, p')" and "rp_ios p" and "type \<in> reported_types"
  shows "of_handlers i type (map (Pair j) hs) = reports i type (Library_Event lib j ev)"
  using assms
  by (cases ev) (auto simp: on_add_stream_def on_remove_stream_def on_ice_candidate_def on_success_def on_failure_def drop_sink_def
    sink_on_frame_def post_if_def reported_types_def Let_def split: option.splits prod.splits if_splits)

text \<open>What one step does for a peer connection that is there.\<close>

definition open_peer :: "nat \<Rightarrow> LuaWebrtcCallbackType \<Rightarrow> rtc_module \<Rightarrow> bool" where
  "open_peer i type m \<longleftrightarrow> i < rm_count m \<and> rp_ios (rm_peers m i) \<and> rp_main (rm_peers m i)
     \<and> rp_callbacks (rm_peers m i) type \<noteq> LUA_REFNIL"

lemma step_keeps:
  assumes "rtc_act l m = Some (es, m')" and "i < rm_count m"
  shows "i < rm_count m' \<and> peer_kept (asks_description l) (rm_peers m i) (rm_peers m' i)"
proof (cases l)
  case (Script_Function lib c ob name args)
  with assms(1) quiet_call have "quiet_step (asks_description l) m es m'" by (fastforce simp: asks_description_def split: bind_splits)
  with assms(2) show ?thesis by (simp add: quiet_step_def)
next
  case (Library_Event lib j ev)
  with assms(1) obtain hs p where "rtc_on_event lib ev (rm_peers m j) = Some (es, hs, p)"
    "m' = put_peer j p (m\<lparr>rm_posted := rm_posted m @ map (Pair j) hs\<rparr>)" by (auto split: if_splits bind_splits)
  with event_keeps [OF this(1)] assms(2) Library_Event show ?thesis by (auto simp: put_peer_def asks_description_def)
next
  case Loop_Runs
  with assms show ?thesis by (auto split: list.splits)
next
  case (Module_Closes handles)
  with assms quiet_module_end [of handles m es m' False] show ?thesis by (simp add: quiet_step_def asks_description_def)
qed

lemma quiet_passes_on:
  assumes "quiet_step asks m es m'" and "type \<in> reported_types \<or> \<not> asks \<and> type = eLuaWebrtcCallbackType_OnSdp"
  shows "told i type es = [] \<and> of_handlers i type (rm_posted m') = of_handlers i type (rm_posted m)"
proof -
  obtain hs where hs: "rm_posted m' = rm_posted m @ hs" "\<forall>h \<in> set hs. call_posts asks (snd h)" "silent_effects es"
    using assms(1) by (auto simp: quiet_step_def)
  have "of_handlers i type hs = []"
    using of_call_posts(1) [OF hs(2), of type i] of_call_posts(2) [of hs type i] hs(2) assms(2) by auto
  with hs told_silent show ?thesis by simp
qed

lemma step_passes_on:
  assumes "rtc_act l m = Some (es, m')" and "open_peer i type m" and "type \<in> reported_types"
  shows "if rp_closed (rm_peers m i) then told i type es = []
    else of_handlers i type (rm_posted m) @ reports i type l = told i type es @ of_handlers i type (rm_posted m')"
proof (cases l)
  case (Script_Function lib c ob name args)
  with assms(1) quiet_call have "quiet_step (asks_description l) m es m'" by (fastforce simp: asks_description_def split: bind_splits)
  from quiet_passes_on [OF this disjI1 [OF assms(3)]] Script_Function show ?thesis by simp
next
  case (Library_Event lib j ev)
  with assms(1) obtain hs p where e: "rtc_on_event lib ev (rm_peers m j) = Some (es, hs, p)"
    "m' = put_peer j p (m\<lparr>rm_posted := rm_posted m @ map (Pair j) hs\<rparr>)" by (auto split: if_splits bind_splits)
  have "told i type es = []" using event_keeps [OF e(1)] told_silent by blast
  moreover have "of_handlers i type (map (Pair j) hs) = reports i type l"
  proof (cases "j = i")
    case True
    with event_posts [OF e(1) _ assms(3), of i j] assms(2) Library_Event show ?thesis by (simp add: open_peer_def)
  next
    case False
    then have "of_handlers i type (map (Pair j) hs) = []" by (induction hs) auto
    with False Library_Event show ?thesis by simp
  qed
  ultimately show ?thesis using e(2) by (simp add: put_peer_def)
next
  case Loop_Runs
  with assms(1) obtain j h rest where p: "rm_posted m = (j, h) # rest" "es = run_rtc_handler j h (rm_peers m j)"
    "m' = m\<lparr>rm_posted := rest\<rparr>" by (auto split: list.splits)
  with assms(2) Loop_Runs show ?thesis by (auto simp: run_rtc_handler_tells told_tell open_peer_def)
next
  case (Module_Closes handles)
  with assms(1) quiet_module_end have "quiet_step False m es m'" by fastforce
  from quiet_passes_on [OF this disjI1 [OF assms(3)]] Module_Closes show ?thesis by simp
qed

text \<open>
  C36: candidates, changes of gathering and changes of the connection reach the script in the order in which
  libwebrtc reports them, none twice and none left out: what has been told is a prefix of what was waiting and has
  been reported since, and as long as the peer connection is open the rest is what waits in the event loop.
\<close>

theorem reports_reach_script_in_order:
  assumes "rtc_runs m ls es m'" and "open_peer i type m" and "type \<in> reported_types"
  shows "\<exists>rest. of_handlers i type (rm_posted m) @ concat (map (reports i type) ls) = told i type es @ rest
    \<and> (rp_closed (rm_peers m' i) \<or> rest = of_handlers i type (rm_posted m'))"
proof -
  have "open_peer i type m' \<and> (\<exists>rest. of_handlers i type (rm_posted m) @ concat (map (reports i type) ls) = told i type es @ rest
    \<and> (\<not> rp_closed (rm_peers m' i) \<longrightarrow> rest = of_handlers i type (rm_posted m')))"
    using assms
  proof (induction rule: rtc_runs.induct)
    case (rtc_start m)
    then show ?case by (simp add: told_def)
  next
    case (rtc_step m ls es m' l es' m'')
    then obtain rest where IH: "open_peer i type m'"
      "of_handlers i type (rm_posted m) @ concat (map (reports i type) ls) = told i type es @ rest"
      "\<not> rp_closed (rm_peers m' i) \<longrightarrow> rest = of_handlers i type (rm_posted m')" by blast
    have "i < rm_count m'" using IH(1) by (simp add: open_peer_def)
    from step_keeps [OF rtc_step.hyps(2) this] have k: "i < rm_count m''" "peer_kept (asks_description l) (rm_peers m' i) (rm_peers m'' i)" by simp_all
    have "type \<noteq> eLuaWebrtcCallbackType_OnSdp" using rtc_step.prems(2) by (auto simp: reported_types_def)
    with k IH(1) have o: "open_peer i type m''" by (auto simp: open_peer_def peer_kept_def)
    show ?case
    proof (cases "rp_closed (rm_peers m' i)")
      case True
      with step_passes_on [OF rtc_step.hyps(2) IH(1) rtc_step.prems(2)] have "told i type es' = []" by simp
      moreover have "rp_closed (rm_peers m'' i)" using True k(2) by (simp add: peer_kept_def)
      ultimately show ?thesis using o IH(2) by (intro conjI exI [of _ "rest @ reports i type l"]) simp_all
    next
      case False
      with step_passes_on [OF rtc_step.hyps(2) IH(1) rtc_step.prems(2)] IH(3) have
        "rest @ reports i type l = told i type es' @ of_handlers i type (rm_posted m'')" by simp
      moreover have "of_handlers i type (rm_posted m) @ concat (map (reports i type) (ls @ [l])) = told i type es @ rest @ reports i type l"
        using IH(2) by (metis append_assoc concat_append concat_map_singleton list.simps(8) list.simps(9) map_append concat.simps append_Nil2)
      ultimately show ?thesis using o by (intro conjI exI [of _ "of_handlers i type (rm_posted m'')"]) simp_all
    qed
  qed
  then show ?thesis by blast
qed

section \<open>After closing\<close>

lemma closed_stays_silent:
  assumes "rtc_runs m ls es m'" and "i < rm_count m" and "rp_closed (rm_peers m i)"
  shows "\<forall>e \<in> set es. \<not> tells_peer i e"
proof -
  have "i < rm_count m' \<and> rp_closed (rm_peers m' i) \<and> (\<forall>e \<in> set es. \<not> tells_peer i e)"
    using assms
  proof (induction rule: rtc_runs.induct)
    case (rtc_step m ls es m' l es' m'')
    then have IH: "i < rm_count m'" "rp_closed (rm_peers m' i)" "\<forall>e \<in> set es. \<not> tells_peer i e" by simp_all
    from step_keeps [OF rtc_step.hyps(2) IH(1)] IH(2) have k: "i < rm_count m''" "rp_closed (rm_peers m'' i)"
      by (simp_all add: peer_kept_def)
    have "\<forall>e \<in> set es'. \<not> tells_peer i e"
    proof (cases l)
      case (Script_Function lib c ob name args)
      with rtc_step.hyps(2) quiet_call have "quiet_step (asks_description l) m' es' m''"
        by (fastforce simp: asks_description_def split: bind_splits)
      then show ?thesis by (simp add: quiet_step_def silent_effects_def)
    next
      case (Library_Event lib j ev)
      with rtc_step.hyps(2) show ?thesis by (auto simp: silent_effects_def dest!: event_keeps split: if_splits bind_splits)
    next
      case Loop_Runs
      with rtc_step.hyps(2) IH(2) show ?thesis by (auto simp: run_rtc_handler_tells rtc_tell_def split: list.splits if_splits)
    next
      case (Module_Closes handles)
      with rtc_step.hyps(2) quiet_module_end have "quiet_step False m' es' m''" by fastforce
      then show ?thesis by (simp add: quiet_step_def silent_effects_def)
    qed
    with IH(3) k show ?case by auto
  qed simp
  then show ?thesis by blast
qed

text \<open>
  C37: once a script has closed a peer connection through its handle, it is told nothing more of it, not even what
  already waits in the event loop, whatever libwebrtc goes on to report.
\<close>

theorem closed_peer_is_silent:
  assumes "handles_apart k (rm_count m) (rm_objs m)" and "get_obj (handle_of n) (rm_objs m) = Some i" and "rm_service m"
    and "rtc_module_call lib c ob ''close'' [Arg_Integer n] m = Some (r, es, m')" and "rtc_runs m' ls es' m''"
  shows "r = Returns [] \<and> get_obj (handle_of n) (rm_objs m') = None \<and> (\<forall>e \<in> set (es @ es'). \<not> tells_peer i e)"
proof -
  obtain ret es1 p where c: "rtc_close (rm_statics m) (rm_peers m i) = (ret, es1, p)" by (metis prod_cases3)
  have m': "r = Returns []" "es = es1"
    "m' = put_peer i p (m\<lparr>rm_objs := (rm_objs m)\<lparr>om_table := (om_table (rm_objs m))(handle_of n := None)\<rparr>\<rparr>)"
    using assms(2-4) c by (auto simp: rtc_module_call_def rtc_lua_close_def delete_lua_obj_def get_obj_def)
  have "i < rm_count m'" "rp_closed (rm_peers m' i)"
    using calls_keep_peer(4) [OF c] apart_less [OF assms(1,2)] m'(3) by (simp_all add: put_peer_def)
  from closed_stays_silent [OF assms(5) this] calls_keep_peer(4) [OF c] m' show ?thesis
    by (auto simp: silent_effects_def put_peer_def get_obj_def)
qed

section \<open>Callbacks that are left out\<close>

lemma read_callbacks_keeps:
  assumes "read_callbacks reference entries cbs = Some cbs'"
    and "\<forall>t v. (Arg_Text t, v) \<in> set entries \<longrightarrow> callback_key (c_text t) \<noteq> Some type"
  shows "cbs' type = cbs type"
  using assms
proof (induction entries arbitrary: cbs)
  case (Cons e entries)
  obtain k v where e: "e = (k, v)" by fastforce
  have t: "callback_key (c_text t) \<noteq> Some type" if "k = Arg_Text t" for t using Cons.prems(2) e that by auto
  have "\<exists>cbs1. read_callbacks reference entries cbs1 = Some cbs' \<and> cbs1 type = cbs type"
    using Cons.prems(1) e t by (auto simp: Let_def split: lua_arg.splits if_splits option.splits)
  then obtain cbs1 where c: "read_callbacks reference entries cbs1 = Some cbs'" "cbs1 type = cbs type" by blast
  have "\<forall>t v. (Arg_Text t, v) \<in> set entries \<longrightarrow> callback_key (c_text t) \<noteq> Some type" using Cons.prems(2) by simp
  from Cons.IH [OF c(1) this] c(2) show ?case by simp
qed simp

lemma open_callbacks:
  assumes "rtc_lua_open lib c [stun, Arg_Table entries] m = Some (Returns [h], es, m')"
  obtains cbs p where "read_callbacks (rc_reference c) entries initial_callbacks = Some cbs"
    "rm_peers m' (rm_count m) = hand_over_callbacks cbs p" "rp_callbacks p = (\<lambda>_. LUA_REFNIL)"
  using assms
  by (auto simp: rtc_lua_open_def rtc_open_peer_def rtc_raise_def create_webrtc_peer_connection_def LuaRtcPeerConnection_new_def
    put_peer_def Let_def split: option.splits if_splits prod.splits bind_splits)

lemma callback_key_first: "callback_key key = Some eLuaWebrtcCallbackType_OnIceCandidate \<longleftrightarrow> key = ''on_ice_candidate''"
  by (simp add: callback_key_def)

text \<open>
  C39: of the array of callbacks only the first is initialised to none, and it is handed over up to the first none. So a
  script that leaves out \<open>on_ice_candidate\<close> gets none of the callbacks it gave; and one that gives only
  that one has all others set to what stands in the registry under 0.
\<close>

theorem left_out_callbacks:
  assumes "rtc_lua_open lib c [stun, Arg_Table entries] m = Some (Returns [h], es, m')"
  shows "((\<forall>t v. (Arg_Text t, v) \<in> set entries \<longrightarrow> c_text t \<noteq> ''on_ice_candidate'')
      \<longrightarrow> rp_callbacks (rm_peers m' (rm_count m)) = (\<lambda>_. LUA_REFNIL))
    \<and> (\<forall>f. entries = [(Arg_Text ''on_ice_candidate'', f)] \<and> rc_reference c f \<noteq> LUA_REFNIL
      \<longrightarrow> rp_callbacks (rm_peers m' (rm_count m)) = (\<lambda>_. 0)(eLuaWebrtcCallbackType_OnIceCandidate := rc_reference c f))"
proof -
  obtain cbs p where o: "read_callbacks (rc_reference c) entries initial_callbacks = Some cbs"
    "rm_peers m' (rm_count m) = hand_over_callbacks cbs p" "rp_callbacks p = (\<lambda>_. LUA_REFNIL)"
    using open_callbacks [OF assms] .
  have "rp_callbacks (rm_peers m' (rm_count m)) = (\<lambda>_. LUA_REFNIL)"
    if "\<forall>t v. (Arg_Text t, v) \<in> set entries \<longrightarrow> c_text t \<noteq> ''on_ice_candidate''"
  proof -
    have "cbs eLuaWebrtcCallbackType_OnIceCandidate = LUA_REFNIL"
      using read_callbacks_keeps [OF o(1), of eLuaWebrtcCallbackType_OnIceCandidate] that by (simp add: callback_key_first initial_callbacks_def)
    with o(2,3) show ?thesis by (simp add: hand_over_callbacks_def rtc_callback_types_def)
  qed
  moreover have "rp_callbacks (rm_peers m' (rm_count m)) = (\<lambda>_. 0)(eLuaWebrtcCallbackType_OnIceCandidate := rc_reference c f)"
    if e: "entries = [(Arg_Text ''on_ice_candidate'', f)]" "rc_reference c f \<noteq> LUA_REFNIL" for f
  proof -
    have "c_text ''on_ice_candidate'' = ''on_ice_candidate''" by (simp add: c_text_def)
    with o(1) e have "cbs = (\<lambda>_. 0)(eLuaWebrtcCallbackType_OnIceCandidate := rc_reference c f)"
      by (auto simp: callback_key_def initial_callbacks_def Let_def)
    with o(2,3) e(2) show ?thesis
      by (simp add: hand_over_callbacks_def rtc_callback_types_def set_rtc_callback_def LUA_REFNIL_def)
        (rule ext, rename_tac type, case_tac type; simp)
  qed
  ultimately show ?thesis by blast
qed

section \<open>Offers\<close>

text \<open>The descriptions that libwebrtc makes for the peer connection \<open>i\<close>, empty for one that it cannot make.\<close>

definition offered :: "rtc_library \<Rightarrow> rtc_value list" where
  "offered lib = (case rl_early_offer lib of
     Not_Yet \<Rightarrow> []
   | Early_Success type sdp \<Rightarrow> [Text_Value (c_text (rl_description_json lib type sdp))]
   | Early_Failure \<Rightarrow> [Text_Value (c_text [])])"

definition described :: "nat \<Rightarrow> rtc_label \<Rightarrow> rtc_value list" where
  "described i l = (case l of
     Library_Event lib j ev \<Rightarrow>
       (if j \<noteq> i then []
        else case ev of
            Description_Created type sdp \<Rightarrow> [Text_Value (c_text (rl_description_json lib type sdp))]
          | Description_Failed error \<Rightarrow> [Text_Value (c_text [])]
          | _ \<Rightarrow> [])
   | _ \<Rightarrow> [])"

lemma event_describes:
  assumes "rtc_on_event lib ev p = Some (es, hs, p')" and "rp_ios p"
  shows "of_handlers i eLuaWebrtcCallbackType_OnSdp (map (Pair j) hs) = described i (Library_Event lib j ev)"
  using assms
  by (cases ev) (auto simp: on_add_stream_def on_remove_stream_def on_ice_candidate_def on_success_def on_failure_def drop_sink_def
    sink_on_frame_def post_if_def described_def Let_def split: option.splits prod.splits if_splits)

text \<open>A step that asks for no description passes on what there is of them, to the callback that is set.\<close>

definition awaits :: "nat \<Rightarrow> int \<Rightarrow> rtc_module \<Rightarrow> bool" where
  "awaits i cb m \<longleftrightarrow> i < rm_count m \<and> rp_ios (rm_peers m i) \<and> rp_main (rm_peers m i)
     \<and> rp_callbacks (rm_peers m i) eLuaWebrtcCallbackType_OnSdp = cb"

definition tells_callback :: "nat \<Rightarrow> int \<Rightarrow> rtc_effect list \<Rightarrow> bool" where
  "tells_callback i cb es \<longleftrightarrow> (\<forall>cb' v. Rtc_Callback i eLuaWebrtcCallbackType_OnSdp cb' v \<in> set es \<longrightarrow> cb' = cb)"

lemma silent_tells_callback: "silent_effects es \<Longrightarrow> tells_callback i cb es"
  by (fastforce simp: silent_effects_def tells_callback_def tells_peer_def)

lemma step_describes:
  assumes "rtc_act l m = Some (es, m')" and "awaits i cb m" and "\<not> asks_description l" and "cb \<noteq> LUA_REFNIL"
  shows "awaits i cb m' \<and> tells_callback i cb es
    \<and> (\<not> rp_closed (rm_peers m i) \<longrightarrow>
        of_handlers i eLuaWebrtcCallbackType_OnSdp (rm_posted m) @ described i l
          = told i eLuaWebrtcCallbackType_OnSdp es @ of_handlers i eLuaWebrtcCallbackType_OnSdp (rm_posted m'))"
proof -
  have a: "awaits i cb m'"
    using step_keeps [OF assms(1), of i] assms(2,3) by (simp add: awaits_def peer_kept_def)
  note sdp = disjI2 [OF conjI [OF not_False_eq_True refl]]
  show ?thesis
  proof (cases l)
    case (Script_Function lib c ob name args)
    with assms(1,3) quiet_call have q: "quiet_step False m es m'" by (fastforce simp: asks_description_def split: bind_splits)
    then have "tells_callback i cb es" by (simp add: quiet_step_def silent_tells_callback)
    with a quiet_passes_on [OF q, of eLuaWebrtcCallbackType_OnSdp i] Script_Function show ?thesis by (simp add: described_def)
  next
    case (Library_Event lib j ev)
    with assms(1) obtain hs p where e: "rtc_on_event lib ev (rm_peers m j) = Some (es, hs, p)"
      "m' = put_peer j p (m\<lparr>rm_posted := rm_posted m @ map (Pair j) hs\<rparr>)" by (auto split: if_splits bind_splits)
    have s: "silent_effects es" using event_keeps [OF e(1)] by blast
    have "of_handlers i eLuaWebrtcCallbackType_OnSdp (map (Pair j) hs) = described i l"
    proof (cases "j = i")
      case True
      with event_describes [OF e(1), of i j] assms(2) Library_Event show ?thesis by (simp add: awaits_def)
    next
      case False
      then have "of_handlers i eLuaWebrtcCallbackType_OnSdp (map (Pair j) hs) = []" by (induction hs) auto
      with False Library_Event show ?thesis by (simp add: described_def)
    qed
    with a told_silent [OF s] silent_tells_callback [OF s] e(2) show ?thesis by (simp add: put_peer_def)
  next
    case Loop_Runs
    with assms(1) obtain j h rest where p: "rm_posted m = (j, h) # rest" "es = run_rtc_handler j h (rm_peers m j)"
      "m' = m\<lparr>rm_posted := rest\<rparr>" by (auto split: list.splits)
    have "tells_callback i cb es"
      using p(2) assms(2) by (auto simp: run_rtc_handler_tells rtc_tell_def tells_callback_def awaits_def split: if_splits)
    with a p assms(2,4) Loop_Runs show ?thesis by (auto simp: run_rtc_handler_tells told_tell awaits_def described_def)
  next
    case (Module_Closes handles)
    with assms(1) quiet_module_end have q: "quiet_step False m es m'" by fastforce
    then have "tells_callback i cb es" by (simp add: quiet_step_def silent_tells_callback)
    with a quiet_passes_on [OF q, of eLuaWebrtcCallbackType_OnSdp i] Module_Closes show ?thesis by (simp add: described_def)
  qed
qed

lemma runs_describe:
  assumes "rtc_runs m ls es m'" and "awaits i cb m" and "\<forall>l \<in> set ls. \<not> asks_description l" and "cb \<noteq> LUA_REFNIL"
  shows "awaits i cb m' \<and> tells_callback i cb es
    \<and> (\<not> rp_closed (rm_peers m' i) \<longrightarrow>
        of_handlers i eLuaWebrtcCallbackType_OnSdp (rm_posted m) @ concat (map (described i) ls)
          = told i eLuaWebrtcCallbackType_OnSdp es @ of_handlers i eLuaWebrtcCallbackType_OnSdp (rm_posted m'))"
  using assms
proof (induction rule: rtc_runs.induct)
  case (rtc_start m)
  then show ?case by (simp add: told_def tells_callback_def)
next
  case (rtc_step m ls es m' l es' m'')
  then have IH: "awaits i cb m'" "tells_callback i cb es" "\<not> rp_closed (rm_peers m' i) \<Longrightarrow>
      of_handlers i eLuaWebrtcCallbackType_OnSdp (rm_posted m) @ concat (map (described i) ls)
        = told i eLuaWebrtcCallbackType_OnSdp es @ of_handlers i eLuaWebrtcCallbackType_OnSdp (rm_posted m')" by auto
  have "\<not> asks_description l" using rtc_step.prems(2) by simp
  note s = step_describes [OF rtc_step.hyps(2) IH(1) this rtc_step.prems(3)]
  have "rp_closed (rm_peers m'' i)" if "rp_closed (rm_peers m' i)"
    using step_keeps [OF rtc_step.hyps(2), of i] IH(1) that by (simp add: awaits_def peer_kept_def)
  moreover have "tells_callback i cb (es @ es')" using IH(2) s by (auto simp: tells_callback_def)
  moreover have "of_handlers i eLuaWebrtcCallbackType_OnSdp (rm_posted m) @ concat (map (described i) (ls @ [l]))
      = told i eLuaWebrtcCallbackType_OnSdp (es @ es') @ of_handlers i eLuaWebrtcCallbackType_OnSdp (rm_posted m'')"
    if "\<not> rp_closed (rm_peers m' i)"
  proof -
    have "of_handlers i eLuaWebrtcCallbackType_OnSdp (rm_posted m) @ concat (map (described i) (ls @ [l]))
        = (of_handlers i eLuaWebrtcCallbackType_OnSdp (rm_posted m) @ concat (map (described i) ls)) @ described i l" by simp
    also have "\<dots> = told i eLuaWebrtcCallbackType_OnSdp es @ of_handlers i eLuaWebrtcCallbackType_OnSdp (rm_posted m') @ described i l"
      using IH(3) [OF that] by simp
    also have "\<dots> = told i eLuaWebrtcCallbackType_OnSdp (es @ es') @ of_handlers i eLuaWebrtcCallbackType_OnSdp (rm_posted m'')"
      using s that by simp
    finally show ?thesis .
  qed
  ultimately show ?case using s by blast
qed

text \<open>Asking for an offer on a running service: what the call leaves behind.\<close>

lemma create_offer_succeeds:
  assumes "rm_service m" and "get_obj (handle_of n) (rm_objs m) = Some i" and "i < rm_count m"
    and "rp_ios (rm_peers m i)" and "rp_service (rm_peers m i)" and "rp_main (rm_peers m i)" and "rp_pc (rm_peers m i)"
    and "rs_signaling (rm_statics m)" and "rs_factory (rm_statics m)"
    and "rl_local_stream lib" and "rl_add_stream lib" and "rc_reference c cb \<noteq> LUA_REFNIL"
    and "lua_number c a = Some x" and "lua_number c v = Some y"
  shows "\<exists>es1 m1. rtc_module_call lib c ob ''create_offer'' [Arg_Integer n, a, v, cb] m = Some (Returns [], es1, m1)
    \<and> Create_Offer \<in> set es1 \<and> awaits i (rc_reference c cb) m1
    \<and> of_handlers i eLuaWebrtcCallbackType_OnSdp (rm_posted m1) = of_handlers i eLuaWebrtcCallbackType_OnSdp (rm_posted m) @ offered lib"
proof -
  let ?p = "rm_peers m i"
  obtain es1 hs p where o: "create_offer lib (rm_statics m) (rm_tracks m) x y (rc_reference c cb) ?p
      = Some (kBeeErrorCode_Success, es1, hs, p)" "Create_Offer \<in> set es1"
    and p: "rp_ios p" "rp_main p" "rp_callbacks p eLuaWebrtcCallbackType_OnSdp = rc_reference c cb"
      "of_handlers i eLuaWebrtcCallbackType_OnSdp (map (Pair i) hs) = offered lib"
    using assms(4-11)
    by (cases "rp_sink ?p = None \<and> y \<noteq> 0 \<and> rl_video_source lib y \<and> rl_video_track lib"; cases "rl_early_offer lib")
      (auto simp: create_offer_def invoke_def inner_create_offer_def early_offer_def on_success_def on_failure_def post_if_def
        set_rtc_callback_def offered_def Let_def)
  let ?m1 = "put_peer i p (m\<lparr>rm_tracks := rm_tracks m + 1, rm_posted := rm_posted m @ map (Pair i) hs\<rparr>)"
  have "rtc_module_call lib c ob ''create_offer'' [Arg_Integer n, a, v, cb] m = Some (Returns [], es1, ?m1)"
    using assms(1,2,12-14) o(1) by (simp add: rtc_module_call_def rtc_lua_create_offer_def answer_peer_def)
  moreover have "awaits i (rc_reference c cb) ?m1" using p(1-3) assms(3) by (simp add: awaits_def put_peer_def)
  moreover have "rm_posted ?m1 = rm_posted m @ map (Pair i) hs" by (simp add: put_peer_def)
  ultimately show ?thesis using o(2) p(4) by (metis of_handlers_simps(3))
qed


text \<open>
  A description that is ready only after the script has closed the peer connection goes through the null pointer that
  closing leaves.
\<close>

theorem description_after_close_crashes:
  assumes "rp_service (rm_peers m i)" and "rs_signaling (rm_statics m)" and "rtc_close (rm_statics m) (rm_peers m i) = (ret, es, p)"
  shows "rtc_act (Library_Event lib i (Description_Created type sdp)) (put_peer i p m) = None"
proof -
  have "\<not> rp_pc p"
    using assms by (auto simp: rtc_close_def invoke_def inner_close_def drop_sink_def split: if_splits option.splits prod.splits)
  then show ?thesis by (simp add: put_peer_def on_success_def)
qed

text \<open>
  Asking for traces a second time frees the log sink that libwebrtc goes on writing to.
\<close>

theorem tracing_twice_leaves_freed_sink:
  assumes "rm_service m" and "int32_of n \<le> rc_ls_none c" and "rc_ls_sensitive c \<le> int32_of n"
    and "rtc_lua_enable_tracing c [Arg_Integer n] m = (r, es, m1)" and "rtc_lua_enable_tracing c [Arg_Integer n] m1 = (r', es', m2)"
  shows "rm_log_sink m1 = Some (rm_log_sinks m) \<and> rm_log_sinks m \<in> set (rm_registered m2) \<and> rm_log_sink m2 \<noteq> Some (rm_log_sinks m)"
  using assms by (auto simp: rtc_lua_enable_tracing_def)

section \<open>The service's life\<close>

text \<open>Starting is idempotent, also when libwebrtc has failed to make a factory before, and stopping undoes it.\<close>

theorem service_starts_again:
  "init_service True (init_service f st) = init_service True st \<and> init_service f (init_service True st) = init_service True st
    \<and> init_service True (uninit_service st) = init_service True st'
    \<and> rs_factory (init_service True st) \<and> rs_signaling (init_service True st)"
  by (cases st; cases st') (simp add: init_service_def init_factory_def uninit_service_def)

section \<open>Instances\<close>

definition demo_library :: rtc_library where
  "demo_library = \<lparr>rl_peer_connection = (\<lambda>_. True), rl_local_stream = True, rl_audio_source = (\<lambda>_. True), rl_video_source = (\<lambda>_. True),
     rl_audio_track = True, rl_video_track = True, rl_add_stream = True, rl_parse = (\<lambda>_. None), rl_description = (\<lambda>_ _. True),
     rl_get_stats = True, rl_input_level = 5, rl_output_level = 6, rl_candidate_json = (\<lambda>_ _ sdp. sdp),
     rl_description_json = (\<lambda>_ sdp. sdp), rl_early_offer = Not_Yet\<rparr>"

definition demo_rtc_caller :: rtc_caller where
  "demo_rtc_caller = \<lparr>rc_session = Some (1, True), rc_reference = (\<lambda>_. 8), rc_to_number = (\<lambda>_. None), rc_ls_sensitive = 0, rc_ls_none = 5\<rparr>"

definition demo_rtc :: rtc_module where
  "demo_rtc = LuaWebrtcModule_new (init_service True (uninit_service undefined)) 0 True"

definition demo_peer :: rtc_peer where
  "demo_peer = (LuaRtcPeerConnection_new True True True)
     \<lparr>rp_pc := True, rp_callbacks := (\<lambda>_. 0)(eLuaWebrtcCallbackType_OnIceCandidate := 8)\<rparr>"

definition demo_rtc_open :: rtc_module where
  "demo_rtc_open = demo_rtc\<lparr>rm_session_id := 1, rm_ios := True, rm_objs := \<lparr>om_counter = 1, om_table = [1 \<mapsto> 0]\<rparr>, rm_count := 1,
     rm_peers := (rm_peers demo_rtc)(0 := demo_peer)\<rparr>"

lemmas demo_rtc_defs = demo_rtc_open_def demo_rtc_def demo_peer_def LuaWebrtcModule_new_def init_service_def init_factory_def
  uninit_service_def LuaObjMgr_new_def LuaRtcPeerConnection_new_def LUA_REFNIL_def

lemma demo_callbacks:
  "hand_over_callbacks ((\<lambda>_. 0)(eLuaWebrtcCallbackType_OnIceCandidate := 8)) p = p\<lparr>rp_callbacks := (\<lambda>_. 0)(eLuaWebrtcCallbackType_OnIceCandidate := 8)\<rparr>"
proof -
  have "rp_callbacks (hand_over_callbacks ((\<lambda>_. 0)(eLuaWebrtcCallbackType_OnIceCandidate := 8)) p) = (\<lambda>_. 0)(eLuaWebrtcCallbackType_OnIceCandidate := 8)"
    by (simp add: hand_over_callbacks_def rtc_callback_types_def set_rtc_callback_def LUA_REFNIL_def)
      (rule ext, rename_tac type, case_tac type; simp)
  then show ?thesis by (simp add: hand_over_callbacks_def rtc_callback_types_def set_rtc_callback_def LUA_REFNIL_def)
qed

lemma demo_rtc_opens:
  "rtc_lua_open demo_library demo_rtc_caller [Arg_Text ''stun'', Arg_Table [(Arg_Text ''on_ice_candidate'', Arg_Function 3)]] demo_rtc
    = Some (Returns [1], [Create_Peer_Connection ''stun''], demo_rtc_open)"
proof -
  have "initial_callbacks(eLuaWebrtcCallbackType_OnIceCandidate := 8) = (\<lambda>_. 0)(eLuaWebrtcCallbackType_OnIceCandidate := 8)"
    by (simp add: initial_callbacks_def)
  then show ?thesis
    by (simp add: rtc_lua_open_def rtc_open_peer_def demo_library_def demo_rtc_caller_def demo_rtc_defs c_text_def callback_key_def
      create_webrtc_peer_connection_def demo_callbacks new_lua_obj_def put_peer_def)
qed

lemma demo_rtc_apart: "handles_apart 1 (rm_count demo_rtc_open) (rm_objs demo_rtc_open)"
  by (simp add: handles_apart_def handles_fresh_def demo_rtc_defs)

lemma demo_rtc_object: "get_obj (handle_of 1) (rm_objs demo_rtc_open) = Some 0"
  by (simp add: demo_rtc_defs get_obj_def handle_of_def)

lemma demo_rtc_peer: "rm_service demo_rtc_open" "rm_peers demo_rtc_open 0 = demo_peer" "rm_posted demo_rtc_open = []"
  "rs_signaling (rm_statics demo_rtc_open)" "rs_factory (rm_statics demo_rtc_open)" "rm_count demo_rtc_open = 1"
  by (simp_all add: demo_rtc_open_def demo_rtc_def LuaWebrtcModule_new_def init_service_def init_factory_def uninit_service_def)

theorem left_out_callbacks_witness:
  "rtc_lua_open demo_library demo_rtc_caller [Arg_Text ''stun'', Arg_Table [(Arg_Text ''on_ice_candidate'', Arg_Function 3)]] demo_rtc
      = Some (Returns [1], [Create_Peer_Connection ''stun''], demo_rtc_open)
    \<and> rp_callbacks (rm_peers demo_rtc_open (rm_count demo_rtc)) eLuaWebrtcCallbackType_OnMediaReady = 0"
  using left_out_callbacks [OF demo_rtc_opens] demo_rtc_opens by (simp add: demo_rtc_caller_def LUA_REFNIL_def)

lemma demo_offers:
  assumes "demo = demo_library\<lparr>rl_early_offer := Early_Success ''offer'' ''v=0''\<rparr>"
  shows "\<exists>es m1 m2 m3. rtc_module_call demo demo_rtc_caller 1 ''create_offer'' [Arg_Integer 1, Arg_Integer 0, Arg_Integer 0, Arg_Function 1]
      demo_rtc_open = Some (Returns [], es, m1) \<and> rtc_act Loop_Runs m1 = Some ([Rtc_Callback 0 eLuaWebrtcCallbackType_OnSdp 8 (Text_Value ''v=0'')], m2)
    \<and> rtc_act Loop_Runs m2 = Some ([Rtc_Callback 0 eLuaWebrtcCallbackType_OnMediaReady 0 No_Value], m3) \<and> \<not> rp_closed (rm_peers m3 0)
    \<and> rm_posted m3 = []"
  using assms
  by (simp add: rtc_module_call_def rtc_lua_create_offer_def answer_peer_def create_offer_def invoke_def inner_create_offer_def early_offer_def
    on_success_def post_if_def set_rtc_callback_def put_peer_def demo_library_def demo_rtc_caller_def demo_rtc_defs get_obj_def
    handle_of_def on_get_sdp_def on_media_ready_def rtc_tell_def c_text_def Let_def)


theorem closed_peer_is_silent_witness:
  "\<exists>es m' m''. rtc_module_call demo_library demo_rtc_caller 1 ''close'' [Arg_Integer 1] demo_rtc_open = Some (Returns [], es, m')
    \<and> rtc_runs m' [Library_Event demo_library 0 (Ice_Candidate ''a'' 0 (Some ''c'')), Loop_Runs] [] m''
    \<and> (\<forall>e \<in> set (es @ []). \<not> tells_peer 0 e)"
proof -
  let ?ev = "Library_Event demo_library 0 (Ice_Candidate ''a'' 0 (Some ''c''))"
  obtain es m' where c: "rtc_module_call demo_library demo_rtc_caller 1 ''close'' [Arg_Integer 1] demo_rtc_open = Some (Returns [], es, m')"
    and m': "rm_count m' = 1" "rp_ios (rm_peers m' 0)" "rp_closed (rm_peers m' 0)" "rm_posted m' = []"
    by (simp add: rtc_module_call_def rtc_lua_close_def delete_lua_obj_def demo_rtc_defs handle_of_def rtc_close_def invoke_def inner_close_def
      drop_sink_def put_peer_def)
  obtain m1 where 1: "rtc_act ?ev m' = Some ([], m1)" "rm_posted m1 = [(0, On_Local_Ice_Candidate ''c'')]" "rp_closed (rm_peers m1 0)"
    using m' by (simp add: on_ice_candidate_def post_if_def put_peer_def demo_library_def)
  obtain m2 where 2: "rtc_act Loop_Runs m1 = Some ([], m2)"
    using 1(2,3) by (simp add: on_local_ice_candidate_def rtc_tell_def)
  have r: "rtc_runs m' [?ev, Loop_Runs] [] m2"
    using rtc_step [OF rtc_step [OF rtc_start 1(1)] 2] by simp
  from closed_peer_is_silent [OF demo_rtc_apart demo_rtc_object demo_rtc_peer(1) c r] c r show ?thesis by blast
qed

theorem reports_reach_script_in_order_witness:
  "\<exists>m'. rtc_runs demo_rtc_open [Library_Event demo_library 0 (Ice_Candidate ''a'' 0 (Some ''c'')), Loop_Runs]
      [Rtc_Callback 0 eLuaWebrtcCallbackType_OnIceCandidate 8 (Text_Value ''c'')] m'
    \<and> (\<exists>rest. [Text_Value ''c''] = told 0 eLuaWebrtcCallbackType_OnIceCandidate
        [Rtc_Callback 0 eLuaWebrtcCallbackType_OnIceCandidate 8 (Text_Value ''c'')] @ rest)"
proof -
  let ?ev = "Library_Event demo_library 0 (Ice_Candidate ''a'' 0 (Some ''c''))"
  obtain m1 where 1: "rtc_act ?ev demo_rtc_open = Some ([], m1)" "rm_posted m1 = [(0, On_Local_Ice_Candidate ''c'')]" "rm_peers m1 0 = demo_peer"
    using demo_rtc_peer by (simp add: on_ice_candidate_def post_if_def put_peer_def demo_library_def demo_peer_def LuaRtcPeerConnection_new_def)
  obtain m2 where 2: "rtc_act Loop_Runs m1 = Some ([Rtc_Callback 0 eLuaWebrtcCallbackType_OnIceCandidate 8 (Text_Value ''c'')], m2)"
    using 1(2,3) by (simp add: on_local_ice_candidate_def rtc_tell_def demo_peer_def LuaRtcPeerConnection_new_def LUA_REFNIL_def c_text_def)
  have r: "rtc_runs demo_rtc_open [?ev, Loop_Runs] [Rtc_Callback 0 eLuaWebrtcCallbackType_OnIceCandidate 8 (Text_Value ''c'')] m2"
    using rtc_step [OF rtc_step [OF rtc_start 1(1)] 2] by simp
  have o: "open_peer 0 eLuaWebrtcCallbackType_OnIceCandidate demo_rtc_open"
    by (simp add: open_peer_def demo_rtc_defs)
  have "of_handlers 0 eLuaWebrtcCallbackType_OnIceCandidate (rm_posted demo_rtc_open)
      @ concat (map (reports 0 eLuaWebrtcCallbackType_OnIceCandidate) [?ev, Loop_Runs]) = [Text_Value ''c'']"
    by (simp add: demo_rtc_peer demo_library_def c_text_def)
  with reports_reach_script_in_order [OF r o] r show ?thesis by (auto simp: reported_types_def)
qed

end
