(* ===== verification/Bee_Safe_Queue.thy ===== *)
theory Bee_Safe_Queue
  imports Bee_Prelude "HOL-Library.Sublist"
begin

text \<open>
  \<open>SafeQueue\<close> (src/comLib/SafeQueue.h), the bounded queue through which \<open>comLib::Thread\<close> waits for its thread: a
  queue, a mutex and two semaphores (comLib/Semaphore.h), of which one counts the places and the other the entries.

  An operation is the sequence of its accesses to these; threads interleave between any two of them. An access goes on,
  with what is to be done before the rest of the operation, or blocks, or is undefined behaviour.
\<close>

section \<open>Operations\<close>

datatype 'a instr =
    Lock | Unlock
  | Wait_Empty | Post_Empty
  | Wait_Full | Wait_Full_Timed | Post_Full
  | Enqueue 'a | Dequeue | Discard
  | Drop_If_Full | Clear_Loop | Swap_Out

record 'a safe_queue =
  sq_items :: "'a list"
  sq_lock :: "nat option"
  sq_size :: nat
  sq_empty :: nat
  sq_full :: nat

definition SEM_VALUE_MAX :: nat where "SEM_VALUE_MAX = 2147483647"

definition SafeQueue_new :: "nat \<Rightarrow> 'a safe_queue" where
  "SafeQueue_new queue_size =
     (let n = (if SEM_VALUE_MAX < queue_size then SEM_VALUE_MAX else queue_size)
      in \<lparr>sq_items = [], sq_lock = None, sq_size = n, sq_empty = n, sq_full = 0\<rparr>)"

text \<open>The scope of a \<open>SingleMutex\<close> is what lies between \<open>Lock\<close> and \<open>Unlock\<close>.\<close>

definition sq_push :: "'a \<Rightarrow> 'a instr list" where
  "sq_push v = [Lock, Drop_If_Full, Wait_Empty, Enqueue v, Post_Full, Unlock]"

definition sq_block_push :: "'a \<Rightarrow> 'a instr list" where
  "sq_block_push v = [Wait_Empty, Lock, Enqueue v, Post_Full, Unlock]"

definition sq_block_pop :: "'a instr list" where
  "sq_block_pop = [Wait_Full, Lock, Dequeue, Post_Empty, Unlock]"

definition sq_pop :: "'a instr list" where
  "sq_pop = [Wait_Full_Timed, Lock, Dequeue, Post_Empty, Unlock]"

definition sq_get_size :: "'a instr list" where
  "sq_get_size = [Lock, Unlock]"

definition sq_clear :: "'a instr list" where
  "sq_clear = [Lock, Clear_Loop, Unlock]"

definition sq_dup_and_clear :: "'a instr list" where
  "sq_dup_and_clear = [Lock, Swap_Out, Unlock]"

datatype 'a outcome = Blocks | Breaks | Goes "'a safe_queue" "'a instr list"

text \<open>The branch of \<open>Push\<close> and a pass through the loop of \<open>Clear\<close>.\<close>

definition drop_first :: "'a instr list" where
  "drop_first = [Discard, Wait_Full, Post_Empty]"

fun instr_exec :: "nat \<Rightarrow> 'a instr \<Rightarrow> 'a safe_queue \<Rightarrow> 'a outcome" where
  "instr_exec t Lock q = (if sq_lock q = None then Goes (q\<lparr>sq_lock := Some t\<rparr>) [] else Blocks)"
| "instr_exec t Unlock q = Goes (q\<lparr>sq_lock := None\<rparr>) []"
| "instr_exec t Wait_Empty q = (if sq_empty q = 0 then Blocks else Goes (q\<lparr>sq_empty := sq_empty q - 1\<rparr>) [])"
| "instr_exec t Post_Empty q = Goes (q\<lparr>sq_empty := sq_empty q + 1\<rparr>) []"
| "instr_exec t Wait_Full q = (if sq_full q = 0 then Blocks else Goes (q\<lparr>sq_full := sq_full q - 1\<rparr>) [])"
| "instr_exec t Wait_Full_Timed q = (if sq_full q = 0 then Blocks else Goes (q\<lparr>sq_full := sq_full q - 1\<rparr>) [])"
| "instr_exec t Post_Full q = Goes (q\<lparr>sq_full := sq_full q + 1\<rparr>) []"
| "instr_exec t (Enqueue v) q = Goes (q\<lparr>sq_items := sq_items q @ [v]\<rparr>) []"
| "instr_exec t Dequeue q = (if sq_items q = [] then Breaks else Goes (q\<lparr>sq_items := tl (sq_items q)\<rparr>) [])"
| "instr_exec t Discard q = (if sq_items q = [] then Breaks else Goes (q\<lparr>sq_items := tl (sq_items q)\<rparr>) [])"
| "instr_exec t Drop_If_Full q = Goes q (if sq_size q \<le> length (sq_items q) then drop_first else [])"
| "instr_exec t Clear_Loop q = Goes q (if sq_items q = [] then [] else drop_first @ [Clear_Loop])"
| "instr_exec t Swap_Out q = Goes (q\<lparr>sq_items := []\<rparr>) []"

section \<open>Threads\<close>

text \<open>
  A thread is what is left of its operation. Ghosts keep what has been put in, what has left the queue, and what a
  thread has got.
\<close>

record 'a sq_world =
  sw_queue :: "'a safe_queue"
  sw_threads :: "'a instr list list"
  sw_in :: "'a list"
  sw_out :: "'a list"
  sw_got :: "(nat \<times> 'a) list"

definition sw_start :: "nat \<Rightarrow> nat \<Rightarrow> 'a sq_world" where
  "sw_start n threads = \<lparr>sw_queue = SafeQueue_new n, sw_threads = replicate threads [], sw_in = [], sw_out = [], sw_got = []\<rparr>"

fun ghost_in :: "'a instr \<Rightarrow> 'a list" where
  "ghost_in (Enqueue v) = [v]"
| "ghost_in _ = []"

fun ghost_out :: "'a instr \<Rightarrow> 'a safe_queue \<Rightarrow> 'a list" where
  "ghost_out Dequeue q = take 1 (sq_items q)"
| "ghost_out Discard q = take 1 (sq_items q)"
| "ghost_out _ q = []"

fun ghost_got :: "nat \<Rightarrow> 'a instr \<Rightarrow> 'a safe_queue \<Rightarrow> (nat \<times> 'a) list" where
  "ghost_got t Dequeue q = map (Pair t) (take 1 (sq_items q))"
| "ghost_got t _ q = []"

definition sw_goes :: "nat \<Rightarrow> 'a instr \<Rightarrow> 'a instr list \<Rightarrow> 'a safe_queue \<Rightarrow> 'a sq_world \<Rightarrow> 'a sq_world" where
  "sw_goes t i rest q w = w\<lparr>sw_queue := q, sw_threads := (sw_threads w)[t := rest], sw_in := sw_in w @ ghost_in i,
     sw_out := sw_out w @ ghost_out i (sw_queue w), sw_got := sw_got w @ ghost_got t i (sw_queue w)\<rparr>"

text \<open>Every operation but \<open>DupAndClear\<close>.\<close>

definition sq_operation :: "'a instr list \<Rightarrow> bool" where
  "sq_operation p \<longleftrightarrow> p \<in> {sq_block_pop, sq_pop, sq_get_size, sq_clear} \<or> (\<exists>v. p = sq_push v \<or> p = sq_block_push v)"

inductive sq_step :: "'a sq_world \<Rightarrow> 'a sq_world \<Rightarrow> bool" where
  starts: "t < length (sw_threads w) \<Longrightarrow> sw_threads w ! t = [] \<Longrightarrow> sq_operation p
    \<Longrightarrow> sq_step w (w\<lparr>sw_threads := (sw_threads w)[t := p]\<rparr>)"
| runs: "t < length (sw_threads w) \<Longrightarrow> sw_threads w ! t = i # rest \<Longrightarrow> instr_exec t i (sw_queue w) = Goes q first
    \<Longrightarrow> sq_step w (sw_goes t i (first @ rest) q w)"
| times_out: "t < length (sw_threads w) \<Longrightarrow> sw_threads w ! t = Wait_Full_Timed # rest \<Longrightarrow> sq_full (sw_queue w) = 0
    \<Longrightarrow> sq_step w (w\<lparr>sw_threads := (sw_threads w)[t := []]\<rparr>)"

abbreviation sq_steps :: "'a sq_world \<Rightarrow> 'a sq_world \<Rightarrow> bool" where
  "sq_steps \<equiv> sq_step\<^sup>*\<^sup>*"

section \<open>What is left to be done\<close>

text \<open>The rests of operations outside and inside of the mutex.\<close>

inductive outside :: "'a instr list \<Rightarrow> bool" where
  "outside []"
| "outside (sq_push v)"
| "outside (sq_block_push v)"
| "outside [Lock, Enqueue v, Post_Full, Unlock]"
| "outside sq_block_pop"
| "outside sq_pop"
| "outside [Lock, Dequeue, Post_Empty, Unlock]"
| "outside sq_get_size"
| "outside sq_clear"

abbreviation push_rest :: "'a \<Rightarrow> 'a instr list" where
  "push_rest v \<equiv> [Wait_Empty, Enqueue v, Post_Full, Unlock]"

inductive inside :: "'a instr list \<Rightarrow> bool" where
  "inside (Drop_If_Full # push_rest v)"
| "inside (drop_first @ push_rest v)"
| "inside (Wait_Full # Post_Empty # push_rest v)"
| "inside (Post_Empty # push_rest v)"
| "inside (push_rest v)"
| "inside [Enqueue v, Post_Full, Unlock]"
| "inside [Post_Full, Unlock]"
| "inside [Dequeue, Post_Empty, Unlock]"
| "inside [Post_Empty, Unlock]"
| "inside [Clear_Loop, Unlock]"
| "inside (drop_first @ [Clear_Loop, Unlock])"
| "inside [Wait_Full, Post_Empty, Clear_Loop, Unlock]"
| "inside [Post_Empty, Clear_Loop, Unlock]"
| "inside [Unlock]"

lemmas program_defs = sq_push_def sq_block_push_def sq_block_pop_def sq_pop_def sq_get_size_def sq_clear_def drop_first_def

inductive_simps outside_Cons: "outside (i # p)"
inductive_simps inside_Cons: "inside (i # p)"
inductive_simps inside_Nil: "inside []"

lemma outside_operation: "sq_operation p \<Longrightarrow> outside p"
  by (auto simp: sq_operation_def intro: outside.intros)

text \<open>
  What the rest of an operation does to the semaphores and the queue, counted: \<open>debt_full\<close> is by how much it still
  raises the count of entries above the number of entries, \<open>debt_empty\<close> by how much it still raises the count of
  places above minus that number.
\<close>

fun debt_full :: "'a instr list \<Rightarrow> int" where
  "debt_full [] = 0"
| "debt_full (i # p) = debt_full p + (case i of Post_Full \<Rightarrow> 1 | Wait_Full \<Rightarrow> - 1 | Wait_Full_Timed \<Rightarrow> - 1
     | Enqueue _ \<Rightarrow> - 1 | Dequeue \<Rightarrow> 1 | Discard \<Rightarrow> 1 | _ \<Rightarrow> 0)"

fun debt_empty :: "'a instr list \<Rightarrow> int" where
  "debt_empty [] = 0"
| "debt_empty (i # p) = debt_empty p + (case i of Post_Empty \<Rightarrow> 1 | Wait_Empty \<Rightarrow> - 1 | Enqueue _ \<Rightarrow> 1 | Dequeue \<Rightarrow> - 1
     | Discard \<Rightarrow> - 1 | _ \<Rightarrow> 0)"

lemma outside_debts:
  "outside p \<Longrightarrow> 0 \<le> debt_full p \<and> 0 \<le> debt_empty p"
  by (erule outside.cases) (simp_all add: program_defs)

lemma inside_debts: "inside p \<Longrightarrow> 0 \<le> debt_empty p"
  by (erule inside.cases) (simp_all add: program_defs)

lemma debts_append:
  "debt_full (p @ p') = debt_full p + debt_full p'" "debt_empty (p @ p') = debt_empty p + debt_empty p'"
  by (induction p) simp_all

text \<open>What the owner of the mutex knows of the queue.\<close>

definition owner_knows :: "'a instr list \<Rightarrow> 'a safe_queue \<Rightarrow> bool" where
  "owner_knows p q \<longleftrightarrow>
     (\<forall>rest. p = Discard # rest \<longrightarrow> sq_items q \<noteq> [])
     \<and> (\<forall>v. p = drop_first @ push_rest v \<longrightarrow> length (sq_items q) = sq_size q)
     \<and> (\<forall>v. p = Wait_Full # Post_Empty # push_rest v \<longrightarrow> length (sq_items q) + 1 = sq_size q)"

definition sw_inv :: "nat \<Rightarrow> 'a sq_world \<Rightarrow> bool" where
  "sw_inv n w \<longleftrightarrow>
     (let q = sw_queue w; ts = sw_threads w in
      sq_size q = n
      \<and> (\<forall>t. sq_lock q = Some t \<longrightarrow> t < length ts \<and> inside (ts ! t) \<and> owner_knows (ts ! t) q)
      \<and> (\<forall>t < length ts. sq_lock q \<noteq> Some t \<longrightarrow> outside (ts ! t))
      \<and> int (sq_full q) + sum_list (map debt_full ts) = int (length (sq_items q))
      \<and> int (sq_empty q) + sum_list (map debt_empty ts) + int (length (sq_items q)) = int n
      \<and> sw_in w = sw_out w @ sq_items q)"

section \<open>The invariant\<close>

lemma exec_debts:
  assumes "instr_exec t i q = Goes q1 first" and "i \<noteq> Swap_Out"
  shows "int (sq_full q1) + debt_full (first @ rest) - int (length (sq_items q1))
      = int (sq_full q) + debt_full (i # rest) - int (length (sq_items q))"
    and "int (sq_empty q1) + debt_empty (first @ rest) + int (length (sq_items q1))
      = int (sq_empty q) + debt_empty (i # rest) + int (length (sq_items q))"
    and "sq_size q1 = sq_size q"
  using assms by (cases i; cases "sq_items q"; auto simp: debts_append drop_first_def split: if_splits)+

lemma exec_owner:
  assumes "inside (i # rest)" and "owner_knows (i # rest) q" and "instr_exec t i q = Goes q1 first"
    and "length (sq_items q) \<le> sq_size q" and "0 < sq_size q"
  shows "i \<noteq> Swap_Out"
    and "if i = Unlock then rest = [] \<and> first = [] \<and> sq_lock q1 = None
      else sq_lock q1 = sq_lock q \<and> inside (first @ rest) \<and> owner_knows (first @ rest) q1"
  using assms(1)
   apply (rule inside.cases; simp add: drop_first_def)
  using assms
  apply (simp only: inside_Cons)
  apply (elim disjE exE conjE)
               apply (auto simp: owner_knows_def drop_first_def inside_Cons split: if_splits)
  done

lemma exec_outsider:
  assumes "outside (i # rest)" and "instr_exec t i q = Goes q1 first"
  shows "i \<noteq> Swap_Out" and "sq_items q1 = sq_items q" and "ghost_in i = []" and "ghost_out i q = []"
    and "if i = Lock then sq_lock q = None \<and> sq_lock q1 = Some t \<and> inside (first @ rest) \<and> owner_knows (first @ rest) q1
      else sq_lock q1 = sq_lock q \<and> outside (first @ rest)"
  using assms
      apply (simp_all only: outside_Cons)
      apply (auto simp: program_defs owner_knows_def inside_Cons outside_Cons split: if_splits)
  done

lemma exec_ghosts:
  assumes "instr_exec t i q = Goes q1 first" and "i \<noteq> Swap_Out" and "gone_in = gone_out @ sq_items q"
  shows "gone_in @ ghost_in i = (gone_out @ ghost_out i q) @ sq_items q1"
  using assms by (cases i; cases "sq_items q"; auto split: if_splits)

lemma sum_list_at:
  fixes f :: "'b \<Rightarrow> int"
  assumes "t < length xs"
  shows "sum_list (map f (xs[t := x])) = sum_list (map f xs) + f x - f (xs ! t)"
  using assms by (induction xs arbitrary: t) (auto simp: nth_Cons split: nat.split)

lemma sum_list_others:
  fixes f :: "'b \<Rightarrow> int"
  assumes "t < length xs" and "\<And>s. s < length xs \<Longrightarrow> s \<noteq> t \<Longrightarrow> 0 \<le> f (xs ! s)"
  shows "f (xs ! t) \<le> sum_list (map f xs)"
proof -
  have "0 \<le> sum f' {0..<length xs}" if "\<And>s. s < length xs \<Longrightarrow> 0 \<le> f' s" for f' :: "nat \<Rightarrow> int"
    using that by (intro sum_nonneg) simp
  from this [of "\<lambda>s. f (xs ! s) - (if s = t then f (xs ! t) else 0)"] assms
  show ?thesis by (simp add: sum_list_sum_nth sum_subtractf sum.delta)
qed

lemma sw_inv_bound:
  assumes "sw_inv n w"
  shows "length (sq_items (sw_queue w)) \<le> n" and "sq_size (sw_queue w) = n"
proof -
  have "0 \<le> sum_list (map debt_empty (sw_threads w))"
  proof (rule sum_list_nonneg)
    fix d assume "d \<in> set (map debt_empty (sw_threads w))"
    then obtain t where t: "t < length (sw_threads w)" "d = debt_empty (sw_threads w ! t)" by (auto simp: in_set_conv_nth)
    show "0 \<le> d"
      using assms t outside_debts [of "sw_threads w ! t"] inside_debts [of "sw_threads w ! t"]
      by (cases "sq_lock (sw_queue w) = Some t") (auto simp: sw_inv_def Let_def)
  qed
  then show "length (sq_items (sw_queue w)) \<le> n" using assms by (auto simp: sw_inv_def Let_def)
  show "sq_size (sw_queue w) = n" using assms by (simp add: sw_inv_def Let_def)
qed

lemma sw_inv_start: "0 < n \<Longrightarrow> n \<le> SEM_VALUE_MAX \<Longrightarrow> sw_inv n (sw_start n k)"
  by (auto simp: sw_inv_def sw_start_def SafeQueue_new_def Let_def sum_list_replicate intro: outside.intros)

lemma sw_inv_goes:
  assumes "sw_inv n w" and "0 < n" and "t < length (sw_threads w)" and "sw_threads w ! t = i # rest"
    and "instr_exec t i (sw_queue w) = Goes q first"
  shows "sw_inv n (sw_goes t i (first @ rest) q w)"
proof -
  let ?q = "sw_queue w" and ?ts = "sw_threads w"
  note len = sw_inv_bound [OF assms(1)]
  have all: "i \<noteq> Swap_Out
    \<and> (\<forall>s. sq_lock q = Some s \<longrightarrow> s < length ?ts \<and> inside (?ts[t := first @ rest] ! s) \<and> owner_knows (?ts[t := first @ rest] ! s) q)
    \<and> (\<forall>s < length ?ts. sq_lock q \<noteq> Some s \<longrightarrow> outside (?ts[t := first @ rest] ! s))"
  proof (cases "sq_lock ?q = Some t")
    case True
    then have "inside (i # rest)" "owner_knows (i # rest) ?q" using assms(1,4) by (auto simp: sw_inv_def Let_def)
    note e = exec_owner [OF this assms(5)]
    have f: "if i = Unlock then rest = [] \<and> first = [] \<and> sq_lock q = None
      else sq_lock q = Some t \<and> inside (first @ rest) \<and> owner_knows (first @ rest) q" using e(2) len assms(2) True by simp
    then have "\<forall>s < length ?ts. sq_lock q \<noteq> Some s \<longrightarrow> outside (?ts[t := first @ rest] ! s)"
      using assms(1) True by (auto simp: sw_inv_def Let_def nth_list_update split: if_splits intro: outside.intros)
    with f e(1) len assms(2,3) show ?thesis by (auto split: if_splits)
  next
    case False
    then have "outside (i # rest)" using assms(1,3,4) by (auto simp: sw_inv_def Let_def)
    note e = exec_outsider [OF this assms(5)]
    have k: "owner_knows p q = owner_knows p ?q" for p
      using e(2) exec_debts(3) [OF assms(5) e(1)] by (simp add: owner_knows_def)
    have "\<forall>s. sq_lock q = Some s \<longrightarrow> s < length ?ts \<and> inside (?ts[t := first @ rest] ! s) \<and> owner_knows (?ts[t := first @ rest] ! s) q"
      using e(5) assms(1,3) False by (auto simp: sw_inv_def Let_def nth_list_update k split: if_splits)
    moreover have "\<forall>s < length ?ts. sq_lock q \<noteq> Some s \<longrightarrow> outside (?ts[t := first @ rest] ! s)"
      using e(5) assms(1,3) False by (auto simp: sw_inv_def Let_def nth_list_update split: if_splits)
    ultimately show ?thesis using e(1) by blast
  qed
  then have i: "i \<noteq> Swap_Out" by blast
  note d = exec_debts [OF assms(5) i]
  have "int (sq_full q) + sum_list (map debt_full (?ts[t := first @ rest])) = int (length (sq_items q))"
    using d(1) [of rest] assms(1) by (simp add: sum_list_at [OF assms(3)] assms(4) sw_inv_def Let_def)
  moreover have "int (sq_empty q) + sum_list (map debt_empty (?ts[t := first @ rest])) + int (length (sq_items q)) = int n"
    using d(2) [of rest] assms(1) by (simp add: sum_list_at [OF assms(3)] assms(4) sw_inv_def Let_def)
  moreover have "sw_in w @ ghost_in i = (sw_out w @ ghost_out i ?q) @ sq_items q"
    using assms(1) by (intro exec_ghosts [OF assms(5) i]) (simp add: sw_inv_def Let_def)
  ultimately show ?thesis
    using all d(3) len(2) by (simp add: sw_inv_def sw_goes_def Let_def)
qed

lemma sw_inv_step:
  assumes "sq_step w w1" and "sw_inv n w" and "0 < n"
  shows "sw_inv n w1"
  using assms(1)
proof (cases rule: sq_step.cases)
  case (starts t p)
  have o: "sq_lock (sw_queue w) \<noteq> Some t" using starts(3) assms(2) inside_Nil by (auto simp: sw_inv_def Let_def)
  have "outside p" by (rule outside_operation [OF starts(4)])
  moreover have "debt_full p = 0" "debt_empty p = 0" using starts(4) by (auto simp: sq_operation_def program_defs)
  ultimately show ?thesis
    using starts(1-3) o assms(2) by (auto simp: sw_inv_def Let_def sum_list_at nth_list_update)
next
  case (runs t i rest q first)
  then show ?thesis using sw_inv_goes [OF assms(2,3)] by blast
next
  case (times_out t rest)
  have o: "sq_lock (sw_queue w) \<noteq> Some t"
    using times_out(3) assms(2) by (auto simp: sw_inv_def Let_def inside_Cons drop_first_def)
  with times_out(2,3) assms(2) have "outside (Wait_Full_Timed # rest)" by (auto simp: sw_inv_def Let_def)
  then have "debt_full (Wait_Full_Timed # rest) = 0" "debt_empty (Wait_Full_Timed # rest) = 0"
    by (auto simp: outside_Cons program_defs)
  with times_out(1-3) o assms(2) show ?thesis
    by (auto simp: sw_inv_def Let_def sum_list_at nth_list_update intro: outside.intros)
qed

lemma sw_inv_steps:
  assumes "sq_steps (sw_start n k) w" and "0 < n" and "n \<le> SEM_VALUE_MAX"
  shows "sw_inv n w"
  using assms(1) by (induction rule: rtranclp_induct) (use sw_inv_start assms sw_inv_step in blast)+

section \<open>What the queue keeps\<close>

lemma got_in_order: "sq_steps (sw_start n k) w \<Longrightarrow> subseq (map snd (sw_got w)) (sw_out w)"
proof (induction rule: rtranclp_induct)
  case (step w w1)
  have "subseq (map snd (ghost_got t i q)) (ghost_out i q)" for t q and i :: "'a instr"
    by (cases i) (simp_all add: comp_def)
  with step(2,3) show ?case
    by (cases rule: sq_step.cases) (auto simp: sw_goes_def list_emb_append_mono)
qed (simp add: sw_start_def)

text \<open>
  C26: however threads interleave, a queue with at least one place never takes from an empty queue, never holds more
  than its size, and is first in first out: what has been put in is what has left it followed by what it holds, and
  what the threads have got is a part of what has left it, in order.
\<close>

theorem queue_never_breaks:
  assumes "sq_steps (sw_start n k) w" and "0 < n" and "n \<le> SEM_VALUE_MAX"
  shows "(\<forall>t < length (sw_threads w). \<forall>i rest. sw_threads w ! t = i # rest \<longrightarrow> instr_exec t i (sw_queue w) \<noteq> Breaks)
    \<and> length (sq_items (sw_queue w)) \<le> n \<and> sw_in w = sw_out w @ sq_items (sw_queue w)
    \<and> subseq (map snd (sw_got w)) (sw_out w)"
proof -
  have inv: "sw_inv n w" by (rule sw_inv_steps [OF assms])
  have "instr_exec t i (sw_queue w) \<noteq> Breaks" if t: "t < length (sw_threads w)" "sw_threads w ! t = i # rest" for t i rest
  proof (cases "sq_lock (sw_queue w) = Some t")
    case True
    then have o: "inside (i # rest)" "owner_knows (i # rest) (sw_queue w)" using inv t(2) by (auto simp: sw_inv_def Let_def)
    have "0 \<le> debt_full (sw_threads w ! s)" if "s < length (sw_threads w)" "s \<noteq> t" for s
      using that inv True outside_debts by (auto simp: sw_inv_def Let_def)
    from sum_list_others [OF t(1), of debt_full, OF this] inv
    have "debt_full (i # rest) + int (sq_full (sw_queue w)) \<le> int (length (sq_items (sw_queue w)))"
      using t(2) by (auto simp: sw_inv_def Let_def)
    with o show ?thesis by (cases i) (auto simp: inside_Cons owner_knows_def drop_first_def)
  next
    case False
    then have "outside (i # rest)" using inv t by (auto simp: sw_inv_def Let_def)
    then show ?thesis by (auto simp: outside_Cons program_defs split: if_splits)
  qed
  moreover have "sw_in w = sw_out w @ sq_items (sw_queue w)" using inv by (simp add: sw_inv_def Let_def)
  ultimately show ?thesis using sw_inv_bound(1) [OF inv] got_in_order [OF assms(1)] by blast
qed

section \<open>Waiting under the mutex\<close>

text \<open>Threads that have been promised an entry but do not have the mutex yet.\<close>

abbreviation promised :: "'a instr list" where
  "promised \<equiv> [Lock, Dequeue, Post_Empty, Unlock]"

lemma outside_debt_full: "outside p \<Longrightarrow> debt_full p = (if p = promised then 1 else 0)"
  by (erule outside.cases) (simp_all add: program_defs)

lemma sum_list_count_others:
  assumes "t < length ts" and "\<And>s. s < length ts \<Longrightarrow> s \<noteq> t \<Longrightarrow> outside (ts ! s)" and "ts ! t \<noteq> promised"
  shows "sum_list (map debt_full ts) = debt_full (ts ! t) + int (length (filter (\<lambda>p. p = promised) ts))"
  using assms
proof (induction ts arbitrary: t)
  case (Cons p ts)
  have count: "sum_list (map debt_full ps) = int (length (filter (\<lambda>p. p = promised) ps))"
    if "\<And>s. s < length ps \<Longrightarrow> outside (ps ! s)" for ps :: "'a instr list list"
    using that
  proof (induction ps)
    case (Cons a ps)
    have "outside a" "\<And>s. s < length ps \<Longrightarrow> outside (ps ! s)" using Cons.prems [of 0] Cons.prems [of "Suc s" for s] by simp_all
    with Cons.IH show ?case by (simp add: outside_debt_full)
  qed simp
  show ?case
  proof (cases t)
    case 0
    have "outside (ts ! s)" if "s < length ts" for s using that Cons.prems(2) [of "Suc s"] 0 by simp
    from count [OF this] show ?thesis using 0 Cons.prems(3) by simp
  next
    case (Suc t1)
    have "outside (ts ! s)" if "s < length ts" "s \<noteq> t1" for s using that Cons.prems(2) [of "Suc s"] Suc by simp
    with Cons.IH [of t1] Cons.prems(1,3) Suc
    have "sum_list (map debt_full ts) = debt_full (ts ! t1) + int (length (filter (\<lambda>p. p = promised) ts))" by simp
    moreover have "outside p" using Cons.prems(2) [of 0] Suc by simp
    ultimately show ?thesis using Suc by (simp add: outside_debt_full)
  qed
qed simp

text \<open>
  A full queue whose \<open>Push\<close> throws away an entry waits for the semaphore of entries while it holds the mutex. What
  it finds there is the queue's size less the number of threads that have been promised an entry, so it waits exactly
  when there are as many of these as places.
\<close>

theorem push_waits_under_mutex:
  assumes "sq_steps (sw_start n k) w" and "0 < n" and "n \<le> SEM_VALUE_MAX"
    and "sq_lock (sw_queue w) = Some t" and "sw_threads w ! t = Wait_Full # Post_Empty # push_rest v"
  shows "sq_full (sw_queue w) + length (filter (\<lambda>p. p = promised) (sw_threads w)) = n"
proof -
  have inv: "sw_inv n w" by (rule sw_inv_steps [OF assms(1-3)])
  then have t: "t < length (sw_threads w)" "owner_knows (sw_threads w ! t) (sw_queue w)"
    "int (sq_full (sw_queue w)) + sum_list (map debt_full (sw_threads w)) = int (length (sq_items (sw_queue w)))"
    "sq_size (sw_queue w) = n"
    using assms(4) by (auto simp: sw_inv_def Let_def)
  have "outside (sw_threads w ! s)" if "s < length (sw_threads w)" "s \<noteq> t" for s
    using that inv assms(4) by (auto simp: sw_inv_def Let_def)
  from sum_list_count_others [OF t(1) this] assms(5)
  have "sum_list (map debt_full (sw_threads w)) = - 1 + int (length (filter (\<lambda>p. p = promised) (sw_threads w)))" by simp
  with t(2-4) assms(5) show ?thesis by (simp add: owner_knows_def)
qed

text \<open>Then it waits for ever, and so does everybody who wants the mutex.\<close>

lemma stuck_step:
  assumes "sq_step w w1" and "sw_inv n w" and "0 < n"
    and "sq_lock (sw_queue w) = Some t \<and> sq_full (sw_queue w) = 0 \<and> sw_threads w ! t = Wait_Full # rest"
  shows "sq_lock (sw_queue w1) = Some t \<and> sq_full (sw_queue w1) = 0 \<and> sw_threads w1 ! t = Wait_Full # rest"
  using assms(1)
proof (cases rule: sq_step.cases)
  case (runs s i p q first)
  show ?thesis
  proof (cases "s = t")
    case False
    then have "outside (i # p)" using assms(2,4) runs by (auto simp: sw_inv_def Let_def)
    with runs False assms(4) show ?thesis
      by (auto simp: outside_Cons program_defs sw_goes_def split: if_splits)
  qed (use runs assms(4) in auto)
qed (use assms(4) in \<open>auto simp: nth_list_update\<close>)

lemma stuck_for_ever:
  assumes "sq_steps w w1" and "sw_inv n w" and "0 < n"
    and "sq_lock (sw_queue w) = Some t \<and> sq_full (sw_queue w) = 0 \<and> sw_threads w ! t = Wait_Full # rest"
  shows "sq_lock (sw_queue w1) = Some t \<and> sq_full (sw_queue w1) = 0 \<and> sw_threads w1 ! t = Wait_Full # rest \<and> sw_inv n w1"
  using assms(1)
proof (induction rule: rtranclp_induct)
  case (step w1 w2)
  then show ?case using stuck_step sw_inv_step assms(3) by blast
qed (use assms in simp)

section \<open>Operations on their own\<close>

text \<open>One thread runs while the others rest; \<open>k\<close> bounds its accesses.\<close>

fun sq_alone :: "nat \<Rightarrow> nat \<Rightarrow> 'a instr list \<Rightarrow> 'a safe_queue \<Rightarrow> 'a safe_queue option" where
  "sq_alone k t [] q = Some q"
| "sq_alone 0 t (i # rest) q = None"
| "sq_alone (Suc k) t (i # rest) q =
     (case instr_exec t i q of Goes q1 first \<Rightarrow> sq_alone k t (first @ rest) q1 | _ \<Rightarrow> None)"

definition sq_quiet :: "'a safe_queue \<Rightarrow> bool" where
  "sq_quiet q \<longleftrightarrow> sq_lock q = None \<and> sq_full q = length (sq_items q) \<and> sq_empty q + length (sq_items q) = sq_size q \<and> 0 < sq_size q"

lemma clear_loop_alone:
  assumes "sq_full q = length (sq_items q)" and "sq_lock q = Some t"
  shows "\<exists>k. sq_alone k t [Clear_Loop, Unlock] q
    = Some (q\<lparr>sq_items := [], sq_full := 0, sq_empty := sq_empty q + length (sq_items q), sq_lock := None\<rparr>)"
  using assms
proof (induction "sq_items q" arbitrary: q)
  case Nil
  then have "sq_alone 2 t [Clear_Loop, Unlock] q
    = Some (q\<lparr>sq_items := [], sq_full := 0, sq_empty := sq_empty q + length (sq_items q), sq_lock := None\<rparr>)"
    by (simp add: numeral_2_eq_2)
  then show ?case by blast
next
  case (Cons x xs)
  let ?q = "q\<lparr>sq_items := xs, sq_full := sq_full q - 1, sq_empty := sq_empty q + 1\<rparr>"
  from Cons.hyps(1) [of ?q] Cons.prems Cons.hyps(2) [symmetric] obtain k where
    "sq_alone k t [Clear_Loop, Unlock] ?q
      = Some (q\<lparr>sq_items := [], sq_full := 0, sq_empty := sq_empty q + 1 + length xs, sq_lock := None\<rparr>)" by auto
  then have "sq_alone (Suc (Suc (Suc (Suc k)))) t [Clear_Loop, Unlock] q
      = Some (q\<lparr>sq_items := [], sq_full := 0, sq_empty := sq_empty q + length (sq_items q), sq_lock := None\<rparr>)"
    using Cons.prems Cons.hyps(2) [symmetric] by (simp add: drop_first_def)
  then show ?case by blast
qed

text \<open>
  For a thread that has the queue for itself \<open>Push\<close> appends, without the first entry if there is no room, \<open>BlockPop\<close>
  takes the first entry and \<open>Clear\<close> leaves none; all of them return and leave the semaphores in step with the queue.
\<close>

theorem operations_alone:
  assumes "sq_quiet q"
  shows "(\<exists>k q1. sq_alone k t (sq_push v) q = Some q1 \<and> sq_quiet q1
      \<and> sq_items q1 = (if length (sq_items q) < sq_size q then sq_items q else tl (sq_items q)) @ [v])
    \<and> (sq_items q \<noteq> [] \<longrightarrow> (\<exists>k q1. sq_alone k t sq_block_pop q = Some q1 \<and> sq_quiet q1 \<and> sq_items q1 = tl (sq_items q)))
    \<and> (\<exists>k q1. sq_alone k t sq_clear q = Some q1 \<and> sq_quiet q1 \<and> sq_items q1 = [])"
proof (intro conjI impI)
  have "sq_alone (Suc (Suc (Suc (Suc (Suc (Suc (Suc (Suc (Suc 0))))))))) t (sq_push v) q \<noteq> None
    \<and> (\<forall>q1. sq_alone (Suc (Suc (Suc (Suc (Suc (Suc (Suc (Suc (Suc 0))))))))) t (sq_push v) q = Some q1 \<longrightarrow> sq_quiet q1
      \<and> sq_items q1 = (if length (sq_items q) < sq_size q then sq_items q else tl (sq_items q)) @ [v])"
    using assms by (cases "sq_items q") (auto simp: sq_push_def sq_quiet_def drop_first_def)
  then show "\<exists>k q1. sq_alone k t (sq_push v) q = Some q1 \<and> sq_quiet q1
      \<and> sq_items q1 = (if length (sq_items q) < sq_size q then sq_items q else tl (sq_items q)) @ [v]" by blast
  show "\<exists>k q1. sq_alone k t sq_block_pop q = Some q1 \<and> sq_quiet q1 \<and> sq_items q1 = tl (sq_items q)" if "sq_items q \<noteq> []"
  proof -
    have "sq_alone (Suc (Suc (Suc (Suc (Suc 0))))) t sq_block_pop q
      = Some (q\<lparr>sq_full := sq_full q - 1, sq_items := tl (sq_items q), sq_empty := sq_empty q + 1\<rparr>)"
      using assms that by (cases "sq_items q") (auto simp: sq_block_pop_def sq_quiet_def)
    moreover have "sq_quiet (q\<lparr>sq_full := sq_full q - 1, sq_items := tl (sq_items q), sq_empty := sq_empty q + 1\<rparr>)"
      using assms that by (cases "sq_items q") (auto simp: sq_quiet_def)
    ultimately show ?thesis by fastforce
  qed
  from clear_loop_alone [of "q\<lparr>sq_lock := Some t\<rparr>" t] assms obtain k where
    "sq_alone k t [Clear_Loop, Unlock] (q\<lparr>sq_lock := Some t\<rparr>)
      = Some (q\<lparr>sq_items := [], sq_full := 0, sq_empty := sq_empty q + length (sq_items q), sq_lock := None\<rparr>)"
    by (auto simp: sq_quiet_def)
  then have "sq_alone (Suc k) t sq_clear q
      = Some (q\<lparr>sq_items := [], sq_full := 0, sq_empty := sq_empty q + length (sq_items q), sq_lock := None\<rparr>)"
    using assms by (simp add: sq_clear_def sq_quiet_def)
  moreover have "sq_quiet (q\<lparr>sq_items := [], sq_full := 0, sq_empty := sq_empty q + length (sq_items q), sq_lock := None\<rparr>)"
    using assms by (simp add: sq_quiet_def)
  ultimately show "\<exists>k q1. sq_alone k t sq_clear q = Some q1 \<and> sq_quiet q1 \<and> sq_items q1 = []" by fastforce
qed

text \<open>
  \<open>DupAndClear\<close> empties the queue but not the semaphore of entries: the next thread that waits for an entry is let in
  and takes from an empty queue.
\<close>

theorem pop_after_dup_and_clear_breaks:
  assumes "sq_quiet q" and "sq_items q \<noteq> []"
  shows "\<exists>q1. sq_alone 3 t sq_dup_and_clear q = Some q1 \<and> (\<forall>k. sq_alone k t sq_block_pop q1 = None)"
proof -
  let ?q = "q\<lparr>sq_items := []\<rparr>"
  have "sq_alone 3 t sq_dup_and_clear q = Some ?q"
    using assms(1) by (simp add: sq_dup_and_clear_def sq_quiet_def numeral_3_eq_3)
  moreover have "sq_alone k t sq_block_pop ?q = None" for k
    using assms by (cases k; cases "k - 1"; cases "k - 2") (auto simp: sq_block_pop_def sq_quiet_def)
  ultimately show ?thesis by blast
qed

section \<open>A queue that gets stuck\<close>

definition sw_run :: "nat \<Rightarrow> 'a sq_world \<Rightarrow> 'a sq_world" where
  "sw_run t w =
     (case sw_threads w ! t of
        [] \<Rightarrow> w
      | i # rest \<Rightarrow> (case instr_exec t i (sw_queue w) of Goes q first \<Rightarrow> sw_goes t i (first @ rest) q w | _ \<Rightarrow> w))"

lemma sw_run_steps: "t < length (sw_threads w) \<Longrightarrow> sq_steps w (sw_run t w)"
  unfolding sw_run_def by (auto split: list.split outcome.split intro: sq_step.runs)

lemma sw_run_length [simp]: "length (sw_threads (sw_run t w)) = length (sw_threads w)"
  by (auto simp: sw_run_def sw_goes_def split: list.split outcome.split)

lemma sw_runs_steps: "\<forall>t \<in> set ts. t < length (sw_threads w) \<Longrightarrow> sq_steps w (fold sw_run ts w)"
proof (induction ts arbitrary: w)
  case (Cons t ts)
  from Cons.prems have "sq_steps w (sw_run t w)" by (intro sw_run_steps) simp
  moreover have "sq_steps (sw_run t w) (fold sw_run ts (sw_run t w))" using Cons.prems by (intro Cons.IH) simp
  ultimately show ?case by simp
qed simp

text \<open>
  With one place: thread 1 has been promised the only entry, then thread 0 has taken the mutex for another \<open>Push\<close> and
  has thrown that entry away.
\<close>

definition stuck_world :: "'a \<Rightarrow> 'a sq_world" where
  "stuck_world v = \<lparr>sw_queue = \<lparr>sq_items = [], sq_lock = Some 0, sq_size = 1, sq_empty = 0, sq_full = 0\<rparr>,
     sw_threads = [Wait_Full # Post_Empty # push_rest v, promised], sw_in = [v], sw_out = [v], sw_got = []\<rparr>"

lemma stuck_world_reached: "sq_steps (sw_start 1 2) (stuck_world (v :: 'a))"
proof -
  define world where "world = (\<lambda>q ts ins outs. \<lparr>sw_queue = q, sw_threads = ts, sw_in = ins, sw_out = outs, sw_got = []\<rparr> :: 'a sq_world)"
  define queue where "queue = (\<lambda>items lock emptys fulls. \<lparr>sq_items = items, sq_lock = lock, sq_size = 1, sq_empty = emptys, sq_full = fulls\<rparr> :: 'a safe_queue)"
  have start: "sw_start 1 2 = world (queue [] None 1 0) [[], []] [] []"
    by (simp add: world_def queue_def sw_start_def SafeQueue_new_def SEM_VALUE_MAX_def numeral_2_eq_2)
  have begins: "sq_step (world q ts ins outs) (world q (ts[t := p]) ins outs)"
    if "t < length ts" "ts ! t = []" "sq_operation p" for q ts ins outs t p
    using sq_step.starts [of t "world q ts ins outs" p] that by (simp add: world_def)
  have first: "sq_steps (world (queue [] None 1 0) [sq_push v, []] [] []) (world (queue [v] None 0 1) [[], []] [v] [])"
    using sw_runs_steps [of "[0, 0, 0, 0, 0, 0]" "world (queue [] None 1 0) [sq_push v, []] [] []"]
    by (simp add: world_def queue_def sw_run_def sw_goes_def sq_push_def)
  have second: "sq_steps (world (queue [v] None 0 1) [[], sq_block_pop] [v] []) (world (queue [v] None 0 0) [[], promised] [v] [])"
    using sw_runs_steps [of "[1]" "world (queue [v] None 0 1) [[], sq_block_pop] [v] []"]
    by (simp add: world_def queue_def sw_run_def sw_goes_def sq_block_pop_def)
  have third: "sq_steps (world (queue [v] None 0 0) [sq_push v, promised] [v] []) (world (queue [] (Some 0) 0 0) [Wait_Full # Post_Empty # push_rest v, promised] [v] [v])"
    using sw_runs_steps [of "[0, 0, 0]" "world (queue [v] None 0 0) [sq_push v, promised] [v] []"]
    by (simp add: world_def queue_def sw_run_def sw_goes_def sq_push_def drop_first_def)
  have op: "sq_operation (sq_push v)" "sq_operation (sq_block_pop :: 'a instr list)" by (auto simp: sq_operation_def)
  have "sq_step (sw_start 1 2) (world (queue [] None 1 0) [sq_push v, []] [] [])"
    using begins [of 0 "[[], []]" "sq_push v"] op(1) unfolding start by simp
  note a = rtranclp_trans [OF r_into_rtranclp [of sq_step, OF this] first]
  have "sq_step (world (queue [v] None 0 1) [[], []] [v] []) (world (queue [v] None 0 1) [[], sq_block_pop] [v] [])"
    using begins [of 1 "[[], []]" sq_block_pop] op(2) by simp
  note b = rtranclp_trans [OF r_into_rtranclp [of sq_step, OF this] second]
  have "sq_step (world (queue [v] None 0 0) [[], promised] [v] []) (world (queue [v] None 0 0) [sq_push v, promised] [v] [])"
    using begins [of 0 "[[], promised]" "sq_push v"] op(1) by simp
  note c = rtranclp_trans [OF r_into_rtranclp [of sq_step, OF this] third]
  show ?thesis
    using rtranclp_trans [OF a rtranclp_trans [OF b c]] by (simp add: stuck_world_def world_def queue_def)
qed

text \<open>
  That state can be reached, and from it neither of the two threads ever comes back.
\<close>

theorem push_and_pop_wait_for_each_other:
  "sq_steps (sw_start 1 2) (stuck_world v) \<and> (\<forall>w. sq_steps (stuck_world v) w \<longrightarrow>
     sw_threads w ! 0 = Wait_Full # Post_Empty # push_rest v \<and> sw_threads w ! 1 = promised)"
proof -
  note reach = stuck_world_reached [of v]
  have inv: "sw_inv 1 (stuck_world v)" by (rule sw_inv_steps [OF reach]) (simp_all add: SEM_VALUE_MAX_def)
  have stuck: "sq_lock (sw_queue (stuck_world v)) = Some 0 \<and> sq_full (sw_queue (stuck_world v)) = 0 \<and> sw_threads (stuck_world v) ! 0 = Wait_Full # Post_Empty # push_rest v"
    by (simp add: stuck_world_def)
  have other: "sw_threads w1 ! 1 = promised" if "sq_steps (stuck_world v) w1" for w1
    using that
  proof (induction rule: rtranclp_induct)
    case (step w1 w2)
    from stuck_for_ever [OF step(1) inv _ stuck] have lock: "sq_lock (sw_queue w1) = Some 0" by simp
    from step(2) show ?case
    proof (cases rule: sq_step.cases)
      case (runs s i rest q first)
      have "s \<noteq> 1" using runs(3,4) step(3) lock by auto
      then show ?thesis using runs(1) step(3) by (simp add: sw_goes_def)
    next
      case (starts s p)
      then have "s \<noteq> 1" using step(3) by auto
      then show ?thesis using starts(1) step(3) by simp
    next
      case (times_out s rest)
      then have "s \<noteq> 1" using step(3) by auto
      then show ?thesis using times_out(1) step(3) by simp
    qed
  qed (simp add: stuck_world_def)
  have own: "sw_threads w1 ! 0 = Wait_Full # Post_Empty # push_rest v" if "sq_steps (stuck_world v) w1" for w1
    using stuck_for_ever [OF that inv _ stuck] by simp
  show ?thesis by (intro conjI allI impI reach own other)
qed

section \<open>Instances\<close>

lemma pushed_reached: "sq_steps (sw_start 2 1)
    \<lparr>sw_queue = \<lparr>sq_items = [7 :: nat], sq_lock = None, sq_size = 2, sq_empty = 1, sq_full = 1\<rparr>, sw_threads = [[]], sw_in = [7], sw_out = [], sw_got = []\<rparr>"
proof -
  let ?w = "(sw_start 2 1 :: nat sq_world)\<lparr>sw_threads := [sq_push 7]\<rparr>"
  have "sq_step (sw_start 2 1) ?w"
    using sq_step.starts [of 0 "sw_start 2 1" "sq_push 7"] by (auto simp: sw_start_def sq_operation_def)
  moreover have "sq_steps ?w (fold sw_run [0, 0, 0, 0, 0, 0] ?w)" by (rule sw_runs_steps) (simp add: sw_start_def)
  ultimately have "sq_steps (sw_start 2 1) (fold sw_run [0, 0, 0, 0, 0, 0] ?w)" by (rule converse_rtranclp_into_rtranclp)
  then show ?thesis by (simp add: sw_run_def sw_goes_def sq_push_def sw_start_def SafeQueue_new_def SEM_VALUE_MAX_def)
qed

theorem queue_never_breaks_witness:
  "[7 :: nat] = [] @ [7] \<and> length [7 :: nat] \<le> 2"
  using queue_never_breaks [OF pushed_reached] by (simp add: SEM_VALUE_MAX_def)

theorem push_waits_under_mutex_witness:
  "sq_full (sw_queue (stuck_world (7 :: nat))) + length (filter (\<lambda>p. p = promised) (sw_threads (stuck_world (7 :: nat)))) = 1"
  by (rule push_waits_under_mutex [OF stuck_world_reached, where t = 0 and v = 7]) (simp_all add: SEM_VALUE_MAX_def stuck_world_def)

theorem operations_alone_witness:
  "\<exists>k q1. sq_alone k 0 (sq_push 3) \<lparr>sq_items = [1, 2 :: nat], sq_lock = None, sq_size = 2, sq_empty = 0, sq_full = 2\<rparr> = Some q1
    \<and> sq_items q1 = [2, 3]"
  using operations_alone [of "\<lparr>sq_items = [1, 2 :: nat], sq_lock = None, sq_size = 2, sq_empty = 0, sq_full = 2\<rparr>" 0 3]
  by (auto simp: sq_quiet_def)

theorem pop_after_dup_and_clear_breaks_witness:
  "\<exists>q1. \<forall>k. sq_alone k 0 sq_block_pop (q1 :: nat safe_queue) = None"
  using pop_after_dup_and_clear_breaks [of "\<lparr>sq_items = [1 :: nat], sq_lock = None, sq_size = 2, sq_empty = 1, sq_full = 1\<rparr>" 0]
  by (auto simp: sq_quiet_def)

end
