(* ===== verification/Bee_Threads.thy ===== *)
theory Bee_Threads
  imports Bee_Safe_Queue
begin

text \<open>
  \<open>Semaphore::Wait\<close> with a timeout (src/comLib/Semaphore.h, neither for Windows nor for iOS) and \<open>Thread\<close>
  (src/comLib/Thread.h), whose \<open>SynStart\<close> and \<open>SynStop\<close> wait for their thread through two queues. One thread calls
  these, so the mutex around them is never waited for. The entries of the queues are all 1; a queue of 16384 places
  does not fill, and by \<open>Bee_Safe_Queue\<close> its operations can be taken as single steps when one thread pops and clears.
\<close>

section \<open>Deadlines\<close>

text \<open>Division of an \<open>int\<close> truncates.\<close>

definition c_div :: "int \<Rightarrow> int \<Rightarrow> int" where
  "c_div a b = (if 0 \<le> a then a div b else - ((- a) div b))"

definition c_mod :: "int \<Rightarrow> int \<Rightarrow> int" where
  "c_mod a b = a - c_div a b * b"

text \<open>A time is seconds and nanoseconds.\<close>

definition sem_deadline :: "int \<Rightarrow> int \<times> int \<Rightarrow> int \<times> int" where
  "sem_deadline timeout now =
     (let (sec, nsec) = now;
          timeout_sec = c_div timeout 1000;
          timeout_ms = c_mod timeout 1000;
          sec1 = sec + timeout_sec;
          ts_ms = nsec div 1000 div 1000
      in if ts_ms + timeout_ms < 1000 then (sec1, nsec + timeout_ms * 1000 * 1000)
         else (sec1 + 1, (ts_ms + timeout_ms - 1000) * 1000 * 1000))"

definition nanoseconds :: "int \<times> int \<Rightarrow> int" where
  "nanoseconds t = fst t * 1000000000 + snd t"

definition valid_time :: "int \<times> int \<Rightarrow> bool" where
  "valid_time t \<longleftrightarrow> 0 \<le> snd t \<and> snd t < 1000000000"

text \<open>\<open>INFINITE\<close> where it is passed as an \<open>int\<close>.\<close>

definition INFINITE :: int where "INFINITE = - 1"

text \<open>
  For a timeout that is not negative the deadline is a valid time, not later than the timeout from now and less
  than a millisecond before that. For \<open>INFINITE\<close>, the default of \<open>SynStart\<close> and \<open>SynStop\<close>, it has passed, so these do
  not wait at all.
\<close>

theorem deadline_bounds:
  assumes "valid_time now"
  shows "(0 \<le> timeout \<longrightarrow> valid_time (sem_deadline timeout now)
      \<and> nanoseconds (sem_deadline timeout now) \<le> nanoseconds now + timeout * 1000000
      \<and> nanoseconds now + timeout * 1000000 - 1000000 < nanoseconds (sem_deadline timeout now))
    \<and> nanoseconds (sem_deadline INFINITE now) = nanoseconds now - 1000000"
proof (intro conjI impI)
  obtain sec nsec where now: "now = (sec, nsec)" by force
  have n: "0 \<le> nsec" "nsec < 1000000000" using assms by (simp_all add: now valid_time_def)
  define m where "m = nsec div 1000 div 1000"
  have "m = nsec div 1000000" unfolding m_def using zdiv_zmult2_eq [of 1000 nsec 1000] by simp
  then have "nsec = 1000000 * m + nsec mod 1000000" "0 \<le> nsec mod 1000000" "nsec mod 1000000 < 1000000" by simp_all
  then have q: "1000000 * m \<le> nsec" "nsec < 1000000 * m + 1000000" "m < 1000" "0 \<le> m" using n by linarith+
  have "c_div (- 1) 1000 = 0" "c_mod (- 1) 1000 = - 1" by (simp_all add: c_div_def c_mod_def)
  then show "nanoseconds (sem_deadline INFINITE now) = nanoseconds now - 1000000"
    using q by (simp add: sem_deadline_def now INFINITE_def nanoseconds_def m_def [symmetric])
  assume t: "0 \<le> timeout"
  define a where "a = c_div timeout 1000"
  define b where "b = c_mod timeout 1000"
  have ab: "a = timeout div 1000" "b = timeout mod 1000"
    using t by (simp_all add: a_def b_def c_div_def c_mod_def minus_div_mult_eq_mod)
  have b: "0 \<le> b" "b < 1000" "timeout = 1000 * a + b" unfolding ab by simp_all
  have d: "sem_deadline timeout now = (if m + b < 1000 then (sec + a, nsec + b * 1000 * 1000)
      else (sec + a + 1, (m + b - 1000) * 1000 * 1000))"
    by (simp add: sem_deadline_def now Let_def m_def a_def b_def)
  have arith: "valid_time d \<and> nanoseconds d \<le> nanoseconds (sec, nsec) + timeout * 1000000
      \<and> nanoseconds (sec, nsec) + timeout * 1000000 - 1000000 < nanoseconds d"
    if "d = (if m + b < 1000 then (sec + a, nsec + b * 1000 * 1000) else (sec + a + 1, (m + b - 1000) * 1000 * 1000))"
      "1000000 * m \<le> nsec" "nsec < 1000000 * m + 1000000" "m < 1000" "0 \<le> m" "0 \<le> b" "b < 1000" "timeout = 1000 * a + b"
    for m a b d
  proof (cases "m + b < 1000")
    case True
    with that(1) have d: "d = (sec + a, nsec + 1000000 * b)" by simp
    have "m + b \<le> 999" using True by simp
    with that(2-8) n show ?thesis unfolding d valid_time_def nanoseconds_def by simp
  next
    case False
    with that(1) have d: "d = (sec + a + 1, 1000000 * (m + b - 1000))" by simp
    with that(2-8) n False show ?thesis unfolding d valid_time_def nanoseconds_def by simp
  qed
  note arith = arith [OF d q b]
  show "valid_time (sem_deadline timeout now)"
    and "nanoseconds (sem_deadline timeout now) \<le> nanoseconds now + timeout * 1000000"
    and "nanoseconds now + timeout * 1000000 - 1000000 < nanoseconds (sem_deadline timeout now)"
    using arith unfolding now by blast+
qed

section \<open>The thread object\<close>

record thread_object =
  to_running :: bool
  to_has_end :: bool
  to_start :: nat  \<comment> \<open>entries of \<open>m_start_lock_queue\<close>\<close>
  to_stop :: nat  \<comment> \<open>entries of \<open>m_stop_lock_queue\<close>\<close>

definition Thread_new :: thread_object where
  "Thread_new = \<lparr>to_running = False, to_has_end = False, to_start = 0, to_stop = 0\<rparr>"

datatype caller_instr = Call_Not_Running | Call_Clear_Start | Call_Create | Call_Pop_Start | Call_Clear_Stop | Call_Pop_Stop

definition syn_start :: "caller_instr list" where
  "syn_start = [Call_Not_Running, Call_Clear_Start, Call_Create, Call_Pop_Start]"

definition syn_stop :: "caller_instr list" where
  "syn_stop = [Call_Clear_Stop, Call_Not_Running, Call_Pop_Stop]"

definition thread_stop :: "caller_instr list" where
  "thread_stop = [Call_Not_Running]"

datatype worker_instr = Work_Running | Work_Push_Start | Work_Run | Work_Not_Running | Work_Has_End | Work_Push_Stop

definition thread_func :: "worker_instr list" where
  "thread_func = [Work_Running, Work_Push_Start, Work_Run, Work_Not_Running, Work_Has_End, Work_Push_Stop]"

fun work :: "worker_instr \<Rightarrow> thread_object \<Rightarrow> thread_object" where
  "work Work_Running ob = ob\<lparr>to_running := True\<rparr>"
| "work Work_Push_Start ob = ob\<lparr>to_start := to_start ob + 1\<rparr>"
| "work Work_Run ob = ob"
| "work Work_Not_Running ob = ob\<lparr>to_running := False\<rparr>"
| "work Work_Has_End ob = ob\<lparr>to_has_end := True\<rparr>"
| "work Work_Push_Stop ob = ob\<lparr>to_stop := to_stop ob + 1\<rparr>"

text \<open>What the calls have answered, and how often a wait has timed out or no thread could be created.\<close>

datatype thread_answer = Start_Answers bool | Stop_Answers bool

record thread_world =
  tw_object :: thread_object
  tw_caller :: "caller_instr list"
  tw_workers :: "worker_instr list list"
  tw_answers :: "thread_answer list"
  tw_failures :: nat

definition tw_start :: thread_world where
  "tw_start = \<lparr>tw_object = Thread_new, tw_caller = [], tw_workers = [], tw_answers = [], tw_failures = 0\<rparr>"

text \<open>
  \<open>may_call\<close> says which calls the program makes after which answers, \<open>returns\<close> when the method \<open>run\<close> may return.
  \<open>pthread_create\<close>'s answer is not looked at.
\<close>

inductive th_step ::
    "(thread_answer list \<Rightarrow> caller_instr list \<Rightarrow> bool) \<Rightarrow> (thread_object \<Rightarrow> bool) \<Rightarrow> thread_world \<Rightarrow> thread_world \<Rightarrow> bool"
  for may_call returns where
  calls: "tw_caller w = [] \<Longrightarrow> p \<in> {syn_start, syn_stop, thread_stop} \<Longrightarrow> may_call (tw_answers w) p
    \<Longrightarrow> th_step may_call returns w (w\<lparr>tw_caller := p\<rparr>)"
| not_running: "tw_caller w = Call_Not_Running # p
    \<Longrightarrow> th_step may_call returns w (w\<lparr>tw_caller := p, tw_object := (tw_object w)\<lparr>to_running := False\<rparr>\<rparr>)"
| clear_start: "tw_caller w = Call_Clear_Start # p
    \<Longrightarrow> th_step may_call returns w (w\<lparr>tw_caller := p, tw_object := (tw_object w)\<lparr>to_start := 0\<rparr>\<rparr>)"
| clear_stop: "tw_caller w = Call_Clear_Stop # p
    \<Longrightarrow> th_step may_call returns w (w\<lparr>tw_caller := p, tw_object := (tw_object w)\<lparr>to_stop := 0\<rparr>\<rparr>)"
| create: "tw_caller w = Call_Create # p
    \<Longrightarrow> th_step may_call returns w (w\<lparr>tw_caller := p, tw_workers := tw_workers w @ [thread_func]\<rparr>)"
| create_fails: "tw_caller w = Call_Create # p
    \<Longrightarrow> th_step may_call returns w (w\<lparr>tw_caller := p, tw_failures := tw_failures w + 1\<rparr>)"
| pop_start: "tw_caller w = Call_Pop_Start # p \<Longrightarrow> 0 < to_start (tw_object w)
    \<Longrightarrow> th_step may_call returns w (w\<lparr>tw_caller := p, tw_object := (tw_object w)\<lparr>to_start := to_start (tw_object w) - 1\<rparr>,
          tw_answers := tw_answers w @ [Start_Answers True]\<rparr>)"
| start_times_out: "tw_caller w = Call_Pop_Start # p \<Longrightarrow> to_start (tw_object w) = 0
    \<Longrightarrow> th_step may_call returns w (w\<lparr>tw_caller := p, tw_answers := tw_answers w @ [Start_Answers False],
          tw_failures := tw_failures w + 1\<rparr>)"
| pop_stop: "tw_caller w = Call_Pop_Stop # p \<Longrightarrow> 0 < to_stop (tw_object w)
    \<Longrightarrow> th_step may_call returns w (w\<lparr>tw_caller := p, tw_object := (tw_object w)\<lparr>to_stop := to_stop (tw_object w) - 1\<rparr>,
          tw_answers := tw_answers w @ [Stop_Answers True]\<rparr>)"
| stop_times_out: "tw_caller w = Call_Pop_Stop # p \<Longrightarrow> to_stop (tw_object w) = 0
    \<Longrightarrow> th_step may_call returns w (w\<lparr>tw_caller := p, tw_answers := tw_answers w @ [Stop_Answers True],
          tw_failures := tw_failures w + 1\<rparr>)"
| works: "j < length (tw_workers w) \<Longrightarrow> tw_workers w ! j = i # p \<Longrightarrow> i = Work_Run \<longrightarrow> returns (tw_object w)
    \<Longrightarrow> th_step may_call returns w (w\<lparr>tw_object := work i (tw_object w), tw_workers := (tw_workers w)[j := p]\<rparr>)"

section \<open>Starting and stopping in turn\<close>

text \<open>\<open>LuaLwsService::run\<close> returns when it sees \<open>m_bRunning\<close> to be false.\<close>

definition obedient :: "thread_object \<Rightarrow> bool" where
  "obedient ob \<longleftrightarrow> \<not> to_running ob"

text \<open>A program that starts, stops when it has been told that it has started, and starts again.\<close>

definition told_stopped :: "thread_answer list \<Rightarrow> bool" where
  "told_stopped answers \<longleftrightarrow> answers = [] \<or> last answers = Stop_Answers True"

definition told_started :: "thread_answer list \<Rightarrow> bool" where
  "told_started answers \<longleftrightarrow> answers \<noteq> [] \<and> last answers = Start_Answers True"

definition in_turn :: "thread_answer list \<Rightarrow> caller_instr list \<Rightarrow> bool" where
  "in_turn answers p \<longleftrightarrow> told_stopped answers \<and> p = syn_start \<or> told_started answers \<and> p = syn_stop"

lemma told [simp]:
  "told_stopped []" "\<not> told_started []" "told_stopped (as @ [a]) \<longleftrightarrow> a = Stop_Answers True"
  "told_started (as @ [a]) \<longleftrightarrow> a = Start_Answers True" "told_stopped as \<Longrightarrow> \<not> told_started as"
  by (auto simp: told_stopped_def told_started_def)

abbreviation live :: "thread_world \<Rightarrow> worker_instr list list" where
  "live w \<equiv> filter (\<lambda>p. p \<noteq> []) (tw_workers w)"

abbreviation run_on :: "worker_instr list" where
  "run_on \<equiv> [Work_Run, Work_Not_Running, Work_Has_End, Work_Push_Stop]"

text \<open>
  What caller, threads and object can be as long as nothing fails: whether the caller has last been told that the thread
  has started, the flag \<open>m_bRunning\<close>, the entries of the two queues, and what caller and thread have to do.
\<close>

inductive sound_at :: "bool \<Rightarrow> bool \<Rightarrow> nat \<Rightarrow> nat \<Rightarrow> caller_instr list \<Rightarrow> worker_instr list list \<Rightarrow> bool" where
  "sound_at False False s t [] []"
| "sound_at False False s t [Call_Not_Running, Call_Clear_Start, Call_Create, Call_Pop_Start] []"
| "sound_at False False s t [Call_Clear_Start, Call_Create, Call_Pop_Start] []"
| "sound_at False False 0 t [Call_Create, Call_Pop_Start] []"
| "sound_at False False 0 t [Call_Pop_Start] [[Work_Running, Work_Push_Start, Work_Run, Work_Not_Running, Work_Has_End, Work_Push_Stop]]"
| "sound_at False True 0 t [Call_Pop_Start] [[Work_Push_Start, Work_Run, Work_Not_Running, Work_Has_End, Work_Push_Stop]]"
| "sound_at False True 1 t [Call_Pop_Start] [run_on]"
| "sound_at True True s t [] [run_on]"
| "sound_at True True s t [Call_Clear_Stop, Call_Not_Running, Call_Pop_Stop] [run_on]"
| "sound_at True True s 0 [Call_Not_Running, Call_Pop_Stop] [run_on]"
| "sound_at True False s 0 [Call_Pop_Stop] [run_on]"
| "sound_at True False s 0 [Call_Pop_Stop] [[Work_Not_Running, Work_Has_End, Work_Push_Stop]]"
| "sound_at True False s 0 [Call_Pop_Stop] [[Work_Has_End, Work_Push_Stop]]"
| "sound_at True False s 0 [Call_Pop_Stop] [[Work_Push_Stop]]"
| "sound_at True False s 1 [Call_Pop_Stop] []"

inductive_simps sound_caller: "sound_at b r s t (c # cs) ws"
inductive_simps sound_idle: "sound_at b r s t [] ws"

lemmas sound_intros = sound_at.intros sound_at.intros(7,15) [simplified]

lemma sound_one: "sound_at b r s t c ws \<Longrightarrow> length ws \<le> 1"
  by (erule sound_at.cases) simp_all

definition tw_sound :: "thread_world \<Rightarrow> bool" where
  "tw_sound w \<longleftrightarrow> (told_stopped (tw_answers w) \<or> told_started (tw_answers w))
     \<and> sound_at (told_started (tw_answers w)) (to_running (tw_object w)) (to_start (tw_object w)) (to_stop (tw_object w)) (tw_caller w) (live w)"

lemma live_update:
  assumes "filter P xs = ys" and "j < length xs" and "P (xs ! j)" and "length ys \<le> 1"
  shows "ys = [xs ! j] \<and> filter P (xs[j := x]) = (if P x then [x] else [])"
  using assms
proof (induction xs arbitrary: j ys)
  case (Cons a xs)
  show ?case
  proof (cases j)
    case 0
    with Cons.prems have "filter P xs = []" by (cases "P a") auto
    with 0 Cons.prems show ?thesis by auto
  next
    case (Suc i)
    have "filter P xs \<noteq> []" using Cons.prems(2,3) Suc by (auto simp: filter_empty_conv)
    with Cons.prems(1,4) have a: "\<not> P a" by (cases "P a"; cases "filter P xs") auto
    with Cons.IH [of ys i] Cons.prems Suc show ?thesis by auto
  qed
qed simp

lemma failures_grow: "th_step may_call returns w w1 \<Longrightarrow> tw_failures w \<le> tw_failures w1"
  by (erule th_step.cases) simp_all

lemmas thread_call_defs = syn_start_def syn_stop_def thread_stop_def thread_func_def

lemma tw_sound_step:
  assumes "th_step in_turn obedient w w1" and "tw_sound w" and "tw_failures w1 = tw_failures w"
  shows "tw_sound w1"
  using assms(1)
proof (cases rule: th_step.cases)
  case (works j i p)
  have one: "length (live w) \<le> 1" using assms(2) sound_one by (auto simp: tw_sound_def)
  from live_update [OF refl works(2) _ one, of p] works(3)
  have l: "live w = [i # p]" "live w1 = (if p = [] then [] else [p])" using works(1) by simp_all
  have "sound_at (told_started (tw_answers w)) (to_running (tw_object w)) (to_start (tw_object w)) (to_stop (tw_object w)) (tw_caller w) [i # p]"
    using assms(2) l(1) by (simp add: tw_sound_def)
  then have "sound_at (told_started (tw_answers w)) (to_running (work i (tw_object w))) (to_start (work i (tw_object w)))
      (to_stop (work i (tw_object w))) (tw_caller w) (if p = [] then [] else [p])"
    using works(4) by (cases rule: sound_at.cases) (auto simp: obedient_def intro: sound_intros)
  then show ?thesis using assms(2) works(1) l(2) by (simp add: tw_sound_def)
next
  case (calls p)
  then show ?thesis using assms(2) by (auto simp: tw_sound_def in_turn_def sound_idle thread_call_defs intro: sound_intros)
qed (use assms(2,3) in \<open>auto simp: tw_sound_def sound_caller thread_call_defs intro: sound_at.intros\<close>)

abbreviation th_steps :: "(thread_answer list \<Rightarrow> caller_instr list \<Rightarrow> bool) \<Rightarrow> (thread_object \<Rightarrow> bool) \<Rightarrow> thread_world \<Rightarrow> thread_world \<Rightarrow> bool" where
  "th_steps may_call returns \<equiv> (th_step may_call returns)\<^sup>*\<^sup>*"

lemma tw_sound_steps:
  assumes "th_steps in_turn obedient tw_start w" and "tw_failures w = 0"
  shows "tw_sound w"
  using assms
proof (induction rule: rtranclp_induct)
  case base
  show ?case by (simp add: tw_sound_def tw_start_def Thread_new_def sound_intros)
next
  case (step w w1)
  with failures_grow [OF step(2)] show ?case using tw_sound_step by simp
qed

text \<open>Work that is left; a call of \<open>SynStart\<close> creates work for a thread.\<close>

definition work_left :: "thread_world \<Rightarrow> nat" where
  "work_left w = 10 * length (tw_caller w) + sum_list (map length (tw_workers w))"

lemma worker_works:
  assumes "live w = [i # p]" and "i = Work_Run \<longrightarrow> returns (tw_object w)"
  shows "\<exists>w1. th_step may_call returns w w1 \<and> tw_failures w1 = tw_failures w \<and> work_left w1 < work_left w"
proof -
  have "i # p \<in> set (live w)" using assms(1) by simp
  then have "i # p \<in> set (tw_workers w)" by simp
  then obtain j where j: "j < length (tw_workers w)" "tw_workers w ! j = i # p" by (auto simp: in_set_conv_nth)
  have "sum_list (map length ((tw_workers w)[j := p])) < sum_list (map length (tw_workers w))"
    using j elem_le_sum_list [of j "map length (tw_workers w)"] by (simp add: map_update sum_list_update)
  with th_step.works [of j w i p returns may_call, OF j assms(2)] show ?thesis by (intro exI conjI) (assumption, auto simp: work_left_def)
qed

lemma sound_goes_on:
  assumes "tw_sound w" and "tw_caller w \<noteq> []"
  shows "\<exists>w1. th_step in_turn obedient w w1 \<and> tw_failures w1 = tw_failures w \<and> work_left w1 < work_left w"
proof -
  obtain i p where c: "tw_caller w = i # p" using assms(2) by (cases "tw_caller w") auto
  have s: "sound_at (told_started (tw_answers w)) (to_running (tw_object w)) (to_start (tw_object w)) (to_stop (tw_object w)) (i # p) (live w)"
    using assms(1) c by (simp add: tw_sound_def)
  show ?thesis
  proof (cases i)
    case Call_Not_Running
    with th_step.not_running [of w p in_turn obedient] c show ?thesis by (intro exI conjI) (simp, auto simp: work_left_def)
  next
    case Call_Clear_Start
    with th_step.clear_start [of w p in_turn obedient] c show ?thesis by (intro exI conjI) (simp, auto simp: work_left_def)
  next
    case Call_Clear_Stop
    with th_step.clear_stop [of w p in_turn obedient] c show ?thesis by (intro exI conjI) (simp, auto simp: work_left_def)
  next
    case Call_Create
    with th_step.create [of w p in_turn obedient] c show ?thesis
      by (intro exI conjI) (simp, auto simp: work_left_def thread_func_def)
  next
    case Call_Pop_Start
    show ?thesis
    proof (cases "to_start (tw_object w) = 0")
      case True
      with s Call_Pop_Start obtain k q where "live w = [k # q]" "k \<noteq> Work_Run" by (auto simp: sound_caller)
      with worker_works [of w k q obedient] show ?thesis by simp
    next
      case False
      with th_step.pop_start [of w p in_turn obedient] c Call_Pop_Start show ?thesis
        by (intro exI conjI) (simp, auto simp: work_left_def)
    qed
  next
    case Call_Pop_Stop
    show ?thesis
    proof (cases "to_stop (tw_object w) = 0")
      case True
      with s Call_Pop_Stop obtain k q where "live w = [k # q]" "\<not> to_running (tw_object w)" by (auto simp: sound_caller)
      with worker_works [of w k q obedient] show ?thesis by (simp add: obedient_def)
    next
      case False
      with th_step.pop_stop [of w p in_turn obedient] c Call_Pop_Stop show ?thesis
        by (intro exI conjI) (simp, auto simp: work_left_def)
    qed
  qed
qed

lemma call_returns:
  assumes "tw_sound w"
  shows "\<exists>w1. th_steps in_turn obedient w w1 \<and> tw_caller w1 = [] \<and> tw_failures w1 = tw_failures w"
  using assms
proof (induction "work_left w" arbitrary: w rule: less_induct)
  case less
  show ?case
  proof (cases "tw_caller w = []")
    case False
    from sound_goes_on [OF less(2) False] obtain w1 where
      w1: "th_step in_turn obedient w w1" "tw_failures w1 = tw_failures w" "work_left w1 < work_left w" by blast
    from less(1) [OF w1(3) tw_sound_step [OF w1(1) less(2) w1(2)]] obtain w2 where
      "th_steps in_turn obedient w1 w2" "tw_caller w2 = []" "tw_failures w2 = tw_failures w1" by blast
    with w1(1,2) converse_rtranclp_into_rtranclp [of "th_step in_turn obedient" w w1 w2] show ?thesis by auto
  qed auto
qed

text \<open>
  C27: a program that starts and stops a thread in turn, with a \<open>run\<close> that returns when it sees that it should. As long
  as nothing times out and threads can be created: between calls, after \<open>SynStart\<close> exactly one thread is in \<open>run\<close> and
  the flag says so; after \<open>SynStop\<close> every thread has ended. And a call under way can always come to its end.
\<close>

theorem thread_runs_between_calls:
  assumes "th_steps in_turn obedient tw_start w" and "tw_failures w = 0"
  shows "(tw_caller w = [] \<and> told_started (tw_answers w) \<longrightarrow> to_running (tw_object w) \<and> live w = [run_on])
    \<and> (tw_caller w = [] \<and> told_stopped (tw_answers w) \<longrightarrow> \<not> to_running (tw_object w) \<and> live w = [])
    \<and> (\<exists>w1. th_steps in_turn obedient w w1 \<and> tw_caller w1 = [] \<and> tw_failures w1 = 0)"
proof -
  have s: "tw_sound w" by (rule tw_sound_steps [OF assms])
  then show ?thesis using call_returns [OF s] assms(2) by (auto simp: tw_sound_def sound_idle)
qed

section \<open>What timeouts do\<close>

text \<open>\<open>SynStop\<close> answers true even when it has timed out, and when all threads have ended before, it always does.\<close>

definition stop_pending :: "thread_world \<Rightarrow> thread_world \<Rightarrow> bool" where
  "stop_pending w w1 \<longleftrightarrow> tw_answers w1 = tw_answers w \<and> live w1 = []
     \<and> (tw_caller w1 = syn_stop \<or> tw_caller w1 = [Call_Not_Running, Call_Pop_Stop] \<and> to_stop (tw_object w1) = 0
          \<or> tw_caller w1 = [Call_Pop_Stop] \<and> to_stop (tw_object w1) = 0)"

lemma stop_pending_step:
  assumes "th_step may_call returns w1 w2" and "stop_pending w w1"
  shows "stop_pending w w2 \<or> tw_failures w1 < tw_failures w2"
  using assms(1)
proof (cases rule: th_step.cases)
  case (works j i p)
  then have "i # p \<in> set (tw_workers w1)" by (metis nth_mem)
  then have "live w1 \<noteq> []" by (auto simp: filter_empty_conv)
  with assms(2) show ?thesis by (simp add: stop_pending_def)
qed (use assms(2) in \<open>auto simp: stop_pending_def thread_call_defs\<close>)

text \<open>
  Stopping a thread that has ended by itself answers only by running into the timeout.
\<close>

theorem stop_of_ended_thread_times_out:
  assumes "th_steps may_call returns w w1" and "tw_caller w = syn_stop" and "live w = []"
    and "tw_answers w1 \<noteq> tw_answers w"
  shows "tw_failures w < tw_failures w1"
proof -
  have "stop_pending w w1 \<and> tw_failures w \<le> tw_failures w1 \<or> tw_failures w < tw_failures w1"
    using assms(1)
  proof (induction rule: rtranclp_induct)
    case base
    then show ?case using assms(2,3) by (simp add: stop_pending_def)
  next
    case (step w1 w2)
    from step(3) stop_pending_step [OF step(2), of w] failures_grow [OF step(2)] show ?case by auto
  qed
  then show ?thesis using assms(4) by (auto simp: stop_pending_def)
qed

text \<open>
  A late thread is not stopped. When \<open>SynStart\<close> times out before the thread has begun, \<open>SynStop\<close> clears the flag,
  times out too and answers true; then the thread begins, sets the flag and is in \<open>run\<close>, which has no reason to return.
\<close>

theorem late_thread_runs_on:
  "\<exists>w. th_steps (\<lambda>_ _. True) obedient tw_start w \<and> tw_caller w = [] \<and> tw_answers w = [Start_Answers False, Stop_Answers True]
    \<and> live w = [run_on] \<and> \<not> obedient (tw_object w)"
proof -
  define world where "world = (\<lambda>r h s t c ws as f. \<lparr>tw_object = \<lparr>to_running = r, to_has_end = h, to_start = s, to_stop = t\<rparr>,
    tw_caller = c, tw_workers = ws, tw_answers = as, tw_failures = f\<rparr>)"
  let ?step = "th_step (\<lambda>_ _. True) obedient"
  have calls: "?step (world r h s t [] ws as f) (world r h s t syn_start ws as f)"
    "?step (world r h s t [] ws as f) (world r h s t syn_stop ws as f)" for r h s t ws as f
    using th_step.calls [of "world r h s t [] ws as f"] by (simp_all add: world_def)
  have caller: "?step (world r h s t (Call_Not_Running # p) ws as f) (world False h s t p ws as f)"
    "?step (world r h s t (Call_Clear_Start # p) ws as f) (world r h 0 t p ws as f)"
    "?step (world r h s t (Call_Clear_Stop # p) ws as f) (world r h s 0 p ws as f)"
    "?step (world r h s t (Call_Create # p) ws as f) (world r h s t p (ws @ [thread_func]) as f)"
    "?step (world r h 0 t (Call_Pop_Start # p) ws as f) (world r h 0 t p ws (as @ [Start_Answers False]) (f + 1))"
    "?step (world r h s 0 (Call_Pop_Stop # p) ws as f) (world r h s 0 p ws (as @ [Stop_Answers True]) (f + 1))"
    for r h s t p ws as f
    using th_step.not_running [of "world r h s t (Call_Not_Running # p) ws as f"]
      th_step.clear_start [of "world r h s t (Call_Clear_Start # p) ws as f"]
      th_step.clear_stop [of "world r h s t (Call_Clear_Stop # p) ws as f"]
      th_step.create [of "world r h s t (Call_Create # p) ws as f"]
      th_step.start_times_out [of "world r h 0 t (Call_Pop_Start # p) ws as f"]
      th_step.stop_times_out [of "world r h s 0 (Call_Pop_Stop # p) ws as f"]
    by (simp_all add: world_def)
  have worker: "?step (world r h s t c [Work_Running # p] as f) (world True h s t c [p] as f)"
    "?step (world r h s t c [Work_Push_Start # p] as f) (world r h (s + 1) t c [p] as f)" for r h s t c p as f
    using th_step.works [of 0 "world r h s t c [Work_Running # p] as f"]
      th_step.works [of 0 "world r h s t c [Work_Push_Start # p] as f"] by (simp_all add: world_def)
  note one = converse_rtranclp_into_rtranclp [of ?step]
  let ?last = "world True False 1 0 [] [run_on] [Start_Answers False, Stop_Answers True] 2"
  have works: "?step\<^sup>*\<^sup>* (world False False 0 0 [] [thread_func] [Start_Answers False, Stop_Answers True] 2) ?last"
    unfolding thread_func_def by (rule one [OF worker(1)], rule one [OF worker(2)]) simp
  have stops: "?step\<^sup>*\<^sup>* (world False False 0 0 syn_stop [thread_func] [Start_Answers False] 1) ?last"
    unfolding syn_stop_def
    by (rule one [OF caller(3)], rule one [OF caller(1)], rule one [OF caller(6)]) (use works in \<open>simp add: numeral_2_eq_2\<close>)
  have starts: "?step\<^sup>*\<^sup>* (world False False 0 0 syn_start [] [] 0) ?last"
    unfolding syn_start_def
    by (rule one [OF caller(1)], rule one [OF caller(2)], rule one [OF caller(4)], rule one [OF caller(5)], rule one [OF calls(2)])
      (use stops in simp)
  have "?step\<^sup>*\<^sup>* tw_start ?last"
    using one [OF calls(1) starts] by (simp add: world_def tw_start_def Thread_new_def)
  then show ?thesis by (intro exI [of _ ?last]) (simp add: world_def obedient_def)
qed

section \<open>Instances\<close>

theorem deadline_bounds_witness:
  "sem_deadline 10000 (5, 999999999) = (15, 999999999) \<and> valid_time (sem_deadline 10000 (5, 999999999))"
  using deadline_bounds [of "(5, 999999999)" 10000] by (simp add: valid_time_def sem_deadline_def c_div_def c_mod_def)

theorem thread_runs_between_calls_witness:
  "\<exists>w1. th_steps in_turn obedient (tw_start\<lparr>tw_caller := syn_start\<rparr>) w1 \<and> tw_caller w1 = [] \<and> tw_failures w1 = 0"
proof -
  have "th_step in_turn obedient tw_start (tw_start\<lparr>tw_caller := syn_start\<rparr>)"
    by (rule th_step.calls) (simp_all add: tw_start_def in_turn_def)
  from thread_runs_between_calls [OF r_into_rtranclp [of "th_step in_turn obedient", OF this]] show ?thesis by (simp add: tw_start_def)
qed

theorem stop_of_ended_thread_times_out_witness:
  "\<exists>w1. th_steps (\<lambda>_ _. True) (\<lambda>_. True) (tw_start\<lparr>tw_caller := syn_stop\<rparr>) w1 \<and> tw_answers w1 = [Stop_Answers True] \<and> 0 < tw_failures w1"
proof -
  let ?step = "th_step (\<lambda>_ _. True) (\<lambda>_. True)" and ?w = "\<lambda>c. tw_start\<lparr>tw_caller := c\<rparr>"
  let ?last = "tw_start\<lparr>tw_answers := [Stop_Answers True], tw_failures := 1\<rparr>"
  have "?step (?w syn_stop) (?w [Call_Not_Running, Call_Pop_Stop])"
    using th_step.clear_stop [of "?w syn_stop"] by (simp add: syn_stop_def tw_start_def Thread_new_def)
  moreover have "?step (?w [Call_Not_Running, Call_Pop_Stop]) (?w [Call_Pop_Stop])"
    using th_step.not_running [of "?w [Call_Not_Running, Call_Pop_Stop]"] by (simp add: tw_start_def Thread_new_def)
  moreover have "?step (?w [Call_Pop_Stop]) ?last"
    using th_step.stop_times_out [of "?w [Call_Pop_Stop]"] by (simp add: tw_start_def Thread_new_def)
  ultimately have steps: "?step\<^sup>*\<^sup>* (?w syn_stop) ?last"
    by (meson converse_rtranclp_into_rtranclp r_into_rtranclp)
  from stop_of_ended_thread_times_out [OF this] have "0 < tw_failures ?last" by (simp add: tw_start_def)
  with steps show ?thesis by (intro exI [of _ ?last]) (simp add: tw_start_def)
qed

end
