(* ===== verification/Bee_Log_Volumes.thy ===== *)
theory Bee_Log_Volumes
  imports Bee_Logger
begin

text \<open>
  The volumes of a log: a clean directory holds them as a list of contents, the current one first, and
  rolling pushes an empty one onto that list and drops what does not fit.
\<close>

section \<open>Names of volumes\<close>

definition volume_name :: "string \<Rightarrow> nat \<Rightarrow> string" where
  "volume_name name k = (if k = 0 then name else name @ CHR ''.'' # show_nat k)"

definition volume_path :: "log_file \<Rightarrow> nat \<Rightarrow> string" where
  "volume_path a k = with_slash (lf_path a) @ volume_name (lf_name a) k"

lemma path_cat_slash: "dir \<noteq> [] \<Longrightarrow> path_cat dir f = Some (with_slash dir @ f)"
  by (simp add: path_cat_def with_slash_def)

lemma digit_not: "is_digit c \<Longrightarrow> c \<noteq> CHR ''.'' \<and> c \<noteq> CHR ''/'' \<and> \<not> is_blank c \<and> c \<noteq> CHR ''g''"
  by (auto simp: is_digit_def is_blank_def)

lemma show_nat_inj: "show_nat j = show_nat k \<Longrightarrow> j = k"
  by (metis digits_value_show_nat)

lemma show_nat_small: "k < 10 \<Longrightarrow> length (show_nat k) = 1"
  by (subst show_nat.simps) simp

lemma volume_name_inj [simp]: "volume_name name j = volume_name name k \<longleftrightarrow> j = k"
  using show_nat_inj by (auto simp: volume_name_def)

lemma volume_path_inj [simp]: "volume_path a j = volume_path a k \<longleftrightarrow> j = k"
  by (simp add: volume_path_def)

lemma volume_index:
  assumes "k < 10"
  shows "GetIndexFromVolume name (volume_name name k) = Some (int k)"
  using show_nat_small [OF assms] by (simp add: GetIndexFromVolume_def volume_name_def)

lemma split_last_part:
  assumes "CHR ''.'' \<notin> set u" and "u \<noteq> []" and "p \<le> length t + 1"
  shows "\<exists>ls. split_loop (t @ CHR ''.'' # u) ''.'' p acc = Some (acc @ ls @ [u])"
  using assms(3)
proof (induction "length t + 1 - p" arbitrary: p acc rule: less_induct)
  case less
  let ?s = "t @ CHR ''.'' # u"
  have lt: "p < length ?s" using less.prems assms(2) by (cases u) auto
  show ?case
  proof (cases "p = length t + 1")
    case True
    then have "drop p ?s = u" by simp
    moreover from this assms(1) have "str_find ?s ''.'' p = None"
      using True by (simp add: str_find_def find_sub_notin)
    ultimately show ?thesis using lt by (subst split_loop.simps) (auto simp: substr_from_def)
  next
    case False
    with less.prems have le: "p \<le> length t" by simp
    then have "drop p ?s = drop p t @ CHR ''.'' # u" by simp
    moreover obtain i where i: "find_sub ''.'' (drop p t @ CHR ''.'' # u) = Some i" "i \<le> length (drop p t)"
    proof (cases "CHR ''.'' \<in> set (drop p t)")
      case False
      with find_sub_sep [of "CHR ''.''" "drop p t" "[]" u] that show ?thesis by simp
    next
      case True
      then obtain x y where xy: "drop p t = x @ CHR ''.'' # y" "CHR ''.'' \<notin> set x" by (meson split_list_first)
      with find_sub_sep [of "CHR ''.''" x "[]" "y @ CHR ''.'' # u"] that show ?thesis by simp
    qed
    ultimately have f: "str_find ?s ''.'' p = Some (p + i)" using le by (simp add: str_find_def)
    have "length t + 1 - (p + i + 1) < length t + 1 - p" "p + i + 1 \<le> length t + 1" using i(2) le by simp_all
    from less.hyps [OF this, of "acc @ [substr ?s p i]"] obtain ls where
      "split_loop ?s ''.'' (p + i + 1) (acc @ [substr ?s p i]) = Some ((acc @ [substr ?s p i]) @ ls @ [u])" by blast
    with f lt show ?thesis by (subst split_loop.simps) auto
  qed
qed

lemma key_of_part:
  assumes "CHR ''.'' \<notin> set u" and "u \<noteq> []" and "u \<noteq> ''gz''" and "list_all (\<lambda>c. \<not> is_blank c) u"
  shows "volume_key (t @ CHR ''.'' # u) = Some (atoi u)"
proof -
  from split_last_part [OF assms(1,2), of 0 t "[]"] obtain ls where
    "Split [] (t @ CHR ''.'' # u) ''.'' = Some (ls @ [u])" by (auto simp: Split_def)
  moreover have "str_trim u = Some u"
  proof -
    have "dropWhile is_blank u = u" using assms(2,4) by (cases u) auto
    moreover have "dropWhile is_blank (rev u) = rev u" using assms(2,4) by (cases "rev u") (auto simp: list_all_iff)
    ultimately show ?thesis using assms(2) by (simp add: str_trim_def)
  qed
  ultimately show ?thesis using assms(3) by (simp add: volume_key_def)
qed

lemma volume_name_key:
  assumes "name = p @ ''.log''"
  shows "volume_key (volume_name name k) = Some (int k)"
proof (cases "k = 0")
  case True
  have "atoi ''log'' = 0" by code_simp
  with key_of_part [of "''log''" p] assms True show ?thesis by (simp add: volume_name_def is_blank_def)
next
  case False
  have "list_all (\<lambda>c. \<not> is_blank c) (show_nat k)" "CHR ''.'' \<notin> set (show_nat k)" "show_nat k \<noteq> ''gz''"
    using show_nat_digits [of k] digit_not by (fastforce simp: list_all_iff)+
  with key_of_part [of "show_nat k" name] show_nat_digits [of k] False show ?thesis by (simp add: volume_name_def)
qed

section \<open>Renaming\<close>

lemma list_dir_iff: "v \<in> set (list_dir dir fs) \<longleftrightarrow> map_of fs (with_slash dir @ v) \<noteq> None \<and> CHR ''/'' \<notin> set v"
proof
  assume "v \<in> set (list_dir dir fs)"
  then obtain f where "f \<in> set fs" "prefix (with_slash dir) (fst f)" "v = drop (length (with_slash dir)) (fst f)" "CHR ''/'' \<notin> set v"
    by (auto simp: list_dir_def split: if_splits)
  then have "with_slash dir @ v = fst f" "CHR ''/'' \<notin> set v" "f \<in> set fs" by (auto simp: prefix_def)
  then show "map_of fs (with_slash dir @ v) \<noteq> None \<and> CHR ''/'' \<notin> set v"
    by (simp add: map_of_eq_None_iff)
next
  assume a: "map_of fs (with_slash dir @ v) \<noteq> None \<and> CHR ''/'' \<notin> set v"
  then obtain c where "(with_slash dir @ v, c) \<in> set fs" using map_of_SomeD by fastforce
  then have "(with_slash dir @ v, c) \<in> set (filter (\<lambda>f. prefix (with_slash dir) (fst f) \<and> CHR ''/'' \<notin> set (drop (length (with_slash dir)) (fst f))) fs)"
    using a by simp
  from imageI [OF this, of "\<lambda>f. drop (length (with_slash dir)) (fst f)"] show "v \<in> set (list_dir dir fs)"
    by (auto simp: list_dir_def)
qed

lemma list_dir_distinct:
  assumes "distinct (map fst fs)"
  shows "distinct (list_dir dir fs)"
  using assms
proof (induction fs)
  case (Cons f fs)
  have "drop (length (with_slash dir)) (fst f) \<notin> set (list_dir dir fs)" if "prefix (with_slash dir) (fst f)"
  proof -
    from that have "with_slash dir @ drop (length (with_slash dir)) (fst f) = fst f" by (auto simp: prefix_def)
    with Cons.prems show ?thesis by (simp add: list_dir_iff map_of_eq_None_iff)
  qed
  with Cons show ?case by (auto simp: list_dir_def)
qed (simp add: list_dir_def)

lemma rename_map: "map_of (rename_file p q fs) = (case map_of fs p of None \<Rightarrow> map_of fs | Some c \<Rightarrow> (map_of fs)(p := None, q \<mapsto> c))"
  by (auto simp: rename_file_def update_conv' AList.delete_conv' split: option.splits)

lemma rename_distinct: "distinct (map fst fs) \<Longrightarrow> distinct (map fst (rename_file p q fs))"
  by (simp add: rename_file_def AList.distinct_update AList.distinct_delete split: option.splits)

lemma rename_skips: "rename_volumes a v fs = rename_volumes a (filter (prefix (lf_name a)) v) fs"
proof (induction v arbitrary: fs)
  case (Cons n v)
  then show ?case by (cases "GetIndexFromVolume (lf_name a) n") (auto simp: GetIndexFromVolume_def split: if_splits)
qed simp

text \<open>The files after volumes 0 to \<open>q - 1\<close> have moved up by one.\<close>

definition moved :: "log_file \<Rightarrow> nat \<Rightarrow> (string \<Rightarrow> string option) \<Rightarrow> (string \<Rightarrow> string option) \<Rightarrow> bool" where
  "moved a q m m' \<longleftrightarrow>
     (\<forall>k < q. m' (volume_path a (Suc k)) = m (volume_path a k)) \<and>
     (0 < q \<longrightarrow> m' (volume_path a 0) = None) \<and>
     (\<forall>p. (\<forall>k \<le> q. p \<noteq> volume_path a k) \<longrightarrow> m' p = m p) \<and>
     (q = 0 \<longrightarrow> m' = m)"

lemma moved_Suc:
  assumes "moved a q (m(volume_path a q := None, volume_path a (Suc q) \<mapsto> c)) m'" and "m (volume_path a q) = Some c"
  shows "moved a (Suc q) m m'"
proof -
  let ?n = "m(volume_path a q := None, volume_path a (Suc q) \<mapsto> c)"
  have up: "m' (volume_path a (Suc k)) = ?n (volume_path a k)" if "k < q" for k
    using assms(1) that by (simp add: moved_def)
  have other: "m' p = ?n p" if "\<forall>k \<le> q. p \<noteq> volume_path a k" for p
    using assms(1) that by (simp add: moved_def)
  have "m' (volume_path a (Suc k)) = m (volume_path a k)" if "k < Suc q" for k
  proof (cases "k = q")
    case True
    with other [of "volume_path a (Suc q)"] assms(2) show ?thesis by simp
  next
    case False
    with that up [of k] show ?thesis by simp
  qed
  moreover have "m' (volume_path a 0) = None"
    using assms(1) by (cases "q = 0") (simp_all add: moved_def)
  moreover have "m' p = m p" if "\<forall>k \<le> Suc q. p \<noteq> volume_path a k" for p
    using other [of p] that by simp
  ultimately show ?thesis by (simp add: moved_def)
qed

lemma rename_moves:
  assumes "q \<le> 9" and "int q \<le> lf_count a - 1" and "lf_path a \<noteq> []" and "\<forall>k < q. map_of fs (volume_path a k) \<noteq> None"
    and "distinct (map fst fs)"
  shows "\<exists>fs'. rename_volumes a (map (volume_name (lf_name a)) (rev [0..<q])) fs = Some fs' \<and> moved a q (map_of fs) (map_of fs')
    \<and> distinct (map fst fs')"
  using assms
proof (induction q arbitrary: fs)
  case 0
  then show ?case by (simp add: moved_def)
next
  case (Suc q)
  let ?fs = "rename_file (volume_path a q) (volume_path a (Suc q)) fs"
  obtain c where c: "map_of fs (volume_path a q) = Some c" using Suc.prems(4) by auto
  then have m: "map_of ?fs = (map_of fs)(volume_path a q := None, volume_path a (Suc q) \<mapsto> c)" by (simp add: rename_map)
  have "path_cat (lf_path a) (volume_name (lf_name a) q) = Some (volume_path a q)"
    "path_cat (lf_path a) (lf_name a @ ''.'' @ bee_itoa (int q + 1)) = Some (volume_path a (Suc q))"
    using Suc.prems(3) by (simp_all add: path_cat_slash volume_path_def volume_name_def bee_itoa_def show_int_def nat_add_distrib)
  then have step: "rename_volumes a (map (volume_name (lf_name a)) (rev [0..<Suc q])) fs
      = rename_volumes a (map (volume_name (lf_name a)) (rev [0..<q])) ?fs"
    using Suc.prems(1,2) by (simp add: volume_index)
  have "\<forall>k < q. map_of ?fs (volume_path a k) \<noteq> None" using Suc.prems(4) by (simp add: m)
  with Suc.IH [of ?fs] Suc.prems rename_distinct obtain fs' where
    "rename_volumes a (map (volume_name (lf_name a)) (rev [0..<q])) ?fs = Some fs'" "moved a q (map_of ?fs) (map_of fs')"
    "distinct (map fst fs')" by auto
  with step moved_Suc [of a q "map_of fs" c "map_of fs'"] c m show ?case by auto
qed

section \<open>Rolling\<close>

text \<open>
  A clean directory: the volumes are there with these contents, and no other file's name begins with the
  log's or cannot be compared.
\<close>

definition volumes_at :: "log_file \<Rightarrow> files \<Rightarrow> string list \<Rightarrow> bool" where
  "volumes_at a fs vs \<longleftrightarrow>
     lf_path a \<noteq> [] \<and> (\<exists>p. lf_name a = p @ ''.log'') \<and> CHR ''/'' \<notin> set (lf_name a) \<and> distinct (map fst fs) \<and>
     0 < lf_count a \<and> lf_count a \<le> 10 \<and> vs \<noteq> [] \<and> int (length vs) \<le> lf_count a \<and>
     (\<forall>k < length vs. map_of fs (volume_path a k) = Some (vs ! k)) \<and>
     (\<forall>v. map_of fs (with_slash (lf_path a) @ v) \<noteq> None \<and> CHR ''/'' \<notin> set v \<longrightarrow>
        volume_key v \<noteq> None \<and> (prefix (lf_name a) v \<longrightarrow> (\<exists>k < length vs. v = volume_name (lf_name a) k)))"

lemma volume_names_listed:
  assumes "volumes_at a fs vs"
  shows "set (filter (prefix (lf_name a)) (list_dir (lf_path a) fs)) = volume_name (lf_name a) ` {..<length vs}"
proof -
  have nos: "CHR ''/'' \<notin> set (volume_name (lf_name a) k)" for k
  proof -
    have "CHR ''/'' \<notin> set (show_nat k)" using show_nat_digits [of k] digit_not by (auto simp: list_all_iff)
    moreover have "CHR ''/'' \<notin> set (lf_name a)" using assms by (simp add: volumes_at_def)
    ultimately show ?thesis by (simp add: volume_name_def)
  qed
  have pre: "prefix (lf_name a) (volume_name (lf_name a) k)" for k by (simp add: volume_name_def)
  have there: "map_of fs (with_slash (lf_path a) @ volume_name (lf_name a) k) \<noteq> None" if "k < length vs" for k
    using assms that by (simp add: volumes_at_def volume_path_def)
  have only: "\<exists>k < length vs. v = volume_name (lf_name a) k"
    if "map_of fs (with_slash (lf_path a) @ v) \<noteq> None" "CHR ''/'' \<notin> set v" "prefix (lf_name a) v" for v
    using assms that unfolding volumes_at_def by blast
  show ?thesis
  proof (intro set_eqI iffI)
    fix v assume "v \<in> set (filter (prefix (lf_name a)) (list_dir (lf_path a) fs))"
    with only [of v] show "v \<in> volume_name (lf_name a) ` {..<length vs}" by (auto simp only: set_filter mem_Collect_eq list_dir_iff)
  next
    fix v assume "v \<in> volume_name (lf_name a) ` {..<length vs}"
    with there nos pre show "v \<in> set (filter (prefix (lf_name a)) (list_dir (lf_path a) fs))"
      by (auto simp only: set_filter mem_Collect_eq list_dir_iff)
  qed
qed

text \<open>Sorted, the volumes' names are listed from the highest index down.\<close>

lemma volumes_sorted:
  assumes "distinct v" and "set v = volume_name name ` {..<q}" and "name = p @ ''.log''"
  shows "rev (sort_key (\<lambda>s. the (volume_key s)) v) = map (volume_name name) (rev [0..<q])"
proof -
  let ?f = "\<lambda>s. the (volume_key s)" and ?w = "map (volume_name name) [0..<q]"
  have key: "?f (volume_name name k) = int k" for k using volume_name_key [OF assms(3)] by simp
  have inj: "inj_on ?f (volume_name name ` {..<q})" by (auto simp: inj_on_def key)
  have "sort_key ?f v = ?w"
  proof (rule map_sorted_distinct_set_unique)
    show "inj_on ?f (set (sort_key ?f v) \<union> set ?w)" using inj assms(2) by (simp add: atLeast0LessThan)
    show "sorted (map ?f (sort_key ?f v))" by simp
    show "distinct (map ?f (sort_key ?f v))" using assms(1,2) inj by (simp add: distinct_map)
    show "sorted (map ?f ?w)" by (simp add: key comp_def sorted_map sorted_wrt_map sorted_wrt_upt)
    show "distinct (map ?f ?w)" by (simp add: key distinct_map comp_def inj_on_def)
    show "set (sort_key ?f v) = set ?w" using assms(2) by (simp add: atLeast0LessThan)
  qed
  then show ?thesis by (simp add: rev_map)
qed

lemma sort_volumes_total:
  assumes "\<forall>s \<in> set v. volume_key s \<noteq> None"
  shows "sort_volumes v = Some (rev (sort_key (\<lambda>s. the (volume_key s)) v))"
proof (cases "length v < 2")
  case True
  then show ?thesis by (cases v) (auto simp: sort_volumes_def)
next
  case False
  with assms show ?thesis by (auto simp: sort_volumes_def)
qed

text \<open>With room for one more, every volume moves up.\<close>

lemma volumes_move:
  assumes "volumes_at a fs vs" and "int (length vs) < lf_count a"
  shows "\<exists>v fs'. sort_volumes (list_dir (lf_path a) fs) = Some v \<and> rename_volumes a v fs = Some fs'
    \<and> moved a (length vs) (map_of fs) (map_of fs') \<and> distinct (map fst fs')"
proof -
  let ?l = "list_dir (lf_path a) fs" and ?f = "\<lambda>s. the (volume_key s)" and ?q = "length vs"
  obtain p where p: "lf_name a = p @ ''.log''" and d: "distinct (map fst fs)" and c: "lf_count a \<le> 10" "lf_path a \<noteq> []"
    and vs: "\<forall>k < ?q. map_of fs (volume_path a k) = Some (vs ! k)"
    using assms(1) by (auto simp: volumes_at_def)
  have "\<forall>s \<in> set ?l. volume_key s \<noteq> None"
    using assms(1) unfolding volumes_at_def Ball_def list_dir_iff by blast
  then have sort: "sort_volumes ?l = Some (rev (sort_key ?f ?l))" by (rule sort_volumes_total)
  have "distinct (filter (prefix (lf_name a)) ?l)" using list_dir_distinct [OF d] by simp
  from volumes_sorted [OF this volume_names_listed [OF assms(1)] p]
  have "filter (prefix (lf_name a)) (rev (sort_key ?f ?l)) = map (volume_name (lf_name a)) (rev [0..<?q])"
    by (simp add: filter_sort rev_filter [symmetric])
  then have "rename_volumes a (rev (sort_key ?f ?l)) fs = rename_volumes a (map (volume_name (lf_name a)) (rev [0..<?q])) fs"
    by (subst rename_skips) simp
  moreover have "?q \<le> 9" "int ?q \<le> lf_count a - 1" "\<forall>k < ?q. map_of fs (volume_path a k) \<noteq> None"
    using assms(2) c vs by auto
  from rename_moves [OF this(1,2) c(2) this(3) d] obtain fs' where
    "rename_volumes a (map (volume_name (lf_name a)) (rev [0..<?q])) fs = Some fs'"
    "moved a ?q (map_of fs) (map_of fs')" "distinct (map fst fs')" by blast
  ultimately show ?thesis using sort by auto
qed

text \<open>What a change of the files keeps of a clean directory.\<close>

lemma volumes_at_change:
  assumes "volumes_at a fs vs"
    and "lf_path b = lf_path a" and "lf_name b = lf_name a" and "lf_count b = lf_count a" and "distinct (map fst fs')"
    and "us \<noteq> []" and "int (length us) \<le> lf_count a" and "\<forall>k < length us. map_of fs' (volume_path a k) = Some (us ! k)"
    and "\<forall>p. (\<forall>k < length us. p \<noteq> volume_path a k) \<longrightarrow>
      map_of fs' p = None \<or> map_of fs' p = map_of fs p \<and> (\<forall>k < length vs. p \<noteq> volume_path a k)"
  shows "volumes_at b fs' us"
proof -
  obtain p where p: "lf_name a = p @ ''.log''" using assms(1) by (auto simp: volumes_at_def)
  have path: "volume_path b k = volume_path a k" for k using assms(2,3) by (simp add: volume_path_def)
  have "volume_key v \<noteq> None \<and> (prefix (lf_name a) v \<longrightarrow> (\<exists>k < length us. v = volume_name (lf_name a) k))"
    if v: "map_of fs' (with_slash (lf_path a) @ v) \<noteq> None" "CHR ''/'' \<notin> set v" for v
  proof (cases "\<exists>k < length us. with_slash (lf_path a) @ v = volume_path a k")
    case True
    then obtain k where "k < length us" "v = volume_name (lf_name a) k" by (auto simp: volume_path_def)
    with volume_name_key [OF p] show ?thesis by auto
  next
    case False
    with assms(9) v have o: "map_of fs (with_slash (lf_path a) @ v) \<noteq> None"
      and "\<forall>k < length vs. with_slash (lf_path a) @ v \<noteq> volume_path a k" by fastforce+
    then have "\<forall>k < length vs. v \<noteq> volume_name (lf_name a) k" by (simp add: volume_path_def)
    with assms(1) o v(2) show ?thesis unfolding volumes_at_def by blast
  qed
  with assms path show ?thesis unfolding volumes_at_def by simp
qed

text \<open>The last volume goes when there are as many as may be.\<close>

definition volumes_kept :: "log_file \<Rightarrow> string list \<Rightarrow> string list" where
  "volumes_kept a vs = take (nat (lf_count a) - 1) vs"

lemma last_volume_goes:
  assumes "volumes_at a fs vs" and "1 < lf_count a"
  shows "volumes_at (a\<lparr>lf_index := i\<rparr>) (if int (length vs) = lf_count a then delete_file (volume_path a (length vs - 1)) fs else fs)
    (volumes_kept a vs)"
proof (cases "int (length vs) = lf_count a")
  case False
  moreover have "int (length vs) \<le> lf_count a" using assms(1) by (simp add: volumes_at_def)
  ultimately have "length vs \<le> nat (lf_count a) - 1" using assms(2) by linarith
  then have "volumes_kept a vs = vs" by (simp add: volumes_kept_def)
  moreover have "volumes_at (a\<lparr>lf_index := i\<rparr>) fs vs"
    using assms(1) by (intro volumes_at_change [OF assms(1)]) (auto simp: volumes_at_def)
  ultimately show ?thesis using False by simp
next
  case True
  let ?fs = "delete_file (volume_path a (length vs - 1)) fs" and ?us = "volumes_kept a vs"
  from True have "nat (lf_count a) = length vs" by linarith
  then have us: "?us = butlast vs" and n: "1 < length vs" using True assms(2) by (auto simp: volumes_kept_def butlast_conv_take)
  have m: "map_of ?fs = (map_of fs)(volume_path a (length vs - 1) := None)"
    by (auto simp: delete_file_def AList.delete_conv')
  have vs: "\<forall>k < length vs. map_of fs (volume_path a k) = Some (vs ! k)" "distinct (map fst fs)"
    using assms(1) by (auto simp: volumes_at_def)
  have "volumes_at (a\<lparr>lf_index := i\<rparr>) ?fs ?us"
  proof (rule volumes_at_change [OF assms(1)])
    show "distinct (map fst ?fs)" using vs(2) by (simp add: delete_file_def AList.distinct_delete)
    show "?us \<noteq> []" "int (length ?us) \<le> lf_count a" using us n True by (auto simp: butlast_conv_take)
    show "\<forall>k < length ?us. map_of ?fs (volume_path a k) = Some (?us ! k)" using us vs m by (simp add: nth_butlast)
    show "\<forall>p. (\<forall>k < length ?us. p \<noteq> volume_path a k) \<longrightarrow>
        map_of ?fs p = None \<or> map_of ?fs p = map_of fs p \<and> (\<forall>k < length vs. p \<noteq> volume_path a k)"
      using m us by (auto simp: less_Suc_eq_le) (metis One_nat_def Suc_pred' n le_eq_less_or_eq less_Suc_eq_le less_imp_le_nat less_trans zero_less_one)
  qed simp_all
  with True show ?thesis by simp
qed

text \<open>Rolling: an empty volume in front, and no other file changes.\<close>

definition log_index_ok :: "log_file \<Rightarrow> string list \<Rightarrow> bool" where
  "log_index_ok a vs \<longleftrightarrow> 0 \<le> lf_index a \<and> min (lf_index a) (lf_count a - 1) = int (length vs) - 1"

definition rolled :: "log_file \<Rightarrow> string list \<Rightarrow> string list" where
  "rolled a vs = take (nat (lf_count a)) ([] # vs)"

lemma fresh_volume:
  assumes "volumes_at a fs vs" and "int (length vs) < lf_count a" and "moved a (length vs) (map_of fs) (map_of fs')"
    and "distinct (map fst fs')" and "lf_path b = lf_path a" and "lf_name b = lf_name a" and "lf_count b = lf_count a"
  shows "volumes_at b (AList.update (volume_path a 0) [] fs') ([] # vs)"
proof (rule volumes_at_change [OF assms(1)])
  let ?fs = "AList.update (volume_path a 0) [] fs'"
  have m: "map_of ?fs = (map_of fs')(volume_path a 0 \<mapsto> [])" by (simp add: update_conv')
  have vs: "\<forall>k < length vs. map_of fs (volume_path a k) = Some (vs ! k)" using assms(1) by (simp add: volumes_at_def)
  show "distinct (map fst ?fs)" using assms(4) by (simp add: AList.distinct_update)
  show "\<forall>k < length ([] # vs). map_of ?fs (volume_path a k) = Some (([] # vs) ! k)"
  proof (intro allI impI)
    fix k assume "k < length ([] # vs)"
    with assms(3) vs m show "map_of ?fs (volume_path a k) = Some (([] # vs) ! k)" by (cases k) (auto simp: moved_def)
  qed
  show "\<forall>p. (\<forall>k < length ([] # vs). p \<noteq> volume_path a k) \<longrightarrow>
      map_of ?fs p = None \<or> map_of ?fs p = map_of fs p \<and> (\<forall>k < length vs. p \<noteq> volume_path a k)"
  proof (intro allI impI)
    fix p assume p: "\<forall>k < length ([] # vs). p \<noteq> volume_path a k"
    then have "p \<noteq> volume_path a 0" "\<forall>k \<le> length vs. p \<noteq> volume_path a k" by (auto simp: less_Suc_eq_le)
    with assms(3) m show "map_of ?fs p = None \<or> map_of ?fs p = map_of fs p \<and> (\<forall>k < length vs. p \<noteq> volume_path a k)"
      by (simp add: moved_def)
  qed
qed (use assms in simp_all)

lemma single_volume_rolls:
  assumes "volumes_at a fs vs" and "lf_count a = 1" and "lf_path b = lf_path a" and "lf_name b = lf_name a" and "lf_count b = 1"
  shows "volumes_at b (AList.update (volume_path a 0) [] fs) [[]]"
proof (rule volumes_at_change [OF assms(1)])
  have "vs \<noteq> []" "int (length vs) \<le> 1" using assms(1,2) by (auto simp: volumes_at_def)
  then have "length vs = 1" by (cases vs) auto
  then show "\<forall>p. (\<forall>k < length [[]]. p \<noteq> volume_path a k) \<longrightarrow>
      map_of (AList.update (volume_path a 0) [] fs) p = None
      \<or> map_of (AList.update (volume_path a 0) [] fs) p = map_of fs p \<and> (\<forall>k < length vs. p \<noteq> volume_path a k)"
    by (simp add: update_conv')
qed (use assms in \<open>simp_all add: update_conv' AList.distinct_update volumes_at_def\<close>)

lemma RollingVolumes_pushes:
  assumes "volumes_at a fs vs" and "log_index_ok a vs"
  shows "\<exists>a' fs'. RollingVolumes now (a, fs) = Some (a', fs') \<and> volumes_at a' fs' (rolled a vs) \<and> log_index_ok a' (rolled a vs)
    \<and> lf_stream a' = Some (volume_path a 0) \<and> a' = a\<lparr>lf_stream := lf_stream a', lf_index := lf_index a'\<rparr>"
proof -
  have path: "path_cat (lf_path a) (lf_name a) = Some (volume_path a 0)" and c: "0 < lf_count a" and n: "int (length vs) \<le> lf_count a"
    "vs \<noteq> []"
    using assms(1) by (auto simp: volumes_at_def path_cat_slash volume_path_def volume_name_def)
  have i: "0 \<le> lf_index a" "min (lf_index a) (lf_count a - 1) = int (length vs) - 1" using assms(2) by (auto simp: log_index_ok_def)
  show ?thesis
  proof (cases "lf_count a = 1")
    case True
    then have "RollingVolumes now (a, fs) =
        Some (a\<lparr>lf_stream := Some (volume_path a 0), lf_index := lf_index a + 1\<rparr>, AList.update (volume_path a 0) [] fs)"
      using path by (simp add: RollingVolumes_def file_open_def file_close_def stream_open_def)
    moreover from single_volume_rolls [OF assms(1) True]
    have "volumes_at (a\<lparr>lf_stream := Some (volume_path a 0), lf_index := lf_index a + 1\<rparr>) (AList.update (volume_path a 0) [] fs) (rolled a vs)"
      using True by (simp add: rolled_def)
    ultimately show ?thesis using True i by (auto simp: rolled_def log_index_ok_def)
  next
    case False
    with c have c1: "1 < lf_count a" by simp
    let ?us = "volumes_kept a vs" and ?full = "int (length vs) = lf_count a"
    let ?b = "(file_close a)\<lparr>lf_index := (if ?full then lf_count a - 1 else lf_index a)\<rparr>"
    let ?gs = "if ?full then delete_file (volume_path a (length vs - 1)) fs else fs"
    have full: "lf_index a > 0 \<and> lf_index a \<ge> lf_count a - 1 \<longleftrightarrow> ?full" using i c1 n by (auto simp: min_def split: if_splits)
    have "volumes_at (a\<lparr>lf_index := lf_index ?b\<rparr>) ?gs ?us" by (rule last_volume_goes [OF assms(1) c1])
    then have v: "volumes_at ?b ?gs ?us" by (simp add: volumes_at_def file_close_def volume_path_def)
    have us: "int (length ?us) < lf_count ?b" using c1 by (simp add: volumes_kept_def file_close_def)
    from volumes_move [OF v us] obtain v hs where v2: "sort_volumes (list_dir (lf_path ?b) ?gs) = Some v"
      "rename_volumes ?b v ?gs = Some hs" "moved ?b (length ?us) (map_of ?gs) (map_of hs)" "distinct (map fst hs)" by blast
    have old: "path_cat (lf_path a) (lf_name a @ ''.'' @ bee_itoa (lf_count a - 1)) = Some (volume_path a (length vs - 1))" if ?full
    proof -
      have "volume_name (lf_name a) (length vs - 1) = lf_name a @ ''.'' @ bee_itoa (lf_count a - 1)"
      proof -
        obtain j where j: "length vs = Suc j" using n(2) by (cases vs) auto
        with that c1 have "lf_count a - 1 = int j" "0 < j" by linarith+
        with j show ?thesis by (simp add: volume_name_def bee_itoa_def show_int_def)
      qed
      with assms(1) show ?thesis by (simp add: volumes_at_def path_cat_slash volume_path_def)
    qed
    let ?c = "?b\<lparr>lf_stream := Some (volume_path a 0), lf_index := lf_index ?b + 1\<rparr>"
    have run: "RollingVolumes now (a, fs) = Some (?c, AList.update (volume_path a 0) [] hs)"
      using c1 full v2 path old by (auto simp: RollingVolumes_def file_open_def file_close_def stream_open_def)
    have r: "rolled a vs = [] # ?us" using c1 by (simp add: rolled_def volumes_kept_def take_Cons')
    have "volumes_at ?c (AList.update (volume_path ?b 0) [] hs) ([] # ?us)"
      by (rule fresh_volume [OF v us v2(3,4)]; simp)
    then have "volumes_at ?c (AList.update (volume_path a 0) [] hs) (rolled a vs)"
      unfolding r by (simp add: volume_path_def file_close_def)
    moreover have "log_index_ok ?c (rolled a vs)"
      unfolding r using i n c1 by (auto simp: log_index_ok_def volumes_kept_def file_close_def min_def split: if_splits)
    ultimately show ?thesis using run by (auto simp: file_close_def)
  qed
qed

section \<open>Appending\<close>

text \<open>What appending means for the volumes and the size of the first.\<close>

fun log_step :: "int \<Rightarrow> int \<Rightarrow> string \<Rightarrow> string list \<times> int \<Rightarrow> string list \<times> int" where
  "log_step count limit t (vs, n) =
     (let (us, k) = (if 0 < limit \<and> limit \<le> n then (take (nat count) ([] # vs), 0) else (vs, n))
      in ((hd us @ t) # tl us, k + int (length t)))"

definition log_shows :: "log_file \<times> files \<Rightarrow> string list \<times> int \<Rightarrow> bool" where
  "log_shows st w \<longleftrightarrow>
     (case (st, w) of ((a, fs), (vs, n)) \<Rightarrow>
       volumes_at a fs vs \<and> log_index_ok a vs \<and> lf_stream a = Some (volume_path a 0) \<and> lf_current a = n)"

definition same_settings :: "log_file \<Rightarrow> log_file \<Rightarrow> bool" where
  "same_settings b a \<longleftrightarrow> lf_count b = lf_count a \<and> lf_volume_size b = lf_volume_size a \<and> lf_path b = lf_path a \<and> lf_name b = lf_name a"

lemma write_shows:
  assumes "log_shows (a, fs) (vs, n)"
  shows "log_shows (stream_write log (a\<lparr>lf_current := k\<rparr>, fs)) ((hd vs @ line_text log) # tl vs, k)
    \<and> (\<exists>fs'. stream_write log (a\<lparr>lf_current := k\<rparr>, fs) = (a\<lparr>lf_current := k\<rparr>, fs'))"
proof -
  let ?fs = "AList.update (volume_path a 0) (hd vs @ line_text log) fs"
  have v: "volumes_at a fs vs" "lf_stream a = Some (volume_path a 0)" using assms by (auto simp: log_shows_def)
  then have "vs \<noteq> []" "map_of fs (volume_path a 0) = Some (hd vs)" by (auto simp: volumes_at_def hd_conv_nth)
  with v(2) have w: "stream_write log (a\<lparr>lf_current := k\<rparr>, fs) = (a\<lparr>lf_current := k\<rparr>, ?fs)" by (simp add: stream_write_def)
  have "volumes_at (a\<lparr>lf_current := k\<rparr>) ?fs ((hd vs @ line_text log) # tl vs)"
  proof (rule volumes_at_change [OF v(1)])
    show "\<forall>j < length ((hd vs @ line_text log) # tl vs). map_of ?fs (volume_path a j) = Some (((hd vs @ line_text log) # tl vs) ! j)"
      using v(1) \<open>vs \<noteq> []\<close> by (auto simp: volumes_at_def update_conv' nth_Cons nth_tl split: nat.splits)
    show "int (length ((hd vs @ line_text log) # tl vs)) \<le> lf_count a"
      using v(1) \<open>vs \<noteq> []\<close> by (cases vs) (auto simp: volumes_at_def)
    show "\<forall>p. (\<forall>j < length ((hd vs @ line_text log) # tl vs). p \<noteq> volume_path a j) \<longrightarrow>
        map_of ?fs p = None \<or> map_of ?fs p = map_of fs p \<and> (\<forall>j < length vs. p \<noteq> volume_path a j)"
      using \<open>vs \<noteq> []\<close> by (cases vs) (auto simp: update_conv')
  qed (use v(1) in \<open>simp_all add: volumes_at_def AList.distinct_update\<close>)
  with w assms \<open>vs \<noteq> []\<close> show ?thesis by (auto simp: log_shows_def log_index_ok_def volume_path_def)
qed

lemma append_shows:
  assumes "log_shows (a, fs) (vs, n)" and "int32_fits (snd (log_step (lf_count a) (lf_volume_size a) (line_text log) (vs, n)))"
  shows "\<exists>a' fs'. file_append now log (a, fs) = Some (a', fs')
    \<and> log_shows (a', fs') (log_step (lf_count a) (lf_volume_size a) (line_text log) (vs, n))
    \<and> same_settings a' a"
proof -
  have c: "0 < lf_count a" and v: "volumes_at a fs vs" "log_index_ok a vs" and n: "lf_current a = n"
    using assms(1) by (auto simp: log_shows_def volumes_at_def)
  show ?thesis
  proof (cases "0 < lf_volume_size a \<and> lf_volume_size a \<le> n")
    case True
    from RollingVolumes_pushes [OF v, of now] obtain b gs where b: "RollingVolumes now (a, fs) = Some (b, gs)"
      "volumes_at b gs (rolled a vs)" "log_index_ok b (rolled a vs)" "lf_stream b = Some (volume_path a 0)"
      "b = a\<lparr>lf_stream := lf_stream b, lf_index := lf_index b\<rparr>" by blast
    have same: "volume_path b 0 = volume_path a 0" "lf_count b = lf_count a" "lf_volume_size b = lf_volume_size a"
      "lf_path b = lf_path a" "lf_name b = lf_name a"
      by (subst b(5); simp add: volume_path_def)+
    have "log_shows (b, gs) (rolled a vs, lf_current b)" using b(2,3,4) same by (simp add: log_shows_def)
    from write_shows [OF this, of log "int (length (line_text log))"]
    show ?thesis using True assms(2) c n b(1) same
      by (auto simp: same_settings_def file_append_def NewLog_def rolled_def log_step.simps simp del: take_Suc_Cons)
  next
    case False
    from write_shows [OF assms(1), of log "n + int (length (line_text log))"]
    show ?thesis using False assms(2) c n by (auto simp: same_settings_def file_append_def)
  qed
qed

text \<open>What the volumes hold of all that was written: the end of it, each within its bounds.\<close>

definition holds_end :: "int \<Rightarrow> int \<Rightarrow> int \<Rightarrow> string \<Rightarrow> string list \<times> int \<Rightarrow> bool" where
  "holds_end count limit longest written w \<longleftrightarrow>
     (case w of (vs, n) \<Rightarrow>
       vs \<noteq> [] \<and> int (length vs) \<le> count \<and> n = int (length (hd vs)) \<and> n < limit + longest \<and>
       suffix (concat (rev vs)) written \<and> (int (length vs) < count \<longrightarrow> concat (rev vs) = written) \<and>
       (\<forall>v \<in> set (tl vs). limit \<le> int (length v) \<and> int (length v) < limit + longest))"

lemma log_step_holds:
  assumes "holds_end count limit longest written (vs, n)" and "0 < limit" and "int (length t) \<le> longest"
  shows "holds_end count limit longest (written @ t) (log_step count limit t (vs, n)) \<and> snd (log_step count limit t (vs, n)) < limit + longest
    \<and> 0 \<le> snd (log_step count limit t (vs, n))"
proof -
  obtain v us where vs: "vs = v # us" using assms(1) by (cases vs) (auto simp: holds_end_def)
  have h: "int (length vs) \<le> count" "n = int (length v)" "n < limit + longest" "suffix (concat (rev vs)) written"
    "int (length vs) < count \<Longrightarrow> concat (rev vs) = written"
    "\<forall>u \<in> set us. limit \<le> int (length u) \<and> int (length u) < limit + longest"
    using assms(1) by (auto simp: holds_end_def vs)
  show ?thesis
  proof (cases "limit \<le> n")
    case False
    then have "log_step count limit t (vs, n) = ((v @ t) # us, n + int (length t))" by (simp add: vs)
    moreover have "suffix (concat (rev us) @ v @ t) (written @ t)" using h(4) by (auto simp: vs suffix_def)
    ultimately show ?thesis using h False assms(3) by (auto simp: holds_end_def vs)
  next
    case True
    define c where "c = nat count - 1"
    have "1 \<le> count" using h(1) vs by simp
    then have c: "nat count = Suc c" "count = int (Suc c)" unfolding c_def by linarith+
    have "log_step count limit t (vs, n) = (t # take c vs, int (length t))" using True assms(2) c(1) by simp
    moreover have "suffix (concat (rev (take c vs)) @ t) (written @ t)"
    proof -
      have "concat (rev vs) = concat (rev (drop c vs)) @ concat (rev (take c vs))"
        by (metis append_take_drop_id concat_append rev_append)
      with h(4) show ?thesis by (auto simp: suffix_def)
    qed
    moreover have "concat (rev (take c vs)) @ t = written @ t" if "int (length (t # take c vs)) < count"
      using that h(5) c by (simp add: min_def split: if_splits)
    moreover have "\<forall>u \<in> set (take c vs). limit \<le> int (length u) \<and> int (length u) < limit + longest"
      using h True vs set_take_subset [of c vs] by auto
    ultimately show ?thesis using assms(2,3) c by (simp add: holds_end_def)
  qed
qed

text \<open>Lines one after the other.\<close>

fun append_all :: "string \<Rightarrow> string list \<Rightarrow> log_file \<times> files \<Rightarrow> (log_file \<times> files) option" where
  "append_all now [] st = Some st"
| "append_all now (l # ls) st = do { st' \<leftarrow> file_append now l st; append_all now ls st' }"

lemma append_all_shows:
  assumes "log_shows (a, fs) w" and "holds_end (lf_count a) (lf_volume_size a) longest written w" and "0 < lf_volume_size a"
    and "lf_volume_size a + longest \<le> 2 ^ 31" and "\<forall>l \<in> set ls. int (length (line_text l)) \<le> longest"
  shows "\<exists>a' fs' w'. append_all now ls (a, fs) = Some (a', fs') \<and> log_shows (a', fs') w' \<and> same_settings a' a
    \<and> holds_end (lf_count a) (lf_volume_size a) longest (written @ concat (map line_text ls)) w'"
  using assms
proof (induction ls arbitrary: a fs w written)
  case Nil
  then show ?case by (cases w) (auto simp: same_settings_def)
next
  case (Cons l ls)
  obtain vs n where w: "w = (vs, n)" by fastforce
  let ?w = "log_step (lf_count a) (lf_volume_size a) (line_text l) (vs, n)"
  have h: "holds_end (lf_count a) (lf_volume_size a) longest (written @ line_text l) ?w" "snd ?w < lf_volume_size a + longest" "0 \<le> snd ?w"
    using log_step_holds [of "lf_count a" "lf_volume_size a" longest written vs n "line_text l"] Cons.prems w by auto
  then have "int32_fits (snd ?w)" using Cons.prems(4) by (auto simp: int32_fits_def)
  with append_shows [of a fs vs n l now] Cons.prems(1) w obtain b gs where
    b: "file_append now l (a, fs) = Some (b, gs)" "log_shows (b, gs) ?w" "same_settings b a"
    by blast
  from Cons.IH [OF b(2), of "written @ line_text l"] h(1) b(3) Cons.prems(3-5) b(1) show ?case by (auto simp: same_settings_def)
qed

text \<open>Opened in a directory without volumes, the log has one, and it is empty.\<close>

lemma max_index_none: "\<forall>v \<in> set vs. \<not> prefix name v \<Longrightarrow> 0 \<le> m \<Longrightarrow> max_index name vs m = Some m"
  by (induction vs) (auto simp: GetIndexFromVolume_def)

definition no_volumes :: "string \<Rightarrow> string \<Rightarrow> files \<Rightarrow> bool" where
  "no_volumes path name fs \<longleftrightarrow>
     distinct (map fst fs) \<and> (\<forall>v \<in> set (list_dir path fs). volume_key v \<noteq> None \<and> \<not> prefix name v)"

lemma open_fresh:
  assumes "no_volumes (lf_path a) (pre @ ''.log'') fs" and "lf_path a \<noteq> []" and "CHR ''/'' \<notin> set pre" and "0 < lf_count a" and "lf_count a \<le> 10"
    and "lf_current a = 0"
  shows "\<exists>b gs. file_open_prefix pre now (a, fs) = Some (b, gs) \<and> log_shows (b, gs) ([[]], 0)
    \<and> same_settings b (a\<lparr>lf_name := pre @ ''.log''\<rparr>)"
proof -
  let ?t = "with_slash (lf_path a) @ (if pre \<noteq> [] then pre else ''log'')"
  let ?b = "a\<lparr>lf_tag := ?t, lf_name := pre @ ''.log'', lf_index := 0, lf_stream := Some (with_slash (lf_path a) @ pre @ ''.log'')\<rparr>"
  let ?gs = "AList.update (volume_path ?b 0) [] fs"
  have vp: "volume_path ?b 0 = with_slash (lf_path a) @ pre @ ''.log''" by (simp add: volume_path_def volume_name_def)
  have l: "\<forall>v. map_of fs (with_slash (lf_path a) @ v) \<noteq> None \<and> CHR ''/'' \<notin> set v \<longrightarrow> volume_key v \<noteq> None \<and> \<not> prefix (pre @ ''.log'') v"
    and d: "distinct (map fst fs)"
    using assms(1) unfolding no_volumes_def Ball_def list_dir_iff by blast+
  have ns: "CHR ''/'' \<notin> set (pre @ ''.log'')" using assms(3) by simp
  have none: "map_of fs (volume_path ?b 0) = None" using l ns prefix_order.refl unfolding vp by blast
  have "GetMaxVolumeIndex (lf_path a) (pre @ ''.log'') fs = Some 0"
    using assms(1) by (simp add: GetMaxVolumeIndex_def no_volumes_def max_index_none)
  then have "file_open_prefix pre now (a, fs) = Some (?b, ?gs)"
    using assms(2,4) none by (simp add: file_open_prefix_def file_open_def path_cat_slash stream_open_def vp del: with_slash_def)
  moreover have "volume_key v \<noteq> None \<and> (prefix (pre @ ''.log'') v \<longrightarrow> v = pre @ ''.log'')"
    if "map_of ?gs (with_slash (lf_path a) @ v) \<noteq> None" "CHR ''/'' \<notin> set v" for v
  proof (cases "v = pre @ ''.log''")
    case True
    with volume_name_key [of v pre 0] show ?thesis by (simp add: volume_name_def)
  next
    case False
    with that l show ?thesis by (simp add: update_conv' vp)
  qed
  then have "volumes_at ?b ?gs [[]]"
    using assms ns d unfolding volumes_at_def by (simp add: update_conv' AList.distinct_update volume_name_def)
  ultimately show ?thesis using assms(4,6) vp by (simp add: log_shows_def log_index_ok_def same_settings_def)
qed

section \<open>From opening to closing\<close>

definition log_calls :: "string \<Rightarrow> string \<Rightarrow> BeeLogLevel \<Rightarrow> int \<Rightarrow> int \<Rightarrow> int \<Rightarrow> string \<Rightarrow> string list \<Rightarrow> logger \<Rightarrow> logger option" where
  "log_calls now path level max_line count volume_size pre ls lg =
     do {
       lg1 \<leftarrow> LoggerImpl_Open now path level max_line count volume_size pre False lg;
       LoggerImpl_Close now (fold LoggerImpl_Append ls lg1)
     }"

lemma append_posts:
  assumes "lg_opened lg"
  shows "fold LoggerImpl_Append ls lg = lg\<lparr>lg_tasks := lg_tasks lg @ map Inner_Append ls\<rparr>"
  using assms by (induction ls arbitrary: lg) (simp_all add: LoggerImpl_Append_def post_task_def)

lemma run_each_append: "run_each now (ts @ us) lg = do { lg' \<leftarrow> run_each now ts lg; run_each now us lg' }"
  by (induction ts arbitrary: lg) (auto split: bind_splits)

lemma run_appends:
  assumes "lg_appenders lg = [Appender_Console, Appender_Net, Appender_File a]" and "append_all now ls (a, lg_files lg) = Some (b, gs)"
  shows "run_each now (map Inner_Append ls) lg =
    Some (lg\<lparr>lg_appenders := [Appender_Console, Appender_Net, Appender_File b], lg_files := gs,
      lg_effects := lg_effects lg @ concat (map (\<lambda>l. [To_Console (line_text l), To_Net l]) ls)\<rparr>)"
  using assms
proof (induction ls arbitrary: lg a)
  case (Cons l ls)
  then obtain c hs where c: "file_append now l (a, lg_files lg) = Some (c, hs)" "append_all now ls (c, hs) = Some (b, gs)"
    by (auto split: bind_splits)
  let ?lg = "lg\<lparr>lg_appenders := [Appender_Console, Appender_Net, Appender_File c], lg_files := hs,
    lg_effects := lg_effects lg @ [To_Console (line_text l), To_Net l]\<rparr>"
  have "InnerAppend now l lg = Some ?lg" using Cons.prems(1) c(1) by (simp add: InnerAppend_def)
  with Cons.IH [of ?lg c] c(2) show ?case by simp
qed simp

text \<open>
  C17: Take a log that is not open and has no tasks left, a directory with a name in which no volumes of its name stand, at least 1 and at most 10
  volumes, a positive size, and lines of at most \<open>longest\<close> bytes, where one volume and a line fit 2 GB. From opening
  the log to closing it every line reaches the console and the net log, whole and in order, and the files hold the end
  of what was logged: all of it while there is room for one more volume, never more than \<open>count\<close> volumes, and no
  volume longer than its size and one line.
\<close>

theorem logged_lines_arrive:
  assumes "\<not> lg_opened lg" and "lg_tasks lg = []" and "no_volumes path (pre @ ''.log'') (lg_files lg)"
    and "path \<noteq> []" and "CHR ''/'' \<notin> set pre" and "0 < count" and "count \<le> 10" and "0 < volume_size" and "0 \<le> longest"
    and "volume_size * 1024 + longest < 2 ^ 31" and "\<forall>l \<in> set ls. int (length (line_text l)) \<le> longest"
  shows "\<exists>lg' vs. log_calls now path level max_line count volume_size pre ls lg = Some lg'
    \<and> \<not> lg_opened lg'
    \<and> lg_effects lg' = lg_effects lg @ concat (map (\<lambda>l. [To_Console (line_text l), To_Net l]) ls)
    \<and> (\<forall>k < length vs. map_of (lg_files lg') (with_slash path @ volume_name (pre @ ''.log'') k) = Some (vs ! k))
    \<and> holds_end count (volume_size * 1024) longest (concat (map line_text ls)) (vs, int (length (hd vs)))"
proof -
  let ?a = "SetVolumeCount count (SetLogFileMaxLine max_line (SetLogFilePath path LogAppenderFile_new))\<lparr>lf_volume_size := volume_size * 1024\<rparr>"
  have a: "file_appender path max_line count volume_size = Some ?a" "lf_path ?a = path" "lf_count ?a = count" "lf_current ?a = 0"
    using assms(4,6,8,9,10) by (simp_all add: file_appender_def SetVolumeSize_def SetVolumeCount_def SetLogFileMaxLine_def
      SetLogFilePath_def LogAppenderFile_new_def)
  from open_fresh [of ?a pre "lg_files lg" now] assms(3-7) a obtain b gs where
    b: "file_open_prefix pre now (?a, lg_files lg) = Some (b, gs)" "log_shows (b, gs) ([[]], 0)"
      "same_settings b (?a\<lparr>lf_name := pre @ ''.log''\<rparr>)" by auto
  have bs: "lf_count b = count" "lf_volume_size b = volume_size * 1024" "lf_path b = path" "lf_name b = pre @ ''.log''"
    using b(3) a(2,3) by (simp_all add: same_settings_def)
  have "holds_end (lf_count b) (lf_volume_size b) longest [] ([[]], 0)"
    using assms(6,8,9) bs by (simp add: holds_end_def)
  from append_all_shows [OF b(2) this, of ls now] assms(8,10,11) bs obtain c hs vs n where
    c: "append_all now ls (b, gs) = Some (c, hs)" "log_shows (c, hs) (vs, n)" "same_settings c b"
      "holds_end count (volume_size * 1024) longest (concat (map line_text ls)) (vs, n)" by auto
  let ?lg1 = "lg\<lparr>lg_service := True, lg_level := level, lg_appenders := [Appender_Console, Appender_Net, Appender_File b], lg_files := gs,
    lg_opened := True\<rparr>"
  let ?lg2 = "?lg1\<lparr>lg_opened := False, lg_appenders := [], lg_files := hs, lg_service := False,
    lg_effects := lg_effects lg @ concat (map (\<lambda>l. [To_Console (line_text l), To_Net l]) ls)\<rparr>"
  have "LoggerImpl_Open now path level max_line count volume_size pre False lg = Some ?lg1"
    using assms(1,2) a(1) b(1) by (simp add: LoggerImpl_Open_def log_thread_def post_task_def InnerOpen_def)
  moreover have "LoggerImpl_Close now (fold LoggerImpl_Append ls ?lg1) = Some ?lg2"
    using assms(2) run_appends [of "?lg1\<lparr>lg_opened := False, lg_tasks := []\<rparr>" b now ls c hs] c(1)
    by (simp add: append_posts LoggerImpl_Close_def log_thread_def post_task_def run_each_append InnerClose_def)
  moreover have "\<forall>k < length vs. map_of hs (with_slash path @ volume_name (pre @ ''.log'') k) = Some (vs ! k)"
    using c(2,3) bs by (simp add: log_shows_def volumes_at_def volume_path_def same_settings_def)
  moreover have "n = int (length (hd vs))" using c(4) by (simp add: holds_end_def)
  ultimately show ?thesis using c(4) unfolding log_calls_def by auto
qed

theorem logged_lines_arrive_witness:
  "\<exists>lg' vs. log_calls ''now'' ''logs'' kLogLevel_All 1000 2 1 ''bee'' [''one'', ''two''] (logger_start []) = Some lg'
    \<and> \<not> lg_opened lg' \<and> lg_effects lg' = [To_Console ''one'', To_Net ''one'', To_Console ''two'', To_Net ''two'']
    \<and> (\<forall>k < length vs. map_of (lg_files lg') (with_slash ''logs'' @ volume_name ''bee.log'' k) = Some (vs ! k))
    \<and> holds_end 2 1024 3 ''onetwo'' (vs, int (length (hd vs)))"
proof -
  have "\<not> lg_opened (logger_start [])" "lg_tasks (logger_start []) = []" "lg_files (logger_start []) = []" "lg_effects (logger_start []) = []"
    by (simp_all add: logger_start_def)
  moreover have "no_volumes ''logs'' (''bee'' @ ''.log'') []" by (simp add: no_volumes_def list_dir_def)
  ultimately show ?thesis
    using logged_lines_arrive [of "logger_start []" "''logs''" "''bee''" 2 1 3 "[''one'', ''two'']" "''now''" kLogLevel_All 1000]
    by (simp add: line_text_def)
qed

text \<open>The tenth rolled volume is not recognised: from then on neither opening the log nor rolling is defined.\<close>

theorem tenth_volume_breaks:
  assumes "map_of fs (volume_path a k) \<noteq> None" and "10 \<le> k" and "CHR ''/'' \<notin> set (lf_name a)" and "lf_name a = pre @ ''.log''"
    and "0 < lf_count a"
  shows "file_open_prefix pre now (a, fs) = None"
proof -
  have "CHR ''/'' \<notin> set (volume_name (lf_name a) k)"
    using assms(3) show_nat_digits [of k] digit_not by (auto simp: volume_name_def list_all_iff)
  then have l: "volume_name (lf_name a) k \<in> set (list_dir (lf_path a) fs)"
    using assms(1) by (simp add: list_dir_iff volume_path_def)
  have "2 \<le> length (show_nat k)" using assms(2) by (subst show_nat.simps) (simp add: Suc_le_eq)
  then have none: "GetIndexFromVolume (lf_name a) (volume_name (lf_name a) k) = None"
    using assms(2) by (simp add: GetIndexFromVolume_def volume_name_def)
  have "max_index (lf_name a) vs m = None" if "volume_name (lf_name a) k \<in> set vs" for vs m
    using that none by (induction vs arbitrary: m) (auto split: bind_splits)
  with l have "GetMaxVolumeIndex (lf_path a) (lf_name a) fs = None" by (simp add: GetMaxVolumeIndex_def)
  with assms(4,5) show ?thesis by (auto simp: file_open_prefix_def split: bind_splits)
qed

theorem tenth_volume_breaks_witness:
  "file_open_prefix ''bee'' ''now'' (LogAppenderFile_new\<lparr>lf_path := ''logs'', lf_name := ''bee.log'', lf_count := 20\<rparr>, [(''logs/bee.log.10'', ''old'')]) = None"
proof (rule tenth_volume_breaks [where k = 10])
  have "volume_path (LogAppenderFile_new\<lparr>lf_path := ''logs'', lf_name := ''bee.log'', lf_count := 20\<rparr>) 10 = ''logs/bee.log.10''"
    by code_simp
  then show "map_of [(''logs/bee.log.10'', ''old'')] (volume_path (LogAppenderFile_new\<lparr>lf_path := ''logs'', lf_name := ''bee.log'', lf_count := 20\<rparr>) 10) \<noteq> None"
    by simp
qed simp_all

end
