(* ===== verification/Spec2Isabelle.thy ===== *)
theory Spec2Isabelle
  imports Bee_Prelude Bee_Strings Bee_IOBuffer Bee_Simple_FSM Bee_Lua_Engine Bee_Session Bee_Timer
    Bee_Promise Bee_Entrance Bee_XXTEA Bee_Algorithm Bee_Http_Message Bee_Async_FSM Bee_Tcp_Machine
    Bee_Tcp_States Bee_Http_Body Bee_Io_Service Bee_Http_Session
    Bee_Flow Bee_Crypto Bee_CA_Signature Bee_CA_Client Bee_CA_Run Bee_Statusd
    Bee_Scanf Bee_Lua_Objects Bee_Video_Cache Bee_Data_Promise Bee_Lua_Buffers Bee_Http_Reader
    Bee_Lua_Cache Bee_Lua_Crypto Bee_Lua_Functions Bee_Lua_Http Bee_Lua_Http_Module
    Bee_Lws Bee_Lws_Run Bee_Lws_Life Bee_Lws_Module Bee_Lua_Timer Bee_Webrtc Bee_Webrtc_Module Bee_Webrtc_Run
    Bee_Safe_Queue Bee_Threads Bee_Logger Bee_Log_Volumes
begin

text \<open>
  The Bee SDK (src/src) runs Lua scripts for an application: a service opens sessions, each with a Lua
  engine of its own, and gives the scripts timers, buffers, cryptography and HTTP. This development
  models the parts of it that decide something and proves what makes each of them correct.

  \<^bold>\<open>The service.\<close> \<open>Bee\<close> and \<open>BeeService\<close> (api/bee/base) are a facade on \<open>BeeEntrance\<close>
  (service/bee_entrance.cpp). A call of the API creates a promise (service/bee_promise.cpp), posts a
  handler to the event loop and waits for the promise, which a timer (utility/timer.h) gives up on. The
  handlers drive a transition table (state/simple_state_machine.cpp) and the \<open>SessionManager\<close>
  (session/), whose sessions run scripts in a \<open>LuaEngine\<close> (lua/lua_engine.cpp).

  \<^item> \<open>Bee_Prelude\<close>: error codes and log levels, association lists, the C++ readings of integers.
  \<^item> \<open>Bee_Strings\<close>: the operations of \<open>std::string\<close> in use, \<open>npos\<close> as \<open>None\<close>.
  \<^item> \<open>Bee_IOBuffer\<close> (utility/iobuffer.h): a buffer as begin and end in an array, assertions as \<open>None\<close>.
  \<^item> \<open>Bee_Simple_FSM\<close>: the transition table; an access outside of it is \<open>None\<close>.
  \<^item> \<open>Bee_Lua_Engine\<close>: open, close, execute and the capability table, on a record \<open>lua_api\<close> of
    functions that stands for liblua.
  \<^item> \<open>Bee_Session\<close>: \<open>BeeSession\<close> and the pool of sessions. \<open>begin()\<close> of an unordered map and the random
    device are parameters; the pool's invariant is kept by opening and closing.
  \<^item> \<open>Bee_Timer\<close>, \<open>Bee_Promise\<close>: pending waits and due handlers of a timer under a step relation;
    the promises, honoured once.
  \<^item> \<open>Bee_Entrance\<close>: start, stop, the posted handlers and the calls that wait. A call is its handler
    followed by the wait on a loop of one thread; effects on other components are a list.

  \<^bold>\<open>The network.\<close> \<open>AsyncStateMachine\<close> (state/) is a graph of states that run on the event loop: a
  state's handler calls \<open>done\<close>, a router chooses the successor, a transform fills its input event, and
  what ends a run is handed to the machine's \<open>output\<close>. The TCP machine
  (network/tcp_state_machine.cpp) has states to resolve, connect, send and receive; the HTTP machine
  (network/http_state_machine.cpp) adds those for a request, a header and a body, on the messages of
  http/.

  \<^item> \<open>Bee_Async_FSM\<close>: states are pointers into a heap, posted executions a queue, routers and
    transforms parameters, the machine's derived members a field. The theorems say what
    \<open>done\<close> does, that every \<open>done\<close> and every execution that fails is answered by one posted state or one report,
    whatever the states do in between, so that a run in which each execution calls \<open>done\<close> once reports exactly once,
    and what the macros that describe a machine build.
  \<^item> \<open>Bee_Flow\<close>: the contract between the asynchronous machine and a class derived from it, as the locale
    \<open>machine_flow\<close>: when routers and transforms obey a description of what may follow, the machine
    built from them implements that flow. The HTTP session, the CA client and the status client are its
    instances.
  \<^item> \<open>Bee_Tcp_Machine\<close>: sockets, start and stop, the send queue, which refines a queue of bytes.
  \<^item> \<open>Bee_Tcp_States\<close>: the resolve, connect and length-prefixed receive states; what asio answers is
    an argument of each handler.
  \<^item> \<open>Bee_Http_Message\<close>: requests, responses, URLs, ranges, parsing and printing.
  \<^item> \<open>Bee_Http_Body\<close>: the request, header and body states; chunked content under a step relation that
    lets the network cut the stream anywhere.
  \<^item> \<open>Bee_Http_Session\<close> (network/http_session.cpp): the five states of a session, their routers and
    transforms as an instance of the asynchronous machine, shown to implement the flow of a session;
    request and redirection. An output event that nobody has set up, which \<open>done\<close> reports without asking a router, is a case of
    its own, here and in the sessions of scripts.
  \<^item> \<open>Bee_Io_Service\<close> (network/io_service.cpp): the event loop's life cycle, with an interface for what
    is started and stopped repeatedly.

  \<^bold>\<open>The servers.\<close> The SDK gets its script and keys from a CA server (server/ca) and reports to a
  status server (server/statusd), each by a machine of the kind above.

  \<^item> \<open>Bee_CA_Signature\<close>: the signatures with which both sides prove that they know a public key, against
    a reference definition of the bytes they cover.
  \<^item> \<open>Bee_CA_Client\<close> (server/ca/ca_client.cpp): the ten states of the client with their routers, transforms
    and packets; openssl, zlib and the handler are a record of functions. \<open>Bee_CA_Run\<close>: every run answers
    its handler once, a server that follows the protocol is understood, one backup address is tried.
  \<^item> \<open>Bee_Statusd\<close> (server/statusd/statusd_client.cpp): the status client. Its packets are read back, what is
    written is what was asked for in order, its machine logs in.

  \<^bold>\<open>The modules for scripts\<close> (lua/module). A coroutine is a number; what it does when it is resumed is a
  function.

  \<^item> \<open>Bee_Scanf\<close>: formatted reading over an interface for sources of bytes, against a reference decoder.
  \<^item> \<open>Bee_Video_Cache\<close> (lua_video_cache.cpp): the ring buffer refines a bounded queue, with the cases in
    which it does not.
  \<^item> \<open>Bee_Data_Promise\<close> (lua_data_promise.cpp): promises of data and the functions that wait for them.
    \<open>Bee_Lua_Cache\<close>: the module's functions by name, on what a script passes; what it writes it reads, but
    its writing wakes nobody who waits. \<open>Bee_Lua_Crypto\<close> (lua_crypto_module.cpp): decryption of what a cache holds,
    with the ciphers as parameters and the cases in which bytes are lost or buffers overrun.
  \<^item> \<open>Bee_Lua_Functions\<close> (lua/lua_engine.cpp): the functions the engine registers itself, from logging to notifying a
    service, and what a script has to see to so that none of them runs into undefined behaviour.
  \<^item> \<open>Bee_Lua_Objects\<close> (lua_module_mgr.h): arguments and answers of module functions, and the table of
    handles a module keeps its objects under. \<open>Bee_Lua_Buffers\<close> (lua_iobuffer_module.cpp): buffers for scripts,
    each with the identity of its array, since scripts hold raw pointers to it.
  \<^item> \<open>Bee_Http_Reader\<close> (lua_http_reader.cpp, lua_http_session.cpp): coroutines that read a chunked body by
    hand, under a step relation in which the network cuts it anywhere; a reader's memory is the second
    source of bytes for formatted reading.
  \<^item> \<open>Bee_Lua_Http\<close> (lua_http_session.cpp): a script's HTTP session as the client of its machine. What a
    script does in its callbacks and after it has been resumed are arguments of each step, a state's report a
    label; the asynchronous machine with the session's answers in its routers follows these steps, a coroutine
    that asked for a page is resumed once, a closed session is silent. The locale \<open>script_relation\<close> proves once
    that what holds of a call and an answer holds of all that a report sets off. \<open>Bee_Lua_Http_Module\<close>
    (lua_http_module.cpp): the functions and their handles, from opening to the answer.
  \<^item> \<open>Bee_Lws\<close> (lua_lws_session.cpp, lua_lws_service.cpp): websockets. The script's thread and the thread of
    libwebsockets meet in a table under a mutex, so their critical sections are the steps of a relation; what a
    script writes goes out in order. \<open>Bee_Lws_Run\<close>: frames are put together to messages. \<open>Bee_Lws_Life\<close>:
    what a script is told, and closing everything. \<open>Bee_Lws_Module\<close> (lua_lws_module.cpp): the functions.
  \<^item> \<open>Bee_Webrtc\<close> (lua_webrtc_peer_connection.cpp, lua_webrtc_service.cpp, lua_webrtc_video_sink.cpp): peer
    connections. What libwebrtc answers is a record of values, what it reports is an event, and both threads
    meet in what is posted to the event loop. An offer may be ready before the call that asks for it has posted
    anything itself; that is a field of the record. \<open>Bee_Webrtc_Module\<close> (lua_webrtc_module.cpp): the functions, and the
    step relation. \<open>Bee_Webrtc_Run\<close>: reports reach the script in order until it closes, so does what
    comes of an offer, and what becomes of callbacks that are left out.
  \<^item> \<open>Bee_Lua_Timer\<close> (lua_timer.cpp, lua_timer_module.cpp): timers for scripts, on \<open>Bee_Timer\<close>.

  \<^bold>\<open>Threads\<close> (comLib/). The websocket service's thread is a \<open>comLib::Thread\<close>, which waits through queues.
  \<open>Bee_Safe_Queue\<close> has the queue with its mutex and semaphores: operations are sequences of accesses, threads
  interleave between any two. Its invariant counts what the rest of every operation still owes to the semaphores; it
  shows that the queue never breaks, and exactly when a push waits for ever. \<open>Bee_Threads\<close> has the deadlines of
  timed waits and starting and stopping a thread, with what timeouts do to it.

  \<^bold>\<open>Logging\<close> (log/). \<open>Bee_Logger\<close> has the lines, the file appender and the logger's thread, on a file
  system that is a list of paths with contents. \<open>Bee_Log_Volumes\<close> shows that rolling pushes an empty volume
  onto the list of volumes and that the files hold the end of what was logged; ten volumes are the bound, behind
  which the code's reading of its file names is undefined.

  \<^bold>\<open>Helpers.\<close> \<open>Bee_XXTEA\<close> (utility/crypto.cpp) is the cipher on \<open>32 word\<close>s; \<open>Bee_Crypto\<close>
  has the wrappers around RSA and inflate; \<open>Bee_Algorithm\<close>
  (utility/algorithm.h, utility/file_util.cpp) holds \<open>Split\<close> and the number and path helpers.

  \<^bold>\<open>Conventions.\<close> An error code is a value. \<open>None\<close> is undefined behaviour, a failed assertion or an
  abort, so a theorem that gives \<open>Some\<close> also says that none of these happens. Integers that may wrap are
  words or written out \<open>mod\<close> a power of two; the host is little-endian with a 64-bit \<open>size_t\<close>. Text is
  \<open>string\<close>, binary data a list of bytes. The loops that may not end (\<open>Split\<close> with an empty separator,
  the decryption's loop on \<open>sum\<close>, decompression) are \<open>partial_function (option)\<close>, with theorems that say when they do.

  \<^bold>\<open>Not modelled.\<close> Code that is not in src/src (liblua, openssl, zlib, boost::asio, libwebrtc,
  libwebsockets) is a parameter or its results are arguments. The JSON and Lua C libraries are vendored.
  The layers for Android, iOS and Windows translate the facade for their platforms. The certificate store is openssl's, the buffer pool is
  behind conditions that are never true, the other containers of comLib are included nowhere, and nothing creates the
  default HTTP session of scripts.
\<close>

end
